(* ===== verification/Jack_Prelude.thy ===== *)
theory Jack_Prelude
  imports "HOL-Library.Word"
begin

text \<open>
  Shared vocabulary of the development: the C integer types as words, the outcome type for
  code that may run into undefined behaviour or a failed \<open>assert\<close>, block copies into byte
  arrays, little-endian 16 and 32 bit accesses, and the arithmetic facts on masks and
  wrap-around that the components use.
\<close>

unbundle bit_operations_syntax

type_synonym byte = "8 word"
type_synonym u16 = "16 word"
type_synonym u32 = "32 word"
type_synonym u64 = "64 word"
type_synonym size_t = "64 word"
type_synonym jack_nframes_t = "32 word"

named_theorems unat_simps \<open>word operations read as natural numbers\<close>

text \<open>Undefined behaviour and failed assertions are values of their own.\<close>

datatype 'a c_result = Undefined | AssertFailed | Value 'a

section \<open>Masks and wrap-around\<close>

lemma unat_take_bit_mod:
  fixes x :: "'a::len word"
  shows "unat (take_bit k x) = unat x mod 2 ^ k"
proof -
  have "unat (take_bit k x) = take_bit k (unat x)"
    by transfer (simp flip: nat_take_bit_eq add: take_bit_take_bit ac_simps)
  then show ?thesis by (simp add: take_bit_eq_mod)
qed

lemma unat_and_mask [unat_simps]:
  fixes x :: "'a::len word"
  shows "unat (x AND (2 ^ k - 1)) = unat x mod 2 ^ k"
proof -
  have "x AND (2 ^ k - 1) = take_bit k x"
    by (simp add: take_bit_eq_mask mask_eq_exp_minus_1)
  then show ?thesis by (simp add: unat_take_bit_mod)
qed

lemma unat_pow2 [unat_simps]:
  "k < LENGTH('a) \<Longrightarrow> unat (2 ^ k :: 'a::len word) = 2 ^ k"
  by transfer (simp add: take_bit_eq_mod nat_mod_distrib nat_power_eq)

lemma unat_add_no_wrap [unat_simps]:
  fixes a b :: "'a::len word"
  shows "unat a + unat b < 2 ^ LENGTH('a) \<Longrightarrow> unat (a + b) = unat a + unat b"
  by (simp add: unat_word_ariths)

lemma unat_sub_le [unat_simps]:
  fixes a b :: "'a::len word"
  shows "unat b \<le> unat a \<Longrightarrow> unat (a - b) = unat a - unat b"
  by (simp add: unat_sub word_le_nat_alt)

lemma unat_ucast_up [unat_simps]:
  fixes x :: "'a::len word"
  assumes "LENGTH('a) \<le> LENGTH('b::len)"
  shows "unat (ucast x :: 'b word) = unat x"
proof -
  have "unat x < 2 ^ LENGTH('a)" by (rule unsigned_less)
  also have "(2 :: nat) ^ LENGTH('a) \<le> 2 ^ LENGTH('b)" using assms by (rule power_increasing) simp
  finally show ?thesis by (simp add: unsigned_ucast_eq take_bit_nat_eq_self)
qed

lemma unat_ucast_mod [unat_simps]:
  fixes x :: "'a::len word"
  shows "unat (ucast x :: 'b::len word) = unat x mod 2 ^ LENGTH('b)"
  by (simp add: unsigned_ucast_eq take_bit_eq_mod)

lemma unat_lt: "unat (x :: 'a::len word) < 2 ^ LENGTH('a)"
  by (rule unsigned_less)

section \<open>Block copies\<close>

text \<open>
  \<open>memcpy_at dst off src\<close> is \<open>memcpy (&dst[off], src, n)\<close> for \<open>n = length src\<close>. A copy that
  runs past the end of \<open>dst\<close> would make the list longer, so that a proof that the length is
  kept is a proof that the copy stays in bounds.
\<close>

definition memcpy_at :: "'a list \<Rightarrow> nat \<Rightarrow> 'a list \<Rightarrow> 'a list" where
  "memcpy_at dst off src = take off dst @ src @ drop (off + length src) dst"

definition bytes_at :: "'a list \<Rightarrow> nat \<Rightarrow> nat \<Rightarrow> 'a list" where
  "bytes_at xs off n = take n (drop off xs)"

lemma length_memcpy_at [simp]:
  "off + length src \<le> length dst \<Longrightarrow> length (memcpy_at dst off src) = length dst"
  by (simp add: memcpy_at_def)

lemma nth_memcpy_at:
  "off + length src \<le> length dst \<Longrightarrow> i < length dst \<Longrightarrow>
   memcpy_at dst off src ! i = (if off \<le> i \<and> i < off + length src then src ! (i - off) else dst ! i)"
  by (auto simp: memcpy_at_def nth_append min_def)

lemma memcpy_at_Nil [simp]: "memcpy_at dst off [] = dst"
  by (simp add: memcpy_at_def)

lemma length_bytes_at [simp]: "length (bytes_at xs off n) = min n (length xs - off)"
  by (simp add: bytes_at_def)

lemma nth_bytes_at: "i < n \<Longrightarrow> off + i < length xs \<Longrightarrow> bytes_at xs off n ! i = xs ! (off + i)"
  by (simp add: bytes_at_def)

lemma bytes_at_memcpy_same [simp]:
  "off + length src \<le> length dst \<Longrightarrow> bytes_at (memcpy_at dst off src) off (length src) = src"
  by (simp add: bytes_at_def memcpy_at_def)

lemma bytes_at_memcpy_other:
  assumes "off + length src \<le> length dst"
    and "o2 + n \<le> off \<or> off + length src \<le> o2"
  shows "bytes_at (memcpy_at dst off src) o2 n = bytes_at dst o2 n"
proof (rule nth_equalityI)
  show "length (bytes_at (memcpy_at dst off src) o2 n) = length (bytes_at dst o2 n)"
    using assms(1) by simp
next
  fix i
  assume "i < length (bytes_at (memcpy_at dst off src) o2 n)"
  then have "i < n" "o2 + i < length dst"
    using assms(1) by auto
  then show "bytes_at (memcpy_at dst off src) o2 n ! i = bytes_at dst o2 n ! i"
    using assms by (auto simp: nth_bytes_at nth_memcpy_at)
qed


lemma bytes_at_memcpy_part:
  "off + length src \<le> length dst \<Longrightarrow> i + n \<le> length src \<Longrightarrow>
   bytes_at (memcpy_at dst off src) (off + i) n = take n (drop i src)"
  by (simp add: bytes_at_def memcpy_at_def)

section \<open>Little-endian numbers in memory\<close>

fun nat_le :: "nat \<Rightarrow> nat \<Rightarrow> byte list" where
  "nat_le 0 n = []"
| "nat_le (Suc k) n = of_nat n # nat_le k (n div 256)"

fun le_nat :: "byte list \<Rightarrow> nat" where
  "le_nat [] = 0"
| "le_nat (b # bs) = unat b + 256 * le_nat bs"

lemma length_nat_le [simp]: "length (nat_le k n) = k"
  by (induction k n rule: nat_le.induct) simp_all

lemma nat_le_numeral: "nat_le (numeral k) n = of_nat n # nat_le (pred_numeral k) (n div 256)"
  unfolding numeral_eq_Suc [of k] by (rule nat_le.simps)

lemma le_nat_le: "n < 256 ^ k \<Longrightarrow> le_nat (nat_le k n) = n"
proof (induction k n rule: nat_le.induct)
  case (2 k n)
  then have "n div 256 < 256 ^ k" by (simp add: less_mult_imp_div_less mult.commute)
  then show ?case using 2 by (simp add: unat_of_nat)
qed simp

lemma le_nat_bound: "le_nat bs < 256 ^ length bs"
proof (induction bs)
  case (Cons b bs)
  have "unat b < 256" using unsigned_less [of b] by simp
  then show ?case using Cons by simp
qed simp

section \<open>Decimal numbers\<close>

text \<open>What \<open>printf ("%d", n)\<close> writes for a number that is not negative.\<close>

fun decimal :: "nat \<Rightarrow> string" where
  "decimal n = (if n < 10 then [char_of (48 + n)] else decimal (n div 10) @ [char_of (48 + n mod 10)])"

declare decimal.simps [simp del]

definition undecimal :: "string \<Rightarrow> nat" where
  "undecimal s = foldl (\<lambda>a c. 10 * a + (of_char c - 48)) 0 s"

lemma undecimal_decimal: "undecimal (decimal n) = n"
proof (induction n rule: decimal.induct)
  case (1 n)
  have d: "m < 10 \<Longrightarrow> of_char (char_of (48 + m) :: char) = 48 + (m :: nat)" for m by simp
  show ?case
  proof (cases "n < 10")
    case True
    then show ?thesis by (simp add: undecimal_def decimal.simps [of n] d del: of_char_of)
  next
    case False
    then have "foldl (\<lambda>a c. 10 * a + (of_char c - 48)) 0 (decimal (n div 10)) = n div 10"
      using 1 by (simp add: undecimal_def)
    then show ?thesis using False by (simp add: undecimal_def decimal.simps [of n] d del: of_char_of)
  qed
qed

lemma decimal_inject [simp]: "decimal m = decimal n \<longleftrightarrow> m = n"
  by (metis undecimal_decimal)

section \<open>Error numbers\<close>

definition ENOENT :: int where "ENOENT = 2"
definition EIO :: int where "EIO = 5"
definition ENOMEM :: int where "ENOMEM = 12"
definition EEXIST :: int where "EEXIST = 17"
definition EINVAL :: int where "EINVAL = 22"
definition ENOSPC :: int where "ENOSPC = 28"

lemmas errno_defs = ENOENT_def EIO_def ENOMEM_def EEXIST_def EINVAL_def ENOSPC_def

section \<open>Signed 32 bit values\<close>

definition s32 :: "int \<Rightarrow> int" where
  "s32 x = (x + 2 ^ 31) mod 2 ^ 32 - 2 ^ 31"

lemma s32_id: "- (2 ^ 31) \<le> x \<Longrightarrow> x < 2 ^ 31 \<Longrightarrow> s32 x = x"
  by (simp add: s32_def)

end
