(* ===== verification/Ringbuffer.thy ===== *)
theory Ringbuffer
  imports Jack_Prelude
begin

text \<open>
  The lock-free ring buffer of \<open>libjack/ringbuffer.c\<close> and \<open>jack/ringbuffer.h\<close>: its record, every
  operation on 64 bit \<open>size_t\<close> values, its refinement to a bounded byte queue, and the byte
  queue as an interface (\<open>bounded_fifo\<close>) whose clients see first-in first-out order for any
  sequence of operations.
\<close>

section \<open>The data and the operations\<close>

record jack_ringbuffer_t =
  buf :: "byte list"
  write_ptr :: size_t
  read_ptr :: size_t
  rb_size :: size_t
  size_mask :: size_t
  mlocked :: bool

text \<open>A segment of the buffer: the index the pointer \<open>buf\<close> stands for, and its length.\<close>

record jack_ringbuffer_data_t =
  vec_buf :: size_t
  vec_len :: size_t

text \<open>
  The loop \<open>for (power_of_two = 1; 1 << power_of_two < sz; power_of_two++)\<close>. The shift is on
  \<open>int\<close>, so that it is undefined from 31 on.
\<close>

function rb_power_of_two :: "size_t \<Rightarrow> nat \<Rightarrow> nat c_result" where
  "rb_power_of_two sz p =
     (if 31 \<le> p then Undefined
      else if (2 ^ p :: size_t) < sz then rb_power_of_two sz (Suc p)
      else Value p)"
  by pat_completeness auto
termination
  by (relation "measure (\<lambda>(sz, p). 31 - p)") auto

declare rb_power_of_two.simps [simp del]

text \<open>
  \<open>got_rb\<close> says whether the first \<open>malloc\<close> succeeds and \<open>malloc_buf n\<close> is the block the second
  one returns for \<open>n\<close> bytes.
\<close>

definition jack_ringbuffer_create ::
  "bool \<Rightarrow> (size_t \<Rightarrow> byte list option) \<Rightarrow> size_t \<Rightarrow> jack_ringbuffer_t option c_result" where
  "jack_ringbuffer_create got_rb malloc_buf sz =
     (if \<not> got_rb then Value None
      else case rb_power_of_two sz 1 of
        Value p \<Rightarrow>
          (case malloc_buf (2 ^ p) of
             None \<Rightarrow> Value None
           | Some b \<Rightarrow> Value (Some \<lparr>buf = b, write_ptr = 0, read_ptr = 0, rb_size = 2 ^ p,
                              size_mask = 2 ^ p - 1, mlocked = False\<rparr>))
      | Undefined \<Rightarrow> Undefined
      | AssertFailed \<Rightarrow> AssertFailed)"

definition jack_ringbuffer_mlock ::
  "bool \<Rightarrow> jack_ringbuffer_t \<Rightarrow> jack_ringbuffer_t \<times> int" where
  "jack_ringbuffer_mlock mlock_fails rb =
     (if mlock_fails then (rb, -1) else (rb\<lparr>mlocked := True\<rparr>, 0))"

definition jack_ringbuffer_reset :: "jack_ringbuffer_t \<Rightarrow> jack_ringbuffer_t" where
  "jack_ringbuffer_reset rb = rb\<lparr>read_ptr := 0, write_ptr := 0\<rparr>"

definition jack_ringbuffer_read_space :: "jack_ringbuffer_t \<Rightarrow> size_t" where
  "jack_ringbuffer_read_space rb =
     (let w = write_ptr rb; r = read_ptr rb in
      if r < w then w - r else (w - r + rb_size rb) AND size_mask rb)"

definition jack_ringbuffer_write_space :: "jack_ringbuffer_t \<Rightarrow> size_t" where
  "jack_ringbuffer_write_space rb =
     (let w = write_ptr rb; r = read_ptr rb in
      if r < w then ((r - w + rb_size rb) AND size_mask rb) - 1
      else if w < r then (r - w) - 1
      else rb_size rb - 1)"

text \<open>
  The reader returns the new ring buffer, the bytes stored at \<open>dest\<close> and the count.
\<close>

definition jack_ringbuffer_read ::
  "jack_ringbuffer_t \<Rightarrow> size_t \<Rightarrow> jack_ringbuffer_t \<times> byte list \<times> size_t" where
  "jack_ringbuffer_read rb cnt =
     (let free_cnt = jack_ringbuffer_read_space rb in
      if free_cnt = 0 then (rb, [], 0)
      else
        let to_read = (if free_cnt < cnt then free_cnt else cnt);
            cnt2 = read_ptr rb + to_read;
            (n1, n2) = (if rb_size rb < cnt2
                        then (rb_size rb - read_ptr rb, cnt2 AND size_mask rb)
                        else (to_read, 0));
            d1 = bytes_at (buf rb) (unat (read_ptr rb)) (unat n1);
            rb1 = rb\<lparr>read_ptr := (read_ptr rb + n1) AND size_mask rb\<rparr>
        in if n2 \<noteq> 0 then
             (rb1\<lparr>read_ptr := (read_ptr rb1 + n2) AND size_mask rb\<rparr>,
              d1 @ bytes_at (buf rb) (unat (read_ptr rb1)) (unat n2), to_read)
           else (rb1, d1, to_read))"

definition jack_ringbuffer_peek ::
  "jack_ringbuffer_t \<Rightarrow> size_t \<Rightarrow> byte list \<times> size_t" where
  "jack_ringbuffer_peek rb cnt =
     (let tmp_read_ptr = read_ptr rb;
          free_cnt = jack_ringbuffer_read_space rb in
      if free_cnt = 0 then ([], 0)
      else
        let to_read = (if free_cnt < cnt then free_cnt else cnt);
            cnt2 = tmp_read_ptr + to_read;
            (n1, n2) = (if rb_size rb < cnt2
                        then (rb_size rb - tmp_read_ptr, cnt2 AND size_mask rb)
                        else (to_read, 0));
            d1 = bytes_at (buf rb) (unat tmp_read_ptr) (unat n1);
            tmp_read_ptr' = (tmp_read_ptr + n1) AND size_mask rb
        in if n2 \<noteq> 0 then (d1 @ bytes_at (buf rb) (unat tmp_read_ptr') (unat n2), to_read)
           else (d1, to_read))"

definition jack_ringbuffer_write ::
  "jack_ringbuffer_t \<Rightarrow> byte list \<Rightarrow> size_t \<Rightarrow> jack_ringbuffer_t \<times> size_t" where
  "jack_ringbuffer_write rb src cnt =
     (let free_cnt = jack_ringbuffer_write_space rb in
      if free_cnt = 0 then (rb, 0)
      else
        let to_write = (if free_cnt < cnt then free_cnt else cnt);
            cnt2 = write_ptr rb + to_write;
            (n1, n2) = (if rb_size rb < cnt2
                        then (rb_size rb - write_ptr rb, cnt2 AND size_mask rb)
                        else (to_write, 0));
            rb1 = rb\<lparr>buf := memcpy_at (buf rb) (unat (write_ptr rb)) (take (unat n1) src),
                     write_ptr := (write_ptr rb + n1) AND size_mask rb\<rparr>
        in if n2 \<noteq> 0 then
             (rb1\<lparr>buf := memcpy_at (buf rb1) (unat (write_ptr rb1))
                           (take (unat n2) (drop (unat n1) src)),
                  write_ptr := (write_ptr rb1 + n2) AND size_mask rb\<rparr>, to_write)
           else (rb1, to_write))"

definition jack_ringbuffer_read_advance :: "jack_ringbuffer_t \<Rightarrow> size_t \<Rightarrow> jack_ringbuffer_t" where
  "jack_ringbuffer_read_advance rb cnt = rb\<lparr>read_ptr := (read_ptr rb + cnt) AND size_mask rb\<rparr>"

definition jack_ringbuffer_write_advance :: "jack_ringbuffer_t \<Rightarrow> size_t \<Rightarrow> jack_ringbuffer_t" where
  "jack_ringbuffer_write_advance rb cnt = rb\<lparr>write_ptr := (write_ptr rb + cnt) AND size_mask rb\<rparr>"

definition jack_ringbuffer_get_read_vector ::
  "jack_ringbuffer_t \<Rightarrow> jack_ringbuffer_data_t \<times> jack_ringbuffer_data_t
   \<Rightarrow> jack_ringbuffer_data_t \<times> jack_ringbuffer_data_t" where
  "jack_ringbuffer_get_read_vector rb vec =
     (let w = write_ptr rb; r = read_ptr rb;
          free_cnt = (if r < w then w - r else (w - r + rb_size rb) AND size_mask rb);
          cnt2 = r + free_cnt in
      if rb_size rb < cnt2 then
        (\<lparr>vec_buf = r, vec_len = rb_size rb - r\<rparr>,
         \<lparr>vec_buf = 0, vec_len = cnt2 AND size_mask rb\<rparr>)
      else (\<lparr>vec_buf = r, vec_len = free_cnt\<rparr>, (snd vec)\<lparr>vec_len := 0\<rparr>))"

definition jack_ringbuffer_get_write_vector ::
  "jack_ringbuffer_t \<Rightarrow> jack_ringbuffer_data_t \<times> jack_ringbuffer_data_t
   \<Rightarrow> jack_ringbuffer_data_t \<times> jack_ringbuffer_data_t" where
  "jack_ringbuffer_get_write_vector rb vec =
     (let w = write_ptr rb; r = read_ptr rb;
          free_cnt = (if r < w then ((r - w + rb_size rb) AND size_mask rb) - 1
                      else if w < r then (r - w) - 1
                      else rb_size rb - 1);
          cnt2 = w + free_cnt in
      if rb_size rb < cnt2 then
        (\<lparr>vec_buf = w, vec_len = rb_size rb - w\<rparr>,
         \<lparr>vec_buf = 0, vec_len = cnt2 AND size_mask rb\<rparr>)
      else (\<lparr>vec_buf = w, vec_len = free_cnt\<rparr>, (snd vec)\<lparr>vec_len := 0\<rparr>))"

section \<open>Well-formed ring buffers and their contents\<close>

definition rb_pow :: "jack_ringbuffer_t \<Rightarrow> nat \<Rightarrow> bool" where
  "rb_pow rb k \<longleftrightarrow> 0 < k \<and> k < 63 \<and> rb_size rb = 2 ^ k \<and> size_mask rb = 2 ^ k - 1 \<and>
     unat (write_ptr rb) < 2 ^ k \<and> unat (read_ptr rb) < 2 ^ k \<and> length (buf rb) = 2 ^ k"

text \<open>
  \<open>rb_inv\<close>: the size is a power of two below the width of \<open>size_t\<close>, the mask fits it, both
  pointers are inside the buffer and the buffer has that many bytes.
\<close>

definition rb_inv :: "jack_ringbuffer_t \<Rightarrow> bool" where
  "rb_inv rb \<longleftrightarrow> (\<exists>k. rb_pow rb k)"

definition rb_fill :: "jack_ringbuffer_t \<Rightarrow> nat" where
  "rb_fill rb = (unat (write_ptr rb) + length (buf rb) - unat (read_ptr rb)) mod length (buf rb)"

definition ring_take :: "'a list \<Rightarrow> nat \<Rightarrow> nat \<Rightarrow> 'a list" where
  "ring_take xs r n = map (\<lambda>i. xs ! ((r + i) mod length xs)) [0..<n]"

definition rb_contents :: "jack_ringbuffer_t \<Rightarrow> byte list" where
  "rb_contents rb = ring_take (buf rb) (unat (read_ptr rb)) (rb_fill rb)"

definition rb_capacity :: "jack_ringbuffer_t \<Rightarrow> nat" where
  "rb_capacity rb = length (buf rb) - 1"

lemma length_ring_take [simp]: "length (ring_take xs r n) = n"
  by (simp add: ring_take_def)

lemma length_rb_contents [simp]: "length (rb_contents rb) = rb_fill rb"
  by (simp add: rb_contents_def)

lemma ring_take_nth: "i < n \<Longrightarrow> ring_take xs r n ! i = xs ! ((r + i) mod length xs)"
  by (simp add: ring_take_def)

lemma take_ring_take: "m \<le> n \<Longrightarrow> take m (ring_take xs r n) = ring_take xs r m"
  by (rule nth_equalityI) (auto simp: ring_take_nth)

lemma drop_ring_take:
  "drop m (ring_take xs r n) = ring_take xs ((r + m) mod length xs) (n - m)"
  by (rule nth_equalityI) (auto simp: ring_take_nth mod_add_left_eq add.assoc)

text \<open>A circular stretch is one or two straight ones, as the two \<open>memcpy\<close> calls assume.\<close>

lemma ring_take_straight:
  "r + n \<le> length xs \<Longrightarrow> ring_take xs r n = bytes_at xs r n"
  by (rule nth_equalityI) (auto simp: ring_take_nth nth_bytes_at)

lemma mod_wrap_once: "N \<le> a \<Longrightarrow> a < 2 * N \<Longrightarrow> a mod N = a - N" for a N :: nat
  by (simp add: mod_if)

lemma ring_take_wrapped:
  assumes "r < length xs" "length xs < r + n" "n \<le> length xs"
  shows "ring_take xs r n = bytes_at xs r (length xs - r) @ bytes_at xs 0 (r + n - length xs)"
proof (rule nth_equalityI)
  show "length (ring_take xs r n) =
    length (bytes_at xs r (length xs - r) @ bytes_at xs 0 (r + n - length xs))"
    using assms by simp
next
  fix i
  assume "i < length (ring_take xs r n)"
  then have i: "i < n" by simp
  show "ring_take xs r n ! i =
    (bytes_at xs r (length xs - r) @ bytes_at xs 0 (r + n - length xs)) ! i"
  proof (cases "i < length xs - r")
    case True
    with assms i show ?thesis by (simp add: ring_take_nth nth_append nth_bytes_at)
  next
    case False
    then have "(r + i) mod length xs = i - (length xs - r)"
      using assms i by (subst mod_wrap_once) auto
    with False assms i show ?thesis by (simp add: ring_take_nth nth_append nth_bytes_at)
  qed
qed

definition ring_put :: "'a list \<Rightarrow> nat \<Rightarrow> 'a list \<Rightarrow> 'a list" where
  "ring_put xs w src =
     (if w + length src \<le> length xs then memcpy_at xs w src
      else memcpy_at (memcpy_at xs w (take (length xs - w) src)) 0 (drop (length xs - w) src))"

lemma length_ring_put [simp]:
  "w < length xs \<Longrightarrow> length src \<le> length xs \<Longrightarrow> length (ring_put xs w src) = length xs"
  by (auto simp: ring_put_def)

lemma ring_put_nth:
  assumes "w < length xs" "length src \<le> length xs" "i < length xs"
  shows "ring_put xs w src ! ((w + i) mod length xs) =
    (if i < length src then src ! i else xs ! ((w + i) mod length xs))"
proof (cases "w + i < length xs")
  case True
  then show ?thesis using assms by (auto simp: ring_put_def nth_memcpy_at)
next
  case False
  then have e: "(w + i) mod length xs = w + i - length xs"
    using assms by (intro mod_wrap_once) auto
  show ?thesis using assms False unfolding e by (auto simp: ring_put_def nth_memcpy_at)
qed

section \<open>What each operation computes\<close>

lemma rb_pow_length: "rb_pow rb k \<Longrightarrow> length (buf rb) = 2 ^ k"
  by (simp add: rb_pow_def)

lemma pow_bound: "k < 63 \<Longrightarrow> (2::nat) * 2 ^ k < 2 ^ 64"
  using power_strict_increasing [of "Suc k" 64 "2::nat"] by simp

lemma rb_pow_unat:
  assumes "rb_pow rb k"
  shows "unat (rb_size rb) = 2 ^ k"
  using assms by (simp add: rb_pow_def unat_pow2)

lemma rb_masked:
  assumes "rb_pow rb k"
  shows "unat (x AND size_mask rb) = unat x mod 2 ^ k"
  using assms by (simp add: rb_pow_def unat_and_mask)

lemma rb_advance:
  assumes "rb_pow rb k" "unat a < 2 ^ k" "unat b \<le> 2 ^ k"
  shows "unat (a + b) = unat a + unat b"
    and "unat ((a + b) AND size_mask rb) = (unat a + unat b) mod 2 ^ k"
proof -
  have "unat a + unat b < 2 ^ 64"
    using assms pow_bound [of k] by (simp add: rb_pow_def)
  then show *: "unat (a + b) = unat a + unat b"
    by (simp add: unat_add_no_wrap)
  show "unat ((a + b) AND size_mask rb) = (unat a + unat b) mod 2 ^ k"
    by (simp add: rb_masked [OF assms(1)] *)
qed

lemma rb_wrapped_diff:
  assumes "rb_pow rb k" "unat a < 2 ^ k" "unat b < 2 ^ k"
  shows "unat ((a - b + rb_size rb) AND size_mask rb) = (unat a + 2 ^ k - unat b) mod 2 ^ k"
proof -
  have le: "unat b \<le> unat (rb_size rb)"
    using assms by (simp add: rb_pow_unat [OF assms(1)])
  have "a - b + rb_size rb = a + (rb_size rb - b)" by simp
  moreover have "unat (rb_size rb - b) = 2 ^ k - unat b"
    using unat_sub_le [OF le] by (simp add: rb_pow_unat [OF assms(1)])
  ultimately show ?thesis
    using rb_advance(2) [OF assms(1) assms(2), of "rb_size rb - b"] assms by (simp only:) simp
qed

lemma rb_read_space_fill:
  assumes "rb_pow rb k"
  shows "unat (jack_ringbuffer_read_space rb) = rb_fill rb"
proof -
  have w: "unat (write_ptr rb) < 2 ^ k" and r: "unat (read_ptr rb) < 2 ^ k"
    using assms by (auto simp: rb_pow_def)
  show ?thesis
  proof (cases "read_ptr rb < write_ptr rb")
    case True
    then have "unat (read_ptr rb) < unat (write_ptr rb)" by (simp add: word_less_nat_alt)
    then have "(unat (write_ptr rb) + 2 ^ k - unat (read_ptr rb)) mod 2 ^ k
        = unat (write_ptr rb) - unat (read_ptr rb)"
      using w by (subst mod_wrap_once) auto
    with True show ?thesis
      by (simp add: jack_ringbuffer_read_space_def rb_fill_def rb_pow_length [OF assms]
          unat_sub_le word_less_nat_alt)
  next
    case False
    then show ?thesis
      by (simp add: jack_ringbuffer_read_space_def rb_fill_def rb_pow_length [OF assms]
          rb_wrapped_diff [OF assms w r])
  qed
qed

lemma rb_fill_less: "rb_pow rb k \<Longrightarrow> rb_fill rb < 2 ^ k"
  by (simp add: rb_fill_def rb_pow_def)

lemma rb_write_space_room:
  assumes "rb_pow rb k"
  shows "unat (jack_ringbuffer_write_space rb) = rb_capacity rb - rb_fill rb"
proof -
  let ?w = "unat (write_ptr rb)" and ?r = "unat (read_ptr rb)"
  have w: "?w < 2 ^ k" and r: "?r < 2 ^ k"
    using assms by (auto simp: rb_pow_def)
  consider (gt) "?r < ?w" | (lt) "?w < ?r" | (eq) "?w = ?r" by linarith
  then show ?thesis
  proof cases
    case gt
    have "(?r + 2 ^ k - ?w) mod 2 ^ k = ?r + 2 ^ k - ?w" using gt w by (intro mod_less) linarith
    then have u: "unat ((read_ptr rb - write_ptr rb + rb_size rb) AND size_mask rb) = ?r + 2 ^ k - ?w"
      using rb_wrapped_diff [OF assms r w] by simp
    have f: "rb_fill rb = ?w - ?r"
      using gt w by (simp add: rb_fill_def rb_pow_length [OF assms] mod_wrap_once)
    have "unat (((read_ptr rb - write_ptr rb + rb_size rb) AND size_mask rb) - 1) = ?r + 2 ^ k - ?w - 1"
      using u w by (subst unat_sub_le) (auto simp: u)
    then show ?thesis
      using gt by (simp add: jack_ringbuffer_write_space_def rb_capacity_def f
          rb_pow_length [OF assms] word_less_nat_alt)
  next
    case lt
    then have "(?w + 2 ^ k - ?r) mod 2 ^ k = ?w + 2 ^ k - ?r" using r by (intro mod_less) linarith
    then have f: "rb_fill rb = ?w + 2 ^ k - ?r"
      by (simp add: rb_fill_def rb_pow_length [OF assms])
    have d: "unat (read_ptr rb - write_ptr rb) = ?r - ?w"
      using lt by (simp add: unat_sub_le)
    have "unat ((read_ptr rb - write_ptr rb) - 1) = ?r - ?w - 1"
      using lt by (subst unat_sub_le) (auto simp: d)
    then show ?thesis
      using lt r by (simp add: jack_ringbuffer_write_space_def rb_capacity_def f
          rb_pow_length [OF assms] word_less_nat_alt)
  next
    case eq
    then have "write_ptr rb = read_ptr rb" by (simp add: word_unat_eq_iff)
    moreover have "unat (rb_size rb - 1) = 2 ^ k - 1"
      using rb_pow_unat [OF assms] by (subst unat_sub_le) auto
    ultimately show ?thesis
      by (simp add: jack_ringbuffer_write_space_def rb_capacity_def rb_fill_def
          rb_pow_length [OF assms])
  qed
qed

text \<open>The count both copying operations settle on.\<close>

lemma unat_clamp: "unat (if f < c then f else c) = min (unat c) (unat f)" for f c :: "'a::len word"
  by (auto simp: word_less_nat_alt)

text \<open>
  The split of \<open>n\<close> bytes from position \<open>p\<close> into the stretch up to the end of the buffer and the
  rest, shared by the reader, the peeker and the writer.
\<close>

lemma rb_split:
  assumes inv: "rb_pow rb k" and p: "unat p < 2 ^ k" and n: "unat n < 2 ^ k"
  shows "rb_size rb < p + n \<longleftrightarrow> 2 ^ k < unat p + unat n"
    and "2 ^ k < unat p + unat n \<Longrightarrow> unat (rb_size rb - p) = 2 ^ k - unat p"
    and "2 ^ k < unat p + unat n \<Longrightarrow> unat ((p + n) AND size_mask rb) = unat p + unat n - 2 ^ k"
    and "2 ^ k < unat p + unat n \<Longrightarrow> (p + n) AND size_mask rb \<noteq> 0"
    and "(p + (rb_size rb - p)) AND size_mask rb = 0"
    and "unat ((p + n) AND size_mask rb) = (unat p + unat n) mod 2 ^ k"
proof -
  have c: "unat (p + n) = unat p + unat n"
    using rb_advance(1) [OF inv p] n by simp
  have sz: "unat (rb_size rb) = 2 ^ k" by (rule rb_pow_unat [OF inv])
  show "rb_size rb < p + n \<longleftrightarrow> 2 ^ k < unat p + unat n"
    by (simp add: word_less_nat_alt c sz)
  show "unat (rb_size rb - p) = 2 ^ k - unat p" if "2 ^ k < unat p + unat n"
    using p by (simp add: unat_sub_le sz)
  show n2: "unat ((p + n) AND size_mask rb) = unat p + unat n - 2 ^ k" if "2 ^ k < unat p + unat n"
    using that p n by (simp add: rb_masked [OF inv] c mod_wrap_once)
  then show "(p + n) AND size_mask rb \<noteq> 0" if "2 ^ k < unat p + unat n"
    using that by auto
  have "unat (rb_size rb AND size_mask rb) = 0"
    by (simp add: rb_masked [OF inv] sz)
  then show "(p + (rb_size rb - p)) AND size_mask rb = 0"
    by (simp add: unat_eq_zero)
  show "unat ((p + n) AND size_mask rb) = (unat p + unat n) mod 2 ^ k"
    by (simp add: rb_masked [OF inv] c)
qed

lemma rb_split_nat:
  assumes "rb_pow rb k"
  shows "unat (0 + n AND size_mask rb) = unat n mod 2 ^ k"
  using rb_masked [OF assms] by simp

lemma rb_peek_eq:
  assumes inv: "rb_pow rb k"
    and m: "m = min (unat cnt) (rb_fill rb)"
    and res: "jack_ringbuffer_peek rb cnt = (d, n)"
  shows "unat n = m \<and> d = ring_take (buf rb) (unat (read_ptr rb)) m"
proof -
  let ?f = "jack_ringbuffer_read_space rb"
  let ?t = "if ?f < cnt then ?f else cnt"
  have f: "unat ?f = rb_fill rb" by (rule rb_read_space_fill [OF inv])
  have t: "unat ?t = m" unfolding unat_clamp by (simp add: f m)
  have p: "unat (read_ptr rb) < 2 ^ k" using inv by (simp add: rb_pow_def)
  have mN: "unat ?t < 2 ^ k" using t m rb_fill_less [OF inv] by simp
  note sp = rb_split [OF inv p mN, unfolded t]
  show ?thesis
  proof (cases "?f = 0")
    case True
    then have "rb_fill rb = 0" using f by simp
    with True res m show ?thesis
      by (simp add: jack_ringbuffer_peek_def ring_take_def)
  next
    case False
    show ?thesis
    proof (cases "2 ^ k < unat (read_ptr rb) + m")
      case True
      then have "n = ?t" and "d = bytes_at (buf rb) (unat (read_ptr rb)) (2 ^ k - unat (read_ptr rb)) @
          bytes_at (buf rb) 0 (unat (read_ptr rb) + m - 2 ^ k)"
        using res False sp by (auto simp: jack_ringbuffer_peek_def Let_def)
      with True p mN t show ?thesis
        by (simp add: ring_take_wrapped rb_pow_length [OF inv])
    next
      case False2: False
      then have "n = ?t" and "d = bytes_at (buf rb) (unat (read_ptr rb)) m"
        using res False sp(1) t by (auto simp: jack_ringbuffer_peek_def Let_def)
      with False2 t show ?thesis
        by (simp add: ring_take_straight rb_pow_length [OF inv])
    qed
  qed
qed

lemma rb_read_peek: "snd (jack_ringbuffer_read rb cnt) = jack_ringbuffer_peek rb cnt"
  by (simp add: jack_ringbuffer_read_def jack_ringbuffer_peek_def Let_def split: prod.split)

lemma rb_read_ptr:
  assumes inv: "rb_pow rb k"
    and m: "m = min (unat cnt) (rb_fill rb)"
  shows "\<exists>q. fst (jack_ringbuffer_read rb cnt) = rb\<lparr>read_ptr := q\<rparr> \<and>
           unat q = (unat (read_ptr rb) + m) mod 2 ^ k"
proof -
  let ?f = "jack_ringbuffer_read_space rb"
  let ?t = "if ?f < cnt then ?f else cnt"
  have f: "unat ?f = rb_fill rb" by (rule rb_read_space_fill [OF inv])
  have t: "unat ?t = m" unfolding unat_clamp by (simp add: f m)
  have p: "unat (read_ptr rb) < 2 ^ k" using inv by (simp add: rb_pow_def)
  have mN: "unat ?t < 2 ^ k" using t m rb_fill_less [OF inv] by simp
  note sp = rb_split [OF inv p mN, unfolded t]
  show ?thesis
  proof (cases "?f = 0")
    case True
    then have "m = 0" using f m by simp
    with True p show ?thesis
      by (intro exI [of _ "read_ptr rb"]) (simp add: jack_ringbuffer_read_def)
  next
    case False
    show ?thesis
    proof (cases "2 ^ k < unat (read_ptr rb) + m")
      case True
      let ?q = "((0::size_t) + ((read_ptr rb + ?t) AND size_mask rb)) AND size_mask rb"
      have "fst (jack_ringbuffer_read rb cnt) = rb\<lparr>read_ptr := ?q\<rparr>"
        using True False sp by (simp add: jack_ringbuffer_read_def Let_def)
      moreover have "unat ?q = (unat (read_ptr rb) + m) mod 2 ^ k"
        using sp(6) by (simp add: rb_masked [OF inv])
      ultimately show ?thesis by blast
    next
      case False2: False
      then have "fst (jack_ringbuffer_read rb cnt) = rb\<lparr>read_ptr := (read_ptr rb + ?t) AND size_mask rb\<rparr>"
        using False sp(1) by (simp add: jack_ringbuffer_read_def Let_def)
      with sp(6) show ?thesis by blast
    qed
  qed
qed

lemma rb_write_eq:
  assumes inv: "rb_pow rb k"
    and m: "m = min (unat cnt) (rb_capacity rb - rb_fill rb)"
    and src: "unat cnt \<le> length src"
  shows "\<exists>q n. jack_ringbuffer_write rb src cnt =
             (rb\<lparr>buf := ring_put (buf rb) (unat (write_ptr rb)) (take m src), write_ptr := q\<rparr>, n) \<and>
           unat q = (unat (write_ptr rb) + m) mod 2 ^ k \<and> unat n = m"
proof -
  let ?f = "jack_ringbuffer_write_space rb"
  let ?t = "if ?f < cnt then ?f else cnt"
  have f: "unat ?f = rb_capacity rb - rb_fill rb" by (rule rb_write_space_room [OF inv])
  have t: "unat ?t = m" unfolding unat_clamp by (simp add: f m)
  have p: "unat (write_ptr rb) < 2 ^ k" using inv by (simp add: rb_pow_def)
  have N: "length (buf rb) = 2 ^ k" by (rule rb_pow_length [OF inv])
  have mN: "unat ?t < 2 ^ k"
    using t m N by (simp add: rb_capacity_def min_less_iff_disj)
  have ls: "length (take m src) = m" using src m by simp
  note sp = rb_split [OF inv p mN, unfolded t]
  show ?thesis
  proof (cases "?f = 0")
    case True
    then have "m = 0" using f m by simp
    with True p show ?thesis
      by (intro exI [of _ "write_ptr rb"] exI [of _ 0])
        (simp add: jack_ringbuffer_write_def ring_put_def N)
  next
    case False
    show ?thesis
    proof (cases "2 ^ k < unat (write_ptr rb) + m")
      case True
      let ?q = "((0::size_t) + ((write_ptr rb + ?t) AND size_mask rb)) AND size_mask rb"
      let ?a = "2 ^ k - unat (write_ptr rb)"
      have tk: "take ?a (take m src) = take ?a src" "drop ?a (take m src) = take (m - ?a) (drop ?a src)"
        using True by (auto simp: min_def drop_take)
      have e: "unat (write_ptr rb) + m - 2 ^ k = m - ?a" using p by simp
      have "jack_ringbuffer_write rb src cnt =
         (rb\<lparr>buf := ring_put (buf rb) (unat (write_ptr rb)) (take m src), write_ptr := ?q\<rparr>, ?t)"
        using True False sp e tk
        by (simp add: jack_ringbuffer_write_def Let_def ring_put_def ls N)
      moreover have "unat ?q = (unat (write_ptr rb) + m) mod 2 ^ k"
        using sp(6) by (simp add: rb_masked [OF inv])
      ultimately show ?thesis using t by blast
    next
      case False2: False
      then have "jack_ringbuffer_write rb src cnt =
         (rb\<lparr>buf := ring_put (buf rb) (unat (write_ptr rb)) (take m src),
             write_ptr := (write_ptr rb + ?t) AND size_mask rb\<rparr>, ?t)"
        using False sp(1) t by (simp add: jack_ringbuffer_write_def Let_def ring_put_def ls N)
      with sp(6) t show ?thesis by blast
    qed
  qed
qed

section \<open>Refinement to a bounded byte queue\<close>

lemma ring_dist:
  fixes w r N :: nat
  assumes "w < N" "r < N"
  shows "(w + N - r) mod N = (if r \<le> w then w - r else w + N - r)"
proof (cases "r \<le> w")
  case True
  then have "w + N - r = (w - r) + N" using assms by simp
  then have "(w + N - r) mod N = (w - r) mod N" by simp
  with True assms show ?thesis by simp
next
  case False
  with assms show ?thesis by (intro trans [OF mod_less]) auto
qed

lemma ring_step: "p < N \<Longrightarrow> m < N \<Longrightarrow> (p + m) mod N = (if p + m < N then p + m else p + m - N)"
  for p m N :: nat
  by (simp add: mod_if)

lemma ring_dist_read:
  fixes w r N m :: nat
  assumes "w < N" "r < N" "m \<le> (w + N - r) mod N"
  shows "(w + N - (r + m) mod N) mod N = (w + N - r) mod N - m"
proof -
  have m: "m < N" using assms mod_less_divisor [of N "w + N - r"] by linarith
  define e where "e = (r + m) mod N"
  have q: "e < N" using assms by (simp add: e_def)
  have e: "e = (if r + m < N then r + m else r + m - N)"
    by (simp add: e_def ring_step [OF assms(2) m])
  have le: "m \<le> (if r \<le> w then w - r else w + N - r)"
    using assms(3) by (simp add: ring_dist [OF assms(1,2)])
  show ?thesis
    using e le m assms(1,2) unfolding e_def [symmetric] ring_dist [OF assms(1) q] ring_dist [OF assms(1,2)]
    by (auto split: if_splits)
qed

lemma ring_dist_write:
  fixes w r N m :: nat
  assumes "w < N" "r < N" "m \<le> N - 1 - (w + N - r) mod N"
  shows "((w + m) mod N + N - r) mod N = (w + N - r) mod N + m"
proof -
  have m: "m < N" using assms by linarith
  define e where "e = (w + m) mod N"
  have q: "e < N" using assms by (simp add: e_def)
  have e: "e = (if w + m < N then w + m else w + m - N)"
    by (simp add: e_def ring_step [OF assms(1) m])
  have le: "m \<le> N - 1 - (if r \<le> w then w - r else w + N - r)"
    using assms(3) by (simp add: ring_dist [OF assms(1,2)])
  show ?thesis
    using e le m assms(1,2) unfolding e_def [symmetric] ring_dist [OF q assms(2)] ring_dist [OF assms(1,2)]
    by (auto split: if_splits)
qed

lemma rb_fill_pow: "rb_pow rb k \<Longrightarrow> rb_fill rb = (unat (write_ptr rb) + 2 ^ k - unat (read_ptr rb)) mod 2 ^ k"
  by (simp add: rb_fill_def rb_pow_length)

lemma rb_set_read_ptr:
  assumes "rb_pow rb k" "unat q = (unat (read_ptr rb) + m) mod 2 ^ k" "m \<le> rb_fill rb"
  shows "rb_pow (rb\<lparr>read_ptr := q\<rparr>) k"
    and "rb_contents (rb\<lparr>read_ptr := q\<rparr>) = drop m (rb_contents rb)"
proof -
  show inv': "rb_pow (rb\<lparr>read_ptr := q\<rparr>) k"
    using assms(1,2) by (simp add: rb_pow_def)
  have "rb_fill (rb\<lparr>read_ptr := q\<rparr>) = rb_fill rb - m"
    using assms ring_dist_read [of "unat (write_ptr rb)" "2 ^ k" "unat (read_ptr rb)" m]
    by (simp add: rb_fill_pow [OF inv'] rb_fill_pow [OF assms(1)]) (simp add: rb_pow_def)
  then show "rb_contents (rb\<lparr>read_ptr := q\<rparr>) = drop m (rb_contents rb)"
    by (simp add: rb_contents_def drop_ring_take assms(2) rb_pow_length [OF assms(1)])
qed

lemma rb_extend:
  assumes inv: "rb_pow rb k" and q: "unat q = (unat (write_ptr rb) + length xs) mod 2 ^ k"
    and room: "length xs \<le> rb_capacity rb - rb_fill rb"
  defines "rb' \<equiv> rb\<lparr>buf := ring_put (buf rb) (unat (write_ptr rb)) xs, write_ptr := q\<rparr>"
  shows "rb_pow rb' k" and "rb_contents rb' = rb_contents rb @ xs"
proof -
  let ?w = "unat (write_ptr rb)" and ?r = "unat (read_ptr rb)" and ?f = "rb_fill rb"
  have N: "length (buf rb) = 2 ^ k" and w: "?w < 2 ^ k" and r: "?r < 2 ^ k"
    using inv by (auto simp: rb_pow_def)
  have le: "length xs \<le> 2 ^ k - 1 - ?f" using room N by (simp add: rb_capacity_def)
  then have lN: "length xs \<le> 2 ^ k" by simp
  show inv': "rb_pow rb' k"
    using inv q w lN N by (simp add: rb'_def rb_pow_def)
  have fill: "rb_fill rb' = ?f + length xs"
    using ring_dist_write [OF w r, of "length xs"] le q
    by (simp add: rb_fill_pow [OF inv'] rb_fill_pow [OF inv]) (simp add: rb'_def)
  have wr: "?w = (?r + ?f) mod 2 ^ k"
    using w r by (simp add: rb_fill_pow [OF inv] mod_add_right_eq)
  have b': "buf rb' = ring_put (buf rb) ?w xs" "read_ptr rb' = read_ptr rb"
    by (simp_all add: rb'_def)
  have lb: "length (ring_put (buf rb) ?w xs) = 2 ^ k"
    using w lN N by simp
  show "rb_contents rb' = rb_contents rb @ xs"
  proof (rule nth_equalityI)
    show "length (rb_contents rb') = length (rb_contents rb @ xs)"
      by (simp add: fill)
  next
    fix i
    assume "i < length (rb_contents rb')"
    then have i: "i < ?f + length xs" by (simp add: fill)
    \<comment> \<open>index \<open>i\<close> of the contents, counted from the old write position\<close>
    let ?j = "if i < ?f then i + 2 ^ k - ?f else i - ?f"
    have f: "?f < 2 ^ k" by (rule rb_fill_less [OF inv])
    have j: "?j < 2 ^ k" using i le f by (auto split: if_splits)
    have "(?w + ?j) mod 2 ^ k = (?r + ?f + ?j) mod 2 ^ k"
      by (subst wr) (simp add: mod_add_left_eq)
    also have "\<dots> = (?r + i) mod 2 ^ k"
    proof (cases "i < ?f")
      case True
      then have "?r + ?f + ?j = (?r + i) + 2 ^ k" using f by simp
      then show ?thesis by (simp only: mod_add_self2)
    next
      case False
      then show ?thesis by simp
    qed
    finally have e: "(?r + i) mod 2 ^ k = (?w + ?j) mod 2 ^ k" by simp
    have "rb_contents rb' ! i = ring_put (buf rb) ?w xs ! ((?w + ?j) mod length (buf rb))"
      using i by (simp add: rb_contents_def ring_take_nth b' fill lb e N)
    also have "\<dots> = (if ?j < length xs then xs ! ?j else buf rb ! ((?w + ?j) mod length (buf rb)))"
      by (rule ring_put_nth) (use w lN N j in auto)
    also have "\<dots> = (rb_contents rb @ xs) ! i"
    proof (cases "i < ?f")
      case True
      then have "\<not> ?j < length xs" using le f by simp
      with True show ?thesis
        using e by (simp add: rb_contents_def nth_append ring_take_nth N)
    next
      case False
      with i have "?j < length xs" by auto
      with False show ?thesis by (simp add: nth_append)
    qed
    finally show "rb_contents rb' ! i = (rb_contents rb @ xs) ! i" .
  qed
qed

text \<open>
  The interface a client of the queue relies on: an invariant, the queued bytes, a capacity,
  and what a write and a read do to them.
\<close>

locale bounded_fifo =
  fixes inv :: "'q \<Rightarrow> bool"
    and contents :: "'q \<Rightarrow> 'b list"
    and capacity :: "'q \<Rightarrow> nat"
    and put :: "'q \<Rightarrow> 'b list \<Rightarrow> 'q \<times> nat"
    and get :: "'q \<Rightarrow> nat \<Rightarrow> 'q \<times> 'b list"
  assumes put_inv: "inv q \<Longrightarrow> inv (fst (put q xs))"
    and put_count: "inv q \<Longrightarrow> snd (put q xs) = min (length xs) (capacity q - length (contents q))"
    and put_contents: "inv q \<Longrightarrow> contents (fst (put q xs)) = contents q @ take (snd (put q xs)) xs"
    and put_capacity: "inv q \<Longrightarrow> capacity (fst (put q xs)) = capacity q"
    and get_inv: "inv q \<Longrightarrow> inv (fst (get q n))"
    and get_data: "inv q \<Longrightarrow> snd (get q n) = take n (contents q)"
    and get_contents: "inv q \<Longrightarrow> contents (fst (get q n)) = drop n (contents q)"
    and get_capacity: "inv q \<Longrightarrow> capacity (fst (get q n)) = capacity q"
    and within: "inv q \<Longrightarrow> length (contents q) \<le> capacity q"

text \<open>A script of calls, and what it accepts and delivers.\<close>

datatype 'b fifo_call = Put "'b list" | Get nat

fun fifo_run :: "('q \<Rightarrow> 'b list \<Rightarrow> 'q \<times> nat) \<Rightarrow> ('q \<Rightarrow> nat \<Rightarrow> 'q \<times> 'b list) \<Rightarrow>
    'q \<Rightarrow> 'b fifo_call list \<Rightarrow> 'q \<times> 'b list \<times> 'b list" where
  "fifo_run put get q [] = (q, [], [])"
| "fifo_run put get q (Put xs # cs) =
     (let (q1, n) = put q xs; (q2, accepted, delivered) = fifo_run put get q1 cs
      in (q2, take n xs @ accepted, delivered))"
| "fifo_run put get q (Get n # cs) =
     (let (q1, ys) = get q n; (q2, accepted, delivered) = fifo_run put get q1 cs
      in (q2, accepted, ys @ delivered))"

context bounded_fifo
begin

lemma run_fifo_order:
  "inv q \<Longrightarrow> fifo_run put get q cs = (q', accepted, delivered) \<Longrightarrow>
     inv q' \<and> capacity q' = capacity q \<and> delivered @ contents q' = contents q @ accepted"
proof (induction cs arbitrary: q accepted delivered)
  case Nil
  then show ?case by simp
next
  case (Cons c cs)
  show ?case
  proof (cases c)
    case (Put xs)
    obtain q1 n where p: "put q xs = (q1, n)" by (cases "put q xs")
    obtain a d where r: "fifo_run put get q1 cs = (q', a, d)" "accepted = take n xs @ a" "delivered = d"
      using Cons.prems(2) Put p by (auto split: prod.splits)
    have i: "inv q1" using put_inv [OF Cons.prems(1), of xs] p by simp
    show ?thesis
      using Cons.IH [OF i r(1)] r put_contents [OF Cons.prems(1), of xs]
        put_capacity [OF Cons.prems(1), of xs] p by simp
  next
    case (Get n)
    obtain q1 ys where g: "get q n = (q1, ys)" by (cases "get q n")
    obtain a d where r: "fifo_run put get q1 cs = (q', a, d)" "accepted = a" "delivered = ys @ d"
      using Cons.prems(2) Get g by (auto split: prod.splits)
    have i: "inv q1" using get_inv [OF Cons.prems(1), of n] g by simp
    have "ys @ contents q1 = contents q"
      using get_data [OF Cons.prems(1), of n] get_contents [OF Cons.prems(1), of n] g by simp
    then show ?thesis
      using Cons.IH [OF i r(1)] r get_capacity [OF Cons.prems(1), of n] g
      by (simp add: append_eq_append_conv2) blast
  qed
qed

lemma put_fits: "inv q \<Longrightarrow> length xs \<le> capacity q - length (contents q) \<Longrightarrow>
    snd (put q xs) = length xs \<and> contents (fst (put q xs)) = contents q @ xs"
  by (simp add: put_count put_contents)

end

text \<open>
  The ring buffer provides that interface. A count argument is a \<open>size_t\<close>, so a client asks for
  at most \<open>2 ^ 64 - 1\<close> bytes.
\<close>

definition size_arg :: "nat \<Rightarrow> size_t" where
  "size_arg n = of_nat (min n (2 ^ 64 - 1))"

definition rb_put :: "jack_ringbuffer_t \<Rightarrow> byte list \<Rightarrow> jack_ringbuffer_t \<times> nat" where
  "rb_put rb xs = (let (rb', n) = jack_ringbuffer_write rb xs (size_arg (length xs)) in (rb', unat n))"

definition rb_get :: "jack_ringbuffer_t \<Rightarrow> nat \<Rightarrow> jack_ringbuffer_t \<times> byte list" where
  "rb_get rb n = (let (rb', d, k) = jack_ringbuffer_read rb (size_arg n) in (rb', d))"

lemma unat_size_arg: "unat (size_arg n) = min n (2 ^ 64 - 1)"
  by (simp add: size_arg_def unat_of_nat)

lemma min_size_arg:
  "rb_pow rb k \<Longrightarrow> m \<le> rb_capacity rb \<Longrightarrow> min (unat (size_arg n)) m = min n m"
  using pow_bound [of k] by (simp add: unat_size_arg rb_capacity_def rb_pow_def)

lemma rb_fill_capacity: "rb_pow rb k \<Longrightarrow> rb_fill rb \<le> rb_capacity rb"
  using rb_fill_less [of rb k] by (simp add: rb_capacity_def rb_pow_def)

lemma rb_write_spec:
  assumes inv: "rb_pow rb k" and src: "unat cnt \<le> length src"
    and res: "jack_ringbuffer_write rb src cnt = (rb', n)"
  shows "rb_pow rb' k" "unat n = min (unat cnt) (rb_capacity rb - rb_fill rb)"
    "rb_contents rb' = rb_contents rb @ take (unat n) src" "rb_capacity rb' = rb_capacity rb"
proof -
  let ?m = "min (unat cnt) (rb_capacity rb - rb_fill rb)"
  obtain q where rb': "rb' = rb\<lparr>buf := ring_put (buf rb) (unat (write_ptr rb)) (take ?m src), write_ptr := q\<rparr>"
    and q: "unat q = (unat (write_ptr rb) + ?m) mod 2 ^ k" and n: "unat n = ?m"
    using rb_write_eq [OF inv refl src] res by auto
  have l: "length (take ?m src) = ?m" using src by simp
  have q': "unat q = (unat (write_ptr rb) + length (take ?m src)) mod 2 ^ k"
    by (simp only: l q)
  have room: "length (take ?m src) \<le> rb_capacity rb - rb_fill rb" by simp
  show i: "rb_pow rb' k"
    unfolding rb' by (rule rb_extend [OF inv q' room])
  show "unat n = ?m" by (rule n)
  show "rb_contents rb' = rb_contents rb @ take (unat n) src"
    unfolding rb' n by (rule rb_extend [OF inv q' room])
  show "rb_capacity rb' = rb_capacity rb"
    by (simp add: rb_capacity_def rb_pow_length [OF i] rb_pow_length [OF inv])
qed

lemma rb_read_spec:
  assumes inv: "rb_pow rb k" and res: "jack_ringbuffer_read rb cnt = (rb', d, n)"
  shows "rb_pow rb' k" "unat n = min (unat cnt) (rb_fill rb)"
    "d = take (unat n) (rb_contents rb)" "rb_contents rb' = drop (unat n) (rb_contents rb)"
    "rb_capacity rb' = rb_capacity rb"
proof -
  let ?m = "min (unat cnt) (rb_fill rb)"
  have n: "unat n = ?m" and d: "d = ring_take (buf rb) (unat (read_ptr rb)) ?m"
    using rb_peek_eq [OF inv refl] rb_read_peek [of rb cnt] res by (metis snd_conv)+
  obtain q where rb': "rb' = rb\<lparr>read_ptr := q\<rparr>" and q: "unat q = (unat (read_ptr rb) + ?m) mod 2 ^ k"
    using rb_read_ptr [OF inv refl, of cnt] res by auto
  show i: "rb_pow rb' k" unfolding rb' by (rule rb_set_read_ptr [OF inv q]) simp
  show "unat n = ?m" by (rule n)
  show "d = take (unat n) (rb_contents rb)"
    by (simp add: n d rb_contents_def take_ring_take)
  show "rb_contents rb' = drop (unat n) (rb_contents rb)"
    unfolding rb' n by (rule rb_set_read_ptr [OF inv q]) simp
  show "rb_capacity rb' = rb_capacity rb"
    by (simp add: rb_capacity_def rb')
qed

lemma rb_put_spec:
  assumes "rb_inv rb"
  shows "rb_inv (fst (rb_put rb xs)) \<and>
    snd (rb_put rb xs) = min (length xs) (rb_capacity rb - length (rb_contents rb)) \<and>
    rb_contents (fst (rb_put rb xs)) = rb_contents rb @ take (snd (rb_put rb xs)) xs \<and>
    rb_capacity (fst (rb_put rb xs)) = rb_capacity rb"
proof -
  obtain k where k: "rb_pow rb k" using assms by (auto simp: rb_inv_def)
  obtain rb' n where w: "jack_ringbuffer_write rb xs (size_arg (length xs)) = (rb', n)"
    by (cases "jack_ringbuffer_write rb xs (size_arg (length xs))")
  have "unat (size_arg (length xs)) \<le> length xs" by (simp add: unat_size_arg)
  from rb_write_spec [OF k this w] min_size_arg [OF k, of "rb_capacity rb - rb_fill rb"] show ?thesis
    by (auto simp: rb_put_def w rb_inv_def)
qed

lemma rb_get_spec:
  assumes "rb_inv rb"
  shows "rb_inv (fst (rb_get rb n)) \<and> snd (rb_get rb n) = take n (rb_contents rb) \<and>
    rb_contents (fst (rb_get rb n)) = drop n (rb_contents rb) \<and>
    rb_capacity (fst (rb_get rb n)) = rb_capacity rb"
proof -
  obtain k where k: "rb_pow rb k" using assms by (auto simp: rb_inv_def)
  obtain rb' d c where r: "jack_ringbuffer_read rb (size_arg n) = (rb', d, c)"
    by (cases "jack_ringbuffer_read rb (size_arg n)")
  note sp = rb_read_spec [OF k r]
  have c: "unat c = min n (rb_fill rb)"
    using sp(2) min_size_arg [OF k rb_fill_capacity [OF k]] by simp
  then have "take (unat c) (rb_contents rb) = take n (rb_contents rb)"
    and "drop (unat c) (rb_contents rb) = drop n (rb_contents rb)"
    by (auto simp: min_def)
  with sp show ?thesis by (auto simp: rb_get_def r rb_inv_def)
qed

interpretation rbq: bounded_fifo rb_inv rb_contents rb_capacity rb_put rb_get
proof unfold_locales
  fix q n and xs :: "byte list"
  assume i: "rb_inv q"
  show "rb_inv (fst (rb_put q xs))" using rb_put_spec [OF i] by blast
  show "snd (rb_put q xs) = min (length xs) (rb_capacity q - length (rb_contents q))"
    using rb_put_spec [OF i] by blast
  show "rb_contents (fst (rb_put q xs)) = rb_contents q @ take (snd (rb_put q xs)) xs"
    using rb_put_spec [OF i] by blast
  show "rb_capacity (fst (rb_put q xs)) = rb_capacity q" using rb_put_spec [OF i] by blast
  show "rb_inv (fst (rb_get q n))" using rb_get_spec [OF i] by blast
  show "snd (rb_get q n) = take n (rb_contents q)" using rb_get_spec [OF i] by blast
  show "rb_contents (fst (rb_get q n)) = drop n (rb_contents q)" using rb_get_spec [OF i] by blast
  show "rb_capacity (fst (rb_get q n)) = rb_capacity q" using rb_get_spec [OF i] by blast
  show "length (rb_contents q) \<le> rb_capacity q"
    using i rb_fill_capacity by (auto simp: rb_inv_def)
qed

section \<open>Creation and the non-copying access\<close>

lemma rb_power_of_two_Value:
  "rb_power_of_two sz p = Value q \<Longrightarrow> p \<le> q \<and> q < 31 \<and> unat sz \<le> 2 ^ q \<and> (p < q \<longrightarrow> 2 ^ (q - 1) < unat sz)"
proof (induction sz p rule: rb_power_of_two.induct)
  case (1 sz p)
  show ?case
  proof (cases "31 \<le> p")
    case True
    with "1.prems" show ?thesis by (simp add: rb_power_of_two.simps [of sz p])
  next
    case False
    then have u: "unat (2 ^ p :: size_t) = 2 ^ p" by (simp add: unat_pow2)
    show ?thesis
    proof (cases "(2 ^ p :: size_t) < sz")
      case True
      with False "1.prems" have "rb_power_of_two sz (Suc p) = Value q"
        by (simp add: rb_power_of_two.simps [of sz p])
      from "1.IH" [OF False True this] True show ?thesis
        by (cases "q = Suc p") (auto simp: word_less_nat_alt u)
    next
      case False2: False
      with False "1.prems" show ?thesis
        by (auto simp: rb_power_of_two.simps [of sz p] word_less_nat_alt u)
    qed
  qed
qed

lemma rb_power_of_two_defined:
  "unat sz \<le> 2 ^ 30 \<Longrightarrow> p \<le> 30 \<Longrightarrow> \<exists>q. rb_power_of_two sz p = Value q"
proof (induction sz p rule: rb_power_of_two.induct)
  case (1 sz p)
  show ?case
  proof (cases "(2 ^ p :: size_t) < sz")
    case True
    then have "2 ^ p < unat sz"
      using "1.prems"(2) by (simp add: word_less_nat_alt unat_pow2)
    then have "(2::nat) ^ p < 2 ^ 30" using "1.prems"(1) by simp
    then have "Suc p \<le> 30" by (metis Suc_leI nat_power_less_imp_less zero_less_numeral)
    with "1.IH" [OF _ True "1.prems"(1)] True "1.prems"(2) show ?thesis
      by (simp add: rb_power_of_two.simps [of sz p])
  next
    case False
    with "1.prems"(2) show ?thesis by (simp add: rb_power_of_two.simps [of sz p])
  qed
qed

lemma rb_create_defined:
  assumes sz: "unat sz \<le> 2 ^ 30"
    and malloc: "\<And>n. \<exists>b. malloc_buf n = Some b \<and> length b = unat n"
  shows "\<exists>rb p. jack_ringbuffer_create True malloc_buf sz = Value (Some rb) \<and> rb_inv rb \<and> rb_contents rb = [] \<and>
    1 \<le> p \<and> unat (rb_size rb) = 2 ^ p \<and> rb_capacity rb = 2 ^ p - 1 \<and>
    (\<forall>q. 1 \<le> q \<longrightarrow> (unat sz \<le> 2 ^ q \<longleftrightarrow> p \<le> q))"
proof -
  obtain p where p: "rb_power_of_two sz 1 = Value p"
    using rb_power_of_two_defined [OF sz, of 1] by auto
  note b = rb_power_of_two_Value [OF p]
  obtain blk where m: "malloc_buf (2 ^ p) = Some blk" and l: "length blk = 2 ^ p"
    using malloc [of "2 ^ p"] b by (auto simp: unat_pow2)
  define rb where "rb = \<lparr>buf = blk, write_ptr = 0, read_ptr = 0, rb_size = 2 ^ p,
      size_mask = 2 ^ p - 1, mlocked = False\<rparr>"
  have "rb_pow rb p" using b l by (simp add: rb_pow_def rb_def)
  moreover have "rb_contents rb = []"
    by (simp add: rb_contents_def rb_fill_def rb_def ring_take_def)
  moreover have "unat sz \<le> 2 ^ q \<longleftrightarrow> p \<le> q" if q: "1 \<le> q" for q
  proof
    assume le: "unat sz \<le> 2 ^ q"
    show "p \<le> q"
    proof (cases "p = 1")
      case False
      then have "(2::nat) ^ (p - 1) < 2 ^ q" using b le by linarith
      then have "p - 1 < q" by (rule power_less_imp_less_exp [rotated]) simp
      then show ?thesis by simp
    qed (use q in simp)
  next
    assume "p \<le> q"
    then have "(2::nat) ^ p \<le> 2 ^ q" by (intro power_increasing) auto
    then show "unat sz \<le> 2 ^ q" using b by linarith
  qed
  moreover have "jack_ringbuffer_create True malloc_buf sz = Value (Some rb)"
    using p m by (simp add: jack_ringbuffer_create_def rb_def)
  moreover have "rb_capacity rb = 2 ^ p - 1" by (simp add: rb_capacity_def rb_def l)
  moreover have "unat (rb_size rb) = 2 ^ p" using b by (simp add: rb_def unat_pow2)
  ultimately show ?thesis using b unfolding rb_inv_def by blast
qed

definition vec_bytes :: "jack_ringbuffer_t \<Rightarrow> jack_ringbuffer_data_t \<Rightarrow> byte list" where
  "vec_bytes rb v = bytes_at (buf rb) (unat (vec_buf v)) (unat (vec_len v))"

lemma rb_read_vector_spec:
  assumes inv: "rb_pow rb k" and res: "jack_ringbuffer_get_read_vector rb vec = (v0, v1)"
  shows "vec_bytes rb v0 @ vec_bytes rb v1 = rb_contents rb"
proof -
  let ?f = "jack_ringbuffer_read_space rb"
  have f: "unat ?f = rb_fill rb" by (rule rb_read_space_fill [OF inv])
  have p: "unat (read_ptr rb) < 2 ^ k" using inv by (simp add: rb_pow_def)
  have fN: "unat ?f < 2 ^ k" using f rb_fill_less [OF inv] by simp
  note sp = rb_split [OF inv p fN, unfolded f]
  have e: "jack_ringbuffer_get_read_vector rb vec =
     (if rb_size rb < read_ptr rb + ?f then
        (\<lparr>vec_buf = read_ptr rb, vec_len = rb_size rb - read_ptr rb\<rparr>,
         \<lparr>vec_buf = 0, vec_len = (read_ptr rb + ?f) AND size_mask rb\<rparr>)
      else (\<lparr>vec_buf = read_ptr rb, vec_len = ?f\<rparr>, (snd vec)\<lparr>vec_len := 0\<rparr>))"
    by (simp add: jack_ringbuffer_get_read_vector_def jack_ringbuffer_read_space_def Let_def)
  show ?thesis
  proof (cases "2 ^ k < unat (read_ptr rb) + rb_fill rb")
    case True
    with res e sp(1-3) have "vec_bytes rb v0 @ vec_bytes rb v1 =
       bytes_at (buf rb) (unat (read_ptr rb)) (2 ^ k - unat (read_ptr rb)) @
       bytes_at (buf rb) 0 (unat (read_ptr rb) + rb_fill rb - 2 ^ k)"
      by (auto simp: vec_bytes_def)
    with True p fN f show ?thesis
      by (simp add: rb_contents_def ring_take_wrapped rb_pow_length [OF inv])
  next
    case False
    with res e sp(1) f have "vec_bytes rb v0 @ vec_bytes rb v1 =
       bytes_at (buf rb) (unat (read_ptr rb)) (rb_fill rb)"
      by (auto simp: vec_bytes_def bytes_at_def)
    with False show ?thesis
      by (simp add: rb_contents_def ring_take_straight rb_pow_length [OF inv])
  qed
qed

text \<open>The writable segments are the positions behind the write pointer, all of them free.\<close>

definition vec_positions :: "jack_ringbuffer_data_t \<Rightarrow> nat list" where
  "vec_positions v = [unat (vec_buf v)..<unat (vec_buf v) + unat (vec_len v)]"

definition free_positions :: "jack_ringbuffer_t \<Rightarrow> nat list" where
  "free_positions rb = map (\<lambda>i. (unat (write_ptr rb) + i) mod length (buf rb))
                           [0..<rb_capacity rb - rb_fill rb]"

definition used_positions :: "jack_ringbuffer_t \<Rightarrow> nat list" where
  "used_positions rb = map (\<lambda>i. (unat (read_ptr rb) + i) mod length (buf rb)) [0..<rb_fill rb]"

lemma positions_straight:
  "w + n \<le> N \<Longrightarrow> map (\<lambda>i. (w + i) mod N) [0..<n] = [w..<w + n]" for w n N :: nat
  by (rule nth_equalityI) auto

lemma positions_wrapped:
  assumes "w < N" "N < w + n" "n \<le> N"
  shows "map (\<lambda>i. (w + i) mod N) [0..<n] = [w..<N] @ [0..<w + n - N]"
proof (rule nth_equalityI)
  show "length (map (\<lambda>i. (w + i) mod N) [0..<n]) = length ([w..<N] @ [0..<w + n - N])"
    using assms by simp
next
  fix i assume "i < length (map (\<lambda>i. (w + i) mod N) [0..<n])"
  then show "map (\<lambda>i. (w + i) mod N) [0..<n] ! i = ([w..<N] @ [0..<w + n - N]) ! i"
    using assms by (auto simp: nth_append ring_step)
qed

lemma rb_write_vector_spec:
  assumes inv: "rb_pow rb k" and res: "jack_ringbuffer_get_write_vector rb vec = (v0, v1)"
  shows "vec_positions v0 @ vec_positions v1 = free_positions rb"
proof -
  let ?f = "jack_ringbuffer_write_space rb"
  have f: "unat ?f = rb_capacity rb - rb_fill rb" by (rule rb_write_space_room [OF inv])
  have p: "unat (write_ptr rb) < 2 ^ k" using inv by (simp add: rb_pow_def)
  have N: "length (buf rb) = 2 ^ k" by (rule rb_pow_length [OF inv])
  have fN: "unat ?f < 2 ^ k"
    using f N rb_fill_less [OF inv] by (simp add: rb_capacity_def)
  note sp = rb_split [OF inv p fN]
  have e: "jack_ringbuffer_get_write_vector rb vec =
     (if rb_size rb < write_ptr rb + ?f then
        (\<lparr>vec_buf = write_ptr rb, vec_len = rb_size rb - write_ptr rb\<rparr>,
         \<lparr>vec_buf = 0, vec_len = (write_ptr rb + ?f) AND size_mask rb\<rparr>)
      else (\<lparr>vec_buf = write_ptr rb, vec_len = ?f\<rparr>, (snd vec)\<lparr>vec_len := 0\<rparr>))"
    by (simp add: jack_ringbuffer_get_write_vector_def jack_ringbuffer_write_space_def Let_def)
  show ?thesis
  proof (cases "2 ^ k < unat (write_ptr rb) + unat ?f")
    case True
    with res e sp(1-3) p have "vec_positions v0 @ vec_positions v1 =
       [unat (write_ptr rb)..<2 ^ k] @ [0..<unat (write_ptr rb) + unat ?f - 2 ^ k]"
      by (auto simp: vec_positions_def)
    with True p fN show ?thesis
      by (simp add: free_positions_def N f [symmetric] positions_wrapped)
  next
    case False
    with res e sp(1) have "vec_positions v0 @ vec_positions v1 =
       [unat (write_ptr rb)..<unat (write_ptr rb) + unat ?f]"
      by (auto simp: vec_positions_def)
    with False show ?thesis
      by (simp add: free_positions_def N f [symmetric] positions_straight)
  qed
qed

text \<open>Readable and writable positions never overlap: the basis of lock-free sharing.\<close>

lemma rb_positions_disjoint:
  assumes inv: "rb_pow rb k"
  shows "set (free_positions rb) \<inter> set (used_positions rb) = {}"
proof -
  let ?w = "unat (write_ptr rb)" and ?r = "unat (read_ptr rb)" and ?N = "(2::nat) ^ k"
  have w: "?w < ?N" and r: "?r < ?N" and N: "length (buf rb) = ?N"
    using inv by (auto simp: rb_pow_def)
  have "(?w + i) mod ?N \<noteq> (?r + j) mod ?N"
    if i: "i < ?N - 1 - rb_fill rb" and j: "j < rb_fill rb" for i j
  proof -
    have fill: "rb_fill rb = (if ?r \<le> ?w then ?w - ?r else ?w + ?N - ?r)"
      by (simp add: rb_fill_pow [OF inv] ring_dist [OF w r])
    have iN: "i < ?N" and jN: "j < ?N" using i j by linarith+
    show ?thesis
      unfolding ring_step [OF w iN] ring_step [OF r jN]
      using i j w r fill by (auto split: if_splits)
  qed
  then show ?thesis
    by (auto simp: free_positions_def used_positions_def rb_capacity_def N)
qed

section \<open>Properties\<close>

text \<open>
  C5 (refinement). Whatever sequence of writes and reads is made on a well-formed ring buffer,
  the bytes delivered followed by the bytes still queued are the bytes first queued followed
  by the bytes accepted: nothing is lost, reordered or invented, the buffer stays well formed
  and never holds more than its capacity.
\<close>

theorem rb_fifo_order:
  assumes "rb_inv rb" and "fifo_run rb_put rb_get rb cs = (rb', accepted, delivered)"
  shows "delivered @ rb_contents rb' = rb_contents rb @ accepted \<and> rb_inv rb' \<and>
    length (rb_contents rb') \<le> rb_capacity rb"
proof -
  have r: "rb_inv rb' \<and> rb_capacity rb' = rb_capacity rb \<and>
      delivered @ rb_contents rb' = rb_contents rb @ accepted"
    by (rule rbq.run_fifo_order [OF assms])
  then show ?thesis using rbq.within [of rb'] by simp
qed

definition rb_example :: jack_ringbuffer_t where
  "rb_example = \<lparr>buf = [10, 20, 30, 40], write_ptr = 3, read_ptr = 2, rb_size = 4,
                 size_mask = 3, mlocked = False\<rparr>"

lemma rb_example_inv: "rb_inv rb_example"
  by (auto simp: rb_inv_def rb_pow_def rb_example_def intro!: exI [of _ 2])

theorem rb_fifo_order_witness:
  "rb_inv rb_example \<and>
   (case fifo_run rb_put rb_get rb_example [Put [1, 2, 3], Get 2, Put [7]] of
      (rb', accepted, delivered) \<Rightarrow>
        accepted = [1, 2, 7] \<and> delivered = [30, 1] \<and>
        delivered @ rb_contents rb' = rb_contents rb_example @ accepted)"
proof -
  obtain rb' a d where r: "fifo_run rb_put rb_get rb_example [Put [1, 2, 3], Get 2, Put [7]] = (rb', a, d)"
    by (cases "fifo_run rb_put rb_get rb_example [Put [1, 2, 3], Get 2, Put [7]]")
  have "snd (fifo_run rb_put rb_get rb_example [Put [1, 2, 3], Get 2, Put [7]]) = ([1, 2, 7], [30, 1])"
    by (simp add: rb_put_def rb_get_def size_arg_def jack_ringbuffer_write_def jack_ringbuffer_read_def
        jack_ringbuffer_write_space_def jack_ringbuffer_read_space_def rb_example_def Let_def
        memcpy_at_def bytes_at_def)
  then show ?thesis
    using rb_fifo_order [OF rb_example_inv r] rb_example_inv r by simp
qed

text \<open>
  C39 (bounds). For a requested size up to \<open>2 ^ 30\<close> and a working \<open>malloc\<close>, creation is free of
  undefined shifts and returns an empty, well-formed ring buffer. Its size is the least power of two
  from 2 on that is not below the requested size, and it holds one byte less than its size. A
  request for a power of two thus gives a buffer that holds one byte less than was asked for.
\<close>

theorem rb_create_bounds:
  assumes "unat sz \<le> 2 ^ 30"
    and "\<And>n. \<exists>b. malloc_buf n = Some b \<and> length b = unat n"
  shows "\<exists>rb p. jack_ringbuffer_create True malloc_buf sz = Value (Some rb) \<and> rb_inv rb \<and> rb_contents rb = [] \<and>
    1 \<le> p \<and> unat (rb_size rb) = 2 ^ p \<and> rb_capacity rb = 2 ^ p - 1 \<and>
    (\<forall>q. 1 \<le> q \<longrightarrow> (unat sz \<le> 2 ^ q \<longleftrightarrow> p \<le> q))"
  using assms by (rule rb_create_defined)

theorem rb_create_bounds_witness:
  "\<exists>rb. jack_ringbuffer_create True (\<lambda>n. Some (replicate (unat n) 0)) 8 = Value (Some rb) \<and>
    rb_inv rb \<and> rb_contents rb = [] \<and> rb_capacity rb = 7"
proof -
  obtain rb p where rb: "jack_ringbuffer_create True (\<lambda>n. Some (replicate (unat n) 0)) 8 = Value (Some rb)" "rb_inv rb"
    "rb_contents rb = []" "rb_capacity rb = 2 ^ p - 1" "1 \<le> p" "\<forall>q. 1 \<le> q \<longrightarrow> (unat (8::size_t) \<le> 2 ^ q \<longleftrightarrow> p \<le> q)"
    using rb_create_bounds [of 8 "\<lambda>n. Some (replicate (unat n) 0)"] by auto
  have "p \<le> 3" using rb(6) [rule_format, of 3] by simp
  moreover have "\<not> p \<le> 2" using rb(6) [rule_format, of 2] by simp
  ultimately have "p = 3" by simp
  then show ?thesis using rb by auto
qed

text \<open>
  The segments reported to a non-copying reader hold exactly the queued bytes, the
  segments reported to a non-copying writer are exactly the free positions, and no position is
  in both, so that one reader and one writer never touch the same byte.
\<close>

theorem rb_vectors:
  assumes "rb_inv rb"
    and "jack_ringbuffer_get_read_vector rb vec = (r0, r1)"
    and "jack_ringbuffer_get_write_vector rb vec = (w0, w1)"
  shows "vec_bytes rb r0 @ vec_bytes rb r1 = rb_contents rb \<and>
    unat (vec_len w0) + unat (vec_len w1) = unat (jack_ringbuffer_write_space rb) \<and>
    set (vec_positions w0 @ vec_positions w1) \<inter> set (used_positions rb) = {}"
proof (intro conjI)
  obtain k where k: "rb_pow rb k" using assms(1) by (auto simp: rb_inv_def)
  show "vec_bytes rb r0 @ vec_bytes rb r1 = rb_contents rb"
    by (rule rb_read_vector_spec [OF k assms(2)])
  have w: "vec_positions w0 @ vec_positions w1 = free_positions rb"
    by (rule rb_write_vector_spec [OF k assms(3)])
  then have "length (vec_positions w0) + length (vec_positions w1) = rb_capacity rb - rb_fill rb"
    by (metis free_positions_def length_append length_map length_upt minus_nat.diff_0)
  then show "unat (vec_len w0) + unat (vec_len w1) = unat (jack_ringbuffer_write_space rb)"
    by (simp add: vec_positions_def rb_write_space_room [OF k])
  show "set (vec_positions w0 @ vec_positions w1) \<inter> set (used_positions rb) = {}"
    unfolding w by (rule rb_positions_disjoint [OF k])
qed

theorem rb_vectors_witness:
  "let vec = (\<lparr>vec_buf = 0, vec_len = 0\<rparr>, \<lparr>vec_buf = 0, vec_len = 0\<rparr>);
       (r0, r1) = jack_ringbuffer_get_read_vector rb_example vec;
       (w0, w1) = jack_ringbuffer_get_write_vector rb_example vec
   in rb_inv rb_example \<and> vec_bytes rb_example r0 @ vec_bytes rb_example r1 = rb_contents rb_example \<and>
      set (vec_positions w0 @ vec_positions w1) \<inter> set (used_positions rb_example) = {}"
  using rb_vectors [OF rb_example_inv] rb_example_inv
  by (auto simp: Let_def split: prod.split)

end
