(* ===== verification/JSList.thy ===== *)
theory JSList
  imports Jack_Prelude "HOL-Library.Multiset"
begin

text \<open>
  The singly linked lists of \<open>jack/jslist.h\<close>, by their contents: a \<open>JSList\<close> is the list of its
  \<open>data\<close> pointers, \<open>NULL\<close> is the empty list, and a pointer into a list is the rest of it. The
  merge sort keeps the split and the merge of the code; its comparison function returns an
  option, \<open>None\<close> standing for a comparison that does not return.
\<close>

section \<open>List operations\<close>

definition jack_slist_prepend :: "'a list \<Rightarrow> 'a \<Rightarrow> 'a list" where
  "jack_slist_prepend list data = data # list"

fun jack_slist_last :: "'a list \<Rightarrow> 'a list" where
  "jack_slist_last [] = []"
| "jack_slist_last [x] = [x]"
| "jack_slist_last (x # y # list) = jack_slist_last (y # list)"

fun jack_slist_remove :: "'a list \<Rightarrow> 'a \<Rightarrow> 'a list" where
  "jack_slist_remove [] data = []"
| "jack_slist_remove (x # list) data = (if x = data then list else x # jack_slist_remove list data)"

fun jack_slist_length_from :: "'a list \<Rightarrow> u32 \<Rightarrow> u32" where
  "jack_slist_length_from [] len = len"
| "jack_slist_length_from (x # list) len = jack_slist_length_from list (len + 1)"

definition jack_slist_length :: "'a list \<Rightarrow> u32" where
  "jack_slist_length list = jack_slist_length_from list 0"

fun jack_slist_find :: "'a list \<Rightarrow> 'a \<Rightarrow> 'a list" where
  "jack_slist_find [] data = []"
| "jack_slist_find (x # list) data = (if x = data then x # list else jack_slist_find list data)"

fun jack_slist_copy :: "'a list \<Rightarrow> 'a list" where
  "jack_slist_copy [] = []"
| "jack_slist_copy (x # list) = x # jack_slist_copy list"

fun jack_slist_append :: "'a list \<Rightarrow> 'a \<Rightarrow> 'a list" where
  "jack_slist_append [] data = [data]"
| "jack_slist_append (x # list) data = x # jack_slist_append list data"

lemma jack_slist_remove_remove1 [simp]: "jack_slist_remove xs a = remove1 a xs"
  by (induction xs) auto

lemma jack_slist_find_iff [simp]: "jack_slist_find xs a \<noteq> [] \<longleftrightarrow> a \<in> set xs"
  by (induction xs) auto

lemma jack_slist_append_snoc [simp]: "jack_slist_append xs a = xs @ [a]"
  by (induction xs) auto

lemma jack_slist_copy_id [simp]: "jack_slist_copy xs = xs"
  by (induction xs) auto

lemma jack_slist_length_from_eq: "jack_slist_length_from xs n = n + of_nat (length xs)"
  by (induction xs arbitrary: n) (auto simp: algebra_simps)

lemma jack_slist_length_eq [simp]: "jack_slist_length xs = of_nat (length xs)"
  by (simp add: jack_slist_length_def jack_slist_length_from_eq)

section \<open>The merge sort\<close>

type_synonym 'a compare_func = "'a \<Rightarrow> 'a \<Rightarrow> int option"

fun jack_slist_sort_merge :: "'a compare_func \<Rightarrow> 'a list \<Rightarrow> 'a list \<Rightarrow> 'a list option" where
  "jack_slist_sort_merge cmp (x # l1) (y # l2) =
     (case cmp x y of
        None \<Rightarrow> None
      | Some v \<Rightarrow>
          if v < 0 then map_option ((#) x) (jack_slist_sort_merge cmp l1 (y # l2))
          else map_option ((#) y) (jack_slist_sort_merge cmp (x # l1) l2))"
| "jack_slist_sort_merge cmp [] l2 = Some l2"
| "jack_slist_sort_merge cmp l1 [] = Some l1"

text \<open>
  The split: \<open>l1\<close> moves one node for every two of \<open>l2\<close>, which starts at the second node.
  \<open>slist_mid (drop 2 list) 0\<close> is the index of the node where \<open>l1\<close> stops.
\<close>

fun slist_mid :: "'a list \<Rightarrow> nat \<Rightarrow> nat" where
  "slist_mid [] i = i"
| "slist_mid [x] i = i"
| "slist_mid (x # y # rest) i = slist_mid rest (Suc i)"

lemma slist_mid_bound: "slist_mid xs i \<le> i + length xs div 2"
  by (induction xs i rule: slist_mid.induct) auto

function jack_slist_sort :: "'a compare_func \<Rightarrow> 'a list \<Rightarrow> 'a list option" where
  "jack_slist_sort cmp [] = Some []"
| "jack_slist_sort cmp [x] = Some [x]"
| "jack_slist_sort cmp (x # y # zs) =
     (let n = Suc (slist_mid zs 0) in
      case jack_slist_sort cmp (take n (x # y # zs)) of
        None \<Rightarrow> None
      | Some l1 \<Rightarrow>
          (case jack_slist_sort cmp (drop n (x # y # zs)) of
             None \<Rightarrow> None
           | Some l2 \<Rightarrow> jack_slist_sort_merge cmp l1 l2))"
  by pat_completeness auto
termination
proof (relation "measure (\<lambda>(cmp, xs). length xs)")
  fix cmp :: "'a compare_func" and x y zs n
  assume n: "n = Suc (slist_mid (zs :: 'a list) 0)"
  have "n \<le> Suc (length zs)" using slist_mid_bound [of zs 0] n by simp
  then show "((cmp, take n (x # y # zs)), cmp, x # y # zs) \<in> measure (\<lambda>(cmp, xs). length xs)"
    by simp
  show "((cmp, drop n (x # y # zs)), cmp, x # y # zs) \<in> measure (\<lambda>(cmp, xs). length xs)"
    using n by simp
qed simp

declare jack_slist_sort.simps(3) [simp del]

lemma sort_merge_defined:
  assumes "\<And>a b. a \<in> set xs \<Longrightarrow> b \<in> set ys \<Longrightarrow> cmp a b \<noteq> None"
  shows "\<exists>zs. jack_slist_sort_merge cmp xs ys = Some zs \<and> mset zs = mset xs + mset ys"
  using assms
proof (induction cmp xs ys rule: jack_slist_sort_merge.induct)
  case (1 cmp x l1 y l2)
  obtain v where v: "cmp x y = Some v" using "1.prems" [of x y] by auto
  show ?case
  proof (cases "v < 0")
    case True
    then show ?thesis using "1.IH"(1) [OF v True] "1.prems" v by auto
  next
    case False
    then show ?thesis using "1.IH"(2) [OF v False] "1.prems" v by auto
  qed
qed auto

lemma sort_step:
  assumes "2 \<le> length xs"
  obtains n where "0 < n" "n < length xs"
    "\<And>cmp. jack_slist_sort cmp xs =
      (case jack_slist_sort cmp (take n xs) of
        None \<Rightarrow> None
      | Some l1 \<Rightarrow> (case jack_slist_sort cmp (drop n xs) of
             None \<Rightarrow> None | Some l2 \<Rightarrow> jack_slist_sort_merge cmp l1 l2))"
proof -
  obtain x y zs where xs: "xs = x # y # zs"
    using assms by (cases xs; cases "tl xs") auto
  have "Suc (slist_mid zs 0) < length xs" using slist_mid_bound [of zs 0] xs by simp
  with that [of "Suc (slist_mid zs 0)"] show thesis
    unfolding xs jack_slist_sort.simps(3) Let_def by simp
qed

text \<open>Induction over the sort: one case for the short lists, one for the split.\<close>

lemma sort_induct [case_names short split]:
  assumes "\<And>xs. length xs < 2 \<Longrightarrow> P xs"
    and "\<And>xs n. 2 \<le> length xs \<Longrightarrow> 0 < n \<Longrightarrow> n < length xs \<Longrightarrow> P (take n xs) \<Longrightarrow> P (drop n xs) \<Longrightarrow>
      (\<And>cmp. jack_slist_sort cmp xs =
      (case jack_slist_sort cmp (take n xs) of
        None \<Rightarrow> None
      | Some l1 \<Rightarrow> (case jack_slist_sort cmp (drop n xs) of
             None \<Rightarrow> None | Some l2 \<Rightarrow> jack_slist_sort_merge cmp l1 l2))) \<Longrightarrow> P xs"
  shows "P xs"
proof (induction xs rule: length_induct)
  case (1 xs)
  show ?case
  proof (cases "length xs < 2")
    case True
    then show ?thesis by (rule assms(1))
  next
    case False
    then have l: "2 \<le> length xs" by simp
    obtain n where n: "0 < n" "n < length xs"
      and e: "\<And>cmp. jack_slist_sort cmp xs =
      (case jack_slist_sort cmp (take n xs) of
        None \<Rightarrow> None
      | Some l1 \<Rightarrow> (case jack_slist_sort cmp (drop n xs) of
             None \<Rightarrow> None | Some l2 \<Rightarrow> jack_slist_sort_merge cmp l1 l2))"
      using sort_step [OF l] by metis
    show ?thesis using assms(2) [OF l n _ _ e] 1 n by simp
  qed
qed

lemma sort_short: "length xs < 2 \<Longrightarrow> jack_slist_sort cmp xs = Some xs"
  by (cases xs; cases "tl xs") auto

lemma sort_defined:
  "(\<And>a b. a \<in> set xs \<Longrightarrow> b \<in> set xs \<Longrightarrow> cmp a b \<noteq> None) \<Longrightarrow>
   \<exists>zs. jack_slist_sort cmp xs = Some zs \<and> mset zs = mset xs"
proof (induction xs rule: sort_induct)
  case (short xs)
  then show ?case by (simp add: sort_short)
next
  case (split xs n)
  obtain l1 where l1: "jack_slist_sort cmp (take n xs) = Some l1" "mset l1 = mset (take n xs)"
    using split.IH(1) split.prems by (meson in_set_takeD)
  obtain l2 where l2: "jack_slist_sort cmp (drop n xs) = Some l2" "mset l2 = mset (drop n xs)"
    using split.IH(2) split.prems by (meson in_set_dropD)
  have "set l1 \<subseteq> set xs" "set l2 \<subseteq> set xs"
    using l1(2) l2(2) by (metis set_mset_mset set_take_subset, metis set_mset_mset set_drop_subset)
  then obtain zs where "jack_slist_sort_merge cmp l1 l2 = Some zs" "mset zs = mset l1 + mset l2"
    using sort_merge_defined [of l1 l2 cmp] split.prems by (meson subsetD)
  then show ?case
    using l1 l2 by (simp add: split.hyps(4)) (metis append_take_drop_id mset_append)
qed

text \<open>The sort looks at the comparison on the items of the list only.\<close>

lemma sort_merge_cong:
  "(\<And>a b. a \<in> set xs \<Longrightarrow> b \<in> set ys \<Longrightarrow> cmp a b = cmp' a b) \<Longrightarrow>
   jack_slist_sort_merge cmp xs ys = jack_slist_sort_merge cmp' xs ys"
proof (induction cmp xs ys rule: jack_slist_sort_merge.induct)
  case (1 cmp x l1 y l2)
  have h: "cmp x y = cmp' x y" using "1.prems" by simp
  show ?case
  proof (cases "cmp x y")
    case None
    then show ?thesis using h by simp
  next
    case (Some v)
    then show ?thesis using "1.IH" "1.prems" h by (cases "v < 0") auto
  qed
qed auto

lemma sort_cong:
  "(\<And>a b. a \<in> set xs \<Longrightarrow> b \<in> set xs \<Longrightarrow> cmp a b = cmp' a b) \<Longrightarrow> (\<And>a b. cmp' a b \<noteq> None) \<Longrightarrow>
   jack_slist_sort cmp xs = jack_slist_sort cmp' xs"
proof (induction xs rule: sort_induct)
  case (short xs)
  then show ?case by (simp add: sort_short)
next
  case (split xs n)
  obtain l1 where l1: "jack_slist_sort cmp' (take n xs) = Some l1" "mset l1 = mset (take n xs)"
    using sort_defined [of "take n xs" cmp'] split.prems(2) by blast
  obtain l2 where l2: "jack_slist_sort cmp' (drop n xs) = Some l2" "mset l2 = mset (drop n xs)"
    using sort_defined [of "drop n xs" cmp'] split.prems(2) by blast
  have sub: "set l1 \<subseteq> set xs" "set l2 \<subseteq> set xs"
    using l1(2) l2(2) by (metis set_mset_mset set_take_subset, metis set_mset_mset set_drop_subset)
  have "jack_slist_sort cmp (take n xs) = Some l1" "jack_slist_sort cmp (drop n xs) = Some l2"
    using split.IH split.prems l1(1) l2(1) by (auto dest: in_set_takeD in_set_dropD)
  moreover have "jack_slist_sort_merge cmp l1 l2 = jack_slist_sort_merge cmp' l1 l2"
    using split.prems(1) sub by (intro sort_merge_cong) blast
  ultimately show ?case using l1(1) l2(1) by (simp add: split.hyps(4))
qed

section \<open>What the sort needs of a comparison, and what it gives\<close>

text \<open>
  The contract of a comparison function that depends on a state: it returns on the items at
  hand, and its sign agrees with a transitive relation \<open>R\<close>. \<open>R a b\<close> reads "\<open>a\<close> may come before
  \<open>b\<close>"; it need not be total.
\<close>

locale slist_compare =
  fixes inv :: "'s \<Rightarrow> bool"
    and items :: "'s \<Rightarrow> 'a set"
    and cmp :: "'s \<Rightarrow> 'a compare_func"
    and R :: "'s \<Rightarrow> 'a \<Rightarrow> 'a \<Rightarrow> bool"
  assumes returns: "inv s \<Longrightarrow> a \<in> items s \<Longrightarrow> b \<in> items s \<Longrightarrow> cmp s a b \<noteq> None"
    and less: "inv s \<Longrightarrow> a \<in> items s \<Longrightarrow> b \<in> items s \<Longrightarrow> cmp s a b = Some v \<Longrightarrow> v < 0 \<Longrightarrow> R s a b"
    and not_less: "inv s \<Longrightarrow> a \<in> items s \<Longrightarrow> b \<in> items s \<Longrightarrow> cmp s a b = Some v \<Longrightarrow> \<not> v < 0 \<Longrightarrow> R s b a"
    and trans: "inv s \<Longrightarrow> a \<in> items s \<Longrightarrow> b \<in> items s \<Longrightarrow> c \<in> items s \<Longrightarrow> R s a b \<Longrightarrow> R s b c \<Longrightarrow> R s a c"
begin

lemma merge_sorted:
  "inv s \<Longrightarrow> set xs \<subseteq> items s \<Longrightarrow> set ys \<subseteq> items s \<Longrightarrow> sorted_wrt (R s) xs \<Longrightarrow> sorted_wrt (R s) ys \<Longrightarrow>
   jack_slist_sort_merge (cmp s) xs ys = Some zs \<Longrightarrow> set zs = set xs \<union> set ys \<and> sorted_wrt (R s) zs"
proof (induction "cmp s" xs ys arbitrary: zs rule: jack_slist_sort_merge.induct)
  case (1 x l1 y l2)
  obtain v where v: "cmp s x y = Some v" using "1.prems"(6) by (auto split: option.splits)
  show ?case
  proof (cases "v < 0")
    case True
    then obtain ws where ws: "jack_slist_sort_merge (cmp s) l1 (y # l2) = Some ws" "zs = x # ws"
      using "1.prems"(6) v by auto
    have IH: "set ws = set l1 \<union> set (y # l2) \<and> sorted_wrt (R s) ws"
      using "1.hyps"(1) [OF v True _ _ _ _ _ ws(1)] "1.prems" by simp
    have xy: "R s x y" using less [OF _ _ _ v True] "1.prems" by simp
    have "R s x b" if "b \<in> set l2" for b
    proof -
      have "R s y b" using "1.prems"(5) that by simp
      then show ?thesis using trans [OF _ _ _ _ xy] "1.prems"(1-3) that by auto
    qed
    then show ?thesis using IH "1.prems"(4) xy ws(2) by auto
  next
    case False
    then obtain ws where ws: "jack_slist_sort_merge (cmp s) (x # l1) l2 = Some ws" "zs = y # ws"
      using "1.prems"(6) v by auto
    have IH: "set ws = set (x # l1) \<union> set l2 \<and> sorted_wrt (R s) ws"
      using "1.hyps"(2) [OF v False _ _ _ _ _ ws(1)] "1.prems" by simp
    have yx: "R s y x" using not_less [OF _ _ _ v False] "1.prems" by simp
    have "R s y b" if "b \<in> set l1" for b
    proof -
      have "R s x b" using "1.prems"(4) that by simp
      then show ?thesis using trans [OF _ _ _ _ yx] "1.prems"(1-3) that by auto
    qed
    then show ?thesis using IH "1.prems"(5) yx ws(2) by auto
  qed
qed auto

lemma sort_sorted:
  assumes inv: "inv s" and items: "set xs \<subseteq> items s"
  shows "\<exists>zs. jack_slist_sort (cmp s) xs = Some zs \<and> mset zs = mset xs \<and> sorted_wrt (R s) zs"
proof -
  obtain zs where zs: "jack_slist_sort (cmp s) xs = Some zs" "mset zs = mset xs"
    using sort_defined [of xs "cmp s"] returns [OF inv] items by (meson subsetD)
  have "set xs \<subseteq> items s \<Longrightarrow> jack_slist_sort (cmp s) xs = Some zs \<Longrightarrow>
      set zs = set xs \<and> sorted_wrt (R s) zs"
  proof (induction xs arbitrary: zs rule: sort_induct)
    case (short xs)
    then show ?case by (cases xs) (auto simp: sort_short)
  next
    case (split xs n)
    obtain l1 l2 where l: "jack_slist_sort (cmp s) (take n xs) = Some l1"
      "jack_slist_sort (cmp s) (drop n xs) = Some l2" "jack_slist_sort_merge (cmp s) l1 l2 = Some zs"
      using split.prems(2) by (auto simp: split.hyps(4) split: option.splits)
    have tk: "set l1 = set (take n xs) \<and> sorted_wrt (R s) l1"
      using split.IH(1) [OF _ l(1)] split.prems(1) by (meson order_trans set_take_subset)
    have dr: "set l2 = set (drop n xs) \<and> sorted_wrt (R s) l2"
      using split.IH(2) [OF _ l(2)] split.prems(1) by (meson order_trans set_drop_subset)
    have "set (take n xs) \<union> set (drop n xs) = set xs"
      by (metis append_take_drop_id set_append)
    then show ?case
      using merge_sorted [OF inv _ _ _ _ l(3)] tk dr split.prems(1) by auto
  qed
  with zs items show ?thesis by blast
qed

end

end
