(* ===== verification/Engine_Types.thy ===== *)
theory Engine_Types
  imports JSList
begin

text \<open>
  The data of the server: \<open>jack/internal.h\<close>, \<open>jack/engine.h\<close>, \<open>jack/port.h\<close> and
  \<open>jack/transport.h\<close>. A client pointer, a port (its index in the engine's port array) and a
  connection pointer are natural numbers; the engine state holds the memory they point to. The
  control block of a client, which the C code reaches through \<open>client->control\<close>, is part of the
  client's record, and a port's shared and server-local halves are one record. What the
  operating system and the client processes answer is an input of the state (\<open>io\<close>), read one
  answer at a time; every event handed to a client is recorded in \<open>trace\<close>.
\<close>

section \<open>Clients, ports and connections\<close>

type_synonym cptr = nat
type_synonym pidx = nat
type_synonym kptr = nat

datatype ClientType = ClientInternal | ClientDriver | ClientExternal

datatype jack_client_state_t = NotTriggered | Triggered | Running | Finished

definition JackPortIsInput :: u32 where "JackPortIsInput = 0x1"
definition JackPortIsOutput :: u32 where "JackPortIsOutput = 0x2"
definition JackPortIsPhysical :: u32 where "JackPortIsPhysical = 0x4"
definition JackPortIsTerminal :: u32 where "JackPortIsTerminal = 0x10"

definition flag_set :: "u32 \<Rightarrow> u32 \<Rightarrow> bool" where
  "flag_set flags f \<longleftrightarrow> flags AND f \<noteq> 0"

record jack_client_internal_t =
  cl_id :: u32
  cl_uid :: u32
  cl_name :: string
  cl_type :: ClientType
  active :: bool
  dead :: bool
  timed_out :: nat
  awake_at :: u64
  finished_at :: u64
  is_timebase :: bool
  timebase_new :: bool
  is_slowsync :: bool
  active_slowsync :: bool
  sync_poll :: bool
  sync_new :: bool
  process_cbset :: bool
  thread_cb_cbset :: bool
  port_register_cbset :: bool
  port_connect_cbset :: bool
  client_register_cbset :: bool
  sync_cb_cbset :: bool
  timebase_cb_cbset :: bool
  request_fd :: int
  event_fd :: int
  subgraph_start_fd :: int
  subgraph_wait_fd :: int
  cl_ports :: "pidx list"
  truefeeds :: "cptr list"
  sortfeeds :: "cptr list"
  fedcount :: int
  tfedcount :: int
  execution_order :: nat
  next_client :: "cptr option"
  cl_error :: int
  session_reply_pending :: bool
  handle :: bool
  cl_state :: jack_client_state_t
  last_status :: int
  session_cbset :: bool
  session_command :: string
  session_flags :: u32

record jack_connection_internal_t =
  source :: pidx
  destination :: pidx
  srcclient :: cptr
  dstclient :: cptr
  dir :: int

record jack_port_t =
  ptype_id :: nat
  p_offset :: int
  p_flags :: u32
  p_name :: string
  alias1 :: string
  alias2 :: string
  p_client_id :: u32
  latency :: jack_nframes_t
  total_latency :: jack_nframes_t
  monitor_requests :: nat
  has_mixdown :: bool
  in_use :: bool
  connections :: "kptr list"
  buffer_info :: "nat option"

section \<open>Transport data\<close>

datatype jack_transport_state_t =
  JackTransportStopped | JackTransportRolling | JackTransportLooping | JackTransportStarting

datatype transport_command_t = TransportCommandNone | TransportCommandStart | TransportCommandStop

text \<open>
  A transport position. The musical and time code fields that no server code looks at (bar,
  beat, tick and the rest) are carried along as one value.
\<close>

record jack_position_t =
  unique_1 :: u64
  usecs :: u64
  frame_rate :: jack_nframes_t
  frame :: jack_nframes_t
  valid :: u32
  bbt :: nat
  unique_2 :: u64

definition jack_position_zero :: jack_position_t where
  "jack_position_zero = \<lparr>unique_1 = 0, usecs = 0, frame_rate = 0, frame = 0, valid = 0, bbt = 0, unique_2 = 0\<rparr>"

record jack_port_type_info_t =
  type_name :: string
  buffer_scale_factor :: int
  type_buffer_size :: int
  zero_buffer_offset :: int

record jack_control_t =
  transport_state :: jack_transport_state_t
  transport_cmd :: transport_command_t
  previous_cmd :: transport_command_t
  current_time :: jack_position_t
  pending_time :: jack_position_t
  request_time :: jack_position_t
  prev_request :: u64
  seq_number :: u32
  new_pos :: bool
  pending_pos :: bool
  pending_frame :: jack_nframes_t
  sync_clients :: int
  sync_remain :: int
  sync_timeout :: u64
  sync_time_left :: u64
  buffer_size :: jack_nframes_t
  port_types :: "jack_port_type_info_t list"

section \<open>Events and the outside world\<close>

datatype jack_event_t =
    BufferSizeChange
  | SampleRateChange
  | AttachPortSegment nat
  | PortConnected pidx pidx
  | PortDisconnected pidx pidx
  | GraphReordered nat bool
  | PortRegistered pidx
  | PortUnregistered pidx
  | ClientRegistered string
  | ClientUnregistered string
  | LatencyCallback bool
  | XRun
  | StartFreewheel
  | StopFreewheel
  | SaveSession u32 string

text \<open>What the server writes to the socket of a client that is not an event.\<close>

datatype reply =
    ReplyCount nat
  | ReplyPort pidx
  | ReplyUuid u32
  | ReplyName string
  | ReplyCommand string
  | ReplyFlags u32
  | ReplyAck

text \<open>
  What the world answers to one event delivery: whether the client process is alive
  (\<open>kill (pid, 0)\<close>), whether the event could be written, what \<open>poll\<close> reported and the status byte
  read back, if any.
\<close>

datatype poll_outcome = PollError | PollHangup | PollReadable | PollTimeout | PollFalseWakeup

record delivery =
  process_alive :: bool
  event_written :: bool
  poll_result :: poll_outcome
  status_read :: "int option"

section \<open>The engine\<close>

text \<open>
  For each port type \<open>t\<close> the server has an array of \<open>buffer_infos t\<close> buffer descriptors (\<open>None\<close>
  before it is allocated); \<open>buffer_offset t b\<close> is where buffer \<open>b\<close> lies in the shared segment of
  the type, whose size is \<open>port_segment t\<close>, and \<open>freelist t\<close> holds the buffers no port uses.
\<close>

record jack_engine_t =
  control :: jack_control_t
  clients :: "cptr list"
  cmem :: "cptr \<Rightarrow> jack_client_internal_t"
  next_cptr :: cptr
  ports :: "jack_port_t list"
  freelist :: "nat \<Rightarrow> nat list"
  buffer_infos :: "nat \<Rightarrow> nat option"
  buffer_offset :: "nat \<Rightarrow> nat \<Rightarrow> int"
  port_segment :: "nat \<Rightarrow> int option"
  silent_buffer :: "nat option"
  conns :: "kptr \<Rightarrow> jack_connection_internal_t"
  next_kptr :: kptr
  feedbackcount :: int
  timebase_client :: "cptr option"
  driver_client :: "cptr option"
  next_client_id :: u32
  reserved_client_names :: "(u32 \<times> string) list"
  external_client_cnt :: nat
  timeout_count :: int
  problems :: int
  session_pending_replies :: int
  session_reply_fd :: int
  temporary :: bool
  wait_pid :: int
  shut_down :: bool
  new_clients_allowed :: bool
  nozombies :: bool
  freewheeling :: bool
  stop_freewheeling :: bool
  fwclient :: u32
  slave_drivers :: "nat list"
  process_errors :: nat
  fifo_fd :: "nat \<Rightarrow> int"
  audio_out_cnt :: nat
  audio_in_cnt :: nat
  midi_out_cnt :: nat
  midi_in_cnt :: nat
  io :: "nat \<Rightarrow> delivery"
  io_pos :: nat
  trace :: "(cptr \<times> jack_event_t) list"
  sent :: "(int \<times> reply) list"

text \<open>Writing through a client pointer, a port pointer, a connection pointer.\<close>

definition upd_client :: "cptr \<Rightarrow> (jack_client_internal_t \<Rightarrow> jack_client_internal_t) \<Rightarrow>
    jack_engine_t \<Rightarrow> jack_engine_t" where
  "upd_client c f e = e\<lparr>cmem := (cmem e)(c := f (cmem e c))\<rparr>"

definition upd_port :: "pidx \<Rightarrow> (jack_port_t \<Rightarrow> jack_port_t) \<Rightarrow> jack_engine_t \<Rightarrow> jack_engine_t" where
  "upd_port p f e = e\<lparr>ports := (ports e)[p := f (ports e ! p)]\<rparr>"

definition upd_conn :: "kptr \<Rightarrow> (jack_connection_internal_t \<Rightarrow> jack_connection_internal_t) \<Rightarrow>
    jack_engine_t \<Rightarrow> jack_engine_t" where
  "upd_conn k f e = e\<lparr>conns := (conns e)(k := f (conns e k))\<rparr>"

definition upd_control :: "(jack_control_t \<Rightarrow> jack_control_t) \<Rightarrow> jack_engine_t \<Rightarrow> jack_engine_t" where
  "upd_control f e = e\<lparr>control := f (control e)\<rparr>"

definition jack_client_is_internal :: "jack_client_internal_t \<Rightarrow> bool" where
  "jack_client_is_internal c \<longleftrightarrow> cl_type c = ClientInternal \<or> cl_type c = ClientDriver"

fun client_search :: "(cptr \<Rightarrow> jack_client_internal_t) \<Rightarrow> cptr list \<Rightarrow> u32 \<Rightarrow> cptr option" where
  "client_search m [] i = None"
| "client_search m (c # cs) i = (if cl_id (m c) = i then Some c else client_search m cs i)"

definition jack_client_internal_by_id :: "jack_engine_t \<Rightarrow> u32 \<Rightarrow> cptr option" where
  "jack_client_internal_by_id e i = client_search (cmem e) (clients e) i"

lemma client_search_Some:
  "client_search m cs i = Some c \<Longrightarrow> c \<in> set cs \<and> cl_id (m c) = i"
  by (induction cs) (auto split: if_splits)

lemma client_search_None:
  "client_search m cs i = None \<longleftrightarrow> (\<forall>c \<in> set cs. cl_id (m c) \<noteq> i)"
  by (induction cs) auto

lemma by_id_Some:
  "jack_client_internal_by_id e i = Some c \<Longrightarrow> c \<in> set (clients e) \<and> cl_id (cmem e c) = i"
  by (simp add: jack_client_internal_by_id_def client_search_Some)

definition EINVAL :: int where "EINVAL = 22"

section \<open>Delivering an event\<close>

definition JACK_ERROR_WITH_SOCKETS :: int where
  "JACK_ERROR_WITH_SOCKETS = 10000000"

definition jack_engine_signal_problems :: "jack_engine_t \<Rightarrow> jack_engine_t" where
  "jack_engine_signal_problems e = e\<lparr>problems := problems e + 1\<rparr>"

definition client_socket_error :: "cptr \<Rightarrow> jack_engine_t \<Rightarrow> jack_engine_t" where
  "client_socket_error c e =
     jack_engine_signal_problems
       (upd_client c (\<lambda>r. r\<lparr>cl_error := cl_error r + JACK_ERROR_WITH_SOCKETS\<rparr>) e)"

text \<open>The status of a poll on the client's event socket.\<close>

fun poll_status :: "poll_outcome \<Rightarrow> int" where
  "poll_status PollError = -1"
| "poll_status PollHangup = -2"
| "poll_status PollReadable = 0"
| "poll_status PollFalseWakeup = 0"
| "poll_status PollTimeout = -2"

definition jack_deliver_event :: "jack_engine_t \<Rightarrow> cptr \<Rightarrow> jack_event_t \<Rightarrow> jack_engine_t \<times> int" where
  "jack_deliver_event e c ev =
     (let d = io e (io_pos e);
          e0 = e\<lparr>io_pos := Suc (io_pos e)\<rparr>;
          cl = cmem e c
      in if dead cl \<or> JACK_ERROR_WITH_SOCKETS \<le> cl_error cl \<or>
            (cl_type cl = ClientExternal \<and> \<not> process_alive d) then (e0, 0)
         else if jack_client_is_internal cl then (e0\<lparr>trace := trace e0 @ [(c, ev)]\<rparr>, 0)
         else if active cl then
           (let e1 = (if event_written d then e0\<lparr>trace := trace e0 @ [(c, ev)]\<rparr>
                      else client_socket_error c e0);
                st = (if cl_error (cmem e1 c) \<noteq> 0 then -1 else poll_status (poll_result d));
                st' = (if st = 0 then (case status_read d of Some v \<Rightarrow> v | None \<Rightarrow> -1) else st)
            in if st' < 0 then (client_socket_error c e1, st') else (e1, st'))
         else (e0, 0))"

end
