(* ===== verification/Engine_Graph.thy ===== *)
theory Engine_Graph
  imports Engine_Types
begin

text \<open>
  The port graph of \<open>server/engine.c\<close>: the feeds relation between clients, the sort into execution
  order, the chain of execution, total latencies, the check whether a graph with feedback has
  become acyclic, and making and breaking connections. Operations that may not return (a
  comparison on a cyclic feeds relation) or dereference a missing driver have \<open>Undefined\<close> as a
  result.
\<close>

section \<open>Results that may be undefined\<close>

fun c_bind :: "'a c_result \<Rightarrow> ('a \<Rightarrow> 'b c_result) \<Rightarrow> 'b c_result" where
  "c_bind Undefined f = Undefined"
| "c_bind AssertFailed f = AssertFailed"
| "c_bind (Value x) f = f x"

definition c_map :: "('a \<Rightarrow> 'b) \<Rightarrow> 'a c_result \<Rightarrow> 'b c_result" where
  "c_map f r = c_bind r (\<lambda>x. Value (f x))"

lemma c_map_simps [simp]:
  "c_map f Undefined = Undefined" "c_map f AssertFailed = AssertFailed" "c_map f (Value x) = Value (f x)"
  by (simp_all add: c_map_def)

fun c_of_option :: "'a option \<Rightarrow> 'a c_result" where
  "c_of_option None = Undefined"
| "c_of_option (Some x) = Value x"

section \<open>The feeds relation and the order of clients\<close>

text \<open>
  \<open>jack_client_feeds_transitive\<close> recurses along the sortfeeds lists and returns only if that
  recursion is finite. The first argument bounds its depth; \<open>None\<close> means the bound was reached.
\<close>

function (sequential) feeds_transitive :: "nat \<Rightarrow> (cptr \<Rightarrow> cptr list) \<Rightarrow> cptr \<Rightarrow> cptr \<Rightarrow> bool option"
  and feeds_any :: "nat \<Rightarrow> (cptr \<Rightarrow> cptr list) \<Rightarrow> cptr list \<Rightarrow> cptr \<Rightarrow> bool option" where
  "feeds_transitive 0 sf src dst = None"
| "feeds_transitive (Suc n) sf src dst =
     (if jack_slist_find (sf src) dst \<noteq> [] then Some True else feeds_any n sf (sf src) dst)"
| "feeds_any n sf [] dst = Some False"
| "feeds_any n sf (med # rest) dst =
     (case feeds_transitive n sf med dst of
        None \<Rightarrow> None
      | Some True \<Rightarrow> Some True
      | Some False \<Rightarrow> feeds_any n sf rest dst)"
  by pat_completeness auto
termination
  by (relation "measures [\<lambda>x. case x of Inl (n, _) \<Rightarrow> n | Inr (n, _) \<Rightarrow> n,
        \<lambda>x. case x of Inl _ \<Rightarrow> 0 | Inr (n, sf, cs, d) \<Rightarrow> Suc (length cs)]") auto

definition sortfeeds_of :: "jack_engine_t \<Rightarrow> cptr \<Rightarrow> cptr list" where
  "sortfeeds_of e c = sortfeeds (cmem e c)"

definition jack_client_feeds_transitive :: "jack_engine_t \<Rightarrow> cptr \<Rightarrow> cptr \<Rightarrow> bool option" where
  "jack_client_feeds_transitive e src dst =
     feeds_transitive (Suc (length (clients e))) (sortfeeds_of e) src dst"

definition is_driver :: "jack_engine_t \<Rightarrow> cptr \<Rightarrow> bool" where
  "is_driver e c \<longleftrightarrow> cl_type (cmem e c) = ClientDriver"

definition jack_client_sort :: "jack_engine_t \<Rightarrow> cptr \<Rightarrow> cptr \<Rightarrow> int option" where
  "jack_client_sort e a b =
     (case jack_client_feeds_transitive e a b of
        None \<Rightarrow> None
      | Some ab \<Rightarrow>
          if ab \<or> (is_driver e a \<and> \<not> is_driver e b) then Some (-1)
          else (case jack_client_feeds_transitive e b a of
                  None \<Rightarrow> None
                | Some ba \<Rightarrow>
                    if ba \<or> (is_driver e b \<and> \<not> is_driver e a) then Some 1 else Some 0))"

section \<open>Delivering events to groups of clients\<close>

fun deliver_each :: "jack_engine_t \<Rightarrow> cptr list \<Rightarrow> jack_event_t \<Rightarrow> jack_engine_t" where
  "deliver_each e [] ev = e"
| "deliver_each e (c # cs) ev = deliver_each (fst (jack_deliver_event e c ev)) cs ev"

definition jack_deliver_event_to_all :: "jack_engine_t \<Rightarrow> jack_event_t \<Rightarrow> jack_engine_t" where
  "jack_deliver_event_to_all e ev = deliver_each e (clients e) ev"

definition connection_event :: "bool \<Rightarrow> pidx \<Rightarrow> pidx \<Rightarrow> jack_event_t" where
  "connection_event connected a b = (if connected then PortConnected a b else PortDisconnected a b)"

definition jack_send_connection_notification ::
  "jack_engine_t \<Rightarrow> u32 \<Rightarrow> pidx \<Rightarrow> pidx \<Rightarrow> bool \<Rightarrow> jack_engine_t \<times> int" where
  "jack_send_connection_notification e client_id self other connected =
     (case jack_client_internal_by_id e client_id of
        None \<Rightarrow> (e, -1)
      | Some c \<Rightarrow>
          if active (cmem e c) then
            (let (e1, st) = jack_deliver_event e c (connection_event connected self other)
             in if st \<noteq> 0 then (e1, -1) else (e1, 0))
          else (e, 0))"

definition jack_notify_all_port_interested_clients ::
  "jack_engine_t \<Rightarrow> u32 \<Rightarrow> u32 \<Rightarrow> pidx \<Rightarrow> pidx \<Rightarrow> bool \<Rightarrow> jack_engine_t" where
  "jack_notify_all_port_interested_clients e src dst a b connected =
     deliver_each e
       (filter (\<lambda>c. jack_client_internal_by_id e src \<noteq> Some c \<and>
                    jack_client_internal_by_id e dst \<noteq> Some c \<and> port_connect_cbset (cmem e c))
               (clients e))
       (connection_event connected a b)"

section \<open>The execution chain\<close>

text \<open>
  The loop of \<open>jack_rechain_graph\<close> over the rest of the client list, with the next execution
  order and the client that starts the current subgraph. The inner loop over \<open>next\<close> tests the
  current client, as the code does. \<open>fifo_fd e n\<close> is the descriptor \<open>jack_get_fifo_fd\<close> returns
  for the n-th FIFO. An internal client is sent the event with the two numbers of whichever external
  client came last; it looks at neither, and the model puts \<open>n\<close> and \<open>False\<close> there.
\<close>

function rechain_loop :: "jack_engine_t \<Rightarrow> cptr list \<Rightarrow> nat \<Rightarrow> cptr option \<Rightarrow> jack_engine_t \<times> nat \<times> cptr option" where
  "rechain_loop e [] n subgraph = (e, n, subgraph)"
| "rechain_loop e (c # rest) n subgraph =
     (let cl = cmem e c in
      if \<not> process_cbset cl \<and> \<not> thread_cb_cbset cl then rechain_loop e rest n subgraph
      else if active cl then
        (let next = dropWhile (\<lambda>_. \<not> (active cl \<and> (process_cbset cl \<or> thread_cb_cbset cl))) rest;
             nc = (case next of [] \<Rightarrow> None | x # _ \<Rightarrow> Some x);
             e1 = upd_client c (\<lambda>r. r\<lparr>execution_order := n, next_client := nc\<rparr>) e
         in if jack_client_is_internal cl then
              (let (e2, n2) = (case subgraph of
                    Some s \<Rightarrow> (upd_client s (\<lambda>r. r\<lparr>subgraph_wait_fd := fifo_fd e n\<rparr>) e1, Suc n)
                  | None \<Rightarrow> (e1, n));
                   e3 = fst (jack_deliver_event e2 c (GraphReordered n False))
               in rechain_loop e3 next n2 None)
            else
              (let (e2, s2, upstream) = (case subgraph of
                    None \<Rightarrow> (upd_client c (\<lambda>r. r\<lparr>subgraph_start_fd := fifo_fd e n\<rparr>) e1, c, True)
                  | Some s \<Rightarrow> (upd_client s (\<lambda>r. r\<lparr>subgraph_wait_fd := -1\<rparr>) e1, s, False));
                   e3 = fst (jack_deliver_event e2 c (GraphReordered n upstream))
               in rechain_loop e3 next (Suc n) (Some s2)))
      else rechain_loop e rest n subgraph)"
  by pat_completeness auto
termination
  by (relation "measure (\<lambda>(e, cs, n, s). length cs)")
    (auto intro: le_imp_less_Suc length_dropWhile_le)

definition jack_rechain_graph :: "jack_engine_t \<Rightarrow> jack_engine_t" where
  "jack_rechain_graph e =
     (let (e1, n, subgraph) = rechain_loop e (clients e) 0 None in
      case subgraph of
        None \<Rightarrow> e1
      | Some s \<Rightarrow> upd_client s (\<lambda>r. r\<lparr>subgraph_wait_fd := fifo_fd e1 n\<rparr>) e1)"

section \<open>Latencies\<close>

text \<open>The hop count is kept as the number of hops left: \<open>hop_count > 8\<close> is no hop left of nine.\<close>

fun jack_get_port_total_latency :: "nat \<Rightarrow> jack_engine_t \<Rightarrow> pidx \<Rightarrow> bool \<Rightarrow> jack_nframes_t" where
  "jack_get_port_total_latency 0 e port toward_port = latency (ports e ! port)"
| "jack_get_port_total_latency (Suc hops) e port toward_port =
     latency (ports e ! port) +
     fold (\<lambda>k max_latency.
        let con = conns e k in
        if (toward_port \<and> source con = port) \<or> (\<not> toward_port \<and> destination con = port)
        then max_latency
        else
          let other = (if destination con = port then source con else destination con);
              this_latency =
                (if flag_set (p_flags (ports e ! other)) JackPortIsTerminal
                 then latency (ports e ! other)
                 else jack_get_port_total_latency hops e other toward_port)
          in if max_latency < this_latency then this_latency else max_latency)
      (connections (ports e ! port)) 0"

definition jack_compute_port_total_latency :: "jack_engine_t \<Rightarrow> pidx \<Rightarrow> jack_engine_t" where
  "jack_compute_port_total_latency e p =
     (if in_use (ports e ! p) then
        upd_port p (\<lambda>r. r\<lparr>total_latency :=
          jack_get_port_total_latency 9 e p (\<not> flag_set (p_flags r) JackPortIsOutput)\<rparr>) e
      else e)"

definition jack_compute_all_port_total_latencies :: "jack_engine_t \<Rightarrow> jack_engine_t" where
  "jack_compute_all_port_total_latencies e =
     fold (\<lambda>i e. jack_compute_port_total_latency e i) [0..<length (ports e)] e"

text \<open>
  The record of the driver's client is reached through \<open>engine->driver->internal_client\<close>. It has to be there
  still: after the driver's client was unloaded or removed the pointer leads to freed memory, of which the
  model keeps the contents. The runs of \<open>server_step\<close> leave the driver's client on the list.
\<close>

definition jack_compute_new_latency :: "jack_engine_t \<Rightarrow> jack_engine_t c_result" where
  "jack_compute_new_latency e =
     (case driver_client e of
        None \<Rightarrow> Undefined
      | Some d \<Rightarrow>
          (let e1 = deliver_each e (clients e) (LatencyCallback False);
               e2 = fst (jack_deliver_event e1 d (LatencyCallback False));
               e3 = deliver_each e2 (rev (clients e)) (LatencyCallback True)
           in Value (fst (jack_deliver_event e3 d (LatencyCallback True)))))"

definition jack_sort_graph :: "jack_engine_t \<Rightarrow> jack_engine_t c_result" where
  "jack_sort_graph e =
     c_bind (c_of_option (jack_slist_sort (jack_client_sort e) (clients e)))
       (\<lambda>cs. c_map (\<lambda>e'. e'\<lparr>timeout_count := 0\<rparr>)
          (jack_compute_new_latency
            (jack_rechain_graph (jack_compute_all_port_total_latencies (e\<lparr>clients := cs\<rparr>)))))"

section \<open>Has the graph become acyclic?\<close>

text \<open>
  The counting pass of \<open>jack_check_acyclic\<close> works on a copy \<open>tf\<close> of the \<open>tfedcount\<close> fields.
\<close>

definition take_source :: "jack_engine_t \<Rightarrow> cptr \<Rightarrow> (cptr \<Rightarrow> int) \<Rightarrow> cptr \<Rightarrow> int" where
  "take_source e src tf = fold (\<lambda>dst t. t(dst := t dst - 1)) (truefeeds (cmem e src)) (tf(src := -1))"

fun acyclic_pass :: "jack_engine_t \<Rightarrow> cptr list \<Rightarrow> (cptr \<Rightarrow> int) \<Rightarrow> int \<Rightarrow> bool \<Rightarrow> (cptr \<Rightarrow> int) \<times> int \<times> bool" where
  "acyclic_pass e [] tf unsorted stuck = (tf, unsorted, stuck)"
| "acyclic_pass e (src # rest) tf unsorted stuck =
     (if tf src = 0 then acyclic_pass e rest (take_source e src tf) (unsorted - 1) False
      else acyclic_pass e rest tf unsorted stuck)"

text \<open>
  \<open>while (unsortedclients && !stuck)\<close>: the first argument bounds the number of passes, \<open>None\<close>
  means that the bound was reached.
\<close>

fun acyclic_loop :: "nat \<Rightarrow> jack_engine_t \<Rightarrow> (cptr \<Rightarrow> int) \<Rightarrow> int \<Rightarrow> bool \<Rightarrow> ((cptr \<Rightarrow> int) \<times> bool) option" where
  "acyclic_loop fuel e tf unsorted stuck =
     (if unsorted = 0 \<or> stuck then Some (tf, stuck)
      else case fuel of
        0 \<Rightarrow> None
      | Suc n \<Rightarrow>
          (case acyclic_pass e (clients e) tf unsorted True of
             (tf', unsorted', stuck') \<Rightarrow> acyclic_loop n e tf' unsorted' stuck'))"

definition reverse_connection :: "jack_engine_t \<Rightarrow> kptr \<Rightarrow> jack_engine_t" where
  "reverse_connection e k =
     (let con = conns e k in
      if dir con = -1 then
        upd_client (srcclient con)
          (\<lambda>r. r\<lparr>sortfeeds := jack_slist_prepend (sortfeeds r) (dstclient con)\<rparr>)
          (upd_client (dstclient con)
            (\<lambda>r. r\<lparr>sortfeeds := jack_slist_remove (sortfeeds r) (srcclient con)\<rparr>)
            (upd_conn k (\<lambda>r. r\<lparr>dir := 1\<rparr>) e))
      else e)"

text \<open>The connections the three nested loops visit, in order.\<close>

definition visited_connections :: "jack_engine_t \<Rightarrow> kptr list" where
  "visited_connections e =
     concat (map (\<lambda>c. concat (map (\<lambda>p. connections (ports e ! p)) (cl_ports (cmem e c)))) (clients e))"

definition jack_check_acyclic :: "jack_engine_t \<Rightarrow> jack_engine_t c_result" where
  "jack_check_acyclic e =
     (case acyclic_loop (length (clients e)) e (\<lambda>c. fedcount (cmem e c)) (int (length (clients e))) False of
        None \<Rightarrow> Undefined
      | Some (tf, stuck) \<Rightarrow>
          (let e1 = e\<lparr>cmem := (\<lambda>c. if c \<in> set (clients e) then (cmem e c)\<lparr>tfedcount := tf c\<rparr> else cmem e c)\<rparr>
           in if stuck then Value e1
              else Value ((fold (\<lambda>k e. reverse_connection e k) (visited_connections e1) e1)
                            \<lparr>feedbackcount := 0\<rparr>)))"

section \<open>Port names\<close>

definition JACK_PORT_NAME_SIZE :: nat where "JACK_PORT_NAME_SIZE = 256"

text \<open>Strings are NUL-terminated in C; here they are the characters before the NUL.\<close>

definition jack_port_name_equals :: "jack_port_t \<Rightarrow> string \<Rightarrow> bool" where
  "jack_port_name_equals port target =
     (let t = (if take 12 target = ''ALSA:capture'' \<or> take 13 target = ''ALSA:playback''
               then take JACK_PORT_NAME_SIZE (''alsa_pcm'' @ drop 4 target) else target)
      in p_name port = t \<or> alias1 port = t \<or> alias2 port = t)"

fun port_search :: "jack_port_t list \<Rightarrow> pidx \<Rightarrow> string \<Rightarrow> pidx option" where
  "port_search [] i name = None"
| "port_search (p # ps) i name =
     (if in_use p \<and> jack_port_name_equals p name then Some i else port_search ps (Suc i) name)"

definition jack_get_port_by_name :: "jack_engine_t \<Rightarrow> string \<Rightarrow> pidx option" where
  "jack_get_port_by_name e name = port_search (ports e) 0 name"

section \<open>Making and breaking connections\<close>

definition feed_true :: "cptr \<Rightarrow> cptr \<Rightarrow> jack_engine_t \<Rightarrow> jack_engine_t" where
  "feed_true src dst e =
     upd_client dst (\<lambda>r. r\<lparr>fedcount := fedcount r + 1\<rparr>)
       (upd_client src (\<lambda>r. r\<lparr>truefeeds := jack_slist_prepend (truefeeds r) dst\<rparr>) e)"

definition feed_sort :: "cptr \<Rightarrow> cptr \<Rightarrow> jack_engine_t \<Rightarrow> jack_engine_t" where
  "feed_sort a b e = upd_client a (\<lambda>r. r\<lparr>sortfeeds := jack_slist_prepend (sortfeeds r) b\<rparr>) e"

text \<open>
  The bookkeeping of a new connection between two clients: the updated engine and the
  direction the connection gets.
\<close>

definition feed_clients :: "jack_engine_t \<Rightarrow> cptr \<Rightarrow> cptr \<Rightarrow> (jack_engine_t \<times> int) c_result" where
  "feed_clients e src dst =
     (if is_driver e dst then Value (e, 1)
      else if src \<noteq> dst then
        (let e1 = feed_true src dst e in
         case jack_client_feeds_transitive e1 dst src of
           None \<Rightarrow> Undefined
         | Some back \<Rightarrow>
             if back \<or> (is_driver e1 dst \<and> \<not> is_driver e1 src)
             then Value ((feed_sort dst src e1)\<lparr>feedbackcount := feedbackcount e1 + 1\<rparr>, -1)
             else Value (feed_sort src dst e1, 1))
      else Value (e, 0))"

definition link_ports :: "jack_engine_t \<Rightarrow> jack_connection_internal_t \<Rightarrow> jack_engine_t" where
  "link_ports e con =
     (let k = next_kptr e;
          e1 = e\<lparr>conns := (conns e)(k := con), next_kptr := Suc k\<rparr>;
          e2 = upd_port (destination con) (\<lambda>r. r\<lparr>connections := jack_slist_prepend (connections r) k\<rparr>) e1
      in upd_port (source con) (\<lambda>r. r\<lparr>connections := jack_slist_prepend (connections r) k\<rparr>) e2)"

definition notify_connection :: "jack_engine_t \<Rightarrow> pidx \<Rightarrow> pidx \<Rightarrow> bool \<Rightarrow> jack_engine_t" where
  "notify_connection e src dst connected =
     (let sc = p_client_id (ports e ! src); dc = p_client_id (ports e ! dst);
          e1 = fst (jack_send_connection_notification e sc src dst connected);
          e2 = fst (jack_send_connection_notification e1 dc dst src connected)
      in jack_notify_all_port_interested_clients e2 sc dc src dst connected)"

text \<open>The checks of \<open>jack_port_do_connect\<close>, in order; on success the two ports and their clients.\<close>

definition connect_checks :: "jack_engine_t \<Rightarrow> string \<Rightarrow> string \<Rightarrow> int + (pidx \<times> pidx \<times> cptr \<times> cptr)" where
  "connect_checks e source_port destination_port =
     (case jack_get_port_by_name e source_port of
        None \<Rightarrow> Inl (-1)
      | Some src \<Rightarrow>
     (case jack_get_port_by_name e destination_port of
        None \<Rightarrow> Inl (-1)
      | Some dst \<Rightarrow>
          if \<not> flag_set (p_flags (ports e ! dst)) JackPortIsInput then Inl (-1)
          else if \<not> flag_set (p_flags (ports e ! src)) JackPortIsOutput then Inl (-1)
          else if ptype_id (ports e ! src) \<noteq> ptype_id (ports e ! dst) then Inl (-1)
          else
     (case jack_client_internal_by_id e (p_client_id (ports e ! src)) of
        None \<Rightarrow> Inl (-1)
      | Some sc \<Rightarrow>
          if \<not> active (cmem e sc) then Inl (-1)
          else
     (case jack_client_internal_by_id e (p_client_id (ports e ! dst)) of
        None \<Rightarrow> Inl (-1)
      | Some dc \<Rightarrow>
          if \<not> active (cmem e dc) then Inl (-1)
          else if \<exists>k \<in> set (connections (ports e ! src)). destination (conns e k) = dst then Inl EEXIST
          else if connections (ports e ! dst) \<noteq> [] \<and> \<not> has_mixdown (ports e ! dst) then Inl (-1)
          else Inr (src, dst, sc, dc)))))"

definition jack_port_do_connect :: "jack_engine_t \<Rightarrow> string \<Rightarrow> string \<Rightarrow> (jack_engine_t \<times> int) c_result" where
  "jack_port_do_connect e source_port destination_port =
     (case connect_checks e source_port destination_port of
        Inl err \<Rightarrow> Value (e, err)
      | Inr (src, dst, sc, dc) \<Rightarrow>
          c_bind (feed_clients e sc dc) (\<lambda>(e1, d).
            let con = \<lparr>source = src, destination = dst, srcclient = sc, dstclient = dc, dir = d\<rparr>;
                e2 = link_ports e1 con;
                e3 = notify_connection e2 src dst True
            in c_map (\<lambda>e4. (e4, 0)) (jack_sort_graph e3)))"

text \<open>
  \<open>free (connect)\<close> leaves the record unreachable: no list holds the pointer any more.
\<close>

definition unfeed_clients :: "jack_engine_t \<Rightarrow> pidx \<Rightarrow> pidx \<Rightarrow> int \<Rightarrow> jack_engine_t c_result" where
  "unfeed_clients e src dst d =
     (if d = 0 then Value e
      else case (jack_client_internal_by_id e (p_client_id (ports e ! src)),
                 jack_client_internal_by_id e (p_client_id (ports e ! dst))) of
        (Some sc, Some dc) \<Rightarrow>
          (let e1 = upd_client dc (\<lambda>r. r\<lparr>fedcount := fedcount r - 1\<rparr>)
                      (upd_client sc (\<lambda>r. r\<lparr>truefeeds := jack_slist_remove (truefeeds r) dc\<rparr>) e)
           in if d = 1 then
                Value (upd_client sc (\<lambda>r. r\<lparr>sortfeeds := jack_slist_remove (sortfeeds r) dc\<rparr>) e1)
              else
                Value ((upd_client dc (\<lambda>r. r\<lparr>sortfeeds := jack_slist_remove (sortfeeds r) sc\<rparr>) e1)
                         \<lparr>feedbackcount := feedbackcount e1 - 1\<rparr>))
      | _ \<Rightarrow> Undefined)"

definition unlink_ports :: "jack_engine_t \<Rightarrow> pidx \<Rightarrow> pidx \<Rightarrow> kptr \<Rightarrow> jack_engine_t" where
  "unlink_ports e src dst k =
     (let e1 = upd_port src (\<lambda>r. r\<lparr>connections := jack_slist_remove (connections r) k\<rparr>) e;
          e2 = upd_port dst (\<lambda>r. r\<lparr>connections := jack_slist_remove (connections r) k\<rparr>) e1
      in if connections (ports e2 ! src) = []
         then upd_port src (\<lambda>r. r\<lparr>monitor_requests := 0\<rparr>) e2 else e2)"

definition find_connection :: "jack_engine_t \<Rightarrow> pidx \<Rightarrow> pidx \<Rightarrow> kptr option" where
  "find_connection e src dst =
     find (\<lambda>k. source (conns e k) = src \<and> destination (conns e k) = dst) (connections (ports e ! src))"

definition break_connection :: "jack_engine_t \<Rightarrow> pidx \<Rightarrow> pidx \<Rightarrow> (jack_engine_t \<times> int) c_result" where
  "break_connection e src dst =
     (case find_connection e src dst of
        None \<Rightarrow> Value (e, -1)
      | Some k \<Rightarrow>
          (let d = dir (conns e k);
               e1 = unlink_ports e src dst k;
               e2 = notify_connection e1 src dst False
           in c_map (\<lambda>e3. (e3, 0)) (unfeed_clients e2 src dst d)))"

definition jack_port_disconnect_internal :: "jack_engine_t \<Rightarrow> pidx \<Rightarrow> pidx \<Rightarrow> (jack_engine_t \<times> int) c_result" where
  "jack_port_disconnect_internal e src dst =
     c_bind (break_connection e src dst) (\<lambda>(e1, ret).
       c_bind (if feedbackcount e \<noteq> 0 then jack_check_acyclic e1 else Value e1) (\<lambda>e2.
         c_map (\<lambda>e3. (e3, ret)) (jack_sort_graph e2)))"

definition jack_port_do_disconnect :: "jack_engine_t \<Rightarrow> string \<Rightarrow> string \<Rightarrow> (jack_engine_t \<times> int) c_result" where
  "jack_port_do_disconnect e source_port destination_port =
     (case jack_get_port_by_name e source_port of
        None \<Rightarrow> Value (e, -1)
      | Some src \<Rightarrow>
     (case jack_get_port_by_name e destination_port of
        None \<Rightarrow> Value (e, -1)
      | Some dst \<Rightarrow> jack_port_disconnect_internal e src dst))"

fun clear_each :: "jack_engine_t \<Rightarrow> kptr list \<Rightarrow> jack_engine_t c_result" where
  "clear_each e [] = Value e"
| "clear_each e (k # ks) =
     c_bind (jack_port_disconnect_internal e (source (conns e k)) (destination (conns e k)))
       (\<lambda>(e1, ret). clear_each e1 ks)"

definition jack_port_clear_connections :: "jack_engine_t \<Rightarrow> pidx \<Rightarrow> jack_engine_t c_result" where
  "jack_port_clear_connections e p =
     c_map (\<lambda>e1. upd_port p (\<lambda>r. r\<lparr>connections := []\<rparr>) e1) (clear_each e (connections (ports e ! p)))"

definition jack_port_do_disconnect_all :: "jack_engine_t \<Rightarrow> nat \<Rightarrow> (jack_engine_t \<times> int) c_result" where
  "jack_port_do_disconnect_all e port_id =
     (if length (ports e) \<le> port_id then Value (e, -1)
      else c_bind (jack_port_clear_connections e port_id) (\<lambda>e1.
             c_map (\<lambda>e2. (e2, 0)) (jack_sort_graph e1)))"

end
