(* ===== verification/Graph_Invariant.thy ===== *)
theory Graph_Invariant
  imports Engine_Graph
begin

text \<open>
  What the graph code keeps true: the lists of connections, the feeds lists, the counters and
  the acyclic execution constraints agree. The invariant is stated on \<open>gcore\<close>, the part of the
  engine state the graph depends on, so that delivering events, latencies and rechaining keep it
  at once.
\<close>

section \<open>The transitive feeds test on an acyclic relation\<close>

locale feeds_graph =
  fixes inv :: "'s \<Rightarrow> bool"
    and nodes :: "'s \<Rightarrow> cptr list"
    and succs :: "'s \<Rightarrow> cptr \<Rightarrow> cptr list"
  assumes closed: "inv s \<Longrightarrow> c \<in> set (nodes s) \<Longrightarrow> set (succs s c) \<subseteq> set (nodes s)"
    and no_cycle: "inv s \<Longrightarrow> acyclic {(a, b). a \<in> set (nodes s) \<and> b \<in> set (succs s a)}"

definition edges_on :: "cptr set \<Rightarrow> (cptr \<Rightarrow> cptr list) \<Rightarrow> (cptr \<times> cptr) set" where
  "edges_on V sf = {(a, b). a \<in> V \<and> b \<in> set (sf a)}"

lemma edges_on_trancl_node: "(a, b) \<in> (edges_on V sf)\<^sup>+ \<Longrightarrow> a \<in> V"
  by (induction rule: trancl_induct) (auto simp: edges_on_def)

lemma feeds_any_all:
  assumes "\<And>m. m \<in> set ms \<Longrightarrow> feeds_transitive n sf m d = Some (Q m)"
  shows "feeds_any n sf ms d = Some (\<exists>m \<in> set ms. Q m)"
  using assms by (induction ms) (auto split: option.splits bool.splits)

lemma feeds_fuel:
  assumes fin: "finite V" and closed: "\<And>c. c \<in> V \<Longrightarrow> set (sf c) \<subseteq> V"
    and acyc: "acyclic (edges_on V sf)"
  shows "a \<in> V \<Longrightarrow> card ((edges_on V sf)\<^sup>+ `` {a}) < n \<Longrightarrow>
    feeds_transitive n sf a b = Some ((a, b) \<in> (edges_on V sf)\<^sup>+)"
proof (induction n arbitrary: a)
  case 0
  then show ?case by simp
next
  case (Suc n)
  let ?r = "edges_on V sf"
  have finr: "finite (?r\<^sup>+ `` {c})" for c
  proof (rule finite_subset [OF _ fin])
    have "?r \<subseteq> V \<times> V" using closed by (auto simp: edges_on_def)
    then have "?r\<^sup>+ \<subseteq> V \<times> V" by (rule trancl_subset_Sigma)
    then show "?r\<^sup>+ `` {c} \<subseteq> V" by auto
  qed
  have step: "feeds_transitive n sf m b = Some ((m, b) \<in> ?r\<^sup>+)" if m: "m \<in> set (sf a)" for m
  proof -
    have am: "(a, m) \<in> ?r" using m Suc.prems(1) by (simp add: edges_on_def)
    have mV: "m \<in> V" using closed [OF Suc.prems(1)] m by auto
    have "?r\<^sup>+ `` {m} \<subset> ?r\<^sup>+ `` {a}"
    proof
      show "?r\<^sup>+ `` {m} \<subseteq> ?r\<^sup>+ `` {a}" using am by (auto intro: trancl_into_trancl2)
      show "?r\<^sup>+ `` {m} \<noteq> ?r\<^sup>+ `` {a}" using am acyc by (auto simp: acyclic_def)
    qed
    then have "card (?r\<^sup>+ `` {m}) < card (?r\<^sup>+ `` {a})" by (rule psubset_card_mono [OF finr])
    then show ?thesis using Suc.IH [OF mV] Suc.prems(2) by simp
  qed
  have "(a, b) \<in> ?r\<^sup>+ \<longleftrightarrow> b \<in> set (sf a) \<or> (\<exists>m \<in> set (sf a). (m, b) \<in> ?r\<^sup>+)"
    using Suc.prems(1) by (subst trancl_unfold_left) (auto simp: edges_on_def rtrancl_eq_or_trancl)
  then show ?case
    using feeds_any_all [of "sf a" n sf b "\<lambda>m. (m, b) \<in> ?r\<^sup>+"] step by auto
qed

context feeds_graph
begin

lemma feeds_correct:
  assumes "inv s" "a \<in> set (nodes s)"
  shows "feeds_transitive (Suc (length (nodes s))) (succs s) a b =
    Some ((a, b) \<in> (edges_on (set (nodes s)) (succs s))\<^sup>+)"
proof (rule feeds_fuel)
  show "finite (set (nodes s))" by simp
  show "\<And>c. c \<in> set (nodes s) \<Longrightarrow> set (succs s c) \<subseteq> set (nodes s)" by (rule closed [OF assms(1)])
  show "acyclic (edges_on (set (nodes s)) (succs s))"
    using no_cycle [OF assms(1)] by (simp add: edges_on_def)
  show "a \<in> set (nodes s)" by (rule assms(2))
  have "edges_on (set (nodes s)) (succs s) \<subseteq> set (nodes s) \<times> set (nodes s)"
    using closed [OF assms(1)] by (auto simp: edges_on_def)
  then have "(edges_on (set (nodes s)) (succs s))\<^sup>+ `` {a} \<subseteq> set (nodes s)"
    using trancl_subset_Sigma by blast
  then have "card ((edges_on (set (nodes s)) (succs s))\<^sup>+ `` {a}) \<le> card (set (nodes s))"
    by (intro card_mono) auto
  also have "\<dots> \<le> length (nodes s)" by (rule card_length)
  finally show "card ((edges_on (set (nodes s)) (succs s))\<^sup>+ `` {a}) < Suc (length (nodes s))" by simp
qed

end

section \<open>The part of the state the graph depends on\<close>

record gport =
  gp_conns :: "kptr list"
  gp_owner :: u32
  gp_used :: bool
  gp_flags :: u32

record gcore =
  g_clients :: "cptr set"
  g_driver :: "cptr option"
  g_ports :: "gport list"
  g_conns :: "kptr \<Rightarrow> jack_connection_internal_t"
  g_next :: kptr
  g_feedback :: int
  g_sort :: "cptr \<Rightarrow> cptr list"
  g_true :: "cptr \<Rightarrow> cptr list"
  g_fed :: "cptr \<Rightarrow> int"
  g_type :: "cptr \<Rightarrow> ClientType"
  g_id :: "cptr \<Rightarrow> u32"
  g_owned :: "cptr \<Rightarrow> pidx list"

definition port_core :: "jack_port_t \<Rightarrow> gport" where
  "port_core p = \<lparr>gp_conns = connections p, gp_owner = p_client_id p, gp_used = in_use p, gp_flags = p_flags p\<rparr>"

definition core :: "jack_engine_t \<Rightarrow> gcore" where
  "core e = \<lparr>g_clients = set (clients e), g_driver = driver_client e,
     g_ports = map port_core (ports e),
     g_conns = conns e, g_next = next_kptr e, g_feedback = feedbackcount e,
     g_sort = (\<lambda>c. sortfeeds (cmem e c)), g_true = (\<lambda>c. truefeeds (cmem e c)),
     g_fed = (\<lambda>c. fedcount (cmem e c)), g_type = (\<lambda>c. cl_type (cmem e c)),
     g_id = (\<lambda>c. cl_id (cmem e c)), g_owned = (\<lambda>c. cl_ports (cmem e c))\<rparr>"

lemma port_core_simps [simp]:
  "gp_conns (port_core p) = connections p" "gp_owner (port_core p) = p_client_id p"
  "gp_used (port_core p) = in_use p" "gp_flags (port_core p) = p_flags p"
  by (simp_all add: port_core_def)

lemma core_simps [simp]:
  "g_clients (core e) = set (clients e)" "g_driver (core e) = driver_client e"
  "g_ports (core e) = map port_core (ports e)" "g_conns (core e) = conns e"
  "g_next (core e) = next_kptr e" "g_feedback (core e) = feedbackcount e"
  "g_sort (core e) c = sortfeeds (cmem e c)" "g_true (core e) c = truefeeds (cmem e c)"
  "g_fed (core e) c = fedcount (cmem e c)" "g_type (core e) c = cl_type (cmem e c)"
  "g_id (core e) c = cl_id (cmem e c)" "g_owned (core e) c = cl_ports (cmem e c)"
  by (simp_all add: core_def)

definition live :: "gcore \<Rightarrow> kptr set" where
  "live g = (\<Union>p \<in> set (g_ports g). set (gp_conns p))"

text \<open>
  The edge a connection stands for: none for a connection to a driver or to the client
  itself; reversed in the sort order when it is a feedback connection.
\<close>

definition true_edge :: "(cptr \<Rightarrow> ClientType) \<Rightarrow> jack_connection_internal_t \<Rightarrow> (cptr \<times> cptr) option" where
  "true_edge ty con =
     (if ty (dstclient con) = ClientDriver \<or> srcclient con = dstclient con then None
      else Some (srcclient con, dstclient con))"

definition sort_edge :: "(cptr \<Rightarrow> ClientType) \<Rightarrow> jack_connection_internal_t \<Rightarrow> (cptr \<times> cptr) option" where
  "sort_edge ty con = (if dir con = -1 then map_option prod.swap (true_edge ty con) else true_edge ty con)"

text \<open>
  A well-formed connection: it joins two ports in use of two registered clients, and its direction says
  what kind of edge it is. A feedback connection never comes from a driver.
\<close>

definition link_ok :: "gcore \<Rightarrow> jack_connection_internal_t \<Rightarrow> bool" where
  "link_ok g con \<longleftrightarrow>
     (let s = source con; d = destination con; a = srcclient con; b = dstclient con in
      s < length (g_ports g) \<and> d < length (g_ports g) \<and> s \<noteq> d \<and> a \<in> g_clients g \<and> b \<in> g_clients g \<and>
      gp_owner (g_ports g ! s) = g_id g a \<and> gp_owner (g_ports g ! d) = g_id g b \<and>
      s \<in> set (g_owned g a) \<and> d \<in> set (g_owned g b) \<and>
      gp_used (g_ports g ! s) \<and> gp_used (g_ports g ! d) \<and>
      (if true_edge (g_type g) con = None then dir con = (if g_type g b = ClientDriver then 1 else 0)
       else dir con = 1 \<or> (dir con = -1 \<and> g_type g a \<noteq> ClientDriver)))"

definition conn_ok :: "gcore \<Rightarrow> kptr \<Rightarrow> bool" where
  "conn_ok g k \<longleftrightarrow> k < g_next g \<and> link_ok g (g_conns g k) \<and>
     k \<in> set (gp_conns (g_ports g ! source (g_conns g k))) \<and>
     k \<in> set (gp_conns (g_ports g ! destination (g_conns g k)))"

definition ports_ok :: "gcore \<Rightarrow> bool" where
  "ports_ok g \<longleftrightarrow> (\<forall>p < length (g_ports g). distinct (gp_conns (g_ports g ! p)) \<and>
     (\<forall>k \<in> set (gp_conns (g_ports g ! p)). source (g_conns g k) = p \<or> destination (g_conns g k) = p) \<and>
     (gp_used (g_ports g ! p) \<longrightarrow>
        \<not> (flag_set (gp_flags (g_ports g ! p)) JackPortIsInput \<and> flag_set (gp_flags (g_ports g ! p)) JackPortIsOutput) \<and>
        (\<forall>c \<in> g_clients g. gp_owner (g_ports g ! p) = g_id g c \<longrightarrow> p \<in> set (g_owned g c))))"

definition edge_conns :: "gcore \<Rightarrow> (jack_connection_internal_t \<Rightarrow> bool) \<Rightarrow> kptr set" where
  "edge_conns g P = {k \<in> live g. P (g_conns g k)}"

text \<open>
  The counts: how often a client stands in a feeds list is the number of connections with that
  edge, and \<open>fedcount\<close> is the number of incoming edges. A driver has no incoming edge; its
  \<open>fedcount\<close> is not positive (disconnecting from a driver decrements it, connecting leaves it).
\<close>

definition counts_ok :: "gcore \<Rightarrow> bool" where
  "counts_ok g \<longleftrightarrow>
     (\<forall>a \<in> g_clients g. \<forall>b.
        count (mset (g_sort g a)) b = card (edge_conns g (\<lambda>con. sort_edge (g_type g) con = Some (a, b))) \<and>
        count (mset (g_true g a)) b = card (edge_conns g (\<lambda>con. true_edge (g_type g) con = Some (a, b)))) \<and>
     (\<forall>c \<in> g_clients g.
        if g_type g c = ClientDriver then g_fed g c \<le> 0
        else g_fed g c = int (card (edge_conns g (\<lambda>con. \<exists>a. true_edge (g_type g) con = Some (a, c)))))"

definition single_connections :: "gcore \<Rightarrow> bool" where
  "single_connections g \<longleftrightarrow> (\<forall>k \<in> live g. \<forall>k' \<in> live g.
     source (g_conns g k) = source (g_conns g k') \<and> destination (g_conns g k) = destination (g_conns g k') \<longrightarrow> k = k')"

text \<open>The books: everything but the feedback count and the absence of cycles.\<close>

definition gbooks :: "gcore \<Rightarrow> bool" where
  "gbooks g \<longleftrightarrow> finite (g_clients g) \<and> inj_on (g_id g) (g_clients g) \<and> g_driver g \<noteq> None \<and> ports_ok g \<and>
     (\<forall>c \<in> g_clients g. \<forall>p \<in> set (g_owned g c). p < length (g_ports g)) \<and>
     (\<forall>k \<in> live g. conn_ok g k) \<and> single_connections g \<and> counts_ok g"

definition ginv :: "gcore \<Rightarrow> bool" where
  "ginv g \<longleftrightarrow> gbooks g \<and> g_feedback g = int (card (edge_conns g (\<lambda>con. dir con = -1))) \<and>
     acyclic (edges_on (g_clients g) (g_sort g))"

definition graph_inv :: "jack_engine_t \<Rightarrow> bool" where
  "graph_inv e \<longleftrightarrow> distinct (clients e) \<and> ginv (core e)"

lemma finite_live [simp]: "finite (live g)"
  by (simp add: live_def)

lemma finite_edge_conns [simp]: "finite (edge_conns g P)"
  by (simp add: edge_conns_def)

lemma live_nth: "k \<in> live g \<longleftrightarrow> (\<exists>p < length (g_ports g). k \<in> set (gp_conns (g_ports g ! p)))"
  unfolding live_def UN_iff by (metis in_set_conv_nth)

text \<open>Feeds lists lead to clients only, and never to a driver or to the client itself.\<close>

lemma count_pos_edge:
  "card (edge_conns g P) > 0 \<Longrightarrow> \<exists>k \<in> live g. P (g_conns g k)"
  by (metis (mono_tags, lifting) card_gt_0_iff edge_conns_def empty_Collect_eq)

lemma sort_member_edge:
  assumes "gbooks g" "a \<in> g_clients g"
  shows "b \<in> set (g_sort g a) \<longleftrightarrow> (\<exists>k \<in> live g. sort_edge (g_type g) (g_conns g k) = Some (a, b))"
proof -
  have "b \<in> set (g_sort g a) \<longleftrightarrow> 0 < count (mset (g_sort g a)) b" by simp
  also have "\<dots> \<longleftrightarrow> edge_conns g (\<lambda>con. sort_edge (g_type g) con = Some (a, b)) \<noteq> {}"
    using assms by (simp add: gbooks_def counts_ok_def card_gt_0_iff)
  finally show ?thesis by (auto simp: edge_conns_def)
qed

lemma true_member_edge:
  assumes "gbooks g" "a \<in> g_clients g"
  shows "b \<in> set (g_true g a) \<longleftrightarrow> (\<exists>k \<in> live g. true_edge (g_type g) (g_conns g k) = Some (a, b))"
proof -
  have "b \<in> set (g_true g a) \<longleftrightarrow> 0 < count (mset (g_true g a)) b" by simp
  also have "\<dots> \<longleftrightarrow> edge_conns g (\<lambda>con. true_edge (g_type g) con = Some (a, b)) \<noteq> {}"
    using assms by (simp add: gbooks_def counts_ok_def card_gt_0_iff)
  finally show ?thesis by (auto simp: edge_conns_def)
qed

lemma true_edge_Some:
  "true_edge ty con = Some (a, b) \<longleftrightarrow>
     a = srcclient con \<and> b = dstclient con \<and> a \<noteq> b \<and> ty b \<noteq> ClientDriver"
  by (auto simp: true_edge_def)

lemma sort_edge_Some:
  "sort_edge ty con = Some (a, b) \<longleftrightarrow>
     (if dir con = -1 then true_edge ty con = Some (b, a) else true_edge ty con = Some (a, b))"
  by (auto simp: sort_edge_def)

lemma sort_edge_clients:
  assumes "gbooks g" "a \<in> g_clients g" "b \<in> set (g_sort g a)"
  shows "b \<in> g_clients g \<and> a \<noteq> b"
proof -
  obtain k where k: "k \<in> live g" "sort_edge (g_type g) (g_conns g k) = Some (a, b)"
    using assms by (auto simp: sort_member_edge)
  then have "conn_ok g k" using assms(1) by (auto simp: gbooks_def)
  with k(2) show ?thesis
    by (auto simp: conn_ok_def link_ok_def Let_def sort_edge_Some true_edge_Some split: if_splits)
qed

end
