(* ===== verification/Graph_Core.thy ===== *)
theory Graph_Core
  imports Graph_Invariant
begin

text \<open>
  Three changes of the graph on the level of \<open>gcore\<close>: a connection is added, a connection is
  removed, a feedback connection is turned round. Each keeps the books; the operations of the
  engine are reduced to them.
\<close>

section \<open>Adding a connection\<close>

definition g_link :: "jack_connection_internal_t \<Rightarrow> gcore \<Rightarrow> gcore" where
  "g_link con g =
     (let k = g_next g; add = (\<lambda>r. r\<lparr>gp_conns := k # gp_conns r\<rparr>);
          ps = (g_ports g)[destination con := add (g_ports g ! destination con)]
      in g\<lparr>g_conns := (g_conns g)(k := con), g_next := Suc k,
           g_ports := ps[source con := add (ps ! source con)]\<rparr>)"

definition g_feed :: "jack_connection_internal_t \<Rightarrow> gcore \<Rightarrow> gcore" where
  "g_feed con g =
     (case true_edge (g_type g) con of
        None \<Rightarrow> g
      | Some (a, b) \<Rightarrow>
          (let g1 = g\<lparr>g_true := (g_true g)(a := b # g_true g a), g_fed := (g_fed g)(b := g_fed g b + 1)\<rparr>
           in if dir con = -1 then g1\<lparr>g_sort := (g_sort g)(b := a # g_sort g b), g_feedback := g_feedback g + 1\<rparr>
              else g1\<lparr>g_sort := (g_sort g)(a := b # g_sort g a)\<rparr>))"

lemma g_feed_frame [simp]:
  "g_clients (g_feed con g) = g_clients g" "g_driver (g_feed con g) = g_driver g"
  "g_ports (g_feed con g) = g_ports g" "g_conns (g_feed con g) = g_conns g"
  "g_next (g_feed con g) = g_next g" "g_type (g_feed con g) = g_type g"
  "g_id (g_feed con g) = g_id g" "g_owned (g_feed con g) = g_owned g"
  by (auto simp: g_feed_def Let_def split: option.splits)

lemma g_link_frame [simp]:
  "g_clients (g_link con g) = g_clients g" "g_driver (g_link con g) = g_driver g"
  "g_conns (g_link con g) = (g_conns g)(g_next g := con)"
  "g_next (g_link con g) = Suc (g_next g)" "g_type (g_link con g) = g_type g"
  "g_id (g_link con g) = g_id g" "g_owned (g_link con g) = g_owned g"
  "g_sort (g_link con g) = g_sort g" "g_true (g_link con g) = g_true g"
  "g_fed (g_link con g) = g_fed g" "g_feedback (g_link con g) = g_feedback g"
  "length (g_ports (g_link con g)) = length (g_ports g)"
  by (simp_all add: g_link_def Let_def)

lemma g_link_port:
  assumes "source con \<noteq> destination con" "p < length (g_ports g)"
  shows "g_ports (g_link con g) ! p =
    (if p = source con \<or> p = destination con
     then (g_ports g ! p)\<lparr>gp_conns := g_next g # gp_conns (g_ports g ! p)\<rparr> else g_ports g ! p)"
  using assms by (auto simp: g_link_def Let_def nth_list_update)

lemma live_fresh: "gbooks g \<Longrightarrow> k \<in> live g \<Longrightarrow> k < g_next g"
  by (auto simp: gbooks_def conn_ok_def)

lemma live_link:
  assumes "link_ok g con"
  shows "live (g_link con g) = insert (g_next g) (live g)"
proof -
  have sd: "source con \<noteq> destination con" "source con < length (g_ports g)"
    using assms by (auto simp: link_ok_def Let_def)
  have "k \<in> live (g_link con g) \<longleftrightarrow> k \<in> insert (g_next g) (live g)" for k
  proof
    assume "k \<in> live (g_link con g)"
    then obtain p where p: "p < length (g_ports g)" "k \<in> set (gp_conns (g_ports (g_link con g) ! p))"
      by (auto simp: live_nth)
    then have "k = g_next g \<or> k \<in> set (gp_conns (g_ports g ! p))"
      using g_link_port [OF sd(1) p(1)] by (auto split: if_splits)
    then show "k \<in> insert (g_next g) (live g)" using p(1) by (auto simp: live_nth)
  next
    assume k: "k \<in> insert (g_next g) (live g)"
    show "k \<in> live (g_link con g)"
    proof (cases "k = g_next g")
      case True
      then have "k \<in> set (gp_conns (g_ports (g_link con g) ! source con))"
        using g_link_port [OF sd] by simp
      then show ?thesis using sd(2) by (auto simp: live_nth)
    next
      case False
      then obtain p where p: "p < length (g_ports g)" "k \<in> set (gp_conns (g_ports g ! p))"
        using k by (auto simp: live_nth)
      then have "k \<in> set (gp_conns (g_ports (g_link con g) ! p))"
        using g_link_port [OF sd(1) p(1)] by auto
      then show ?thesis using p(1) by (auto simp: live_nth)
    qed
  qed
  then show ?thesis by blast
qed

lemma edge_conns_link:
  assumes "gbooks g" "link_ok g con"
  shows "edge_conns (g_link con g) P =
    (if P con then insert (g_next g) (edge_conns g P) else edge_conns g P)"
    "g_next g \<notin> edge_conns g P"
  using live_link [OF assms(2)] live_fresh [OF assms(1)] by (auto simp: edge_conns_def)

lemma card_edge_link:
  assumes "gbooks g" "link_ok g con"
  shows "card (edge_conns (g_link con g) P) = card (edge_conns g P) + (if P con then 1 else 0)"
  using edge_conns_link [OF assms, of P] by simp

lemma link_ok_frame:
  assumes "length (g_ports g') = length (g_ports g)"
    "\<And>p. p < length (g_ports g) \<Longrightarrow> gp_owner (g_ports g' ! p) = gp_owner (g_ports g ! p)"
    "\<And>p. p < length (g_ports g) \<Longrightarrow> gp_used (g_ports g' ! p) = gp_used (g_ports g ! p)"
    "g_clients g' = g_clients g" "g_type g' = g_type g" "g_id g' = g_id g" "g_owned g' = g_owned g"
  shows "link_ok g' con = link_ok g con"
  using assms by (auto simp: link_ok_def Let_def)

lemma g_feed_sort_count:
  "count (mset (g_sort (g_feed con g) a)) b =
   count (mset (g_sort g a)) b + (if sort_edge (g_type g) con = Some (a, b) then 1 else 0)"
  by (auto simp: g_feed_def Let_def sort_edge_def split: option.splits)

lemma g_feed_true_count:
  "count (mset (g_true (g_feed con g) a)) b =
   count (mset (g_true g a)) b + (if true_edge (g_type g) con = Some (a, b) then 1 else 0)"
  by (auto simp: g_feed_def Let_def split: option.splits)

lemma g_feed_fed:
  "g_fed (g_feed con g) c = g_fed g c + (if \<exists>a. true_edge (g_type g) con = Some (a, c) then 1 else 0)"
  by (auto simp: g_feed_def Let_def split: option.splits)

lemma g_feed_feedback:
  "dir con = -1 \<Longrightarrow> true_edge (g_type g) con \<noteq> None \<Longrightarrow> g_feedback (g_feed con g) = g_feedback g + 1"
  "dir con \<noteq> -1 \<Longrightarrow> g_feedback (g_feed con g) = g_feedback g"
  by (auto simp: g_feed_def Let_def split: option.splits)

lemma edge_conns_cong:
  "g_ports g' = g_ports g \<Longrightarrow> g_conns g' = g_conns g \<Longrightarrow> edge_conns g' P = edge_conns g P"
  by (simp add: edge_conns_def live_def)

lemma edge_conns_link_feed [simp]: "edge_conns (g_link con (g_feed con' g)) P = edge_conns (g_link con g) P"
  by (rule edge_conns_cong) (simp_all add: g_link_def Let_def)

lemma driver_no_true_edge: "g_type g c = ClientDriver \<Longrightarrow> true_edge (g_type g) con \<noteq> Some (a, c)"
  by (auto simp: true_edge_def)

lemma counts_link:
  assumes "gbooks g" "link_ok g con"
  shows "counts_ok (g_link con (g_feed con g))"
proof -
  note card = card_edge_link [OF assms]
  have g: "counts_ok g" using assms(1) by (simp add: gbooks_def)
  show ?thesis
    unfolding counts_ok_def
  proof (intro conjI ballI allI)
    fix a b assume a: "a \<in> g_clients (g_link con (g_feed con g))"
    show "count (mset (g_sort (g_link con (g_feed con g)) a)) b =
        card (edge_conns (g_link con (g_feed con g)) (\<lambda>c. sort_edge (g_type (g_link con (g_feed con g))) c = Some (a, b)))"
      using a g by (simp add: card g_feed_sort_count counts_ok_def)
    show "count (mset (g_true (g_link con (g_feed con g)) a)) b =
        card (edge_conns (g_link con (g_feed con g)) (\<lambda>c. true_edge (g_type (g_link con (g_feed con g))) c = Some (a, b)))"
      using a g by (simp add: card g_feed_true_count counts_ok_def)
  next
    fix c assume "c \<in> g_clients (g_link con (g_feed con g))"
    then show "if g_type (g_link con (g_feed con g)) c = ClientDriver then g_fed (g_link con (g_feed con g)) c \<le> 0
        else g_fed (g_link con (g_feed con g)) c =
          int (card (edge_conns (g_link con (g_feed con g))
            (\<lambda>con'. \<exists>a. true_edge (g_type (g_link con (g_feed con g))) con' = Some (a, c))))"
      using g by (auto simp: card g_feed_fed counts_ok_def driver_no_true_edge)
  qed
qed

lemma gbooks_link:
  assumes g: "gbooks g" and con: "link_ok g con"
    and new: "\<And>k. k \<in> live g \<Longrightarrow> \<not> (source (g_conns g k) = source con \<and> destination (g_conns g k) = destination con)"
  shows "gbooks (g_link con (g_feed con g))"
proof -
  let ?g = "g_link con (g_feed con g)"
  have sd: "source con \<noteq> destination con" "source con < length (g_ports g)" "destination con < length (g_ports g)"
    using con by (auto simp: link_ok_def Let_def)
  have port: "g_ports ?g ! p = (if p = source con \<or> p = destination con
      then (g_ports g ! p)\<lparr>gp_conns := g_next g # gp_conns (g_ports g ! p)\<rparr> else g_ports g ! p)"
    if "p < length (g_ports g)" for p using g_link_port [OF sd(1), of p "g_feed con g"] that by simp
  have live: "live ?g = insert (g_next g) (live g)"
    using live_link [of "g_feed con g" con] link_ok_frame [of "g_feed con g" g con] con by (simp add: live_def)
  have fresh: "k \<in> live g \<Longrightarrow> k < g_next g" for k using live_fresh [OF g] .
  have lk: "link_ok ?g c = link_ok g c" for c by (rule link_ok_frame) (auto simp: port)
  have P: "ports_ok g" "\<And>k. k \<in> live g \<Longrightarrow> conn_ok g k" "single_connections g"
    using g by (auto simp: gbooks_def)
  have nl: "g_next g \<notin> set (gp_conns (g_ports g ! p))" if "p < length (g_ports g)" for p
    using fresh that by (metis less_irrefl live_nth)
  have "ports_ok ?g"
    unfolding ports_ok_def
  proof (intro allI impI)
    fix p assume "p < length (g_ports ?g)"
    then have p: "p < length (g_ports g)" by simp
    then show "distinct (gp_conns (g_ports ?g ! p)) \<and>
        (\<forall>k\<in>set (gp_conns (g_ports ?g ! p)). source (g_conns ?g k) = p \<or> destination (g_conns ?g k) = p) \<and>
        (gp_used (g_ports ?g ! p) \<longrightarrow>
          \<not> (flag_set (gp_flags (g_ports ?g ! p)) JackPortIsInput \<and> flag_set (gp_flags (g_ports ?g ! p)) JackPortIsOutput) \<and>
          (\<forall>c\<in>g_clients ?g. gp_owner (g_ports ?g ! p) = g_id ?g c \<longrightarrow> p \<in> set (g_owned ?g c)))"
      using P(1) nl [OF p] by (auto simp: ports_ok_def port)
  qed
  moreover have "conn_ok ?g k" if "k \<in> live ?g" for k
  proof (cases "k = g_next g")
    case True
    then show ?thesis using con sd by (simp add: conn_ok_def lk port)
  next
    case False
    then have k: "conn_ok g k" using that live P(2) by simp
    then have "source (g_conns g k) < length (g_ports g)" "destination (g_conns g k) < length (g_ports g)"
      by (auto simp: conn_ok_def link_ok_def Let_def)
    then show ?thesis using k False by (auto simp: conn_ok_def lk port)
  qed
  moreover have "single_connections ?g"
    using P(3) new fresh by (fastforce simp: single_connections_def live)
  moreover have "counts_ok ?g" by (rule counts_link [OF g con])
  ultimately show ?thesis using g by (simp add: gbooks_def)
qed


text \<open>The new constraint creates no cycle when its target does not reach its source.\<close>

lemma acyclic_insert_edge: "acyclic r \<Longrightarrow> (b, a) \<notin> r\<^sup>* \<Longrightarrow> acyclic (insert (a, b) r)"
  by (simp add: acyclic_insert)

lemma edges_on_feed:
  "edges_on V (g_sort (g_feed con g)) \<subseteq>
    (case sort_edge (g_type g) con of None \<Rightarrow> {} | Some (a, b) \<Rightarrow> {(a, b)}) \<union> edges_on V (g_sort g)"
  by (auto simp: g_feed_def Let_def edges_on_def sort_edge_def split: option.splits if_splits)

lemma ginv_link:
  assumes g: "ginv g" and con: "link_ok g con"
    and new: "\<And>k. k \<in> live g \<Longrightarrow> \<not> (source (g_conns g k) = source con \<and> destination (g_conns g k) = destination con)"
    and free: "\<And>a b. sort_edge (g_type g) con = Some (a, b) \<Longrightarrow> (b, a) \<notin> (edges_on (g_clients g) (g_sort g))\<^sup>+"
  shows "ginv (g_link con (g_feed con g))"
proof -
  let ?g = "g_link con (g_feed con g)"
  have b: "gbooks g" using g by (simp add: ginv_def)
  have "g_feedback ?g = int (card (edge_conns ?g (\<lambda>con. dir con = -1)))"
  proof (cases "dir con = -1")
    case True
    then have "true_edge (g_type g) con \<noteq> None"
      using con by (auto simp: link_ok_def Let_def split: if_splits)
    then show ?thesis using True g g_feed_feedback(1) [OF True] card_edge_link [OF b con]
      by (simp add: ginv_def)
  next
    case False
    then show ?thesis using g g_feed_feedback(2) [OF False] card_edge_link [OF b con]
      by (simp add: ginv_def)
  qed
  moreover have "acyclic (edges_on (g_clients ?g) (g_sort ?g))"
  proof (cases "sort_edge (g_type g) con")
    case None
    then show ?thesis using g edges_on_feed [of "g_clients g" con g]
      by (auto simp: ginv_def intro: acyclic_subset)
  next
    case (Some ab)
    obtain x y where ab: "ab = (x, y)" by (cases ab)
    have "x \<noteq> y" using Some ab by (auto simp: sort_edge_Some true_edge_Some split: if_splits)
    then have "(y, x) \<notin> (edges_on (g_clients g) (g_sort g))\<^sup>*"
      using free [of x y] Some ab by (simp add: rtrancl_eq_or_trancl)
    then have "acyclic (insert (x, y) (edges_on (g_clients g) (g_sort g)))"
      using g by (intro acyclic_insert_edge) (simp_all add: ginv_def)
    then show ?thesis using edges_on_feed [of "g_clients g" con g] Some ab
      by (auto intro: acyclic_subset)
  qed
  ultimately show ?thesis using gbooks_link [OF b con new] by (simp add: ginv_def)
qed

section \<open>Removing a connection\<close>

definition g_unlink :: "kptr \<Rightarrow> gcore \<Rightarrow> gcore" where
  "g_unlink k g =
     (let con = g_conns g k; del = (\<lambda>r. r\<lparr>gp_conns := remove1 k (gp_conns r)\<rparr>);
          ps = (g_ports g)[source con := del (g_ports g ! source con)]
      in g\<lparr>g_ports := ps[destination con := del (ps ! destination con)]\<rparr>)"

definition g_unfeed :: "jack_connection_internal_t \<Rightarrow> gcore \<Rightarrow> gcore" where
  "g_unfeed con g =
     (if dir con = 0 then g
      else
        (let a = srcclient con; b = dstclient con;
             g1 = g\<lparr>g_true := (g_true g)(a := remove1 b (g_true g a)), g_fed := (g_fed g)(b := g_fed g b - 1)\<rparr>
         in if dir con = 1 then g1\<lparr>g_sort := (g_sort g)(a := remove1 b (g_sort g a))\<rparr>
            else g1\<lparr>g_sort := (g_sort g)(b := remove1 a (g_sort g b)), g_feedback := g_feedback g - 1\<rparr>))"

lemma g_unfeed_frame [simp]:
  "g_clients (g_unfeed con g) = g_clients g" "g_driver (g_unfeed con g) = g_driver g"
  "g_ports (g_unfeed con g) = g_ports g" "g_conns (g_unfeed con g) = g_conns g"
  "g_next (g_unfeed con g) = g_next g" "g_type (g_unfeed con g) = g_type g"
  "g_id (g_unfeed con g) = g_id g" "g_owned (g_unfeed con g) = g_owned g"
  by (auto simp: g_unfeed_def Let_def)

lemma g_unlink_frame [simp]:
  "g_clients (g_unlink k g) = g_clients g" "g_driver (g_unlink k g) = g_driver g"
  "g_conns (g_unlink k g) = g_conns g" "g_next (g_unlink k g) = g_next g" "g_type (g_unlink k g) = g_type g"
  "g_id (g_unlink k g) = g_id g" "g_owned (g_unlink k g) = g_owned g"
  "g_sort (g_unlink k g) = g_sort g" "g_true (g_unlink k g) = g_true g"
  "g_fed (g_unlink k g) = g_fed g" "g_feedback (g_unlink k g) = g_feedback g"
  "length (g_ports (g_unlink k g)) = length (g_ports g)"
  by (simp_all add: g_unlink_def Let_def)

lemma g_unlink_port:
  assumes "gbooks g" "k \<in> live g" "p < length (g_ports g)"
  shows "g_ports (g_unlink k g) ! p = (g_ports g ! p)\<lparr>gp_conns := remove1 k (gp_conns (g_ports g ! p))\<rparr>"
proof -
  have "conn_ok g k" using assms by (simp add: gbooks_def)
  then have sd: "source (g_conns g k) \<noteq> destination (g_conns g k)"
      "source (g_conns g k) < length (g_ports g)" "destination (g_conns g k) < length (g_ports g)"
    by (auto simp: conn_ok_def link_ok_def Let_def)
  have "k \<notin> set (gp_conns (g_ports g ! p))" if "p \<noteq> source (g_conns g k)" "p \<noteq> destination (g_conns g k)"
    using assms that by (auto simp: gbooks_def ports_ok_def)
  then show ?thesis using assms(3) sd
    by (cases "p = source (g_conns g k)"; cases "p = destination (g_conns g k)")
      (simp_all add: g_unlink_def Let_def nth_list_update remove1_idem)
qed

lemma live_unlink:
  assumes "gbooks g" "k \<in> live g"
  shows "live (g_unlink k g) = live g - {k}"
proof -
  have dist: "p < length (g_ports g) \<Longrightarrow> distinct (gp_conns (g_ports g ! p))" for p
    using assms(1) by (simp add: gbooks_def ports_ok_def)
  have "j \<in> live (g_unlink k g) \<longleftrightarrow> j \<in> live g - {k}" for j
    using g_unlink_port [OF assms] dist by (auto simp: live_nth)
  then show ?thesis by blast
qed

lemma card_edge_unlink:
  assumes "gbooks g" "k \<in> live g"
  shows "card (edge_conns (g_unlink k g) P) = card (edge_conns g P) - (if P (g_conns g k) then 1 else 0)"
    "P (g_conns g k) \<Longrightarrow> 0 < card (edge_conns g P)"
proof -
  have "edge_conns (g_unlink k g) P = edge_conns g P - {k}"
    using live_unlink [OF assms] by (auto simp: edge_conns_def)
  moreover have "k \<in> edge_conns g P \<longleftrightarrow> P (g_conns g k)" using assms(2) by (simp add: edge_conns_def)
  ultimately show "card (edge_conns (g_unlink k g) P) = card (edge_conns g P) - (if P (g_conns g k) then 1 else 0)"
    by (auto simp: card_Diff_singleton)
  show "P (g_conns g k) \<Longrightarrow> 0 < card (edge_conns g P)"
    using assms(2) by (auto simp: card_gt_0_iff edge_conns_def)
qed

text \<open>
  The lists lose one occurrence each, and lose nothing for a connection to a driver: the
  driver is in no list.
\<close>

lemma g_unfeed_counts:
  assumes "gbooks g" "link_ok g con" "a \<in> g_clients g"
  shows "count (mset (g_sort (g_unfeed con g) a)) b =
      count (mset (g_sort g a)) b - (if sort_edge (g_type g) con = Some (a, b) then 1 else 0)"
    "count (mset (g_true (g_unfeed con g) a)) b =
      count (mset (g_true g a)) b - (if true_edge (g_type g) con = Some (a, b) then 1 else 0)"
proof -
  have drv: "d \<notin> set (g_true g c)" "d \<notin> set (g_sort g c)" if "g_type g d = ClientDriver" "c \<in> g_clients g" for c d
  proof -
    show "d \<notin> set (g_true g c)" using true_member_edge [OF assms(1) that(2)] that(1) by (auto simp: true_edge_Some)
    have "\<not> (\<exists>k \<in> live g. sort_edge (g_type g) (g_conns g k) = Some (c, d))"
      using assms(1) that by (auto simp: gbooks_def conn_ok_def link_ok_def Let_def sort_edge_Some true_edge_Some split: if_splits)
    then show "d \<notin> set (g_sort g c)" using sort_member_edge [OF assms(1) that(2)] by simp
  qed
  have con: "srcclient con \<in> g_clients g" "dstclient con \<in> g_clients g"
    and dirs: "if true_edge (g_type g) con = None then dir con = (if g_type g (dstclient con) = ClientDriver then 1 else 0)
       else dir con = 1 \<or> (dir con = -1 \<and> g_type g (srcclient con) \<noteq> ClientDriver)"
    using assms(2) by (auto simp: link_ok_def Let_def)
  show "count (mset (g_sort (g_unfeed con g) a)) b =
      count (mset (g_sort g a)) b - (if sort_edge (g_type g) con = Some (a, b) then 1 else 0)"
    using dirs con assms(3) drv(2) [of "dstclient con"]
    by (auto simp: g_unfeed_def Let_def sort_edge_def true_edge_def remove1_idem split: if_splits)
  show "count (mset (g_true (g_unfeed con g) a)) b =
      count (mset (g_true g a)) b - (if true_edge (g_type g) con = Some (a, b) then 1 else 0)"
    using dirs con assms(3) drv(1) [of "dstclient con"]
    by (auto simp: g_unfeed_def Let_def true_edge_def remove1_idem split: if_splits)
qed

lemma g_unfeed_fed:
  assumes "link_ok g con"
  shows "g_type g c \<noteq> ClientDriver \<Longrightarrow>
      g_fed (g_unfeed con g) c = g_fed g c - (if \<exists>a. true_edge (g_type g) con = Some (a, c) then 1 else 0)"
    "g_fed (g_unfeed con g) c \<le> g_fed g c"
  using assms by (auto simp: g_unfeed_def Let_def link_ok_def true_edge_def split: if_splits)


lemma gbooks_unlink:
  assumes g: "gbooks g" and k: "k \<in> live g"
  shows "gbooks (g_unfeed (g_conns g k) (g_unlink k g))"
proof -
  let ?h = "g_unlink k g" and ?con = "g_conns g k"
  let ?g = "g_unfeed ?con ?h"
  note port = g_unlink_port [OF g k]
  have ok: "link_ok g ?con" using g k by (simp add: gbooks_def conn_ok_def)
  have ec: "edge_conns ?g P = edge_conns ?h P" for P by (rule edge_conns_cong) simp_all
  have live: "live ?g = live g - {k}" using live_unlink [OF g k] by (simp add: live_def)
  have lk: "link_ok ?g c = link_ok g c" for c by (rule link_ok_frame) (auto simp: port)
  have u: "g_sort ?g = g_sort (g_unfeed ?con g)" "g_true ?g = g_true (g_unfeed ?con g)"
    "g_fed ?g = g_fed (g_unfeed ?con g)"
    by (auto simp: g_unfeed_def Let_def)
  have dist: "ports_ok g" "\<And>j. j \<in> live g \<Longrightarrow> conn_ok g j" using g by (auto simp: gbooks_def)
  have "ports_ok ?g"
    using dist(1) by (auto simp: ports_ok_def port dest: notin_set_remove1)
  moreover have "conn_ok ?g j" if "j \<in> live ?g" for j
  proof -
    have j: "conn_ok g j" "j \<noteq> k" using that live dist(2) by auto
    then have "source (g_conns g j) < length (g_ports g)" "destination (g_conns g j) < length (g_ports g)"
      by (auto simp: conn_ok_def link_ok_def Let_def)
    then show ?thesis using j by (auto simp: conn_ok_def lk port)
  qed
  moreover have "single_connections ?g" using g by (auto simp: gbooks_def single_connections_def live)
  moreover have "counts_ok ?g"
    unfolding counts_ok_def
  proof (intro conjI ballI allI)
    fix a b assume "a \<in> g_clients ?g"
    then have a: "a \<in> g_clients g" by simp
    show "count (mset (g_sort ?g a)) b = card (edge_conns ?g (\<lambda>con. sort_edge (g_type ?g) con = Some (a, b)))"
      using g a g_unfeed_counts(1) [OF g ok a] card_edge_unlink(1) [OF g k]
      by (simp add: ec u gbooks_def counts_ok_def)
    show "count (mset (g_true ?g a)) b = card (edge_conns ?g (\<lambda>con. true_edge (g_type ?g) con = Some (a, b)))"
      using g a g_unfeed_counts(2) [OF g ok a] card_edge_unlink(1) [OF g k]
      by (simp add: ec u gbooks_def counts_ok_def)
  next
    fix c assume "c \<in> g_clients ?g"
    then have c: "if g_type g c = ClientDriver then g_fed g c \<le> 0
        else g_fed g c = int (card (edge_conns g (\<lambda>con. \<exists>a. true_edge (g_type g) con = Some (a, c))))"
      using g by (simp add: gbooks_def counts_ok_def)
    show "if g_type ?g c = ClientDriver then g_fed ?g c \<le> 0
        else g_fed ?g c = int (card (edge_conns ?g (\<lambda>con. \<exists>a. true_edge (g_type ?g) con = Some (a, c))))"
      using c g_unfeed_fed [OF ok, of c] card_edge_unlink(2) [OF g k, of "\<lambda>con. \<exists>a. true_edge (g_type g) con = Some (a, c)"]
      by (auto simp: ec u card_edge_unlink(1) [OF g k])
  qed
  ultimately show ?thesis using g by (simp add: gbooks_def)
qed

lemma ginv_unlink:
  assumes g: "ginv g" and k: "k \<in> live g"
  shows "ginv (g_unfeed (g_conns g k) (g_unlink k g))"
proof -
  let ?con = "g_conns g k"
  let ?g = "g_unfeed ?con (g_unlink k g)"
  have b: "gbooks g" using g by (simp add: ginv_def)
  then have ok: "link_ok g ?con" using k by (simp add: gbooks_def conn_ok_def)
  have "g_feedback ?g = int (card (edge_conns (g_unlink k g) (\<lambda>con. dir con = -1)))"
    using g ok card_edge_unlink [OF b k, of "\<lambda>con. dir con = -1"]
    by (auto simp: ginv_def g_unfeed_def Let_def link_ok_def split: if_splits)
  moreover have "edge_conns (g_unlink k g) (\<lambda>con. dir con = -1) = edge_conns ?g (\<lambda>con. dir con = -1)"
    by (rule edge_conns_cong) simp_all
  moreover have "edges_on (g_clients ?g) (g_sort ?g) \<subseteq> edges_on (g_clients g) (g_sort g)"
    by (auto simp: edges_on_def g_unfeed_def Let_def split: if_splits
        dest: subsetD [OF set_remove1_subset])
  then have "acyclic (edges_on (g_clients ?g) (g_sort ?g))"
    using g by (auto simp: ginv_def intro: acyclic_subset)
  ultimately show ?thesis using gbooks_unlink [OF b k] by (simp add: ginv_def)
qed

section \<open>Turning a feedback connection round\<close>

definition g_turn :: "kptr \<Rightarrow> gcore \<Rightarrow> gcore" where
  "g_turn k g =
     (let con = g_conns g k; a = srcclient con; b = dstclient con;
          sf = (g_sort g)(b := remove1 a (g_sort g b)) in
      if dir con = -1 then g\<lparr>g_conns := (g_conns g)(k := con\<lparr>dir := 1\<rparr>), g_sort := sf(a := b # sf a)\<rparr> else g)"

lemma g_turn_frame [simp]:
  "g_clients (g_turn k g) = g_clients g" "g_driver (g_turn k g) = g_driver g"
  "g_ports (g_turn k g) = g_ports g" "g_next (g_turn k g) = g_next g" "g_type (g_turn k g) = g_type g"
  "g_id (g_turn k g) = g_id g" "g_owned (g_turn k g) = g_owned g"
  "g_true (g_turn k g) = g_true g" "g_fed (g_turn k g) = g_fed g" "g_feedback (g_turn k g) = g_feedback g"
  "live (g_turn k g) = live g"
  "source (g_conns (g_turn k g) j) = source (g_conns g j)"
  "destination (g_conns (g_turn k g) j) = destination (g_conns g j)"
  "srcclient (g_conns (g_turn k g) j) = srcclient (g_conns g j)"
  "dstclient (g_conns (g_turn k g) j) = dstclient (g_conns g j)"
  by (auto simp: g_turn_def Let_def live_def)

lemma true_edge_turn [simp]: "true_edge ty (g_conns (g_turn k g) j) = true_edge ty (g_conns g j)"
  by (simp add: true_edge_def)

lemma dir_turn: "dir (g_conns (g_turn k g) j) = (if j = k \<and> dir (g_conns g k) = -1 then 1 else dir (g_conns g j))"
  by (auto simp: g_turn_def Let_def)

lemma turn_sort_count:
  assumes g: "gbooks g" and k: "k \<in> live g" and x: "x \<in> g_clients g"
  shows "count (mset (g_sort (g_turn k g) x)) y =
    card (edge_conns (g_turn k g) (\<lambda>con. sort_edge (g_type g) con = Some (x, y)))"
proof (cases "dir (g_conns g k) = -1")
  case False
  then have "g_turn k g = g" by (simp add: g_turn_def Let_def)
  then show ?thesis using g x by (simp add: gbooks_def counts_ok_def)
next
  case True
  let ?a = "srcclient (g_conns g k)" and ?b = "dstclient (g_conns g k)"
  let ?S = "\<lambda>g x y. edge_conns g (\<lambda>con. sort_edge (g_type g) con = Some (x, y))"
  have ok: "link_ok g (g_conns g k)" using g k by (simp add: gbooks_def conn_ok_def)
  then have e: "true_edge (g_type g) (g_conns g k) = Some (?a, ?b)" and ab: "?a \<noteq> ?b"
    using True by (auto simp: link_ok_def Let_def true_edge_def split: if_splits)
  have other: "j \<noteq> k \<Longrightarrow> sort_edge (g_type g) (g_conns (g_turn k g) j) = sort_edge (g_type g) (g_conns g j)" for j
    by (simp add: sort_edge_def dir_turn)
  have turned: "sort_edge (g_type g) (g_conns (g_turn k g) k) = Some (?a, ?b)"
    "sort_edge (g_type g) (g_conns g k) = Some (?b, ?a)"
    using True e by (simp_all add: sort_edge_def dir_turn)
  have S: "?S (g_turn k g) x y = (if (x, y) = (?a, ?b) then insert k (?S g x y) else ?S g x y - {k})"
  proof (rule set_eqI)
    fix j
    show "j \<in> ?S (g_turn k g) x y \<longleftrightarrow>
        j \<in> (if (x, y) = (?a, ?b) then insert k (?S g x y) else ?S g x y - {k})"
      using k other [of j] turned ab by (cases "j = k") (auto simp: edge_conns_def)
  qed
  have cnt: "count (mset (g_sort g x)) y = card (?S g x y)" using g x by (simp add: gbooks_def counts_ok_def)
  have kS: "k \<in> ?S g x y \<longleftrightarrow> (x, y) = (?b, ?a)" using k turned(2) by (auto simp: edge_conns_def)
  have new: "count (mset (g_sort (g_turn k g) x)) y =
      (if (x, y) = (?a, ?b) then Suc (count (mset (g_sort g x)) y)
       else if (x, y) = (?b, ?a) then count (mset (g_sort g x)) y - 1 else count (mset (g_sort g x)) y)"
    using True ab by (auto simp: g_turn_def Let_def)
  let ?s = "?S g x y"
  have "card (?S (g_turn k g) x y) = (if (x, y) = (?a, ?b) then Suc (card ?s)
      else if (x, y) = (?b, ?a) then card ?s - 1 else card ?s)"
  proof -
    have "(x, y) = (?a, ?b) \<Longrightarrow> card (insert k ?s) = Suc (card ?s)"
      using kS ab by (intro card_insert_disjoint) auto
    moreover have "(x, y) = (?b, ?a) \<Longrightarrow> card (?s - {k}) = card ?s - 1"
      using kS by (intro card_Diff_singleton) blast
    moreover have "(x, y) \<noteq> (?b, ?a) \<Longrightarrow> ?s - {k} = ?s" using kS by blast
    ultimately show ?thesis unfolding S by presburger
  qed
  then show ?thesis unfolding new cnt by (simp only: g_turn_frame)
qed

lemma gbooks_turn:
  assumes g: "gbooks g" and k: "k \<in> live g"
  shows "gbooks (g_turn k g)"
proof -
  have E: "edge_conns (g_turn k g) (\<lambda>con. true_edge (g_type g) con = t) =
      edge_conns g (\<lambda>con. true_edge (g_type g) con = t)"
    "edge_conns (g_turn k g) (\<lambda>con. \<exists>a. true_edge (g_type g) con = Some (a, c)) =
      edge_conns g (\<lambda>con. \<exists>a. true_edge (g_type g) con = Some (a, c))" for t c
    by (simp_all add: edge_conns_def)
  have "counts_ok (g_turn k g)"
    using g turn_sort_count [OF g k] by (simp add: counts_ok_def E gbooks_def)
  moreover have "conn_ok (g_turn k g) j" if "j \<in> live g" for j
  proof -
    have j: "conn_ok g j" using g that by (simp add: gbooks_def)
    then show ?thesis by (auto simp: conn_ok_def link_ok_def Let_def dir_turn split: if_splits)
  qed
  ultimately show ?thesis using g by (simp add: gbooks_def ports_ok_def single_connections_def)
qed

end
