(* ===== verification/Graph_Ops.thy ===== *)
theory Graph_Ops
  imports Graph_Core
begin

text \<open>
  The engine's graph operations keep the invariant. Events, notifications, latencies and the
  execution chain leave \<open>gcore\<close> alone; the sort permutes the clients; connecting, disconnecting
  and the acyclicity check are the changes of \<open>Graph_Core\<close>.
\<close>

section \<open>Operations that leave the graph alone\<close>

definition same_graph :: "jack_engine_t \<Rightarrow> jack_engine_t \<Rightarrow> bool" where
  "same_graph e e' \<longleftrightarrow> core e' = core e \<and> clients e' = clients e"

lemma same_graph_refl [simp, intro]: "same_graph e e"
  by (simp add: same_graph_def)

lemma same_graph_trans: "same_graph a b \<Longrightarrow> same_graph b c \<Longrightarrow> same_graph a c"
  by (simp add: same_graph_def)

lemma same_graph_inv: "same_graph e e' \<Longrightarrow> graph_inv e' = graph_inv e"
  by (simp add: same_graph_def graph_inv_def)

named_theorems graph_frame

lemma same_graph_upd_client:
  assumes "\<And>r. sortfeeds (f r) = sortfeeds r" "\<And>r. truefeeds (f r) = truefeeds r"
    "\<And>r. fedcount (f r) = fedcount r" "\<And>r. cl_type (f r) = cl_type r"
    "\<And>r. cl_id (f r) = cl_id r" "\<And>r. cl_ports (f r) = cl_ports r"
  shows "same_graph d e \<Longrightarrow> same_graph d (upd_client c f e)"
  using assms by (auto simp: same_graph_def core_def upd_client_def fun_eq_iff)

lemma same_graph_upd_port:
  assumes "\<And>r. port_core (f r) = port_core r"
  shows "same_graph d e \<Longrightarrow> same_graph d (upd_port p f e)"
proof -
  have "map port_core ((ports e)[p := f (ports e ! p)]) = map port_core (ports e)"
    using assms by (metis list_update_id map_update)
  then show "same_graph d e \<Longrightarrow> same_graph d (upd_port p f e)"
    by (simp add: same_graph_def core_def upd_port_def)
qed

lemma same_graph_other [graph_frame]:
  "same_graph d e \<Longrightarrow> same_graph d (e\<lparr>io_pos := n\<rparr>)" "same_graph d e \<Longrightarrow> same_graph d (e\<lparr>trace := t\<rparr>)"
  "same_graph d e \<Longrightarrow> same_graph d (e\<lparr>problems := p\<rparr>)"
  "same_graph d e \<Longrightarrow> same_graph d (e\<lparr>timeout_count := m\<rparr>)" "same_graph d e \<Longrightarrow> same_graph d (e\<lparr>control := ctl\<rparr>)"
  by (simp_all add: same_graph_def core_def)

lemma same_graph_if:
  "same_graph d x \<Longrightarrow> same_graph d y \<Longrightarrow> same_graph d (if b then x else y)"
  "same_graph d (fst u) \<Longrightarrow> same_graph d (fst v) \<Longrightarrow> same_graph d (fst (if b then u else v))"
  by simp_all

lemma same_graph_client_fields [graph_frame]:
  "same_graph d e \<Longrightarrow> same_graph d (upd_client x (\<lambda>r. r\<lparr>subgraph_wait_fd := v\<rparr>) e)"
  "same_graph d e \<Longrightarrow> same_graph d (upd_client x (\<lambda>r. r\<lparr>subgraph_start_fd := v\<rparr>) e)"
  "same_graph d e \<Longrightarrow> same_graph d (upd_client x (\<lambda>r. r\<lparr>execution_order := m, next_client := w\<rparr>) e)"
  "same_graph d e \<Longrightarrow> same_graph d (upd_client x (\<lambda>r. r\<lparr>cl_error := h r\<rparr>) e)"
  by (erule same_graph_upd_client [rotated -1]; simp)+

lemma same_graph_socket_error [graph_frame]: "same_graph d e \<Longrightarrow> same_graph d (client_socket_error c e)"
  unfolding client_socket_error_def jack_engine_signal_problems_def by (auto intro: graph_frame)

lemma same_graph_deliver [graph_frame]:
  assumes "same_graph d e"
  shows "same_graph d (fst (jack_deliver_event e c ev))"
  unfolding jack_deliver_event_def Let_def
  by (intro same_graph_if; simp only: fst_conv; intro graph_frame same_graph_if assms)

lemma same_graph_deliver_each [graph_frame]: "same_graph d e \<Longrightarrow> same_graph d (deliver_each e cs ev)"
  by (induction e cs ev rule: deliver_each.induct) (auto intro: graph_frame)

lemma same_graph_notification [graph_frame]:
  "same_graph d e \<Longrightarrow> same_graph d (fst (jack_send_connection_notification e i a b con))"
  unfolding jack_send_connection_notification_def
  by (auto simp: case_prod_beta intro: graph_frame split: option.splits)

lemma same_graph_notify_connection [graph_frame]: "same_graph d e \<Longrightarrow> same_graph d (notify_connection e a b con)"
  unfolding notify_connection_def Let_def jack_notify_all_port_interested_clients_def
  by (intro graph_frame)

lemma same_graph_rechain_loop [graph_frame]: "same_graph d e \<Longrightarrow> same_graph d (fst (rechain_loop e cs n s))"
proof (induction cs arbitrary: e n s rule: length_induct)
  case (1 cs)
  have IH: "same_graph d e1 \<Longrightarrow> length ys < length cs \<Longrightarrow> same_graph d (fst (rechain_loop e1 ys n1 s1))" for ys e1 n1 s1
    using 1 by blast
  have "length (dropWhile P rest) < Suc (length rest)" for P and rest :: "cptr list"
    by (simp add: length_dropWhile_le less_Suc_eq_le)
  then show ?case
    using 1(2) by (cases cs) (auto simp: Let_def intro!: IH graph_frame split: option.splits)
qed

lemma same_graph_rechain [graph_frame]: "same_graph d e \<Longrightarrow> same_graph d (jack_rechain_graph e)"
  unfolding jack_rechain_graph_def
  by (auto simp: case_prod_beta Let_def intro!: graph_frame split: option.splits)

lemma same_graph_total_latencies [graph_frame]:
  assumes "same_graph d e"
  shows "same_graph d (jack_compute_all_port_total_latencies e)"
proof -
  have "same_graph d e1 \<Longrightarrow> same_graph d (fold (\<lambda>i e. jack_compute_port_total_latency e i) is e1)" for "is" e1
    by (induction "is" arbitrary: e1)
      (simp_all add: jack_compute_port_total_latency_def port_core_def same_graph_upd_port)
  then show ?thesis using assms by (simp add: jack_compute_all_port_total_latencies_def)
qed

lemma new_latency_Value:
  assumes "driver_client e \<noteq> None"
  shows "\<exists>e'. jack_compute_new_latency e = Value e' \<and> (\<forall>d. same_graph d e \<longrightarrow> same_graph d e')"
  using assms unfolding jack_compute_new_latency_def by (auto simp: Let_def intro!: graph_frame)


section \<open>The feeds test and the sort\<close>

interpretation fg: feeds_graph graph_inv clients sortfeeds_of
proof
  fix e c assume "graph_inv e" "c \<in> set (clients e)"
  then show "set (sortfeeds_of e c) \<subseteq> set (clients e)"
    using sort_edge_clients [of "core e" c] by (auto simp: graph_inv_def ginv_def sortfeeds_of_def)
next
  fix e assume "graph_inv e"
  then show "acyclic {(a, b). a \<in> set (clients e) \<and> b \<in> set (sortfeeds_of e a)}"
    by (simp add: graph_inv_def ginv_def edges_on_def sortfeeds_of_def)
qed

text \<open>The order the execution has to respect, as far as the feeds lists say.\<close>

definition must_precede :: "jack_engine_t \<Rightarrow> (cptr \<times> cptr) set" where
  "must_precede e = {(a, b). a \<in> set (clients e) \<and> b \<in> set (sortfeeds (cmem e a))}"

lemma must_precede_edges: "must_precede e = edges_on (set (clients e)) (sortfeeds_of e)"
  by (simp add: must_precede_def edges_on_def sortfeeds_of_def)

lemma must_precede_core: "must_precede e = edges_on (g_clients (core e)) (g_sort (core e))"
  by (simp add: must_precede_def edges_on_def)

lemma feeds_transitive_closure:
  "graph_inv e \<Longrightarrow> a \<in> set (clients e) \<Longrightarrow>
   jack_client_feeds_transitive e a b = Some ((a, b) \<in> (must_precede e)\<^sup>+)"
  unfolding jack_client_feeds_transitive_def must_precede_edges by (rule fg.feeds_correct)

lemma sort_edge_not_driver:
  assumes "gbooks g" "a \<in> g_clients g" "b \<in> set (g_sort g a)"
  shows "g_type g b \<noteq> ClientDriver"
proof -
  obtain k where k: "k \<in> live g" "sort_edge (g_type g) (g_conns g k) = Some (a, b)"
    using assms by (auto simp: sort_member_edge)
  then have "link_ok g (g_conns g k)" using assms(1) by (auto simp: gbooks_def conn_ok_def)
  with k(2) show ?thesis
    by (auto simp: link_ok_def Let_def sort_edge_Some true_edge_Some split: if_splits)
qed

lemma feeds_not_driver:
  assumes "graph_inv e" "(a, b) \<in> (must_precede e)\<^sup>+"
  shows "\<not> is_driver e b"
  using assms(2)
proof (cases rule: tranclE)
  case base
  then show ?thesis using assms(1) sort_edge_not_driver [of "core e" a b]
    by (auto simp: must_precede_def is_driver_def graph_inv_def ginv_def)
next
  case (step c)
  then show ?thesis using assms(1) sort_edge_not_driver [of "core e" c b]
    by (auto simp: must_precede_def is_driver_def graph_inv_def ginv_def)
qed

definition driver_before :: "jack_engine_t \<Rightarrow> cptr \<Rightarrow> cptr \<Rightarrow> bool" where
  "driver_before e a b \<longleftrightarrow> (is_driver e b \<longrightarrow> is_driver e a)"

lemma client_sort_value:
  assumes "graph_inv e" "a \<in> set (clients e)" "b \<in> set (clients e)"
  shows "jack_client_sort e a b = Some
    (if (a, b) \<in> (must_precede e)\<^sup>+ \<or> (is_driver e a \<and> \<not> is_driver e b) then -1
     else if (b, a) \<in> (must_precede e)\<^sup>+ \<or> (is_driver e b \<and> \<not> is_driver e a) then 1 else 0)"
  using assms by (simp add: jack_client_sort_def feeds_transitive_closure)

interpretation cs: slist_compare graph_inv "\<lambda>e. set (clients e)" jack_client_sort driver_before
proof
  fix e a b assume inv: "graph_inv e" and ab: "a \<in> set (clients e)" "b \<in> set (clients e)"
  note v = client_sort_value [OF inv ab]
  show "jack_client_sort e a b \<noteq> None" by (simp add: v)
  show "driver_before e a b" if "jack_client_sort e a b = Some x" "x < 0" for x
    using that feeds_not_driver [OF inv, of a b] by (auto simp: v driver_before_def split: if_splits)
  show "driver_before e b a" if "jack_client_sort e a b = Some x" "\<not> x < 0" for x
    using that feeds_not_driver [OF inv, of b a] by (auto simp: v driver_before_def split: if_splits)
next
  fix e a b c assume "driver_before e a b" "driver_before e b c"
  then show "driver_before e a c" by (simp add: driver_before_def)
qed

lemma sort_graph_Value:
  assumes inv: "graph_inv e"
  shows "\<exists>e'. jack_sort_graph e = Value e' \<and> core e' = core e \<and> mset (clients e') = mset (clients e) \<and>
    sorted_wrt (driver_before e) (clients e') \<and> timeout_count e' = 0 \<and>
    jack_slist_sort (jack_client_sort e) (clients e) = Some (clients e')"
proof -
  obtain cs where cs: "jack_slist_sort (jack_client_sort e) (clients e) = Some cs"
    "mset cs = mset (clients e)" "sorted_wrt (driver_before e) cs"
    using cs.sort_sorted [OF inv order_refl] by blast
  let ?e1 = "e\<lparr>clients := cs\<rparr>"
  let ?e2 = "jack_rechain_graph (jack_compute_all_port_total_latencies ?e1)"
  have "set cs = set (clients e)" using cs(2) by (rule mset_eq_setD)
  then have c1: "core ?e1 = core e" by (simp add: core_def)
  have s2: "same_graph ?e1 ?e2" by (intro graph_frame same_graph_refl)
  have "driver_client ?e2 = driver_client e"
    using s2 c1 by (metis core_simps(2) same_graph_def)
  then have "driver_client ?e2 \<noteq> None" using inv by (simp add: graph_inv_def ginv_def gbooks_def)
  from new_latency_Value [OF this] s2 obtain e3 where
    e3: "jack_compute_new_latency ?e2 = Value e3" "same_graph ?e1 e3" by blast
  have "jack_sort_graph e = Value (e3\<lparr>timeout_count := 0\<rparr>)"
    using cs(1) e3(1) by (simp add: jack_sort_graph_def)
  moreover have "same_graph ?e1 (e3\<lparr>timeout_count := 0\<rparr>)" using e3(2) by (rule graph_frame)
  ultimately show ?thesis using c1 cs by (auto simp: same_graph_def)
qed

lemma sort_graph_inv: "graph_inv e \<Longrightarrow> \<exists>e'. jack_sort_graph e = Value e' \<and> graph_inv e' \<and> core e' = core e"
  using sort_graph_Value [of e] by (auto simp: graph_inv_def) (metis mset_eq_imp_distinct_iff)

end
