(* ===== verification/Graph_Acyclic.thy ===== *)
theory Graph_Acyclic
  imports Graph_Ops
begin

text \<open>
  \<open>jack_check_acyclic\<close> of \<open>server/engine.c\<close>: its loop ends, a run that is not stuck has found the
  connections to be acyclic, and turning all feedback connections round then keeps the
  execution constraints acyclic.
\<close>

section \<open>Taking sources off the graph\<close>

lemma take_source_value:
  "take_source e src tf c = (tf(src := -1)) c - int (count (mset (truefeeds (cmem e src))) c)"
proof -
  have "fold (\<lambda>dst t. t(dst := t dst - 1)) xs t c = t c - int (count (mset xs) c)" for xs and t :: "cptr \<Rightarrow> int"
    by (induction xs arbitrary: t) auto
  then show ?thesis by (simp add: take_source_def)
qed

definition true_graph :: "jack_engine_t \<Rightarrow> (cptr \<times> cptr) set" where
  "true_graph e = {(a, b). a \<in> set (clients e) \<and> b \<in> set (truefeeds (cmem e a))}"

text \<open>
  After the clients in \<open>P\<close> have been taken: their counters are negative, the others count the
  edges that come from outside \<open>P\<close>, and what leads into \<open>P\<close> is acyclic.
\<close>

definition taken :: "jack_engine_t \<Rightarrow> cptr set \<Rightarrow> (cptr \<Rightarrow> int) \<Rightarrow> bool" where
  "taken e P tf \<longleftrightarrow> P \<subseteq> set (clients e) \<and> (\<forall>c \<in> P. tf c < 0 \<and> 0 \<le> fedcount (cmem e c)) \<and>
     (\<forall>c \<in> set (clients e) - P. tf c = fedcount (cmem e c) - (\<Sum>a \<in> P. int (count (mset (truefeeds (cmem e a))) c))) \<and>
     (\<forall>(a, b) \<in> true_graph e. b \<in> P \<longrightarrow> a \<in> P) \<and> acyclic {(a, b) \<in> true_graph e. b \<in> P}"

lemma taken_empty: "taken e {} (\<lambda>c. fedcount (cmem e c))"
  by (simp add: taken_def acyclic_def)

lemma acyclic_add_sink:
  assumes "acyclic r" "s \<notin> Domain r" "s \<notin> A"
  shows "acyclic (r \<union> A \<times> {s})"
proof -
  have step: "(x, y) \<in> (r \<union> A \<times> {s})\<^sup>+ \<Longrightarrow> (x, y) \<in> r\<^sup>+ \<or> y = s" for x y
  proof (induction rule: trancl_induct)
    case (step y z)
    then show ?case using assms(2,3) by (auto intro: trancl_into_trancl)
  qed auto
  have "(s, s) \<notin> (r \<union> A \<times> {s})\<^sup>+"
    using assms(2,3) by (metis (no_types, lifting) DomainE Domain.DomainI SigmaD1 UnE tranclD)
  then show ?thesis using step assms(1) by (auto simp: acyclic_def)
qed

lemma incoming_total:
  assumes g: "gbooks g" and c: "c \<in> g_clients g" "g_type g c \<noteq> ClientDriver"
  shows "g_fed g c = (\<Sum>a \<in> g_clients g. int (count (mset (g_true g a)) c))"
proof -
  let ?E = "\<lambda>a. edge_conns g (\<lambda>con. true_edge (g_type g) con = Some (a, c))"
  have "edge_conns g (\<lambda>con. \<exists>a. true_edge (g_type g) con = Some (a, c)) = (\<Union>a \<in> g_clients g. ?E a)"
    using g by (auto simp: edge_conns_def gbooks_def conn_ok_def link_ok_def Let_def true_edge_Some)
  moreover have "card (\<Union>a \<in> g_clients g. ?E a) = (\<Sum>a \<in> g_clients g. card (?E a))"
    using g by (intro card_UN_disjoint) (auto simp: gbooks_def edge_conns_def)
  ultimately show ?thesis using g c by (simp add: gbooks_def counts_ok_def)
qed

lemma all_incoming_taken:
  assumes g: "gbooks (core e)" and t: "taken e P tf" and src: "src \<in> set (clients e)" "tf src = 0"
    and edge: "(a, src) \<in> true_graph e"
  shows "a \<in> P"
proof (rule ccontr)
  assume a: "a \<notin> P"
  let ?n = "\<lambda>a. int (count (mset (truefeeds (cmem e a))) src)"
  have aV: "a \<in> set (clients e)" "0 < ?n a" using edge by (auto simp: true_graph_def)
  have srcP: "src \<notin> P" using t src(2) by (auto simp: taken_def)
  have "cl_type (cmem e src) \<noteq> ClientDriver"
    using true_member_edge [OF g, of a src] edge by (auto simp: true_graph_def true_edge_Some)
  then have "fedcount (cmem e src) = sum ?n (set (clients e))"
    using incoming_total [OF g, of src] src(1) by simp
  moreover have "fedcount (cmem e src) = sum ?n P" using t src srcP by (auto simp: taken_def)
  moreover have "sum ?n (insert a P) \<le> sum ?n (set (clients e))"
    using t aV by (intro sum_mono2) (auto simp: taken_def)
  moreover have "sum ?n (insert a P) = ?n a + sum ?n P"
    using a t by (intro sum.insert) (auto simp: taken_def intro: finite_subset)
  ultimately show False using aV(2) by linarith
qed

lemma true_graph_irrefl: "gbooks (core e) \<Longrightarrow> (a, a) \<notin> true_graph e"
  using true_member_edge [of "core e" a a] by (auto simp: true_graph_def true_edge_Some)

lemma taken_source:
  assumes g: "gbooks (core e)" and t: "taken e P tf" and src: "src \<in> set (clients e)" "tf src = 0"
  shows "src \<notin> P \<and> taken e (insert src P) (take_source e src tf)"
proof -
  have srcP: "src \<notin> P" using t src(2) by (auto simp: taken_def)
  have fin: "finite P" using t by (auto simp: taken_def intro: finite_subset)
  note inc = all_incoming_taken [OF g t src]
  have "{(a, b) \<in> true_graph e. b \<in> insert src P} \<subseteq> {(a, b) \<in> true_graph e. b \<in> P} \<union> P \<times> {src}"
    using inc by auto
  moreover have "acyclic ({(a, b) \<in> true_graph e. b \<in> P} \<union> P \<times> {src})"
    using t srcP by (intro acyclic_add_sink) (auto simp: taken_def)
  ultimately have "acyclic {(a, b) \<in> true_graph e. b \<in> insert src P}" by (rule acyclic_subset [rotated])
  moreover have "\<forall>(a, b) \<in> true_graph e. b \<in> insert src P \<longrightarrow> a \<in> insert src P"
    using t inc by (auto simp: taken_def)
  moreover have "0 \<le> fedcount (cmem e src)"
  proof -
    have "fedcount (cmem e src) = (\<Sum>a \<in> P. int (count (mset (truefeeds (cmem e a))) src))"
      using t src srcP by (auto simp: taken_def)
    then show ?thesis by (simp add: sum_nonneg)
  qed
  ultimately show ?thesis
    using t src(1) srcP fin unfolding taken_def take_source_value by auto
qed

lemma acyclic_pass_taken:
  assumes g: "gbooks (core e)"
  shows "acyclic_pass e cs tf u stuck = (tf', u', stuck') \<Longrightarrow> taken e P tf \<Longrightarrow> set cs \<subseteq> set (clients e) \<Longrightarrow>
    \<exists>P'. taken e P' tf' \<and> u' + int (card P') = u + int (card P) \<and> card P \<le> card P' \<and>
      (stuck' = (stuck \<and> card P' = card P))"
proof (induction cs arbitrary: tf u stuck P)
  case Nil
  then show ?case by auto
next
  case (Cons src rest)
  show ?case
  proof (cases "tf src = 0")
    case False
    then show ?thesis using Cons by simp
  next
    case True
    have t: "src \<notin> P" "taken e (insert src P) (take_source e src tf)"
      using taken_source [OF g Cons.prems(2) _ True] Cons.prems(3) by auto
    have "finite P" using Cons.prems(2) by (auto simp: taken_def intro: finite_subset)
    then have c: "card (insert src P) = Suc (card P)" using t(1) by simp
    have "acyclic_pass e rest (take_source e src tf) (u - 1) False = (tf', u', stuck')"
      using Cons.prems(1) True by simp
    from Cons.IH [OF this t(2)] Cons.prems(3) c show ?thesis by force
  qed
qed

lemma true_graph_clients: "gbooks (core e) \<Longrightarrow> (a, b) \<in> true_graph e \<Longrightarrow> b \<in> set (clients e)"
proof -
  assume g: "gbooks (core e)" and "(a, b) \<in> true_graph e"
  then obtain k where k: "k \<in> live (core e)" "true_edge (g_type (core e)) (conns e k) = Some (a, b)"
    using true_member_edge [OF g, of a b] by (auto simp: true_graph_def)
  then have "link_ok (core e) (conns e k)" using g by (auto simp: gbooks_def conn_ok_def)
  then show "b \<in> set (clients e)" using k(2) by (auto simp: link_ok_def Let_def true_edge_Some)
qed

lemma taken_all: "gbooks (core e) \<Longrightarrow> taken e P tf \<Longrightarrow> card P = length (clients e) \<Longrightarrow> distinct (clients e) \<Longrightarrow> acyclic (true_graph e)"
proof -
  assume g: "gbooks (core e)" and t: "taken e P tf" and c: "card P = length (clients e)" and d: "distinct (clients e)"
  have "P = set (clients e)"
    using t c d by (intro card_subset_eq) (auto simp: taken_def distinct_card)
  then have "true_graph e \<subseteq> {(a, b) \<in> true_graph e. b \<in> P}" using true_graph_clients [OF g] by auto
  then show "acyclic (true_graph e)" using t by (auto simp: taken_def intro: acyclic_subset)
qed

lemma acyclic_pass_unstuck: "acyclic_pass e cs tf u False = (tf', u', stuck') \<Longrightarrow> \<not> stuck'"
  by (induction cs arbitrary: tf u) (auto split: if_splits)

lemma acyclic_pass_stuck:
  "acyclic_pass e cs tf u True = (tf', u', True) \<Longrightarrow> tf' = tf \<and> (\<forall>c \<in> set cs. tf c \<noteq> 0)"
  by (induction cs arbitrary: tf u) (auto split: if_splits dest: acyclic_pass_unstuck)

declare acyclic_loop.simps [simp del]

lemma acyclic_loop_stop: "u = 0 \<or> stuck \<Longrightarrow> acyclic_loop n e tf u stuck = Some (tf, stuck)"
  by (simp add: acyclic_loop.simps)

text \<open>The loop ends: every pass that is not stuck takes a client.\<close>

lemma acyclic_loop_result:
  assumes g: "gbooks (core e)" and d: "distinct (clients e)"
  shows "taken e P tf \<Longrightarrow> u + int (card P) = int (length (clients e)) \<Longrightarrow> u \<le> int n \<Longrightarrow>
    \<exists>tf' stuck'. acyclic_loop n e tf u stuck = Some (tf', stuck') \<and>
      (\<not> stuck' \<longrightarrow> (\<exists>P'. taken e P' tf' \<and> card P' = length (clients e))) \<and>
      (stuck' \<and> \<not> stuck \<longrightarrow> (\<exists>P'. taken e P' tf' \<and> card P' \<noteq> length (clients e) \<and> (\<forall>c \<in> set (clients e). tf' c \<noteq> 0)))"
proof (induction n arbitrary: tf u stuck P)
  case 0
  have "card P \<le> length (clients e)"
    using "0.prems"(1) d by (metis card_mono distinct_card finite_set taken_def)
  then have "u = 0" using "0.prems" by simp
  then show ?case using "0.prems" by (auto simp: acyclic_loop_stop)
next
  case (Suc n)
  show ?case
  proof (cases "u = 0 \<or> stuck")
    case True
    then show ?thesis using Suc.prems by (auto simp: acyclic_loop_stop)
  next
    case False
    obtain tf1 u1 stuck1 where p: "acyclic_pass e (clients e) tf u True = (tf1, u1, stuck1)" by (metis prod_cases3)
    obtain P' where P': "taken e P' tf1" "u1 + int (card P') = u + int (card P)" "card P \<le> card P'"
      "stuck1 = (card P' = card P)"
      using acyclic_pass_taken [OF g p Suc.prems(1) order_refl] by auto
    have step: "acyclic_loop (Suc n) e tf u stuck = acyclic_loop n e tf1 u1 stuck1"
      using False p by (simp add: acyclic_loop.simps [of "Suc n"])
    show ?thesis
    proof (cases "stuck1")
      case True
      then have "card P' \<noteq> length (clients e)" using P'(4) Suc.prems(2) False by auto
      then show ?thesis using step True P'(1) acyclic_pass_stuck [of e "clients e" tf u tf1 u1] p
        by (auto simp: acyclic_loop_stop)
    next
      case False
      then have "u1 \<le> int n" using P' Suc.prems(3) by linarith
      then show ?thesis using Suc.IH [OF P'(1), of u1 stuck1] P'(2) Suc.prems(2) step False by fastforce
    qed
  qed
qed


text \<open>
  A pass that finds no source leaves a cycle behind, unless a driver's counter has been
  decremented below zero.
\<close>

lemma stuck_cycle:
  assumes g: "gbooks (core e)" and d: "distinct (clients e)" and t: "taken e P tf"
    and open_left: "card P \<noteq> length (clients e)" "\<forall>c \<in> set (clients e). tf c \<noteq> 0" and acyc: "acyclic (true_graph e)"
  shows "\<exists>c \<in> set (clients e). is_driver e c \<and> fedcount (cmem e c) \<noteq> 0"
proof -
  let ?V = "set (clients e)"
  have "P \<noteq> ?V" using open_left(1) d by (auto simp: distinct_card)
  then have ne: "?V - P \<noteq> {}" using t by (auto simp: taken_def)
  have "true_graph e \<subseteq> ?V \<times> ?V" using true_graph_clients [OF g] by (auto simp: true_graph_def)
  then have "wf (true_graph e)" using acyc by (meson finite_SigmaI finite_acyclic_wf finite_set finite_subset)
  then obtain c where c: "c \<in> ?V - P" "\<And>a. (a, c) \<in> true_graph e \<Longrightarrow> a \<notin> ?V - P"
    using ne by (metis ex_in_conv wf_eq_minimal)
  let ?n = "\<lambda>a. int (count (mset (truefeeds (cmem e a))) c)"
  have outside: "?n a = 0" if "a \<in> ?V - P" for a
    using c(2) [of a] that by (auto simp: true_graph_def count_eq_zero_iff)
  have tf: "tf c = fedcount (cmem e c) - sum ?n P" using t c(1) by (auto simp: taken_def)
  show ?thesis
  proof (cases "is_driver e c")
    case False
    then have "fedcount (cmem e c) = sum ?n ?V"
      using incoming_total [OF g, of c] c(1) by (simp add: is_driver_def)
    also have "\<dots> = sum ?n P"
      using t outside by (intro sum.mono_neutral_right) (auto simp: taken_def)
    finally show ?thesis using tf open_left(2) c(1) by auto
  next
    case True
    have "?n a = 0" if "a \<in> P" for a
    proof -
      have "a \<in> ?V" using t that by (auto simp: taken_def)
      then show ?thesis using true_member_edge [OF g, of a c] True
        by (auto simp: count_eq_zero_iff true_edge_Some is_driver_def)
    qed
    then have "sum ?n P = 0" by (intro sum.neutral) blast
    then have "tf c = fedcount (cmem e c)" using tf by simp
    then show ?thesis using True open_left(2) c(1) by auto
  qed
qed

section \<open>Turning all feedback connections round\<close>

lemma core_reverse: "core (reverse_connection e k) = g_turn k (core e)"
  by (auto simp: reverse_connection_def g_turn_def Let_def core_def upd_client_def upd_conn_def
      jack_slist_prepend_def fun_eq_iff)

lemma clients_reverse [simp]: "clients (reverse_connection e k) = clients e"
  by (simp add: reverse_connection_def Let_def upd_client_def upd_conn_def)

lemma reverse_all:
  assumes "gbooks (core e)" "set ks \<subseteq> live (core e)"
  defines "e' \<equiv> fold (\<lambda>k e. reverse_connection e k) ks e"
  shows "gbooks (core e') \<and> clients e' = clients e \<and> live (core e') = live (core e) \<and>
    g_true (core e') = g_true (core e) \<and> g_fed (core e') = g_fed (core e) \<and> map port_core (ports e') = map port_core (ports e) \<and>
    (\<forall>k. source (conns e' k) = source (conns e k) \<and> destination (conns e' k) = destination (conns e k)) \<and>
    (\<forall>k. dir (conns e' k) = (if k \<in> set ks \<and> dir (conns e k) = -1 then 1 else dir (conns e k)))"
  using assms(1,2) unfolding e'_def
proof (induction ks arbitrary: e)
  case Nil
  then show ?case by simp
next
  case (Cons k ks)
  let ?e = "reverse_connection e k"
  have g: "gbooks (core ?e)" using gbooks_turn [OF Cons.prems(1)] Cons.prems(2) by (simp add: core_reverse)
  have l: "live (core ?e) = live (core e)" by (simp add: core_reverse)
  have c: "conns ?e j = g_conns (g_turn k (core e)) j" for j
    by (metis core_reverse core_simps(4))
  have p: "map port_core (ports ?e) = map port_core (ports e)"
    by (metis core_reverse core_simps(3) g_turn_frame(3))
  have t: "g_true (core ?e) = g_true (core e)" "g_fed (core ?e) = g_fed (core e)" by (simp_all add: core_reverse)
  have "set ks \<subseteq> live (core ?e)" using Cons.prems(2) l by simp
  from Cons.IH [OF g this] show ?case by (auto simp: l t c p dir_turn)
qed

lemma visited_live:
  assumes "gbooks (core e)"
  shows "set (visited_connections e) = live (core e)"
proof
  show "set (visited_connections e) \<subseteq> live (core e)"
    using assms by (fastforce simp: visited_connections_def live_nth gbooks_def)
  show "live (core e) \<subseteq> set (visited_connections e)"
  proof
    fix k assume "k \<in> live (core e)"
    then have k: "conn_ok (core e) k" using assms by (simp add: gbooks_def)
    then have "srcclient (conns e k) \<in> set (clients e)"
      "source (conns e k) \<in> set (cl_ports (cmem e (srcclient (conns e k))))"
      "k \<in> set (connections (ports e ! source (conns e k)))"
      by (auto simp: conn_ok_def link_ok_def Let_def)
    then show "k \<in> set (visited_connections e)" by (auto simp: visited_connections_def)
  qed
qed

text \<open>What the check leaves of the graph when it is stuck, and when it is not.\<close>

definition keeps_links :: "jack_engine_t \<Rightarrow> jack_engine_t \<Rightarrow> bool" where
  "keeps_links e e' \<longleftrightarrow> map port_core (ports e') = map port_core (ports e) \<and>
     (\<forall>k. source (conns e' k) = source (conns e k) \<and> destination (conns e' k) = destination (conns e k))"

lemma gbooks_feedback [simp]: "gbooks (g\<lparr>g_feedback := n\<rparr>) = gbooks g"
  by (simp add: gbooks_def ports_ok_def conn_ok_def link_ok_def counts_ok_def single_connections_def
      edge_conns_def live_def Let_def)

lemma sort_is_true_graph:
  assumes g: "gbooks (core e)" and fwd: "\<And>k. k \<in> live (core e) \<Longrightarrow> dir (conns e k) \<noteq> -1"
  shows "must_precede e = true_graph e"
proof -
  have eq: "sort_edge ty (conns e k) = true_edge ty (conns e k)" if "k \<in> live (core e)" for k ty
    using fwd [OF that] by (simp add: sort_edge_def)
  have "b \<in> set (sortfeeds (cmem e a)) \<longleftrightarrow> b \<in> set (truefeeds (cmem e a))" if "a \<in> set (clients e)" for a b
    using sort_member_edge [OF g, of a b] true_member_edge [OF g, of a b] that eq by simp
  then show ?thesis by (auto simp: must_precede_def true_graph_def)
qed

lemma turn_all_inv:
  assumes g: "gbooks (core e)" and d: "distinct (clients e)" and acyc: "acyclic (true_graph e)"
  defines "e' \<equiv> (fold (\<lambda>k e. reverse_connection e k) (visited_connections e) e)\<lparr>feedbackcount := 0\<rparr>"
  shows "graph_inv e' \<and> clients e' = clients e \<and> keeps_links e e' \<and> g_fed (core e') = g_fed (core e) \<and>
    (\<forall>k \<in> live (core e'). dir (conns e' k) \<noteq> -1)"
proof -
  let ?r = "fold (\<lambda>k e. reverse_connection e k) (visited_connections e) e"
  note r = reverse_all [OF g eq_refl [OF visited_live [OF g]]] and v = visited_live [OF g]
  have c: "core e' = (core ?r)\<lparr>g_feedback := 0\<rparr>" by (simp add: core_def e'_def)
  have l: "live (core e') = live (core e)" using r unfolding c by (simp add: live_def)
  have fwd: "\<forall>k \<in> live (core e'). dir (conns e' k) \<noteq> -1" using r v l by (simp add: e'_def)
  have g': "gbooks (core e')" using r by (simp add: c)
  have t: "truefeeds (cmem e' a) = truefeeds (cmem e a)" for a
    using r by (metis c core_simps(8) gcore.select_convs(8) gcore.update_convs(6) core_def)
  have cl: "clients e' = clients e" using r by (simp add: e'_def)
  have "must_precede e' = true_graph e"
    using sort_is_true_graph [OF g'] fwd t cl by (auto simp: true_graph_def)
  then have "acyclic (edges_on (g_clients (core e')) (g_sort (core e')))"
    using acyc must_precede_core [of e'] by simp
  moreover have "edge_conns (core e') (\<lambda>con. dir con = -1) = {}" using fwd by (auto simp: edge_conns_def)
  then have "feedbackcount e' = int (card (edge_conns (core e') (\<lambda>con. dir con = -1)))" by (simp add: e'_def)
  ultimately have "graph_inv e'" using g' cl d by (simp add: graph_inv_def ginv_def)
  moreover have "keeps_links e e'" using r by (simp add: keeps_links_def e'_def)
  moreover have "g_fed (core e') = g_fed (core e)" using r by (simp add: c)
  ultimately show ?thesis using cl fwd by blast
qed

lemma check_acyclic_cases:
  assumes "graph_inv e"
  shows "\<exists>e'. jack_check_acyclic e = Value e' \<and> graph_inv e' \<and> clients e' = clients e \<and> keeps_links e e' \<and> g_fed (core e') = g_fed (core e) \<and>
    (core e' = core e \<and> (acyclic (true_graph e) \<longrightarrow> (\<exists>c \<in> set (clients e). is_driver e c \<and> fedcount (cmem e c) \<noteq> 0)) \<or>
     acyclic (true_graph e) \<and> feedbackcount e' = 0 \<and> (\<forall>k \<in> live (core e'). dir (conns e' k) \<noteq> -1) \<and>
     (\<forall>c \<in> set (clients e). 0 \<le> fedcount (cmem e c)))"
proof -
  have g: "gbooks (core e)" and d: "distinct (clients e)" using assms by (auto simp: graph_inv_def ginv_def)
  obtain tf stuck where loop: "acyclic_loop (length (clients e)) e (\<lambda>c. fedcount (cmem e c)) (int (length (clients e))) False = Some (tf, stuck)"
    and res: "\<not> stuck \<Longrightarrow> \<exists>P. taken e P tf \<and> card P = length (clients e)"
      "stuck \<Longrightarrow> \<exists>P. taken e P tf \<and> card P \<noteq> length (clients e) \<and> (\<forall>c \<in> set (clients e). tf c \<noteq> 0)"
    using acyclic_loop_result [OF g d taken_empty, of "int (length (clients e))" "length (clients e)" False] by auto
  define e1 where "e1 = e\<lparr>cmem := (\<lambda>c. if c \<in> set (clients e) then (cmem e c)\<lparr>tfedcount := tf c\<rparr> else cmem e c)\<rparr>"
  have c1: "core e1 = core e" "clients e1 = clients e" "conns e1 = conns e" "ports e1 = ports e" "true_graph e1 = true_graph e"
    by (auto simp: e1_def core_def fun_eq_iff true_graph_def)
  show ?thesis
  proof (cases stuck)
    case True
    have "jack_check_acyclic e = Value e1"
      by (simp add: jack_check_acyclic_def loop True e1_def Let_def)
    then show ?thesis using assms c1 res(2) [OF True] stuck_cycle [OF g d]
      by (auto simp: graph_inv_def keeps_links_def)
  next
    case False
    let ?e2 = "(fold (\<lambda>k e. reverse_connection e k) (visited_connections e1) e1)\<lparr>feedbackcount := 0\<rparr>"
    have v: "jack_check_acyclic e = Value ?e2"
      by (simp add: jack_check_acyclic_def loop False e1_def [symmetric] Let_def)
    obtain P where P: "taken e P tf" "card P = length (clients e)" using res(1) [OF False] by blast
    have acyc: "acyclic (true_graph e)" by (rule taken_all [OF g P d])
    have "P = set (clients e)"
      using P d by (intro card_subset_eq) (auto simp: taken_def distinct_card)
    then have "\<forall>c \<in> set (clients e). 0 \<le> fedcount (cmem e c)" using P(1) by (simp add: taken_def)
    then show ?thesis using v acyc turn_all_inv [of e1] g d c1 by (auto simp: keeps_links_def)
  qed
qed

end
