(* ===== verification/Graph_Connect.thy ===== *)
theory Graph_Connect
  imports Graph_Acyclic
begin

text \<open>
  Connecting and disconnecting ports (\<open>server/engine.c\<close>) against an abstract graph of ports: the
  set of linked pairs. Every request returns, keeps the invariant, and changes the set of links
  as it should; failed requests change nothing.
\<close>

section \<open>The abstract graph of ports\<close>

definition ends :: "jack_engine_t \<Rightarrow> kptr \<Rightarrow> pidx \<times> pidx" where
  "ends e k = (source (conns e k), destination (conns e k))"

definition links :: "jack_engine_t \<Rightarrow> (pidx \<times> pidx) set" where
  "links e = ends e ` live (core e)"

lemma links_core: "core e' = core e \<Longrightarrow> links e' = links e"
  by (simp add: links_def ends_def) (metis core_simps(4))

lemma live_keeps: "map port_core (ports e') = map port_core (ports e) \<Longrightarrow> live (core e') = live (core e)"
  by (simp add: live_def)

lemma links_keeps: "keeps_links e e' \<Longrightarrow> links e' = links e"
  using live_keeps [of e' e] by (simp add: keeps_links_def links_def ends_def)

section \<open>Lookups\<close>

lemma port_search_Some:
  "port_search ps i name = Some p \<Longrightarrow>
   i \<le> p \<and> p - i < length ps \<and> in_use (ps ! (p - i)) \<and> jack_port_name_equals (ps ! (p - i)) name"
proof (induction ps i name rule: port_search.induct)
  case (2 q ps i name)
  show ?case
  proof (cases "in_use q \<and> jack_port_name_equals q name")
    case False
    then have "port_search ps (Suc i) name = Some p" using 2(2) by auto
    then show ?thesis using 2(1) [OF False] by (auto simp: nth_Cons' Suc_diff_le)
  qed (use 2 in auto)
qed simp

lemma by_name_Some:
  "jack_get_port_by_name e name = Some p \<Longrightarrow> p < length (ports e) \<and> in_use (ports e ! p)"
  using port_search_Some [of "ports e" 0 name p] by (simp add: jack_get_port_by_name_def)

lemma by_id_unique:
  assumes "inj_on (\<lambda>c. cl_id (cmem e c)) (set (clients e))" "c \<in> set (clients e)" "cl_id (cmem e c) = i"
  shows "jack_client_internal_by_id e i = Some c"
proof (cases "jack_client_internal_by_id e i")
  case None
  then show ?thesis using assms by (auto simp: jack_client_internal_by_id_def client_search_None)
next
  case (Some d)
  then show ?thesis using by_id_Some [OF Some] assms by (auto dest: inj_onD)
qed

section \<open>Connecting\<close>

lemma port_core_connections [simp]: "port_core (r\<lparr>connections := x\<rparr>) = (port_core r)\<lparr>gp_conns := x\<rparr>"
  by (simp add: port_core_def)

lemma core_link:
  "source con < length (ports e) \<Longrightarrow> destination con < length (ports e) \<Longrightarrow>
   core (link_ports e con) = g_link con (core e)"
  by (cases "source con = destination con")
    (simp_all add: link_ports_def g_link_def Let_def core_def upd_port_def jack_slist_prepend_def map_update)

lemma clients_link [simp]: "clients (link_ports e con) = clients e"
  by (simp add: link_ports_def Let_def upd_port_def)

lemma feeds_same_sort:
  "sortfeeds_of e' = sortfeeds_of e \<Longrightarrow> clients e' = clients e \<Longrightarrow>
   jack_client_feeds_transitive e' a b = jack_client_feeds_transitive e a b"
  by (simp add: jack_client_feeds_transitive_def)

lemma feed_true_sort [simp]:
  "sortfeeds_of (feed_true a b e) = sortfeeds_of e" "clients (feed_true a b e) = clients e"
  "is_driver (feed_true a b e) c = is_driver e c"
  by (auto simp: feed_true_def upd_client_def sortfeeds_of_def is_driver_def fun_eq_iff)

lemma feed_clients_core:
  assumes inv: "graph_inv e" and ab: "a \<in> set (clients e)" "b \<in> set (clients e)"
  shows "\<exists>e1 d. feed_clients e a b = Value (e1, d) \<and> clients e1 = clients e \<and> ports e1 = ports e \<and>
    d = (if is_driver e b then 1 else if a = b then 0 else if (b, a) \<in> (must_precede e)\<^sup>+ then -1 else 1) \<and>
    (\<forall>con. srcclient con = a \<longrightarrow> dstclient con = b \<longrightarrow> dir con = d \<longrightarrow> core e1 = g_feed con (core e))"
proof -
  have t: "jack_client_feeds_transitive (feed_true a b e) b a = Some ((b, a) \<in> (must_precede e)\<^sup>+)"
    using feeds_same_sort [of "feed_true a b e" e] feeds_transitive_closure [OF inv ab(2)] by simp
  show ?thesis
    using t by (auto simp: feed_clients_def Let_def g_feed_def true_edge_def is_driver_def core_def feed_sort_def
        feed_true_def upd_client_def jack_slist_prepend_def fun_eq_iff)
qed

lemma connect_checks_Inr:
  assumes "connect_checks e s d = Inr (src, dst, sc, dc)"
  shows "jack_get_port_by_name e s = Some src" "jack_get_port_by_name e d = Some dst"
    "flag_set (p_flags (ports e ! src)) JackPortIsOutput" "flag_set (p_flags (ports e ! dst)) JackPortIsInput"
    "ptype_id (ports e ! src) = ptype_id (ports e ! dst)"
    "jack_client_internal_by_id e (p_client_id (ports e ! src)) = Some sc"
    "jack_client_internal_by_id e (p_client_id (ports e ! dst)) = Some dc"
    "active (cmem e sc)" "active (cmem e dc)"
    "\<And>k. k \<in> set (connections (ports e ! src)) \<Longrightarrow> destination (conns e k) \<noteq> dst"
    "connections (ports e ! dst) = [] \<or> has_mixdown (ports e ! dst)"
  using assms unfolding connect_checks_def by (auto split: option.splits if_splits)


lemma graph_inv_acyclic: "graph_inv e \<Longrightarrow> acyclic (must_precede e)"
  by (simp add: graph_inv_def ginv_def must_precede_core)

lemma connect_link_ok:
  assumes inv: "graph_inv e" and chk: "connect_checks e s d = Inr (src, dst, sc, dc)"
    and dirs: "v = (if is_driver e dc then 1 else if sc = dc then 0 else if (dc, sc) \<in> (must_precede e)\<^sup>+ then -1 else 1)"
  shows "link_ok (core e) \<lparr>source = src, destination = dst, srcclient = sc, dstclient = dc, dir = v\<rparr>"
proof -
  note c = connect_checks_Inr [OF chk]
  have p: "src < length (ports e)" "dst < length (ports e)" "in_use (ports e ! src)" "in_use (ports e ! dst)"
    using by_name_Some c(1,2) by auto
  have cl: "sc \<in> set (clients e)" "cl_id (cmem e sc) = p_client_id (ports e ! src)"
    "dc \<in> set (clients e)" "cl_id (cmem e dc) = p_client_id (ports e ! dst)"
    using by_id_Some [OF c(6)] by_id_Some [OF c(7)] by auto
  have ok: "ports_ok (core e)" using inv by (simp add: graph_inv_def ginv_def gbooks_def)
  have owned: "src \<in> set (cl_ports (cmem e sc))" "dst \<in> set (cl_ports (cmem e dc))"
    using ok p cl by (auto simp: ports_ok_def)
  have "src \<noteq> dst" using ok p c(3,4) by (auto simp: ports_ok_def)
  moreover have "(dc, sc) \<in> (must_precede e)\<^sup>+ \<Longrightarrow> \<not> is_driver e sc" by (rule feeds_not_driver [OF inv])
  ultimately show ?thesis
    using p cl owned dirs by (auto simp: link_ok_def true_edge_def is_driver_def)
qed

lemma links_link:
  assumes g: "gbooks (core e)" and ok: "link_ok (core e) con" and c: "core e' = g_link con (g_feed con (core e))"
  shows "links e' = insert (source con, destination con) (links e)"
    "feedbackcount e' = feedbackcount e + (if dir con = -1 then 1 else 0)"
proof -
  have "live (core e') = insert (next_kptr e) (live (core e))"
    using live_link [of "g_feed con (core e)" con] link_ok_frame [of "g_feed con (core e)" "core e" con] ok
    unfolding c by (simp add: live_def)
  moreover have cs: "conns e' = (conns e)(next_kptr e := con)"
    using arg_cong [OF c, of g_conns] by simp
  moreover have "ends e' ` live (core e) = ends e ` live (core e)"
    using live_fresh [OF g] cs by (intro image_cong) (auto simp: ends_def)
  ultimately show "links e' = insert (source con, destination con) (links e)"
    by (simp add: links_def) (simp add: ends_def)
  have "feedbackcount e' = g_feedback (g_feed con (core e))" using arg_cong [OF c, of g_feedback] by simp
  then show "feedbackcount e' = feedbackcount e + (if dir con = -1 then 1 else 0)"
    using g_feed_feedback [of con "core e"] ok by (auto simp: link_ok_def Let_def split: if_splits)
qed

lemma client_sort_core:
  assumes "core e' = core e" "length (clients e') = length (clients e)"
  shows "jack_client_sort e' = jack_client_sort e"
proof -
  have "sortfeeds_of e' = sortfeeds_of e"
    using arg_cong [OF assms(1), of g_sort] by (simp add: core_def sortfeeds_of_def fun_eq_iff)
  moreover have "is_driver e' = is_driver e"
    using arg_cong [OF assms(1), of g_type] by (simp add: core_def is_driver_def fun_eq_iff)
  ultimately show ?thesis
    using assms(2) by (intro ext) (simp only: jack_client_sort_def jack_client_feeds_transitive_def)
qed

text \<open>A request that passes the checks links the two ports and nothing else.\<close>

lemma connect_Value:
  assumes inv: "graph_inv e" and chk: "connect_checks e s d = Inr (src, dst, sc, dc)"
  shows "\<exists>e'. jack_port_do_connect e s d = Value (e', 0) \<and> graph_inv e' \<and>
    links e' = insert (src, dst) (links e) \<and> mset (clients e') = mset (clients e) \<and>
    feedbackcount e' = feedbackcount e +
      (if \<not> is_driver e dc \<and> sc \<noteq> dc \<and> (dc, sc) \<in> (must_precede e)\<^sup>+ then 1 else 0) \<and>
    (\<exists>con. core e' = g_link con (g_feed con (core e)) \<and> link_ok (core e) con \<and>
       source con = src \<and> destination con = dst \<and> srcclient con = sc \<and> dstclient con = dc \<and>
       dir con = (if is_driver e dc then 1 else if sc = dc then 0 else if (dc, sc) \<in> (must_precede e)\<^sup>+ then -1 else 1)) \<and>
    jack_slist_sort (jack_client_sort e') (clients e) = Some (clients e')"
proof -
  note c = connect_checks_Inr [OF chk]
  have cl: "sc \<in> set (clients e)" "dc \<in> set (clients e)" using by_id_Some c(6,7) by auto
  obtain e1 v where f: "feed_clients e sc dc = Value (e1, v)" "clients e1 = clients e" "ports e1 = ports e"
      "v = (if is_driver e dc then 1 else if sc = dc then 0 else if (dc, sc) \<in> (must_precede e)\<^sup>+ then -1 else 1)"
    and fc: "\<And>con. srcclient con = sc \<Longrightarrow> dstclient con = dc \<Longrightarrow> dir con = v \<Longrightarrow> core e1 = g_feed con (core e)"
    using feed_clients_core [OF inv cl] by blast
  define con where "con = \<lparr>source = src, destination = dst, srcclient = sc, dstclient = dc, dir = v\<rparr>"
  have ok: "link_ok (core e) con" unfolding con_def by (rule connect_link_ok [OF inv chk f(4)])
  let ?e2 = "link_ports e1 con"
  have g: "ginv (core e)" "gbooks (core e)" "distinct (clients e)" using inv by (auto simp: graph_inv_def ginv_def)
  have c1: "core e1 = g_feed con (core e)" by (rule fc) (simp_all add: con_def)
  have c2: "core ?e2 = g_link con (g_feed con (core e))"
    using core_link [of con e1] ok f(3) c1 by (simp add: link_ok_def con_def)
  have "ginv (core ?e2)" unfolding c2
  proof (rule ginv_link [OF g(1) ok])
    fix k assume "k \<in> live (core e)"
    then have "k \<in> set (connections (ports e ! source (conns e k)))"
      using g(2) by (auto simp: gbooks_def conn_ok_def link_ok_def Let_def)
    then show "\<not> (source (g_conns (core e) k) = source con \<and> destination (g_conns (core e) k) = destination con)"
      using c(10) by (auto simp: con_def)
  next
    fix a b assume ab: "sort_edge (g_type (core e)) con = Some (a, b)"
    have "(dc, sc) \<in> (must_precede e)\<^sup>+ \<Longrightarrow> (sc, dc) \<notin> (must_precede e)\<^sup>+"
      using graph_inv_acyclic [OF inv] by (auto simp: acyclic_def dest: trancl_trans)
    then show "(b, a) \<notin> (edges_on (g_clients (core e)) (g_sort (core e)))\<^sup>+"
      using ab f(4) unfolding must_precede_core [symmetric]
      by (auto simp: sort_edge_Some true_edge_Some con_def is_driver_def split: if_splits)
  qed
  then have i2: "graph_inv ?e2" using g(3) f(2) by (simp add: graph_inv_def)
  let ?e3 = "notify_connection ?e2 src dst True"
  have s: "same_graph ?e2 ?e3" by (intro graph_frame same_graph_refl)
  obtain e4 where e4: "jack_sort_graph ?e3 = Value e4" "core e4 = core ?e3" "mset (clients e4) = mset (clients ?e3)"
      "jack_slist_sort (jack_client_sort ?e3) (clients ?e3) = Some (clients e4)"
    using sort_graph_Value [of ?e3] same_graph_inv [OF s] i2 by blast
  have i4: "graph_inv e4" using sort_graph_inv [of ?e3] same_graph_inv [OF s] i2 e4(1) by auto
  have c4: "core e4 = g_link con (g_feed con (core e))" using s e4(2) c2 by (simp add: same_graph_def)
  have "jack_port_do_connect e s d = Value (e4, 0)"
    using chk f(1) e4(1) by (simp add: jack_port_do_connect_def con_def)
  moreover have "mset (clients e4) = mset (clients e)" using e4(3) s f(2) by (simp add: same_graph_def)
  moreover have "jack_client_sort e4 = jack_client_sort ?e3"
    by (rule client_sort_core [OF e4(2)]) (metis e4(3) size_mset)
  then have "jack_slist_sort (jack_client_sort e4) (clients e) = Some (clients e4)"
    using e4(4) s f(2) by (simp add: same_graph_def)
  moreover have "\<exists>con. core e4 = g_link con (g_feed con (core e)) \<and> link_ok (core e) con \<and>
       source con = src \<and> destination con = dst \<and> srcclient con = sc \<and> dstclient con = dc \<and>
       dir con = (if is_driver e dc then 1 else if sc = dc then 0 else if (dc, sc) \<in> (must_precede e)\<^sup>+ then -1 else 1)"
    using c4 ok f(4) by (intro exI [of _ con]) (simp add: con_def)
  moreover have "feedbackcount e4 = feedbackcount e +
      (if \<not> is_driver e dc \<and> sc \<noteq> dc \<and> (dc, sc) \<in> (must_precede e)\<^sup>+ then 1 else 0)"
    using links_link(2) [OF g(2) ok c4] f(4) by (simp add: con_def)
  moreover have "links e4 = insert (src, dst) (links e)" using links_link(1) [OF g(2) ok c4] by (simp add: con_def)
  ultimately show ?thesis using i4 by blast
qed


section \<open>Disconnecting\<close>

lemma find_connection_Some:
  "find_connection e src dst = Some k \<Longrightarrow>
   k \<in> set (connections (ports e ! src)) \<and> source (conns e k) = src \<and> destination (conns e k) = dst"
  by (auto simp: find_connection_def find_Some_iff)

lemma find_connection_links:
  assumes inv: "graph_inv e" and src: "src < length (ports e)"
  shows "(find_connection e src dst \<noteq> None) = ((src, dst) \<in> links e)"
proof -
  have "k \<in> set (connections (ports e ! src)) \<longleftrightarrow> k \<in> live (core e)" if "source (conns e k) = src" for k
  proof
    assume "k \<in> live (core e)"
    then have "conn_ok (core e) k" using inv by (simp add: graph_inv_def ginv_def gbooks_def)
    then show "k \<in> set (connections (ports e ! src))" using that src by (simp add: conn_ok_def)
  qed (use src in \<open>auto simp: live_nth\<close>)
  then show ?thesis by (auto simp: find_connection_def find_None_iff links_def ends_def)
qed

lemma core_unlink:
  assumes "source (conns e k) = src" "destination (conns e k) = dst" "src < length (ports e)" "dst < length (ports e)"
  shows "core (unlink_ports e src dst k) = g_unlink k (core e)" "clients (unlink_ports e src dst k) = clients e"
proof -
  let ?e1 = "upd_port src (\<lambda>r. r\<lparr>connections := jack_slist_remove (connections r) k\<rparr>) e"
  let ?e2 = "upd_port dst (\<lambda>r. r\<lparr>connections := jack_slist_remove (connections r) k\<rparr>) ?e1"
  have "same_graph ?e2 (unlink_ports e src dst k)"
    unfolding unlink_ports_def Let_def
    by (intro same_graph_if same_graph_upd_port same_graph_refl) (simp add: port_core_def)
  moreover have "core ?e2 = g_unlink k (core e)"
    using assms by (cases "src = dst") (auto simp: g_unlink_def Let_def core_def upd_port_def map_update)
  moreover have "clients ?e2 = clients e" by (simp add: upd_port_def)
  ultimately show "core (unlink_ports e src dst k) = g_unlink k (core e)" "clients (unlink_ports e src dst k) = clients e"
    by (simp_all add: same_graph_def)
qed

lemma core_unfeed:
  assumes "jack_client_internal_by_id e (p_client_id (ports e ! src)) = Some (srcclient con)"
    "jack_client_internal_by_id e (p_client_id (ports e ! dst)) = Some (dstclient con)"
  shows "\<exists>e'. unfeed_clients e src dst (dir con) = Value e' \<and> core e' = g_unfeed con (core e) \<and> clients e' = clients e"
  using assms
  by (auto simp: unfeed_clients_def g_unfeed_def Let_def core_def upd_client_def fun_eq_iff)

lemma by_id_core:
  assumes "core e' = g_unlink k (core e)" "graph_inv e" "clients e' = clients e"
    "c \<in> set (clients e)" "p < length (ports e)" "p_client_id (ports e ! p) = cl_id (cmem e c)" "k \<in> live (core e)"
  shows "jack_client_internal_by_id e' (p_client_id (ports e' ! p)) = Some c"
proof (rule by_id_unique)
  have g: "gbooks (core e)" using assms(2) by (simp add: graph_inv_def ginv_def)
  have i: "g_id (core e') = g_id (core e)" using assms(1) by auto
  then have id: "cl_id (cmem e' x) = cl_id (cmem e x)" for x by (metis core_simps(11))
  show "inj_on (\<lambda>c. cl_id (cmem e' c)) (set (clients e'))"
    using g assms(3) by (simp add: gbooks_def id) (simp add: inj_on_def)
  show "c \<in> set (clients e')" using assms by simp
  have l: "length (ports e') = length (ports e)"
    using assms(1) by (metis core_simps(3) g_unlink_frame(12) length_map)
  have "gp_owner (g_ports (core e') ! p) = gp_owner (g_ports (core e) ! p)"
    unfolding assms(1) using g_unlink_port [OF g assms(7), of p] assms(5) by simp
  then show "cl_id (cmem e' c) = p_client_id (ports e' ! p)" using assms(5,6) id l by simp
qed

text \<open>Breaking the connection that was found.\<close>

lemma break_Value:
  assumes inv: "graph_inv e" and k: "find_connection e src dst = Some k" "src < length (ports e)"
  shows "\<exists>e'. break_connection e src dst = Value (e', 0) \<and>
    core e' = g_unfeed (conns e k) (g_unlink k (core e)) \<and> clients e' = clients e \<and> k \<in> live (core e)"
proof -
  have sd: "k \<in> set (connections (ports e ! src))" "source (conns e k) = src" "destination (conns e k) = dst"
    using find_connection_Some [OF k(1)] by auto
  have live: "k \<in> live (core e)" using sd(1) k(2) by (auto simp: live_nth)
  then have ok: "link_ok (core e) (conns e k)"
    using inv by (auto simp: graph_inv_def ginv_def gbooks_def conn_ok_def)
  have dl: "dst < length (ports e)" using ok sd by (simp add: link_ok_def Let_def)
  let ?e1 = "unlink_ports e src dst k" and ?con = "conns e k"
  let ?e2 = "notify_connection ?e1 src dst False"
  note u = core_unlink [OF sd(2,3) k(2) dl]
  have s: "same_graph ?e1 ?e2" by (intro graph_frame same_graph_refl)
  have c2: "core ?e2 = g_unlink k (core e)" "clients ?e2 = clients e" using s u by (simp_all add: same_graph_def)
  have cl: "srcclient ?con \<in> set (clients e)" "dstclient ?con \<in> set (clients e)"
    "p_client_id (ports e ! src) = cl_id (cmem e (srcclient ?con))"
    "p_client_id (ports e ! dst) = cl_id (cmem e (dstclient ?con))"
    using ok sd by (auto simp: link_ok_def Let_def)
  obtain e3 where "unfeed_clients ?e2 src dst (dir ?con) = Value e3" "core e3 = g_unfeed ?con (core ?e2)" "clients e3 = clients ?e2"
    using core_unfeed [OF by_id_core [OF c2(1) inv c2(2) cl(1) k(2) cl(3) live]
        by_id_core [OF c2(1) inv c2(2) cl(2) dl cl(4) live]] by blast
  then show ?thesis using k(1) c2 live by (simp add: break_connection_def Let_def)
qed

lemma links_unlink:
  assumes g: "gbooks (core e)" and k: "k \<in> live (core e)" and c: "core e' = g_unfeed (conns e k) (g_unlink k (core e))"
  shows "links e' = links e - {ends e k}"
    "feedbackcount e' = feedbackcount e - (if dir (conns e k) = -1 then 1 else 0)"
proof -
  have l: "live (core e') = live (core e) - {k}" using live_unlink [OF g k] unfolding c by (simp add: live_def)
  have cs: "conns e' = conns e" using arg_cong [OF c, of g_conns] by simp
  have single: "ends e j = ends e k \<Longrightarrow> j \<in> live (core e) \<Longrightarrow> j = k" for j
    using g k by (auto simp: gbooks_def single_connections_def ends_def)
  then show "links e' = links e - {ends e k}" using k l cs by (auto simp: links_def ends_def)
  have "link_ok (core e) (conns e k)" using g k by (auto simp: gbooks_def conn_ok_def)
  then show "feedbackcount e' = feedbackcount e - (if dir (conns e k) = -1 then 1 else 0)"
    using arg_cong [OF c, of g_feedback] by (auto simp: g_unfeed_def Let_def link_ok_def split: if_splits)
qed


lemma core_ends: "core e' = core e \<Longrightarrow> ends e' = ends e \<and> length (ports e') = length (ports e)"
  by (metis (no_types, lifting) core_simps(3) core_simps(4) ends_def ext length_map)

lemma break_inv:
  assumes inv: "graph_inv e" and src: "src < length (ports e)"
  shows "\<exists>e' r. break_connection e src dst = Value (e', r) \<and> graph_inv e' \<and> clients e' = clients e \<and>
    r = (if (src, dst) \<in> links e then 0 else -1) \<and> links e' = links e - {(src, dst)} \<and>
    ends e' = ends e \<and> length (ports e') = length (ports e) \<and>
    (\<forall>k. find_connection e src dst = Some k \<longrightarrow> g_fed (core e') = g_fed (g_unfeed (conns e k) (core e)))"
proof (cases "find_connection e src dst")
  case None
  then have "(src, dst) \<notin> links e" using find_connection_links [OF inv src, of dst] by simp
  then show ?thesis using None inv by (simp add: break_connection_def)
next
  case (Some k)
  obtain e1 where e1: "break_connection e src dst = Value (e1, 0)"
    "core e1 = g_unfeed (conns e k) (g_unlink k (core e))" "clients e1 = clients e" "k \<in> live (core e)"
    using break_Value [OF inv Some src] by blast
  have g: "ginv (core e)" "gbooks (core e)" using inv by (simp_all add: graph_inv_def ginv_def)
  have "graph_inv e1" using ginv_unlink [OF g(1) e1(4)] e1(2,3) inv by (simp add: graph_inv_def)
  moreover have "ends e k = (src, dst)" using find_connection_Some [OF Some] by (simp add: ends_def)
  moreover have "(src, dst) \<in> links e" using find_connection_links [OF inv src, of dst] Some by simp
  moreover have "ends e1 = ends e" using arg_cong [OF e1(2), of g_conns] by (simp add: ends_def fun_eq_iff)
  moreover have "length (ports e1) = length (ports e)"
    using arg_cong [OF e1(2), of "\<lambda>g. length (g_ports g)"] by simp
  moreover have "g_fed (core e1) = g_fed (g_unfeed (conns e k) (core e))"
    unfolding e1(2) by (simp add: g_unfeed_def Let_def)
  ultimately show ?thesis using e1 links_unlink(1) [OF g(2) e1(4,2)] Some by auto
qed

text \<open>
  A disconnection returns, keeps the invariant and removes exactly the one link; when there is
  no such link it reports an error.
\<close>

lemma disconnect_Value:
  assumes inv: "graph_inv e" and src: "src < length (ports e)"
  shows "\<exists>e' r. jack_port_disconnect_internal e src dst = Value (e', r) \<and> graph_inv e' \<and>
    mset (clients e') = mset (clients e) \<and> r = (if (src, dst) \<in> links e then 0 else -1) \<and>
    links e' = links e - {(src, dst)} \<and> ends e' = ends e \<and> length (ports e') = length (ports e) \<and>
    (\<forall>k. find_connection e src dst = Some k \<longrightarrow> g_fed (core e') = g_fed (g_unfeed (conns e k) (core e)))"
proof -
  obtain e1 r where e1: "break_connection e src dst = Value (e1, r)" "graph_inv e1" "clients e1 = clients e"
    "r = (if (src, dst) \<in> links e then 0 else -1)" "links e1 = links e - {(src, dst)}"
    "ends e1 = ends e" "length (ports e1) = length (ports e)"
    and fed: "\<forall>k. find_connection e src dst = Some k \<longrightarrow> g_fed (core e1) = g_fed (g_unfeed (conns e k) (core e))"
    using break_inv [OF inv src] by blast
  have "\<exists>e2. (if feedbackcount e \<noteq> 0 then jack_check_acyclic e1 else Value e1) = Value e2 \<and> graph_inv e2 \<and>
      clients e2 = clients e1 \<and> keeps_links e1 e2 \<and> g_fed (core e2) = g_fed (core e1)"
    using check_acyclic_cases [OF e1(2)] e1(2) by (auto simp: keeps_links_def)
  then obtain e2 where e2: "(if feedbackcount e \<noteq> 0 then jack_check_acyclic e1 else Value e1) = Value e2"
    "graph_inv e2" "clients e2 = clients e1" "keeps_links e1 e2" "g_fed (core e2) = g_fed (core e1)" by blast
  have k2: "links e2 = links e1" "ends e2 = ends e1" "length (ports e2) = length (ports e1)"
    using e2(4) links_keeps by (auto simp: keeps_links_def ends_def fun_eq_iff dest: map_eq_imp_length_eq)
  obtain e3 where e3: "jack_sort_graph e2 = Value e3" "core e3 = core e2" "mset (clients e3) = mset (clients e2)"
    using sort_graph_Value [OF e2(2)] by blast
  have "graph_inv e3" using sort_graph_inv [OF e2(2)] e3(1) by auto
  moreover have "jack_port_disconnect_internal e src dst = Value (e3, r)"
    using e1(1) e2(1) e3(1) by (simp add: jack_port_disconnect_internal_def)
  moreover have "\<forall>k. find_connection e src dst = Some k \<longrightarrow> g_fed (core e3) = g_fed (g_unfeed (conns e k) (core e))"
    using fed e2(5) e3(2) by simp
  ultimately show ?thesis using e1 e2(3) e3 k2 core_ends [OF e3(2)] links_core [OF e3(2)] by auto
qed

section \<open>Clearing a port\<close>

lemma clear_each_Value:
  "graph_inv e \<Longrightarrow> (\<And>k. k \<in> set ks \<Longrightarrow> source (conns e k) < length (ports e)) \<Longrightarrow>
   \<exists>e'. clear_each e ks = Value e' \<and> graph_inv e' \<and> mset (clients e') = mset (clients e) \<and>
     links e' = links e - ends e ` set ks \<and> ends e' = ends e \<and> length (ports e') = length (ports e)"
proof (induction ks arbitrary: e)
  case Nil
  then show ?case by simp
next
  case (Cons k ks)
  have src: "source (conns e k) < length (ports e)" using Cons.prems(2) by simp
  obtain e1 r where e1: "jack_port_disconnect_internal e (source (conns e k)) (destination (conns e k)) = Value (e1, r)"
    "graph_inv e1" "mset (clients e1) = mset (clients e)" "links e1 = links e - {ends e k}"
    "ends e1 = ends e" "length (ports e1) = length (ports e)"
    using disconnect_Value [OF Cons.prems(1) src, of "destination (conns e k)"] by (auto simp: ends_def)
  have "source (conns e1 j) = source (conns e j)" for j
    using fun_cong [OF e1(5), of j] by (simp add: ends_def)
  then obtain e2 where "clear_each e1 ks = Value e2" "graph_inv e2" "mset (clients e2) = mset (clients e1)"
    "links e2 = links e1 - ends e1 ` set ks" "ends e2 = ends e1" "length (ports e2) = length (ports e1)"
    using Cons.IH [OF e1(2)] Cons.prems(2) e1(6) by auto
  then show ?case using e1 by auto
qed

definition at_port :: "pidx \<Rightarrow> (pidx \<times> pidx) set" where
  "at_port p = {(a, b). a = p \<or> b = p}"

lemma ends_at_port:
  assumes inv: "graph_inv e" and p: "p < length (ports e)"
  shows "ends e ` set (connections (ports e ! p)) = links e \<inter> at_port p"
proof -
  have g: "gbooks (core e)" using inv by (simp add: graph_inv_def ginv_def)
  have "k \<in> set (connections (ports e ! p)) \<longleftrightarrow> k \<in> live (core e) \<and> ends e k \<in> at_port p" for k
  proof
    assume k: "k \<in> set (connections (ports e ! p))"
    then show "k \<in> live (core e) \<and> ends e k \<in> at_port p"
      using g p by (auto simp: gbooks_def ports_ok_def live_nth ends_def at_port_def)
  next
    assume k: "k \<in> live (core e) \<and> ends e k \<in> at_port p"
    then have "conn_ok (core e) k" using g by (simp add: gbooks_def)
    then show "k \<in> set (connections (ports e ! p))"
      using k p by (auto simp: conn_ok_def ends_def at_port_def)
  qed
  then show ?thesis by (auto simp: links_def)
qed

lemma clear_connections_Value:
  assumes inv: "graph_inv e" and p: "p < length (ports e)"
  shows "\<exists>e'. jack_port_clear_connections e p = Value e' \<and> graph_inv e' \<and> mset (clients e') = mset (clients e) \<and>
    links e' = links e - at_port p \<and> connections (ports e' ! p) = [] \<and> length (ports e') = length (ports e)"
proof -
  have "source (conns e k) < length (ports e)" if "k \<in> set (connections (ports e ! p))" for k
  proof -
    have "k \<in> live (core e)" using that p by (auto simp: live_nth)
    then have "conn_ok (core e) k" using inv by (simp add: graph_inv_def ginv_def gbooks_def)
    then show ?thesis by (simp add: conn_ok_def link_ok_def Let_def)
  qed
  from clear_each_Value [OF inv this] obtain e1 where
    e1: "clear_each e (connections (ports e ! p)) = Value e1" "graph_inv e1" "mset (clients e1) = mset (clients e)"
      "links e1 = links e - ends e ` set (connections (ports e ! p))" "ends e1 = ends e" "length (ports e1) = length (ports e)"
    by blast
  have l: "links e1 = links e - at_port p" using e1(4) ends_at_port [OF inv p] by auto
  then have "ends e1 ` set (connections (ports e1 ! p)) = {}" using ends_at_port [OF e1(2), of p] p e1(6) by auto
  then have none: "connections (ports e1 ! p) = []" by simp
  then have "(ports e1 ! p)\<lparr>connections := []\<rparr> = ports e1 ! p" by (metis jack_port_t.surjective jack_port_t.update_convs(13))
  then have "upd_port p (\<lambda>r. r\<lparr>connections := []\<rparr>) e1 = e1" by (simp add: upd_port_def)
  then show ?thesis using e1 l none by (simp add: jack_port_clear_connections_def)
qed


lemma links_bounds:
  assumes "graph_inv e" "(a, b) \<in> links e"
  shows "a < length (ports e)" "b < length (ports e)" "a \<noteq> b"
proof -
  obtain k where k: "k \<in> live (core e)" "source (conns e k) = a" "destination (conns e k) = b"
    using assms(2) by (auto simp: links_def ends_def)
  then have "link_ok (core e) (conns e k)" using assms(1) by (auto simp: graph_inv_def ginv_def gbooks_def conn_ok_def)
  then show "a < length (ports e)" "b < length (ports e)" "a \<noteq> b" using k by (auto simp: link_ok_def Let_def)
qed

end
