(* ===== verification/Graph_Frame.thy ===== *)
theory Graph_Frame
  imports Graph_Connect
begin

text \<open>
  What the graph operations leave alone. \<open>aside e\<close> is the engine state with everything the graph
  code may write blanked out: the feeds lists and counters, the execution chain, the connection
  lists, latencies, the error counts of clients that are alive, and the record of delivered events. Two states that agree on it
  agree on names, identifiers, buffers, transport state and the flags of the clients.
\<close>

section \<open>The state aside from the graph\<close>

definition client_aside :: "jack_client_internal_t \<Rightarrow> jack_client_internal_t" where
  "client_aside r = r\<lparr>truefeeds := [], sortfeeds := [], fedcount := 0, tfedcount := 0, execution_order := 0,
     next_client := None, cl_error := (if dead r then cl_error r else 0), subgraph_start_fd := 0, subgraph_wait_fd := 0\<rparr>"

definition port_aside :: "jack_port_t \<Rightarrow> jack_port_t" where
  "port_aside r = r\<lparr>connections := [], total_latency := 0, monitor_requests := 0\<rparr>"

definition no_connection :: jack_connection_internal_t where
  "no_connection = \<lparr>source = 0, destination = 0, srcclient = 0, dstclient = 0, dir = 0\<rparr>"

definition aside :: "jack_engine_t \<Rightarrow> jack_engine_t" where
  "aside e = e\<lparr>clients := [], cmem := (\<lambda>c. client_aside (cmem e c)), ports := map port_aside (ports e),
     conns := (\<lambda>_. no_connection), next_kptr := 0, feedbackcount := 0, timeout_count := 0, problems := 0,
     io_pos := 0, trace := []\<rparr>"

definition kept :: "jack_engine_t \<Rightarrow> jack_engine_t \<Rightarrow> bool" where
  "kept e e' \<longleftrightarrow> aside e' = aside e"

lemma kept_refl [simp, intro]: "kept e e"
  by (simp add: kept_def)

lemma kept_trans: "kept a b \<Longrightarrow> kept b c \<Longrightarrow> kept a c"
  by (simp add: kept_def)

text \<open>Reading the rest of the state through \<open>kept\<close>.\<close>

lemma kept_client:
  assumes "kept e e'"
  shows "cl_id (cmem e' c) = cl_id (cmem e c)"
    "cl_uid (cmem e' c) = cl_uid (cmem e c)"
    "cl_name (cmem e' c) = cl_name (cmem e c)"
    "cl_type (cmem e' c) = cl_type (cmem e c)"
    "active (cmem e' c) = active (cmem e c)"
    "dead (cmem e' c) = dead (cmem e c)"
    "cl_ports (cmem e' c) = cl_ports (cmem e c)"
    "request_fd (cmem e' c) = request_fd (cmem e c)"
    "is_timebase (cmem e' c) = is_timebase (cmem e c)"
    "timebase_new (cmem e' c) = timebase_new (cmem e c)"
    "is_slowsync (cmem e' c) = is_slowsync (cmem e c)"
    "active_slowsync (cmem e' c) = active_slowsync (cmem e c)"
    "sync_poll (cmem e' c) = sync_poll (cmem e c)"
    "sync_new (cmem e' c) = sync_new (cmem e c)"
    "session_reply_pending (cmem e' c) = session_reply_pending (cmem e c)"
proof -
  have a: "client_aside (cmem e' c) = client_aside (cmem e c)"
    using arg_cong [OF assms [unfolded kept_def], of "\<lambda>x. cmem x c"] by (simp add: aside_def)
  show "cl_id (cmem e' c) = cl_id (cmem e c)" using arg_cong [OF a, of cl_id] by (simp add: client_aside_def)
  show "cl_uid (cmem e' c) = cl_uid (cmem e c)" using arg_cong [OF a, of cl_uid] by (simp add: client_aside_def)
  show "cl_name (cmem e' c) = cl_name (cmem e c)" using arg_cong [OF a, of cl_name] by (simp add: client_aside_def)
  show "cl_type (cmem e' c) = cl_type (cmem e c)" using arg_cong [OF a, of cl_type] by (simp add: client_aside_def)
  show "active (cmem e' c) = active (cmem e c)" using arg_cong [OF a, of active] by (simp add: client_aside_def)
  show "dead (cmem e' c) = dead (cmem e c)" using arg_cong [OF a, of dead] by (simp add: client_aside_def)
  show "cl_ports (cmem e' c) = cl_ports (cmem e c)" using arg_cong [OF a, of cl_ports] by (simp add: client_aside_def)
  show "request_fd (cmem e' c) = request_fd (cmem e c)" using arg_cong [OF a, of request_fd] by (simp add: client_aside_def)
  show "is_timebase (cmem e' c) = is_timebase (cmem e c)" using arg_cong [OF a, of is_timebase] by (simp add: client_aside_def)
  show "timebase_new (cmem e' c) = timebase_new (cmem e c)" using arg_cong [OF a, of timebase_new] by (simp add: client_aside_def)
  show "is_slowsync (cmem e' c) = is_slowsync (cmem e c)" using arg_cong [OF a, of is_slowsync] by (simp add: client_aside_def)
  show "active_slowsync (cmem e' c) = active_slowsync (cmem e c)" using arg_cong [OF a, of active_slowsync] by (simp add: client_aside_def)
  show "sync_poll (cmem e' c) = sync_poll (cmem e c)" using arg_cong [OF a, of sync_poll] by (simp add: client_aside_def)
  show "sync_new (cmem e' c) = sync_new (cmem e c)" using arg_cong [OF a, of sync_new] by (simp add: client_aside_def)
  show "session_reply_pending (cmem e' c) = session_reply_pending (cmem e c)" using arg_cong [OF a, of session_reply_pending] by (simp add: client_aside_def)
qed

lemma kept_dead_error:
  assumes "kept e e'" "dead (cmem e c)"
  shows "cl_error (cmem e' c) = cl_error (cmem e c)"
proof -
  have "client_aside (cmem e' c) = client_aside (cmem e c)"
    using arg_cong [OF assms(1) [unfolded kept_def], of "\<lambda>x. cmem x c"] by (simp add: aside_def)
  from arg_cong [OF this, of cl_error] show ?thesis using assms(2) kept_client(6) [OF assms(1), of c] by (simp add: client_aside_def)
qed

lemma kept_engine:
  assumes "kept e e'"
  shows "length (ports e') = length (ports e)"
    "control e' = control e"
    "freelist e' = freelist e"
    "buffer_infos e' = buffer_infos e"
    "buffer_offset e' = buffer_offset e"
    "port_segment e' = port_segment e"
    "timebase_client e' = timebase_client e"
    "driver_client e' = driver_client e"
    "next_client_id e' = next_client_id e"
    "next_cptr e' = next_cptr e"
    "reserved_client_names e' = reserved_client_names e"
    "external_client_cnt e' = external_client_cnt e"
    "nozombies e' = nozombies e"
    "freewheeling e' = freewheeling e"
    "temporary e' = temporary e"
    "new_clients_allowed e' = new_clients_allowed e"
    "session_pending_replies e' = session_pending_replies e"
proof -
  have a: "aside e' = aside e" using assms by (simp add: kept_def)
  show "length (ports e') = length (ports e)" using arg_cong [OF a, of "\<lambda>x. length (ports x)"] by (simp add: aside_def)
  show "control e' = control e" using arg_cong [OF a, of control] by (simp add: aside_def)
  show "freelist e' = freelist e" using arg_cong [OF a, of freelist] by (simp add: aside_def)
  show "buffer_infos e' = buffer_infos e" using arg_cong [OF a, of buffer_infos] by (simp add: aside_def)
  show "buffer_offset e' = buffer_offset e" using arg_cong [OF a, of buffer_offset] by (simp add: aside_def)
  show "port_segment e' = port_segment e" using arg_cong [OF a, of port_segment] by (simp add: aside_def)
  show "timebase_client e' = timebase_client e" using arg_cong [OF a, of timebase_client] by (simp add: aside_def)
  show "driver_client e' = driver_client e" using arg_cong [OF a, of driver_client] by (simp add: aside_def)
  show "next_client_id e' = next_client_id e" using arg_cong [OF a, of next_client_id] by (simp add: aside_def)
  show "next_cptr e' = next_cptr e" using arg_cong [OF a, of next_cptr] by (simp add: aside_def)
  show "reserved_client_names e' = reserved_client_names e" using arg_cong [OF a, of reserved_client_names] by (simp add: aside_def)
  show "external_client_cnt e' = external_client_cnt e" using arg_cong [OF a, of external_client_cnt] by (simp add: aside_def)
  show "nozombies e' = nozombies e" using arg_cong [OF a, of nozombies] by (simp add: aside_def)
  show "freewheeling e' = freewheeling e" using arg_cong [OF a, of freewheeling] by (simp add: aside_def)
  show "temporary e' = temporary e" using arg_cong [OF a, of temporary] by (simp add: aside_def)
  show "new_clients_allowed e' = new_clients_allowed e" using arg_cong [OF a, of new_clients_allowed] by (simp add: aside_def)
  show "session_pending_replies e' = session_pending_replies e" using arg_cong [OF a, of session_pending_replies] by (simp add: aside_def)
qed

lemma kept_port:
  assumes "kept e e'" "p < length (ports e)"
  shows "ptype_id (ports e' ! p) = ptype_id (ports e ! p)"
    "p_offset (ports e' ! p) = p_offset (ports e ! p)"
    "p_flags (ports e' ! p) = p_flags (ports e ! p)"
    "p_name (ports e' ! p) = p_name (ports e ! p)"
    "alias1 (ports e' ! p) = alias1 (ports e ! p)"
    "alias2 (ports e' ! p) = alias2 (ports e ! p)"
    "p_client_id (ports e' ! p) = p_client_id (ports e ! p)"
    "in_use (ports e' ! p) = in_use (ports e ! p)"
    "buffer_info (ports e' ! p) = buffer_info (ports e ! p)"
    "has_mixdown (ports e' ! p) = has_mixdown (ports e ! p)"
proof -
  have a: "port_aside (ports e' ! p) = port_aside (ports e ! p)"
    using arg_cong [OF assms(1) [unfolded kept_def], of "\<lambda>x. ports x ! p"] assms(2) kept_engine(1) [OF assms(1)]
    by (simp add: aside_def)
  show "ptype_id (ports e' ! p) = ptype_id (ports e ! p)" using arg_cong [OF a, of ptype_id] by (simp add: port_aside_def)
  show "p_offset (ports e' ! p) = p_offset (ports e ! p)" using arg_cong [OF a, of p_offset] by (simp add: port_aside_def)
  show "p_flags (ports e' ! p) = p_flags (ports e ! p)" using arg_cong [OF a, of p_flags] by (simp add: port_aside_def)
  show "p_name (ports e' ! p) = p_name (ports e ! p)" using arg_cong [OF a, of p_name] by (simp add: port_aside_def)
  show "alias1 (ports e' ! p) = alias1 (ports e ! p)" using arg_cong [OF a, of alias1] by (simp add: port_aside_def)
  show "alias2 (ports e' ! p) = alias2 (ports e ! p)" using arg_cong [OF a, of alias2] by (simp add: port_aside_def)
  show "p_client_id (ports e' ! p) = p_client_id (ports e ! p)" using arg_cong [OF a, of p_client_id] by (simp add: port_aside_def)
  show "in_use (ports e' ! p) = in_use (ports e ! p)" using arg_cong [OF a, of in_use] by (simp add: port_aside_def)
  show "buffer_info (ports e' ! p) = buffer_info (ports e ! p)" using arg_cong [OF a, of buffer_info] by (simp add: port_aside_def)
  show "has_mixdown (ports e' ! p) = has_mixdown (ports e ! p)" using arg_cong [OF a, of has_mixdown] by (simp add: port_aside_def)
qed

section \<open>Graph operations keep the rest\<close>

named_theorems kept_frame

lemma kept_upd_client:
  assumes "\<And>r. client_aside (f r) = client_aside r" "kept d e"
  shows "kept d (upd_client c f e)"
proof -
  have "(\<lambda>x. client_aside (cmem (upd_client c f e) x)) = (\<lambda>x. client_aside (cmem e x))"
    using assms(1) by (auto simp: upd_client_def)
  then show ?thesis using assms(2) by (simp add: kept_def aside_def upd_client_def)
qed

lemma kept_upd_port:
  assumes "\<And>r. port_aside (f r) = port_aside r" "kept d e"
  shows "kept d (upd_port p f e)"
proof -
  have "map port_aside ((ports e)[p := f (ports e ! p)]) = map port_aside (ports e)"
    using assms(1) by (metis list_update_id map_update)
  then show ?thesis using assms(2) by (simp add: kept_def aside_def upd_port_def)
qed

lemma kept_fields [kept_frame]:
  assumes "kept d e"
  shows "kept d (e\<lparr>clients := cs\<rparr>)" "kept d (e\<lparr>io_pos := n\<rparr>)" "kept d (e\<lparr>trace := t\<rparr>)" "kept d (e\<lparr>problems := x\<rparr>)"
    "kept d (e\<lparr>timeout_count := x\<rparr>)" "kept d (e\<lparr>feedbackcount := x\<rparr>)" "kept d (e\<lparr>conns := k, next_kptr := n\<rparr>)"
    "kept d (upd_conn j f e)"
  using assms by (simp_all add: kept_def aside_def upd_conn_def)

lemma kept_client_fields [kept_frame]:
  assumes "kept d e"
  shows "kept d (upd_client c (\<lambda>r. r\<lparr>truefeeds := g r\<rparr>) e)" "kept d (upd_client c (\<lambda>r. r\<lparr>sortfeeds := g r\<rparr>) e)"
    "kept d (upd_client c (\<lambda>r. r\<lparr>fedcount := h r\<rparr>) e)"
    "kept d (upd_client c (\<lambda>r. r\<lparr>execution_order := m, next_client := w\<rparr>) e)"
    "kept d (upd_client c (\<lambda>r. r\<lparr>subgraph_wait_fd := v\<rparr>) e)" "kept d (upd_client c (\<lambda>r. r\<lparr>subgraph_start_fd := v\<rparr>) e)"
  by (rule kept_upd_client [OF _ assms]; simp add: client_aside_def)+

lemma kept_port_fields [kept_frame]:
  assumes "kept d e"
  shows "kept d (upd_port p (\<lambda>r. r\<lparr>connections := g r\<rparr>) e)" "kept d (upd_port p (\<lambda>r. r\<lparr>total_latency := h r\<rparr>) e)"
    "kept d (upd_port p (\<lambda>r. r\<lparr>monitor_requests := m r\<rparr>) e)"
  by (rule kept_upd_port [OF _ assms]; simp add: port_aside_def)+

lemma kept_if [kept_frame]:
  "kept d x \<Longrightarrow> kept d y \<Longrightarrow> kept d (if b then x else y)"
  "kept d (fst u) \<Longrightarrow> kept d (fst v) \<Longrightarrow> kept d (fst (if b then u else v))"
  by simp_all

lemma kept_socket_error: "\<not> dead (cmem e c) \<Longrightarrow> kept d e \<Longrightarrow> kept d (client_socket_error c e)"
proof -
  assume a: "\<not> dead (cmem e c)" "kept d e"
  have "(\<lambda>x. client_aside (cmem (client_socket_error c e) x)) = (\<lambda>x. client_aside (cmem e x))"
    using a(1) by (auto simp: client_socket_error_def jack_engine_signal_problems_def upd_client_def client_aside_def)
  then show ?thesis
    using a(2) by (simp add: kept_def aside_def) (simp add: client_socket_error_def jack_engine_signal_problems_def upd_client_def)
qed

lemma socket_error_dead [simp]: "dead (cmem (client_socket_error c e) x) = dead (cmem e x)"
  by (simp add: client_socket_error_def jack_engine_signal_problems_def upd_client_def)

lemma kept_deliver [kept_frame]: "kept d e \<Longrightarrow> kept d (fst (jack_deliver_event e c ev))"
proof (cases "dead (cmem e c)")
  case True
  then show "kept d e \<Longrightarrow> ?thesis" by (simp add: jack_deliver_event_def Let_def kept_fields)
next
  case False
  then show "kept d e \<Longrightarrow> ?thesis"
    unfolding jack_deliver_event_def Let_def
    by (intro kept_if; simp only: fst_conv; intro kept_fields kept_if kept_socket_error; simp)
qed

lemma kept_deliver_each [kept_frame]: "kept d e \<Longrightarrow> kept d (deliver_each e cs ev)"
  by (induction e cs ev rule: deliver_each.induct) (auto intro: kept_frame)

lemma kept_notification [kept_frame]: "kept d e \<Longrightarrow> kept d (fst (jack_send_connection_notification e i a b con))"
  unfolding jack_send_connection_notification_def
  by (auto simp: case_prod_beta intro: kept_frame split: option.splits)

lemma kept_notify_connection [kept_frame]: "kept d e \<Longrightarrow> kept d (notify_connection e a b con)"
  unfolding notify_connection_def Let_def jack_notify_all_port_interested_clients_def by (intro kept_frame)

lemma kept_rechain_loop [kept_frame]: "kept d e \<Longrightarrow> kept d (fst (rechain_loop e cs n s))"
proof (induction cs arbitrary: e n s rule: length_induct)
  case (1 cs)
  have IH: "kept d e1 \<Longrightarrow> length ys < length cs \<Longrightarrow> kept d (fst (rechain_loop e1 ys n1 s1))" for ys e1 n1 s1
    using 1 by blast
  have "length (dropWhile P rest) < Suc (length rest)" for P and rest :: "cptr list"
    by (simp add: length_dropWhile_le less_Suc_eq_le)
  then show ?case
    using 1(2) by (cases cs) (auto simp: Let_def intro!: IH kept_frame split: option.splits)
qed

lemma kept_rechain [kept_frame]: "kept d e \<Longrightarrow> kept d (jack_rechain_graph e)"
  unfolding jack_rechain_graph_def
  by (auto simp: case_prod_beta Let_def intro!: kept_frame split: option.splits)

lemma kept_total_latencies [kept_frame]:
  assumes "kept d e"
  shows "kept d (jack_compute_all_port_total_latencies e)"
proof -
  have "kept d e1 \<Longrightarrow> kept d (fold (\<lambda>i e. jack_compute_port_total_latency e i) is e1)" for "is" e1
    by (induction "is" arbitrary: e1) (simp_all add: jack_compute_port_total_latency_def kept_frame)
  then show ?thesis using assms by (simp add: jack_compute_all_port_total_latencies_def)
qed

lemma kept_new_latency: "jack_compute_new_latency e = Value e' \<Longrightarrow> kept d e \<Longrightarrow> kept d e'"
  unfolding jack_compute_new_latency_def by (auto simp: Let_def intro!: kept_frame split: option.splits)

lemma c_bind_Value: "c_bind r f = Value y \<longleftrightarrow> (\<exists>x. r = Value x \<and> f x = Value y)"
  by (cases r) auto

lemma c_map_Value: "c_map f r = Value y \<longleftrightarrow> (\<exists>x. r = Value x \<and> y = f x)"
  by (cases r) auto

lemma kept_sort_graph: "jack_sort_graph e = Value e' \<Longrightarrow> kept d e \<Longrightarrow> kept d e'"
  unfolding jack_sort_graph_def
  by (auto simp: c_bind_Value c_map_Value intro!: kept_frame elim!: kept_new_latency)

lemma kept_check_acyclic:
  assumes "jack_check_acyclic e = Value e'" "kept d e"
  shows "kept d e'"
proof -
  have fold: "kept d e1 \<Longrightarrow> kept d (fold (\<lambda>k e. reverse_connection e k) ks e1)" for ks e1
    by (induction ks arbitrary: e1) (simp_all add: reverse_connection_def Let_def kept_frame)
  have "kept d (e\<lparr>cmem := \<lambda>c. if c \<in> set (clients e) then (cmem e c)\<lparr>tfedcount := tf c\<rparr> else cmem e c\<rparr>)" for tf
  proof -
    have "(\<lambda>c. client_aside (if c \<in> set (clients e) then (cmem e c)\<lparr>tfedcount := tf c\<rparr> else cmem e c)) =
      (\<lambda>c. client_aside (cmem e c))" by (auto simp: client_aside_def)
    then show ?thesis using assms(2) by (simp add: kept_def aside_def)
  qed
  then show ?thesis
    using assms(1) by (auto simp: jack_check_acyclic_def Let_def intro!: kept_frame fold split: option.splits if_splits)
qed

lemma kept_unfeed: "unfeed_clients e s t w = Value e' \<Longrightarrow> kept d e \<Longrightarrow> kept d e'"
  unfolding unfeed_clients_def
  by (auto simp: Let_def intro!: kept_frame split: option.splits if_splits)

lemma kept_disconnect:
  assumes "jack_port_disconnect_internal e s t = Value (e', r)" "kept d e"
  shows "kept d e'"
proof -
  have "kept d e1" if "break_connection e s t = Value (e1, r1)" for e1 r1
    using that assms(2) unfolding break_connection_def unlink_ports_def
    by (auto simp: Let_def c_map_Value intro!: kept_frame elim!: kept_unfeed split: option.splits if_splits)
  then show ?thesis
    using assms(1) unfolding jack_port_disconnect_internal_def
    by (auto simp: c_bind_Value c_map_Value split: if_splits dest: kept_check_acyclic kept_sort_graph)
qed

lemma kept_clear_connections:
  assumes "jack_port_clear_connections e p = Value e'" "kept d e"
  shows "kept d e'"
proof -
  have "clear_each e1 ks = Value e2 \<Longrightarrow> kept d e1 \<Longrightarrow> kept d e2" for e1 ks e2
    by (induction e1 ks rule: clear_each.induct) (auto simp: c_bind_Value dest: kept_disconnect)
  then show ?thesis
    using assms by (auto simp: jack_port_clear_connections_def c_map_Value intro!: kept_frame)
qed

lemma kept_feed_clients: "feed_clients e a b = Value (e', w) \<Longrightarrow> kept d e \<Longrightarrow> kept d e'"
  unfolding feed_clients_def feed_true_def feed_sort_def
  by (auto simp: Let_def intro!: kept_frame split: option.splits if_splits)

lemma kept_connect:
  assumes "jack_port_do_connect e s t = Value (e', r)" "kept d e"
  shows "kept d e'"
  using assms unfolding jack_port_do_connect_def link_ports_def
  by (auto simp: c_bind_Value c_map_Value Let_def intro!: kept_frame elim!: kept_sort_graph dest!: kept_feed_clients
      split: sum.splits)

end
