(* ===== verification/Ports.thy ===== *)
theory Ports
  imports Graph_Frame
begin

text \<open>
  Port registration and port buffers of \<open>server/engine.c\<close>: placing the buffers of a port type in
  its shared segment, taking a free port, naming it (the backend's ports get the names of the
  \<open>system\<close> client and keep their own as an alias), assigning and releasing a buffer, registering
  and unregistering, and telling the clients. The answers of the shared memory layer and of the
  driver are parameters.
\<close>

section \<open>Buffers\<close>

definition jack_port_type_buffer_size :: "jack_port_type_info_t \<Rightarrow> jack_nframes_t \<Rightarrow> int" where
  "jack_port_type_buffer_size ty nframes =
     (if buffer_scale_factor ty < 0 then type_buffer_size ty
      else buffer_scale_factor ty * 4 * int (unat nframes))"

text \<open>
  The loop \<open>while (offset < size)\<close> that writes the offsets of the buffer descriptors: the offsets
  in order, or \<open>None\<close> when the loop would write past the \<open>nports\<close> allocated descriptors.
\<close>

fun place_offsets :: "nat \<Rightarrow> int \<Rightarrow> int \<Rightarrow> int \<Rightarrow> int list option" where
  "place_offsets nports one_buf seg_size offset =
     (if offset < seg_size then
        (case nports of
           0 \<Rightarrow> None
         | Suc n \<Rightarrow> map_option ((#) offset) (place_offsets n one_buf seg_size (s32 (offset + one_buf))))
      else Some [])"

declare place_offsets.simps [simp del]

definition write_offsets :: "nat \<Rightarrow> int list \<Rightarrow> jack_engine_t \<Rightarrow> jack_engine_t" where
  "write_offsets ptid offs e =
     e\<lparr>buffer_offset := (buffer_offset e)(ptid := (\<lambda>b. if b < length offs then offs ! b else buffer_offset e ptid b))\<rparr>"

definition update_port_offset :: "nat \<Rightarrow> jack_engine_t \<Rightarrow> jack_port_t \<Rightarrow> jack_port_t" where
  "update_port_offset ptid e r =
     (case buffer_info r of
        Some b \<Rightarrow> if in_use r \<and> flag_set (p_flags r) JackPortIsOutput \<and> ptype_id r = ptid
                  then r\<lparr>p_offset := buffer_offset e ptid b\<rparr> else r
      | None \<Rightarrow> r)"

text \<open>The end of the allocating branch: the first free buffer becomes the buffer of silence.\<close>

definition adopt_buffers :: "nat \<Rightarrow> nat \<Rightarrow> nat \<Rightarrow> nat list \<Rightarrow> jack_engine_t \<Rightarrow> jack_engine_t" where
  "adopt_buffers ptid nports bi rest e =
     (let e1 = e\<lparr>buffer_infos := (buffer_infos e)(ptid := Some nports), freelist := (freelist e)(ptid := rest)\<rparr>;
          e2 = upd_control (\<lambda>c. c\<lparr>port_types := (port_types c)
                 [ptid := (port_types c ! ptid)\<lparr>zero_buffer_offset := buffer_offset e ptid bi\<rparr>]\<rparr>) e1
      in if ptid = 0 then e2\<lparr>silent_buffer := Some bi\<rparr> else e2)"

text \<open>
  \<open>jack_engine_place_port_buffers\<close>. The first buffer of a new segment is taken from the free list
  as the buffer of silence; an empty list has no first element to take.
\<close>

definition jack_engine_place_port_buffers :: "jack_engine_t \<Rightarrow> nat \<Rightarrow> int \<Rightarrow> int \<Rightarrow> nat \<Rightarrow> jack_engine_t c_result" where
  "jack_engine_place_port_buffers e ptid one_buf seg_size nports =
     (case buffer_infos e ptid of
        Some n \<Rightarrow>
          (case place_offsets n one_buf seg_size 0 of
             None \<Rightarrow> Undefined
           | Some offs \<Rightarrow>
               (let e1 = write_offsets ptid offs e
                in Value (e1\<lparr>ports := map (update_port_offset ptid e1) (ports e1)\<rparr>)))
      | None \<Rightarrow>
          (case place_offsets nports one_buf seg_size 0 of
             None \<Rightarrow> Undefined
           | Some offs \<Rightarrow>
               (let e1 = write_offsets ptid offs e
                in case freelist e ptid @ [0..<length offs] of
                     [] \<Rightarrow> Undefined
                   | bi # rest \<Rightarrow> Value (adopt_buffers ptid nports bi rest e1))))"

text \<open>The size of one buffer of a port type, at the current number of frames per period.\<close>

definition one_buffer :: "jack_engine_t \<Rightarrow> nat \<Rightarrow> int" where
  "one_buffer e ptid = s32 (jack_port_type_buffer_size (port_types (control e) ! ptid) (buffer_size (control e)))"

text \<open>
  \<open>port_segment e t\<close> is what the engine has on record of the segment of a type. \<open>jack_resize_shm\<close> unmaps
  and removes the old segment before it asks for the new one; when it then fails, the record, with the
  address of memory that is gone, stays as it was. What is mapped is not part of the model.
\<close>

definition jack_resize_port_segment :: "jack_engine_t \<Rightarrow> bool \<Rightarrow> nat \<Rightarrow> nat \<Rightarrow> (jack_engine_t \<times> int) c_result" where
  "jack_resize_port_segment e shm_ok ptid nports =
     (let seg_size = s32 (int nports * one_buffer e ptid)
      in if \<not> shm_ok then Value (e, -1)
         else c_map (\<lambda>e1. (jack_deliver_event_to_all e1 (AttachPortSegment ptid), 0))
                (jack_engine_place_port_buffers (e\<lparr>port_segment := (port_segment e)(ptid := Some seg_size)\<rparr>)
                   ptid (one_buffer e ptid) seg_size nports))"

fun resize_segments :: "jack_engine_t \<Rightarrow> (nat \<Rightarrow> bool) \<Rightarrow> nat list \<Rightarrow> (jack_engine_t \<times> int) c_result" where
  "resize_segments e shm_ok [] = Value (e, 0)"
| "resize_segments e shm_ok (t # ts) =
     c_bind (jack_resize_port_segment e (shm_ok t) t (length (ports e)))
       (\<lambda>(e1, r). if r \<noteq> 0 then Value (e1, -1) else resize_segments e1 shm_ok ts)"

definition jack_driver_buffer_size :: "jack_engine_t \<Rightarrow> (nat \<Rightarrow> bool) \<Rightarrow> jack_nframes_t \<Rightarrow> (jack_engine_t \<times> int) c_result" where
  "jack_driver_buffer_size e shm_ok nframes =
     c_map (\<lambda>(e1, r). if r \<noteq> 0 then (e1, -1) else (jack_deliver_event_to_all e1 BufferSizeChange, 0))
       (resize_segments (upd_control (\<lambda>c. c\<lparr>buffer_size := nframes\<rparr>) e) shm_ok
          [0..<length (port_types (control e))])"

definition jack_power_of_two :: "u32 \<Rightarrow> bool" where
  "jack_power_of_two n \<longleftrightarrow> n AND (n - 1) = 0"

definition ENXIO :: int where "ENXIO = 6"

definition jack_set_buffer_size_request ::
  "(jack_engine_t \<Rightarrow> jack_nframes_t \<Rightarrow> jack_engine_t \<times> int) \<Rightarrow> jack_engine_t \<Rightarrow> jack_nframes_t \<Rightarrow> jack_engine_t \<times> int" where
  "jack_set_buffer_size_request bufsize e nframes =
     (case driver_client e of
        None \<Rightarrow> (e, ENXIO)
      | Some d \<Rightarrow> if \<not> jack_power_of_two nframes then (e, EINVAL) else bufsize e nframes)"

section \<open>Taking and releasing a port\<close>

fun free_slot :: "jack_port_t list \<Rightarrow> pidx \<Rightarrow> pidx option" where
  "free_slot [] i = None"
| "free_slot (p # ps) i = (if \<not> in_use p then Some i else free_slot ps (Suc i))"

definition jack_get_free_port :: "jack_engine_t \<Rightarrow> jack_engine_t \<times> pidx option" where
  "jack_get_free_port e =
     (case free_slot (ports e) 0 of
        None \<Rightarrow> (e, None)
      | Some i \<Rightarrow> (upd_port i (\<lambda>r. r\<lparr>in_use := True\<rparr>) e, Some i))"

definition jack_port_release :: "jack_engine_t \<Rightarrow> pidx \<Rightarrow> jack_engine_t" where
  "jack_port_release e p =
     (let e1 = upd_port p (\<lambda>r. r\<lparr>in_use := False, alias1 := [], alias2 := []\<rparr>) e;
          t = ptype_id (ports e1 ! p)
      in case buffer_info (ports e1 ! p) of
           None \<Rightarrow> e1
         | Some b \<Rightarrow>
             upd_port p (\<lambda>r. r\<lparr>buffer_info := None\<rparr>)
               (e1\<lparr>freelist := (freelist e1)(t := jack_slist_prepend (freelist e1 t) b)\<rparr>))"

definition jack_port_assign_buffer :: "jack_engine_t \<Rightarrow> pidx \<Rightarrow> jack_engine_t \<times> int" where
  "jack_port_assign_buffer e p =
     (let t = ptype_id (ports e ! p) in
      if flag_set (p_flags (ports e ! p)) JackPortIsInput then (upd_port p (\<lambda>r. r\<lparr>p_offset := 0\<rparr>) e, 0)
      else case freelist e t of
        [] \<Rightarrow> (e, -1)
      | bi # rest \<Rightarrow>
          (upd_port p (\<lambda>r. r\<lparr>p_offset := buffer_offset e t bi, buffer_info := Some bi\<rparr>)
             (e\<lparr>freelist := (freelist e)(t := jack_slist_remove (freelist e t) bi)\<rparr>), 0))"

fun name_search :: "jack_port_t list \<Rightarrow> pidx \<Rightarrow> string \<Rightarrow> pidx option" where
  "name_search [] i name = None"
| "name_search (p # ps) i name = (if jack_port_name_equals p name then Some i else name_search ps (Suc i) name)"

definition jack_get_port_internal_by_name :: "jack_engine_t \<Rightarrow> string \<Rightarrow> pidx option" where
  "jack_get_port_internal_by_name e name = name_search (ports e) 0 name"

section \<open>Notifications\<close>

definition jack_port_registration_notify :: "jack_engine_t \<Rightarrow> pidx \<Rightarrow> bool \<Rightarrow> jack_engine_t" where
  "jack_port_registration_notify e port_id yn =
     deliver_each e (filter (\<lambda>c. active (cmem e c) \<and> port_register_cbset (cmem e c)) (clients e))
       (if yn then PortRegistered port_id else PortUnregistered port_id)"

definition jack_client_registration_notify :: "jack_engine_t \<Rightarrow> string \<Rightarrow> bool \<Rightarrow> jack_engine_t" where
  "jack_client_registration_notify e name yn =
     (let n = take (JACK_PORT_NAME_SIZE - 1) name in
      deliver_each e
        (filter (\<lambda>c. active (cmem e c) \<and> cl_name (cmem e c) \<noteq> name \<and> client_register_cbset (cmem e c)) (clients e))
        (if yn then ClientRegistered n else ClientUnregistered n))"

section \<open>Registering a port\<close>

record port_info =
  rq_name :: string
  rq_type :: string
  rq_flags :: u32
  rq_client_id :: u32

definition JACK_DEFAULT_AUDIO_TYPE :: string where "JACK_DEFAULT_AUDIO_TYPE = ''32 bit float mono audio''"
definition JACK_DEFAULT_MIDI_TYPE :: string where "JACK_DEFAULT_MIDI_TYPE = ''8 bit raw midi''"
definition JACK_CLIENT_NAME_SIZE :: nat where "JACK_CLIENT_NAME_SIZE = 33"

fun type_search :: "jack_port_type_info_t list \<Rightarrow> nat \<Rightarrow> string \<Rightarrow> nat option" where
  "type_search [] i name = None"
| "type_search (t # ts) i name = (if type_name t = name then Some i else type_search ts (Suc i) name)"

definition has_flags :: "u32 \<Rightarrow> u32 \<Rightarrow> bool" where
  "has_flags flags f \<longleftrightarrow> flags AND f = f"

text \<open>
  The naming part of \<open>jack_port_do_register\<close>, up to the label \<open>next\<close>. \<open>backend_name\<close> is the
  magic for ports of the backend: the predefined name, the alias, and the engine with the counter
  the name uses incremented; \<open>None\<close> goes to the label \<open>fallback\<close>.
\<close>

definition backend_name :: "jack_engine_t \<Rightarrow> port_info \<Rightarrow> (jack_engine_t \<times> string \<times> string) option" where
  "backend_name e rq =
     (let input = has_flags (rq_flags rq) (JackPortIsPhysical OR JackPortIsInput);
          output = has_flags (rq_flags rq) (JackPortIsPhysical OR JackPortIsOutput);
          prefix_len = (if take 19 (rq_name rq) = ''alsa_pcm:alsa_midi:'' then 9 else 0)
      in if rq_type rq = JACK_DEFAULT_AUDIO_TYPE then
           (if input then
              Some (e\<lparr>audio_out_cnt := Suc (audio_out_cnt e)\<rparr>,
                    ''system:playback_'' @ decimal (Suc (audio_out_cnt e)), rq_name rq)
            else if output then
              Some (e\<lparr>audio_in_cnt := Suc (audio_in_cnt e)\<rparr>,
                    ''system:capture_'' @ decimal (Suc (audio_in_cnt e)), rq_name rq)
            else None)
         else if rq_type rq = JACK_DEFAULT_MIDI_TYPE then
           (if input then
              Some (e\<lparr>midi_out_cnt := Suc (midi_out_cnt e)\<rparr>,
                    ''system:midi_playback_'' @ decimal (Suc (midi_out_cnt e)), drop prefix_len (rq_name rq))
            else if output then
              Some (e\<lparr>midi_in_cnt := Suc (midi_in_cnt e)\<rparr>,
                    ''system:midi_capture_'' @ decimal (Suc (midi_in_cnt e)), drop prefix_len (rq_name rq))
            else None)
         else None)"

definition name_port :: "jack_engine_t \<Rightarrow> bool \<Rightarrow> port_info \<Rightarrow> pidx \<Rightarrow> jack_engine_t" where
  "name_port e internal rq p =
     (let fallback = upd_port p (\<lambda>r. r\<lparr>p_name := rq_name rq\<rparr>) e in
      if \<not> internal then fallback
      else case driver_client e of
        None \<Rightarrow> fallback
      | Some d \<Rightarrow>
          (let backend_client_name = cl_name (cmem e d) in
           if take (length backend_client_name) (rq_name rq) \<noteq> backend_client_name then fallback
           else case backend_name e rq of
             None \<Rightarrow> fallback
           | Some (e1, nm, al) \<Rightarrow>
               upd_port p (\<lambda>r. r\<lparr>p_name := take (JACK_CLIENT_NAME_SIZE + JACK_PORT_NAME_SIZE - 1) nm, alias1 := al\<rparr>) e1))"

definition setup_port :: "nat \<Rightarrow> port_info \<Rightarrow> pidx \<Rightarrow> jack_engine_t \<Rightarrow> jack_engine_t" where
  "setup_port ty rq p e =
     upd_port p (\<lambda>r. r\<lparr>ptype_id := ty, p_client_id := rq_client_id rq, p_flags := rq_flags rq, latency := 0,
       monitor_requests := 0, connections := [], buffer_info := None\<rparr>) e"

text \<open>The result carries the port the request reports back, when there is one.\<close>

definition jack_port_do_register :: "jack_engine_t \<Rightarrow> port_info \<Rightarrow> bool \<Rightarrow> jack_engine_t \<times> int \<times> pidx option" where
  "jack_port_do_register e rq internal =
     (case type_search (port_types (control e)) 0 (rq_type rq) of
        None \<Rightarrow> (e, -1, None)
      | Some ty \<Rightarrow>
     (case jack_client_internal_by_id e (rq_client_id rq) of
        None \<Rightarrow> (e, -1, None)
      | Some c \<Rightarrow>
     (case jack_get_port_by_name e (rq_name rq) of
        Some _ \<Rightarrow> (e, -1, None)
      | None \<Rightarrow>
     (case jack_get_free_port e of
        (e1, None) \<Rightarrow> (e1, -1, None)
      | (e1, Some p) \<Rightarrow>
          (let e2 = setup_port ty rq p (name_port e1 internal rq p)
           in case jack_port_assign_buffer e2 p of (e3, err) \<Rightarrow>
             if err \<noteq> 0 then (jack_port_release e3 p, -1, None)
             else
               (let e4 = upd_client c (\<lambda>r. r\<lparr>cl_ports := jack_slist_prepend (cl_ports r) p\<rparr>) e3;
                    e5 = (if active (cmem e4 c) then jack_port_registration_notify e4 p True else e4)
                in (e5, 0, Some p)))))))"

text \<open>
  Unregistering. The range check admits \<open>port_id = port_max\<close>, one past the last port: reading
  that element is outside of the array.
\<close>

definition jack_port_do_unregister :: "jack_engine_t \<Rightarrow> u32 \<Rightarrow> nat \<Rightarrow> (jack_engine_t \<times> int) c_result" where
  "jack_port_do_unregister e client_id port_id =
     (if length (ports e) < port_id then Value (e, -1)
      else if port_id = length (ports e) then Undefined
      else if p_client_id (ports e ! port_id) \<noteq> client_id then Value (e, -1)
      else case jack_client_internal_by_id e (p_client_id (ports e ! port_id)) of
        None \<Rightarrow> Value (e, -1)
      | Some c \<Rightarrow>
          c_map (\<lambda>e1.
            let e2 = jack_port_release e1 port_id;
                e3 = upd_client c (\<lambda>r. r\<lparr>cl_ports := jack_slist_remove (cl_ports r) port_id\<rparr>) e2
            in (jack_port_registration_notify e3 port_id False, 0))
            (jack_port_clear_connections e port_id))"

end
