(* ===== verification/Ports_Inv.thy ===== *)
theory Ports_Inv
  imports Ports
begin

text \<open>
  Registering and unregistering keep the graph invariant, and the port buffers stay disjoint:
  every buffer is on the free list or belongs to exactly one port, and the buffers of a port type
  lie side by side in its segment.
\<close>

section \<open>Replacing a port without connections\<close>

lemma unused_no_conns:
  assumes "gbooks g" "p < length (g_ports g)" "\<not> gp_used (g_ports g ! p)"
  shows "gp_conns (g_ports g ! p) = []"
proof (rule ccontr)
  assume "gp_conns (g_ports g ! p) \<noteq> []"
  then obtain k where k: "k \<in> set (gp_conns (g_ports g ! p))" by (cases "gp_conns (g_ports g ! p)") auto
  then have "k \<in> live g" "source (g_conns g k) = p \<or> destination (g_conns g k) = p"
    using assms(1,2) by (auto simp: live_nth gbooks_def ports_ok_def)
  then show False using assms(1,3) by (auto simp: gbooks_def conn_ok_def link_ok_def Let_def)
qed

definition g_replace :: "pidx \<Rightarrow> gport \<Rightarrow> (cptr \<Rightarrow> pidx list) \<Rightarrow> gcore \<Rightarrow> gcore" where
  "g_replace p r ow g = g\<lparr>g_ports := (g_ports g)[p := r], g_owned := ow\<rparr>"

lemma g_replace_simps [simp]:
  "g_clients (g_replace p r ow g) = g_clients g" "g_driver (g_replace p r ow g) = g_driver g"
  "g_ports (g_replace p r ow g) = (g_ports g)[p := r]" "g_conns (g_replace p r ow g) = g_conns g"
  "g_next (g_replace p r ow g) = g_next g" "g_feedback (g_replace p r ow g) = g_feedback g"
  "g_sort (g_replace p r ow g) = g_sort g" "g_true (g_replace p r ow g) = g_true g"
  "g_fed (g_replace p r ow g) = g_fed g" "g_type (g_replace p r ow g) = g_type g"
  "g_id (g_replace p r ow g) = g_id g" "g_owned (g_replace p r ow g) = ow"
  by (simp_all add: g_replace_def)

lemma live_replace:
  assumes "p < length (g_ports g)" "gp_conns (g_ports g ! p) = []" "gp_conns r = []"
  shows "live (g_replace p r ow g) = live g"
proof -
  have "gp_conns ((g_ports g)[p := r] ! q) = gp_conns (g_ports g ! q)" if "q < length (g_ports g)" for q
    using assms that by (auto simp: nth_list_update)
  then show ?thesis unfolding set_eq_iff live_nth by auto
qed

lemma ginv_replace:
  assumes g: "ginv g" and p: "p < length (g_ports g)" "gp_conns (g_ports g ! p) = []" "gp_conns r = []"
    and ow: "\<And>c q. c \<in> g_clients g \<Longrightarrow> q \<noteq> p \<Longrightarrow> q \<in> set (ow c) \<longleftrightarrow> q \<in> set (g_owned g c)"
    and u: "gp_used r \<Longrightarrow> \<not> (flag_set (gp_flags r) JackPortIsInput \<and> flag_set (gp_flags r) JackPortIsOutput)"
      "\<And>c. gp_used r \<Longrightarrow> c \<in> g_clients g \<Longrightarrow> gp_owner r = g_id g c \<Longrightarrow> p \<in> set (ow c)"
  shows "ginv (g_replace p r ow g)"
proof -
  let ?g = "g_replace p r ow g"
  have b: "gbooks g" using g by (simp add: ginv_def)
  have lv: "live ?g = live g" by (rule live_replace [OF p])
  have ec: "edge_conns ?g = edge_conns g" by (rule ext) (simp add: edge_conns_def lv)
  have ok: "conn_ok ?g k" if k: "k \<in> live g" for k
  proof -
    have c: "conn_ok g k" using b k by (simp add: gbooks_def)
    then have "source (g_conns g k) \<noteq> p" "destination (g_conns g k) \<noteq> p"
      using p(2) by (auto simp: conn_ok_def)
    then show ?thesis using c ow by (auto simp: conn_ok_def link_ok_def Let_def)
  qed
  have "ports_ok ?g"
    unfolding ports_ok_def
  proof (intro allI impI)
    fix q assume "q < length (g_ports ?g)"
    then have q: "q < length (g_ports g)" by simp
    show "distinct (gp_conns (g_ports ?g ! q)) \<and>
      (\<forall>k \<in> set (gp_conns (g_ports ?g ! q)). source (g_conns ?g k) = q \<or> destination (g_conns ?g k) = q) \<and>
      (gp_used (g_ports ?g ! q) \<longrightarrow>
        \<not> (flag_set (gp_flags (g_ports ?g ! q)) JackPortIsInput \<and> flag_set (gp_flags (g_ports ?g ! q)) JackPortIsOutput) \<and>
        (\<forall>c \<in> g_clients ?g. gp_owner (g_ports ?g ! q) = g_id ?g c \<longrightarrow> q \<in> set (g_owned ?g c)))"
    proof (cases "q = p")
      case True
      then show ?thesis using u p by auto
    next
      case False
      then show ?thesis using b q ow by (simp add: gbooks_def ports_ok_def)
    qed
  qed
  moreover have "\<forall>c \<in> g_clients g. \<forall>q \<in> set (ow c). q < length (g_ports g)"
    using b ow p(1) unfolding gbooks_def by metis
  moreover have "counts_ok ?g" "single_connections ?g"
    using b by (simp_all add: gbooks_def counts_ok_def single_connections_def ec lv)
  ultimately have "gbooks ?g" using b ok by (simp add: gbooks_def lv)
  then show ?thesis using g by (simp add: ginv_def ec)
qed

lemma links_replace:
  assumes "core e' = g_replace p r ow (core e)" "p < length (ports e)" "connections (ports e ! p) = []" "gp_conns r = []"
  shows "links e' = links e"
proof -
  have "live (core e') = live (core e)" using live_replace [of p "core e" r ow] assms by simp
  moreover have "conns e' = conns e" using arg_cong [OF assms(1), of g_conns] by simp
  ultimately show ?thesis by (simp add: links_def ends_def)
qed

section \<open>Notifications and lookups\<close>

lemma same_graph_port_notify [graph_frame]: "same_graph d e \<Longrightarrow> same_graph d (jack_port_registration_notify e p yn)"
  unfolding jack_port_registration_notify_def by (intro graph_frame)

lemma kept_port_notify [kept_frame]: "kept d e \<Longrightarrow> kept d (jack_port_registration_notify e p yn)"
  unfolding jack_port_registration_notify_def by (intro kept_frame)

lemma free_slot_Some:
  "free_slot ps i = Some p \<Longrightarrow> i \<le> p \<and> p - i < length ps \<and> \<not> in_use (ps ! (p - i))"
proof (induction ps i rule: free_slot.induct)
  case (2 q ps i)
  show ?case
  proof (cases "in_use q")
    case True
    then have "free_slot ps (Suc i) = Some p" using 2(2) by auto
    then show ?thesis using 2(1) True by (auto simp: nth_Cons' Suc_diff_le)
  qed (use 2 in auto)
qed simp

lemma free_slot_port: "free_slot (ports e) 0 = Some p \<Longrightarrow> p < length (ports e) \<and> \<not> in_use (ports e ! p)"
  using free_slot_Some [of "ports e" 0 p] by simp

lemma port_search_None:
  "port_search ps i name = None \<longleftrightarrow> (\<forall>q < length ps. \<not> (in_use (ps ! q) \<and> jack_port_name_equals (ps ! q) name))"
  by (induction ps i name rule: port_search.induct) (auto simp: nth_Cons less_Suc_eq_0_disj split: nat.splits)

lemma port_search_unique:
  assumes "p < length ps" "in_use (ps ! p)" "jack_port_name_equals (ps ! p) name"
    "\<forall>q < p. \<not> (in_use (ps ! q) \<and> jack_port_name_equals (ps ! q) name)"
  shows "port_search ps i name = Some (i + p)"
  using assms
proof (induction ps i name arbitrary: p rule: port_search.induct)
  case (2 r ps i name)
  show ?case
  proof (cases p)
    case 0
    then show ?thesis using 2(2-) by simp
  next
    case (Suc q)
    then have "\<not> (in_use r \<and> jack_port_name_equals r name)" using 2(5) by force
    moreover have "\<forall>j < q. \<not> (in_use (ps ! j) \<and> jack_port_name_equals (ps ! j) name)"
      using 2(5) Suc by (metis Suc_less_eq nth_Cons_Suc)
    ultimately show ?thesis using 2(1) [of q] 2(2-) Suc by simp
  qed
qed simp

section \<open>What registering does\<close>

definition with_counters :: "nat \<Rightarrow> nat \<Rightarrow> nat \<Rightarrow> nat \<Rightarrow> jack_engine_t \<Rightarrow> jack_engine_t" where
  "with_counters a b c d e = e\<lparr>audio_out_cnt := a, audio_in_cnt := b, midi_out_cnt := c, midi_in_cnt := d\<rparr>"

definition alias_of :: "string \<Rightarrow> string \<Rightarrow> bool" where
  "alias_of name al \<longleftrightarrow> al = name \<or> (take 19 name = ''alsa_pcm:alsa_midi:'' \<and> al = drop 9 name)"

lemma backend_name_Some:
  assumes "backend_name e rq = Some (e1, nm, al)"
  shows "\<exists>a b c d. e1 = with_counters a b c d e" "alias_of (rq_name rq) al"
proof -
  have "e1 = with_counters (audio_out_cnt e1) (audio_in_cnt e1) (midi_out_cnt e1) (midi_in_cnt e1) e"
    using assms unfolding backend_name_def Let_def
    by (simp only: split: if_splits) (auto simp: with_counters_def)
  then show "\<exists>a b c d. e1 = with_counters a b c d e" by blast
  show "alias_of (rq_name rq) al"
    using assms unfolding backend_name_def Let_def alias_of_def by (auto split: if_splits)
qed

lemma name_port_shape:
  "\<exists>nm al a b c d. name_port e internal rq p =
     upd_port p (\<lambda>r. r\<lparr>p_name := nm, alias1 := al r\<rparr>) (with_counters a b c d e) \<and>
     (nm = rq_name rq \<or> (\<forall>r. alias_of (rq_name rq) (al r)))"
proof -
  have fb: ?thesis if "name_port e internal rq p = upd_port p (\<lambda>r. r\<lparr>p_name := rq_name rq\<rparr>) e"
  proof -
    have "name_port e internal rq p = upd_port p (\<lambda>r. r\<lparr>p_name := rq_name rq, alias1 := alias1 r\<rparr>)
       (with_counters (audio_out_cnt e) (audio_in_cnt e) (midi_out_cnt e) (midi_in_cnt e) e)"
      using that by (simp add: with_counters_def)
    then show ?thesis by blast
  qed
  show ?thesis
  proof (cases "internal \<and> (\<exists>d e1 nm al. driver_client e = Some d \<and>
      take (length (cl_name (cmem e d))) (rq_name rq) = cl_name (cmem e d) \<and> backend_name e rq = Some (e1, nm, al))")
    case True
    then obtain d e1 nm al where d: "internal" "driver_client e = Some d"
      "take (length (cl_name (cmem e d))) (rq_name rq) = cl_name (cmem e d)" "backend_name e rq = Some (e1, nm, al)" by blast
    then obtain a b c d where "e1 = with_counters a b c d e" using backend_name_Some(1) by blast
    then have "name_port e internal rq p = upd_port p (\<lambda>r. r\<lparr>p_name := take (JACK_CLIENT_NAME_SIZE + JACK_PORT_NAME_SIZE - 1) nm, alias1 := al\<rparr>) (with_counters a b c d e)"
      using d by (simp add: name_port_def)
    then show ?thesis using backend_name_Some(2) [OF d(4)]
      by (intro exI [of _ "take (JACK_CLIENT_NAME_SIZE + JACK_PORT_NAME_SIZE - 1) nm"] exI [of _ "\<lambda>_. al"]) blast
  next
    case False
    then show ?thesis
      by (intro fb) (auto simp: name_port_def Let_def split: option.splits prod.splits)
  qed
qed

text \<open>The new port record, and the engine before the clients are told.\<close>

definition new_port :: "jack_engine_t \<Rightarrow> nat \<Rightarrow> port_info \<Rightarrow> jack_port_t \<Rightarrow> bool" where
  "new_port e ty rq r \<longleftrightarrow>
     ptype_id r = ty \<and> p_client_id r = rq_client_id rq \<and> p_flags r = rq_flags rq \<and> in_use r \<and> connections r = [] \<and>
     (p_name r = rq_name rq \<or> alias_of (rq_name rq) (alias1 r)) \<and>
     (if flag_set (rq_flags rq) JackPortIsInput then buffer_info r = None \<and> p_offset r = 0
      else freelist e ty \<noteq> [] \<and> buffer_info r = Some (hd (freelist e ty)) \<and>
           p_offset r = buffer_offset e ty (hd (freelist e ty)))"

definition registered :: "jack_engine_t \<Rightarrow> cptr \<Rightarrow> nat \<Rightarrow> port_info \<Rightarrow> pidx \<Rightarrow> jack_port_t \<Rightarrow> jack_engine_t" where
  "registered e c ty rq p r =
     e\<lparr>ports := (ports e)[p := r],
       cmem := (cmem e)(c := (cmem e c)\<lparr>cl_ports := p # cl_ports (cmem e c)\<rparr>),
       freelist := (if flag_set (rq_flags rq) JackPortIsInput then freelist e
                    else (freelist e)(ty := tl (freelist e ty)))\<rparr>"

definition can_register :: "jack_engine_t \<Rightarrow> port_info \<Rightarrow> nat \<Rightarrow> cptr \<Rightarrow> pidx \<Rightarrow> bool" where
  "can_register e rq ty c p \<longleftrightarrow>
     type_search (port_types (control e)) 0 (rq_type rq) = Some ty \<and>
     jack_client_internal_by_id e (rq_client_id rq) = Some c \<and> jack_get_port_by_name e (rq_name rq) = None \<and>
     free_slot (ports e) 0 = Some p"

lemma register_refused:
  assumes "\<nexists>ty c p. can_register e rq ty c p"
  shows "jack_port_do_register e rq internal = (e, -1, None)"
  using assms by (auto simp: can_register_def jack_port_do_register_def jack_get_free_port_def split: option.splits)

lemma register_shape:
  assumes can: "can_register e rq ty c p"
    and room: "flag_set (rq_flags rq) JackPortIsInput \<or> freelist e ty \<noteq> []"
  shows "\<exists>r a1 a2 a3 a4. new_port e ty rq r \<and>
    (let e4 = with_counters a1 a2 a3 a4 (registered e c ty rq p r) in
     jack_port_do_register e rq internal =
       (if active (cmem e c) then jack_port_registration_notify e4 p True else e4, 0, Some p))"
proof -
  have p: "p < length (ports e)" using can free_slot_port by (auto simp: can_register_def)
  let ?e1 = "upd_port p (\<lambda>r. r\<lparr>in_use := True\<rparr>) e"
  obtain nm al a1 a2 a3 a4 where n: "name_port ?e1 internal rq p =
      upd_port p (\<lambda>r. r\<lparr>p_name := nm, alias1 := al r\<rparr>) (with_counters a1 a2 a3 a4 ?e1)"
    "nm = rq_name rq \<or> (\<forall>r. alias_of (rq_name rq) (al r))"
    using name_port_shape [of ?e1 internal rq p] by blast
  define r0 where "r0 = (ports e ! p)\<lparr>in_use := True\<rparr>"
  define r1 where "r1 = r0\<lparr>p_name := nm, alias1 := al r0, ptype_id := ty, p_client_id := rq_client_id rq,
    p_flags := rq_flags rq, latency := 0, monitor_requests := 0, connections := [], buffer_info := None\<rparr>"
  define e2 where "e2 = setup_port ty rq p (name_port ?e1 internal rq p)"
  have e2: "e2 = with_counters a1 a2 a3 a4 (e\<lparr>ports := (ports e)[p := r1]\<rparr>)"
    unfolding e2_def n(1) using p by (simp add: setup_port_def upd_port_def with_counters_def r1_def r0_def)
  define r where "r = (if flag_set (rq_flags rq) JackPortIsInput then r1\<lparr>p_offset := 0\<rparr>
    else r1\<lparr>p_offset := buffer_offset e ty (hd (freelist e ty)), buffer_info := Some (hd (freelist e ty))\<rparr>)"
  have new: "new_port e ty rq r"
    using n(2) room by (auto simp: new_port_def r_def r1_def r0_def)
  let ?e3 = "with_counters a1 a2 a3 a4 (e\<lparr>ports := (ports e)[p := r],
    freelist := (if flag_set (rq_flags rq) JackPortIsInput then freelist e else (freelist e)(ty := tl (freelist e ty)))\<rparr>)"
  have "jack_port_assign_buffer e2 p = (?e3, 0)"
  proof (cases "flag_set (rq_flags rq) JackPortIsInput")
    case True
    then show ?thesis using p
      by (simp add: jack_port_assign_buffer_def e2 with_counters_def upd_port_def r_def r1_def)
  next
    case False
    then obtain b bs where "freelist e ty = b # bs" using room by (cases "freelist e ty") auto
    then show ?thesis using p False
      by (simp add: jack_port_assign_buffer_def e2 with_counters_def upd_port_def r_def r1_def)
  qed
  moreover have "jack_get_free_port e = (?e1, Some p)" using can by (simp add: jack_get_free_port_def can_register_def)
  moreover have "upd_client c (\<lambda>r. r\<lparr>cl_ports := jack_slist_prepend (cl_ports r) p\<rparr>) ?e3 =
      with_counters a1 a2 a3 a4 (registered e c ty rq p r)"
    by (simp add: registered_def with_counters_def upd_client_def jack_slist_prepend_def)
  moreover have "active (cmem (with_counters a1 a2 a3 a4 (registered e c ty rq p r)) c) = active (cmem e c)"
    by (simp add: registered_def with_counters_def)
  ultimately show ?thesis
    using can new unfolding jack_port_do_register_def can_register_def Let_def e2_def
    by (intro exI [of _ r] exI [of _ a1] exI [of _ a2] exI [of _ a3] exI [of _ a4]) (simp add: Let_def)
qed

lemma register_no_buffer:
  assumes can: "can_register e rq ty c p"
    and full: "\<not> flag_set (rq_flags rq) JackPortIsInput" "freelist e ty = []"
  shows "\<exists>r a1 a2 a3 a4. \<not> in_use r \<and> connections r = [] \<and> buffer_info r = None \<and>
    jack_port_do_register e rq internal = (with_counters a1 a2 a3 a4 (e\<lparr>ports := (ports e)[p := r]\<rparr>), -1, None)"
proof -
  have p: "p < length (ports e)" using can free_slot_port by (auto simp: can_register_def)
  let ?e1 = "upd_port p (\<lambda>r. r\<lparr>in_use := True\<rparr>) e"
  obtain nm al a1 a2 a3 a4 where n: "name_port ?e1 internal rq p =
      upd_port p (\<lambda>r. r\<lparr>p_name := nm, alias1 := al r\<rparr>) (with_counters a1 a2 a3 a4 ?e1)"
    using name_port_shape [of ?e1 internal rq p] by blast
  define r0 where "r0 = (ports e ! p)\<lparr>in_use := True\<rparr>"
  define r1 where "r1 = r0\<lparr>p_name := nm, alias1 := al r0, ptype_id := ty, p_client_id := rq_client_id rq,
    p_flags := rq_flags rq, latency := 0, monitor_requests := 0, connections := [], buffer_info := None\<rparr>"
  define e2 where "e2 = setup_port ty rq p (name_port ?e1 internal rq p)"
  have e2: "e2 = with_counters a1 a2 a3 a4 (e\<lparr>ports := (ports e)[p := r1]\<rparr>)"
    unfolding e2_def n using p by (simp add: setup_port_def upd_port_def with_counters_def r1_def r0_def)
  have a: "jack_port_assign_buffer e2 p = (e2, -1)"
    using p full by (simp add: jack_port_assign_buffer_def e2 with_counters_def r1_def)
  have rel: "jack_port_release e2 p =
      with_counters a1 a2 a3 a4 (e\<lparr>ports := (ports e)[p := r1\<lparr>in_use := False, alias1 := [], alias2 := []\<rparr>]\<rparr>)"
    using p by (simp add: jack_port_release_def e2 with_counters_def upd_port_def r1_def)
  have f: "jack_get_free_port e = (?e1, Some p)" using can by (simp add: jack_get_free_port_def can_register_def)
  have "jack_port_do_register e rq internal =
      (with_counters a1 a2 a3 a4 (e\<lparr>ports := (ports e)[p := r1\<lparr>in_use := False, alias1 := [], alias2 := []\<rparr>]\<rparr>), -1, None)"
    using can f a rel unfolding jack_port_do_register_def can_register_def e2_def by (simp add: Let_def)
  moreover have "\<not> in_use (r1\<lparr>in_use := False, alias1 := [], alias2 := []\<rparr>)"
    "connections (r1\<lparr>in_use := False, alias1 := [], alias2 := []\<rparr>) = []"
    "buffer_info (r1\<lparr>in_use := False, alias1 := [], alias2 := []\<rparr>) = None" by (simp_all add: r1_def)
  ultimately show ?thesis by blast
qed

lemma core_registered:
  "core (with_counters a1 a2 a3 a4 (registered e c ty rq p r)) =
   g_replace p (port_core r) ((g_owned (core e))(c := p # g_owned (core e) c)) (core e)"
  by (auto simp: core_def registered_def with_counters_def g_replace_def map_update)

lemma core_port_only:
  "core (with_counters a1 a2 a3 a4 (e\<lparr>ports := (ports e)[p := r]\<rparr>)) = g_replace p (port_core r) (g_owned (core e)) (core e)"
  by (auto simp: core_def with_counters_def g_replace_def map_update)

lemma clients_with_counters [simp]: "clients (with_counters a b c d e) = clients e"
  by (simp add: with_counters_def)

lemma clients_registered [simp]: "clients (registered e c ty rq p r) = clients e"
  by (simp add: registered_def)

lemma slot_no_connections:
  assumes "graph_inv e" "p < length (ports e)" "\<not> in_use (ports e ! p)"
  shows "connections (ports e ! p) = []"
  using unused_no_conns [of "core e" p] assms by (simp add: graph_inv_def ginv_def)

lemma registered_graph:
  assumes inv: "graph_inv e" and can: "can_register e rq ty c p" and new: "new_port e ty rq r"
    and flags: "\<not> (flag_set (rq_flags rq) JackPortIsInput \<and> flag_set (rq_flags rq) JackPortIsOutput)"
  shows "graph_inv (with_counters a1 a2 a3 a4 (registered e c ty rq p r))"
    "links (with_counters a1 a2 a3 a4 (registered e c ty rq p r)) = links e"
proof -
  have p: "p < length (ports e)" "\<not> in_use (ports e ! p)" using can free_slot_port by (auto simp: can_register_def)
  have c: "c \<in> set (clients e)" "cl_id (cmem e c) = rq_client_id rq" using can by_id_Some by (auto simp: can_register_def)
  have nc: "connections (ports e ! p) = []" by (rule slot_no_connections [OF inv p])
  have inj: "inj_on (\<lambda>c. cl_id (cmem e c)) (set (clients e))"
    using inv by (auto simp: graph_inv_def ginv_def gbooks_def inj_on_def)
  have "ginv (core (with_counters a1 a2 a3 a4 (registered e c ty rq p r)))"
    unfolding core_registered
  proof (rule ginv_replace)
    show "ginv (core e)" using inv by (simp add: graph_inv_def)
    fix d assume d: "d \<in> g_clients (core e)" "gp_owner (port_core r) = g_id (core e) d"
    then have "cl_id (cmem e d) = cl_id (cmem e c)" using c new by (simp add: new_port_def)
    then have "d = c" using inj_onD [OF inj, of d c] c(1) d(1) by simp
    then show "p \<in> set (((g_owned (core e))(c := p # g_owned (core e) c)) d)" by simp
  qed (use p nc new flags in \<open>auto simp: new_port_def\<close>)
  then show "graph_inv (with_counters a1 a2 a3 a4 (registered e c ty rq p r))"
    using inv by (simp add: graph_inv_def)
  show "links (with_counters a1 a2 a3 a4 (registered e c ty rq p r)) = links e"
    by (rule links_replace [OF core_registered p(1) nc]) (use new in \<open>simp add: new_port_def\<close>)
qed

lemma freed_graph:
  assumes inv: "graph_inv e" and p: "p < length (ports e)" "connections (ports e ! p) = []"
    and r: "\<not> in_use r" "connections r = []"
  shows "graph_inv (with_counters a1 a2 a3 a4 (e\<lparr>ports := (ports e)[p := r]\<rparr>))"
    "links (with_counters a1 a2 a3 a4 (e\<lparr>ports := (ports e)[p := r]\<rparr>)) = links e"
proof -
  have "ginv (core (with_counters a1 a2 a3 a4 (e\<lparr>ports := (ports e)[p := r]\<rparr>)))"
    unfolding core_port_only by (rule ginv_replace) (use inv p r in \<open>auto simp: graph_inv_def\<close>)
  then show "graph_inv (with_counters a1 a2 a3 a4 (e\<lparr>ports := (ports e)[p := r]\<rparr>))"
    using inv by (simp add: graph_inv_def)
  show "links (with_counters a1 a2 a3 a4 (e\<lparr>ports := (ports e)[p := r]\<rparr>)) = links e"
    by (rule links_replace [OF core_port_only p]) (simp add: r)
qed

section \<open>Releasing\<close>

definition released :: "jack_engine_t \<Rightarrow> pidx \<Rightarrow> jack_port_t" where
  "released e p = (ports e ! p)\<lparr>in_use := False, alias1 := [], alias2 := [], buffer_info := None\<rparr>"

lemma release_shape:
  assumes "p < length (ports e)"
  shows "jack_port_release e p = e\<lparr>ports := (ports e)[p := released e p],
    freelist := (case buffer_info (ports e ! p) of None \<Rightarrow> freelist e
      | Some b \<Rightarrow> (freelist e)(ptype_id (ports e ! p) := b # freelist e (ptype_id (ports e ! p))))\<rparr>"
proof -
  have none: "buffer_info r = None \<Longrightarrow> r\<lparr>in_use := False, alias1 := [], alias2 := [], buffer_info := None\<rparr> =
      r\<lparr>in_use := False, alias1 := [], alias2 := []\<rparr>" for r :: jack_port_t by (cases r) simp
  show ?thesis
    using assms by (auto simp: none jack_port_release_def Let_def upd_port_def released_def jack_slist_prepend_def
        fun_upd_def split: option.splits)
qed

lemma release_graph:
  assumes inv: "graph_inv e" and p: "p < length (ports e)" "connections (ports e ! p) = []"
    and ow: "\<And>d. ow d = (if d = c then remove1 p (cl_ports (cmem e d)) else cl_ports (cmem e d)) \<or> ow d = cl_ports (cmem e d)"
    and e': "core e' = g_replace p (port_core (released e p)) ow (core e)" "clients e' = clients e"
  shows "graph_inv e'" "links e' = links e"
proof -
  have n: "gp_conns (port_core (released e p)) = []" "\<not> gp_used (port_core (released e p))"
    using p(2) by (simp_all add: released_def)
  have o: "q \<in> set (ow d) \<longleftrightarrow> q \<in> set (cl_ports (cmem e d))" if "q \<noteq> p" for q d
    using ow [of d] that by (auto split: if_splits dest: notin_set_remove1)
  have "ginv (core e')"
    unfolding e' by (rule ginv_replace) (use inv p n o in \<open>auto simp: graph_inv_def\<close>)
  then show "graph_inv e'" using inv e'(2) by (simp add: graph_inv_def)
  show "links e' = links e" by (rule links_replace [OF e'(1) p n(1)])
qed

lemma core_released:
  assumes "p < length (ports e)"
  shows "core (upd_client c (\<lambda>r. r\<lparr>cl_ports := jack_slist_remove (cl_ports r) p\<rparr>) (jack_port_release e p)) =
    g_replace p (port_core (released e p))
      (\<lambda>d. if d = c then remove1 p (cl_ports (cmem e d)) else cl_ports (cmem e d)) (core e)"
  by (auto simp: release_shape [OF assms] core_def upd_client_def g_replace_def map_update fun_eq_iff)

lemma core_release:
  assumes "p < length (ports e)"
  shows "core (jack_port_release e p) = g_replace p (port_core (released e p)) (\<lambda>d. cl_ports (cmem e d)) (core e)"
  by (auto simp: release_shape [OF assms] core_def g_replace_def map_update fun_eq_iff)

end
