(* ===== verification/Port_Buffers.thy ===== *)
theory Port_Buffers
  imports Ports_Inv
begin

text \<open>
  The buffers of the ports. Each buffer of a port type is on the free list or belongs to exactly
  one port in use, buffer 0 (silence) to none, and the buffers of a type lie side by side in the
  shared segment, so that the ports never write into each other's audio.
\<close>

section \<open>The buffer invariant\<close>

definition buffer_of_type :: "jack_engine_t \<Rightarrow> nat \<Rightarrow> nat \<Rightarrow> bool" where
  "buffer_of_type e t b \<longleftrightarrow> 0 < b \<and> (case buffer_infos e t of None \<Rightarrow> False | Some n \<Rightarrow> b < n)"

definition port_buffer_ok :: "jack_engine_t \<Rightarrow> jack_port_t \<Rightarrow> bool" where
  "port_buffer_ok e r \<longleftrightarrow>
     (in_use r \<longrightarrow> \<not> flag_set (p_flags r) JackPortIsInput \<longrightarrow> buffer_info r \<noteq> None) \<and>
     (\<forall>b. buffer_info r = Some b \<longrightarrow> in_use r \<and> b \<notin> set (freelist e (ptype_id r)) \<and> buffer_of_type e (ptype_id r) b \<and>
        (flag_set (p_flags r) JackPortIsOutput \<longrightarrow> p_offset r = buffer_offset e (ptype_id r) b))"

definition free_ok :: "jack_engine_t \<Rightarrow> bool" where
  "free_ok e \<longleftrightarrow> (\<forall>t. distinct (freelist e t) \<and> (\<forall>b \<in> set (freelist e t). buffer_of_type e t b))"

definition exclusive :: "jack_port_t list \<Rightarrow> bool" where
  "exclusive ps \<longleftrightarrow> (\<forall>p < length ps. \<forall>q < length ps. \<forall>b.
     buffer_info (ps ! p) = Some b \<longrightarrow> buffer_info (ps ! q) = Some b \<longrightarrow> ptype_id (ps ! p) = ptype_id (ps ! q) \<longrightarrow> p = q)"

definition placed_ok :: "jack_engine_t \<Rightarrow> bool" where
  "placed_ok e \<longleftrightarrow> (\<forall>t n. buffer_infos e t = Some n \<longrightarrow> n = length (ports e) \<and>
     (\<exists>B > 0. port_segment e t = Some (int n * B) \<and> (\<forall>b < n. buffer_offset e t b = int b * B)))"

definition buffers_ok :: "jack_engine_t \<Rightarrow> bool" where
  "buffers_ok e \<longleftrightarrow> (\<forall>p < length (ports e). port_buffer_ok e (ports e ! p)) \<and> free_ok e \<and> exclusive (ports e) \<and> placed_ok e"

lemma port_buffer_cong:
  assumes "ptype_id r' = ptype_id r" "p_offset r' = p_offset r" "p_flags r' = p_flags r" "in_use r' = in_use r"
    "buffer_info r' = buffer_info r" "freelist e' = freelist e" "buffer_infos e' = buffer_infos e" "buffer_offset e' = buffer_offset e"
  shows "port_buffer_ok e' r' = port_buffer_ok e r"
  using assms by (simp add: port_buffer_ok_def buffer_of_type_def)

lemma buffers_ok_kept:
  assumes k: "kept e e'" and ok: "buffers_ok e"
  shows "buffers_ok e'"
proof -
  note en = kept_engine [OF k] and po = kept_port [OF k]
  have "port_buffer_ok e' (ports e' ! p)" if "p < length (ports e')" for p
    using port_buffer_cong [of "ports e' ! p" "ports e ! p" e' e] po [of p] en that ok by (simp add: buffers_ok_def)
  moreover have "free_ok e'" "placed_ok e'" using ok en by (simp_all add: buffers_ok_def free_ok_def placed_ok_def buffer_of_type_def)
  moreover have "exclusive (ports e')" using ok po en(1) by (simp add: buffers_ok_def exclusive_def)
  ultimately show ?thesis by (simp add: buffers_ok_def)
qed

lemma buffers_ok_counters [simp]: "buffers_ok (with_counters a b c d e) = buffers_ok e"
  by (simp add: buffers_ok_def free_ok_def placed_ok_def port_buffer_ok_def buffer_of_type_def with_counters_def)

section \<open>Registering and releasing\<close>

lemma exclusive_update:
  assumes "exclusive ps" "p < length ps"
    "\<And>q b. q < length ps \<Longrightarrow> q \<noteq> p \<Longrightarrow> buffer_info r = Some b \<Longrightarrow> ptype_id (ps ! q) = ptype_id r \<Longrightarrow> buffer_info (ps ! q) \<noteq> Some b"
  shows "exclusive (ps[p := r])"
  unfolding exclusive_def
proof (intro allI impI)
  fix i j b
  assume a: "i < length (ps[p := r])" "j < length (ps[p := r])" "buffer_info (ps[p := r] ! i) = Some b"
    "buffer_info (ps[p := r] ! j) = Some b" "ptype_id (ps[p := r] ! i) = ptype_id (ps[p := r] ! j)"
  show "i = j"
  proof (cases "i = p \<or> j = p")
    case True
    then show ?thesis using a assms(2) assms(3) [of i b] assms(3) [of j b] by (cases "i = p"; cases "j = p") simp_all
  next
    case False
    then have "i \<noteq> p" "j \<noteq> p" by simp_all
    then show ?thesis using a assms(1) unfolding exclusive_def by simp
  qed
qed

lemma buffers_registered:
  assumes ok: "buffers_ok e" and p: "p < length (ports e)" "\<not> in_use (ports e ! p)" and new: "new_port e ty rq r"
  shows "buffers_ok (registered e c ty rq p r)"
proof -
  let ?e = "registered e c ty rq p r"
  have f: "distinct (freelist e t)" "\<And>b. b \<in> set (freelist e t) \<Longrightarrow> buffer_of_type e t b" for t
    using ok by (auto simp: buffers_ok_def free_ok_def)
  have bt: "buffer_of_type ?e = buffer_of_type e" by (simp add: buffer_of_type_def registered_def fun_eq_iff)
  have sub: "set (freelist ?e t) \<subseteq> set (freelist e t)" for t
    by (cases "freelist e ty") (auto simp: registered_def)
  have hd: "b \<in> set (freelist e ty)" "b \<notin> set (freelist ?e ty)" if "buffer_info r = Some b" for b
    using that new f(1) [of ty] by (cases "freelist e ty"; auto simp: new_port_def registered_def split: if_splits)+
  have "port_buffer_ok ?e (ports ?e ! q)" if q: "q < length (ports ?e)" for q
  proof (cases "q = p")
    case True
    then show ?thesis using p new hd f(2)
      by (auto simp: port_buffer_ok_def bt) (auto simp: new_port_def registered_def split: if_splits)
  next
    case False
    then have "port_buffer_ok e (ports e ! q)" "ports ?e ! q = ports e ! q" using q ok by (auto simp: buffers_ok_def registered_def)
    then show ?thesis using sub by (auto simp: port_buffer_ok_def bt) (auto simp: registered_def)
  qed
  moreover have "free_ok ?e"
    using f by (auto simp: free_ok_def bt distinct_tl dest: subsetD [OF sub]) (simp add: registered_def distinct_tl)
  moreover have "exclusive (ports ?e)"
  proof -
    have "buffer_info (ports e ! q) \<noteq> Some b"
      if "q < length (ports e)" "buffer_info r = Some b" "ptype_id (ports e ! q) = ptype_id r" for q b
      using hd(1) [OF that(2)] ok that new by (auto simp: buffers_ok_def port_buffer_ok_def new_port_def)
    then show ?thesis using exclusive_update [of "ports e" p r] ok p(1) by (auto simp: buffers_ok_def registered_def)
  qed
  moreover have "placed_ok ?e" using ok by (simp add: buffers_ok_def placed_ok_def registered_def)
  ultimately show ?thesis by (simp add: buffers_ok_def)
qed

lemma buffers_port_gone:
  assumes ok: "buffers_ok e" and p: "p < length (ports e)" and none: "buffer_info (ports e ! p) = None"
    and r: "\<not> in_use r" "buffer_info r = None"
  shows "buffers_ok (e\<lparr>ports := (ports e)[p := r]\<rparr>)"
proof -
  let ?e = "e\<lparr>ports := (ports e)[p := r]\<rparr>"
  have bt: "buffer_of_type ?e = buffer_of_type e" by (simp add: buffer_of_type_def fun_eq_iff)
  have "port_buffer_ok ?e (ports ?e ! q)" if "q < length (ports ?e)" for q
    using ok r that by (cases "q = p") (auto simp: buffers_ok_def port_buffer_ok_def bt)
  moreover have "exclusive (ports ?e)" using exclusive_update [of "ports e" p r] ok p r by (simp add: buffers_ok_def)
  ultimately show ?thesis using ok by (simp add: buffers_ok_def free_ok_def placed_ok_def bt)
qed

lemma buffers_release:
  assumes ok: "buffers_ok e" and p: "p < length (ports e)"
  shows "buffers_ok (jack_port_release e p)"
proof (cases "buffer_info (ports e ! p)")
  case None
  then show ?thesis using buffers_port_gone [OF ok p None, of "released e p"] release_shape [OF p] by (simp add: released_def)
next
  case (Some b)
  let ?e = "jack_port_release e p" and ?t = "ptype_id (ports e ! p)"
  note sh = release_shape [OF p, unfolded Some option.case]
  have bt: "buffer_of_type ?e = buffer_of_type e" by (simp add: buffer_of_type_def fun_eq_iff sh)
  have b: "b \<notin> set (freelist e ?t)" "buffer_of_type e ?t b"
    using ok p Some by (auto simp: buffers_ok_def port_buffer_ok_def)
  have "port_buffer_ok ?e (ports ?e ! q)" if q: "q < length (ports e)" for q
  proof (cases "q = p")
    case True
    then show ?thesis using p by (simp add: port_buffer_ok_def sh released_def)
  next
    case False
    have "buffer_info (ports e ! q) = Some b \<Longrightarrow> ptype_id (ports e ! q) \<noteq> ?t"
      using ok False q p Some by (auto simp: buffers_ok_def exclusive_def)
    moreover have "port_buffer_ok e (ports e ! q)" using ok q by (simp add: buffers_ok_def)
    ultimately show ?thesis using False by (auto simp: port_buffer_ok_def bt) (auto simp: sh split: if_splits)
  qed
  moreover have "free_ok ?e" using ok b by (auto simp: buffers_ok_def free_ok_def bt) (auto simp: sh split: if_splits)
  moreover have "exclusive (ports ?e)"
    using exclusive_update [of "ports e" p "released e p"] ok p by (simp add: buffers_ok_def sh released_def)
  moreover have "placed_ok ?e" using ok by (simp add: buffers_ok_def placed_ok_def sh)
  ultimately show ?thesis by (simp add: buffers_ok_def sh)
qed

section \<open>Placing the buffers\<close>

lemma place_offsets_all:
  "0 < B \<Longrightarrow> 0 \<le> off \<Longrightarrow> off + int m * B < 2 ^ 31 \<Longrightarrow>
   place_offsets m B (off + int m * B) off = Some (map (\<lambda>i. off + int i * B) [0..<m])"
proof (induction m arbitrary: off)
  case 0
  then show ?case by (simp add: place_offsets.simps)
next
  case (Suc m)
  have nn: "0 \<le> int m * B" using Suc.prems(1) by simp
  have eq: "off + int (Suc m) * B = (off + B) + int m * B" by (simp add: algebra_simps)
  have lt: "off < off + int (Suc m) * B" using nn Suc.prems(1) unfolding eq by linarith
  have s: "s32 (off + B) = off + B" using nn Suc.prems unfolding eq by (intro s32_id) linarith+
  have "place_offsets m B (off + int (Suc m) * B) (off + B) = Some (map (\<lambda>i. off + int (Suc i) * B) [0..<m])"
    using Suc.IH [of "off + B"] Suc.prems eq by (simp add: algebra_simps)
  moreover have "map (\<lambda>i. off + int i * B) [0..<Suc m] = off # map (\<lambda>i. off + int (Suc i) * B) [0..<m]"
    by (subst upt_conv_Cons) (simp_all add: map_Suc_upt [symmetric] del: upt_Suc map_Suc_upt)
  ultimately show ?case using lt s by (subst place_offsets.simps) simp
qed

lemma adopt_simps [simp]:
  "ports (adopt_buffers t n b bs e) = ports e" "clients (adopt_buffers t n b bs e) = clients e"
  "buffer_infos (adopt_buffers t n b bs e) = (buffer_infos e)(t := Some n)"
  "freelist (adopt_buffers t n b bs e) = (freelist e)(t := bs)" "buffer_offset (adopt_buffers t n b bs e) = buffer_offset e"
  "port_segment (adopt_buffers t n b bs e) = port_segment e" "core (adopt_buffers t n b bs e) = core e"
  "buffer_size (control (adopt_buffers t n b bs e)) = buffer_size (control e)"
  "length (port_types (control (adopt_buffers t n b bs e))) = length (port_types (control e))"
  by (simp_all add: adopt_buffers_def Let_def upd_control_def core_def)

lemma write_simps [simp]:
  "ports (write_offsets t offs e) = ports e" "clients (write_offsets t offs e) = clients e"
  "buffer_infos (write_offsets t offs e) = buffer_infos e" "freelist (write_offsets t offs e) = freelist e"
  "port_segment (write_offsets t offs e) = port_segment e" "core (write_offsets t offs e) = core e"
  "control (write_offsets t offs e) = control e"
  by (simp_all add: write_offsets_def core_def)

definition segment_fits :: "jack_engine_t \<Rightarrow> int \<Rightarrow> bool" where
  "segment_fits e B \<longleftrightarrow> 0 < B \<and> ports e \<noteq> [] \<and> int (length (ports e)) * B < 2 ^ 31"

lemma place_Value:
  assumes ok: "buffers_ok e" and fits: "segment_fits e B"
  shows "\<exists>e'. jack_engine_place_port_buffers (e\<lparr>port_segment := (port_segment e)(t := Some (int (length (ports e)) * B))\<rparr>)
      t B (int (length (ports e)) * B) (length (ports e)) = Value e' \<and> buffers_ok e'"
proof -
  let ?n = "length (ports e)"
  let ?s = "e\<lparr>port_segment := (port_segment e)(t := Some (int ?n * B))\<rparr>"
  let ?offs = "map (\<lambda>i. int i * B) [0..<?n]"
  have B: "0 < B" "0 < ?n" "int ?n * B < 2 ^ 31" using fits by (auto simp: segment_fits_def)
  have pl: "place_offsets ?n B (int ?n * B) 0 = Some ?offs" using place_offsets_all [OF B(1), of 0 ?n] B(3) by simp
  let ?w = "write_offsets t ?offs ?s"
  have off: "buffer_offset ?w u b = (if u = t \<and> b < ?n then int b * B else buffer_offset e u b)" for u b
    by (simp add: write_offsets_def)
  have placed: "placed_ok e" using ok by (simp add: buffers_ok_def)
  show ?thesis
  proof (cases "buffer_infos e t")
    case (Some n)
    then have n: "n = ?n" using placed by (simp add: placed_ok_def)
    define x where "x = ?w\<lparr>ports := map (update_port_offset t ?w) (ports e)\<rparr>"
    have val: "jack_engine_place_port_buffers ?s t B (int ?n * B) ?n = Value x"
      using Some n pl by (simp add: jack_engine_place_port_buffers_def Let_def x_def)
    have ports: "ports x = map (update_port_offset t ?w) (ports e)" by (simp add: x_def)
    have up: "buffer_info (update_port_offset t y r) = buffer_info r" "ptype_id (update_port_offset t y r) = ptype_id r"
      "in_use (update_port_offset t y r) = in_use r" "p_flags (update_port_offset t y r) = p_flags r" for y r
      by (auto simp: update_port_offset_def split: option.splits)
    have bt: "buffer_of_type x = buffer_of_type e" by (simp add: buffer_of_type_def fun_eq_iff x_def)
    have fl: "freelist x = freelist e" by (simp add: x_def)
    have bo: "buffer_offset x = buffer_offset ?w" by (simp add: x_def)
    have "port_buffer_ok x (update_port_offset t ?w r)" if r: "port_buffer_ok e r" for r
    proof -
      have "p_offset (update_port_offset t ?w r) = buffer_offset ?w (ptype_id r) b"
        if b: "buffer_info r = Some b" "flag_set (p_flags r) JackPortIsOutput" for b
        using r b by (auto simp: update_port_offset_def port_buffer_ok_def off)
      then show ?thesis using r by (auto simp: port_buffer_ok_def up bt fl bo)
    qed
    then have "\<forall>p < length (ports x). port_buffer_ok x (ports x ! p)"
      using ok unfolding ports by (simp add: buffers_ok_def)
    moreover have "free_ok x" using ok by (simp add: buffers_ok_def free_ok_def bt fl)
    moreover have "exclusive (ports x)" using ok unfolding ports by (simp add: buffers_ok_def exclusive_def up)
    moreover have "placed_ok x"
      using placed B(1) unfolding placed_ok_def bo off unfolding ports
      by (auto simp: x_def)
    ultimately show ?thesis using val by (auto simp: buffers_ok_def)
  next
    case None
    have fl: "freelist e t = []"
    proof -
      have "\<forall>b \<in> set (freelist e t). buffer_of_type e t b" using ok by (simp add: buffers_ok_def free_ok_def)
      then have "set (freelist e t) = {}" using None by (auto simp: buffer_of_type_def)
      then show ?thesis by simp
    qed
    have up: "[0..<?n] = 0 # [Suc 0..<?n]" using B(2) by (simp add: upt_conv_Cons)
    let ?a = "adopt_buffers t ?n 0 [Suc 0..<?n] ?w"
    have val: "jack_engine_place_port_buffers ?s t B (int ?n * B) ?n = Value ?a"
    proof -
      have "length ?offs = ?n" by simp
      then show ?thesis using None pl fl up by (simp add: jack_engine_place_port_buffers_def Let_def split: list.split)
    qed
    have e': "ports ?a = ports e" "buffer_infos ?a = (buffer_infos e)(t := Some ?n)"
      "freelist ?a = (freelist e)(t := [Suc 0..<?n])" "buffer_offset ?a = buffer_offset ?w" "port_segment ?a = port_segment ?s"
      by simp_all
    have bt: "buffer_of_type ?a u b = (if u = t then 0 < b \<and> b < ?n else buffer_of_type e u b)" for u b
      by (simp add: buffer_of_type_def e'(2))
    have other: "ptype_id r \<noteq> t" if "port_buffer_ok e r" "buffer_info r = Some b" for r b
      using that None by (auto simp: port_buffer_ok_def buffer_of_type_def)
    have "port_buffer_ok ?a r" if "port_buffer_ok e r" for r
      using that other [OF that] by (auto simp: port_buffer_ok_def bt e'(3,4) off)
    then have "\<forall>p < length (ports ?a). port_buffer_ok ?a (ports ?a ! p)" using ok by (simp add: buffers_ok_def)
    moreover have "free_ok ?a" using ok by (simp add: buffers_ok_def free_ok_def bt e'(3))
    moreover have "placed_ok ?a"
      using placed B(1) unfolding placed_ok_def e'(1,2,4,5) off by auto
    ultimately show ?thesis using val ok by (simp add: buffers_ok_def)
  qed
qed

section \<open>The operations\<close>

text \<open>
  What a state of the port registry keeps: the graph invariant and the buffer invariant. The
  operations below never end in an undefined state.
\<close>

definition registry_inv :: "jack_engine_t \<Rightarrow> bool" where
  "registry_inv e \<longleftrightarrow> graph_inv e \<and> buffers_ok e"

lemma registry_same:
  "registry_inv e \<Longrightarrow> same_graph e e' \<Longrightarrow> kept e e' \<Longrightarrow> registry_inv e'"
  using same_graph_inv buffers_ok_kept by (auto simp: registry_inv_def)

lemma place_cases:
  assumes "jack_engine_place_port_buffers e t B S n = Value e'"
  obtains offs where "e' = (write_offsets t offs e)\<lparr>ports := map (update_port_offset t (write_offsets t offs e)) (ports e)\<rparr>"
  | offs b bs where "e' = adopt_buffers t n b bs (write_offsets t offs e)"
  using assms unfolding jack_engine_place_port_buffers_def
  by (auto simp: Let_def split: option.splits list.splits)

lemma same_graph_place:
  assumes "jack_engine_place_port_buffers e t B S n = Value e'"
  shows "same_graph e e'"
  using assms
proof (cases rule: place_cases)
  case (1 offs)
  have "port_core \<circ> update_port_offset t x = port_core" for x
    by (auto simp: update_port_offset_def port_core_def fun_eq_iff split: option.splits)
  then show ?thesis using 1 by (simp add: same_graph_def core_def write_offsets_def)
qed (simp add: same_graph_def)

lemma one_buffer_adopt [simp]: "one_buffer (adopt_buffers t n b bs e) u = one_buffer e u"
proof -
  have sz: "jack_port_type_buffer_size (xs[t := (xs ! t)\<lparr>zero_buffer_offset := z\<rparr>] ! u) m = jack_port_type_buffer_size (xs ! u) m" for t xs z m
    by (cases "t < length xs"; cases "u = t") (simp_all add: jack_port_type_buffer_size_def list_update_beyond not_less)
  show ?thesis by (cases "t = 0") (simp_all add: one_buffer_def adopt_buffers_def Let_def upd_control_def sz)
qed

lemma place_one_buffer:
  assumes "jack_engine_place_port_buffers e t B S n = Value e'"
  shows "one_buffer e' u = one_buffer e u" "length (port_types (control e')) = length (port_types (control e))"
    "length (ports e') = length (ports e)"
proof -
  have w: "one_buffer ((write_offsets t offs e)\<lparr>ports := x\<rparr>) u = one_buffer e u" "one_buffer (write_offsets t offs e) u = one_buffer e u" for offs x
    by (simp_all add: one_buffer_def)
  show "one_buffer e' u = one_buffer e u" using assms by (cases rule: place_cases) (simp_all add: w)
  show "length (port_types (control e')) = length (port_types (control e))" using assms by (cases rule: place_cases) simp_all
  show "length (ports e') = length (ports e)" using assms by (cases rule: place_cases) simp_all
qed

lemma deliver_all_frame:
  "same_graph e (jack_deliver_event_to_all e ev)" "kept e (jack_deliver_event_to_all e ev)"
  unfolding jack_deliver_event_to_all_def by (intro graph_frame same_graph_refl) (intro kept_frame kept_refl)

lemma resize_Value:
  assumes inv: "registry_inv e" and fits: "segment_fits e (one_buffer e t)"
  shows "\<exists>e' r. jack_resize_port_segment e shm_ok t (length (ports e)) = Value (e', r) \<and> registry_inv e' \<and>
    r = (if shm_ok then 0 else -1) \<and> length (ports e') = length (ports e) \<and> (\<forall>u. one_buffer e' u = one_buffer e u) \<and>
    same_graph e e'"
proof (cases shm_ok)
  case False
  then show ?thesis using inv by (simp add: jack_resize_port_segment_def Let_def)
next
  case True
  let ?n = "int (length (ports e))" and ?B = "one_buffer e t"
  let ?s = "e\<lparr>port_segment := (port_segment e)(t := Some (?n * ?B))\<rparr>"
  have ok: "buffers_ok e" and g: "graph_inv e" using inv by (auto simp: registry_inv_def)
  have "0 \<le> ?n * ?B" "?n * ?B < 2 ^ 31" using fits by (auto simp: segment_fits_def)
  then have s: "s32 (?n * ?B) = ?n * ?B" by (intro s32_id) linarith+
  obtain e1 where e1: "jack_engine_place_port_buffers ?s t ?B (?n * ?B) (length (ports e)) = Value e1" "buffers_ok e1"
    using place_Value [OF ok fits] by blast
  let ?e = "jack_deliver_event_to_all e1 (AttachPortSegment t)"
  have sg: "same_graph e e1" using same_graph_place [OF e1(1)] by (simp add: same_graph_def core_def)
  have sg2: "same_graph e ?e" by (rule same_graph_trans [OF sg deliver_all_frame(1)])
  have k: "kept e1 ?e" by (rule deliver_all_frame)
  have "registry_inv e1" using sg g e1(2) same_graph_inv by (simp add: registry_inv_def)
  then have "registry_inv ?e" using registry_same deliver_all_frame by blast
  moreover have "one_buffer ?e u = one_buffer e u" for u
    using place_one_buffer(1) [OF e1(1), of u] kept_engine(2) [OF k] by (simp add: one_buffer_def)
  moreover have "length (ports ?e) = length (ports e)" using place_one_buffer(3) [OF e1(1)] kept_engine(1) [OF k] by simp
  ultimately show ?thesis using True e1(1) s sg2 by (simp add: jack_resize_port_segment_def)
qed

lemma resize_segments_Value:
  "registry_inv e \<Longrightarrow> (\<And>t. t \<in> set ts \<Longrightarrow> segment_fits e (one_buffer e t)) \<Longrightarrow>
   \<exists>e' r. resize_segments e shm_ok ts = Value (e', r) \<and> registry_inv e' \<and> same_graph e e' \<and>
     r = (if \<forall>t \<in> set ts. shm_ok t then 0 else -1)"
proof (induction ts arbitrary: e)
  case Nil
  then show ?case by simp
next
  case (Cons t ts)
  obtain e1 r where e1: "jack_resize_port_segment e (shm_ok t) t (length (ports e)) = Value (e1, r)" "registry_inv e1"
    "r = (if shm_ok t then 0 else -1)" "length (ports e1) = length (ports e)" "\<forall>u. one_buffer e1 u = one_buffer e u"
    "same_graph e e1"
    using resize_Value [OF Cons.prems(1), of t "shm_ok t"] Cons.prems(2) by force
  have "ports e1 \<noteq> [] \<longleftrightarrow> ports e \<noteq> []" using e1(4) by (metis length_0_conv)
  then have "segment_fits e1 (one_buffer e1 u)" if "u \<in> set ts" for u
    using Cons.prems(2) [of u] that e1(4,5) by (simp add: segment_fits_def)
  then show ?case using Cons.IH [OF e1(2)] e1 same_graph_trans by (cases "shm_ok t") auto
qed

definition new_buffer_size :: "jack_engine_t \<Rightarrow> jack_nframes_t \<Rightarrow> jack_engine_t" where
  "new_buffer_size e nframes = upd_control (\<lambda>c. c\<lparr>buffer_size := nframes\<rparr>) e"

lemma driver_buffer_size_Value:
  assumes inv: "registry_inv e"
    and fits: "\<And>t. t < length (port_types (control e)) \<Longrightarrow> segment_fits e (one_buffer (new_buffer_size e nframes) t)"
  shows "\<exists>e' r. jack_driver_buffer_size e shm_ok nframes = Value (e', r) \<and> registry_inv e' \<and> same_graph e e' \<and>
    r = (if \<forall>t < length (port_types (control e)). shm_ok t then 0 else -1)"
proof -
  let ?e = "new_buffer_size e nframes"
  have s: "same_graph e ?e" by (simp add: same_graph_def core_def new_buffer_size_def upd_control_def)
  have "buffers_ok ?e"
    using inv by (simp add: registry_inv_def buffers_ok_def free_ok_def placed_ok_def port_buffer_ok_def buffer_of_type_def
        new_buffer_size_def upd_control_def)
  then have "registry_inv ?e" using inv same_graph_inv [OF s] by (simp add: registry_inv_def)
  moreover have "segment_fits ?e (one_buffer ?e t)" if "t \<in> set [0..<length (port_types (control e))]" for t
    using fits [of t] that by (simp add: segment_fits_def new_buffer_size_def upd_control_def)
  ultimately obtain e1 r where e1: "resize_segments ?e shm_ok [0..<length (port_types (control e))] = Value (e1, r)"
    "registry_inv e1" "same_graph ?e e1" "r = (if \<forall>t \<in> set [0..<length (port_types (control e))]. shm_ok t then 0 else -1)"
    using resize_segments_Value by blast
  have sg: "same_graph e e1" by (rule same_graph_trans [OF s e1(3)])
  have "registry_inv (jack_deliver_event_to_all e1 BufferSizeChange)" "same_graph e (jack_deliver_event_to_all e1 BufferSizeChange)"
    using registry_same [OF e1(2) deliver_all_frame] same_graph_trans [OF sg deliver_all_frame(1)] by auto
  then show ?thesis
    using e1 sg unfolding jack_driver_buffer_size_def new_buffer_size_def by auto
qed

end
