(* ===== verification/Graph_Properties.thy ===== *)
theory Graph_Properties
  imports Graph_Connect
begin

text \<open>
  The contract of the port graph, for the whole requests a client can make, and for every
  sequence of them; with the places where the code does less than its comments say.
\<close>

section \<open>A server with no connections\<close>

lemma unconnected_inv:
  assumes "distinct (clients e)" "driver_client e \<noteq> None" "inj_on (\<lambda>c. cl_id (cmem e c)) (set (clients e))"
    "\<forall>p < length (ports e). connections (ports e ! p) = [] \<and>
       (in_use (ports e ! p) \<longrightarrow>
         \<not> (flag_set (p_flags (ports e ! p)) JackPortIsInput \<and> flag_set (p_flags (ports e ! p)) JackPortIsOutput) \<and>
         (\<forall>c \<in> set (clients e). p_client_id (ports e ! p) = cl_id (cmem e c) \<longrightarrow> p \<in> set (cl_ports (cmem e c))))"
    "\<forall>c \<in> set (clients e). sortfeeds (cmem e c) = [] \<and> truefeeds (cmem e c) = [] \<and> fedcount (cmem e c) = 0 \<and>
       (\<forall>p \<in> set (cl_ports (cmem e c)). p < length (ports e))"
    "feedbackcount e = 0"
  shows "graph_inv e"
proof -
  have l: "live (core e) = {}" using assms(4) by (auto simp: live_nth)
  have "inj_on (g_id (core e)) (set (clients e))" using assms(3) by (simp add: inj_on_def)
  moreover have "ports_ok (core e)" using assms(4) by (simp add: ports_ok_def)
  moreover have "counts_ok (core e)" using assms(5) by (auto simp: counts_ok_def edge_conns_def l)
  moreover have "edges_on (set (clients e)) (g_sort (core e)) = {}" using assms(5) by (auto simp: edges_on_def)
  ultimately show ?thesis
    using assms by (auto simp: graph_inv_def ginv_def gbooks_def single_connections_def edge_conns_def l acyclic_def)
qed

text \<open>A driver and five clients; the driver and three of the clients have a port in each direction.\<close>

definition demo_client :: "u32 \<Rightarrow> ClientType \<Rightarrow> pidx list \<Rightarrow> jack_client_internal_t" where
  "demo_client i ty ps = \<lparr>cl_id = i, cl_uid = 0, cl_name = ''client'', cl_type = ty, active = True, dead = False,
     timed_out = 0, awake_at = 0, finished_at = 0, is_timebase = False, timebase_new = False, is_slowsync = False,
     active_slowsync = False, sync_poll = False, sync_new = False, process_cbset = True, thread_cb_cbset = False,
     port_register_cbset = False, port_connect_cbset = False, client_register_cbset = False, sync_cb_cbset = False,
     timebase_cb_cbset = False, request_fd = 4, event_fd = 5, subgraph_start_fd = -1, subgraph_wait_fd = -1,
     cl_ports = ps, truefeeds = [], sortfeeds = [], fedcount = 0, tfedcount = 0, execution_order = 0,
     next_client = None, cl_error = 0, session_reply_pending = False, handle = False,
     cl_state = NotTriggered, last_status = 0, session_cbset = False, session_command = [], session_flags = 0\<rparr>"

definition demo_port :: "u32 \<Rightarrow> u32 \<Rightarrow> string \<Rightarrow> jack_port_t" where
  "demo_port i flags name = \<lparr>ptype_id = 0, p_offset = 0, p_flags = flags, p_name = name, alias1 = [], alias2 = [],
     p_client_id = i, latency = 0, total_latency = 0, monitor_requests = 0, has_mixdown = True, in_use = True,
     connections = [], buffer_info = None\<rparr>"

definition demo_control :: jack_control_t where
  "demo_control = \<lparr>transport_state = JackTransportStopped, transport_cmd = TransportCommandNone,
     previous_cmd = TransportCommandNone, current_time = jack_position_zero, pending_time = jack_position_zero,
     request_time = jack_position_zero, prev_request = 0, seq_number = 1, new_pos = False, pending_pos = False,
     pending_frame = 0, sync_clients = 0, sync_remain = 0, sync_timeout = 2000000, sync_time_left = 0,
     buffer_size = 64, port_types = [\<lparr>type_name = ''32 bit float mono audio'', buffer_scale_factor = 1, type_buffer_size = 0, zero_buffer_offset = 0\<rparr>]\<rparr>"

definition demo_engine :: jack_engine_t where
  "demo_engine = \<lparr>control = demo_control, clients = [0, 1, 2, 3, 4, 5],
     cmem = (\<lambda>c. if c = 0 then demo_client 1 ClientDriver [0, 1]
             else if c = 1 then demo_client 2 ClientExternal [2, 3]
             else if c = 2 then demo_client 3 ClientExternal [4, 5] else if c = 3 then demo_client 4 ClientExternal [6, 7]
             else if c = 4 then demo_client 5 ClientExternal [] else demo_client 6 ClientExternal []),
     next_cptr = 6,
     ports = [demo_port 1 JackPortIsOutput ''system:out'', demo_port 1 JackPortIsInput ''system:in'',
              demo_port 2 JackPortIsOutput ''a:out'', demo_port 2 JackPortIsInput ''a:in'',
              demo_port 3 JackPortIsOutput ''b:out'', demo_port 3 JackPortIsInput ''b:in'',
              demo_port 4 JackPortIsOutput ''c:out'', demo_port 4 JackPortIsInput ''c:in''],
     freelist = (\<lambda>_. []), buffer_infos = (\<lambda>_. None), buffer_offset = (\<lambda>_ _. 0), port_segment = (\<lambda>_. None),
     silent_buffer = None,
     conns = (\<lambda>_. \<lparr>source = 0, destination = 0, srcclient = 0, dstclient = 0, dir = 0\<rparr>), next_kptr = 0,
     feedbackcount = 0, timebase_client = None, driver_client = Some 0, next_client_id = 7,
     reserved_client_names = [], external_client_cnt = 5, timeout_count = 0, problems = 0,
     session_pending_replies = 0, session_reply_fd = -1, temporary = False, wait_pid = -1, shut_down = False, new_clients_allowed = True,
     nozombies = False, freewheeling = False, stop_freewheeling = False, fwclient = 0, slave_drivers = [],
     process_errors = 0, fifo_fd = (\<lambda>n. int n + 10),
     audio_out_cnt = 4, audio_in_cnt = 4, midi_out_cnt = 0, midi_in_cnt = 0,
     io = (\<lambda>_. \<lparr>process_alive = True, event_written = True, poll_result = PollReadable, status_read = Some 0\<rparr>),
     io_pos = 0, trace = [], sent = []\<rparr>"

lemmas demo_defs = demo_engine_def demo_client_def demo_port_def

lemma demo_inv: "graph_inv demo_engine"
proof (rule unconnected_inv)
  let ?P = "\<lambda>p. connections (ports demo_engine ! p) = [] \<and>
       (in_use (ports demo_engine ! p) \<longrightarrow>
         \<not> (flag_set (p_flags (ports demo_engine ! p)) JackPortIsInput \<and> flag_set (p_flags (ports demo_engine ! p)) JackPortIsOutput) \<and>
         (\<forall>c \<in> set (clients demo_engine). p_client_id (ports demo_engine ! p) = cl_id (cmem demo_engine c) \<longrightarrow>
            p \<in> set (cl_ports (cmem demo_engine c))))"
  have "\<forall>p \<in> set [0..<8]. ?P p"
    by (simp add: demo_defs flag_set_def JackPortIsInput_def JackPortIsOutput_def upt_rec)
  moreover have "length (ports demo_engine) = 8" by (simp add: demo_engine_def)
  ultimately show "\<forall>p < length (ports demo_engine). ?P p" by simp
qed (auto simp: demo_defs)

lemma demo_checks:
  "connect_checks demo_engine ''a:out'' ''b:in'' = Inr (2, 5, 1, 2)"
  "connect_checks demo_engine ''b:out'' ''system:in'' = Inr (4, 1, 2, 0)"
  by (simp_all add: connect_checks_def jack_get_port_by_name_def jack_port_name_equals_def demo_defs
      jack_client_internal_by_id_def flag_set_def JackPortIsInput_def JackPortIsOutput_def)

lemma demo_links: "links demo_engine = {}"
  by (auto simp: links_def live_def demo_defs)


section \<open>Requests\<close>

lemma connect_checks_error: "connect_checks e s d = Inl err \<Longrightarrow> err = -1 \<or> err = EEXIST"
  unfolding connect_checks_def by (auto split: option.splits if_splits)

text \<open>C2: a connection request that fails one of the checks returns an error code and changes
  nothing; one that passes them returns 0 and adds exactly the link between the two ports. Either
  way the request returns (the search for a path ends) and the graph invariant holds again. The
  feedback counter grows by one exactly when the new edge closes a cycle.\<close>

theorem connect_request:
  assumes "graph_inv e"
  shows "case connect_checks e s d of
      Inl err \<Rightarrow> err \<noteq> 0 \<and> jack_port_do_connect e s d = Value (e, err)
    | Inr (src, dst, sc, dc) \<Rightarrow> \<exists>e'. jack_port_do_connect e s d = Value (e', 0) \<and> graph_inv e' \<and>
        links e' = insert (src, dst) (links e) \<and> mset (clients e') = mset (clients e) \<and>
        feedbackcount e' = feedbackcount e +
          (if \<not> is_driver e dc \<and> sc \<noteq> dc \<and> (dc, sc) \<in> (must_precede e)\<^sup>+ then 1 else 0)"
proof (cases "connect_checks e s d")
  case (Inl err)
  then show ?thesis using connect_checks_error [OF Inl] by (auto simp: jack_port_do_connect_def EEXIST_def)
next
  case (Inr x)
  obtain src dst sc dc where x: "x = (src, dst, sc, dc)" by (metis prod_cases4)
  show ?thesis using connect_Value [OF assms, of s d src dst sc dc] unfolding Inr x sum.case prod.case by blast
qed

theorem connect_request_witness:
  "\<exists>e'. jack_port_do_connect demo_engine ''a:out'' ''b:in'' = Value (e', 0) \<and> links e' = {(2, 5)}"
  using connect_request [OF demo_inv, of "''a:out''" "''b:in''"] by (auto simp: demo_checks demo_links)

text \<open>C14: a disconnection request names two ports; it fails when one of them does not exist or when
  they are not linked, and otherwise removes exactly their link. It always returns, the check for
  an acyclic graph included, and keeps the graph invariant.\<close>

theorem disconnect_request:
  assumes "graph_inv e"
  shows "case (jack_get_port_by_name e s, jack_get_port_by_name e d) of
      (Some src, Some dst) \<Rightarrow> \<exists>e'. graph_inv e' \<and> links e' = links e - {(src, dst)} \<and>
        mset (clients e') = mset (clients e) \<and>
        jack_port_do_disconnect e s d = Value (e', if (src, dst) \<in> links e then 0 else -1)
    | _ \<Rightarrow> jack_port_do_disconnect e s d = Value (e, -1)"
proof (cases "jack_get_port_by_name e s")
  case None
  then show ?thesis by (simp add: jack_port_do_disconnect_def)
next
  case (Some src)
  then have src: "src < length (ports e)" using by_name_Some by blast
  show ?thesis
  proof (cases "jack_get_port_by_name e d")
    case None
    then show ?thesis using Some by (simp add: jack_port_do_disconnect_def)
  next
    case (Some dst)
    have "jack_port_do_disconnect e s d = jack_port_disconnect_internal e src dst"
      using Some \<open>jack_get_port_by_name e s = Some src\<close> by (simp add: jack_port_do_disconnect_def)
    then show ?thesis using disconnect_Value [OF assms src, of dst] Some \<open>jack_get_port_by_name e s = Some src\<close>
      by auto
  qed
qed

theorem disconnect_request_witness:
  "\<exists>e'. jack_port_do_disconnect demo_engine ''a:out'' ''b:in'' = Value (e', -1) \<and> links e' = {}"
proof -
  have "jack_get_port_by_name demo_engine ''a:out'' = Some 2" "jack_get_port_by_name demo_engine ''b:in'' = Some 5"
    using connect_checks_Inr(1,2) [OF demo_checks(1)] .
  then show ?thesis using disconnect_request [OF demo_inv, of "''a:out''" "''b:in''"] by (auto simp: demo_links)
qed

lemma disconnect_all_Value:
  assumes "graph_inv e" "p < length (ports e)"
  shows "\<exists>e'. jack_port_do_disconnect_all e p = Value (e', 0) \<and> graph_inv e' \<and>
    links e' = links e - at_port p \<and> mset (clients e') = mset (clients e)"
proof -
  obtain e1 where e1: "jack_port_clear_connections e p = Value e1" "graph_inv e1" "mset (clients e1) = mset (clients e)"
    "links e1 = links e - at_port p" using clear_connections_Value [OF assms] by blast
  obtain e2 where e2: "jack_sort_graph e1 = Value e2" "core e2 = core e1" "mset (clients e2) = mset (clients e1)"
    using sort_graph_Value [OF e1(2)] by blast
  have "graph_inv e2" using sort_graph_inv [OF e1(2)] e2(1) by auto
  then show ?thesis using assms(2) e1 e2 links_core [OF e2(2)] by (simp add: jack_port_do_disconnect_all_def)
qed

text \<open>Disconnecting all of a port removes exactly the links that end at it; a port number out of
  range is refused.\<close>

theorem disconnect_all_request:
  assumes "graph_inv e"
  shows "if p < length (ports e)
    then \<exists>e'. jack_port_do_disconnect_all e p = Value (e', 0) \<and> graph_inv e' \<and>
      links e' = links e - at_port p \<and> mset (clients e') = mset (clients e)
    else jack_port_do_disconnect_all e p = Value (e, -1)"
  using disconnect_all_Value [OF assms] by (simp add: jack_port_do_disconnect_all_def)

theorem disconnect_all_request_witness:
  "\<exists>e1 e2. jack_port_do_connect demo_engine ''a:out'' ''b:in'' = Value (e1, 0) \<and> links e1 = {(2, 5)} \<and>
     jack_port_do_disconnect_all e1 2 = Value (e2, 0) \<and> links e2 = {}"
proof -
  obtain e1 where e1: "jack_port_do_connect demo_engine ''a:out'' ''b:in'' = Value (e1, 0)" "graph_inv e1" "links e1 = {(2, 5)}"
    using connect_Value [OF demo_inv demo_checks(1)] by (auto simp: demo_links)
  then have "2 < length (ports e1)" using links_bounds(1) [of e1 2 5] by simp
  then show ?thesis using disconnect_all_request [OF e1(2), of 2] e1 by (auto simp: at_port_def)
qed

section \<open>Sequences of requests\<close>

inductive graph_step :: "jack_engine_t \<Rightarrow> jack_engine_t \<Rightarrow> bool" where
  connect: "jack_port_do_connect e s d = Value (e', r) \<Longrightarrow> graph_step e e'"
| disconnect: "jack_port_do_disconnect e s d = Value (e', r) \<Longrightarrow> graph_step e e'"
| disconnect_all: "jack_port_do_disconnect_all e p = Value (e', r) \<Longrightarrow> graph_step e e'"

lemma connect_keeps: "graph_inv e \<Longrightarrow> \<exists>e' r. jack_port_do_connect e s d = Value (e', r) \<and> graph_inv e'"
  using connect_Value [of e s d] by (cases "connect_checks e s d") (auto simp: jack_port_do_connect_def)

lemma disconnect_keeps: "graph_inv e \<Longrightarrow> \<exists>e' r. jack_port_do_disconnect e s d = Value (e', r) \<and> graph_inv e'"
  using disconnect_Value [of e] by_name_Some [of e s]
  by (auto simp: jack_port_do_disconnect_def split: option.splits) metis

lemma disconnect_all_keeps: "graph_inv e \<Longrightarrow> \<exists>e' r. jack_port_do_disconnect_all e p = Value (e', r) \<and> graph_inv e'"
  using disconnect_all_Value [of e p] by (cases "p < length (ports e)") (auto simp: jack_port_do_disconnect_all_def)

lemma graph_step_inv: "graph_step e e' \<Longrightarrow> graph_inv e \<Longrightarrow> graph_inv e'"
proof (induction rule: graph_step.induct)
  case (connect e s d e' r)
  then show ?case using connect_keeps [of e s d] by auto
next
  case (disconnect e s d e' r)
  then show ?case using disconnect_keeps [of e s d] by auto
next
  case (disconnect_all e p e' r)
  then show ?case using disconnect_all_keeps [of e p] by auto
qed

text \<open>C12: whatever sequence of connection requests a server with a consistent graph serves, the
  constraints on the execution order stay free of cycles, and every further request returns: no
  search for a path and no counting of sources runs forever.\<close>

theorem requests_never_cyclic:
  assumes "graph_inv e" "graph_step\<^sup>*\<^sup>* e e'"
  shows "acyclic (must_precede e') \<and> (\<exists>e'' r. jack_port_do_connect e' s d = Value (e'', r)) \<and>
    (\<exists>e'' r. jack_port_do_disconnect e' s d = Value (e'', r)) \<and> (\<exists>e'' r. jack_port_do_disconnect_all e' p = Value (e'', r))"
proof -
  have "graph_inv e'" using assms(2,1) by (induction rule: rtranclp_induct) (auto intro: graph_step_inv)
  then show ?thesis
    using graph_inv_acyclic connect_keeps disconnect_keeps disconnect_all_keeps by meson
qed

theorem requests_never_cyclic_witness:
  "\<exists>e'. graph_step\<^sup>*\<^sup>* demo_engine e' \<and> links e' = {(2, 5)} \<and> acyclic (must_precede e')"
proof -
  obtain e1 where e1: "jack_port_do_connect demo_engine ''a:out'' ''b:in'' = Value (e1, 0)" "links e1 = {(2, 5)}"
    using connect_Value [OF demo_inv demo_checks(1)] by (auto simp: demo_links)
  then have "graph_step\<^sup>*\<^sup>* demo_engine e1" by (blast intro: graph_step.connect)
  with e1(2) requests_never_cyclic [OF demo_inv this] show ?thesis by blast
qed


section \<open>The sort and the check for feedback\<close>

text \<open>C40: the recursive search \<open>jack_client_feeds_transitive\<close> ends for every client on the list, although
  nothing in it marks the clients it has seen, and it returns true exactly when a chain of sortfeeds
  lists leads from the one client to the other.\<close>

theorem feeds_transitive_decides:
  assumes "graph_inv e" "a \<in> set (clients e)"
  shows "jack_client_feeds_transitive e a b = Some ((a, b) \<in> (must_precede e)\<^sup>+)"
  by (rule feeds_transitive_closure [OF assms])

theorem feeds_transitive_decides_witness:
  "jack_client_feeds_transitive demo_engine 1 2 = Some False"
proof -
  have "must_precede demo_engine = {}" by (auto simp: must_precede_def demo_defs)
  then show ?thesis using feeds_transitive_decides [OF demo_inv, of 1 2] by (simp add: demo_engine_def)
qed

text \<open>C32: sorting the graph returns, keeps every client exactly once, puts the driver before every
  other client, resets the timeout count and changes no connection.\<close>

theorem sort_graph_drivers_first:
  assumes "graph_inv e"
  shows "\<exists>e'. jack_sort_graph e = Value e' \<and> graph_inv e' \<and> mset (clients e') = mset (clients e) \<and>
    sorted_wrt (\<lambda>a b. is_driver e' b \<longrightarrow> is_driver e' a) (clients e') \<and> links e' = links e \<and> timeout_count e' = 0"
proof -
  obtain e' where e': "jack_sort_graph e = Value e'" "core e' = core e" "mset (clients e') = mset (clients e)"
    "sorted_wrt (driver_before e) (clients e')" "timeout_count e' = 0" using sort_graph_Value [OF assms] by blast
  have "is_driver e' = is_driver e" using arg_cong [OF e'(2), of g_type] by (auto simp: core_def is_driver_def fun_eq_iff)
  moreover have "graph_inv e'" using sort_graph_inv [OF assms] e'(1) by auto
  ultimately show ?thesis using e' links_core [OF e'(2)] by (auto simp: driver_before_def [abs_def])
qed

theorem sort_graph_drivers_first_witness:
  "\<exists>e'. jack_sort_graph demo_engine = Value e' \<and> mset (clients e') = mset [0, 1, 2, 3, 4, 5]"
  using sort_graph_drivers_first [OF demo_inv] by (auto simp: demo_engine_def)

text \<open>C30: when the check for an acyclic graph clears the feedback marks, the connections as the user
  made them are free of cycles and the execution constraints follow all of them. When it leaves the
  graph as it is, there is a cycle, or a driver whose \<open>fedcount\<close> is not zero.\<close>

theorem check_acyclic_exact:
  assumes "graph_inv e"
  shows "\<exists>e'. jack_check_acyclic e = Value e' \<and> graph_inv e' \<and> links e' = links e \<and>
    (if acyclic (true_graph e) \<and> (\<forall>c \<in> set (clients e). is_driver e c \<longrightarrow> fedcount (cmem e c) = 0)
     then feedbackcount e' = 0 \<and> must_precede e' = true_graph e' else core e' = core e \<or> acyclic (true_graph e))"
proof -
  obtain e' where e': "jack_check_acyclic e = Value e'" "graph_inv e'" "keeps_links e e'"
    and c: "core e' = core e \<and> (acyclic (true_graph e) \<longrightarrow> (\<exists>c \<in> set (clients e). is_driver e c \<and> fedcount (cmem e c) \<noteq> 0)) \<or>
      acyclic (true_graph e) \<and> feedbackcount e' = 0 \<and> (\<forall>k \<in> live (core e'). dir (conns e' k) \<noteq> -1) \<and>
      (\<forall>c \<in> set (clients e). 0 \<le> fedcount (cmem e c))"
    using check_acyclic_cases [OF assms] by blast
  have "gbooks (core e')" using e'(2) by (simp add: graph_inv_def ginv_def)
  then have "(\<forall>k \<in> live (core e'). dir (conns e' k) \<noteq> -1) \<Longrightarrow> must_precede e' = true_graph e'"
    using sort_is_true_graph by blast
  then show ?thesis using e' c links_keeps [OF e'(3)] by auto
qed

theorem check_acyclic_exact_witness:
  "\<exists>e'. jack_check_acyclic demo_engine = Value e' \<and> feedbackcount e' = 0"
proof -
  have "true_graph demo_engine = {}" by (auto simp: true_graph_def demo_defs)
  moreover have "\<forall>c \<in> set (clients demo_engine). fedcount (cmem demo_engine c) = 0" by (simp add: demo_defs)
  ultimately show ?thesis using check_acyclic_exact [OF demo_inv] by (auto simp: acyclic_def)
qed

section \<open>Where the code falls short\<close>

text \<open>A driver whose \<open>fedcount\<close> has become negative blocks the check for ever: whatever the
  connections are, the feedback marks stay.\<close>

theorem negative_driver_blocks_check:
  assumes "graph_inv e" "d \<in> set (clients e)" "fedcount (cmem e d) < 0"
  shows "\<exists>e'. jack_check_acyclic e = Value e' \<and> feedbackcount e' = feedbackcount e \<and> must_precede e' = must_precede e"
proof -
  obtain e' where e': "jack_check_acyclic e = Value e'" "core e' = core e"
    using check_acyclic_cases [OF assms(1)] assms(2,3) by fastforce
  then show ?thesis using must_precede_core by (metis core_simps(6))
qed

lemma driver_roundtrip:
  assumes inv: "graph_inv e" and chk: "connect_checks e s d = Inr (src, dst, sc, dc)" and drv: "is_driver e dc"
  shows "\<exists>e1 e2. jack_port_do_connect e s d = Value (e1, 0) \<and> jack_port_disconnect_internal e1 src dst = Value (e2, 0) \<and>
    graph_inv e2 \<and> links e2 = links e \<and> mset (clients e2) = mset (clients e) \<and>
    fedcount (cmem e2 dc) = fedcount (cmem e dc) - 1"
proof -
  obtain e1 con where e1: "jack_port_do_connect e s d = Value (e1, 0)" "graph_inv e1"
    "links e1 = insert (src, dst) (links e)" "mset (clients e1) = mset (clients e)"
    and con: "core e1 = g_link con (g_feed con (core e))" "link_ok (core e) con"
      "source con = src" "destination con = dst" "dstclient con = dc"
    using connect_Value [OF inv chk] by blast
  have src: "src < length (ports e1)" using links_bounds(1) [OF e1(2), of src dst] e1(3) by simp
  have nosd: "(src, dst) \<notin> links e"
  proof
    assume "(src, dst) \<in> links e"
    moreover have "src < length (ports e)" using by_name_Some connect_checks_Inr(1) [OF chk] by blast
    ultimately obtain k where "find_connection e src dst = Some k"
      using find_connection_links [OF inv, of src dst] by auto
    then show False using find_connection_Some connect_checks_Inr(10) [OF chk] by blast
  qed
  have "(src, dst) \<in> links e1" using e1(3) by simp
  then obtain k where k: "find_connection e1 src dst = Some k" using find_connection_links [OF e1(2) src] by auto
  have live1: "k \<in> live (core e1)" using find_connection_Some [OF k] src by (auto simp: live_nth)
  have cs: "conns e1 = (conns e)(next_kptr e := con)" using arg_cong [OF con(1), of g_conns] by simp
  have "k = next_kptr e"
  proof (rule ccontr)
    assume "k \<noteq> next_kptr e"
    moreover have "live (core e1) = insert (next_kptr e) (live (core e))"
      using live_link [of "g_feed con (core e)" con] link_ok_frame [of "g_feed con (core e)" "core e" con] con(2)
      unfolding con(1) by (simp add: live_def)
    ultimately have "(src, dst) \<in> links e"
      using live1 find_connection_Some [OF k] cs by (force simp: links_def ends_def)
    then show False using nosd by simp
  qed
  then have kc: "conns e1 k = con" using cs by simp
  have nod: "true_edge (g_type (core e)) con = None" using drv con(5) by (simp add: true_edge_def is_driver_def)
  then have "dir con = 1" using con(2,5) drv by (auto simp: link_ok_def Let_def is_driver_def)
  moreover have "g_fed (core e1) = g_fed (core e)" unfolding con(1) using nod by (simp add: g_feed_def)
  ultimately show ?thesis
    using disconnect_Value [OF e1(2) src, of dst] e1 k kc con(5) nosd
    by (force simp: g_unfeed_def Let_def fun_eq_iff)
qed


lemma demo_driver: "is_driver demo_engine 0" "0 \<in> set (clients demo_engine)" "fedcount (cmem demo_engine 0) = 0"
  by (simp_all add: is_driver_def demo_defs)

theorem negative_driver_blocks_check_witness:
  "\<exists>e e'. fedcount (cmem e 0) = -1 \<and> links e = {} \<and> jack_check_acyclic e = Value e' \<and> feedbackcount e' = feedbackcount e"
proof -
  obtain e where e: "graph_inv e" "links e = {}" "mset (clients e) = mset (clients demo_engine)" "fedcount (cmem e 0) = -1"
    using driver_roundtrip [OF demo_inv demo_checks(2) demo_driver(1)] by (auto simp: demo_links demo_driver(3))
  have "0 \<in> set (clients e)" using e(3) demo_driver(2) by (metis mset_eq_setD)
  then show ?thesis using negative_driver_blocks_check [OF e(1), of 0] e by auto
qed

text \<open>Connecting a port to a port of the driver and disconnecting it again restores the links but
  not the books: the driver's \<open>fedcount\<close> ends one lower than it was.\<close>

theorem driver_fedcount_drifts:
  assumes "graph_inv e" "connect_checks e s d = Inr (src, dst, sc, dc)" "is_driver e dc"
  shows "\<exists>e1 e2. jack_port_do_connect e s d = Value (e1, 0) \<and> jack_port_disconnect_internal e1 src dst = Value (e2, 0) \<and>
    links e2 = links e \<and> fedcount (cmem e2 dc) = fedcount (cmem e dc) - 1"
  using driver_roundtrip [OF assms] by blast

theorem driver_fedcount_drifts_witness:
  "\<exists>e1 e2. jack_port_do_connect demo_engine ''b:out'' ''system:in'' = Value (e1, 0) \<and>
     jack_port_disconnect_internal e1 4 1 = Value (e2, 0) \<and> links e2 = {} \<and> fedcount (cmem e2 0) = -1"
  using driver_fedcount_drifts [OF demo_inv demo_checks(2) demo_driver(1)] by (simp add: demo_links demo_driver(3))

lemma demo_checks_ac: "connect_checks demo_engine ''a:out'' ''c:in'' = Inr (2, 7, 1, 3)"
  by (simp add: connect_checks_def jack_get_port_by_name_def jack_port_name_equals_def demo_defs
      jack_client_internal_by_id_def flag_set_def JackPortIsInput_def JackPortIsOutput_def)

definition demo_order :: "cptr \<Rightarrow> cptr \<Rightarrow> int option" where
  "demo_order a b = Some (if (a = 1 \<and> b = 3) \<or> (a = 0 \<and> b \<noteq> 0) then -1
     else if (b = 1 \<and> a = 3) \<or> (b = 0 \<and> a \<noteq> 0) then 1 else 0)"

lemma demo_order_sort: "jack_slist_sort demo_order [0, 1, 2, 3, 4, 5] = Some [0, 5, 4, 3, 2, 1]"
  by (simp add: jack_slist_sort.simps(3) demo_order_def)

lemma demo_linked:
  assumes "core e' = g_link con (g_feed con (core demo_engine))" "srcclient con = 1" "dstclient con = 3" "dir con = 1"
  shows "must_precede e' = {(1, 3)}" "is_driver e' c = (c = 0)"
proof -
  have "true_edge (g_type (core demo_engine)) con = Some (1, 3)" using assms(2,3) by (simp add: true_edge_def demo_defs)
  then have "g_sort (core e') = (\<lambda>c. if c = 1 then [3] else [])"
    unfolding assms(1) using assms(4) by (auto simp: g_feed_def Let_def demo_defs fun_eq_iff)
  moreover have "g_clients (core e') = {0, 1, 2, 3, 4, 5}" unfolding assms(1) by (simp add: demo_engine_def)
  ultimately show "must_precede e' = {(1, 3)}" unfolding must_precede_core by (auto simp: edges_on_def split: if_splits)
  have "g_type (core e') c = g_type (core demo_engine) c" unfolding assms(1) by simp
  then show "is_driver e' c = (c = 0)" by (simp add: is_driver_def demo_defs)
qed

text \<open>The comparison is not a total preorder (clients without a path between them compare as
  equal), and the merge sort does not turn it into a topological order: after one connection from
  client 1 to client 3 the server runs client 3 before client 1.\<close>

theorem sort_may_violate_feeds:
  "\<exists>e'. jack_port_do_connect demo_engine ''a:out'' ''c:in'' = Value (e', 0) \<and> (1, 3) \<in> must_precede e' \<and>
     clients e' = [0, 5, 4, 3, 2, 1]"
proof -
  have "must_precede demo_engine = {}" by (auto simp: must_precede_def demo_defs)
  then have "(3, 1) \<notin> (must_precede demo_engine)\<^sup>+" by simp
  moreover have "\<not> is_driver demo_engine 3" by (simp add: is_driver_def demo_defs)
  ultimately obtain e' con where e': "jack_port_do_connect demo_engine ''a:out'' ''c:in'' = Value (e', 0)" "graph_inv e'"
    "mset (clients e') = mset (clients demo_engine)"
    "jack_slist_sort (jack_client_sort e') (clients demo_engine) = Some (clients e')"
    and con: "core e' = g_link con (g_feed con (core demo_engine))" "srcclient con = 1" "dstclient con = 3" "dir con = 1"
    using connect_Value [OF demo_inv demo_checks_ac] by auto
  note linked = demo_linked [OF con]
  have cl: "clients demo_engine = [0, 1, 2, 3, 4, 5]" by (simp add: demo_engine_def)
  have V: "set (clients e') = set [0, 1, 2, 3, 4, 5]" using mset_eq_setD [OF e'(3)] cl by simp
  have t: "(must_precede e')\<^sup>+ = {(1, 3)}" unfolding linked(1) by (simp add: trancl_insert)
  have "jack_client_sort e' a b = demo_order a b" if "a \<in> set [0, 1, 2, 3, 4, 5]" "b \<in> set [0, 1, 2, 3, 4, 5]" for a b
    using client_sort_value [OF e'(2), of a b] V that by (simp add: t linked(2) demo_order_def)
  then have "jack_slist_sort (jack_client_sort e') [0, 1, 2, 3, 4, 5] = jack_slist_sort demo_order [0, 1, 2, 3, 4, 5]"
    by (intro sort_cong) (simp_all add: demo_order_def)
  then show ?thesis using e' linked(1) cl demo_order_sort by simp
qed

end
