(* ===== verification/Port_Properties.thy ===== *)
theory Port_Properties
  imports Port_Buffers Graph_Properties
begin

text \<open>
  The contract of port registration: every request returns, errors change nothing that matters,
  a registered port is found under its name, and over any sequence of registrations, buffer size
  changes and connection requests no two output ports share a byte of audio memory.
\<close>

section \<open>Registering\<close>

definition plain_name :: "string \<Rightarrow> bool" where
  "plain_name n \<longleftrightarrow> take 12 n \<noteq> ''ALSA:capture'' \<and> take 13 n \<noteq> ''ALSA:playback'' \<and> take 19 n \<noteq> ''alsa_pcm:alsa_midi:''"

lemma plain_name_equals:
  "plain_name n \<Longrightarrow> jack_port_name_equals r n \<longleftrightarrow> p_name r = n \<or> alias1 r = n \<or> alias2 r = n"
  by (simp add: plain_name_def jack_port_name_equals_def)

lemma port_search_aside: "port_search (map port_aside ps) i n = port_search ps i n"
  by (induction ps i n rule: port_search.induct) (auto simp: port_aside_def jack_port_name_equals_def)

lemma by_name_kept: "kept e e' \<Longrightarrow> jack_get_port_by_name e' n = jack_get_port_by_name e n"
proof -
  assume k: "kept e e'"
  have "map port_aside (ports e') = map port_aside (ports e)"
    using arg_cong [OF k [unfolded kept_def], of ports] by (simp add: aside_def)
  then show ?thesis by (metis port_search_aside jack_get_port_by_name_def)
qed

text \<open>What a successful registration of port \<open>p\<close> for client \<open>c\<close> leaves behind.\<close>

definition has_registered :: "jack_engine_t \<Rightarrow> port_info \<Rightarrow> nat \<Rightarrow> cptr \<Rightarrow> pidx \<Rightarrow> jack_engine_t \<Rightarrow> bool" where
  "has_registered e rq ty c p e' \<longleftrightarrow>
     in_use (ports e' ! p) \<and> ptype_id (ports e' ! p) = ty \<and> p_client_id (ports e' ! p) = rq_client_id rq \<and>
     p_flags (ports e' ! p) = rq_flags rq \<and> connections (ports e' ! p) = [] \<and>
     cl_ports (cmem e' c) = p # cl_ports (cmem e c) \<and> length (ports e') = length (ports e) \<and>
     (if flag_set (rq_flags rq) JackPortIsInput then buffer_info (ports e' ! p) = None \<and> freelist e' = freelist e
      else \<exists>b bs. freelist e ty = b # bs \<and> freelist e' = (freelist e)(ty := bs) \<and> buffer_info (ports e' ! p) = Some b)"

lemma registered_found:
  assumes can: "can_register e rq ty c p" and new: "new_port e ty rq r" and plain: "plain_name (rq_name rq)"
  shows "jack_get_port_by_name (with_counters a1 a2 a3 a4 (registered e c ty rq p r)) (rq_name rq) = Some p"
proof -
  have p: "p < length (ports e)" using can free_slot_port by (auto simp: can_register_def)
  have none: "\<forall>q < length (ports e). \<not> (in_use (ports e ! q) \<and> jack_port_name_equals (ports e ! q) (rq_name rq))"
    using can by (simp add: can_register_def jack_get_port_by_name_def port_search_None)
  have "alias_of (rq_name rq) x \<Longrightarrow> x = rq_name rq" for x using plain by (auto simp: alias_of_def plain_name_def)
  then have "p_name r = rq_name rq \<or> alias1 r = rq_name rq" using new by (auto simp: new_port_def)
  then have "jack_port_name_equals r (rq_name rq)" using plain_name_equals [OF plain] by blast
  moreover have "in_use r" using new by (simp add: new_port_def)
  ultimately have "port_search ((ports e)[p := r]) 0 (rq_name rq) = Some (0 + p)"
    using p none by (intro port_search_unique) auto
  then show ?thesis by (simp add: jack_get_port_by_name_def registered_def with_counters_def)
qed

lemma register_Value:
  assumes inv: "registry_inv e" and can: "can_register e rq ty c p"
    and room: "flag_set (rq_flags rq) JackPortIsInput \<or> freelist e ty \<noteq> []"
    and flags: "\<not> (flag_set (rq_flags rq) JackPortIsInput \<and> flag_set (rq_flags rq) JackPortIsOutput)"
  shows "\<exists>e'. jack_port_do_register e rq internal = (e', 0, Some p) \<and> registry_inv e' \<and> links e' = links e \<and>
    has_registered e rq ty c p e' \<and> clients e' = clients e \<and>
    (plain_name (rq_name rq) \<longrightarrow> jack_get_port_by_name e' (rq_name rq) = Some p)"
proof -
  have p: "p < length (ports e)" "\<not> in_use (ports e ! p)" using can free_slot_port by (auto simp: can_register_def)
  have g: "graph_inv e" "buffers_ok e" using inv by (auto simp: registry_inv_def)
  obtain r a1 a2 a3 a4 where new: "new_port e ty rq r" and reg: "jack_port_do_register e rq internal =
      (if active (cmem e c) then jack_port_registration_notify (with_counters a1 a2 a3 a4 (registered e c ty rq p r)) p True
       else with_counters a1 a2 a3 a4 (registered e c ty rq p r), 0, Some p)"
    using register_shape [OF can room, of internal] by (auto simp: Let_def)
  define e4 where "e4 = with_counters a1 a2 a3 a4 (registered e c ty rq p r)"
  define e5 where "e5 = (if active (cmem e c) then jack_port_registration_notify e4 p True else e4)"
  note rg = registered_graph [OF g(1) can new flags, of a1 a2 a3 a4, folded e4_def]
  have s: "same_graph e4 e5" and k: "kept e4 e5"
    unfolding e5_def by (simp_all add: same_graph_port_notify kept_port_notify)
  have i4: "registry_inv e4" using rg buffers_registered [OF g(2) p new] by (simp add: registry_inv_def e4_def)
  have p4: "ports e4 = (ports e)[p := r]" "cl_ports (cmem e4 c) = p # cl_ports (cmem e c)" "clients e4 = clients e"
    by (simp_all add: e4_def registered_def with_counters_def)
  have l5: "length (ports e5) = length (ports e)" using kept_engine(1) [OF k] p4(1) by simp
  have c5: "connections (ports e5 ! p) = connections (ports e4 ! p)"
  proof -
    have "map port_core (ports e5) = map port_core (ports e4)" using s by (metis core_simps(3) same_graph_def)
    then have "port_core (ports e5 ! p) = port_core (ports e4 ! p)" using p(1) l5 p4(1) by (metis length_list_update nth_map)
    then show ?thesis by (metis port_core_simps(1))
  qed
  have "freelist e5 = (if flag_set (rq_flags rq) JackPortIsInput then freelist e else (freelist e)(ty := tl (freelist e ty)))"
    using kept_engine(3) [OF k] by (simp add: e4_def registered_def with_counters_def)
  then have "has_registered e rq ty c p e5"
    using kept_port [OF k, of p] kept_client(7) [OF k, of c] p4 p(1) new l5 c5
    by (cases "freelist e ty"; cases "flag_set (rq_flags rq) JackPortIsInput") (simp_all add: has_registered_def new_port_def)
  moreover have "plain_name (rq_name rq) \<longrightarrow> jack_get_port_by_name e5 (rq_name rq) = Some p"
    using registered_found [OF can new, of a1 a2 a3 a4, folded e4_def] by_name_kept [OF k] by simp
  moreover have "registry_inv e5" by (rule registry_same [OF i4 s k])
  moreover have "links e5 = links e" using links_core [of e5 e4] s rg(2) by (simp add: same_graph_def)
  moreover have "clients e5 = clients e" using s p4(3) by (simp add: same_graph_def)
  ultimately show ?thesis using reg unfolding e4_def [symmetric] e5_def [symmetric] by auto
qed

lemma register_full:
  assumes inv: "registry_inv e" and can: "can_register e rq ty c p"
    and full: "\<not> flag_set (rq_flags rq) JackPortIsInput" "freelist e ty = []"
  shows "\<exists>e'. jack_port_do_register e rq internal = (e', -1, None) \<and> registry_inv e' \<and> links e' = links e \<and>
    \<not> in_use (ports e' ! p) \<and> cmem e' = cmem e \<and> clients e' = clients e"
proof -
  have p: "p < length (ports e)" "\<not> in_use (ports e ! p)" using can free_slot_port by (auto simp: can_register_def)
  have g: "graph_inv e" "buffers_ok e" using inv by (auto simp: registry_inv_def)
  obtain r a1 a2 a3 a4 where r: "\<not> in_use r" "connections r = []" "buffer_info r = None" "jack_port_do_register e rq internal =
      (with_counters a1 a2 a3 a4 (e\<lparr>ports := (ports e)[p := r]\<rparr>), -1, None)"
    using register_no_buffer [OF can full] by blast
  have "buffer_info (ports e ! p) = None" using g(2) p by (auto simp: buffers_ok_def port_buffer_ok_def)
  then have "buffers_ok (e\<lparr>ports := (ports e)[p := r]\<rparr>)" using buffers_port_gone [OF g(2) p(1)] r by blast
  then show ?thesis
    using freed_graph [OF g(1) p(1) slot_no_connections [OF g(1) p] r(1,2), of a1 a2 a3 a4] r(4) p(1) r(1)
    by (intro exI [of _ "with_counters a1 a2 a3 a4 (e\<lparr>ports := (ports e)[p := r]\<rparr>)"]) (simp add: registry_inv_def, simp add: with_counters_def)
qed

lemma free_slot_iff:
  "free_slot ps i = Some (i + p) \<longleftrightarrow> p < length ps \<and> \<not> in_use (ps ! p) \<and> (\<forall>q < p. in_use (ps ! q))"
proof (induction ps i arbitrary: p rule: free_slot.induct)
  case (2 r ps i)
  have le: "i \<le> k" if "free_slot ps (Suc i) = Some k" for k using free_slot_Some [OF that] by simp
  show ?case
  proof (cases p)
    case 0
    then show ?thesis using le free_slot_Some [of ps "Suc i" i] by auto
  next
    case (Suc k)
    then show ?thesis using 2 [of k] by (cases "in_use r") (auto simp: nth_Cons split: nat.splits)
  qed
qed simp

lemma free_slot_None: "free_slot ps i = None \<longleftrightarrow> (\<forall>q < length ps. in_use (ps ! q))"
  by (induction ps i rule: free_slot.induct) (auto simp: nth_Cons less_Suc_eq_0_disj split: nat.splits)

lemma type_search_le: "type_search ts i n = Some k \<Longrightarrow> i \<le> k"
  by (induction ts i n rule: type_search.induct) (auto split: if_splits)

lemma type_search_iff:
  "type_search ts i n = Some (i + k) \<longleftrightarrow> k < length ts \<and> type_name (ts ! k) = n \<and> (\<forall>j < k. type_name (ts ! j) \<noteq> n)"
proof (induction ts i n arbitrary: k rule: type_search.induct)
  case (2 t ts i n)
  show ?case
  proof (cases k)
    case 0
    then show ?thesis using type_search_le [of ts "Suc i" n i] by auto
  next
    case (Suc j)
    then show ?thesis using 2 [of j] by (cases "type_name t = n") (auto simp: nth_Cons split: nat.splits)
  qed
qed simp

lemma type_search_None: "type_search ts i n = None \<longleftrightarrow> (\<forall>k < length ts. type_name (ts ! k) \<noteq> n)"
  by (induction ts i n rule: type_search.induct) (auto simp: nth_Cons less_Suc_eq_0_disj split: nat.splits)

text \<open>The first element of a list with a property.\<close>

definition first_at :: "('a \<Rightarrow> bool) \<Rightarrow> 'a list \<Rightarrow> nat \<Rightarrow> bool" where
  "first_at P xs k \<longleftrightarrow> k < length xs \<and> P (xs ! k) \<and> (\<forall>j < k. \<not> P (xs ! j))"

lemma can_register_iff:
  "can_register e rq ty c p \<longleftrightarrow> first_at (\<lambda>t. type_name t = rq_type rq) (port_types (control e)) ty \<and>
     jack_client_internal_by_id e (rq_client_id rq) = Some c \<and>
     (\<forall>q < length (ports e). in_use (ports e ! q) \<longrightarrow> \<not> jack_port_name_equals (ports e ! q) (rq_name rq)) \<and>
     first_at (\<lambda>r. \<not> in_use r) (ports e) p"
  using type_search_iff [of "port_types (control e)" 0 "rq_type rq" ty] free_slot_iff [of "ports e" 0 p]
  by (auto simp: can_register_def first_at_def jack_get_port_by_name_def port_search_None)

text \<open>C16: a registration request is refused and changes nothing when the server does not know the type
  or the client, when a port in use has the requested name or alias, and when all ports are in use.
  Otherwise it is for the first type of the requested name and the first port that is not in use. If
  the port is an input or a buffer of its type is free, the request returns this port, now in use, of
  the requested type, flags and owner, without connections and in the list of its client; an output
  has taken the first buffer off the list of free ones. If no buffer is free the request is
  refused and the port stays free. No link changes and the invariants of graph and buffers hold
  again. A request for a port that is an input and an output at once is left out. A lookup by the
  requested name finds the port, if the name begins with none of \<open>ALSA:capture\<close>, \<open>ALSA:playback\<close> and
  \<open>alsa_pcm:alsa_midi:\<close>: names of these forms the lookup reads as other names.\<close>

theorem register_request:
  assumes "registry_inv e"
    and "\<not> (flag_set (rq_flags rq) JackPortIsInput \<and> flag_set (rq_flags rq) JackPortIsOutput)"
  shows "((\<forall>t \<in> set (port_types (control e)). type_name t \<noteq> rq_type rq) \<or> jack_client_internal_by_id e (rq_client_id rq) = None \<or>
      (\<exists>r \<in> set (ports e). in_use r \<and> jack_port_name_equals r (rq_name rq)) \<or> (\<forall>r \<in> set (ports e). in_use r) \<longrightarrow>
        jack_port_do_register e rq internal = (e, -1, None)) \<and>
    (\<forall>ty c p. first_at (\<lambda>t. type_name t = rq_type rq) (port_types (control e)) ty \<and>
        jack_client_internal_by_id e (rq_client_id rq) = Some c \<and>
        (\<forall>r \<in> set (ports e). in_use r \<longrightarrow> \<not> jack_port_name_equals r (rq_name rq)) \<and>
        first_at (\<lambda>r. \<not> in_use r) (ports e) p \<longrightarrow>
      (\<exists>e'. registry_inv e' \<and> links e' = links e \<and> clients e' = clients e \<and>
        (if flag_set (rq_flags rq) JackPortIsInput \<or> freelist e ty \<noteq> []
         then jack_port_do_register e rq internal = (e', 0, Some p) \<and> has_registered e rq ty c p e' \<and>
           (plain_name (rq_name rq) \<longrightarrow> jack_get_port_by_name e' (rq_name rq) = Some p)
         else jack_port_do_register e rq internal = (e', -1, None) \<and> \<not> in_use (ports e' ! p) \<and> cmem e' = cmem e)))"
proof (intro conjI allI impI)
  assume r: "(\<forall>t \<in> set (port_types (control e)). type_name t \<noteq> rq_type rq) \<or> jack_client_internal_by_id e (rq_client_id rq) = None \<or>
      (\<exists>r \<in> set (ports e). in_use r \<and> jack_port_name_equals r (rq_name rq)) \<or> (\<forall>r \<in> set (ports e). in_use r)"
  have "\<not> can_register e rq ty c p" for ty c p
    using r unfolding can_register_iff first_at_def by (metis in_set_conv_nth nth_mem option.distinct(1))
  then show "jack_port_do_register e rq internal = (e, -1, None)" by (intro register_refused) blast
next
  fix ty c p
  assume a: "first_at (\<lambda>t. type_name t = rq_type rq) (port_types (control e)) ty \<and>
        jack_client_internal_by_id e (rq_client_id rq) = Some c \<and>
        (\<forall>r \<in> set (ports e). in_use r \<longrightarrow> \<not> jack_port_name_equals r (rq_name rq)) \<and>
        first_at (\<lambda>r. \<not> in_use r) (ports e) p"
  then have can: "can_register e rq ty c p" by (simp add: can_register_iff)
  show "\<exists>e'. registry_inv e' \<and> links e' = links e \<and> clients e' = clients e \<and>
        (if flag_set (rq_flags rq) JackPortIsInput \<or> freelist e ty \<noteq> []
         then jack_port_do_register e rq internal = (e', 0, Some p) \<and> has_registered e rq ty c p e' \<and>
           (plain_name (rq_name rq) \<longrightarrow> jack_get_port_by_name e' (rq_name rq) = Some p)
         else jack_port_do_register e rq internal = (e', -1, None) \<and> \<not> in_use (ports e' ! p) \<and> cmem e' = cmem e)"
  proof (cases "flag_set (rq_flags rq) JackPortIsInput \<or> freelist e ty \<noteq> []")
    case True
    then show ?thesis using register_Value [OF assms(1) can True assms(2), of internal] by (simp only: if_True) blast
  next
    case False
    then show ?thesis using register_full [OF assms(1) can, of internal] by (simp only: if_False) blast
  qed
qed

section \<open>Unregistering\<close>

lemma unregister_Value:
  assumes inv: "registry_inv e" and p: "p < length (ports e)" "jack_client_internal_by_id e (p_client_id (ports e ! p)) = Some c"
  shows "\<exists>e'. jack_port_do_unregister e (p_client_id (ports e ! p)) p = Value (e', 0) \<and> registry_inv e' \<and>
    links e' = links e - at_port p \<and> mset (clients e') = mset (clients e) \<and> \<not> in_use (ports e' ! p) \<and>
    buffer_info (ports e' ! p) = None \<and> cl_ports (cmem e' c) = remove1 p (cl_ports (cmem e c)) \<and>
    length (ports e') = length (ports e) \<and>
    freelist e' = (case buffer_info (ports e ! p) of None \<Rightarrow> freelist e
      | Some b \<Rightarrow> (freelist e)(ptype_id (ports e ! p) := b # freelist e (ptype_id (ports e ! p))))"
proof -
  have g: "graph_inv e" "buffers_ok e" using inv by (auto simp: registry_inv_def)
  obtain e1 where e1: "jack_port_clear_connections e p = Value e1" "graph_inv e1" "mset (clients e1) = mset (clients e)"
    "links e1 = links e - at_port p" "connections (ports e1 ! p) = []" "length (ports e1) = length (ports e)"
    using clear_connections_Value [OF g(1) p(1)] by blast
  have k1: "kept e e1" using kept_clear_connections [OF e1(1)] by blast
  have p1: "p < length (ports e1)" using p(1) e1(6) by simp
  define e3 where "e3 = upd_client c (\<lambda>r. r\<lparr>cl_ports := jack_slist_remove (cl_ports r) p\<rparr>) (jack_port_release e1 p)"
  have c3: "clients e3 = clients e1" by (simp add: e3_def upd_client_def release_shape [OF p1])
  have g3: "graph_inv e3" "links e3 = links e1"
    by (rule release_graph [where c = c, OF e1(2) p1 e1(5) _ core_released [OF p1, of c, folded e3_def] c3]; simp)+
  have "buffers_ok e3"
    using buffers_release [OF buffers_ok_kept [OF k1 g(2)] p1]
    by (simp add: e3_def upd_client_def buffers_ok_def free_ok_def placed_ok_def port_buffer_ok_def buffer_of_type_def)
  then have i3: "registry_inv e3" using g3 by (simp add: registry_inv_def)
  define e4 where "e4 = jack_port_registration_notify e3 p False"
  have s: "same_graph e3 e4" and k: "kept e3 e4"
    unfolding e4_def by (simp_all add: same_graph_port_notify kept_port_notify)
  have p3: "ports e3 ! p = released e1 p" "length (ports e3) = length (ports e)" "cl_ports (cmem e3 c) = remove1 p (cl_ports (cmem e1 c))"
    using p1 e1(6) by (simp_all add: e3_def upd_client_def release_shape)
  have "jack_port_do_unregister e (p_client_id (ports e ! p)) p = Value (e4, 0)"
    using p e1(1) by (simp add: jack_port_do_unregister_def e3_def e4_def)
  moreover have "registry_inv e4" by (rule registry_same [OF i3 s k])
  moreover have "links e4 = links e - at_port p" using links_core [of e4 e3] s g3(2) e1(4) by (simp add: same_graph_def)
  moreover have "mset (clients e4) = mset (clients e)" using s c3 e1(3) by (simp add: same_graph_def)
  moreover have "\<not> in_use (ports e4 ! p)" "buffer_info (ports e4 ! p) = None"
    using kept_port [OF k, of p] p3 p(1) by (simp_all add: released_def)
  moreover have "cl_ports (cmem e4 c) = remove1 p (cl_ports (cmem e c))"
    using kept_client(7) [OF k, of c] kept_client(7) [OF k1, of c] p3(3) by simp
  moreover have "length (ports e4) = length (ports e)" using kept_engine(1) [OF k] p3(2) by simp
  moreover have "freelist e4 = (case buffer_info (ports e ! p) of None \<Rightarrow> freelist e
      | Some b \<Rightarrow> (freelist e)(ptype_id (ports e ! p) := b # freelist e (ptype_id (ports e ! p))))"
    using kept_engine(3) [OF k] kept_engine(3) [OF k1] kept_port [OF k1, of p] p(1) p1
    by (cases "buffer_info (ports e ! p)") (simp_all add: e3_def upd_client_def release_shape)
  ultimately show ?thesis by blast
qed

text \<open>C33: a request to unregister a port below \<open>port_max\<close> by a client that does not own it, or that the
  server does not know, is refused and changes nothing; one by the owner returns 0, breaks exactly
  the links of the port, frees the port and takes it out of its client's list. The buffer that the
  port had goes back to the front of the list of free buffers of its type, and the other lists of
  free buffers stay as they are. A port number above \<open>port_max\<close> is refused.\<close>

theorem unregister_request:
  assumes "registry_inv e" and "p \<noteq> length (ports e)"
  shows "if length (ports e) < p \<or> p_client_id (ports e ! p) \<noteq> i \<or> jack_client_internal_by_id e i = None
     then jack_port_do_unregister e i p = Value (e, -1)
     else \<exists>e' c. jack_client_internal_by_id e i = Some c \<and> jack_port_do_unregister e i p = Value (e', 0) \<and>
       registry_inv e' \<and> links e' = links e - at_port p \<and> mset (clients e') = mset (clients e) \<and>
       \<not> in_use (ports e' ! p) \<and> buffer_info (ports e' ! p) = None \<and>
       freelist e' = (case buffer_info (ports e ! p) of None \<Rightarrow> freelist e
         | Some b \<Rightarrow> (freelist e)(ptype_id (ports e ! p) := b # freelist e (ptype_id (ports e ! p)))) \<and>
       cl_ports (cmem e' c) = remove1 p (cl_ports (cmem e c))"
proof (cases "length (ports e) < p \<or> p_client_id (ports e ! p) \<noteq> i \<or> jack_client_internal_by_id e i = None")
  case True
  then show ?thesis using assms(2) by (auto simp: jack_port_do_unregister_def split: option.splits)
next
  case False
  then obtain c where "p < length (ports e)" "p_client_id (ports e ! p) = i" "jack_client_internal_by_id e i = Some c"
    using assms(2) by auto
  then show ?thesis using False unregister_Value [OF assms(1), of p c] by auto
qed

section \<open>Sequences of requests\<close>

definition sizes_fit :: "jack_engine_t \<Rightarrow> jack_nframes_t \<Rightarrow> bool" where
  "sizes_fit e nframes \<longleftrightarrow> (\<forall>t < length (port_types (control e)). segment_fits e (one_buffer (new_buffer_size e nframes) t))"

text \<open>
  The requests that change ports, with whatever the shared memory layer answers. A port asked for
  as input and output at once is left out; so is a buffer size whose segment would overflow 32
  bits.
\<close>

inductive port_step :: "jack_engine_t \<Rightarrow> jack_engine_t \<Rightarrow> bool" where
  register: "\<not> (flag_set (rq_flags rq) JackPortIsInput \<and> flag_set (rq_flags rq) JackPortIsOutput) \<Longrightarrow>
    port_step e (fst (jack_port_do_register e rq internal))"
| unregister: "jack_port_do_unregister e i p = Value (e', r) \<Longrightarrow> port_step e e'"
| buffer_size: "sizes_fit e nframes \<Longrightarrow> jack_driver_buffer_size e shm_ok nframes = Value (e', r) \<Longrightarrow> port_step e e'"
| do_connect: "jack_port_do_connect e s d = Value (e', r) \<Longrightarrow> port_step e e'"
| do_disconnect: "jack_port_do_disconnect e s d = Value (e', r) \<Longrightarrow> port_step e e'"

lemma register_keeps:
  assumes "registry_inv e"
    and "\<not> (flag_set (rq_flags rq) JackPortIsInput \<and> flag_set (rq_flags rq) JackPortIsOutput)"
  shows "registry_inv (fst (jack_port_do_register e rq internal))"
proof (cases "\<exists>ty c p. can_register e rq ty c p")
  case True
  then obtain ty c p where can: "can_register e rq ty c p" by blast
  show ?thesis
  proof (cases "flag_set (rq_flags rq) JackPortIsInput \<or> freelist e ty \<noteq> []")
    case True
    then show ?thesis using register_Value [OF assms(1) can True assms(2), of internal] by auto
  next
    case False
    then show ?thesis using register_full [OF assms(1) can, of internal] by auto
  qed
next
  case False
  then show ?thesis using register_refused [OF False, of internal] assms(1) by simp
qed

lemma unregister_keeps:
  assumes "registry_inv e" "jack_port_do_unregister e i p = Value (e', r)"
  shows "registry_inv e'"
proof (cases "p < length (ports e) \<and> p_client_id (ports e ! p) = i \<and> jack_client_internal_by_id e i \<noteq> None")
  case True
  then obtain c where "p < length (ports e)" "jack_client_internal_by_id e (p_client_id (ports e ! p)) = Some c" by auto
  from unregister_Value [OF assms(1) this] show ?thesis using assms(2) True by auto
next
  case False
  then show ?thesis using assms by (auto simp: jack_port_do_unregister_def split: if_splits option.splits)
qed

lemma registry_connect:
  assumes "registry_inv e" "jack_port_do_connect e s d = Value (e', r)"
  shows "registry_inv e'"
proof -
  have "graph_inv e'"
  proof (cases "connect_checks e s d")
    case (Inl err)
    then show ?thesis using assms by (simp add: jack_port_do_connect_def registry_inv_def)
  next
    case (Inr x)
    then obtain src dst sc dc where "connect_checks e s d = Inr (src, dst, sc, dc)" by (metis prod_cases4)
    then show ?thesis using connect_Value [of e s d src dst sc dc] assms by (auto simp: registry_inv_def)
  qed
  then show ?thesis using assms buffers_ok_kept kept_connect [OF assms(2) kept_refl] by (auto simp: registry_inv_def)
qed

lemma registry_disconnect:
  assumes "registry_inv e" "jack_port_do_disconnect e s d = Value (e', r)"
  shows "registry_inv e'"
proof (cases "jack_get_port_by_name e s = None \<or> jack_get_port_by_name e d = None")
  case True
  then show ?thesis using assms by (auto simp: jack_port_do_disconnect_def split: option.splits)
next
  case False
  then obtain src dst where n: "jack_get_port_by_name e s = Some src" "jack_get_port_by_name e d = Some dst" by auto
  then have d: "jack_port_disconnect_internal e src dst = Value (e', r)" using assms(2) by (simp add: jack_port_do_disconnect_def)
  have "graph_inv e'" using disconnect_Value [of e src dst] by_name_Some [OF n(1)] assms(1) d by (auto simp: registry_inv_def)
  then show ?thesis using assms(1) buffers_ok_kept kept_disconnect [OF d kept_refl] by (auto simp: registry_inv_def)
qed

lemma port_step_inv: "port_step e e' \<Longrightarrow> registry_inv e \<Longrightarrow> registry_inv e'"
proof (induction rule: port_step.induct)
  case (buffer_size e nframes shm_ok e' r)
  then show ?case using driver_buffer_size_Value [of e nframes shm_ok] by (auto simp: sizes_fit_def)
qed (auto intro: register_keeps unregister_keeps registry_connect registry_disconnect)

lemma port_steps_inv: "port_step\<^sup>*\<^sup>* e e' \<Longrightarrow> registry_inv e \<Longrightarrow> registry_inv e'"
  by (induction rule: rtranclp_induct) (auto intro: port_step_inv)

definition output_port :: "jack_engine_t \<Rightarrow> nat \<Rightarrow> pidx \<Rightarrow> bool" where
  "output_port e t p \<longleftrightarrow> p < length (ports e) \<and> in_use (ports e ! p) \<and> ptype_id (ports e ! p) = t \<and>
     flag_set (p_flags (ports e ! p)) JackPortIsOutput \<and> \<not> flag_set (p_flags (ports e ! p)) JackPortIsInput"

lemma output_port_buffer:
  assumes "buffers_ok e" "output_port e t p"
  obtains b where "buffer_info (ports e ! p) = Some b" "buffer_of_type e t b" "p_offset (ports e ! p) = buffer_offset e t b"
  using assms by (auto simp: buffers_ok_def port_buffer_ok_def output_port_def)

lemma multiples_apart: "0 < B \<Longrightarrow> a \<noteq> b \<Longrightarrow> B \<le> \<bar>int a * B - int b * B\<bar>"
proof -
  assume B: "0 < B" "a \<noteq> b"
  then have "1 \<le> \<bar>int a - int b\<bar>" by linarith
  then have "1 * B \<le> \<bar>int a - int b\<bar> * B" using B(1) by (intro mult_right_mono) auto
  moreover have "\<bar>int a * B - int b * B\<bar> = \<bar>int a - int b\<bar> * B"
    unfolding left_diff_distrib [symmetric] abs_mult using B(1) by simp
  ultimately show ?thesis by simp
qed

text \<open>C15: in every state that requests lead to, the segment of a port type with an output port in
  use is cut into one share per port; the buffer of the port is one of the shares, but never the
  first, which holds silence; and two different output ports never share one.\<close>

theorem output_buffers_disjoint:
  assumes "registry_inv e0" "port_step\<^sup>*\<^sup>* e0 e" "output_port e t p"
  shows "\<exists>B > 0. port_segment e t = Some (int (length (ports e)) * B) \<and>
    B \<le> p_offset (ports e ! p) \<and> p_offset (ports e ! p) + B \<le> int (length (ports e)) * B \<and>
    (\<forall>q. output_port e t q \<and> q \<noteq> p \<longrightarrow> B \<le> \<bar>p_offset (ports e ! p) - p_offset (ports e ! q)\<bar>)"
proof -
  have ok: "buffers_ok e" using port_steps_inv [OF assms(2,1)] by (simp add: registry_inv_def)
  obtain b where b: "buffer_info (ports e ! p) = Some b" "buffer_of_type e t b" "p_offset (ports e ! p) = buffer_offset e t b"
    using output_port_buffer [OF ok assms(3)] by blast
  let ?n = "length (ports e)"
  have pl: "placed_ok e" "exclusive (ports e)" using ok by (simp_all add: buffers_ok_def)
  obtain m where m: "buffer_infos e t = Some m" "0 < b" "b < m"
    using b(2) by (cases "buffer_infos e t") (auto simp: buffer_of_type_def)
  then have n: "buffer_infos e t = Some ?n" and bb: "0 < b" "b < ?n" using pl(1) by (auto simp: placed_ok_def)
  obtain B where B: "0 < B" "port_segment e t = Some (int ?n * B)" "\<And>c. c < ?n \<Longrightarrow> buffer_offset e t c = int c * B"
    using pl(1) [unfolded placed_ok_def, rule_format, OF n] by blast
  have off: "p_offset (ports e ! p) = int b * B" using b(3) B(3) [OF bb(2)] by simp
  have lo: "1 * B \<le> int b * B" using bb B(1) by (intro mult_right_mono) auto
  have "(int b + 1) * B \<le> int ?n * B" using bb B(1) by (intro mult_right_mono) auto
  then have hi: "int b * B + B \<le> int ?n * B" by (simp add: algebra_simps)
  have "B \<le> \<bar>int b * B - p_offset (ports e ! q)\<bar>" if q: "output_port e t q" "q \<noteq> p" for q
  proof -
    obtain d where d: "buffer_info (ports e ! q) = Some d" "buffer_of_type e t d" "p_offset (ports e ! q) = buffer_offset e t d"
      using output_port_buffer [OF ok q(1)] by blast
    have "d < ?n" using d(2) n by (auto simp: buffer_of_type_def)
    moreover have "d \<noteq> b"
    proof
      assume "d = b"
      then show False
        using pl(2) [unfolded exclusive_def, rule_format, of p q b] q assms(3) b(1) d(1) by (simp add: output_port_def)
    qed
    ultimately show ?thesis using multiples_apart [OF B(1), of b d] d(3) B(3) by simp
  qed
  then show ?thesis unfolding off using B(1,2) lo hi by (intro exI [of _ B] conjI) auto
qed

section \<open>A server with two output ports\<close>

definition demo_output :: "nat \<Rightarrow> string \<Rightarrow> jack_port_t" where
  "demo_output b name = (demo_port 5 JackPortIsOutput name)\<lparr>buffer_info := Some b, p_offset := int b * 256\<rparr>"

definition demo_registry :: jack_engine_t where
  "demo_registry = demo_engine\<lparr>clients := [0, 4],
     cmem := (\<lambda>c. if c = 0 then demo_client 1 ClientDriver [] else demo_client 5 ClientExternal [0, 1]),
     ports := [demo_output 1 ''x:left'', demo_output 2 ''x:right'',
               (demo_port 0 0 [])\<lparr>in_use := False\<rparr>, (demo_port 0 0 [])\<lparr>in_use := False\<rparr>],
     freelist := (\<lambda>t. if t = 0 then [3] else []), buffer_infos := (\<lambda>t. if t = 0 then Some 4 else None),
     buffer_offset := (\<lambda>t b. int b * 256), port_segment := (\<lambda>t. if t = 0 then Some 1024 else None)\<rparr>"

lemma all_below_4: "(\<forall>p < (4 :: nat). P p) \<longleftrightarrow> P 0 \<and> P 1 \<and> P 2 \<and> P 3"
  by (auto simp: less_Suc_eq numeral_eq_Suc)

lemma demo_registry_ports:
  "length (ports demo_registry) = 4" "ports demo_registry ! 0 = demo_output 1 ''x:left''"
  "ports demo_registry ! 1 = demo_output 2 ''x:right''" "ports demo_registry ! 2 = (demo_port 0 0 [])\<lparr>in_use := False\<rparr>"
  "ports demo_registry ! 3 = (demo_port 0 0 [])\<lparr>in_use := False\<rparr>"
  by (simp_all add: demo_registry_def)

lemma demo_registry_graph: "graph_inv demo_registry"
proof (rule unconnected_inv)
  show "\<forall>p < length (ports demo_registry). connections (ports demo_registry ! p) = [] \<and>
       (in_use (ports demo_registry ! p) \<longrightarrow>
         \<not> (flag_set (p_flags (ports demo_registry ! p)) JackPortIsInput \<and> flag_set (p_flags (ports demo_registry ! p)) JackPortIsOutput) \<and>
         (\<forall>c \<in> set (clients demo_registry). p_client_id (ports demo_registry ! p) = cl_id (cmem demo_registry c) \<longrightarrow>
            p \<in> set (cl_ports (cmem demo_registry c))))"
    unfolding demo_registry_ports(1) all_below_4 demo_registry_ports(2-)
    by (simp add: demo_output_def demo_registry_def demo_defs flag_set_def JackPortIsInput_def JackPortIsOutput_def)
qed (auto simp: demo_registry_def demo_defs)

lemma demo_registry_buffers: "buffers_ok demo_registry"
proof -
  have f: "freelist demo_registry t = (if t = 0 then [3] else [])" "buffer_infos demo_registry t = (if t = 0 then Some 4 else None)"
    "buffer_offset demo_registry t b = int b * 256" "port_segment demo_registry t = (if t = 0 then Some 1024 else None)" for t b
    by (simp_all add: demo_registry_def)
  have "\<forall>p < length (ports demo_registry). port_buffer_ok demo_registry (ports demo_registry ! p)"
    unfolding demo_registry_ports(1) all_below_4 demo_registry_ports(2-)
    by (simp add: port_buffer_ok_def buffer_of_type_def f demo_output_def demo_port_def)
  moreover have "free_ok demo_registry" by (simp add: free_ok_def f buffer_of_type_def)
  moreover have "exclusive (ports demo_registry)"
    unfolding exclusive_def demo_registry_ports(1) all_below_4 demo_registry_ports(2-)
    by (simp add: demo_output_def demo_port_def)
  moreover have "placed_ok demo_registry"
    unfolding placed_ok_def f demo_registry_ports(1) by (auto intro!: exI [of _ "256 :: int"])
  ultimately show ?thesis by (simp add: buffers_ok_def)
qed

lemma demo_registry_inv: "registry_inv demo_registry"
  using demo_registry_graph demo_registry_buffers by (simp add: registry_inv_def)

definition demo_request :: port_info where
  "demo_request = \<lparr>rq_name = ''x:in'', rq_type = ''32 bit float mono audio'', rq_flags = JackPortIsInput, rq_client_id = 5\<rparr>"

lemma demo_by_id: "jack_client_internal_by_id demo_registry 5 = Some 4"
  by (simp add: jack_client_internal_by_id_def demo_registry_def demo_client_def)

theorem register_request_witness:
  "\<exists>e'. jack_port_do_register demo_registry demo_request False = (e', 0, Some 2) \<and>
     jack_get_port_by_name e' ''x:in'' = Some 2 \<and> registry_inv e'"
proof -
  have "can_register demo_registry demo_request 0 4 2"
    using demo_by_id by (simp add: can_register_def demo_registry_def demo_engine_def demo_control_def demo_request_def
        jack_get_port_by_name_def jack_port_name_equals_def demo_output_def demo_port_def)
  then have "first_at (\<lambda>t. type_name t = rq_type demo_request) (port_types (control demo_registry)) 0 \<and>
      jack_client_internal_by_id demo_registry (rq_client_id demo_request) = Some 4 \<and>
      (\<forall>r \<in> set (ports demo_registry). in_use r \<longrightarrow> \<not> jack_port_name_equals r (rq_name demo_request)) \<and>
      first_at (\<lambda>r. \<not> in_use r) (ports demo_registry) 2"
    unfolding can_register_iff by (metis in_set_conv_nth)
  moreover have "\<not> (flag_set (rq_flags demo_request) JackPortIsInput \<and> flag_set (rq_flags demo_request) JackPortIsOutput)"
    "flag_set (rq_flags demo_request) JackPortIsInput" "plain_name (rq_name demo_request)"
    by (simp_all add: demo_request_def flag_set_def JackPortIsInput_def JackPortIsOutput_def plain_name_def)
  ultimately have "\<exists>e'. registry_inv e' \<and> jack_port_do_register demo_registry demo_request False = (e', 0, Some 2) \<and>
      jack_get_port_by_name e' (rq_name demo_request) = Some 2"
    using register_request [OF demo_registry_inv, of demo_request False, THEN conjunct2, rule_format, of 0 4 2] by auto
  then show ?thesis by (auto simp: demo_request_def)
qed

theorem unregister_request_witness:
  "\<exists>e'. jack_port_do_unregister demo_registry 5 0 = Value (e', 0) \<and> \<not> in_use (ports e' ! 0) \<and> registry_inv e' \<and>
     freelist e' 0 = 1 # freelist demo_registry 0"
  using unregister_request [OF demo_registry_inv, of 0 5]
  by (auto simp: demo_registry_ports demo_output_def demo_port_def demo_by_id)

theorem output_buffers_disjoint_witness:
  "\<exists>B > 0. port_segment demo_registry 0 = Some (4 * B) \<and> B \<le> \<bar>p_offset (ports demo_registry ! 0) - p_offset (ports demo_registry ! 1)\<bar>"
proof -
  have "output_port demo_registry 0 0" "output_port demo_registry 0 1"
    unfolding output_port_def demo_registry_ports by (simp_all add: demo_output_def demo_port_def flag_set_def JackPortIsInput_def JackPortIsOutput_def)
  then show ?thesis
    using output_buffers_disjoint [OF demo_registry_inv rtranclp.rtrancl_refl, of 0 0] by (auto simp: demo_registry_ports(1))
qed

end
