(* ===== verification/Transport.thy ===== *)
theory Transport
  imports Engine_Graph
begin

text \<open>
  The transport of \<open>server/transengine.c\<close> and \<open>libjack/transclient.c\<close>: slow-sync clients and
  their polling, the timebase master, position requests and the transition made at the end of
  every process cycle. An \<open>assert\<close> that fails is \<open>AssertFailed\<close>; a division by a zero frame
  rate is \<open>Undefined\<close>.
\<close>

section \<open>Polling slow-sync clients\<close>

definition jack_sync_poll_new :: "jack_engine_t \<Rightarrow> cptr \<Rightarrow> jack_engine_t" where
  "jack_sync_poll_new e c =
     (let e1 = upd_control (\<lambda>ctl. ctl\<lparr>sync_time_left := sync_timeout ctl\<rparr>) e;
          e2 = upd_client c (\<lambda>r. r\<lparr>sync_new := True\<rparr>) e1;
          e3 = (if sync_poll (cmem e2 c) then e2
                else upd_control (\<lambda>ctl. ctl\<lparr>sync_remain := sync_remain ctl + 1\<rparr>)
                       (upd_client c (\<lambda>r. r\<lparr>sync_poll := True\<rparr>) e2))
      in if transport_state (control e3) = JackTransportRolling
         then upd_control (\<lambda>ctl. ctl\<lparr>transport_state := JackTransportStarting\<rparr>) e3
         else e3)"

definition jack_sync_poll_deactivate :: "jack_engine_t \<Rightarrow> cptr \<Rightarrow> jack_engine_t c_result" where
  "jack_sync_poll_deactivate e c =
     (let e1 = (if sync_poll (cmem e c)
                then upd_control (\<lambda>ctl. ctl\<lparr>sync_remain := sync_remain ctl - 1\<rparr>)
                       (upd_client c (\<lambda>r. r\<lparr>sync_poll := False, sync_new := False\<rparr>) e)
                else e);
          e2 = upd_client c (\<lambda>r. r\<lparr>active_slowsync := False\<rparr>) e1;
          e3 = upd_control (\<lambda>ctl. ctl\<lparr>sync_clients := sync_clients ctl - 1\<rparr>) e2
      in if 0 \<le> sync_clients (control e3) then Value e3 else AssertFailed)"

fun poll_stop_each :: "jack_engine_t \<Rightarrow> cptr list \<Rightarrow> int \<Rightarrow> jack_engine_t \<times> int" where
  "poll_stop_each e [] poll_count = (e, poll_count)"
| "poll_stop_each e (c # cs) poll_count =
     (if active_slowsync (cmem e c) \<and> sync_poll (cmem e c)
      then poll_stop_each (upd_client c (\<lambda>r. r\<lparr>sync_poll := False\<rparr>) e) cs (poll_count + 1)
      else poll_stop_each e cs poll_count)"

definition jack_sync_poll_stop :: "jack_engine_t \<Rightarrow> jack_engine_t c_result" where
  "jack_sync_poll_stop e =
     (let (e1, poll_count) = poll_stop_each e (clients e) 0 in
      if poll_count = sync_remain (control e1)
      then Value (upd_control (\<lambda>ctl. ctl\<lparr>sync_remain := 0, sync_time_left := 0\<rparr>) e1)
      else AssertFailed)"

fun poll_start_each :: "jack_engine_t \<Rightarrow> cptr list \<Rightarrow> int \<Rightarrow> jack_engine_t \<times> int" where
  "poll_start_each e [] sync_count = (e, sync_count)"
| "poll_start_each e (c # cs) sync_count =
     (if active_slowsync (cmem e c)
      then poll_start_each (upd_client c (\<lambda>r. r\<lparr>sync_poll := True\<rparr>) e) cs (sync_count + 1)
      else poll_start_each e cs sync_count)"

definition jack_sync_poll_start :: "jack_engine_t \<Rightarrow> jack_engine_t c_result" where
  "jack_sync_poll_start e =
     (let (e1, sync_count) = poll_start_each e (clients e) 0 in
      if sync_count = sync_clients (control e1)
      then Value (upd_control (\<lambda>ctl. ctl\<lparr>sync_remain := sync_count, sync_time_left := sync_timeout ctl\<rparr>) e1)
      else AssertFailed)"

definition buf_usecs :: "jack_control_t \<Rightarrow> u64" where
  "buf_usecs ctl = (ucast (buffer_size ctl) * 1000000) div ucast (frame_rate (current_time ctl))"

definition jack_sync_timeout :: "jack_engine_t \<Rightarrow> (jack_engine_t \<times> bool) c_result" where
  "jack_sync_timeout e =
     (let ectl = control e in
      if frame_rate (current_time ectl) = 0 then Undefined
      else if buf_usecs ectl < sync_time_left ectl
      then Value (upd_control (\<lambda>ctl. ctl\<lparr>sync_time_left := sync_time_left ctl - buf_usecs ectl\<rparr>) e, False)
      else Value (upd_control (\<lambda>ctl. ctl\<lparr>sync_time_left := 0\<rparr>) e, True))"

section \<open>Requests and callbacks from the engine\<close>

definition EBUSY :: int where "EBUSY = 16"

definition jack_set_sample_rate :: "jack_engine_t \<Rightarrow> jack_nframes_t \<Rightarrow> jack_engine_t" where
  "jack_set_sample_rate e nframes =
     upd_control (\<lambda>ctl. ctl\<lparr>current_time := (current_time ctl)\<lparr>frame_rate := nframes\<rparr>,
                            pending_time := (pending_time ctl)\<lparr>frame_rate := nframes\<rparr>\<rparr>) e"

definition jack_timebase_reset :: "jack_engine_t \<Rightarrow> u32 \<Rightarrow> jack_engine_t \<times> int" where
  "jack_timebase_reset e client_id =
     (case jack_client_internal_by_id e client_id of
        Some c \<Rightarrow>
          if timebase_client e = Some c then
            (upd_control (\<lambda>ctl. ctl\<lparr>pending_time := (pending_time ctl)\<lparr>valid := 0\<rparr>\<rparr>)
               ((upd_client c (\<lambda>r. r\<lparr>is_timebase := False, timebase_new := False\<rparr>) e)
                  \<lparr>timebase_client := None\<rparr>), 0)
          else (e, EINVAL)
      | None \<Rightarrow> (e, EINVAL))"

definition jack_timebase_set :: "jack_engine_t \<Rightarrow> u32 \<Rightarrow> bool \<Rightarrow> jack_engine_t \<times> int" where
  "jack_timebase_set e client_id conditional =
     (case jack_client_internal_by_id e client_id of
        None \<Rightarrow> (e, EINVAL)
      | Some c \<Rightarrow>
          if conditional \<and> timebase_client e \<noteq> None
          then (e, if timebase_client e \<noteq> Some c then EBUSY else 0)
          else
            (let e1 = (case timebase_client e of
                         Some m \<Rightarrow> upd_client m (\<lambda>r. r\<lparr>is_timebase := False, timebase_new := False\<rparr>) e
                       | None \<Rightarrow> e);
                 e2 = upd_client c (\<lambda>r. r\<lparr>is_timebase := True\<rparr>) (e1\<lparr>timebase_client := Some c\<rparr>)
             in (if active (cmem e2 c) then upd_client c (\<lambda>r. r\<lparr>timebase_new := True\<rparr>) e2 else e2, 0)))"

definition jack_transport_activate :: "jack_engine_t \<Rightarrow> cptr \<Rightarrow> jack_engine_t c_result" where
  "jack_transport_activate e c =
     c_map (\<lambda>e1. if is_timebase (cmem e1 c) then upd_client c (\<lambda>r. r\<lparr>timebase_new := True\<rparr>) e1 else e1)
       (if is_slowsync (cmem e c) then
          (if active_slowsync (cmem e c) then AssertFailed
           else Value (jack_sync_poll_new
                  (upd_control (\<lambda>ctl. ctl\<lparr>sync_clients := sync_clients ctl + 1\<rparr>)
                     (upd_client c (\<lambda>r. r\<lparr>active_slowsync := True\<rparr>) e)) c))
        else Value e)"

definition jack_transport_init :: "jack_engine_t \<Rightarrow> jack_engine_t" where
  "jack_transport_init e =
     upd_control (\<lambda>ctl. ctl\<lparr>transport_state := JackTransportStopped, transport_cmd := TransportCommandStop,
         previous_cmd := TransportCommandStop, current_time := jack_position_zero,
         pending_time := jack_position_zero, request_time := jack_position_zero, prev_request := 0,
         seq_number := 1, new_pos := False, pending_pos := False, pending_frame := 0, sync_clients := 0,
         sync_remain := 0, sync_timeout := 2000000, sync_time_left := 0\<rparr>)
       (e\<lparr>timebase_client := None\<rparr>)"

definition jack_transport_client_exit :: "jack_engine_t \<Rightarrow> cptr \<Rightarrow> jack_engine_t c_result" where
  "jack_transport_client_exit e c =
     (let e1 = (if timebase_client e = Some c then
                  upd_control (\<lambda>ctl. ctl\<lparr>current_time := (current_time ctl)\<lparr>valid := 0\<rparr>,
                                         pending_time := (pending_time ctl)\<lparr>valid := 0\<rparr>\<rparr>)
                    (if dead (cmem e c) then
                       (upd_client c (\<lambda>r. r\<lparr>is_timebase := False, timebase_new := False\<rparr>) e)
                         \<lparr>timebase_client := None\<rparr>
                     else e)
                else e)
      in if is_slowsync (cmem e1 c) then
           c_map (\<lambda>e2. if dead (cmem e2 c) then upd_client c (\<lambda>r. r\<lparr>is_slowsync := False\<rparr>) e2 else e2)
             (if active_slowsync (cmem e1 c) then jack_sync_poll_deactivate e1 c else Value e1)
         else Value e1)"

definition jack_transport_client_new :: "jack_client_internal_t \<Rightarrow> jack_client_internal_t" where
  "jack_transport_client_new r =
     r\<lparr>is_timebase := False, timebase_new := False, is_slowsync := False, active_slowsync := False,
       sync_poll := False, sync_new := False, sync_cb_cbset := False, timebase_cb_cbset := False\<rparr>"

definition jack_transport_client_reset_sync :: "jack_engine_t \<Rightarrow> u32 \<Rightarrow> (jack_engine_t \<times> int) c_result" where
  "jack_transport_client_reset_sync e client_id =
     (case jack_client_internal_by_id e client_id of
        Some c \<Rightarrow>
          if is_slowsync (cmem e c) then
            c_map (\<lambda>e1. (upd_client c (\<lambda>r. r\<lparr>is_slowsync := False\<rparr>) e1, 0))
              (if active_slowsync (cmem e c) then jack_sync_poll_deactivate e c else Value e)
          else Value (e, EINVAL)
      | None \<Rightarrow> Value (e, EINVAL))"

definition jack_transport_client_set_sync :: "jack_engine_t \<Rightarrow> u32 \<Rightarrow> jack_engine_t \<times> int" where
  "jack_transport_client_set_sync e client_id =
     (case jack_client_internal_by_id e client_id of
        Some c \<Rightarrow>
          (let e1 = (if is_slowsync (cmem e c) then e
                     else
                       (let e0 = upd_client c (\<lambda>r. r\<lparr>is_slowsync := True\<rparr>) e in
                        if active (cmem e0 c)
                        then upd_control (\<lambda>ctl. ctl\<lparr>sync_clients := sync_clients ctl + 1\<rparr>)
                               (upd_client c (\<lambda>r. r\<lparr>active_slowsync := True\<rparr>) e0)
                        else e0))
           in (if active_slowsync (cmem e1 c) then jack_sync_poll_new e1 c else e1, 0))
      | None \<Rightarrow> (e, EINVAL))"

definition jack_transport_cycle_start :: "jack_engine_t \<Rightarrow> u64 \<Rightarrow> jack_engine_t" where
  "jack_transport_cycle_start e time =
     upd_control (\<lambda>ctl. ctl\<lparr>current_time := (current_time ctl)\<lparr>usecs := time\<rparr>\<rparr>) e"

definition jack_transport_set_sync_timeout :: "jack_engine_t \<Rightarrow> u64 \<Rightarrow> jack_engine_t \<times> int" where
  "jack_transport_set_sync_timeout e us = (upd_control (\<lambda>ctl. ctl\<lparr>sync_timeout := us\<rparr>) e, 0)"

section \<open>The guarded copy of a position\<close>

text \<open>
  \<open>jack_transport_copy_position\<close> copies a structure that another process may be writing: \<open>reads i\<close>
  is what the i-th copy sees. Eleven copies make a round, and the thousandth round that does not
  find equal guards calls \<open>abort\<close>.
\<close>

function copy_loop :: "(nat \<Rightarrow> jack_position_t) \<Rightarrow> nat \<Rightarrow> nat \<Rightarrow> nat \<Rightarrow> jack_position_t c_result" where
  "copy_loop reads i tries timeout =
     (let (tries', timeout') = (if 10 < tries then (0, timeout - 1) else (tries, timeout)) in
      if 10 < tries \<and> timeout' = 0 then AssertFailed
      else if unique_1 (reads i) = unique_2 (reads i) then Value (reads i)
      else copy_loop reads (Suc i) (Suc tries') timeout')"
  by pat_completeness auto
termination
  by (relation "measures [\<lambda>(reads, i, tries, timeout). timeout, \<lambda>(reads, i, tries, timeout). 11 - tries]")
    (auto split: if_splits)

declare copy_loop.simps [simp del]

definition jack_transport_copy_position :: "(nat \<Rightarrow> jack_position_t) \<Rightarrow> jack_position_t c_result" where
  "jack_transport_copy_position reads = copy_loop reads 0 0 1000"

section \<open>The end of a process cycle\<close>

definition promote_pending :: "jack_control_t \<Rightarrow> jack_control_t" where
  "promote_pending ctl =
     (let p = (pending_time ctl)\<lparr>usecs := usecs (current_time ctl), frame_rate := frame_rate (current_time ctl),
                                 frame := pending_frame ctl\<rparr>
      in ctl\<lparr>pending_time := p, current_time := p, new_pos := pending_pos ctl\<rparr>)"

definition set_state :: "jack_transport_state_t \<Rightarrow> jack_engine_t \<Rightarrow> jack_engine_t" where
  "set_state s e = upd_control (\<lambda>ctl. ctl\<lparr>transport_state := s\<rparr>) e"

definition check_sync :: "jack_engine_t \<Rightarrow> jack_engine_t c_result" where
  "check_sync e =
     (if transport_state (control e) = JackTransportStarting then
        (if sync_remain (control e) = 0 then Value (set_state JackTransportRolling e)
         else c_map (\<lambda>(e1, out). if out then set_state JackTransportRolling e1 else e1) (jack_sync_timeout e))
      else Value e)"

definition latest_command :: "jack_engine_t \<Rightarrow> jack_engine_t \<times> transport_command_t" where
  "latest_command e =
     (let cmd = transport_cmd (control e) in
      if cmd \<noteq> previous_cmd (control e)
      then (upd_control (\<lambda>ctl. ctl\<lparr>previous_cmd := cmd\<rparr>) e, cmd)
      else (e, TransportCommandNone))"

definition stop_transport :: "jack_engine_t \<Rightarrow> jack_engine_t c_result" where
  "stop_transport e =
     (let e1 = set_state JackTransportStopped e in
      if sync_remain (control e1) \<noteq> 0 then jack_sync_poll_stop e1 else Value e1)"

definition state_switch :: "jack_engine_t \<Rightarrow> transport_command_t \<Rightarrow> jack_engine_t c_result" where
  "state_switch e cmd =
     (case transport_state (control e) of
        JackTransportStopped \<Rightarrow>
          if cmd = TransportCommandStart then
            (if sync_clients (control e) \<noteq> 0 then jack_sync_poll_start (set_state JackTransportStarting e)
             else Value (set_state JackTransportRolling e))
          else Value e
      | JackTransportStarting \<Rightarrow>
          if cmd = TransportCommandStop then stop_transport e
          else if new_pos (control e) then
            (if sync_clients (control e) \<noteq> 0 then jack_sync_poll_start (set_state JackTransportStarting e)
             else Value (set_state JackTransportRolling e))
          else Value e
      | JackTransportRolling \<Rightarrow>
          if cmd = TransportCommandStop then stop_transport e
          else if new_pos (control e) then
            (if sync_clients (control e) \<noteq> 0 then jack_sync_poll_start (set_state JackTransportStarting e)
             else Value e)
          else Value e
      | JackTransportLooping \<Rightarrow> Value e)"

definition advance_frame :: "jack_control_t \<Rightarrow> jack_control_t" where
  "advance_frame ctl =
     (if transport_state ctl = JackTransportRolling
      then ctl\<lparr>pending_time := (pending_time ctl)\<lparr>frame := frame (current_time ctl) + buffer_size ctl\<rparr>\<rparr>
      else ctl)"

text \<open>The position request: \<open>reads\<close> is what the guarded copy sees of \<open>request_time\<close>.\<close>

definition take_request :: "(nat \<Rightarrow> jack_position_t) \<Rightarrow> jack_control_t \<Rightarrow> jack_control_t c_result" where
  "take_request reads ctl =
     (let c0 = ctl\<lparr>pending_pos := False\<rparr> in
      if unique_1 (request_time c0) \<noteq> prev_request c0 then
        c_map (\<lambda>p. c0\<lparr>pending_time := p, prev_request := unique_1 p, pending_pos := True\<rparr>)
          (jack_transport_copy_position reads)
      else Value c0)"

definition save_pending_frame :: "jack_control_t \<Rightarrow> jack_control_t" where
  "save_pending_frame ctl = ctl\<lparr>pending_frame := frame (pending_time ctl)\<rparr>"

definition jack_transport_cycle_end :: "(nat \<Rightarrow> jack_position_t) \<Rightarrow> jack_engine_t \<Rightarrow> jack_engine_t c_result" where
  "jack_transport_cycle_end reads e =
     c_bind (check_sync (upd_control promote_pending e)) (\<lambda>e1.
     (let (e2, cmd) = latest_command e1 in
      c_bind (state_switch e2 cmd) (\<lambda>e3.
        c_map (\<lambda>ctl. e3\<lparr>control := save_pending_frame ctl\<rparr>)
          (take_request reads (advance_frame (control e3))))))"

section \<open>The client side\<close>

text \<open>The identifier is the old value of a signed 32-bit counter, widened to 64 bits.\<close>

definition jack_generate_unique_id :: "jack_control_t \<Rightarrow> jack_control_t \<times> u64" where
  "jack_generate_unique_id ctl = (ctl\<lparr>seq_number := seq_number ctl + 1\<rparr>, scast (seq_number ctl))"

definition jack_transport_request_new_pos :: "jack_engine_t \<Rightarrow> jack_position_t \<Rightarrow> jack_engine_t c_result" where
  "jack_transport_request_new_pos e pos =
     (let (ctl, uid) = jack_generate_unique_id (control e);
          p = pos\<lparr>unique_1 := uid, unique_2 := uid, usecs := usecs (current_time ctl),
                  frame_rate := frame_rate (current_time ctl)\<rparr>
      in c_map (\<lambda>q. e\<lparr>control := ctl\<lparr>request_time := q\<rparr>\<rparr>) (jack_transport_copy_position (\<lambda>_. p)))"

text \<open>\<open>ready\<close> is what the sync callback of the client returns.\<close>

definition jack_call_sync_client :: "jack_engine_t \<Rightarrow> cptr \<Rightarrow> bool \<Rightarrow> jack_engine_t" where
  "jack_call_sync_client e c ready =
     (let cl = cmem e c in
      if (new_pos (control e) \<or> sync_poll cl \<or> sync_new cl) \<and> active_slowsync cl then
        upd_client c (\<lambda>r. r\<lparr>sync_new := False\<rparr>)
          (if ready \<and> sync_poll cl
           then upd_control (\<lambda>ctl. ctl\<lparr>sync_remain := sync_remain ctl - 1\<rparr>)
                  (upd_client c (\<lambda>r. r\<lparr>sync_poll := False\<rparr>) e)
           else e)
      else e)"

text \<open>\<open>timebase_cb\<close> is the callback: state, cycle length, pending position and the new-position flag.\<close>

definition jack_call_timebase_master ::
  "(jack_transport_state_t \<Rightarrow> jack_nframes_t \<Rightarrow> jack_position_t \<Rightarrow> bool \<Rightarrow> jack_position_t) \<Rightarrow>
   jack_engine_t \<Rightarrow> cptr \<Rightarrow> jack_engine_t" where
  "jack_call_timebase_master timebase_cb e c =
     (let pos_new = pending_pos (control e) in
      if is_timebase (cmem e c) then
        (let first = timebase_new (cmem e c);
             e1 = (if first then upd_client c (\<lambda>r. r\<lparr>timebase_new := False\<rparr>) e else e);
             pos_new' = (first \<or> pos_new)
         in if transport_state (control e1) = JackTransportRolling \<or> pos_new'
            then upd_control (\<lambda>ctl. ctl\<lparr>pending_time := timebase_cb (transport_state ctl) (buffer_size ctl) (pending_time ctl) pos_new'\<rparr>) e1
            else e1)
      else upd_client c (\<lambda>r. r\<lparr>timebase_cb_cbset := False\<rparr>) e)"

definition jack_transport_locate :: "jack_engine_t \<Rightarrow> jack_position_t \<Rightarrow> jack_nframes_t \<Rightarrow> jack_engine_t c_result" where
  "jack_transport_locate e pos frm = jack_transport_request_new_pos e (pos\<lparr>frame := frm, valid := 0\<rparr>)"

definition jack_transport_query :: "jack_engine_t \<Rightarrow> (nat \<Rightarrow> jack_position_t) \<Rightarrow> (jack_transport_state_t \<times> jack_position_t) c_result" where
  "jack_transport_query e reads =
     c_map (\<lambda>p. (transport_state (control e), p)) (jack_transport_copy_position reads)"

definition JACK_POSITION_MASK :: u32 where "JACK_POSITION_MASK = 0x1f0"

definition jack_transport_reposition :: "jack_engine_t \<Rightarrow> jack_position_t \<Rightarrow> (jack_engine_t \<times> int) c_result" where
  "jack_transport_reposition e pos =
     (if valid pos AND NOT JACK_POSITION_MASK \<noteq> 0 then Value (e, EINVAL)
      else c_map (\<lambda>e1. (e1, 0)) (jack_transport_request_new_pos e pos))"

definition jack_transport_start :: "jack_engine_t \<Rightarrow> jack_engine_t" where
  "jack_transport_start e = upd_control (\<lambda>ctl. ctl\<lparr>transport_cmd := TransportCommandStart\<rparr>) e"

definition jack_transport_stop :: "jack_engine_t \<Rightarrow> jack_engine_t" where
  "jack_transport_stop e = upd_control (\<lambda>ctl. ctl\<lparr>transport_cmd := TransportCommandStop\<rparr>) e"

end
