(* ===== verification/Transport_Inv.thy ===== *)
theory Transport_Inv
  imports Transport
begin

text \<open>
  The counters of the transport agree with the flags of the clients. That is what the
  assertions in \<open>transengine.c\<close> check at run time, and it is kept by every transport operation,
  so that the assertions never fire.
\<close>

section \<open>Counting clients\<close>

definition client_count :: "(jack_client_internal_t \<Rightarrow> bool) \<Rightarrow> jack_engine_t \<Rightarrow> int" where
  "client_count P e = int (length (filter (\<lambda>c. P (cmem e c)) (clients e)))"

lemma upd_client_simps [simp]:
  "clients (upd_client c f e) = clients e" "control (upd_client c f e) = control e"
  "cmem (upd_client c f e) = (cmem e)(c := f (cmem e c))" "timebase_client (upd_client c f e) = timebase_client e"
  by (simp_all add: upd_client_def)

lemma upd_control_simps [simp]:
  "clients (upd_control f e) = clients e" "control (upd_control f e) = f (control e)"
  "cmem (upd_control f e) = cmem e" "timebase_client (upd_control f e) = timebase_client e"
  by (simp_all add: upd_control_def)

lemma client_count_control [simp]: "client_count P (upd_control f e) = client_count P e"
  by (simp add: client_count_def)

lemma filter_count_upd:
  assumes "distinct cs" "c \<in> set cs" "\<And>x. x \<noteq> c \<Longrightarrow> n x = m x"
  shows "int (length (filter (\<lambda>x. P (n x)) cs)) =
    int (length (filter (\<lambda>x. P (m x)) cs)) - (if P (m c) then 1 else 0) + (if P (n c) then 1 else 0)"
  using assms(1,2)
proof (induction cs)
  case (Cons x xs)
  show ?case
  proof (cases "x = c")
    case True
    then have "x \<notin> set xs" using Cons.prems by simp
    then have "filter (\<lambda>x. P (n x)) xs = filter (\<lambda>x. P (m x)) xs"
      using True assms(3) by (intro filter_cong refl) metis
    then show ?thesis using True by simp
  next
    case False
    then show ?thesis using Cons assms(3) [OF False] by (auto split: if_splits)
  qed
qed simp

lemma client_count_upd [simp]:
  assumes "distinct (clients e)" "c \<in> set (clients e)"
  shows "client_count P (upd_client c f e) =
    client_count P e - (if P (cmem e c) then 1 else 0) + (if P (f (cmem e c)) then 1 else 0)"
  using filter_count_upd [OF assms, of "cmem (upd_client c f e)" "cmem e" P] by (simp add: client_count_def)

lemma client_count_pos:
  assumes "c \<in> set (clients e)" "P (cmem e c)"
  shows "1 \<le> client_count P e"
proof -
  have "filter (\<lambda>c. P (cmem e c)) (clients e) \<noteq> []" using assms by (simp add: filter_empty_conv) blast
  then show ?thesis by (cases "filter (\<lambda>c. P (cmem e c)) (clients e)") (simp_all add: client_count_def)
qed

section \<open>The invariant\<close>

definition sync_inv :: "jack_engine_t \<Rightarrow> bool" where
  "sync_inv e \<longleftrightarrow> distinct (clients e) \<and>
     (\<forall>c \<in> set (clients e). (sync_poll (cmem e c) \<longrightarrow> active_slowsync (cmem e c)) \<and>
                            (active_slowsync (cmem e c) \<longrightarrow> is_slowsync (cmem e c))) \<and>
     sync_clients (control e) = client_count active_slowsync e \<and>
     sync_remain (control e) = client_count sync_poll e"

definition master_inv :: "jack_engine_t \<Rightarrow> bool" where
  "master_inv e \<longleftrightarrow> (\<forall>c \<in> set (clients e). is_timebase (cmem e c) \<longleftrightarrow> timebase_client e = Some c) \<and>
     (\<forall>c. timebase_client e = Some c \<longrightarrow> c \<in> set (clients e))"

definition transport_inv :: "jack_engine_t \<Rightarrow> bool" where
  "transport_inv e \<longleftrightarrow> sync_inv e \<and> master_inv e"

section \<open>Polling\<close>

lemma poll_new_inv:
  assumes "sync_inv e" "c \<in> set (clients e)" "active_slowsync (cmem e c)"
  shows "sync_inv (jack_sync_poll_new e c)"
  using assms by (auto simp: sync_inv_def jack_sync_poll_new_def Let_def)

lemma poll_new_frame [simp]:
  "clients (jack_sync_poll_new e c) = clients e" "timebase_client (jack_sync_poll_new e c) = timebase_client e"
  "is_timebase (cmem (jack_sync_poll_new e c) x) = is_timebase (cmem e x)"
  by (simp_all add: jack_sync_poll_new_def Let_def)

lemma deactivate_Value:
  assumes "sync_inv e" "c \<in> set (clients e)" "active_slowsync (cmem e c)"
  shows "\<exists>e'. jack_sync_poll_deactivate e c = Value e' \<and> sync_inv e' \<and> clients e' = clients e \<and>
    timebase_client e' = timebase_client e \<and> \<not> active_slowsync (cmem e' c) \<and> dead (cmem e' c) = dead (cmem e c) \<and>
    (\<forall>x. is_timebase (cmem e' x) = is_timebase (cmem e x))"
  using assms client_count_pos [of c e active_slowsync]
  by (auto simp: sync_inv_def jack_sync_poll_deactivate_def Let_def)

text \<open>The two loops touch \<open>sync_poll\<close> only; they count the clients they touch.\<close>

lemma poll_stop_each_frame [simp]:
  "clients (fst (poll_stop_each e cs n)) = clients e" "control (fst (poll_stop_each e cs n)) = control e"
  "timebase_client (fst (poll_stop_each e cs n)) = timebase_client e"
  by (induction e cs n rule: poll_stop_each.induct) auto

lemma sync_poll_idle: "\<not> sync_poll r \<Longrightarrow> r\<lparr>sync_poll := False\<rparr> = r"
  by (cases r) simp

lemma poll_stop_each_cmem:
  "distinct cs \<Longrightarrow> cmem (fst (poll_stop_each e cs n)) x =
    (if x \<in> set cs \<and> active_slowsync (cmem e x) then (cmem e x)\<lparr>sync_poll := False\<rparr> else cmem e x)"
  by (induction cs arbitrary: e n) (auto simp: sync_poll_idle)

lemma poll_stop_each_count:
  "distinct cs \<Longrightarrow> snd (poll_stop_each e cs n) =
    n + int (length (filter (\<lambda>c. active_slowsync (cmem e c) \<and> sync_poll (cmem e c)) cs))"
proof (induction cs arbitrary: e n)
  case (Cons c cs)
  have "filter (\<lambda>x. active_slowsync (cmem (upd_client c g e) x) \<and> sync_poll (cmem (upd_client c g e) x)) cs =
      filter (\<lambda>x. active_slowsync (cmem e x) \<and> sync_poll (cmem e x)) cs" for g
    using Cons.prems by (intro filter_cong) auto
  then show ?case using Cons by simp
qed simp

lemma poll_start_each_frame [simp]:
  "clients (fst (poll_start_each e cs n)) = clients e" "control (fst (poll_start_each e cs n)) = control e"
  "timebase_client (fst (poll_start_each e cs n)) = timebase_client e"
  by (induction e cs n rule: poll_start_each.induct) auto

lemma poll_start_each_cmem:
  "distinct cs \<Longrightarrow> cmem (fst (poll_start_each e cs n)) x =
    (if x \<in> set cs \<and> active_slowsync (cmem e x) then (cmem e x)\<lparr>sync_poll := True\<rparr> else cmem e x)"
  by (induction cs arbitrary: e n) auto

lemma poll_start_each_count:
  "distinct cs \<Longrightarrow> snd (poll_start_each e cs n) = n + int (length (filter (\<lambda>c. active_slowsync (cmem e c)) cs))"
proof (induction cs arbitrary: e n)
  case (Cons c cs)
  have "filter (\<lambda>x. active_slowsync (cmem (upd_client c g e) x)) cs = filter (\<lambda>x. active_slowsync (cmem e x)) cs" for g
    using Cons.prems by (intro filter_cong) auto
  then show ?case using Cons by simp
qed simp

lemma client_count_cong:
  "clients e' = clients e \<Longrightarrow> (\<And>c. c \<in> set (clients e) \<Longrightarrow> P (cmem e' c) = Q (cmem e c)) \<Longrightarrow>
   client_count P e' = client_count Q e"
  by (simp add: client_count_def cong: filter_cong)

lemma client_count_none: "(\<And>c. c \<in> set (clients e) \<Longrightarrow> \<not> P (cmem e c)) \<Longrightarrow> client_count P e = 0"
  by (simp add: client_count_def filter_empty_conv)

text \<open>The assertions of the two loops hold.\<close>

definition keeps_flags :: "jack_engine_t \<Rightarrow> jack_engine_t \<Rightarrow> bool" where
  "keeps_flags e e' \<longleftrightarrow> clients e' = clients e \<and> timebase_client e' = timebase_client e \<and>
     (\<forall>c. is_timebase (cmem e' c) = is_timebase (cmem e c) \<and> active_slowsync (cmem e' c) = active_slowsync (cmem e c) \<and>
          is_slowsync (cmem e' c) = is_slowsync (cmem e c))"

lemma poll_stop_Value:
  assumes "sync_inv e"
  shows "\<exists>e'. jack_sync_poll_stop e = Value e' \<and> sync_inv e' \<and> keeps_flags e e' \<and>
    control e' = (control e)\<lparr>sync_remain := 0, sync_time_left := 0\<rparr>"
proof -
  let ?s = "poll_stop_each e (clients e) 0"
  have d: "distinct (clients e)" using assms by (simp add: sync_inv_def)
  have m: "cmem (fst ?s) x = (if x \<in> set (clients e) \<and> active_slowsync (cmem e x) then (cmem e x)\<lparr>sync_poll := False\<rparr> else cmem e x)" for x
    by (rule poll_stop_each_cmem [OF d])
  have "snd ?s = client_count sync_poll e"
    unfolding poll_stop_each_count [OF d] client_count_def
    using assms by (auto simp: sync_inv_def intro!: arg_cong [of _ _ length] filter_cong)
  then have v: "jack_sync_poll_stop e = Value (upd_control (\<lambda>ctl. ctl\<lparr>sync_remain := 0, sync_time_left := 0\<rparr>) (fst ?s))"
    using assms by (simp add: jack_sync_poll_stop_def case_prod_beta sync_inv_def)
  have "client_count active_slowsync (fst ?s) = client_count active_slowsync e" by (rule client_count_cong) (auto simp: m)
  moreover have "client_count sync_poll (fst ?s) = 0"
    using assms by (intro client_count_none) (auto simp: m sync_inv_def)
  ultimately show ?thesis using v assms by (auto simp: sync_inv_def keeps_flags_def m)
qed

lemma poll_start_Value:
  assumes "sync_inv e"
  shows "\<exists>e'. jack_sync_poll_start e = Value e' \<and> sync_inv e' \<and> keeps_flags e e' \<and>
    control e' = (control e)\<lparr>sync_remain := sync_clients (control e), sync_time_left := sync_timeout (control e)\<rparr>"
proof -
  let ?s = "poll_start_each e (clients e) 0"
  have d: "distinct (clients e)" using assms by (simp add: sync_inv_def)
  have m: "cmem (fst ?s) x = (if x \<in> set (clients e) \<and> active_slowsync (cmem e x) then (cmem e x)\<lparr>sync_poll := True\<rparr> else cmem e x)" for x
    by (rule poll_start_each_cmem [OF d])
  have c: "snd ?s = sync_clients (control e)"
    using assms by (simp add: poll_start_each_count [OF d] client_count_def sync_inv_def)
  then have v: "jack_sync_poll_start e = Value (upd_control (\<lambda>ctl. ctl\<lparr>sync_remain := sync_clients (control e),
      sync_time_left := sync_timeout ctl\<rparr>) (fst ?s))"
    by (simp add: jack_sync_poll_start_def case_prod_beta)
  have "client_count active_slowsync (fst ?s) = client_count active_slowsync e" by (rule client_count_cong) (auto simp: m)
  moreover have "client_count sync_poll (fst ?s) = client_count active_slowsync e"
    using assms by (intro client_count_cong) (auto simp: m sync_inv_def)
  ultimately show ?thesis using v assms by (auto simp: sync_inv_def keeps_flags_def m)
qed


section \<open>The guarded copy\<close>

text \<open>The copy returns a structure it read with equal guards, and returns if one of the first
  \<open>11 * timeout - tries\<close> reads has them.\<close>

lemma copy_loop_returns:
  "i \<le> j \<Longrightarrow> j < i + 11 * timeout - tries \<Longrightarrow> tries \<le> 11 \<Longrightarrow> unique_1 (reads j) = unique_2 (reads j) \<Longrightarrow>
   \<exists>k. i \<le> k \<and> k \<le> j \<and> copy_loop reads i tries timeout = Value (reads k) \<and> unique_1 (reads k) = unique_2 (reads k)"
proof (induction reads i tries timeout rule: copy_loop.induct)
  case (1 reads i tries timeout)
  define t' where "t' = (if 10 < tries then 0 else tries)"
  define o' where "o' = (if 10 < tries then timeout - 1 else timeout)"
  have pair: "(if 10 < tries then (0, timeout - 1) else (tries, timeout)) = (t', o')" by (simp add: t'_def o'_def)
  have step: "copy_loop reads i tries timeout =
     (if 10 < tries \<and> o' = 0 then AssertFailed
      else if unique_1 (reads i) = unique_2 (reads i) then Value (reads i)
      else copy_loop reads (Suc i) (Suc t') o')"
    by (subst copy_loop.simps) (simp add: pair)
  have left: "\<not> (10 < tries \<and> o' = 0)" using "1.prems" by (auto simp: o'_def)
  show ?case
  proof (cases "unique_1 (reads i) = unique_2 (reads i)")
    case True
    then show ?thesis using step left "1.prems"(1) by auto
  next
    case False
    then have ij: "Suc i \<le> j" using "1.prems"(1,4) by (metis Suc_leI le_neq_implies_less)
    have b: "j < Suc i + 11 * o' - Suc t'" "Suc t' \<le> 11" using "1.prems"(2,3) by (auto simp: t'_def o'_def)
    have "\<exists>k. Suc i \<le> k \<and> k \<le> j \<and> copy_loop reads (Suc i) (Suc t') o' = Value (reads k) \<and>
        unique_1 (reads k) = unique_2 (reads k)"
      using "1.IH" [OF pair [symmetric] refl left False] ij b "1.prems"(4) by blast
    then obtain k where "Suc i \<le> k" "k \<le> j" "copy_loop reads (Suc i) (Suc t') o' = Value (reads k)"
      "unique_1 (reads k) = unique_2 (reads k)" by blast
    then show ?thesis using step left False by (intro exI [of _ k]) simp
  qed
qed

lemma copy_position_returns:
  assumes "j < 11000" "unique_1 (reads j) = unique_2 (reads j)"
  shows "\<exists>k \<le> j. jack_transport_copy_position reads = Value (reads k) \<and> unique_1 (reads k) = unique_2 (reads k)"
  using copy_loop_returns [of 0 j 1000 0 reads] assms by (auto simp: jack_transport_copy_position_def)

section \<open>The cycle end, stage by stage\<close>

text \<open>The transport as a finite state machine: \<open>synced\<close> says that no client is waited for any more.\<close>

fun transport_next :: "jack_transport_state_t \<Rightarrow> bool \<Rightarrow> transport_command_t \<Rightarrow> bool \<Rightarrow> bool \<Rightarrow> jack_transport_state_t" where
  "transport_next JackTransportStopped synced cmd repositioned slow =
     (if cmd = TransportCommandStart then (if slow then JackTransportStarting else JackTransportRolling)
      else JackTransportStopped)"
| "transport_next JackTransportStarting synced cmd repositioned slow =
     (if cmd = TransportCommandStop then JackTransportStopped
      else if repositioned then (if slow then JackTransportStarting else JackTransportRolling)
      else if synced then JackTransportRolling else JackTransportStarting)"
| "transport_next JackTransportRolling synced cmd repositioned slow =
     (if cmd = TransportCommandStop then JackTransportStopped
      else if repositioned \<and> slow then JackTransportStarting else JackTransportRolling)"
| "transport_next JackTransportLooping synced cmd repositioned slow = JackTransportLooping"

definition new_command :: "jack_control_t \<Rightarrow> transport_command_t" where
  "new_command ctl = (if transport_cmd ctl \<noteq> previous_cmd ctl then transport_cmd ctl else TransportCommandNone)"

definition sync_done :: "jack_control_t \<Rightarrow> bool" where
  "sync_done ctl \<longleftrightarrow> sync_remain ctl = 0 \<or> sync_time_left ctl \<le> buf_usecs ctl"

lemma sync_inv_control:
  "sync_inv e \<Longrightarrow> sync_clients (f (control e)) = sync_clients (control e) \<Longrightarrow>
   sync_remain (f (control e)) = sync_remain (control e) \<Longrightarrow> sync_inv (upd_control f e)"
  by (simp add: sync_inv_def)

lemma keeps_flags_refl [simp]: "keeps_flags e e" "keeps_flags e (upd_control f e)"
  by (simp_all add: keeps_flags_def)

lemma keeps_flags_trans: "keeps_flags a b \<Longrightarrow> keeps_flags b c \<Longrightarrow> keeps_flags a c"
  by (simp add: keeps_flags_def)

lemma promote_simps [simp]:
  "sync_clients (promote_pending ctl) = sync_clients ctl" "sync_remain (promote_pending ctl) = sync_remain ctl"
  "sync_time_left (promote_pending ctl) = sync_time_left ctl" "sync_timeout (promote_pending ctl) = sync_timeout ctl"
  "transport_state (promote_pending ctl) = transport_state ctl" "transport_cmd (promote_pending ctl) = transport_cmd ctl"
  "previous_cmd (promote_pending ctl) = previous_cmd ctl" "buffer_size (promote_pending ctl) = buffer_size ctl"
  "frame_rate (current_time (promote_pending ctl)) = frame_rate (current_time ctl)"
  "buf_usecs (promote_pending ctl) = buf_usecs ctl" "new_pos (promote_pending ctl) = pending_pos ctl"
  "request_time (promote_pending ctl) = request_time ctl" "prev_request (promote_pending ctl) = prev_request ctl"
  "frame (current_time (promote_pending ctl)) = pending_frame ctl"
  "frame (pending_time (promote_pending ctl)) = pending_frame ctl"
  by (simp_all add: promote_pending_def Let_def buf_usecs_def)

text \<open>What a stage may change of the control block.\<close>

definition same_clock :: "jack_control_t \<Rightarrow> jack_control_t \<Rightarrow> bool" where
  "same_clock a b \<longleftrightarrow> current_time b = current_time a \<and> pending_time b = pending_time a \<and> request_time b = request_time a \<and>
     prev_request b = prev_request a \<and> new_pos b = new_pos a \<and> pending_pos b = pending_pos a \<and>
     pending_frame b = pending_frame a \<and> sync_clients b = sync_clients a \<and> sync_timeout b = sync_timeout a \<and>
     transport_cmd b = transport_cmd a \<and> buffer_size b = buffer_size a"

lemma check_sync_Value:
  assumes "sync_inv e" "frame_rate (current_time (control e)) \<noteq> 0"
  shows "\<exists>e'. check_sync e = Value e' \<and> sync_inv e' \<and> keeps_flags e e' \<and> same_clock (control e) (control e') \<and>
    previous_cmd (control e') = previous_cmd (control e) \<and>
    transport_state (control e') = (if transport_state (control e) = JackTransportStarting \<and> sync_done (control e)
      then JackTransportRolling else transport_state (control e)) \<and>
    sync_remain (control e') = sync_remain (control e) \<and>
    (transport_state (control e') = JackTransportStarting \<longrightarrow>
       sync_time_left (control e') = sync_time_left (control e) - buf_usecs (control e))"
  using assms
  by (auto simp: check_sync_def jack_sync_timeout_def Let_def set_state_def sync_done_def same_clock_def keeps_flags_def
      intro!: sync_inv_control)

lemma state_switch_Value:
  assumes "sync_inv e"
  shows "\<exists>e'. state_switch e cmd = Value e' \<and> sync_inv e' \<and> keeps_flags e e' \<and> same_clock (control e) (control e') \<and>
    previous_cmd (control e') = previous_cmd (control e) \<and>
    transport_state (control e') = transport_next (transport_state (control e)) False cmd (new_pos (control e)) (sync_clients (control e) \<noteq> 0) \<and>
    (cmd = TransportCommandNone \<and> \<not> new_pos (control e) \<longrightarrow> e' = e)"
proof -
  have set: "sync_inv (set_state s e)" "keeps_flags e (set_state s e)" for s
    using assms by (auto simp: set_state_def intro: sync_inv_control)
  have start: "\<exists>e'. jack_sync_poll_start (set_state s e) = Value e' \<and> sync_inv e' \<and> keeps_flags e e' \<and>
      same_clock (control e) (control e') \<and> previous_cmd (control e') = previous_cmd (control e) \<and>
      transport_state (control e') = s" for s
    using poll_start_Value [OF set(1) [of s]] keeps_flags_trans [OF set(2) [of s]]
    by (auto simp: set_state_def same_clock_def)
  have stop: "\<exists>e'. stop_transport e = Value e' \<and> sync_inv e' \<and> keeps_flags e e' \<and>
      same_clock (control e) (control e') \<and> previous_cmd (control e') = previous_cmd (control e) \<and>
      transport_state (control e') = JackTransportStopped"
    using poll_stop_Value [OF set(1) [of JackTransportStopped]] keeps_flags_trans [OF set(2) [of JackTransportStopped]] set
    by (auto simp: stop_transport_def Let_def set_state_def same_clock_def)
  show ?thesis
    using start [of JackTransportStarting] stop set assms
    by (cases "transport_state (control e)"; cases cmd)
      (auto simp: state_switch_def set_state_def same_clock_def)
qed


lemma latest_command_result:
  assumes "sync_inv e"
  shows "snd (latest_command e) = new_command (control e)" "sync_inv (fst (latest_command e))"
    "keeps_flags e (fst (latest_command e))" "same_clock (control e) (control (fst (latest_command e)))"
    "transport_state (control (fst (latest_command e))) = transport_state (control e)"
    "previous_cmd (control (fst (latest_command e))) = transport_cmd (control e)"
    "sync_remain (control (fst (latest_command e))) = sync_remain (control e)"
    "sync_time_left (control (fst (latest_command e))) = sync_time_left (control e)"
  using assms by (auto simp: latest_command_def new_command_def Let_def same_clock_def intro: sync_inv_control)

lemma take_request_Value:
  assumes "j < 11000" "unique_1 (reads j) = unique_2 (reads j)"
  shows "\<exists>ctl' k. take_request reads ctl = Value ctl' \<and> k \<le> j \<and> unique_1 (reads k) = unique_2 (reads k) \<and>
    ctl' = (if unique_1 (request_time ctl) \<noteq> prev_request ctl
            then ctl\<lparr>pending_time := reads k, prev_request := unique_1 (reads k), pending_pos := True\<rparr>
            else ctl\<lparr>pending_pos := False\<rparr>)"
proof -
  obtain k where "k \<le> j" "jack_transport_copy_position reads = Value (reads k)" "unique_1 (reads k) = unique_2 (reads k)"
    using copy_position_returns [of j reads] assms by blast
  then show ?thesis by (intro exI conjI) (auto simp: take_request_def Let_def)
qed

lemma transport_next_synced:
  "transport_next (if s = JackTransportStarting \<and> b then JackTransportRolling else s) False cmd repos slow =
   (if s = JackTransportStarting then transport_next s b cmd repos slow else transport_next s False cmd repos slow)"
  by (cases s) auto

lemma transport_next_other: "s \<noteq> JackTransportStarting \<Longrightarrow> transport_next s b cmd repos slow = transport_next s False cmd repos slow"
  by (cases s) auto

definition cycle_frame :: "jack_control_t \<Rightarrow> jack_transport_state_t \<Rightarrow> jack_nframes_t" where
  "cycle_frame ctl s = (if s = JackTransportRolling then pending_frame ctl + buffer_size ctl else pending_frame ctl)"

text \<open>The whole cycle end.\<close>

lemma cycle_end_Value:
  assumes inv: "sync_inv e" and fr: "frame_rate (current_time (control e)) \<noteq> 0"
    and rd: "j < 11000" "unique_1 (reads j) = unique_2 (reads j)"
  defines "s' \<equiv> transport_next (transport_state (control e)) (sync_done (control e)) (new_command (control e))
             (pending_pos (control e)) (sync_clients (control e) \<noteq> 0)"
  shows "\<exists>e' k. jack_transport_cycle_end reads e = Value e' \<and> sync_inv e' \<and> keeps_flags e e' \<and>
    transport_state (control e') = s' \<and> frame (current_time (control e')) = pending_frame (control e) \<and>
    frame_rate (current_time (control e')) = frame_rate (current_time (control e)) \<and>
    new_pos (control e') = pending_pos (control e) \<and> previous_cmd (control e') = transport_cmd (control e) \<and>
    buffer_size (control e') = buffer_size (control e) \<and> transport_cmd (control e') = transport_cmd (control e) \<and>
    request_time (control e') = request_time (control e) \<and>
    sync_clients (control e') = sync_clients (control e) \<and> k \<le> j \<and> unique_1 (reads k) = unique_2 (reads k) \<and>
    (if unique_1 (request_time (control e)) \<noteq> prev_request (control e)
     then pending_pos (control e') \<and> prev_request (control e') = unique_1 (reads k) \<and> pending_frame (control e') = frame (reads k)
     else \<not> pending_pos (control e') \<and> prev_request (control e') = prev_request (control e) \<and>
          pending_frame (control e') = cycle_frame (control e) s') \<and>
    (new_command (control e) = TransportCommandNone \<and> \<not> pending_pos (control e) \<and> s' = JackTransportStarting \<longrightarrow>
       sync_time_left (control e') = sync_time_left (control e) - buf_usecs (control e) \<and>
       sync_remain (control e') = sync_remain (control e))"
proof -
  let ?e0 = "upd_control promote_pending e"
  have i0: "sync_inv ?e0" using inv by (intro sync_inv_control) simp_all
  obtain e1 where e1: "check_sync ?e0 = Value e1" "sync_inv e1" "keeps_flags ?e0 e1" "same_clock (control ?e0) (control e1)"
    "previous_cmd (control e1) = previous_cmd (control ?e0)"
    "transport_state (control e1) = (if transport_state (control ?e0) = JackTransportStarting \<and> sync_done (control ?e0)
      then JackTransportRolling else transport_state (control ?e0))"
    "sync_remain (control e1) = sync_remain (control ?e0)"
    "transport_state (control e1) = JackTransportStarting \<longrightarrow> sync_time_left (control e1) = sync_time_left (control ?e0) - buf_usecs (control ?e0)"
    using check_sync_Value [OF i0] fr by auto
  note lc = latest_command_result [OF e1(2)]
  let ?e2 = "fst (latest_command e1)" and ?cmd = "new_command (control e1)"
  obtain e3 where e3: "state_switch ?e2 ?cmd = Value e3" "sync_inv e3" "keeps_flags ?e2 e3" "same_clock (control ?e2) (control e3)"
    "previous_cmd (control e3) = previous_cmd (control ?e2)"
    "transport_state (control e3) = transport_next (transport_state (control ?e2)) False ?cmd (new_pos (control ?e2)) (sync_clients (control ?e2) \<noteq> 0)"
    "?cmd = TransportCommandNone \<and> \<not> new_pos (control ?e2) \<longrightarrow> e3 = ?e2"
    using state_switch_Value [OF lc(2)] by blast
  let ?c = "advance_frame (control e3)"
  obtain ctl' k where r: "take_request reads ?c = Value ctl'" "k \<le> j" "unique_1 (reads k) = unique_2 (reads k)"
    "ctl' = (if unique_1 (request_time ?c) \<noteq> prev_request ?c
            then ?c\<lparr>pending_time := reads k, prev_request := unique_1 (reads k), pending_pos := True\<rparr>
            else ?c\<lparr>pending_pos := False\<rparr>)"
    using take_request_Value [of j reads ?c] rd by blast
  let ?e' = "e3\<lparr>control := save_pending_frame ctl'\<rparr>"
  have v: "jack_transport_cycle_end reads e = Value ?e'"
    using e1(1) lc(1) e3(1) r(1) by (simp add: jack_transport_cycle_end_def case_prod_beta)
  have cmd: "?cmd = new_command (control e)" using e1(4,5) by (simp add: new_command_def same_clock_def)
  have st: "transport_state (control e3) = s'"
    using e3(6) lc(4,5) e1(4,6) cmd
    by (cases "transport_state (control e)") (auto simp: s'_def same_clock_def sync_done_def transport_next_synced)
  have sc: "same_clock (control ?e0) (control e3)" using e1(4) lc(4) e3(4) by (simp add: same_clock_def)
  have kf: "keeps_flags e ?e'" using e1(3) lc(3) e3(3) by (simp add: keeps_flags_def)
  have adv: "same_clock (control e3) (?c\<lparr>pending_time := pending_time (control e3)\<rparr>)" "transport_state ?c = s'"
    "sync_remain ?c = sync_remain (control e3)" "previous_cmd ?c = previous_cmd (control e3)"
    "sync_time_left ?c = sync_time_left (control e3)"
    "frame (pending_time ?c) = cycle_frame (control e) s'"
    using sc st by (auto simp: advance_frame_def same_clock_def cycle_frame_def)
  have "sync_inv ?e'"
    using e3(2) adv r(4) by (auto simp: sync_inv_def client_count_def save_pending_frame_def same_clock_def)
  moreover have "sync_time_left (control e3) = sync_time_left (control e) - buf_usecs (control e) \<and>
       sync_remain (control e3) = sync_remain (control e)"
    if "new_command (control e) = TransportCommandNone" "\<not> pending_pos (control e)" "s' = JackTransportStarting"
  proof -
    have "e3 = ?e2" using e3(7) that cmd e1(4) lc(4) by (simp add: same_clock_def)
    then show ?thesis using that(3) st e1(7,8) lc(5,7,8) by simp
  qed
  ultimately show ?thesis
    using v kf adv sc e3(5) lc(6) e1(4,5) r(2,3,4)
    by (intro exI [of _ ?e'] exI [of _ k]) (auto simp: save_pending_frame_def same_clock_def)
qed

end
