(* ===== verification/Transport_Properties.thy ===== *)
theory Transport_Properties
  imports Transport_Inv Graph_Properties
begin

text \<open>
  The contract of the transport: no run-time assertion fires, there is at most one timebase
  master, the transport follows its state machine, positions advance by one period per rolling
  cycle, and a start is delayed by slow clients for no longer than the sync timeout.
\<close>

section \<open>Every operation keeps the invariant\<close>

lemma master_flags: "keeps_flags e e' \<Longrightarrow> master_inv e' = master_inv e"
  by (simp add: keeps_flags_def master_inv_def)

lemma activate_Value:
  assumes inv: "transport_inv e" and c: "c \<in> set (clients e)" "\<not> active_slowsync (cmem e c)"
  shows "\<exists>e'. jack_transport_activate e c = Value e' \<and> transport_inv e'"
proof -
  let ?a = "upd_control (\<lambda>ctl. ctl\<lparr>sync_clients := sync_clients ctl + 1\<rparr>) (upd_client c (\<lambda>r. r\<lparr>active_slowsync := True\<rparr>) e)"
  have n: "sync_inv e1 \<Longrightarrow> c \<in> set (clients e1) \<Longrightarrow> sync_inv (upd_client c (\<lambda>r. r\<lparr>timebase_new := True\<rparr>) e1)" for e1
    by (auto simp: sync_inv_def)
  have "is_slowsync (cmem e c) \<Longrightarrow> sync_inv (jack_sync_poll_new ?a c)"
    using inv c by (intro poll_new_inv) (auto simp: transport_inv_def sync_inv_def)
  moreover have "master_inv (jack_sync_poll_new ?a c)"
    using inv by (auto simp: transport_inv_def master_inv_def)
  ultimately show ?thesis
    using inv c n by (auto simp: jack_transport_activate_def transport_inv_def master_inv_def)
qed

lemma activate_fails:
  "jack_transport_activate e c = AssertFailed \<longleftrightarrow> is_slowsync (cmem e c) \<and> active_slowsync (cmem e c)"
  "jack_transport_activate e c \<noteq> Undefined"
  by (simp_all add: jack_transport_activate_def)

lemma activated_idle:
  assumes "transport_inv e" "c \<in> set (clients e)" "jack_transport_activate e c = Value e'"
  shows "\<not> active_slowsync (cmem e c)"
proof
  assume "active_slowsync (cmem e c)"
  then have "is_slowsync (cmem e c)" using assms(1,2) by (auto simp: transport_inv_def sync_inv_def)
  then show False using activate_fails(1) [of e c] assms(3) \<open>active_slowsync (cmem e c)\<close> by simp
qed

lemma exit_Value:
  assumes inv: "transport_inv e" and c: "c \<in> set (clients e)"
  shows "\<exists>e'. jack_transport_client_exit e c = Value e' \<and> transport_inv e' \<and> clients e' = clients e \<and>
    \<not> active_slowsync (cmem e' c) \<and> (dead (cmem e c) \<longrightarrow> timebase_client e' \<noteq> Some c)"
proof -
  define e1 where "e1 = (if timebase_client e = Some c then
                  upd_control (\<lambda>ctl. ctl\<lparr>current_time := (current_time ctl)\<lparr>valid := 0\<rparr>,
                                         pending_time := (pending_time ctl)\<lparr>valid := 0\<rparr>\<rparr>)
                    (if dead (cmem e c) then
                       (upd_client c (\<lambda>r. r\<lparr>is_timebase := False, timebase_new := False\<rparr>) e)\<lparr>timebase_client := None\<rparr>
                     else e) else e)"
  have cnt: "client_count P (e2\<lparr>timebase_client := t\<rparr>) = client_count P e2" for P e2 t by (simp add: client_count_def)
  have i1: "sync_inv e1" "clients e1 = clients e" "dead (cmem e1 c) = dead (cmem e c)"
    "is_slowsync (cmem e1 c) = is_slowsync (cmem e c)" "active_slowsync (cmem e1 c) = active_slowsync (cmem e c)"
    using inv c by (auto simp: e1_def transport_inv_def sync_inv_def cnt)
  have m1: "master_inv e1" "dead (cmem e c) \<Longrightarrow> timebase_client e1 \<noteq> Some c"
    using inv c by (auto simp: e1_def transport_inv_def master_inv_def)
  have ns: "\<not> is_slowsync (cmem e c) \<Longrightarrow> \<not> active_slowsync (cmem e c)"
    using inv c by (auto simp: transport_inv_def sync_inv_def)
  have fin: "sync_inv (upd_client c (\<lambda>r. r\<lparr>is_slowsync := False\<rparr>) e2) \<and> master_inv (upd_client c (\<lambda>r. r\<lparr>is_slowsync := False\<rparr>) e2)"
    if "sync_inv e2" "master_inv e2" "c \<in> set (clients e2)" "\<not> active_slowsync (cmem e2 c)" for e2
    using that by (auto simp: sync_inv_def master_inv_def)
  have def: "jack_transport_client_exit e c = (if is_slowsync (cmem e1 c) then
           c_map (\<lambda>e2. if dead (cmem e2 c) then upd_client c (\<lambda>r. r\<lparr>is_slowsync := False\<rparr>) e2 else e2)
             (if active_slowsync (cmem e1 c) then jack_sync_poll_deactivate e1 c else Value e1) else Value e1)"
    unfolding jack_transport_client_exit_def Let_def e1_def ..
  show ?thesis
  proof (cases "active_slowsync (cmem e1 c)")
    case True
    obtain e2 where e2: "jack_sync_poll_deactivate e1 c = Value e2" "sync_inv e2" "clients e2 = clients e1"
      "timebase_client e2 = timebase_client e1" "\<not> active_slowsync (cmem e2 c)" "dead (cmem e2 c) = dead (cmem e1 c)"
      "\<forall>x. is_timebase (cmem e2 x) = is_timebase (cmem e1 x)"
      using deactivate_Value [OF i1(1) _ True] i1(2) c by auto
    have "master_inv e2" using m1(1) e2 by (simp add: master_inv_def)
    then show ?thesis using def True i1 ns e2 m1(2) c fin [of e2] by (auto simp: transport_inv_def)
  next
    case False
    then show ?thesis using def i1 m1 c fin [of e1] by (auto simp: transport_inv_def)
  qed
qed

lemma reset_sync_Value:
  assumes inv: "transport_inv e"
  shows "\<exists>e' r. jack_transport_client_reset_sync e i = Value (e', r) \<and> transport_inv e'"
proof (cases "jack_client_internal_by_id e i")
  case None
  then show ?thesis using inv by (simp add: jack_transport_client_reset_sync_def)
next
  case (Some c)
  have c: "c \<in> set (clients e)" using by_id_Some [OF Some] by simp
  have fin: "transport_inv (upd_client c (\<lambda>r. r\<lparr>is_slowsync := False\<rparr>) e2)"
    if "sync_inv e2" "master_inv e2" "c \<in> set (clients e2)" "\<not> active_slowsync (cmem e2 c)" for e2
    using that by (auto simp: transport_inv_def sync_inv_def master_inv_def)
  show ?thesis
  proof (cases "active_slowsync (cmem e c)")
    case True
    obtain e2 where e2: "jack_sync_poll_deactivate e c = Value e2" "sync_inv e2" "clients e2 = clients e"
      "timebase_client e2 = timebase_client e" "\<not> active_slowsync (cmem e2 c)"
      "\<forall>x. is_timebase (cmem e2 x) = is_timebase (cmem e x)"
      using deactivate_Value [OF _ c True] inv by (auto simp: transport_inv_def)
    have "master_inv e2" using inv e2 by (simp add: transport_inv_def master_inv_def)
    then show ?thesis using Some inv True e2 c fin [of e2] by (auto simp: jack_transport_client_reset_sync_def)
  next
    case False
    then show ?thesis using Some inv c fin [of e] by (auto simp: jack_transport_client_reset_sync_def transport_inv_def)
  qed
qed

lemma set_sync_inv:
  assumes inv: "transport_inv e"
  shows "transport_inv (fst (jack_transport_client_set_sync e i))"
proof (cases "jack_client_internal_by_id e i")
  case None
  then show ?thesis using inv by (simp add: jack_transport_client_set_sync_def)
next
  case (Some c)
  have c: "c \<in> set (clients e)" using by_id_Some [OF Some] by simp
  define e1 where "e1 = (if is_slowsync (cmem e c) then e
                     else (let e0 = upd_client c (\<lambda>r. r\<lparr>is_slowsync := True\<rparr>) e in
                        if active (cmem e0 c) then upd_control (\<lambda>ctl. ctl\<lparr>sync_clients := sync_clients ctl + 1\<rparr>)
                               (upd_client c (\<lambda>r. r\<lparr>active_slowsync := True\<rparr>) e0) else e0))"
  have i1: "sync_inv e1" "clients e1 = clients e"
    using inv c by (auto simp: e1_def Let_def transport_inv_def sync_inv_def)
  have m1: "master_inv e1" using inv by (auto simp: e1_def Let_def transport_inv_def master_inv_def)
  have "jack_transport_client_set_sync e i = (if active_slowsync (cmem e1 c) then jack_sync_poll_new e1 c else e1, 0)"
    unfolding jack_transport_client_set_sync_def Some option.case e1_def Let_def ..
  then show ?thesis
    using i1 m1 c poll_new_inv [OF i1(1), of c] by (auto simp: transport_inv_def master_inv_def)
qed

lemma timebase_inv:
  assumes inv: "transport_inv e"
  shows "transport_inv (fst (jack_timebase_set e i conditional))" "transport_inv (fst (jack_timebase_reset e i))"
proof -
  have cnt: "client_count P (e2\<lparr>timebase_client := t\<rparr>) = client_count P e2" for P e2 t by (simp add: client_count_def)
  have m: "\<And>x. timebase_client e = Some x \<Longrightarrow> x \<in> set (clients e)" using inv by (auto simp: transport_inv_def master_inv_def)
  show "transport_inv (fst (jack_timebase_reset e i))"
    using inv m by_id_Some [of e i]
    by (auto simp: jack_timebase_reset_def transport_inv_def sync_inv_def master_inv_def cnt split: option.splits)
  show "transport_inv (fst (jack_timebase_set e i conditional))"
    using inv m by_id_Some [of e i]
    by (auto simp: jack_timebase_set_def Let_def transport_inv_def sync_inv_def master_inv_def cnt split: option.splits)
qed

lemma call_sync_inv: "transport_inv e \<Longrightarrow> c \<in> set (clients e) \<Longrightarrow> transport_inv (jack_call_sync_client e c ready)"
  by (auto simp: jack_call_sync_client_def Let_def transport_inv_def sync_inv_def master_inv_def)

lemma call_timebase_inv: "transport_inv e \<Longrightarrow> c \<in> set (clients e) \<Longrightarrow> transport_inv (jack_call_timebase_master cb e c)"
  by (auto simp: jack_call_timebase_master_def Let_def transport_inv_def sync_inv_def master_inv_def)

lemma cycle_end_inv:
  assumes "transport_inv e" "frame_rate (current_time (control e)) \<noteq> 0" "j < 11000" "unique_1 (reads j) = unique_2 (reads j)"
  shows "\<exists>e'. jack_transport_cycle_end reads e = Value e' \<and> transport_inv e'"
  using cycle_end_Value [of e j reads] assms master_flags by (fastforce simp: transport_inv_def)


section \<open>The transport as a transition system\<close>

inductive transport_step :: "jack_engine_t \<Rightarrow> jack_engine_t \<Rightarrow> bool" where
  activate: "c \<in> set (clients e) \<Longrightarrow> jack_transport_activate e c = Value e' \<Longrightarrow> transport_step e e'"
| exit: "c \<in> set (clients e) \<Longrightarrow> jack_transport_client_exit e c = Value e' \<Longrightarrow> transport_step e e'"
| set_sync: "transport_step e (fst (jack_transport_client_set_sync e i))"
| reset_sync: "jack_transport_client_reset_sync e i = Value (e', r) \<Longrightarrow> transport_step e e'"
| timebase_set: "transport_step e (fst (jack_timebase_set e i conditional))"
| timebase_reset: "transport_step e (fst (jack_timebase_reset e i))"
| sync_called: "c \<in> set (clients e) \<Longrightarrow> transport_step e (jack_call_sync_client e c ready)"
| timebase_called: "c \<in> set (clients e) \<Longrightarrow> transport_step e (jack_call_timebase_master cb e c)"
| start: "transport_step e (jack_transport_start e)"
| stop: "transport_step e (jack_transport_stop e)"
| reposition: "jack_transport_reposition e pos = Value (e', r) \<Longrightarrow> transport_step e e'"
| locate: "jack_transport_locate e pos f = Value e' \<Longrightarrow> transport_step e e'"
| sample_rate: "transport_step e (jack_set_sample_rate e n)"
| timeout: "transport_step e (fst (jack_transport_set_sync_timeout e us))"
| cycle_start: "transport_step e (jack_transport_cycle_start e us)"
| cycle_end: "frame_rate (current_time (control e)) \<noteq> 0 \<Longrightarrow> j < 11000 \<Longrightarrow> unique_1 (reads j) = unique_2 (reads j) \<Longrightarrow>
    jack_transport_cycle_end reads e = Value e' \<Longrightarrow> transport_step e e'"

lemma transport_inv_control:
  "transport_inv e \<Longrightarrow> sync_clients (f (control e)) = sync_clients (control e) \<Longrightarrow>
   sync_remain (f (control e)) = sync_remain (control e) \<Longrightarrow> transport_inv (upd_control f e)"
  by (simp add: transport_inv_def sync_inv_control master_inv_def)

lemma copy_const: "unique_1 p = unique_2 p \<Longrightarrow> jack_transport_copy_position (\<lambda>_. p) = Value p"
  using copy_position_returns [of 0 "\<lambda>_. p"] by simp

lemma request_new_pos_Value:
  "\<exists>p. jack_transport_request_new_pos e pos = Value (upd_control (\<lambda>ctl. ctl\<lparr>seq_number := seq_number ctl + 1, request_time := p\<rparr>) e) \<and>
     p = pos\<lparr>unique_1 := scast (seq_number (control e)), unique_2 := scast (seq_number (control e)),
             usecs := usecs (current_time (control e)), frame_rate := frame_rate (current_time (control e))\<rparr>"
  by (simp add: jack_transport_request_new_pos_def jack_generate_unique_id_def Let_def copy_const upd_control_def)

lemma transport_step_inv: "transport_step e e' \<Longrightarrow> transport_inv e \<Longrightarrow> transport_inv e'"
proof (induction rule: transport_step.induct)
  case (activate c e e')
  then show ?case using activate_Value [of e c] activated_idle [of e c e'] by auto
next
  case (exit c e e')
  then show ?case using exit_Value [of e c] by auto
next
  case (reset_sync e i e' r)
  then show ?case using reset_sync_Value [of e i] by auto
next
  case (reposition e pos e' r)
  then show ?case using request_new_pos_Value [of e pos]
    by (auto simp: jack_transport_reposition_def split: if_splits intro!: transport_inv_control)
next
  case (locate e pos f e')
  then show ?case using request_new_pos_Value [of e "pos\<lparr>frame := f, valid := 0\<rparr>"]
    by (auto simp: jack_transport_locate_def intro!: transport_inv_control)
next
  case (cycle_end e j reads e')
  then show ?case using cycle_end_inv [of e j reads] by auto
qed (auto simp: set_sync_inv timebase_inv call_sync_inv call_timebase_inv jack_transport_start_def jack_transport_stop_def
      jack_set_sample_rate_def jack_transport_set_sync_timeout_def jack_transport_cycle_start_def intro!: transport_inv_control)

lemma transport_run_inv: "transport_step\<^sup>*\<^sup>* e e' \<Longrightarrow> transport_inv e \<Longrightarrow> transport_inv e'"
  by (induction rule: rtranclp_induct) (auto intro: transport_step_inv)

text \<open>A server whose clients have no transport role yet.\<close>

lemma transport_init_inv:
  assumes "distinct (clients e)"
    "\<forall>c \<in> set (clients e). \<not> is_timebase (cmem e c) \<and> \<not> sync_poll (cmem e c) \<and> \<not> active_slowsync (cmem e c)"
  shows "transport_inv (jack_transport_init e)"
  using assms by (auto simp: transport_inv_def sync_inv_def master_inv_def jack_transport_init_def client_count_def filter_empty_conv)

lemma demo_transport_inv: "transport_inv (jack_transport_init demo_engine)"
  by (rule transport_init_inv) (auto simp: demo_defs)

text \<open>C3: whatever the clients and the driver do, in whatever order, the counters of the transport agree with
  the flags of its clients: \<open>sync_clients\<close> is the number of active slow-sync clients and
  \<open>sync_remain\<close> the number of clients that are polled, which are active slow-sync clients. So the
  run-time assertions on the counters hold: the end of a cycle, the exit of a client and the
  withdrawal of a sync callback return normally. The assertion in the activation of a client is the
  one that can fire, and it does so exactly when a slow-sync client that is active is activated once
  more; every other activation returns.\<close>

theorem transport_asserts_hold:
  assumes "transport_inv e0" "transport_step\<^sup>*\<^sup>* e0 e"
  shows "sync_clients (control e) = int (length (filter (\<lambda>c. active_slowsync (cmem e c)) (clients e))) \<and>
    sync_remain (control e) = int (length (filter (\<lambda>c. sync_poll (cmem e c)) (clients e))) \<and>
    (\<forall>c \<in> set (clients e). sync_poll (cmem e c) \<longrightarrow> active_slowsync (cmem e c) \<and> is_slowsync (cmem e c)) \<and>
    (\<forall>c \<in> set (clients e). \<exists>e'. jack_transport_client_exit e c = Value e') \<and>
    (\<forall>c \<in> set (clients e). if active_slowsync (cmem e c) then jack_transport_activate e c = AssertFailed
       else \<exists>e'. jack_transport_activate e c = Value e') \<and>
    (\<forall>i. \<exists>e' r. jack_transport_client_reset_sync e i = Value (e', r)) \<and>
    (\<forall>reads j. frame_rate (current_time (control e)) \<noteq> 0 \<and> j < 11000 \<and> unique_1 (reads j) = unique_2 (reads j) \<longrightarrow>
       (\<exists>e'. jack_transport_cycle_end reads e = Value e'))"
proof -
  have inv: "transport_inv e" using transport_run_inv [OF assms(2,1)] .
  have cnt: "sync_clients (control e) = int (length (filter (\<lambda>c. active_slowsync (cmem e c)) (clients e)))"
    "sync_remain (control e) = int (length (filter (\<lambda>c. sync_poll (cmem e c)) (clients e)))"
    using inv by (simp_all add: transport_inv_def sync_inv_def client_count_def)
  have fl: "sync_poll (cmem e c) \<longrightarrow> active_slowsync (cmem e c) \<and> is_slowsync (cmem e c)"
    "active_slowsync (cmem e c) \<longrightarrow> is_slowsync (cmem e c)" if "c \<in> set (clients e)" for c
    using inv that by (auto simp: transport_inv_def sync_inv_def)
  have act: "if active_slowsync (cmem e c) then jack_transport_activate e c = AssertFailed
      else \<exists>e'. jack_transport_activate e c = Value e'" if "c \<in> set (clients e)" for c
    using fl(2) [OF that] activate_fails(1) [of e c] activate_Value [OF inv that] by auto
  show ?thesis using cnt fl(1) act exit_Value [OF inv] reset_sync_Value [OF inv] cycle_end_inv [OF inv] by meson
qed

theorem transport_asserts_hold_witness:
  "\<exists>e'. jack_transport_client_exit (fst (jack_transport_client_set_sync (jack_transport_init demo_engine) 2)) 1 = Value e'"
proof -
  let ?e = "fst (jack_transport_client_set_sync (jack_transport_init demo_engine) 2)"
  have "transport_step\<^sup>*\<^sup>* (jack_transport_init demo_engine) ?e" by (blast intro: transport_step.set_sync)
  moreover have "1 \<in> set (clients ?e)"
    by (simp add: jack_transport_client_set_sync_def jack_transport_init_def jack_client_internal_by_id_def demo_defs Let_def)
  ultimately show ?thesis using transport_asserts_hold [OF demo_transport_inv] by blast
qed

text \<open>C38: after any run there is at most one timebase master, it is a registered client, and it is the
  one the server has on record; a conditional request never displaces another master.\<close>

theorem one_timebase_master:
  assumes "transport_inv e0" "transport_step\<^sup>*\<^sup>* e0 e" "a \<in> set (clients e)" "b \<in> set (clients e)"
    "is_timebase (cmem e a)"
  shows "timebase_client e = Some a \<and> (is_timebase (cmem e b) \<longrightarrow> b = a) \<and>
    (\<forall>i. timebase_client (fst (jack_timebase_set e i True)) = Some a)"
proof -
  have "transport_inv e" using transport_run_inv [OF assms(2,1)] .
  then show ?thesis
    using assms(3-5) by (auto simp: transport_inv_def master_inv_def jack_timebase_set_def split: option.splits)
qed

theorem one_timebase_master_witness:
  "timebase_client (fst (jack_timebase_set (jack_transport_init demo_engine) 2 False)) = Some 1"
proof -
  let ?e = "fst (jack_timebase_set (jack_transport_init demo_engine) 2 False)"
  have "transport_step\<^sup>*\<^sup>* (jack_transport_init demo_engine) ?e" by (blast intro: transport_step.timebase_set)
  moreover have "1 \<in> set (clients ?e)" "is_timebase (cmem ?e 1)"
    by (simp_all add: jack_timebase_set_def jack_transport_init_def jack_client_internal_by_id_def demo_defs Let_def)
  ultimately show ?thesis using one_timebase_master [OF demo_transport_inv, of ?e 1 1] by blast
qed


section \<open>The state machine and the position\<close>

text \<open>A control block the end-of-cycle theorems can be tried on: 48000 frames per second, 64 frames per cycle.\<close>

definition demo_transport :: jack_engine_t where
  "demo_transport = jack_set_sample_rate (jack_transport_init demo_engine) 48000"

lemma demo_transport_facts:
  "sync_inv demo_transport" "frame_rate (current_time (control demo_transport)) = 48000"
  "buffer_size (control demo_transport) = 64" "transport_state (control demo_transport) = JackTransportStopped"
  "pending_frame (control demo_transport) = 0" "\<not> pending_pos (control demo_transport)"
  "sync_clients (control demo_transport) = 0" "transport_cmd (control demo_transport) = TransportCommandStop"
  "previous_cmd (control demo_transport) = TransportCommandStop"
  "request_time (control demo_transport) = jack_position_zero" "prev_request (control demo_transport) = 0"
  "seq_number (control demo_transport) = 1" "sync_remain (control demo_transport) = 0"
proof -
  show "sync_inv demo_transport"
    using demo_transport_inv unfolding demo_transport_def jack_set_sample_rate_def transport_inv_def
    by (intro sync_inv_control) simp_all
qed (simp_all add: demo_transport_def jack_set_sample_rate_def jack_transport_init_def demo_engine_def demo_control_def)

text \<open>The state machine of the documentation, and the events that a cycle end finds.\<close>

datatype fsm_event = Start | Stop | Locate | Ready

fun fsm :: "fsm_event \<Rightarrow> jack_transport_state_t \<Rightarrow> jack_transport_state_t" where
  "fsm Start JackTransportStopped = JackTransportStarting"
| "fsm Stop JackTransportStarting = JackTransportStopped"
| "fsm Stop JackTransportRolling = JackTransportStopped"
| "fsm Locate JackTransportRolling = JackTransportStarting"
| "fsm Ready JackTransportStarting = JackTransportRolling"
| "fsm _ s = s"

definition cycle_events :: "jack_control_t \<Rightarrow> fsm_event list" where
  "cycle_events ctl =
     (if sync_remain ctl = 0 \<or> sync_time_left ctl \<le> buf_usecs ctl then [Ready] else []) @
     (if transport_cmd ctl = previous_cmd ctl then []
      else case transport_cmd ctl of TransportCommandStart \<Rightarrow> [Start] | TransportCommandStop \<Rightarrow> [Stop] | TransportCommandNone \<Rightarrow> []) @
     (if pending_pos ctl then [Locate] else []) @
     (if sync_clients ctl = 0 then [Ready] else [])"

lemma transport_next_fsm:
  assumes "sync_clients ctl = 0 \<Longrightarrow> sync_remain ctl = 0" "s \<noteq> JackTransportLooping"
  shows "transport_next s (sync_done ctl) (new_command ctl) (pending_pos ctl) (sync_clients ctl \<noteq> 0) = fold fsm (cycle_events ctl) s"
  using assms by (cases s; cases "transport_cmd ctl")
    (auto simp: cycle_events_def sync_done_def new_command_def split: transport_command_t.splits)

text \<open>C19: the transport follows the documented state machine (\<open>doc/transport.dox\<close>): a start command leads
  from Stopped to Starting, a stop command to Stopped, a new position from Rolling to Starting, and
  when all slow-sync clients are ready or the time-out is over Starting becomes Rolling. The end of a
  process cycle takes, in this order, the transitions of the events that have come up: the clients
  ready or the time over, the new command, the new position. With no slow-sync client there is
  nobody to wait for and the last step of the same cycle leads from Starting on to Rolling, so that
  the state Starting is never seen. The assertions hold on every path.\<close>

theorem cycle_end_state_machine:
  assumes "sync_inv e" "frame_rate (current_time (control e)) \<noteq> 0" "j < 11000" "unique_1 (reads j) = unique_2 (reads j)"
    "transport_state (control e) \<noteq> JackTransportLooping"
  shows "\<exists>e'. jack_transport_cycle_end reads e = Value e' \<and> sync_inv e' \<and>
    transport_state (control e') = fold fsm (cycle_events (control e)) (transport_state (control e)) \<and>
    previous_cmd (control e') = transport_cmd (control e) \<and>
    (sync_clients (control e) = 0 \<longrightarrow> transport_state (control e') \<noteq> JackTransportStarting)"
proof -
  obtain e' where e': "jack_transport_cycle_end reads e = Value e'" "sync_inv e'"
    "transport_state (control e') = transport_next (transport_state (control e)) (sync_done (control e))
      (new_command (control e)) (pending_pos (control e)) (sync_clients (control e) \<noteq> 0)"
    "previous_cmd (control e') = transport_cmd (control e)"
    using cycle_end_Value [of e j reads] assms by blast
  have "sync_remain (control e) = 0" if z: "sync_clients (control e) = 0"
  proof -
    have "filter (\<lambda>c. active_slowsync (cmem e c)) (clients e) = []" using assms(1) z by (simp add: sync_inv_def client_count_def)
    then have "filter (\<lambda>c. sync_poll (cmem e c)) (clients e) = []" using assms(1) by (auto simp: filter_empty_conv sync_inv_def)
    then show ?thesis using assms(1) by (simp add: sync_inv_def client_count_def)
  qed
  from transport_next_fsm [OF this assms(5)] have f: "transport_state (control e') = fold fsm (cycle_events (control e)) (transport_state (control e))"
    using e'(3) by simp
  moreover have "fold fsm (cycle_events (control e)) s \<noteq> JackTransportStarting" if "sync_clients (control e) = 0" for s
  proof -
    have "fsm Ready t \<noteq> JackTransportStarting" for t by (cases t) simp_all
    then show ?thesis using that by (simp add: cycle_events_def)
  qed
  ultimately show ?thesis using e' by auto
qed

theorem cycle_end_state_machine_witness:
  "\<exists>e'. jack_transport_cycle_end (\<lambda>_. jack_position_zero) (jack_transport_start demo_transport) = Value e' \<and>
     transport_state (control e') = fold fsm [Ready, Start, Ready] JackTransportStopped"
proof -
  have "sync_inv (jack_transport_start demo_transport)"
    unfolding jack_transport_start_def using demo_transport_facts(1) by (intro sync_inv_control) simp_all
  moreover have "cycle_events (control (jack_transport_start demo_transport)) = [Ready, Start, Ready]"
    "transport_state (control (jack_transport_start demo_transport)) = JackTransportStopped"
    "frame_rate (current_time (control (jack_transport_start demo_transport))) \<noteq> 0"
    by (simp_all add: cycle_events_def jack_transport_start_def demo_transport_facts)
  ultimately show ?thesis
    using cycle_end_state_machine [of "jack_transport_start demo_transport" 0 "\<lambda>_. jack_position_zero"]
    by (auto simp: jack_position_zero_def simp del: fold_simps)
qed

text \<open>C36: one cycle to the next. Without a position request the frame number grows by one period
  (modulo \<open>2 ^ 32\<close>) when the transport was rolling, and stays when it was not, whatever the timebase
  master wrote into the pending position.\<close>

theorem frames_advance:
  assumes "sync_inv e" "frame_rate (current_time (control e)) \<noteq> 0" "j < 11000" "unique_1 (reads j) = unique_2 (reads j)"
    "unique_1 (request_time (control e)) = prev_request (control e)"
  shows "\<exists>e1 e2. jack_transport_cycle_end reads e = Value e1 \<and>
    jack_transport_cycle_end reads (upd_control (\<lambda>ctl. ctl\<lparr>pending_time := anything\<rparr>) e1) = Value e2 \<and>
    frame (current_time (control e2)) = frame (current_time (control e1)) +
      (if transport_state (control e1) = JackTransportRolling then buffer_size (control e) else 0)"
proof -
  obtain e1 where e1: "jack_transport_cycle_end reads e = Value e1" "sync_inv e1"
    "frame (current_time (control e1)) = pending_frame (control e)"
    "frame_rate (current_time (control e1)) = frame_rate (current_time (control e))"
    "pending_frame (control e1) = cycle_frame (control e) (transport_state (control e1))"
    using cycle_end_Value [of e j reads] assms by metis
  let ?e1 = "upd_control (\<lambda>ctl. ctl\<lparr>pending_time := anything\<rparr>) e1"
  have "sync_inv ?e1" using e1(2) by (intro sync_inv_control) simp_all
  then obtain e2 where "jack_transport_cycle_end reads ?e1 = Value e2" "frame (current_time (control e2)) = pending_frame (control ?e1)"
    using cycle_end_Value [of ?e1 j reads] assms e1(4) by fastforce
  then show ?thesis using e1 by (auto simp: cycle_frame_def)
qed

theorem frames_advance_witness:
  "\<exists>e1 e2. jack_transport_cycle_end (\<lambda>_. jack_position_zero) demo_transport = Value e1 \<and>
     jack_transport_cycle_end (\<lambda>_. jack_position_zero) (upd_control (\<lambda>ctl. ctl\<lparr>pending_time := jack_position_zero\<rparr>) e1) = Value e2 \<and>
     frame (current_time (control e2)) = frame (current_time (control e1)) +
       (if transport_state (control e1) = JackTransportRolling then 64 else 0)"
proof -
  have p: "unique_1 jack_position_zero = 0" "unique_2 jack_position_zero = 0" by (simp_all add: jack_position_zero_def)
  show ?thesis
    using frames_advance [of demo_transport 0 "\<lambda>_. jack_position_zero" jack_position_zero, unfolded demo_transport_facts(3)]
    by (simp add: demo_transport_facts p split del: if_split)
qed

text \<open>C37: a position request is honoured: after \<open>jack_transport_locate\<close> the first cycle end marks the
  request as pending and the second makes it the current position, with the requested frame number
  and \<open>new_pos\<close> set, provided the request's identifier differs from the previous one.\<close>

theorem locate_takes_effect:
  assumes "sync_inv e" "frame_rate (current_time (control e)) \<noteq> 0" "scast (seq_number (control e)) \<noteq> prev_request (control e)"
  shows "\<exists>e1 e2 e3. jack_transport_locate e pos f = Value e1 \<and>
    jack_transport_cycle_end (\<lambda>_. request_time (control e1)) e1 = Value e2 \<and> pending_pos (control e2) \<and>
    jack_transport_cycle_end (\<lambda>_. request_time (control e1)) e2 = Value e3 \<and>
    frame (current_time (control e3)) = f \<and> new_pos (control e3) \<and> \<not> pending_pos (control e3)"
proof -
  obtain p where l: "jack_transport_locate e pos f =
      Value (upd_control (\<lambda>ctl. ctl\<lparr>seq_number := seq_number ctl + 1, request_time := p\<rparr>) e)"
    and p: "unique_1 p = scast (seq_number (control e))" "unique_2 p = scast (seq_number (control e))" "frame p = f"
    using request_new_pos_Value [of e "pos\<lparr>frame := f, valid := 0\<rparr>"] by (auto simp: jack_transport_locate_def)
  let ?e1 = "upd_control (\<lambda>ctl. ctl\<lparr>seq_number := seq_number ctl + 1, request_time := p\<rparr>) e"
  have i1: "sync_inv ?e1" using assms(1) by (intro sync_inv_control) simp_all
  obtain e2 where e2: "jack_transport_cycle_end (\<lambda>_. p) ?e1 = Value e2" "sync_inv e2" "pending_pos (control e2)"
    "prev_request (control e2) = unique_1 p" "pending_frame (control e2) = f"
    "frame_rate (current_time (control e2)) = frame_rate (current_time (control e))" "request_time (control e2) = p"
    using cycle_end_Value [of ?e1 0 "\<lambda>_. p"] i1 assms(2,3) p by auto
  obtain e3 where "jack_transport_cycle_end (\<lambda>_. p) e2 = Value e3" "frame (current_time (control e3)) = f"
    "new_pos (control e3)" "\<not> pending_pos (control e3)"
    using cycle_end_Value [of e2 0 "\<lambda>_. p"] e2 assms(2) p by auto
  then show ?thesis using l e2 by auto
qed

theorem locate_takes_effect_witness:
  "\<exists>e1 e2 e3. jack_transport_locate demo_transport jack_position_zero 12345 = Value e1 \<and>
    jack_transport_cycle_end (\<lambda>_. request_time (control e1)) e1 = Value e2 \<and>
    jack_transport_cycle_end (\<lambda>_. request_time (control e1)) e2 = Value e3 \<and> frame (current_time (control e3)) = 12345"
  using locate_takes_effect [OF demo_transport_facts(1), of jack_position_zero 12345] demo_transport_facts by auto


section \<open>The wait for slow clients ends\<close>

fun cycles :: "nat \<Rightarrow> jack_engine_t \<Rightarrow> jack_engine_t c_result" where
  "cycles 0 e = Value e"
| "cycles (Suc n) e = c_bind (jack_transport_cycle_end (\<lambda>_. request_time (control e)) e) (cycles n)"

text \<open>Nothing new happens: no fresh command and no fresh position request.\<close>

definition quiet :: "jack_control_t \<Rightarrow> bool" where
  "quiet ctl \<longleftrightarrow> transport_cmd ctl = previous_cmd ctl \<and> \<not> pending_pos ctl \<and>
     unique_1 (request_time ctl) = prev_request ctl \<and> unique_1 (request_time ctl) = unique_2 (request_time ctl) \<and>
     frame_rate (current_time ctl) \<noteq> 0"

lemma quiet_cycle:
  assumes "sync_inv e" "quiet (control e)" "transport_state (control e) = JackTransportStarting"
  shows "\<exists>e'. jack_transport_cycle_end (\<lambda>_. request_time (control e)) e = Value e' \<and> sync_inv e' \<and> quiet (control e') \<and>
    transport_state (control e') = (if sync_done (control e) then JackTransportRolling else JackTransportStarting) \<and>
    buf_usecs (control e') = buf_usecs (control e) \<and>
    (\<not> sync_done (control e) \<longrightarrow> sync_time_left (control e') = sync_time_left (control e) - buf_usecs (control e))"
proof -
  have q: "new_command (control e) = TransportCommandNone" "\<not> pending_pos (control e)"
    "unique_1 (request_time (control e)) = prev_request (control e)"
    "unique_1 (request_time (control e)) = unique_2 (request_time (control e))"
    "frame_rate (current_time (control e)) \<noteq> 0"
    using assms(2) by (auto simp: quiet_def new_command_def)
  then show ?thesis
    using cycle_end_Value [of e 0 "\<lambda>_. request_time (control e)"] assms(1,3)
    by (auto simp: quiet_def buf_usecs_def)
qed

lemma waits_at_most:
  assumes "sync_inv e" "quiet (control e)" "transport_state (control e) = JackTransportStarting" "0 < buf_usecs (control e)"
  shows "\<exists>n e'. n \<le> Suc (unat (sync_time_left (control e)) div unat (buf_usecs (control e))) \<and>
    cycles n e = Value e' \<and> transport_state (control e') = JackTransportRolling"
  using assms
proof (induction "unat (sync_time_left (control e))" arbitrary: e rule: less_induct)
  case less
  obtain e1 where e1: "jack_transport_cycle_end (\<lambda>_. request_time (control e)) e = Value e1" "sync_inv e1" "quiet (control e1)"
    "transport_state (control e1) = (if sync_done (control e) then JackTransportRolling else JackTransportStarting)"
    "buf_usecs (control e1) = buf_usecs (control e)"
    "\<not> sync_done (control e) \<Longrightarrow> sync_time_left (control e1) = sync_time_left (control e) - buf_usecs (control e)"
    using quiet_cycle [OF less.prems(1-3)] by blast
  show ?case
  proof (cases "sync_done (control e)")
    case True
    then have "cycles (Suc 0) e = Value e1" "transport_state (control e1) = JackTransportRolling" using e1 by simp_all
    then show ?thesis by (intro exI [of _ "Suc 0"] exI [of _ e1]) simp
  next
    case False
    let ?t = "unat (sync_time_left (control e))" and ?b = "unat (buf_usecs (control e))"
    have lt: "?b < ?t" using False by (simp add: sync_done_def not_le word_less_nat_alt)
    have b0: "0 < ?b" using less.prems(4) by (simp add: word_less_nat_alt)
    have t1: "unat (sync_time_left (control e1)) = ?t - ?b"
      using e1(6) [OF False] lt by (simp add: unat_sub_le word_le_nat_alt)
    then have "unat (sync_time_left (control e1)) < ?t" using lt b0 by simp
    from less.hyps [OF this e1(2,3)] obtain n e' where n: "n \<le> Suc ((?t - ?b) div ?b)" "cycles n e1 = Value e'"
      "transport_state (control e') = JackTransportRolling"
      using e1(4,5) False less.prems(4) t1 by auto
    have "(?t - ?b) div ?b = ?t div ?b - 1" using b0 lt by (simp add: le_div_geq)
    moreover have "1 \<le> ?t div ?b" using b0 lt by (simp add: Suc_le_eq div_greater_zero_iff)
    ultimately have "Suc n \<le> Suc (?t div ?b)" using n(1) by linarith
    then show ?thesis using n e1(1) by (intro exI [of _ "Suc n"] exI [of _ e']) simp
  qed
qed

text \<open>C31: slow clients delay a start only so long: from any state in which the transport waits and
  nothing new happens, even if no client ever answers, the transport is rolling after at most as many
  cycles as fit into the time left, plus one.\<close>

theorem start_within_timeout:
  assumes "sync_inv e" "quiet (control e)" "transport_state (control e) = JackTransportStarting" "0 < buf_usecs (control e)"
  shows "\<exists>n e'. n \<le> Suc (unat (sync_time_left (control e)) div unat (buf_usecs (control e))) \<and>
    cycles n e = Value e' \<and> transport_state (control e') = JackTransportRolling"
  by (rule waits_at_most [OF assms])

definition demo_waiting :: jack_engine_t where
  "demo_waiting = upd_control (\<lambda>ctl. ctl\<lparr>transport_state := JackTransportStarting, sync_time_left := 2000\<rparr>) demo_transport"

theorem start_within_timeout_witness:
  "\<exists>n e'. n \<le> 2 \<and> cycles n demo_waiting = Value e' \<and> transport_state (control e') = JackTransportRolling"
proof -
  have "buf_usecs (control demo_waiting) = 1333" "sync_time_left (control demo_waiting) = 2000"
    by (simp_all add: demo_waiting_def buf_usecs_def demo_transport_facts)
  moreover have "quiet (control demo_waiting)"
    by (simp add: demo_waiting_def quiet_def demo_transport_facts jack_position_zero_def)
  moreover have "sync_inv demo_waiting"
    unfolding demo_waiting_def using demo_transport_facts(1) by (intro sync_inv_control) simp_all
  moreover have "transport_state (control demo_waiting) = JackTransportStarting" by (simp add: demo_waiting_def)
  moreover have "Suc (unat (2000 :: u64) div unat (1333 :: u64)) = 2" by simp
  ultimately show ?thesis using start_within_timeout [of demo_waiting] by (simp only:) simp
qed

section \<open>Identifiers of position requests\<close>

fun nth_unique_id :: "nat \<Rightarrow> jack_control_t \<Rightarrow> u64" where
  "nth_unique_id 0 ctl = snd (jack_generate_unique_id ctl)"
| "nth_unique_id (Suc n) ctl = nth_unique_id n (fst (jack_generate_unique_id ctl))"

lemma nth_unique_id_value: "nth_unique_id n ctl = scast (seq_number ctl + of_nat n)"
  by (induction n arbitrary: ctl) (simp_all add: jack_generate_unique_id_def algebra_simps)

lemma unique_id_up: "is_up (scast :: u32 \<Rightarrow> u64)"
  by (simp add: is_up)

lemma scast_up_inj: "(scast (a :: u32) :: u64) = scast b \<Longrightarrow> a = b"
  by (metis is_up scast_up_scast_id unique_id_up)

text \<open>The identifiers of \<open>2 ^ 32\<close> consecutive position requests are different from each other; the
  next one repeats the first, and one of them is 0, against the comment that each is unique and not
  zero.\<close>

theorem unique_ids_wrap:
  "(\<forall>m n. m < n \<and> n < 2 ^ 32 \<longrightarrow> nth_unique_id m ctl \<noteq> nth_unique_id n ctl) \<and>
   nth_unique_id (2 ^ 32) ctl = nth_unique_id 0 ctl \<and> (\<exists>n < 2 ^ 32. nth_unique_id n ctl = 0)"
proof (intro conjI allI impI)
  fix m n :: nat assume mn: "m < n \<and> n < 2 ^ 32"
  show "nth_unique_id m ctl \<noteq> nth_unique_id n ctl"
  proof
    assume "nth_unique_id m ctl = nth_unique_id n ctl"
    then have "seq_number ctl + of_nat m = seq_number ctl + of_nat n"
      unfolding nth_unique_id_value by (rule scast_up_inj)
    then have "(of_nat m :: u32) = of_nat n" by simp
    then have "unat (of_nat m :: u32) = unat (of_nat n :: u32)" by simp
    then show False using mn by (simp add: unat_of_nat)
  qed
next
  have wrap: "(of_nat (2 ^ 32) :: u32) = 0" by simp
  show "nth_unique_id (2 ^ 32) ctl = nth_unique_id 0 ctl" unfolding nth_unique_id_value wrap by simp
next
  let ?n = "unat (- seq_number ctl)"
  have "?n < 2 ^ 32" using unsigned_less [of "- seq_number ctl"] by simp
  moreover have "nth_unique_id ?n ctl = 0" by (simp add: nth_unique_id_value)
  ultimately show "\<exists>n < 2 ^ 32. nth_unique_id n ctl = 0" by blast
qed

theorem unique_ids_wrap_witness:
  "nth_unique_id 0 demo_control \<noteq> nth_unique_id 7 demo_control \<and> (\<exists>n < 2 ^ 32. nth_unique_id n demo_control = 0)"
proof -
  have "(0 :: nat) < 7 \<and> (7 :: nat) < 2 ^ 32" by simp
  then show ?thesis using unique_ids_wrap [of demo_control] by blast
qed

end
