(* ===== verification/MidiPort.thy ===== *)
theory MidiPort
  imports Engine_Graph
begin

text \<open>
  MIDI port buffers of \<open>libjack/midiport.c\<close>, byte by byte: after the 20 bytes of the port info come
  8 bytes per event (time, size, and either up to four data bytes or the offset of the data), and the
  data of longer events grows down from the end of the buffer. The info fields are kept as a record;
  any other access outside the bytes from 20 to the end of the buffer is \<open>Undefined\<close>.
\<close>

section \<open>The buffer\<close>

definition MIDI_INLINE_MAX :: nat where "MIDI_INLINE_MAX = 4"
definition sizeof_info :: nat where "sizeof_info = 20"
definition sizeof_event :: nat where "sizeof_event = 8"

record midi_buffer =
  mb_nframes :: u32
  mb_size :: u32
  event_count :: u32
  last_write_loc :: u32
  events_lost :: u32
  mb_mem :: "byte list"

definition ENODATA :: int where "ENODATA = 61"
definition ENOBUFS :: int where "ENOBUFS = 105"

definition ev_addr :: "nat \<Rightarrow> nat" where
  "ev_addr i = sizeof_info + sizeof_event * i"

definition ev_time :: "midi_buffer \<Rightarrow> nat \<Rightarrow> u16" where
  "ev_time b i = of_nat (le_nat (bytes_at (mb_mem b) (ev_addr i) 2))"

definition ev_size :: "midi_buffer \<Rightarrow> nat \<Rightarrow> u16" where
  "ev_size b i = of_nat (le_nat (bytes_at (mb_mem b) (ev_addr i + 2) 2))"

definition ev_offset :: "midi_buffer \<Rightarrow> nat \<Rightarrow> u32" where
  "ev_offset b i = of_nat (le_nat (bytes_at (mb_mem b) (ev_addr i + 4) 4))"

text \<open>A store outside the area after the info fields is undefined.\<close>

definition store :: "midi_buffer \<Rightarrow> int \<Rightarrow> byte list \<Rightarrow> midi_buffer c_result" where
  "store b off bs =
     (if int sizeof_info \<le> off \<and> off + int (length bs) \<le> int (unat (mb_size b))
      then Value (b\<lparr>mb_mem := memcpy_at (mb_mem b) (nat off) bs\<rparr>) else Undefined)"

section \<open>Operations\<close>

definition jack_midi_buffer_init :: "byte list \<Rightarrow> u64 \<Rightarrow> u32 \<Rightarrow> midi_buffer" where
  "jack_midi_buffer_init mem bsize nframes =
     \<lparr>mb_nframes = nframes, mb_size = ucast bsize, event_count = 0, last_write_loc = 0, events_lost = 0, mb_mem = mem\<rparr>"

definition jack_midi_get_event_count :: "midi_buffer \<Rightarrow> u32" where
  "jack_midi_get_event_count b = event_count b"

text \<open>Where the data of an event is: the offset of its first byte. \<open>byte_offset\<close> is a signed number.\<close>

definition jack_midi_event_data :: "midi_buffer \<Rightarrow> nat \<Rightarrow> int" where
  "jack_midi_event_data b i =
     (if unat (ev_size b i) \<le> MIDI_INLINE_MAX then int (ev_addr i + 4) else sint (ev_offset b i))"

text \<open>On success: time, size and the address of the data.\<close>

definition jack_midi_event_get :: "midi_buffer \<Rightarrow> u32 \<Rightarrow> int + (u32 \<times> u64 \<times> int)" where
  "jack_midi_event_get b event_idx =
     (if event_count b \<le> event_idx then Inl ENODATA
      else Inr (ucast (ev_time b (unat event_idx)), ucast (ev_size b (unat event_idx)), jack_midi_event_data b (unat event_idx)))"

definition used_size :: "midi_buffer \<Rightarrow> u64" where
  "used_size b = of_nat sizeof_info + ucast (last_write_loc b) + ucast (event_count b + 1) * of_nat sizeof_event"

definition jack_midi_max_event_size :: "midi_buffer \<Rightarrow> u64" where
  "jack_midi_max_event_size b =
     (let buffer_size = ucast (mb_size b) in
      if buffer_size < used_size b then 0
      else if buffer_size - used_size b < of_nat MIDI_INLINE_MAX then of_nat MIDI_INLINE_MAX
      else buffer_size - used_size b)"

definition lose_event :: "midi_buffer \<Rightarrow> midi_buffer" where
  "lose_event b = b\<lparr>events_lost := events_lost b + 1\<rparr>"

text \<open>
  The address to write the data to, or \<open>None\<close> for \<open>NULL\<close>. Time and size are cut to 16 bits.
\<close>

definition jack_midi_event_reserve :: "midi_buffer \<Rightarrow> u32 \<Rightarrow> u64 \<Rightarrow> (midi_buffer \<times> int option) c_result" where
  "jack_midi_event_reserve b time data_size =
     (if mb_nframes b \<le> time then Value (lose_event b, None)
      else if 0 < event_count b \<and> time < ucast (ev_time b (unat (event_count b - 1))) then Value (lose_event b, None)
      else if data_size = 0 then Value (lose_event b, None)
      else if jack_midi_max_event_size b < data_size then Value (lose_event b, None)
      else
        (let i = unat (event_count b) in
         c_bind (store b (int (ev_addr i)) (nat_le 2 (unat (ucast time :: u16)) @ nat_le 2 (unat (ucast data_size :: u16)))) (\<lambda>b1.
           if unat data_size \<le> MIDI_INLINE_MAX
           then Value (b1\<lparr>event_count := event_count b1 + 1\<rparr>, Some (int (ev_addr i + 4)))
           else
             (let b2 = b1\<lparr>last_write_loc := last_write_loc b1 + ucast data_size\<rparr>;
                  off = ucast (mb_size b2) - 1 - ucast (last_write_loc b2) :: u64
              in c_map (\<lambda>b3. (b3\<lparr>event_count := event_count b3 + 1\<rparr>, Some (int (unat off))))
                   (store b2 (int (ev_addr i + 4)) (nat_le 4 (unat (ucast off :: u32))))))))"

definition jack_midi_event_write :: "midi_buffer \<Rightarrow> u32 \<Rightarrow> byte list \<Rightarrow> (midi_buffer \<times> int) c_result" where
  "jack_midi_event_write b time data =
     c_bind (jack_midi_event_reserve b time (of_nat (length data))) (\<lambda>(b1, retbuf).
       case retbuf of
         Some off \<Rightarrow> c_map (\<lambda>b2. (b2, 0)) (store b1 off data)
       | None \<Rightarrow> Value (b1, ENOBUFS))"

definition jack_midi_clear_buffer :: "midi_buffer \<Rightarrow> midi_buffer" where
  "jack_midi_clear_buffer b = b\<lparr>event_count := 0, last_write_loc := 0, events_lost := 0\<rparr>"

definition jack_midi_get_lost_event_count :: "midi_buffer \<Rightarrow> u32" where
  "jack_midi_get_lost_event_count b = events_lost b"

text \<open>A read of event data outside the buffer is undefined.\<close>

definition load :: "midi_buffer \<Rightarrow> int \<Rightarrow> nat \<Rightarrow> byte list c_result" where
  "load b off n =
     (if 0 \<le> off \<and> off + int n \<le> int (unat (mb_size b)) then Value (bytes_at (mb_mem b) (nat off) n) else Undefined)"

section \<open>Mixing several ports into one buffer\<close>

text \<open>
  The source buffers in the order of the connections. \<open>last_write_loc\<close> of a source is the number of
  its events read so far.
\<close>

fun find_earliest :: "midi_buffer list \<Rightarrow> nat \<Rightarrow> (nat \<times> u16) option \<Rightarrow> (nat \<times> u16) option" where
  "find_earliest [] k best = best"
| "find_earliest (s # ss) k best =
     (if last_write_loc s < event_count s then
        (let t = ev_time s (unat (last_write_loc s)) in
         case best of
           None \<Rightarrow> find_earliest ss (Suc k) (Some (k, t))
         | Some (k0, t0) \<Rightarrow> find_earliest ss (Suc k) (if t < t0 then Some (k, t) else Some (k0, t0)))
      else find_earliest ss (Suc k) best)"

text \<open>The loop over \<open>i < num_events\<close>; \<open>todo\<close> is \<open>num_events - i\<close>.\<close>

fun mix_loop :: "nat \<Rightarrow> midi_buffer list \<Rightarrow> midi_buffer \<Rightarrow> (midi_buffer list \<times> midi_buffer) c_result" where
  "mix_loop 0 srcs out = Value (srcs, out)"
| "mix_loop (Suc todo) srcs out =
     (case find_earliest srcs 0 None of
        None \<Rightarrow> mix_loop todo srcs out
      | Some (k, t) \<Rightarrow>
          (let s = srcs ! k; i = unat (last_write_loc s) in
           c_bind (load s (jack_midi_event_data s i) (unat (ev_size s i))) (\<lambda>data.
           c_bind (jack_midi_event_write out (ucast (ev_time s i)) data) (\<lambda>(out1, err).
             let srcs1 = srcs[k := s\<lparr>last_write_loc := last_write_loc s + 1\<rparr>]
             in if err \<noteq> 0 then Value (srcs1, out1\<lparr>events_lost := of_nat (Suc todo)\<rparr>)
                else mix_loop todo srcs1 out1))))"

definition jack_midi_port_mixdown :: "midi_buffer list \<Rightarrow> midi_buffer \<Rightarrow> (midi_buffer list \<times> midi_buffer) c_result" where
  "jack_midi_port_mixdown srcs mix_buffer =
     (let out = jack_midi_clear_buffer mix_buffer;
          num_events = sum_list (map event_count srcs);
          lost_events = sum_list (map events_lost srcs);
          srcs0 = map (\<lambda>s. s\<lparr>last_write_loc := 0\<rparr>) srcs
      in c_bind (mix_loop (unat num_events) srcs0 out) (\<lambda>(srcs1, out1).
           if event_count out1 = num_events - events_lost out1
           then Value (srcs1, out1\<lparr>events_lost := events_lost out1 + lost_events\<rparr>)
           else AssertFailed))"

end
