(* ===== verification/MidiPort_Inv.thy ===== *)
theory MidiPort_Inv
  imports MidiPort
begin

text \<open>
  A well-formed MIDI buffer holds a sequence of timed messages. Writing a message that leaves the
  one spare byte free appends it; everything written before stays readable.
\<close>

section \<open>The messages in a buffer\<close>

definition ev_bytes :: "midi_buffer \<Rightarrow> nat \<Rightarrow> byte list" where
  "ev_bytes b i = bytes_at (mb_mem b) (nat (jack_midi_event_data b i)) (unat (ev_size b i))"

definition midi_events :: "midi_buffer \<Rightarrow> (u16 \<times> byte list) list" where
  "midi_events b = map (\<lambda>i. (ev_time b i, ev_bytes b i)) [0..<unat (event_count b)]"

text \<open>The first byte behind the free area: the data of long events starts there.\<close>

definition data_start :: "midi_buffer \<Rightarrow> nat" where
  "data_start b = unat (mb_size b) - (if last_write_loc b = 0 then 0 else Suc (unat (last_write_loc b)))"

definition event_ok :: "midi_buffer \<Rightarrow> nat \<Rightarrow> nat \<Rightarrow> bool" where
  "event_ok b lo i \<longleftrightarrow> 0 < unat (ev_size b i) \<and> ev_addr (Suc i) \<le> unat (mb_size b) \<and>
     (MIDI_INLINE_MAX < unat (ev_size b i) \<longrightarrow>
        int lo \<le> sint (ev_offset b i) \<and> sint (ev_offset b i) + int (unat (ev_size b i)) \<le> int (unat (mb_size b)))"

definition midi_shape :: "midi_buffer \<Rightarrow> bool" where
  "midi_shape b \<longleftrightarrow> length (mb_mem b) = unat (mb_size b) \<and> unat (mb_size b) < 2 ^ 31 \<and> unat (mb_nframes b) \<le> 2 ^ 16 \<and>
     ev_addr (unat (event_count b)) \<le> unat (mb_size b) \<and>
     (\<forall>i < unat (event_count b). unat (ev_time b i) < unat (mb_nframes b)) \<and> sorted (map fst (midi_events b))"

text \<open>A buffer that can be read, and a buffer that can also be written to.\<close>

definition midi_readable :: "midi_buffer \<Rightarrow> bool" where
  "midi_readable b \<longleftrightarrow> midi_shape b \<and> (\<forall>i < unat (event_count b). event_ok b sizeof_info i)"

definition midi_inv :: "midi_buffer \<Rightarrow> bool" where
  "midi_inv b \<longleftrightarrow> midi_shape b \<and> unat (last_write_loc b) < unat (mb_size b) \<and> ev_addr (unat (event_count b)) \<le> data_start b \<and>
     (\<forall>i < unat (event_count b). event_ok b (data_start b) i)"

lemma midi_inv_readable: "midi_inv b \<Longrightarrow> midi_readable b"
proof -
  assume inv: "midi_inv b"
  have "sizeof_info \<le> data_start b" using inv by (simp add: midi_inv_def ev_addr_def)
  then show ?thesis using inv by (fastforce simp: midi_inv_def midi_readable_def event_ok_def)
qed

lemmas midi_consts = MIDI_INLINE_MAX_def sizeof_info_def sizeof_event_def ev_addr_def

section \<open>Bytes that are left alone\<close>

definition same_outside :: "nat \<Rightarrow> nat \<Rightarrow> byte list \<Rightarrow> byte list \<Rightarrow> bool" where
  "same_outside lo hi m m' \<longleftrightarrow> length m' = length m \<and> (\<forall>j < length m. j < lo \<or> hi \<le> j \<longrightarrow> m' ! j = m ! j)"

lemma same_outside_refl [simp]: "same_outside lo hi m m"
  by (simp add: same_outside_def)

lemma same_outside_store:
  "same_outside lo hi m m' \<Longrightarrow> lo \<le> off \<Longrightarrow> off + length bs \<le> hi \<Longrightarrow> hi \<le> length m \<Longrightarrow>
   same_outside lo hi m (memcpy_at m' off bs)"
  by (auto simp: same_outside_def nth_memcpy_at)

lemma same_outside_bytes:
  assumes "same_outside lo hi m m'" "n + k \<le> lo \<or> hi \<le> n"
  shows "bytes_at m' n k = bytes_at m n k"
proof (rule nth_equalityI)
  show "length (bytes_at m' n k) = length (bytes_at m n k)" using assms(1) by (simp add: same_outside_def)
  fix i assume "i < length (bytes_at m' n k)"
  then have "i < k" "n + i < length m" using assms(1) by (auto simp: same_outside_def)
  then show "bytes_at m' n k ! i = bytes_at m n k ! i"
    using assms by (auto simp: same_outside_def nth_bytes_at)
qed

lemma event_unchanged:
  assumes s: "same_outside (ev_addr n) hi (mb_mem b) (mb_mem b')" and sz: "mb_size b' = mb_size b"
    and i: "i < n" "event_ok b hi i"
  shows "ev_time b' i = ev_time b i" "ev_size b' i = ev_size b i" "ev_offset b' i = ev_offset b i"
    "ev_bytes b' i = ev_bytes b i" "lo \<le> hi \<Longrightarrow> event_ok b' lo i"
proof -
  have a: "ev_addr i + 8 \<le> ev_addr n" using i(1) by (simp add: midi_consts)
  show t: "ev_time b' i = ev_time b i" "ev_size b' i = ev_size b i" "ev_offset b' i = ev_offset b i"
    using same_outside_bytes [OF s] a by (simp_all add: ev_time_def ev_size_def ev_offset_def)
  show "ev_bytes b' i = ev_bytes b i"
  proof (cases "unat (ev_size b i) \<le> MIDI_INLINE_MAX")
    case True
    then have "ev_addr i + 4 + unat (ev_size b i) \<le> ev_addr n" using a by (simp add: MIDI_INLINE_MAX_def)
    then show ?thesis using True t same_outside_bytes [OF s, of "ev_addr i + 4" "unat (ev_size b i)"]
      by (simp add: ev_bytes_def jack_midi_event_data_def nat_add_distrib)
  next
    case False
    then have "hi \<le> nat (sint (ev_offset b i))" using i(2) by (simp add: event_ok_def nat_le_iff le_nat_iff)
    then show ?thesis using False t same_outside_bytes [OF s] by (simp add: ev_bytes_def jack_midi_event_data_def)
  qed
  show "event_ok b' lo i" if "lo \<le> hi" using i(2) t sz that by (auto simp: event_ok_def)
qed


section \<open>Writing\<close>

definition midi_fits :: "midi_buffer \<Rightarrow> nat \<Rightarrow> bool" where
  "midi_fits b d \<longleftrightarrow>
     (if d \<le> MIDI_INLINE_MAX then ev_addr (Suc (unat (event_count b))) \<le> data_start b
      else ev_addr (Suc (unat (event_count b))) + unat (last_write_loc b) + d + 1 \<le> unat (mb_size b))"

lemma midi_bounds:
  assumes "midi_inv b"
  shows "unat (event_count b) < 2 ^ 28" "unat (last_write_loc b) < 2 ^ 31" "unat (mb_size b) < 2 ^ 31"
    "unat (event_count b + 1) = Suc (unat (event_count b))"
    "unat (used_size b) = ev_addr (Suc (unat (event_count b))) + unat (last_write_loc b)"
proof -
  show s: "unat (mb_size b) < 2 ^ 31" "unat (last_write_loc b) < 2 ^ 31"
    using assms by (auto simp: midi_inv_def midi_shape_def)
  show n: "unat (event_count b) < 2 ^ 28" using assms by (simp add: midi_inv_def midi_shape_def midi_consts)
  show n1: "unat (event_count b + 1) = Suc (unat (event_count b))" using n by (simp add: unat_word_ariths)
  have c: "unat (ucast (event_count b + 1) :: u64) = Suc (unat (event_count b))"
    "unat (ucast (last_write_loc b) :: u64) = unat (last_write_loc b)" using n1 by (simp_all add: unat_ucast_up)
  have "unat (ucast (event_count b + 1) * 8 :: u64) = 8 * Suc (unat (event_count b))"
    using n c(1) by (simp add: unat_word_ariths)
  then show "unat (used_size b) = ev_addr (Suc (unat (event_count b))) + unat (last_write_loc b)"
    using s n c(2) by (simp add: used_size_def midi_consts unat_word_ariths)
qed


lemma midi_append:
  assumes inv: "midi_inv b" and n: "n = unat (event_count b)"
    and same: "same_outside (ev_addr n) (data_start b) (mb_mem b) (mb_mem b')"
    and frame: "mb_size b' = mb_size b" "mb_nframes b' = mb_nframes b" "event_count b' = event_count b + 1"
    and new: "ev_time b' n = t" "ev_bytes b' n = data" "event_ok b' (data_start b') n"
    and room: "data_start b' \<le> data_start b" "ev_addr (Suc n) \<le> data_start b'" "unat (last_write_loc b') < unat (mb_size b)"
    and time: "unat t < unat (mb_nframes b)" "\<forall>i < n. ev_time b i \<le> t"
  shows "midi_inv b' \<and> midi_events b' = midi_events b @ [(t, data)]"
proof -
  have n': "unat (event_count b') = Suc n" using midi_bounds(4) [OF inv] frame(3) n by simp
  have ok: "event_ok b (data_start b) i" if "i < n" for i using inv that n by (simp add: midi_inv_def)
  note old = event_unchanged [OF same frame(1) _ ok]
  have "map (\<lambda>i. (ev_time b' i, ev_bytes b' i)) [0..<n] = midi_events b"
    using old n by (simp add: midi_events_def)
  then have ev: "midi_events b' = midi_events b @ [(t, data)]" using n' new by (simp add: midi_events_def)
  have "sorted (map fst (midi_events b'))"
    using inv time(2) n unfolding ev by (auto simp: midi_inv_def midi_shape_def sorted_append) (auto simp: midi_events_def)
  moreover have "unat (ev_time b' i) < unat (mb_nframes b')" if "i < Suc n" for i
    using that old(1) [of i] inv n new time(1) frame by (cases "i = n") (auto simp: midi_inv_def midi_shape_def)
  moreover have "event_ok b' (data_start b') i" if "i < Suc n" for i
    using that old(5) [of i "data_start b'"] new(3) room(1) by (cases "i = n") auto
  moreover have "data_start b' \<le> unat (mb_size b)" by (simp add: data_start_def frame)
  then have "ev_addr (Suc n) \<le> unat (mb_size b')" using room(2) frame by simp
  ultimately have "midi_inv b'"
    using inv frame same room n' by (auto simp: midi_inv_def midi_shape_def same_outside_def)
  then show ?thesis using ev by simp
qed

lemma sorted_last:
  assumes "midi_inv b" "i < unat (event_count b)"
  shows "ev_time b i \<le> ev_time b (unat (event_count b) - 1)"
proof -
  have "sorted (map (\<lambda>i. ev_time b i) [0..<unat (event_count b)])"
    using assms(1) by (simp add: midi_inv_def midi_shape_def midi_events_def comp_def)
  then show ?thesis using assms(2) sorted_nth_mono [of _ i "unat (event_count b) - 1"] by fastforce
qed

lemma fits_max:
  assumes inv: "midi_inv b" and f: "midi_fits b d" and d: "d < 2 ^ 32"
  shows "\<not> jack_midi_max_event_size b < of_nat d"
proof -
  note u = midi_bounds [OF inv]
  let ?used = "ev_addr (Suc (unat (event_count b))) + unat (last_write_loc b)"
  have s: "unat (ucast (mb_size b) :: u64) = unat (mb_size b)" by (simp add: unat_ucast_up)
  have dd: "unat (of_nat d :: u64) = d" using d by (simp add: unat_of_nat)
  have le: "?used \<le> unat (mb_size b)" "MIDI_INLINE_MAX < d \<Longrightarrow> ?used + d < unat (mb_size b)"
    using f inv by (auto simp: midi_fits_def data_start_def midi_inv_def split: if_splits)
  have sub: "unat (ucast (mb_size b) - used_size b) = unat (mb_size b) - ?used" using le(1) u(5) s by (simp add: unat_sub_le)
  show ?thesis
    using le sub u(5) s dd by (auto simp: jack_midi_max_event_size_def Let_def word_less_nat_alt MIDI_INLINE_MAX_def)
qed


definition ev_header :: "u32 \<Rightarrow> nat \<Rightarrow> byte list" where
  "ev_header time d = nat_le 2 (unat (ucast time :: u16)) @ nat_le 2 d"

lemma length_ev_header [simp]: "length (ev_header time d) = 4"
  by (simp add: ev_header_def)

text \<open>Reading back the fields of an event that has just been stored.\<close>

lemma ev_fields:
  assumes "bytes_at (mb_mem b) (ev_addr i) 4 = ev_header time d" "d < 2 ^ 16"
  shows "ev_time b i = ucast time" "unat (ev_size b i) = d"
proof -
  have "bytes_at (mb_mem b) (ev_addr i) 2 = take 2 (bytes_at (mb_mem b) (ev_addr i) 4)"
    "bytes_at (mb_mem b) (ev_addr i + 2) 2 = drop 2 (bytes_at (mb_mem b) (ev_addr i) 4)"
    by (simp_all add: bytes_at_def drop_take add.commute)
  then have "bytes_at (mb_mem b) (ev_addr i) 2 = nat_le 2 (unat (ucast time :: u16))"
    "bytes_at (mb_mem b) (ev_addr i + 2) 2 = nat_le 2 d"
    using assms(1) by (simp_all add: ev_header_def)
  moreover have "unat (ucast time :: u16) < 256 ^ 2" using unsigned_less [of "ucast time :: u16"] by simp
  ultimately show "ev_time b i = ucast time" "unat (ev_size b i) = d"
    using assms(2) by (simp_all add: ev_time_def ev_size_def le_nat_le unat_of_nat)
qed

lemma store_Value:
  assumes "sizeof_info \<le> off" "off + length bs \<le> unat (mb_size b)"
  shows "store b (int off) bs = Value (b\<lparr>mb_mem := memcpy_at (mb_mem b) off bs\<rparr>)"
proof -
  have "int off + int (length bs) \<le> int (unat (mb_size b))" using assms(2) by linarith
  then show ?thesis using assms(1) by (simp add: store_def del: int_nat_eq)
qed

lemma store_Value4:
  "sizeof_info \<le> off \<Longrightarrow> off + 4 + length bs \<le> unat (mb_size b) \<Longrightarrow>
   store b (int off + 4) bs = Value (b\<lparr>mb_mem := memcpy_at (mb_mem b) (off + 4) bs\<rparr>)"
  using store_Value [of "off + 4" bs b] by simp

lemma reserve_guards:
  assumes inv: "midi_inv b" and d: "0 < d" "d < 2 ^ 16" and f: "midi_fits b d"
    and time: "time < mb_nframes b" "\<forall>i < unat (event_count b). unat (ev_time b i) \<le> unat time"
  shows "jack_midi_event_reserve b time (of_nat d) =
    (let i = unat (event_count b) in
         c_bind (store b (int (ev_addr i)) (ev_header time d)) (\<lambda>b1.
           if d \<le> MIDI_INLINE_MAX
           then Value (b1\<lparr>event_count := event_count b1 + 1\<rparr>, Some (int (ev_addr i + 4)))
           else
             (let b2 = b1\<lparr>last_write_loc := last_write_loc b1 + of_nat d\<rparr>;
                  off = ucast (mb_size b2) - 1 - ucast (last_write_loc b2) :: u64
              in c_map (\<lambda>b3. (b3\<lparr>event_count := event_count b3 + 1\<rparr>, Some (int (unat off))))
                   (store b2 (int (ev_addr i + 4)) (nat_le 4 (unat (ucast off :: u32)))))))"
proof -
  have dd: "unat (of_nat d :: u64) = d" "(of_nat d :: u64) \<noteq> 0" "(ucast (of_nat d :: u64) :: u32) = of_nat d"
    "unat (ucast (of_nat d :: u64) :: u16) = d"
    using d by (simp_all add: unat_of_nat word_unat_eq_iff unat_ucast_mod)
  have g2: "\<not> (0 < event_count b \<and> time < ucast (ev_time b (unat (event_count b - 1))))"
  proof
    assume c: "0 < event_count b \<and> time < ucast (ev_time b (unat (event_count b - 1)))"
    then have "unat (event_count b - 1) < unat (event_count b)"
      by (simp add: unat_sub_le word_less_nat_alt)
    then show False using c time(2) by (force simp: word_less_nat_alt unat_ucast_up)
  qed
  have g1: "\<not> mb_nframes b \<le> time" and g4: "\<not> jack_midi_max_event_size b < of_nat d"
    using time(1) fits_max [OF inv f] d(2) by (simp_all add: not_le)
  show ?thesis
    unfolding jack_midi_event_reserve_def if_not_P [OF g1] if_not_P [OF g2] if_not_P [OF dd(2)] if_not_P [OF g4] ev_header_def dd ..
qed


lemma midi_write_inline:
  assumes inv: "midi_inv b" and d: "0 < length data" "length data \<le> MIDI_INLINE_MAX" and f: "midi_fits b (length data)"
    and time: "time < mb_nframes b" "\<forall>i < unat (event_count b). unat (ev_time b i) \<le> unat time"
  shows "\<exists>b'. jack_midi_event_write b time data = Value (b', 0) \<and> midi_inv b' \<and>
    midi_events b' = midi_events b @ [(ucast time, data)] \<and> event_count b' = event_count b + 1 \<and>
    mb_size b' = mb_size b \<and> mb_nframes b' = mb_nframes b \<and> events_lost b' = events_lost b \<and>
    unat (last_write_loc b') = unat (last_write_loc b) + (if length data \<le> MIDI_INLINE_MAX then 0 else length data)"
proof -
  define n where "n = unat (event_count b)"
  define m1 where "m1 = memcpy_at (mb_mem b) (ev_addr n) (ev_header time (length data))"
  define m2 where "m2 = memcpy_at m1 (ev_addr n + 4) data"
  define b' where "b' = b\<lparr>mb_mem := m2, event_count := event_count b + 1\<rparr>"
  have d16: "length data < 2 ^ 16" using d(2) by (simp add: MIDI_INLINE_MAX_def)
  have room: "ev_addr (Suc n) \<le> data_start b" "data_start b \<le> unat (mb_size b)" "length (mb_mem b) = unat (mb_size b)"
    using f d(2) inv by (auto simp: midi_fits_def n_def data_start_def midi_inv_def midi_shape_def)
  have a: "ev_addr (Suc n) = ev_addr n + 8" "sizeof_info \<le> ev_addr n" by (simp_all add: midi_consts)
  have len1: "length m1 = length (mb_mem b)" using room a by (simp add: m1_def)
  have d4: "length data \<le> 4" using d(2) by (simp add: MIDI_INLINE_MAX_def)
  have w: "jack_midi_event_write b time data = Value (b', 0)"
    using reserve_guards [OF inv d(1) d16 f time] room a d(2) d4
    by (simp add: jack_midi_event_write_def store_Value store_Value4 n_def [symmetric] b'_def m1_def m2_def Let_def)
  have same: "same_outside (ev_addr n) (data_start b) (mb_mem b) (mb_mem b')"
    unfolding b'_def m2_def m1_def using room a d4 by (simp add: same_outside_store)
  have hdr: "bytes_at (mb_mem b') (ev_addr n) 4 = ev_header time (length data)"
  proof -
    have "bytes_at m2 (ev_addr n) 4 = bytes_at m1 (ev_addr n) 4"
      unfolding m2_def using len1 room a d4 by (intro bytes_at_memcpy_other) auto
    also have "\<dots> = ev_header time (length data)"
      unfolding m1_def using bytes_at_memcpy_same [of "ev_addr n" "ev_header time (length data)" "mb_mem b"] room a by simp
    finally show ?thesis by (simp add: b'_def)
  qed
  note fld = ev_fields [OF hdr d16]
  have "bytes_at m2 (ev_addr n + 4) (length data) = data"
    unfolding m2_def using len1 room a d4 by (intro bytes_at_memcpy_same) auto
  then have data: "ev_bytes b' n = data"
    using fld(2) d(2) by (simp add: ev_bytes_def jack_midi_event_data_def nat_add_distrib) (simp add: b'_def)
  have t16: "unat (ucast time :: u16) = unat time"
    using time(1) inv by (simp add: unat_ucast_mod word_less_nat_alt midi_inv_def midi_shape_def)
  have "midi_inv b' \<and> midi_events b' = midi_events b @ [(ucast time, data)]"
  proof (rule midi_append [OF inv n_def same _ _ _ fld(1) data])
    show "event_ok b' (data_start b') n" using fld(2) d room a by (auto simp: event_ok_def) (simp add: b'_def)
    show "\<forall>i<n. ev_time b i \<le> ucast time" using time(2) t16 by (simp add: n_def word_le_nat_alt)
    show "unat (ucast time :: u16) < unat (mb_nframes b)" using time(1) t16 by (simp add: word_less_nat_alt)
    show "ev_addr (Suc n) \<le> data_start b'" using room by (auto simp: b'_def data_start_def)
    show "unat (last_write_loc b') < unat (mb_size b)" using inv by (simp add: b'_def midi_inv_def)
  qed (simp_all add: b'_def data_start_def)
  then show ?thesis using w d(2) by (auto simp: b'_def)
qed

lemma sint_offset: "k < 2 ^ 31 \<Longrightarrow> sint (of_nat k :: u32) = int k"
  by (simp add: signed_of_nat signed_take_bit_int_eq_self)

text \<open>Where a long event goes.\<close>

lemma long_offset:
  assumes inv: "midi_inv b" and long: "MIDI_INLINE_MAX < d" and f: "midi_fits b d"
  defines "k \<equiv> unat (mb_size b) - 1 - (unat (last_write_loc b) + d)"
  shows "unat (last_write_loc b + of_nat d) = unat (last_write_loc b) + d"
    "unat (ucast (mb_size b) - 1 - ucast (last_write_loc b + of_nat d) :: u64) = k"
    "k < 2 ^ 31" "k + d \<le> data_start b" "ev_addr (Suc (unat (event_count b))) \<le> k"
    "last_write_loc b + of_nat d \<noteq> 0" "unat (mb_size b) - Suc (unat (last_write_loc b) + d) = k"
    "unat (last_write_loc b) + d < unat (mb_size b)"
proof -
  note u = midi_bounds [OF inv]
  have r: "ev_addr (Suc (unat (event_count b))) + unat (last_write_loc b) + d + 1 \<le> unat (mb_size b)"
    using f long by (simp add: midi_fits_def)
  show l: "unat (last_write_loc b + of_nat d) = unat (last_write_loc b) + d"
    using r u(3) by (simp add: unat_word_ariths unat_of_nat)
  have "unat (ucast (mb_size b) - 1 :: u64) = unat (mb_size b) - 1"
    using r by (simp add: unat_sub_le unat_ucast_up)
  then show "unat (ucast (mb_size b) - 1 - ucast (last_write_loc b + of_nat d) :: u64) = k"
    using r l by (simp add: unat_sub_le unat_ucast_up k_def)
  show "k < 2 ^ 31" using u(3) by (simp add: k_def)
  show "k + d \<le> data_start b" using r by (simp add: k_def data_start_def)
  show "ev_addr (Suc (unat (event_count b))) \<le> k" using r by (simp add: k_def)
  show "last_write_loc b + of_nat d \<noteq> 0" using l long by (metis add_is_0 gr_implies_not0 unsigned_0)
  show "unat (mb_size b) - Suc (unat (last_write_loc b) + d) = k" by (simp add: k_def)
  show "unat (last_write_loc b) + d < unat (mb_size b)" using r by simp
qed

lemma midi_write_long:
  assumes inv: "midi_inv b" and d: "MIDI_INLINE_MAX < length data" "length data < 2 ^ 16" and f: "midi_fits b (length data)"
    and time: "time < mb_nframes b" "\<forall>i < unat (event_count b). unat (ev_time b i) \<le> unat time"
  shows "\<exists>b'. jack_midi_event_write b time data = Value (b', 0) \<and> midi_inv b' \<and>
    midi_events b' = midi_events b @ [(ucast time, data)] \<and> event_count b' = event_count b + 1 \<and>
    mb_size b' = mb_size b \<and> mb_nframes b' = mb_nframes b \<and> events_lost b' = events_lost b \<and>
    unat (last_write_loc b') = unat (last_write_loc b) + (if length data \<le> MIDI_INLINE_MAX then 0 else length data)"
proof -
  define n where "n = unat (event_count b)"
  define l' where "l' = last_write_loc b + of_nat (length data)"
  define k where "k = unat (mb_size b) - 1 - (unat (last_write_loc b) + length data)"
  define m1 where "m1 = memcpy_at (mb_mem b) (ev_addr n) (ev_header time (length data))"
  define m2 where "m2 = memcpy_at m1 (ev_addr n + 4) (nat_le 4 k)"
  define m3 where "m3 = memcpy_at m2 k data"
  define b' where "b' = b\<lparr>mb_mem := m3, last_write_loc := l', event_count := event_count b + 1\<rparr>"
  note o = long_offset [OF inv d(1) f, folded k_def l'_def n_def]
  have len: "length (mb_mem b) = unat (mb_size b)" "data_start b \<le> unat (mb_size b)"
    using inv by (auto simp: midi_inv_def midi_shape_def data_start_def)
  have a: "ev_addr (Suc n) = ev_addr n + 8" "sizeof_info \<le> ev_addr n" by (simp_all add: midi_consts)
  have lens: "length m1 = unat (mb_size b)" "length m2 = unat (mb_size b)"
    using len o a by (simp_all add: m1_def m2_def)
  have k32: "unat (ucast (ucast (mb_size b) - 1 - ucast l' :: u64) :: u32) = k" using o by (simp add: unat_ucast_mod)
  have nl: "\<not> length data \<le> MIDI_INLINE_MAX" "0 < length data" using d(1) by auto
  have k0: "sizeof_info \<le> k" using o a by simp
  have ku: "uint (ucast (mb_size b) - 1 - ucast l' :: u64) = int k" using arg_cong [OF o(2), of int] by simp
  have w: "jack_midi_event_write b time data = Value (b', 0)"
    using reserve_guards [OF inv nl(2) d(2) f time] o a k0 k32 len nl ku
    by (simp add: jack_midi_event_write_def store_Value store_Value4 n_def [symmetric] l'_def [symmetric]
        b'_def m1_def m2_def m3_def Let_def)
  have same: "same_outside (ev_addr n) (data_start b) (mb_mem b) (mb_mem b')"
    unfolding b'_def m3_def m2_def m1_def using o a len by (simp add: same_outside_store)
  have hdr: "bytes_at m3 (ev_addr n) 4 = ev_header time (length data)"
  proof -
    have "bytes_at m3 (ev_addr n) 4 = bytes_at m2 (ev_addr n) 4"
      unfolding m3_def using lens o a len by (intro bytes_at_memcpy_other) auto
    also have "\<dots> = bytes_at m1 (ev_addr n) 4"
      unfolding m2_def using lens o a len by (intro bytes_at_memcpy_other) auto
    also have "\<dots> = ev_header time (length data)"
      unfolding m1_def using bytes_at_memcpy_same [of "ev_addr n" "ev_header time (length data)" "mb_mem b"] len o a by simp
    finally show ?thesis .
  qed
  then have fld: "ev_time b' n = ucast time" "unat (ev_size b' n) = length data"
    using ev_fields [of b' n time "length data"] d(2) by (simp_all add: b'_def)
  have off: "ev_offset b' n = of_nat k"
  proof -
    have "bytes_at m3 (ev_addr n + 4) 4 = bytes_at m2 (ev_addr n + 4) 4"
      unfolding m3_def using lens o a len by (intro bytes_at_memcpy_other) auto
    also have "\<dots> = nat_le 4 k"
      unfolding m2_def using bytes_at_memcpy_same [of "ev_addr n + 4" "nat_le 4 k" m1] lens o a len by simp
    finally show ?thesis using o(3) by (simp add: ev_offset_def b'_def le_nat_le)
  qed
  have "bytes_at m3 k (length data) = data"
    unfolding m3_def using lens o len by (intro bytes_at_memcpy_same) auto
  then have data: "ev_bytes b' n = data"
    using fld(2) nl off o(3) by (simp add: ev_bytes_def jack_midi_event_data_def sint_offset) (simp add: b'_def)
  have t16: "unat (ucast time :: u16) = unat time"
    using time(1) inv by (simp add: unat_ucast_mod word_less_nat_alt midi_inv_def midi_shape_def)
  have ds: "data_start b' = k" using o by (simp add: data_start_def b'_def)
  have "midi_inv b' \<and> midi_events b' = midi_events b @ [(ucast time, data)]"
  proof (rule midi_append [OF inv n_def same _ _ _ fld(1) data])
    have "int k + int (length data) \<le> int (unat (mb_size b))" using o len by linarith
    then show "event_ok b' (data_start b') n"
      using fld(2) nl len o a off by (auto simp: event_ok_def ds sint_offset) (auto simp: b'_def)
    show "\<forall>i<n. ev_time b i \<le> ucast time" using time(2) t16 by (simp add: n_def word_le_nat_alt)
    show "unat (ucast time :: u16) < unat (mb_nframes b)" using time(1) t16 by (simp add: word_less_nat_alt)
    show "data_start b' \<le> data_start b" "ev_addr (Suc n) \<le> data_start b'" using ds o by simp_all
    show "unat (last_write_loc b') < unat (mb_size b)" using o by (simp add: b'_def)
  qed (simp_all add: b'_def)
  then show ?thesis using w nl o(1) by (auto simp: b'_def)
qed

end
