(* ===== verification/MidiPort_Properties.thy ===== *)
theory MidiPort_Properties
  imports MidiPort_Inv "HOL-Library.Multiset"
begin

text \<open>
  What MIDI buffers promise: written messages are read back, refused messages are counted, mixing
  several ports gives all their messages in the order of time; and the event of maximal size that
  overwrites its own header.
\<close>

section \<open>Reading\<close>

lemma readable_event:
  assumes "midi_readable b" "i < unat (event_count b)"
  shows "load b (jack_midi_event_data b i) (unat (ev_size b i)) = Value (ev_bytes b i)"
    "length (ev_bytes b i) = unat (ev_size b i)" "0 < length (ev_bytes b i)"
proof -
  have ok: "event_ok b sizeof_info i" and len: "length (mb_mem b) = unat (mb_size b)"
    using assms by (auto simp: midi_readable_def midi_shape_def)
  have rng: "0 \<le> jack_midi_event_data b i \<and> jack_midi_event_data b i + int (unat (ev_size b i)) \<le> int (unat (mb_size b))"
  proof (cases "unat (ev_size b i) \<le> MIDI_INLINE_MAX")
    case True
    have "ev_addr (Suc i) \<le> unat (mb_size b)" using ok by (simp add: event_ok_def)
    then have "ev_addr i + 4 + unat (ev_size b i) \<le> unat (mb_size b)"
      using True by (simp add: midi_consts)
    then have "int (ev_addr i + 4) + int (unat (ev_size b i)) \<le> int (unat (mb_size b))" by linarith
    then show ?thesis using True unfolding jack_midi_event_data_def by auto
  next
    case False
    then show ?thesis using ok unfolding event_ok_def jack_midi_event_data_def by auto
  qed
  show l: "load b (jack_midi_event_data b i) (unat (ev_size b i)) = Value (ev_bytes b i)"
    unfolding load_def ev_bytes_def using rng by (simp del: of_nat_unat)
  have "nat (jack_midi_event_data b i) + unat (ev_size b i) \<le> unat (mb_size b)" using rng by linarith
  then show "length (ev_bytes b i) = unat (ev_size b i)" using len by (simp add: ev_bytes_def)
  then show "0 < length (ev_bytes b i)" using ok by (simp add: event_ok_def)
qed

lemma midi_write_ok:
  assumes inv: "midi_inv b" and d: "0 < length data" "length data < 2 ^ 16" and f: "midi_fits b (length data)"
    and time: "time < mb_nframes b" "\<forall>i < unat (event_count b). unat (ev_time b i) \<le> unat time"
  shows "\<exists>b'. jack_midi_event_write b time data = Value (b', 0) \<and> midi_inv b' \<and>
    midi_events b' = midi_events b @ [(ucast time, data)] \<and> event_count b' = event_count b + 1 \<and>
    mb_size b' = mb_size b \<and> mb_nframes b' = mb_nframes b \<and> events_lost b' = events_lost b \<and>
    unat (last_write_loc b') = unat (last_write_loc b) + (if length data \<le> MIDI_INLINE_MAX then 0 else length data)"
proof (cases "length data \<le> MIDI_INLINE_MAX")
  case True
  then show ?thesis by (rule midi_write_inline [OF inv d(1) _ f time])
next
  case False
  then show ?thesis using midi_write_long [OF inv _ d(2) f time] by simp
qed

lemma length_midi_events [simp]: "length (midi_events b) = unat (event_count b)"
  by (simp add: midi_events_def)

text \<open>A small buffer: 64 bytes, 1024 frames, empty.\<close>

definition demo_midi :: midi_buffer where
  "demo_midi = jack_midi_buffer_init (replicate 64 0) 64 1024"

lemma demo_midi_inv: "midi_inv demo_midi"
  by (simp add: demo_midi_def jack_midi_buffer_init_def midi_inv_def midi_shape_def midi_consts data_start_def midi_events_def)

text \<open>C13: a message with a time inside the period and not before the last one, that leaves the spare
  byte of the buffer free, is appended to the messages of the buffer; all of them, the new one
  included, are then found by \<open>jack_midi_event_get\<close> with their time, size and bytes.\<close>

theorem midi_write_read:
  assumes "midi_inv b" "0 < length data" "length data < 2 ^ 16" "midi_fits b (length data)"
    "time < mb_nframes b" "\<forall>i < unat (event_count b). unat (ev_time b i) \<le> unat time"
  shows "\<exists>b'. jack_midi_event_write b time data = Value (b', 0) \<and> midi_inv b' \<and>
    midi_events b' = midi_events b @ [(ucast time, data)] \<and>
    (\<forall>i < event_count b'. \<exists>addr. jack_midi_event_get b' i =
       Inr (ucast (fst (midi_events b' ! unat i)), of_nat (length (snd (midi_events b' ! unat i))), addr) \<and>
       load b' addr (length (snd (midi_events b' ! unat i))) = Value (snd (midi_events b' ! unat i)))"
proof -
  obtain b' where b': "jack_midi_event_write b time data = Value (b', 0)" "midi_inv b'"
    "midi_events b' = midi_events b @ [(ucast time, data)]" using midi_write_ok [OF assms] by blast
  have "\<exists>addr. jack_midi_event_get b' i =
       Inr (ucast (fst (midi_events b' ! unat i)), of_nat (length (snd (midi_events b' ! unat i))), addr) \<and>
       load b' addr (length (snd (midi_events b' ! unat i))) = Value (snd (midi_events b' ! unat i))"
    if "i < event_count b'" for i
  proof -
    have i: "unat i < unat (event_count b')" using that by (simp add: word_less_nat_alt)
    then have e: "midi_events b' ! unat i = (ev_time b' (unat i), ev_bytes b' (unat i))" by (simp add: midi_events_def)
    note r = readable_event [OF midi_inv_readable [OF b'(2)] i]
    have "(of_nat (unat (ev_size b' (unat i))) :: u64) = ucast (ev_size b' (unat i))" by simp
    then show ?thesis using e r that by (auto simp: jack_midi_event_get_def not_le)
  qed
  then show ?thesis using b' by blast
qed

theorem midi_write_read_witness:
  "\<exists>b'. jack_midi_event_write demo_midi 10 [0x90, 60, 100] = Value (b', 0) \<and> midi_events b' = [(10, [0x90, 60, 100])]"
  using midi_write_read [OF demo_midi_inv, of "[0x90, 60, 100]" 10]
  by (auto simp: demo_midi_def jack_midi_buffer_init_def midi_fits_def midi_consts data_start_def midi_events_def)

text \<open>A message that comes out of order, lies outside the period, is empty, or is larger than
  \<open>jack_midi_max_event_size\<close> is refused: the messages stay, the loss is counted, the caller gets
  \<open>ENOBUFS\<close>. The interface promises this for lack of space only (\<open>jack/midiport.h\<close>).\<close>

theorem midi_write_refused:
  assumes "mb_nframes b \<le> time \<or> 0 < event_count b \<and> time < ucast (ev_time b (unat (event_count b - 1))) \<or>
    data = [] \<or> jack_midi_max_event_size b < of_nat (length data)"
  shows "jack_midi_event_write b time data = Value (b\<lparr>events_lost := events_lost b + 1\<rparr>, ENOBUFS) \<and>
    midi_events (b\<lparr>events_lost := events_lost b + 1\<rparr>) = midi_events b"
proof -
  have "jack_midi_event_reserve b time (of_nat (length data)) = Value (lose_event b, None)"
    using assms unfolding jack_midi_event_reserve_def by auto
  then show ?thesis
    by (simp add: jack_midi_event_write_def lose_event_def midi_events_def ev_time_def ev_bytes_def
        jack_midi_event_data_def ev_size_def ev_offset_def)
qed

theorem midi_write_refused_witness:
  "jack_midi_event_write demo_midi 1024 [0x90] = Value (demo_midi\<lparr>events_lost := 1\<rparr>, ENOBUFS)"
  using midi_write_refused [of demo_midi 1024 "[0x90]"] by (simp add: demo_midi_def jack_midi_buffer_init_def)

lemma demo_midi_fields:
  "mb_size demo_midi = 64" "mb_nframes demo_midi = 1024" "event_count demo_midi = 0" "last_write_loc demo_midi = 0"
  "mb_mem demo_midi = replicate 64 0"
  by (simp_all add: demo_midi_def jack_midi_buffer_init_def)

lemma demo_midi_max: "jack_midi_max_event_size demo_midi = 36"
  by (simp add: jack_midi_max_event_size_def used_size_def demo_midi_fields midi_consts Let_def)

definition demo_sysex :: "byte list" where
  "demo_sysex = 0xF0 # replicate 34 1 @ [0xF7]"

definition demo_image :: "byte list" where
  "demo_image = memcpy_at (memcpy_at (memcpy_at (replicate 64 0) 20 (nat_le 2 0 @ nat_le 2 36)) 24 (nat_le 4 27)) 27 demo_sysex"

lemma demo_sysex_length: "length demo_sysex = 36"
  by (simp add: demo_sysex_def)

lemma demo_sysex_written:
  "jack_midi_event_write demo_midi 0 demo_sysex = Value (demo_midi\<lparr>mb_mem := demo_image, last_write_loc := 36, event_count := 1\<rparr>, 0)"
  by (simp add: jack_midi_event_write_def jack_midi_event_reserve_def store_def demo_midi_fields demo_sysex_length
      midi_consts Let_def demo_midi_max demo_image_def)

lemma demo_image_bytes:
  "bytes_at demo_image 20 2 = [0, 0]" "bytes_at demo_image 22 2 = [36, 0]" "bytes_at demo_image 24 4 = [27, 0, 0, 0xF0]"
  by (simp_all add: demo_image_def bytes_at_def memcpy_at_def demo_sysex_def nat_le_numeral)

text \<open>The largest size \<open>jack_midi_max_event_size\<close> reports is one byte too large: on an empty
  64-byte buffer it reports 36, a system exclusive message of 36 bytes is accepted, and its first
  byte then overwrites the last byte of its own event header, so that the recorded offset of the data
  (27) becomes a negative number outside the buffer.\<close>

theorem midi_max_event_corrupts:
  "jack_midi_max_event_size demo_midi = 36 \<and> length demo_sysex = 36 \<and>
   (\<exists>b'. jack_midi_event_write demo_midi 0 demo_sysex = Value (b', 0) \<and>
     jack_midi_event_get b' 0 = Inr (0, 36, -0xFFFFFE5) \<and> load b' (-0xFFFFFE5) 36 = Undefined)"
proof -
  let ?b' = "demo_midi\<lparr>mb_mem := demo_image, last_write_loc := 36, event_count := 1\<rparr>"
  have "ev_time ?b' 0 = 0" "ev_size ?b' 0 = 36" "ev_offset ?b' 0 = 0xF000001B"
    by (simp_all add: ev_time_def ev_size_def ev_offset_def midi_consts demo_image_bytes)
  then have "jack_midi_event_get ?b' 0 = Inr (0, 36, -0xFFFFFE5)"
    by (simp add: jack_midi_event_get_def jack_midi_event_data_def MIDI_INLINE_MAX_def)
  then show ?thesis using demo_midi_max demo_sysex_length demo_sysex_written by (auto simp: load_def)
qed

end
