(* ===== verification/MidiMix.thy ===== *)
theory MidiMix
  imports MidiPort_Properties
begin

text \<open>
  Mixing several MIDI ports (\<open>jack_midi_port_mixdown\<close>): if the mix buffer has room, it ends up with
  every message of every source, in the order of time, and the assertion at the end holds.
\<close>

section \<open>What is still to be mixed\<close>

definition unread :: "midi_buffer \<Rightarrow> (u16 \<times> byte list) list" where
  "unread s = drop (unat (last_write_loc s)) (midi_events s)"

definition source_ok :: "midi_buffer \<Rightarrow> bool" where
  "source_ok s \<longleftrightarrow> midi_readable s \<and> unat (last_write_loc s) \<le> unat (event_count s)"

definition msg_room :: "u16 \<times> byte list \<Rightarrow> nat" where
  "msg_room m = (if length (snd m) \<le> MIDI_INLINE_MAX then 0 else length (snd m))"

text \<open>The read position and the counters are not part of the messages.\<close>

lemma ev_lwl [simp]:
  "ev_time (s\<lparr>last_write_loc := v\<rparr>) = ev_time s" "ev_size (s\<lparr>last_write_loc := v\<rparr>) = ev_size s"
  "ev_offset (s\<lparr>last_write_loc := v\<rparr>) = ev_offset s" "ev_bytes (s\<lparr>last_write_loc := v\<rparr>) = ev_bytes s"
  "jack_midi_event_data (s\<lparr>last_write_loc := v\<rparr>) = jack_midi_event_data s"
  by (simp_all add: fun_eq_iff ev_time_def ev_size_def ev_offset_def ev_bytes_def jack_midi_event_data_def)

lemma ev_lost [simp]:
  "ev_time (s\<lparr>events_lost := v\<rparr>) = ev_time s" "ev_size (s\<lparr>events_lost := v\<rparr>) = ev_size s"
  "ev_offset (s\<lparr>events_lost := v\<rparr>) = ev_offset s" "ev_bytes (s\<lparr>events_lost := v\<rparr>) = ev_bytes s"
  by (simp_all add: fun_eq_iff ev_time_def ev_size_def ev_offset_def ev_bytes_def jack_midi_event_data_def)

lemma midi_inv_lost [simp]:
  "midi_events (s\<lparr>events_lost := v\<rparr>) = midi_events s" "midi_inv (s\<lparr>events_lost := v\<rparr>) = midi_inv s"
proof -
  show e: "midi_events (s\<lparr>events_lost := v\<rparr>) = midi_events s" by (simp add: midi_events_def)
  show "midi_inv (s\<lparr>events_lost := v\<rparr>) = midi_inv s"
    by (simp add: midi_inv_def midi_shape_def event_ok_def data_start_def e)
qed

lemma midi_events_lwl [simp]: "midi_events (s\<lparr>last_write_loc := v\<rparr>) = midi_events s"
  by (simp add: midi_events_def)

lemma readable_lwl [simp]: "midi_readable (s\<lparr>last_write_loc := v\<rparr>) = midi_readable s"
  by (simp add: midi_readable_def midi_shape_def event_ok_def)

lemma unread_Cons:
  assumes "last_write_loc s < event_count s"
  shows "unread s = (ev_time s (unat (last_write_loc s)), ev_bytes s (unat (last_write_loc s))) #
    unread (s\<lparr>last_write_loc := last_write_loc s + 1\<rparr>)"
proof -
  have l: "unat (last_write_loc s) < unat (event_count s)" using assms by (simp add: word_less_nat_alt)
  then have "unat (last_write_loc s + 1) = Suc (unat (last_write_loc s))"
    using unat_lt [of "event_count s"] by (simp add: unat_word_ariths)
  then show ?thesis using l
    by (simp add: unread_def Cons_nth_drop_Suc [symmetric]) (simp add: midi_events_def)
qed

lemma unread_Nil: "source_ok s \<Longrightarrow> \<not> last_write_loc s < event_count s \<Longrightarrow> unread s = []"
  by (simp add: unread_def source_ok_def word_less_nat_alt)

lemma unread_empty_iff: "source_ok s \<Longrightarrow> unread s = [] \<longleftrightarrow> \<not> last_write_loc s < event_count s"
  using unread_Cons [of s] unread_Nil [of s] by auto

lemma unread_sorted:
  assumes "source_ok s" "unread s = (t, bs) # rest" "(u, cs) \<in> set (unread s)"
  shows "t \<le> u"
proof -
  have "sorted (map fst (unread s))"
    using assms(1) by (simp add: source_ok_def midi_readable_def midi_shape_def unread_def drop_map [symmetric] sorted_wrt_drop)
  then show ?thesis using assms(2,3) by (force simp: )
qed

section \<open>The earliest unread message\<close>

lemma find_earliest_result:
  assumes "\<And>s. s \<in> set ss \<Longrightarrow> source_ok s"
  shows "case find_earliest ss k best of
      None \<Rightarrow> best = None \<and> (\<forall>s \<in> set ss. unread s = [])
    | Some (j, t) \<Rightarrow>
        (best = Some (j, t) \<or> (k \<le> j \<and> j < k + length ss \<and> last_write_loc (ss ! (j - k)) < event_count (ss ! (j - k)) \<and>
            t = ev_time (ss ! (j - k)) (unat (last_write_loc (ss ! (j - k)))))) \<and>
        (\<forall>j0 t0. best = Some (j0, t0) \<longrightarrow> t \<le> t0) \<and>
        (\<forall>s \<in> set ss. \<forall>m \<in> set (unread s). t \<le> fst m)"
  using assms
proof (induction ss arbitrary: k best)
  case Nil
  then show ?case by (cases best) auto
next
  case (Cons s ss)
  have ok: "source_ok s" and oks: "\<And>x. x \<in> set ss \<Longrightarrow> source_ok x" using Cons.prems by auto
  show ?case
  proof (cases "last_write_loc s < event_count s")
    case False
    then have u: "unread s = []" using unread_Nil [OF ok] by simp
    have "find_earliest (s # ss) k best = find_earliest ss (Suc k) best" using False by simp
    then show ?thesis using Cons.IH [OF oks, where k = "Suc k" and best = best] u
      by (auto split: option.splits simp: nth_Cons' Suc_diff_Suc)
  next
    case True
    let ?t = "ev_time s (unat (last_write_loc s))"
    have head: "\<forall>m \<in> set (unread s). ?t \<le> fst m"
      using unread_Cons [OF True] unread_sorted [OF ok] by (metis list.set_intros(1) prod.collapse)
    define best' where "best' = (case best of None \<Rightarrow> Some (k, ?t) | Some (k0, t0) \<Rightarrow> if ?t < t0 then Some (k, ?t) else Some (k0, t0))"
    have step: "find_earliest (s # ss) k best = find_earliest ss (Suc k) best'"
      using True by (auto simp: best'_def Let_def split: option.splits)
    have "best' \<noteq> None" by (auto simp: best'_def split: option.splits)
    then obtain j1 t1 where b1: "best' = Some (j1, t1)" by (metis not_None_eq prod.exhaust)
    have le: "t1 \<le> ?t" "\<forall>j0 t0. best = Some (j0, t0) \<longrightarrow> t1 \<le> t0"
      "best = Some (j1, t1) \<or> j1 = k \<and> t1 = ?t"
      using b1 by (auto simp: best'_def split: option.splits if_splits)
    obtain j t where r: "find_earliest ss (Suc k) best' = Some (j, t)"
      using Cons.IH [OF oks, where k = "Suc k" and best = best'] b1 by (auto split: option.splits)
    have IH: "(best' = Some (j, t) \<or> (Suc k \<le> j \<and> j < Suc k + length ss \<and>
          last_write_loc (ss ! (j - Suc k)) < event_count (ss ! (j - Suc k)) \<and>
          t = ev_time (ss ! (j - Suc k)) (unat (last_write_loc (ss ! (j - Suc k)))))) \<and>
        t \<le> t1 \<and> (\<forall>s \<in> set ss. \<forall>m \<in> set (unread s). t \<le> fst m)"
      using Cons.IH [OF oks, where k = "Suc k" and best = best'] r b1 by auto
    have "(\<forall>x \<in> set (s # ss). \<forall>m \<in> set (unread x). t \<le> fst m)" using IH head le(1) by fastforce
    moreover have "\<forall>j0 t0. best = Some (j0, t0) \<longrightarrow> t \<le> t0" using IH le(2) by fastforce
    moreover have "best = Some (j, t) \<or> (k \<le> j \<and> j < k + length (s # ss) \<and>
        last_write_loc ((s # ss) ! (j - k)) < event_count ((s # ss) ! (j - k)) \<and>
        t = ev_time ((s # ss) ! (j - k)) (unat (last_write_loc ((s # ss) ! (j - k)))))"
      using IH le(3) b1 True by (auto simp: nth_Cons')
    ultimately show ?thesis using step r by simp
  qed
qed


section \<open>The mixing loop\<close>

lemma mset_concat_update:
  assumes "k < length xs" "f (xs ! k) = x # f y"
  shows "mset (concat (map f xs)) = add_mset x (mset (concat (map f (xs[k := y]))))"
proof -
  have a: "xs = take k xs @ xs ! k # drop (Suc k) xs" using assms(1) by (rule id_take_nth_drop)
  have b: "xs[k := y] = take k xs @ y # drop (Suc k) xs" using assms(1) by (rule upd_conv_take_nth_drop)
  have "mset (concat (map f xs)) = mset (concat (map f (take k xs))) + mset (f (xs ! k)) + mset (concat (map f (drop (Suc k) xs)))"
    by (subst a) simp
  then show ?thesis unfolding b using assms(2) by simp
qed

text \<open>The state of the loop: the messages mixed so far come before all that are left, and there is
  room for what is left.\<close>

definition left :: "midi_buffer list \<Rightarrow> (u16 \<times> byte list) multiset" where
  "left srcs = mset (concat (map unread srcs))"

definition mix_ok :: "midi_buffer list \<Rightarrow> midi_buffer \<Rightarrow> bool" where
  "mix_ok srcs out \<longleftrightarrow> (\<forall>s \<in> set srcs. source_ok s) \<and> midi_inv out \<and>
     (\<forall>m \<in># left srcs. unat (fst m) < unat (mb_nframes out) \<and> length (snd m) < 2 ^ 16 \<and>
        (\<forall>e \<in> set (midi_events out). fst e \<le> fst m)) \<and>
     ev_addr (unat (event_count out) + size (left srcs)) + unat (last_write_loc out) + (\<Sum>m \<in># left srcs. msg_room m) + 1
       \<le> unat (mb_size out)"

lemma mix_fits:
  assumes ok: "mix_ok srcs out" and m: "m \<in># left srcs"
  shows "midi_fits out (length (snd m))"
proof -
  have r: "ev_addr (unat (event_count out) + size (left srcs)) + unat (last_write_loc out) + (\<Sum>m \<in># left srcs. msg_room m) + 1
       \<le> unat (mb_size out)" using ok by (simp add: mix_ok_def)
  have "size (left srcs) \<noteq> 0" using m by auto
  then have a: "ev_addr (Suc (unat (event_count out))) \<le> ev_addr (unat (event_count out) + size (left srcs))"
    by (simp add: ev_addr_def sizeof_event_def Suc_le_eq nonempty_has_size)
  have "msg_room m \<le> (\<Sum>m \<in># left srcs. msg_room m)" using m by (metis image_mset_add_mset insert_DiffM le_add1 sum_mset.add_mset)
  then show ?thesis using r a by (auto simp: midi_fits_def msg_room_def data_start_def split: if_splits)
qed

lemma ev_bytes_length16: "length (ev_bytes b i) < 2 ^ 16"
proof -
  have "length (ev_bytes b i) \<le> unat (ev_size b i)" by (simp add: ev_bytes_def)
  then show ?thesis using unat_lt [of "ev_size b i"] by simp
qed

lemma mix_step:
  assumes ok: "mix_ok srcs out" and f: "find_earliest srcs 0 None = Some (k, t)"
  defines "s \<equiv> srcs ! k" and "i \<equiv> unat (last_write_loc (srcs ! k))"
  shows "load s (jack_midi_event_data s i) (unat (ev_size s i)) = Value (ev_bytes s i) \<and>
    (\<exists>out'. jack_midi_event_write out (ucast (ev_time s i)) (ev_bytes s i) = Value (out', 0) \<and>
      mix_ok (srcs[k := s\<lparr>last_write_loc := last_write_loc s + 1\<rparr>]) out' \<and>
      midi_events out' = midi_events out @ [(ev_time s i, ev_bytes s i)] \<and>
      left srcs = add_mset (ev_time s i, ev_bytes s i) (left (srcs[k := s\<lparr>last_write_loc := last_write_loc s + 1\<rparr>])) \<and>
      event_count out' = event_count out + 1 \<and> events_lost out' = events_lost out)"
proof -
  have oks: "\<And>x. x \<in> set srcs \<Longrightarrow> source_ok x" using ok by (simp add: mix_ok_def)
  have fe: "k < length srcs" "last_write_loc s < event_count s" "t = ev_time s i" "\<forall>x \<in> set srcs. \<forall>m \<in> set (unread x). t \<le> fst m"
    using find_earliest_result [of srcs, where k = 0 and best = None] oks f by (auto simp: s_def i_def)
  let ?m = "(ev_time s i, ev_bytes s i)" and ?srcs' = "srcs[k := s\<lparr>last_write_loc := last_write_loc s + 1\<rparr>]"
  have sin: "s \<in> set srcs" using fe(1) by (simp add: s_def)
  have i: "i < unat (event_count s)" using fe(2) by (simp add: i_def s_def word_less_nat_alt)
  note rd = readable_event [of s i] 
  have sr: "midi_readable s" using oks [OF sin] by (simp add: source_ok_def)
  have u: "unread s = ?m # unread (s\<lparr>last_write_loc := last_write_loc s + 1\<rparr>)" using unread_Cons [OF fe(2)] by (simp add: i_def s_def)
  have lft: "left srcs = add_mset ?m (left ?srcs')"
    unfolding left_def by (rule mset_concat_update [OF fe(1)]) (use u in \<open>simp add: s_def\<close>)
  then have m: "?m \<in># left srcs" by simp
  have mo: "unat (ev_time s i) < unat (mb_nframes out)" "\<forall>e \<in> set (midi_events out). fst e \<le> ev_time s i"
    using ok m unfolding mix_ok_def by force+
  have inv: "midi_inv out" using ok by (simp add: mix_ok_def)
  have "\<forall>j < unat (event_count out). unat (ev_time out j) \<le> unat (ucast (ev_time s i) :: u32)"
    using mo(2) by (auto simp: midi_events_def unat_ucast_up word_le_nat_alt)
  moreover have "(ucast (ev_time s i) :: u32) < mb_nframes out" using mo(1) by (simp add: word_less_nat_alt unat_ucast_up)
  ultimately obtain out' where out': "jack_midi_event_write out (ucast (ev_time s i)) (ev_bytes s i) = Value (out', 0)" "midi_inv out'"
    "midi_events out' = midi_events out @ [(ucast (ucast (ev_time s i) :: u32), ev_bytes s i)]" "event_count out' = event_count out + 1"
    "mb_size out' = mb_size out" "mb_nframes out' = mb_nframes out" "events_lost out' = events_lost out"
    "unat (last_write_loc out') = unat (last_write_loc out) + (if length (ev_bytes s i) \<le> MIDI_INLINE_MAX then 0 else length (ev_bytes s i))"
    using midi_write_ok [OF inv _ _ mix_fits [OF ok m, simplified]] rd(3) [OF sr i] ev_bytes_length16 by (metis snd_conv)
  have narrow: "ucast (ucast (ev_time s i) :: u32) = ev_time s i"
    using unat_lt [of "ev_time s i"] by (simp add: word_unat_eq_iff unat_ucast_mod)
  have ev: "midi_events out' = midi_events out @ [?m]" using out'(3) narrow by simp
  have sub: "m' \<in># left srcs" if "m' \<in># left ?srcs'" for m' using lft that by simp
  have late: "ev_time s i \<le> fst m'" if "m' \<in># left srcs" for m'
    using fe(3,4) that by (auto simp: left_def)
  have "unat (last_write_loc s + 1) = Suc i" using i unat_lt [of "event_count s"] by (simp add: unat_word_ariths i_def s_def)
  then have "source_ok (s\<lparr>last_write_loc := last_write_loc s + 1\<rparr>)" using sr i by (simp add: source_ok_def)
  then have "\<forall>x \<in> set ?srcs'. source_ok x" using oks by (auto dest!: subsetD [OF set_update_subset_insert])
  moreover have "\<forall>m' \<in># left ?srcs'. unat (fst m') < unat (mb_nframes out') \<and> length (snd m') < 2 ^ 16 \<and>
      (\<forall>e \<in> set (midi_events out'). fst e \<le> fst m')"
    using ok sub late out'(6) unfolding ev by (auto simp: mix_ok_def)
  moreover have "ev_addr (unat (event_count out') + size (left ?srcs')) + unat (last_write_loc out') + (\<Sum>m \<in># left ?srcs'. msg_room m) + 1
       \<le> unat (mb_size out')"
  proof -
    have "unat (event_count out') = Suc (unat (event_count out))" using out'(4) midi_bounds(4) [OF inv] by simp
    moreover have "size (left srcs) = Suc (size (left ?srcs'))" "(\<Sum>m \<in># left srcs. msg_room m) = msg_room ?m + (\<Sum>m \<in># left ?srcs'. msg_room m)"
      using lft by simp_all
    moreover have "unat (last_write_loc out') = unat (last_write_loc out) + msg_room ?m"
      using out'(8) by (simp add: msg_room_def)
    ultimately show ?thesis using ok out'(5) by (simp add: mix_ok_def)
  qed
  ultimately have "mix_ok ?srcs' out'" using out'(2) by (simp add: mix_ok_def)
  then show ?thesis using rd(1) [OF sr i] out'(1,4,7) ev lft by blast
qed


lemma mix_loop_Value:
  "mix_ok srcs out \<Longrightarrow> size (left srcs) = todo \<Longrightarrow>
   \<exists>srcs' out'. mix_loop todo srcs out = Value (srcs', out') \<and> midi_inv out' \<and>
     mset (midi_events out') = mset (midi_events out) + left srcs \<and> events_lost out' = events_lost out \<and>
     unat (event_count out') = unat (event_count out) + todo"
proof (induction todo arbitrary: srcs out)
  case 0
  then show ?case by (auto simp: mix_ok_def)
next
  case (Suc todo)
  have oks: "\<And>x. x \<in> set srcs \<Longrightarrow> source_ok x" using Suc.prems(1) by (simp add: mix_ok_def)
  obtain k t where f: "find_earliest srcs 0 None = Some (k, t)"
  proof (cases "find_earliest srcs 0 None")
    case None
    then have "\<forall>s \<in> set srcs. unread s = []" using find_earliest_result [of srcs, where k = 0 and best = None] oks by auto
    then have "left srcs = {#}" by (simp add: left_def)
    then show ?thesis using Suc.prems(2) by simp
  qed (use that in auto)
  let ?s = "srcs ! k"
  let ?i = "unat (last_write_loc ?s)"
  let ?srcs' = "srcs[k := ?s\<lparr>last_write_loc := last_write_loc ?s + 1\<rparr>]"
  obtain out1 where o: "load ?s (jack_midi_event_data ?s ?i) (unat (ev_size ?s ?i)) = Value (ev_bytes ?s ?i)"
    "jack_midi_event_write out (ucast (ev_time ?s ?i)) (ev_bytes ?s ?i) = Value (out1, 0)" "mix_ok ?srcs' out1"
    "midi_events out1 = midi_events out @ [(ev_time ?s ?i, ev_bytes ?s ?i)]"
    "left srcs = add_mset (ev_time ?s ?i, ev_bytes ?s ?i) (left ?srcs')" "event_count out1 = event_count out + 1"
    "events_lost out1 = events_lost out"
    using mix_step [OF Suc.prems(1) f] by blast
  have "size (left ?srcs') = todo" using o(5) Suc.prems(2) by simp
  from Suc.IH [OF o(3) this] obtain srcs2 out2 where
    "mix_loop todo ?srcs' out1 = Value (srcs2, out2)" "midi_inv out2" "mset (midi_events out2) = mset (midi_events out1) + left ?srcs'"
    "events_lost out2 = events_lost out1" "unat (event_count out2) = unat (event_count out1) + todo" by blast
  moreover have "unat (event_count out1) = Suc (unat (event_count out))"
    using o(6) midi_bounds(4) [of out] Suc.prems(1) by (simp add: mix_ok_def)
  ultimately show ?case using f o by (simp add: Let_def)
qed

lemma sum_counts:
  assumes "sum_list (map (\<lambda>s. unat (event_count s)) srcs) < 2 ^ 32"
  shows "unat (sum_list (map event_count srcs)) = sum_list (map (\<lambda>s. unat (event_count s)) srcs)"
  using assms
proof (induction srcs)
  case (Cons s srcs)
  then have "unat (sum_list (map event_count srcs)) = sum_list (map (\<lambda>s. unat (event_count s)) srcs)" by simp
  then show ?case using Cons.prems by (simp add: unat_add_no_wrap)
qed simp

definition all_messages :: "midi_buffer list \<Rightarrow> (u16 \<times> byte list) list" where
  "all_messages srcs = concat (map midi_events srcs)"

lemma length_all_messages: "length (all_messages srcs) = sum_list (map (\<lambda>s. unat (event_count s)) srcs)"
  by (induction srcs) (simp_all add: all_messages_def)

section \<open>A sequence of messages\<close>

text \<open>A port buffer that has room for the given messages, one after the other.\<close>

definition dst_ok :: "midi_buffer \<Rightarrow> (u16 \<times> byte list) list \<Rightarrow> bool" where
  "dst_ok dst evs \<longleftrightarrow> midi_inv dst \<and> sorted (map fst (midi_events dst @ evs)) \<and>
     (\<forall>e \<in> set evs. unat (fst e) < unat (mb_nframes dst) \<and> 0 < length (snd e) \<and> length (snd e) < 2 ^ 16) \<and>
     ev_addr (unat (event_count dst) + length evs) + unat (last_write_loc dst) + (\<Sum>e \<leftarrow> evs. msg_room e) + 1 \<le> unat (mb_size dst)"

lemma dst_step:
  assumes ok: "dst_ok dst ((t, d) # evs)"
  shows "\<exists>dst'. jack_midi_event_write dst (ucast t) d = Value (dst', 0) \<and> dst_ok dst' evs \<and>
    midi_events dst' = midi_events dst @ [(t, d)] \<and> events_lost dst' = events_lost dst"
proof -
  have inv: "midi_inv dst" and d: "0 < length d" "length d < 2 ^ 16" and tn: "(ucast t :: u32) < mb_nframes dst"
    and so: "sorted (map fst (midi_events dst @ (t, d) # evs))"
    using ok by (auto simp: dst_ok_def word_less_nat_alt unat_ucast_up)
  have room: "ev_addr (unat (event_count dst) + Suc (length evs)) + unat (last_write_loc dst) + msg_room (t, d) + (\<Sum>e \<leftarrow> evs. msg_room e) + 1 \<le> unat (mb_size dst)"
    using ok by (simp add: dst_ok_def)
  then have f: "midi_fits dst (length d)" by (auto simp: midi_fits_def msg_room_def data_start_def midi_consts split: if_splits)
  have late: "\<forall>i < unat (event_count dst). unat (ev_time dst i) \<le> unat (ucast t :: u32)"
    using so by (auto simp: midi_events_def unat_ucast_up word_le_nat_alt sorted_append)
  obtain dst' where o: "jack_midi_event_write dst (ucast t) d = Value (dst', 0)" "midi_inv dst'"
    "midi_events dst' = midi_events dst @ [(ucast (ucast t :: u32), d)]" "event_count dst' = event_count dst + 1"
    "mb_size dst' = mb_size dst" "mb_nframes dst' = mb_nframes dst" "events_lost dst' = events_lost dst"
    "unat (last_write_loc dst') = unat (last_write_loc dst) + (if length d \<le> MIDI_INLINE_MAX then 0 else length d)"
    using midi_write_ok [OF inv d f tn late] by blast
  have "ucast (ucast t :: u32) = t" using unat_lt [of t] by (simp add: word_unat_eq_iff unat_ucast_mod)
  then have ev: "midi_events dst' = midi_events dst @ [(t, d)]" using o(3) by simp
  have "unat (event_count dst') = Suc (unat (event_count dst))" using o(4) midi_bounds(4) [OF inv] by simp
  moreover have "unat (last_write_loc dst') = unat (last_write_loc dst) + msg_room (t, d)" using o(8) by (simp add: msg_room_def)
  ultimately have "dst_ok dst' evs" using ok o(2,5,6) room so unfolding dst_ok_def ev by auto
  then show ?thesis using o(1,7) ev by blast
qed

section \<open>The mix\<close>

text \<open>C29: mixing. If all sources are readable, their messages lie inside the period of the mix buffer,
  and the mix buffer has room for the headers of all of them, the data of the long ones and one spare
  byte, then mixing returns (the final assertion holds) and the mix buffer holds exactly the messages
  of the sources, ordered by time; the losses the sources had counted are added up.\<close>

theorem mixdown_complete:
  assumes "\<forall>s \<in> set srcs. midi_readable s"
    and "\<forall>m \<in> set (all_messages srcs). unat (fst m) < unat (mb_nframes mix)"
    and "midi_inv (jack_midi_clear_buffer mix)"
    and "ev_addr (length (all_messages srcs)) + (\<Sum>m \<leftarrow> all_messages srcs. msg_room m) + 1 \<le> unat (mb_size mix)"
  shows "\<exists>srcs' out. jack_midi_port_mixdown srcs mix = Value (srcs', out) \<and> midi_inv (out\<lparr>events_lost := 0\<rparr>) \<and>
    mset (midi_events out) = mset (all_messages srcs) \<and> sorted (map fst (midi_events out)) \<and>
    events_lost out = sum_list (map events_lost srcs)"
proof -
  let ?out = "jack_midi_clear_buffer mix" and ?srcs = "map (\<lambda>s. s\<lparr>last_write_loc := 0\<rparr>) srcs"
  have lft: "left ?srcs = mset (all_messages srcs)" by (simp add: left_def all_messages_def unread_def comp_def)
  have len16: "length (snd m) < 2 ^ 16" if "m \<in> set (all_messages srcs)" for m
    using that ev_bytes_length16 by (auto simp: all_messages_def midi_events_def)
  have sum: "(\<Sum>m \<in># mset (all_messages srcs). msg_room m) = (\<Sum>m \<leftarrow> all_messages srcs. msg_room m)"
    by (metis mset_map sum_mset_sum_list)
  have ok: "mix_ok ?srcs ?out"
    unfolding mix_ok_def lft sum using assms len16
    by (auto simp: source_ok_def jack_midi_clear_buffer_def midi_events_def)
  have "ev_addr (length (all_messages srcs)) < 2 ^ 31"
    using assms(3,4) by (simp add: midi_inv_def midi_shape_def jack_midi_clear_buffer_def)
  then have small: "length (all_messages srcs) < 2 ^ 32" by (simp add: midi_consts)
  have n: "unat (sum_list (map event_count srcs)) = length (all_messages srcs)"
    using sum_counts [of srcs] small by (simp add: length_all_messages)
  obtain srcs' out' where r: "mix_loop (length (all_messages srcs)) ?srcs ?out = Value (srcs', out')" "midi_inv out'"
    "mset (midi_events out') = mset (midi_events ?out) + left ?srcs" "events_lost out' = events_lost ?out"
    "unat (event_count out') = unat (event_count ?out) + length (all_messages srcs)"
    using mix_loop_Value [OF ok] lft by auto
  have z: "events_lost ?out = 0" "midi_events ?out = []" "event_count ?out = 0"
    by (simp_all add: jack_midi_clear_buffer_def midi_events_def)
  have "event_count out' = sum_list (map event_count srcs)" using n r(5) z by (simp add: word_unat_eq_iff)
  then have v: "jack_midi_port_mixdown srcs mix = Value (srcs', out'\<lparr>events_lost := sum_list (map events_lost srcs)\<rparr>)"
    using r(1,4) z n by (simp add: jack_midi_port_mixdown_def Let_def)
  have "sorted (map fst (midi_events out'))" using r(2) by (simp add: midi_inv_def midi_shape_def)
  then show ?thesis using v r(2,3) z lft by simp
qed

theorem mixdown_complete_witness:
  "\<exists>s srcs' out. jack_midi_event_write demo_midi 10 [0x90, 60, 100] = Value (s, 0) \<and>
     jack_midi_port_mixdown [s, s] demo_midi = Value (srcs', out) \<and>
     mset (midi_events out) = {#(10, [0x90, 60, 100]), (10, [0x90, 60, 100])#}"
proof -
  have "midi_fits demo_midi (Suc (Suc (Suc 0)))" by (simp add: midi_fits_def demo_midi_fields midi_consts data_start_def)
  then obtain s where s: "jack_midi_event_write demo_midi 10 [0x90, 60, 100] = Value (s, 0)" "midi_inv s"
    "midi_events s = midi_events demo_midi @ [(10, [0x90, 60, 100])]"
    using midi_write_ok [OF demo_midi_inv, of "[0x90, 60, 100]" 10] by (auto simp: demo_midi_fields)
  have e: "midi_events demo_midi = []" by (simp add: midi_events_def demo_midi_fields)
  have c: "jack_midi_clear_buffer demo_midi = demo_midi" by (simp add: jack_midi_clear_buffer_def demo_midi_def jack_midi_buffer_init_def)
  show ?thesis
    using mixdown_complete [of "[s, s]" demo_midi] midi_inv_readable [OF s(2)] demo_midi_inv s e c
    by (auto simp: all_messages_def demo_midi_fields midi_consts msg_room_def)
qed

end
