(* ===== verification/Client_Engine.thy ===== *)
theory Client_Engine
  imports Ports Transport
begin

text \<open>
  Client creation and destruction, \<open>server/clientengine.c\<close>. Memory that \<open>malloc\<close> or the shared
  memory layer returns is a parameter (\<open>junk\<close>): the code does not initialise all of it. So are the
  answers of the dynamic linker, of the shared memory layer and of the sockets, and the
  \<open>initialize\<close> and \<open>finish\<close> functions of an internal client.
\<close>

section \<open>Taking a client out of the graph\<close>

fun disconnect_each :: "jack_engine_t \<Rightarrow> pidx list \<Rightarrow> jack_engine_t c_result" where
  "disconnect_each e [] = Value e"
| "disconnect_each e (p # ps) =
     c_bind (jack_port_clear_connections e p)
       (\<lambda>e1. disconnect_each (jack_port_release (jack_port_registration_notify e1 p False) p) ps)"

definition jack_client_disconnect_ports :: "jack_engine_t \<Rightarrow> cptr \<Rightarrow> jack_engine_t c_result" where
  "jack_client_disconnect_ports e c =
     c_map (upd_client c (\<lambda>r. r\<lparr>truefeeds := [], sortfeeds := [], cl_ports := []\<rparr>))
       (disconnect_each e (cl_ports (cmem e c)))"

definition jack_client_do_deactivate :: "jack_engine_t \<Rightarrow> cptr \<Rightarrow> bool \<Rightarrow> jack_engine_t c_result" where
  "jack_client_do_deactivate e c sort_graph =
     c_bind (jack_transport_client_exit (upd_client c (\<lambda>r. r\<lparr>active := False\<rparr>) e) c) (\<lambda>e1.
       let e2 = (if \<not> jack_client_is_internal (cmem e1 c) \<and> 0 < external_client_cnt e1
                 then e1\<lparr>external_client_cnt := external_client_cnt e1 - 1\<rparr> else e1)
       in if sort_graph then jack_sort_graph e2 else Value e2)"

definition jack_zombify_client :: "jack_engine_t \<Rightarrow> cptr \<Rightarrow> jack_engine_t c_result" where
  "jack_zombify_client e c =
     c_bind (jack_client_disconnect_ports (upd_client c (\<lambda>r. r\<lparr>dead := True\<rparr>) e) c)
       (\<lambda>e1. jack_client_do_deactivate e1 c False)"

definition jack_client_delete :: "jack_engine_t \<Rightarrow> cptr \<Rightarrow> jack_engine_t" where
  "jack_client_delete e c = jack_client_registration_notify e (cl_name (cmem e c)) False"

fun remove_by_id :: "(cptr \<Rightarrow> jack_client_internal_t) \<Rightarrow> u32 \<Rightarrow> cptr list \<Rightarrow> cptr list" where
  "remove_by_id m i [] = []"
| "remove_by_id m i (c # cs) = (if cl_id (m c) = i then cs else c # remove_by_id m i cs)"

definition jack_client_unload :: "(jack_engine_t \<Rightarrow> jack_engine_t) \<Rightarrow> jack_engine_t \<Rightarrow> cptr \<Rightarrow> jack_engine_t" where
  "jack_client_unload finish e c = (if handle (cmem e c) then finish e else e)"

definition answer_session :: "jack_engine_t \<Rightarrow> cptr \<Rightarrow> jack_engine_t" where
  "answer_session e c =
     (if session_reply_pending (cmem e c) then
        (let e1 = e\<lparr>session_pending_replies := session_pending_replies e - 1\<rparr>
         in if session_pending_replies e1 = 0 then e1\<lparr>session_reply_fd := -1\<rparr> else e1)
      else e)"

text \<open>
  A temporary server ends when the last client but the driver leaves: \<open>shut_down\<close> says that it
  has called \<open>exit\<close> or has told the waiting process to stop it.
\<close>

definition shut_down_if_last :: "jack_engine_t \<Rightarrow> jack_engine_t" where
  "shut_down_if_last e =
     (if temporary e \<and> jack_slist_length (clients e) \<le> 1 then
        (if 0 \<le> wait_pid e then e\<lparr>new_clients_allowed := False, shut_down := True\<rparr>
         else e\<lparr>shut_down := True\<rparr>)
      else e)"

definition jack_remove_client :: "(jack_engine_t \<Rightarrow> jack_engine_t) \<Rightarrow> jack_engine_t \<Rightarrow> cptr \<Rightarrow> jack_engine_t c_result" where
  "jack_remove_client finish e c =
     (let e0 = (if cl_type (cmem e c) = ClientInternal then jack_client_unload finish e c else e) in
      c_map (\<lambda>e1.
          let e2 = answer_session e1 c;
              e3 = e2\<lparr>clients := remove_by_id (cmem e2) (cl_id (cmem e2 c)) (clients e2)\<rparr>
          in shut_down_if_last (jack_client_delete e3 c))
        (if dead (cmem e0 c) then Value e0 else jack_zombify_client e0 c))"

section \<open>Failed clients\<close>

text \<open>
  \<open>finished c\<close> is what \<open>finished_at\<close> holds after the grace time given to client \<open>c\<close>, 0 when it did
  not finish.
\<close>

fun check_each :: "(cptr \<Rightarrow> u64) \<Rightarrow> bool \<Rightarrow> jack_engine_t \<Rightarrow> cptr list \<Rightarrow> nat \<Rightarrow> jack_engine_t \<times> nat" where
  "check_each finished with_timeout_check e [] errs = (e, errs)"
| "check_each finished with_timeout_check e (c # cs) errs =
     (let cl = cmem e c in
      if cl_error cl \<noteq> 0 then check_each finished with_timeout_check e cs (Suc errs)
      else if with_timeout_check \<and> 0 < awake_at cl \<and> finished_at cl = 0 then
        (let e1 = upd_client c (\<lambda>r. r\<lparr>finished_at := finished c\<rparr>) e in
         if finished c = 0
         then check_each finished with_timeout_check
                (upd_client c (\<lambda>r. r\<lparr>timed_out := Suc (timed_out r), cl_error := cl_error r + 1\<rparr>) e1) cs (Suc errs)
         else check_each finished with_timeout_check (e1\<lparr>timeout_count := timeout_count e1 + 1\<rparr>) cs errs)
      else check_each finished with_timeout_check e cs errs)"

definition jack_check_clients :: "(cptr \<Rightarrow> u64) \<Rightarrow> jack_engine_t \<Rightarrow> bool \<Rightarrow> jack_engine_t \<times> nat" where
  "jack_check_clients finished e with_timeout_check =
     (case check_each finished with_timeout_check e (clients e) 0 of
        (e1, errs) \<Rightarrow> (if errs \<noteq> 0 then jack_engine_signal_problems e1 else e1, errs))"

fun next_in :: "cptr list \<Rightarrow> cptr \<Rightarrow> cptr option" where
  "next_in [] c = None"
| "next_in (x # xs) c = (if x = c then (case xs of [] \<Rightarrow> None | y # _ \<Rightarrow> Some y) else next_in xs c)"

text \<open>
  The loop of \<open>jack_remove_clients\<close>. It walks along the nodes of the client list, while removing
  or zombifying a client sorts that list, which relinks the nodes: the node after \<open>tmp\<close> is the one
  that follows it in the list as it is when \<open>tmp\<close> is reached. The first argument bounds the number
  of rounds.
\<close>

fun remove_loop :: "nat \<Rightarrow> (jack_engine_t \<Rightarrow> jack_engine_t) \<Rightarrow> jack_engine_t \<Rightarrow> cptr option \<Rightarrow> bool \<Rightarrow> bool \<Rightarrow>
    (jack_engine_t \<times> bool \<times> bool) c_result" where
  "remove_loop fuel finish e None need_sort exit_fw = Value (e, need_sort, exit_fw)"
| "remove_loop 0 finish e (Some c) need_sort exit_fw = Undefined"
| "remove_loop (Suc fuel) finish e (Some c) need_sort exit_fw =
     (let tmp = next_in (clients e) c; cl = cmem e c in
      if cl_error cl \<noteq> 0 then
        c_bind (if JACK_ERROR_WITH_SOCKETS \<le> cl_error cl then jack_remove_client finish e c
                else if \<not> nozombies e
                then c_map (upd_client c (\<lambda>r. r\<lparr>cl_error := 0\<rparr>)) (jack_zombify_client e c)
                else Value e)
          (\<lambda>e1. remove_loop fuel finish e1 tmp True (exit_fw \<or> (freewheeling e \<and> cl_id cl = fwclient e)))
      else remove_loop fuel finish e tmp need_sort exit_fw)"

definition remove_rounds :: "jack_engine_t \<Rightarrow> nat" where
  "remove_rounds e = (3 * length (clients e) + 1) * (length (clients e) + 1)"

definition jack_remove_clients :: "(jack_engine_t \<Rightarrow> jack_engine_t) \<Rightarrow> jack_engine_t \<Rightarrow> (jack_engine_t \<times> bool) c_result" where
  "jack_remove_clients finish e =
     c_bind (remove_loop (remove_rounds e) finish e (case clients e of [] \<Rightarrow> None | c # _ \<Rightarrow> Some c) False False)
       (\<lambda>(e1, need_sort, exit_fw).
          c_map (\<lambda>e2. (e2, exit_fw)) (if need_sort then jack_sort_graph e1 else Value e1))"

section \<open>Client names\<close>

fun named_search :: "(cptr \<Rightarrow> jack_client_internal_t) \<Rightarrow> cptr list \<Rightarrow> string \<Rightarrow> cptr option" where
  "named_search m [] name = None"
| "named_search m (c # cs) name = (if cl_name (m c) = name then Some c else named_search m cs name)"

definition jack_client_by_name :: "jack_engine_t \<Rightarrow> string \<Rightarrow> cptr option" where
  "jack_client_by_name e name = named_search (cmem e) (clients e) name"

definition jack_client_id_by_name :: "jack_engine_t \<Rightarrow> string \<Rightarrow> u32" where
  "jack_client_id_by_name e name =
     (case named_search (cmem e) (clients e) name of None \<Rightarrow> 0 | Some c \<Rightarrow> cl_id (cmem e c))"

definition jack_client_name_reserved :: "jack_engine_t \<Rightarrow> string \<Rightarrow> bool" where
  "jack_client_name_reserved e name \<longleftrightarrow> list_ex (\<lambda>r. snd r = name) (reserved_client_names e)"

definition name_taken :: "jack_engine_t \<Rightarrow> string \<Rightarrow> bool" where
  "name_taken e name \<longleftrightarrow> jack_client_by_name e name \<noteq> None \<or> jack_client_name_reserved e name"

definition numbered_name :: "string \<Rightarrow> nat \<Rightarrow> nat \<Rightarrow> string" where
  "numbered_name name tens ones = name @ [CHR ''-'', char_of (48 + tens), char_of (48 + ones)]"

text \<open>
  The loop that tries \<open>-01\<close> to \<open>-99\<close>; \<open>None\<close> is the failure of the code. It makes at most 99
  rounds, which bounds the first argument.
\<close>

fun unique_loop :: "nat \<Rightarrow> jack_engine_t \<Rightarrow> string \<Rightarrow> nat \<Rightarrow> nat \<Rightarrow> string option" where
  "unique_loop 0 e name tens ones = None"
| "unique_loop (Suc n) e name tens ones =
     (if name_taken e (numbered_name name tens ones) then
        (if ones = 9 then (if tens = 9 then None else unique_loop n e name (Suc tens) 0)
         else unique_loop n e name tens (Suc ones))
      else Some (numbered_name name tens ones))"

definition jack_generate_unique_name :: "jack_engine_t \<Rightarrow> string \<Rightarrow> string option" where
  "jack_generate_unique_name e name =
     (if JACK_CLIENT_NAME_SIZE - 4 < length name then None else unique_loop 99 e name 0 1)"

definition JackFailure :: u32 where "JackFailure = 0x01"
definition JackNameNotUnique :: u32 where "JackNameNotUnique = 0x04"
definition JackNoSuchClient :: u32 where "JackNoSuchClient = 0x40"
definition JackLoadFailure :: u32 where "JackLoadFailure = 0x80"
definition JackInitFailure :: u32 where "JackInitFailure = 0x100"
definition JackVersionError :: u32 where "JackVersionError = 0x400"
definition JackUseExactName :: u32 where "JackUseExactName = 0x02"

text \<open>The name is changed in place: the result is the status and the name to use, if any.\<close>

definition jack_client_name_invalid :: "jack_engine_t \<Rightarrow> string \<Rightarrow> u32 \<Rightarrow> u32 \<Rightarrow> u32 \<times> string option" where
  "jack_client_name_invalid e name options status =
     (if name_taken e name then
        (let status1 = status OR JackNameNotUnique in
         if flag_set options JackUseExactName then (status1 OR JackFailure, None)
         else case jack_generate_unique_name e name of
           None \<Rightarrow> (status1 OR JackFailure, None)
         | Some name' \<Rightarrow> (status1, Some name'))
      else (status, Some name))"

section \<open>Creating a client\<close>

definition UINT_MAX :: nat where "UINT_MAX = 4294967295"

text \<open>The fields that \<open>jack_setup_client_control\<close> writes; the others keep what the memory held.\<close>

definition init_client :: "jack_client_internal_t \<Rightarrow> int \<Rightarrow> ClientType \<Rightarrow> string \<Rightarrow> u32 \<Rightarrow> u32 \<Rightarrow> jack_client_internal_t" where
  "init_client junk fd type name ident uuid =
     jack_transport_client_new (junk\<lparr>request_fd := fd, event_fd := -1, cl_ports := [], truefeeds := [], sortfeeds := [],
       execution_order := UINT_MAX, next_client := None, handle := False, cl_error := 0,
       cl_type := type, active := False, dead := False, timed_out := 0, cl_id := ident, cl_uid := uuid, cl_name := name,
       subgraph_start_fd := -1, subgraph_wait_fd := -1, session_reply_pending := False, process_cbset := False,
       port_register_cbset := False, port_connect_cbset := False, client_register_cbset := False, thread_cb_cbset := False, session_cbset := False\<rparr>)"

definition jack_setup_client_control ::
  "bool \<Rightarrow> jack_client_internal_t \<Rightarrow> jack_engine_t \<Rightarrow> int \<Rightarrow> ClientType \<Rightarrow> string \<Rightarrow> u32 \<Rightarrow> (jack_engine_t \<times> cptr) option" where
  "jack_setup_client_control shm_ok junk e fd type name uuid =
     (if type = ClientExternal \<and> \<not> shm_ok then None
      else
        (let c = next_cptr e in
         Some (e\<lparr>cmem := (cmem e)(c := init_client junk fd type name (next_client_id e) uuid),
                 next_cptr := Suc c, next_client_id := next_client_id e + 1\<rparr>, c)))"

definition jack_ensure_uuid_unique :: "jack_engine_t \<Rightarrow> u32 \<Rightarrow> jack_engine_t" where
  "jack_ensure_uuid_unique e uuid =
     e\<lparr>cmem := (\<lambda>c. if c \<in> set (clients e) \<and> cl_uid (cmem e c) = uuid then (cmem e c)\<lparr>cl_uid := 0\<rparr> else cmem e c)\<rparr>"

text \<open>What the outside answers while a client is set up.\<close>

record client_world =
  w_shm_ok :: bool
  w_junk :: jack_client_internal_t
  w_load_ok :: bool
  w_initialize :: "jack_engine_t \<Rightarrow> jack_engine_t \<times> int"
  w_finish :: "jack_engine_t \<Rightarrow> jack_engine_t"

text \<open>
  Up to the point where the client is on the list. When an internal client cannot be loaded, the
  code frees \<open>private_client\<close>, a pointer it has not set yet.
\<close>

definition setup_client_add ::
  "client_world \<Rightarrow> jack_engine_t \<Rightarrow> ClientType \<Rightarrow> string \<Rightarrow> u32 \<Rightarrow> u32 \<Rightarrow> int \<Rightarrow> (jack_engine_t \<times> u32 \<times> cptr option) c_result" where
  "setup_client_add w e type name uuid options client_fd =
     (case jack_client_name_invalid e name options 0 of
        (status, None) \<Rightarrow> Value (e, status, None)
      | (status, Some name') \<Rightarrow>
          (let e1 = (if uuid \<noteq> 0 then jack_ensure_uuid_unique e uuid else e) in
           case jack_setup_client_control (w_shm_ok w) (w_junk w) e1 client_fd type name' uuid of
             None \<Rightarrow> Value (e1, status OR JackFailure OR JackInitFailure, None)
           | Some (e2, c) \<Rightarrow>
               if type = ClientInternal \<and> \<not> w_load_ok w then Undefined
               else
                 (let e3 = (if type = ClientInternal then upd_client c (\<lambda>r. r\<lparr>handle := True\<rparr>) e2 else e2)
                  in Value (e3\<lparr>clients := jack_slist_prepend (clients e3) c\<rparr>, status, Some c))))"

definition setup_client ::
  "client_world \<Rightarrow> jack_engine_t \<Rightarrow> ClientType \<Rightarrow> string \<Rightarrow> u32 \<Rightarrow> u32 \<Rightarrow> int \<Rightarrow> (jack_engine_t \<times> u32 \<times> cptr option) c_result" where
  "setup_client w e type name uuid options client_fd =
     c_bind (setup_client_add w e type name uuid options client_fd) (\<lambda>(e1, status, client).
       case client of
         None \<Rightarrow> Value (e1, status, None)
       | Some c \<Rightarrow>
           if type = ClientInternal then
             (case w_initialize w e1 of
                (e2, failed) \<Rightarrow>
                  if failed \<noteq> 0
                  then c_map (\<lambda>e3. (e3, status OR JackFailure OR JackInitFailure, None))
                         (jack_remove_client (w_finish w) e2 c)
                  else Value (e2, status, Some c))
           else Value (e1, status, Some c))"

definition jack_create_driver_client :: "client_world \<Rightarrow> jack_engine_t \<Rightarrow> string \<Rightarrow> (jack_engine_t \<times> u32 \<times> cptr option) c_result" where
  "jack_create_driver_client w e name = setup_client w e ClientDriver name 0 JackUseExactName (-1)"

definition handle_unload_client :: "client_world \<Rightarrow> jack_engine_t \<Rightarrow> u32 \<Rightarrow> (jack_engine_t \<times> u32) c_result" where
  "handle_unload_client w e ident =
     (case jack_client_internal_by_id e ident of
        None \<Rightarrow> Value (e, JackNoSuchClient OR JackFailure)
      | Some c \<Rightarrow> c_map (\<lambda>e1. (e1, 0)) (jack_remove_client (w_finish w) e c))"

definition jack_get_reserved_name :: "jack_engine_t \<Rightarrow> u32 \<Rightarrow> jack_engine_t \<times> string option" where
  "jack_get_reserved_name e uuid =
     (case find (\<lambda>r. fst r = uuid) (reserved_client_names e) of
        None \<Rightarrow> (e, None)
      | Some r \<Rightarrow> (e\<lparr>reserved_client_names := jack_slist_remove (reserved_client_names e) r\<rparr>, Some (snd r)))"

text \<open>A connection request as read from the socket.\<close>

record connect_request =
  cr_load :: bool
  cr_type :: ClientType
  cr_options :: u32
  cr_uuid :: u32
  cr_name :: string

datatype connect_read = ReadEof | ReadMismatch | ReadRequest connect_request

text \<open>\<open>reply_ok\<close>: whether the answer could be written to the client's socket.\<close>

definition jack_client_create :: "client_world \<Rightarrow> bool \<Rightarrow> jack_engine_t \<Rightarrow> int \<Rightarrow> connect_read \<Rightarrow> (jack_engine_t \<times> int) c_result" where
  "jack_client_create w reply_ok e client_fd rd =
     (case rd of
        ReadEof \<Rightarrow> Value (e, -1)
      | ReadMismatch \<Rightarrow> Value (e, -1)
      | ReadRequest req \<Rightarrow>
          if \<not> cr_load req then
            (let ident = jack_client_id_by_name e (cr_name req) in
             if ident \<noteq> 0 then c_map (\<lambda>(e1, st). (e1, int (unat st))) (handle_unload_client w e ident)
             else Value (e, -1))
          else
            (let (e1, name) = (if cr_uuid req \<noteq> 0 then
                   (case jack_get_reserved_name e (cr_uuid req) of
                      (e', Some n) \<Rightarrow> (e', take (JACK_CLIENT_NAME_SIZE - 1) n)
                    | (e', None) \<Rightarrow> (e', cr_name req))
                 else (e, cr_name req))
             in c_bind (setup_client w e1 (cr_type req) name (cr_uuid req) (cr_options req) client_fd)
               (\<lambda>(e2, status, client).
                  case client of
                    None \<Rightarrow> Value (e2, -1)
                  | Some c \<Rightarrow>
                      if \<not> reply_ok
                      then c_map (\<lambda>e3. (e3, -1))
                             (jack_remove_client (w_finish w) (upd_client c (\<lambda>r. r\<lparr>dead := True\<rparr>) e2) c)
                      else Value (jack_client_registration_notify e2 (cl_name (cmem e2 c)) True, 0))))"

section \<open>Activation\<close>

definition jack_client_activate :: "jack_engine_t \<Rightarrow> u32 \<Rightarrow> (jack_engine_t \<times> int) c_result" where
  "jack_client_activate e ident =
     (case jack_client_internal_by_id e ident of
        None \<Rightarrow> Value (e, -1)
      | Some c \<Rightarrow>
          c_bind (jack_transport_activate (upd_client c (\<lambda>r. r\<lparr>active := True\<rparr>) e) c) (\<lambda>e1.
          c_map (\<lambda>e2.
              let e3 = fold (\<lambda>i e. fst (jack_deliver_event e c (AttachPortSegment i))) [0..<length (port_types (control e2))] e2;
                  e4 = fst (jack_deliver_event e3 c BufferSizeChange);
                  e5 = fold (\<lambda>p e. jack_port_registration_notify e p True) (cl_ports (cmem e4 c)) e4
              in (e5, 0))
            (jack_sort_graph (e1\<lparr>external_client_cnt := Suc (external_client_cnt e1)\<rparr>))))"

fun clear_ports :: "jack_engine_t \<Rightarrow> pidx list \<Rightarrow> jack_engine_t c_result" where
  "clear_ports e [] = Value e"
| "clear_ports e (p # ps) = c_bind (jack_port_clear_connections e p) (\<lambda>e1. clear_ports e1 ps)"

definition jack_client_deactivate :: "jack_engine_t \<Rightarrow> u32 \<Rightarrow> (jack_engine_t \<times> int) c_result" where
  "jack_client_deactivate e ident =
     (case jack_client_internal_by_id e ident of
        None \<Rightarrow> Value (e, -1)
      | Some c \<Rightarrow> c_bind (clear_ports e (cl_ports (cmem e c)))
                   (\<lambda>e1. c_map (\<lambda>e2. (e2, 0)) (jack_client_do_deactivate e1 c True)))"

definition jack_mark_client_socket_error :: "jack_engine_t \<Rightarrow> int \<Rightarrow> jack_engine_t" where
  "jack_mark_client_socket_error e fd =
     (case find (\<lambda>c. \<not> jack_client_is_internal (cmem e c) \<and> request_fd (cmem e c) = fd) (clients e) of
        None \<Rightarrow> e
      | Some c \<Rightarrow> upd_client c (\<lambda>r. r\<lparr>cl_error := cl_error r + JACK_ERROR_WITH_SOCKETS\<rparr>) e)"

section \<open>Requests about internal clients\<close>

definition jack_intclient_handle_request :: "jack_engine_t \<Rightarrow> string \<Rightarrow> u32 \<times> u32 option" where
  "jack_intclient_handle_request e name =
     (case jack_client_by_name e name of
        Some c \<Rightarrow> (0, Some (cl_id (cmem e c)))
      | None \<Rightarrow> (JackNoSuchClient OR JackFailure, None))"

definition jack_intclient_load_request :: "client_world \<Rightarrow> jack_engine_t \<Rightarrow> string \<Rightarrow> u32 \<Rightarrow> (jack_engine_t \<times> u32 \<times> u32) c_result" where
  "jack_intclient_load_request w e name options =
     c_map (\<lambda>(e1, status, client).
         case client of
           None \<Rightarrow> (e1, status OR JackFailure, 0)
         | Some c \<Rightarrow> (e1, status, cl_id (cmem e1 c)))
       (setup_client w e ClientInternal name 0 options (-1))"

definition jack_intclient_name_request :: "jack_engine_t \<Rightarrow> u32 \<Rightarrow> u32 \<times> string option" where
  "jack_intclient_name_request e ident =
     (case jack_client_internal_by_id e ident of
        Some c \<Rightarrow> (0, Some (cl_name (cmem e c)))
      | None \<Rightarrow> (JackNoSuchClient OR JackFailure, None))"

definition jack_intclient_unload_request :: "client_world \<Rightarrow> jack_engine_t \<Rightarrow> u32 \<Rightarrow> (jack_engine_t \<times> u32) c_result" where
  "jack_intclient_unload_request w e ident =
     (if ident \<noteq> 0 then handle_unload_client w e ident else Value (e, JackFailure))"

end
