(* ===== verification/Client_Graph.thy ===== *)
theory Client_Graph
  imports Port_Properties Client_Engine
begin

text \<open>
  The graph when clients come and go. A client all of whose ports are free takes no part in any
  connection: it can be added to the list, taken off, or lose its port list, and the invariant of
  the graph stays.
\<close>

section \<open>Changing the set of clients\<close>

definition idle_client :: "gcore \<Rightarrow> cptr \<Rightarrow> bool" where
  "idle_client g c \<longleftrightarrow> g_owned g c = [] \<and> g_sort g c = [] \<and> g_true g c = [] \<and>
     (if g_type g c = ClientDriver then g_fed g c \<le> 0 else g_fed g c = 0) \<and>
     (\<forall>p < length (g_ports g). gp_used (g_ports g ! p) \<longrightarrow> gp_owner (g_ports g ! p) \<noteq> g_id g c)"

definition same_client :: "gcore \<Rightarrow> gcore \<Rightarrow> cptr \<Rightarrow> bool" where
  "same_client g g' c \<longleftrightarrow> g_sort g' c = g_sort g c \<and> g_true g' c = g_true g c \<and> g_fed g' c = g_fed g c \<and>
     g_type g' c = g_type g c \<and> g_id g' c = g_id g c \<and> g_owned g' c = g_owned g c"

definition same_wires :: "gcore \<Rightarrow> gcore \<Rightarrow> bool" where
  "same_wires g g' \<longleftrightarrow> g_ports g' = g_ports g \<and> g_conns g' = g_conns g \<and> g_next g' = g_next g \<and>
     g_driver g' = g_driver g \<and> g_feedback g' = g_feedback g"

lemma ginv_change_clients:
  assumes g: "ginv g" and w: "same_wires g g'"
    and K: "K \<subseteq> g_clients g" "K \<subseteq> g_clients g'" "finite (g_clients g')"
    and same: "\<And>c. c \<in> K \<Longrightarrow> same_client g g' c"
    and ends: "\<And>k. k \<in> live g \<Longrightarrow> srcclient (g_conns g k) \<in> K \<and> dstclient (g_conns g k) \<in> K"
    and inj: "inj_on (g_id g') (g_clients g')"
    and new: "\<And>c. c \<in> g_clients g' - K \<Longrightarrow> idle_client g' c"
  shows "ginv g'"
proof -
  have b: "gbooks g" using g by (simp add: ginv_def)
  have eq: "g_ports g' = g_ports g" "g_conns g' = g_conns g" "g_next g' = g_next g" "g_driver g' = g_driver g"
    "g_feedback g' = g_feedback g" using w by (auto simp: same_wires_def)
  have lv: "live g' = live g" by (simp add: live_def eq)
  have te: "true_edge (g_type g') (g_conns g k) = true_edge (g_type g) (g_conns g k)" if "k \<in> live g" for k
    using ends [OF that] same by (simp add: true_edge_def same_client_def)
  have se: "sort_edge (g_type g') (g_conns g k) = sort_edge (g_type g) (g_conns g k)" if "k \<in> live g" for k
    using te [OF that] by (simp add: sort_edge_def)
  have ec: "edge_conns g' (\<lambda>con. Q (true_edge (g_type g') con)) = edge_conns g (\<lambda>con. Q (true_edge (g_type g) con))"
    "edge_conns g' (\<lambda>con. Q (sort_edge (g_type g') con)) = edge_conns g (\<lambda>con. Q (sort_edge (g_type g) con))" for Q
    using te se by (auto simp: edge_conns_def lv eq)
  have none: "edge_conns g (\<lambda>con. true_edge (g_type g) con = Some (a, d)) = {}"
    "edge_conns g (\<lambda>con. sort_edge (g_type g) con = Some (a, d)) = {}"
    "edge_conns g (\<lambda>con. \<exists>x. true_edge (g_type g) con = Some (x, a)) = {}" if "a \<notin> K" for a d
    using ends that by (auto simp: edge_conns_def sort_edge_Some true_edge_Some split: if_splits)
  have used: "p \<in> set (g_owned g' c)"
    if "p < length (g_ports g)" "gp_used (g_ports g ! p)" "c \<in> g_clients g'" "gp_owner (g_ports g ! p) = g_id g' c" for p c
  proof (cases "c \<in> K")
    case True
    then show ?thesis using b that same [OF True] K(1) by (auto simp: gbooks_def ports_ok_def same_client_def)
  next
    case False
    then show ?thesis using new [of c] that by (auto simp: idle_client_def eq)
  qed
  have "ports_ok g'" using b used unfolding gbooks_def ports_ok_def eq by blast
  moreover have "conn_ok g' k" if k: "k \<in> live g" for k
  proof -
    have "conn_ok g k" using b k by (simp add: gbooks_def)
    moreover note ends [OF k] same [of "srcclient (g_conns g k)"] same [of "dstclient (g_conns g k)"] te [OF k]
    ultimately show ?thesis using K(2) by (auto simp: conn_ok_def link_ok_def Let_def eq same_client_def)
  qed
  moreover have "\<forall>c \<in> g_clients g'. \<forall>p \<in> set (g_owned g' c). p < length (g_ports g)"
  proof
    fix c assume c: "c \<in> g_clients g'"
    show "\<forall>p \<in> set (g_owned g' c). p < length (g_ports g)"
      using b c same [of c] new [of c] K(1) by (cases "c \<in> K") (auto simp: gbooks_def same_client_def idle_client_def)
  qed
  moreover have "counts_ok g'"
    unfolding counts_ok_def
  proof (intro conjI ballI allI)
    fix a d assume a: "a \<in> g_clients g'"
    show "count (mset (g_sort g' a)) d = card (edge_conns g' (\<lambda>con. sort_edge (g_type g') con = Some (a, d)))"
      using b a same [of a] new [of a] K(1) ec(2) [of "\<lambda>x. x = Some (a, d)"] none(2) [of a d]
      by (cases "a \<in> K") (auto simp: gbooks_def counts_ok_def same_client_def idle_client_def)
    show "count (mset (g_true g' a)) d = card (edge_conns g' (\<lambda>con. true_edge (g_type g') con = Some (a, d)))"
      using b a same [of a] new [of a] K(1) ec(1) [of "\<lambda>x. x = Some (a, d)"] none(1) [of a d]
      by (cases "a \<in> K") (auto simp: gbooks_def counts_ok_def same_client_def idle_client_def)
  next
    fix a assume a: "a \<in> g_clients g'"
    show "if g_type g' a = ClientDriver then g_fed g' a \<le> 0
      else g_fed g' a = int (card (edge_conns g' (\<lambda>con. \<exists>x. true_edge (g_type g') con = Some (x, a))))"
    proof (cases "a \<in> K")
      case True
      then have "if g_type g a = ClientDriver then g_fed g a \<le> 0
        else g_fed g a = int (card (edge_conns g (\<lambda>con. \<exists>x. true_edge (g_type g) con = Some (x, a))))"
        using b K(1) by (auto simp: gbooks_def counts_ok_def)
      then show ?thesis using same [OF True] ec(1) [of "\<lambda>y. \<exists>x. y = Some (x, a)"] by (simp add: same_client_def)
    next
      case False
      then show ?thesis using a new [of a] none(3) [OF False] ec(1) [of "\<lambda>y. \<exists>x. y = Some (x, a)"]
        by (simp add: idle_client_def)
    qed
  qed
  ultimately have "gbooks g'" using b K(3) inj by (simp add: gbooks_def lv eq single_connections_def)
  moreover have "edges_on (g_clients g') (g_sort g') \<subseteq> edges_on (g_clients g) (g_sort g)"
  proof
    fix x assume "x \<in> edges_on (g_clients g') (g_sort g')"
    then obtain a d where x: "x = (a, d)" "a \<in> g_clients g'" "d \<in> set (g_sort g' a)" by (auto simp: edges_on_def)
    then show "x \<in> edges_on (g_clients g) (g_sort g)"
      using same [of a] new [of a] K(1) by (cases "a \<in> K") (auto simp: edges_on_def same_client_def idle_client_def)
  qed
  then have "acyclic (edges_on (g_clients g') (g_sort g'))"
    using g acyclic_subset by (auto simp: ginv_def)
  moreover have "edge_conns g' (\<lambda>con. dir con = -1) = edge_conns g (\<lambda>con. dir con = -1)"
    by (simp add: edge_conns_def lv eq)
  ultimately show ?thesis using g eq by (simp add: ginv_def)
qed

text \<open>A client none of whose ports is in use is at no end of a connection and has empty feeds lists.\<close>

lemma portless_client:
  assumes g: "gbooks g" and c: "c \<in> g_clients g"
    and free: "\<And>p. p < length (g_ports g) \<Longrightarrow> gp_used (g_ports g ! p) \<Longrightarrow> gp_owner (g_ports g ! p) \<noteq> g_id g c"
  shows "k \<in> live g \<Longrightarrow> srcclient (g_conns g k) \<noteq> c \<and> dstclient (g_conns g k) \<noteq> c"
    "g_sort g c = []" "g_true g c = []" "if g_type g c = ClientDriver then g_fed g c \<le> 0 else g_fed g c = 0"
proof -
  have e: "srcclient (g_conns g k) \<noteq> c \<and> dstclient (g_conns g k) \<noteq> c" if "k \<in> live g" for k
  proof -
    have "link_ok g (g_conns g k)" using g that by (auto simp: gbooks_def conn_ok_def)
    then show ?thesis using free by (auto simp: link_ok_def Let_def)
  qed
  then show "k \<in> live g \<Longrightarrow> srcclient (g_conns g k) \<noteq> c \<and> dstclient (g_conns g k) \<noteq> c" by blast
  have "b \<notin> set (g_sort g c)" "b \<notin> set (g_true g c)" for b
    using e by (auto simp: sort_member_edge [OF g c] true_member_edge [OF g c] sort_edge_Some true_edge_Some split: if_splits)
  then show "g_sort g c = []" "g_true g c = []" by (metis list.set_intros(1) neq_Nil_conv)+
  have "edge_conns g (\<lambda>con. \<exists>a. true_edge (g_type g) con = Some (a, c)) = {}"
    using e by (auto simp: edge_conns_def true_edge_Some)
  then show "if g_type g c = ClientDriver then g_fed g c \<le> 0 else g_fed g c = 0"
    using g c by (force simp: gbooks_def counts_ok_def)
qed

end
