(* ===== verification/Client_Inv.thy ===== *)
theory Client_Inv
  imports Client_Graph Transport_Properties
begin

text \<open>
  The invariant of the whole server: graph, buffers, transport, and the books of the clients (names
  and identifiers are unique, every port in use has an owner on the list). Taking a client out of
  the graph, activating and removing it keep it.
\<close>

section \<open>Frames\<close>

text \<open>Everything but the graph and the port registry stays.\<close>

definition client_owner_aside :: "jack_client_internal_t \<Rightarrow> jack_client_internal_t" where
  "client_owner_aside r = (client_aside r)\<lparr>cl_ports := []\<rparr>"

definition registry_aside :: "jack_engine_t \<Rightarrow> jack_engine_t" where
  "registry_aside e = (aside e)\<lparr>ports := [], freelist := (\<lambda>_. []), buffer_infos := (\<lambda>_. None), buffer_offset := (\<lambda>_ _. 0),
     port_segment := (\<lambda>_. None), silent_buffer := None, audio_out_cnt := 0, audio_in_cnt := 0, midi_out_cnt := 0, midi_in_cnt := 0,
     control := (control e)\<lparr>buffer_size := 0, port_types := []\<rparr>, cmem := (\<lambda>c. client_owner_aside (cmem e c))\<rparr>"

definition kept_reg :: "jack_engine_t \<Rightarrow> jack_engine_t \<Rightarrow> bool" where
  "kept_reg e e' \<longleftrightarrow> registry_aside e' = registry_aside e"

lemma kept_reg_refl [simp, intro]: "kept_reg e e"
  by (simp add: kept_reg_def)

lemma kept_reg_trans: "kept_reg a b \<Longrightarrow> kept_reg b c \<Longrightarrow> kept_reg a c"
  by (simp add: kept_reg_def)

lemma registry_aside_aside: "registry_aside e = (aside e)\<lparr>ports := [], freelist := (\<lambda>_. []), buffer_infos := (\<lambda>_. None),
     buffer_offset := (\<lambda>_ _. 0), port_segment := (\<lambda>_. None), silent_buffer := None, audio_out_cnt := 0, audio_in_cnt := 0,
     midi_out_cnt := 0, midi_in_cnt := 0, control := (control (aside e))\<lparr>buffer_size := 0, port_types := []\<rparr>,
     cmem := (\<lambda>c. (cmem (aside e) c)\<lparr>cl_ports := []\<rparr>)\<rparr>"
  by (simp add: registry_aside_def client_owner_aside_def aside_def)

lemma kept_kept_reg: "kept e e' \<Longrightarrow> kept_reg e e'"
  unfolding kept_def kept_reg_def registry_aside_aside by simp

lemma kept_reg_owner_aside:
  assumes "kept_reg e e'"
  shows "client_owner_aside (cmem e' c) = client_owner_aside (cmem e c)"
  using arg_cong [OF assms [unfolded kept_reg_def], of "\<lambda>x. cmem x c"] by (simp add: registry_aside_def)

lemma kept_reg_client:
  assumes "kept_reg e e'"
  shows "cl_id (cmem e' c) = cl_id (cmem e c)"
    "cl_uid (cmem e' c) = cl_uid (cmem e c)"
    "cl_name (cmem e' c) = cl_name (cmem e c)"
    "cl_type (cmem e' c) = cl_type (cmem e c)"
    "active (cmem e' c) = active (cmem e c)"
    "dead (cmem e' c) = dead (cmem e c)"
    "request_fd (cmem e' c) = request_fd (cmem e c)"
    "is_timebase (cmem e' c) = is_timebase (cmem e c)"
    "timebase_new (cmem e' c) = timebase_new (cmem e c)"
    "is_slowsync (cmem e' c) = is_slowsync (cmem e c)"
    "active_slowsync (cmem e' c) = active_slowsync (cmem e c)"
    "sync_poll (cmem e' c) = sync_poll (cmem e c)"
    "sync_new (cmem e' c) = sync_new (cmem e c)"
    "session_reply_pending (cmem e' c) = session_reply_pending (cmem e c)"
    "handle (cmem e' c) = handle (cmem e c)"
proof -
  note a = kept_reg_owner_aside [OF assms, of c]
  show "cl_id (cmem e' c) = cl_id (cmem e c)" using arg_cong [OF a, of cl_id] by (simp add: client_owner_aside_def client_aside_def)
  show "cl_uid (cmem e' c) = cl_uid (cmem e c)" using arg_cong [OF a, of cl_uid] by (simp add: client_owner_aside_def client_aside_def)
  show "cl_name (cmem e' c) = cl_name (cmem e c)" using arg_cong [OF a, of cl_name] by (simp add: client_owner_aside_def client_aside_def)
  show "cl_type (cmem e' c) = cl_type (cmem e c)" using arg_cong [OF a, of cl_type] by (simp add: client_owner_aside_def client_aside_def)
  show "active (cmem e' c) = active (cmem e c)" using arg_cong [OF a, of active] by (simp add: client_owner_aside_def client_aside_def)
  show "dead (cmem e' c) = dead (cmem e c)" using arg_cong [OF a, of dead] by (simp add: client_owner_aside_def client_aside_def)
  show "request_fd (cmem e' c) = request_fd (cmem e c)" using arg_cong [OF a, of request_fd] by (simp add: client_owner_aside_def client_aside_def)
  show "is_timebase (cmem e' c) = is_timebase (cmem e c)" using arg_cong [OF a, of is_timebase] by (simp add: client_owner_aside_def client_aside_def)
  show "timebase_new (cmem e' c) = timebase_new (cmem e c)" using arg_cong [OF a, of timebase_new] by (simp add: client_owner_aside_def client_aside_def)
  show "is_slowsync (cmem e' c) = is_slowsync (cmem e c)" using arg_cong [OF a, of is_slowsync] by (simp add: client_owner_aside_def client_aside_def)
  show "active_slowsync (cmem e' c) = active_slowsync (cmem e c)" using arg_cong [OF a, of active_slowsync] by (simp add: client_owner_aside_def client_aside_def)
  show "sync_poll (cmem e' c) = sync_poll (cmem e c)" using arg_cong [OF a, of sync_poll] by (simp add: client_owner_aside_def client_aside_def)
  show "sync_new (cmem e' c) = sync_new (cmem e c)" using arg_cong [OF a, of sync_new] by (simp add: client_owner_aside_def client_aside_def)
  show "session_reply_pending (cmem e' c) = session_reply_pending (cmem e c)" using arg_cong [OF a, of session_reply_pending] by (simp add: client_owner_aside_def client_aside_def)
  show "handle (cmem e' c) = handle (cmem e c)" using arg_cong [OF a, of handle] by (simp add: client_owner_aside_def client_aside_def)
qed

lemma kept_reg_engine:
  assumes "kept_reg e e'"
  shows "timebase_client e' = timebase_client e"
    "driver_client e' = driver_client e"
    "next_client_id e' = next_client_id e"
    "next_cptr e' = next_cptr e"
    "reserved_client_names e' = reserved_client_names e"
    "external_client_cnt e' = external_client_cnt e"
    "nozombies e' = nozombies e"
    "freewheeling e' = freewheeling e"
    "temporary e' = temporary e"
    "new_clients_allowed e' = new_clients_allowed e"
    "session_pending_replies e' = session_pending_replies e"
    "sync_clients (control e') = sync_clients (control e)" "sync_remain (control e') = sync_remain (control e)"
proof -
  note a = assms [unfolded kept_reg_def]
  show "timebase_client e' = timebase_client e" using arg_cong [OF a, of timebase_client] by (simp add: registry_aside_def aside_def)
  show "driver_client e' = driver_client e" using arg_cong [OF a, of driver_client] by (simp add: registry_aside_def aside_def)
  show "next_client_id e' = next_client_id e" using arg_cong [OF a, of next_client_id] by (simp add: registry_aside_def aside_def)
  show "next_cptr e' = next_cptr e" using arg_cong [OF a, of next_cptr] by (simp add: registry_aside_def aside_def)
  show "reserved_client_names e' = reserved_client_names e" using arg_cong [OF a, of reserved_client_names] by (simp add: registry_aside_def aside_def)
  show "external_client_cnt e' = external_client_cnt e" using arg_cong [OF a, of external_client_cnt] by (simp add: registry_aside_def aside_def)
  show "nozombies e' = nozombies e" using arg_cong [OF a, of nozombies] by (simp add: registry_aside_def aside_def)
  show "freewheeling e' = freewheeling e" using arg_cong [OF a, of freewheeling] by (simp add: registry_aside_def aside_def)
  show "temporary e' = temporary e" using arg_cong [OF a, of temporary] by (simp add: registry_aside_def aside_def)
  show "new_clients_allowed e' = new_clients_allowed e" using arg_cong [OF a, of new_clients_allowed] by (simp add: registry_aside_def aside_def)
  show "session_pending_replies e' = session_pending_replies e" using arg_cong [OF a, of session_pending_replies] by (simp add: registry_aside_def aside_def)
  show "sync_clients (control e') = sync_clients (control e)" using arg_cong [OF a, of "\<lambda>x. sync_clients (control x)"] by (simp add: registry_aside_def aside_def)
  show "sync_remain (control e') = sync_remain (control e)" using arg_cong [OF a, of "\<lambda>x. sync_remain (control x)"] by (simp add: registry_aside_def aside_def)
qed

lemma kept_reg_upd_client:
  assumes "\<And>r. client_owner_aside (f r) = client_owner_aside r" "kept_reg d e"
  shows "kept_reg d (upd_client c f e)"
proof -
  have "(\<lambda>x. client_owner_aside (cmem (upd_client c f e) x)) = (\<lambda>x. client_owner_aside (cmem e x))" using assms(1) by auto
  then have "registry_aside (upd_client c f e) = registry_aside e"
    by (simp add: registry_aside_def aside_def upd_client_def)
  then show ?thesis using assms(2) by (simp add: kept_reg_def)
qed

lemma kept_reg_fields:
  assumes "kept_reg d e"
  shows "kept_reg d (e\<lparr>ports := ps\<rparr>)" "kept_reg d (e\<lparr>ports := ps, freelist := fl\<rparr>)" "kept_reg d (with_counters n1 n2 n3 n4 e)"
    "kept_reg d (write_offsets t offs e)" "kept_reg d (adopt_buffers t n b bs e)" "kept_reg d (new_buffer_size e nf)"
    "kept_reg d (e\<lparr>port_segment := sg\<rparr>)"
  using assms by (simp_all add: kept_reg_def registry_aside_def aside_def with_counters_def write_offsets_def
      adopt_buffers_def new_buffer_size_def upd_control_def Let_def)

lemma kept_reg_release: "p < length (ports e) \<Longrightarrow> kept_reg d e \<Longrightarrow> kept_reg d (jack_port_release e p)"
  by (simp add: release_shape kept_reg_fields)

text \<open>Only the transport's own part of the state changes, and whether a client is active.\<close>

definition client_quiet :: "jack_client_internal_t \<Rightarrow> jack_client_internal_t" where
  "client_quiet r = r\<lparr>is_timebase := False, timebase_new := False, is_slowsync := False, active_slowsync := False,
     sync_poll := False, sync_new := False, timebase_cb_cbset := False, active := False\<rparr>"

definition off_air :: "jack_engine_t \<Rightarrow> jack_control_t \<Rightarrow> jack_engine_t" where
  "off_air e ctl = e\<lparr>control := ctl, timebase_client := None, external_client_cnt := 0,
     cmem := (\<lambda>c. client_quiet (cmem e c))\<rparr>"

definition transport_only :: "jack_engine_t \<Rightarrow> jack_engine_t \<Rightarrow> bool" where
  "transport_only e e' \<longleftrightarrow> (\<forall>ctl. off_air e' ctl = off_air e ctl) \<and>
     port_types (control e') = port_types (control e) \<and> buffer_size (control e') = buffer_size (control e)"

lemma transport_only_refl [simp, intro]: "transport_only e e"
  by (simp add: transport_only_def)

lemma transport_only_trans: "transport_only a b \<Longrightarrow> transport_only b c \<Longrightarrow> transport_only a c"
  by (simp add: transport_only_def)

lemma transport_only_quiet:
  assumes "transport_only e e'"
  shows "client_quiet (cmem e' c) = client_quiet (cmem e c)"
proof -
  have "off_air e' (control e) = off_air e (control e)" using assms by (simp add: transport_only_def)
  from arg_cong [OF this, of "\<lambda>x. cmem x c"] show ?thesis by (simp add: off_air_def)
qed

lemma transport_only_client:
  assumes "transport_only e e'"
  shows "cl_id (cmem e' c) = cl_id (cmem e c)"
    "cl_uid (cmem e' c) = cl_uid (cmem e c)"
    "cl_name (cmem e' c) = cl_name (cmem e c)"
    "cl_type (cmem e' c) = cl_type (cmem e c)"
    "dead (cmem e' c) = dead (cmem e c)"
    "cl_ports (cmem e' c) = cl_ports (cmem e c)"
    "request_fd (cmem e' c) = request_fd (cmem e c)"
    "session_reply_pending (cmem e' c) = session_reply_pending (cmem e c)"
    "truefeeds (cmem e' c) = truefeeds (cmem e c)"
    "sortfeeds (cmem e' c) = sortfeeds (cmem e c)"
    "fedcount (cmem e' c) = fedcount (cmem e c)"
    "cl_error (cmem e' c) = cl_error (cmem e c)"
    "handle (cmem e' c) = handle (cmem e c)"
proof -
  note a = transport_only_quiet [OF assms, of c]
  show "cl_id (cmem e' c) = cl_id (cmem e c)" using arg_cong [OF a, of cl_id] by (simp add: client_quiet_def)
  show "cl_uid (cmem e' c) = cl_uid (cmem e c)" using arg_cong [OF a, of cl_uid] by (simp add: client_quiet_def)
  show "cl_name (cmem e' c) = cl_name (cmem e c)" using arg_cong [OF a, of cl_name] by (simp add: client_quiet_def)
  show "cl_type (cmem e' c) = cl_type (cmem e c)" using arg_cong [OF a, of cl_type] by (simp add: client_quiet_def)
  show "dead (cmem e' c) = dead (cmem e c)" using arg_cong [OF a, of dead] by (simp add: client_quiet_def)
  show "cl_ports (cmem e' c) = cl_ports (cmem e c)" using arg_cong [OF a, of cl_ports] by (simp add: client_quiet_def)
  show "request_fd (cmem e' c) = request_fd (cmem e c)" using arg_cong [OF a, of request_fd] by (simp add: client_quiet_def)
  show "session_reply_pending (cmem e' c) = session_reply_pending (cmem e c)" using arg_cong [OF a, of session_reply_pending] by (simp add: client_quiet_def)
  show "truefeeds (cmem e' c) = truefeeds (cmem e c)" using arg_cong [OF a, of truefeeds] by (simp add: client_quiet_def)
  show "sortfeeds (cmem e' c) = sortfeeds (cmem e c)" using arg_cong [OF a, of sortfeeds] by (simp add: client_quiet_def)
  show "fedcount (cmem e' c) = fedcount (cmem e c)" using arg_cong [OF a, of fedcount] by (simp add: client_quiet_def)
  show "cl_error (cmem e' c) = cl_error (cmem e c)" using arg_cong [OF a, of cl_error] by (simp add: client_quiet_def)
  show "handle (cmem e' c) = handle (cmem e c)" using arg_cong [OF a, of handle] by (simp add: client_quiet_def)
qed

lemma transport_only_engine:
  assumes "transport_only e e'"
  shows "clients e' = clients e"
    "ports e' = ports e"
    "conns e' = conns e"
    "next_kptr e' = next_kptr e"
    "feedbackcount e' = feedbackcount e"
    "driver_client e' = driver_client e"
    "freelist e' = freelist e"
    "buffer_infos e' = buffer_infos e"
    "buffer_offset e' = buffer_offset e"
    "port_segment e' = port_segment e"
    "next_client_id e' = next_client_id e"
    "next_cptr e' = next_cptr e"
    "reserved_client_names e' = reserved_client_names e"
    "nozombies e' = nozombies e"
    "temporary e' = temporary e"
proof -
  have a: "off_air e' (control e) = off_air e (control e)" using assms by (simp add: transport_only_def)
  show "clients e' = clients e" using arg_cong [OF a, of clients] by (simp add: off_air_def)
  show "ports e' = ports e" using arg_cong [OF a, of ports] by (simp add: off_air_def)
  show "conns e' = conns e" using arg_cong [OF a, of conns] by (simp add: off_air_def)
  show "next_kptr e' = next_kptr e" using arg_cong [OF a, of next_kptr] by (simp add: off_air_def)
  show "feedbackcount e' = feedbackcount e" using arg_cong [OF a, of feedbackcount] by (simp add: off_air_def)
  show "driver_client e' = driver_client e" using arg_cong [OF a, of driver_client] by (simp add: off_air_def)
  show "freelist e' = freelist e" using arg_cong [OF a, of freelist] by (simp add: off_air_def)
  show "buffer_infos e' = buffer_infos e" using arg_cong [OF a, of buffer_infos] by (simp add: off_air_def)
  show "buffer_offset e' = buffer_offset e" using arg_cong [OF a, of buffer_offset] by (simp add: off_air_def)
  show "port_segment e' = port_segment e" using arg_cong [OF a, of port_segment] by (simp add: off_air_def)
  show "next_client_id e' = next_client_id e" using arg_cong [OF a, of next_client_id] by (simp add: off_air_def)
  show "next_cptr e' = next_cptr e" using arg_cong [OF a, of next_cptr] by (simp add: off_air_def)
  show "reserved_client_names e' = reserved_client_names e" using arg_cong [OF a, of reserved_client_names] by (simp add: off_air_def)
  show "nozombies e' = nozombies e" using arg_cong [OF a, of nozombies] by (simp add: off_air_def)
  show "temporary e' = temporary e" using arg_cong [OF a, of temporary] by (simp add: off_air_def)
qed

named_theorems air_frame

lemma air_control:
  assumes "transport_only d e" "port_types (f (control e)) = port_types (control e)" "buffer_size (f (control e)) = buffer_size (control e)"
  shows "transport_only d (upd_control f e)"
  using assms by (simp add: transport_only_def off_air_def upd_control_def)

lemma air_set_control:
  assumes "transport_only d e" "port_types ctl = port_types (control e)" "buffer_size ctl = buffer_size (control e)"
  shows "transport_only d (e\<lparr>control := ctl\<rparr>)"
  using assms by (simp add: transport_only_def off_air_def)

lemma air_client:
  assumes "transport_only d e" "\<And>r. client_quiet (f r) = client_quiet r"
  shows "transport_only d (upd_client c f e)"
proof -
  have "(\<lambda>x. client_quiet (cmem (upd_client c f e) x)) = (\<lambda>x. client_quiet (cmem e x))" using assms(2) by auto
  then have "off_air (upd_client c f e) ctl = off_air e ctl" for ctl by (simp add: off_air_def upd_client_def)
  then show ?thesis using assms(1) by (simp add: transport_only_def)
qed

lemma air_fields [air_frame]:
  assumes "transport_only d e"
  shows "transport_only d (e\<lparr>timebase_client := t\<rparr>)" "transport_only d (e\<lparr>external_client_cnt := n\<rparr>)"
  using assms by (simp_all add: transport_only_def off_air_def)

lemma air_client_fields [air_frame]:
  assumes "transport_only d e"
  shows "transport_only d (upd_client c (\<lambda>r. r\<lparr>is_timebase := x1\<rparr>) e)" "transport_only d (upd_client c (\<lambda>r. r\<lparr>timebase_new := x1\<rparr>) e)"
    "transport_only d (upd_client c (\<lambda>r. r\<lparr>is_timebase := x1, timebase_new := x2\<rparr>) e)" "transport_only d (upd_client c (\<lambda>r. r\<lparr>is_slowsync := x1\<rparr>) e)"
    "transport_only d (upd_client c (\<lambda>r. r\<lparr>active_slowsync := x1\<rparr>) e)" "transport_only d (upd_client c (\<lambda>r. r\<lparr>sync_poll := x1\<rparr>) e)"
    "transport_only d (upd_client c (\<lambda>r. r\<lparr>sync_new := x1\<rparr>) e)" "transport_only d (upd_client c (\<lambda>r. r\<lparr>sync_poll := x1, sync_new := x2\<rparr>) e)"
    "transport_only d (upd_client c (\<lambda>r. r\<lparr>timebase_cb_cbset := x1\<rparr>) e)" "transport_only d (upd_client c (\<lambda>r. r\<lparr>active := x1\<rparr>) e)"
  by (rule air_client [OF assms]; simp add: client_quiet_def)+

lemma air_if [air_frame]: "transport_only d x \<Longrightarrow> transport_only d y \<Longrightarrow> transport_only d (if b then x else y)"
  by simp

lemma air_poll_new [air_frame]: "transport_only d e \<Longrightarrow> transport_only d (jack_sync_poll_new e c)"
  unfolding jack_sync_poll_new_def Let_def by (intro air_frame air_control; simp)

lemma air_poll_stop_each [air_frame]: "transport_only d e \<Longrightarrow> transport_only d (fst (poll_stop_each e cs n))"
  by (induction cs arbitrary: e n) (simp_all add: air_client_fields)

lemma air_poll_start_each [air_frame]: "transport_only d e \<Longrightarrow> transport_only d (fst (poll_start_each e cs n))"
  by (induction cs arbitrary: e n) (simp_all add: air_client_fields)

lemma air_poll:
  "jack_sync_poll_stop e = Value e' \<Longrightarrow> transport_only d e \<Longrightarrow> transport_only d e'"
  "jack_sync_poll_start e = Value e' \<Longrightarrow> transport_only d e \<Longrightarrow> transport_only d e'"
  "jack_sync_poll_deactivate e c = Value e' \<Longrightarrow> transport_only d e \<Longrightarrow> transport_only d e'"
  unfolding jack_sync_poll_stop_def jack_sync_poll_start_def jack_sync_poll_deactivate_def
  by (auto simp: Let_def case_prod_beta split: if_splits intro!: air_frame air_control)

lemma air_exit: "jack_transport_client_exit e c = Value e' \<Longrightarrow> transport_only d e \<Longrightarrow> transport_only d e'"
  unfolding jack_transport_client_exit_def Let_def
  by (auto simp: c_map_Value split: if_splits intro!: air_frame air_control elim!: air_poll)

lemma air_activate: "jack_transport_activate e c = Value e' \<Longrightarrow> transport_only d e \<Longrightarrow> transport_only d e'"
  unfolding jack_transport_activate_def
  by (auto simp: c_map_Value split: if_splits intro!: air_frame air_control)

lemma air_request: "jack_transport_request_new_pos e pos = Value e' \<Longrightarrow> transport_only d e \<Longrightarrow> transport_only d e'"
  unfolding jack_transport_request_new_pos_def jack_generate_unique_id_def
  by (auto simp: c_map_Value Let_def intro!: air_set_control)

lemma air_cycle_end:
  assumes "jack_transport_cycle_end reads e = Value e'" "transport_only d e"
  shows "transport_only d e'"
proof -
  have st: "transport_only d x \<Longrightarrow> transport_only d (set_state s x)" for x s
    unfolding set_state_def by (intro air_control; simp)
  have chk: "transport_only d x \<Longrightarrow> check_sync x = Value y \<Longrightarrow> transport_only d y" for x y
    unfolding check_sync_def jack_sync_timeout_def Let_def
    by (auto simp: c_map_Value split: if_splits intro!: st air_control)
  have stop: "transport_only d x \<Longrightarrow> stop_transport x = Value y \<Longrightarrow> transport_only d y" for x y
    unfolding stop_transport_def Let_def by (auto split: if_splits intro: st air_poll)
  have sw: "transport_only d x \<Longrightarrow> state_switch x cmd = Value y \<Longrightarrow> transport_only d y" for x cmd y
    unfolding state_switch_def by (auto split: jack_transport_state_t.splits if_splits intro: st stop air_poll)
  have lc: "transport_only d x \<Longrightarrow> transport_only d (fst (latest_command x))" for x
    unfolding latest_command_def Let_def by (auto intro!: air_control)
  have tk: "take_request reads ctl = Value y \<Longrightarrow> port_types y = port_types ctl \<and> buffer_size y = buffer_size ctl" for ctl y
    unfolding take_request_def by (auto simp: c_map_Value Let_def split: if_splits)
  have p: "transport_only d (upd_control promote_pending e)"
    using assms(2) by (intro air_control) (simp_all add: promote_pending_def Let_def)
  obtain e1 e3 ctl where r: "check_sync (upd_control promote_pending e) = Value e1"
    "state_switch (fst (latest_command e1)) (snd (latest_command e1)) = Value e3"
    "take_request reads (advance_frame (control e3)) = Value ctl" "e' = e3\<lparr>control := save_pending_frame ctl\<rparr>"
    using assms(1) unfolding jack_transport_cycle_end_def by (auto simp: c_bind_Value c_map_Value case_prod_beta Let_def)
  have t3: "transport_only d e3" by (rule sw [OF lc [OF chk [OF p r(1)]] r(2)])
  show ?thesis
    unfolding r(4) using tk [OF r(3)] by (intro air_set_control [OF t3]) (auto simp: save_pending_frame_def advance_frame_def)
qed

lemma air_step: "transport_step e e' \<Longrightarrow> transport_only e e'"
proof (induction rule: transport_step.induct)
  case (cycle_end e j reads e')
  then show ?case using air_cycle_end by blast
qed (auto simp: jack_transport_client_set_sync_def jack_transport_client_reset_sync_def jack_timebase_set_def
      jack_timebase_reset_def jack_call_sync_client_def jack_call_timebase_master_def jack_transport_start_def
      jack_transport_stop_def jack_transport_reposition_def jack_transport_locate_def jack_set_sample_rate_def
      jack_transport_set_sync_timeout_def jack_transport_cycle_start_def Let_def c_map_Value
      split: option.splits if_splits intro!: air_frame air_control
      elim!: air_poll intro: air_activate air_exit air_request)

section \<open>The invariant of the server\<close>

definition owners_ok :: "jack_engine_t \<Rightarrow> bool" where
  "owners_ok e \<longleftrightarrow> (\<forall>p < length (ports e). in_use (ports e ! p) \<longrightarrow>
     (\<exists>c \<in> set (clients e). p_client_id (ports e ! p) = cl_id (cmem e c)))"

definition clients_ok :: "jack_engine_t \<Rightarrow> bool" where
  "clients_ok e \<longleftrightarrow> (\<forall>c \<in> set (clients e). c < next_cptr e \<and> unat (cl_id (cmem e c)) < unat (next_client_id e)) \<and>
     inj_on (\<lambda>c. cl_name (cmem e c)) (set (clients e))"

definition server_inv :: "jack_engine_t \<Rightarrow> bool" where
  "server_inv e \<longleftrightarrow> registry_inv e \<and> transport_inv e \<and> owners_ok e \<and> clients_ok e"

lemma client_count_mset:
  assumes "mset (clients e') = mset (clients e)" "\<And>c. P (cmem e' c) = P (cmem e c)"
  shows "client_count P e' = client_count P e"
proof -
  have "mset (filter (\<lambda>c. P (cmem e' c)) (clients e')) = mset (filter (\<lambda>c. P (cmem e c)) (clients e))"
    using assms by simp
  then show ?thesis unfolding client_count_def by (metis size_mset)
qed

lemma transport_kept_reg:
  assumes k: "kept_reg e e'" and m: "mset (clients e') = mset (clients e)" and inv: "transport_inv e"
  shows "transport_inv e'"
proof -
  note c = kept_reg_client [OF k] and n = kept_reg_engine [OF k]
  have s: "set (clients e') = set (clients e)" using m by (rule mset_eq_setD)
  have "distinct (clients e')" using inv m mset_eq_imp_distinct_iff by (auto simp: transport_inv_def sync_inv_def)
  then show ?thesis
    using inv client_count_mset [OF m, of active_slowsync] client_count_mset [OF m, of sync_poll]
    by (simp add: transport_inv_def sync_inv_def master_inv_def s c n)
qed

lemma server_kept_reg:
  assumes inv: "server_inv e" and k: "kept_reg e e'" and m: "mset (clients e') = mset (clients e)"
    and r: "registry_inv e'" "owners_ok e'"
  shows "server_inv e'"
proof -
  have s: "set (clients e') = set (clients e)" using m by (rule mset_eq_setD)
  have "clients_ok e'" using inv by (simp add: server_inv_def clients_ok_def s kept_reg_client [OF k] kept_reg_engine [OF k])
  then show ?thesis using transport_kept_reg [OF k m] inv r by (simp add: server_inv_def)
qed

lemma owners_kept:
  assumes "owners_ok e" "kept e e'" "set (clients e') = set (clients e)"
  shows "owners_ok e'"
  using assms kept_port [OF assms(2)] kept_client [OF assms(2)] kept_engine(1) [OF assms(2)] by (simp add: owners_ok_def)

lemma server_kept:
  assumes inv: "server_inv e" and k: "kept e e'" and m: "mset (clients e') = mset (clients e)" and g: "graph_inv e'"
  shows "server_inv e'"
proof (rule server_kept_reg [OF inv kept_kept_reg [OF k] m])
  show "registry_inv e'" using inv g buffers_ok_kept [OF k] by (simp add: server_inv_def registry_inv_def)
  show "owners_ok e'" using inv owners_kept [OF _ k] mset_eq_setD [OF m] by (simp add: server_inv_def)
qed

lemma registry_transport_only:
  assumes "transport_only e e'"
  shows "registry_inv e' = registry_inv e" "owners_ok e' = owners_ok e" "clients_ok e' = clients_ok e"
proof -
  note c = transport_only_client [OF assms] and n = transport_only_engine [OF assms]
  have "core e' = core e" by (simp add: core_def c n)
  then show "registry_inv e' = registry_inv e"
    by (simp add: registry_inv_def graph_inv_def n buffers_ok_def free_ok_def placed_ok_def port_buffer_ok_def buffer_of_type_def)
  show "owners_ok e' = owners_ok e" "clients_ok e' = clients_ok e" by (simp_all add: owners_ok_def clients_ok_def c n)
qed

lemma server_transport_only: "server_inv e \<Longrightarrow> transport_only e e' \<Longrightarrow> transport_inv e' \<Longrightarrow> server_inv e'"
  using registry_transport_only by (simp add: server_inv_def)

section \<open>Freeing the ports of a client\<close>

text \<open>An operation on client \<open>c\<close> that takes no port into use and leaves the roles of the other clients alone.\<close>

definition others_calm :: "cptr \<Rightarrow> jack_engine_t \<Rightarrow> jack_engine_t \<Rightarrow> bool" where
  "others_calm c e e' \<longleftrightarrow> length (ports e') = length (ports e) \<and>
     (\<forall>q < length (ports e). in_use (ports e' ! q) \<longrightarrow> in_use (ports e ! q) \<and> p_client_id (ports e' ! q) = p_client_id (ports e ! q)) \<and>
     (\<forall>x. x \<noteq> c \<longrightarrow> active (cmem e' x) = active (cmem e x) \<and> active_slowsync (cmem e' x) = active_slowsync (cmem e x) \<and>
          (timebase_client e' = Some x \<longrightarrow> timebase_client e = Some x))"

lemma others_calm_refl [simp, intro]: "others_calm c e e"
  by (simp add: others_calm_def)

lemma others_calm_trans: "others_calm c a b \<Longrightarrow> others_calm c b d \<Longrightarrow> others_calm c a d"
  by (simp add: others_calm_def)

lemma others_calm_kept: "kept e e' \<Longrightarrow> others_calm c e e'"
  by (simp add: others_calm_def kept_engine kept_port kept_client)

lemma others_calm_kept_reg:
  assumes "kept_reg e e'" "length (ports e') = length (ports e)"
    "\<And>q. q < length (ports e) \<Longrightarrow> in_use (ports e' ! q) \<Longrightarrow> in_use (ports e ! q) \<and> p_client_id (ports e' ! q) = p_client_id (ports e ! q)"
  shows "others_calm c e e'"
  using assms kept_reg_client [OF assms(1)] kept_reg_engine [OF assms(1)] by (simp add: others_calm_def)

lemma others_calm_exit:
  assumes "jack_transport_client_exit e c = Value e'"
  shows "others_calm c e e'"
proof -
  have d: "others_calm c z y" if "jack_sync_poll_deactivate z c = Value y" for y z
    using that unfolding jack_sync_poll_deactivate_def Let_def
    by (auto simp: others_calm_def upd_client_def upd_control_def split: if_splits)
  have "\<exists>e1. others_calm c e e1 \<and> (e' = e1 \<or> (\<exists>e2. jack_sync_poll_deactivate e1 c = Value e2 \<and>
      (e' = e2 \<or> e' = upd_client c (\<lambda>r. r\<lparr>is_slowsync := False\<rparr>) e2)) \<or> e' = upd_client c (\<lambda>r. r\<lparr>is_slowsync := False\<rparr>) e1)"
    using assms unfolding jack_transport_client_exit_def Let_def
    by (intro exI [of _ "if timebase_client e = Some c then
                  upd_control (\<lambda>ctl. ctl\<lparr>current_time := (current_time ctl)\<lparr>valid := 0\<rparr>,
                                         pending_time := (pending_time ctl)\<lparr>valid := 0\<rparr>\<rparr>)
                    (if dead (cmem e c) then
                       (upd_client c (\<lambda>r. r\<lparr>is_timebase := False, timebase_new := False\<rparr>) e)
                         \<lparr>timebase_client := None\<rparr>
                     else e)
                else e"])
      (auto simp: c_map_Value others_calm_def upd_client_def upd_control_def split: if_splits)
  moreover have "others_calm c z (upd_client c (\<lambda>r. r\<lparr>is_slowsync := False\<rparr>) z)" for z
    by (simp add: others_calm_def upd_client_def)
  ultimately show ?thesis using d others_calm_trans by blast
qed

lemma clear_server:
  assumes inv: "server_inv e" and p: "p < length (ports e)"
  shows "\<exists>e'. jack_port_clear_connections e p = Value e' \<and> server_inv e' \<and> kept e e' \<and>
    mset (clients e') = mset (clients e) \<and> links e' = links e - at_port p"
proof -
  obtain e' where e': "jack_port_clear_connections e p = Value e'" "graph_inv e'" "mset (clients e') = mset (clients e)"
    "links e' = links e - at_port p"
    using clear_connections_Value [of e p] inv p by (auto simp: server_inv_def registry_inv_def)
  have "kept e e'" using kept_clear_connections [OF e'(1)] by blast
  then show ?thesis using e' server_kept [OF inv _ e'(3,2)] by blast
qed

lemma server_same:
  assumes "server_inv e" "same_graph e e'" "kept e e'"
  shows "server_inv e'"
proof (rule server_kept [OF assms(1,3)])
  show "mset (clients e') = mset (clients e)" using assms(2) by (simp add: same_graph_def)
  show "graph_inv e'" using assms(1) same_graph_inv [OF assms(2)] by (simp add: server_inv_def registry_inv_def)
qed

lemma notify_server: "server_inv e \<Longrightarrow> server_inv (jack_port_registration_notify e p yn)"
  by (erule server_same) (simp_all add: same_graph_port_notify kept_port_notify)

lemma release_server:
  assumes inv: "server_inv e" and p: "p < length (ports e)" "connections (ports e ! p) = []"
  shows "server_inv (jack_port_release e p)" "links (jack_port_release e p) = links e"
    "clients (jack_port_release e p) = clients e"
proof -
  let ?e = "jack_port_release e p"
  show c: "clients ?e = clients e" by (simp add: release_shape [OF p(1)])
  have g: "graph_inv e" "buffers_ok e" using inv by (auto simp: server_inv_def registry_inv_def)
  have r: "graph_inv ?e" "links ?e = links e"
    by (rule release_graph [where c = 0, OF g(1) p _ core_release [OF p(1)] c]; simp)+
  then show "links ?e = links e" by simp
  have "registry_inv ?e" using r buffers_release [OF g(2) p(1)] by (simp add: registry_inv_def)
  moreover have "owners_ok ?e"
    using inv p(1) by (auto simp: server_inv_def owners_ok_def release_shape released_def nth_list_update)
  ultimately show "server_inv ?e"
    using server_kept_reg [OF inv kept_reg_release [OF p(1) kept_reg_refl]] c by simp
qed

lemma disconnect_each_Value:
  "server_inv e \<Longrightarrow> (\<And>p. p \<in> set ps \<Longrightarrow> p < length (ports e)) \<Longrightarrow>
   \<exists>e'. disconnect_each e ps = Value e' \<and> server_inv e' \<and> kept_reg e e' \<and> mset (clients e') = mset (clients e) \<and>
     length (ports e') = length (ports e) \<and> links e' = links e - (\<Union>p \<in> set ps. at_port p) \<and>
     (\<forall>q < length (ports e). p_client_id (ports e' ! q) = p_client_id (ports e ! q) \<and>
        in_use (ports e' ! q) = (in_use (ports e ! q) \<and> q \<notin> set ps)) \<and>
     (\<forall>c. cl_ports (cmem e' c) = cl_ports (cmem e c))"
proof (induction ps arbitrary: e)
  case Nil
  then show ?case by simp
next
  case (Cons p ps)
  have p: "p < length (ports e)" using Cons.prems(2) by simp
  obtain e1 where e1: "jack_port_clear_connections e p = Value e1" "server_inv e1" "kept e e1"
    "mset (clients e1) = mset (clients e)" "links e1 = links e - at_port p"
    using clear_server [OF Cons.prems(1) p] by blast
  define e2 where "e2 = jack_port_registration_notify e1 p False"
  have e2: "server_inv e2" "kept e1 e2" "same_graph e1 e2"
    using notify_server [OF e1(2)] unfolding e2_def by (simp_all add: kept_port_notify same_graph_port_notify)
  have k2: "kept e e2" by (rule kept_trans [OF e1(3) e2(2)])
  have p2: "p < length (ports e2)" using p kept_engine(1) [OF k2] by simp
  have l2: "links e2 = links e - at_port p" using links_core [of e2 e1] e2(3) e1(5) by (simp add: same_graph_def)
  have c2: "connections (ports e2 ! p) = []"
  proof -
    have g: "graph_inv e2" using e2(1) by (simp add: server_inv_def registry_inv_def)
    then have "ends e2 ` set (connections (ports e2 ! p)) = {}" using ends_at_port [OF g p2] l2 by auto
    then show ?thesis by simp
  qed
  define e3 where "e3 = jack_port_release e2 p"
  have e3: "server_inv e3" "links e3 = links e2" "clients e3 = clients e2"
    using release_server [OF e2(1) p2 c2] by (simp_all add: e3_def)
  have k3: "kept_reg e e3"
    unfolding e3_def by (rule kept_reg_release [OF p2 kept_kept_reg [OF k2]])
  have len: "length (ports e3) = length (ports e)" using kept_engine(1) [OF k2] p2 by (simp add: e3_def release_shape)
  have q3: "p_client_id (ports e3 ! q) = p_client_id (ports e ! q) \<and> in_use (ports e3 ! q) = (in_use (ports e ! q) \<and> q \<noteq> p)"
    if "q < length (ports e)" for q
    using kept_port [OF k2 that] p2 by (auto simp: e3_def release_shape released_def nth_list_update)
  have o3: "cl_ports (cmem e3 c) = cl_ports (cmem e c)" for c using kept_client [OF k2] p2 by (simp add: e3_def release_shape)
  have m3: "mset (clients e3) = mset (clients e)" using e3(3) e2(3) e1(4) by (simp add: same_graph_def)
  obtain e4 where e4: "disconnect_each e3 ps = Value e4" "server_inv e4" "kept_reg e3 e4" "mset (clients e4) = mset (clients e3)"
    "length (ports e4) = length (ports e3)" "links e4 = links e3 - (\<Union>p \<in> set ps. at_port p)"
    "\<forall>q < length (ports e3). p_client_id (ports e4 ! q) = p_client_id (ports e3 ! q) \<and>
        in_use (ports e4 ! q) = (in_use (ports e3 ! q) \<and> q \<notin> set ps)" "\<forall>c. cl_ports (cmem e4 c) = cl_ports (cmem e3 c)"
    using Cons.IH [OF e3(1)] Cons.prems(2) len by auto
  have "disconnect_each e (p # ps) = Value e4" using e1(1) e4(1) by (simp add: e3_def e2_def)
  moreover have "kept_reg e e4" by (rule kept_reg_trans [OF k3 e4(3)])
  moreover have "links e4 = links e - (\<Union>p \<in> set (p # ps). at_port p)" using e4(6) e3(2) l2 by auto
  ultimately show ?case using e4 len m3 q3 o3 by auto
qed

section \<open>Clients without ports\<close>

definition portless :: "jack_engine_t \<Rightarrow> cptr \<Rightarrow> bool" where
  "portless e c \<longleftrightarrow> (\<forall>q < length (ports e). in_use (ports e ! q) \<longrightarrow> p_client_id (ports e ! q) \<noteq> cl_id (cmem e c))"

lemma graph_ids:
  assumes "graph_inv e"
  shows "inj_on (\<lambda>c. cl_id (cmem e c)) (set (clients e))" "distinct (clients e)"
  using assms by (auto simp: graph_inv_def ginv_def gbooks_def inj_on_def)

lemma portless_change:
  assumes inv: "graph_inv e" and c: "c \<in> set (clients e)" "portless e c"
    and w: "same_wires (core e) (core e')" and cl: "set (clients e') \<subseteq> set (clients e)" "distinct (clients e')"
    and same: "\<And>x. x \<noteq> c \<Longrightarrow> x \<in> set (clients e) \<Longrightarrow> x \<in> set (clients e') \<and> same_client (core e) (core e') x"
    and me: "c \<in> set (clients e') \<Longrightarrow> cl_id (cmem e' c) = cl_id (cmem e c) \<and> cl_type (cmem e' c) = cl_type (cmem e c) \<and>
      fedcount (cmem e' c) = fedcount (cmem e c) \<and> cl_ports (cmem e' c) = [] \<and> sortfeeds (cmem e' c) = [] \<and> truefeeds (cmem e' c) = []"
  shows "graph_inv e'" "links e' = links e"
proof -
  let ?K = "set (clients e) - {c}"
  have g: "ginv (core e)" "gbooks (core e)" using inv by (auto simp: graph_inv_def ginv_def)
  have free: "p < length (g_ports (core e)) \<Longrightarrow> gp_used (g_ports (core e) ! p) \<Longrightarrow> gp_owner (g_ports (core e) ! p) \<noteq> g_id (core e) c" for p
    using c(2) by (simp add: portless_def)
  have cg: "c \<in> g_clients (core e)" using c(1) by simp
  have pc1: "srcclient (g_conns (core e) k) \<noteq> c \<and> dstclient (g_conns (core e) k) \<noteq> c" if "k \<in> live (core e)" for k
    using portless_client(1) [OF g(2) cg _ that] free by blast
  have pc4: "if g_type (core e) c = ClientDriver then g_fed (core e) c \<le> 0 else g_fed (core e) c = 0"
    by (rule portless_client(4) [OF g(2) cg]) (use free in blast)
  have ids: "cl_id (cmem e' x) = cl_id (cmem e x)" if "x \<in> set (clients e')" for x
    using that me same [of x] cl(1) by (cases "x = c") (auto simp: same_client_def)
  have mp: "map port_core (ports e') = map port_core (ports e)" using w by (simp add: same_wires_def)
  have "ginv (core e')"
  proof (rule ginv_change_clients [OF g(1) w, of ?K])
    show "?K \<subseteq> g_clients (core e)" "?K \<subseteq> g_clients (core e')" "finite (g_clients (core e'))" using same by auto
    show "\<And>x. x \<in> ?K \<Longrightarrow> same_client (core e) (core e') x" using same by auto
    fix k assume k: "k \<in> live (core e)"
    then have "link_ok (core e) (conns e k)" using g(2) by (auto simp: gbooks_def conn_ok_def)
    then show "srcclient (g_conns (core e) k) \<in> ?K \<and> dstclient (g_conns (core e) k) \<in> ?K"
      using pc1 [OF k] by (auto simp: link_ok_def Let_def)
  next
    show "inj_on (g_id (core e')) (g_clients (core e'))"
      using graph_ids(1) [OF inv] cl(1) ids by (auto simp: inj_on_def)
  next
    fix x assume "x \<in> g_clients (core e') - ?K"
    then have x: "x = c" "c \<in> set (clients e')" using cl(1) by auto
    have "gp_owner (map port_core (ports e) ! p) \<noteq> cl_id (cmem e c)"
      if "p < length (ports e)" "gp_used (map port_core (ports e) ! p)" for p
      using that c(2) by (simp add: portless_def)
    then show "idle_client (core e') x"
      using x me pc4 unfolding idle_client_def core_simps mp by simp
  qed
  then show "graph_inv e'" using cl(2) by (simp add: graph_inv_def)
  have "live (core e') = live (core e)" using mp by (simp add: live_def)
  moreover have "conns e' = conns e" using w by (simp add: same_wires_def)
  ultimately show "links e' = links e" by (simp add: links_def ends_def)
qed

definition disowned :: "jack_engine_t \<Rightarrow> cptr \<Rightarrow> jack_engine_t" where
  "disowned e c = upd_client c (\<lambda>r. r\<lparr>truefeeds := [], sortfeeds := [], cl_ports := []\<rparr>) e"

lemma buffers_fields [simp]:
  "buffers_ok (upd_client c f e) = buffers_ok e" "buffers_ok (e\<lparr>clients := cs\<rparr>) = buffers_ok e"
  by (simp_all add: buffers_ok_def free_ok_def placed_ok_def port_buffer_ok_def buffer_of_type_def upd_client_def)

lemma disown_server:
  assumes inv: "server_inv e" and c: "c \<in> set (clients e)" "portless e c"
  shows "server_inv (disowned e c)" "links (disowned e c) = links e" "kept_reg e (disowned e c)"
proof -
  have g: "graph_inv e" using inv by (simp add: server_inv_def registry_inv_def)
  have d: "clients (disowned e c) = clients e" "ports (disowned e c) = ports e" by (simp_all add: disowned_def upd_client_def)
  have w: "same_wires (core e) (core (disowned e c))" by (simp add: same_wires_def disowned_def upd_client_def)
  have r: "graph_inv (disowned e c)" "links (disowned e c) = links e"
    by (rule portless_change [OF g c w]; (simp add: d graph_ids [OF g])?; simp add: disowned_def same_client_def)+
  show k: "kept_reg e (disowned e c)"
    unfolding disowned_def by (rule kept_reg_upd_client) (simp_all add: client_owner_aside_def client_aside_def)
  show "links (disowned e c) = links e" by (rule r)
  have "owners_ok (disowned e c)" using inv kept_reg_client [OF k] by (simp add: server_inv_def owners_ok_def d)
  moreover have "registry_inv (disowned e c)" using r(1) inv by (simp add: registry_inv_def server_inv_def disowned_def)
  ultimately show "server_inv (disowned e c)" using server_kept_reg [OF inv k] d by simp
qed

lemma drop_server:
  assumes inv: "server_inv e" and c: "c \<in> set (clients e)" "portless e c"
    and tr: "timebase_client e \<noteq> Some c" "\<not> active_slowsync (cmem e c)"
  shows "server_inv (e\<lparr>clients := remove1 c (clients e)\<rparr>)" "links (e\<lparr>clients := remove1 c (clients e)\<rparr>) = links e"
proof -
  let ?e = "e\<lparr>clients := remove1 c (clients e)\<rparr>"
  have g: "graph_inv e" "distinct (clients e)" using inv graph_ids(2) by (auto simp: server_inv_def registry_inv_def)
  have s: "set (remove1 c (clients e)) = set (clients e) - {c}" using g(2) by simp
  have w: "same_wires (core e) (core ?e)" by (simp add: same_wires_def core_def)
  have r: "graph_inv ?e" "links ?e = links e"
    by (rule portless_change [OF g(1) c w]; (simp add: s g(2))?; simp add: same_client_def core_def)+
  then show "links ?e = links e" by simp
  have poll: "\<not> sync_poll (cmem e c)" using inv tr(2) c(1) by (auto simp: server_inv_def transport_inv_def sync_inv_def)
  have cnt: "client_count P ?e = client_count P e" if "\<not> P (cmem e c)" for P
  proof -
    have "filter (\<lambda>x. P (cmem e x)) (remove1 c xs) = filter (\<lambda>x. P (cmem e x)) xs" for xs
      using that by (induction xs) auto
    then show ?thesis by (simp add: client_count_def)
  qed
  have "transport_inv ?e"
    using inv tr cnt [of active_slowsync] cnt [of sync_poll] poll g(2)
    by (auto simp: server_inv_def transport_inv_def sync_inv_def master_inv_def s)
  moreover have "owners_ok ?e"
    using inv c(2) unfolding server_inv_def owners_ok_def portless_def by (simp add: s) (metis DiffI singletonD)
  moreover have "clients_ok ?e" using inv by (auto simp: server_inv_def clients_ok_def s intro: inj_on_diff)
  moreover have "registry_inv ?e" using r(1) inv by (simp add: registry_inv_def server_inv_def)
  ultimately show "server_inv ?e" by (simp add: server_inv_def)
qed

lemma remove_by_id_remove1:
  "inj_on (\<lambda>c. cl_id (m c)) (set cs) \<Longrightarrow> c \<in> set cs \<Longrightarrow> remove_by_id m (cl_id (m c)) cs = remove1 c cs"
  by (induction cs) (auto simp: inj_on_def)

section \<open>Zombies and removal\<close>

lemma kept_reg_dead_error:
  assumes "kept_reg e e'" "dead (cmem e c)"
  shows "cl_error (cmem e' c) = cl_error (cmem e c)"
  using arg_cong [OF kept_reg_owner_aside [OF assms(1), of c], of cl_error] assms(2) kept_reg_client(6) [OF assms(1), of c]
  by (simp add: client_owner_aside_def client_aside_def)

text \<open>What an operation on client \<open>c\<close> leaves alone of the clients.\<close>

definition others_same :: "cptr \<Rightarrow> jack_engine_t \<Rightarrow> jack_engine_t \<Rightarrow> bool" where
  "others_same c e e' \<longleftrightarrow>
     (\<forall>x. cl_id (cmem e' x) = cl_id (cmem e x) \<and> cl_name (cmem e' x) = cl_name (cmem e x) \<and>
          cl_type (cmem e' x) = cl_type (cmem e x) \<and> handle (cmem e' x) = handle (cmem e x) \<and>
          session_reply_pending (cmem e' x) = session_reply_pending (cmem e x)) \<and>
     (\<forall>x. x \<noteq> c \<longrightarrow> dead (cmem e' x) = dead (cmem e x) \<and>
          (dead (cmem e x) \<longrightarrow> cl_error (cmem e' x) = cl_error (cmem e x))) \<and>
     nozombies e' = nozombies e \<and> next_client_id e' = next_client_id e \<and> next_cptr e' = next_cptr e \<and>
     reserved_client_names e' = reserved_client_names e \<and> driver_client e' = driver_client e"

lemma others_same_trans: "others_same c a b \<Longrightarrow> others_same c b d \<Longrightarrow> others_same c a d"
  by (simp add: others_same_def)

lemma others_kept_reg: "kept_reg e e' \<Longrightarrow> others_same c e e'"
  by (simp add: others_same_def kept_reg_client kept_reg_engine kept_reg_dead_error)

lemma others_transport_only: "transport_only e e' \<Longrightarrow> others_same c e e'"
  by (simp add: others_same_def transport_only_client transport_only_engine)

lemma server_dead: "server_inv (upd_client c (\<lambda>r. r\<lparr>dead := d\<rparr>) e) = server_inv e"
proof -
  let ?e = "upd_client c (\<lambda>r. r\<lparr>dead := d\<rparr>) e"
  have m: "cl_id (cmem ?e x) = cl_id (cmem e x)" "cl_name (cmem ?e x) = cl_name (cmem e x)" "is_timebase (cmem ?e x) = is_timebase (cmem e x)"
    "sync_poll (cmem ?e x) = sync_poll (cmem e x)" "active_slowsync (cmem ?e x) = active_slowsync (cmem e x)"
    "is_slowsync (cmem ?e x) = is_slowsync (cmem e x)" for x by simp_all
  have "core ?e = core e" by (auto simp: core_def upd_client_def)
  then have "registry_inv ?e = registry_inv e" by (simp add: registry_inv_def graph_inv_def)
  moreover have "client_count P ?e = client_count P e" if "\<And>x. P (cmem ?e x) = P (cmem e x)" for P
    unfolding client_count_def using that by simp
  then have "transport_inv ?e = transport_inv e" using m by (simp add: transport_inv_def sync_inv_def master_inv_def)
  moreover have "owners_ok ?e = owners_ok e" "clients_ok ?e = clients_ok e"
    using m by (simp_all add: owners_ok_def clients_ok_def upd_client_def)
  ultimately show ?thesis by (simp add: server_inv_def)
qed

lemma own_ports:
  assumes "server_inv e" "c \<in> set (clients e)"
  shows "p \<in> set (cl_ports (cmem e c)) \<Longrightarrow> p < length (ports e)"
    "p < length (ports e) \<Longrightarrow> in_use (ports e ! p) \<Longrightarrow> p_client_id (ports e ! p) = cl_id (cmem e c) \<Longrightarrow> p \<in> set (cl_ports (cmem e c))"
  using assms by (auto simp: server_inv_def registry_inv_def graph_inv_def ginv_def gbooks_def ports_ok_def)

lemma disconnect_ports_Value:
  assumes inv: "server_inv e" and c: "c \<in> set (clients e)"
  shows "\<exists>e'. jack_client_disconnect_ports e c = Value e' \<and> server_inv e' \<and> kept_reg e e' \<and> portless e' c \<and> others_calm c e e' \<and>
    mset (clients e') = mset (clients e) \<and> links e' = links e - (\<Union>p \<in> set (cl_ports (cmem e c)). at_port p)"
proof -
  obtain e1 where e1: "disconnect_each e (cl_ports (cmem e c)) = Value e1" "server_inv e1" "kept_reg e e1"
    "mset (clients e1) = mset (clients e)" "length (ports e1) = length (ports e)"
    "links e1 = links e - (\<Union>p \<in> set (cl_ports (cmem e c)). at_port p)"
    "\<forall>q < length (ports e). p_client_id (ports e1 ! q) = p_client_id (ports e ! q) \<and>
        in_use (ports e1 ! q) = (in_use (ports e ! q) \<and> q \<notin> set (cl_ports (cmem e c)))"
    using disconnect_each_Value [OF inv] own_ports(1) [OF inv c] by blast
  have pl: "portless e1 c"
    using own_ports(2) [OF inv c] e1(5,7) kept_reg_client(1) [OF e1(3), of c] by (auto simp: portless_def)
  have c1: "c \<in> set (clients e1)" using c mset_eq_setD [OF e1(4)] by simp
  note d = disown_server [OF e1(2) c1 pl]
  have "jack_client_disconnect_ports e c = Value (disowned e1 c)"
    using e1(1) by (simp add: jack_client_disconnect_ports_def disowned_def)
  moreover have "portless (disowned e1 c) c" using pl by (simp add: portless_def disowned_def upd_client_def)
  moreover have "mset (clients (disowned e1 c)) = mset (clients e)" using e1(4) by (simp add: disowned_def)
  moreover have "others_calm c e (disowned e1 c)"
    using kept_reg_trans [OF e1(3) d(3)] e1(5,7) by (intro others_calm_kept_reg) (simp_all add: disowned_def upd_client_def)
  ultimately show ?thesis using d e1(6) kept_reg_trans [OF e1(3) d(3)] by auto
qed

lemma do_deactivate_Value:
  assumes inv: "server_inv e" and c: "c \<in> set (clients e)"
  shows "\<exists>e'. jack_client_do_deactivate e c False = Value e' \<and> server_inv e' \<and> transport_only e e' \<and> others_calm c e e' \<and>
    \<not> active (cmem e' c) \<and> \<not> active_slowsync (cmem e' c) \<and> (dead (cmem e c) \<longrightarrow> timebase_client e' \<noteq> Some c)"
proof -
  let ?a = "upd_client c (\<lambda>r. r\<lparr>active := False\<rparr>) e"
  have ta: "transport_only e ?a" by (rule air_client_fields) simp
  have "transport_inv ?a"
    using inv c by (auto simp: server_inv_def transport_inv_def sync_inv_def master_inv_def)
  then obtain e1 where e1: "jack_transport_client_exit ?a c = Value e1" "transport_inv e1"
    "\<not> active_slowsync (cmem e1 c)" "dead (cmem e c) \<longrightarrow> timebase_client e1 \<noteq> Some c"
    using exit_Value [of ?a c] c by auto
  have t1: "transport_only e e1" by (rule air_exit [OF e1(1) ta])
  have act: "\<not> active (cmem e1 c)"
  proof -
    have d: "active (cmem y x) = active (cmem z x)" if "jack_sync_poll_deactivate z b = Value y" for x y z b
      using that unfolding jack_sync_poll_deactivate_def Let_def by (auto split: if_splits)
    show ?thesis using e1(1) unfolding jack_transport_client_exit_def Let_def
      by (auto simp: c_map_Value split: if_splits dest: d)
  qed
  define e2 where "e2 = (if \<not> jack_client_is_internal (cmem e1 c) \<and> 0 < external_client_cnt e1
                 then e1\<lparr>external_client_cnt := external_client_cnt e1 - 1\<rparr> else e1)"
  have t2: "transport_only e e2" unfolding e2_def using t1 by (simp add: air_fields)
  have f2: "cmem e2 = cmem e1" "timebase_client e2 = timebase_client e1" "clients e2 = clients e1" "control e2 = control e1"
    by (simp_all add: e2_def)
  have "transport_inv e2"
    using e1(2) f2 by (simp add: transport_inv_def sync_inv_def master_inv_def client_count_def)
  then have "server_inv e2" by (rule server_transport_only [OF inv t2])
  moreover have "jack_client_do_deactivate e c False = Value e2"
    using e1(1) by (simp add: jack_client_do_deactivate_def e2_def Let_def)
  moreover have "others_calm c e e2"
  proof -
    have "others_calm c e ?a" "others_calm c e1 e2" by (simp_all add: others_calm_def e2_def upd_client_def)
    then show ?thesis using others_calm_trans others_calm_exit [OF e1(1)] by blast
  qed
  ultimately show ?thesis using t2 act e1(3,4) f2 by auto
qed

lemma zombify_Value:
  assumes inv: "server_inv e" and c: "c \<in> set (clients e)"
  shows "\<exists>e'. jack_zombify_client e c = Value e' \<and> server_inv e' \<and> others_same c e e' \<and> portless e' c \<and> others_calm c e e' \<and>
    cl_error (cmem e' c) = cl_error (cmem e c) \<and>
    mset (clients e') = mset (clients e) \<and> dead (cmem e' c) \<and> \<not> active (cmem e' c) \<and> \<not> active_slowsync (cmem e' c) \<and>
    timebase_client e' \<noteq> Some c \<and> links e' = links e - (\<Union>p \<in> set (cl_ports (cmem e c)). at_port p)"
proof -
  let ?d = "upd_client c (\<lambda>r. r\<lparr>dead := True\<rparr>) e"
  have d: "server_inv ?d" using inv by (simp add: server_dead)
  have od: "others_same c e ?d" by (simp add: others_same_def upd_client_def)
  have ld: "links ?d = links e" by (rule links_core) (auto simp: core_def upd_client_def)
  obtain e1 where e1: "jack_client_disconnect_ports ?d c = Value e1" "server_inv e1" "kept_reg ?d e1" "portless e1 c"
    "mset (clients e1) = mset (clients e)" "links e1 = links e - (\<Union>p \<in> set (cl_ports (cmem e c)). at_port p)" "others_calm c ?d e1"
    using disconnect_ports_Value [OF d, of c] c ld by auto
  have c1: "c \<in> set (clients e1)" "dead (cmem e1 c)" using c mset_eq_setD [OF e1(5)] kept_reg_client(6) [OF e1(3), of c] by simp_all
  obtain e2 where e2: "jack_client_do_deactivate e1 c False = Value e2" "server_inv e2" "transport_only e1 e2"
    "\<not> active (cmem e2 c)" "\<not> active_slowsync (cmem e2 c)" "timebase_client e2 \<noteq> Some c" "others_calm c e1 e2"
    using do_deactivate_Value [OF e1(2) c1(1)] c1(2) by blast
  note tc = transport_only_client [OF e2(3)] and te = transport_only_engine [OF e2(3)]
  have "jack_zombify_client e c = Value e2" using e1(1) e2(1) by (simp add: jack_zombify_client_def)
  moreover have "others_same c e e2"
    by (rule others_same_trans [OF others_same_trans [OF od others_kept_reg [OF e1(3)]] others_transport_only [OF e2(3)]])
  moreover have "portless e2 c" using e1(4) by (simp add: portless_def tc te)
  moreover have "others_calm c e e2"
    using others_calm_trans [OF others_calm_trans [OF _ e1(7)] e2(7), of e] by (simp add: others_calm_def upd_client_def)
  moreover have "links e2 = links e1" by (rule links_core) (simp add: core_def tc te)
  moreover have "cl_error (cmem e2 c) = cl_error (cmem e c)" using kept_reg_dead_error [OF e1(3), of c] tc by simp
  ultimately show ?thesis using e2 e1(5,6) c1(2) tc te by auto
qed

lemma server_fields:
  "server_inv (e\<lparr>session_pending_replies := x\<rparr>) = server_inv e" "server_inv (e\<lparr>session_reply_fd := fd\<rparr>) = server_inv e"
  "server_inv (e\<lparr>new_clients_allowed := b\<rparr>) = server_inv e" "server_inv (e\<lparr>shut_down := b\<rparr>) = server_inv e"
  "server_inv (e\<lparr>reserved_client_names := rs\<rparr>) = server_inv e"
  by (simp_all add: server_inv_def registry_inv_def graph_inv_def core_def buffers_ok_def free_ok_def placed_ok_def
      port_buffer_ok_def buffer_of_type_def transport_inv_def sync_inv_def master_inv_def client_count_def
      owners_ok_def clients_ok_def)

lemma answer_session_simps [simp]:
  "server_inv (answer_session e c) = server_inv e" "cmem (answer_session e c) = cmem e" "clients (answer_session e c) = clients e"
  "ports (answer_session e c) = ports e" "core (answer_session e c) = core e" "timebase_client (answer_session e c) = timebase_client e"
  by (simp_all add: answer_session_def Let_def server_fields core_def)

lemma shut_down_simps [simp]:
  "server_inv (shut_down_if_last e) = server_inv e" "cmem (shut_down_if_last e) = cmem e" "clients (shut_down_if_last e) = clients e"
  "core (shut_down_if_last e) = core e" "ports (shut_down_if_last e) = ports e"
  by (simp_all add: shut_down_if_last_def server_fields core_def)

lemma client_notify_frame:
  "same_graph e (jack_client_registration_notify e n yn)" "kept e (jack_client_registration_notify e n yn)"
  unfolding jack_client_registration_notify_def Let_def by (intro graph_frame same_graph_refl) (intro kept_frame kept_refl)

text \<open>An internal client's \<open>finish\<close> function runs while the server holds the graph lock, so it cannot make
  requests: it leaves the engine alone.\<close>

definition leaves_engine :: "(jack_engine_t \<Rightarrow> jack_engine_t) \<Rightarrow> bool" where
  "leaves_engine finish \<longleftrightarrow> (\<forall>e. finish e = e)"

lemma unload_leaves: "leaves_engine finish \<Longrightarrow> jack_client_unload finish e c = e"
  by (simp add: jack_client_unload_def leaves_engine_def)

text \<open>A dead client that is still on the list has been taken out of the graph and the transport; only
  active clients are polled by the transport.\<close>

definition dead_ok :: "jack_engine_t \<Rightarrow> cptr \<Rightarrow> bool" where
  "dead_ok e c \<longleftrightarrow> (dead (cmem e c) \<longrightarrow> portless e c \<and> timebase_client e \<noteq> Some c \<and> \<not> active (cmem e c)) \<and>
     (active_slowsync (cmem e c) \<longrightarrow> active (cmem e c))"

definition removed_links :: "jack_engine_t \<Rightarrow> cptr \<Rightarrow> (pidx \<times> pidx) set" where
  "removed_links e c = (if dead (cmem e c) then links e else links e - (\<Union>p \<in> set (cl_ports (cmem e c)). at_port p))"

lemma remove_Value:
  assumes inv: "server_inv e" and c: "c \<in> set (clients e)" "dead_ok e c" and fin: "leaves_engine finish"
  shows "\<exists>e'. jack_remove_client finish e c = Value e' \<and> server_inv e' \<and> others_same c e e' \<and> others_calm c e e' \<and>
    dead (cmem e' c) \<and> cl_error (cmem e' c) = cl_error (cmem e c) \<and>
    mset (clients e') = mset (remove1 c (clients e)) \<and> links e' = removed_links e c"
proof -
  obtain e1 where e1: "(if dead (cmem e c) then Value e else jack_zombify_client e c) = Value e1" "server_inv e1" "others_same c e e1"
    "portless e1 c" "mset (clients e1) = mset (clients e)" "timebase_client e1 \<noteq> Some c" "\<not> active_slowsync (cmem e1 c)"
    "links e1 = removed_links e c" "others_calm c e e1" "dead (cmem e1 c)" "cl_error (cmem e1 c) = cl_error (cmem e c)"
  proof (cases "dead (cmem e c)")
    case True
    then show ?thesis using that [of e] inv c(2) by (auto simp: dead_ok_def others_same_def removed_links_def)
  next
    case False
    then show ?thesis using that zombify_Value [OF inv c(1)] by (auto simp: removed_links_def)
  qed
  have c1: "c \<in> set (clients e1)" using c(1) mset_eq_setD [OF e1(5)] by simp
  let ?s = "answer_session e1 c"
  have g: "graph_inv e1" using e1(2) by (simp add: server_inv_def registry_inv_def)
  have rm: "remove_by_id (cmem e1) (cl_id (cmem e1 c)) (clients e1) = remove1 c (clients e1)"
    by (rule remove_by_id_remove1 [OF graph_ids(1) [OF g] c1])
  define e3 where "e3 = ?s\<lparr>clients := remove1 c (clients e1)\<rparr>"
  have s3: "server_inv ?s" "c \<in> set (clients ?s)" "portless ?s c" using e1(2,4) c1 by (simp_all add: portless_def)
  have t3: "timebase_client ?s \<noteq> Some c" "\<not> active_slowsync (cmem ?s c)" using e1(6,7) by simp_all
  have e3: "server_inv e3" "links e3 = links ?s" using drop_server [OF s3 t3] by (simp_all add: e3_def)
  have os: "others_same c e1 e3"
    by (simp add: others_same_def e3_def answer_session_def Let_def)
  define e4 where "e4 = jack_client_delete e3 c"
  have f4: "same_graph e3 e4" "kept e3 e4" unfolding e4_def jack_client_delete_def by (rule client_notify_frame)+
  have s4: "server_inv e4" by (rule server_same [OF e3(1) f4])
  have val: "jack_remove_client finish e c = Value (shut_down_if_last e4)"
  proof -
    have "jack_remove_client finish e c = c_map (\<lambda>e1.
          let e2 = answer_session e1 c;
              e3 = e2\<lparr>clients := remove_by_id (cmem e2) (cl_id (cmem e2 c)) (clients e2)\<rparr>
          in shut_down_if_last (jack_client_delete e3 c)) (if dead (cmem e c) then Value e else jack_zombify_client e c)"
      unfolding jack_remove_client_def Let_def unload_leaves [OF fin] if_cancel ..
    then show ?thesis unfolding e1(1) using rm by (simp add: Let_def e4_def e3_def)
  qed
  have o4: "others_same c e (shut_down_if_last e4)"
  proof -
    have "others_same c e4 (shut_down_if_last e4)" by (simp add: others_same_def) (simp add: shut_down_if_last_def)
    then show ?thesis
      using others_same_trans [OF e1(3) others_same_trans [OF os others_same_trans [OF others_kept_reg [OF kept_kept_reg [OF f4(2)]]]]]
      by blast
  qed
  have "mset (clients (shut_down_if_last e4)) = mset (remove1 c (clients e))"
    using f4(1) e1(5) by (simp add: same_graph_def e3_def)
  moreover have "links (shut_down_if_last e4) = removed_links e c"
  proof -
    have "core (shut_down_if_last e4) = core e3" using f4(1) by (simp add: same_graph_def)
    moreover have "links ?s = links e1" by (rule links_core) simp
    ultimately show ?thesis using links_core [of "shut_down_if_last e4" e3] e3(2) e1(8) by simp
  qed
  moreover have "others_calm c e (shut_down_if_last e4)"
  proof -
    have "others_calm c e1 e3" by (simp add: others_calm_def e3_def)
    moreover have "others_calm c e4 (shut_down_if_last e4)" by (simp add: others_calm_def) (simp add: shut_down_if_last_def)
    ultimately show ?thesis using others_calm_trans e1(9) others_calm_kept [OF f4(2)] by blast
  qed
  moreover have "dead (cmem e4 c)" "cl_error (cmem e4 c) = cl_error (cmem e c)"
    using e1(10,11) kept_client [OF f4(2), of c] kept_dead_error [OF f4(2), of c] by (simp_all add: e3_def)
  ultimately show ?thesis using val s4 o4 by auto
qed

end
