(* ===== verification/Client_Ops.thy ===== *)
theory Client_Ops
  imports Client_Inv
begin

text \<open>
  What the operations on clients do to the server: they return, and they keep the invariant of the
  server together with the rule that a zombie has no part in graph or transport any more. The loop
  that removes failed clients ends within the number of rounds given to it.
\<close>

section \<open>The invariant with zombies\<close>

definition server_ok :: "jack_engine_t \<Rightarrow> bool" where
  "server_ok e \<longleftrightarrow> server_inv e \<and> (\<forall>c \<in> set (clients e). dead_ok e c)"

lemma dead_ok_others:
  assumes "dead_ok e x" "x \<noteq> c" "others_same c e e'" "others_calm c e e'"
  shows "dead_ok e' x"
  using assms unfolding dead_ok_def others_same_def others_calm_def portless_def by metis

lemma server_ok_others:
  assumes ok: "server_ok e" and e': "server_inv e'" "others_same c e e'" "others_calm c e e'"
    and cl: "\<And>x. x \<in> set (clients e') \<Longrightarrow> x \<noteq> c \<Longrightarrow> x \<in> set (clients e)" and c: "c \<in> set (clients e') \<Longrightarrow> dead_ok e' c"
  shows "server_ok e'"
  unfolding server_ok_def
proof (intro conjI ballI)
  fix x assume x: "x \<in> set (clients e')"
  show "dead_ok e' x"
  proof (cases "x = c")
    case False
    then show ?thesis using dead_ok_others [OF _ False e'(2,3)] ok cl [OF x False] by (simp add: server_ok_def)
  qed (use c x in simp)
qed (rule e'(1))

lemma zombify_ok:
  assumes "server_ok e" "c \<in> set (clients e)"
  shows "\<exists>e'. jack_zombify_client e c = Value e' \<and> server_ok e' \<and> others_same c e e' \<and> portless e' c \<and>
    mset (clients e') = mset (clients e) \<and> dead (cmem e' c) \<and> \<not> active (cmem e' c) \<and>
    links e' = links e - (\<Union>p \<in> set (cl_ports (cmem e c)). at_port p)"
proof -
  obtain e' where e': "jack_zombify_client e c = Value e'" "server_inv e'" "others_same c e e'" "portless e' c" "others_calm c e e'"
    "mset (clients e') = mset (clients e)" "dead (cmem e' c)" "\<not> active (cmem e' c)" "\<not> active_slowsync (cmem e' c)"
    "timebase_client e' \<noteq> Some c" "links e' = links e - (\<Union>p \<in> set (cl_ports (cmem e c)). at_port p)"
    using zombify_Value [of e c] assms by (auto simp: server_ok_def)
  have "server_ok e'"
    using server_ok_others [OF assms(1) e'(2,3,5)] mset_eq_setD [OF e'(6)] e'(4,8,9,10) by (simp add: dead_ok_def)
  then show ?thesis using e' by blast
qed

lemma remove_ok:
  assumes "server_ok e" "c \<in> set (clients e)" "leaves_engine finish"
  shows "\<exists>e'. jack_remove_client finish e c = Value e' \<and> server_ok e' \<and> others_same c e e' \<and> c \<notin> set (clients e') \<and>
    dead (cmem e' c) \<and> cl_error (cmem e' c) = cl_error (cmem e c) \<and>
    mset (clients e') = mset (remove1 c (clients e)) \<and> links e' = removed_links e c"
proof -
  have d: "distinct (clients e)" using assms(1) graph_ids(2) by (auto simp: server_ok_def server_inv_def registry_inv_def)
  obtain e' where e': "jack_remove_client finish e c = Value e'" "server_inv e'" "others_same c e e'" "others_calm c e e'"
    "mset (clients e') = mset (remove1 c (clients e))" "links e' = removed_links e c" "dead (cmem e' c)"
    "cl_error (cmem e' c) = cl_error (cmem e c)"
    using remove_Value [of e c finish] assms by (auto simp: server_ok_def)
  have s: "set (clients e') = set (clients e) - {c}" using mset_eq_setD [OF e'(5)] d by simp
  have "server_ok e'" using server_ok_others [OF assms(1) e'(2,3,4)] s by auto
  then show ?thesis using e' s by auto
qed

section \<open>Changes the invariant does not see\<close>

definition client_seen :: "jack_client_internal_t \<Rightarrow> jack_client_internal_t" where
  "client_seen r = r\<lparr>cl_uid := 0, timed_out := 0, awake_at := 0, finished_at := 0, process_cbset := False, thread_cb_cbset := False,
     port_register_cbset := False, port_connect_cbset := False, client_register_cbset := False, sync_cb_cbset := False,
     timebase_cb_cbset := False, timebase_new := False, sync_new := False, request_fd := 0, event_fd := 0, subgraph_start_fd := 0,
     subgraph_wait_fd := 0, tfedcount := 0, execution_order := 0, next_client := None, cl_error := 0,
     session_reply_pending := False, handle := False, cl_state := NotTriggered, last_status := 0, session_cbset := False,
     session_command := [], session_flags := 0\<rparr>"

definition seen :: "jack_engine_t \<Rightarrow> jack_engine_t" where
  "seen e = e\<lparr>cmem := (\<lambda>c. client_seen (cmem e c)), reserved_client_names := [], external_client_cnt := 0, timeout_count := 0,
     problems := 0, session_pending_replies := 0, session_reply_fd := 0, temporary := False, wait_pid := 0, shut_down := False,
     new_clients_allowed := False, nozombies := False, freewheeling := False, stop_freewheeling := False, fwclient := 0,
     slave_drivers := [], process_errors := 0, fifo_fd := (\<lambda>_. 0), audio_out_cnt := 0, audio_in_cnt := 0, midi_out_cnt := 0,
     midi_in_cnt := 0, io := (\<lambda>_. \<lparr>process_alive = True, event_written = True, poll_result = PollError, status_read = None\<rparr>),
     io_pos := 0, trace := [], sent := []\<rparr>"

lemma server_ok_seen: "server_ok (seen e) = server_ok e"
proof -
  have c: "core (seen e) = core e" by (simp add: core_def seen_def client_seen_def)
  have "registry_inv (seen e) = registry_inv e"
    using c by (simp add: registry_inv_def graph_inv_def buffers_ok_def free_ok_def placed_ok_def port_buffer_ok_def buffer_of_type_def)
      (simp add: seen_def)
  moreover have "transport_inv (seen e) = transport_inv e"
    by (simp add: transport_inv_def sync_inv_def master_inv_def client_count_def seen_def client_seen_def)
  moreover have "owners_ok (seen e) = owners_ok e" "clients_ok (seen e) = clients_ok e"
    by (simp_all add: owners_ok_def clients_ok_def seen_def client_seen_def)
  moreover have "(\<forall>c \<in> set (clients (seen e)). dead_ok (seen e) c) = (\<forall>c \<in> set (clients e). dead_ok e c)"
    by (simp add: dead_ok_def portless_def seen_def client_seen_def)
  ultimately show ?thesis by (simp add: server_ok_def server_inv_def)
qed

definition unseen :: "jack_engine_t \<Rightarrow> jack_engine_t \<Rightarrow> bool" where
  "unseen e e' \<longleftrightarrow> seen e' = seen e"

lemma unseen_refl [simp, intro]: "unseen e e"
  by (simp add: unseen_def)

lemma unseen_trans: "unseen a b \<Longrightarrow> unseen b c \<Longrightarrow> unseen a c"
  by (simp add: unseen_def)

lemma unseen_ok: "unseen e e' \<Longrightarrow> server_ok e' = server_ok e"
  by (metis server_ok_seen unseen_def)

named_theorems unseen_frame

lemma unseen_client:
  assumes "unseen d e" "\<And>r. client_seen (f r) = client_seen r"
  shows "unseen d (upd_client c f e)"
proof -
  have "(\<lambda>x. client_seen (cmem (upd_client c f e) x)) = (\<lambda>x. client_seen (cmem e x))" using assms(2) by auto
  then have "seen (upd_client c f e) = seen e" by (simp add: seen_def upd_client_def)
  then show ?thesis using assms(1) by (simp add: unseen_def)
qed

lemma unseen_fields [unseen_frame]:
  assumes "unseen d e"
  shows "unseen d (e\<lparr>io_pos := x1\<rparr>)" "unseen d (e\<lparr>io_pos := x1, sent := x2\<rparr>)" "unseen d (e\<lparr>trace := x3\<rparr>)" "unseen d (e\<lparr>sent := x2\<rparr>)"
    "unseen d (e\<lparr>problems := x4\<rparr>)" "unseen d (e\<lparr>timeout_count := x4\<rparr>)" "unseen d (e\<lparr>session_pending_replies := x4\<rparr>)"
    "unseen d (e\<lparr>session_reply_fd := x4\<rparr>)" "unseen d (e\<lparr>reserved_client_names := x5\<rparr>)" "unseen d (e\<lparr>new_clients_allowed := b\<rparr>)"
    "unseen d (e\<lparr>freewheeling := b\<rparr>)" "unseen d (e\<lparr>stop_freewheeling := b\<rparr>)" "unseen d (e\<lparr>fwclient := x6\<rparr>)"
    "unseen d (e\<lparr>slave_drivers := x7\<rparr>)" "unseen d (e\<lparr>process_errors := n\<rparr>)" "unseen d (e\<lparr>external_client_cnt := n\<rparr>)"
    "unseen d (e\<lparr>freewheeling := b, stop_freewheeling := b2\<rparr>)" "unseen d (e\<lparr>session_reply_fd := x4, session_pending_replies := x8\<rparr>)"
  using assms by (simp_all add: unseen_def seen_def)

lemma unseen_client_fields [unseen_frame]:
  assumes "unseen d e"
  shows "unseen d (upd_client c (\<lambda>r. r\<lparr>cl_uid := x1\<rparr>) e)" "unseen d (upd_client c (\<lambda>r. r\<lparr>finished_at := x2\<rparr>) e)"
    "unseen d (upd_client c (\<lambda>r. r\<lparr>timed_out := g r, cl_error := h r\<rparr>) e)" "unseen d (upd_client c (\<lambda>r. r\<lparr>cl_error := h r\<rparr>) e)"
    "unseen d (upd_client c (\<lambda>r. r\<lparr>session_reply_pending := b\<rparr>) e)" "unseen d (upd_client c (\<lambda>r. r\<lparr>event_fd := x3\<rparr>) e)"
    "unseen d (upd_client c (\<lambda>r. r\<lparr>handle := b\<rparr>) e)"
  by (rule unseen_client [OF assms]; simp add: client_seen_def)+

lemma unseen_if [unseen_frame]: "unseen d x \<Longrightarrow> unseen d y \<Longrightarrow> unseen d (if b then x else y)"
  by simp

lemma unseen_problems [unseen_frame]: "unseen d e \<Longrightarrow> unseen d (jack_engine_signal_problems e)"
  unfolding jack_engine_signal_problems_def by (rule unseen_fields)

lemma unseen_socket_error [unseen_frame]: "unseen d e \<Longrightarrow> unseen d (client_socket_error c e)"
  unfolding client_socket_error_def by (intro unseen_frame)

lemma unseen_deliver [unseen_frame]: "unseen d e \<Longrightarrow> unseen d (fst (jack_deliver_event e c ev))"
  unfolding jack_deliver_event_def Let_def by (auto split: option.splits intro!: unseen_frame)

lemma unseen_deliver_each [unseen_frame]: "unseen d e \<Longrightarrow> unseen d (deliver_each e cs ev)"
  by (induction cs arbitrary: e) (simp_all add: unseen_deliver)

lemma unseen_deliver_all [unseen_frame]: "unseen d e \<Longrightarrow> unseen d (jack_deliver_event_to_all e ev)"
  unfolding jack_deliver_event_to_all_def by (rule unseen_deliver_each)

lemma unseen_port_notify [unseen_frame]: "unseen d e \<Longrightarrow> unseen d (jack_port_registration_notify e p yn)"
  unfolding jack_port_registration_notify_def Let_def by (intro unseen_frame)

lemma unseen_client_notify [unseen_frame]: "unseen d e \<Longrightarrow> unseen d (jack_client_registration_notify e n yn)"
  unfolding jack_client_registration_notify_def Let_def by (intro unseen_frame)

lemma unseen_mark [unseen_frame]: "unseen d e \<Longrightarrow> unseen d (jack_mark_client_socket_error e fd)"
  unfolding jack_mark_client_socket_error_def by (auto split: option.splits intro: unseen_frame)

lemma unseen_check_each: "unseen d e \<Longrightarrow> unseen d (fst (check_each fin t e cs n))"
  by (induction cs arbitrary: e n t) (simp_all add: Let_def unseen_fields unseen_client_fields)

lemma unseen_check_clients [unseen_frame]: "unseen d e \<Longrightarrow> unseen d (fst (jack_check_clients fin e t))"
  unfolding jack_check_clients_def using unseen_check_each [of d e fin t "clients e" 0]
  by (auto split: prod.splits intro: unseen_frame)

section \<open>Removing failed clients\<close>

text \<open>
  How far a client is from being settled. Removing or zombifying a client brings the sum down, and
  no operation on another client brings it up.
\<close>

definition weight :: "jack_client_internal_t \<Rightarrow> nat" where
  "weight r = (if \<not> dead r then 3 else if cl_error r \<noteq> 0 then 2 else 1)"

definition weights :: "jack_engine_t \<Rightarrow> nat" where
  "weights e = sum_list (map (\<lambda>c. weight (cmem e c)) (clients e))"

lemma weight_others: "others_same c e e' \<Longrightarrow> x \<noteq> c \<Longrightarrow> weight (cmem e' x) = weight (cmem e x)"
  by (auto simp: others_same_def weight_def)

definition rest_weight :: "jack_engine_t \<Rightarrow> cptr \<Rightarrow> nat" where
  "rest_weight e c = sum_list (map (\<lambda>c. weight (cmem e c)) (remove1 c (clients e)))"

lemma weights_split: "c \<in> set (clients e) \<Longrightarrow> weights e = weight (cmem e c) + rest_weight e c"
  unfolding weights_def rest_weight_def by (rule sum_list_map_remove1)

lemma sum_weights_mset:
  assumes "mset xs = mset ys"
  shows "sum_list (map (\<lambda>c. weight (m c)) xs) = sum_list (map (\<lambda>c. weight (m c)) ys)"
proof -
  have "mset (map (\<lambda>c. weight (m c)) xs) = mset (map (\<lambda>c. weight (m c)) ys)" using assms by simp
  then show ?thesis by (metis sum_mset_sum_list)
qed

lemma rest_weight_others:
  assumes "distinct (clients e)" "others_same c e e'"
  shows "sum_list (map (\<lambda>x. weight (cmem e' x)) (remove1 c (clients e))) = rest_weight e c"
  unfolding rest_weight_def
proof (intro arg_cong [of _ _ sum_list] map_cong refl)
  fix x assume "x \<in> set (remove1 c (clients e))"
  then have "x \<noteq> c" using assms(1) by auto
  then show "weight (cmem e' x) = weight (cmem e x)" by (rule weight_others [OF assms(2)])
qed

lemma weights_removed:
  assumes "distinct (clients e)" "c \<in> set (clients e)" "others_same c e e'" "mset (clients e') = mset (remove1 c (clients e))"
  shows "weights e' < weights e"
proof -
  have "weights e' = rest_weight e c"
    unfolding weights_def sum_weights_mset [OF assms(4), of "cmem e'"] by (rule rest_weight_others [OF assms(1,3)])
  moreover have "0 < weight (cmem e c)" by (simp add: weight_def)
  ultimately show ?thesis using weights_split [OF assms(2)] by simp
qed

lemma weights_settled:
  assumes "distinct (clients e)" "c \<in> set (clients e)" "others_same c e e'" "mset (clients e') = mset (clients e)"
    "dead (cmem e' c)" "cl_error (cmem e' c) = 0" "cl_error (cmem e c) \<noteq> 0"
  shows "weights e' < weights e"
proof -
  have c: "c \<in> set (clients e')" using assms(2) mset_eq_setD [OF assms(4)] by simp
  have "mset (remove1 c (clients e')) = mset (remove1 c (clients e))" using assms(4) by simp
  then have "rest_weight e' c = rest_weight e c"
    unfolding rest_weight_def [of e'] rest_weight_others [OF assms(1,3), symmetric] by (rule sum_weights_mset)
  then show ?thesis using weights_split [OF c] weights_split [OF assms(2)] assms(5-7) by (simp add: weight_def)
qed

lemma weights_bound: "weights e \<le> 3 * length (clients e)"
proof -
  have "sum_list (map (\<lambda>c. weight (cmem e c)) cs) \<le> 3 * length cs" for cs
    by (induction cs) (auto simp: weight_def)
  then show ?thesis by (simp add: weights_def)
qed

text \<open>The nodes still to visit, and the node after a node.\<close>

definition ahead :: "cptr list \<Rightarrow> cptr option \<Rightarrow> nat" where
  "ahead cs p = (case p of None \<Rightarrow> 0 | Some c \<Rightarrow> length (dropWhile (\<lambda>x. x \<noteq> c) cs))"

lemma ahead_le: "ahead cs p \<le> length cs"
  by (simp add: ahead_def length_dropWhile_le split: option.split)

lemma ahead_pos: "c \<in> set cs \<Longrightarrow> 0 < ahead cs (Some c)"
  by (induction cs) (auto simp: ahead_def)

lemma next_in_set: "next_in cs c = Some d \<Longrightarrow> d \<in> set cs"
  by (induction cs) (auto split: if_splits list.splits)

lemma next_in_distinct: "distinct cs \<Longrightarrow> next_in cs c = Some d \<Longrightarrow> d \<noteq> c"
proof (induction cs)
  case (Cons x xs)
  then show ?case by (cases "x = c") (auto split: list.splits)
qed simp

lemma ahead_next: "distinct cs \<Longrightarrow> c \<in> set cs \<Longrightarrow> ahead cs (next_in cs c) < ahead cs (Some c)"
proof (induction cs)
  case (Cons x xs)
  show ?case
  proof (cases "x = c")
    case True
    then show ?thesis by (cases xs) (use Cons.prems in \<open>auto simp: ahead_def\<close>)
  next
    case False
    then have "ahead (x # xs) (next_in (x # xs) c) \<le> ahead xs (next_in xs c)"
      using Cons.prems next_in_set [of xs c] by (auto simp: ahead_def split: option.split)
    moreover have "ahead (x # xs) (Some c) = ahead xs (Some c)" using False by (simp add: ahead_def)
    ultimately show ?thesis using Cons False by simp
  qed
qed simp

lemma zombify_settle:
  assumes "server_ok e" "c \<in> set (clients e)"
  shows "\<exists>e'. c_map (upd_client c (\<lambda>r. r\<lparr>cl_error := 0\<rparr>)) (jack_zombify_client e c) = Value e' \<and> server_ok e' \<and>
    others_same c e e' \<and> mset (clients e') = mset (clients e) \<and> dead (cmem e' c) \<and> cl_error (cmem e' c) = 0"
proof -
  obtain e1 where e1: "jack_zombify_client e c = Value e1" "server_ok e1" "others_same c e e1" "mset (clients e1) = mset (clients e)"
    "dead (cmem e1 c)" using zombify_ok [OF assms] by blast
  let ?e = "upd_client c (\<lambda>r. r\<lparr>cl_error := 0\<rparr>) e1"
  have "server_ok ?e" using unseen_ok [of e1 ?e] e1(2) by (simp add: unseen_client_fields)
  moreover have "others_same c e ?e"
  proof -
    have "others_same c e1 ?e" by (simp add: others_same_def upd_client_def)
    then show ?thesis by (rule others_same_trans [OF e1(3)])
  qed
  moreover have "c_map (upd_client c (\<lambda>r. r\<lparr>cl_error := 0\<rparr>)) (jack_zombify_client e c) = Value ?e" by (simp add: e1(1))
  ultimately show ?thesis using e1(4,5) by (intro exI [of _ ?e]) simp
qed

text \<open>What the loop leaves of the clients: nobody comes, and who has gone had lost its socket.\<close>

definition lost :: "jack_engine_t \<Rightarrow> jack_engine_t \<Rightarrow> bool" where
  "lost e e' \<longleftrightarrow> set (clients e') \<subseteq> set (clients e) \<and>
     (\<forall>x. x \<in> set (clients e) \<and> x \<notin> set (clients e') \<longrightarrow> dead (cmem e' x) \<and> JACK_ERROR_WITH_SOCKETS \<le> cl_error (cmem e' x)) \<and>
     (\<forall>x. x \<notin> set (clients e) \<and> dead (cmem e x) \<longrightarrow> dead (cmem e' x) \<and> cl_error (cmem e' x) = cl_error (cmem e x))"

lemma lost_refl [simp]: "lost e e"
  by (simp add: lost_def)

lemma lost_trans:
  assumes ab: "lost a b" and bc: "lost b c"
  shows "lost a c"
proof -
  have s: "set (clients c) \<subseteq> set (clients b)" "set (clients b) \<subseteq> set (clients a)" using ab bc by (auto simp: lost_def)
  have keep: "dead (cmem c x) \<and> cl_error (cmem c x) = cl_error (cmem b x)" if "x \<notin> set (clients b)" "dead (cmem b x)" for x
    using bc that by (auto simp: lost_def)
  have gone: "dead (cmem c x) \<and> JACK_ERROR_WITH_SOCKETS \<le> cl_error (cmem c x)" if "x \<in> set (clients a)" "x \<notin> set (clients c)" for x
  proof (cases "x \<in> set (clients b)")
    case True
    then show ?thesis using bc that(2) by (simp add: lost_def)
  next
    case False
    then have "dead (cmem b x)" "JACK_ERROR_WITH_SOCKETS \<le> cl_error (cmem b x)" using ab that(1) by (auto simp: lost_def)
    then show ?thesis using keep [OF False] by simp
  qed
  have "dead (cmem c x) \<and> cl_error (cmem c x) = cl_error (cmem a x)" if x: "x \<notin> set (clients a)" "dead (cmem a x)" for x
  proof -
    have "dead (cmem b x)" "cl_error (cmem b x) = cl_error (cmem a x)" using ab x by (auto simp: lost_def)
    moreover have "x \<notin> set (clients b)" using x(1) s(2) by blast
    ultimately show ?thesis using keep by simp
  qed
  then show ?thesis using s gone by (auto simp: lost_def)
qed

lemma lost_same:
  assumes "others_same c e e'" "c \<in> set (clients e)" "mset (clients e') = mset (clients e)"
  shows "lost e e'"
  using assms mset_eq_setD [OF assms(3)] by (auto simp: lost_def others_same_def)

lemma lost_removed:
  assumes "others_same c e e'" "c \<in> set (clients e)" "set (clients e') = set (clients e) - {c}"
    "dead (cmem e' c)" "JACK_ERROR_WITH_SOCKETS \<le> cl_error (cmem e' c)"
  shows "lost e e'"
  using assms by (auto simp: lost_def others_same_def)

text \<open>One visit to a client with an error: the weights go down, or nothing happens.\<close>

lemma visit_Value:
  assumes ok: "server_ok e" and c: "c \<in> set (clients e)" and fin: "leaves_engine finish" and err: "cl_error (cmem e c) \<noteq> 0"
  shows "\<exists>e1. (if JACK_ERROR_WITH_SOCKETS \<le> cl_error (cmem e c) then jack_remove_client finish e c
      else if \<not> nozombies e then c_map (upd_client c (\<lambda>r. r\<lparr>cl_error := 0\<rparr>)) (jack_zombify_client e c) else Value e) = Value e1 \<and>
    server_ok e1 \<and> lost e e1 \<and> (e1 = e \<or> weights e1 < weights e) \<and> set (clients e) - {c} \<subseteq> set (clients e1) \<and>
    length (clients e1) \<le> length (clients e)"
proof -
  have d: "distinct (clients e)" using ok graph_ids(2) by (auto simp: server_ok_def server_inv_def registry_inv_def)
  consider "JACK_ERROR_WITH_SOCKETS \<le> cl_error (cmem e c)" | "\<not> JACK_ERROR_WITH_SOCKETS \<le> cl_error (cmem e c)" "\<not> nozombies e"
    | "\<not> JACK_ERROR_WITH_SOCKETS \<le> cl_error (cmem e c)" "nozombies e" by blast
  then show ?thesis
  proof cases
    case 1
    obtain e1 where e1: "jack_remove_client finish e c = Value e1" "server_ok e1" "others_same c e e1" "dead (cmem e1 c)"
      "cl_error (cmem e1 c) = cl_error (cmem e c)" "mset (clients e1) = mset (remove1 c (clients e))"
      using remove_ok [OF ok c fin] by blast
    have s: "set (clients e1) = set (clients e) - {c}" using mset_eq_setD [OF e1(6)] d by simp
    have "length (clients e1) = length (remove1 c (clients e))" using e1(6) mset_eq_length by blast
    then have l: "length (clients e1) \<le> length (clients e)" using c by (simp add: length_remove1)
    show ?thesis using 1 e1 s l weights_removed [OF d c e1(3,6)] lost_removed [OF e1(3) c s e1(4)] by auto
  next
    case 2
    obtain e1 where e1: "c_map (upd_client c (\<lambda>r. r\<lparr>cl_error := 0\<rparr>)) (jack_zombify_client e c) = Value e1" "server_ok e1"
      "others_same c e e1" "mset (clients e1) = mset (clients e)" "dead (cmem e1 c)" "cl_error (cmem e1 c) = 0"
      using zombify_settle [OF ok c] by blast
    show ?thesis
      using 2 e1 weights_settled [OF d c e1(3-6) err] lost_same [OF e1(3) c e1(4)] mset_eq_setD [OF e1(4)] mset_eq_length [OF e1(4)]
      by auto
  qed (use ok in auto)
qed

lemma remove_loop_Value:
  assumes "server_ok e" "\<And>c. p = Some c \<Longrightarrow> c \<in> set (clients e)" "leaves_engine finish" "length (clients e) \<le> n"
    "weights e * (n + 1) + ahead (clients e) p \<le> fuel"
  shows "\<exists>e' s x. remove_loop fuel finish e p need_sort exit_fw = Value (e', s, x) \<and> server_ok e' \<and> lost e e'"
  using assms
proof (induction fuel arbitrary: e p need_sort exit_fw)
  case 0
  then have "p = None" using ahead_pos by (cases p) fastforce+
  then show ?case using 0(1) by simp
next
  case (Suc fuel)
  show ?case
  proof (cases p)
    case None
    then show ?thesis using Suc.prems(1) by simp
  next
    case (Some c)
    have c: "c \<in> set (clients e)" using Suc.prems(2) Some by simp
    have d: "distinct (clients e)" using Suc.prems(1) graph_ids(2) by (auto simp: server_ok_def server_inv_def registry_inv_def)
    let ?t = "next_in (clients e) c"
    have t: "x \<in> set (clients e) - {c}" if "?t = Some x" for x
      using next_in_set [OF that] next_in_distinct [OF d that] by simp
    show ?thesis
    proof (cases "cl_error (cmem e c) = 0")
      case True
      have "weights e * (n + 1) + ahead (clients e) ?t \<le> fuel" using ahead_next [OF d c] Suc.prems(5) Some by simp
      then show ?thesis
        using Suc.IH [of e ?t need_sort exit_fw] Suc.prems(1,3,4) t True Some by (auto simp: Let_def)
    next
      case False
      let ?v = "if JACK_ERROR_WITH_SOCKETS \<le> cl_error (cmem e c) then jack_remove_client finish e c
        else if \<not> nozombies e then c_map (upd_client c (\<lambda>r. r\<lparr>cl_error := 0\<rparr>)) (jack_zombify_client e c) else Value e"
      obtain e1 where e1: "?v = Value e1"
        "server_ok e1" "lost e e1" "e1 = e \<or> weights e1 < weights e" "set (clients e) - {c} \<subseteq> set (clients e1)"
        "length (clients e1) \<le> length (clients e)"
        using visit_Value [OF Suc.prems(1) c Suc.prems(3) False] by blast
      have "weights e1 * (n + 1) + ahead (clients e1) ?t \<le> fuel"
      proof (cases "e1 = e")
        case True
        then show ?thesis using ahead_next [OF d c] Suc.prems(5) Some by simp
      next
        case False
        then have "Suc (weights e1) * (n + 1) \<le> weights e * (n + 1)" using e1(4) by (intro mult_le_mono) auto
        then show ?thesis using ahead_le [of "clients e1" ?t] e1(6) Suc.prems(4,5) ahead_pos [OF c] Some by simp
      qed
      moreover have "x \<in> set (clients e1)" if "?t = Some x" for x using t [OF that] e1(5) by auto
      ultimately obtain e' s x where "remove_loop fuel finish e1 ?t True (exit_fw \<or> (freewheeling e \<and> cl_id (cmem e c) = fwclient e)) = Value (e', s, x)"
        "server_ok e'" "lost e1 e'"
        using Suc.IH [OF e1(2) _ Suc.prems(3), of ?t] e1(6) Suc.prems(4) by (meson le_trans)
      moreover have "remove_loop (Suc fuel) finish e p need_sort exit_fw =
        c_bind ?v (\<lambda>e1. remove_loop fuel finish e1 ?t True (exit_fw \<or> (freewheeling e \<and> cl_id (cmem e c) = fwclient e)))"
        using False Some by (simp add: Let_def)
      ultimately show ?thesis unfolding e1(1) using lost_trans [OF e1(3)] by auto
    qed
  qed
qed

end
