(* ===== verification/Requests.thy ===== *)
theory Requests
  imports Client_Engine
begin

text \<open>
  Requests to the server, \<open>server/engine.c\<close>: questions about connections, sessions, freewheeling,
  the dispatch of \<open>do_request\<close> and the handler of a client's request socket. The answers of the
  file system, of the drivers and of the thread library are parameters; a write to a socket takes
  the next answer of \<open>io\<close> and, when it succeeds, appends to \<open>sent\<close>.
\<close>

definition write_fd :: "jack_engine_t \<Rightarrow> int \<Rightarrow> reply \<Rightarrow> jack_engine_t \<times> bool" where
  "write_fd e fd msg =
     (let d = io e (io_pos e); e0 = e\<lparr>io_pos := Suc (io_pos e)\<rparr>
      in if event_written d then (e0\<lparr>sent := sent e0 @ [(fd, msg)]\<rparr>, True) else (e0, False))"

text \<open>Several writes to one socket; the first one that fails ends the sequence.\<close>

fun write_all :: "jack_engine_t \<Rightarrow> int \<Rightarrow> reply list \<Rightarrow> jack_engine_t \<times> bool" where
  "write_all e fd [] = (e, True)"
| "write_all e fd (m # ms) = (case write_fd e fd m of (e1, ok) \<Rightarrow> if ok then write_all e1 fd ms else (e1, False))"

section \<open>The connections of a port\<close>

definition other_end :: "jack_engine_t \<Rightarrow> pidx \<Rightarrow> kptr \<Rightarrow> pidx" where
  "other_end e p k = (if source (conns e k) = p then destination (conns e k) else source (conns e k))"

definition asks_internally :: "jack_engine_t \<Rightarrow> int \<Rightarrow> bool" where
  "asks_internally e reply_fd =
     (case find (\<lambda>c. request_fd (cmem e c) = reply_fd) (clients e) of
        None \<Rightarrow> False
      | Some c \<Rightarrow> jack_client_is_internal (cmem e c))"

text \<open>The port number is not checked: one past the array reads outside of it.\<close>

definition jack_do_get_port_connections ::
  "jack_engine_t \<Rightarrow> bool \<Rightarrow> nat \<Rightarrow> int \<Rightarrow> (jack_engine_t \<times> int \<times> string list) c_result" where
  "jack_do_get_port_connections e with_names port_id reply_fd =
     (if length (ports e) \<le> port_id then Undefined
      else
        (let ks = connections (ports e ! port_id);
             others = map (other_end e port_id) ks
         in if asks_internally e reply_fd
            then Value (e, 0, if with_names then map (\<lambda>q. p_name (ports e ! q)) others else [])
            else
              (case write_fd e reply_fd (ReplyCount (length ks)) of (e1, ok) \<Rightarrow>
                 if \<not> ok then Value (e1, -1, [])
                 else if with_names then
                   (case write_all e1 reply_fd (map ReplyPort others) of
                      (e2, ok2) \<Rightarrow> Value (e2, if ok2 then 0 else -1, []))
                 else Value (e1, 0, []))))"

section \<open>Sessions\<close>

definition jack_engine_get_max_uuid :: "jack_engine_t \<Rightarrow> u32" where
  "jack_engine_get_max_uuid e =
     fold (\<lambda>c retval. if retval < cl_uid (cmem e c) then cl_uid (cmem e c) else retval) (clients e) 0"

definition jack_do_get_client_by_uuid :: "jack_engine_t \<Rightarrow> u32 \<Rightarrow> int \<times> string option" where
  "jack_do_get_client_by_uuid e uuid =
     (case find (\<lambda>c. cl_uid (cmem e c) = uuid) (clients e) of
        None \<Rightarrow> (-1, None)
      | Some c \<Rightarrow> (0, Some (take (JACK_PORT_NAME_SIZE - 1) (cl_name (cmem e c)))))"

definition jack_do_reserve_name :: "bool \<Rightarrow> jack_engine_t \<Rightarrow> string \<Rightarrow> u32 \<Rightarrow> jack_engine_t \<times> int" where
  "jack_do_reserve_name malloc_ok e name uuid =
     (if list_ex (\<lambda>c. cl_name (cmem e c) = name) (clients e) then (e, -1)
      else if \<not> malloc_ok then (e, -1)
      else (e\<lparr>reserved_client_names :=
                jack_slist_append (reserved_client_names e) (uuid, take (JACK_CLIENT_NAME_SIZE - 1) name)\<rparr>, 0))"

definition jack_send_session_reply :: "jack_engine_t \<Rightarrow> cptr \<Rightarrow> jack_engine_t \<times> int" where
  "jack_send_session_reply e c =
     (case write_all e (session_reply_fd e)
             [ReplyUuid (cl_uid (cmem e c)), ReplyName (cl_name (cmem e c)),
              ReplyCommand (session_command (cmem e c)), ReplyFlags (session_flags (cmem e c))] of
        (e1, ok) \<Rightarrow> (e1, if ok then 0 else -1))"

record session_request =
  sr_path :: string
  sr_type :: u32
  sr_target :: string

fun assign_uuids :: "jack_engine_t \<Rightarrow> cptr list \<Rightarrow> jack_engine_t" where
  "assign_uuids e [] = e"
| "assign_uuids e (c # cs) =
     assign_uuids (if cl_uid (cmem e c) = 0 then upd_client c (\<lambda>r. r\<lparr>cl_uid := jack_engine_get_max_uuid e + 1\<rparr>) e else e) cs"

definition session_dir :: "string \<Rightarrow> string \<Rightarrow> string" where
  "session_dir path name =
     take (JACK_PORT_NAME_SIZE - 1) (if last path = CHR ''/'' then path @ name @ ''/'' else path @ ''/'' @ name @ ''/'')"

text \<open>The loop that tells the clients; the flag is \<open>False\<close> when it goes to \<open>error_out\<close>.\<close>

fun notify_each :: "(string \<Rightarrow> bool) \<Rightarrow> session_request \<Rightarrow> jack_engine_t \<Rightarrow> cptr list \<Rightarrow> jack_engine_t \<times> bool" where
  "notify_each mkdir_ok rq e [] = (e, True)"
| "notify_each mkdir_ok rq e (c # cs) =
     (if session_cbset (cmem e c) \<and> (sr_target rq = [] \<or> sr_target rq = cl_name (cmem e c)) then
        (let path = session_dir (sr_path rq) (cl_name (cmem e c)) in
         if \<not> mkdir_ok path then (e, True)
         else case jack_deliver_event e c (SaveSession (sr_type rq) path) of (e1, reply) \<Rightarrow>
           if reply = 1 then
             notify_each mkdir_ok rq
               (upd_client c (\<lambda>r. r\<lparr>session_reply_pending := True\<rparr>)
                  (e1\<lparr>session_pending_replies := session_pending_replies e1 + 1\<rparr>)) cs
           else if reply = 2 then
             (case jack_send_session_reply e1 c of (e2, err) \<Rightarrow>
                if err \<noteq> 0 then (e2, False) else notify_each mkdir_ok rq e2 cs)
           else notify_each mkdir_ok rq e1 cs)
      else notify_each mkdir_ok rq e cs)"

definition send_final :: "jack_engine_t \<Rightarrow> int \<Rightarrow> jack_engine_t \<times> int" where
  "send_final e reply_fd =
     (case write_fd e reply_fd (ReplyUuid 0) of
        (e1, ok) \<Rightarrow> if ok then (e1\<lparr>session_reply_fd := -1\<rparr>, 0) else (e1, -3))"

text \<open>\<open>stat\<close> fails on an empty path, whatever else it says.\<close>

definition jack_do_session_notify ::
  "(string \<Rightarrow> bool) \<Rightarrow> (string \<Rightarrow> bool) \<Rightarrow> jack_engine_t \<Rightarrow> session_request \<Rightarrow> int \<Rightarrow> jack_engine_t \<times> int" where
  "jack_do_session_notify is_dir mkdir_ok e rq reply_fd =
     (if session_reply_fd e \<noteq> -1 then send_final e reply_fd
      else
        (let e1 = assign_uuids (e\<lparr>session_reply_fd := reply_fd, session_pending_replies := 0\<rparr>) (clients e)
         in if sr_path rq = [] \<or> \<not> is_dir (sr_path rq) then send_final e1 reply_fd
            else case notify_each mkdir_ok rq e1 (clients e1) of (e2, ok) \<Rightarrow>
              if \<not> ok then (e2, -3)
              else if session_pending_replies e2 \<noteq> 0 then (e2, 0)
              else send_final e2 reply_fd))"

definition jack_do_has_session_cb :: "jack_engine_t \<Rightarrow> string \<Rightarrow> int" where
  "jack_do_has_session_cb e name =
     (case jack_client_by_name e name of
        None \<Rightarrow> -1
      | Some c \<Rightarrow> if session_cbset (cmem e c) then 1 else 0)"

text \<open>A reply that names an unknown client is a write through a null pointer.\<close>

definition jack_do_session_reply :: "jack_engine_t \<Rightarrow> u32 \<Rightarrow> (jack_engine_t \<times> int) c_result" where
  "jack_do_session_reply e client_id =
     (case jack_client_internal_by_id e client_id of
        None \<Rightarrow> Undefined
      | Some c \<Rightarrow>
          (let e1 = upd_client c (\<lambda>r. r\<lparr>session_reply_pending := False\<rparr>) e in
           if session_reply_fd e1 = -1 then Value (e1, 0)
           else
             (let e2 = e1\<lparr>session_pending_replies := session_pending_replies e1 - 1\<rparr> in
              case jack_send_session_reply e2 c of (e3, err) \<Rightarrow>
                if err \<noteq> 0 then Value (e3\<lparr>session_reply_fd := -1\<rparr>, 0)
                else if session_pending_replies e3 = 0 then
                  (case write_fd e3 (session_reply_fd e3) (ReplyUuid 0) of
                     (e4, ok) \<Rightarrow> Value (e4\<lparr>session_reply_fd := -1\<rparr>, if ok then 0 else -1))
                else Value (e3, 0))))"

section \<open>Drivers and freewheeling\<close>

record driver_world =
  d_start :: "jack_engine_t \<Rightarrow> jack_engine_t \<times> int"
  d_stop :: "jack_engine_t \<Rightarrow> jack_engine_t \<times> int"
  s_start :: "nat \<Rightarrow> jack_engine_t \<Rightarrow> jack_engine_t \<times> int"
  s_stop :: "nat \<Rightarrow> jack_engine_t \<Rightarrow> jack_engine_t \<times> int"
  s_detach :: "nat \<Rightarrow> jack_engine_t \<Rightarrow> jack_engine_t"
  thread_ok :: bool
  joined :: "jack_engine_t \<Rightarrow> jack_engine_t"

text \<open>\<open>joined\<close>: what the freewheel thread has done by the time it ends.\<close>

definition jack_slave_driver_remove :: "driver_world \<Rightarrow> jack_engine_t \<Rightarrow> nat \<Rightarrow> jack_engine_t" where
  "jack_slave_driver_remove w e s =
     (let e1 = s_detach w s e in e1\<lparr>slave_drivers := jack_slist_remove (slave_drivers e1) s\<rparr>)"

fun start_slaves :: "driver_world \<Rightarrow> jack_engine_t \<Rightarrow> nat list \<Rightarrow> nat list \<Rightarrow> jack_engine_t \<times> nat list" where
  "start_slaves w e [] failed = (e, failed)"
| "start_slaves w e (s # ss) failed =
     (case s_start w s e of (e1, err) \<Rightarrow> start_slaves w e1 ss (if err \<noteq> 0 then jack_slist_append failed s else failed))"

definition jack_drivers_start :: "driver_world \<Rightarrow> jack_engine_t \<Rightarrow> jack_engine_t \<times> int" where
  "jack_drivers_start w e =
     (case start_slaves w e (slave_drivers e) [] of (e1, failed_drivers) \<Rightarrow>
        d_start w (fold (\<lambda>s x. jack_slave_driver_remove w x s) failed_drivers e1))"

definition jack_drivers_stop :: "driver_world \<Rightarrow> jack_engine_t \<Rightarrow> jack_engine_t \<times> int" where
  "jack_drivers_stop w e =
     (case d_stop w e of (e1, retval) \<Rightarrow> (fold (\<lambda>s x. fst (s_stop w s x)) (slave_drivers e1) e1, retval))"

definition jack_start_freewheeling :: "driver_world \<Rightarrow> jack_engine_t \<Rightarrow> u32 \<Rightarrow> (jack_engine_t \<times> int) c_result" where
  "jack_start_freewheeling w e client_id =
     (if freewheeling e then Value (e, 0)
      else case driver_client e of
        None \<Rightarrow> Value (e, -1)
      | Some d \<Rightarrow>
          (case jack_drivers_stop w e of (e1, err) \<Rightarrow>
             if err \<noteq> 0 then Value (e1, -1)
             else case jack_client_internal_by_id e1 client_id of
               None \<Rightarrow> Undefined
             | Some c \<Rightarrow>
                 (let e2 = (if process_cbset (cmem e1 c) \<or> thread_cb_cbset (cmem e1 c) then e1\<lparr>fwclient := client_id\<rparr> else e1);
                      e3 = jack_deliver_event_to_all (e2\<lparr>freewheeling := True, stop_freewheeling := False\<rparr>) StartFreewheel
                  in Value (e3, if thread_ok w then 0 else -1))))"

definition jack_stop_freewheeling :: "driver_world \<Rightarrow> jack_engine_t \<Rightarrow> bool \<Rightarrow> jack_engine_t \<times> int" where
  "jack_stop_freewheeling w e engine_exiting =
     (if \<not> freewheeling e then (e, 0)
      else if driver_client e = None then (e, -1)
      else
        (let e1 = (joined w (e\<lparr>stop_freewheeling := True\<rparr>))\<lparr>fwclient := 0, freewheeling := False\<rparr>
         in if engine_exiting then (e1, 0)
            else case jack_drivers_start w (jack_deliver_event_to_all e1 StopFreewheel) of
              (e2, err) \<Rightarrow> (e2, if err \<noteq> 0 then -1 else 0)))"

section \<open>Dispatch\<close>

datatype jack_request =
    RegisterPort port_info
  | UnRegisterPort u32 nat
  | ConnectPorts string string
  | DisconnectPort nat
  | DisconnectPorts string string
  | ActivateClient u32
  | DeactivateClient u32
  | SetTimeBaseClient u32 bool
  | ResetTimeBaseClient u32
  | SetSyncClient u32
  | ResetSyncClient u32
  | SetSyncTimeout u64
  | GetPortConnections nat
  | GetPortNConnections nat
  | FreeWheel u32
  | StopFreeWheel
  | SetBufferSize jack_nframes_t
  | IntClientHandle string
  | IntClientLoad string u32
  | IntClientName u32
  | IntClientUnload u32
  | RecomputeTotalLatencies
  | RecomputeTotalLatency nat
  | GetClientByUUID u32
  | ReserveName string u32
  | SessionReply u32
  | SessionNotify session_request
  | SessionHasCallback string
  | OtherRequest

text \<open>What the answer carries besides the status.\<close>

datatype answer = NoAnswer | AnswerPort pidx | AnswerName string | AnswerId u32 | AnswerNames "string list"

record request_world =
  rw_client :: client_world
  rw_drivers :: driver_world
  rw_bufsize :: "jack_engine_t \<Rightarrow> jack_nframes_t \<Rightarrow> jack_engine_t \<times> int"
  rw_is_dir :: "string \<Rightarrow> bool"
  rw_mkdir_ok :: "string \<Rightarrow> bool"
  rw_malloc_ok :: bool

definition status_int :: "u32 \<Rightarrow> int" where "status_int st = int (unat st)"

definition answer_name :: "string option \<Rightarrow> answer" where
  "answer_name n = (case n of None \<Rightarrow> NoAnswer | Some s \<Rightarrow> AnswerName s)"

text \<open>
  \<open>reply_fd\<close> is \<open>None\<close> for a request of an internal client, where the code has a null pointer. The
  result is the engine, the status, the rest of the answer and whether the caller still has to send
  it. \<open>status0\<close> is what the request held as its status before.
\<close>

fun do_request :: "request_world \<Rightarrow> jack_engine_t \<Rightarrow> jack_request \<Rightarrow> int \<Rightarrow> int option \<Rightarrow>
    (jack_engine_t \<times> int \<times> answer \<times> bool) c_result" where
  "do_request w e (RegisterPort rq) status0 reply_fd =
     (case jack_port_do_register e rq (reply_fd = None) of
        (e1, st, p) \<Rightarrow> Value (e1, st, (case p of None \<Rightarrow> NoAnswer | Some i \<Rightarrow> AnswerPort i), reply_fd \<noteq> None))"
| "do_request w e (UnRegisterPort client_id port_id) status0 reply_fd =
     c_map (\<lambda>(e1, st). (e1, st, NoAnswer, reply_fd \<noteq> None)) (jack_port_do_unregister e client_id port_id)"
| "do_request w e (ConnectPorts src dst) status0 reply_fd =
     c_map (\<lambda>(e1, st). (e1, st, NoAnswer, reply_fd \<noteq> None)) (jack_port_do_connect e src dst)"
| "do_request w e (DisconnectPort port_id) status0 reply_fd =
     c_map (\<lambda>(e1, st). (e1, st, NoAnswer, reply_fd \<noteq> None)) (jack_port_do_disconnect_all e port_id)"
| "do_request w e (DisconnectPorts src dst) status0 reply_fd =
     c_map (\<lambda>(e1, st). (e1, st, NoAnswer, reply_fd \<noteq> None)) (jack_port_do_disconnect e src dst)"
| "do_request w e (ActivateClient client_id) status0 reply_fd =
     c_map (\<lambda>(e1, st). (e1, st, NoAnswer, reply_fd \<noteq> None)) (jack_client_activate e client_id)"
| "do_request w e (DeactivateClient client_id) status0 reply_fd =
     c_map (\<lambda>(e1, st). (e1, st, NoAnswer, reply_fd \<noteq> None)) (jack_client_deactivate e client_id)"
| "do_request w e (SetTimeBaseClient client_id conditional) status0 reply_fd =
     (case jack_timebase_set e client_id conditional of (e1, st) \<Rightarrow> Value (e1, st, NoAnswer, reply_fd \<noteq> None))"
| "do_request w e (ResetTimeBaseClient client_id) status0 reply_fd =
     (case jack_timebase_reset e client_id of (e1, st) \<Rightarrow> Value (e1, st, NoAnswer, reply_fd \<noteq> None))"
| "do_request w e (SetSyncClient client_id) status0 reply_fd =
     (case jack_transport_client_set_sync e client_id of (e1, st) \<Rightarrow> Value (e1, st, NoAnswer, reply_fd \<noteq> None))"
| "do_request w e (ResetSyncClient client_id) status0 reply_fd =
     c_map (\<lambda>(e1, st). (e1, st, NoAnswer, reply_fd \<noteq> None)) (jack_transport_client_reset_sync e client_id)"
| "do_request w e (SetSyncTimeout timeout) status0 reply_fd =
     (case jack_transport_set_sync_timeout e timeout of (e1, st) \<Rightarrow> Value (e1, st, NoAnswer, reply_fd \<noteq> None))"
| "do_request w e (GetPortConnections port_id) status0 reply_fd =
     (case reply_fd of
        None \<Rightarrow> Undefined
      | Some fd \<Rightarrow> c_map (\<lambda>(e1, st, names). (e1, st, AnswerNames names, st \<noteq> 0)) (jack_do_get_port_connections e True port_id fd))"
| "do_request w e (GetPortNConnections port_id) status0 reply_fd =
     (case reply_fd of
        None \<Rightarrow> Undefined
      | Some fd \<Rightarrow> c_map (\<lambda>(e1, st, names). (e1, st, NoAnswer, st \<noteq> 0)) (jack_do_get_port_connections e False port_id fd))"
| "do_request w e (FreeWheel client_id) status0 reply_fd =
     c_map (\<lambda>(e1, st). (e1, st, NoAnswer, reply_fd \<noteq> None)) (jack_start_freewheeling (rw_drivers w) e client_id)"
| "do_request w e StopFreeWheel status0 reply_fd =
     (case jack_stop_freewheeling (rw_drivers w) e False of (e1, st) \<Rightarrow> Value (e1, st, NoAnswer, reply_fd \<noteq> None))"
| "do_request w e (SetBufferSize nframes) status0 reply_fd =
     (case jack_set_buffer_size_request (rw_bufsize w) e nframes of (e1, st) \<Rightarrow> Value (e1, st, NoAnswer, reply_fd \<noteq> None))"
| "do_request w e (IntClientHandle name) status0 reply_fd =
     (case jack_intclient_handle_request e name of
        (st, ident) \<Rightarrow> Value (e, status_int st, (case ident of None \<Rightarrow> NoAnswer | Some i \<Rightarrow> AnswerId i), reply_fd \<noteq> None))"
| "do_request w e (IntClientLoad name options) status0 reply_fd =
     c_map (\<lambda>(e1, st, ident). (e1, status_int st, AnswerId ident, reply_fd \<noteq> None))
       (jack_intclient_load_request (rw_client w) e name options)"
| "do_request w e (IntClientName ident) status0 reply_fd =
     (case jack_intclient_name_request e ident of
        (st, name) \<Rightarrow> Value (e, status_int st, answer_name name, reply_fd \<noteq> None))"
| "do_request w e (IntClientUnload ident) status0 reply_fd =
     c_map (\<lambda>(e1, st). (e1, status_int st, NoAnswer, reply_fd \<noteq> None)) (jack_intclient_unload_request (rw_client w) e ident)"
| "do_request w e RecomputeTotalLatencies status0 reply_fd =
     c_map (\<lambda>e1. (e1, 0, NoAnswer, reply_fd \<noteq> None)) (jack_compute_new_latency (jack_compute_all_port_total_latencies e))"
| "do_request w e (RecomputeTotalLatency port_id) status0 reply_fd =
     (if length (ports e) \<le> port_id then Undefined
      else Value (jack_compute_port_total_latency e port_id, 0, NoAnswer, reply_fd \<noteq> None))"
| "do_request w e (GetClientByUUID uuid) status0 reply_fd =
     (case jack_do_get_client_by_uuid e uuid of (st, name) \<Rightarrow> Value (e, st, answer_name name, reply_fd \<noteq> None))"
| "do_request w e (ReserveName name uuid) status0 reply_fd =
     (case jack_do_reserve_name (rw_malloc_ok w) e name uuid of (e1, st) \<Rightarrow> Value (e1, st, NoAnswer, reply_fd \<noteq> None))"
| "do_request w e (SessionReply client_id) status0 reply_fd =
     c_map (\<lambda>(e1, st). (e1, st, NoAnswer, reply_fd \<noteq> None)) (jack_do_session_reply e client_id)"
| "do_request w e (SessionNotify rq) status0 reply_fd =
     (case reply_fd of
        None \<Rightarrow> Undefined
      | Some fd \<Rightarrow> (case jack_do_session_notify (rw_is_dir w) (rw_mkdir_ok w) e rq fd of
                      (e1, st) \<Rightarrow> Value (e1, st, NoAnswer, st < 0)))"
| "do_request w e (SessionHasCallback name) status0 reply_fd =
     Value (e, jack_do_has_session_cb e name, NoAnswer, reply_fd \<noteq> None)"
| "do_request w e OtherRequest status0 reply_fd = Value (e, status0, NoAnswer, reply_fd \<noteq> None)"

section \<open>The request socket of a client\<close>

datatype request_read = RequestEof | RequestShort | RequestRead jack_request int

text \<open>\<open>reply_ok\<close>: whether the answer can be written. The result is what the handler returns.\<close>

definition handle_external_client_request ::
  "request_world \<Rightarrow> bool \<Rightarrow> jack_engine_t \<Rightarrow> int \<Rightarrow> request_read \<Rightarrow> (jack_engine_t \<times> int) c_result" where
  "handle_external_client_request w reply_ok e fd rd =
     (case find (\<lambda>c. request_fd (cmem e c) = fd) (clients e) of
        None \<Rightarrow> Value (e, -1)
      | Some c \<Rightarrow>
          (case rd of
             RequestEof \<Rightarrow> Value (e, 1)
           | RequestShort \<Rightarrow> Value (e, -1)
           | RequestRead req status0 \<Rightarrow>
               c_map (\<lambda>(e1, st, ans, to_send). (e1, if to_send \<and> 0 \<le> fd \<and> \<not> reply_ok then -1 else 0))
                 (do_request w e req status0 (Some fd))))"

text \<open>The client opens a second socket for the events and says which client it is.\<close>

definition handle_client_ack_connection :: "jack_engine_t \<Rightarrow> int \<Rightarrow> u32 option \<Rightarrow> jack_engine_t \<times> int" where
  "handle_client_ack_connection e client_fd rd =
     (case rd of
        None \<Rightarrow> (e, -1)
      | Some client_id \<Rightarrow>
          (case jack_client_internal_by_id e client_id of
             None \<Rightarrow> (e, -1)
           | Some c \<Rightarrow>
               (case write_fd (upd_client c (\<lambda>r. r\<lparr>event_fd := client_fd\<rparr>) e) client_fd ReplyAck of
                  (e1, ok) \<Rightarrow> (e1, if ok then 0 else -1))))"

end
