(* ===== verification/Server_Ops.thy ===== *)
theory Server_Ops
  imports Client_Ops Requests
begin

text \<open>
  Every operation the server can be asked for returns and keeps the invariant of the server:
  connection requests, registration, activation, creation and removal of clients, transport
  requests, sessions and freewheeling.
\<close>

section \<open>Graph requests\<close>

lemma dead_ok_kept: "kept e e' \<Longrightarrow> dead_ok e c \<Longrightarrow> dead_ok e' c"
  by (simp add: dead_ok_def portless_def kept_engine kept_port kept_client)

lemma server_graph: "server_ok e \<Longrightarrow> graph_inv e" "server_ok e \<Longrightarrow> registry_inv e" "server_ok e \<Longrightarrow> transport_inv e"
  "server_ok e \<Longrightarrow> server_inv e" "server_ok e \<Longrightarrow> distinct (clients e)"
  by (auto simp: server_ok_def server_inv_def registry_inv_def dest: graph_ids(2))

lemma kept_ok:
  assumes "server_ok e" "kept e e'" "mset (clients e') = mset (clients e)" "graph_inv e'"
  shows "server_ok e'"
  using assms server_kept [OF server_graph(4) [OF assms(1)] assms(2-4)] dead_ok_kept [OF assms(2)] mset_eq_setD [OF assms(3)]
  by (simp add: server_ok_def)

lemma same_graph_ok:
  assumes "server_ok e" "same_graph e e'" "kept e e'"
  shows "server_ok e'"
proof (rule kept_ok [OF assms(1,3)])
  show "mset (clients e') = mset (clients e)" using assms(2) by (simp add: same_graph_def)
  show "graph_inv e'" using same_graph_inv [OF assms(2)] server_graph(1) [OF assms(1)] by simp
qed

lemma sort_ok:
  assumes "server_ok e"
  shows "\<exists>e'. jack_sort_graph e = Value e' \<and> server_ok e' \<and> kept e e' \<and> core e' = core e \<and> mset (clients e') = mset (clients e)"
proof -
  obtain e' where e': "jack_sort_graph e = Value e'" "core e' = core e" "mset (clients e') = mset (clients e)"
    using sort_graph_Value [OF server_graph(1) [OF assms]] by blast
  have "graph_inv e'" using sort_graph_inv [OF server_graph(1) [OF assms]] e'(1) by auto
  moreover have "kept e e'" by (rule kept_sort_graph [OF e'(1) kept_refl])
  ultimately show ?thesis using e' kept_ok [OF assms] by blast
qed

lemma clear_ok:
  assumes "server_ok e" "p < length (ports e)"
  shows "\<exists>e'. jack_port_clear_connections e p = Value e' \<and> server_ok e' \<and> kept e e' \<and> mset (clients e') = mset (clients e) \<and>
    links e' = links e - at_port p"
proof -
  obtain e' where e': "jack_port_clear_connections e p = Value e'" "server_inv e'" "kept e e'" "mset (clients e') = mset (clients e)"
    "links e' = links e - at_port p"
    using clear_server [OF server_graph(4) [OF assms(1)] assms(2)] by blast
  have "graph_inv e'" using e'(2) by (simp add: server_inv_def registry_inv_def)
  then show ?thesis using e' kept_ok [OF assms(1)] by blast
qed

lemma connect_ok:
  assumes "server_ok e"
  shows "\<exists>e' r. jack_port_do_connect e s d = Value (e', r) \<and> server_ok e'"
proof (cases "connect_checks e s d")
  case (Inl err)
  then show ?thesis using assms by (simp add: jack_port_do_connect_def)
next
  case (Inr x)
  then obtain src dst sc dc where x: "connect_checks e s d = Inr (src, dst, sc, dc)" by (metis prod_cases4)
  obtain e' r where e': "jack_port_do_connect e s d = Value (e', r)" "graph_inv e'" "mset (clients e') = mset (clients e)"
    using connect_Value [OF server_graph(1) [OF assms] x] by blast
  then show ?thesis using kept_ok [OF assms kept_connect [OF e'(1) kept_refl] e'(3,2)] by blast
qed

lemma disconnect_internal_ok:
  assumes "server_ok e" "src < length (ports e)"
  shows "\<exists>e' r. jack_port_disconnect_internal e src dst = Value (e', r) \<and> server_ok e'"
proof -
  obtain e' r where e': "jack_port_disconnect_internal e src dst = Value (e', r)" "graph_inv e'" "mset (clients e') = mset (clients e)"
    using disconnect_Value [OF server_graph(1) [OF assms(1)], of src dst] assms(2) by blast
  then show ?thesis using kept_ok [OF assms(1) kept_disconnect [OF e'(1) kept_refl] e'(3,2)] by blast
qed

lemma disconnect_ok:
  assumes "server_ok e"
  shows "\<exists>e' r. jack_port_do_disconnect e s d = Value (e', r) \<and> server_ok e'"
proof (cases "jack_get_port_by_name e s = None \<or> jack_get_port_by_name e d = None")
  case True
  then show ?thesis using assms by (auto simp: jack_port_do_disconnect_def split: option.splits)
next
  case False
  then obtain src dst where n: "jack_get_port_by_name e s = Some src" "jack_get_port_by_name e d = Some dst" by auto
  then show ?thesis using disconnect_internal_ok [OF assms, of src dst] by_name_Some [OF n(1)] by (simp add: jack_port_do_disconnect_def)
qed

lemma disconnect_all_ok:
  assumes "server_ok e" "p \<noteq> length (ports e)"
  shows "\<exists>e' r. jack_port_do_disconnect_all e p = Value (e', r) \<and> server_ok e'"
proof (cases "p < length (ports e)")
  case True
  obtain e1 where e1: "jack_port_clear_connections e p = Value e1" "server_ok e1" using clear_ok [OF assms(1) True] by blast
  obtain e2 where "jack_sort_graph e1 = Value e2" "server_ok e2" using sort_ok [OF e1(2)] by blast
  then show ?thesis using e1 True by (simp add: jack_port_do_disconnect_all_def)
next
  case False
  then show ?thesis using assms by (simp add: jack_port_do_disconnect_all_def)
qed

lemma remove_clients_ok:
  assumes "server_ok e" "leaves_engine finish"
  shows "\<exists>e' x. jack_remove_clients finish e = Value (e', x) \<and> server_ok e' \<and> lost e e'"
proof -
  let ?p = "case clients e of [] \<Rightarrow> None | c # _ \<Rightarrow> Some c"
  have fuel: "weights e * (length (clients e) + 1) + ahead (clients e) ?p \<le> remove_rounds e"
    using weights_bound [of e] ahead_le [of "clients e" ?p]
      mult_le_mono1 [OF weights_bound [of e], of "length (clients e) + 1"] by (simp add: remove_rounds_def algebra_simps)
  have p: "c \<in> set (clients e)" if "?p = Some c" for c using that by (auto split: list.splits)
  obtain e1 s x where e1: "remove_loop (remove_rounds e) finish e ?p False False = Value (e1, s, x)" "server_ok e1" "lost e e1"
    using remove_loop_Value [OF assms(1) p assms(2) order_refl fuel] by blast
  obtain e2 where e2: "jack_sort_graph e1 = Value e2" "server_ok e2" "kept e1 e2" "mset (clients e2) = mset (clients e1)"
    using sort_ok [OF e1(2)] by blast
  have "lost e1 e2" using mset_eq_setD [OF e2(4)] kept_client [OF e2(3)] kept_dead_error [OF e2(3)] by (simp add: lost_def)
  then show ?thesis using e1 e2 lost_trans by (cases s) (auto simp: jack_remove_clients_def)
qed

section \<open>Activation\<close>

lemma activate_transport_frame:
  assumes "jack_transport_activate e c = Value e'"
  shows "ports e' = ports e" "timebase_client e' = timebase_client e"
    "\<forall>x. active (cmem e' x) = active (cmem e x) \<and> (x \<noteq> c \<longrightarrow> active_slowsync (cmem e' x) = active_slowsync (cmem e x))"
  using assms unfolding jack_transport_activate_def
  by (auto simp: c_map_Value jack_sync_poll_new_def Let_def upd_client_def upd_control_def split: if_splits)

lemma unseen_ports_notify: "unseen d e \<Longrightarrow> unseen d (fold (\<lambda>p e. jack_port_registration_notify e p yn) ps e)"
  by (induction ps arbitrary: e) (simp_all add: unseen_port_notify)

lemma unseen_segments: "unseen d e \<Longrightarrow> unseen d (fold (\<lambda>i e. fst (jack_deliver_event e c (AttachPortSegment i))) is e)"
  by (induction "is" arbitrary: e) (simp_all add: unseen_deliver)

lemma activate_request_ok:
  assumes ok: "server_ok e" and c: "jack_client_internal_by_id e i = Some c" "\<not> active (cmem e c)" "\<not> dead (cmem e c)"
  shows "\<exists>e'. jack_client_activate e i = Value (e', 0) \<and> server_ok e' \<and> active (cmem e' c) \<and> links e' = links e \<and>
    mset (clients e') = mset (clients e)"
proof -
  let ?a = "upd_client c (\<lambda>r. r\<lparr>active := True\<rparr>) e"
  have cl: "c \<in> set (clients e)" using by_id_Some [OF c(1)] by simp
  have slow: "\<not> active_slowsync (cmem e c)" using ok cl c(2) by (auto simp: server_ok_def dead_ok_def)
  have ta: "transport_inv ?a"
    using server_graph(3,5) [OF ok] cl by (auto simp: transport_inv_def sync_inv_def master_inv_def)
  obtain e1 where e1: "jack_transport_activate ?a c = Value e1" "transport_inv e1"
    using activate_Value [OF ta, of c] cl slow by auto
  have t1: "transport_only e e1" by (rule air_activate [OF e1(1)]) (simp add: air_frame)
  note f1 = activate_transport_frame [OF e1(1)]
  define e2 where "e2 = e1\<lparr>external_client_cnt := Suc (external_client_cnt e1)\<rparr>"
  have "server_inv e1" by (rule server_transport_only [OF server_graph(4) [OF ok] t1 e1(2)])
  moreover have "dead_ok e1 x" if x: "x \<in> set (clients e)" for x
  proof (cases "x = c")
    case True
    then show ?thesis using f1 c(3) transport_only_client(5) [OF t1] by (simp add: dead_ok_def)
  next
    case False
    then have "dead_ok e x" using ok x by (simp add: server_ok_def)
    then show ?thesis
      using False f1 transport_only_client(1,5) [OF t1] by (auto simp: dead_ok_def portless_def upd_client_def)
  qed
  ultimately have "server_ok e1" using transport_only_engine(1) [OF t1] by (simp add: server_ok_def)
  moreover have u2: "unseen e1 e2" unfolding e2_def by (intro unseen_frame unseen_refl)
  ultimately have "server_ok e2" using unseen_ok by blast
  then obtain e3 where e3: "jack_sort_graph e2 = Value e3" "server_ok e3" "kept e2 e3" "core e3 = core e2" "mset (clients e3) = mset (clients e2)"
    using sort_ok by blast
  define e4 where "e4 = fst (jack_deliver_event (fold (\<lambda>i e. fst (jack_deliver_event e c (AttachPortSegment i)))
      [0..<length (port_types (control e3))] e3) c BufferSizeChange)"
  define e5 where "e5 = fold (\<lambda>p e. jack_port_registration_notify e p True) (cl_ports (cmem e4 c)) e4"
  have u: "unseen e3 e5" unfolding e5_def e4_def by (intro unseen_ports_notify unseen_deliver unseen_segments unseen_refl)
  have "jack_client_activate e i = Value (e5, 0)"
    using c(1) e1(1) e3(1) by (simp add: jack_client_activate_def e2_def e4_def e5_def Let_def)
  moreover have "server_ok e5" using unseen_ok [OF u] e3(2) by simp
  moreover have "active (cmem e5 c)"
  proof -
    have "client_seen (cmem e5 c) = client_seen (cmem e3 c)" using arg_cong [OF u [unfolded unseen_def], of "\<lambda>x. cmem x c"] by (simp add: seen_def)
    from arg_cong [OF this, of active] have "active (cmem e5 c) = active (cmem e3 c)" by (simp add: client_seen_def)
    then show ?thesis using kept_client(5) [OF e3(3), of c] f1(3) by (simp add: e2_def)
  qed
  moreover have "links e5 = links e" "mset (clients e5) = mset (clients e)"
  proof -
    have "core (seen x) = core x" for x by (simp add: core_def seen_def client_seen_def)
    then have "core e5 = core e3" using u unfolding unseen_def by metis
    moreover have "core e2 = core e"
      using transport_only_client [OF t1] transport_only_engine [OF t1] by (simp add: core_def e2_def)
    ultimately show "links e5 = links e" using links_core [of e5 e] e3(4) by simp
    have "clients e5 = clients e3" using arg_cong [OF u [unfolded unseen_def], of clients] by (simp add: seen_def)
    then show "mset (clients e5) = mset (clients e)" using e3(5) transport_only_engine(1) [OF t1] by (simp add: e2_def)
  qed
  ultimately show ?thesis by blast
qed

lemma do_deactivate_sorted:
  "jack_client_do_deactivate e c True = c_bind (jack_client_do_deactivate e c False) jack_sort_graph"
  by (cases "jack_transport_client_exit (upd_client c (\<lambda>r. r\<lparr>active := False\<rparr>) e) c") (simp_all add: jack_client_do_deactivate_def Let_def)

lemma do_deactivate_ok:
  assumes ok: "server_ok e" and c: "c \<in> set (clients e)"
  shows "\<exists>e'. jack_client_do_deactivate e c False = Value e' \<and> server_ok e' \<and> transport_only e e' \<and> \<not> active (cmem e' c)"
proof -
  obtain e' where e': "jack_client_do_deactivate e c False = Value e'" "server_inv e'" "transport_only e e'" "others_calm c e e'"
    "\<not> active (cmem e' c)" "\<not> active_slowsync (cmem e' c)" "dead (cmem e c) \<longrightarrow> timebase_client e' \<noteq> Some c"
    using do_deactivate_Value [OF server_graph(4) [OF ok] c] by blast
  have "dead_ok e' c"
    using ok c e'(5-7) transport_only_client [OF e'(3)] transport_only_engine [OF e'(3)]
    by (auto simp: server_ok_def dead_ok_def portless_def)
  then have "server_ok e'"
    using server_ok_others [OF ok e'(2) others_transport_only [OF e'(3)] e'(4)] transport_only_engine(1) [OF e'(3)] by simp
  then show ?thesis using e' by blast
qed

lemma clear_ports_ok:
  "server_ok e \<Longrightarrow> (\<And>p. p \<in> set ps \<Longrightarrow> p < length (ports e)) \<Longrightarrow>
   \<exists>e'. clear_ports e ps = Value e' \<and> server_ok e' \<and> kept e e' \<and> mset (clients e') = mset (clients e) \<and>
     links e' = links e - (\<Union>p \<in> set ps. at_port p)"
proof (induction ps arbitrary: e)
  case Nil
  then show ?case by simp
next
  case (Cons p ps)
  obtain e1 where e1: "jack_port_clear_connections e p = Value e1" "server_ok e1" "kept e e1" "mset (clients e1) = mset (clients e)"
    "links e1 = links e - at_port p"
    using clear_ok [OF Cons.prems(1) Cons.prems(2) [of p]] by auto
  have "q < length (ports e1)" if "q \<in> set ps" for q using Cons.prems(2) that kept_engine(1) [OF e1(3)] by simp
  then obtain e2 where e2: "clear_ports e1 ps = Value e2" "server_ok e2" "kept e1 e2" "mset (clients e2) = mset (clients e1)"
    "links e2 = links e1 - (\<Union>p \<in> set ps. at_port p)"
    using Cons.IH [OF e1(2)] by blast
  have "links e2 = links e - (\<Union>p \<in> set (p # ps). at_port p)" using e2(5) e1(5) by auto
  then show ?case using e1 e2 kept_trans [OF e1(3) e2(3)] by simp
qed

lemma deactivate_request_ok:
  assumes ok: "server_ok e" and c: "jack_client_internal_by_id e i = Some c"
  shows "\<exists>e'. jack_client_deactivate e i = Value (e', 0) \<and> server_ok e' \<and> \<not> active (cmem e' c) \<and>
    mset (clients e') = mset (clients e) \<and> links e' = links e - (\<Union>p \<in> set (cl_ports (cmem e c)). at_port p)"
proof -
  have cl: "c \<in> set (clients e)" using by_id_Some [OF c] by simp
  obtain e1 where e1: "clear_ports e (cl_ports (cmem e c)) = Value e1" "server_ok e1" "mset (clients e1) = mset (clients e)"
    "links e1 = links e - (\<Union>p \<in> set (cl_ports (cmem e c)). at_port p)"
    using clear_ports_ok [OF ok] own_ports(1) [OF server_graph(4) [OF ok] cl] by blast
  have c1: "c \<in> set (clients e1)" using cl mset_eq_setD [OF e1(3)] by simp
  obtain e2 where e2: "jack_client_do_deactivate e1 c False = Value e2" "server_ok e2" "transport_only e1 e2" "\<not> active (cmem e2 c)"
    using do_deactivate_ok [OF e1(2) c1] by blast
  obtain e3 where e3: "jack_sort_graph e2 = Value e3" "server_ok e3" "kept e2 e3" "core e3 = core e2" "mset (clients e3) = mset (clients e2)"
    using sort_ok [OF e2(2)] by blast
  have "core e2 = core e1" using transport_only_client [OF e2(3)] transport_only_engine [OF e2(3)] by (simp add: core_def)
  then have "links e3 = links e1" using links_core [of e3 e1] e3(4) by simp
  moreover have "jack_client_deactivate e i = Value (e3, 0)"
    using c e1(1) e2(1) e3(1) by (simp add: jack_client_deactivate_def do_deactivate_sorted)
  moreover have "mset (clients e3) = mset (clients e)" using e3(5) transport_only_engine(1) [OF e2(3)] e1(3) by simp
  ultimately show ?thesis using e3(2) e1(4) e2(4) kept_client(5) [OF e3(3), of c] by auto
qed

section \<open>Ports\<close>

lemma kept_reg_ok:
  assumes ok: "server_ok e" and k: "kept_reg e e'" and m: "mset (clients e') = mset (clients e)"
    and r: "registry_inv e'" and len: "length (ports e') = length (ports e)"
    and own: "\<And>q. q < length (ports e) \<Longrightarrow> in_use (ports e' ! q) \<Longrightarrow>
      (in_use (ports e ! q) \<and> p_client_id (ports e' ! q) = p_client_id (ports e ! q)) \<or>
      (\<exists>c \<in> set (clients e). \<not> dead (cmem e c) \<and> p_client_id (ports e' ! q) = cl_id (cmem e c))"
  shows "server_ok e'"
proof -
  have s: "set (clients e') = set (clients e)" using m by (rule mset_eq_setD)
  note kc = kept_reg_client [OF k] and ke = kept_reg_engine [OF k]
  have oe: "owners_ok e" using ok by (simp add: server_ok_def server_inv_def)
  have ids: "inj_on (\<lambda>c. cl_id (cmem e c)) (set (clients e))" using graph_ids(1) server_graph(1) [OF ok] by blast
  have "owners_ok e'"
    unfolding owners_ok_def
  proof (intro allI impI)
    fix q assume "q < length (ports e')" "in_use (ports e' ! q)"
    then show "\<exists>c \<in> set (clients e'). p_client_id (ports e' ! q) = cl_id (cmem e' c)"
      using own [of q] oe len s kc(1) unfolding owners_ok_def by metis
  qed
  then have "server_inv e'" using server_kept_reg [OF server_graph(4) [OF ok] k m r] by simp
  moreover have "dead_ok e' x" if x: "x \<in> set (clients e)" for x
  proof -
    have d: "dead_ok e x" using ok x by (simp add: server_ok_def)
    have "portless e' x" if dx: "dead (cmem e x)" "portless e x"
      unfolding portless_def
    proof (intro allI impI)
      fix q assume q: "q < length (ports e')" "in_use (ports e' ! q)"
      from own [of q] q len consider "in_use (ports e ! q)" "p_client_id (ports e' ! q) = p_client_id (ports e ! q)"
        | c where "c \<in> set (clients e)" "\<not> dead (cmem e c)" "p_client_id (ports e' ! q) = cl_id (cmem e c)" by metis
      then show "p_client_id (ports e' ! q) \<noteq> cl_id (cmem e' x)"
      proof cases
        case 1
        then show ?thesis using dx(2) q(1) len kc(1) by (simp add: portless_def)
      next
        case 2
        then show ?thesis using dx(1) ids x kc(1) by (metis inj_onD)
      qed
    qed
    then show ?thesis using d by (simp add: dead_ok_def kc ke)
  qed
  ultimately show ?thesis using s by (simp add: server_ok_def)
qed

lemma kept_reg_registered: "kept_reg e (with_counters a1 a2 a3 a4 (registered e c ty rq p r))"
proof -
  have "registered e c ty rq p r = upd_client c (\<lambda>r. r\<lparr>cl_ports := p # cl_ports r\<rparr>) (e\<lparr>ports := (ports e)[p := r],
      freelist := (if flag_set (rq_flags rq) JackPortIsInput then freelist e else (freelist e)(ty := tl (freelist e ty)))\<rparr>)"
    by (simp add: registered_def upd_client_def)
  then show ?thesis
    by (simp only:) (intro kept_reg_fields kept_reg_upd_client kept_reg_refl, simp add: client_owner_aside_def client_aside_def)
qed

text \<open>A registration asks for a port that is not input and output at once, on behalf of a client that is not a zombie.\<close>

definition sound_registration :: "jack_engine_t \<Rightarrow> port_info \<Rightarrow> bool" where
  "sound_registration e rq \<longleftrightarrow>
     \<not> (flag_set (rq_flags rq) JackPortIsInput \<and> flag_set (rq_flags rq) JackPortIsOutput) \<and>
     (\<forall>c. jack_client_internal_by_id e (rq_client_id rq) = Some c \<longrightarrow> \<not> dead (cmem e c))"

lemma register_ok:
  assumes ok: "server_ok e" and rq: "sound_registration e rq"
  shows "server_ok (fst (jack_port_do_register e rq internal))"
proof -
  have flags: "\<not> (flag_set (rq_flags rq) JackPortIsInput \<and> flag_set (rq_flags rq) JackPortIsOutput)" using rq by (simp add: sound_registration_def)
  have reg: "registry_inv (fst (jack_port_do_register e rq internal))" by (rule register_keeps [OF server_graph(2) [OF ok] flags])
  show ?thesis
  proof (cases "\<exists>ty c p. can_register e rq ty c p")
    case True
    then obtain ty c p where can: "can_register e rq ty c p" by blast
    have p: "p < length (ports e)" using can free_slot_port by (auto simp: can_register_def)
    have c: "c \<in> set (clients e)" "cl_id (cmem e c) = rq_client_id rq" "\<not> dead (cmem e c)"
      using can by_id_Some [of e "rq_client_id rq" c] rq by (auto simp: can_register_def sound_registration_def)
    show ?thesis
    proof (cases "flag_set (rq_flags rq) JackPortIsInput \<or> freelist e ty \<noteq> []")
      case True
      obtain r a1 a2 a3 a4 where new: "new_port e ty rq r" and r: "jack_port_do_register e rq internal =
          (if active (cmem e c) then jack_port_registration_notify (with_counters a1 a2 a3 a4 (registered e c ty rq p r)) p True
           else with_counters a1 a2 a3 a4 (registered e c ty rq p r), 0, Some p)"
        using register_shape [OF can True, of internal] by (auto simp: Let_def)
      define e4 where "e4 = with_counters a1 a2 a3 a4 (registered e c ty rq p r)"
      define e5 where "e5 = fst (jack_port_do_register e rq internal)"
      have k: "kept e4 e5" unfolding e5_def r e4_def [symmetric] by (simp add: kept_port_notify)
      have sg: "same_graph e4 e5" unfolding e5_def r e4_def [symmetric] by (simp add: same_graph_port_notify)
      have pt: "ports e4 = (ports e)[p := r]" "clients e4 = clients e" by (simp_all add: e4_def registered_def with_counters_def)
      have "server_ok e5"
      proof (rule kept_reg_ok [OF ok])
        show "kept_reg e e5" using kept_reg_trans [OF kept_reg_registered kept_kept_reg [OF k [unfolded e4_def]]] .
        show "mset (clients e5) = mset (clients e)" using sg pt by (simp add: same_graph_def)
        show "registry_inv e5" using reg by (simp add: e5_def)
        show "length (ports e5) = length (ports e)" using kept_engine(1) [OF k] pt by simp
        fix q assume q: "q < length (ports e)" "in_use (ports e5 ! q)"
        then show "(in_use (ports e ! q) \<and> p_client_id (ports e5 ! q) = p_client_id (ports e ! q)) \<or>
          (\<exists>c \<in> set (clients e). \<not> dead (cmem e c) \<and> p_client_id (ports e5 ! q) = cl_id (cmem e c))"
          using kept_port [OF k, of q] pt new c p by (cases "q = p") (auto simp: new_port_def)
      qed
      then show ?thesis by (simp add: e5_def)
    next
      case False
      obtain r a1 a2 a3 a4 where r: "\<not> in_use r" "jack_port_do_register e rq internal =
          (with_counters a1 a2 a3 a4 (e\<lparr>ports := (ports e)[p := r]\<rparr>), -1, None)"
        using register_no_buffer [OF can, of internal] False by blast
      have "server_ok (with_counters a1 a2 a3 a4 (e\<lparr>ports := (ports e)[p := r]\<rparr>))"
      proof (rule kept_reg_ok [OF ok])
        show "kept_reg e (with_counters a1 a2 a3 a4 (e\<lparr>ports := (ports e)[p := r]\<rparr>))" by (intro kept_reg_fields kept_reg_refl)
        show "registry_inv (with_counters a1 a2 a3 a4 (e\<lparr>ports := (ports e)[p := r]\<rparr>))" using reg r(2) by simp
      qed (use r(1) p in \<open>auto simp: with_counters_def nth_list_update split: if_splits\<close>)
      then show ?thesis using r(2) by simp
    qed
  next
    case False
    then show ?thesis using register_refused [OF False, of internal] ok by simp
  qed
qed

lemma unregister_ok:
  assumes ok: "server_ok e" and p: "p \<noteq> length (ports e)"
  shows "\<exists>e' r. jack_port_do_unregister e i p = Value (e', r) \<and> server_ok e'"
proof (cases "p < length (ports e) \<and> p_client_id (ports e ! p) = i \<and> jack_client_internal_by_id e i \<noteq> None")
  case False
  then show ?thesis using assms by (auto simp: jack_port_do_unregister_def split: option.splits)
next
  case True
  then obtain c where pc: "p < length (ports e)" "p_client_id (ports e ! p) = i" "jack_client_internal_by_id e i = Some c" by auto
  obtain e1 where e1: "jack_port_clear_connections e p = Value e1" "server_ok e1" "kept e e1" "mset (clients e1) = mset (clients e)"
    "links e1 = links e - at_port p"
    using clear_ok [OF ok pc(1)] by blast
  have p1: "p < length (ports e1)" using pc(1) kept_engine(1) [OF e1(3)] by simp
  define e3 where "e3 = upd_client c (\<lambda>r. r\<lparr>cl_ports := jack_slist_remove (cl_ports r) p\<rparr>) (jack_port_release e1 p)"
  define e4 where "e4 = jack_port_registration_notify e3 p False"
  have u: "jack_port_do_unregister e i p = Value (e4, 0)"
    using pc e1(1) by (simp add: jack_port_do_unregister_def e3_def e4_def)
  have k: "kept e3 e4" and sg: "same_graph e3 e4" unfolding e4_def by (simp_all add: kept_port_notify same_graph_port_notify)
  have p3: "ports e3 = (ports e1)[p := released e1 p]" "clients e3 = clients e1"
    using p1 by (simp_all add: e3_def upd_client_def release_shape)
  have "server_ok e4"
  proof (rule kept_reg_ok [OF e1(2)])
    have "kept_reg e1 e3"
      unfolding e3_def by (intro kept_reg_upd_client kept_reg_release [OF p1] kept_reg_refl) (simp add: client_owner_aside_def client_aside_def)
    then show "kept_reg e1 e4" using kept_reg_trans kept_kept_reg [OF k] by blast
    show "mset (clients e4) = mset (clients e1)" using sg p3 by (simp add: same_graph_def)
    show "registry_inv e4" by (rule unregister_keeps [OF server_graph(2) [OF ok] u])
    show "length (ports e4) = length (ports e1)" using kept_engine(1) [OF k] p3 by simp
    fix q assume "q < length (ports e1)" "in_use (ports e4 ! q)"
    then show "(in_use (ports e1 ! q) \<and> p_client_id (ports e4 ! q) = p_client_id (ports e1 ! q)) \<or>
      (\<exists>c \<in> set (clients e1). \<not> dead (cmem e1 c) \<and> p_client_id (ports e4 ! q) = cl_id (cmem e1 c))"
      using kept_port [OF k, of q] p3 p1 by (cases "q = p") (auto simp: released_def)
  qed
  then show ?thesis using u by blast
qed

lemma kept_reg_place:
  assumes "jack_engine_place_port_buffers e t B S n = Value e'" "kept_reg d e"
  shows "kept_reg d e'"
  using assms unfolding jack_engine_place_port_buffers_def
  by (auto simp: Let_def intro!: kept_reg_fields split: option.splits list.splits)

lemma kept_reg_resize:
  assumes "jack_resize_port_segment e shm t n = Value (e', r)" "kept_reg d e"
  shows "kept_reg d e'"
proof -
  have "kept_reg d (jack_deliver_event_to_all x ev)" if "kept_reg d x" for x ev
    by (rule kept_reg_trans [OF that kept_kept_reg [OF deliver_all_frame(2)]])
  then show ?thesis
    using assms unfolding jack_resize_port_segment_def Let_def
    by (auto simp: c_map_Value intro: kept_reg_fields split: if_splits dest!: kept_reg_place [where d = d])
qed

lemma kept_reg_resize_segments:
  "resize_segments e shm ts = Value (e', r) \<Longrightarrow> kept_reg d e \<Longrightarrow> kept_reg d e'"
  by (induction ts arbitrary: e) (auto simp: c_bind_Value split: if_splits dest: kept_reg_resize)

lemma same_graph_used:
  assumes "same_graph e e'"
  shows "length (ports e') = length (ports e)"
    "q < length (ports e) \<Longrightarrow> in_use (ports e' ! q) = in_use (ports e ! q) \<and> p_client_id (ports e' ! q) = p_client_id (ports e ! q)"
proof -
  have m: "map port_core (ports e') = map port_core (ports e)" using assms by (metis core_simps(3) same_graph_def)
  then show l: "length (ports e') = length (ports e)" by (metis length_map)
  assume "q < length (ports e)"
  then have "port_core (ports e' ! q) = port_core (ports e ! q)" using m l by (metis nth_map)
  then show "in_use (ports e' ! q) = in_use (ports e ! q) \<and> p_client_id (ports e' ! q) = p_client_id (ports e ! q)"
    by (metis port_core_simps(2,3))
qed

lemma buffer_size_ok:
  assumes ok: "server_ok e" and fit: "sizes_fit e nframes"
  shows "\<exists>e' r. jack_driver_buffer_size e shm_ok nframes = Value (e', r) \<and> server_ok e'"
proof -
  obtain e' r where e': "jack_driver_buffer_size e shm_ok nframes = Value (e', r)" "registry_inv e'" "same_graph e e'"
    using driver_buffer_size_Value [OF server_graph(2) [OF ok], of nframes shm_ok] fit by (auto simp: sizes_fit_def)
  have "kept_reg e e'"
  proof -
    have n: "kept_reg e (new_buffer_size e nframes)" by (intro kept_reg_fields kept_reg_refl)
    obtain e1 r1 where e1: "resize_segments (new_buffer_size e nframes) shm_ok [0..<length (port_types (control e))] = Value (e1, r1)"
      "e' = e1 \<or> e' = jack_deliver_event_to_all e1 BufferSizeChange"
      using e'(1) unfolding jack_driver_buffer_size_def new_buffer_size_def
      by (auto simp: c_map_Value c_bind_Value Let_def split: if_splits)
    have "kept_reg e e1" by (rule kept_reg_resize_segments [OF e1(1) n])
    then show ?thesis using e1(2) kept_reg_trans kept_kept_reg [OF deliver_all_frame(2)] by blast
  qed
  then have "server_ok e'"
    using kept_reg_ok [OF ok _ _ e'(2)] e'(3) same_graph_used [OF e'(3)] by (simp add: same_graph_def)
  then show ?thesis using e'(1) by blast
qed

section \<open>Transport requests\<close>

text \<open>A transport step that makes no zombie the master and polls active clients only keeps the invariant.\<close>

lemma transport_ok:
  assumes ok: "server_ok e" and st: "transport_step e e'"
    and act: "\<And>x. active (cmem e' x) = active (cmem e x)"
    and sync: "\<And>x. x \<in> set (clients e) \<Longrightarrow> active_slowsync (cmem e' x) \<Longrightarrow> active (cmem e x)"
    and master: "\<And>x. timebase_client e' = Some x \<Longrightarrow> timebase_client e = Some x \<or> \<not> dead (cmem e x)"
  shows "server_ok e'"
proof -
  have t: "transport_only e e'" by (rule air_step [OF st])
  have "server_inv e'"
    by (rule server_transport_only [OF server_graph(4) [OF ok] t transport_step_inv [OF st server_graph(3) [OF ok]]])
  moreover have "dead_ok e' x" if "x \<in> set (clients e)" for x
  proof -
    have "dead_ok e x" using ok that by (simp add: server_ok_def)
    then show ?thesis
      using act [of x] sync [OF that] master [of x] transport_only_client [OF t] transport_only_engine [OF t]
      by (auto simp: dead_ok_def portless_def)
  qed
  ultimately show ?thesis using transport_only_engine(1) [OF t] by (simp add: server_ok_def)
qed

lemma slow_active: "server_ok e \<Longrightarrow> x \<in> set (clients e) \<Longrightarrow> active_slowsync (cmem e x) \<Longrightarrow> active (cmem e x)"
  by (simp add: server_ok_def dead_ok_def)

lemma timebase_set_ok:
  assumes ok: "server_ok e" and live: "\<And>c. jack_client_internal_by_id e i = Some c \<Longrightarrow> \<not> dead (cmem e c)"
  shows "server_ok (fst (jack_timebase_set e i conditional))"
proof (rule transport_ok [OF ok transport_step.timebase_set])
  show "active (cmem (fst (jack_timebase_set e i conditional)) x) = active (cmem e x)" for x
    by (auto simp: jack_timebase_set_def Let_def split: option.splits if_splits)
  have s: "active_slowsync (cmem (fst (jack_timebase_set e i conditional)) x) = active_slowsync (cmem e x)" for x
    by (auto simp: jack_timebase_set_def Let_def split: option.splits if_splits)
  show "active (cmem e x)" if "x \<in> set (clients e)" "active_slowsync (cmem (fst (jack_timebase_set e i conditional)) x)" for x
    using slow_active [OF ok that(1)] that(2) s by simp
  show "timebase_client e = Some x \<or> \<not> dead (cmem e x)" if "timebase_client (fst (jack_timebase_set e i conditional)) = Some x" for x
    using that live by (auto simp: jack_timebase_set_def Let_def split: option.splits if_splits)
qed

lemma timebase_reset_ok:
  assumes ok: "server_ok e"
  shows "server_ok (fst (jack_timebase_reset e i))"
proof (rule transport_ok [OF ok transport_step.timebase_reset])
  show "active (cmem (fst (jack_timebase_reset e i)) x) = active (cmem e x)" for x
    by (auto simp: jack_timebase_reset_def split: option.splits)
  have s: "active_slowsync (cmem (fst (jack_timebase_reset e i)) x) = active_slowsync (cmem e x)" for x
    by (auto simp: jack_timebase_reset_def split: option.splits)
  show "active (cmem e x)" if "x \<in> set (clients e)" "active_slowsync (cmem (fst (jack_timebase_reset e i)) x)" for x
    using slow_active [OF ok that(1)] that(2) s by simp
  show "timebase_client e = Some x \<or> \<not> dead (cmem e x)" if "timebase_client (fst (jack_timebase_reset e i)) = Some x" for x
    using that by (auto simp: jack_timebase_reset_def split: option.splits if_splits)
qed

lemma set_sync_ok:
  assumes ok: "server_ok e"
  shows "server_ok (fst (jack_transport_client_set_sync e i))"
proof (rule transport_ok [OF ok transport_step.set_sync])
  show "active (cmem (fst (jack_transport_client_set_sync e i)) x) = active (cmem e x)" for x
    by (auto simp: jack_transport_client_set_sync_def jack_sync_poll_new_def Let_def split: option.splits)
  have s: "active_slowsync (cmem (fst (jack_transport_client_set_sync e i)) x) \<Longrightarrow> active_slowsync (cmem e x) \<or> active (cmem e x)" for x
    by (auto simp: jack_transport_client_set_sync_def jack_sync_poll_new_def Let_def split: option.splits if_splits)
  show "active (cmem e x)" if "x \<in> set (clients e)" "active_slowsync (cmem (fst (jack_transport_client_set_sync e i)) x)" for x
    using slow_active [OF ok that(1)] s [OF that(2)] by blast
  show "timebase_client e = Some x \<or> \<not> dead (cmem e x)" if "timebase_client (fst (jack_transport_client_set_sync e i)) = Some x" for x
    using that by (auto simp: jack_transport_client_set_sync_def jack_sync_poll_new_def Let_def split: option.splits if_splits)
qed

lemma poll_deactivate_frame:
  assumes "jack_sync_poll_deactivate e c = Value e'"
  shows "timebase_client e' = timebase_client e" "active (cmem e' x) = active (cmem e x)"
    "active_slowsync (cmem e' x) \<Longrightarrow> active_slowsync (cmem e x)"
  using assms unfolding jack_sync_poll_deactivate_def Let_def by (auto split: if_splits)

lemma reset_sync_ok:
  assumes ok: "server_ok e"
  shows "\<exists>e' r. jack_transport_client_reset_sync e i = Value (e', r) \<and> server_ok e'"
proof -
  obtain e' r where e': "jack_transport_client_reset_sync e i = Value (e', r)"
    using reset_sync_Value [OF server_graph(3) [OF ok], of i] by blast
  have fr: "active (cmem e' x) = active (cmem e x)" "active_slowsync (cmem e' x) \<Longrightarrow> active_slowsync (cmem e x)"
    "timebase_client e' = timebase_client e" for x
  proof -
    have "e' = e \<or> (\<exists>c z. e' = upd_client c (\<lambda>r. r\<lparr>is_slowsync := False\<rparr>) z \<and> (z = e \<or> jack_sync_poll_deactivate e c = Value z))"
      using e' unfolding jack_transport_client_reset_sync_def by (auto simp: c_map_Value split: option.splits if_splits)
    then show "active (cmem e' x) = active (cmem e x)" "active_slowsync (cmem e' x) \<Longrightarrow> active_slowsync (cmem e x)"
      "timebase_client e' = timebase_client e"
      using poll_deactivate_frame by (auto split: if_splits)
  qed
  have "server_ok e'"
    using slow_active [OF ok] fr by (intro transport_ok [OF ok transport_step.reset_sync [OF e']]) auto
  then show ?thesis using e' by blast
qed

lemma sync_timeout_ok: "server_ok e \<Longrightarrow> server_ok (fst (jack_transport_set_sync_timeout e us))"
  by (rule transport_ok [OF _ transport_step.timeout]; (rule slow_active)?; simp add: jack_transport_set_sync_timeout_def)

section \<open>Sessions and freewheeling\<close>

lemma unseen_write [unseen_frame]: "unseen d e \<Longrightarrow> unseen d (fst (write_fd e fd m))"
  unfolding write_fd_def Let_def by (auto intro: unseen_frame)

lemma unseen_write_all [unseen_frame]: "unseen d e \<Longrightarrow> unseen d (fst (write_all e fd ms))"
proof (induction ms arbitrary: e)
  case (Cons m ms)
  then show ?case using unseen_write [OF Cons.prems, of fd m] by (auto split: prod.splits)
qed simp

lemma unseen_session_reply [unseen_frame]: "unseen d e \<Longrightarrow> unseen d (fst (jack_send_session_reply e c))"
  by (simp add: jack_send_session_reply_def case_prod_beta unseen_write_all del: write_all.simps)

lemma unseen_assign_uuids [unseen_frame]: "unseen d e \<Longrightarrow> unseen d (assign_uuids e cs)"
  by (induction cs arbitrary: e) (simp_all add: unseen_client_fields)

lemma unseen_send_final [unseen_frame]: "unseen d e \<Longrightarrow> unseen d (fst (send_final e fd))"
  using unseen_write [of d e fd "ReplyUuid 0"] by (simp add: send_final_def case_prod_beta unseen_fields)

lemma unseen_notify_each [unseen_frame]: "unseen d e \<Longrightarrow> unseen d (fst (notify_each mk rq e cs))"
proof (induction cs arbitrary: e)
  case (Cons c cs)
  let ?ev = "SaveSession (sr_type rq) (session_dir (sr_path rq) (cl_name (cmem e c)))"
  have u1: "unseen d (fst (jack_deliver_event e c ?ev))" by (rule unseen_deliver [OF Cons.prems])
  have u2: "unseen d (fst (jack_send_session_reply (fst (jack_deliver_event e c ?ev)) c))" by (rule unseen_session_reply [OF u1])
  show ?case
    using Cons.IH Cons.prems u1 u2
    by (auto simp: Let_def case_prod_beta intro!: Cons.IH unseen_client_fields unseen_fields)
qed simp

lemma session_notify_unseen: "unseen e (fst (jack_do_session_notify is_dir mk e rq fd))"
proof -
  let ?e = "assign_uuids (e\<lparr>session_reply_fd := fd, session_pending_replies := 0\<rparr>) (clients e)"
  have "unseen e ?e" by (intro unseen_frame unseen_refl)
  then show ?thesis
    unfolding jack_do_session_notify_def Let_def
    by (auto simp: case_prod_beta intro!: unseen_send_final unseen_notify_each)
qed

lemma session_reply_unseen:
  assumes "jack_client_internal_by_id e i = Some c"
  shows "\<exists>e' r. jack_do_session_reply e i = Value (e', r) \<and> unseen e e'"
proof -
  let ?e1 = "upd_client c (\<lambda>r. r\<lparr>session_reply_pending := False\<rparr>) e"
  let ?e2 = "?e1\<lparr>session_pending_replies := session_pending_replies ?e1 - 1\<rparr>"
  have u1: "unseen e ?e1" "unseen e ?e2" by (intro unseen_frame unseen_refl)+
  have u3: "unseen e (fst (jack_send_session_reply ?e2 c))" by (rule unseen_session_reply [OF u1(2)])
  obtain e3 err where e3: "jack_send_session_reply ?e2 c = (e3, err)" by fastforce
  obtain e4 ok where e4: "write_fd e3 (session_reply_fd e3) (ReplyUuid 0) = (e4, ok)" by fastforce
  have u4: "unseen e e3" "unseen e e4" using u3 e3 unseen_write [of e e3 "session_reply_fd e3" "ReplyUuid 0"] e4 by simp_all
  define e' where "e' = (if session_reply_fd ?e1 = -1 then ?e1 else if err \<noteq> 0 then e3\<lparr>session_reply_fd := -1\<rparr>
    else if session_pending_replies e3 = 0 then e4\<lparr>session_reply_fd := -1\<rparr> else e3)"
  have "\<exists>r. jack_do_session_reply e i = Value (e', r)"
    using assms e3 e4 unfolding jack_do_session_reply_def Let_def e'_def by simp
  moreover have "unseen e e'" unfolding e'_def using u1(1) u4 by (simp add: unseen_fields)
  ultimately show ?thesis by blast
qed

end
