(* ===== verification/Server_Calls.thy ===== *)
theory Server_Calls
  imports Server_Ops
begin

text \<open>
  The calls into the engine that drivers and internal clients make, and the roster: no call takes a
  client off the list or changes which client is the driver's. The engine reads the record of the
  driver's client whenever it computes latencies, so that this client has to stay on the list.
\<close>

section \<open>The roster\<close>

definition roster :: "jack_engine_t \<Rightarrow> jack_engine_t \<Rightarrow> bool" where
  "roster e e' \<longleftrightarrow> driver_client e' = driver_client e \<and> set (clients e) \<subseteq> set (clients e')"

definition driver_here :: "jack_engine_t \<Rightarrow> bool" where
  "driver_here e \<longleftrightarrow> (\<exists>d. driver_client e = Some d \<and> d \<in> set (clients e))"

lemma roster_refl [simp, intro]: "roster e e"
  by (simp add: roster_def)

lemma roster_trans: "roster a b \<Longrightarrow> roster b c \<Longrightarrow> roster a c"
  by (auto simp: roster_def)

lemma roster_driver: "roster e e' \<Longrightarrow> driver_here e \<Longrightarrow> driver_here e'"
  by (auto simp: roster_def driver_here_def)

lemma roster_kept: "kept e e' \<Longrightarrow> mset (clients e') = mset (clients e) \<Longrightarrow> roster e e'"
  using kept_engine(8) [of e e'] mset_eq_setD [of "clients e'" "clients e"] by (simp add: roster_def)

lemma roster_kept_reg: "kept_reg e e' \<Longrightarrow> mset (clients e') = mset (clients e) \<Longrightarrow> roster e e'"
  using kept_reg_engine(2) [of e e'] mset_eq_setD [of "clients e'" "clients e"] by (simp add: roster_def)

lemma roster_graph: "same_graph e e' \<Longrightarrow> roster e e'"
  by (metis core_simps(2) order_refl roster_def same_graph_def)

lemma roster_air: "transport_only e e' \<Longrightarrow> roster e e'"
  using transport_only_engine(1,6) [of e e'] by (simp add: roster_def)

lemma roster_transport: "transport_step e e' \<Longrightarrow> roster e e'"
  by (rule roster_air [OF air_step])

lemma roster_unseen:
  assumes "unseen e e'"
  shows "roster e e'"
  using arg_cong [OF assms [unfolded unseen_def], of clients] arg_cong [OF assms [unfolded unseen_def], of driver_client]
  by (simp add: roster_def seen_def)

lemma roster_remove:
  assumes "others_same c e e'" "mset (clients e') = mset (remove1 c (clients e))" "roster d e" "c \<notin> set (clients d)"
  shows "roster d e'"
proof -
  have "x \<in> set (clients e')" if "x \<in> set (clients e)" "x \<noteq> c" for x using mset_eq_setD [OF assms(2)] that by simp
  then show ?thesis using assms by (auto simp: roster_def others_same_def)
qed

text \<open>The server runs: its books are in order and the driver's client is on the list.\<close>

abbreviation running :: "jack_engine_t \<Rightarrow> bool" where
  "running e \<equiv> server_ok e \<and> driver_here e"

lemma running_unseen: "unseen e e' \<Longrightarrow> running e \<Longrightarrow> running e'"
  using unseen_ok roster_driver [OF roster_unseen] by blast

section \<open>Ports and connections\<close>

lemma sort_roster: "server_ok e \<Longrightarrow> jack_sort_graph e = Value e' \<Longrightarrow> roster e e'"
  using sort_ok roster_kept by fastforce

lemma connect_roster:
  assumes ok: "server_ok e" and r: "jack_port_do_connect e s d = Value (e', r)"
  shows "roster e e'"
proof (cases "connect_checks e s d")
  case (Inl err)
  then show ?thesis using r by (simp add: jack_port_do_connect_def)
next
  case (Inr x)
  then obtain src dst sc dc where "connect_checks e s d = Inr (src, dst, sc, dc)" by (metis prod_cases4)
  from connect_Value [OF server_graph(1) [OF ok] this] have "mset (clients e') = mset (clients e)" using r by auto
  then show ?thesis by (rule roster_kept [OF kept_connect [OF r kept_refl]])
qed

lemma disconnect_roster:
  assumes ok: "server_ok e" and r: "jack_port_do_disconnect e s d = Value (e', r)"
  shows "roster e e'"
proof (cases "jack_get_port_by_name e s = None \<or> jack_get_port_by_name e d = None")
  case True
  then show ?thesis using r by (auto simp: jack_port_do_disconnect_def split: option.splits)
next
  case False
  then obtain src dst where n: "jack_get_port_by_name e s = Some src" "jack_get_port_by_name e d = Some dst" by auto
  then have i: "jack_port_disconnect_internal e src dst = Value (e', r)" using r by (simp add: jack_port_do_disconnect_def)
  have "mset (clients e') = mset (clients e)"
    using disconnect_Value [OF server_graph(1) [OF ok], of src dst] by_name_Some [OF n(1)] i by auto
  then show ?thesis by (rule roster_kept [OF kept_disconnect [OF i kept_refl]])
qed

lemma clear_roster:
  assumes "server_ok e" "p < length (ports e)" "jack_port_clear_connections e p = Value e'"
  shows "roster e e'" "server_ok e'"
  using clear_ok [OF assms(1,2)] assms(3) by (auto intro: roster_kept)

lemma disconnect_all_roster:
  assumes "server_ok e" "p \<noteq> length (ports e)" "jack_port_do_disconnect_all e p = Value (e', r)"
  shows "roster e e'"
proof (cases "p < length (ports e)")
  case True
  then obtain e1 where e1: "jack_port_clear_connections e p = Value e1" "jack_sort_graph e1 = Value e'"
    using assms(3) by (auto simp: jack_port_do_disconnect_all_def c_bind_Value c_map_Value)
  then show ?thesis
    using clear_roster [OF assms(1) True e1(1)] sort_roster [OF _ e1(2)] roster_trans by blast
next
  case False
  then show ?thesis using assms by (simp add: jack_port_do_disconnect_all_def)
qed

lemma register_roster: "roster e (fst (jack_port_do_register e rq internal))"
proof (cases "\<exists>ty c p. can_register e rq ty c p")
  case True
  then obtain ty c p where can: "can_register e rq ty c p" by blast
  show ?thesis
  proof (cases "flag_set (rq_flags rq) JackPortIsInput \<or> freelist e ty \<noteq> []")
    case True
    obtain r a1 a2 a3 a4 where r: "jack_port_do_register e rq internal =
        (if active (cmem e c) then jack_port_registration_notify (with_counters a1 a2 a3 a4 (registered e c ty rq p r)) p True
         else with_counters a1 a2 a3 a4 (registered e c ty rq p r), 0, Some p)"
      using register_shape [OF can True, of internal] by (auto simp: Let_def)
    let ?e4 = "with_counters a1 a2 a3 a4 (registered e c ty rq p r)"
    have "roster e ?e4" by (simp add: roster_def with_counters_def registered_def)
    moreover have "roster ?e4 (jack_port_registration_notify ?e4 p True)"
      by (rule roster_graph [OF same_graph_port_notify [OF same_graph_refl]])
    ultimately show ?thesis using r roster_trans by auto
  next
    case False
    then obtain r a1 a2 a3 a4 where "jack_port_do_register e rq internal =
        (with_counters a1 a2 a3 a4 (e\<lparr>ports := (ports e)[p := r]\<rparr>), -1, None)"
      using register_no_buffer [OF can, of internal] by blast
    then show ?thesis by (simp add: roster_def with_counters_def)
  qed
next
  case False
  then show ?thesis using register_refused [OF False, of internal] by simp
qed

lemma unregister_roster:
  assumes "server_ok e" "p \<noteq> length (ports e)" "jack_port_do_unregister e i p = Value (e', r)"
  shows "roster e e'"
proof (cases "e' = e")
  case False
  then obtain c e1 where c: "jack_port_clear_connections e p = Value e1" "p < length (ports e)" and e':
    "e' = jack_port_registration_notify (upd_client c (\<lambda>r. r\<lparr>cl_ports := jack_slist_remove (cl_ports r) p\<rparr>) (jack_port_release e1 p)) p False"
    using assms(2,3) by (auto simp: jack_port_do_unregister_def c_map_Value split: if_splits option.splits)
  let ?e3 = "upd_client c (\<lambda>r. r\<lparr>cl_ports := jack_slist_remove (cl_ports r) p\<rparr>) (jack_port_release e1 p)"
  have "p < length (ports e1)" using c(2) kept_engine(1) [OF kept_clear_connections [OF c(1) kept_refl]] by simp
  then have "roster e1 ?e3" by (simp add: roster_def release_shape upd_client_def)
  moreover have "roster ?e3 e'" unfolding e' by (rule roster_graph [OF same_graph_port_notify [OF same_graph_refl]])
  ultimately show ?thesis using clear_roster(1) [OF assms(1) c(2,1)] roster_trans by blast
qed simp

section \<open>Activation\<close>

text \<open>
  Around the change to the transport, activation and deactivation do nothing the transport sees:
  sorting the graph, breaking connections and delivering events leave the flags of all clients alone.
\<close>

lemma kept_segments [kept_frame]: "kept d e \<Longrightarrow> kept d (fold (\<lambda>i e. fst (jack_deliver_event e c (AttachPortSegment i))) is e)"
  by (induction "is" arbitrary: e) (simp_all add: kept_deliver)

lemma kept_ports_notify [kept_frame]: "kept d e \<Longrightarrow> kept d (fold (\<lambda>p e. jack_port_registration_notify e p yn) ps e)"
  by (induction ps arbitrary: e) (simp_all add: kept_port_notify)

lemma activate_shape:
  assumes "jack_client_internal_by_id e i = Some c" "jack_client_activate e i = Value (e', r)"
  shows "\<exists>e1. jack_transport_activate (upd_client c (\<lambda>r. r\<lparr>active := True\<rparr>) e) c = Value e1 \<and>
    kept (e1\<lparr>external_client_cnt := Suc (external_client_cnt e1)\<rparr>) e'"
proof -
  obtain e1 where e1: "jack_transport_activate (upd_client c (\<lambda>r. r\<lparr>active := True\<rparr>) e) c = Value e1"
    using assms by (auto simp: jack_client_activate_def c_bind_Value)
  let ?e2 = "e1\<lparr>external_client_cnt := Suc (external_client_cnt e1)\<rparr>"
  obtain e3 where e3: "jack_sort_graph ?e2 = Value e3"
    using assms e1 by (auto simp: jack_client_activate_def c_map_Value)
  let ?e4 = "fst (jack_deliver_event (fold (\<lambda>i e. fst (jack_deliver_event e c (AttachPortSegment i)))
      [0..<length (port_types (control e3))] e3) c BufferSizeChange)"
  have e': "e' = fold (\<lambda>p e. jack_port_registration_notify e p True) (cl_ports (cmem ?e4 c)) ?e4"
    using assms e1 e3 by (simp add: jack_client_activate_def Let_def)
  have "kept ?e2 e3" by (rule kept_sort_graph [OF e3 kept_refl])
  then have "kept ?e2 e'" unfolding e' by (intro kept_ports_notify kept_deliver kept_segments)
  then show ?thesis using e1 by blast
qed

lemma kept_clear_ports: "clear_ports e ps = Value e' \<Longrightarrow> kept d e \<Longrightarrow> kept d e'"
  by (induction ps arbitrary: e) (auto simp: c_bind_Value dest: kept_clear_connections)

lemma deactivate_shape:
  assumes "jack_client_internal_by_id e i = Some c" "jack_client_deactivate e i = Value (e', r)"
  shows "\<exists>e1 e2 n. kept e e1 \<and> jack_transport_client_exit (upd_client c (\<lambda>r. r\<lparr>active := False\<rparr>) e1) c = Value e2 \<and>
    kept (e2\<lparr>external_client_cnt := n\<rparr>) e'"
proof -
  obtain e1 where e1: "clear_ports e (cl_ports (cmem e c)) = Value e1" "jack_client_do_deactivate e1 c True = Value e'"
    using assms by (auto simp: jack_client_deactivate_def c_bind_Value c_map_Value)
  obtain e2 where e2: "jack_transport_client_exit (upd_client c (\<lambda>r. r\<lparr>active := False\<rparr>) e1) c = Value e2"
    using e1(2) by (auto simp: jack_client_do_deactivate_def c_bind_Value)
  obtain n where "jack_sort_graph (e2\<lparr>external_client_cnt := n\<rparr>) = Value e'"
  proof (cases "\<not> jack_client_is_internal (cmem e2 c) \<and> 0 < external_client_cnt e2")
    case True
    then show ?thesis using e1(2) e2 that by (simp add: jack_client_do_deactivate_def)
  next
    case False
    then have "jack_sort_graph e2 = Value e'" using e1(2) e2 by (auto simp: jack_client_do_deactivate_def)
    then show ?thesis using that [of "external_client_cnt e2"] by simp
  qed
  then have "kept (e2\<lparr>external_client_cnt := n\<rparr>) e'" by (rule kept_sort_graph) simp
  then show ?thesis using e2 kept_clear_ports [OF e1(1) kept_refl] by blast
qed

lemma activate_roster:
  assumes ok: "server_ok e" and c: "jack_client_internal_by_id e i = Some c" "\<not> active (cmem e c)" "\<not> dead (cmem e c)"
    and r: "jack_client_activate e i = Value (e', r)"
  shows "roster e e'"
proof -
  obtain e1 where e1: "jack_transport_activate (upd_client c (\<lambda>r. r\<lparr>active := True\<rparr>) e) c = Value e1"
    "kept (e1\<lparr>external_client_cnt := Suc (external_client_cnt e1)\<rparr>) e'"
    using activate_shape [OF c(1) r] by blast
  have "transport_only e e1" by (rule air_activate [OF e1(1)]) (simp add: air_frame)
  then have "driver_client e' = driver_client e" using transport_only_engine(6) kept_engine(8) [OF e1(2)] by simp
  moreover have "mset (clients e') = mset (clients e)" using activate_request_ok [OF ok c] r by auto
  ultimately show ?thesis using mset_eq_setD [of "clients e'" "clients e"] by (simp add: roster_def)
qed

lemma deactivate_roster:
  assumes ok: "server_ok e" and r: "jack_client_deactivate e i = Value (e', r)"
  shows "roster e e'"
proof (cases "jack_client_internal_by_id e i")
  case None
  then show ?thesis using r by (simp add: jack_client_deactivate_def)
next
  case (Some c)
  obtain e1 e2 n where s: "kept e e1" "jack_transport_client_exit (upd_client c (\<lambda>r. r\<lparr>active := False\<rparr>) e1) c = Value e2"
    "kept (e2\<lparr>external_client_cnt := n\<rparr>) e'" using deactivate_shape [OF Some r] by blast
  have "transport_only e1 e2" by (rule air_exit [OF s(2)]) (simp add: air_frame)
  then have "driver_client e' = driver_client e"
    using transport_only_engine(6) kept_engine(8) [OF s(3)] kept_engine(8) [OF s(1)] by simp
  moreover have "mset (clients e') = mset (clients e)" using deactivate_request_ok [OF ok Some] r by auto
  ultimately show ?thesis using mset_eq_setD [of "clients e'" "clients e"] by (simp add: roster_def)
qed

section \<open>Calls\<close>

lemma control_step_ok:
  assumes "server_ok e" "transport_step e e'" "cmem e' = cmem e" "timebase_client e' = timebase_client e"
  shows "server_ok e'"
  using transport_ok [OF assms(1,2)] assms(3,4) slow_active [OF assms(1)] by simp

text \<open>What anyone may do to the transport of a running server, through the shared memory.\<close>

inductive control_write :: "jack_engine_t \<Rightarrow> jack_engine_t \<Rightarrow> bool" where
  start: "control_write e (jack_transport_start e)"
| stop: "control_write e (jack_transport_stop e)"
| reposition: "jack_transport_reposition e pos = Value (e', r) \<Longrightarrow> control_write e e'"
| locate: "jack_transport_locate e pos f = Value e' \<Longrightarrow> control_write e e'"
| sample_rate: "control_write e (jack_set_sample_rate e n)"
| cycle_start: "control_write e (jack_transport_cycle_start e us)"

lemma control_write_ok:
  assumes "control_write e e'" "server_ok e"
  shows "server_ok e' \<and> roster e e'"
proof -
  have "transport_step e e' \<and> cmem e' = cmem e \<and> timebase_client e' = timebase_client e"
    using assms(1)
  proof (cases rule: control_write.cases)
    case (reposition pos r)
    then show ?thesis
      using request_new_pos_Value [of e pos] transport_step.reposition [OF reposition]
      by (auto simp: jack_transport_reposition_def split: if_splits)
  next
    case (locate pos f)
    then show ?thesis
      using request_new_pos_Value [of e "pos\<lparr>frame := f, valid := 0\<rparr>"] transport_step.locate [OF locate]
      by (auto simp: jack_transport_locate_def)
  qed (auto simp: jack_transport_start_def jack_transport_stop_def jack_set_sample_rate_def jack_transport_cycle_start_def
      intro: transport_step.intros [unfolded jack_transport_start_def jack_transport_stop_def jack_set_sample_rate_def
        jack_transport_cycle_start_def])
  then show ?thesis using control_step_ok [OF assms(2)] roster_transport by blast
qed

text \<open>
  One call into the engine by a driver or an internal client, and whatever else happens in between
  that does not touch what the engine's books are about (\<open>elsewhere\<close>).
\<close>

inductive engine_call :: "jack_engine_t \<Rightarrow> jack_engine_t \<Rightarrow> bool" where
  register: "sound_registration e rq \<Longrightarrow> engine_call e (fst (jack_port_do_register e rq internal))"
| unregister: "p \<noteq> length (ports e) \<Longrightarrow> jack_port_do_unregister e i p = Value (e', r) \<Longrightarrow> engine_call e e'"
| connect: "jack_port_do_connect e s d = Value (e', r) \<Longrightarrow> engine_call e e'"
| disconnect: "jack_port_do_disconnect e s d = Value (e', r) \<Longrightarrow> engine_call e e'"
| disconnect_all: "p \<noteq> length (ports e) \<Longrightarrow> jack_port_do_disconnect_all e p = Value (e', r) \<Longrightarrow> engine_call e e'"
| activate: "jack_client_internal_by_id e i = Some c \<Longrightarrow> \<not> active (cmem e c) \<Longrightarrow> \<not> dead (cmem e c) \<Longrightarrow>
    jack_client_activate e i = Value (e', r) \<Longrightarrow> engine_call e e'"
| deactivate: "jack_client_internal_by_id e i = Some c \<Longrightarrow> jack_client_deactivate e i = Value (e', r) \<Longrightarrow> engine_call e e'"
| timebase_set: "(\<And>c. jack_client_internal_by_id e i = Some c \<Longrightarrow> \<not> dead (cmem e c)) \<Longrightarrow>
    engine_call e (fst (jack_timebase_set e i conditional))"
| timebase_reset: "engine_call e (fst (jack_timebase_reset e i))"
| set_sync: "engine_call e (fst (jack_transport_client_set_sync e i))"
| reset_sync: "jack_transport_client_reset_sync e i = Value (e', r) \<Longrightarrow> engine_call e e'"
| sync_timeout: "engine_call e (fst (jack_transport_set_sync_timeout e us))"
| control: "control_write e e' \<Longrightarrow> engine_call e e'"
| elsewhere: "unseen e e' \<Longrightarrow> engine_call e e'"

lemma engine_call_ok: "engine_call e e' \<Longrightarrow> server_ok e \<Longrightarrow> server_ok e' \<and> roster e e'"
proof (induction rule: engine_call.induct)
  case (register e rq internal)
  then show ?case using register_ok register_roster by blast
next
  case (unregister p e i e' r)
  then show ?case using unregister_ok [of e p i] unregister_roster by fastforce
next
  case (connect e s d e' r)
  then show ?case using connect_ok [of e s d] connect_roster by fastforce
next
  case (disconnect e s d e' r)
  then show ?case using disconnect_ok [of e s d] disconnect_roster by fastforce
next
  case (disconnect_all p e e' r)
  then show ?case using disconnect_all_ok [of e p] disconnect_all_roster by fastforce
next
  case (activate e i c e' r)
  then show ?case using activate_request_ok [of e i c] activate_roster by fastforce
next
  case (deactivate e i c e' r)
  then show ?case using deactivate_request_ok [of e i c] deactivate_roster by fastforce
next
  case (timebase_set e i conditional)
  then show ?case using timebase_set_ok roster_transport [OF transport_step.timebase_set] by blast
next
  case (timebase_reset e i)
  then show ?case using timebase_reset_ok roster_transport [OF transport_step.timebase_reset] by blast
next
  case (set_sync e i)
  then show ?case using set_sync_ok roster_transport [OF transport_step.set_sync] by blast
next
  case (reset_sync e i e' r)
  then show ?case using reset_sync_ok [of e i] roster_transport [OF transport_step.reset_sync] by fastforce
next
  case (sync_timeout e us)
  then show ?case using sync_timeout_ok roster_transport [OF transport_step.timeout] by blast
next
  case (control e e')
  then show ?case by (rule control_write_ok)
next
  case (elsewhere e e')
  then show ?case using unseen_ok roster_unseen by blast
qed

lemma engine_calls_ok: "engine_call\<^sup>*\<^sup>* e e' \<Longrightarrow> server_ok e \<Longrightarrow> server_ok e' \<and> roster e e'"
  by (induction rule: rtranclp_induct) (auto dest: engine_call_ok intro: roster_trans)

lemma call_running: "engine_call e e' \<Longrightarrow> running e \<Longrightarrow> running e'"
  using engine_call_ok roster_driver by blast

lemma engine_calls_running: "engine_call\<^sup>*\<^sup>* e e' \<Longrightarrow> running e \<Longrightarrow> running e'"
  using engine_calls_ok roster_driver by blast

end
