(* ===== verification/Client_Create.thy ===== *)
theory Client_Create
  imports Server_Calls
begin

text \<open>
  Creating clients: the name a new client gets is nobody else's, and the server's invariant holds
  with the client on the list. The memory a client lives in is not cleared; what the code relies on
  without writing it is a hypothesis.
\<close>

section \<open>Names\<close>

lemma named_search_None: "named_search m cs n = None \<longleftrightarrow> (\<forall>c \<in> set cs. cl_name (m c) \<noteq> n)"
  by (induction cs) auto

lemma named_search_Some: "named_search m cs n = Some c \<Longrightarrow> c \<in> set cs \<and> cl_name (m c) = n"
  by (induction cs) (auto split: if_splits)

lemma name_taken_iff:
  "name_taken e n \<longleftrightarrow> (\<exists>c \<in> set (clients e). cl_name (cmem e c) = n) \<or> n \<in> snd ` set (reserved_client_names e)"
proof -
  have "jack_client_by_name e n \<noteq> None \<longleftrightarrow> (\<exists>c \<in> set (clients e). cl_name (cmem e c) = n)"
    by (auto simp: jack_client_by_name_def named_search_None)
  then show ?thesis by (auto simp: name_taken_def jack_client_name_reserved_def list_ex_iff)
qed

text \<open>The numbers the loop still has to try.\<close>

lemma unique_loop_Some:
  "unique_loop n e name tens ones = Some s \<Longrightarrow> tens \<le> 9 \<Longrightarrow> ones \<le> 9 \<Longrightarrow>
   \<exists>k. 10 * tens + ones \<le> k \<and> k \<le> 99 \<and> s = numbered_name name (k div 10) (k mod 10) \<and> \<not> name_taken e s"
proof (induction n e name tens ones rule: unique_loop.induct)
  case (2 n e name tens ones)
  consider "\<not> name_taken e (numbered_name name tens ones)" | "name_taken e (numbered_name name tens ones)" "ones = 9" "tens \<noteq> 9"
    | "name_taken e (numbered_name name tens ones)" "ones \<noteq> 9" using "2.prems"(1) by (auto split: if_splits)
  then show ?case
  proof cases
    case 1
    then show ?thesis using "2.prems" by (intro exI [of _ "10 * tens + ones"]) auto
  next
    case 2
    then obtain k where "10 * Suc tens \<le> k" "k \<le> 99" "s = numbered_name name (k div 10) (k mod 10)" "\<not> name_taken e s"
      using "2.IH"(1) "2.prems" by auto
    then show ?thesis using 2 by (intro exI [of _ k]) auto
  next
    case 3
    then obtain k where "10 * tens + Suc ones \<le> k" "k \<le> 99" "s = numbered_name name (k div 10) (k mod 10)" "\<not> name_taken e s"
      using "2.IH"(2) "2.prems" by auto
    then show ?thesis by (intro exI [of _ k]) auto
  qed
qed simp

lemma unique_loop_None:
  "unique_loop n e name tens ones = None \<Longrightarrow> 100 \<le> n + (10 * tens + ones) \<Longrightarrow> tens \<le> 9 \<Longrightarrow> ones \<le> 9 \<Longrightarrow>
   10 * tens + ones \<le> k \<Longrightarrow> k \<le> 99 \<Longrightarrow> name_taken e (numbered_name name (k div 10) (k mod 10))"
proof (induction n e name tens ones rule: unique_loop.induct)
  case (2 n e name tens ones)
  have taken: "name_taken e (numbered_name name tens ones)" using "2.prems"(1) by (simp split: if_splits)
  consider "k = 10 * tens + ones" | "Suc (10 * tens + ones) \<le> k" "ones = 9" | "Suc (10 * tens + ones) \<le> k" "ones \<noteq> 9"
    using "2.prems"(5) by linarith
  then show ?case
  proof cases
    case 1
    then show ?thesis using taken "2.prems"(4) by simp
  next
    case 2
    then have "tens \<noteq> 9" using "2.prems"(6) by auto
    then show ?thesis using "2.IH"(1) "2.prems" 2 taken by auto
  next
    case 3
    then show ?thesis using "2.IH"(2) "2.prems" taken by auto
  qed
qed auto

lemma unique_name_Some:
  assumes "jack_generate_unique_name e name = Some s"
  shows "\<exists>k. 1 \<le> k \<and> k \<le> 99 \<and> s = numbered_name name (k div 10) (k mod 10)" "\<not> name_taken e s"
  using unique_loop_Some [of 99 e name 0 1 s] assms by (auto simp: jack_generate_unique_name_def simp del: unique_loop.simps split: if_splits)

lemma unique_name_None:
  assumes "jack_generate_unique_name e name = None" "length name \<le> JACK_CLIENT_NAME_SIZE - 4" "1 \<le> k" "k \<le> 99"
  shows "name_taken e (numbered_name name (k div 10) (k mod 10))"
proof -
  have "unique_loop 99 e name 0 1 = None" using assms(1,2) by (simp add: jack_generate_unique_name_def del: unique_loop.simps)
  from unique_loop_None [OF this, of k] show ?thesis using assms(3,4) by simp
qed

lemma name_invalid_Some:
  assumes "jack_client_name_invalid e name options status = (st, Some n)"
  shows "\<not> name_taken e n"
  using assms unique_name_Some(2) by (auto simp: jack_client_name_invalid_def Let_def split: if_splits option.splits)

section \<open>A new client on the list\<close>

text \<open>
  What the code takes from the memory of a new client without writing it: the number of clients that
  feed it. \<open>jack_setup_client_control\<close> gets that memory from \<open>malloc\<close> and counts on the number being 0. With
  another number \<open>jack_check_acyclic\<close> can take a cyclic graph for acyclic, so that this is a hypothesis, not a convenience.
  A number of clients that exhausts the 32 bits of the identifiers is out of reach.
\<close>

lemma junk_fedcount: "fedcount (init_client junk fd ty n i uuid) = fedcount junk"
  by (simp add: init_client_def jack_transport_client_new_def)

definition sound_memory :: "client_world \<Rightarrow> bool" where
  "sound_memory w \<longleftrightarrow> fedcount (w_junk w) = 0"

definition ids_left :: "jack_engine_t \<Rightarrow> bool" where
  "ids_left e \<longleftrightarrow> next_client_id e \<noteq> -1"

definition fresh_client :: "jack_client_internal_t \<Rightarrow> u32 \<Rightarrow> string \<Rightarrow> bool" where
  "fresh_client r i n \<longleftrightarrow> cl_id r = i \<and> cl_name r = n \<and> cl_ports r = [] \<and> truefeeds r = [] \<and> sortfeeds r = [] \<and> fedcount r = 0 \<and>
     \<not> dead r \<and> \<not> active r \<and> \<not> is_timebase r \<and> \<not> is_slowsync r \<and> \<not> active_slowsync r \<and> \<not> sync_poll r"

lemma fresh_init: "sound_memory w \<Longrightarrow> fresh_client (init_client (w_junk w) fd ty n i uuid) i n"
  by (simp add: fresh_client_def init_client_def jack_transport_client_new_def sound_memory_def)

definition added :: "jack_engine_t \<Rightarrow> jack_client_internal_t \<Rightarrow> jack_engine_t" where
  "added e r = e\<lparr>cmem := (cmem e)(next_cptr e := r), next_cptr := Suc (next_cptr e), next_client_id := next_client_id e + 1,
     clients := next_cptr e # clients e\<rparr>"

lemma unat_next_id: "ids_left e \<Longrightarrow> unat (next_client_id e + 1) = Suc (unat (next_client_id e))"
proof -
  assume "ids_left e"
  then have "1 + next_client_id e \<noteq> 0" unfolding ids_left_def by (metis minus_unique)
  from unatSuc [OF this] show ?thesis by (simp add: add.commute)
qed

lemma added_graph:
  assumes ok: "server_ok e" and r: "fresh_client r (next_client_id e) n"
  shows "graph_inv (added e r)" "links (added e r) = links e"
proof -
  let ?c = "next_cptr e"
  have co: "clients_ok e" "owners_ok e" using ok by (auto simp: server_ok_def server_inv_def)
  have new: "?c \<notin> set (clients e)" using co(1) by (auto simp: clients_ok_def)
  have g: "ginv (core e)" "gbooks (core e)" using server_graph(1) [OF ok] by (auto simp: graph_inv_def ginv_def)
  have m: "x \<in> set (clients e) \<Longrightarrow> cmem (added e r) x = cmem e x" for x using new by (auto simp: added_def)
  have w: "same_wires (core e) (core (added e r))" by (simp add: same_wires_def added_def core_def)
  have gr: "g_clients (core (added e r)) = insert ?c (set (clients e))" by (simp add: added_def core_def)
  have "ginv (core (added e r))"
  proof (rule ginv_change_clients [OF g(1) w, of "set (clients e)"])
    show "set (clients e) \<subseteq> g_clients (core e)" by simp
    show "set (clients e) \<subseteq> g_clients (core (added e r))" "finite (g_clients (core (added e r)))" using gr by auto
    show "same_client (core e) (core (added e r)) x" if "x \<in> set (clients e)" for x
      using m [OF that] by (simp add: same_client_def)
    show "srcclient (g_conns (core e) k) \<in> set (clients e) \<and> dstclient (g_conns (core e) k) \<in> set (clients e)"
      if "k \<in> live (core e)" for k
      using g(2) that by (auto simp: gbooks_def conn_ok_def link_ok_def Let_def)
    show "inj_on (g_id (core (added e r))) (g_clients (core (added e r)))"
    proof -
      have "inj_on (\<lambda>c. cl_id (cmem (added e r) c)) (set (clients e))"
        using graph_ids(1) [OF server_graph(1) [OF ok]] m by (auto simp: inj_on_def)
      moreover have "cl_id (cmem (added e r) x) \<noteq> cl_id (cmem (added e r) ?c)" if "x \<in> set (clients e)" for x
      proof -
        have "unat (cl_id (cmem e x)) < unat (next_client_id e)" using co(1) that by (simp add: clients_ok_def)
        then show ?thesis using m [OF that] r by (auto simp: added_def fresh_client_def)
      qed
      ultimately have "inj_on (\<lambda>c. cl_id (cmem (added e r) c)) (insert ?c (set (clients e)))"
        by (fastforce simp: inj_on_def)
      then show ?thesis unfolding gr by (simp add: inj_on_def)
    qed
    fix x assume "x \<in> g_clients (core (added e r)) - set (clients e)"
    then have x: "x = ?c" using gr by auto
    have pa: "ports (added e r) = ports e" by (simp add: added_def)
    have "p_client_id (ports e ! p) \<noteq> next_client_id e" if "p < length (ports e)" "in_use (ports e ! p)" for p
      using co that by (fastforce simp: owners_ok_def clients_ok_def)
    then show "idle_client (core (added e r)) x"
      using r unfolding idle_client_def core_simps x pa by (simp add: added_def fresh_client_def)
  qed
  then show "graph_inv (added e r)" using server_graph(5) [OF ok] new by (simp add: graph_inv_def added_def)
  have "live (core (added e r)) = live (core e)" by (simp add: live_def added_def core_def)
  then show "links (added e r) = links e" by (simp add: links_def ends_def) (simp add: added_def)
qed

lemma added_ok:
  assumes ok: "server_ok e" and r: "fresh_client r (next_client_id e) n" and ids: "ids_left e" and nm: "\<not> name_taken e n"
  shows "server_ok (added e r)"
proof -
  let ?c = "next_cptr e"
  have co: "clients_ok e" "owners_ok e" using ok by (auto simp: server_ok_def server_inv_def)
  have new: "?c \<notin> set (clients e)" using co(1) by (auto simp: clients_ok_def)
  have m: "x \<in> set (clients e) \<Longrightarrow> cmem (added e r) x = cmem e x" for x using new by (auto simp: added_def)
  have mc: "cmem (added e r) ?c = r" "clients (added e r) = ?c # clients e" "timebase_client (added e r) = timebase_client e"
    "ports (added e r) = ports e" "control (added e r) = control e" by (simp_all add: added_def)
  have "buffers_ok (added e r)"
    using server_graph(2) [OF ok] by (simp add: registry_inv_def added_def buffers_ok_def free_ok_def placed_ok_def port_buffer_ok_def buffer_of_type_def)
  then have reg: "registry_inv (added e r)" using added_graph [OF ok r] by (simp add: registry_inv_def)
  have cnt: "client_count P (added e r) = client_count P e" if "\<not> P r" for P
  proof -
    have "filter (\<lambda>x. P (cmem (added e r) x)) (clients e) = filter (\<lambda>x. P (cmem e x)) (clients e)" using m by (intro filter_cong) auto
    then show ?thesis using that mc by (simp add: client_count_def)
  qed
  have ti: "transport_inv e" by (rule server_graph(3) [OF ok])
  then have tb: "timebase_client e \<noteq> Some ?c" using new by (auto simp: transport_inv_def master_inv_def)
  have tr: "transport_inv (added e r)"
    using ti tb new r cnt [of active_slowsync] cnt [of sync_poll] m mc
    by (auto simp: transport_inv_def sync_inv_def master_inv_def fresh_client_def)
  have ow: "owners_ok (added e r)" using co(2) m mc unfolding owners_ok_def by (metis list.set_intros(2))
  have "inj_on (\<lambda>c. cl_name (cmem (added e r) c)) (set (clients e))" using co(1) m by (auto simp: clients_ok_def inj_on_def)
  moreover have "n \<noteq> cl_name (cmem (added e r) x)" if "x \<in> set (clients e)" for x using nm that m [OF that] by (auto simp: name_taken_iff)
  ultimately have inj: "inj_on (\<lambda>c. cl_name (cmem (added e r) c)) (insert ?c (set (clients e)))"
    using new mc(1) r by (auto simp: inj_on_insert fresh_client_def)
  have num: "x < next_cptr (added e r) \<and> unat (cl_id (cmem (added e r) x)) < unat (next_client_id (added e r))"
    if "x \<in> insert ?c (set (clients e))" for x
  proof (cases "x = ?c")
    case True
    then show ?thesis using mc(1) r unat_next_id [OF ids] by (simp add: added_def fresh_client_def)
  next
    case False
    then have x: "x \<in> set (clients e)" using that by simp
    then have "x < next_cptr e \<and> unat (cl_id (cmem e x)) < unat (next_client_id e)" using co(1) by (simp add: clients_ok_def)
    then show ?thesis using m [OF x] unat_next_id [OF ids] by (simp add: added_def less_SucI)
  qed
  have "clients_ok (added e r)" using inj num mc(2) by (simp add: clients_ok_def)
  moreover have "dead_ok (added e r) x" if "x \<in> insert ?c (set (clients e))" for x
  proof (cases "x = ?c")
    case True
    then show ?thesis using mc(1) r by (simp add: dead_ok_def fresh_client_def)
  next
    case False
    then have x: "x \<in> set (clients e)" using that by simp
    then have "dead_ok e x" using ok by (simp add: server_ok_def)
    then show ?thesis using m [OF x] mc by (simp add: dead_ok_def portless_def)
  qed
  ultimately show ?thesis using reg tr ow mc(2) by (simp add: server_ok_def server_inv_def)
qed

lemma uuid_unseen: "unseen e (jack_ensure_uuid_unique e uuid)"
proof -
  have "(\<lambda>c. client_seen (cmem (jack_ensure_uuid_unique e uuid) c)) = (\<lambda>c. client_seen (cmem e c))"
    by (auto simp: jack_ensure_uuid_unique_def client_seen_def)
  then show ?thesis by (simp add: unseen_def seen_def) (simp add: jack_ensure_uuid_unique_def)
qed

lemma uuid_frame:
  "clients (jack_ensure_uuid_unique e uuid) = clients e" "next_client_id (jack_ensure_uuid_unique e uuid) = next_client_id e"
  "name_taken (jack_ensure_uuid_unique e uuid) n = name_taken e n" "next_cptr (jack_ensure_uuid_unique e uuid) = next_cptr e"
  "cl_name (cmem (jack_ensure_uuid_unique e uuid) c) = cl_name (cmem e c)"
  "links (jack_ensure_uuid_unique e uuid) = links e"
  by (auto simp: jack_ensure_uuid_unique_def name_taken_iff core_def fun_eq_iff intro!: links_core)

text \<open>
  The result of setting up a client: refused, with nothing the invariant sees changed, or a fresh
  client in front of the others.
\<close>

definition joined_list :: "jack_engine_t \<Rightarrow> string \<Rightarrow> cptr \<Rightarrow> jack_engine_t \<Rightarrow> bool" where
  "joined_list e n c e' \<longleftrightarrow> clients e' = c # clients e \<and> c \<notin> set (clients e) \<and> fresh_client (cmem e' c) (next_client_id e) n \<and>
     links e' = links e \<and> timebase_client e' = timebase_client e \<and> \<not> name_taken e n \<and>
     (\<forall>x \<in> set (clients e). cl_name (cmem e' x) = cl_name (cmem e x))"

lemma setup_add_ok:
  assumes ok: "server_ok e" and mem: "sound_memory w" and ids: "ids_left e" and load: "ty = ClientInternal \<Longrightarrow> w_load_ok w"
  shows "\<exists>e' st cl. setup_client_add w e ty name uuid options fd = Value (e', st, cl) \<and> server_ok e' \<and>
    roster e e' \<and>
    (case cl of
       None \<Rightarrow> clients e' = clients e
     | Some c \<Rightarrow> (\<exists>n. snd (jack_client_name_invalid e name options 0) = Some n \<and> joined_list e n c e' \<and>
                     cl_type (cmem e' c) = ty))"
proof (cases "jack_client_name_invalid e name options 0")
  case (Pair st nm)
  show ?thesis
  proof (cases nm)
    case None
    then show ?thesis using Pair ok by (simp add: setup_client_add_def)
  next
    case (Some n)
    have free: "\<not> name_taken e n" using name_invalid_Some Pair Some by blast
    define e1 where "e1 = (if uuid \<noteq> 0 then jack_ensure_uuid_unique e uuid else e)"
    have f1: "clients e1 = clients e" "next_client_id e1 = next_client_id e" "name_taken e1 n = name_taken e n" "links e1 = links e"
      "\<And>x. cl_name (cmem e1 x) = cl_name (cmem e x)" "timebase_client e1 = timebase_client e"
      by (simp_all add: e1_def uuid_frame) (simp add: jack_ensure_uuid_unique_def)
    have u1: "unseen e e1" by (simp add: e1_def uuid_unseen)
    have ok1: "server_ok e1" using unseen_ok [OF u1] ok by simp
    note r1 = roster_unseen [OF u1]
    show ?thesis
    proof (cases "ty = ClientExternal \<and> \<not> w_shm_ok w")
      case True
      then show ?thesis using Pair Some ok1 f1 r1 by (simp add: setup_client_add_def jack_setup_client_control_def e1_def [symmetric])
    next
      case False
      define r where "r = (let r0 = init_client (w_junk w) fd ty n (next_client_id e1) uuid in
        if ty = ClientInternal then r0\<lparr>handle := True\<rparr> else r0)"
      have fr: "fresh_client r (next_client_id e1) n"
        using fresh_init [OF mem, of fd _ n "next_client_id e1" uuid] by (simp add: r_def Let_def fresh_client_def)
      have ok2: "server_ok (added e1 r)"
        using added_ok [OF ok1 fr] ids free f1 by (simp add: ids_left_def)
      have new: "next_cptr e1 \<notin> set (clients e1)" using ok1 by (auto simp: server_ok_def server_inv_def clients_ok_def)
      have "setup_client_add w e ty name uuid options fd = Value (added e1 r, st, Some (next_cptr e1))"
        using Pair Some False load
        by (simp add: setup_client_add_def jack_setup_client_control_def e1_def [symmetric] Let_def added_def r_def
            upd_client_def jack_slist_prepend_def)
      moreover have "roster e (added e1 r)" using r1 by (auto simp: roster_def added_def)
      moreover have "cl_name (cmem (added e1 r) x) = cl_name (cmem e x)" if "x \<in> set (clients e)" for x
        using that f1 new by (auto simp: added_def)
      then have "joined_list e n (next_cptr e1) (added e1 r)"
        using fr f1 new free added_graph(2) [OF ok1 fr] by (simp add: joined_list_def) (simp add: added_def)
      moreover have "cl_type (cmem (added e1 r) (next_cptr e1)) = ty"
        by (simp add: added_def r_def Let_def init_client_def jack_transport_client_new_def)
      ultimately show ?thesis
        using ok2 Pair Some by (intro exI [of _ "added e1 r"] exI [of _ st] exI [of _ "Some (next_cptr e1)"]) auto
    qed
  qed
qed

text \<open>
  Code that is loaded into the server keeps to the engine's interface: what an internal client's
  \<open>initialize\<close> function does to the engine is a sequence of engine calls, and its \<open>finish\<close> function leaves
  the engine alone. Nothing is said about the invariant: that the calls keep it is \<open>engine_calls_ok\<close>.
  Whether the code can be loaded at all is left open here.
\<close>

definition sound_client :: "client_world \<Rightarrow> bool" where
  "sound_client w \<longleftrightarrow> sound_memory w \<and> leaves_engine (w_finish w) \<and>
     (\<forall>e. server_ok e \<longrightarrow> engine_call\<^sup>*\<^sup>* e (fst (w_initialize w e)))"

lemma setup_client_ok:
  assumes ok: "server_ok e" and w: "sound_client w" and ids: "ids_left e" and load: "ty = ClientInternal \<Longrightarrow> w_load_ok w"
  shows "\<exists>e' st cl. setup_client w e ty name uuid options fd = Value (e', st, cl) \<and> server_ok e' \<and> roster e e' \<and>
    (case cl of None \<Rightarrow> True | Some c \<Rightarrow> c \<in> set (clients e') \<and> c \<notin> set (clients e) \<and>
      (ty \<noteq> ClientInternal \<longrightarrow> (\<exists>n. snd (jack_client_name_invalid e name options 0) = Some n \<and> joined_list e n c e')))"
proof -
  obtain e1 st cl where e1: "setup_client_add w e ty name uuid options fd = Value (e1, st, cl)" "server_ok e1" "roster e e1"
    "case cl of None \<Rightarrow> clients e1 = clients e
     | Some c \<Rightarrow> (\<exists>n. snd (jack_client_name_invalid e name options 0) = Some n \<and> joined_list e n c e1 \<and> cl_type (cmem e1 c) = ty)"
    using setup_add_ok [OF ok, of w ty name uuid options fd] w ids load unfolding sound_client_def by blast
  show ?thesis
  proof (cases cl)
    case None
    then show ?thesis using e1 by (simp add: setup_client_def)
  next
    case (Some c)
    then obtain n where n: "snd (jack_client_name_invalid e name options 0) = Some n" "joined_list e n c e1" using e1(4) by auto
    have c: "c \<in> set (clients e1)" "c \<notin> set (clients e)" using n(2) by (simp_all add: joined_list_def)
    show ?thesis
    proof (cases "ty = ClientInternal")
      case False
      then show ?thesis using e1 Some n c by (simp add: setup_client_def)
    next
      case True
      obtain e2 failed where i: "w_initialize w e1 = (e2, failed)" by fastforce
      have "engine_call\<^sup>*\<^sup>* e1 e2" using w e1(2) i unfolding sound_client_def by (metis fst_conv)
      then have r2: "server_ok e2" "roster e1 e2" using engine_calls_ok e1(2) by blast+
      have e2: "server_ok e2" "c \<in> set (clients e2)" "roster e e2"
        using r2 c roster_trans [OF e1(3) r2(2)] by (auto simp: roster_def)
      obtain e3 where e3: "jack_remove_client (w_finish w) e2 c = Value e3" "server_ok e3" "others_same c e2 e3"
        "mset (clients e3) = mset (remove1 c (clients e2))"
        using remove_ok [OF e2(1,2), of "w_finish w"] w by (auto simp: sound_client_def)
      have "roster e e3" by (rule roster_remove [OF e3(3,4) e2(3) c(2)])
      then show ?thesis using e1 Some True i e2 e3 c by (cases "failed = 0") (simp_all add: setup_client_def)
    qed
  qed
qed

text \<open>Unloading a client other than the driver's.\<close>

definition spares_driver :: "jack_engine_t \<Rightarrow> u32 \<Rightarrow> bool" where
  "spares_driver e i \<longleftrightarrow> (\<forall>c. jack_client_internal_by_id e i = Some c \<longrightarrow> driver_client e \<noteq> Some c)"

lemma unload_ok:
  assumes "server_ok e" "sound_client w" "driver_here e" "spares_driver e i"
  shows "\<exists>e' st. handle_unload_client w e i = Value (e', st) \<and> server_ok e' \<and> driver_here e'"
proof (cases "jack_client_internal_by_id e i")
  case (Some c)
  obtain e' where e': "jack_remove_client (w_finish w) e c = Value e'" "server_ok e'" "others_same c e e'"
    "mset (clients e') = mset (remove1 c (clients e))"
    using remove_ok [OF assms(1), of c "w_finish w"] by_id_Some [OF Some] assms(2) by (auto simp: sound_client_def)
  obtain d where d: "driver_client e = Some d" "d \<in> set (clients e)" "d \<noteq> c"
    using assms(3,4) Some by (auto simp: driver_here_def spares_driver_def)
  then have "d \<in> set (clients e')" using mset_eq_setD [OF e'(4)] by simp
  then have "driver_here e'" using d(1) e'(3) by (simp add: driver_here_def others_same_def)
  then show ?thesis using e' Some by (simp add: handle_unload_client_def)
qed (use assms in \<open>simp add: handle_unload_client_def\<close>)

lemma reserved_unseen: "unseen e (fst (jack_get_reserved_name e uuid))"
  by (auto simp: jack_get_reserved_name_def intro: unseen_frame split: option.splits)

text \<open>
  A connection the server can make without leaving the ground it stands on: the answer to an internal
  client gets through (its failure zombifies a client that may own ports), and a client that is
  unloaded by name is not the driver's.
\<close>

definition sound_connection :: "bool \<Rightarrow> jack_engine_t \<Rightarrow> connect_read \<Rightarrow> bool" where
  "sound_connection reply_ok e rd \<longleftrightarrow>
     (case rd of
        ReadRequest rq \<Rightarrow>
          if cr_load rq then cr_type rq = ClientInternal \<longrightarrow> reply_ok
          else spares_driver e (jack_client_id_by_name e (cr_name rq))
      | _ \<Rightarrow> True)"

lemma create_ok:
  assumes ok: "server_ok e" "driver_here e" and w: "sound_client w" "w_load_ok w" and ids: "ids_left e"
    and rd: "sound_connection reply_ok e rd"
  shows "\<exists>e' st. jack_client_create w reply_ok e fd rd = Value (e', st) \<and> server_ok e' \<and> driver_here e'"
proof (cases rd)
  case (ReadRequest rq)
  show ?thesis
  proof (cases "cr_load rq")
    case False
    then show ?thesis
      using unload_ok [OF ok(1) w(1) ok(2), of "jack_client_id_by_name e (cr_name rq)"] ok ReadRequest rd
      by (auto simp: jack_client_create_def sound_connection_def Let_def c_map_Value)
  next
    case True
    define p where "p = (if cr_uuid rq \<noteq> 0 then
                   (case jack_get_reserved_name e (cr_uuid rq) of
                      (e', Some n) \<Rightarrow> (e', take (JACK_CLIENT_NAME_SIZE - 1) n)
                    | (e', None) \<Rightarrow> (e', cr_name rq))
                 else (e, cr_name rq))"
    obtain e1 nm where p: "p = (e1, nm)" by fastforce
    have u: "unseen e e1"
      using p reserved_unseen [of e "cr_uuid rq"] by (auto simp: p_def split: if_splits prod.splits option.splits)
    have ok1: "server_ok e1" "driver_here e1" using unseen_ok [OF u] roster_driver [OF roster_unseen [OF u]] ok by simp_all
    have ids1: "ids_left e1" using ids arg_cong [OF u [unfolded unseen_def], of next_client_id] by (simp add: ids_left_def seen_def)
    obtain e2 st cl where e2: "setup_client w e1 (cr_type rq) nm (cr_uuid rq) (cr_options rq) fd = Value (e2, st, cl)" "server_ok e2"
      "roster e1 e2" "case cl of None \<Rightarrow> True | Some c \<Rightarrow> c \<in> set (clients e2) \<and> c \<notin> set (clients e1) \<and>
        (cr_type rq \<noteq> ClientInternal \<longrightarrow> (\<exists>n. snd (jack_client_name_invalid e1 nm (cr_options rq) 0) = Some n \<and> joined_list e1 n c e2))"
      using setup_client_ok [OF ok1(1) w(1) ids1 w(2), of "cr_type rq" nm "cr_uuid rq" "cr_options rq" fd] by blast
    have d2: "driver_here e2" by (rule roster_driver [OF e2(3) ok1(2)])
    have val: "jack_client_create w reply_ok e fd rd = (case cl of
                    None \<Rightarrow> Value (e2, -1)
                  | Some c \<Rightarrow>
                      if \<not> reply_ok
                      then c_map (\<lambda>e3. (e3, -1)) (jack_remove_client (w_finish w) (upd_client c (\<lambda>r. r\<lparr>dead := True\<rparr>) e2) c)
                      else Value (jack_client_registration_notify e2 (cl_name (cmem e2 c)) True, 0))"
      using True ReadRequest e2(1) p unfolding jack_client_create_def p_def by (simp add: Let_def)
    show ?thesis
    proof (cases cl)
      case None
      then show ?thesis using val e2(2) d2 by simp
    next
      case (Some c)
      have c: "c \<in> set (clients e2)" "c \<notin> set (clients e1)" using e2(4) Some by simp_all
      show ?thesis
      proof (cases reply_ok)
        case True
        then show ?thesis
          using val Some e2(2) unseen_ok [OF unseen_client_notify [OF unseen_refl], of e2]
            roster_driver [OF roster_unseen [OF unseen_client_notify [OF unseen_refl]], of e2] d2 by simp
      next
        case no: False
        then have "cr_type rq \<noteq> ClientInternal" using rd ReadRequest True by (simp add: sound_connection_def)
        then obtain n where j: "joined_list e1 n c e2" using e2(4) Some by auto
        let ?d = "upd_client c (\<lambda>r. r\<lparr>dead := True\<rparr>) e2"
        have fresh: "fresh_client (cmem e2 c) (next_client_id e1) n" using j by (simp add: joined_list_def)
        have "portless e2 c"
        proof -
          have "set (cl_ports (cmem e2 c)) = {}" using fresh by (simp add: fresh_client_def)
          then show ?thesis using own_ports(2) [OF server_graph(4) [OF e2(2)] c(1)] by (auto simp: portless_def)
        qed
        moreover have "timebase_client e2 \<noteq> Some c"
          using fresh server_graph(3) [OF e2(2)] c by (auto simp: fresh_client_def transport_inv_def master_inv_def)
        ultimately have "dead_ok ?d c" using fresh by (simp add: dead_ok_def fresh_client_def portless_def upd_client_def)
        moreover have "dead_ok ?d x" if "x \<in> set (clients e2)" "x \<noteq> c" for x
          using e2(2) that by (simp add: server_ok_def dead_ok_def portless_def upd_client_def)
        moreover have "server_inv ?d" using server_graph(4) [OF e2(2)] by (simp add: server_dead)
        ultimately have "server_ok ?d" by (auto simp: server_ok_def)
        then obtain e3 where e3: "jack_remove_client (w_finish w) ?d c = Value e3" "server_ok e3" "others_same c ?d e3"
          "mset (clients e3) = mset (remove1 c (clients ?d))"
          using remove_ok [of ?d c "w_finish w"] c w by (auto simp: sound_client_def)
        have "roster e1 ?d" using e2(3) by (simp add: roster_def upd_client_def)
        then have "driver_here e3" using roster_driver [OF roster_remove [OF e3(3,4) _ c(2)] ok1(2)] by simp
        then show ?thesis using val Some no e3 by simp
      qed
    qed
  qed
qed (use ok in \<open>simp_all add: jack_client_create_def\<close>)


section \<open>Results without loading\<close>

text \<open>
  Where loading fails nothing is returned (\<open>Undefined\<close>) or the client is refused before: a result that is
  returned does not depend on whether loading succeeds.
\<close>

abbreviation loading :: "client_world \<Rightarrow> client_world" where
  "loading w \<equiv> w\<lparr>w_load_ok := True\<rparr>"

lemma loading_sound: "sound_client (loading w) = sound_client w"
  by (simp add: sound_client_def sound_memory_def)

lemma loading_fields [simp]:
  "w_shm_ok (loading w) = w_shm_ok w" "w_junk (loading w) = w_junk w" "w_initialize (loading w) = w_initialize w"
  "w_finish (loading w) = w_finish w" "w_load_ok (loading w)"
  by simp_all

lemma setup_add_loading:
  assumes "setup_client_add w e ty name uuid options fd = Value r"
  shows "setup_client_add (loading w) e ty name uuid options fd = Value r"
proof (cases "ty = ClientInternal \<and> \<not> w_load_ok w")
  case True
  then show ?thesis
    using assms by (auto simp: setup_client_add_def Let_def split: prod.splits option.splits)
next
  case False
  then have eq: "(ty = ClientInternal \<and> \<not> w_load_ok w) = (ty = ClientInternal \<and> \<not> w_load_ok (loading w))" by simp
  show ?thesis using assms unfolding setup_client_add_def eq loading_fields(1,2) .
qed

lemma setup_loading:
  assumes "setup_client w e ty name uuid options fd = Value r"
  shows "setup_client (loading w) e ty name uuid options fd = Value r"
proof -
  obtain x where x: "setup_client_add w e ty name uuid options fd = Value x"
    using assms by (auto simp: setup_client_def c_bind_Value)
  show ?thesis using assms unfolding setup_client_def x setup_add_loading [OF x] loading_fields .
qed

lemma create_loading:
  assumes "jack_client_create w reply_ok e fd rd = Value r"
  shows "jack_client_create (loading w) reply_ok e fd rd = Value r"
proof (cases "\<exists>rq. rd = ReadRequest rq \<and> cr_load rq")
  case True
  then obtain rq where rq: "rd = ReadRequest rq" "cr_load rq" by blast
  define p where "p = (if cr_uuid rq \<noteq> 0 then
                   (case jack_get_reserved_name e (cr_uuid rq) of
                      (e', Some n) \<Rightarrow> (e', take (JACK_CLIENT_NAME_SIZE - 1) n)
                    | (e', None) \<Rightarrow> (e', cr_name rq))
                 else (e, cr_name rq))"
  obtain e1 nm where p: "p = (e1, nm)" by fastforce
  have v: "jack_client_create v reply_ok e fd rd =
      c_bind (setup_client v e1 (cr_type rq) nm (cr_uuid rq) (cr_options rq) fd) (\<lambda>(e2, status, client).
        case client of
          None \<Rightarrow> Value (e2, -1)
        | Some c \<Rightarrow>
            if \<not> reply_ok
            then c_map (\<lambda>e3. (e3, -1)) (jack_remove_client (w_finish v) (upd_client c (\<lambda>r. r\<lparr>dead := True\<rparr>) e2) c)
            else Value (jack_client_registration_notify e2 (cl_name (cmem e2 c)) True, 0))" for v
    using rq p unfolding jack_client_create_def p_def by (simp add: Let_def)
  obtain x where x: "setup_client w e1 (cr_type rq) nm (cr_uuid rq) (cr_options rq) fd = Value x"
    using assms v by (auto simp: c_bind_Value)
  show ?thesis using assms unfolding v x setup_loading [OF x] loading_fields .
next
  case False
  then show ?thesis
    using assms unfolding jack_client_create_def handle_unload_client_def loading_fields by (cases rd) simp_all
qed

end
