(* ===== verification/Cycle.thy ===== *)
theory Cycle
  imports Requests
begin

text \<open>
  One process cycle, \<open>server/engine.c\<close>: the server runs the internal clients itself and starts each
  chain of external clients once, waiting for its end. What the clients, \<open>poll\<close>, the drivers and
  the locks answer is a parameter. The load and delay statistics, which are floating point, are not
  part of the model; the comparison of the delay with the spare time is a parameter.
\<close>

section \<open>Waiting for a chain of external clients\<close>

text \<open>
  One return of \<open>poll\<close>: what it says and the microseconds since the chain was started. \<open>PollReadable\<close> is
  \<open>POLLIN\<close>, with or without other events, \<open>PollHangup\<close> other events only, \<open>PollTimeout\<close> and
  \<open>PollFalseWakeup\<close> none, \<open>PollError\<close> a failure of the call. \<open>wk_steady\<close> says that the clock is not the
  system clock, or that this one is monotonic.
\<close>

record wakeup =
  wk_poll :: poll_outcome
  wk_usecs :: u64
  wk_steady :: bool

record cycle_world =
  cw_start_ok :: "cptr \<Rightarrow> bool"
  cw_wakeups :: "cptr \<Rightarrow> wakeup list"
  cw_finished :: "cptr \<Rightarrow> cptr \<Rightarrow> u64"
  cw_read_ok :: "cptr \<Rightarrow> bool"
  cw_alive :: "cptr \<Rightarrow> bool"
  cw_process_fails :: "cptr \<Rightarrow> bool"
  cw_sync_ready :: "cptr \<Rightarrow> bool"
  cw_timebase :: "jack_transport_state_t \<Rightarrow> jack_nframes_t \<Rightarrow> jack_position_t \<Rightarrow> bool \<Rightarrow> jack_position_t"
  cw_timeout_usecs :: u64

text \<open>Each client whose process is gone or whose callback failed gets an error.\<close>

fun status_each :: "(cptr \<Rightarrow> bool) \<Rightarrow> jack_engine_t \<Rightarrow> cptr list \<Rightarrow> nat \<Rightarrow> jack_engine_t \<times> nat" where
  "status_each alive e [] err = (e, err)"
| "status_each alive e (c # cs) err =
     (if cl_type (cmem e c) = ClientExternal then
        (let (e1, err1) = (if \<not> alive c then (upd_client c (\<lambda>r. r\<lparr>cl_error := cl_error r + 1\<rparr>) e, Suc err) else (e, err));
             (e2, err2) = (if last_status (cmem e1 c) \<noteq> 0
                           then (upd_client c (\<lambda>r. r\<lparr>cl_error := cl_error r + 1\<rparr>) e1, Suc err1) else (e1, err1))
         in status_each alive e2 cs err2)
      else status_each alive e cs err)"

definition jack_check_client_status :: "(cptr \<Rightarrow> bool) \<Rightarrow> jack_engine_t \<Rightarrow> jack_engine_t \<times> nat" where
  "jack_check_client_status alive e = status_each alive e (clients e) 0"

text \<open>
  The loop at the label \<open>again\<close>. \<open>Done e status\<close> goes on with that status, \<open>Gone e\<close> stops the cycle; when
  the list of wake-ups is used up the loop still waits. While freewheeling, a time-out is nothing
  but a reason to look after the clients; otherwise an early wake-up shortens the remaining time.
\<close>

definition linux_poll_bug_encountered :: "bool \<Rightarrow> u64 \<Rightarrow> u64 \<Rightarrow> bool \<times> u64" where
  "linux_poll_bug_encountered steady elapsed required =
     (if steady \<and> elapsed < required then (True, required - elapsed) else (False, required))"

datatype waited = Done jack_engine_t int | Gone jack_engine_t

fun wait_chain :: "(cptr \<Rightarrow> bool) \<Rightarrow> jack_engine_t \<Rightarrow> u64 \<Rightarrow> wakeup list \<Rightarrow> waited option" where
  "wait_chain alive e required [] = None"
| "wait_chain alive e required (w # ws) =
     (case wk_poll w of
        PollReadable \<Rightarrow> Some (Done e 0)
      | PollError \<Rightarrow> Some (Done e (-1))
      | PollHangup \<Rightarrow> Some (Done e (-2))
      | _ \<Rightarrow>
          if freewheeling e then
            (case jack_check_client_status alive e of (e1, err) \<Rightarrow>
               if err \<noteq> 0 then Some (Gone e1) else wait_chain alive e1 required ws)
          else
            (case linux_poll_bug_encountered (wk_steady w) (wk_usecs w) required of (again, left) \<Rightarrow>
               if again then wait_chain alive e left ws
               else if left < 200 then Some (Done e 0)
               else Some (Done e 1)))"

section \<open>Processing\<close>

definition jack_process_internal :: "cycle_world \<Rightarrow> jack_engine_t \<Rightarrow> cptr \<Rightarrow> jack_engine_t" where
  "jack_process_internal w e c =
     (let e1 = upd_client c (\<lambda>r. r\<lparr>cl_state := Running\<rparr>) e;
          e2 = (if sync_cb_cbset (cmem e1 c) then jack_call_sync_client e1 c (cw_sync_ready w c) else e1);
          e3 = (if process_cbset (cmem e2 c) \<and> cw_process_fails w c then e2\<lparr>process_errors := Suc (process_errors e2)\<rparr> else e2);
          e4 = (if timebase_cb_cbset (cmem e3 c) then jack_call_timebase_master (cw_timebase w) e3 c else e3)
      in upd_client c (\<lambda>r. r\<lparr>cl_state := Finished\<rparr>) e4)"

text \<open>
  The flag of the result tells whether the loop goes on. \<open>None\<close>: the chain has not come to an end.
\<close>

definition jack_process_external :: "cycle_world \<Rightarrow> jack_engine_t \<Rightarrow> cptr \<Rightarrow> (jack_engine_t \<times> bool) option" where
  "jack_process_external w e c =
     (let e1 = upd_client c (\<lambda>r. r\<lparr>cl_state := Triggered\<rparr>) e in
      if \<not> cw_start_ok w c then Some (jack_engine_signal_problems (e1\<lparr>process_errors := Suc (process_errors e1)\<rparr>), False)
      else
        (case wait_chain (cw_alive w) e1 (if freewheeling e1 then 250000 else cw_timeout_usecs w) (cw_wakeups w c) of
           None \<Rightarrow> None
         | Some (Gone e2) \<Rightarrow> Some (e2, False)
         | Some (Done e2 status) \<Rightarrow>
             (let (e3, stop) =
                (if status \<noteq> 0 then
                   (case jack_check_clients (cw_finished w c) e2 True of (e3, errs) \<Rightarrow>
                      if errs \<noteq> 0 then (e3\<lparr>process_errors := Suc (process_errors e3)\<rparr>, True) else (e3, False))
                 else (e2\<lparr>timeout_count := 0\<rparr>, False))
              in if stop then Some (e3, False)
                 else if \<not> cw_read_ok w c then Some (upd_client c (\<lambda>r. r\<lparr>cl_error := cl_error r + 1\<rparr>) e3, False)
                 else Some (e3, True))))"

definition runnable :: "jack_client_internal_t \<Rightarrow> bool" where
  "runnable r \<longleftrightarrow> active r \<and> (process_cbset r \<or> thread_cb_cbset r) \<and> \<not> dead r"

text \<open>
  The loop over the clients, with the list of clients it has run or started. A chain that has come to
  an end takes the loop to the next internal client.
\<close>

function process_loop :: "cycle_world \<Rightarrow> jack_engine_t \<Rightarrow> cptr list \<Rightarrow> cptr list \<Rightarrow> (jack_engine_t \<times> cptr list) option" where
  "process_loop w e [] so_far = Some (e, so_far)"
| "process_loop w e (c # cs) so_far =
     (if process_errors e \<noteq> 0 then Some (e, so_far)
      else if \<not> runnable (cmem e c) then process_loop w e cs so_far
      else if jack_client_is_internal (cmem e c) then
        (let e1 = jack_process_internal w e c in
         if process_errors e1 \<noteq> 0 then Some (e1, so_far @ [c]) else process_loop w e1 cs (so_far @ [c]))
      else
        (case jack_process_external w e c of
           None \<Rightarrow> None
         | Some (e1, goes_on) \<Rightarrow>
             if goes_on then process_loop w e1 (dropWhile (\<lambda>d. \<not> jack_client_is_internal (cmem e1 d)) cs) (so_far @ [c])
             else Some (e1, so_far @ [c])))"
  by pat_completeness auto
termination
  by (relation "measure (\<lambda>(w, e, cs, so_far). length cs)")
    (auto simp: le_imp_less_Suc length_dropWhile_le)

declare process_loop.simps [simp del]

fun reset_states :: "jack_engine_t \<Rightarrow> cptr list \<Rightarrow> jack_engine_t" where
  "reset_states e [] = e"
| "reset_states e (c # cs) =
     reset_states (upd_client c (\<lambda>r. r\<lparr>cl_state := NotTriggered, timed_out := 0, awake_at := 0, finished_at := 0\<rparr>) e) cs"

definition jack_engine_process :: "cycle_world \<Rightarrow> jack_engine_t \<Rightarrow> (jack_engine_t \<times> bool \<times> cptr list) option" where
  "jack_engine_process w e =
     map_option (\<lambda>(e1, so_far). (e1, 0 < process_errors e1, so_far))
       (process_loop w (reset_states (e\<lparr>process_errors := 0\<rparr>) (clients e)) (clients e) [])"

text \<open>\<open>reads\<close>: what the guarded copies of the requested position see.\<close>

definition jack_engine_post_process :: "(nat \<Rightarrow> jack_position_t) \<Rightarrow> jack_engine_t \<Rightarrow> jack_engine_t c_result" where
  "jack_engine_post_process reads e =
     c_map (\<lambda>e1. fst (jack_check_clients (\<lambda>_. 0) e1 False)) (jack_transport_cycle_end reads e)"

section \<open>A cycle\<close>

definition jack_engine_delay :: "jack_engine_t \<Rightarrow> jack_engine_t" where
  "jack_engine_delay e = jack_deliver_event_to_all e XRun"

definition jack_drivers_read :: "(nat \<Rightarrow> jack_engine_t \<Rightarrow> jack_engine_t) \<Rightarrow> (jack_engine_t \<Rightarrow> jack_engine_t \<times> int) \<Rightarrow>
    jack_engine_t \<Rightarrow> jack_engine_t \<times> int" where
  "jack_drivers_read slave_read master_read e = master_read (fold slave_read (slave_drivers e) e)"

definition jack_drivers_write :: "(nat \<Rightarrow> jack_engine_t \<Rightarrow> jack_engine_t) \<Rightarrow> (jack_engine_t \<Rightarrow> jack_engine_t \<times> int) \<Rightarrow>
    jack_engine_t \<Rightarrow> jack_engine_t \<times> int" where
  "jack_drivers_write slave_write master_write e = master_write (fold slave_write (slave_drivers e) e)"

text \<open>
  What one cycle meets: whether the delay eats up the spare time, whether the two locks are to be had,
  whether the time-outs are over the threshold, and the drivers.
\<close>

record cycle_input =
  ci_excess :: bool
  ci_graph_locked :: bool
  ci_problems_locked :: bool
  ci_over_threshold :: bool
  ci_slave_read :: "nat \<Rightarrow> jack_engine_t \<Rightarrow> jack_engine_t"
  ci_read :: "jack_engine_t \<Rightarrow> jack_engine_t \<times> int"
  ci_slave_write :: "nat \<Rightarrow> jack_engine_t \<Rightarrow> jack_engine_t"
  ci_write :: "jack_engine_t \<Rightarrow> jack_engine_t \<times> int"
  ci_world :: cycle_world
  ci_reads :: "nat \<Rightarrow> jack_position_t"

definition skips_cycle :: "cycle_input \<Rightarrow> jack_engine_t \<Rightarrow> bool" where
  "skips_cycle ci e \<longleftrightarrow> ci_graph_locked ci \<or> ci_problems_locked ci \<or> problems e \<noteq> 0 \<or> ci_over_threshold ci"

text \<open>
  \<open>delays\<close> is the static counter of consecutive excessive delays. \<open>None\<close> as the outer result: a chain of
  clients has not come to an end.
\<close>

definition jack_run_one_cycle :: "cycle_input \<Rightarrow> jack_engine_t \<Rightarrow> nat \<Rightarrow> (jack_engine_t \<times> nat \<times> int) c_result option" where
  "jack_run_one_cycle ci e delays =
     (if \<not> freewheeling e \<and> ci_excess ci then
        (if 10 < Suc delays then Some (Value (e, Suc delays, -1)) else Some (Value (jack_engine_delay e, Suc delays, 0)))
      else if skips_cycle ci e then Some (Value (e, 0, 0))
      else
        (let (e1, err) = (if \<not> freewheeling e then jack_drivers_read (ci_slave_read ci) (ci_read ci) e else (e, 0)) in
         if err \<noteq> 0 then Some (Value (e1, 0, -1))
         else
           (case jack_engine_process (ci_world ci) e1 of
              None \<Rightarrow> None
            | Some (e2, failed, so_far) \<Rightarrow>
                (let e3 = (if failed then fst (jack_check_client_status (cw_alive (ci_world ci)) e2) else e2);
                     (e4, err2) = (if \<not> freewheeling e3 then jack_drivers_write (ci_slave_write ci) (ci_write ci) e3 else (e3, 0))
                 in if err2 \<noteq> 0 then Some (Value (e4, 0, -1))
                    else Some (c_map (\<lambda>e5. (e5, 0, 0)) (jack_engine_post_process (ci_reads ci) e4))))))"


text \<open>
  As many cycles as it takes to consume \<open>nframes\<close>. A buffer size of 0 makes the loop endless; the
  inputs of the cycles are those of the list.
\<close>

function run_cycles :: "(nat \<Rightarrow> cycle_input) \<Rightarrow> nat \<Rightarrow> nat \<Rightarrow> nat \<Rightarrow> jack_engine_t \<Rightarrow> nat \<Rightarrow>
    (jack_engine_t \<times> nat \<times> int) c_result option" where
  "run_cycles cis i left b_size e delays =
     (if left < b_size then Some (Value (e, delays, 0))
      else if b_size = 0 then None
      else
        (case jack_run_one_cycle (cis i) e delays of
           None \<Rightarrow> None
         | Some (Value (e1, d1, r)) \<Rightarrow>
             if r \<noteq> 0 then Some (Value (e1, d1, EIO)) else run_cycles cis (Suc i) (left - b_size) b_size e1 d1
         | Some r \<Rightarrow> Some r))"
  by pat_completeness auto
termination by (relation "measure (\<lambda>(cis, i, left, b, e, d). left)") auto

declare run_cycles.simps [simp del]

definition jack_run_cycle :: "(nat \<Rightarrow> cycle_input) \<Rightarrow> jack_engine_t \<Rightarrow> jack_nframes_t \<Rightarrow> nat \<Rightarrow>
    (jack_engine_t \<times> nat \<times> int) c_result option" where
  "jack_run_cycle cis e nframes delays = run_cycles cis 0 (unat nframes) (unat (buffer_size (control e))) e delays"

end
