(* ===== verification/Cycle_Inv.thy ===== *)
theory Cycle_Inv
  imports Cycle Server_Calls
begin

text \<open>
  A process cycle keeps the server's invariant, and when nothing fails it runs the clients after a
  fixed plan: every internal client that is due, and the first client that is due of every chain of
  external ones, in the order of the client list.
\<close>

section \<open>The invariant\<close>

lemma unseen_process_fields [unseen_frame]:
  assumes "unseen d e"
  shows "unseen d (upd_client c (\<lambda>r. r\<lparr>cl_state := s\<rparr>) e)"
    "unseen d (upd_client c (\<lambda>r. r\<lparr>cl_state := s, timed_out := n, awake_at := u, finished_at := v\<rparr>) e)"
  by (rule unseen_client [OF assms]; simp add: client_seen_def)+

lemma unseen_status_each: "unseen d e \<Longrightarrow> unseen d (fst (status_each alive e cs n))"
  by (induction cs arbitrary: e n) (simp_all add: Let_def unseen_client_fields)

lemma unseen_client_status [unseen_frame]: "unseen d e \<Longrightarrow> unseen d (fst (jack_check_client_status alive e))"
  unfolding jack_check_client_status_def by (rule unseen_status_each)

lemma unseen_wait_chain:
  "unseen d e \<Longrightarrow> wait_chain alive e rq ws = Some r \<Longrightarrow> (case r of Done e' s \<Rightarrow> unseen d e' | Gone e' \<Rightarrow> unseen d e')"
proof (induction ws arbitrary: e rq)
  case (Cons w ws)
  have u: "unseen d (fst (jack_check_client_status alive e))" by (rule unseen_client_status [OF Cons.prems(1)])
  show ?case
    using Cons.prems(2) Cons.prems(1) Cons.IH [OF Cons.prems(1)] Cons.IH [OF u] u
    by (cases "wk_poll w") (auto simp: case_prod_beta linux_poll_bug_encountered_def split: if_splits)
qed simp

lemma unseen_process_external:
  assumes "unseen d e" "jack_process_external w e c = Some (e', b)"
  shows "unseen d e'"
proof -
  let ?e1 = "upd_client c (\<lambda>r. r\<lparr>cl_state := Triggered\<rparr>) e"
  let ?wt = "wait_chain (cw_alive w) ?e1 (if freewheeling ?e1 then 250000 else cw_timeout_usecs w) (cw_wakeups w c)"
  have u1: "unseen d ?e1" by (intro unseen_frame assms(1))
  show ?thesis
  proof (cases "cw_start_ok w c")
    case False
    then have "e' = jack_engine_signal_problems (?e1\<lparr>process_errors := Suc (process_errors ?e1)\<rparr>)"
      using assms(2) by (simp add: jack_process_external_def Let_def)
    then show ?thesis using u1 by (simp add: unseen_problems unseen_fields)
  next
    case True
    then obtain r where r: "?wt = Some r" using assms(2) by (cases ?wt) (simp_all add: jack_process_external_def Let_def)
    note ur = unseen_wait_chain [OF u1 r]
    show ?thesis
    proof (cases r)
      case (Gone e2)
      then show ?thesis using assms(2) True r ur by (simp add: jack_process_external_def Let_def)
    next
      case (Done e2 status)
      then have u2: "unseen d e2" using ur by simp
      then have uc: "unseen d (fst (jack_check_clients (cw_finished w c) e2 True))" by (intro unseen_frame)
      show ?thesis
        using assms(2) True r Done u2 uc
        by (auto simp: jack_process_external_def Let_def case_prod_beta split: if_splits intro!: unseen_fields unseen_client_fields)
    qed
  qed
qed

lemma sync_call_ok:
  assumes ok: "server_ok e" and c: "c \<in> set (clients e)"
  shows "server_ok (jack_call_sync_client e c ready)"
proof (rule transport_ok [OF ok transport_step.sync_called [OF c]])
  show "active (cmem (jack_call_sync_client e c ready) x) = active (cmem e x)" for x
    by (simp add: jack_call_sync_client_def Let_def)
  have "active_slowsync (cmem (jack_call_sync_client e c ready) x) = active_slowsync (cmem e x)" for x
    by (simp add: jack_call_sync_client_def Let_def)
  then show "active (cmem e x)" if "x \<in> set (clients e)" "active_slowsync (cmem (jack_call_sync_client e c ready) x)" for x
    using slow_active [OF ok that(1)] that(2) by simp
  show "timebase_client e = Some x \<or> \<not> dead (cmem e x)" if "timebase_client (jack_call_sync_client e c ready) = Some x" for x
    using that by (simp add: jack_call_sync_client_def Let_def split: if_splits)
qed

lemma timebase_call_ok:
  assumes ok: "server_ok e" and c: "c \<in> set (clients e)"
  shows "server_ok (jack_call_timebase_master cb e c)"
proof (rule transport_ok [OF ok transport_step.timebase_called [OF c]])
  show "active (cmem (jack_call_timebase_master cb e c) x) = active (cmem e x)" for x
    by (simp add: jack_call_timebase_master_def Let_def)
  have "active_slowsync (cmem (jack_call_timebase_master cb e c) x) = active_slowsync (cmem e x)" for x
    by (simp add: jack_call_timebase_master_def Let_def)
  then show "active (cmem e x)" if "x \<in> set (clients e)" "active_slowsync (cmem (jack_call_timebase_master cb e c) x)" for x
    using slow_active [OF ok that(1)] that(2) by simp
  show "timebase_client e = Some x \<or> \<not> dead (cmem e x)" if "timebase_client (jack_call_timebase_master cb e c) = Some x" for x
    using that by (simp add: jack_call_timebase_master_def Let_def split: if_splits)
qed

lemma driver_upd [simp]: "driver_client (upd_client c f e) = driver_client e" "driver_client (upd_control g e) = driver_client e"
  by (simp_all add: upd_client_def upd_control_def)

text \<open>What processing a client leaves alone.\<close>

definition same_roles :: "jack_engine_t \<Rightarrow> jack_engine_t \<Rightarrow> bool" where
  "same_roles e e' \<longleftrightarrow> clients e' = clients e \<and> (\<forall>c. runnable (cmem e' c) = runnable (cmem e c) \<and>
     cl_type (cmem e' c) = cl_type (cmem e c)) \<and> current_time (control e') = current_time (control e) \<and>
     driver_client e' = driver_client e"

lemma same_roles_refl [simp, intro]: "same_roles e e"
  by (simp add: same_roles_def)

lemma same_roles_trans: "same_roles a b \<Longrightarrow> same_roles b c \<Longrightarrow> same_roles a c"
  by (simp add: same_roles_def)

lemma roles_sync_call: "same_roles e (jack_call_sync_client e c ready)"
  by (simp add: same_roles_def jack_call_sync_client_def Let_def runnable_def)

lemma roles_timebase_call: "same_roles e (jack_call_timebase_master cb e c)"
  by (simp add: same_roles_def jack_call_timebase_master_def Let_def runnable_def)

lemma roles_fields:
  "same_roles e (upd_client c (\<lambda>r. r\<lparr>cl_state := s\<rparr>) e)" "same_roles e (e\<lparr>process_errors := n\<rparr>)" "same_roles e (e\<lparr>timeout_count := i\<rparr>)"
  by (simp_all add: same_roles_def runnable_def)

lemma process_internal_ok:
  assumes ok: "server_ok e" and c: "c \<in> set (clients e)"
  shows "server_ok (jack_process_internal w e c)" "same_roles e (jack_process_internal w e c)"
    "\<not> (process_cbset (cmem e c) \<and> cw_process_fails w c) \<Longrightarrow> process_errors (jack_process_internal w e c) = process_errors e"
proof -
  define e1 where "e1 = upd_client c (\<lambda>r. r\<lparr>cl_state := Running\<rparr>) e"
  define e2 where "e2 = (if sync_cb_cbset (cmem e1 c) then jack_call_sync_client e1 c (cw_sync_ready w c) else e1)"
  define e3 where "e3 = (if process_cbset (cmem e2 c) \<and> cw_process_fails w c then e2\<lparr>process_errors := Suc (process_errors e2)\<rparr> else e2)"
  define e4 where "e4 = (if timebase_cb_cbset (cmem e3 c) then jack_call_timebase_master (cw_timebase w) e3 c else e3)"
  have p: "jack_process_internal w e c = upd_client c (\<lambda>r. r\<lparr>cl_state := Finished\<rparr>) e4"
    by (simp add: jack_process_internal_def Let_def e1_def e2_def e3_def e4_def)
  have r: "same_roles e e1" "same_roles e1 e2" "same_roles e2 e3" "same_roles e3 e4"
    by (simp_all add: e1_def e2_def e3_def e4_def roles_sync_call roles_timebase_call roles_fields)
  have cl: "clients e1 = clients e" "clients e2 = clients e" "clients e3 = clients e" "clients e4 = clients e"
    using r by (simp_all add: same_roles_def)
  have o1: "server_ok e1" using unseen_ok [OF unseen_process_fields(1) [OF unseen_refl]] ok by (simp add: e1_def)
  have o2: "server_ok e2" using sync_call_ok [OF o1] o1 c cl by (simp add: e2_def)
  have o3: "server_ok e3" using unseen_ok [OF unseen_fields(15) [OF unseen_refl]] o2 by (simp add: e3_def)
  have o4: "server_ok e4" using timebase_call_ok [OF o3] o3 c cl by (simp add: e4_def)
  show "server_ok (jack_process_internal w e c)" using unseen_ok [OF unseen_process_fields(1) [OF unseen_refl]] o4 by (simp add: p)
  show "same_roles e (jack_process_internal w e c)"
    unfolding p using r roles_fields(1) [of e4 c Finished] same_roles_trans by meson
  assume "\<not> (process_cbset (cmem e c) \<and> cw_process_fails w c)"
  moreover have "process_cbset (cmem e2 c) = process_cbset (cmem e c)"
    by (simp add: e2_def e1_def jack_call_sync_client_def Let_def)
  ultimately have "process_errors e3 = process_errors e2" by (simp add: e3_def)
  then show "process_errors (jack_process_internal w e c) = process_errors e"
    unfolding p e4_def by (simp add: e2_def e1_def jack_call_sync_client_def jack_call_timebase_master_def Let_def upd_client_def upd_control_def)
qed

lemma unseen_clients:
  assumes "unseen e e'"
  shows "clients e' = clients e" "control e' = control e"
  using arg_cong [OF assms [unfolded unseen_def], of clients] arg_cong [OF assms [unfolded unseen_def], of control]
  by (simp_all add: seen_def)

lemma roster_roles: "same_roles e e' \<Longrightarrow> roster e e'"
  by (simp add: same_roles_def roster_def)

lemma process_loop_ok:
  assumes "server_ok e" "set cs \<subseteq> set (clients e)" "process_loop w e cs so_far = Some (e', so_far')"
  shows "server_ok e' \<and> current_time (control e') = current_time (control e) \<and> roster e e'"
  using assms
proof (induction w e cs so_far rule: process_loop.induct)
  case (1 w e so_far)
  then show ?case by (simp add: process_loop.simps)
next
  case (2 w e c cs so_far)
  have c: "c \<in> set (clients e)" "set cs \<subseteq> set (clients e)" using "2.prems"(2) by auto
  consider "process_errors e \<noteq> 0" | "process_errors e = 0" "\<not> runnable (cmem e c)"
    | "process_errors e = 0" "runnable (cmem e c)" "jack_client_is_internal (cmem e c)"
    | "process_errors e = 0" "runnable (cmem e c)" "\<not> jack_client_is_internal (cmem e c)" by blast
  then show ?case
  proof cases
    case 1
    then show ?thesis using "2.prems" by (simp add: process_loop.simps)
  next
    case 2
    then show ?thesis using "2.IH"(1) "2.prems" c(2) by (simp add: process_loop.simps)
  next
    case 3
    let ?e1 = "jack_process_internal w e c"
    have o: "server_ok ?e1" "set cs \<subseteq> set (clients ?e1)"
      using process_internal_ok [OF "2.prems"(1) c(1)] c(2) by (simp_all add: same_roles_def)
    have "current_time (control ?e1) = current_time (control e)"
      using process_internal_ok(2) [OF "2.prems"(1) c(1)] by (simp add: same_roles_def)
    moreover have "roster e ?e1" by (rule roster_roles [OF process_internal_ok(2) [OF "2.prems"(1) c(1)]])
    ultimately show ?thesis
      using roster_trans [of e ?e1 e'] 3 "2.IH"(2) [OF _ _ _ refl _ o] o(1) "2.prems"(3) by (cases "process_errors ?e1 = 0") (simp_all add: process_loop.simps Let_def)
  next
    case 4
    then obtain e1 b where x: "jack_process_external w e c = Some (e1, b)"
      using "2.prems"(3) by (cases "jack_process_external w e c") (auto simp: process_loop.simps)
    have u: "unseen e e1" by (rule unseen_process_external [OF unseen_refl x])
    have o: "server_ok e1" "set (dropWhile (\<lambda>d. \<not> jack_client_is_internal (cmem e1 d)) cs) \<subseteq> set (clients e1)"
      using unseen_ok [OF u] "2.prems"(1) unseen_clients [OF u] c(2) by (auto dest: set_dropWhileD)
    show ?thesis
      using roster_unseen [OF u] roster_trans [of e e1 e'] 4 "2.IH"(3) [OF _ _ _ x refl _ o] o(1) "2.prems"(3) x unseen_clients(2) [OF u] by (cases b) (simp_all add: process_loop.simps)
  qed
qed

lemma unseen_reset_states: "unseen d e \<Longrightarrow> unseen d (reset_states e cs)"
  by (induction cs arbitrary: e) (simp_all add: unseen_process_fields)

lemma engine_process_ok:
  assumes "server_ok e" "jack_engine_process w e = Some (e', b, so_far)"
  shows "server_ok e'" "current_time (control e') = current_time (control e)" "roster e e'"
proof -
  let ?r = "reset_states (e\<lparr>process_errors := 0\<rparr>) (clients e)"
  have u: "unseen e ?r" by (intro unseen_reset_states unseen_frame unseen_refl)
  obtain so_far' where "process_loop w ?r (clients e) [] = Some (e', so_far')" using assms(2) by (auto simp: jack_engine_process_def)
  then have "server_ok e' \<and> current_time (control e') = current_time (control e) \<and> roster ?r e'"
    using process_loop_ok [of ?r "clients e" w "[]" e' so_far'] unseen_ok [OF u] unseen_clients [OF u] assms(1) by simp
  then show "server_ok e'" "current_time (control e') = current_time (control e)" "roster e e'"
    using roster_trans [OF roster_unseen [OF u]] by simp_all
qed

lemma cycle_end_frame:
  assumes "jack_transport_cycle_end reads e = Value e'"
  shows "timebase_client e' = timebase_client e" "active (cmem e' x) = active (cmem e x)" "active_slowsync (cmem e' x) = active_slowsync (cmem e x)"
proof -
  define same where "same b \<longleftrightarrow> timebase_client b = timebase_client e \<and>
    (\<forall>x. active (cmem b x) = active (cmem e x) \<and> active_slowsync (cmem b x) = active_slowsync (cmem e x))" for b :: jack_engine_t
  have uc: "same a \<Longrightarrow> same (upd_control f a)" for a f by (simp add: same_def)
  have ps: "same a \<Longrightarrow> same (fst (poll_stop_each a cs n))" for a cs n
    by (induction a cs n rule: poll_stop_each.induct) (auto simp: same_def)
  have pst: "same a \<Longrightarrow> same (fst (poll_start_each a cs n))" for a cs n
    by (induction a cs n rule: poll_start_each.induct) (auto simp: same_def)
  have stop: "same a \<Longrightarrow> jack_sync_poll_stop a = Value b \<Longrightarrow> same b" for a b
    unfolding jack_sync_poll_stop_def by (auto simp: case_prod_beta Let_def split: if_splits intro!: uc ps)
  have start: "same a \<Longrightarrow> jack_sync_poll_start a = Value b \<Longrightarrow> same b" for a b
    unfolding jack_sync_poll_start_def by (auto simp: case_prod_beta Let_def split: if_splits intro!: uc pst)
  have st: "same a \<Longrightarrow> same (set_state s a)" for a s unfolding set_state_def by (rule uc)
  have chk: "same a \<Longrightarrow> check_sync a = Value b \<Longrightarrow> same b" for a b
    unfolding check_sync_def jack_sync_timeout_def Let_def by (auto simp: c_map_Value split: if_splits intro!: st uc)
  have stp: "same a \<Longrightarrow> stop_transport a = Value b \<Longrightarrow> same b" for a b
    unfolding stop_transport_def Let_def by (auto split: if_splits intro: st stop)
  have sw: "same a \<Longrightarrow> state_switch a cmd = Value b \<Longrightarrow> same b" for a cmd b
    unfolding state_switch_def by (auto split: jack_transport_state_t.splits if_splits intro: st stp start)
  have lc: "same a \<Longrightarrow> same (fst (latest_command a))" for a unfolding latest_command_def Let_def by (auto intro!: uc)
  obtain e1 e3 ctl where r: "check_sync (upd_control promote_pending e) = Value e1"
    "state_switch (fst (latest_command e1)) (snd (latest_command e1)) = Value e3" "e' = e3\<lparr>control := save_pending_frame ctl\<rparr>"
    using assms unfolding jack_transport_cycle_end_def by (auto simp: c_bind_Value c_map_Value case_prod_beta Let_def)
  have "same e" by (simp add: same_def)
  then have "same e3" using sw [OF lc [OF chk [OF uc r(1)]] r(2)] by blast
  then show "timebase_client e' = timebase_client e" "active (cmem e' x) = active (cmem e x)" "active_slowsync (cmem e' x) = active_slowsync (cmem e x)"
    using r(3) by (simp_all add: same_def)
qed

text \<open>The position the server copies settles within the thousand rounds of its guard; the sample rate is set.\<close>

definition sound_reads :: "jack_engine_t \<Rightarrow> (nat \<Rightarrow> jack_position_t) \<Rightarrow> bool" where
  "sound_reads e reads \<longleftrightarrow> frame_rate (current_time (control e)) \<noteq> 0 \<and> (\<exists>j < 11000. unique_1 (reads j) = unique_2 (reads j))"

lemma post_process_ok:
  assumes ok: "server_ok e" and rd: "sound_reads e reads"
  shows "\<exists>e'. jack_engine_post_process reads e = Value e' \<and> server_ok e' \<and> roster e e'"
proof -
  obtain j where j: "frame_rate (current_time (control e)) \<noteq> 0" "j < 11000" "unique_1 (reads j) = unique_2 (reads j)"
    using rd by (auto simp: sound_reads_def)
  obtain e1 where e1: "jack_transport_cycle_end reads e = Value e1"
    using cycle_end_inv [where reads = reads and j = j, OF server_graph(3) [OF ok] j] by blast
  have "server_ok e1"
    using cycle_end_frame [OF e1] slow_active [OF ok]
    by (intro transport_ok [OF ok transport_step.cycle_end [where reads = reads and j = j, OF j e1]]) auto
  then have "server_ok (fst (jack_check_clients (\<lambda>_. 0) e1 False))"
    using unseen_ok [OF unseen_check_clients [OF unseen_refl]] by blast
  moreover have "roster e (fst (jack_check_clients (\<lambda>_. 0) e1 False))"
    using roster_trans [OF roster_transport [OF transport_step.cycle_end [where reads = reads and j = j, OF j e1]]
        roster_unseen [OF unseen_check_clients [OF unseen_refl]]] .
  ultimately show ?thesis using e1 by (simp add: jack_engine_post_process_def)
qed

section \<open>A whole cycle\<close>

text \<open>Reading and writing audio leaves the engine's books alone.\<close>

definition sound_cycle :: "jack_engine_t \<Rightarrow> cycle_input \<Rightarrow> bool" where
  "sound_cycle e ci \<longleftrightarrow> (\<forall>e. unseen e (fst (ci_read ci e)) \<and> unseen e (fst (ci_write ci e))) \<and>
     (\<forall>s e. unseen e (ci_slave_read ci s e) \<and> unseen e (ci_slave_write ci s e)) \<and> sound_reads e (ci_reads ci)"

lemma unseen_fold:
  assumes "\<And>s x. unseen x (f s x)"
  shows "unseen e (fold f ss e)"
proof (induction ss arbitrary: e)
  case (Cons s ss)
  then show ?case using assms unseen_trans by (metis fold_simps(2))
qed simp

lemma one_cycle_ok:
  assumes ok: "server_ok e" and ci: "sound_cycle e ci" and r: "jack_run_one_cycle ci e delays = Some r"
  shows "\<exists>e' d st. r = Value (e', d, st) \<and> server_ok e' \<and> roster e e'"
proof -
  have us: "unseen x (fst (jack_drivers_read (ci_slave_read ci) (ci_read ci) x))"
    "unseen x (fst (jack_drivers_write (ci_slave_write ci) (ci_write ci) x))" for x
    using ci unseen_fold [of "ci_slave_read ci"] unseen_fold [of "ci_slave_write ci"] unseen_trans
    unfolding jack_drivers_read_def jack_drivers_write_def sound_cycle_def by meson+
  show ?thesis
  proof (cases "(\<not> freewheeling e \<and> ci_excess ci) \<or> skips_cycle ci e")
    case True
    have "unseen e (jack_engine_delay e)" unfolding jack_engine_delay_def by (intro unseen_deliver_all unseen_refl)
    then have "server_ok (jack_engine_delay e)" "roster e (jack_engine_delay e)" using unseen_ok roster_unseen ok by blast+
    then show ?thesis using True r ok by (auto simp: jack_run_one_cycle_def split: if_splits)
  next
    case False
    obtain e1 err where e1: "(if \<not> freewheeling e then jack_drivers_read (ci_slave_read ci) (ci_read ci) e else (e, 0)) = (e1, err)"
      by fastforce
    have u1: "unseen e e1" using us(1) [of e] e1 by (auto split: if_splits)
    have o1: "server_ok e1" "current_time (control e1) = current_time (control e)"
      using unseen_ok [OF u1] ok unseen_clients(2) [OF u1] by simp_all
    have body: "r = (if err \<noteq> 0 then Value (e1, 0, -1)
         else case jack_engine_process (ci_world ci) e1 of
              None \<Rightarrow> r
            | Some (e2, failed, so_far) \<Rightarrow>
                (let e3 = (if failed then fst (jack_check_client_status (cw_alive (ci_world ci)) e2) else e2);
                     (e4, err2) = (if \<not> freewheeling e3 then jack_drivers_write (ci_slave_write ci) (ci_write ci) e3 else (e3, 0))
                 in if err2 \<noteq> 0 then Value (e4, 0, -1)
                    else c_map (\<lambda>e5. (e5, 0, 0)) (jack_engine_post_process (ci_reads ci) e4)))"
      using r False e1 by (auto simp: jack_run_one_cycle_def Let_def case_prod_beta split: option.splits if_splits)
    show ?thesis
    proof (cases "err \<noteq> 0 \<or> jack_engine_process (ci_world ci) e1 = None")
      case True
      have "jack_run_one_cycle ci e delays = None" if "err = 0" "jack_engine_process (ci_world ci) e1 = None"
        using that False e1 by (auto simp: jack_run_one_cycle_def)
      then have "err \<noteq> 0" using True r by auto
      then have "r = Value (e1, 0, -1)" using body by simp
      then show ?thesis using o1(1) roster_unseen [OF u1] by blast
    next
      case go: False
      then obtain e2 failed sf where p: "jack_engine_process (ci_world ci) e1 = Some (e2, failed, sf)" by auto
      note o2 = engine_process_ok [OF o1(1) p]
      define e3 where "e3 = (if failed then fst (jack_check_client_status (cw_alive (ci_world ci)) e2) else e2)"
      have u3: "unseen e2 e3" by (simp add: e3_def unseen_client_status)
      obtain e4 err2 where e4: "(if \<not> freewheeling e3 then jack_drivers_write (ci_slave_write ci) (ci_write ci) e3 else (e3, 0)) = (e4, err2)"
        by fastforce
      have "unseen e3 e4" using us(2) [of e3] e4 by (auto split: if_splits)
      then have u4: "unseen e2 e4" by (rule unseen_trans [OF u3])
      have o4: "server_ok e4" "sound_reads e4 (ci_reads ci)"
        using unseen_ok [OF u4] o2 o1(2) unseen_clients(2) [OF u4] ci by (simp_all add: sound_cycle_def sound_reads_def)
      obtain e5 where e5: "jack_engine_post_process (ci_reads ci) e4 = Value e5" "server_ok e5" "roster e4 e5"
        using post_process_ok [OF o4] by blast
      have "roster e e4" using roster_unseen [OF u1] o2(3) roster_unseen [OF u4] roster_trans by blast
      then have ro: "roster e e4" "roster e e5" using roster_trans e5(3) by blast+
      have "r = (if err2 \<noteq> 0 then Value (e4, 0, -1) else Value (e5, 0, 0))"
      proof -
        have "r = (case (if \<not> freewheeling e3 then jack_drivers_write (ci_slave_write ci) (ci_write ci) e3 else (e3, 0)) of (e4, err2) \<Rightarrow>
            if err2 \<noteq> 0 then Value (e4, 0, -1) else c_map (\<lambda>e5. (e5, 0, 0)) (jack_engine_post_process (ci_reads ci) e4))"
          using body go p unfolding Let_def e3_def by simp
        then show ?thesis unfolding e4 using e5(1) by simp
      qed
      then show ?thesis using o4(1) e5(2) ro by auto
    qed
  qed
qed

section \<open>Who runs\<close>

text \<open>
  The plan of a cycle. The flag says that the clients before are the started part of a chain of
  external clients; such a chain ends at the next internal client, whether it is due or not.
\<close>

fun cycle_plan :: "(cptr \<Rightarrow> jack_client_internal_t) \<Rightarrow> bool \<Rightarrow> cptr list \<Rightarrow> cptr list" where
  "cycle_plan m started [] = []"
| "cycle_plan m started (c # cs) =
     (if jack_client_is_internal (m c) then (if runnable (m c) then [c] else []) @ cycle_plan m False cs
      else if started \<or> \<not> runnable (m c) then cycle_plan m started cs
      else c # cycle_plan m True cs)"

lemma plan_started: "cycle_plan m True cs = cycle_plan m False (dropWhile (\<lambda>d. \<not> jack_client_is_internal (m d)) cs)"
  by (induction cs) auto

lemma plan_cong:
  "(\<And>c. runnable (m' c) = runnable (m c) \<and> cl_type (m' c) = cl_type (m c)) \<Longrightarrow> cycle_plan m' b cs = cycle_plan m b cs"
  by (induction m b cs rule: cycle_plan.induct) (auto simp: jack_client_is_internal_def)

text \<open>A cycle in which every start, wait, read and callback of the clients on the list succeeds.\<close>

definition smooth :: "cycle_world \<Rightarrow> bool" where
  "smooth w \<longleftrightarrow> (\<forall>c. cw_start_ok w c \<and> cw_read_ok w c \<and> \<not> cw_process_fails w c \<and>
     (\<exists>u us. cw_wakeups w c = u # us \<and> wk_poll u = PollReadable))"

lemma smooth_external:
  assumes "smooth w"
  shows "\<exists>e1. jack_process_external w e c = Some (e1, True) \<and> same_roles e e1 \<and> process_errors e1 = process_errors e"
proof -
  obtain u us where u: "cw_wakeups w c = u # us" "wk_poll u = PollReadable" using assms unfolding smooth_def by blast
  let ?e1 = "(upd_client c (\<lambda>r. r\<lparr>cl_state := Triggered\<rparr>) e)\<lparr>timeout_count := 0\<rparr>"
  have "jack_process_external w e c = Some (?e1, True)"
    using assms u by (simp add: jack_process_external_def Let_def smooth_def)
  moreover have "same_roles e ?e1" by (simp add: same_roles_def runnable_def)
  ultimately show ?thesis by (auto simp: upd_client_def)
qed

lemma smooth_loop:
  assumes "smooth w" "server_ok e" "set cs \<subseteq> set (clients e)" "process_errors e = 0"
  shows "\<exists>e'. process_loop w e cs so_far = Some (e', so_far @ cycle_plan (cmem e) False cs) \<and> process_errors e' = 0"
  using assms
proof (induction w e cs so_far rule: process_loop.induct)
  case (1 w e so_far)
  then show ?case by (simp add: process_loop.simps)
next
  case (2 w e c cs so_far)
  have c: "c \<in> set (clients e)" "set cs \<subseteq> set (clients e)" using "2.prems"(3) by auto
  have plan: "cycle_plan (cmem e1) b ds = cycle_plan (cmem e) b ds" if "same_roles e e1" for e1 b ds
    using that by (intro plan_cong) (simp add: same_roles_def)
  consider "\<not> runnable (cmem e c)" | "runnable (cmem e c)" "jack_client_is_internal (cmem e c)"
    | "runnable (cmem e c)" "\<not> jack_client_is_internal (cmem e c)" by blast
  then show ?case
  proof cases
    case 1
    then show ?thesis using "2.IH"(1) "2.prems" c(2) by (simp add: process_loop.simps)
  next
    case 2
    let ?e1 = "jack_process_internal w e c"
    note i = process_internal_ok [OF "2.prems"(2) c(1), of w]
    have z: "process_errors ?e1 = 0" using i(3) "2.prems"(1,4) by (simp add: smooth_def)
    have s: "set cs \<subseteq> set (clients ?e1)" using i(2) c(2) by (simp add: same_roles_def)
    show ?thesis
      using 2 "2.IH"(2) [OF _ _ _ refl _ "2.prems"(1) i(1) s z] z "2.prems"(4) plan [OF i(2)]
      by (simp add: process_loop.simps Let_def)
  next
    case 3
    obtain e1 where x: "jack_process_external w e c = Some (e1, True)" "same_roles e e1" "process_errors e1 = 0"
      using smooth_external [OF "2.prems"(1), of e c] "2.prems"(4) by auto
    have u: "unseen e e1" by (rule unseen_process_external [OF unseen_refl x(1)])
    let ?d = "dropWhile (\<lambda>d. \<not> jack_client_is_internal (cmem e1 d)) cs"
    have s: "set ?d \<subseteq> set (clients e1)" "server_ok e1"
      using unseen_clients(1) [OF u] c(2) unseen_ok [OF u] "2.prems"(2) by (auto dest: set_dropWhileD)
    have t: "jack_client_is_internal (cmem e1 d) = jack_client_is_internal (cmem e d)" for d
      using x(2) by (simp add: same_roles_def jack_client_is_internal_def)
    show ?thesis
      using 3 "2.IH"(3) [OF _ _ _ x(1) refl _ "2.prems"(1) s(2,1) x(3)] x(1) "2.prems"(4) plan [OF x(2)]
      by (simp add: process_loop.simps plan_started t)
  qed
qed

end
