(* ===== verification/Server_Thread.thy ===== *)
theory Server_Thread
  imports Client_Create Cycle_Inv
begin

text \<open>
  What the server thread does with its clients: the sockets it polls, the requests it serves and the
  failed clients it takes off. Every request of a client that follows the protocol is answered and
  keeps the server's invariant, whatever its kind.
\<close>

section \<open>Polling\<close>

definition POLLIN :: u32 where "POLLIN = 0x1"
definition POLLPRI :: u32 where "POLLPRI = 0x2"
definition POLLERR :: u32 where "POLLERR = 0x8"
definition POLLHUP :: u32 where "POLLHUP = 0x10"
definition POLLNVAL :: u32 where "POLLNVAL = 0x20"

text \<open>The part of the poll set that belongs to the clients: a zombie is watched for its end only.\<close>

definition client_pollfd :: "jack_client_internal_t \<Rightarrow> (int \<times> u32) option" where
  "client_pollfd r =
     (if request_fd r < 0 \<or> JACK_ERROR_WITH_SOCKETS \<le> cl_error r then None
      else if dead r then Some (request_fd r, POLLHUP OR POLLNVAL)
      else Some (request_fd r, POLLIN OR POLLPRI OR POLLERR OR POLLHUP OR POLLNVAL))"

definition poll_set :: "jack_engine_t \<Rightarrow> (int \<times> u32) list" where
  "poll_set e = List.map_filter (\<lambda>c. client_pollfd (cmem e c)) (clients e)"

text \<open>The answers of \<open>poll\<close>, of \<open>read\<close> and of \<open>write\<close> for the i-th entry.\<close>

record poll_answer =
  pa_revents :: "nat \<Rightarrow> u32"
  pa_read :: "nat \<Rightarrow> request_read"
  pa_reply_ok :: "nat \<Rightarrow> bool"

fun serve_sockets :: "request_world \<Rightarrow> poll_answer \<Rightarrow> jack_engine_t \<Rightarrow> nat \<Rightarrow> (int \<times> u32) list \<Rightarrow> jack_engine_t c_result" where
  "serve_sockets w pa e i [] = Value e"
| "serve_sockets w pa e i ((fd, ev) # ps) =
     (if fd < 0 then serve_sockets w pa e (Suc i) ps
      else if pa_revents pa i AND (NOT POLLIN) \<noteq> 0 then
        serve_sockets w pa (jack_engine_signal_problems (jack_mark_client_socket_error e fd)) (Suc i) ps
      else if pa_revents pa i AND POLLIN \<noteq> 0 then
        c_bind (handle_external_client_request w (pa_reply_ok pa i) e fd (pa_read pa i))
          (\<lambda>(e1, r). serve_sockets w pa (if r \<noteq> 0 then jack_engine_signal_problems e1 else e1) (Suc i) ps)
      else serve_sockets w pa e (Suc i) ps)"

section \<open>Freewheeling\<close>

text \<open>
  Starting and stopping a driver leaves the engine's books alone. Detaching a slave driver is a
  sequence of engine calls; the freewheel thread runs process cycles, and other threads write to the
  transport meanwhile.
\<close>

definition background :: "jack_engine_t \<Rightarrow> jack_engine_t \<Rightarrow> bool" where
  "background e e' \<longleftrightarrow> control_write e e' \<or>
     (\<exists>ci delays delays' st. sound_cycle e ci \<and> jack_run_one_cycle ci e delays = Some (Value (e', delays', st)))"

definition sound_drivers :: "driver_world \<Rightarrow> bool" where
  "sound_drivers w \<longleftrightarrow>
     (\<forall>e. unseen e (fst (d_start w e)) \<and> unseen e (fst (d_stop w e))) \<and>
     (\<forall>s e. unseen e (fst (s_start w s e)) \<and> unseen e (fst (s_stop w s e))) \<and>
     (\<forall>s e. server_ok e \<longrightarrow> engine_call\<^sup>*\<^sup>* e (s_detach w s e)) \<and>
     (\<forall>e. server_ok e \<longrightarrow> background\<^sup>*\<^sup>* e (joined w e))"

lemma cycle_running:
  assumes "sound_cycle e ci" "jack_run_one_cycle ci e delays = Some (Value (e', delays', st))" "running e"
  shows "running e'"
  using one_cycle_ok [OF _ assms(1,2)] assms(3) roster_driver by auto

lemma background_running: "background\<^sup>*\<^sup>* e e' \<Longrightarrow> running e \<Longrightarrow> running e'"
proof (induction rule: rtranclp_induct)
  case (step y z)
  then show ?case using cycle_running [of y] control_write_ok [of y z] roster_driver unfolding background_def by blast
qed

lemma drivers_start_ok:
  assumes "running e" "sound_drivers w"
  shows "running (fst (jack_drivers_start w e))"
proof -
  have slaves: "unseen e (fst (start_slaves w x ss fs))" if "unseen e x" for x ss fs
    using that
  proof (induction ss arbitrary: x fs)
    case (Cons s ss)
    have "unseen x (fst (s_start w s x))" using assms(2) by (simp add: sound_drivers_def)
    then have "unseen e (fst (s_start w s x))" by (rule unseen_trans [OF Cons.prems])
    then show ?case using Cons.IH by (simp add: case_prod_beta)
  qed simp
  have rm: "running x \<Longrightarrow> running (fold (\<lambda>s y. jack_slave_driver_remove w y s) fs x)" for x fs
  proof (induction fs arbitrary: x)
    case (Cons s fs)
    let ?d = "s_detach w s x"
    have "engine_call\<^sup>*\<^sup>* x ?d" using assms(2) Cons.prems by (simp add: sound_drivers_def)
    then have "running ?d" using Cons.prems by (rule engine_calls_running)
    moreover have "unseen ?d (jack_slave_driver_remove w x s)"
      unfolding jack_slave_driver_remove_def Let_def by (intro unseen_frame unseen_refl)
    ultimately have "running (jack_slave_driver_remove w x s)" using running_unseen by blast
    then show ?case using Cons.IH by simp
  qed simp
  obtain e1 fs where p: "start_slaves w e (slave_drivers e) [] = (e1, fs)" by fastforce
  have "unseen e e1" using slaves [OF unseen_refl, of "slave_drivers e" "[]"] p by simp
  then have "running e1" using assms(1) by (rule running_unseen)
  then have "running (fold (\<lambda>s y. jack_slave_driver_remove w y s) fs e1)" by (rule rm)
  moreover have "running x \<Longrightarrow> running (fst (d_start w x))" for x using assms(2) running_unseen unfolding sound_drivers_def by blast
  ultimately show ?thesis using p by (simp add: jack_drivers_start_def)
qed

lemma drivers_stop_unseen:
  assumes "sound_drivers w"
  shows "unseen e (fst (jack_drivers_stop w e))"
proof -
  have f: "unseen e x \<Longrightarrow> unseen e (fold (\<lambda>s x. fst (s_stop w s x)) ss x)" for x ss
  proof (induction ss arbitrary: x)
    case (Cons s ss)
    have "unseen x (fst (s_stop w s x))" using assms by (simp add: sound_drivers_def)
    then show ?case using Cons unseen_trans by auto
  qed simp
  have "unseen e (fst (d_stop w e))" using assms by (simp add: sound_drivers_def)
  then show ?thesis using f by (simp add: jack_drivers_stop_def case_prod_beta)
qed

lemma unseen_by_id:
  assumes "unseen e e'"
  shows "jack_client_internal_by_id e' i = jack_client_internal_by_id e i"
proof -
  have "jack_client_internal_by_id (seen x) i = jack_client_internal_by_id x i" for x
  proof -
    have "client_search (cmem (seen x)) cs i = client_search (cmem x) cs i" for cs
      by (induction cs) (auto simp: seen_def client_seen_def)
    then show ?thesis by (simp add: jack_client_internal_by_id_def) (simp add: seen_def)
  qed
  then show ?thesis using assms by (metis unseen_def)
qed

lemma start_freewheel_ok:
  assumes ok: "running e" and w: "sound_drivers w" and i: "jack_client_internal_by_id e i \<noteq> None"
  shows "\<exists>e' r. jack_start_freewheeling w e i = Value (e', r) \<and> running e'"
proof -
  obtain e1 err where s: "jack_drivers_stop w e = (e1, err)" by fastforce
  have u1: "unseen e e1" using drivers_stop_unseen [OF w, of e] s by simp
  obtain c where c: "jack_client_internal_by_id e1 i = Some c" using i unseen_by_id [OF u1] by auto
  let ?e3 = "jack_deliver_event_to_all ((if process_cbset (cmem e1 c) \<or> thread_cb_cbset (cmem e1 c) then e1\<lparr>fwclient := i\<rparr> else e1)
      \<lparr>freewheeling := True, stop_freewheeling := False\<rparr>) StartFreewheel"
  have "unseen e ?e3" using u1 by (auto intro!: unseen_deliver_all unseen_fields)
  then have "running e1" "running ?e3" using running_unseen u1 ok by blast+
  moreover have "\<exists>r. jack_start_freewheeling w e i = Value (e, r) \<or> jack_start_freewheeling w e i = Value (e1, r) \<or>
      jack_start_freewheeling w e i = Value (?e3, r)"
    using s c by (cases "driver_client e") (auto simp: jack_start_freewheeling_def Let_def)
  ultimately show ?thesis using ok by metis
qed

lemma stop_freewheel_ok:
  assumes ok: "running e" and w: "sound_drivers w"
  shows "running (fst (jack_stop_freewheeling w e ex))"
proof -
  let ?s = "e\<lparr>stop_freewheeling := True\<rparr>"
  let ?j = "joined w ?s"
  have "unseen e ?s" by (intro unseen_frame unseen_refl)
  then have "running ?s" using ok by (rule running_unseen)
  moreover from this have "background\<^sup>*\<^sup>* ?s ?j" using w unfolding sound_drivers_def by blast
  ultimately have "running ?j" using background_running by blast
  moreover have "unseen ?j (?j\<lparr>fwclient := 0, freewheeling := False\<rparr>)" by (simp add: unseen_def seen_def)
  ultimately have j: "running (?j\<lparr>fwclient := 0, freewheeling := False\<rparr>)" using running_unseen by blast
  then have "running (jack_deliver_event_to_all (?j\<lparr>fwclient := 0, freewheeling := False\<rparr>) StopFreewheel)"
    using running_unseen [OF unseen_deliver_all [OF unseen_refl]] by blast
  from drivers_start_ok [OF this w] show ?thesis
    using ok j by (simp add: jack_stop_freewheeling_def Let_def case_prod_beta)
qed

section \<open>Requests\<close>

text \<open>
  The protocol a client follows: it names ports the server has told it about, speaks for a client
  that exists and is no zombie, activates a client once, asks for buffer sizes whose segments
  fit 32 bits, and does not unload the driver's client. The identifier of a client in a request is
  the sender's own.
\<close>

fun sound_request :: "jack_engine_t \<Rightarrow> jack_request \<Rightarrow> bool" where
  "sound_request e (RegisterPort rq) = sound_registration e rq"
| "sound_request e (UnRegisterPort i p) = (p \<noteq> length (ports e))"
| "sound_request e (DisconnectPort p) = (p \<noteq> length (ports e))"
| "sound_request e (ActivateClient i) = (\<forall>c. jack_client_internal_by_id e i = Some c \<longrightarrow> \<not> active (cmem e c) \<and> \<not> dead (cmem e c))"
| "sound_request e (SetTimeBaseClient i cond) = (\<forall>c. jack_client_internal_by_id e i = Some c \<longrightarrow> \<not> dead (cmem e c))"
| "sound_request e (GetPortConnections p) = (p < length (ports e))"
| "sound_request e (GetPortNConnections p) = (p < length (ports e))"
| "sound_request e (FreeWheel i) = (jack_client_internal_by_id e i \<noteq> None)"
| "sound_request e (SetBufferSize n) = sizes_fit e n"
| "sound_request e (IntClientLoad name options) = ids_left e"
| "sound_request e (IntClientUnload i) = spares_driver e i"
| "sound_request e (RecomputeTotalLatency p) = (p < length (ports e))"
| "sound_request e (SessionReply i) = (jack_client_internal_by_id e i \<noteq> None)"
| "sound_request e _ = True"

text \<open>A driver that changes its buffer size calls \<open>jack_driver_buffer_size\<close>; one that does not leaves the engine alone.\<close>

definition sound_bufsize :: "(jack_engine_t \<Rightarrow> jack_nframes_t \<Rightarrow> jack_engine_t \<times> int) \<Rightarrow> bool" where
  "sound_bufsize bufsize \<longleftrightarrow> (\<forall>e n. fst (bufsize e n) = e \<or>
     (\<exists>shm_ok r. jack_driver_buffer_size e shm_ok n = Value (fst (bufsize e n), r)))"

definition sound_world :: "request_world \<Rightarrow> bool" where
  "sound_world w \<longleftrightarrow> sound_client (rw_client w) \<and> sound_drivers (rw_drivers w) \<and> sound_bufsize (rw_bufsize w)"

lemma buffer_size_running:
  assumes ok: "running e" and fit: "sizes_fit e n" and r: "jack_driver_buffer_size e shm_ok n = Value (e', r)"
  shows "running e'"
proof -
  have "same_graph e e'"
    using driver_buffer_size_Value [OF server_graph(2), of e n shm_ok] ok fit r by (auto simp: sizes_fit_def)
  then show ?thesis using buffer_size_ok [OF _ fit, of shm_ok] ok r roster_driver [OF roster_graph] by fastforce
qed

lemma set_buffer_size_ok:
  assumes ok: "running e" and fit: "sizes_fit e n" and b: "sound_bufsize bufsize"
  shows "running (fst (jack_set_buffer_size_request bufsize e n))"
proof -
  consider "fst (bufsize e n) = e" | shm_ok r where "jack_driver_buffer_size e shm_ok n = Value (fst (bufsize e n), r)"
    using b unfolding sound_bufsize_def by blast
  then have "running (fst (bufsize e n))"
  proof cases
    case 1
    then show ?thesis using ok by simp
  next
    case 2
    then show ?thesis by (rule buffer_size_running [OF ok fit])
  qed
  then show ?thesis using ok by (auto simp: jack_set_buffer_size_request_def split: option.splits)
qed

lemma connections_unseen:
  assumes "p < length (ports e)"
  shows "\<exists>e' st ns. jack_do_get_port_connections e b p fd = Value (e', st, ns) \<and> unseen e e'"
proof (cases "asks_internally e fd")
  case True
  then show ?thesis using assms by (simp add: jack_do_get_port_connections_def)
next
  case False
  obtain e1 ok where w1: "write_fd e fd (ReplyCount (length (connections (ports e ! p)))) = (e1, ok)" by fastforce
  obtain e2 ok2 where w2: "write_all e1 fd (map ReplyPort (map (other_end e p) (connections (ports e ! p)))) = (e2, ok2)" by fastforce
  have u1: "unseen e e1" using unseen_write [OF unseen_refl, of e fd "ReplyCount (length (connections (ports e ! p)))"] w1 by simp
  then have "unseen e e2" using unseen_write_all [OF u1, of fd "map ReplyPort (map (other_end e p) (connections (ports e ! p)))"] w2 by simp
  then show ?thesis using False assms w1 w2 u1 by (auto simp: jack_do_get_port_connections_def Let_def)
qed

lemma latencies_ok:
  assumes ok: "running e"
  shows "\<exists>e'. jack_compute_new_latency (jack_compute_all_port_total_latencies e) = Value e' \<and> running e'"
    "p < length (ports e) \<Longrightarrow> running (jack_compute_port_total_latency e p)"
proof -
  let ?l = "jack_compute_all_port_total_latencies e"
  have run: "running e'" if "same_graph e e'" "kept e e'" for e'
    using same_graph_ok [OF _ that] roster_driver [OF roster_graph [OF that(1)]] ok by blast
  have sl: "same_graph e ?l" "kept e ?l" by (intro graph_frame same_graph_refl) (intro kept_frame kept_refl)
  have "driver_client ?l \<noteq> None" using ok roster_graph [OF sl(1)] by (auto simp: driver_here_def roster_def)
  from new_latency_Value [OF this] obtain e' where e': "jack_compute_new_latency ?l = Value e'" "same_graph e e'"
    using sl(1) by blast
  have "kept e e'" by (rule kept_new_latency [OF e'(1) sl(2)])
  then show "\<exists>e'. jack_compute_new_latency ?l = Value e' \<and> running e'" using run e' by blast
  assume "p < length (ports e)"
  have "same_graph e (jack_compute_port_total_latency e p)" "kept e (jack_compute_port_total_latency e p)"
    by (simp_all add: jack_compute_port_total_latency_def port_core_def same_graph_upd_port kept_frame)
  then show "running (jack_compute_port_total_latency e p)" by (rule run)
qed

lemma intclient_load_ok:
  assumes "running e" "sound_client w" "ids_left e" "w_load_ok w"
  shows "\<exists>e' st i. jack_intclient_load_request w e name options = Value (e', st, i) \<and> running e'"
proof -
  obtain e' st cl where "setup_client w e ClientInternal name 0 options (-1) = Value (e', st, cl)" "server_ok e'" "roster e e'"
    using setup_client_ok [OF conjunct1 [OF assms(1)] assms(2,3,4), of ClientInternal name 0 options "-1"] by blast
  then show ?thesis using assms(1) roster_driver by (cases cl) (simp_all add: jack_intclient_load_request_def)
qed

lemma session_reply_running:
  assumes "running e" "jack_client_internal_by_id e i = Some c"
  shows "\<exists>e' r. jack_do_session_reply e i = Value (e', r) \<and> running e'"
  using session_reply_unseen [OF assms(2)] running_unseen assms(1) by blast

lemma reserve_unseen: "unseen e (fst (jack_do_reserve_name m e name uuid))"
  by (auto simp: jack_do_reserve_name_def intro: unseen_frame)

text \<open>Which requests an internal client must not make: they write to a socket it does not have.\<close>

fun needs_socket :: "jack_request \<Rightarrow> bool" where
  "needs_socket (GetPortConnections p) = True"
| "needs_socket (GetPortNConnections p) = True"
| "needs_socket (SessionNotify rq) = True"
| "needs_socket _ = False"

lemma pair_running: "running (fst x) \<Longrightarrow> \<exists>a b. x = (a, b) \<and> running a"
  by (cases x) simp

text \<open>The requests that are engine calls.\<close>

lemma calls_answered:
  assumes ok: "running e"
  shows "p \<noteq> length (ports e) \<Longrightarrow> \<exists>e' r. jack_port_do_unregister e i p = Value (e', r) \<and> running e'"
    "\<exists>e' r. jack_port_do_connect e s d = Value (e', r) \<and> running e'"
    "\<exists>e' r. jack_port_do_disconnect e s d = Value (e', r) \<and> running e'"
    "p \<noteq> length (ports e) \<Longrightarrow> \<exists>e' r. jack_port_do_disconnect_all e p = Value (e', r) \<and> running e'"
    "\<exists>e' r. jack_transport_client_reset_sync e i = Value (e', r) \<and> running e'"
    "jack_client_internal_by_id e i = Some c \<Longrightarrow> \<not> active (cmem e c) \<Longrightarrow> \<not> dead (cmem e c) \<Longrightarrow>
      \<exists>e' r. jack_client_activate e i = Value (e', r) \<and> running e'"
    "jack_client_internal_by_id e i = Some c \<Longrightarrow> \<exists>e' r. jack_client_deactivate e i = Value (e', r) \<and> running e'"
proof -
  note sok = conjunct1 [OF ok] and run = call_running [OF _ ok]
  show "\<exists>e' r. jack_port_do_connect e s d = Value (e', r) \<and> running e'"
    using connect_ok [OF sok, of s d] run [OF engine_call.connect] by metis
  show "\<exists>e' r. jack_port_do_disconnect e s d = Value (e', r) \<and> running e'"
    using disconnect_ok [OF sok, of s d] run [OF engine_call.disconnect] by metis
  show "\<exists>e' r. jack_transport_client_reset_sync e i = Value (e', r) \<and> running e'"
    using reset_sync_ok [OF sok, of i] run [OF engine_call.reset_sync] by metis
  show "\<exists>e' r. jack_port_do_unregister e i p = Value (e', r) \<and> running e'" if "p \<noteq> length (ports e)"
    using unregister_ok [OF sok that, of i] run [OF engine_call.unregister [OF that]] by metis
  show "\<exists>e' r. jack_port_do_disconnect_all e p = Value (e', r) \<and> running e'" if "p \<noteq> length (ports e)"
    using disconnect_all_ok [OF sok that] run [OF engine_call.disconnect_all [OF that]] by metis
  show "\<exists>e' r. jack_client_activate e i = Value (e', r) \<and> running e'"
    if "jack_client_internal_by_id e i = Some c" "\<not> active (cmem e c)" "\<not> dead (cmem e c)"
    using activate_request_ok [OF sok that] run [OF engine_call.activate [OF that]] by metis
  show "\<exists>e' r. jack_client_deactivate e i = Value (e', r) \<and> running e'" if "jack_client_internal_by_id e i = Some c"
    using deactivate_request_ok [OF sok that] run [OF engine_call.deactivate [OF that]] by metis
qed

lemma do_request_ok:
  assumes ok: "running e" and w: "sound_world w" and rq: "sound_request e rq" and fd: "needs_socket rq \<Longrightarrow> reply_fd \<noteq> None"
    and load: "\<And>name options. rq = IntClientLoad name options \<Longrightarrow> w_load_ok (rw_client w)"
  shows "\<exists>e' st a b. do_request w e rq st0 reply_fd = Value (e', st, a, b) \<and> running e'"
proof -
  have ws: "sound_client (rw_client w)" "sound_drivers (rw_drivers w)" "sound_bufsize (rw_bufsize w)"
    using w by (auto simp: sound_world_def)
  have sok: "server_ok e" using ok by blast
  have unseen_pair: "\<exists>e' st. r = (e', st) \<and> running e'" if "unseen e (fst r)" for r :: "jack_engine_t \<times> int"
    by (rule pair_running) (use running_unseen [OF that ok] in simp)
  show ?thesis
  proof (cases rq)
    case (RegisterPort p)
    then show ?thesis using pair_running [OF call_running [OF engine_call.register ok], of p "reply_fd = None"] rq by fastforce
  next
    case (UnRegisterPort i p)
    then show ?thesis using calls_answered(1) [OF ok, of p i] rq by auto
  next
    case (ConnectPorts s d)
    then show ?thesis using calls_answered(2) [OF ok, of s d] by auto
  next
    case (DisconnectPort p)
    then show ?thesis using calls_answered(4) [OF ok, of p] rq by auto
  next
    case (DisconnectPorts s d)
    then show ?thesis using calls_answered(3) [OF ok, of s d] by auto
  next
    case (ActivateClient i)
    then show ?thesis
      using calls_answered(6) [OF ok, of i] rq ok by (cases "jack_client_internal_by_id e i") (auto simp: jack_client_activate_def)
  next
    case (DeactivateClient i)
    then show ?thesis
      using calls_answered(7) [OF ok, of i] ok by (cases "jack_client_internal_by_id e i") (auto simp: jack_client_deactivate_def)
  next
    case (SetTimeBaseClient i cond)
    then show ?thesis using pair_running [OF call_running [OF engine_call.timebase_set ok], of i cond] rq by auto
  next
    case (ResetTimeBaseClient i)
    then show ?thesis using pair_running [OF call_running [OF engine_call.timebase_reset ok], of i] by auto
  next
    case (SetSyncClient i)
    then show ?thesis using pair_running [OF call_running [OF engine_call.set_sync ok], of i] by auto
  next
    case (ResetSyncClient i)
    then show ?thesis using calls_answered(5) [OF ok, of i] by auto
  next
    case (SetSyncTimeout us)
    then show ?thesis using pair_running [OF call_running [OF engine_call.sync_timeout ok], of us] by auto
  next
    case (GetPortConnections p)
    then obtain x where "reply_fd = Some x" using fd by auto
    then show ?thesis using connections_unseen [of p e True x] GetPortConnections rq running_unseen ok by auto
  next
    case (GetPortNConnections p)
    then obtain x where "reply_fd = Some x" using fd by auto
    then show ?thesis using connections_unseen [of p e False x] GetPortNConnections rq running_unseen ok by auto
  next
    case (FreeWheel i)
    then show ?thesis using start_freewheel_ok [OF ok ws(2), of i] rq by auto
  next
    case StopFreeWheel
    then show ?thesis using pair_running [OF stop_freewheel_ok [OF ok ws(2), of False]] by auto
  next
    case (SetBufferSize n)
    then show ?thesis using pair_running [OF set_buffer_size_ok [OF ok _ ws(3), of n]] rq by auto
  next
    case (IntClientLoad name options)
    have "sound_request e (IntClientLoad name options)" using rq IntClientLoad by simp
    then obtain e' st i where "jack_intclient_load_request (rw_client w) e name options = Value (e', st, i)" "running e'"
      using intclient_load_ok [OF ok ws(1) _ load [OF IntClientLoad], of name options] by auto
    then show ?thesis using IntClientLoad by simp
  next
    case (IntClientUnload i)
    then show ?thesis
      using unload_ok [OF sok ws(1), of i] rq ok by (cases "i = 0") (auto simp: jack_intclient_unload_request_def)
  next
    case RecomputeTotalLatencies
    then show ?thesis using latencies_ok(1) [OF ok] by auto
  next
    case (RecomputeTotalLatency p)
    then show ?thesis using latencies_ok(2) [OF ok, of p] rq by auto
  next
    case (ReserveName name uuid)
    then show ?thesis using unseen_pair [OF reserve_unseen [of e "rw_malloc_ok w" name uuid]] by auto
  next
    case (SessionReply i)
    then show ?thesis using session_reply_running [OF ok, of i] rq by auto
  next
    case (SessionNotify r)
    then obtain x where x: "reply_fd = Some x" using fd by auto
    show ?thesis using unseen_pair [OF session_notify_unseen [of e "rw_is_dir w" "rw_mkdir_ok w" r x]] SessionNotify x by auto
  qed (use ok in \<open>auto simp: case_prod_beta\<close>)
qed

lemma handle_request_ok:
  assumes ok: "running e" and w: "sound_world w" "w_load_ok (rw_client w)"
    and rd: "\<And>rq st0. rd = RequestRead rq st0 \<Longrightarrow> sound_request e rq"
  shows "\<exists>e' r. handle_external_client_request w reply_ok e fd rd = Value (e', r) \<and> running e'"
proof (cases "\<exists>c rq st0. find (\<lambda>c. request_fd (cmem e c) = fd) (clients e) = Some c \<and> rd = RequestRead rq st0")
  case True
  then obtain c rq st0 where c: "find (\<lambda>c. request_fd (cmem e c) = fd) (clients e) = Some c" "rd = RequestRead rq st0" by blast
  obtain e' st a b where "do_request w e rq st0 (Some fd) = Value (e', st, a, b)" "running e'"
    using do_request_ok [OF ok w(1) rd [OF c(2)], of "Some fd" st0] w(2) by auto
  then show ?thesis using c by (auto simp: handle_external_client_request_def)
next
  case False
  then show ?thesis
    using ok by (cases rd) (auto simp: handle_external_client_request_def split: option.splits)
qed

section \<open>Results without loading\<close>

abbreviation loads :: "request_world \<Rightarrow> request_world" where
  "loads w \<equiv> w\<lparr>rw_client := loading (rw_client w)\<rparr>"

lemma loads_sound: "sound_world (loads w) = sound_world w"
  by (simp add: sound_world_def loading_sound)

lemma unload_loading: "jack_intclient_unload_request (loading w) e i = jack_intclient_unload_request w e i"
  unfolding jack_intclient_unload_request_def handle_unload_client_def loading_fields ..

lemma do_request_loads:
  assumes "do_request w e rq st0 reply_fd = Value r"
  shows "do_request (loads w) e rq st0 reply_fd = Value r"
proof (cases rq)
  case (IntClientLoad name options)
  then obtain x where x: "setup_client (rw_client w) e ClientInternal name 0 options (-1) = Value x"
    using assms by (auto simp: jack_intclient_load_request_def c_map_Value)
  show ?thesis using assms IntClientLoad x setup_loading [OF x] by (simp add: jack_intclient_load_request_def)
next
  case (IntClientUnload i)
  then show ?thesis
    using assms by (simp add: unload_loading)
next
  case (SessionNotify s)
  then show ?thesis using assms by (cases reply_fd) simp_all
qed (use assms in simp_all)

lemma handle_request_loads:
  assumes "handle_external_client_request w reply_ok e fd rd = Value r"
  shows "handle_external_client_request (loads w) reply_ok e fd rd = Value r"
proof (cases "\<exists>c rq st0. find (\<lambda>c. request_fd (cmem e c) = fd) (clients e) = Some c \<and> rd = RequestRead rq st0")
  case True
  then obtain c rq st0 where c: "find (\<lambda>c. request_fd (cmem e c) = fd) (clients e) = Some c" "rd = RequestRead rq st0" by blast
  then obtain x where x: "do_request w e rq st0 (Some fd) = Value x"
    using assms by (auto simp: handle_external_client_request_def c_map_Value)
  show ?thesis using assms c unfolding handle_external_client_request_def by (simp add: x do_request_loads [OF x])
next
  case False
  then show ?thesis
    using assms by (cases rd) (auto simp: handle_external_client_request_def split: option.splits)
qed

end
