(* ===== verification/Server_Properties.thy ===== *)
theory Server_Properties
  imports Server_Thread
begin

text \<open>
  The server as a whole. A step is one request, one connection of a new client, one round of
  removing failed clients, one process cycle, one call of a driver or an internal client or one write
  of a client to the shared transport state; the theorems hold in every state such steps lead to.
\<close>

section \<open>Steps of the server\<close>

text \<open>
  Each step is one that returns. A step that loads an internal client is one where loading worked: the
  code for the other case frees a pointer it has not set (\<open>Undefined\<close>, no step). Removing failed clients
  does not take the driver's client off the list: the record would be used after it is freed. The calls
  are those of drivers and internal clients, and the writes of clients to the shared transport state.
\<close>

inductive server_step :: "jack_engine_t \<Rightarrow> jack_engine_t \<Rightarrow> bool" where
  request: "sound_world w \<Longrightarrow> (\<And>rq st0. rd = RequestRead rq st0 \<Longrightarrow> sound_request e rq) \<Longrightarrow>
    handle_external_client_request w reply_ok e fd rd = Value (e', r) \<Longrightarrow> server_step e e'"
| internal_request: "sound_world w \<Longrightarrow> sound_request e rq \<Longrightarrow> \<not> needs_socket rq \<Longrightarrow>
    do_request w e rq st0 None = Value (e', st, a, b) \<Longrightarrow> server_step e e'"
| create: "sound_client cw \<Longrightarrow> ids_left e \<Longrightarrow> sound_connection reply_ok e rd \<Longrightarrow>
    jack_client_create cw reply_ok e fd rd = Value (e', r) \<Longrightarrow> server_step e e'"
| acknowledge: "server_step e (fst (handle_client_ack_connection e fd rd))"
| socket_error: "server_step e (jack_mark_client_socket_error e fd)"
| remove: "leaves_engine finish \<Longrightarrow> jack_remove_clients finish e = Value (e', x) \<Longrightarrow> driver_here e' \<Longrightarrow> server_step e e'"
| cycle: "sound_cycle e ci \<Longrightarrow> jack_run_one_cycle ci e delays = Some (Value (e', delays', st)) \<Longrightarrow> server_step e e'"
| call: "engine_call e e' \<Longrightarrow> server_step e e'"

lemma ack_unseen: "unseen e (fst (handle_client_ack_connection e fd rd))"
proof (cases rd)
  case (Some i)
  show ?thesis
  proof (cases "jack_client_internal_by_id e i")
    case (Some c)
    have "unseen e (fst (write_fd (upd_client c (\<lambda>r. r\<lparr>event_fd := fd\<rparr>) e) fd ReplyAck))" by (intro unseen_frame unseen_refl)
    then show ?thesis using Some \<open>rd = Some i\<close> by (simp add: handle_client_ack_connection_def case_prod_beta)
  qed (simp add: handle_client_ack_connection_def \<open>rd = Some i\<close>)
qed (simp add: handle_client_ack_connection_def)

lemma server_step_running: "server_step e e' \<Longrightarrow> running e \<Longrightarrow> running e'"
proof (induction rule: server_step.induct)
  case (request w rd e reply_ok fd e' r)
  then show ?case
    using handle_request_ok [OF request(4), of "loads w" rd reply_ok fd] handle_request_loads [OF request(3)] loads_sound by auto
next
  case (internal_request w e rq st0 e' st a b)
  then show ?case
    using do_request_ok [OF internal_request(5), of "loads w" rq None st0] do_request_loads [OF internal_request(4)] loads_sound by auto
next
  case (create cw e reply_ok rd fd e' r)
  then show ?case
    using create_ok [of e "loading cw" reply_ok rd fd] create_loading [OF create(4)] loading_sound by auto
next
  case (acknowledge e fd rd)
  then show ?case by (rule running_unseen [OF ack_unseen])
next
  case (socket_error e fd)
  then show ?case by (rule running_unseen [OF unseen_mark [OF unseen_refl]])
next
  case (remove finish e e' x)
  then show ?case using remove_clients_ok [of e finish] by auto
next
  case (cycle e ci delays e' delays' st)
  then show ?case by (rule cycle_running)
next
  case (call e e')
  then show ?case by (rule call_running)
qed

lemma server_run_running: "server_step\<^sup>*\<^sup>* e e' \<Longrightarrow> running e \<Longrightarrow> running e'"
proof (induction rule: rtranclp_induct)
  case (step y z)
  then show ?case using server_step_running [of y z] by blast
qed

section \<open>A server to try the theorems on\<close>

text \<open>The driver's client and one external client with two output ports.\<close>

definition demo_server :: jack_engine_t where
  "demo_server = demo_registry\<lparr>cmem := (\<lambda>c. if c = 0 then (demo_client 1 ClientDriver [])\<lparr>cl_name := ''system'', request_fd := -1\<rparr>
     else (demo_client 5 ClientExternal [0, 1])\<lparr>cl_name := ''x''\<rparr>)\<rparr>"

lemma demo_server_fields:
  "clients demo_server = [0, 4]" "ports demo_server = ports demo_registry" "timebase_client demo_server = None"
  "next_cptr demo_server = 6" "next_client_id demo_server = 7" "control demo_server = demo_control" "reserved_client_names demo_server = []"
  by (simp_all add: demo_server_def demo_registry_def demo_engine_def)

lemma demo_server_client:
  "cl_id (cmem demo_server c) = (if c = 0 then 1 else 5)" "cl_name (cmem demo_server c) = (if c = 0 then ''system'' else ''x'')"
  "dead (cmem demo_server c) = False" "active (cmem demo_server c) = True" "active_slowsync (cmem demo_server c) = False"
  "is_timebase (cmem demo_server c) = False" "sync_poll (cmem demo_server c) = False" "is_slowsync (cmem demo_server c) = False"
  "cl_type (cmem demo_server c) = (if c = 0 then ClientDriver else ClientExternal)" "cl_error (cmem demo_server c) = 0"
  "cl_ports (cmem demo_server c) = (if c = 0 then [] else [0, 1])"
  by (simp_all add: demo_server_def demo_client_def)

lemma demo_server_ok: "server_ok demo_server"
proof -
  have "core demo_server = core demo_registry"
    by (simp add: core_def demo_server_def demo_registry_def demo_client_def fun_eq_iff)
  moreover have "buffers_ok demo_server"
    using demo_registry_buffers
    by (simp add: demo_server_def buffers_ok_def free_ok_def placed_ok_def port_buffer_ok_def buffer_of_type_def)
  ultimately have "registry_inv demo_server"
    using demo_registry_inv by (simp add: registry_inv_def graph_inv_def demo_server_fields)
  moreover have "transport_inv demo_server"
    by (simp add: transport_inv_def sync_inv_def master_inv_def client_count_def demo_server_fields demo_server_client demo_control_def)
  moreover have "owners_ok demo_server"
    unfolding owners_ok_def demo_server_fields demo_registry_ports(1) all_below_4 demo_registry_ports(2-)
    by (simp add: demo_server_client demo_output_def demo_port_def)
  moreover have "clients_ok demo_server" by (simp add: clients_ok_def demo_server_fields demo_server_client)
  moreover have "dead_ok demo_server c" for c by (simp add: dead_ok_def demo_server_client)
  ultimately show ?thesis by (simp add: server_ok_def server_inv_def)
qed

lemma demo_server_driver: "driver_here demo_server"
  by (simp add: driver_here_def demo_server_def demo_registry_def demo_engine_def)

text \<open>An outside that answers well: memory is cleared, an internal client starts the transport when it is
  loaded, and the drivers leave the engine alone.\<close>

definition demo_world :: request_world where
  "demo_world = \<lparr>rw_client = \<lparr>w_shm_ok = True, w_junk = demo_client 0 ClientExternal [], w_load_ok = True, w_initialize = (\<lambda>e. (jack_transport_start e, 0)),
       w_finish = (\<lambda>e. e)\<rparr>,
     rw_drivers = \<lparr>d_start = (\<lambda>e. (e, 0)), d_stop = (\<lambda>e. (e, 0)), s_start = (\<lambda>s e. (e, 0)), s_stop = (\<lambda>s e. (e, 0)),
       s_detach = (\<lambda>s e. e), thread_ok = True, joined = (\<lambda>e. e)\<rparr>,
     rw_bufsize = (\<lambda>e n. (e, -1)), rw_is_dir = (\<lambda>_. True), rw_mkdir_ok = (\<lambda>_. True), rw_malloc_ok = True\<rparr>"

lemma demo_world_sound: "sound_world demo_world" "sound_client (rw_client demo_world)"
proof -
  have "engine_call e (jack_transport_start e)" for e by (intro engine_call.control control_write.start)
  then show "sound_client (rw_client demo_world)"
    by (simp add: demo_world_def sound_client_def sound_memory_def leaves_engine_def demo_client_def r_into_rtranclp)
  then show "sound_world demo_world"
    by (simp add: sound_world_def) (simp add: demo_world_def sound_drivers_def sound_bufsize_def)
qed

section \<open>All requests, in all states\<close>

text \<open>C1: in every state a run of the server leads to, every request that follows the protocol is answered:
  no assertion fails, nothing outside of the program's memory is touched and no loop runs on. The
  server's guarantees hold afterwards and the driver's client is still on the list. Taking off the
  clients that failed returns too, and takes the driver's client off only if its socket was lost.

  What this rests on, all of it in the hypotheses: requests follow the protocol (\<open>sound_request\<close>: known
  ports, live clients, one activation, sizes that fit, the driver's client is not unloaded); the memory
  a new client gets has its count of feeding clients 0; an internal client that is to be loaded can be
  loaded, and the answer to its creation gets through; loaded code and drivers change the engine
  through the engine's own calls and through process cycles only; removals in the run before have left
  the driver's client on the list.\<close>

theorem requests_answered:
  assumes "server_ok e0" "driver_here e0" "server_step\<^sup>*\<^sup>* e0 e" "sound_world w"
  shows "(\<forall>rq fd st0. sound_request e rq \<and> (\<forall>name options. rq = IntClientLoad name options \<longrightarrow> w_load_ok (rw_client w)) \<longrightarrow>
      (\<exists>e' st a b. do_request w e rq st0 (Some fd) = Value (e', st, a, b) \<and> server_ok e' \<and> driver_here e')) \<and>
    (\<exists>e' x. jack_remove_clients (w_finish (rw_client w)) e = Value (e', x) \<and> server_ok e' \<and>
      (\<forall>d. driver_client e = Some d \<and> d \<notin> set (clients e') \<longrightarrow> JACK_ERROR_WITH_SOCKETS \<le> cl_error (cmem e' d)))"
proof -
  have run: "running e" using server_run_running [OF assms(3)] assms(1,2) by blast
  have fin: "leaves_engine (w_finish (rw_client w))" using assms(4) by (simp add: sound_world_def sound_client_def)
  obtain e' x where e': "jack_remove_clients (w_finish (rw_client w)) e = Value (e', x)" "server_ok e'" "lost e e'"
    using remove_clients_ok [OF conjunct1 [OF run] fin] by blast
  have "JACK_ERROR_WITH_SOCKETS \<le> cl_error (cmem e' d)" if "driver_client e = Some d" "d \<notin> set (clients e')" for d
    using that run e'(3) by (auto simp: driver_here_def lost_def)
  moreover have "\<exists>e' st a b. do_request w e rq st0 (Some fd) = Value (e', st, a, b) \<and> running e'"
    if "sound_request e rq" "\<forall>name options. rq = IntClientLoad name options \<longrightarrow> w_load_ok (rw_client w)" for rq fd st0
    using do_request_ok [OF run assms(4) that(1), of "Some fd" st0] that(2) by blast
  ultimately show ?thesis using e' by blast
qed

theorem requests_answered_witness:
  "\<exists>e' st a b. do_request demo_world demo_server (SetTimeBaseClient 5 False) 0 (Some 4) = Value (e', st, a, b) \<and>
     server_ok e' \<and> driver_here e'"
proof -
  have "sound_request demo_server (SetTimeBaseClient 5 False)" using demo_server_client(3) by simp
  then show ?thesis
    using requests_answered [OF demo_server_ok demo_server_driver rtranclp.rtrancl_refl demo_world_sound(1)] by blast
qed

text \<open>C4: in every state a run of the server leads to no reference dangles: the ports of a client are
  ports of the table, a port in use belongs to exactly one client on the list, both ends of a connection
  are ports in use, the timebase master and the driver's client are on the list, and a zombie owns no
  port, is not active and is not the master. Names and identifiers of the clients are pairwise different.

  The runs are those of \<open>server_step\<close>: requests follow the protocol, the driver's client is not unloaded
  or removed, new memory has the count of feeding clients 0, internal clients that are loaded can be
  loaded, and the answer to an internal client's creation gets through (where it does not, the code
  leaves ports without an owner behind).\<close>

theorem no_dangling_references:
  assumes "server_ok e0" "driver_here e0" "server_step\<^sup>*\<^sup>* e0 e"
  shows "(\<forall>c \<in> set (clients e). \<forall>p \<in> set (cl_ports (cmem e c)). p < length (ports e)) \<and>
    (\<forall>p < length (ports e). in_use (ports e ! p) \<longrightarrow>
       (\<exists>!c. c \<in> set (clients e) \<and> p_client_id (ports e ! p) = cl_id (cmem e c))) \<and>
    (\<forall>(p, q) \<in> links e. p < length (ports e) \<and> q < length (ports e) \<and> in_use (ports e ! p) \<and> in_use (ports e ! q)) \<and>
    (\<forall>c. timebase_client e = Some c \<longrightarrow> c \<in> set (clients e)) \<and>
    (\<exists>d. driver_client e = Some d \<and> d \<in> set (clients e)) \<and>
    (\<forall>c \<in> set (clients e). dead (cmem e c) \<longrightarrow> \<not> active (cmem e c) \<and> timebase_client e \<noteq> Some c \<and>
       (\<forall>p < length (ports e). in_use (ports e ! p) \<longrightarrow> p_client_id (ports e ! p) \<noteq> cl_id (cmem e c))) \<and>
    inj_on (\<lambda>c. cl_name (cmem e c)) (set (clients e)) \<and> inj_on (\<lambda>c. cl_id (cmem e c)) (set (clients e))"
proof -
  have run: "running e" using server_run_running [OF assms(3)] assms(1,2) by blast
  then have ok: "server_ok e" and drv: "\<exists>d. driver_client e = Some d \<and> d \<in> set (clients e)" by (simp_all add: driver_here_def)
  have inj: "inj_on (\<lambda>c. cl_id (cmem e c)) (set (clients e))" using graph_ids(1) server_graph(1) [OF ok] by blast
  have "owners_ok e" "clients_ok e" using ok by (auto simp: server_ok_def server_inv_def)
  then have own: "\<exists>!c. c \<in> set (clients e) \<and> p_client_id (ports e ! p) = cl_id (cmem e c)"
    if "p < length (ports e)" "in_use (ports e ! p)" for p
    using that inj unfolding owners_ok_def by (metis inj_onD)
  have lk: "p < length (ports e) \<and> q < length (ports e) \<and> in_use (ports e ! p) \<and> in_use (ports e ! q)" if l: "(p, q) \<in> links e" for p q
  proof -
    obtain k where k: "k \<in> live (core e)" "p = source (conns e k)" "q = destination (conns e k)"
      using l by (auto simp: links_def ends_def)
    then have "link_ok (core e) (conns e k)"
      using server_graph(1) [OF ok] by (auto simp: graph_inv_def ginv_def gbooks_def conn_ok_def)
    then show ?thesis using k by (auto simp: link_ok_def Let_def)
  qed
  show ?thesis
    using own lk drv inj ok own_ports(1) [OF server_graph(4) [OF ok]] server_graph(3) [OF ok] \<open>clients_ok e\<close>
    by (auto simp: clients_ok_def transport_inv_def master_inv_def server_ok_def dead_ok_def portless_def)
qed

theorem no_dangling_references_witness:
  "\<exists>!c. c \<in> set (clients demo_server) \<and> p_client_id (ports demo_server ! 1) = cl_id (cmem demo_server c)"
proof -
  have "1 < length (ports demo_server)" "in_use (ports demo_server ! 1)"
    unfolding demo_server_fields demo_registry_ports by (simp_all add: demo_output_def demo_port_def)
  then show ?thesis using no_dangling_references [OF demo_server_ok demo_server_driver rtranclp.rtrancl_refl] by blast
qed

section \<open>Clients come and go\<close>

text \<open>C11: removing a client returns and takes it, and only it, off the list; the connections of its ports
  are broken and no others, no port stays in its name, no connection touches one of its ports, and
  the other clients keep names, identifiers and state.\<close>

theorem remove_client_request:
  assumes "server_ok e" "c \<in> set (clients e)" "leaves_engine finish"
  shows "\<exists>e'. jack_remove_client finish e c = Value e' \<and> server_ok e' \<and> set (clients e') = set (clients e) - {c} \<and>
    links e' = (if dead (cmem e c) then links e else links e - (\<Union>p \<in> set (cl_ports (cmem e c)). at_port p)) \<and>
    (\<forall>p < length (ports e'). in_use (ports e' ! p) \<longrightarrow> p_client_id (ports e' ! p) \<noteq> cl_id (cmem e c)) \<and>
    (\<forall>x. x \<noteq> c \<longrightarrow> cl_name (cmem e' x) = cl_name (cmem e x) \<and> cl_id (cmem e' x) = cl_id (cmem e x) \<and>
       dead (cmem e' x) = dead (cmem e x))"
proof -
  obtain e' where e': "jack_remove_client finish e c = Value e'" "server_ok e'" "others_same c e e'"
    "mset (clients e') = mset (remove1 c (clients e))" "links e' = removed_links e c"
    using remove_ok [OF assms] by blast
  have s: "set (clients e') = set (clients e) - {c}" using mset_eq_setD [OF e'(4)] server_graph(5) [OF assms(1)] by simp
  have ids: "cl_id (cmem e' x) = cl_id (cmem e x)" for x using e'(3) by (simp add: others_same_def)
  have "p_client_id (ports e' ! p) \<noteq> cl_id (cmem e c)" if p: "p < length (ports e')" "in_use (ports e' ! p)" for p
  proof -
    obtain x where x: "x \<in> set (clients e')" "p_client_id (ports e' ! p) = cl_id (cmem e' x)"
      using e'(2) p by (auto simp: server_ok_def server_inv_def owners_ok_def)
    then have "x \<in> set (clients e)" "x \<noteq> c" using s by auto
    then show ?thesis using x(2) ids graph_ids(1) [OF server_graph(1) [OF assms(1)]] assms(2) by (metis inj_onD)
  qed
  then show ?thesis using e' s by (auto simp: removed_links_def others_same_def)
qed

theorem remove_client_request_witness:
  "\<exists>e'. jack_remove_client (\<lambda>e. e) demo_server 4 = Value e' \<and> set (clients e') = {0}"
  using remove_client_request [OF demo_server_ok, of 4 "\<lambda>e. e"] by (auto simp: leaves_engine_def demo_server_fields)

text \<open>C28: the walk over the client list that removes failed clients ends, although it changes the list it
  walks along: it takes at most \<open>(3 n + 1) (n + 1)\<close> steps for n clients. No client comes onto the list,
  and every client that is gone had lost its socket.\<close>

theorem remove_clients_ends:
  assumes "server_ok e" "leaves_engine finish"
  shows "\<exists>e' x. jack_remove_clients finish e = Value (e', x) \<and> server_ok e' \<and> set (clients e') \<subseteq> set (clients e) \<and>
    (\<forall>c \<in> set (clients e) - set (clients e'). JACK_ERROR_WITH_SOCKETS \<le> cl_error (cmem e' c))"
  using remove_clients_ok [OF assms] by (auto simp: lost_def)

theorem remove_clients_ends_witness:
  "\<exists>e' x. jack_remove_clients (\<lambda>e. e) (jack_mark_client_socket_error demo_server 4) = Value (e', x) \<and> server_ok e'"
proof -
  have "server_ok (jack_mark_client_socket_error demo_server 4)"
    using demo_server_ok unseen_ok [OF unseen_mark [OF unseen_refl]] by blast
  moreover have "leaves_engine (\<lambda>e. e)" by (simp add: leaves_engine_def)
  ultimately show ?thesis using remove_clients_ends by blast
qed

end
