(* ===== verification/Client_Properties.thy ===== *)
theory Client_Properties
  imports Server_Properties
begin

text \<open>
  Names, creation, activation, the order of a cycle, and what happens to a session that is asked for
  while another one is in progress.
\<close>

section \<open>Names\<close>

lemma numbered_length: "length (numbered_name n t u) = length n + 3"
  by (simp add: numbered_name_def)

text \<open>C27: the name a new client gets is not taken, by a client or by a reservation. It is the name asked
  for if that is free; otherwise, unless the client insists, it is that name with a number from 01 to
  99 appended, and it still fits. A client is turned away only when the name is taken and it insists,
  or the name is too long to number, or all 99 numbers are taken.\<close>

theorem unique_client_name:
  assumes "length name < JACK_CLIENT_NAME_SIZE"
  shows "case jack_client_name_invalid e name options status of
    (st, Some n) \<Rightarrow> \<not> name_taken e n \<and> length n < JACK_CLIENT_NAME_SIZE \<and>
      (if name_taken e name
       then st = status OR JackNameNotUnique \<and> \<not> flag_set options JackUseExactName \<and>
         (\<exists>k. 1 \<le> k \<and> k \<le> 99 \<and> n = numbered_name name (k div 10) (k mod 10))
       else st = status \<and> n = name)
  | (st, None) \<Rightarrow> name_taken e name \<and> st = status OR JackNameNotUnique OR JackFailure \<and>
      (flag_set options JackUseExactName \<or> JACK_CLIENT_NAME_SIZE - 4 < length name \<or>
       (\<forall>k. 1 \<le> k \<and> k \<le> 99 \<longrightarrow> name_taken e (numbered_name name (k div 10) (k mod 10))))"
proof (cases "name_taken e name \<and> \<not> flag_set options JackUseExactName")
  case False
  then show ?thesis using assms by (auto simp: jack_client_name_invalid_def Let_def or.assoc)
next
  case True
  show ?thesis
  proof (cases "jack_generate_unique_name e name")
    case None
    then show ?thesis
      using True unique_name_None [OF None] by (auto simp: jack_client_name_invalid_def Let_def or.assoc not_less)
  next
    case (Some n)
    have "length name \<le> JACK_CLIENT_NAME_SIZE - 4" using Some by (simp add: jack_generate_unique_name_def split: if_splits)
    then have "length n < JACK_CLIENT_NAME_SIZE"
      using unique_name_Some(1) [OF Some] by (auto simp: numbered_length JACK_CLIENT_NAME_SIZE_def)
    then show ?thesis
      using True unique_name_Some [OF Some] Some by (simp add: jack_client_name_invalid_def Let_def)
  qed
qed

theorem unique_client_name_witness:
  "\<exists>n. jack_client_name_invalid demo_server ''x'' 0 0 = (JackNameNotUnique, Some n) \<and> \<not> name_taken demo_server n"
proof -
  have t: "name_taken demo_server n \<longleftrightarrow> n = ''system'' \<or> n = ''x''" for n
    by (auto simp: name_taken_iff demo_server_fields demo_server_client)
  have v: "jack_client_name_invalid demo_server ''x'' 0 0 = (JackNameNotUnique, Some (numbered_name ''x'' 0 1))"
    by (simp add: jack_client_name_invalid_def t flag_set_def jack_generate_unique_name_def JACK_CLIENT_NAME_SIZE_def
        eval_nat_numeral numbered_name_def)
  then show ?thesis
    using unique_client_name [of "''x''" demo_server 0 0] by (simp add: JACK_CLIENT_NAME_SIZE_def)
qed

section \<open>Creation\<close>

text \<open>Setting up an external client whose name can be settled puts one new client in front of the
  list, under the next identifier and with the settled name: not active, no zombie, without ports
  and without a part in the transport; the names of the others, the connections and the timebase
  master stay as they are and the server's guarantees hold.\<close>

theorem client_joins:
  assumes "server_ok e" "sound_client w" "ids_left e" "w_shm_ok w"
    "jack_client_name_invalid e name options 0 = (st, Some n)"
  shows "\<exists>e' c. setup_client w e ClientExternal name uuid options fd = Value (e', st, Some c) \<and> server_ok e' \<and>
    clients e' = c # clients e \<and> c \<notin> set (clients e) \<and> cl_id (cmem e' c) = next_client_id e \<and> cl_name (cmem e' c) = n \<and>
    \<not> active (cmem e' c) \<and> \<not> dead (cmem e' c) \<and> cl_ports (cmem e' c) = [] \<and> \<not> is_timebase (cmem e' c) \<and>
    \<not> is_slowsync (cmem e' c) \<and> (\<forall>x \<in> set (clients e). cl_name (cmem e' x) = cl_name (cmem e x)) \<and>
    links e' = links e \<and> timebase_client e' = timebase_client e"
proof -
  obtain e' st' cl where e': "setup_client w e ClientExternal name uuid options fd = Value (e', st', cl)" "server_ok e'"
    "case cl of None \<Rightarrow> True | Some c \<Rightarrow> c \<in> set (clients e') \<and> c \<notin> set (clients e) \<and>
      (ClientExternal \<noteq> ClientInternal \<longrightarrow> (\<exists>n. snd (jack_client_name_invalid e name options 0) = Some n \<and> joined_list e n c e'))"
    using setup_client_ok [OF assms(1-3), of ClientExternal name uuid options fd] by auto
  have "cl \<noteq> None \<and> st' = st"
    using e'(1) assms(4,5) by (auto simp: setup_client_def setup_client_add_def jack_setup_client_control_def Let_def)
  then obtain c where c: "cl = Some c" "st' = st" by auto
  then have "joined_list e n c e'" using e'(3) assms(5) by simp
  then show ?thesis using e'(1,2) c by (auto simp: joined_list_def fresh_client_def)
qed

theorem client_joins_witness:
  "\<exists>e' c. setup_client (rw_client demo_world) demo_server ClientExternal ''y'' 0 0 9 = Value (e', 0, Some c) \<and> cl_id (cmem e' c) = 7"
proof -
  have t: "\<not> name_taken demo_server ''y''" by (auto simp: name_taken_iff demo_server_fields demo_server_client)
  have n: "jack_client_name_invalid demo_server ''y'' 0 0 = (0, Some ''y'')" using t by (simp add: jack_client_name_invalid_def)
  have i: "ids_left demo_server" by (simp add: ids_left_def demo_server_fields)
  have s: "w_shm_ok (rw_client demo_world)" by (simp add: demo_world_def)
  show ?thesis
    using client_joins [OF demo_server_ok demo_world_sound(2) i s n, of 0 9] by (auto simp: demo_server_fields)
qed

section \<open>Activation\<close>

text \<open>A client's part in the transport: active, slow-sync client, counted as one, polled, newly polled,
  timebase master, new master.\<close>

definition transport_part :: "jack_client_internal_t \<Rightarrow> bool \<times> bool \<times> bool \<times> bool \<times> bool \<times> bool \<times> bool" where
  "transport_part r = (active r, is_slowsync r, active_slowsync r, sync_poll r, sync_new r, is_timebase r, timebase_new r)"

lemma kept_part: "kept e e' \<Longrightarrow> transport_part (cmem e' x) = transport_part (cmem e x)"
  using kept_client [of e e' x] by (simp add: transport_part_def)

text \<open>What activation does to the transport, of a client that is neither counted nor polled.\<close>

definition joined_transport :: "cptr \<Rightarrow> jack_engine_t \<Rightarrow> jack_engine_t \<Rightarrow> bool" where
  "joined_transport c e e' \<longleftrightarrow>
     (let slow = is_slowsync (cmem e c); master = (timebase_client e = Some c); ctl = control e; ctl' = control e' in
      transport_part (cmem e' c) = (True, slow, slow, slow, slow \<or> sync_new (cmem e c), master, master \<or> timebase_new (cmem e c)) \<and>
      (\<forall>x. x \<noteq> c \<longrightarrow> transport_part (cmem e' x) = transport_part (cmem e x)) \<and> timebase_client e' = timebase_client e \<and>
      sync_clients ctl' = sync_clients ctl + (if slow then 1 else 0) \<and> sync_remain ctl' = sync_remain ctl + (if slow then 1 else 0) \<and>
      sync_time_left ctl' = (if slow then sync_timeout ctl else sync_time_left ctl) \<and>
      transport_state ctl' = (if slow \<and> transport_state ctl = JackTransportRolling then JackTransportStarting else transport_state ctl) \<and>
      current_time ctl' = current_time ctl \<and> pending_time ctl' = pending_time ctl)"

text \<open>What deactivation does to it. The master stays master, but its position is no longer valid.\<close>

definition left_transport :: "cptr \<Rightarrow> jack_engine_t \<Rightarrow> jack_engine_t \<Rightarrow> bool" where
  "left_transport c e e' \<longleftrightarrow>
     (let r = cmem e c; master = (timebase_client e = Some c); ctl = control e; ctl' = control e' in
      (\<exists>new. transport_part (cmem e' c) = (False, is_slowsync (cmem e' c), False, False, new, master, timebase_new r) \<and> (new \<longrightarrow> sync_new r)) \<and>
      (\<not> dead r \<longrightarrow> is_slowsync (cmem e' c) = is_slowsync r) \<and>
      (\<forall>x. x \<noteq> c \<longrightarrow> transport_part (cmem e' x) = transport_part (cmem e x)) \<and> timebase_client e' = timebase_client e \<and>
      sync_clients ctl' = sync_clients ctl - (if active_slowsync r then 1 else 0) \<and>
      sync_remain ctl' = sync_remain ctl - (if sync_poll r then 1 else 0) \<and>
      transport_state ctl' = transport_state ctl \<and> sync_time_left ctl' = sync_time_left ctl \<and>
      current_time ctl' = (if master then (current_time ctl)\<lparr>valid := 0\<rparr> else current_time ctl) \<and>
      pending_time ctl' = (if master then (pending_time ctl)\<lparr>valid := 0\<rparr> else pending_time ctl))"

lemma transport_parts:
  assumes "server_ok e" "c \<in> set (clients e)"
  shows "sync_poll (cmem e c) \<Longrightarrow> active_slowsync (cmem e c)" "active_slowsync (cmem e c) \<Longrightarrow> is_slowsync (cmem e c)"
    "active_slowsync (cmem e c) \<Longrightarrow> active (cmem e c)" "is_timebase (cmem e c) = (timebase_client e = Some c)"
    "dead (cmem e c) \<Longrightarrow> timebase_client e \<noteq> Some c"
  using assms server_graph(3) [OF assms(1)] slow_active [OF assms]
  by (auto simp: transport_inv_def sync_inv_def master_inv_def server_ok_def dead_ok_def)

lemma activation_joins:
  assumes ok: "server_ok e" and c: "jack_client_internal_by_id e i = Some c" "\<not> active (cmem e c)"
    and r: "jack_client_activate e i = Value (e', x)"
  shows "joined_transport c e e'"
proof -
  obtain e1 where e1: "jack_transport_activate (upd_client c (\<lambda>r. r\<lparr>active := True\<rparr>) e) c = Value e1"
    "kept (e1\<lparr>external_client_cnt := Suc (external_client_cnt e1)\<rparr>) e'"
    using activate_shape [OF c(1) r] by blast
  have cl: "c \<in> set (clients e)" using by_id_Some [OF c(1)] by simp
  note p = transport_parts [OF ok cl]
  have idle: "\<not> active_slowsync (cmem e c)" "\<not> sync_poll (cmem e c)" using p(1,3) c(2) by blast+
  have "joined_transport c e e1"
    using e1(1) idle p(4)
    by (auto simp: joined_transport_def transport_part_def jack_transport_activate_def jack_sync_poll_new_def Let_def
        upd_client_def upd_control_def split: if_splits)
  then show ?thesis
    using kept_part [OF e1(2)] kept_engine(2,7) [OF e1(2)] by (simp add: joined_transport_def Let_def)
qed

lemma deactivation_leaves:
  assumes ok: "server_ok e" and c: "jack_client_internal_by_id e i = Some c" and r: "jack_client_deactivate e i = Value (e', x)"
  shows "left_transport c e e'"
proof -
  obtain e1 e2 n where s: "kept e e1" "jack_transport_client_exit (upd_client c (\<lambda>r. r\<lparr>active := False\<rparr>) e1) c = Value e2"
    "kept (e2\<lparr>external_client_cnt := n\<rparr>) e'" using deactivate_shape [OF c r] by blast
  have cl: "c \<in> set (clients e)" using by_id_Some [OF c] by simp
  note p = transport_parts [OF ok cl]
  have pe: "sync_poll (cmem e1 c) \<longrightarrow> active_slowsync (cmem e1 c)" "active_slowsync (cmem e1 c) \<longrightarrow> is_slowsync (cmem e1 c)"
    "is_timebase (cmem e1 c) = (timebase_client e1 = Some c)" "dead (cmem e1 c) \<longrightarrow> timebase_client e1 \<noteq> Some c"
    using p kept_client [OF s(1), of c] kept_engine(7) [OF s(1)] by simp_all
  have "left_transport c e1 e2"
    using s(2) pe
    by (auto simp: left_transport_def transport_part_def jack_transport_client_exit_def jack_sync_poll_deactivate_def Let_def
        c_map_Value upd_client_def upd_control_def split: if_splits)
  then show ?thesis
    using kept_part [OF s(1)] kept_engine(2,7) [OF s(1)] kept_client [OF s(1), of c] kept_part [OF s(3)] kept_engine(2,7) [OF s(3)]
      kept_client(11) [OF s(3), of c]
    by (simp add: left_transport_def Let_def)
qed

text \<open>C35: activating a client that is neither active nor a zombie, and deactivating a client, returns 0
  and keeps the server's guarantees and the clients on the list. Activation changes no connection; a
  slow-sync client is counted and polled from then on, with the full time to get ready, and a rolling
  transport goes back to starting; the timebase master is marked as new. Deactivation breaks the
  connections of the client's ports and no others, and takes the client out of the count and the poll;
  the position of a deactivated master is marked as not valid. The other clients keep their part in the
  transport. A request for a client the server does not know returns -1 and changes nothing.\<close>

theorem activation_requests:
  assumes "server_ok e"
  shows "case jack_client_internal_by_id e i of
    None \<Rightarrow> jack_client_activate e i = Value (e, -1) \<and> jack_client_deactivate e i = Value (e, -1)
  | Some c \<Rightarrow>
      (\<not> active (cmem e c) \<and> \<not> dead (cmem e c) \<longrightarrow>
         (\<exists>e'. jack_client_activate e i = Value (e', 0) \<and> server_ok e' \<and> links e' = links e \<and>
           mset (clients e') = mset (clients e) \<and> joined_transport c e e')) \<and>
      (\<exists>e'. jack_client_deactivate e i = Value (e', 0) \<and> server_ok e' \<and> mset (clients e') = mset (clients e) \<and>
         links e' = links e - (\<Union>p \<in> set (cl_ports (cmem e c)). at_port p) \<and> left_transport c e e')"
proof (cases "jack_client_internal_by_id e i")
  case None
  then show ?thesis by (simp add: jack_client_activate_def jack_client_deactivate_def)
next
  case (Some c)
  obtain e' where e': "jack_client_deactivate e i = Value (e', 0)" "server_ok e'"
    "mset (clients e') = mset (clients e)" "links e' = links e - (\<Union>p \<in> set (cl_ports (cmem e c)). at_port p)"
    using deactivate_request_ok [OF assms Some] by blast
  have "\<exists>e'. jack_client_activate e i = Value (e', 0) \<and> server_ok e' \<and> links e' = links e \<and> mset (clients e') = mset (clients e) \<and>
      joined_transport c e e'" if idle: "\<not> active (cmem e c)" "\<not> dead (cmem e c)"
    using activate_request_ok [OF assms Some idle] activation_joins [OF assms Some idle(1)] by blast
  then show ?thesis using e' deactivation_leaves [OF assms Some e'(1)] Some by simp
qed

text \<open>The client of the example as a slow-sync client that is not active.\<close>

definition demo_idle :: jack_engine_t where
  "demo_idle = upd_client 4 (\<lambda>r. r\<lparr>active := False, is_slowsync := True\<rparr>) demo_server"

lemma demo_idle_ok: "server_ok demo_idle"
proof -
  have t: "transport_only demo_server demo_idle"
    unfolding demo_idle_def by (rule air_client [OF transport_only_refl]) (simp add: client_quiet_def)
  have "transport_inv demo_idle"
    using server_graph(3,5) [OF demo_server_ok] unfolding demo_idle_def
    by (auto simp: transport_inv_def sync_inv_def master_inv_def demo_server_client client_count_def demo_server_fields demo_control_def)
  then have "server_inv demo_idle" by (rule server_transport_only [OF server_graph(4) [OF demo_server_ok] t])
  moreover have "dead_ok demo_idle c" for c by (simp add: dead_ok_def demo_idle_def demo_server_client)
  ultimately show ?thesis by (simp add: server_ok_def)
qed

theorem activation_requests_witness:
  "\<exists>e'. jack_client_activate demo_idle 5 = Value (e', 0) \<and> active_slowsync (cmem e' 4) \<and> sync_clients (control e') = 1"
proof -
  have "jack_client_internal_by_id demo_idle 5 = Some 4" "\<not> active (cmem demo_idle 4)" "\<not> dead (cmem demo_idle 4)"
    "is_slowsync (cmem demo_idle 4)" "sync_clients (control demo_idle) = 0"
    by (simp_all add: demo_idle_def jack_client_internal_by_id_def demo_server_fields demo_server_client demo_control_def)
  then show ?thesis
    using activation_requests [OF demo_idle_ok, of 5] by (auto simp: joined_transport_def transport_part_def Let_def)
qed

section \<open>The order of a cycle\<close>

lemma reset_states_roles:
  "runnable (cmem (reset_states e cs) c) = runnable (cmem e c) \<and> cl_type (cmem (reset_states e cs) c) = cl_type (cmem e c)"
  by (induction cs arbitrary: e) (auto simp: runnable_def)

lemma reset_states_errors: "process_errors (reset_states e cs) = process_errors e"
  by (induction cs arbitrary: e) (auto simp: upd_client_def)

text \<open>
  When a client is due, and whose turn it is, read off the positions in the client list: an internal
  client that is due always has its turn; an external one has it if no external client before it is
  due, or if there is an internal client between the two. The others are reached through the chain of
  FIFOs that the first one starts.
\<close>

definition due :: "jack_client_internal_t \<Rightarrow> bool" where
  "due r \<longleftrightarrow> active r \<and> \<not> dead r \<and> (process_cbset r \<or> thread_cb_cbset r)"

definition has_turn :: "(cptr \<Rightarrow> jack_client_internal_t) \<Rightarrow> cptr list \<Rightarrow> nat \<Rightarrow> bool" where
  "has_turn m cs k \<longleftrightarrow> due (m (cs ! k)) \<and>
     (cl_type (m (cs ! k)) \<noteq> ClientExternal \<or>
      (\<forall>j < k. due (m (cs ! j)) \<and> cl_type (m (cs ! j)) = ClientExternal \<longrightarrow>
         (\<exists>i. j < i \<and> i < k \<and> cl_type (m (cs ! i)) \<noteq> ClientExternal)))"

definition chain_open :: "(cptr \<Rightarrow> jack_client_internal_t) \<Rightarrow> cptr list \<Rightarrow> nat \<Rightarrow> bool" where
  "chain_open m cs k \<longleftrightarrow> (\<exists>j < k. due (m (cs ! j)) \<and> (\<forall>i. j \<le> i \<and> i < k \<longrightarrow> cl_type (m (cs ! i)) = ClientExternal))"

lemma chain_open_Suc:
  "chain_open m cs (Suc k) \<longleftrightarrow> cl_type (m (cs ! k)) = ClientExternal \<and> (due (m (cs ! k)) \<or> chain_open m cs k)"
  unfolding chain_open_def by (auto simp: less_Suc_eq)

lemma has_turn_chain: "has_turn m cs k \<longleftrightarrow> due (m (cs ! k)) \<and> (cl_type (m (cs ! k)) \<noteq> ClientExternal \<or> \<not> chain_open m cs k)"
proof -
  have "(\<forall>j < k. due (m (cs ! j)) \<and> cl_type (m (cs ! j)) = ClientExternal \<longrightarrow>
      (\<exists>i. j < i \<and> i < k \<and> cl_type (m (cs ! i)) \<noteq> ClientExternal)) \<longleftrightarrow> \<not> chain_open m cs k"
  proof (intro iffI allI impI)
    fix j assume "\<not> chain_open m cs k" "j < k" "due (m (cs ! j)) \<and> cl_type (m (cs ! j)) = ClientExternal"
    then obtain i where "j \<le> i" "i < k" "cl_type (m (cs ! i)) \<noteq> ClientExternal" "i \<noteq> j" unfolding chain_open_def by blast
    then show "\<exists>i. j < i \<and> i < k \<and> cl_type (m (cs ! i)) \<noteq> ClientExternal" by (metis le_neq_implies_less)
  next
    assume turn: "\<forall>j < k. due (m (cs ! j)) \<and> cl_type (m (cs ! j)) = ClientExternal \<longrightarrow>
      (\<exists>i. j < i \<and> i < k \<and> cl_type (m (cs ! i)) \<noteq> ClientExternal)"
    show "\<not> chain_open m cs k"
    proof
      assume "chain_open m cs k"
      then obtain j where j: "j < k" "due (m (cs ! j))" "\<And>i. j \<le> i \<Longrightarrow> i < k \<Longrightarrow> cl_type (m (cs ! i)) = ClientExternal"
        unfolding chain_open_def by blast
      then obtain i where "j < i" "i < k" "cl_type (m (cs ! i)) \<noteq> ClientExternal" using turn by (metis order_refl)
      then show False using j(3) [of i] by simp
    qed
  qed
  then show ?thesis by (auto simp: has_turn_def)
qed

lemma runnable_due: "runnable r = due r"
  by (auto simp: runnable_def due_def)

lemma internal_type: "jack_client_is_internal r \<longleftrightarrow> cl_type r \<noteq> ClientExternal"
  by (cases "cl_type r") (simp_all add: jack_client_is_internal_def)

lemma plan_has_turn:
  assumes "k \<le> length cs"
  shows "cycle_plan m (chain_open m cs k) (drop k cs) = map (nth cs) (filter (has_turn m cs) [k..<length cs])"
  using assms
proof (induction k rule: inc_induct)
  case base
  then show ?case by simp
next
  case (step k)
  have d: "drop k cs = cs ! k # drop (Suc k) cs" "[k..<length cs] = k # [Suc k..<length cs]"
    using step(2) by (simp_all add: Cons_nth_drop_Suc upt_conv_Cons)
  show ?case
    using step.IH unfolding d by (auto simp: has_turn_chain chain_open_Suc runnable_due internal_type)
qed

text \<open>C20: a process cycle in which nothing fails runs exactly the clients whose turn it is, each once and
  in the order of the sorted client list: every internal client that is due (active, no zombie, with a
  process or thread callback), and of every chain of external clients between two internal ones the
  first that is due, which wakes the others. It reports no error.\<close>

theorem process_follows_plan:
  assumes "server_ok e" "smooth w"
  shows "\<exists>e'. jack_engine_process w e =
      Some (e', False, map (nth (clients e)) (filter (has_turn (cmem e) (clients e)) [0..<length (clients e)])) \<and> server_ok e'"
proof -
  let ?r = "reset_states (e\<lparr>process_errors := 0\<rparr>) (clients e)"
  have u: "unseen e ?r" by (intro unseen_reset_states unseen_frame unseen_refl)
  have ok: "server_ok ?r" using unseen_ok [OF u] assms(1) by simp
  have z: "process_errors ?r = 0" by (simp add: reset_states_errors)
  have s: "set (clients e) \<subseteq> set (clients ?r)" using unseen_clients(1) [OF u] by simp
  obtain e' where e': "process_loop w ?r (clients e) [] = Some (e', [] @ cycle_plan (cmem ?r) False (clients e))" "process_errors e' = 0"
    using smooth_loop [OF assms(2) ok s z, of "[]"] by blast
  have "cycle_plan (cmem ?r) False (clients e) = cycle_plan (cmem e) False (clients e)"
    by (rule plan_cong) (simp add: reset_states_roles)
  moreover have "cycle_plan (cmem e) False (clients e) =
      map (nth (clients e)) (filter (has_turn (cmem e) (clients e)) [0..<length (clients e)])"
    using plan_has_turn [of 0 "clients e" "cmem e"] by (simp add: chain_open_def)
  ultimately show ?thesis using e' engine_process_ok(1) [OF assms(1)] by (simp add: jack_engine_process_def)
qed

definition demo_cycle :: cycle_world where
  "demo_cycle = \<lparr>cw_start_ok = (\<lambda>_. True), cw_wakeups = (\<lambda>_. [\<lparr>wk_poll = PollReadable, wk_usecs = 10, wk_steady = True\<rparr>]), cw_finished = (\<lambda>_ _. 1),
     cw_read_ok = (\<lambda>_. True), cw_alive = (\<lambda>_. True), cw_process_fails = (\<lambda>_. False), cw_sync_ready = (\<lambda>_. True),
     cw_timebase = (\<lambda>_ _ p _. p), cw_timeout_usecs = 1000\<rparr>"

theorem process_follows_plan_witness:
  "\<exists>e'. jack_engine_process demo_cycle demo_server = Some (e', False, [0, 4])"
proof -
  have "smooth demo_cycle" by (simp add: smooth_def demo_cycle_def)
  moreover have "map (nth (clients demo_server)) (filter (has_turn (cmem demo_server) (clients demo_server)) [0..<length (clients demo_server)]) = [0, 4]"
    by (simp add: upt_rec has_turn_def due_def demo_server_def demo_registry_def demo_client_def)
  ultimately show ?thesis using process_follows_plan [OF demo_server_ok, of demo_cycle] by auto
qed

section \<open>Two sessions at once\<close>

text \<open>A session request that comes while another session is waiting for replies gets an empty answer, as
  the comment in the code intends, but it also ends the session in progress: the reply socket is
  forgotten while replies are pending, and every reply that comes later is dropped instead of being
  sent to the client that asked first.\<close>

theorem second_session_drops_first:
  assumes "session_reply_fd e \<noteq> -1" "event_written (io e (io_pos e))"
    "jack_client_internal_by_id e i = Some c"
  shows "\<exists>e' e''. jack_do_session_notify is_dir mkdir_ok e rq fd = (e', 0) \<and> sent e' = sent e @ [(fd, ReplyUuid 0)] \<and>
    session_reply_fd e' = -1 \<and> session_pending_replies e' = session_pending_replies e \<and>
    jack_do_session_reply e' i = Value (e'', 0) \<and> sent e'' = sent e'"
proof -
  let ?e = "e\<lparr>io_pos := Suc (io_pos e), sent := sent e @ [(fd, ReplyUuid 0)], session_reply_fd := -1\<rparr>"
  have "jack_client_internal_by_id ?e i = Some c" using assms(3) by (simp add: jack_client_internal_by_id_def)
  then have "jack_do_session_reply ?e i = Value (upd_client c (\<lambda>r. r\<lparr>session_reply_pending := False\<rparr>) ?e, 0)"
    by (simp add: jack_do_session_reply_def upd_client_def)
  moreover have "jack_do_session_notify is_dir mkdir_ok e rq fd = (?e, 0)"
    using assms(1,2) by (simp add: jack_do_session_notify_def send_final_def write_fd_def Let_def)
  ultimately show ?thesis by (simp add: upd_client_def)
qed

definition demo_session :: jack_engine_t where
  "demo_session = demo_server\<lparr>session_reply_fd := 7, session_pending_replies := 1\<rparr>"

theorem second_session_drops_first_witness:
  "\<exists>e' e''. jack_do_session_notify (\<lambda>_. True) (\<lambda>_. True) demo_session \<lparr>sr_path = ''/s'', sr_type = 1, sr_target = []\<rparr> 8 = (e', 0) \<and>
     session_reply_fd e' = -1 \<and> session_pending_replies e' = 1 \<and> jack_do_session_reply e' 5 = Value (e'', 0) \<and> sent e'' = sent e'"
proof -
  have "session_reply_fd demo_session \<noteq> -1" "session_pending_replies demo_session = 1" by (simp_all add: demo_session_def)
  moreover have "event_written (io demo_session (io_pos demo_session))"
    by (simp add: demo_session_def demo_server_def demo_registry_def demo_engine_def)
  moreover have "jack_client_internal_by_id demo_session 5 = Some 4"
    by (simp add: demo_session_def demo_server_def demo_registry_def demo_client_def jack_client_internal_by_id_def)
  ultimately show ?thesis
    using second_session_drops_first [of demo_session 5 4 "\<lambda>_. True" "\<lambda>_. True" "\<lparr>sr_path = ''/s'', sr_type = 1, sr_target = []\<rparr>" 8] by auto
qed

end
