(* ===== verification/Shm.thy ===== *)
theory Shm
  imports Jack_Prelude
begin

text \<open>
  The registry of shared memory, \<open>libjack/shm.c\<close>: a shared segment in which all servers of a machine
  keep the names of the servers that run and the shared memory segments that are in use. The build
  defines \<open>USE_POSIX_SHM\<close> (as 0, but the code asks with \<open>#ifdef\<close>), so the POSIX half of the file is the
  one that is compiled. The model is a machine with several processes. Each process has its own
  mapping of the registry; names of shared memory objects, the objects and the semaphore belong to
  the machine. What the operating system answers to a call that may fail is a parameter.
\<close>

section \<open>Data\<close>

definition MAX_SERVERS :: nat where "MAX_SERVERS = 8"
definition MAX_SHM_ID :: nat where "MAX_SHM_ID = 256"
definition JACK_SERVER_NAME_SIZE :: nat where "JACK_SERVER_NAME_SIZE = 256"
definition JACK_SHM_MAGIC :: int where "JACK_SHM_MAGIC = 0x4a41434b"
definition JACK_SHM_NULL_INDEX :: int where "JACK_SHM_NULL_INDEX = -1"
definition jack_protocol_version :: int where "jack_protocol_version = 24"

text \<open>The sizes of the two structures, with \<open>NAME_MAX\<close> bytes for an identifier.\<close>

definition sizeof_header :: int where "sizeof_header = 24 + 8 * 260"
definition sizeof_entry :: int where "sizeof_entry = 268"
definition JACK_SHM_REGISTRY_SIZE :: int where "JACK_SHM_REGISTRY_SIZE = sizeof_header + sizeof_entry * 256"

datatype jack_shmtype_t = shm_POSIX | shm_SYSV

record jack_shm_server_t =
  server_pid :: int
  server_name :: string

record jack_shm_header_t =
  magic :: int
  protocol :: int
  shm_type :: jack_shmtype_t
  total_size :: int
  hdr_len :: int
  entry_len :: int
  server :: "jack_shm_server_t list"

record jack_shm_registry_t =
  shm_index :: int
  allocator :: int
  shm_size :: int
  shm_id :: string

text \<open>An address is the object that is mapped there; \<open>None\<close> is \<open>MAP_FAILED\<close>.\<close>

record jack_shm_info_t =
  info_index :: int
  attached_at :: "nat option"

datatype shm_object = Registry jack_shm_header_t "jack_shm_registry_t list" | Segment int

record shm_process =
  uid :: int
  jack_shm_header :: "nat option"
  jack_shm_server_prefix :: string

record machine =
  shm_names :: "string \<Rightarrow> nat option"
  shm_objects :: "nat \<Rightarrow> shm_object"
  shm_next :: nat
  sem_holder :: "int option"
  processes :: "int \<Rightarrow> shm_process option"

text \<open>
  A call of process \<open>p\<close> waits for the semaphore forever, crashes on memory that is not there, or returns
  with a new state of the machine.
\<close>

datatype 'a shm_result = Waits | Crashes | Returns machine 'a

fun shm_bind :: "'a shm_result \<Rightarrow> (machine \<Rightarrow> 'a \<Rightarrow> 'b shm_result) \<Rightarrow> 'b shm_result" where
  "shm_bind Waits f = Waits"
| "shm_bind Crashes f = Crashes"
| "shm_bind (Returns s x) f = f s x"

text \<open>Answers of the system: the error numbers of \<open>shm_open\<close> and \<open>ftruncate\<close> (0 for none) and whether \<open>mmap\<close> works.\<close>

record shm_os =
  os_open :: int
  os_ftruncate :: int
  os_mmap :: bool

definition upd_process :: "int \<Rightarrow> (shm_process \<Rightarrow> shm_process) \<Rightarrow> machine \<Rightarrow> machine" where
  "upd_process p f s = s\<lparr>processes := (processes s)(p := map_option f (processes s p))\<rparr>"

section \<open>The lock\<close>

text \<open>
  The semaphore is taken with \<open>SEM_UNDO\<close>: it is given back when the process that holds it ends. The
  creation of the semaphore itself is left out.
\<close>

definition jack_shm_lock_registry :: "int \<Rightarrow> machine \<Rightarrow> unit shm_result" where
  "jack_shm_lock_registry p s =
     (if sem_holder s = None then Returns (s\<lparr>sem_holder := Some p\<rparr>) () else Waits)"

definition jack_shm_unlock_registry :: "machine \<Rightarrow> machine" where
  "jack_shm_unlock_registry s = s\<lparr>sem_holder := None\<rparr>"

section \<open>The registry\<close>

definition no_server :: jack_shm_server_t where
  "no_server = \<lparr>server_pid = 0, server_name = ''''\<rparr>"

definition jack_shm_init_registry :: "shm_object" where
  "jack_shm_init_registry =
     Registry \<lparr>magic = JACK_SHM_MAGIC, protocol = jack_protocol_version, shm_type = shm_POSIX,
               total_size = JACK_SHM_REGISTRY_SIZE, hdr_len = sizeof_header, entry_len = sizeof_entry,
               server = replicate MAX_SERVERS no_server\<rparr>
       (map (\<lambda>i. \<lparr>shm_index = int i, allocator = 0, shm_size = 0, shm_id = ''''\<rparr>) [0..<MAX_SHM_ID])"

definition jack_shm_validate_registry :: "jack_shm_header_t \<Rightarrow> int" where
  "jack_shm_validate_registry h =
     (if magic h = JACK_SHM_MAGIC \<and> protocol h = jack_protocol_version \<and> shm_type h = shm_POSIX
         \<and> total_size h = JACK_SHM_REGISTRY_SIZE \<and> hdr_len h = sizeof_header \<and> entry_len h = sizeof_entry
      then 0 else -1)"

text \<open>The registry as process \<open>p\<close> sees it; \<open>None\<close> when the pointer is \<open>NULL\<close> or leads elsewhere.\<close>

definition registry_of :: "machine \<Rightarrow> int \<Rightarrow> (nat \<times> jack_shm_header_t \<times> jack_shm_registry_t list) option" where
  "registry_of s p =
     (case processes s p of
        None \<Rightarrow> None
      | Some pr \<Rightarrow>
          (case jack_shm_header pr of
             None \<Rightarrow> None
           | Some obj \<Rightarrow> (case shm_objects s obj of Registry h r \<Rightarrow> Some (obj, h, r) | Segment n \<Rightarrow> None)))"

definition put_registry :: "nat \<Rightarrow> jack_shm_header_t \<Rightarrow> jack_shm_registry_t list \<Rightarrow> machine \<Rightarrow> machine" where
  "put_registry obj h r s = s\<lparr>shm_objects := (shm_objects s)(obj := Registry h r)\<rparr>"

text \<open>\<open>%d\<close> of a number that may be negative, and the prefix of a server: user and name, cut by \<open>snprintf\<close>.\<close>

definition print_int :: "int \<Rightarrow> string" where
  "print_int n = (if n < 0 then CHR ''-'' # decimal (nat (- n)) else decimal (nat n))"

definition jack_set_server_prefix :: "int \<Rightarrow> string \<Rightarrow> string" where
  "jack_set_server_prefix u name =
     take (JACK_SERVER_NAME_SIZE - 1) (''/jack-'' @ print_int u @ '':'' @ name @ '':'')"

definition registry_name :: string where "registry_name = ''/jack-shm-registry''"

definition jack_remove_shm :: "string \<Rightarrow> machine \<Rightarrow> machine" where
  "jack_remove_shm name s = s\<lparr>shm_names := (shm_names s)(name := None)\<rparr>"

definition map_registry :: "int \<Rightarrow> nat \<Rightarrow> machine \<Rightarrow> machine" where
  "map_registry p obj s = upd_process p (\<lambda>pr. pr\<lparr>jack_shm_header := Some obj\<rparr>) s"

definition jack_access_registry :: "shm_os \<Rightarrow> int \<Rightarrow> machine \<Rightarrow> machine \<times> int" where
  "jack_access_registry sys p s =
     (case shm_names s registry_name of
        None \<Rightarrow> (s, ENOENT)
      | Some obj \<Rightarrow>
          if os_open sys \<noteq> 0 then (s, os_open sys)
          else if \<not> os_mmap sys then (s, EINVAL)
          else (map_registry p obj s, 0))"

text \<open>\<open>shm_open\<close> with \<open>O_CREAT\<close>: an object that has the name already is opened.\<close>

definition open_create :: "string \<Rightarrow> machine \<Rightarrow> machine \<times> nat" where
  "open_create name s =
     (case shm_names s name of
        Some obj \<Rightarrow> (s, obj)
      | None \<Rightarrow> (s\<lparr>shm_names := (shm_names s)(name := Some (shm_next s)),
                   shm_objects := (shm_objects s)(shm_next s := Segment 0),
                   shm_next := Suc (shm_next s)\<rparr>, shm_next s))"

definition jack_create_registry :: "shm_os \<Rightarrow> int \<Rightarrow> machine \<Rightarrow> machine \<times> int" where
  "jack_create_registry sys p s =
     (if os_open sys \<noteq> 0 then (s, os_open sys)
      else
        (case open_create registry_name s of (s1, obj) \<Rightarrow>
           if os_ftruncate sys \<noteq> 0 then (jack_remove_shm registry_name s1, os_ftruncate sys)
           else if \<not> os_mmap sys then (jack_remove_shm registry_name s1, EINVAL)
           else
             (let s2 = map_registry p obj s1
              in (s2\<lparr>shm_objects := (shm_objects s2)(obj := jack_shm_init_registry)\<rparr>, 0))))"

text \<open>
  A registry that was made by another version is released before it is replaced; \<open>jack_release_shm\<close>
  then takes the size of entry \<open>-2\<close> of the registry, from memory in front of the array, as the length to
  unmap. The two parameters \<open>sys1\<close> and \<open>sys2\<close> are the answers while opening and while creating.
\<close>

definition server_init_switch :: "shm_os \<Rightarrow> int \<Rightarrow> machine \<Rightarrow> int \<Rightarrow> int shm_result" where
  "server_init_switch sys2 p s rc =
     (if rc = ENOENT then (case jack_create_registry sys2 p s of (s1, rc1) \<Rightarrow> Returns s1 rc1)
      else if rc = 0 then
        (case registry_of s p of
           None \<Rightarrow> Crashes
         | Some (obj, h, r) \<Rightarrow> if jack_shm_validate_registry h = 0 then Returns s 0 else Crashes)
      else if rc = EINVAL then
        (case jack_create_registry sys2 p (jack_remove_shm registry_name s) of (s1, rc1) \<Rightarrow> Returns s1 rc1)
      else Returns s rc)"

definition jack_server_initialize_shm :: "shm_os \<Rightarrow> shm_os \<Rightarrow> int \<Rightarrow> bool \<Rightarrow> machine \<Rightarrow> int shm_result" where
  "jack_server_initialize_shm sys1 sys2 p new_registry s =
     (case processes s p of
        None \<Rightarrow> Crashes
      | Some pr \<Rightarrow>
          if jack_shm_header pr \<noteq> None then Returns s 0
          else
            shm_bind (jack_shm_lock_registry p s) (\<lambda>s1 _.
              case jack_access_registry sys1 p s1 of (s2, rc) \<Rightarrow>
                let (s3, rc3) = (if new_registry then (jack_remove_shm registry_name s2, ENOENT) else (s2, rc))
                in shm_bind (server_init_switch sys2 p s3 rc3) (\<lambda>s4 rc4.
                     Returns (jack_shm_unlock_registry s4) rc4)))"

text \<open>The client's side. The pointer to the registry stays set when the registry is not acceptable.\<close>

definition set_prefix :: "int \<Rightarrow> string \<Rightarrow> machine \<Rightarrow> machine" where
  "set_prefix p name s =
     upd_process p (\<lambda>pr. pr\<lparr>jack_shm_server_prefix := jack_set_server_prefix (uid pr) name\<rparr>) s"

definition jack_initialize_shm :: "shm_os \<Rightarrow> int \<Rightarrow> string \<Rightarrow> machine \<Rightarrow> int shm_result" where
  "jack_initialize_shm sys p name s =
     (case processes s p of
        None \<Rightarrow> Crashes
      | Some pr \<Rightarrow>
          if jack_shm_header pr \<noteq> None then Returns s 0
          else
            shm_bind (jack_shm_lock_registry p (set_prefix p name s)) (\<lambda>s1 _.
              case jack_access_registry sys p s1 of (s2, rc) \<Rightarrow>
                if rc \<noteq> 0 then Returns (jack_shm_unlock_registry s2) rc
                else
                  (case registry_of s2 p of
                     None \<Rightarrow> Crashes
                   | Some (obj, h, r) \<Rightarrow> Returns (jack_shm_unlock_registry s2) (jack_shm_validate_registry h))))"

section \<open>Server names\<close>

text \<open>\<open>kill (q, 0)\<close> by process \<open>p\<close>: whether \<open>q\<close> exists and may be signalled.\<close>

definition kill_ok :: "machine \<Rightarrow> int \<Rightarrow> int \<Rightarrow> bool" where
  "kill_ok s p q =
     (case (processes s p, processes s q) of
        (Some a, Some b) \<Rightarrow> uid a = 0 \<or> uid a = uid b
      | _ \<Rightarrow> False)"

text \<open>
  The first loop of \<open>jack_register_server\<close>: entries of the name whose process is gone are
  cleared; \<open>Some rc\<close> is a return from inside the loop.
\<close>

fun claim_scan :: "(int \<Rightarrow> bool) \<Rightarrow> int \<Rightarrow> string \<Rightarrow> jack_shm_server_t list \<Rightarrow> jack_shm_server_t list \<times> int option" where
  "claim_scan alive me prefix [] = ([], None)"
| "claim_scan alive me prefix (v # vs) =
     (if server_name v \<noteq> prefix then
        (case claim_scan alive me prefix vs of (vs', rc) \<Rightarrow> (v # vs', rc))
      else if server_pid v = me then (v # vs, Some 0)
      else if alive (server_pid v) then (v # vs, Some EEXIST)
      else (case claim_scan alive me prefix vs of (vs', rc) \<Rightarrow> (no_server # vs', rc)))"

fun free_server :: "jack_shm_server_t list \<Rightarrow> nat \<Rightarrow> nat option" where
  "free_server [] i = None"
| "free_server (v # vs) i = (if server_pid v = 0 then Some i else free_server vs (Suc i))"

text \<open>The second half of \<open>jack_register_server\<close>. The early returns leave the registry locked.\<close>

definition claim_server :: "int \<Rightarrow> machine \<Rightarrow> int shm_result" where
  "claim_server p s =
     shm_bind (jack_shm_lock_registry p s) (\<lambda>s1 _.
       case (processes s1 p, registry_of s1 p) of
         (Some pr, Some (obj, h, r)) \<Rightarrow>
           (case claim_scan (kill_ok s1 p) p (jack_shm_server_prefix pr) (server h) of
              (vs, Some rc) \<Rightarrow> Returns (put_registry obj (h\<lparr>server := vs\<rparr>) r s1) rc
            | (vs, None) \<Rightarrow>
                (case free_server vs 0 of
                   None \<Rightarrow> Returns (put_registry obj (h\<lparr>server := vs\<rparr>) r s1) ENOSPC
                 | Some i \<Rightarrow>
                     Returns (jack_shm_unlock_registry
                       (put_registry obj (h\<lparr>server := vs[i := \<lparr>server_pid = p, server_name = jack_shm_server_prefix pr\<rparr>]\<rparr>) r s1)) 0))
       | _ \<Rightarrow> Crashes)"

definition jack_register_server :: "shm_os \<Rightarrow> shm_os \<Rightarrow> int \<Rightarrow> string \<Rightarrow> bool \<Rightarrow> machine \<Rightarrow> int shm_result" where
  "jack_register_server sys1 sys2 p name new_registry s =
     shm_bind (jack_server_initialize_shm sys1 sys2 p new_registry (set_prefix p name s)) (\<lambda>s1 rc.
       if rc \<noteq> 0 then Returns s1 ENOMEM else claim_server p s1)"

definition jack_unregister_server :: "int \<Rightarrow> machine \<Rightarrow> unit shm_result" where
  "jack_unregister_server p s =
     shm_bind (jack_shm_lock_registry p s) (\<lambda>s1 _.
       case registry_of s1 p of
         None \<Rightarrow> Crashes
       | Some (obj, h, r) \<Rightarrow>
           Returns (jack_shm_unlock_registry
             (put_registry obj (h\<lparr>server := map (\<lambda>v. if server_pid v = p then no_server else v) (server h)\<rparr>) r s1)) ())"

section \<open>Segments\<close>

definition release_entry :: "jack_shm_registry_t \<Rightarrow> jack_shm_registry_t" where
  "release_entry x = x\<lparr>shm_size := 0, allocator := 0, shm_id := ''''\<rparr>"

definition jack_release_shm_entry :: "nat \<Rightarrow> jack_shm_registry_t list \<Rightarrow> jack_shm_registry_t list" where
  "jack_release_shm_entry i r = r[i := release_entry (r ! i)]"

fun jack_get_free_shm_info :: "jack_shm_registry_t list \<Rightarrow> nat \<Rightarrow> nat option" where
  "jack_get_free_shm_info [] i = None"
| "jack_get_free_shm_info (x # xs) i = (if shm_size x = 0 then Some i else jack_get_free_shm_info xs (Suc i))"

definition jack_release_shm_info :: "int \<Rightarrow> int \<Rightarrow> machine \<Rightarrow> unit shm_result" where
  "jack_release_shm_info p idx s =
     (case registry_of s p of
        None \<Rightarrow> Crashes
      | Some (obj, h, r) \<Rightarrow>
          if idx < 0 \<or> int (length r) \<le> idx then Crashes
          else if allocator (r ! nat idx) \<noteq> p then Returns s ()
          else
            shm_bind (jack_shm_lock_registry p s) (\<lambda>s1 _.
              Returns (jack_shm_unlock_registry (put_registry obj h (jack_release_shm_entry (nat idx) r) s1)) ()))"

definition jack_destroy_shm :: "int \<Rightarrow> jack_shm_info_t \<Rightarrow> machine \<Rightarrow> unit shm_result" where
  "jack_destroy_shm p si s =
     (if info_index si = JACK_SHM_NULL_INDEX then Returns s ()
      else
        (case registry_of s p of
           None \<Rightarrow> Crashes
         | Some (obj, h, r) \<Rightarrow>
             if info_index si < 0 \<or> int (length r) \<le> info_index si then Crashes
             else jack_release_shm_info p (info_index si) (jack_remove_shm (shm_id (r ! nat (info_index si))) s)))"

text \<open>
  One round of the loop in \<open>jack_cleanup_shm\<close>. The address that \<open>jack_release_shm\<close> unmaps there is not the
  one of a mapping: \<open>copy\<close> is filled from a registry entry, whose size and first letters of the name
  land in \<open>attached_at\<close>, an address no mapping has. The call fails and changes nothing.
\<close>

definition cleanup_entry :: "int \<Rightarrow> nat \<Rightarrow> machine \<times> jack_shm_registry_t list \<Rightarrow> machine \<times> jack_shm_registry_t list" where
  "cleanup_entry p i sr =
     (case sr of (s, r) \<Rightarrow>
        let x = r ! i
        in if allocator x = 0 \<or> (allocator x \<noteq> p \<and> processes s (allocator x) \<noteq> None) then (s, r)
           else
             (let (s1, r1) =
                (if 0 \<le> shm_index x \<and> shm_index x < int MAX_SHM_ID
                 then (jack_remove_shm (shm_id (r ! nat (shm_index x))) s, jack_release_shm_entry (nat (shm_index x)) r)
                 else (s, r))
              in (s1, r1[i := (r1 ! i)\<lparr>shm_size := 0, allocator := 0\<rparr>])))"

definition jack_cleanup_shm :: "int \<Rightarrow> machine \<Rightarrow> unit shm_result" where
  "jack_cleanup_shm p s =
     shm_bind (jack_shm_lock_registry p s) (\<lambda>s1 _.
       case registry_of s1 p of
         None \<Rightarrow> Crashes
       | Some (obj, h, r) \<Rightarrow>
           (case fold (cleanup_entry p) [0..<MAX_SHM_ID] (s1, r) of (s2, r2) \<Rightarrow>
              Returns (jack_shm_unlock_registry (put_registry obj h r2 s2)) ()))"

definition segment_name :: "int \<Rightarrow> string" where
  "segment_name i = ''/jack-'' @ print_int i"

text \<open>A new segment; the name fits into an identifier whatever the index.\<close>

definition jack_shmalloc :: "shm_os \<Rightarrow> int \<Rightarrow> int \<Rightarrow> machine \<Rightarrow> (int \<times> jack_shm_info_t option) shm_result" where
  "jack_shmalloc sys p bytes s =
     shm_bind (jack_shm_lock_registry p s) (\<lambda>s1 _.
       case registry_of s1 p of
         None \<Rightarrow> Crashes
       | Some (obj, h, r) \<Rightarrow>
           (case jack_get_free_shm_info r 0 of
              None \<Rightarrow> Returns (jack_shm_unlock_registry s1) (-1, None)
            | Some i \<Rightarrow>
                (let name = segment_name (shm_index (r ! i))
                 in if os_open sys \<noteq> 0 then Returns (jack_shm_unlock_registry s1) (-1, None)
                    else
                      (case open_create name s1 of (s2, seg) \<Rightarrow>
                         if os_ftruncate sys \<noteq> 0 then Returns (jack_shm_unlock_registry s2) (-1, None)
                         else
                           (let s3 = s2\<lparr>shm_objects := (shm_objects s2)(seg := Segment bytes)\<rparr>;
                                r3 = r[i := (r ! i)\<lparr>shm_size := bytes, shm_id := name, allocator := p\<rparr>]
                            in Returns (jack_shm_unlock_registry (put_registry obj h r3 s3))
                                 (0, Some \<lparr>info_index = shm_index (r ! i), attached_at = None\<rparr>))))))"

definition jack_attach_shm :: "shm_os \<Rightarrow> int \<Rightarrow> jack_shm_info_t \<Rightarrow> machine \<Rightarrow> (int \<times> jack_shm_info_t) shm_result" where
  "jack_attach_shm sys p si s =
     (case registry_of s p of
        None \<Rightarrow> Crashes
      | Some (obj, h, r) \<Rightarrow>
          if info_index si < 0 \<or> int (length r) \<le> info_index si then Crashes
          else
            (case shm_names s (shm_id (r ! nat (info_index si))) of
               None \<Rightarrow> Returns s (-1, si)
             | Some seg \<Rightarrow>
                 if os_open sys \<noteq> 0 then Returns s (-1, si)
                 else if \<not> os_mmap sys then Returns s (-1, si\<lparr>attached_at := None\<rparr>)
                 else Returns s (0, si\<lparr>attached_at := Some seg\<rparr>)))"

definition jack_resize_shm :: "shm_os \<Rightarrow> shm_os \<Rightarrow> int \<Rightarrow> jack_shm_info_t \<Rightarrow> int \<Rightarrow> machine \<Rightarrow> (int \<times> jack_shm_info_t) shm_result" where
  "jack_resize_shm sys1 sys2 p si bytes s =
     shm_bind (jack_destroy_shm p si s) (\<lambda>s1 _.
       shm_bind (jack_shmalloc sys1 p bytes s1) (\<lambda>s2 (rc, si2).
         case si2 of
           None \<Rightarrow> Returns s2 (-1, si)
         | Some si3 \<Rightarrow> jack_attach_shm sys2 p si3 s2))"

end
