(* ===== verification/Shm_Inv.thy ===== *)
theory Shm_Inv
  imports Shm
begin

text \<open>
  The invariant of the registry of shared memory, and the steps the processes of a machine can make.
  Every step is one section of the code that the semaphore protects, or one system call outside of
  it, so that all interleavings of several processes are covered.
\<close>

section \<open>Numbers and names\<close>

lemma decimal_digits: "c \<in> set (decimal n) \<Longrightarrow> 48 \<le> (of_char c :: nat) \<and> (of_char c :: nat) < 58"
proof (induction n rule: decimal.induct)
  case (1 n)
  have d: "of_char (char_of (48 + k) :: char) = 48 + (k :: nat)" if "k < 10" for k using that by simp
  show ?case
  proof (cases "n < 10")
    case True
    then show ?thesis using 1(2) d [of n] by (simp add: decimal.simps [of n] del: of_char_of)
  next
    case False
    then have "c \<in> set (decimal (n div 10)) \<or> c = char_of (48 + n mod 10)"
      using 1(2) by (auto simp: decimal.simps [of n])
    then show ?thesis using 1(1) [OF False] d [of "n mod 10"] by (auto simp del: of_char_of)
  qed
qed

lemma decimal_not [simp]: "CHR '':'' \<notin> set (decimal n)" "CHR ''-'' \<notin> set (decimal n)" "CHR ''s'' \<notin> set (decimal n)"
  using decimal_digits [of "CHR '':''" n] decimal_digits [of "CHR ''-''" n] decimal_digits [of "CHR ''s''" n] by auto

lemma length_decimal: "n < 10 ^ k \<Longrightarrow> 0 < k \<Longrightarrow> length (decimal n) \<le> k"
proof (induction n arbitrary: k rule: decimal.induct)
  case (1 n)
  show ?case
  proof (cases "n < 10")
    case True
    then show ?thesis using 1 by (simp add: decimal.simps [of n])
  next
    case False
    obtain j where j: "k = Suc j" using 1(3) by (cases k) auto
    have "0 < j" using 1(2) False j by (cases j) auto
    note k = j this
    then have "n div 10 < 10 ^ j" using 1(2) by (simp add: less_mult_imp_div_less mult.commute)
    then show ?thesis using 1(1) [OF False _ k(2)] False k by (simp add: decimal.simps [of n])
  qed
qed

lemma print_int_inject [simp]: "print_int a = print_int b \<longleftrightarrow> a = b"
proof
  assume e: "print_int a = print_int b"
  have n: "decimal n \<noteq> CHR ''-'' # xs" for n xs using decimal_not(2) [of n] by (metis list.set_intros(1))
  show "a = b" using e n n [symmetric] by (auto simp: print_int_def split: if_splits)
qed simp

lemma print_int_no_colon [simp]: "CHR '':'' \<notin> set (print_int n)"
  by (simp add: print_int_def)

definition uid_ok :: "int \<Rightarrow> bool" where
  "uid_ok u \<longleftrightarrow> - (2 ^ 31) \<le> u \<and> u < 2 ^ 31"

lemma length_print_int: "uid_ok u \<Longrightarrow> length (print_int u) \<le> 11"
proof -
  assume "uid_ok u"
  then have "nat u < 10 ^ 10" "nat (- u) < 10 ^ 10" by (auto simp: uid_ok_def)
  from this [THEN length_decimal] show ?thesis by (simp add: print_int_def)
qed

text \<open>Two users never have the same prefix.\<close>

lemma prefix_uid:
  assumes "uid_ok a" "uid_ok b" "jack_set_server_prefix a m = jack_set_server_prefix b n"
  shows "a = b"
proof -
  have tw: "takeWhile (\<lambda>c. c \<noteq> CHR '':'') (drop 6 (jack_set_server_prefix u k)) = print_int u" if "uid_ok u" for u k
  proof -
    have l: "length (print_int u) \<le> 11" by (rule length_print_int [OF that])
    have "drop 6 (jack_set_server_prefix u k) = print_int u @ CHR '':'' # take (248 - length (print_int u)) (k @ '':'')"
      using l by (simp add: jack_set_server_prefix_def JACK_SERVER_NAME_SIZE_def take_Cons')
    then show ?thesis by (simp add: takeWhile_append)
  qed
  from assms(3) tw [OF assms(1), of m] tw [OF assms(2), of n] have "print_int a = print_int b" by simp
  then show ?thesis by simp
qed

lemma prefix_nonempty [simp]: "jack_set_server_prefix u n \<noteq> ''''"
  by (simp add: jack_set_server_prefix_def JACK_SERVER_NAME_SIZE_def)

lemma segment_name_inject [simp]: "segment_name a = segment_name b \<longleftrightarrow> a = b"
  by (simp add: segment_name_def)

lemma segment_not_registry [simp]: "segment_name (int i) \<noteq> registry_name" "registry_name \<noteq> segment_name (int i)"
proof -
  have "CHR ''s'' \<in> set ''shm-registry''" by simp
  then have "decimal i \<noteq> ''shm-registry''" by (metis decimal_not(3))
  then show "segment_name (int i) \<noteq> registry_name" by (simp add: segment_name_def registry_name_def print_int_def)
  then show "registry_name \<noteq> segment_name (int i)" by metis
qed

lemma names_not_empty [simp]: "segment_name i \<noteq> ''''" "registry_name \<noteq> ''''" "'''' \<noteq> registry_name"
  by (simp_all add: segment_name_def registry_name_def)

section \<open>The invariant\<close>

definition names_ok :: "jack_shm_server_t list \<Rightarrow> bool" where
  "names_ok vs \<longleftrightarrow>
     (\<forall>v \<in> set vs. 0 \<le> server_pid v \<and> (server_pid v = 0 \<longleftrightarrow> server_name v = '''')) \<and>
     distinct (filter (\<lambda>n. n \<noteq> '''') (map server_name vs))"

definition entry_ok :: "nat \<Rightarrow> jack_shm_registry_t \<Rightarrow> bool" where
  "entry_ok i x \<longleftrightarrow> shm_index x = int i \<and>
     (if shm_size x = 0 then allocator x = 0 \<and> shm_id x = ''''
      else 0 < allocator x \<and> shm_id x = segment_name (int i))"

definition reg_ok :: "jack_shm_header_t \<Rightarrow> jack_shm_registry_t list \<Rightarrow> bool" where
  "reg_ok h r \<longleftrightarrow> jack_shm_validate_registry h = 0 \<and> length (server h) = MAX_SERVERS \<and> names_ok (server h) \<and>
     length r = MAX_SHM_ID \<and> (\<forall>i < MAX_SHM_ID. entry_ok i (r ! i))"

definition process_ok :: "machine \<Rightarrow> int \<Rightarrow> shm_process \<Rightarrow> bool" where
  "process_ok s p pr \<longleftrightarrow> 0 < p \<and> uid_ok (uid pr) \<and>
     (jack_shm_server_prefix pr = '''' \<or> (\<exists>n. jack_shm_server_prefix pr = jack_set_server_prefix (uid pr) n)) \<and>
     (\<forall>x. jack_shm_header pr = Some x \<longrightarrow> shm_names s registry_name = Some x \<and> jack_shm_server_prefix pr \<noteq> '''')"

definition machine_ok :: "machine \<Rightarrow> bool" where
  "machine_ok s \<longleftrightarrow>
     (\<forall>p pr. processes s p = Some pr \<longrightarrow> process_ok s p pr) \<and>
     (\<forall>x. shm_names s registry_name = Some x \<longrightarrow> (\<exists>h r. shm_objects s x = Registry h r \<and> reg_ok h r)) \<and>
     (\<forall>n x. shm_names s n = Some x \<longrightarrow> x < shm_next s) \<and>
     (\<forall>m n x. shm_names s m = Some x \<longrightarrow> shm_names s n = Some x \<longrightarrow> m = n)"

text \<open>No segment is left behind: every segment that has a name is entered in the registry.\<close>

definition tidy_ok :: "machine \<Rightarrow> bool" where
  "tidy_ok s \<longleftrightarrow> (\<forall>i < MAX_SHM_ID. shm_names s (segment_name (int i)) \<noteq> None \<longrightarrow>
     (\<exists>x h r. shm_names s registry_name = Some x \<and> shm_objects s x = Registry h r \<and> shm_size (r ! i) \<noteq> 0))"

section \<open>Steps\<close>

definition new_process :: "int \<Rightarrow> shm_process" where
  "new_process u = \<lparr>uid = u, jack_shm_header = None, jack_shm_server_prefix = ''''\<rparr>"

definition end_process :: "int \<Rightarrow> machine \<Rightarrow> machine" where
  "end_process p s = s\<lparr>processes := (processes s)(p := None),
     sem_holder := (if sem_holder s = Some p then None else sem_holder s)\<rparr>"

definition booted :: machine where
  "booted = \<lparr>shm_names = Map.empty, shm_objects = (\<lambda>_. Segment 0), shm_next = 0, sem_holder = None, processes = Map.empty\<rparr>"

datatype shm_action = Ends int | Unregisters int | Acts

text \<open>
  A server never replaces the registry (\<open>new_registry\<close> is off), and opening an existing registry does not
  fail with \<open>EINVAL\<close>, which the code takes for a registry of another version. With \<open>tidy\<close>, \<open>ftruncate\<close>
  does not fail, and an entry is released after its segment, as \<open>jack_destroy_shm\<close> does.
\<close>

definition readable :: "shm_os \<Rightarrow> bool" where
  "readable sys \<longleftrightarrow> os_mmap sys \<and> os_open sys \<noteq> EINVAL \<and> os_open sys \<noteq> ENOENT"

inductive shm_step :: "bool \<Rightarrow> shm_action \<Rightarrow> machine \<Rightarrow> machine \<Rightarrow> bool" for tidy where
  start: "processes s p = None \<Longrightarrow> 0 < p \<Longrightarrow> uid_ok u \<Longrightarrow>
    shm_step tidy Acts s (s\<lparr>processes := (processes s)(p \<mapsto> new_process u)\<rparr>)"
| fork: "processes s p = Some pr \<Longrightarrow> processes s q = None \<Longrightarrow> 0 < q \<Longrightarrow>
    shm_step tidy Acts s (s\<lparr>processes := (processes s)(q \<mapsto> pr)\<rparr>)"
| ends: "processes s p = Some pr \<Longrightarrow> shm_step tidy (Ends p) s (end_process p s)"
| server_init: "readable sys1 \<Longrightarrow> jack_server_initialize_shm sys1 sys2 p False (set_prefix p name s) = Returns s' rc \<Longrightarrow>
    shm_step tidy Acts s s'"
| client_init: "jack_initialize_shm sys p name s = Returns s' rc \<Longrightarrow> shm_step tidy Acts s s'"
| claim: "claim_server p s = Returns s' rc \<Longrightarrow> shm_step tidy Acts s s'"
| unregister: "jack_unregister_server p s = Returns s' rc \<Longrightarrow> shm_step tidy (Unregisters p) s s'"
| cleanup: "jack_cleanup_shm p s = Returns s' rc \<Longrightarrow> shm_step tidy Acts s s'"
| alloc: "0 < bytes \<Longrightarrow> (tidy \<longrightarrow> os_ftruncate sys = 0) \<Longrightarrow> jack_shmalloc sys p bytes s = Returns s' res \<Longrightarrow>
    shm_step tidy Acts s s'"
| destroy: "jack_destroy_shm p si s = Returns s' rc \<Longrightarrow> shm_step tidy Acts s s'"
| remove: "registry_of s p = Some (obj, h, r) \<Longrightarrow> i < length r \<Longrightarrow>
    shm_step tidy Acts s (jack_remove_shm (shm_id (r ! i)) s)"
| release: "(tidy \<longrightarrow> (\<forall>obj h r. registry_of s p = Some (obj, h, r) \<longrightarrow> shm_names s (shm_id (r ! nat i)) = None)) \<Longrightarrow>
    jack_release_shm_info p i s = Returns s' rc \<Longrightarrow> shm_step tidy Acts s s'"

inductive reachable :: "bool \<Rightarrow> machine \<Rightarrow> bool" for tidy where
  boot: "reachable tidy booted"
| step: "reachable tidy s \<Longrightarrow> shm_step tidy a s s' \<Longrightarrow> reachable tidy s'"

section \<open>Each operation keeps the invariant\<close>

lemma shm_bind_Returns: "shm_bind m f = Returns s x \<longleftrightarrow> (\<exists>s1 y. m = Returns s1 y \<and> f s1 y = Returns s x)"
  by (cases m) auto

lemma lock_Returns: "jack_shm_lock_registry p s = Returns s1 y \<longleftrightarrow> sem_holder s = None \<and> s1 = s\<lparr>sem_holder := Some p\<rparr>"
  by (auto simp: jack_shm_lock_registry_def)

lemmas returns_simps = shm_bind_Returns lock_Returns jack_shm_unlock_registry_def

lemma sem_irrelevant [simp]:
  "machine_ok (s\<lparr>sem_holder := v\<rparr>) = machine_ok s"
  "tidy_ok (s\<lparr>sem_holder := v\<rparr>) = tidy_ok s"
  "registry_of (s\<lparr>sem_holder := v\<rparr>) p = registry_of s p"
  by (simp_all add: machine_ok_def process_ok_def tidy_ok_def registry_of_def split: option.split)

lemma registry_ofD:
  assumes "machine_ok s" "registry_of s p = Some (obj, h, r)"
  shows "shm_names s registry_name = Some obj" "shm_objects s obj = Registry h r" "reg_ok h r"
    "\<exists>pr. processes s p = Some pr \<and> jack_shm_header pr = Some obj"
proof -
  obtain pr where pr: "processes s p = Some pr" "jack_shm_header pr = Some obj" and o: "shm_objects s obj = Registry h r"
    using assms(2) by (auto simp: registry_of_def split: option.splits shm_object.splits)
  then show "shm_names s registry_name = Some obj" "shm_objects s obj = Registry h r"
    "\<exists>pr. processes s p = Some pr \<and> jack_shm_header pr = Some obj"
    using assms(1) by (auto simp: machine_ok_def process_ok_def)
  then show "reg_ok h r" using assms(1) by (auto simp: machine_ok_def)
qed

lemma machine_ok_put:
  assumes "machine_ok s" "shm_names s registry_name = Some obj" "reg_ok h r"
  shows "machine_ok (put_registry obj h r s)"
  using assms by (auto simp: machine_ok_def process_ok_def put_registry_def)

lemma tidy_ok_put:
  assumes "tidy_ok s" "shm_names s registry_name = Some obj" "shm_objects s obj = Registry h r"
    and "\<And>i. i < MAX_SHM_ID \<Longrightarrow> shm_names s (segment_name (int i)) \<noteq> None \<Longrightarrow> shm_size (r ! i) \<noteq> 0 \<Longrightarrow> shm_size (r' ! i) \<noteq> 0"
  shows "tidy_ok (put_registry obj h' r' s)"
  using assms by (fastforce simp: tidy_ok_def put_registry_def)

lemma machine_ok_remove: "machine_ok s \<Longrightarrow> n \<noteq> registry_name \<Longrightarrow> machine_ok (jack_remove_shm n s)"
  by (auto simp: machine_ok_def process_ok_def jack_remove_shm_def)

lemma tidy_ok_remove: "tidy_ok s \<Longrightarrow> n \<noteq> registry_name \<Longrightarrow> tidy_ok (jack_remove_shm n s)"
  by (auto simp: tidy_ok_def jack_remove_shm_def)

lemma machine_ok_set_prefix: "machine_ok s \<Longrightarrow> machine_ok (set_prefix p name s)"
  by (auto simp: machine_ok_def process_ok_def set_prefix_def upd_process_def)

lemma tidy_ok_processes [simp]: "tidy_ok (s\<lparr>processes := v\<rparr>) = tidy_ok s"
  by (simp add: tidy_ok_def)

lemma tidy_ok_upd_process [simp]: "tidy_ok (upd_process p f s) = tidy_ok s"
  by (simp add: upd_process_def)

lemma machine_ok_map:
  assumes "machine_ok s" "shm_names s registry_name = Some obj" "\<And>pr. processes s p = Some pr \<Longrightarrow> jack_shm_server_prefix pr \<noteq> ''''"
  shows "machine_ok (map_registry p obj s)"
  using assms by (fastforce simp: machine_ok_def process_ok_def map_registry_def upd_process_def)

subsection \<open>Server names\<close>

lemma claim_scan_sub:
  "claim_scan alive me prefix vs = (vs', rc) \<Longrightarrow> names_ok vs \<Longrightarrow>
   length vs' = length vs \<and> names_ok vs' \<and> set (map server_name vs') \<subseteq> insert '''' (set (map server_name vs))"
proof (induction vs arbitrary: vs' rc)
  case (Cons v vs)
  have n: "names_ok vs" using Cons.prems(2) by (auto simp: names_ok_def split: if_splits)
  obtain ws rw where w: "claim_scan alive me prefix vs = (ws, rw)" by fastforce
  note ih = Cons.IH [OF w n]
  consider "vs' = v # vs" | "vs' = v # ws" | "vs' = no_server # ws"
    using Cons.prems(1) w by (auto split: if_splits)
  then show ?case
  proof cases
    case 1
    then show ?thesis using Cons.prems(2) by auto
  next
    case 2
    have "server_name v \<noteq> '''' \<Longrightarrow> server_name v \<notin> server_name ` set vs" using Cons.prems(2) by (auto simp: names_ok_def)
    then show ?thesis using 2 ih Cons.prems(2) by (auto simp: names_ok_def)
  next
    case 3
    then show ?thesis using ih by (auto simp: names_ok_def no_server_def)
  qed
qed simp

lemma claim_scan_None:
  "claim_scan alive me prefix vs = (vs', None) \<Longrightarrow> prefix \<noteq> '''' \<Longrightarrow> prefix \<notin> server_name ` set vs'"
  by (induction vs arbitrary: vs') (auto simp: no_server_def split: if_splits prod.splits)

lemma claim_scan_keeps:
  "claim_scan alive me prefix vs = (vs', rc) \<Longrightarrow> v \<in> set vs \<Longrightarrow>
   (server_name v = prefix \<Longrightarrow> server_pid v = me \<or> alive (server_pid v)) \<Longrightarrow> v \<in> set vs'"
  by (induction vs arbitrary: vs' rc) (auto split: if_splits prod.splits)

lemma claim_scan_Some:
  "claim_scan alive me prefix vs = (vs', Some rc) \<Longrightarrow>
   \<exists>v \<in> set vs'. v \<in> set vs \<and> server_name v = prefix \<and>
     (if server_pid v = me then rc = 0 else rc = EEXIST \<and> alive (server_pid v))"
  by (induction vs arbitrary: vs') (auto split: if_splits prod.splits)

lemma free_server_Some:
  "free_server vs i = Some j \<Longrightarrow> i \<le> j \<and> j < i + length vs \<and> server_pid (vs ! (j - i)) = 0"
proof (induction vs i rule: free_server.induct)
  case (2 v vs i)
  then show ?case by (cases "server_pid v = 0") (auto simp: nth_Cons' Suc_le_eq)
qed simp

lemma free_server_None: "free_server vs i = None \<Longrightarrow> v \<in> set vs \<Longrightarrow> server_pid v \<noteq> 0"
  by (induction vs i rule: free_server.induct) (auto split: if_splits)

lemma names_ok_claim:
  assumes "names_ok vs" "j < length vs" "server_pid (vs ! j) = 0" "n \<noteq> ''''" "n \<notin> server_name ` set vs" "0 < p"
  shows "names_ok (vs[j := \<lparr>server_pid = p, server_name = n\<rparr>])"
proof -
  define a b where "a = take j vs" and "b = drop (Suc j) vs"
  have vs: "vs = a @ vs ! j # b" using assms(2) by (simp add: a_def b_def id_take_nth_drop)
  have u: "vs[j := w] = a @ w # b" for w using assms(2) by (simp add: a_def b_def upd_conv_take_nth_drop)
  obtain v where v: "v = vs ! j" by simp
  have ok: "names_ok (a @ v # b)" using assms(1) vs v by simp
  have n: "n \<notin> server_name ` (set a \<union> set b)" 
    using assms(5) set_take_subset [of j vs] set_drop_subset [of "Suc j" vs] by (auto simp: a_def b_def)
  have "server_name v = []" using ok assms(3) v by (simp add: names_ok_def)
  then have "distinct (filter (\<lambda>n. n \<noteq> []) (map server_name a) @ filter (\<lambda>n. n \<noteq> []) (map server_name b))"
    using ok by (simp add: names_ok_def)
  then have "distinct (filter (\<lambda>n. n \<noteq> []) (map server_name a) @ n # filter (\<lambda>n. n \<noteq> []) (map server_name b))"
    using n by (simp add: image_Un)
  then show ?thesis unfolding u using ok assms(4,6) by (simp add: names_ok_def)
qed

lemma names_ok_Cons:
  "names_ok (v # vs) \<longleftrightarrow> 0 \<le> server_pid v \<and> (server_pid v = 0 \<longleftrightarrow> server_name v = []) \<and>
     (server_name v \<noteq> [] \<longrightarrow> server_name v \<notin> server_name ` set vs) \<and> names_ok vs"
  by (simp add: names_ok_def) blast

lemma names_ok_clear: "names_ok vs \<Longrightarrow> names_ok (map (\<lambda>v. if server_pid v = p then no_server else v) vs)"
proof (induction vs)
  case (Cons v vs)
  have "server_name ` set (map (\<lambda>v. if server_pid v = p then no_server else v) vs) \<subseteq> insert [] (server_name ` set vs)"
    by (auto simp: no_server_def)
  then show ?case using Cons unfolding list.map names_ok_Cons by (auto simp: no_server_def)
qed (simp add: names_ok_def)

lemma reg_ok_server: "reg_ok h r \<Longrightarrow> names_ok vs \<Longrightarrow> length vs = MAX_SERVERS \<Longrightarrow> reg_ok (h\<lparr>server := vs\<rparr>) r"
  by (simp add: reg_ok_def jack_shm_validate_registry_def)

lemma kill_ok_sem [simp]: "kill_ok (s\<lparr>sem_holder := v\<rparr>) = kill_ok s"
  by (simp add: kill_ok_def fun_eq_iff)

lemma claim_cases:
  assumes "claim_server p s = Returns s' rc"
  obtains (found) pr obj h r vs where "processes s p = Some pr" "registry_of s p = Some (obj, h, r)" "sem_holder s = None"
      "claim_scan (kill_ok s p) p (jack_shm_server_prefix pr) (server h) = (vs, Some rc)"
      "s' = put_registry obj (h\<lparr>server := vs\<rparr>) r (s\<lparr>sem_holder := Some p\<rparr>)"
    | (full) pr obj h r vs where "processes s p = Some pr" "registry_of s p = Some (obj, h, r)" "sem_holder s = None"
      "claim_scan (kill_ok s p) p (jack_shm_server_prefix pr) (server h) = (vs, None)"
      "free_server vs 0 = None" "rc = ENOSPC"
      "s' = put_registry obj (h\<lparr>server := vs\<rparr>) r (s\<lparr>sem_holder := Some p\<rparr>)"
    | (claimed) pr obj h r vs i where "processes s p = Some pr" "registry_of s p = Some (obj, h, r)" "sem_holder s = None"
      "claim_scan (kill_ok s p) p (jack_shm_server_prefix pr) (server h) = (vs, None)"
      "free_server vs 0 = Some i" "rc = 0"
      "s' = (put_registry obj (h\<lparr>server := vs[i := \<lparr>server_pid = p, server_name = jack_shm_server_prefix pr\<rparr>]\<rparr>) r s)"
  using assms unfolding claim_server_def returns_simps
  by (auto simp: put_registry_def split: option.splits prod.splits)

lemma prefix_set: "machine_ok s \<Longrightarrow> processes s p = Some pr \<Longrightarrow> registry_of s p = Some x \<Longrightarrow> jack_shm_server_prefix pr \<noteq> []"
  by (auto simp: machine_ok_def process_ok_def registry_of_def split: option.splits)

lemma pid_pos: "machine_ok s \<Longrightarrow> processes s p = Some pr \<Longrightarrow> 0 < p"
  by (auto simp: machine_ok_def process_ok_def)

lemma put_sem [simp]: "put_registry obj h r (s\<lparr>sem_holder := v\<rparr>) = (put_registry obj h r s)\<lparr>sem_holder := v\<rparr>"
  by (simp add: put_registry_def)

lemma servers_ok:
  assumes "machine_ok s" "registry_of s p = Some (obj, h, r)" "names_ok vs" "length vs = MAX_SERVERS"
  shows "machine_ok (put_registry obj (h\<lparr>server := vs\<rparr>) r s)" "tidy_ok s \<Longrightarrow> tidy_ok (put_registry obj (h\<lparr>server := vs\<rparr>) r s)"
proof -
  note d = registry_ofD [OF assms(1,2)]
  show "machine_ok (put_registry obj (h\<lparr>server := vs\<rparr>) r s)"
    using machine_ok_put [OF assms(1) d(1)] reg_ok_server [OF d(3) assms(3,4)] by simp
  show "tidy_ok s \<Longrightarrow> tidy_ok (put_registry obj (h\<lparr>server := vs\<rparr>) r s)"
    by (erule tidy_ok_put [OF _ d(1,2)])
qed

lemma claim_ok:
  assumes "machine_ok s" "claim_server p s = Returns s' rc"
  shows "machine_ok s'" "tidy_ok s \<Longrightarrow> tidy_ok s'"
proof -
  have "machine_ok s' \<and> (tidy_ok s \<longrightarrow> tidy_ok s')"
    using assms(2)
  proof (cases rule: claim_cases)
    case (found pr obj h r vs)
    note d = registry_ofD [OF assms(1) found(2)]
    have "length vs = MAX_SERVERS \<and> names_ok vs" using claim_scan_sub [OF found(4)] d(3) by (simp add: reg_ok_def)
    then show ?thesis using servers_ok [OF assms(1) found(2)] found(5) by simp
  next
    case (full pr obj h r vs)
    note d = registry_ofD [OF assms(1) full(2)]
    have "length vs = MAX_SERVERS \<and> names_ok vs" using claim_scan_sub [OF full(4)] d(3) by (simp add: reg_ok_def)
    then show ?thesis using servers_ok [OF assms(1) full(2)] full(7) by simp
  next
    case (claimed pr obj h r vs i)
    note d = registry_ofD [OF assms(1) claimed(2)]
    have l: "length vs = MAX_SERVERS" "names_ok vs" using claim_scan_sub [OF claimed(4)] d(3) by (simp_all add: reg_ok_def)
    have i: "i < length vs" "server_pid (vs ! i) = 0" using free_server_Some [OF claimed(5)] by simp_all
    have n: "jack_shm_server_prefix pr \<noteq> []" by (rule prefix_set [OF assms(1) claimed(1,2)])
    have "names_ok (vs[i := \<lparr>server_pid = p, server_name = jack_shm_server_prefix pr\<rparr>])"
      using names_ok_claim [OF l(2) i n claim_scan_None [OF claimed(4) n] pid_pos [OF assms(1) claimed(1)]] by simp
    then show ?thesis using servers_ok [OF assms(1) claimed(2)] l(1) claimed(7) by simp
  qed
  then show "machine_ok s'" "tidy_ok s \<Longrightarrow> tidy_ok s'" by blast+
qed

lemma unregister_server_ok:
  assumes "machine_ok s" "jack_unregister_server p s = Returns s' rc"
  shows "machine_ok s'" "tidy_ok s \<Longrightarrow> tidy_ok s'"
proof -
  obtain obj h r where r: "registry_of s p = Some (obj, h, r)"
    and s': "s' = (put_registry obj (h\<lparr>server := map (\<lambda>v. if server_pid v = p then no_server else v) (server h)\<rparr>) r s)\<lparr>sem_holder := None\<rparr>"
    using assms(2) unfolding jack_unregister_server_def returns_simps by (auto split: option.splits prod.splits)
  note d = registry_ofD [OF assms(1) r]
  show "machine_ok s'" "tidy_ok s \<Longrightarrow> tidy_ok s'"
    using servers_ok [OF assms(1) r] names_ok_clear [of "server h"] d(3) s' by (simp_all add: reg_ok_def)
qed

subsection \<open>Segments\<close>

lemma free_entry_Some:
  "jack_get_free_shm_info xs i = Some j \<Longrightarrow> i \<le> j \<and> j < i + length xs \<and> shm_size (xs ! (j - i)) = 0"
proof (induction xs i rule: jack_get_free_shm_info.induct)
  case (2 v vs i)
  then show ?case by (cases "shm_size v = 0") (auto simp: nth_Cons' Suc_le_eq)
qed simp

lemma free_entry_None: "jack_get_free_shm_info xs i = None \<Longrightarrow> x \<in> set xs \<Longrightarrow> shm_size x \<noteq> 0"
  by (induction xs i rule: jack_get_free_shm_info.induct) (auto split: if_splits)

lemma reg_ok_entry:
  "reg_ok h r \<Longrightarrow> i < MAX_SHM_ID \<Longrightarrow> entry_ok i x \<Longrightarrow> reg_ok h (r[i := x])"
  by (auto simp: reg_ok_def nth_list_update)

lemma entry_ok_release: "entry_ok i x \<Longrightarrow> entry_ok i (release_entry x)"
  by (simp add: entry_ok_def release_entry_def)

lemma release_again: "(release_entry x)\<lparr>shm_size := 0, allocator := 0\<rparr> = release_entry x"
  by (cases x) (simp add: release_entry_def)

lemma entry_id: "reg_ok h r \<Longrightarrow> i < length r \<Longrightarrow> shm_id (r ! i) \<noteq> registry_name"
  by (auto simp: reg_ok_def entry_ok_def dest!: spec [of _ i] split: if_splits)

text \<open>What the sweep of \<open>jack_cleanup_shm\<close> takes away: the caller's own entries and those of processes that ended.\<close>

definition stale :: "machine \<Rightarrow> int \<Rightarrow> jack_shm_registry_t \<Rightarrow> bool" where
  "stale s p x \<longleftrightarrow> allocator x \<noteq> 0 \<and> (allocator x = p \<or> processes s (allocator x) = None)"

definition swept_names :: "machine \<Rightarrow> int \<Rightarrow> jack_shm_registry_t list \<Rightarrow> nat \<Rightarrow> string \<Rightarrow> nat option" where
  "swept_names s p r n = (\<lambda>m. if \<exists>i < n. stale s p (r ! i) \<and> m = segment_name (int i) then None else shm_names s m)"

lemma cleanup_entry_eq:
  assumes "length r = MAX_SHM_ID" "i < MAX_SHM_ID" "entry_ok i (r ! i)"
  shows "cleanup_entry p i (s, r) =
    (if stale s p (r ! i) then (jack_remove_shm (segment_name (int i)) s, r[i := release_entry (r ! i)]) else (s, r))"
  using assms by (auto simp: cleanup_entry_def stale_def entry_ok_def jack_release_shm_entry_def release_again Let_def split: if_splits)

lemma cleanup_fold:
  assumes "reg_ok h r" "n \<le> MAX_SHM_ID"
  shows "\<exists>r2. fold (cleanup_entry p) [0..<n] (s, r) = (s\<lparr>shm_names := swept_names s p r n\<rparr>, r2) \<and> length r2 = MAX_SHM_ID \<and>
    (\<forall>i < MAX_SHM_ID. r2 ! i = (if i < n \<and> stale s p (r ! i) then release_entry (r ! i) else r ! i))"
  using assms(2)
proof (induction n)
  case 0
  then show ?case using assms(1) by (simp add: swept_names_def reg_ok_def)
next
  case (Suc n)
  then obtain r2 where f: "fold (cleanup_entry p) [0..<n] (s, r) = (s\<lparr>shm_names := swept_names s p r n\<rparr>, r2)"
    and l: "length r2 = MAX_SHM_ID"
    and i: "\<And>i. i < MAX_SHM_ID \<Longrightarrow> r2 ! i = (if i < n \<and> stale s p (r ! i) then release_entry (r ! i) else r ! i)"
    by auto
  have n: "r2 ! n = r ! n" "entry_ok n (r ! n)" using i [of n] Suc.prems assms(1) by (auto simp: reg_ok_def)
  have st: "stale (s\<lparr>shm_names := m\<rparr>) p x = stale s p x" for m x by (simp add: stale_def)
  have sw: "swept_names s p r (Suc n) = (if stale s p (r ! n) then (swept_names s p r n)(segment_name (int n) := None) else swept_names s p r n)"
    by (auto simp: swept_names_def fun_eq_iff less_Suc_eq)
  have e: "fold (cleanup_entry p) [0..<Suc n] (s, r) =
     (s\<lparr>shm_names := swept_names s p r (Suc n)\<rparr>, if stale s p (r ! n) then r2[n := release_entry (r ! n)] else r2)"
    using cleanup_entry_eq [OF l, of n p] Suc.prems n f by (simp add: st sw jack_remove_shm_def)
  show ?case
    unfolding e using l i Suc.prems n by (auto simp: nth_list_update less_Suc_eq)
qed

lemma cleanup_result:
  assumes "machine_ok s" "jack_cleanup_shm p s = Returns s' rc"
  obtains obj h r r2 where "registry_of s p = Some (obj, h, r)" "sem_holder s = None"
    "s' = (put_registry obj h r2 (s\<lparr>shm_names := swept_names s p r MAX_SHM_ID\<rparr>))\<lparr>sem_holder := None\<rparr>"
    "length r2 = MAX_SHM_ID" "\<And>i. i < MAX_SHM_ID \<Longrightarrow> r2 ! i = (if stale s p (r ! i) then release_entry (r ! i) else r ! i)"
proof -
  obtain obj h r where r: "registry_of s p = Some (obj, h, r)" "sem_holder s = None"
    using assms(2) unfolding jack_cleanup_shm_def returns_simps by (auto split: option.splits prod.splits)
  note d = registry_ofD [OF assms(1) r(1)]
  have st: "stale (s\<lparr>sem_holder := v\<rparr>) p x = stale s p x" for v x by (simp add: stale_def)
  obtain r2 where f: "fold (cleanup_entry p) [0..<MAX_SHM_ID] (s\<lparr>sem_holder := Some p\<rparr>, r) =
      (s\<lparr>sem_holder := Some p, shm_names := swept_names (s\<lparr>sem_holder := Some p\<rparr>) p r MAX_SHM_ID\<rparr>, r2)"
    and l: "length r2 = MAX_SHM_ID"
    and i: "\<And>i. i < MAX_SHM_ID \<Longrightarrow> r2 ! i = (if stale s p (r ! i) then release_entry (r ! i) else r ! i)"
    using cleanup_fold [OF d(3) order_refl, of p "s\<lparr>sem_holder := Some p\<rparr>"] by (auto simp: st)
  have sw: "swept_names (s\<lparr>sem_holder := Some p\<rparr>) p r MAX_SHM_ID = swept_names s p r MAX_SHM_ID"
    by (simp add: swept_names_def st cong: if_cong)
  have "s' = (put_registry obj h r2 (s\<lparr>shm_names := swept_names s p r MAX_SHM_ID\<rparr>))\<lparr>sem_holder := None\<rparr>"
    using assms(2) r f unfolding jack_cleanup_shm_def returns_simps sw by (simp add: put_registry_def)
  from that [OF r this l i] show thesis .
qed

lemma swept_registry [simp]: "swept_names s p r n registry_name = shm_names s registry_name"
  by (auto simp: swept_names_def)

lemma machine_ok_shrink:
  assumes "machine_ok s" "f registry_name = shm_names s registry_name" "\<And>n x. f n = Some x \<Longrightarrow> shm_names s n = Some x"
  shows "machine_ok (s\<lparr>shm_names := f\<rparr>)"
proof -
  have "process_ok (s\<lparr>shm_names := f\<rparr>) p pr = process_ok s p pr" for p pr using assms(2) by (simp add: process_ok_def)
  moreover have "f n = Some x \<Longrightarrow> x < shm_next s" for n x using assms(1) assms(3) [of n x] by (simp add: machine_ok_def)
  moreover have "f m = Some x \<Longrightarrow> f n = Some x \<Longrightarrow> m = n" for m n x
    using assms(1) assms(3) [of n x] assms(3) [of m x] by (simp add: machine_ok_def)
  ultimately show ?thesis using assms(1,2) unfolding machine_ok_def by simp
qed

lemma cleanup_ok:
  assumes "machine_ok s" "jack_cleanup_shm p s = Returns s' rc"
  shows "machine_ok s'" "tidy_ok s \<Longrightarrow> tidy_ok s'"
proof -
  obtain obj h r r2 where c: "registry_of s p = Some (obj, h, r)"
    "s' = (put_registry obj h r2 (s\<lparr>shm_names := swept_names s p r MAX_SHM_ID\<rparr>))\<lparr>sem_holder := None\<rparr>"
    "length r2 = MAX_SHM_ID" "\<And>i. i < MAX_SHM_ID \<Longrightarrow> r2 ! i = (if stale s p (r ! i) then release_entry (r ! i) else r ! i)"
    using cleanup_result [OF assms] by metis
  note d = registry_ofD [OF assms(1) c(1)]
  have sub: "swept_names s p r MAX_SHM_ID m = Some x \<Longrightarrow> shm_names s m = Some x" for m x
    by (simp add: swept_names_def split: if_splits)
  have m: "machine_ok (s\<lparr>shm_names := swept_names s p r MAX_SHM_ID\<rparr>)"
    using assms(1) swept_registry sub by (rule machine_ok_shrink)
  have "entry_ok i (r2 ! i)" if "i < MAX_SHM_ID" for i
    using c(4) [OF that] d(3) that by (simp add: reg_ok_def entry_ok_release)
  then have "reg_ok h r2" using d(3) c(3) by (simp add: reg_ok_def)
  then show "machine_ok s'" using machine_ok_put [OF m] d(1) c(2) by simp
  assume t: "tidy_ok s"
  have "shm_size (r2 ! i) \<noteq> 0" if "i < MAX_SHM_ID" "swept_names s p r MAX_SHM_ID (segment_name (int i)) \<noteq> None" for i
  proof -
    have "\<not> stale s p (r ! i)" "shm_names s (segment_name (int i)) \<noteq> None"
      using that by (auto simp: swept_names_def split: if_splits)
    then show ?thesis using t that(1) d(1,2) c(4) by (auto simp: tidy_ok_def)
  qed
  then show "tidy_ok s'" using d(1) c(2) by (auto simp: tidy_ok_def put_registry_def)
qed

lemma open_create_eq:
  "open_create name s = (case shm_names s name of Some obj \<Rightarrow> (s, obj)
     | None \<Rightarrow> (s\<lparr>shm_names := (shm_names s)(name \<mapsto> shm_next s), shm_objects := (shm_objects s)(shm_next s := Segment 0),
                  shm_next := Suc (shm_next s)\<rparr>, shm_next s))"
  by (simp add: open_create_def)

lemma open_create_ok:
  assumes "machine_ok s" "open_create name s = (s1, seg)" "name \<noteq> registry_name"
  shows "machine_ok s1" "shm_names s1 = (shm_names s)(name \<mapsto> seg)" "processes s1 = processes s"
    "sem_holder s1 = sem_holder s"
    "\<And>obj. shm_names s registry_name = Some obj \<Longrightarrow> seg \<noteq> obj \<and> shm_objects s1 obj = shm_objects s obj"
proof -
  have b: "\<And>n x. shm_names s n = Some x \<Longrightarrow> x < shm_next s" using assms(1) by (auto simp: machine_ok_def)
  have inj: "\<And>m n x. shm_names s m = Some x \<Longrightarrow> shm_names s n = Some x \<Longrightarrow> m = n" using assms(1) by (auto simp: machine_ok_def)
  show "shm_names s1 = (shm_names s)(name \<mapsto> seg)" "processes s1 = processes s" "sem_holder s1 = sem_holder s"
    using assms(2) by (auto simp: open_create_eq split: option.splits)
  show "\<And>obj. shm_names s registry_name = Some obj \<Longrightarrow> seg \<noteq> obj \<and> shm_objects s1 obj = shm_objects s obj"
    using assms(2,3) b inj by (fastforce simp: open_create_eq split: option.splits)
  show "machine_ok s1"
  proof (cases "shm_names s name")
    case None
    then have s1: "s1 = s\<lparr>shm_names := (shm_names s)(name \<mapsto> shm_next s), shm_objects := (shm_objects s)(shm_next s := Segment 0), shm_next := Suc (shm_next s)\<rparr>"
      using assms(2) by (auto simp: open_create_eq)
    show ?thesis unfolding machine_ok_def process_ok_def s1
      using assms(1,3) b inj by (auto simp: machine_ok_def process_ok_def less_Suc_eq dest: b)
  next
    case (Some x)
    then show ?thesis using assms(1,2) by (simp add: open_create_eq)
  qed
qed

lemma shmalloc_cases:
  assumes "machine_ok s" "jack_shmalloc sys p bytes s = Returns s' res"
  obtains (failed) obj h r where "registry_of s p = Some (obj, h, r)" "sem_holder s = None" "res = (-1, None)" "s' = s\<lparr>sem_holder := None\<rparr>"
      "jack_get_free_shm_info r 0 = None \<or> os_open sys \<noteq> 0"
    | (left_over) obj h r i s2 seg where "registry_of s p = Some (obj, h, r)" "sem_holder s = None" "res = (-1, None)"
      "jack_get_free_shm_info r 0 = Some i" "open_create (segment_name (int i)) s = (s2, seg)"
      "s' = s2\<lparr>sem_holder := None\<rparr>" "os_ftruncate sys \<noteq> 0"
    | (made) obj h r i s2 seg where "registry_of s p = Some (obj, h, r)" "sem_holder s = None"
      "jack_get_free_shm_info r 0 = Some i" "open_create (segment_name (int i)) s = (s2, seg)"
      "res = (0, Some \<lparr>info_index = int i, attached_at = None\<rparr>)"
      "s' = (put_registry obj h (r[i := (r ! i)\<lparr>shm_size := bytes, shm_id := segment_name (int i), allocator := p\<rparr>])
               (s2\<lparr>shm_objects := (shm_objects s2)(seg := Segment bytes)\<rparr>))\<lparr>sem_holder := None\<rparr>"
proof -
  obtain obj h r where r: "registry_of s p = Some (obj, h, r)" "sem_holder s = None"
    using assms(2) unfolding jack_shmalloc_def returns_simps by (auto split: option.splits prod.splits)
  note d = registry_ofD [OF assms(1) r(1)]
  have oc: "open_create name (s\<lparr>sem_holder := Some p\<rparr>) = (case open_create name s of (s2, seg) \<Rightarrow> (s2\<lparr>sem_holder := Some p\<rparr>, seg))" for name
    by (simp add: open_create_eq split: option.split)
  show thesis
  proof (cases "jack_get_free_shm_info r 0")
    case None
    then show thesis using assms(2) r unfolding jack_shmalloc_def returns_simps by (auto intro!: failed)
  next
    case (Some i)
    then have i: "i < MAX_SHM_ID" using free_entry_Some [OF Some] d(3) by (simp add: reg_ok_def)
    then have ix: "shm_index (r ! i) = int i" using d(3) by (simp add: reg_ok_def entry_ok_def)
    obtain s2 seg where o: "open_create (segment_name (int i)) s = (s2, seg)" by fastforce
    show thesis
    proof (cases "os_open sys = 0")
      case False
      then show thesis using assms(2) r Some unfolding jack_shmalloc_def returns_simps by (auto intro!: failed simp: Let_def)
    next
      case True
      then show thesis
      proof (cases "os_ftruncate sys = 0")
        case False
        then have "res = (-1, None)" "s' = s2\<lparr>sem_holder := None\<rparr>" using assms(2) r Some o ix True unfolding jack_shmalloc_def returns_simps
          by (simp_all add: Let_def oc)
        then show thesis using left_over r Some o False by blast
      next
        case t: True
        have "res = (0, Some \<lparr>info_index = int i, attached_at = None\<rparr>)"
         "s' = (put_registry obj h (r[i := (r ! i)\<lparr>shm_size := bytes, shm_id := segment_name (int i), allocator := p\<rparr>])
               (s2\<lparr>shm_objects := (shm_objects s2)(seg := Segment bytes)\<rparr>))\<lparr>sem_holder := None\<rparr>"
          using assms(2) r Some o ix True t unfolding jack_shmalloc_def returns_simps
          by (simp_all add: Let_def oc put_registry_def)
        then show thesis using made r Some o by blast
      qed
    qed
  qed
qed

lemma shmalloc_ok:
  assumes "machine_ok s" "jack_shmalloc sys p bytes s = Returns s' res" "0 < bytes"
  shows "machine_ok s'" "tidy_ok s \<Longrightarrow> os_ftruncate sys = 0 \<Longrightarrow> tidy_ok s'"
proof -
  have "machine_ok s' \<and> (tidy_ok s \<longrightarrow> os_ftruncate sys = 0 \<longrightarrow> tidy_ok s')"
    using assms(1,2)
  proof (cases rule: shmalloc_cases)
    case (failed obj h r)
    then show ?thesis using assms(1) by simp
  next
    case (left_over obj h r i s2 seg)
    then show ?thesis using open_create_ok(1) [OF assms(1) left_over(5)] by simp
  next
    case (made obj h r i s2 seg)
    note d = registry_ofD [OF assms(1) made(1)]
    note o = open_create_ok [OF assms(1) made(4) segment_not_registry(1)]
    let ?r = "r[i := (r ! i)\<lparr>shm_size := bytes, shm_id := segment_name (int i), allocator := p\<rparr>]"
    let ?s3 = "s2\<lparr>shm_objects := (shm_objects s2)(seg := Segment bytes)\<rparr>"
    have i: "i < MAX_SHM_ID" using free_entry_Some [OF made(3)] d(3) by (simp add: reg_ok_def)
    obtain pr where pr: "processes s p = Some pr" using d(4) by auto
    have "reg_ok h ?r"
      using d(3) i pid_pos [OF assms(1) pr] assms(3) by (intro reg_ok_entry) (auto simp: reg_ok_def entry_ok_def)
    moreover have s3: "machine_ok ?s3" "shm_names ?s3 registry_name = Some obj" "shm_objects ?s3 obj = Registry h r"
    proof -
      have "shm_names s2 registry_name = Some obj" "shm_objects s2 obj = Registry h r" "seg \<noteq> obj" using o d(1,2) by simp_all
      then show "machine_ok ?s3" "shm_names ?s3 registry_name = Some obj" "shm_objects ?s3 obj = Registry h r"
        using o(1) by (auto simp: machine_ok_def process_ok_def)
    qed
    ultimately have m: "machine_ok s'" using machine_ok_put made(6) by simp
    have "tidy_ok s'" if t: "tidy_ok s"
    proof -
      have "shm_size (?r ! j) \<noteq> 0" if "j < MAX_SHM_ID" "shm_names ?s3 (segment_name (int j)) \<noteq> None" for j
      proof (cases "j = i")
        case True
        then show ?thesis using assms(3) i d(3) by (simp add: reg_ok_def)
      next
        case False
        then have "shm_names s (segment_name (int j)) \<noteq> None" using that(2) o(2) by simp
        then show ?thesis using t that(1) d(1,2) False by (auto simp: tidy_ok_def)
      qed
      then show ?thesis using s3(2) made(6) by (auto simp: tidy_ok_def put_registry_def)
    qed
    then show ?thesis using m by blast
  qed
  then show "machine_ok s'" "tidy_ok s \<Longrightarrow> os_ftruncate sys = 0 \<Longrightarrow> tidy_ok s'" by blast+
qed

lemma release_info_cases:
  assumes "jack_release_shm_info p idx s = Returns s' rc"
  obtains obj h r where "registry_of s p = Some (obj, h, r)" "0 \<le> idx" "nat idx < length r" "s' = s"
    | obj h r where "registry_of s p = Some (obj, h, r)" "0 \<le> idx" "nat idx < length r" "allocator (r ! nat idx) = p"
      "s' = (put_registry obj h (jack_release_shm_entry (nat idx) r) s)\<lparr>sem_holder := None\<rparr>"
  using assms unfolding jack_release_shm_info_def
  by (auto simp: returns_simps split: option.splits if_splits)

lemma release_info_ok:
  assumes "machine_ok s" "jack_release_shm_info p idx s = Returns s' rc"
  shows "machine_ok s'"
    "tidy_ok s \<Longrightarrow> (\<And>obj h r. registry_of s p = Some (obj, h, r) \<Longrightarrow> shm_names s (shm_id (r ! nat idx)) = None) \<Longrightarrow> tidy_ok s'"
proof -
  have "machine_ok s' \<and> (tidy_ok s \<longrightarrow> (\<forall>obj h r. registry_of s p = Some (obj, h, r) \<longrightarrow> shm_names s (shm_id (r ! nat idx)) = None) \<longrightarrow> tidy_ok s')"
    using assms(2)
  proof (cases rule: release_info_cases)
    case (1 obj h r)
    then show ?thesis using assms(1) by simp
  next
    case (2 obj h r)
    note d = registry_ofD [OF assms(1) 2(1)]
    have i: "nat idx < MAX_SHM_ID" using 2(3) d(3) by (simp add: reg_ok_def)
    then have e: "entry_ok (nat idx) (r ! nat idx)" using d(3) by (simp add: reg_ok_def)
    have m: "machine_ok s'" using machine_ok_put [OF assms(1) d(1)] reg_ok_entry [OF d(3) i entry_ok_release [OF e]] 2(5)
      by (simp add: jack_release_shm_entry_def)
    have "tidy_ok s'" if t: "tidy_ok s" and n: "shm_names s (shm_id (r ! nat idx)) = None"
    proof -
      have "shm_names s (segment_name (int j)) = None" if "j = nat idx" "shm_size (r ! j) \<noteq> 0" for j
        using n e that by (simp add: entry_ok_def)
      then have "shm_size (r[nat idx := release_entry (r ! nat idx)] ! j) \<noteq> 0"
        if "shm_names s (segment_name (int j)) \<noteq> None" "shm_size (r ! j) \<noteq> 0" for j
        using that by (cases "j = nat idx") auto
      then have "tidy_ok (put_registry obj h (jack_release_shm_entry (nat idx) r) s)"
        unfolding jack_release_shm_entry_def by (intro tidy_ok_put [OF t d(1,2)])
      then show ?thesis using 2(5) by simp
    qed
    then show ?thesis using m 2(1) by simp
  qed
  then show "machine_ok s'" "tidy_ok s \<Longrightarrow> (\<And>obj h r. registry_of s p = Some (obj, h, r) \<Longrightarrow> shm_names s (shm_id (r ! nat idx)) = None) \<Longrightarrow> tidy_ok s'"
    by blast+
qed

lemma registry_of_remove [simp]: "registry_of (jack_remove_shm n s) p = registry_of s p"
  by (simp add: registry_of_def jack_remove_shm_def split: option.split)

lemma destroy_ok:
  assumes "machine_ok s" "jack_destroy_shm p si s = Returns s' rc"
  shows "machine_ok s'" "tidy_ok s \<Longrightarrow> tidy_ok s'"
proof -
  have "machine_ok s' \<and> (tidy_ok s \<longrightarrow> tidy_ok s')"
  proof (cases "info_index si = JACK_SHM_NULL_INDEX")
    case True
    then show ?thesis using assms by (simp add: jack_destroy_shm_def)
  next
    case False
    then obtain obj h r where r: "registry_of s p = Some (obj, h, r)" and i: "nat (info_index si) < length r"
      and s': "jack_release_shm_info p (info_index si) (jack_remove_shm (shm_id (r ! nat (info_index si))) s) = Returns s' rc"
      using assms(2) unfolding jack_destroy_shm_def by (auto split: option.splits if_splits)
    note n = entry_id [OF registry_ofD(3) [OF assms(1) r] i]
    have "shm_names (jack_remove_shm m s) m = None" for m by (simp add: jack_remove_shm_def)
    then show ?thesis
      using release_info_ok [OF machine_ok_remove [OF assms(1) n] s'] tidy_ok_remove [OF _ n] r by simp
  qed
  then show "machine_ok s'" "tidy_ok s \<Longrightarrow> tidy_ok s'" by blast+
qed

subsection \<open>Opening the registry\<close>

lemma init_registry_ok: "\<exists>h r. jack_shm_init_registry = Registry h r \<and> reg_ok h r \<and> (\<forall>i < MAX_SHM_ID. shm_size (r ! i) = 0)"
proof -
  have "names_ok (replicate n no_server)" for n by (induction n) (simp_all add: names_ok_def no_server_def)
  then show ?thesis by (simp add: jack_shm_init_registry_def reg_ok_def jack_shm_validate_registry_def entry_ok_def)
qed

lemma no_mapping:
  "machine_ok s \<Longrightarrow> shm_names s registry_name = None \<Longrightarrow> processes s p = Some pr \<Longrightarrow> jack_shm_header pr = None"
  by (cases "jack_shm_header pr") (auto simp: machine_ok_def process_ok_def)

text \<open>A registry is made only when there is none, so that nobody loses one.\<close>

lemma create_registry_ok:
  assumes "machine_ok s" "shm_names s registry_name = None" "jack_create_registry sys p s = (s', rc)"
    "processes s p = Some pr" "jack_shm_server_prefix pr \<noteq> []"
  shows "machine_ok s'" "tidy_ok s \<Longrightarrow> tidy_ok s'"
proof -
  let ?x = "shm_next s"
  let ?s1 = "s\<lparr>shm_names := (shm_names s)(registry_name \<mapsto> ?x), shm_objects := (shm_objects s)(?x := Segment 0), shm_next := Suc ?x\<rparr>"
  have b: "\<And>n x. shm_names s n = Some x \<Longrightarrow> x < ?x" using assms(1) by (auto simp: machine_ok_def)
  have nomap: "\<And>q a. processes s q = Some a \<Longrightarrow> jack_shm_header a = None" using no_mapping [OF assms(1,2)] by blast
  have o: "open_create registry_name s = (?s1, ?x)" using assms(2) by (simp add: open_create_eq)
  have rm: "jack_remove_shm registry_name ?s1 = s\<lparr>shm_objects := (shm_objects s)(?x := Segment 0), shm_next := Suc ?x\<rparr>"
    using assms(2) by (simp add: jack_remove_shm_def fun_upd_idem_iff)
  have ok1: "machine_ok (s\<lparr>shm_objects := (shm_objects s)(?x := Segment 0), shm_next := Suc ?x\<rparr>)"
    using assms(1,2) b by (auto simp: machine_ok_def process_ok_def less_SucI)
  have t1: "tidy_ok (s\<lparr>shm_objects := (shm_objects s)(?x := Segment 0), shm_next := Suc ?x\<rparr>)" if "tidy_ok s"
    using that assms(2) by (auto simp: tidy_ok_def)
  obtain h r where hr: "jack_shm_init_registry = Registry h r" "reg_ok h r" using init_registry_ok by blast
  let ?s2 = "(map_registry p ?x ?s1)\<lparr>shm_objects := (shm_objects (map_registry p ?x ?s1))(?x := jack_shm_init_registry)\<rparr>"
  have ok2: "machine_ok ?s2"
    using assms(1,2,4,5) hr b nomap
    by (auto simp: machine_ok_def process_ok_def map_registry_def upd_process_def less_SucI dest: b)
  have t2: "tidy_ok ?s2" if "tidy_ok s"
    using that assms(2) by (auto simp: tidy_ok_def map_registry_def upd_process_def)
  consider "s' = s" | "s' = s\<lparr>shm_objects := (shm_objects s)(?x := Segment 0), shm_next := Suc ?x\<rparr>" | "s' = ?s2"
    using assms(3) unfolding jack_create_registry_def o Let_def by (auto simp: rm split: if_splits)
  then show "machine_ok s'" "tidy_ok s \<Longrightarrow> tidy_ok s'"
    using assms(1) ok1 ok2 t1 t2 by (cases; simp)+
qed

lemma access_cases:
  assumes "jack_access_registry sys p s = (s', rc)"
  obtains "shm_names s registry_name = None" "s' = s" "rc = ENOENT"
    | obj where "shm_names s registry_name = Some obj" "s' = s" "rc = os_open sys" "rc \<noteq> 0"
    | obj where "shm_names s registry_name = Some obj" "s' = s" "rc = EINVAL" "\<not> os_mmap sys"
    | obj where "shm_names s registry_name = Some obj" "s' = map_registry p obj s" "rc = 0"
  using assms by (auto simp: jack_access_registry_def split: option.splits if_splits)

lemma map_registry_of:
  "machine_ok s \<Longrightarrow> shm_names s registry_name = Some obj \<Longrightarrow> processes s p = Some pr \<Longrightarrow>
   \<exists>h r. registry_of (map_registry p obj s) p = Some (obj, h, r) \<and> reg_ok h r"
  by (auto simp: machine_ok_def registry_of_def map_registry_def upd_process_def)

lemma server_init_ok:
  assumes "machine_ok s" "readable sys1" "processes s p = Some pr" "jack_shm_server_prefix pr \<noteq> []"
    and r: "jack_server_initialize_shm sys1 sys2 p False s = Returns s' rc"
  shows "machine_ok s'" "tidy_ok s \<Longrightarrow> tidy_ok s'"
proof -
  have "machine_ok s' \<and> (tidy_ok s \<longrightarrow> tidy_ok s')"
  proof (cases "jack_shm_header pr = None")
    case False
    then show ?thesis using assms(1,3) r by (auto simp: jack_server_initialize_shm_def)
  next
    case True
    let ?s = "s\<lparr>sem_holder := Some p\<rparr>"
    obtain s2 rc2 where a: "jack_access_registry sys1 p ?s = (s2, rc2)" by fastforce
    obtain s4 where w: "server_init_switch sys2 p s2 rc2 = Returns s4 rc" and s': "s' = s4\<lparr>sem_holder := None\<rparr>"
      using r True assms(3) a unfolding jack_server_initialize_shm_def by (auto simp: returns_simps)
    have m: "machine_ok ?s" using assms(1) by simp
    from a show ?thesis
    proof (cases rule: access_cases)
      case 1
      then have "jack_create_registry sys2 p ?s = (s4, rc)" using w by (auto simp: server_init_switch_def split: prod.splits)
      from create_registry_ok [OF m _ this, of pr] 1 assms(3,4) show ?thesis using s' by simp
    next
      case (2 obj)
      then have "s4 = ?s" using w assms(2) by (auto simp: server_init_switch_def readable_def)
      then show ?thesis using assms(1) s' by simp
    next
      case (3 obj)
      then show ?thesis using assms(2) by (simp add: readable_def)
    next
      case (4 obj)
      have p: "processes ?s p = Some pr" using assms(3) by simp
      obtain h q where "registry_of s2 p = Some (obj, h, q)" using map_registry_of [OF m 4(1) p] 4(2) by blast
      then have "s4 = s2" using w 4(3) by (auto simp: server_init_switch_def errno_defs split: if_splits)
      moreover have "machine_ok s2" unfolding 4(2) by (rule machine_ok_map [OF m 4(1)]) (use assms(3,4) in auto)
      ultimately show ?thesis using s' 4(2) by (simp add: map_registry_def)
    qed
  qed
  then show "machine_ok s'" "tidy_ok s \<Longrightarrow> tidy_ok s'" by blast+
qed

lemma set_prefix_eqs [simp]:
  "processes (set_prefix p name s) p = map_option (\<lambda>pr. pr\<lparr>jack_shm_server_prefix := jack_set_server_prefix (uid pr) name\<rparr>) (processes s p)"
  "tidy_ok (set_prefix p name s) = tidy_ok s"
  "sem_holder (set_prefix p name s) = sem_holder s"
  by (simp_all add: set_prefix_def upd_process_def)

lemma client_init_ok:
  assumes "machine_ok s" "jack_initialize_shm sys p name s = Returns s' rc"
  shows "machine_ok s'" "tidy_ok s \<Longrightarrow> tidy_ok s'"
proof -
  obtain pr where pr: "processes s p = Some pr" using assms(2) by (auto simp: jack_initialize_shm_def split: option.splits)
  have "machine_ok s' \<and> (tidy_ok s \<longrightarrow> tidy_ok s')"
  proof (cases "jack_shm_header pr = None")
    case False
    then show ?thesis using assms pr by (auto simp: jack_initialize_shm_def)
  next
    case True
    let ?s = "(set_prefix p name s)\<lparr>sem_holder := Some p\<rparr>"
    have m: "machine_ok ?s" using machine_ok_set_prefix [OF assms(1)] by simp
    obtain s2 rc2 where a: "jack_access_registry sys p ?s = (s2, rc2)" by fastforce
    have s': "s' = s2\<lparr>sem_holder := None\<rparr>"
      using assms(2) pr True a unfolding jack_initialize_shm_def by (auto simp: returns_simps split: if_splits option.splits)
    have "s2 = ?s \<or> (\<exists>obj. s2 = map_registry p obj ?s \<and> shm_names ?s registry_name = Some obj)"
      using a by (cases rule: access_cases) auto
    then have "machine_ok s2 \<and> (tidy_ok s \<longrightarrow> tidy_ok s2)"
      using m machine_ok_map [OF m, of _ p] pr by (auto simp: map_registry_def)
    then show ?thesis using s' by simp
  qed
  then show "machine_ok s'" "tidy_ok s \<Longrightarrow> tidy_ok s'" by blast+
qed

subsection \<open>Every step\<close>

lemma step_ok:
  assumes "shm_step tidy a s s'" "machine_ok s"
  shows "machine_ok s' \<and> (tidy \<longrightarrow> tidy_ok s \<longrightarrow> tidy_ok s')"
  using assms
proof (cases rule: shm_step.cases)
  case (start p u)
  then show ?thesis using assms(2) by (auto simp: machine_ok_def process_ok_def new_process_def)
next
  case (fork p pr q)
  then show ?thesis using assms(2) by (auto simp: machine_ok_def process_ok_def)
next
  case (ends p pr)
  then show ?thesis using assms(2) by (auto simp: machine_ok_def process_ok_def end_process_def tidy_ok_def)
next
  case (server_init sys1 sys2 p name rc)
  then obtain pr where "processes (set_prefix p name s) p = Some pr" "jack_shm_server_prefix pr \<noteq> []"
    by (cases "processes s p") (auto simp: jack_server_initialize_shm_def)
  from server_init_ok [OF machine_ok_set_prefix [OF assms(2)] server_init(2) this server_init(3)] show ?thesis by simp
next
  case (client_init sys p name rc)
  then show ?thesis using client_init_ok [OF assms(2)] by blast
next
  case (claim p rc)
  then show ?thesis using claim_ok [OF assms(2)] by blast
next
  case (unregister p rc)
  then show ?thesis using unregister_server_ok [OF assms(2)] by blast
next
  case (cleanup p rc)
  then show ?thesis using cleanup_ok [OF assms(2)] by blast
next
  case (alloc bytes sys p res)
  then show ?thesis using shmalloc_ok [OF assms(2)] by blast
next
  case (destroy p si rc)
  then show ?thesis using destroy_ok [OF assms(2)] by blast
next
  case (remove p obj h r i)
  note n = entry_id [OF registry_ofD(3) [OF assms(2) remove(3)] remove(4)]
  show ?thesis using machine_ok_remove [OF assms(2) n] tidy_ok_remove [OF _ n] remove(2) by simp
next
  case (release p i rc)
  then show ?thesis using release_info_ok [OF assms(2) release(3)] by blast
qed

lemma booted_ok: "machine_ok booted" "tidy_ok booted"
  by (simp_all add: machine_ok_def tidy_ok_def booted_def)

lemma reachable_ok:
  assumes "reachable tidy s"
  shows "machine_ok s" "tidy \<Longrightarrow> tidy_ok s"
  using assms by (induction) (use booted_ok step_ok in blast)+

end
