(* ===== verification/Shm_Properties.thy ===== *)
theory Shm_Properties
  imports Shm_Inv
begin

text \<open>
  What the registry of shared memory promises to several servers on one machine: a server name has
  one owner, segments have different names, and the sweep of a starting or ending server frees
  exactly what is no longer in use. And where it fails: the lock that is never given back, and the
  registry that is replaced while it is in use.
\<close>

section \<open>Owners of server names\<close>

definition servers :: "machine \<Rightarrow> jack_shm_server_t list" where
  "servers s =
     (case shm_names s registry_name of
        None \<Rightarrow> []
      | Some obj \<Rightarrow> (case shm_objects s obj of Registry h r \<Rightarrow> server h | Segment n \<Rightarrow> []))"

text \<open>Process \<open>p\<close> runs and owns the name \<open>nm\<close>, which it can claim as its user.\<close>

definition serves :: "int \<Rightarrow> string \<Rightarrow> machine \<Rightarrow> bool" where
  "serves p nm s \<longleftrightarrow> \<lparr>server_pid = p, server_name = nm\<rparr> \<in> set (servers s) \<and>
     (\<exists>pr n. processes s p = Some pr \<and> nm = jack_set_server_prefix (uid pr) n)"

lemma servers_eqs [simp]:
  "servers (s\<lparr>sem_holder := v\<rparr>) = servers s"
  "servers (s\<lparr>processes := w\<rparr>) = servers s"
  "servers (upd_process p f s) = servers s"
  "servers (set_prefix p name s) = servers s"
  by (simp_all add: servers_def upd_process_def set_prefix_def split: option.split)

lemma put_registry_eqs [simp]:
  "processes (put_registry obj h r s) = processes s" "sem_holder (put_registry obj h r s) = sem_holder s"
  by (simp_all add: put_registry_def)

lemma servers_put: "shm_names s registry_name = Some obj \<Longrightarrow> servers (put_registry obj h r s) = server h"
  by (simp add: servers_def put_registry_def)

lemma servers_registry: "machine_ok s \<Longrightarrow> registry_of s p = Some (obj, h, r) \<Longrightarrow> servers s = server h"
  by (simp add: servers_def registry_ofD)

lemma servers_remove: "n \<noteq> registry_name \<Longrightarrow> servers (jack_remove_shm n s) = servers s"
  by (simp add: servers_def jack_remove_shm_def split: option.split)

lemma processes_remove [simp]: "processes (jack_remove_shm n s) = processes s"
  by (simp add: jack_remove_shm_def)

lemma same_name:
  "names_ok vs \<Longrightarrow> v \<in> set vs \<Longrightarrow> w \<in> set vs \<Longrightarrow> server_name v = server_name w \<Longrightarrow> server_name v \<noteq> [] \<Longrightarrow> v = w"
proof (induction vs)
  case (Cons u vs)
  then show ?case unfolding names_ok_Cons by (auto simp: image_iff)
qed simp

lemma server_eta: "server_name v = n \<Longrightarrow> \<lparr>server_pid = server_pid v, server_name = n\<rparr> = v"
  by (cases v) simp

lemma servers_ok_names: "machine_ok s \<Longrightarrow> names_ok (servers s)"
  by (auto simp: machine_ok_def servers_def reg_ok_def names_ok_def split: option.splits)

lemma servesD: "serves p nm s \<Longrightarrow> shm_names s registry_name \<noteq> None"
  by (cases "shm_names s registry_name") (auto simp: serves_def servers_def)

lemma serves_frame:
  assumes "serves p nm s" "servers s' = servers s" "map_option uid (processes s' p) = map_option uid (processes s p)"
  shows "serves p nm s'"
proof -
  obtain pr n where "processes s p = Some pr" "nm = jack_set_server_prefix (uid pr) n" using assms(1) by (auto simp: serves_def)
  moreover obtain pr' where "processes s' p = Some pr'" "uid pr' = uid pr" using assms(3) calculation(1) by auto
  ultimately show ?thesis using assms(1,2) unfolding serves_def by metis
qed

text \<open>The owner of a name can be signalled by everybody who claims that name.\<close>

lemma owner_alive:
  assumes "machine_ok s" "serves p nm s" "processes s q = Some pr" "jack_shm_server_prefix pr = nm"
  shows "kill_ok s q p"
proof -
  obtain pp n where p: "processes s p = Some pp" "nm = jack_set_server_prefix (uid pp) n" using assms(2) by (auto simp: serves_def)
  have "uid_ok (uid pp)" "uid_ok (uid pr)" "jack_shm_server_prefix pr = [] \<or> (\<exists>m. jack_shm_server_prefix pr = jack_set_server_prefix (uid pr) m)"
    using assms(1) p(1) assms(3) by (auto simp: machine_ok_def process_ok_def)
  then have "uid pr = uid pp" using prefix_uid p(2) assms(4) prefix_nonempty by metis
  then show ?thesis using assms(3) p(1) by (simp add: kill_ok_def)
qed

lemma claim_servers:
  assumes "machine_ok s" "claim_server q s = Returns s' rc" "processes s q = Some pr"
  obtains vs rc0 where "claim_scan (kill_ok s q) q (jack_shm_server_prefix pr) (servers s) = (vs, rc0)"
    "processes s' = processes s" "length vs = MAX_SERVERS"
    "case rc0 of Some c \<Rightarrow> rc = c \<and> servers s' = vs \<and> sem_holder s' = Some q
     | None \<Rightarrow> (case free_server vs 0 of None \<Rightarrow> rc = ENOSPC \<and> servers s' = vs \<and> sem_holder s' = Some q
         | Some i \<Rightarrow> rc = 0 \<and> servers s' = vs[i := \<lparr>server_pid = q, server_name = jack_shm_server_prefix pr\<rparr>] \<and> sem_holder s' = None)"
  using assms(2)
proof (cases rule: claim_cases)
  case (found pr' obj h r vs)
  note d = registry_ofD [OF assms(1) found(2)]
  have l: "length vs = MAX_SERVERS" using claim_scan_sub [OF found(4)] d(3) by (simp add: reg_ok_def)
  show thesis using that [of vs "Some rc"] found l assms(3) servers_registry [OF assms(1) found(2)] servers_put [OF d(1)]
    by simp
next
  case (full pr' obj h r vs)
  note d = registry_ofD [OF assms(1) full(2)]
  have l: "length vs = MAX_SERVERS" using claim_scan_sub [OF full(4)] d(3) by (simp add: reg_ok_def)
  show thesis using that [of vs None] full l assms(3) servers_registry [OF assms(1) full(2)] servers_put [OF d(1)]
    by simp
next
  case (claimed pr' obj h r vs i)
  note d = registry_ofD [OF assms(1) claimed(2)]
  have l: "length vs = MAX_SERVERS" using claim_scan_sub [OF claimed(4)] d(3) by (simp add: reg_ok_def)
  show thesis using that [of vs None] claimed l assms(3) servers_registry [OF assms(1) claimed(2)] servers_put [OF d(1)]
    by simp
qed

lemma serves_claim:
  assumes "machine_ok s" "serves p nm s" "claim_server q s = Returns s' rc"
  shows "serves p nm s'"
proof -
  obtain pr where pr: "processes s q = Some pr" using assms(3) by (cases rule: claim_cases) blast+
  obtain vs rc0 where c: "claim_scan (kill_ok s q) q (jack_shm_server_prefix pr) (servers s) = (vs, rc0)" "processes s' = processes s"
    "case rc0 of Some c \<Rightarrow> rc = c \<and> servers s' = vs \<and> sem_holder s' = Some q
     | None \<Rightarrow> (case free_server vs 0 of None \<Rightarrow> rc = ENOSPC \<and> servers s' = vs \<and> sem_holder s' = Some q
         | Some i \<Rightarrow> rc = 0 \<and> servers s' = vs[i := \<lparr>server_pid = q, server_name = jack_shm_server_prefix pr\<rparr>] \<and> sem_holder s' = None)"
    using claim_servers [OF assms(1,3) pr] by metis
  let ?v = "\<lparr>server_pid = p, server_name = nm\<rparr>"
  have v: "?v \<in> set vs"
    using claim_scan_keeps [OF c(1), of ?v] owner_alive [OF assms(1,2) pr] assms(2) by (auto simp: serves_def)
  have "p \<noteq> 0" using assms(1,2) pid_pos by (fastforce simp: serves_def)
  have "?v \<in> set (vs[i := w])" if f: "free_server vs 0 = Some i" for i w
  proof -
    obtain j where j: "j < length vs" "vs ! j = ?v" using v by (auto simp: in_set_conv_nth)
    have "i \<noteq> j" using free_server_Some [OF f] j \<open>p \<noteq> 0\<close> by auto
    then show ?thesis using j by (metis length_list_update nth_list_update_neq nth_mem)
  qed
  then have "?v \<in> set (servers s')" using c(3) v by (auto split: option.splits)
  then show ?thesis using assms(2) c(2) by (simp add: serves_def)
qed

lemma serves_prefix [simp]: "serves p nm (set_prefix q name s) = serves p nm s"
  by (auto simp: serves_def set_prefix_def upd_process_def)

lemma serves_sem [simp]: "serves p nm (s\<lparr>sem_holder := v\<rparr>) = serves p nm s"
  by (simp add: serves_def)

lemma serves_init:
  assumes "machine_ok s" "serves p nm s" "readable sys1"
    "jack_server_initialize_shm sys1 sys2 q False s = Returns s' rc"
  shows "serves p nm s'"
proof -
  obtain pr where pr: "processes s q = Some pr" using assms(4) by (auto simp: jack_server_initialize_shm_def split: option.splits)
  show ?thesis
  proof (cases "jack_shm_header pr = None")
    case False
    then show ?thesis using assms(2,4) pr by (simp add: jack_server_initialize_shm_def)
  next
    case True
    let ?s = "s\<lparr>sem_holder := Some q\<rparr>"
    obtain s2 rc2 where a: "jack_access_registry sys1 q ?s = (s2, rc2)" by fastforce
    have rc2: "rc2 \<noteq> ENOENT \<and> rc2 \<noteq> EINVAL"
      using a servesD [OF assms(2)] assms(3) by (cases rule: access_cases) (auto simp: readable_def errno_defs)
    then have s': "s' = s2\<lparr>sem_holder := None\<rparr>"
      using assms(4) True pr a unfolding jack_server_initialize_shm_def
      by (auto simp: returns_simps server_init_switch_def split: if_splits option.splits)
    have "servers s2 = servers s \<and> map_option uid (processes s2 p) = map_option uid (processes s p)"
      using a by (cases rule: access_cases) (auto simp: map_registry_def upd_process_def option.map_comp comp_def)
    then show ?thesis using serves_frame [OF assms(2), of s2] s' by simp
  qed
qed

lemma serves_client_init:
  assumes "serves p nm s" "jack_initialize_shm sys q name s = Returns s' rc"
  shows "serves p nm s'"
proof -
  obtain pr where pr: "processes s q = Some pr" using assms(2) by (auto simp: jack_initialize_shm_def split: option.splits)
  show ?thesis
  proof (cases "jack_shm_header pr = None")
    case False
    then show ?thesis using assms pr by (simp add: jack_initialize_shm_def)
  next
    case True
    let ?s = "(set_prefix q name s)\<lparr>sem_holder := Some q\<rparr>"
    obtain s2 rc2 where a: "jack_access_registry sys q ?s = (s2, rc2)" by fastforce
    have s': "s' = s2\<lparr>sem_holder := None\<rparr>"
      using assms(2) pr True a unfolding jack_initialize_shm_def by (auto simp: returns_simps split: if_splits option.splits)
    have "servers s2 = servers s \<and> map_option uid (processes s2 p) = map_option uid (processes s p)"
      using a by (cases rule: access_cases) (auto simp: map_registry_def upd_process_def set_prefix_def option.map_comp comp_def)
    then show ?thesis using serves_frame [OF assms(1), of s2] s' by simp
  qed
qed

lemma serves_step:
  assumes "shm_step tidy a s s'" "machine_ok s" "serves p nm s" "a \<noteq> Ends p" "a \<noteq> Unregisters p"
  shows "serves p nm s'"
  using assms(1)
proof (cases rule: shm_step.cases)
  case (start q u)
  then have "q \<noteq> p" using assms(3) by (auto simp: serves_def)
  then show ?thesis using start(2) assms(3) by (intro serves_frame [OF assms(3)]) simp_all
next
  case (fork q pr q')
  then have "q' \<noteq> p" using assms(3) by (auto simp: serves_def)
  then show ?thesis using fork(2) assms(3) by (intro serves_frame [OF assms(3)]) simp_all
next
  case (ends q pr)
  then have "q \<noteq> p" using assms(4) by auto
  then show ?thesis using ends(2) assms(3) by (intro serves_frame [OF assms(3)]) (simp_all add: end_process_def)
next
  case (server_init sys1 sys2 q name rc)
  then show ?thesis using serves_init [OF machine_ok_set_prefix [OF assms(2)]] assms(3) by simp
next
  case (client_init sys q name rc)
  then show ?thesis using serves_client_init [OF assms(3)] by blast
next
  case (claim q rc)
  then show ?thesis using serves_claim [OF assms(2,3)] by blast
next
  case (unregister q rc)
  then have q: "q \<noteq> p" using assms(5) by auto
  obtain obj h r where r: "registry_of s q = Some (obj, h, r)"
    and s': "s' = (put_registry obj (h\<lparr>server := map (\<lambda>v. if server_pid v = q then no_server else v) (server h)\<rparr>) r s)\<lparr>sem_holder := None\<rparr>"
    using unregister unfolding jack_unregister_server_def returns_simps by (auto split: option.splits prod.splits)
  have "\<lparr>server_pid = p, server_name = nm\<rparr> \<in> set (map (\<lambda>v. if server_pid v = q then no_server else v) (server h))"
    using assms(3) q servers_registry [OF assms(2) r] by (force simp: serves_def)
  then show ?thesis using assms(3) servers_put [OF registry_ofD(1) [OF assms(2) r]] by (auto simp: serves_def s')
next
  case (cleanup q rc)
  obtain obj h r r2 where c: "registry_of s q = Some (obj, h, r)"
    "s' = (put_registry obj h r2 (s\<lparr>shm_names := swept_names s q r MAX_SHM_ID\<rparr>))\<lparr>sem_holder := None\<rparr>"
    using cleanup_result [OF assms(2) cleanup(2)] by metis
  have "servers s' = servers s"
    using servers_registry [OF assms(2) c(1)] registry_ofD(1) [OF assms(2) c(1)] by (simp add: c(2) servers_put)
  then show ?thesis by (intro serves_frame [OF assms(3)]) (simp_all add: c(2))
next
  case (alloc bytes sys q res)
  have "servers s' = servers s \<and> processes s' = processes s"
    using assms(2) alloc(4)
  proof (cases rule: shmalloc_cases)
    case (left_over obj h r i s2 seg)
    note o = open_create_ok [OF assms(2) left_over(5) segment_not_registry(1)]
    show ?thesis using o(2,3,5) registry_ofD(1) [OF assms(2) left_over(1)] left_over(6) by (simp add: servers_def)
  next
    case (made obj h r i s2 seg)
    note o = open_create_ok [OF assms(2) made(4) segment_not_registry(1)]
    show ?thesis using o(2,3,5) registry_ofD(1,2) [OF assms(2) made(1)] made(6) by (simp add: servers_def put_registry_def)
  qed simp
  then show ?thesis by (intro serves_frame [OF assms(3)]) simp_all
next
  case (destroy q si rc)
  have "servers s' = servers s \<and> processes s' = processes s"
  proof (cases "info_index si = JACK_SHM_NULL_INDEX")
    case True
    then show ?thesis using destroy by (simp add: jack_destroy_shm_def)
  next
    case False
    then obtain obj h r where r: "registry_of s q = Some (obj, h, r)" and i: "nat (info_index si) < length r"
      and s': "jack_release_shm_info q (info_index si) (jack_remove_shm (shm_id (r ! nat (info_index si))) s) = Returns s' rc"
      using destroy(2) unfolding jack_destroy_shm_def by (auto split: option.splits if_splits)
    note d = registry_ofD [OF assms(2) r]
    note n = entry_id [OF d(3) i]
    have "shm_names (jack_remove_shm (shm_id (r ! nat (info_index si))) s) registry_name = Some obj"
      using n d(1) by (simp add: jack_remove_shm_def)
    with s' servers_remove [OF n] servers_put [OF this] servers_registry [OF assms(2) r] r show ?thesis
      by (cases rule: release_info_cases) auto
  qed
  then show ?thesis by (intro serves_frame [OF assms(3)]) simp_all
next
  case (remove q obj h r i)
  note n = entry_id [OF registry_ofD(3) [OF assms(2) remove(3)] remove(4)]
  show ?thesis using servers_remove [OF n] remove(2) by (intro serves_frame [OF assms(3)]) (simp_all add: jack_remove_shm_def)
next
  case (release q i rc)
  from release(3) show ?thesis
  proof (cases rule: release_info_cases)
    case (2 obj h r)
    then show ?thesis using servers_put [OF registry_ofD(1) [OF assms(2) 2(1)]] servers_registry [OF assms(2) 2(1)]
      by (intro serves_frame [OF assms(3)]) simp_all
  qed (use assms(3) in simp)
qed

section \<open>The contract\<close>

definition works :: shm_os where
  "works = \<lparr>os_open = 0, os_ftruncate = 0, os_mmap = True\<rparr>"

lemma register_splits:
  assumes "jack_register_server sys1 sys2 q name False s = Returns s' rc"
  obtains s1 rc1 where "jack_server_initialize_shm sys1 sys2 q False (set_prefix q name s) = Returns s1 rc1" "rc1 \<noteq> 0" "rc = ENOMEM" "s' = s1"
    | s1 where "jack_server_initialize_shm sys1 sys2 q False (set_prefix q name s) = Returns s1 0" "claim_server q s1 = Returns s' rc"
  using assms unfolding jack_register_server_def by (auto simp: shm_bind_Returns split: if_splits)

text \<open>The prefix that a process has set stays while it opens the registry.\<close>

lemma init_prefix:
  assumes "jack_server_initialize_shm sys1 sys2 q False s = Returns s' rc" "processes s q = Some pr"
  shows "\<exists>pr'. processes s' q = Some pr' \<and> jack_shm_server_prefix pr' = jack_shm_server_prefix pr \<and> uid pr' = uid pr"
proof (cases "jack_shm_header pr = None")
  case False
  then show ?thesis using assms by (simp add: jack_server_initialize_shm_def)
next
  case True
  have m: "map_option (\<lambda>pr. (jack_shm_server_prefix pr, uid pr)) (processes (map_registry q obj t) q) =
      map_option (\<lambda>pr. (jack_shm_server_prefix pr, uid pr)) (processes t q)" for obj t
    by (simp add: map_registry_def upd_process_def option.map_comp comp_def)
  have o: "processes (fst (open_create n t)) = processes t" for n t by (simp add: open_create_eq split: option.split)
  have c: "map_option (\<lambda>pr. (jack_shm_server_prefix pr, uid pr)) (processes (fst (jack_create_registry sys2 q t)) q) =
      map_option (\<lambda>pr. (jack_shm_server_prefix pr, uid pr)) (processes t q)" for t
    using o [of registry_name t] by (auto simp: jack_create_registry_def Let_def m jack_remove_shm_def split: prod.splits)
  have a: "map_option (\<lambda>pr. (jack_shm_server_prefix pr, uid pr)) (processes (fst (jack_access_registry sys1 q t)) q) =
      map_option (\<lambda>pr. (jack_shm_server_prefix pr, uid pr)) (processes t q)" for t
    by (auto simp: jack_access_registry_def m split: option.splits)
  have w: "map_option (\<lambda>pr. (jack_shm_server_prefix pr, uid pr)) (processes s4 q) =
      map_option (\<lambda>pr. (jack_shm_server_prefix pr, uid pr)) (processes t q)" if "server_init_switch sys2 q t k = Returns s4 k'" for t s4 k k'
    using that c [of t] c [of "jack_remove_shm registry_name t"]
    by (auto simp: server_init_switch_def jack_remove_shm_def split: if_splits option.splits prod.splits)
  obtain s2 rc2 where acc: "jack_access_registry sys1 q (s\<lparr>sem_holder := Some q\<rparr>) = (s2, rc2)" by fastforce
  obtain s4 where s4: "server_init_switch sys2 q s2 rc2 = Returns s4 rc" and s': "s' = s4\<lparr>sem_holder := None\<rparr>"
    using assms True acc unfolding jack_server_initialize_shm_def by (auto simp: returns_simps)
  have "map_option (\<lambda>pr. (jack_shm_server_prefix pr, uid pr)) (processes s' q) = Some (jack_shm_server_prefix pr, uid pr)"
    using w [OF s4] a [of "s\<lparr>sem_holder := Some q\<rparr>"] acc s' assms(2) by simp
  then show ?thesis by auto
qed

lemma claim_result:
  assumes "machine_ok s" "claim_server q s = Returns s' rc" "processes s q = Some pr"
    "jack_shm_server_prefix pr = nm" "nm = jack_set_server_prefix (uid pr) n"
  shows "rc = 0 \<Longrightarrow> serves q nm s'" "p \<noteq> q \<Longrightarrow> serves p nm s \<Longrightarrow> rc = EEXIST"
    "rc = EEXIST \<Longrightarrow> \<exists>p. p \<noteq> q \<and> processes s' p \<noteq> None \<and> \<lparr>server_pid = p, server_name = nm\<rparr> \<in> set (servers s')"
proof -
  obtain vs rc0 where sc: "claim_scan (kill_ok s q) q nm (servers s) = (vs, rc0)"
    and ps: "processes s' = processes s" and l: "length vs = MAX_SERVERS"
    and res: "case rc0 of Some c \<Rightarrow> rc = c \<and> servers s' = vs \<and> sem_holder s' = Some q
     | None \<Rightarrow> (case free_server vs 0 of None \<Rightarrow> rc = ENOSPC \<and> servers s' = vs \<and> sem_holder s' = Some q
       | Some i \<Rightarrow> rc = 0 \<and> servers s' = vs[i := \<lparr>server_pid = q, server_name = nm\<rparr>] \<and> sem_holder s' = None)"
    using claim_servers [OF assms(1-3)] assms(4) by metis
  note hit = claim_scan_Some [of "kill_ok s q" q nm "servers s" vs rc]
  {
    assume "rc = 0"
    then have "\<lparr>server_pid = q, server_name = nm\<rparr> \<in> set (servers s')"
      using res sc hit
      by (auto simp: errno_defs server_eta set_update_memI dest!: free_server_Some split: option.splits if_splits)
    then show "serves q nm s'" using ps assms(3,5) by (auto simp: serves_def)
  next
    assume p: "p \<noteq> q" and sv: "serves p nm s"
    have "rc0 \<noteq> None"
    proof
      assume n: "rc0 = None"
      have "\<lparr>server_pid = p, server_name = nm\<rparr> \<in> set vs"
        using claim_scan_keeps [OF sc] owner_alive [OF assms(1) sv assms(3,4)] sv by (auto simp: serves_def)
      then show False using claim_scan_None [of "kill_ok s q" q nm "servers s" vs] sc n assms(5) by force
    qed
    then obtain v where v: "v \<in> set (servers s)" "server_name v = nm" "if server_pid v = q then rc = 0 else rc = EEXIST"
      using hit sc res by (auto split: option.splits if_splits)
    have "v = \<lparr>server_pid = p, server_name = nm\<rparr>"
      using same_name [OF servers_ok_names [OF assms(1)] v(1)] sv v(2) assms(5) by (auto simp: serves_def)
    then show "rc = EEXIST" using v(3) p by auto
  next
    assume "rc = EEXIST"
    then have "rc0 = Some rc" "servers s' = vs" using res by (auto simp: errno_defs split: option.splits)
    then obtain v where "v \<in> set (servers s')" "server_name v = nm" "server_pid v \<noteq> q" "kill_ok s q (server_pid v)"
      using hit sc \<open>rc = EEXIST\<close> by (auto simp: errno_defs split: if_splits)
    then show "\<exists>p. p \<noteq> q \<and> processes s' p \<noteq> None \<and> \<lparr>server_pid = p, server_name = nm\<rparr> \<in> set (servers s')"
      using ps by (intro exI [of _ "server_pid v"]) (auto simp: kill_ok_def server_eta split: option.splits)
  }
qed

text \<open>
  C7: A server name has one owner. On a machine where processes start, end, fork and use the registry in any
  order, no name is entered twice. A process whose claim to a name succeeds
  (\<open>jack_register_server\<close> returns 0) owns it; it goes on owning it through every step of every
  process, until it ends or gives the name back itself. As long as it does, nobody else gets that name:
  their claims end with \<open>EEXIST\<close>, which is never returned without another live process in the entry (or \<open>ENOMEM\<close> when they cannot open the registry).
  Two things are left out, in the steps and in the claim: a process that finds the registry but cannot map it, or is told that
  it has the wrong size or is not there (\<open>readable\<close>), and a server started with the option to replace the registry. Both make a
  new registry under the old name, in which a name in use can be claimed again (\<open>mmap_failure_splits_registry\<close>).
\<close>

theorem server_names_exclusive:
  assumes "reachable tidy s"
  shows "distinct (filter (\<lambda>n. n \<noteq> '''') (map server_name (servers s))) \<and>
    (\<forall>sys1 sys2 q name pr s' rc. readable sys1 \<and> processes s q = Some pr \<and>
       jack_register_server sys1 sys2 q name False s = Returns s' rc \<longrightarrow>
       (rc = 0 \<longrightarrow> serves q (jack_set_server_prefix (uid pr) name) s') \<and>
       (\<forall>p. p \<noteq> q \<and> serves p (jack_set_server_prefix (uid pr) name) s \<longrightarrow> rc = EEXIST \<or> rc = ENOMEM) \<and>
       (rc = EEXIST \<longrightarrow> (\<exists>p. p \<noteq> q \<and> processes s' p \<noteq> None \<and>
          \<lparr>server_pid = p, server_name = jack_set_server_prefix (uid pr) name\<rparr> \<in> set (servers s')))) \<and>
    (\<forall>p nm a s'. serves p nm s \<and> shm_step tidy a s s' \<and> a \<noteq> Ends p \<and> a \<noteq> Unregisters p \<longrightarrow> serves p nm s')"
proof (intro conjI allI impI)
  have ok: "machine_ok s" by (rule reachable_ok [OF assms])
  show "distinct (filter (\<lambda>n. n \<noteq> '''') (map server_name (servers s)))" using servers_ok_names [OF ok] by (simp add: names_ok_def)
  show "serves p nm s'" if "serves p nm s \<and> shm_step tidy a s s' \<and> a \<noteq> Ends p \<and> a \<noteq> Unregisters p" for p nm a s'
    using serves_step that ok by blast
  fix sys1 sys2 q name pr s' rc
  assume a: "readable sys1 \<and> processes s q = Some pr \<and> jack_register_server sys1 sys2 q name False s = Returns s' rc"
  let ?nm = "jack_set_server_prefix (uid pr) name"
  let ?pr = "pr\<lparr>jack_shm_server_prefix := ?nm\<rparr>"
  have p0: "processes (set_prefix q name s) q = Some ?pr" using a by simp
  have claimed: "(rc = 0 \<longrightarrow> serves q ?nm s') \<and> (\<forall>p. p \<noteq> q \<and> serves p ?nm s \<longrightarrow> rc = EEXIST) \<and>
      (rc = EEXIST \<longrightarrow> (\<exists>p. p \<noteq> q \<and> processes s' p \<noteq> None \<and> \<lparr>server_pid = p, server_name = ?nm\<rparr> \<in> set (servers s')))"
    if i: "jack_server_initialize_shm sys1 sys2 q False (set_prefix q name s) = Returns s1 0" and c: "claim_server q s1 = Returns s' rc" for s1
  proof -
    have ok1: "machine_ok s1" using server_init_ok(1) [OF machine_ok_set_prefix [OF ok] _ p0 _ i] a by simp
    obtain pr1 where p1: "processes s1 q = Some pr1" "jack_shm_server_prefix pr1 = ?nm" "uid pr1 = uid pr"
      using init_prefix [OF i p0] by auto
    have sv: "serves p ?nm s1" if "serves p ?nm s" for p
      using serves_init [OF machine_ok_set_prefix [OF ok] _ _ i] a that by simp
    have nm: "?nm = jack_set_server_prefix (uid pr1) name" using p1(3) by simp
    note res = claim_result [OF ok1 c p1(1,2) nm]
    show ?thesis using res(1,3) res(2) [OF _ sv] by auto
  qed
  have r: "jack_register_server sys1 sys2 q name False s = Returns s' rc" using a by simp
  have both: "(rc = 0 \<longrightarrow> serves q ?nm s') \<and> (\<forall>p. p \<noteq> q \<and> serves p ?nm s \<longrightarrow> rc = EEXIST \<or> rc = ENOMEM) \<and>
      (rc = EEXIST \<longrightarrow> (\<exists>p. p \<noteq> q \<and> processes s' p \<noteq> None \<and> \<lparr>server_pid = p, server_name = ?nm\<rparr> \<in> set (servers s')))"
    using r
  proof (cases rule: register_splits)
    case (1 s1 rc1)
    then show ?thesis by (simp add: errno_defs)
  next
    case (2 s1)
    then show ?thesis using claimed by blast
  qed
  then show "rc = 0 \<Longrightarrow> serves q ?nm s'" by blast
  show "rc = EEXIST \<or> rc = ENOMEM" if "p \<noteq> q \<and> serves p ?nm s" for p using both that by blast
  show "\<exists>p. p \<noteq> q \<and> processes s' p \<noteq> None \<and> \<lparr>server_pid = p, server_name = ?nm\<rparr> \<in> set (servers s')" if "rc = EEXIST"
    using both that by blast
qed

text \<open>A machine with a server, process 10, under the name \<open>default\<close>, and a second process of the same user.\<close>

fun machine_after :: "'a shm_result \<Rightarrow> machine" where
  "machine_after (Returns s x) = s"
| "machine_after r = booted"

definition demo1 :: machine where
  "demo1 = booted\<lparr>processes := [10 \<mapsto> new_process 1000]\<rparr>"

definition demo2 :: machine where
  "demo2 = machine_after (jack_server_initialize_shm works works 10 False (set_prefix 10 ''default'' demo1))"

definition demo3 :: machine where
  "demo3 = machine_after (claim_server 10 demo2)"

definition demo4 :: machine where
  "demo4 = demo3\<lparr>processes := (processes demo3)(11 \<mapsto> new_process 1000)\<rparr>"

definition demo_prefix :: string where
  "demo_prefix = jack_set_server_prefix 1000 ''default''"

lemma init_registry_form: "\<exists>h r. jack_shm_init_registry = Registry h r \<and> jack_shm_validate_registry h = 0 \<and>
    server h = replicate MAX_SERVERS no_server \<and> shm_size (r ! 0) = 0"
  by (simp add: jack_shm_init_registry_def jack_shm_validate_registry_def MAX_SHM_ID_def)

lemma demo2_eq:
  "jack_server_initialize_shm works works 10 False (set_prefix 10 ''default'' demo1) = Returns demo2 0"
  "demo2 = \<lparr>shm_names = [registry_name \<mapsto> 0], shm_objects = (\<lambda>_. Segment 0)(0 := jack_shm_init_registry), shm_next = 1,
     sem_holder = None, processes = [10 \<mapsto> \<lparr>uid = 1000, jack_shm_header = Some 0, jack_shm_server_prefix = demo_prefix\<rparr>]\<rparr>"
  by (simp_all add: demo2_def demo1_def booted_def new_process_def works_def jack_server_initialize_shm_def set_prefix_def
      upd_process_def jack_shm_lock_registry_def jack_access_registry_def server_init_switch_def jack_create_registry_def
      open_create_def map_registry_def jack_shm_unlock_registry_def demo_prefix_def errno_defs)

definition demo_servers :: "jack_shm_server_t list" where
  "demo_servers = \<lparr>server_pid = 10, server_name = demo_prefix\<rparr> # replicate 7 no_server"

lemma demo_prefix_not_empty [simp]: "demo_prefix \<noteq> []" "[] \<noteq> demo_prefix"
  by (metis demo_prefix_def prefix_nonempty)+

lemma claim_empty:
  assumes "processes s q = Some pr" "registry_of s q = Some (obj, h, r)" "server h = replicate MAX_SERVERS no_server"
    "sem_holder s = None" "jack_shm_server_prefix pr \<noteq> []"
  shows "claim_server q s =
    Returns (put_registry obj (h\<lparr>server := \<lparr>server_pid = q, server_name = jack_shm_server_prefix pr\<rparr> # replicate 7 no_server\<rparr>) r s) 0"
proof -
  have l: "replicate MAX_SERVERS no_server = no_server # replicate 7 no_server" by (simp add: MAX_SERVERS_def numeral_eq_Suc)
  have sc: "claim_scan alive q (jack_shm_server_prefix pr) (replicate n no_server) = (replicate n no_server, None)" for alive n
    using assms(5) [symmetric] by (induction n) (simp_all add: no_server_def)
  have f: "free_server (no_server # replicate 7 no_server) 0 = Some 0" by (simp add: no_server_def)
  have u: "s\<lparr>sem_holder := None\<rparr> = s" using assms(4) by (cases s) simp
  show ?thesis
    using assms f sc [of _ MAX_SERVERS] u unfolding l
    by (simp add: claim_server_def jack_shm_lock_registry_def jack_shm_unlock_registry_def put_registry_def)
qed

lemma demo3_eq:
  "claim_server 10 demo2 = Returns demo3 0" "servers demo3 = demo_servers" "sem_holder demo3 = None"
  "processes demo3 = processes demo2" and demo_registry_name: "shm_names demo3 registry_name = Some 0"
  and demo_entries: "\<exists>h r. shm_objects demo3 0 = Registry h r \<and> shm_size (r ! 0) = 0"
proof -
  obtain h r where hr: "jack_shm_init_registry = Registry h r" "server h = replicate MAX_SERVERS no_server" "shm_size (r ! 0) = 0"
    using init_registry_form by blast
  have p: "processes demo2 10 = Some \<lparr>uid = 1000, jack_shm_header = Some 0, jack_shm_server_prefix = demo_prefix\<rparr>"
    "registry_of demo2 10 = Some (0, h, r)" "sem_holder demo2 = None"
    by (simp_all add: demo2_eq(2) registry_of_def hr(1))
  have c: "claim_server 10 demo2 = Returns (put_registry 0 (h\<lparr>server := demo_servers\<rparr>) r demo2) 0"
    using claim_empty [OF p(1,2) hr(2) p(3)] by (simp add: demo_servers_def)
  then show "claim_server 10 demo2 = Returns demo3 0" by (simp add: demo3_def)
  have d: "demo3 = put_registry 0 (h\<lparr>server := demo_servers\<rparr>) r demo2" using c by (simp add: demo3_def)
  show "servers demo3 = demo_servers" unfolding d by (simp add: servers_put demo2_eq(2))
  show "sem_holder demo3 = None" "processes demo3 = processes demo2" "shm_names demo3 registry_name = Some 0"
    "\<exists>h r. shm_objects demo3 0 = Registry h r \<and> shm_size (r ! 0) = 0"
    unfolding d using hr(3) by (simp_all add: demo2_eq(2) put_registry_def)
qed

lemma works_readable: "readable works"
  by (simp add: readable_def works_def errno_defs)

lemma demo_reachable: "reachable True demo3" "reachable True demo4"
proof -
  have "reachable True demo1"
    using reachable.step [OF reachable.boot shm_step.start [of booted 10 1000]]
    by (simp add: demo1_def booted_def uid_ok_def)
  then have "reachable True demo2" by (rule reachable.step) (rule shm_step.server_init [OF works_readable demo2_eq(1)])
  then show r: "reachable True demo3" by (rule reachable.step) (rule shm_step.claim [OF demo3_eq(1)])
  show "reachable True demo4" unfolding demo4_def
    by (rule reachable.step [OF r], rule shm_step.start) (simp_all add: demo3_eq(4) demo2_eq(2) uid_ok_def)
qed

lemma demo_serves: "serves 10 demo_prefix demo4"
  by (auto simp: serves_def demo4_def demo3_eq demo_servers_def demo2_eq(2) demo_prefix_def)

theorem server_names_exclusive_witness:
  "reachable True demo4 \<and> serves 10 demo_prefix demo4 \<and>
   (\<nexists>s'. jack_register_server works works 11 ''default'' False demo4 = Returns s' 0)"
proof -
  have p: "processes demo4 11 = Some (new_process 1000)" by (simp add: demo4_def)
  have nm: "jack_set_server_prefix (uid (new_process 1000)) ''default'' = demo_prefix" by (simp add: new_process_def demo_prefix_def)
  note x = conjunct1 [OF conjunct2 [OF server_names_exclusive [OF demo_reachable(2)]], rule_format, of works 11 "new_process 1000"]
  have "rc = EEXIST \<or> rc = ENOMEM" if r: "jack_register_server works works 11 ''default'' False demo4 = Returns s' rc" for s' rc
    using conjunct1 [OF conjunct2 [OF x [OF conjI [OF works_readable conjI [OF p r]]]], rule_format, of 10] demo_serves nm by simp
  then have "\<nexists>s'. jack_register_server works works 11 ''default'' False demo4 = Returns s' 0" by (fastforce simp: errno_defs)
  then show ?thesis using demo_reachable(2) demo_serves by blast
qed

text \<open>
  C22: The sweep of a server that starts or ends always completes when the registry is free. It frees the entry and
  removes the segment of everything that the caller itself or a process that no longer exists
  had allocated, and leaves the entries and segments of all other running processes as they are. If no
  \<open>ftruncate\<close> has failed before, every segment that is left afterwards belongs to another running process.
\<close>

theorem cleanup_frees_stale:
  assumes "reachable tidy s" "registry_of s p = Some (obj, h, r)" "sem_holder s = None"
  shows "\<exists>s' r'. jack_cleanup_shm p s = Returns s' () \<and> registry_of s' p = Some (obj, h, r') \<and> sem_holder s' = None \<and>
    (\<forall>i < MAX_SHM_ID.
       if allocator (r ! i) \<noteq> 0 \<and> (allocator (r ! i) = p \<or> processes s (allocator (r ! i)) = None)
       then shm_size (r' ! i) = 0 \<and> allocator (r' ! i) = 0 \<and> shm_names s' (segment_name (int i)) = None
       else r' ! i = r ! i \<and> shm_names s' (segment_name (int i)) = shm_names s (segment_name (int i))) \<and>
    (tidy \<longrightarrow> (\<forall>i < MAX_SHM_ID. shm_names s' (segment_name (int i)) \<noteq> None \<longrightarrow>
       allocator (r' ! i) \<noteq> p \<and> processes s' (allocator (r' ! i)) \<noteq> None))"
proof -
  have ok: "machine_ok s" by (rule reachable_ok [OF assms(1)])
  obtain s' where s': "jack_cleanup_shm p s = Returns s' ()"
    using assms(2,3) by (cases "fold (cleanup_entry p) [0..<MAX_SHM_ID] (s\<lparr>sem_holder := Some p\<rparr>, r)")
      (simp add: jack_cleanup_shm_def jack_shm_lock_registry_def)
  obtain r2 where c: "s' = (put_registry obj h r2 (s\<lparr>shm_names := swept_names s p r MAX_SHM_ID\<rparr>))\<lparr>sem_holder := None\<rparr>"
    "\<And>i. i < MAX_SHM_ID \<Longrightarrow> r2 ! i = (if stale s p (r ! i) then release_entry (r ! i) else r ! i)"
    using cleanup_result [OF ok s'] assms(2) by (metis option.inject prod.inject)
  have reg: "registry_of s' p = Some (obj, h, r2)"
    using assms(2) c(1) by (auto simp: registry_of_def put_registry_def split: option.splits shm_object.splits)
  have e: "if stale s p (r ! i)
      then shm_size (r2 ! i) = 0 \<and> allocator (r2 ! i) = 0 \<and> shm_names s' (segment_name (int i)) = None
      else r2 ! i = r ! i \<and> shm_names s' (segment_name (int i)) = shm_names s (segment_name (int i))" if "i < MAX_SHM_ID" for i
    using c(2) [OF that] that by (auto simp: c(1) put_registry_def swept_names_def release_entry_def)
  have t: "allocator (r2 ! i) \<noteq> p \<and> processes s' (allocator (r2 ! i)) \<noteq> None"
    if "tidy" "i < MAX_SHM_ID" "shm_names s' (segment_name (int i)) \<noteq> None" for i
  proof -
    have st: "\<not> stale s p (r ! i)" "r2 ! i = r ! i" "shm_names s (segment_name (int i)) \<noteq> None" using e [OF that(2)] that(3) by (auto split: if_splits)
    then have "shm_size (r ! i) \<noteq> 0" using reachable_ok(2) [OF assms(1) that(1)] that(2) registry_ofD(1,2) [OF ok assms(2)] by (auto simp: tidy_ok_def)
    then have "allocator (r ! i) \<noteq> 0" using registry_ofD(3) [OF ok assms(2)] that(2) by (auto simp: reg_ok_def entry_ok_def)
    then show ?thesis using st c(1) by (auto simp: stale_def)
  qed
  have sem: "sem_holder s' = None" by (simp add: c(1))
  show ?thesis
    by (intro exI [of _ s'] exI [of _ r2] conjI allI impI, rule s', rule reg, rule sem, erule e [unfolded stale_def])
      (use t in auto)
qed

lemma demo_registry: "\<exists>h r. registry_of demo4 10 = Some (0, h, r) \<and> shm_size (r ! 0) = 0"
  using demo_entries by (auto simp: registry_of_def demo4_def demo3_eq demo2_eq(2))

theorem cleanup_frees_stale_witness:
  "reachable True demo4 \<and> sem_holder demo4 = None \<and> (\<exists>s'. jack_cleanup_shm 10 demo4 = Returns s' () \<and> sem_holder s' = None)"
proof -
  obtain h r where "registry_of demo4 10 = Some (0, h, r)" using demo_registry by blast
  moreover have "sem_holder demo4 = None" by (simp add: demo4_def demo3_eq)
  ultimately show ?thesis using cleanup_frees_stale [OF demo_reachable(2)] demo_reachable(2) by metis
qed

lemma shmalloc_returns:
  assumes "registry_of s p = Some (obj, h, r)" "sem_holder s = None"
  shows "\<exists>s' res. jack_shmalloc sys p bytes s = Returns s' res"
proof (cases "jack_get_free_shm_info r 0")
  case None
  then show ?thesis using assms by (simp add: jack_shmalloc_def jack_shm_lock_registry_def)
next
  case (Some i)
  then show ?thesis using assms
    by (cases "open_create (segment_name (shm_index (r ! i))) (s\<lparr>sem_holder := Some p\<rparr>)")
      (simp add: jack_shmalloc_def jack_shm_lock_registry_def Let_def)
qed

text \<open>
  The early returns of \<open>jack_register_server\<close> keep the registry locked. If the name is taken, if all entries are
  taken, or if the process has the name already, the call returns without giving the semaphore
  back. From then on every operation of every process that needs the registry waits, the caller's
  own next one included, until the caller ends.
\<close>

theorem early_return_keeps_lock:
  assumes "reachable tidy s" "claim_server p s = Returns s' rc" "processes s p = Some pr"
    and "rc \<noteq> 0 \<or> \<lparr>server_pid = p, server_name = jack_shm_server_prefix pr\<rparr> \<in> set (servers s)"
  shows "sem_holder s' = Some p \<and>
    (\<forall>q. claim_server q s' = Waits \<and> jack_unregister_server q s' = Waits \<and> jack_cleanup_shm q s' = Waits \<and>
       (\<forall>sys n. jack_shmalloc sys q n s' = Waits)) \<and>
    sem_holder (end_process p s') = None"
proof -
  have ok: "machine_ok s" by (rule reachable_ok [OF assms(1)])
  obtain x where x: "registry_of s p = Some x" using assms(2) by (cases rule: claim_cases) blast+
  have n: "jack_shm_server_prefix pr \<noteq> []" by (rule prefix_set [OF ok assms(3) x])
  obtain vs rc0 where sc: "claim_scan (kill_ok s p) p (jack_shm_server_prefix pr) (servers s) = (vs, rc0)"
    and res: "case rc0 of Some c \<Rightarrow> rc = c \<and> servers s' = vs \<and> sem_holder s' = Some p
     | None \<Rightarrow> (case free_server vs 0 of None \<Rightarrow> rc = ENOSPC \<and> servers s' = vs \<and> sem_holder s' = Some p
       | Some i \<Rightarrow> rc = 0 \<and> servers s' = vs[i := \<lparr>server_pid = p, server_name = jack_shm_server_prefix pr\<rparr>] \<and> sem_holder s' = None)"
    using claim_servers [OF ok assms(2,3)] by metis
  have "rc0 \<noteq> None" if v: "\<lparr>server_pid = p, server_name = jack_shm_server_prefix pr\<rparr> \<in> set (servers s)"
  proof
    assume "rc0 = None"
    then show False
      using claim_scan_keeps [OF sc v] claim_scan_None [of "kill_ok s p" p "jack_shm_server_prefix pr" "servers s" vs] sc n by force
  qed
  then have h: "sem_holder s' = Some p" using res assms(4) by (auto split: option.splits)
  then show ?thesis
    by (simp add: claim_server_def jack_unregister_server_def jack_cleanup_shm_def jack_shmalloc_def jack_shm_lock_registry_def end_process_def)
qed

theorem early_return_keeps_lock_witness:
  "\<exists>s'. claim_server 10 demo4 = Returns s' 0 \<and> sem_holder s' = Some 10 \<and> jack_cleanup_shm 10 s' = Waits"
proof -
  let ?pr = "\<lparr>uid = 1000, jack_shm_header = Some 0, jack_shm_server_prefix = demo_prefix\<rparr>"
  have p: "processes demo4 10 = Some ?pr" by (simp add: demo4_def demo3_eq demo2_eq(2))
  obtain h r where hr: "registry_of demo4 10 = Some (0, h, r)" using demo_registry by blast
  have sv: "servers demo4 = demo_servers" "server h = demo_servers" using servers_registry [OF reachable_ok(1) [OF demo_reachable(2)] hr]
    by (simp_all add: demo4_def demo3_eq)
  have "sem_holder demo4 = None" by (simp add: demo4_def demo3_eq)
  then obtain s' where "claim_server 10 demo4 = Returns s' 0"
    using hr p sv(2) by (simp add: claim_server_def jack_shm_lock_registry_def demo_servers_def)
  then show ?thesis using early_return_keeps_lock [OF demo_reachable(2) _ p] sv(1) by (auto simp: demo_servers_def)
qed

lemma entry_eta:
  "shm_index x = k \<Longrightarrow> x\<lparr>shm_size := n, shm_id := nm, allocator := p\<rparr> = \<lparr>shm_index = k, allocator = p, shm_size = n, shm_id = nm\<rparr>"
  by (cases x) simp

lemma free_entry_first:
  "jack_get_free_shm_info xs i = Some j \<Longrightarrow> \<forall>k < j - i. shm_size (xs ! k) \<noteq> 0"
proof (induction xs i rule: jack_get_free_shm_info.induct)
  case (2 v vs i)
  show ?case
  proof (cases "shm_size v = 0")
    case False
    then have "jack_get_free_shm_info vs (Suc i) = Some j" using 2(2) by simp
    then show ?thesis using 2(1) False free_entry_Some [of vs "Suc i" j] by (auto simp: nth_Cons' less_diff_conv)
  qed (use 2 in auto)
qed simp

lemma created_apart:
  assumes "machine_ok s" "open_create name s = (s1, seg)"
  shows "\<forall>n. n \<noteq> name \<longrightarrow> shm_names s n \<noteq> Some seg" "\<forall>x. x \<noteq> seg \<longrightarrow> shm_objects s1 x = shm_objects s x"
  using assms by (auto simp: open_create_def machine_ok_def split: option.splits)

lemma made_facts:
  assumes "machine_ok s" "registry_of s p = Some (obj, h, r)" "i < MAX_SHM_ID" "open_create (segment_name (int i)) s = (s2, seg)"
    and s': "s' = (put_registry obj h (r[i := \<lparr>shm_index = int i, allocator = p, shm_size = bytes, shm_id = segment_name (int i)\<rparr>])
      (s2\<lparr>shm_objects := (shm_objects s2)(seg := Segment bytes)\<rparr>))\<lparr>sem_holder := None\<rparr>"
  shows "registry_of s' p = Some (obj, h, r[i := \<lparr>shm_index = int i, allocator = p, shm_size = bytes, shm_id = segment_name (int i)\<rparr>])"
    "shm_names s' = (shm_names s)(segment_name (int i) \<mapsto> seg)" "shm_objects s' seg = Segment bytes"
    "\<And>q. registry_of s' q \<noteq> None \<Longrightarrow> jack_attach_shm works q \<lparr>info_index = int i, attached_at = None\<rparr> s' =
        Returns s' (0, \<lparr>info_index = int i, attached_at = Some seg\<rparr>)"
proof -
  let ?r = "r[i := \<lparr>shm_index = int i, allocator = p, shm_size = bytes, shm_id = segment_name (int i)\<rparr>]"
  note d = registry_ofD [OF assms(1,2)]
  note o = open_create_ok [OF assms(1,4) segment_not_registry(1)]
  have so: "seg \<noteq> obj" using o(5) [OF d(1)] by blast
  have ob: "shm_objects s' obj = Registry h ?r" using so by (simp add: s' put_registry_def)
  show n: "shm_names s' = (shm_names s)(segment_name (int i) \<mapsto> seg)" "shm_objects s' seg = Segment bytes"
    using so o(2) by (simp_all add: s' put_registry_def)
  have pr: "processes s' = processes s" using o(3) by (simp add: s')
  show "registry_of s' p = Some (obj, h, ?r)" using d(4) ob by (auto simp: registry_of_def pr)
  show "jack_attach_shm works q \<lparr>info_index = int i, attached_at = None\<rparr> s' =
        Returns s' (0, \<lparr>info_index = int i, attached_at = Some seg\<rparr>)" if q: "registry_of s' q \<noteq> None" for q
  proof -
    obtain pq x where "processes s q = Some pq" "jack_shm_header pq = Some x" using q pr by (auto simp: registry_of_def split: option.splits)
    moreover then have "x = obj" using assms(1) d(1) by (auto simp: machine_ok_def process_ok_def)
    ultimately have "registry_of s' q = Some (obj, h, ?r)" using ob by (simp add: registry_of_def pr)
    then show ?thesis using d(3) assms(3) n(1) by (simp add: jack_attach_shm_def works_def reg_ok_def)
  qed
qed

text \<open>
  C34: A new segment. With the registry free, \<open>jack_shmalloc\<close> always returns. It fails only when all 256 entries are in use
  or the system refuses the segment, and then the registry is as before. Otherwise it takes the first entry that is free,
  which now holds size, owner and name; no other entry changes, the segment is not the object of another name, and no
  other object changes. Every process that has the registry mapped can attach the segment under the
  returned index. If no \<open>ftruncate\<close> has failed before (\<open>tidy\<close>), the name was not in use and the segment is a new
  object; otherwise it may be the one that a failed call has left behind under this name.
\<close>

theorem shmalloc_fresh:
  assumes "reachable tidy s" "registry_of s p = Some (obj, h, r)" "sem_holder s = None"
  shows "\<exists>s' rc si. jack_shmalloc sys p bytes s = Returns s' (rc, si) \<and> sem_holder s' = None \<and>
    (case si of
       None \<Rightarrow> rc = -1 \<and> registry_of s' p = Some (obj, h, r) \<and>
         ((\<forall>i < MAX_SHM_ID. shm_size (r ! i) \<noteq> 0) \<or> os_open sys \<noteq> 0 \<or> os_ftruncate sys \<noteq> 0)
     | Some si' \<Rightarrow> rc = 0 \<and>
         (\<exists>i seg r'. i < MAX_SHM_ID \<and> si' = \<lparr>info_index = int i, attached_at = None\<rparr> \<and>
            shm_size (r ! i) = 0 \<and> (\<forall>j < i. shm_size (r ! j) \<noteq> 0) \<and>
            registry_of s' p = Some (obj, h, r') \<and>
            r' = r[i := \<lparr>shm_index = int i, allocator = p, shm_size = bytes, shm_id = segment_name (int i)\<rparr>] \<and>
            shm_names s' = (shm_names s)(segment_name (int i) \<mapsto> seg) \<and> shm_objects s' seg = Segment bytes \<and>
            (\<forall>n. n \<noteq> segment_name (int i) \<longrightarrow> shm_names s n \<noteq> Some seg) \<and>
            (\<forall>x. x \<noteq> seg \<and> x \<noteq> obj \<longrightarrow> shm_objects s' x = shm_objects s x) \<and>
            (tidy \<longrightarrow> shm_names s (segment_name (int i)) = None \<and> seg = shm_next s) \<and>
            (\<forall>q. registry_of s' q \<noteq> None \<longrightarrow> jack_attach_shm works q si' s' = Returns s' (0, si'\<lparr>attached_at := Some seg\<rparr>))))"
proof -
  have ok: "machine_ok s" by (rule reachable_ok [OF assms(1)])
  note d = registry_ofD [OF ok assms(2)]
  have len: "length r = MAX_SHM_ID" using d(3) by (simp add: reg_ok_def)
  let ?x = "\<lambda>i. \<lparr>shm_index = int i, allocator = p, shm_size = bytes, shm_id = segment_name (int i)\<rparr>"
  obtain s' res where s': "jack_shmalloc sys p bytes s = Returns s' res"
    using shmalloc_returns [OF assms(2,3)] by blast
  have keep: "registry_of s' q = registry_of s q" if "processes s' = processes s" "shm_objects s' obj = shm_objects s obj" for q
    using that ok d(1) by (cases "processes s q") (auto simp: registry_of_def machine_ok_def process_ok_def split: option.splits)
  from ok s' show ?thesis
  proof (cases rule: shmalloc_cases)
    case (failed obj' h' r')
    then have "(\<forall>i < MAX_SHM_ID. shm_size (r ! i) \<noteq> 0) \<or> os_open sys \<noteq> 0"
      using assms(2) free_entry_None [of r 0] len by (metis nth_mem option.inject prod.inject)
    then show ?thesis using s' failed assms(2) by (intro exI [of _ s'] exI [of _ "-1"] exI [of _ None]) auto
  next
    case (left_over obj' h' r' i s2 seg)
    note o = open_create_ok [OF ok left_over(5) segment_not_registry(1)]
    have "registry_of s' p = Some (obj, h, r)" using keep [of p] o(3,5) d(1) assms(2) left_over(6) by simp
    then show ?thesis using s' left_over by (intro exI [of _ s'] exI [of _ "-1"] exI [of _ None]) auto
  next
    case (made obj' h' r' i s2 seg)
    then have same: "obj' = obj" "h' = h" "r' = r" using assms(2) by simp_all
    have i: "i < MAX_SHM_ID" "shm_size (r ! i) = 0" using free_entry_Some [OF made(3)] len same by simp_all
    have low: "\<forall>j < i. shm_size (r ! j) \<noteq> 0" using free_entry_first [OF made(3)] same by simp
    have ix: "shm_index (r ! i) = int i" using d(3) i(1) by (simp add: reg_ok_def entry_ok_def)
    have s'eq: "s' = (put_registry obj h (r[i := ?x i]) (s2\<lparr>shm_objects := (shm_objects s2)(seg := Segment bytes)\<rparr>))\<lparr>sem_holder := None\<rparr>"
      by (rule made(6) [unfolded same entry_eta [OF ix]])
    note f = made_facts [OF ok assms(2) i(1) made(4) s'eq]
    have own: "\<forall>n. n \<noteq> segment_name (int i) \<longrightarrow> shm_names s n \<noteq> Some seg"
      "\<forall>x. x \<noteq> seg \<and> x \<noteq> obj \<longrightarrow> shm_objects s' x = shm_objects s x"
      using created_apart [OF ok made(4)] s'eq by (simp_all add: put_registry_def)
    have nm: "shm_names s (segment_name (int i)) = None" if "tidy"
      using reachable_ok(2) [OF assms(1) that] i d(1,2) by (auto simp: tidy_ok_def)
    moreover have "seg = shm_next s" if "tidy" using nm [OF that] made(4) by (simp add: open_create_def)
    ultimately show ?thesis
      by (intro exI [of _ s'] exI [of _ 0] exI [of _ "Some \<lparr>info_index = int i, attached_at = None\<rparr>"] conjI)
        (use s' made(5) i low own f s'eq in auto)
  qed
qed

theorem shmalloc_fresh_witness:
  "\<exists>s' si. jack_shmalloc works 10 4096 demo4 = Returns s' (0, Some si) \<and> registry_of s' 10 \<noteq> None \<and>
     (\<exists>seg. jack_attach_shm works 10 si s' = Returns s' (0, si\<lparr>attached_at := Some seg\<rparr>))"
proof -
  obtain h r where hr: "registry_of demo4 10 = Some (0, h, r)" and z: "shm_size (r ! 0) = 0" using demo_registry by blast
  then have nf: "\<exists>i < MAX_SHM_ID. shm_size (r ! i) = 0" by (intro exI [of _ 0]) (simp add: MAX_SHM_ID_def)
  have "sem_holder demo4 = None" by (simp add: demo4_def demo3_eq)
  from shmalloc_fresh [OF demo_reachable(2) hr this, of works 4096] obtain s' rc si
    where "jack_shmalloc works 10 4096 demo4 = Returns s' (rc, si)" and c: "case si of
       None \<Rightarrow> (\<forall>i < MAX_SHM_ID. shm_size (r ! i) \<noteq> 0) \<or> os_open works \<noteq> 0 \<or> os_ftruncate works \<noteq> 0
     | Some si' \<Rightarrow> rc = 0 \<and> registry_of s' 10 \<noteq> None \<and> (\<exists>seg. \<forall>q. registry_of s' q \<noteq> None \<longrightarrow>
         jack_attach_shm works q si' s' = Returns s' (0, si'\<lparr>attached_at := Some seg\<rparr>))"
    by (fastforce split: option.splits)
  moreover obtain x where "si = Some x" using c nf by (cases si) (auto simp: works_def)
  ultimately show ?thesis by auto
qed

text \<open>
  A registry in use is replaced when mapping it fails. The code takes every failure of \<open>mmap\<close> for a registry of
  another version, removes its name and creates a new one. The process then registers whatever
  server name it wants, also one that a running server owns, while all other processes go on with
  the old registry, which they no longer share with anybody who comes later.
\<close>

theorem mmap_failure_splits_registry:
  assumes "reachable tidy s" "sem_holder s = None" "shm_names s registry_name = Some obj"
    "processes s q = Some pr" "jack_shm_header pr = None" "os_open sys = 0" "\<not> os_mmap sys"
  shows "\<exists>s'. jack_register_server sys works q name False s = Returns s' 0 \<and>
    serves q (jack_set_server_prefix (uid pr) name) s' \<and>
    shm_names s' registry_name \<noteq> Some obj \<and>
    (\<forall>p. p \<noteq> q \<longrightarrow> registry_of s' p = registry_of s p)"
proof -
  have ok: "machine_ok s" by (rule reachable_ok [OF assms(1)])
  let ?nm = "jack_set_server_prefix (uid pr) name"
  let ?x = "shm_next s"
  let ?pr = "\<lparr>uid = uid pr, jack_shm_header = Some ?x, jack_shm_server_prefix = ?nm\<rparr>"
  let ?s1 = "s\<lparr>shm_names := (shm_names s)(registry_name \<mapsto> ?x), shm_objects := (shm_objects s)(?x := jack_shm_init_registry),
    shm_next := Suc ?x, processes := (processes s)(q \<mapsto> ?pr)\<rparr>"
  have eta: "pr\<lparr>jack_shm_server_prefix := ?nm, jack_shm_header := Some ?x\<rparr> = ?pr" by (cases pr) simp
  have init: "jack_server_initialize_shm sys works q False (set_prefix q name s) = Returns ?s1 0"
    using assms(2-7) eta
    by (simp add: jack_server_initialize_shm_def jack_shm_lock_registry_def jack_access_registry_def server_init_switch_def
        jack_create_registry_def open_create_def jack_remove_shm_def map_registry_def set_prefix_def upd_process_def works_def
        jack_shm_unlock_registry_def errno_defs)
      (cases s; cases pr; simp)
  obtain h r where hr: "jack_shm_init_registry = Registry h r" "server h = replicate MAX_SERVERS no_server" using init_registry_form by blast
  let ?s' = "put_registry ?x (h\<lparr>server := \<lparr>server_pid = q, server_name = ?nm\<rparr> # replicate 7 no_server\<rparr>) r ?s1"
  have p1: "processes ?s1 q = Some ?pr" "registry_of ?s1 q = Some (?x, h, r)" "sem_holder ?s1 = None"
    using assms(2) by (simp_all add: registry_of_def hr(1))
  have c: "claim_server q ?s1 = Returns ?s' 0" using claim_empty [OF p1(1,2) hr(2) p1(3)] by simp
  have "serves q ?nm ?s'" by (auto simp: serves_def servers_put)
  moreover have "shm_names s n = Some y \<Longrightarrow> y \<noteq> ?x" for n y using ok by (auto simp: machine_ok_def)
  then have "registry_of ?s' p = registry_of s p" if "p \<noteq> q" for p
    using that ok assms(3) by (fastforce simp: registry_of_def put_registry_def machine_ok_def process_ok_def split: option.splits)
  moreover have "?x \<noteq> obj" using ok assms(3) by (auto simp: machine_ok_def)
  ultimately show ?thesis using init c by (intro exI [of _ ?s']) (simp add: jack_register_server_def put_registry_def)
qed

theorem mmap_failure_splits_registry_witness:
  "serves 10 demo_prefix demo4 \<and>
   (\<exists>s'. jack_register_server (works\<lparr>os_mmap := False\<rparr>) works 11 ''default'' False demo4 = Returns s' 0 \<and> serves 11 demo_prefix s')"
  using mmap_failure_splits_registry [OF demo_reachable(2), of 0 11 "new_process 1000" "works\<lparr>os_mmap := False\<rparr>" "''default''"] demo_serves
  by (auto simp: demo4_def demo3_eq demo_registry_name new_process_def works_def demo_prefix_def)

end
