(* ===== verification/NetPacket.thy ===== *)
theory NetPacket
  imports Jack_Prelude
begin

text \<open>
  Packets of the network driver, \<open>drivers/netjack/netjack_packet.c\<close>: the packet header and its byte
  order, sending a packet as fragments, and the cache in which a receiver puts fragments
  together again. Packets are lists of bytes. What \<open>malloc\<close> leaves in memory is a parameter.
\<close>

section \<open>Header\<close>

text \<open>The host is little-endian: \<open>htonl\<close> and \<open>ntohl\<close> swap the bytes.\<close>

definition swap32 :: "u32 \<Rightarrow> u32" where
  "swap32 w = of_nat (le_nat (rev (nat_le 4 (unat w))))"

record jacknet_packet_header =
  capture_channels_audio :: u32
  playback_channels_audio :: u32
  capture_channels_midi :: u32
  playback_channels_midi :: u32
  period_size :: u32
  sample_rate :: u32
  sync_state :: u32
  transport_frame :: u32
  transport_state :: u32
  hdr_framecnt :: u32
  latency :: u32
  reply_port :: u32
  hdr_mtu :: u32
  fragment_nr :: u32

definition packet_header_hton :: "jacknet_packet_header \<Rightarrow> jacknet_packet_header" where
  "packet_header_hton h =
     \<lparr>capture_channels_audio = swap32 (capture_channels_audio h), playback_channels_audio = swap32 (playback_channels_audio h),
      capture_channels_midi = swap32 (capture_channels_midi h), playback_channels_midi = swap32 (playback_channels_midi h),
      period_size = swap32 (period_size h), sample_rate = swap32 (sample_rate h), sync_state = swap32 (sync_state h),
      transport_frame = swap32 (transport_frame h), transport_state = swap32 (transport_state h),
      hdr_framecnt = swap32 (hdr_framecnt h), latency = swap32 (latency h), reply_port = swap32 (reply_port h),
      hdr_mtu = swap32 (hdr_mtu h), fragment_nr = swap32 (fragment_nr h)\<rparr>"

definition packet_header_ntoh :: "jacknet_packet_header \<Rightarrow> jacknet_packet_header" where
  "packet_header_ntoh h =
     \<lparr>capture_channels_audio = swap32 (capture_channels_audio h), playback_channels_audio = swap32 (playback_channels_audio h),
      capture_channels_midi = swap32 (capture_channels_midi h), playback_channels_midi = swap32 (playback_channels_midi h),
      period_size = swap32 (period_size h), sample_rate = swap32 (sample_rate h), sync_state = swap32 (sync_state h),
      transport_frame = swap32 (transport_frame h), transport_state = swap32 (transport_state h),
      hdr_framecnt = swap32 (hdr_framecnt h), latency = swap32 (latency h), reply_port = swap32 (reply_port h),
      hdr_mtu = swap32 (hdr_mtu h), fragment_nr = swap32 (fragment_nr h)\<rparr>"

text \<open>The header is 14 numbers, 56 bytes; \<open>framecnt\<close> is the tenth, \<open>fragment_nr\<close> the last.\<close>

definition header_size :: nat where "header_size = 56"
definition framecnt_at :: nat where "framecnt_at = 36"
definition fragment_nr_at :: nat where "fragment_nr_at = 52"

definition CELT_MODE :: int where "CELT_MODE = 1000"

definition get_sample_size :: "int \<Rightarrow> int" where
  "get_sample_size bitdepth = (if bitdepth = 8 then 1 else if bitdepth = 16 then 2 else if bitdepth = CELT_MODE then 1 else 4)"

definition net_bytes :: "u32 \<Rightarrow> byte list" where
  "net_bytes w = rev (nat_le 4 (unat w))"

definition ntohl_at :: "byte list \<Rightarrow> nat \<Rightarrow> u32" where
  "ntohl_at buf off = of_nat (le_nat (rev (bytes_at buf off 4)))"

section \<open>The cache\<close>

record cache_packet =
  valid :: bool
  num_fragments :: int
  packet_size :: int
  pkt_mtu :: int
  recv_timestamp :: u64
  framecnt :: u32
  fragment_array :: "bool list"
  packet_buf :: "byte list"

record packet_cache =
  packets :: "cache_packet list"
  cache_mtu :: int
  master_address :: nat
  master_address_valid :: bool
  last_framecnt_retreived :: u32
  last_framecnt_retreived_valid :: bool

text \<open>
  The number of fragments is computed in \<open>size_t\<close>. \<open>stale i\<close> are the contents of the memory allocated for
  packet \<open>i\<close>; \<open>None\<close> stands for the \<open>NULL\<close> that is returned when memory runs out.
\<close>

definition fragment_number :: "int \<Rightarrow> int \<Rightarrow> int c_result" where
  "fragment_number pkt_size mtu =
     (let payload = s32 (mtu - int header_size)
      in if pkt_size = int header_size then Value 1
         else if payload = 0 then Undefined
         else Value (s32 (int (unat ((word_of_int pkt_size - of_nat header_size - 1 :: u64) div word_of_int payload)) + 1)))"

definition packet_cache_new :: "bool \<Rightarrow> (nat \<Rightarrow> byte list \<times> bool list) \<Rightarrow> nat \<Rightarrow> int \<Rightarrow> int \<Rightarrow> packet_cache option c_result" where
  "packet_cache_new enough stale num_packets pkt_size mtu =
     (case fragment_number pkt_size mtu of
        Value n \<Rightarrow>
          if \<not> enough then Value None
          else Value (Some
            \<lparr>packets = map (\<lambda>i. \<lparr>valid = False, num_fragments = n, packet_size = pkt_size, pkt_mtu = mtu, recv_timestamp = 0,
                                 framecnt = 0, fragment_array = snd (stale i), packet_buf = fst (stale i)\<rparr>) [0..<num_packets],
             cache_mtu = mtu, master_address = 0, master_address_valid = False,
             last_framecnt_retreived = 0, last_framecnt_retreived_valid = False\<rparr>)
      | Undefined \<Rightarrow> Undefined
      | AssertFailed \<Rightarrow> AssertFailed)"

definition clear_fragments :: "cache_packet \<Rightarrow> bool list" where
  "clear_fragments p = replicate (nat (num_fragments p)) False @ drop (nat (num_fragments p)) (fragment_array p)"

definition cache_packet_reset :: "cache_packet \<Rightarrow> cache_packet" where
  "cache_packet_reset p = p\<lparr>valid := False, fragment_array := clear_fragments p\<rparr>"

definition cache_packet_set_framecnt :: "cache_packet \<Rightarrow> u32 \<Rightarrow> cache_packet" where
  "cache_packet_set_framecnt p f = p\<lparr>framecnt := f, fragment_array := clear_fragments p, valid := True\<rparr>"

text \<open>
  A fragment that was received into \<open>rx\<close>, of which \<open>rcv_len\<close> bytes are new. Fragment 0 is copied without a look
  at its length; for the others the test is made in unsigned arithmetic.
\<close>

definition fragment_fits :: "cache_packet \<Rightarrow> u32 \<Rightarrow> int \<Rightarrow> bool" where
  "fragment_fits p nr rcv_len \<longleftrightarrow>
     (ucast (nr * word_of_int (pkt_mtu p - int header_size) + word_of_int rcv_len) - of_nat header_size :: u64)
       \<le> word_of_int (packet_size p) - of_nat header_size"

definition cache_packet_add_fragment :: "cache_packet \<Rightarrow> byte list \<Rightarrow> int \<Rightarrow> cache_packet c_result" where
  "cache_packet_add_fragment p rx rcv_len =
     (let nr = ntohl_at rx fragment_nr_at; f = ntohl_at rx framecnt_at
      in if f \<noteq> framecnt p then Value p
         else if nr = 0 then
           (if rcv_len < 0 \<or> int (length rx) < rcv_len \<or> int (length (packet_buf p)) < rcv_len then Undefined
            else Value (p\<lparr>packet_buf := memcpy_at (packet_buf p) 0 (take (nat rcv_len) rx),
                          fragment_array := (fragment_array p)[0 := True]\<rparr>))
         else if nr < word_of_int (num_fragments p) then
           (if fragment_fits p nr rcv_len then
              (let off = header_size + unat (nr * word_of_int (pkt_mtu p - int header_size))
               in if rcv_len < int header_size \<or> int (length rx) < rcv_len
                     \<or> int (length (packet_buf p)) < int off + rcv_len - int header_size then Undefined
                  else Value (p\<lparr>packet_buf := memcpy_at (packet_buf p) off (drop header_size (take (nat rcv_len) rx)),
                                fragment_array := (fragment_array p)[unat nr := True]\<rparr>))
            else Value p)
         else Value p)"

definition cache_packet_is_complete :: "cache_packet \<Rightarrow> bool" where
  "cache_packet_is_complete p \<longleftrightarrow> (\<forall>i < nat (num_fragments p). fragment_array p ! i)"

fun find_packet :: "(cache_packet \<Rightarrow> bool) \<Rightarrow> cache_packet list \<Rightarrow> nat \<Rightarrow> nat option" where
  "find_packet P [] i = None"
| "find_packet P (p # ps) i = (if P p then Some i else find_packet P ps (Suc i))"

definition packet_cache_get_free_packet :: "cache_packet list \<Rightarrow> nat option" where
  "packet_cache_get_free_packet ps = find_packet (\<lambda>p. \<not> valid p) ps 0"

definition JACK_MAX_FRAMES :: u32 where "JACK_MAX_FRAMES = 4294967295"

fun oldest_loop :: "cache_packet list \<Rightarrow> nat \<Rightarrow> u32 \<Rightarrow> nat \<Rightarrow> nat" where
  "oldest_loop [] i minimal best = best"
| "oldest_loop (p # ps) i minimal best =
     (if valid p \<and> framecnt p < minimal then oldest_loop ps (Suc i) (framecnt p) i
      else oldest_loop ps (Suc i) minimal best)"

definition packet_cache_get_oldest_packet :: "cache_packet list \<Rightarrow> nat" where
  "packet_cache_get_oldest_packet ps = oldest_loop ps 0 JACK_MAX_FRAMES 0"

definition packet_cache_get_packet :: "cache_packet list \<Rightarrow> u32 \<Rightarrow> cache_packet list \<times> nat" where
  "packet_cache_get_packet ps f =
     (case find_packet (\<lambda>p. valid p \<and> framecnt p = f) ps 0 of
        Some i \<Rightarrow> (ps, i)
      | None \<Rightarrow>
          (case packet_cache_get_free_packet ps of
             Some i \<Rightarrow> (ps[i := cache_packet_set_framecnt (ps ! i) f], i)
           | None \<Rightarrow>
               (let i = packet_cache_get_oldest_packet ps
                in (ps[i := cache_packet_set_framecnt (cache_packet_reset (ps ! i)) f], i))))"

text \<open>One datagram from the socket: sender, receive buffer, length and time of arrival.\<close>

record datagram =
  dg_sender :: nat
  dg_buffer :: "byte list"
  dg_length :: int
  dg_time :: u64

definition drain_one :: "packet_cache \<Rightarrow> datagram \<Rightarrow> packet_cache c_result" where
  "drain_one c d =
     (if master_address_valid c \<and> dg_sender d \<noteq> master_address c then Value c
      else
        (let c1 = (if master_address_valid c then c else c\<lparr>master_address := dg_sender d, master_address_valid := True\<rparr>);
             f = ntohl_at (dg_buffer d) framecnt_at
         in if last_framecnt_retreived_valid c1 \<and> f \<le> last_framecnt_retreived c1 then Value c1
            else
              (case packet_cache_get_packet (packets c1) f of (ps, i) \<Rightarrow>
                 if length ps \<le> i then Undefined
                 else
                   (case cache_packet_add_fragment (ps ! i) (dg_buffer d) (dg_length d) of
                      Value p \<Rightarrow> Value (c1\<lparr>packets := ps[i := p\<lparr>recv_timestamp := dg_time d\<rparr>]\<rparr>)
                    | Undefined \<Rightarrow> Undefined
                    | AssertFailed \<Rightarrow> AssertFailed))))"

text \<open>All datagrams the socket has, until \<open>recvfrom\<close> fails.\<close>

fun packet_cache_drain_socket :: "packet_cache \<Rightarrow> datagram list \<Rightarrow> packet_cache c_result" where
  "packet_cache_drain_socket c [] = Value c"
| "packet_cache_drain_socket c (d # ds) =
     (case drain_one c d of
        Value c1 \<Rightarrow> packet_cache_drain_socket c1 ds
      | Undefined \<Rightarrow> Undefined
      | AssertFailed \<Rightarrow> AssertFailed)"

definition packet_cache_reset_master_address :: "packet_cache \<Rightarrow> packet_cache" where
  "packet_cache_reset_master_address c =
     c\<lparr>master_address_valid := False, last_framecnt_retreived := 0, last_framecnt_retreived_valid := False\<rparr>"

definition packet_cache_clear_old_packets :: "packet_cache \<Rightarrow> u32 \<Rightarrow> packet_cache" where
  "packet_cache_clear_old_packets c f =
     c\<lparr>packets := map (\<lambda>p. if valid p \<and> framecnt p < f then cache_packet_reset p else p) (packets c)\<rparr>"

definition packet_cache_retreive_packet_pointer :: "packet_cache \<Rightarrow> u32 \<Rightarrow> int \<Rightarrow> packet_cache \<times> int \<times> (byte list \<times> u64) option" where
  "packet_cache_retreive_packet_pointer c f pkt_size =
     (case find_packet (\<lambda>p. valid p \<and> framecnt p = f) (packets c) 0 of
        None \<Rightarrow> (c, -1, None)
      | Some i \<Rightarrow>
          (let p = packets c ! i
           in if \<not> cache_packet_is_complete p then (c, -1, None)
              else (c\<lparr>last_framecnt_retreived_valid := True, last_framecnt_retreived := f\<rparr>, pkt_size,
                    Some (packet_buf p, recv_timestamp p))))"

definition packet_cache_release_packet :: "packet_cache \<Rightarrow> u32 \<Rightarrow> packet_cache \<times> int" where
  "packet_cache_release_packet c f =
     (case find_packet (\<lambda>p. valid p \<and> framecnt p = f) (packets c) 0 of
        None \<Rightarrow> (c, -1)
      | Some i \<Rightarrow>
          (let p = packets c ! i
           in if \<not> cache_packet_is_complete p then (c, -1)
              else (packet_cache_clear_old_packets (c\<lparr>packets := (packets c)[i := cache_packet_reset p]\<rparr>) f, 0)))"

text \<open>The next frame that is complete, as an offset from the expected one.\<close>

fun next_loop :: "u32 \<Rightarrow> cache_packet list \<Rightarrow> u32 \<Rightarrow> bool \<Rightarrow> u32 \<times> bool" where
  "next_loop expected [] best found = (best, found)"
| "next_loop expected (p # ps) best found =
     (if \<not> valid p \<or> \<not> cache_packet_is_complete p then next_loop expected ps best found
      else if framecnt p < expected then next_loop expected ps best found
      else if best < framecnt p - expected then next_loop expected ps best found
      else if framecnt p - expected = 0 then (0, True)
      else next_loop expected ps (framecnt p - expected) True)"

definition packet_cache_get_next_available_framecnt :: "packet_cache \<Rightarrow> u32 \<Rightarrow> u32 option" where
  "packet_cache_get_next_available_framecnt c expected =
     (case next_loop expected (packets c) (JACK_MAX_FRAMES div 2 - 1) False of (best, found) \<Rightarrow>
        if found then Some (expected + best) else None)"

fun highest_loop :: "cache_packet list \<Rightarrow> u32 \<Rightarrow> bool \<Rightarrow> u32 \<times> bool" where
  "highest_loop [] best found = (best, found)"
| "highest_loop (p # ps) best found =
     (if \<not> valid p \<or> \<not> cache_packet_is_complete p then highest_loop ps best found
      else if framecnt p < best then highest_loop ps best found
      else highest_loop ps (framecnt p) True)"

definition packet_cache_get_highest_available_framecnt :: "packet_cache \<Rightarrow> u32 option" where
  "packet_cache_get_highest_available_framecnt c =
     (case highest_loop (packets c) 0 False of (best, found) \<Rightarrow> if found then Some best else None)"

fun latency_loop :: "u32 \<Rightarrow> cache_packet list \<Rightarrow> u32 \<Rightarrow> bool \<Rightarrow> u32 \<times> bool" where
  "latency_loop expected [] best found = (best, found)"
| "latency_loop expected (p # ps) best found =
     (if \<not> valid p \<or> \<not> cache_packet_is_complete p then latency_loop expected ps best found
      else if framecnt p - expected < best then latency_loop expected ps best found
      else if framecnt p - expected = 0 then (0, True)
      else latency_loop expected ps (framecnt p - expected) True)"

definition packet_cache_find_latency :: "packet_cache \<Rightarrow> u32 \<Rightarrow> u32 option" where
  "packet_cache_find_latency c expected =
     (case latency_loop expected (packets c) 0 False of (best, found) \<Rightarrow>
        if found then Some (JACK_MAX_FRAMES - best) else None)"

section \<open>Sending\<close>

text \<open>
  The loop that sends full fragments from offset \<open>off\<close>, then the last one. A payload size of 0 makes the loop
  endless, a negative one a copy of negative length.
\<close>

function send_loop :: "byte list \<Rightarrow> nat \<Rightarrow> nat \<Rightarrow> u32 \<Rightarrow> byte list list" where
  "send_loop buf payload off nr =
     (if 0 < payload \<and> off + payload < length buf then
        (memcpy_at (take header_size buf) fragment_nr_at (net_bytes nr) @ bytes_at buf off payload)
          # send_loop buf payload (off + payload) (nr + 1)
      else [memcpy_at (take header_size buf) fragment_nr_at (net_bytes nr) @ drop off buf])"
  by pat_completeness auto
termination by (relation "measure (\<lambda>(buf, payload, off, nr). length buf - off)") auto

declare send_loop.simps [simp del]

definition netjack_sendto :: "byte list \<Rightarrow> int \<Rightarrow> byte list list c_result" where
  "netjack_sendto buf mtu =
     (if int (length buf) \<le> mtu then Value [memcpy_at buf fragment_nr_at (net_bytes 0)]
      else if mtu \<le> int header_size then Undefined
      else Value (send_loop buf (nat mtu - header_size) header_size 0))"

end
