(* ===== verification/NetPacket_Inv.thy ===== *)
theory NetPacket_Inv
  imports NetPacket
begin

text \<open>
  Fragments and reassembly. Each byte of a packet belongs to one fragment. Sending gives the fragments
  in order; adding a fragment to a slot of the cache sets exactly the bytes that belong to it. A
  slot that has all fragments holds the packet.
\<close>

section \<open>Byte order\<close>

lemma le_nat_net: "le_nat (rev (net_bytes w)) = unat w"
  unfolding net_bytes_def rev_rev_ident by (rule le_nat_le) (use unat_lt [of w] in simp)

lemma length_net_bytes [simp]: "length (net_bytes w) = 4"
  by (simp add: net_bytes_def)

lemma nat_le_le_nat: "nat_le (length bs) (le_nat bs) = bs"
proof (induction bs)
  case (Cons b bs)
  have "unat b < 256" using unat_lt [of b] by simp
  then have "(unat b + 256 * le_nat bs) div 256 = le_nat bs" by simp
  moreover have "(256 :: byte) * x = 0" for x
  proof -
    have "(256 :: byte) = 0" by simp
    then show ?thesis by (simp only: mult_zero_left)
  qed
  then have "of_nat (unat b + 256 * le_nat bs) = b" by simp
  ultimately show ?case using Cons by simp
qed simp

lemma swap32_swap32 [simp]: "swap32 (swap32 w) = w"
proof -
  have l: "length (rev (nat_le 4 (unat w))) = 4" by simp
  have "le_nat (rev (nat_le 4 (unat w))) < 256 ^ 4" using le_nat_bound [of "rev (nat_le 4 (unat w))"] by simp
  then have "unat (of_nat (le_nat (rev (nat_le 4 (unat w)))) :: u32) = le_nat (rev (nat_le 4 (unat w)))"
    by (simp add: unat_of_nat)
  then have "nat_le 4 (unat (swap32 w)) = rev (nat_le 4 (unat w))"
    using nat_le_le_nat [of "rev (nat_le 4 (unat w))"] by (simp add: swap32_def)
  then have "swap32 (swap32 w) = of_nat (le_nat (nat_le 4 (unat w)))" by (simp add: swap32_def [of "swap32 w"])
  also have "le_nat (nat_le 4 (unat w)) = unat w" by (rule le_nat_le) (use unat_lt [of w] in simp)
  finally show ?thesis by simp
qed

section \<open>Fragments of a packet\<close>

definition format_ok :: "nat \<Rightarrow> nat \<Rightarrow> bool" where
  "format_ok n m \<longleftrightarrow> header_size < m \<and> header_size \<le> n \<and> n < 2 ^ 30 \<and> m < 2 ^ 30"

definition owner :: "nat \<Rightarrow> nat \<Rightarrow> nat" where
  "owner m j = (if j < header_size then 0 else (j - header_size) div (m - header_size))"

definition fragments :: "nat \<Rightarrow> nat \<Rightarrow> nat" where
  "fragments n m = (if n = header_size then 1 else (n - header_size - 1) div (m - header_size) + 1)"

definition frag :: "byte list \<Rightarrow> nat \<Rightarrow> nat \<Rightarrow> byte list" where
  "frag pkt m i = take fragment_nr_at pkt @ net_bytes (of_nat i) @ bytes_at pkt (header_size + i * (m - header_size)) (m - header_size)"

text \<open>The packet as the receiver has it in the end: the number in the header is that of fragment 0.\<close>

definition sealed :: "byte list \<Rightarrow> byte list" where
  "sealed pkt = memcpy_at pkt fragment_nr_at (net_bytes 0)"

lemmas layout_defs = header_size_def framecnt_at_def fragment_nr_at_def

lemma fragment_bound: "format_ok n m \<Longrightarrow> i < fragments n m \<Longrightarrow> header_size + i * (m - header_size) \<le> n"
proof -
  assume f: "format_ok n m" and i: "i < fragments n m"
  show ?thesis
  proof (cases "n = header_size")
    case True
    then show ?thesis using i by (simp add: fragments_def)
  next
    case False
    then have "i \<le> (n - header_size - 1) div (m - header_size)" using i by (simp add: fragments_def)
    then have "i * (m - header_size) \<le> n - header_size - 1" using f
      by (metis (no_types, lifting) div_times_less_eq_dividend le_trans mult_le_mono1)
    then show ?thesis using f unfolding format_ok_def header_size_def by linarith
  qed
qed

lemma owner_bound: "format_ok n m \<Longrightarrow> j < n \<Longrightarrow> owner m j < fragments n m"
proof -
  assume f: "format_ok n m" and j: "j < n"
  show ?thesis
  proof (cases "j < header_size")
    case True
    then show ?thesis by (simp add: owner_def fragments_def)
  next
    case False
    then have "(j - header_size) div (m - header_size) \<le> (n - header_size - 1) div (m - header_size)"
      using j by (intro div_le_mono) simp
    then show ?thesis using False j by (simp add: owner_def fragments_def less_Suc_eq_le)
  qed
qed

lemma fragments_small: "format_ok n m \<Longrightarrow> n \<le> m \<Longrightarrow> fragments n m = 1"
  by (auto simp: fragments_def format_ok_def)

lemma fragments_pos [simp]: "0 < fragments n m"
  by (simp add: fragments_def)

lemma fragments_less: "format_ok n m \<Longrightarrow> fragments n m < 2 ^ 30"
proof -
  assume f: "format_ok n m"
  have "(n - header_size - 1) div (m - header_size) \<le> n - header_size - 1" by (rule div_le_dividend)
  also have "\<dots> < 2 ^ 30 - 1" using f unfolding format_ok_def header_size_def by linarith
  finally show ?thesis by (simp add: fragments_def)
qed

text \<open>Whether a fragment after the one at \<open>off\<close> follows.\<close>

lemma last_fragment:
  assumes "format_ok n m" "n \<noteq> header_size" "i < fragments n m"
  shows "header_size + i * (m - header_size) + (m - header_size) < n \<longleftrightarrow> Suc i < fragments n m"
proof -
  let ?p = "m - header_size"
  have p: "0 < ?p" and n: "header_size < n" using assms(1,2) by (auto simp: format_ok_def)
  have "header_size + i * ?p + ?p < n \<longleftrightarrow> Suc i * ?p \<le> n - header_size - 1" using n by auto
  also have "\<dots> \<longleftrightarrow> Suc i \<le> (n - header_size - 1) div ?p" using p by (simp add: less_eq_div_iff_mult_less_eq)
  also have "\<dots> \<longleftrightarrow> Suc i < fragments n m" using assms(2) by (simp add: fragments_def Suc_le_eq)
  finally show ?thesis .
qed

lemma frag_header: "length pkt \<ge> header_size \<Longrightarrow> memcpy_at (take header_size pkt) fragment_nr_at (net_bytes w) = take fragment_nr_at pkt @ net_bytes w"
  by (simp add: memcpy_at_def layout_defs min_def)

lemma send_loop_frags:
  assumes "format_ok (length pkt) m" "length pkt \<noteq> header_size" "i < fragments (length pkt) m"
  shows "send_loop pkt (m - header_size) (header_size + i * (m - header_size)) (of_nat i) =
    map (frag pkt m) [i..<fragments (length pkt) m]"
  using assms(3)
proof (induction "fragments (length pkt) m - i" arbitrary: i)
  case (Suc k)
  let ?p = "m - header_size"
  have p: "0 < ?p" and l: "header_size \<le> length pkt" using assms(1) by (simp_all add: format_ok_def)
  have up: "[i..<fragments (length pkt) m] = i # [Suc i..<fragments (length pkt) m]" using Suc.prems by (simp add: upt_conv_Cons)
  show ?case
  proof (cases "Suc i < fragments (length pkt) m")
    case True
    then have "send_loop pkt ?p (header_size + Suc i * ?p) (of_nat (Suc i)) = map (frag pkt m) [Suc i..<fragments (length pkt) m]"
      using Suc.hyps(1) [of "Suc i"] Suc.hyps(2) by simp
    then show ?thesis
      using True p last_fragment [OF assms(1,2) Suc.prems] frag_header [OF l] up
      by (subst send_loop.simps) (simp add: frag_def add.assoc add.commute [of ?p] add.commute [of 1])
  next
    case False
    then have e: "fragments (length pkt) m = Suc i" using Suc.prems by simp
    have "length pkt \<le> header_size + i * ?p + ?p" using last_fragment [OF assms(1,2) Suc.prems] False by simp
    then have "bytes_at pkt (header_size + i * ?p) ?p = drop (header_size + i * ?p) pkt"
      by (simp add: bytes_at_def)
    then show ?thesis
      using False last_fragment [OF assms(1,2) Suc.prems] frag_header [OF l] e
      by (subst send_loop.simps) (simp add: frag_def)
  qed
qed simp

lemma sendto_frags:
  assumes "format_ok (length pkt) m"
  shows "netjack_sendto pkt (int m) = Value (map (frag pkt m) [0..<fragments (length pkt) m])"
proof (cases "length pkt \<le> m")
  case True
  have "bytes_at pkt header_size (m - header_size) = drop header_size pkt" using True by (simp add: bytes_at_def)
  then show ?thesis using True fragments_small [OF assms True]
    by (simp add: netjack_sendto_def frag_def memcpy_at_def layout_defs)
next
  case False
  then have "length pkt \<noteq> header_size" using assms by (auto simp: format_ok_def)
  from send_loop_frags [OF assms this, of 0] show ?thesis using False assms
    by (simp add: netjack_sendto_def format_ok_def)
qed

section \<open>Adding a fragment to a slot\<close>

definition slot_ok :: "nat \<Rightarrow> nat \<Rightarrow> cache_packet \<Rightarrow> bool" where
  "slot_ok n m p \<longleftrightarrow> num_fragments p = int (fragments n m) \<and> packet_size p = int n \<and> pkt_mtu p = int m \<and>
     length (packet_buf p) = n \<and> length (fragment_array p) = fragments n m"

text \<open>The receive buffer holds fragment \<open>i\<close> of the packet, and what was in it before.\<close>

definition carries :: "byte list \<Rightarrow> nat \<Rightarrow> nat \<Rightarrow> byte list \<Rightarrow> int \<Rightarrow> bool" where
  "carries pkt m i rx len \<longleftrightarrow> len = int (length (frag pkt m i)) \<and> length (frag pkt m i) \<le> length rx \<and>
     take (length (frag pkt m i)) rx = frag pkt m i"

lemma length_frag:
  "format_ok (length pkt) m \<Longrightarrow> length (frag pkt m i) = header_size + min (m - header_size) (length pkt - (header_size + i * (m - header_size)))"
  by (simp add: frag_def layout_defs format_ok_def)

lemma bytes_at_take: "off + k \<le> n \<Longrightarrow> bytes_at (take n xs) off k = bytes_at xs off k"
  by (simp add: bytes_at_def drop_take min_def)

lemma carries_fields:
  assumes "format_ok (length pkt) m" "carries pkt m i rx len" "i < 2 ^ 32"
  shows "ntohl_at rx framecnt_at = ntohl_at pkt framecnt_at" "ntohl_at rx fragment_nr_at = of_nat i"
proof -
  have l: "header_size \<le> length (frag pkt m i)" "header_size \<le> length pkt" using length_frag [OF assms(1)] assms(1) by (simp_all add: format_ok_def)
  have b: "bytes_at rx off 4 = bytes_at (frag pkt m i) off 4" if "off + 4 \<le> header_size" for off
    using assms(2) bytes_at_take [of off 4 "length (frag pkt m i)" rx] that l by (simp add: carries_def)
  have "bytes_at (frag pkt m i) framecnt_at 4 = bytes_at pkt framecnt_at 4"
    using l(2) by (simp add: frag_def bytes_at_def layout_defs drop_take)
  then show "ntohl_at rx framecnt_at = ntohl_at pkt framecnt_at" using b [of framecnt_at] by (simp add: ntohl_at_def layout_defs)
  have "bytes_at (frag pkt m i) fragment_nr_at 4 = net_bytes (of_nat i)"
    using l(2) by (simp add: frag_def bytes_at_def layout_defs)
  then show "ntohl_at rx fragment_nr_at = of_nat i" using b [of fragment_nr_at] le_nat_net [of "of_nat i"]
    by (simp add: ntohl_at_def layout_defs)
qed

lemma nth_sealed: "header_size \<le> length pkt \<Longrightarrow> header_size \<le> j \<Longrightarrow> j < length pkt \<Longrightarrow> sealed pkt ! j = pkt ! j"
  by (simp add: sealed_def nth_memcpy_at layout_defs)

lemma length_sealed [simp]: "header_size \<le> length pkt \<Longrightarrow> length (sealed pkt) = length pkt"
  by (simp add: sealed_def layout_defs)

lemma frag0: "format_ok (length pkt) m \<Longrightarrow> frag pkt m 0 = take m (sealed pkt)"
  by (auto simp: frag_def sealed_def memcpy_at_def bytes_at_def format_ok_def layout_defs take_drop min_def)

lemma owner_0: "header_size < m \<Longrightarrow> owner m j = 0 \<longleftrightarrow> j < m"
  by (auto simp: owner_def div_eq_0_iff)

lemma owner_pos:
  assumes "header_size < m" "0 < i"
  shows "owner m j = i \<longleftrightarrow> header_size + i * (m - header_size) \<le> j \<and> j < header_size + i * (m - header_size) + (m - header_size)"
proof (cases "j < header_size")
  case True
  then show ?thesis using assms by (auto simp: owner_def)
next
  case False
  let ?p = "m - header_size"
  have p: "0 < ?p" using assms by simp
  have "(j - header_size) div ?p = i \<longleftrightarrow> i * ?p \<le> j - header_size \<and> j - header_size < Suc i * ?p"
    unfolding less_eq_div_iff_mult_less_eq [OF p, symmetric] div_less_iff_less_mult [OF p, symmetric] by auto
  also have "\<dots> \<longleftrightarrow> header_size + i * ?p \<le> j \<and> j < header_size + i * ?p + ?p"
    unfolding mult_Suc using False by linarith
  finally show ?thesis using False by (simp add: owner_def)
qed

lemma fragment_fits_iff:
  assumes "format_ok n m" "slot_ok n m p" "0 < i" "i < fragments n m" "0 \<le> len" "len \<le> int m" "int header_size \<le> len"
  shows "fragment_fits p (of_nat i) len \<longleftrightarrow> i * (m - header_size) + nat len \<le> n"
    "unat (of_nat i * word_of_int (pkt_mtu p - int header_size) :: u32) = i * (m - header_size)"
proof -
  let ?p = "m - header_size"
  have ip: "i * ?p < 2 ^ 30" using fragment_bound [OF assms(1,4)] assms(1) by (simp add: format_ok_def)
  have m: "pkt_mtu p - int header_size = int ?p" using assms(1,2) by (simp add: slot_ok_def format_ok_def)
  have w: "(of_nat i * word_of_int (int ?p) :: u32) = of_nat (i * ?p)" by simp
  show "unat (of_nat i * word_of_int (pkt_mtu p - int header_size) :: u32) = i * ?p"
    unfolding m w using ip by (simp add: unat_of_nat del: of_nat_mult)
  have "nat len \<le> m" "m < 2 ^ 30" using assms(1,6) by (simp_all add: format_ok_def)
  then have s: "i * ?p + nat len < 2 ^ 31" using ip by simp
  have lw: "(word_of_int len :: u32) = of_nat (nat len)" using assms(5) by simp
  have "unat (of_nat i * word_of_int (pkt_mtu p - int header_size) + word_of_int len :: u32) = i * ?p + nat len"
    unfolding m w lw of_nat_add [symmetric] using s by (simp add: unat_of_nat del: of_nat_add of_nat_mult)
  then have l: "unat (ucast (of_nat i * word_of_int (pkt_mtu p - int header_size) + word_of_int len :: u32) - of_nat header_size :: u64)
      = i * ?p + nat len - header_size"
    using assms(7) by (subst unat_sub_le) (simp_all add: unat_ucast_up header_size_def)
  have "unat (word_of_int (packet_size p) - of_nat header_size :: u64) = n - header_size"
    using assms(1,2) by (subst unat_sub_le) (simp_all add: slot_ok_def format_ok_def header_size_def unat_of_nat)
  moreover have "i * ?p + nat len - header_size \<le> n - header_size \<longleftrightarrow> i * ?p + nat len \<le> n"
    using assms(1,7) unfolding format_ok_def by linarith
  ultimately show "fragment_fits p (of_nat i) len \<longleftrightarrow> i * ?p + nat len \<le> n"
    using l by (simp add: fragment_fits_def word_le_nat_alt)
qed

lemma add_fragment_first:
  assumes "format_ok (length pkt) m" "slot_ok (length pkt) m p" "carries pkt m 0 rx len" "framecnt p = ntohl_at pkt framecnt_at"
  shows "\<exists>buf. cache_packet_add_fragment p rx len = Value (p\<lparr>packet_buf := buf, fragment_array := (fragment_array p)[0 := True]\<rparr>) \<and>
    length buf = length pkt \<and> (\<forall>j < length pkt. buf ! j = (if owner m j = 0 then sealed pkt ! j else packet_buf p ! j))"
proof -
  have n: "header_size \<le> length pkt" "header_size < m" using assms(1) by (simp_all add: format_ok_def)
  have buf: "length (packet_buf p) = length pkt" using assms(2) by (simp add: slot_ok_def)
  have lf0: "length (frag pkt m 0) = min m (length pkt)" using frag0 [OF assms(1)] n by simp
  let ?b = "memcpy_at (packet_buf p) 0 (frag pkt m 0)"
  have "?b ! j = (if owner m j = 0 then sealed pkt ! j else packet_buf p ! j)" if "j < length pkt" for j
    using that n buf frag0 [OF assms(1)] by (simp add: nth_memcpy_at owner_0)
  moreover have "length (frag pkt m 0) \<le> length (packet_buf p)" using lf0 buf by simp
  then have "cache_packet_add_fragment p rx len = Value (p\<lparr>packet_buf := ?b, fragment_array := (fragment_array p)[0 := True]\<rparr>)"
    using carries_fields [OF assms(1,3)] assms(3,4) by (simp add: cache_packet_add_fragment_def carries_def)
  ultimately show ?thesis using buf lf0 by (intro exI [of _ ?b]) simp
qed

lemma add_fragment_next:
  assumes "format_ok (length pkt) m" "slot_ok (length pkt) m p" "carries pkt m i rx len" "i < fragments (length pkt) m"
    "framecnt p = ntohl_at pkt framecnt_at" "0 < i"
  shows "\<exists>buf. cache_packet_add_fragment p rx len = Value (p\<lparr>packet_buf := buf, fragment_array := (fragment_array p)[i := True]\<rparr>) \<and>
    length buf = length pkt \<and> (\<forall>j < length pkt. buf ! j = (if owner m j = i then sealed pkt ! j else packet_buf p ! j))"
proof -
  let ?n = "length pkt" and ?p = "m - header_size"
  let ?off = "header_size + i * ?p"
  let ?b = "memcpy_at (packet_buf p) ?off (drop header_size (frag pkt m i))"
  have i: "fragments ?n m < 2 ^ 30" "i < 2 ^ 32" using fragments_less [OF assms(1)] assms(4) by simp_all
  have n: "header_size \<le> ?n" "header_size < m" using assms(1) by (simp_all add: format_ok_def)
  have buf: "length (packet_buf p) = ?n" using assms(2) by (simp add: slot_ok_def)
  have len: "len = int (length (frag pkt m i))" "length (frag pkt m i) \<le> length rx" "take (length (frag pkt m i)) rx = frag pkt m i"
    using assms(3) by (simp_all add: carries_def)
  note lf = length_frag [OF assms(1), of i]
  have nr: "(of_nat i :: u32) \<noteq> 0" "(of_nat i :: u32) < word_of_int (num_fragments p)"
    using assms(2,4,6) i by (simp_all add: slot_ok_def word_unat_eq_iff word_less_nat_alt unat_of_nat)
  have off: "?off \<le> ?n" by (rule fragment_bound [OF assms(1,4)])
  have hs: "length (frag pkt m i) \<le> header_size + ?p" "header_size \<le> length (frag pkt m i)" unfolding lf by simp_all
  have "min ?p (?n - ?off) \<le> ?n - ?off" by simp
  then have bound: "i * ?p + length (frag pkt m i) \<le> ?n" unfolding lf using off by linarith
  have lr: "0 \<le> len" "len \<le> int m" "int header_size \<le> len" using len(1) n hs by simp_all
  have fits: "fragment_fits p (of_nat i) len" "unat (of_nat i * word_of_int (pkt_mtu p - int header_size) :: u32) = i * ?p"
    using fragment_fits_iff [OF assms(1,2,6,4) lr] len(1) bound by simp_all
  have ib: "int i * (int m - int header_size) + int (length (frag pkt m i)) \<le> int ?n"
    using bound n(2) by (metis of_nat_add of_nat_diff of_nat_le_iff of_nat_mult order_less_imp_le)
  have add: "cache_packet_add_fragment p rx len = Value (p\<lparr>packet_buf := ?b, fragment_array := (fragment_array p)[i := True]\<rparr>)"
    using carries_fields [OF assms(1,3) i(2)] nr assms(5) fits len lr buf ib i(2) n(2)
    by (simp add: cache_packet_add_fragment_def Let_def unat_of_nat)
  have data: "drop header_size (frag pkt m i) = bytes_at pkt ?off ?p" using n by (simp add: frag_def layout_defs)
  have "?b ! j = (if owner m j = i then sealed pkt ! j else packet_buf p ! j)" if "j < ?n" for j
  proof -
    have sl: "?off + length (bytes_at pkt ?off ?p) \<le> length (packet_buf p)" using off buf by simp
    have "?b ! j = (if ?off \<le> j \<and> j < ?off + length (bytes_at pkt ?off ?p) then bytes_at pkt ?off ?p ! (j - ?off) else packet_buf p ! j)"
      unfolding data using nth_memcpy_at [OF sl, of j] that buf by simp
    moreover have "j < ?off + length (bytes_at pkt ?off ?p) \<longleftrightarrow> j < ?off + ?p" using that by auto
    moreover have "bytes_at pkt ?off ?p ! (j - ?off) = pkt ! j" if "?off \<le> j" "j < ?off + ?p"
      using that \<open>j < ?n\<close> by (subst nth_bytes_at) (simp_all add: less_diff_conv2)
    ultimately show ?thesis
      using that owner_pos [OF n(2) assms(6), of j] nth_sealed [OF n(1), of j] by auto
  qed
  moreover have "length ?b = ?n" using bound hs(2) buf by (subst length_memcpy_at) simp_all
  ultimately show ?thesis using add by (intro exI [of _ ?b]) simp
qed

lemma add_fragment:
  assumes "format_ok (length pkt) m" "slot_ok (length pkt) m p" "carries pkt m i rx len" "i < fragments (length pkt) m"
    "framecnt p = ntohl_at pkt framecnt_at"
  shows "\<exists>buf. cache_packet_add_fragment p rx len = Value (p\<lparr>packet_buf := buf, fragment_array := (fragment_array p)[i := True]\<rparr>) \<and>
    length buf = length pkt \<and> (\<forall>j < length pkt. buf ! j = (if owner m j = i then sealed pkt ! j else packet_buf p ! j))"
  using add_fragment_first [OF assms(1,2) _ assms(5)] add_fragment_next [OF assms] assms(3) by (cases "i = 0") auto

text \<open>
  A slot agrees with a packet if the bytes of the fragments marked as received are those of the
  packet. It then holds the packet once all fragments are marked.
\<close>

definition agrees :: "byte list \<Rightarrow> nat \<Rightarrow> cache_packet \<Rightarrow> bool" where
  "agrees pkt m p \<longleftrightarrow> slot_ok (length pkt) m p \<and> framecnt p = ntohl_at pkt framecnt_at \<and>
     (\<forall>j < length pkt. fragment_array p ! owner m j \<longrightarrow> packet_buf p ! j = sealed pkt ! j)"

lemma agrees_complete:
  assumes "format_ok (length pkt) m" "agrees pkt m p" "cache_packet_is_complete p"
  shows "packet_buf p = sealed pkt"
proof (rule nth_equalityI)
  have n: "header_size \<le> length pkt" using assms(1) by (simp add: format_ok_def)
  then show l: "length (packet_buf p) = length (sealed pkt)" using assms(2) by (simp add: agrees_def slot_ok_def)
  fix j assume "j < length (packet_buf p)"
  then have j: "j < length pkt" using l n by simp
  then have "fragment_array p ! owner m j"
    using assms(2,3) owner_bound [OF assms(1) j] by (simp add: cache_packet_is_complete_def agrees_def slot_ok_def)
  then show "packet_buf p ! j = sealed pkt ! j" using assms(2) j by (simp add: agrees_def)
qed

lemma agrees_add:
  assumes "format_ok (length pkt) m" "agrees pkt m p" "carries pkt m i rx len" "i < fragments (length pkt) m"
  obtains p' where "cache_packet_add_fragment p rx len = Value p'" "agrees pkt m p'"
    "fragment_array p' = (fragment_array p)[i := True]" "valid p' = valid p" "framecnt p' = framecnt p"
proof -
  have s: "slot_ok (length pkt) m p" "framecnt p = ntohl_at pkt framecnt_at" using assms(2) by (simp_all add: agrees_def)
  obtain buf where b: "cache_packet_add_fragment p rx len = Value (p\<lparr>packet_buf := buf, fragment_array := (fragment_array p)[i := True]\<rparr>)"
    "length buf = length pkt" "\<And>j. j < length pkt \<Longrightarrow> buf ! j = (if owner m j = i then sealed pkt ! j else packet_buf p ! j)"
    using add_fragment [OF assms(1) s(1) assms(3,4) s(2)] by auto
  have "agrees pkt m (p\<lparr>packet_buf := buf, fragment_array := (fragment_array p)[i := True]\<rparr>)"
    using assms(2) b(2,3) by (auto simp: agrees_def slot_ok_def nth_list_update split: if_splits)
  then show thesis using that [OF b(1)] by simp
qed

lemma agrees_fresh:
  assumes "slot_ok (length pkt) m p" "format_ok (length pkt) m" "f = ntohl_at pkt framecnt_at"
  shows "agrees pkt m (cache_packet_set_framecnt p f)"
    "fragment_array (cache_packet_set_framecnt p f) = replicate (fragments (length pkt) m) False"
proof -
  have a: "fragment_array (cache_packet_set_framecnt p f) = replicate (fragments (length pkt) m) False"
    using assms(1) by (simp add: cache_packet_set_framecnt_def clear_fragments_def slot_ok_def)
  then show "fragment_array (cache_packet_set_framecnt p f) = replicate (fragments (length pkt) m) False" .
  have "slot_ok (length pkt) m (cache_packet_set_framecnt p f)" using a assms(1) by (simp add: slot_ok_def cache_packet_set_framecnt_def)
  then show "agrees pkt m (cache_packet_set_framecnt p f)"
    using a assms(2,3) owner_bound by (auto simp: agrees_def) (simp_all add: cache_packet_set_framecnt_def)
qed

end
