(* ===== verification/NetPacket_Properties.thy ===== *)
theory NetPacket_Properties
  imports NetPacket_Inv
begin

text \<open>
  What the packet layer of the network driver promises: whatever the order in which the fragments of several
  packets arrive, and however often, a packet can be taken out exactly when all its fragments are there, and it
  is the packet that was sent; the next frame is the right one; and fragments that no sender would
  make run over the end of the buffer.
\<close>

section \<open>Several packets in the cache\<close>

lemma find_packet_Some: "find_packet P ps i = Some j \<Longrightarrow> i \<le> j \<and> j < i + length ps \<and> P (ps ! (j - i))"
proof (induction P ps i rule: find_packet.induct)
  case (2 P p ps i)
  then show ?case by (cases "P p") (auto simp: nth_Cons' Suc_le_eq)
qed simp

lemma find_packet_None: "find_packet P ps i = None \<longleftrightarrow> (\<forall>p \<in> set ps. \<not> P p)"
  by (induction P ps i rule: find_packet.induct) auto

text \<open>
  The cache holds what has arrived: \<open>pk f\<close> is the packet of frame \<open>f\<close>, \<open>F\<close> the frames on their way, \<open>got\<close> the
  fragments received.
\<close>

definition slot_holds :: "(u32 \<Rightarrow> byte list) \<Rightarrow> nat \<Rightarrow> nat \<Rightarrow> u32 set \<Rightarrow> (u32 \<times> nat) set \<Rightarrow> cache_packet \<Rightarrow> bool" where
  "slot_holds pk n m F got p \<longleftrightarrow> framecnt p \<in> F \<and> agrees (pk (framecnt p)) m p \<and>
     (\<forall>k < fragments n m. fragment_array p ! k \<longleftrightarrow> (framecnt p, k) \<in> got)"

definition cache_ok :: "(u32 \<Rightarrow> byte list) \<Rightarrow> nat \<Rightarrow> nat \<Rightarrow> u32 set \<Rightarrow> (u32 \<times> nat) set \<Rightarrow> cache_packet list \<Rightarrow> bool" where
  "cache_ok pk n m F got ps \<longleftrightarrow>
     (\<forall>p \<in> set ps. slot_ok n m p \<and> (valid p \<longrightarrow> slot_holds pk n m F got p)) \<and>
     (\<forall>i < length ps. \<forall>j < length ps. valid (ps ! i) \<longrightarrow> valid (ps ! j) \<longrightarrow> framecnt (ps ! i) = framecnt (ps ! j) \<longrightarrow> i = j) \<and>
     (\<forall>f k. (f, k) \<in> got \<longrightarrow> (\<exists>p \<in> set ps. valid p \<and> framecnt p = f))"

definition stream_ok :: "(u32 \<Rightarrow> byte list) \<Rightarrow> nat \<Rightarrow> nat \<Rightarrow> u32 set \<Rightarrow> bool" where
  "stream_ok pk n m F \<longleftrightarrow> format_ok n m \<and> finite F \<and> (\<forall>f \<in> F. length (pk f) = n \<and> ntohl_at (pk f) framecnt_at = f)"

lemma free_slot:
  assumes "cache_ok pk n m F got ps" "finite F" "card F \<le> length ps" "f \<in> F" "\<forall>p \<in> set ps. \<not> (valid p \<and> framecnt p = f)"
  shows "\<exists>i. packet_cache_get_free_packet ps = Some i"
proof (rule ccontr)
  assume "\<not> ?thesis"
  then have v: "\<forall>p \<in> set ps. valid p" by (auto simp: packet_cache_get_free_packet_def find_packet_None)
  then have d: "distinct (map framecnt ps)" using assms(1) by (auto simp: cache_ok_def distinct_conv_nth)
  have "set (map framecnt ps) \<subseteq> F - {f}" using v assms(1,5) by (auto simp: cache_ok_def slot_holds_def)
  then have "card (set (map framecnt ps)) \<le> card (F - {f})" using assms(2) by (intro card_mono) auto
  then have "length ps \<le> card (F - {f})" using distinct_card [OF d] by simp
  also have "\<dots> < card F" using assms(2,4) by (rule card_Diff1_less)
  finally show False using assms(3) by simp
qed

lemma cache_ok_update:
  assumes "cache_ok pk n m F got ps" "j < length ps" "slot_ok n m p" "slot_holds pk n m F got' p" "valid p"
    and "got \<subseteq> got'" "\<And>f k. (f, k) \<in> got' \<Longrightarrow> f \<noteq> framecnt p \<Longrightarrow> (f, k) \<in> got"
    and "\<And>i. i < length ps \<Longrightarrow> i \<noteq> j \<Longrightarrow> valid (ps ! i) \<Longrightarrow> framecnt (ps ! i) \<noteq> framecnt p"
    and "valid (ps ! j) \<Longrightarrow> framecnt (ps ! j) = framecnt p"
  shows "cache_ok pk n m F got' (ps[j := p])"
  unfolding cache_ok_def
proof (intro conjI ballI allI impI)
  fix q assume "q \<in> set (ps[j := p])"
  then obtain i where i: "i < length ps" "q = ps[j := p] ! i" by (auto simp: in_set_conv_nth)
  have "slot_ok n m q \<and> (valid q \<longrightarrow> slot_holds pk n m F got' q)"
  proof (cases "i = j")
    case True
    then show ?thesis using i assms(3,4) by simp
  next
    case False
    then have q: "q = ps ! i" using i by simp
    then have "slot_ok n m q" "valid q \<Longrightarrow> slot_holds pk n m F got q" "valid q \<Longrightarrow> framecnt q \<noteq> framecnt p"
      using assms(1,8) i(1) False by (auto simp: cache_ok_def)
    then show ?thesis using assms(6,7) unfolding slot_holds_def by blast
  qed
  then show "slot_ok n m q" "valid q \<Longrightarrow> slot_holds pk n m F got' q" by blast+
next
  fix a b
  assume ab: "a < length (ps[j := p])" "b < length (ps[j := p])" "valid (ps[j := p] ! a)" "valid (ps[j := p] ! b)"
    "framecnt (ps[j := p] ! a) = framecnt (ps[j := p] ! b)"
  show "a = b" using ab assms(1,2) assms(8) [of a] assms(8) [of b] by (auto simp: cache_ok_def nth_list_update split: if_splits)
next
  fix g k assume g: "(g, k) \<in> got'"
  show "\<exists>q \<in> set (ps[j := p]). valid q \<and> framecnt q = g"
  proof (cases "g = framecnt p")
    case True
    then show ?thesis using assms(2,5) set_update_memI [OF assms(2)] by blast
  next
    case False
    then have "(g, k) \<in> got" using g assms(7) by blast
    then obtain q where q: "q \<in> set ps" "valid q" "framecnt q = g" using assms(1) unfolding cache_ok_def by blast
    then obtain i where i: "i < length ps" "ps ! i = q" by (auto simp: in_set_conv_nth)
    then have "i \<noteq> j" using q False assms(9) by auto
    then have "q = ps[j := p] ! i" "i < length (ps[j := p])" using i by simp_all
    then show ?thesis using q nth_mem by blast
  qed
qed

text \<open>Looking up a frame gives a slot for it, a fresh one if there was none.\<close>

lemma get_packet:
  assumes "cache_ok pk n m F got ps" "stream_ok pk n m F" "card F \<le> length ps" "f \<in> F" "packet_cache_get_packet ps f = (ps', i)"
  shows "cache_ok pk n m F got ps'" "length ps' = length ps" "i < length ps'" "valid (ps' ! i)" "framecnt (ps' ! i) = f"
proof -
  have "cache_ok pk n m F got ps' \<and> length ps' = length ps \<and> i < length ps' \<and> valid (ps' ! i) \<and> framecnt (ps' ! i) = f"
  proof (cases "find_packet (\<lambda>p. valid p \<and> framecnt p = f) ps 0")
    case (Some j)
    then show ?thesis using assms(1,5) find_packet_Some [OF Some] by (auto simp: packet_cache_get_packet_def)
  next
    case None
    then have no: "\<forall>p \<in> set ps. \<not> (valid p \<and> framecnt p = f)" by (simp add: find_packet_None)
    obtain j where j: "packet_cache_get_free_packet ps = Some j"
      using free_slot [OF assms(1) _ assms(3,4) no] assms(2) by (auto simp: stream_ok_def)
    have jl: "j < length ps" "\<not> valid (ps ! j)" using find_packet_Some [of _ ps 0 j] j by (auto simp: packet_cache_get_free_packet_def)
    let ?p = "cache_packet_set_framecnt (ps ! j) f"
    have e: "ps' = ps[j := ?p]" "i = j" using assms(5) None j by (auto simp: packet_cache_get_packet_def)
    have pf: "length (pk f) = n" "f = ntohl_at (pk f) framecnt_at" "format_ok n m" using assms(2,4) by (simp_all add: stream_ok_def)
    have so: "slot_ok n m (ps ! j)" using assms(1) jl by (simp add: cache_ok_def)
    have fp: "framecnt ?p = f" "valid ?p" by (simp_all add: cache_packet_set_framecnt_def)
    have none: "(f, k) \<notin> got" for k using assms(1) no by (auto simp: cache_ok_def)
    have ag: "agrees (pk f) m ?p" "fragment_array ?p = replicate (fragments n m) False"
      using agrees_fresh [of "pk f" m "ps ! j" f] so pf by simp_all
    have sh: "slot_holds pk n m F got ?p" unfolding slot_holds_def fp using ag none assms(4) by simp
    have sk: "slot_ok n m ?p" using ag(1) pf(1) by (simp add: agrees_def)
    have "cache_ok pk n m F got (ps[j := ?p])"
      using sh sk fp jl no by (intro cache_ok_update [OF assms(1)]) auto
    then show ?thesis using e jl fp by simp
  qed
  then show "cache_ok pk n m F got ps'" "length ps' = length ps" "i < length ps'" "valid (ps' ! i)" "framecnt (ps' ! i) = f" by blast+
qed

section \<open>Draining the socket\<close>

text \<open>Datagram \<open>d\<close> brings fragment \<open>k\<close> of those in \<open>frs\<close>.\<close>

definition arrives :: "byte list list \<Rightarrow> nat \<Rightarrow> datagram \<Rightarrow> bool" where
  "arrives frs k d \<longleftrightarrow> dg_length d = int (length (frs ! k)) \<and> length (frs ! k) \<le> length (dg_buffer d) \<and>
     take (length (frs ! k)) (dg_buffer d) = frs ! k"

definition from_master :: "packet_cache \<Rightarrow> nat \<Rightarrow> bool" where
  "from_master c a \<longleftrightarrow> \<not> last_framecnt_retreived_valid c \<and> (master_address_valid c \<longrightarrow> master_address c = a)"

lemma stream_fields:
  assumes "stream_ok pk n m F" "f \<in> F" "k < fragments n m" "carries (pk f) m k rx len"
  shows "ntohl_at rx framecnt_at = f" "ntohl_at rx fragment_nr_at = of_nat k"
proof -
  have pf: "length (pk f) = n" "ntohl_at (pk f) framecnt_at = f" "format_ok n m" using assms(1,2) by (simp_all add: stream_ok_def)
  then have fm: "format_ok (length (pk f)) m" by simp
  have k: "k < 2 ^ 32" using fragments_less [OF pf(3)] assms(3) by simp
  from carries_fields [OF fm assms(4) k] pf(2) show "ntohl_at rx framecnt_at = f" "ntohl_at rx fragment_nr_at = of_nat k" by simp_all
qed

lemma drain_one:
  assumes "cache_ok pk n m F got (packets c)" "stream_ok pk n m F" "card F \<le> length (packets c)" "f \<in> F" "k < fragments n m"
    "carries (pk f) m k (dg_buffer d) (dg_length d)" "from_master c (dg_sender d)"
  shows "\<exists>c'. drain_one c d = Value c' \<and> cache_ok pk n m F (insert (f, k) got) (packets c') \<and> length (packets c') = length (packets c) \<and>
    from_master c' (dg_sender d)"
proof -
  have pf: "length (pk f) = n" "ntohl_at (pk f) framecnt_at = f" "format_ok n m" using assms(2,4) by (simp_all add: stream_ok_def)
  have ff: "ntohl_at (dg_buffer d) framecnt_at = f" by (rule stream_fields(1) [OF assms(2,4-6)])
  obtain ps i where g: "packet_cache_get_packet (packets c) f = (ps, i)" by fastforce
  note gp = get_packet [OF assms(1-4) g]
  have sh: "slot_holds pk n m F got (ps ! i)" "slot_ok n m (ps ! i)" using gp by (simp_all add: cache_ok_def)
  have ag: "agrees (pk f) m (ps ! i)" using sh(1) gp(5) by (simp add: slot_holds_def)
  obtain p where p: "cache_packet_add_fragment (ps ! i) (dg_buffer d) (dg_length d) = Value p" "agrees (pk f) m p"
      "fragment_array p = (fragment_array (ps ! i))[k := True]" "valid p = valid (ps ! i)" "framecnt p = framecnt (ps ! i)"
    using agrees_add [OF _ ag assms(6)] pf assms(5) by (metis)
  let ?p = "p\<lparr>recv_timestamp := dg_time d\<rparr>"
  have l: "length (fragment_array (ps ! i)) = fragments n m" using sh(2) by (simp add: slot_ok_def)
  have ap: "agrees (pk f) m ?p" using p(2) by (simp add: agrees_def slot_ok_def)
  have fp: "framecnt ?p = f" "valid ?p" "fragment_array ?p = fragment_array p" using p(4,5) gp(4,5) by simp_all
  have fr: "fragment_array p ! a \<longleftrightarrow> (f, a) \<in> insert (f, k) got" if "a < fragments n m" for a
    using that p(3) sh(1) gp(5) l assms(5) by (auto simp: nth_list_update slot_holds_def)
  have "slot_holds pk n m F (insert (f, k) got) ?p"
    unfolding slot_holds_def fp using ap fr assms(4) by blast
  moreover have "slot_ok n m ?p" using p(2) pf(1) by (simp add: agrees_def slot_ok_def)
  ultimately have "cache_ok pk n m F (insert (f, k) got) (ps[i := ?p])"
    using gp fp by (intro cache_ok_update [OF gp(1)]) (auto simp: cache_ok_def)
  moreover let ?c = "(if master_address_valid c then c else c\<lparr>master_address := dg_sender d, master_address_valid := True\<rparr>)
      \<lparr>packets := ps[i := ?p]\<rparr>"
  have "drain_one c d = Value ((if master_address_valid c then c else c\<lparr>master_address := dg_sender d, master_address_valid := True\<rparr>)
      \<lparr>packets := ps[i := ?p]\<rparr>)"
    using assms(7) g gp(3) p(1) ff by (auto simp: drain_one_def from_master_def Let_def)
  ultimately show ?thesis using assms(7) gp(2) by (intro exI [of _ ?c]) (simp add: from_master_def)
qed

lemma drain_all:
  assumes "stream_ok pk n m F" "\<forall>d \<in> set ds. dg_sender d = a \<and> (\<exists>f \<in> F. \<exists>k < fragments n m. carries (pk f) m k (dg_buffer d) (dg_length d))"
    "cache_ok pk n m F got (packets c)" "card F \<le> length (packets c)" "from_master c a"
  shows "\<exists>c'. packet_cache_drain_socket c ds = Value c' \<and> length (packets c') = length (packets c) \<and>
    cache_ok pk n m F (got \<union> {(f, k). f \<in> F \<and> k < fragments n m \<and> (\<exists>d \<in> set ds. carries (pk f) m k (dg_buffer d) (dg_length d))}) (packets c')"
  using assms(2-5)
proof (induction ds arbitrary: c got)
  case (Cons d ds)
  let ?new = "\<lambda>ds. {(f, k). f \<in> F \<and> k < fragments n m \<and> (\<exists>d \<in> set ds. carries (pk f) m k (dg_buffer d) (dg_length d))}"
  obtain f k where fk: "f \<in> F" "k < fragments n m" "carries (pk f) m k (dg_buffer d) (dg_length d)" and a: "dg_sender d = a"
    using Cons.prems(1) by auto
  have fm: "format_ok n m" using assms(1) by (simp add: stream_ok_def)
  have uniq: "f' = f \<and> k' = k" if "f' \<in> F" "k' < fragments n m" "carries (pk f') m k' (dg_buffer d) (dg_length d)" for f' k'
  proof -
    have "f = f'" "(of_nat k :: u32) = of_nat k'"
      using stream_fields [OF assms(1) fk] stream_fields [OF assms(1) that] by simp_all
    moreover have "unat (of_nat k :: u32) = k" "unat (of_nat k' :: u32) = k'"
      using fragments_less [OF fm] fk(2) that(2) by (simp_all add: unat_of_nat)
    ultimately show ?thesis by metis
  qed
  obtain c1 where c1: "drain_one c d = Value c1" "cache_ok pk n m F (insert (f, k) got) (packets c1)"
      "length (packets c1) = length (packets c)" "from_master c1 a"
    using drain_one [OF Cons.prems(2) assms(1) Cons.prems(3) fk] Cons.prems(4) a by auto
  obtain c2 where c2: "packet_cache_drain_socket c1 ds = Value c2" "length (packets c2) = length (packets c1)"
      "cache_ok pk n m F (insert (f, k) got \<union> ?new ds) (packets c2)"
    using Cons.IH [of "insert (f, k) got" c1] Cons.prems(1,3) c1(2-4) by auto
  have "x \<in> ?new (d # ds) \<longleftrightarrow> x = (f, k) \<or> x \<in> ?new ds" for x
    using fk uniq [of "fst x" "snd x"] by (cases x) (simp, blast)
  then have "insert (f, k) got \<union> ?new ds = got \<union> ?new (d # ds)" by blast
  then show ?case using c1 c2 by simp
qed simp

lemma retrieve_result:
  assumes "cache_ok pk n m F got (packets c)" "stream_ok pk n m F" "f \<in> F"
  shows "if \<forall>k < fragments n m. (f, k) \<in> got
    then \<exists>t. packet_cache_retreive_packet_pointer c f (int n) =
      (c\<lparr>last_framecnt_retreived_valid := True, last_framecnt_retreived := f\<rparr>, int n, Some (sealed (pk f), t))
    else packet_cache_retreive_packet_pointer c f (int n) = (c, -1, None)"
proof (cases "find_packet (\<lambda>p. valid p \<and> framecnt p = f) (packets c) 0")
  case None
  then have "(f, k) \<notin> got" for k using assms(1) by (auto simp: cache_ok_def find_packet_None)
  then have "\<not> (\<forall>k < fragments n m. (f, k) \<in> got)" using fragments_pos [of n m] by blast
  then show ?thesis using None by (simp add: packet_cache_retreive_packet_pointer_def)
next
  case (Some i)
  let ?p = "packets c ! i"
  have i: "i < length (packets c)" "valid ?p" "framecnt ?p = f" using find_packet_Some [OF Some] by simp_all
  then have h: "slot_holds pk n m F got ?p" "slot_ok n m ?p" using assms(1) by (auto simp: cache_ok_def)
  have pf: "length (pk f) = n" "format_ok n m" using assms(2,3) by (simp_all add: stream_ok_def)
  have "cache_packet_is_complete ?p \<longleftrightarrow> (\<forall>k < fragments n m. (f, k) \<in> got)"
    using h i(3) by (simp add: cache_packet_is_complete_def slot_ok_def slot_holds_def)
  moreover have "packet_buf ?p = sealed (pk f)" if "cache_packet_is_complete ?p"
    using agrees_complete [of "pk f" m ?p] h(1) i(3) pf that by (simp add: slot_holds_def)
  ultimately show ?thesis using Some by (auto simp: packet_cache_retreive_packet_pointer_def Let_def)
qed

lemma arrives_carries:
  assumes "format_ok n m" "length pkt = n" "netjack_sendto pkt (int m) = Value frs"
  shows "length frs = fragments n m" "k < length frs \<Longrightarrow> arrives frs k d = carries pkt m k (dg_buffer d) (dg_length d)"
proof -
  have f: "frs = map (frag pkt m) [0..<fragments n m]" using sendto_frags [of pkt m] assms by simp
  then show "length frs = fragments n m" by simp
  then show "k < length frs \<Longrightarrow> arrives frs k d = carries pkt m k (dg_buffer d) (dg_length d)"
    by (simp add: arrives_def carries_def f)
qed

lemma fragment_number_eq:
  assumes "format_ok n m"
  shows "fragment_number (int n) (int m) = Value (int (fragments n m))"
proof (cases "n = header_size")
  case True
  then show ?thesis by (simp add: fragment_number_def fragments_def)
next
  case False
  have s: "s32 (int m - int header_size) = int (m - header_size)"
    using assms by (subst s32_id) (auto simp: format_ok_def)
  have n: "header_size < n" "n < 2 ^ 30" using assms False by (auto simp: format_ok_def)
  have w: "(word_of_int (int n) - of_nat header_size - 1 :: u64) = of_nat (n - header_size - 1)"
    "(word_of_int (int (m - header_size)) :: u64) = of_nat (m - header_size)"
    using n assms by (simp_all add: of_nat_diff format_ok_def)
  have small: "n - header_size - 1 < 2 ^ 30" "m - header_size < 2 ^ 30" using n assms unfolding format_ok_def by linarith+
  have "unat (of_nat (n - header_size - 1) :: u64) = n - header_size - 1" "unat (of_nat (m - header_size) :: u64) = m - header_size"
    using small by (simp_all add: unat_of_nat del: of_nat_diff)
  then have "unat ((word_of_int (int n) - of_nat header_size - 1 :: u64) div word_of_int (int (m - header_size))) =
      (n - header_size - 1) div (m - header_size)"
    unfolding w unat_div by metis
  moreover have "s32 (int ((n - header_size - 1) div (m - header_size)) + 1) = int (fragments n m)"
    using fragments_less [OF assms] False by (subst s32_id) (simp_all add: fragments_def)
  ultimately show ?thesis using False s assms by (simp add: fragment_number_def Let_def format_ok_def)
qed

text \<open>
  C10: Reassembly. Packets of several frames are cut into fragments by \<open>netjack_sendto\<close>; the cache has a slot for every frame. Whatever
  the order in which a receiver gets the fragments, with losses and repetitions and mixed
  between frames, draining the socket works, and afterwards a frame can be retrieved exactly when each of
  its fragments has arrived. What is retrieved is the packet that was sent, byte by byte, apart
  from the fragment number in its header, which is 0.
\<close>

theorem fragments_reassemble:
  assumes "header_size < m" "header_size \<le> n" "n < 2 ^ 30" "m < 2 ^ 30"
    and mem: "\<And>i. i < slots \<Longrightarrow> length (fst (mem i)) = n \<and> length (snd (mem i)) = fragments n m"
    and new: "packet_cache_new True mem slots (int n) (int m) = Value (Some c)"
    and F: "finite F" "card F \<le> slots"
    and pk: "\<And>f. f \<in> F \<Longrightarrow> length (pk f) = n \<and> ntohl_at (pk f) framecnt_at = f \<and> netjack_sendto (pk f) (int m) = Value (frs f)"
    and ds: "\<And>d. d \<in> set ds \<Longrightarrow> dg_sender d = a \<and> (\<exists>f \<in> F. \<exists>k < length (frs f). arrives (frs f) k d)"
  shows "\<exists>c'. packet_cache_drain_socket c ds = Value c' \<and>
    (\<forall>f \<in> F.
       if \<forall>k < length (frs f). \<exists>d \<in> set ds. arrives (frs f) k d
       then \<exists>t. packet_cache_retreive_packet_pointer c' f (int n) =
         (c'\<lparr>last_framecnt_retreived_valid := True, last_framecnt_retreived := f\<rparr>, int n,
          Some (memcpy_at (pk f) fragment_nr_at (net_bytes 0), t))
       else packet_cache_retreive_packet_pointer c' f (int n) = (c', -1, None))"
proof -
  have fm: "format_ok n m" using assms(1-4) by (simp add: format_ok_def)
  have st: "stream_ok pk n m F" using fm F pk by (simp add: stream_ok_def)
  have fr: "length (frs f) = fragments n m" "\<And>k d. k < length (frs f) \<Longrightarrow> arrives (frs f) k d = carries (pk f) m k (dg_buffer d) (dg_length d)"
    if "f \<in> F" for f using arrives_carries [OF fm] pk [OF that] by blast+
  have c: "length (packets c) = slots" "from_master c a" "cache_ok pk n m F {} (packets c)"
    using new fragment_number_eq [OF fm] mem by (auto simp: packet_cache_new_def from_master_def cache_ok_def slot_ok_def)
  have "\<forall>d \<in> set ds. dg_sender d = a \<and> (\<exists>f \<in> F. \<exists>k < fragments n m. carries (pk f) m k (dg_buffer d) (dg_length d))"
    using ds fr by metis
  from drain_all [OF st this c(3) _ c(2)] obtain c' where c': "packet_cache_drain_socket c ds = Value c'"
    and ok: "cache_ok pk n m F {(f, k). f \<in> F \<and> k < fragments n m \<and> (\<exists>d \<in> set ds. carries (pk f) m k (dg_buffer d) (dg_length d))} (packets c')"
    using c(1) F(2) by auto
  have "if \<forall>k < length (frs f). \<exists>d \<in> set ds. arrives (frs f) k d
       then \<exists>t. packet_cache_retreive_packet_pointer c' f (int n) =
         (c'\<lparr>last_framecnt_retreived_valid := True, last_framecnt_retreived := f\<rparr>, int n, Some (sealed (pk f), t))
       else packet_cache_retreive_packet_pointer c' f (int n) = (c', -1, None)" if f: "f \<in> F" for f
  proof -
    have "(\<forall>k < fragments n m. (f, k) \<in> {(f, k). f \<in> F \<and> k < fragments n m \<and> (\<exists>d \<in> set ds. carries (pk f) m k (dg_buffer d) (dg_length d))}) \<longleftrightarrow>
        (\<forall>k < length (frs f). \<exists>d \<in> set ds. arrives (frs f) k d)" using fr [OF f] f by simp
    then show ?thesis using retrieve_result [OF ok st f] by (simp only:)
  qed
  then show ?thesis using c' unfolding sealed_def by blast
qed

definition demo_packet :: "byte list" where
  "demo_packet = replicate 36 0 @ net_bytes 7 @ replicate 12 0 @ net_bytes 0 @ [1, 2, 3, 4, 5, 6, 7, 8, 9, 10]"

definition demo_datagram :: "nat \<Rightarrow> datagram" where
  "demo_datagram k =
     \<lparr>dg_sender = 1, dg_buffer = frag demo_packet 60 k, dg_length = int (length (frag demo_packet 60 k)), dg_time = of_nat k\<rparr>"

definition demo_datagrams :: "datagram list" where
  "demo_datagrams = map demo_datagram [2, 0, 2, 1]"

text \<open>The three fragments of a packet of 66 bytes, out of order and with a repetition.\<close>

theorem fragments_reassemble_witness:
  "\<exists>c c' t. packet_cache_new True (\<lambda>i. (replicate 66 0, replicate 3 False)) 2 66 60 = Value (Some c) \<and>
     packet_cache_drain_socket c demo_datagrams = Value c' \<and>
     snd (snd (packet_cache_retreive_packet_pointer c' 7 66)) = Some (demo_packet, t)"
proof -
  have len: "length demo_packet = 66" by (simp add: demo_packet_def)
  have fm: "format_ok (length demo_packet) 60" by (simp add: format_ok_def header_size_def len)
  have f3: "fragments 66 60 = 3" by (simp add: fragments_def header_size_def)
  have nf: "bytes_at demo_packet framecnt_at 4 = net_bytes 7" by (simp add: demo_packet_def bytes_at_def framecnt_at_def)
  have fc: "ntohl_at demo_packet framecnt_at = 7" unfolding ntohl_at_def nf le_nat_net by simp
  have frs: "netjack_sendto demo_packet (int 60) = Value (map (frag demo_packet 60) [0..<3])"
    using sendto_frags [OF fm] by (simp add: len f3)
  obtain c where c: "packet_cache_new True (\<lambda>i. (replicate 66 0, replicate 3 False)) 2 (int 66) (int 60) = Value (Some c)"
    using fragment_number_eq [of 66 60] fm by (auto simp: packet_cache_new_def len)
  have ar: "arrives (map (frag demo_packet 60) [0..<3]) k (demo_datagram k)" "dg_sender (demo_datagram k) = 1" if "k < 3" for k
    using that by (simp_all add: arrives_def demo_datagram_def)
  have set_ds: "set demo_datagrams = demo_datagram ` {..<3}"
    by (auto simp: demo_datagrams_def lessThan_Suc numeral_eq_Suc)
  have all: "\<forall>k < 3. \<exists>d \<in> set demo_datagrams. arrives (map (frag demo_packet 60) [0..<3]) k d"
    unfolding set_ds using ar(1) by blast
  have each: "dg_sender d = 1 \<and> (\<exists>f \<in> {7}. \<exists>k < length (map (frag demo_packet 60) [0..<3]). arrives (map (frag demo_packet 60) [0..<3]) k d)"
    if "d \<in> set demo_datagrams" for d
    using that ar unfolding set_ds by auto
  have "memcpy_at demo_packet fragment_nr_at (net_bytes 0) = demo_packet"
    by (simp add: memcpy_at_def demo_packet_def fragment_nr_at_def)
  moreover have "\<exists>c'. packet_cache_drain_socket c demo_datagrams = Value c' \<and>
    (\<forall>f \<in> {7}. if \<forall>k < length (map (frag demo_packet 60) [0..<3]). \<exists>d \<in> set demo_datagrams. arrives (map (frag demo_packet 60) [0..<3]) k d
       then \<exists>t. packet_cache_retreive_packet_pointer c' f (int 66) =
         (c'\<lparr>last_framecnt_retreived_valid := True, last_framecnt_retreived := f\<rparr>, int 66, Some (memcpy_at demo_packet fragment_nr_at (net_bytes 0), t))
       else packet_cache_retreive_packet_pointer c' f (int 66) = (c', -1, None))"
    by (rule fragments_reassemble [where m = 60 and frs = "\<lambda>_. map (frag demo_packet 60) [0..<3]" and a = 1, OF _ _ _ _ _ c _ _ _ each])
      (use fc frs f3 len in \<open>simp_all add: header_size_def\<close>)
  ultimately show ?thesis using c all by auto
qed

section \<open>Fragments that no sender makes\<close>

text \<open>
  Datagrams from elsewhere can overrun the packet buffer. A datagram that calls itself fragment 0 and is longer than a packet is copied
  past the end of the buffer; its length is never compared with the packet size. A datagram shorter than a header that
  calls itself a later fragment passes the test of its length, which is made with unsigned
  numbers, and is copied with a negative length.
\<close>

theorem malformed_fragments_overrun:
  assumes "header_size < m" "header_size \<le> n" "n < 2 ^ 30" "m < 2 ^ 30" "slot_ok n m p" "ntohl_at rx framecnt_at = framecnt p"
  shows "(ntohl_at rx fragment_nr_at = 0 \<and> int n < rcv_len \<longrightarrow> cache_packet_add_fragment p rx rcv_len = Undefined) \<and>
    (\<forall>i. 0 < i \<and> i < fragments n m \<and> ntohl_at rx fragment_nr_at = of_nat i \<and> 0 \<le> rcv_len \<and> rcv_len < int header_size \<and>
       header_size \<le> i * (m - header_size) + nat rcv_len \<longrightarrow> cache_packet_add_fragment p rx rcv_len = Undefined)"
proof (intro conjI allI impI)
  assume "ntohl_at rx fragment_nr_at = 0 \<and> int n < rcv_len"
  then show "cache_packet_add_fragment p rx rcv_len = Undefined"
    using assms(5,6) by (simp add: cache_packet_add_fragment_def slot_ok_def)
next
  fix i
  assume a: "0 < i \<and> i < fragments n m \<and> ntohl_at rx fragment_nr_at = of_nat i \<and> 0 \<le> rcv_len \<and> rcv_len < int header_size \<and>
       header_size \<le> i * (m - header_size) + nat rcv_len"
  have fm: "format_ok n m" using assms(1-4) by (simp add: format_ok_def)
  let ?p = "m - header_size"
  have i: "i < 2 ^ 30" using fragments_less [OF fm] a by simp
  have nz: "(of_nat i :: u32) \<noteq> 0" "(of_nat i :: u32) < word_of_int (num_fragments p)"
    using a i assms(5) fragments_less [OF fm] by (simp_all add: slot_ok_def word_unat_eq_iff word_less_nat_alt unat_of_nat)
  have b: "header_size + i * ?p \<le> n" using fragment_bound [OF fm, of i] a by simp
  have r: "nat rcv_len < header_size" "(word_of_int rcv_len :: u32) = of_nat (nat rcv_len)" using a by auto
  have m: "pkt_mtu p - int header_size = int ?p" using assms(1,5) by (simp add: slot_ok_def)
  have "(of_nat i * word_of_int (int ?p) + word_of_int rcv_len :: u32) = of_nat (i * ?p + nat rcv_len)" using r(2) by simp
  moreover have s: "i * ?p + nat rcv_len < 2 ^ 30" using b r(1) assms(3) by linarith
  ultimately have "unat (ucast (of_nat i * word_of_int (pkt_mtu p - int header_size) + word_of_int rcv_len :: u32) :: u64) = i * ?p + nat rcv_len"
    unfolding m by (simp add: unat_ucast_up unat_of_nat del: of_nat_add of_nat_mult)
  then have "unat (ucast (of_nat i * word_of_int (pkt_mtu p - int header_size) + word_of_int rcv_len :: u32) - of_nat header_size :: u64)
      = i * ?p + nat rcv_len - header_size"
    using a by (subst unat_sub_le) (simp_all add: header_size_def)
  moreover have "unat (word_of_int (packet_size p) - of_nat header_size :: u64) = n - header_size"
    using assms(2,3,5) by (subst unat_sub_le) (simp_all add: slot_ok_def header_size_def unat_of_nat)
  ultimately have "fragment_fits p (of_nat i) rcv_len"
    unfolding fragment_fits_def word_le_nat_alt using b r(1) by linarith
  then show "cache_packet_add_fragment p rx rcv_len = Undefined"
    using a nz assms(6) by (simp add: cache_packet_add_fragment_def Let_def)
qed

definition demo_slot :: cache_packet where
  "demo_slot = \<lparr>valid = True, num_fragments = 3, packet_size = 66, pkt_mtu = 60, recv_timestamp = 0, framecnt = 7,
     fragment_array = replicate 3 False, packet_buf = replicate 66 0\<rparr>"

theorem malformed_fragments_overrun_witness:
  "cache_packet_add_fragment demo_slot (demo_packet @ replicate 20 0) 80 = Undefined"
proof -
  have s: "slot_ok 66 60 demo_slot" by (simp add: slot_ok_def demo_slot_def fragments_def header_size_def)
  have f: "bytes_at (demo_packet @ replicate 20 0) framecnt_at 4 = net_bytes 7" by (simp add: demo_packet_def bytes_at_def framecnt_at_def)
  have g: "bytes_at (demo_packet @ replicate 20 0) fragment_nr_at 4 = net_bytes 0" by (simp add: demo_packet_def bytes_at_def fragment_nr_at_def)
  have "ntohl_at (demo_packet @ replicate 20 0) framecnt_at = framecnt demo_slot"
    unfolding ntohl_at_def f le_nat_net by (simp add: demo_slot_def)
  moreover have "ntohl_at (demo_packet @ replicate 20 0) fragment_nr_at = 0"
    unfolding ntohl_at_def g le_nat_net by simp
  ultimately show ?thesis
    using malformed_fragments_overrun [of 60 66 demo_slot "demo_packet @ replicate 20 0" 80] s by (simp add: header_size_def)
qed

section \<open>Choosing and releasing frames\<close>

definition available :: "packet_cache \<Rightarrow> u32 \<Rightarrow> bool" where
  "available c f \<longleftrightarrow> (\<exists>p \<in> set (packets c). valid p \<and> cache_packet_is_complete p \<and> framecnt p = f)"

definition eligible :: "u32 \<Rightarrow> cache_packet \<Rightarrow> bool" where
  "eligible e p \<longleftrightarrow> valid p \<and> cache_packet_is_complete p \<and> e \<le> framecnt p"

lemma next_loop_result:
  "next_loop e ps best found = (b, fd) \<Longrightarrow>
     b \<le> best \<and> (found \<longrightarrow> fd) \<and>
     (\<forall>p \<in> set ps. eligible e p \<and> framecnt p - e \<le> best \<longrightarrow> fd \<and> b \<le> framecnt p - e) \<and>
     (fd \<longrightarrow> (\<exists>p \<in> set ps. eligible e p \<and> b = framecnt p - e) \<or> found \<and> b = best)"
proof (induction e ps best found rule: next_loop.induct)
  case (2 e p ps best found)
  consider "\<not> eligible e p" | "eligible e p" "best < framecnt p - e" | "eligible e p" "framecnt p - e \<le> best" "framecnt p - e = 0"
    | "eligible e p" "framecnt p - e \<le> best" "framecnt p - e \<noteq> 0" by fastforce
  then show ?case
  proof cases
    case 1
    then have s: "next_loop e ps best found = (b, fd)" using "2.prems" by (auto simp: eligible_def split: if_splits)
    then show ?thesis using "2.IH" 1 "2.prems" by (auto simp: eligible_def split: if_splits)
  next
    case 2
    then have s: "next_loop e ps best found = (b, fd)" using "2.prems" by (auto simp: eligible_def split: if_splits)
    then show ?thesis using "2.IH"(3) 2 by (auto simp: eligible_def not_less)
  next
    case 3
    then show ?thesis using "2.prems" by (auto simp: eligible_def split: if_splits)
  next
    case 4
    then have s: "next_loop e ps (framecnt p - e) True = (b, fd)" using "2.prems" by (auto simp: eligible_def split: if_splits)
    then have "b \<le> framecnt p - e \<and> fd \<and> (\<forall>q \<in> set ps. eligible e q \<and> framecnt q - e \<le> framecnt p - e \<longrightarrow> b \<le> framecnt q - e) \<and>
        ((\<exists>q \<in> set ps. eligible e q \<and> b = framecnt q - e) \<or> b = framecnt p - e)"
      using "2.IH"(4) 4 by (auto simp: eligible_def not_less)
    then show ?thesis using 4 by (auto simp: eligible_def)
  qed
qed simp

text \<open>
  The next frame. \<open>packet_cache_get_next_available_framecnt\<close> returns the smallest complete frame that is not
  before the expected one, if one lies within half the range of frame numbers, and nothing otherwise.
\<close>

theorem next_available_frame:
  "case packet_cache_get_next_available_framecnt c e of
     None \<Rightarrow> \<forall>g. available c g \<longrightarrow> g < e \<or> JACK_MAX_FRAMES div 2 - 1 < g - e
   | Some g \<Rightarrow> available c g \<and> e \<le> g \<and> (\<forall>h. available c h \<and> e \<le> h \<longrightarrow> g \<le> h)"
proof -
  obtain b fd where r: "next_loop e (packets c) (JACK_MAX_FRAMES div 2 - 1) False = (b, fd)" by fastforce
  note n = next_loop_result [OF r]
  have el: "available c g \<and> e \<le> g \<longleftrightarrow> (\<exists>p \<in> set (packets c). eligible e p \<and> framecnt p = g)" for g
    by (auto simp: available_def eligible_def)
  show ?thesis
  proof (cases fd)
    case False
    then have "\<not> (eligible e p \<and> framecnt p - e \<le> JACK_MAX_FRAMES div 2 - 1)" if "p \<in> set (packets c)" for p using n that by blast
    then have "g < e \<or> JACK_MAX_FRAMES div 2 - 1 < g - e" if "available c g" for g using el [of g] that by (metis not_le)
    then show ?thesis using False r by (simp add: packet_cache_get_next_available_framecnt_def)
  next
    case True
    then obtain p where p: "p \<in> set (packets c)" "eligible e p" "b = framecnt p - e" using n by auto
    have g: "e + b = framecnt p" using p(3) by simp
    have "framecnt p \<le> framecnt q" if q: "q \<in> set (packets c)" "eligible e q" for q
    proof -
      have "framecnt p - e \<le> framecnt q - e" using n q p(3) by (meson le_cases order_trans)
      then show ?thesis using p(2) q(2) by (auto simp: eligible_def word_le_nat_alt unat_sub_le)
    qed
    then show ?thesis using True r g el p by (auto simp: packet_cache_get_next_available_framecnt_def)
  qed
qed

definition one_slot_per_frame :: "packet_cache \<Rightarrow> bool" where
  "one_slot_per_frame c \<longleftrightarrow> (\<forall>i < length (packets c). \<forall>j < length (packets c).
     valid (packets c ! i) \<and> valid (packets c ! j) \<and> framecnt (packets c ! i) = framecnt (packets c ! j) \<longrightarrow> i = j)"

abbreviation released :: "packet_cache \<Rightarrow> nat \<Rightarrow> u32 \<Rightarrow> cache_packet list" where
  "released c i f \<equiv> map (\<lambda>p. if valid p \<and> framecnt p < f then cache_packet_reset p else p)
     ((packets c)[i := cache_packet_reset (packets c ! i)])"

lemma reset_invalid [simp]: "\<not> valid (cache_packet_reset p)"
  by (simp add: cache_packet_reset_def)

lemma Bex_set_nth: "(\<exists>x \<in> set xs. P x) \<longleftrightarrow> (\<exists>j < length xs. P (xs ! j))"
  by (metis in_set_conv_nth)

lemma nth_released:
  assumes "j < length (packets c)" "i < length (packets c)"
  shows "released c i f ! j = (if j = i \<or> valid (packets c ! j) \<and> framecnt (packets c ! j) < f
    then cache_packet_reset (packets c ! j) else packets c ! j)"
  using assms by (auto simp: nth_list_update)

lemma released_gone:
  assumes "one_slot_per_frame c"
    "i < length (packets c)" "valid (packets c ! i)" "framecnt (packets c ! i) = f" "p \<in> set (released c i f)" "valid p"
  shows "f < framecnt p"
proof -
  have l: "length (released c i f) = length (packets c)" by simp
  obtain j where j: "j < length (packets c)" "p = released c i f ! j"
    using assms(5) unfolding in_set_conv_nth l by blast
  then have "j \<noteq> i" "p = packets c ! j" "\<not> framecnt p < f" using assms(6) unfolding nth_released [OF j(1) assms(2)] by (auto split: if_splits)
  then show ?thesis using assms(1) j(1) assms(2,3,4,6) unfolding one_slot_per_frame_def by (metis linorder_cases)
qed

lemma released_keeps:
  assumes "i < length (packets c)" "framecnt (packets c ! i) = f" "f < g"
  shows "(\<exists>p \<in> set (released c i f). valid p \<and> cache_packet_is_complete p \<and> framecnt p = g) \<longleftrightarrow> available c g"
proof -
  have "valid (released c i f ! j) \<and> cache_packet_is_complete (released c i f ! j) \<and> framecnt (released c i f ! j) = g \<longleftrightarrow>
      valid (packets c ! j) \<and> cache_packet_is_complete (packets c ! j) \<and> framecnt (packets c ! j) = g" if "j < length (packets c)" for j
    unfolding nth_released [OF that assms(1)] using assms(2,3) by auto
  moreover have "length (released c i f) = length (packets c)" by simp
  ultimately show ?thesis unfolding available_def Bex_set_nth by (metis (no_types, lifting))
qed

text \<open>
  Frames go out in order. Releasing a complete frame removes it and every older one from the cache and
  keeps the newer ones; a frame that is missing or incomplete is not released and nothing changes. Once a frame has been
  retrieved, fragments of it and of older frames that arrive late are ignored.
\<close>

theorem release_and_late_fragments:
  assumes "one_slot_per_frame c"
  shows "(if available c f
     then \<exists>c'. packet_cache_release_packet c f = (c', 0) \<and> (\<forall>p \<in> set (packets c'). valid p \<longrightarrow> f < framecnt p) \<and>
       (\<forall>g. f < g \<longrightarrow> available c' g = available c g)
     else packet_cache_release_packet c f = (c, -1)) \<and>
    (\<forall>c' n buf d. packet_cache_retreive_packet_pointer c f n = (c', n, Some buf) \<and> master_address_valid c \<and>
       ntohl_at (dg_buffer d) framecnt_at \<le> f \<longrightarrow> drain_one c' d = Value c')"
proof (intro conjI allI impI)
  show "if available c f
     then \<exists>c'. packet_cache_release_packet c f = (c', 0) \<and> (\<forall>p \<in> set (packets c'). valid p \<longrightarrow> f < framecnt p) \<and>
       (\<forall>g. f < g \<longrightarrow> available c' g = available c g)
     else packet_cache_release_packet c f = (c, -1)"
  proof (cases "find_packet (\<lambda>p. valid p \<and> framecnt p = f) (packets c) 0")
    case None
    then have "\<not> available c f" by (auto simp: available_def find_packet_None)
    then show ?thesis using None by (simp add: packet_cache_release_packet_def)
  next
    case (Some i)
    let ?p = "packets c ! i"
    have i: "i < length (packets c)" "valid ?p" "framecnt ?p = f" using find_packet_Some [OF Some] by simp_all
    have av: "available c f \<longleftrightarrow> cache_packet_is_complete ?p"
    proof
      assume "available c f"
      then obtain j where "j < length (packets c)" "valid (packets c ! j)" "cache_packet_is_complete (packets c ! j)" "framecnt (packets c ! j) = f"
        by (auto simp: available_def in_set_conv_nth)
      then show "cache_packet_is_complete ?p" using assms i unfolding one_slot_per_frame_def by metis
    next
      assume "cache_packet_is_complete ?p"
      then show "available c f" using i unfolding available_def by (intro bexI [of _ ?p]) simp_all
    qed
    note gone = released_gone [OF assms i] and keep = released_keeps [OF i(1,3)]
    show ?thesis
    proof (cases "cache_packet_is_complete ?p")
      case True
      let ?c = "c\<lparr>packets := released c i f\<rparr>"
      have af: "available c f" using True av by blast
      have r: "packet_cache_release_packet c f = (?c, 0)"
        using Some True by (simp add: packet_cache_release_packet_def packet_cache_clear_old_packets_def)
      have k: "available ?c g = available c g" if "f < g" for g using keep [OF that] by (simp add: available_def)
      have o: "f < framecnt p" if "p \<in> set (packets ?c)" "valid p" for p
      proof -
        have "packets ?c = released c i f" by (cases c) simp
        then show ?thesis using gone [OF _ that(2)] that(1) by metis
      qed
      show ?thesis unfolding if_P [OF af] using r o k by (intro exI [of _ ?c] conjI ballI allI impI)
    next
      case False
      then show ?thesis using av Some by (simp add: packet_cache_release_packet_def)
    qed
  qed
  fix c' n buf and d :: datagram
  assume "packet_cache_retreive_packet_pointer c f n = (c', n, Some buf) \<and> master_address_valid c \<and> ntohl_at (dg_buffer d) framecnt_at \<le> f"
  then show "drain_one c' d = Value c'"
    by (auto simp: packet_cache_retreive_packet_pointer_def drain_one_def Let_def split: option.splits if_splits)
qed

definition demo_cache :: packet_cache where
  "demo_cache = \<lparr>packets = [demo_slot\<lparr>fragment_array := replicate 3 True\<rparr>, demo_slot\<lparr>framecnt := 5\<rparr>, demo_slot\<lparr>framecnt := 9\<rparr>],
     cache_mtu = 60, master_address = 1, master_address_valid = True, last_framecnt_retreived = 0, last_framecnt_retreived_valid = False\<rparr>"

theorem release_and_late_fragments_witness:
  "\<exists>c'. packet_cache_release_packet demo_cache 7 = (c', 0) \<and> list_all (\<lambda>p. 7 < framecnt p) (filter valid (packets c'))"
proof -
  have "distinct (map framecnt (packets demo_cache))" by (simp add: demo_cache_def demo_slot_def)
  then have d: "one_slot_per_frame demo_cache" by (auto simp: one_slot_per_frame_def distinct_conv_nth)
  have "available demo_cache 7"
    by (simp add: available_def demo_cache_def demo_slot_def cache_packet_is_complete_def)
  then show ?thesis using release_and_late_fragments [OF d, of 7] by (auto simp: list_all_iff)
qed

end
