(* ===== verification/NetMidi.thy ===== *)
theory NetMidi
  imports NetPacket_Inv MidiMix
begin

text \<open>
  MIDI over the network, \<open>drivers/netjack/netjack_packet.c\<close>: the events of a port buffer are written into
  a part of a packet and read from it into a port buffer at the other end. The part of the packet is
  an array of 32 bit numbers in network order, here as a list of bytes.
\<close>

section \<open>Encoding and decoding\<close>

definition data_quads :: "u64 \<Rightarrow> u32" where
  "data_quads n = ucast (drop_bit 2 ((n - 1) AND NOT 3)) + 1"

definition put_bytes :: "byte list \<Rightarrow> nat \<Rightarrow> byte list \<Rightarrow> byte list c_result" where
  "put_bytes buf off bs = (if off + length bs \<le> length buf then Value (memcpy_at buf off bs) else Undefined)"

definition put_quad :: "byte list \<Rightarrow> u32 \<Rightarrow> u32 \<Rightarrow> byte list c_result" where
  "put_quad buf i x = put_bytes buf (4 * unat i) (net_bytes x)"

text \<open>One event at position \<open>written\<close>: three numbers and the data.\<close>

definition encode_event :: "byte list \<Rightarrow> u32 \<Rightarrow> u32 \<Rightarrow> u32 \<Rightarrow> byte list \<Rightarrow> byte list c_result" where
  "encode_event buf written payload_size time data =
     c_bind (put_quad buf written payload_size) (\<lambda>b1.
     c_bind (put_quad b1 (written + 1) time) (\<lambda>b2.
     c_bind (put_quad b2 (written + 2) (of_nat (length data))) (\<lambda>b3.
       put_bytes b3 (4 * unat (written + 3)) data)))"

fun encode_loop :: "midi_buffer \<Rightarrow> u32 \<Rightarrow> nat list \<Rightarrow> u32 \<Rightarrow> byte list \<Rightarrow> (byte list \<times> u32) c_result" where
  "encode_loop src quads [] written buf = Value (buf, written)"
| "encode_loop src quads (i # is) written buf =
     (case jack_midi_event_get src (of_nat i) of
        Inl err \<Rightarrow> Undefined
      | Inr (time, n, addr) \<Rightarrow>
          (let payload_size = 3 + data_quads n
           in if written + payload_size < quads - 1 then
                c_bind (load src addr (unat n)) (\<lambda>data.
                c_bind (encode_event buf written payload_size time data) (\<lambda>buf1.
                  encode_loop src quads is (written + payload_size) buf1))
              else Value (buf, written)))"

definition encode_midi_buffer :: "byte list \<Rightarrow> u32 \<Rightarrow> midi_buffer \<Rightarrow> byte list c_result" where
  "encode_midi_buffer buf quads src =
     c_bind (encode_loop src quads [0..<unat (jack_midi_get_event_count src)] 0 buf) (\<lambda>(buf1, written).
       put_quad buf1 written 0)"

text \<open>
  An event is written to the port with the length that the packet gives. When the port buffer
  takes it, its data is read, also beyond the end of the packet.
\<close>

definition decode_event :: "byte list \<Rightarrow> nat \<Rightarrow> midi_buffer \<Rightarrow> midi_buffer c_result" where
  "decode_event buf i dst =
     (let time = ntohl_at buf (4 * (i + 1)); n = ntohl_at buf (4 * (i + 2))
      in if 4 * (i + 3) + unat n \<le> length buf
         then c_map fst (jack_midi_event_write dst time (bytes_at buf (4 * (i + 3)) (unat n)))
         else
           (case jack_midi_event_reserve dst time (ucast n) of
              Value (dst1, None) \<Rightarrow> Value dst1
            | _ \<Rightarrow> Undefined))"

function decode_loop :: "byte list \<Rightarrow> nat \<Rightarrow> nat \<Rightarrow> midi_buffer \<Rightarrow> midi_buffer c_result" where
  "decode_loop buf limit i dst =
     (if i < limit then
        (if length buf < 4 * (i + 1) then Undefined
         else if ntohl_at buf (4 * i) = 0 then Value dst
         else if length buf < 4 * (i + 3) then Undefined
         else
           (case decode_event buf i dst of
              Value dst1 \<Rightarrow> decode_loop buf limit (i + 3 + unat (data_quads (ucast (ntohl_at buf (4 * (i + 2)))))) dst1
            | Undefined \<Rightarrow> Undefined
            | AssertFailed \<Rightarrow> AssertFailed))
      else Value dst)"
  by pat_completeness auto
termination by (relation "measure (\<lambda>(buf, limit, i, dst). limit - i)") auto

declare decode_loop.simps [simp del]

text \<open>The limit \<open>buffer_size_uint32 - 3\<close> is an unsigned number.\<close>

definition decode_midi_buffer :: "byte list \<Rightarrow> u32 \<Rightarrow> midi_buffer \<Rightarrow> midi_buffer c_result" where
  "decode_midi_buffer buf quads dst = decode_loop buf (unat (quads - 3)) 0 (jack_midi_clear_buffer dst)"

section \<open>Events in a packet\<close>

text \<open>
  The events that lie in the packet from position \<open>i\<close> on, and those of the given ones that the sender has
  space for.
\<close>

definition quads_of :: "byte list \<Rightarrow> nat" where
  "quads_of data = (length data - 1) div 4 + 1"

definition room_of :: "(u16 \<times> byte list) list \<Rightarrow> nat" where
  "room_of evs = (\<Sum>e \<leftarrow> evs. 3 + quads_of (snd e))"

fun laid :: "byte list \<Rightarrow> nat \<Rightarrow> (u16 \<times> byte list) list \<Rightarrow> bool" where
  "laid buf i [] \<longleftrightarrow> True"
| "laid buf i ((t, d) # evs) \<longleftrightarrow>
     ntohl_at buf (4 * i) \<noteq> 0 \<and> ntohl_at buf (4 * (i + 1)) = ucast t \<and> ntohl_at buf (4 * (i + 2)) = of_nat (length d) \<and>
     bytes_at buf (4 * (i + 3)) (length d) = d \<and> laid buf (i + 3 + quads_of d) evs"

fun fitting :: "nat \<Rightarrow> nat \<Rightarrow> (u16 \<times> byte list) list \<Rightarrow> (u16 \<times> byte list) list" where
  "fitting quads w [] = []"
| "fitting quads w ((t, d) # evs) =
     (if w + 3 + quads_of d < quads - 1 then (t, d) # fitting quads (w + 3 + quads_of d) evs else [])"

lemma room_simps [simp]: "room_of [] = 0" "room_of (e # evs) = 3 + quads_of (snd e) + room_of evs"
  by (simp_all add: room_of_def)

lemma quads_of_pos [simp]: "0 < quads_of d" by (simp add: quads_of_def)

lemma quads_of_bound: "length d \<le> 4 * quads_of d"
  unfolding quads_of_def by (cases d) auto

lemma fitting_prefix: "\<exists>rest. evs = fitting quads w evs @ rest"
  by (induction evs arbitrary: w) auto

lemma fitting_all: "w + room_of evs < quads - 1 \<Longrightarrow> fitting quads w evs = evs"
  by (induction evs arbitrary: w) auto

lemma fitting_room: "fitting quads w evs \<noteq> [] \<Longrightarrow> w + room_of (fitting quads w evs) < quads - 1"
proof (induction evs arbitrary: w)
  case (Cons e evs)
  then show ?case by (cases e) (cases "fitting quads (w + 3 + quads_of (snd e)) evs = []"; fastforce simp: add.assoc split: if_splits)
qed simp

lemma data_quads:
  assumes "0 < length d" "length d < 2 ^ 16"
  shows "unat (data_quads (of_nat (length d))) = quads_of d"
proof -
  have m: "(of_nat (length d) - 1 :: u64) = of_nat (length d - 1)"
    using assms(1) by (simp add: of_nat_diff Suc_le_eq)
  have "drop_bit 2 (x AND NOT 3) = drop_bit 2 x" for x :: u64
  proof (rule bit_word_eqI)
    fix k
    have "bit (x AND NOT (mask 2)) (2 + k) = bit x (2 + k)"
      by (auto simp only: bit_and_iff bit_not_iff bit_mask_iff dest: bit_imp_possible_bit)
    then show "bit (drop_bit 2 (x AND NOT 3)) k = bit (drop_bit 2 x) k"
      by (simp only: bit_drop_bit_eq comp_def mask_eq_exp_minus_1) simp
  qed
  then have k: "unat (drop_bit 2 ((of_nat (length d) - 1 :: u64) AND NOT 3)) = (length d - 1) div 4"
    using assms unfolding m by (simp add: unat_div unat_of_nat take_bit_eq_mod drop_bit_eq_div)
  then show ?thesis
    using assms by (simp add: data_quads_def quads_of_def unat_word_ariths unat_ucast_mod)
qed

section \<open>The sender\<close>

lemma put_bytes_Value:
  "off + length bs \<le> length buf \<Longrightarrow> put_bytes buf off bs = Value (memcpy_at buf off bs)"
  by (simp add: put_bytes_def)

lemma bytes_at_same: "off + length bs \<le> length buf \<Longrightarrow> bytes_at (memcpy_at buf off bs) off (length bs) = bs"
  by (simp add: bytes_at_def memcpy_at_def)

lemma bytes_at_before:
  "k + n \<le> off \<Longrightarrow> off + length bs \<le> length buf \<Longrightarrow> bytes_at (memcpy_at buf off bs) k n = bytes_at buf k n"
  by (simp add: bytes_at_def memcpy_at_def drop_take)

lemma take_before: "n \<le> off \<Longrightarrow> off + length bs \<le> length buf \<Longrightarrow> take n (memcpy_at buf off bs) = take n buf"
  by (simp add: memcpy_at_def)

lemma ntohl_at_net: "bytes_at buf off 4 = net_bytes x \<Longrightarrow> ntohl_at buf off = x"
  by (simp add: ntohl_at_def le_nat_net)

lemma bytes_at_prefix:
  "take m buf' = take m buf \<Longrightarrow> k + n \<le> m \<Longrightarrow> bytes_at buf' k n = bytes_at buf k n"
  using bytes_at_take [of k n m buf] bytes_at_take [of k n m buf'] by simp

lemma ntohl_at_prefix: "take m buf' = take m buf \<Longrightarrow> k + 4 \<le> m \<Longrightarrow> ntohl_at buf' k = ntohl_at buf k"
  unfolding ntohl_at_def by (simp only: bytes_at_prefix [of m buf' buf])

lemma encode_event_Value:
  assumes "4 * (unat w + 3 + quads_of d) \<le> length buf" "unat w + 3 < 2 ^ 32" "0 < payload"
  shows "\<exists>buf'. encode_event buf w payload (ucast t) d = Value buf' \<and> length buf' = length buf \<and>
    take (4 * unat w) buf' = take (4 * unat w) buf \<and> laid buf' (unat w) [(t, d)]"
proof -
  have u: "unat (w + 1) = unat w + 1" "unat (w + 2) = unat w + 2" "unat (w + 3) = unat w + 3"
    using assms(2) by (simp_all add: unat_word_ariths)
  have d: "4 * (unat w + 3) + length d \<le> length buf" using assms(1) quads_of_bound [of d] by simp
  define b1 where "b1 = memcpy_at buf (4 * unat w) (net_bytes payload)"
  define b2 where "b2 = memcpy_at b1 (4 * (unat w + 1)) (net_bytes (ucast t))"
  define b3 where "b3 = memcpy_at b2 (4 * (unat w + 2)) (net_bytes (of_nat (length d)))"
  define b4 where "b4 = memcpy_at b3 (4 * (unat w + 3)) d"
  have l: "length b1 = length buf" "length b2 = length buf" "length b3 = length buf" "length b4 = length buf"
    using d by (simp_all add: b1_def b2_def b3_def b4_def)
  have v: "encode_event buf w payload (ucast t) d = Value b4"
    using d l by (simp add: encode_event_def put_quad_def u put_bytes_Value b1_def b2_def b3_def b4_def)
  have tk: "take (4 * unat w) b4 = take (4 * unat w) buf"
    using d l by (simp add: b1_def b2_def b3_def b4_def take_before)
  have q: "bytes_at b4 (4 * unat w) 4 = net_bytes payload" "bytes_at b4 (4 * (unat w + 1)) 4 = net_bytes (ucast t)"
    "bytes_at b4 (4 * (unat w + 2)) 4 = net_bytes (of_nat (length d))" "bytes_at b4 (4 * (unat w + 3)) (length d) = d"
    using d l bytes_at_same [of _ "net_bytes payload"] bytes_at_same [of _ "net_bytes (ucast t)"]
      bytes_at_same [of _ "net_bytes (of_nat (length d))"] bytes_at_same [of _ d]
    by (simp_all add: b1_def b2_def b3_def b4_def bytes_at_before)
  have "laid b4 (unat w) [(t, d)]"
    using q(1-3) [THEN ntohl_at_net] q(4) assms(3) by simp
  then show ?thesis using v l tk by blast
qed

lemma laid_prefix:
  "take (4 * (i + room_of evs)) buf' = take (4 * (i + room_of evs)) buf \<Longrightarrow> laid buf i evs \<Longrightarrow> laid buf' i evs"
proof (induction evs arbitrary: i)
  case (Cons e evs)
  obtain t d where e: "e = (t, d)" by (cases e)
  have b: "4 * (i + 3) + length d \<le> 4 * (i + room_of (e # evs))" using quads_of_bound [of d] by (simp add: e)
  have "laid buf' (i + 3 + quads_of d) evs" using Cons by (simp add: e add.assoc)
  then show ?case
    using Cons.prems(2) b bytes_at_prefix [OF Cons.prems(1), of "4 * (i + 3)" "length d"]
      ntohl_at_prefix [OF Cons.prems(1), of "4 * i"] ntohl_at_prefix [OF Cons.prems(1), of "4 * (i + 1)"]
      ntohl_at_prefix [OF Cons.prems(1), of "4 * (i + 2)"]
    by (simp add: e)
qed simp

lemma unat_room: "unat quads < 2 ^ 31 \<Longrightarrow> 0 < unat quads \<Longrightarrow> unat w \<le> unat quads \<Longrightarrow> 0 < length d \<Longrightarrow> length d < 2 ^ 16 \<Longrightarrow>
  (w + (3 + data_quads (of_nat (length d))) < quads - 1 \<longleftrightarrow> unat w + 3 + quads_of d < unat quads - 1) \<and>
  unat (w + (3 + data_quads (of_nat (length d)))) = unat w + 3 + quads_of d \<and> 0 < 3 + data_quads (of_nat (length d))"
proof -
  assume a: "unat quads < 2 ^ 31" "0 < unat quads" "unat w \<le> unat quads" "0 < length d" "length d < 2 ^ 16"
  have q: "unat (data_quads (of_nat (length d))) = quads_of d" using data_quads [OF a(4,5)] .
  have "quads_of d \<le> 2 ^ 16" using a(5) by (simp add: quads_of_def)
  then have p: "unat (3 + data_quads (of_nat (length d))) = 3 + quads_of d" by (simp add: unat_word_ariths q)
  then have s: "unat (w + (3 + data_quads (of_nat (length d)))) = unat w + 3 + quads_of d"
    using a \<open>quads_of d \<le> 2 ^ 16\<close> by (simp add: unat_word_ariths)
  have m: "unat (quads - 1) = unat quads - 1" using a(2) by (simp add: unat_minus_one unat_gt_0)
  show ?thesis using s m p by (simp add: word_less_nat_alt)
qed

lemma encode_loop_Value:
  assumes src: "midi_readable src" and quads: "unat quads < 2 ^ 31" "0 < unat quads" "4 * unat quads \<le> length buf"
    and k: "k \<le> unat (event_count src)" and w: "unat w \<le> unat quads"
  defines "evs \<equiv> fitting (unat quads) (unat w) (drop k (midi_events src))"
  shows "\<exists>buf' w'. encode_loop src quads [k..<unat (event_count src)] w buf = Value (buf', w') \<and> length buf' = length buf \<and>
    unat w' = unat w + room_of evs \<and> take (4 * unat w) buf' = take (4 * unat w) buf \<and> laid buf' (unat w) evs"
  using quads(3) k w unfolding evs_def
proof (induction "unat (event_count src) - k" arbitrary: k w buf)
  case 0
  then show ?case by (simp add: midi_events_def)
next
  case (Suc n)
  have i: "k < unat (event_count src)" using Suc.hyps(2) by simp
  let ?d = "ev_bytes src k" and ?t = "ev_time src k"
  note rd = readable_event [OF src i]
  have dr: "drop k (midi_events src) = (?t, ?d) # drop (Suc k) (midi_events src)"
    using i by (simp add: Cons_nth_drop_Suc [symmetric]) (simp add: midi_events_def)
  have up: "[k..<unat (event_count src)] = k # [Suc k..<unat (event_count src)]" using i by (simp add: upt_conv_Cons)
  have uk: "unat (of_nat k :: u32) = k" using i unat_lt [of "event_count src"] by (simp add: unat_of_nat)
  have sz: "(ucast (ev_size src k) :: u64) = of_nat (length ?d)" using rd(2) by simp
  have g: "jack_midi_event_get src (of_nat k) = Inr (ucast ?t, of_nat (length ?d), jack_midi_event_data src k)"
    using i by (simp add: jack_midi_event_get_def word_le_nat_alt uk sz)
  let ?p = "3 + data_quads (of_nat (length ?d))"
  note r = unat_room [OF quads(1,2) Suc.prems(3) rd(3) ev_bytes_length16]
  have un: "unat (of_nat (length ?d) :: u64) = length ?d" using ev_bytes_length16 [of src k] by (simp add: unat_of_nat)
  show ?case
  proof (cases "unat w + 3 + quads_of ?d < unat quads - 1")
    case True
    have b: "4 * (unat w + 3 + quads_of ?d) \<le> length buf" "unat w + 3 < 2 ^ 32" using True Suc.prems quads by simp_all
    have pp: "0 < ?p" using r by blast
    obtain buf1 where b1: "encode_event buf w ?p (ucast ?t) ?d = Value buf1" "length buf1 = length buf"
      "take (4 * unat w) buf1 = take (4 * unat w) buf" "laid buf1 (unat w) [(?t, ?d)]"
      using encode_event_Value [OF b pp] by blast
    have w1: "unat (w + ?p) = unat w + 3 + quads_of ?d" using r by blast
    have IH: "\<exists>buf' w'. encode_loop src quads [Suc k..<unat (event_count src)] (w + ?p) buf1 = Value (buf', w') \<and>
      length buf' = length buf1 \<and> unat w' = unat (w + ?p) + room_of (fitting (unat quads) (unat (w + ?p)) (drop (Suc k) (midi_events src))) \<and>
      take (4 * unat (w + ?p)) buf' = take (4 * unat (w + ?p)) buf1 \<and>
      laid buf' (unat (w + ?p)) (fitting (unat quads) (unat (w + ?p)) (drop (Suc k) (midi_events src)))"
      by (rule Suc.hyps(1)) (use Suc.hyps(2) Suc.prems(1) b1(2) i True w1 in simp_all)
    then obtain buf' w' where h: "encode_loop src quads [Suc k..<unat (event_count src)] (w + ?p) buf1 = Value (buf', w')"
      "length buf' = length buf1" "unat w' = unat (w + ?p) + room_of (fitting (unat quads) (unat (w + ?p)) (drop (Suc k) (midi_events src)))"
      "take (4 * unat (w + ?p)) buf' = take (4 * unat (w + ?p)) buf1"
      "laid buf' (unat (w + ?p)) (fitting (unat quads) (unat (w + ?p)) (drop (Suc k) (midi_events src)))" by blast
    have "laid buf' (unat w) [(?t, ?d)]" using laid_prefix [OF _ b1(4)] h(4) w1 by (simp add: add.assoc)
    moreover have "take (4 * unat w) buf' = take (4 * unat w) buf"
      using arg_cong [OF h(4), of "take (4 * unat w)"] b1(3) w1 by (simp add: min_def)
    moreover have "encode_loop src quads [k..<unat (event_count src)] w buf = Value (buf', w')"
      using h(1) b1(1) r True rd(1,2) un by (simp add: up g Let_def)
    ultimately show ?thesis using h b1(2) w1 True by (simp add: dr)
  next
    case False
    then have "\<not> w + ?p < quads - 1" using r by blast
    then show ?thesis using False by (simp add: up g dr Let_def)
  qed
qed

lemma encode_Value:
  assumes "midi_readable src" "unat quads < 2 ^ 31" "3 \<le> unat quads" "4 * unat quads \<le> length buf"
  shows "\<exists>buf'. encode_midi_buffer buf quads src = Value buf' \<and> length buf' = length buf \<and>
    laid buf' 0 (fitting (unat quads) 0 (midi_events src)) \<and>
    ntohl_at buf' (4 * room_of (fitting (unat quads) 0 (midi_events src))) = 0"
proof -
  let ?f = "fitting (unat quads) 0 (midi_events src)"
  obtain buf1 w' where h: "encode_loop src quads [0..<unat (event_count src)] 0 buf = Value (buf1, w')"
    "length buf1 = length buf" "unat w' = room_of ?f" "laid buf1 0 ?f"
    using encode_loop_Value [OF assms(1,2) _ assms(4), of 0 0] assms(3) by auto
  have "room_of ?f < unat quads - 1"
    using fitting_room [of "unat quads" 0 "midi_events src"] assms(3) by (cases "?f = []") auto
  then have b: "4 * room_of ?f + 4 \<le> length buf1" using assms(4) h(2) by simp
  let ?b = "memcpy_at buf1 (4 * room_of ?f) (net_bytes 0)"
  have "laid ?b 0 ?f" by (rule laid_prefix [OF _ h(4)]) (use b in \<open>simp add: take_before\<close>)
  moreover have "ntohl_at ?b (4 * room_of ?f) = 0"
    by (rule ntohl_at_net) (use b bytes_at_same [of _ "net_bytes 0"] in simp)
  moreover have "encode_midi_buffer buf quads src = Value ?b"
    using h b by (simp add: encode_midi_buffer_def jack_midi_get_event_count_def put_quad_def put_bytes_Value)
  ultimately show ?thesis using b h(2) by simp
qed

section \<open>The receiver\<close>

lemma decode_loop_Value:
  assumes "4 * (limit + 3) \<le> length buf" "laid buf i evs" "i + room_of evs \<le> limit + 1"
    and "ntohl_at buf (4 * (i + room_of evs)) = 0" "dst_ok dst evs"
  shows "\<exists>dst'. decode_loop buf limit i dst = Value dst' \<and> midi_inv dst' \<and> midi_events dst' = midi_events dst @ evs \<and>
    events_lost dst' = events_lost dst"
  using assms(2-)
proof (induction evs arbitrary: i dst)
  case Nil
  then show ?case using assms(1) by (subst decode_loop.simps) (auto simp: dst_ok_def)
next
  case (Cons e evs)
  obtain t d where e: "e = (t, d)" by (cases e)
  have l: "ntohl_at buf (4 * i) \<noteq> 0" "ntohl_at buf (4 * (i + 1)) = ucast t" "ntohl_at buf (4 * (i + 2)) = of_nat (length d)"
    "bytes_at buf (4 * (i + 3)) (length d) = d" "laid buf (i + 3 + quads_of d) evs" using Cons.prems(1) by (simp_all add: e)
  have d: "0 < length d" "length d < 2 ^ 16" using Cons.prems(4) by (auto simp: dst_ok_def e)
  have dq: "unat (data_quads (ucast (of_nat (length d) :: u32))) = quads_of d"
  proof -
    have "(ucast (of_nat (length d) :: u32) :: u64) = of_nat (length d)"
      using d(2) by (simp add: word_unat_eq_iff unat_of_nat unat_ucast_up take_bit_eq_mod)
    then show ?thesis using data_quads [OF d] by simp
  qed
  have un: "unat (of_nat (length d) :: u32) = length d" using d(2) by (simp add: unat_of_nat)
  have rm: "i + 3 + quads_of d + room_of evs \<le> limit + 1" using Cons.prems(2) by (simp add: e)
  have i: "i < limit" using rm quads_of_pos [of d] by linarith
  have b: "4 * (i + 3) + length d \<le> length buf" using assms(1) rm quads_of_bound [of d] by simp
  obtain dst1 where w: "jack_midi_event_write dst (ucast t) d = Value (dst1, 0)" "dst_ok dst1 evs"
    "midi_events dst1 = midi_events dst @ [(t, d)]" "events_lost dst1 = events_lost dst"
    using dst_step Cons.prems(4) e by blast
  have "decode_event buf i dst = Value dst1" using l w(1) b by (simp add: decode_event_def Let_def un)
  then have "decode_loop buf limit i dst = decode_loop buf limit (i + 3 + quads_of d) dst1"
    using i b l(1,3) dq by (subst decode_loop.simps) simp
  moreover have "\<exists>dst'. decode_loop buf limit (i + 3 + quads_of d) dst1 = Value dst' \<and> midi_inv dst' \<and>
      midi_events dst' = midi_events dst1 @ evs \<and> events_lost dst' = events_lost dst1"
    by (rule Cons.IH [OF l(5) rm _ w(2)]) (use Cons.prems(3) in \<open>simp add: e add.assoc\<close>)
  ultimately show ?case using w(3,4) e by auto
qed

section \<open>From port to port\<close>

text \<open>C21: MIDI over the network. The sender writes the events of a readable port buffer into a part of
  a packet that has at least three numbers, and stays inside it; it takes events in order as long as
  they leave two numbers free. The receiver, if its port buffer has room for these events and they lie
  in its period, ends up with exactly these, in order, with the same times and bytes, and loses none.
  When the part of the packet is large enough for all events, nothing is cut off.\<close>

theorem midi_net_roundtrip:
  assumes "midi_readable src" "3 \<le> unat quads" "unat quads < 2 ^ 31" "length buf = 4 * unat quads"
    and "midi_inv (jack_midi_clear_buffer dst)" "\<forall>e \<in> set (midi_events src). unat (fst e) < unat (mb_nframes dst)"
    and "ev_addr (length (midi_events src)) + (\<Sum>e \<leftarrow> midi_events src. msg_room e) + 1 \<le> unat (mb_size dst)"
  shows "\<exists>buf' dst'. encode_midi_buffer buf quads src = Value buf' \<and> length buf' = length buf \<and>
    decode_midi_buffer buf' quads dst = Value dst' \<and> midi_inv dst' \<and> events_lost dst' = 0 \<and>
    midi_events dst' = fitting (unat quads) 0 (midi_events src) \<and>
    (room_of (midi_events src) < unat quads - 1 \<longrightarrow> midi_events dst' = midi_events src)"
proof -
  let ?f = "fitting (unat quads) 0 (midi_events src)" and ?dst = "jack_midi_clear_buffer dst"
  obtain buf' where e: "encode_midi_buffer buf quads src = Value buf'" "length buf' = length buf" "laid buf' 0 ?f"
    "ntohl_at buf' (4 * room_of ?f) = 0" using encode_Value [OF assms(1,3,2), of buf] assms(4) by auto
  obtain rest where r: "midi_events src = ?f @ rest" using fitting_prefix by blast
  have z: "midi_events ?dst = []" "event_count ?dst = 0" "last_write_loc ?dst = 0" "events_lost ?dst = 0"
    "mb_size ?dst = mb_size dst" "mb_nframes ?dst = mb_nframes dst"
    by (simp_all add: jack_midi_clear_buffer_def midi_events_def)
  have so: "sorted (map fst ?f)"
    using assms(1) by (subst (asm) midi_readable_def) (metis midi_shape_def r map_append sorted_append)
  have ev: "0 < length (snd x) \<and> length (snd x) < 2 ^ 16" if "x \<in> set (midi_events src)" for x
    using that readable_event(3) [OF assms(1)] ev_bytes_length16 by (auto simp: midi_events_def)
  have "length (midi_events src) = length ?f + length rest"
    "(\<Sum>e \<leftarrow> midi_events src. msg_room e) = (\<Sum>e \<leftarrow> ?f. msg_room e) + (\<Sum>e \<leftarrow> rest. msg_room e)"
    using r by (metis length_append, metis map_append sum_list_append)
  then have room: "ev_addr (length ?f) + (\<Sum>e \<leftarrow> ?f. msg_room e) + 1 \<le> unat (mb_size dst)"
    using assms(7) by (simp add: midi_consts)
  have sub: "set ?f \<subseteq> set (midi_events src)" using r by (metis Un_upper1 set_append)
  have ok: "dst_ok ?dst ?f" unfolding dst_ok_def z using assms(5,6) so room ev sub by auto
  have q: "unat (quads - 3) = unat quads - 3" using assms(2) by (simp add: unat_sub word_le_nat_alt)
  have "room_of ?f < unat quads - 1" using fitting_room [of "unat quads" 0 "midi_events src"] assms(2) by (cases "?f = []") auto
  then have "\<exists>dst'. decode_loop buf' (unat quads - 3) 0 ?dst = Value dst' \<and> midi_inv dst' \<and>
      midi_events dst' = midi_events ?dst @ ?f \<and> events_lost dst' = events_lost ?dst"
    using assms(2,4) e by (intro decode_loop_Value [OF _ e(3) _ _ ok]) simp_all
  then show ?thesis using e(1,2) z fitting_all [of 0 "midi_events src"] by (auto simp: decode_midi_buffer_def q)
qed

theorem midi_net_roundtrip_witness:
  "\<exists>src buf' dst'. jack_midi_event_write demo_midi 10 [0x90, 60, 100] = Value (src, 0) \<and>
     encode_midi_buffer (replicate 32 0) 8 src = Value buf' \<and> decode_midi_buffer buf' 8 demo_midi = Value dst' \<and>
     midi_events dst' = [(10, [0x90, 60, 100])]"
proof -
  have "midi_fits demo_midi (Suc (Suc (Suc 0)))" by (simp add: midi_fits_def demo_midi_fields midi_consts data_start_def)
  then obtain s where s: "jack_midi_event_write demo_midi 10 [0x90, 60, 100] = Value (s, 0)" "midi_inv s"
    "midi_events s = midi_events demo_midi @ [(10, [0x90, 60, 100])]"
    using midi_write_ok [OF demo_midi_inv, of "[0x90, 60, 100]" 10] by (auto simp: demo_midi_fields)
  have e: "midi_events demo_midi = []" by (simp add: midi_events_def demo_midi_fields)
  have c: "jack_midi_clear_buffer demo_midi = demo_midi" by (simp add: jack_midi_clear_buffer_def demo_midi_def jack_midi_buffer_init_def)
  show ?thesis
    using midi_net_roundtrip [of s 8 "replicate 32 0" demo_midi] midi_inv_readable [OF s(2)] demo_midi_inv s e c
    by (auto simp: demo_midi_fields midi_consts msg_room_def quads_of_def)
qed

text \<open>
  The receiver takes the size of an event from the packet without a look at the end of the packet: if
  the port buffer accepts an event of that size, bytes beyond the end of the packet are read.
\<close>

lemma decode_trusts_size:
  assumes "12 \<le> length buf" "4 \<le> unat quads" "ntohl_at buf 0 \<noteq> 0" "length buf < 12 + unat (ntohl_at buf 8)"
    and "jack_midi_event_reserve (jack_midi_clear_buffer dst) (ntohl_at buf 4) (ucast (ntohl_at buf 8)) = Value (dst1, Some off)"
  shows "decode_midi_buffer buf quads dst = Undefined"
proof -
  have "unat (quads - 3) = unat quads - 3" using assms(2) by (simp add: unat_sub word_le_nat_alt)
  then show ?thesis
    using assms by (simp add: decode_midi_buffer_def decode_loop.simps [of _ _ 0] decode_event_def Let_def)
qed

end
