(* ===== verification/MidiPack.thy ===== *)
theory MidiPack
  imports MidiMix
begin

text \<open>
  Raw MIDI, \<open>drivers/alsa-midi/midi_pack.h\<close> and \<open>midi_unpack.h\<close>: a MIDI cable carries bytes, in which a status
  byte may be left out when it is the one of the message before (running status). The packer leaves it
  out; the unpacker is a machine that reads byte after byte and writes each complete message to a port
  buffer.
\<close>

section \<open>Packing\<close>

text \<open>The state is the running status; an event without bytes is read beyond its end.\<close>

definition midi_pack_reset :: int where "midi_pack_reset = 0"

definition midi_pack_event :: "int \<Rightarrow> byte list \<Rightarrow> (int \<times> byte list) c_result" where
  "midi_pack_event running_status buffer =
     (case buffer of
        [] \<Rightarrow> Undefined
      | b # rest \<Rightarrow>
          if 0x80 \<le> b \<and> b < 0xF0 then
            (if uint b = running_status then Value (running_status, rest) else Value (uint b, buffer))
          else if b < 0xF8 then Value (0, buffer)
          else Value (running_status, buffer))"

section \<open>Unpacking\<close>

definition MIDI_UNPACK_MAX_MSG :: nat where "MIDI_UNPACK_MAX_MSG = 1024"

record midi_unpack_t =
  u_pos :: nat
  u_need :: nat
  u_size :: nat
  u_data :: "byte list"

definition midi_unpack_init :: "byte list \<Rightarrow> midi_unpack_t" where
  "midi_unpack_init stale = \<lparr>u_pos = 0, u_need = MIDI_UNPACK_MAX_MSG, u_size = MIDI_UNPACK_MAX_MSG, u_data = stale\<rparr>"

definition midi_unpack_reset :: "midi_unpack_t \<Rightarrow> midi_unpack_t" where
  "midi_unpack_reset u = u\<lparr>u_pos := 0, u_need := u_size u\<rparr>"

definition midi_voice_len :: "nat list" where "midi_voice_len = [3, 3, 3, 3, 2, 2, 3, 1]"
definition midi_system_len :: "nat list" where "midi_system_len = [0, 2, 3, 2, 0, 0, 1, 1]"

text \<open>A byte goes into the message that is being collected.\<close>

definition store_byte :: "midi_unpack_t \<Rightarrow> byte \<Rightarrow> midi_unpack_t c_result" where
  "store_byte u b =
     (if u_pos u < u_size u then Value (u\<lparr>u_data := (u_data u)[u_pos u := b], u_pos := u_pos u + 1\<rparr>) else AssertFailed)"

definition take_byte :: "midi_unpack_t \<Rightarrow> byte \<Rightarrow> midi_unpack_t c_result" where
  "take_byte u b =
     (if 0xF8 \<le> b then Value u
      else if b < 0x80 then store_byte u b
      else if b < 0xF0 then
        Value (u\<lparr>u_need := midi_voice_len ! unat (drop_bit 4 (b - 0x80)), u_data := (u_data u)[0 := b], u_pos := 1\<rparr>)
      else if b = 0xF7 then c_map (\<lambda>u1. u1\<lparr>u_need := u_pos u1\<rparr>) (store_byte u b)
      else
        (let need = midi_system_len ! unat (b - 0xF0)
         in Value (u\<lparr>u_pos := 1, u_data := (u_data u)[0 := b], u_need := (if need = 0 then u_size u else need)\<rparr>)))"

text \<open>
  What is written when the message is complete: a Note On with velocity 0 becomes a Note Off.
\<close>

definition complete_message :: "midi_unpack_t \<Rightarrow> byte list list" where
  "complete_message u =
     (let d = u_data u in
      if 0x80 \<le> d ! 0 \<or> (d ! 0 = 0xF0 \<and> d ! (u_pos u - 1) = 0xF7) then
        (if d ! 0 AND 0xF0 = 0x90 \<and> d ! 2 = 0 then [[0x80 OR (d ! 0 AND 0x0F), d ! 1, 0x40]] else [take (u_pos u) d])
      else [])"

definition next_message :: "midi_unpack_t \<Rightarrow> midi_unpack_t" where
  "next_message u =
     (if 0x80 \<le> u_data u ! 0 \<and> u_data u ! 0 < 0xF0 then u\<lparr>u_pos := 1\<rparr>
      else u\<lparr>u_pos := 0, u_need := u_size u\<rparr>)"

text \<open>One round of the loop: the new state and the messages to write.\<close>

definition unpack_one :: "midi_unpack_t \<Rightarrow> byte \<Rightarrow> (midi_unpack_t \<times> byte list list) c_result" where
  "unpack_one u b =
     c_map (\<lambda>u1.
         let rt = (if 0xF8 \<le> b then [[b]] else [])
         in if u_pos u1 = u_need u1 then (next_message u1, rt @ complete_message u1) else (u1, rt))
       (take_byte u b)"

fun write_messages :: "midi_buffer \<Rightarrow> u32 \<Rightarrow> byte list list \<Rightarrow> midi_buffer c_result" where
  "write_messages port time [] = Value port"
| "write_messages port time (m # ms) =
     c_bind (jack_midi_event_write port time m) (\<lambda>(port1, err). write_messages port1 time ms)"

fun midi_unpack_buf :: "midi_unpack_t \<Rightarrow> byte list \<Rightarrow> midi_buffer \<Rightarrow> u32 \<Rightarrow> (midi_unpack_t \<times> midi_buffer) c_result" where
  "midi_unpack_buf u [] port time = Value (u, port)"
| "midi_unpack_buf u (b # bs) port time =
     c_bind (unpack_one u b) (\<lambda>(u1, ms).
       c_bind (write_messages port time ms) (\<lambda>port1. midi_unpack_buf u1 bs port1 time))"

section \<open>The stream of messages\<close>

text \<open>The unpacker without the port buffer, and the state it is in between two bytes.\<close>

fun unpack_stream :: "midi_unpack_t \<Rightarrow> byte list \<Rightarrow> (midi_unpack_t \<times> byte list list) c_result" where
  "unpack_stream u [] = Value (u, [])"
| "unpack_stream u (b # bs) =
     c_bind (unpack_one u b) (\<lambda>(u1, ms). c_map (\<lambda>(u2, ms2). (u2, ms @ ms2)) (unpack_stream u1 bs))"

definition unpack_inv :: "midi_unpack_t \<Rightarrow> bool" where
  "unpack_inv u \<longleftrightarrow> u_size u = MIDI_UNPACK_MAX_MSG \<and> length (u_data u) = MIDI_UNPACK_MAX_MSG \<and>
     u_pos u < u_need u \<and> u_need u \<le> u_size u"

lemma byte_cases:
  fixes b :: byte
  obtains "b < 0x80" | "0x80 \<le> b" "b < 0xF0" | "0xF0 \<le> b" "b < 0xF7" | "b = 0xF7" | "0xF8 \<le> b"
proof -
  have "b < 0x80 \<or> (0x80 \<le> b \<and> b < 0xF0) \<or> (0xF0 \<le> b \<and> b < 0xF7) \<or> b = 0xF7 \<or> 0xF8 \<le> b"
    by (simp add: word_less_nat_alt word_le_nat_alt word_unat_eq_iff) linarith
  then show ?thesis using that by blast
qed

lemma voice_index: "0x80 \<le> (b :: byte) \<Longrightarrow> b < 0xF0 \<Longrightarrow> unat (drop_bit 4 (b - 0x80)) < 7"
proof -
  assume b: "0x80 \<le> b" "b < 0xF0"
  have "unat (b - 0x80) = unat b - 0x80" using b by (simp add: unat_sub)
  moreover have "unat b < 0xF0" using b by (simp add: word_less_nat_alt)
  ultimately show ?thesis using b by (simp add: drop_bit_eq_div unat_div)
qed

lemma voice_need: "0x80 \<le> (b :: byte) \<Longrightarrow> b < 0xF0 \<Longrightarrow> midi_voice_len ! unat (drop_bit 4 (b - 0x80)) \<in> {2, 3}"
proof -
  assume b: "0x80 \<le> b" "b < 0xF0"
  define n where "n = unat (drop_bit 4 (b - 0x80))"
  have "n < 7" using voice_index [OF b] by (simp add: n_def)
  then have "n = 0 \<or> n = 1 \<or> n = 2 \<or> n = 3 \<or> n = 4 \<or> n = 5 \<or> n = 6" by linarith
  then show ?thesis unfolding n_def [symmetric] by (auto simp: midi_voice_len_def)
qed

lemma system_need: "0xF0 \<le> (b :: byte) \<Longrightarrow> b < 0xF7 \<Longrightarrow> midi_system_len ! unat (b - 0xF0) \<in> {0, 1, 2, 3}"
proof -
  assume b: "0xF0 \<le> b" "b < 0xF7"
  define n where "n = unat (b - 0xF0)"
  have "n = unat b - 0xF0" using b by (simp add: n_def unat_sub)
  moreover have "unat b < 0xF7" using b by (simp add: word_less_nat_alt)
  ultimately have "n = 0 \<or> n = 1 \<or> n = 2 \<or> n = 3 \<or> n = 4 \<or> n = 5 \<or> n = 6" by linarith
  then show ?thesis unfolding n_def [symmetric] by (auto simp: midi_system_len_def)
qed

lemma take_byte_Value:
  assumes "unpack_inv u"
  shows "\<exists>u1. take_byte u b = Value u1 \<and> u_size u1 = u_size u \<and> length (u_data u1) = length (u_data u) \<and>
    u_pos u1 \<le> u_need u1 \<and> u_need u1 \<le> u_size u1 \<and> 0 < u_need u1 \<and> (0x80 \<le> u_data u1 ! 0 \<and> u_data u1 ! 0 < 0xF0 \<longrightarrow> u_pos u1 = u_need u1 \<longrightarrow> 1 < u_need u1)"
proof -
  have i: "u_size u = 1024" "length (u_data u) = 1024" "u_pos u < u_need u" "u_need u \<le> 1024"
    using assms by (simp_all add: unpack_inv_def MIDI_UNPACK_MAX_MSG_def)
  show ?thesis
  proof (cases b rule: byte_cases)
    case 2
    then have n: "midi_voice_len ! unat (drop_bit 4 (b - 0x80)) \<in> {2, 3}" by (rule voice_need)
    have "\<not> 0xF8 \<le> b" "\<not> b < 0x80" using 2 by (simp_all add: word_less_nat_alt word_le_nat_alt)
    then have "take_byte u b = Value (u\<lparr>u_need := midi_voice_len ! unat (drop_bit 4 (b - 0x80)), u_data := (u_data u)[0 := b], u_pos := 1\<rparr>)"
      using 2(2) by (simp only: take_byte_def if_True if_False)
    then show ?thesis using n i by (elim insertE) auto
  next
    case 3
    then have n: "midi_system_len ! unat (b - 0xF0) \<in> {0, 1, 2, 3}" by (rule system_need)
    have "\<not> 0xF8 \<le> b" "\<not> b < 0x80" "\<not> b < 0xF0" "b \<noteq> 0xF7" using 3 by (auto simp: word_less_nat_alt word_le_nat_alt)
    then show ?thesis using n i by (auto simp: take_byte_def Let_def)
  next
    case 1
    then have "\<not> 0xF8 \<le> b" "\<not> 0x80 \<le> b" by (simp_all add: word_less_nat_alt word_le_nat_alt)
    then show ?thesis using 1 i by (simp add: take_byte_def store_byte_def nth_list_update)
  next
    case 4
    then show ?thesis using i by (simp add: take_byte_def store_byte_def nth_list_update)
  next
    case 5
    then show ?thesis using i by (simp add: take_byte_def)
  qed
qed

lemma unpack_one_Value:
  assumes "unpack_inv u"
  shows "\<exists>u' ms. unpack_one u b = Value (u', ms) \<and> unpack_inv u'"
proof -
  obtain u1 where u1: "take_byte u b = Value u1" "u_size u1 = u_size u" "length (u_data u1) = length (u_data u)"
    "u_pos u1 \<le> u_need u1" "u_need u1 \<le> u_size u1" "0 < u_need u1"
    "0x80 \<le> u_data u1 ! 0 \<and> u_data u1 ! 0 < 0xF0 \<longrightarrow> u_pos u1 = u_need u1 \<longrightarrow> 1 < u_need u1"
    using take_byte_Value [OF assms] by blast
  then show ?thesis using assms by (auto simp: unpack_one_def unpack_inv_def next_message_def MIDI_UNPACK_MAX_MSG_def)
qed

lemma unpack_stream_Value:
  "unpack_inv u \<Longrightarrow> \<exists>u' ms. unpack_stream u bs = Value (u', ms) \<and> unpack_inv u'"
proof (induction bs arbitrary: u)
  case (Cons b bs)
  obtain u1 ms where u1: "unpack_one u b = Value (u1, ms)" "unpack_inv u1" using unpack_one_Value [OF Cons.prems] by blast
  obtain u2 ms2 where "unpack_stream u1 bs = Value (u2, ms2)" "unpack_inv u2" using Cons.IH [OF u1(2)] by blast
  then show ?case using u1(1) by simp
qed simp

lemma unpack_stream_append:
  "unpack_stream u (xs @ ys) =
     c_bind (unpack_stream u xs) (\<lambda>(u1, ms). c_map (\<lambda>(u2, ms2). (u2, ms @ ms2)) (unpack_stream u1 ys))"
proof (induction xs arbitrary: u)
  case Nil
  then show ?case by (cases "unpack_stream u ys") (auto simp: case_prod_beta)
next
  case (Cons b xs)
  show ?case
  proof (cases "unpack_one u b")
    case (Value r)
    show ?thesis
    proof (cases "unpack_stream (fst r) xs")
      case (Value s)
      then show ?thesis using \<open>unpack_one u b = Value r\<close> Cons.IH [of "fst r"]
        by (cases "unpack_stream (fst s) ys") (simp_all add: case_prod_beta)
    qed (use Value Cons.IH [of "fst r"] in \<open>simp_all add: case_prod_beta\<close>)
  qed simp_all
qed

lemma write_messages_append:
  "write_messages port time (xs @ ys) = c_bind (write_messages port time xs) (\<lambda>p. write_messages p time ys)"
proof (induction xs arbitrary: port)
  case (Cons m xs)
  then show ?case by (cases "jack_midi_event_write port time m") (auto split: prod.split)
qed simp

lemma unpack_buf_stream:
  "unpack_stream u bs = Value (u', ms) \<Longrightarrow> midi_unpack_buf u bs port time = c_map (\<lambda>p. (u', p)) (write_messages port time ms)"
proof (induction bs arbitrary: u ms port)
  case (Cons b bs)
  obtain u1 ms1 where u1: "unpack_one u b = Value (u1, ms1)" using Cons.prems by (cases "unpack_one u b") auto
  obtain ms2 where s: "unpack_stream u1 bs = Value (u', ms2)" "ms = ms1 @ ms2"
    using Cons.prems u1 by (cases "unpack_stream u1 bs") (auto split: prod.splits)
  show ?case using u1 Cons.IH [OF s(1)] by (cases "write_messages port time ms1") (simp_all add: s(2) write_messages_append)
qed simp

section \<open>Whole messages\<close>

text \<open>
  The messages of the MIDI protocol: voice messages and system messages with their length, system
  exclusive messages up to the size of the unpacker's memory, real time messages. The port gets a
  Note Off in place of a Note On with velocity 0.
\<close>

definition voice_len :: "byte \<Rightarrow> nat" where
  "voice_len b = midi_voice_len ! unat (drop_bit 4 (b - 0x80))"

definition system_len :: "byte \<Rightarrow> nat" where
  "system_len b = midi_system_len ! unat (b - 0xF0)"

definition data_bytes :: "byte list \<Rightarrow> bool" where
  "data_bytes ds \<longleftrightarrow> (\<forall>x \<in> set ds. x < 0x80)"

fun whole_message :: "byte list \<Rightarrow> bool" where
  "whole_message [] \<longleftrightarrow> False"
| "whole_message (b # ds) \<longleftrightarrow>
     (if b < 0x80 \<or> b = 0xF7 then False
      else if b < 0xF0 then length ds + 1 = voice_len b \<and> data_bytes ds
      else if b = 0xF0 then ds \<noteq> [] \<and> last ds = 0xF7 \<and> data_bytes (butlast ds) \<and> length ds < MIDI_UNPACK_MAX_MSG
      else if b < 0xF7 then length ds + 1 = system_len b \<and> data_bytes ds
      else ds = [])"

definition normal_message :: "byte list \<Rightarrow> byte list" where
  "normal_message m = (if m ! 0 AND 0xF0 = 0x90 \<and> m ! 2 = 0 then [0x80 OR (m ! 0 AND 0x0F), m ! 1, 0x40] else m)"

lemma all_bytes: "\<forall>n < 256. P (of_nat n :: byte) \<Longrightarrow> P b"
proof -
  assume a: "\<forall>n < 256. P (of_nat n :: byte)"
  have "unat b < 256" using unat_lt [of b] by simp
  then have "P (of_nat (unat b))" using a by blast
  then show "P b" by simp
qed

lemma note_on_len: "b AND 0xF0 = 0x90 \<Longrightarrow> 0x80 \<le> b \<and> b < 0xF0 \<and> voice_len b = 3"
proof -
  have "\<forall>n \<in> set [0..<256]. (of_nat n :: byte) AND 0xF0 = 0x90 \<longrightarrow> 0x80 \<le> (of_nat n :: byte) \<and> (of_nat n :: byte) < 0xF0 \<and> voice_len (of_nat n) = 3"
    by code_simp
  then show "b AND 0xF0 = 0x90 \<Longrightarrow> 0x80 \<le> b \<and> b < 0xF0 \<and> voice_len b = 3"
    using all_bytes [of "\<lambda>b. b AND 0xF0 = 0x90 \<longrightarrow> 0x80 \<le> b \<and> b < 0xF0 \<and> voice_len b = 3" b] by simp
qed

lemma take_data: "b < 0x80 \<Longrightarrow> u_pos u < u_size u \<Longrightarrow> take_byte u b = Value (u\<lparr>u_data := (u_data u)[u_pos u := b], u_pos := u_pos u + 1\<rparr>)"
proof -
  assume a: "b < 0x80" "u_pos u < u_size u"
  have "\<not> 0xF8 \<le> b" using a(1) by (simp add: word_less_nat_alt word_le_nat_alt)
  then show ?thesis using a by (simp add: take_byte_def store_byte_def)
qed

lemma take_voice: "0x80 \<le> b \<Longrightarrow> b < 0xF0 \<Longrightarrow> take_byte u b = Value (u\<lparr>u_need := voice_len b, u_data := (u_data u)[0 := b], u_pos := 1\<rparr>)"
proof -
  assume a: "0x80 \<le> b" "b < 0xF0"
  have "\<not> 0xF8 \<le> b" "\<not> b < 0x80" using a by (simp_all add: word_less_nat_alt word_le_nat_alt)
  then show ?thesis using a by (simp only: take_byte_def voice_len_def if_True if_False)
qed

lemma take_system: "0xF0 \<le> b \<Longrightarrow> b < 0xF7 \<Longrightarrow>
  take_byte u b = Value (u\<lparr>u_pos := 1, u_data := (u_data u)[0 := b], u_need := (if system_len b = 0 then u_size u else system_len b)\<rparr>)"
proof -
  assume a: "0xF0 \<le> b" "b < 0xF7"
  have "\<not> 0xF8 \<le> b" "\<not> b < 0x80" "\<not> b < 0xF0" "b \<noteq> 0xF7" using a by (auto simp: word_less_nat_alt word_le_nat_alt)
  then show ?thesis by (simp add: take_byte_def system_len_def Let_def)
qed

lemma not_realtime: "b < 0xF7 \<Longrightarrow> \<not> (0xF8 :: byte) \<le> b" "b < 0xF0 \<Longrightarrow> \<not> (0xF8 :: byte) \<le> b" "b < 0x80 \<Longrightarrow> \<not> (0xF8 :: byte) \<le> b"
  by (simp_all add: word_less_nat_alt word_le_nat_alt)

text \<open>Data bytes are collected.\<close>

lemma take_update_same: "n < length xs \<Longrightarrow> take (Suc n) (xs[n := x]) = take n xs @ [x]"
  by (simp add: take_Suc_conv_app_nth)

lemma collect:
  assumes "data_bytes ds" "unpack_inv u" "u_pos u + length ds < u_need u"
  shows "\<exists>d. unpack_stream u ds = Value (u\<lparr>u_data := d, u_pos := u_pos u + length ds\<rparr>, []) \<and> length d = length (u_data u) \<and>
    take (u_pos u + length ds) d = take (u_pos u) (u_data u) @ ds"
  using assms
proof (induction ds arbitrary: u)
  case Nil
  then show ?case by (intro exI [of _ "u_data u"]) simp
next
  case (Cons b ds)
  let ?u = "u\<lparr>u_data := (u_data u)[u_pos u := b], u_pos := u_pos u + 1\<rparr>"
  have i: "u_pos u < u_size u" "u_pos u < length (u_data u)" "length (u_data u) = u_size u" using Cons.prems(2) by (auto simp: unpack_inv_def)
  have b: "b < 0x80" "data_bytes ds" using Cons.prems(1) by (simp_all add: data_bytes_def)
  have one: "unpack_one u b = Value (?u, [])"
    using take_data [OF b(1) i(1)] not_realtime(3) [OF b(1)] Cons.prems(3) by (simp add: unpack_one_def)
  have "unpack_inv ?u" using Cons.prems(2,3) by (simp add: unpack_inv_def)
  then obtain d where d: "unpack_stream ?u ds = Value (?u\<lparr>u_data := d, u_pos := u_pos ?u + length ds\<rparr>, [])" "length d = length (u_data ?u)"
    "take (u_pos ?u + length ds) d = take (u_pos ?u) (u_data ?u) @ ds" using Cons.IH [OF b(2)] Cons.prems(3) by fastforce
  have "take (Suc (u_pos u)) ((u_data u)[u_pos u := b]) = take (u_pos u) (u_data u) @ [b]" using i(2) by (rule take_update_same)
  then show ?case using one d by (intro exI [of _ d]) simp
qed

text \<open>The last byte of a message that has its status byte in place.\<close>

lemma message_of:
  assumes "take (Suc (length ds)) d = b # ds" "0x80 \<le> b" "b AND 0xF0 = 0x90 \<longrightarrow> length ds = 2" "u_data u = d" "u_pos u = Suc (length ds)"
  shows "complete_message u = [normal_message (b # ds)]"
proof -
  have n: "d ! i = (b # ds) ! i" if "i < Suc (length ds)" for i using assms(1) that by (metis nth_take)
  have "d ! 0 = b" using n [of 0] by simp
  moreover have "d ! 1 = (b # ds) ! 1 \<and> d ! 2 = (b # ds) ! 2" if "b AND 0xF0 = 0x90" using n [of 1] n [of 2] assms(3) that by simp
  ultimately show ?thesis using assms by (auto simp: complete_message_def normal_message_def Let_def)
qed

lemma collect_all:
  assumes "data_bytes ds" "unpack_inv u" "u_pos u = 1" "u_data u ! 0 = b" "u_need u = Suc (length ds)" "0x80 \<le> b"
    "b AND 0xF0 = 0x90 \<longrightarrow> length ds = 2"
  shows "\<exists>u'. unpack_stream u ds = Value (u', [normal_message (b # ds)]) \<and> unpack_inv u' \<and>
    (b < 0xF0 \<longrightarrow> u_pos u' = 1 \<and> u_need u' = u_need u \<and> u_data u' ! 0 = b)"
proof -
  have "ds \<noteq> []" using assms(2,3,5) by (auto simp: unpack_inv_def)
  then obtain es x where ds: "ds = es @ [x]" by (metis append_butlast_last_id)
  have es: "data_bytes es" "x < 0x80" using assms(1) by (simp_all add: ds data_bytes_def)
  have i: "u_size u = 1024" "length (u_data u) = 1024" "u_need u \<le> 1024" using assms(2) by (simp_all add: unpack_inv_def MIDI_UNPACK_MAX_MSG_def)
  have p: "u_pos u + length es < u_need u" using assms(3,5) ds by simp
  obtain d where d: "unpack_stream u es = Value (u\<lparr>u_data := d, u_pos := u_pos u + length es\<rparr>, [])" "length d = 1024"
    "take (u_pos u + length es) d = take (u_pos u) (u_data u) @ es" using collect [OF es(1) assms(2) p] i(2) by auto
  have "u_data u \<noteq> []" using i(2) by auto
  then have t: "take (Suc (length es)) d = b # es" using d(3) assms(3,4) by (simp add: take_Suc_conv_app_nth)
  let ?d = "d[Suc (length es) := x]"
  let ?u = "u\<lparr>u_data := ?d, u_pos := Suc (length ds)\<rparr>"
  have l: "Suc (length es) < length d" using assms(5) ds i(3) d(2) by simp
  have td: "take (Suc (length ds)) ?d = b # ds" using take_update_same [OF l, of x] t by (simp add: ds)
  have c: "complete_message ?u = [normal_message (b # ds)]" by (rule message_of [OF td assms(6,7)]) simp_all
  have "take_byte (u\<lparr>u_data := d, u_pos := u_pos u + length es\<rparr>) x = Value ?u"
    using take_data [OF es(2)] assms(3,5) i ds by simp
  then have one: "unpack_one (u\<lparr>u_data := d, u_pos := u_pos u + length es\<rparr>) x = Value (next_message ?u, [normal_message (b # ds)])"
    using not_realtime(3) [OF es(2)] assms(5) c by (simp add: unpack_one_def)
  have d0: "?d ! 0 = b" using arg_cong [OF td, of "\<lambda>l. l ! 0"] by simp
  have "unpack_stream u ds = Value (next_message ?u, [normal_message (b # ds)])"
    unfolding ds unpack_stream_append using d(1) one by (simp add: ds)
  moreover have "unpack_inv (next_message ?u)" using assms(2,5) d(2) i ds by (auto simp: unpack_inv_def next_message_def)
  ultimately show ?thesis using d0 assms(6) by (auto simp: next_message_def)
qed

section \<open>Packer and unpacker together\<close>

definition in_step :: "int \<Rightarrow> midi_unpack_t \<Rightarrow> bool" where
  "in_step r u \<longleftrightarrow> unpack_inv u \<and>
     (r = 0 \<or> (\<exists>b. 0x80 \<le> b \<and> b < 0xF0 \<and> r = uint b \<and> u_pos u = 1 \<and> u_data u ! 0 = b \<and> u_need u = voice_len b))"

lemma pos_uint: "0x80 \<le> (b :: byte) \<Longrightarrow> uint b \<noteq> 0"
  by (auto simp: word_le_def)

lemma voice_message:
  assumes m: "0x80 \<le> b" "b < 0xF0" "length ds + 1 = voice_len b" "data_bytes ds" and s: "in_step r u"
  shows "\<exists>r' bs u'. midi_pack_event r (b # ds) = Value (r', bs) \<and> unpack_stream u bs = Value (u', [normal_message (b # ds)]) \<and> in_step r' u'"
proof -
  have n: "b AND 0xF0 = 0x90 \<longrightarrow> length ds = 2" using note_on_len [of b] m(3) by auto
  have inv: "unpack_inv u" using s by (simp add: in_step_def)
  have v: "voice_len b \<in> {2, 3}" using voice_need [OF m(1,2)] by (simp add: voice_len_def)
  show ?thesis
  proof (cases "uint b = r")
    case True
    then obtain b' where b': "uint b = uint b'" "u_pos u = 1" "u_data u ! 0 = b'" "u_need u = voice_len b'"
      using s pos_uint [OF m(1)] by (auto simp: in_step_def)
    then have "b' = b" using word_uint_eq_iff [of b b'] by simp
    then have u: "u_pos u = 1" "u_data u ! 0 = b" "u_need u = voice_len b" using b' by simp_all
    obtain u' where "unpack_stream u ds = Value (u', [normal_message (b # ds)])" "unpack_inv u'" "u_pos u' = 1" "u_need u' = u_need u" "u_data u' ! 0 = b"
      using collect_all [OF m(4) inv u(1,2) _ m(1) n] u(3) m(2,3) by auto
    moreover have "midi_pack_event r (b # ds) = Value (r, ds)" using True m by (simp add: midi_pack_event_def)
    ultimately show ?thesis using True m u(3) by (auto simp: in_step_def)
  next
    case False
    let ?u = "u\<lparr>u_need := voice_len b, u_data := (u_data u)[0 := b], u_pos := 1\<rparr>"
    have one: "unpack_one u b = Value (?u, [])"
      using take_voice [OF m(1,2)] not_realtime(2) [OF m(2)] v by (auto simp: unpack_one_def)
    have inv1: "unpack_inv ?u" using inv v by (auto simp: unpack_inv_def MIDI_UNPACK_MAX_MSG_def)
    have d0: "u_data ?u ! 0 = b" using inv by (simp add: unpack_inv_def MIDI_UNPACK_MAX_MSG_def)
    obtain u' where u': "unpack_stream ?u ds = Value (u', [normal_message (b # ds)])" "unpack_inv u'" "u_pos u' = 1" "u_need u' = voice_len b" "u_data u' ! 0 = b"
      using collect_all [OF m(4) inv1 _ d0 _ m(1) n] m(2,3) by auto
    have "midi_pack_event r (b # ds) = Value (uint b, b # ds)" using m False by (simp add: midi_pack_event_def)
    moreover have "unpack_stream u (b # ds) = Value (u', [normal_message (b # ds)])" using one u'(1) by simp
    moreover have "in_step (uint b) u'" using u'(2-) m by (auto simp: in_step_def)
    ultimately show ?thesis by blast
  qed
qed

lemma not_note: "0xF0 \<le> b \<Longrightarrow> (b :: byte) AND 0xF0 \<noteq> 0x90"
  using note_on_len [of b] by (auto simp: not_le)

lemma system_message:
  assumes m: "0xF0 < b" "b < 0xF7" "length ds + 1 = system_len b" "data_bytes ds" and inv: "unpack_inv u"
  shows "\<exists>u'. unpack_stream u (b # ds) = Value (u', [normal_message (b # ds)]) \<and> unpack_inv u'"
proof -
  have b: "0xF0 \<le> b" "0x80 \<le> b" using m(1) by (auto simp: word_less_nat_alt word_le_nat_alt)
  have n: "system_len b \<in> {0, 1, 2, 3}" using system_need [OF b(1) m(2)] by (simp add: system_len_def)
  let ?u = "u\<lparr>u_pos := 1, u_data := (u_data u)[0 := b], u_need := system_len b\<rparr>"
  have tb: "take_byte u b = Value ?u" using take_system [OF b(1) m(2)] m(3) by simp
  have d0: "(u_data u)[0 := b] ! 0 = b" "take (Suc 0) ((u_data u)[0 := b]) = [b]"
    using inv by (cases "u_data u"; simp add: unpack_inv_def MIDI_UNPACK_MAX_MSG_def)+
  note nn = not_note [OF b(1)]
  show ?thesis
  proof (cases "ds = []")
    case True
    then have "complete_message ?u = [normal_message [b]]" using message_of [of "[]" "u_data ?u" b ?u] d0(2) b nn by simp
    then have "unpack_one u b = Value (next_message ?u, [normal_message [b]])"
      using tb not_realtime(1) [OF m(2)] m(3) True by (simp add: unpack_one_def)
    moreover have "unpack_inv (next_message ?u)"
      using inv d0(1) b(1) by (auto simp: unpack_inv_def next_message_def MIDI_UNPACK_MAX_MSG_def not_less)
    ultimately show ?thesis using True by simp
  next
    case False
    then have "1 < system_len b" using m(3) by (cases ds) auto
    then have "unpack_one u b = Value (?u, [])" using tb not_realtime(1) [OF m(2)] by (simp add: unpack_one_def)
    moreover have "unpack_inv ?u" using inv n \<open>1 < system_len b\<close> by (auto simp: unpack_inv_def MIDI_UNPACK_MAX_MSG_def)
    moreover obtain u' where "unpack_stream ?u ds = Value (u', [normal_message (b # ds)])" "unpack_inv u'"
      using collect_all [OF m(4) \<open>unpack_inv ?u\<close> _ _ _ b(2)] d0(1) nn m(3) by auto
    ultimately show ?thesis by simp
  qed
qed

lemma exclusive_message:
  assumes m: "data_bytes ds" "length ds + 2 \<le> MIDI_UNPACK_MAX_MSG" and inv: "unpack_inv u"
  shows "\<exists>u'. unpack_stream u (0xF0 # ds @ [0xF7]) = Value (u', [0xF0 # ds @ [0xF7]]) \<and> unpack_inv u'"
proof -
  have i: "u_size u = 1024" "length (u_data u) = 1024" using inv by (simp_all add: unpack_inv_def MIDI_UNPACK_MAX_MSG_def)
  let ?u = "u\<lparr>u_pos := 1, u_data := (u_data u)[0 := 0xF0], u_need := 1024\<rparr>"
  have "system_len 0xF0 = 0" by (simp add: system_len_def midi_system_len_def)
  then have one: "unpack_one u 0xF0 = Value (?u, [])" using take_system [of "0xF0" u] i by (simp add: unpack_one_def)
  have inv1: "unpack_inv ?u" using i by (simp add: unpack_inv_def MIDI_UNPACK_MAX_MSG_def)
  have p: "u_pos ?u + length ds < u_need ?u" using m(2) by (simp add: MIDI_UNPACK_MAX_MSG_def)
  obtain d where d: "unpack_stream ?u ds = Value (?u\<lparr>u_data := d, u_pos := Suc (length ds)\<rparr>, [])" "length d = 1024"
    "take (Suc (length ds)) d = take 1 (u_data ?u) @ ds" using collect [OF m(1) inv1 p] i by auto
  have t: "take (Suc (length ds)) d = 0xF0 # ds" using d(3) i(2) by (cases "u_data u") simp_all
  let ?d = "d[Suc (length ds) := 0xF7]"
  let ?w = "?u\<lparr>u_data := ?d, u_pos := Suc (Suc (length ds)), u_need := Suc (Suc (length ds))\<rparr>"
  have l: "Suc (length ds) < length d" using m(2) d(2) by (simp add: MIDI_UNPACK_MAX_MSG_def)
  have td: "take (Suc (Suc (length ds))) ?d = 0xF0 # ds @ [0xF7]" using take_update_same [OF l] t by simp
  have "complete_message ?w = [normal_message (0xF0 # ds @ [0xF7])]"
    by (rule message_of [of _ ?d]) (use td in simp_all)
  moreover have "normal_message (0xF0 # ds @ [0xF7]) = 0xF0 # ds @ [0xF7]" by (simp add: normal_message_def)
  ultimately have two: "unpack_one (?u\<lparr>u_data := d, u_pos := Suc (length ds)\<rparr>) 0xF7 = Value (next_message ?w, [0xF0 # ds @ [0xF7]])"
    using l d(2) i by (simp add: unpack_one_def take_byte_def store_byte_def)
  have "?d ! 0 = 0xF0" using arg_cong [OF td, of "\<lambda>l. l ! 0"] by simp
  then have "unpack_inv (next_message ?w)" using d(2) i by (simp add: next_message_def unpack_inv_def MIDI_UNPACK_MAX_MSG_def)
  moreover have "unpack_stream u (0xF0 # ds @ [0xF7]) = Value (next_message ?w, [0xF0 # ds @ [0xF7]])"
    using one d(1) two by (simp add: unpack_stream_append)
  ultimately show ?thesis by blast
qed

lemma message_step:
  assumes "whole_message m" "in_step r u"
  shows "\<exists>r' bs u'. midi_pack_event r m = Value (r', bs) \<and> unpack_stream u bs = Value (u', [normal_message m]) \<and> in_step r' u'"
proof -
  obtain b ds where m: "m = b # ds" using assms(1) by (cases m) auto
  have inv: "unpack_inv u" using assms(2) by (simp add: in_step_def)
  show ?thesis
  proof (cases b rule: byte_cases)
    case 2
    have "\<not> b < 0x80" "b \<noteq> 0xF7" using 2 by (auto simp: word_less_nat_alt word_le_nat_alt)
    then show ?thesis using voice_message [OF 2 _ _ assms(2)] assms(1) 2 m by simp
  next
    case 3
    have c: "\<not> b < 0x80" "\<not> b < 0xF0" "b \<noteq> 0xF7" "b < 0xF8" using 3 by (auto simp: word_less_nat_alt word_le_nat_alt)
    then have pk: "midi_pack_event r m = Value (0, m)" by (simp add: m midi_pack_event_def)
    have "\<exists>u'. unpack_stream u m = Value (u', [normal_message m]) \<and> unpack_inv u'"
    proof (cases "b = 0xF0")
      case True
      then have w: "ds \<noteq> []" "last ds = 0xF7" "data_bytes (butlast ds)" "length ds < MIDI_UNPACK_MAX_MSG" using assms(1) m c by simp_all
      then have ds: "m = 0xF0 # butlast ds @ [0xF7]" using True m by (metis append_butlast_last_id)
      have "normal_message m = m" using True m by (simp add: normal_message_def)
      then show ?thesis using exclusive_message [OF w(3) _ inv] w(4) ds w(1) by (simp add: Suc_le_eq)
    next
      case False
      then have "0xF0 < b" using 3(1) by (simp add: order_le_less)
      then show ?thesis using system_message [OF _ 3(2) _ _ inv] assms(1) m c False 3 by simp
    qed
    then show ?thesis using pk by (auto simp: in_step_def)
  next
    case 5
    have c: "\<not> b < 0x80" "\<not> b < 0xF0" "\<not> b < 0xF7" "\<not> b < 0xF8" "b \<noteq> 0xF7" "0xF0 \<le> b" "b \<noteq> 0xF0"
      using 5 by (auto simp: word_less_nat_alt word_le_nat_alt)
    have ds: "ds = []" using assms(1) m c by simp
    have "unpack_one u b = Value (u, [[b]])" using 5 inv by (simp add: unpack_one_def take_byte_def unpack_inv_def)
    moreover have "normal_message m = [b]" using not_note [OF c(6)] by (simp add: normal_message_def m ds)
    ultimately show ?thesis using c assms(2) by (simp add: m ds midi_pack_event_def)
  qed (use assms(1) m in simp_all)
qed

fun pack_all :: "int \<Rightarrow> byte list list \<Rightarrow> (int \<times> byte list) c_result" where
  "pack_all r [] = Value (r, [])"
| "pack_all r (m # ms) = c_bind (midi_pack_event r m) (\<lambda>(r1, bs). c_map (\<lambda>(r2, bs2). (r2, bs @ bs2)) (pack_all r1 ms))"

lemma stream_roundtrip:
  "\<forall>m \<in> set ms. whole_message m \<Longrightarrow> in_step r u \<Longrightarrow>
   \<exists>r' bs u'. pack_all r ms = Value (r', bs) \<and> unpack_stream u bs = Value (u', map normal_message ms) \<and> in_step r' u'"
proof (induction ms arbitrary: r u)
  case (Cons m ms)
  obtain r1 bs1 u1 where 1: "midi_pack_event r m = Value (r1, bs1)" "unpack_stream u bs1 = Value (u1, [normal_message m])" "in_step r1 u1"
    using message_step [OF _ Cons.prems(2)] Cons.prems(1) by (metis list.set_intros(1))
  obtain r2 bs2 u2 where "pack_all r1 ms = Value (r2, bs2)" "unpack_stream u1 bs2 = Value (u2, map normal_message ms)" "in_step r2 u2"
    using Cons.IH [OF _ 1(3)] Cons.prems(1) by (metis list.set_intros(2))
  then show ?case using 1 by (simp add: unpack_stream_append)
qed simp

lemma write_messages_Value:
  "dst_ok port (map (\<lambda>m. (t, m)) ms) \<Longrightarrow>
   \<exists>port'. write_messages port (ucast t) ms = Value port' \<and> midi_events port' = midi_events port @ map (\<lambda>m. (t, m)) ms \<and>
     midi_inv port' \<and> events_lost port' = events_lost port"
proof (induction ms arbitrary: port)
  case Nil
  then show ?case by (simp add: dst_ok_def)
next
  case (Cons m ms)
  obtain p1 where p: "jack_midi_event_write port (ucast t) m = Value (p1, 0)" "dst_ok p1 (map (\<lambda>m. (t, m)) ms)"
    "midi_events p1 = midi_events port @ [(t, m)]" "events_lost p1 = events_lost port"
    using dst_step [of port t m "map (\<lambda>m. (t, m)) ms"] Cons.prems by auto
  show ?case using p Cons.IH [OF p(2)] by auto
qed

text \<open>The unpacker, called with one piece of the stream after the other.\<close>

fun unpack_pieces :: "midi_unpack_t \<Rightarrow> byte list list \<Rightarrow> midi_buffer \<Rightarrow> u32 \<Rightarrow> (midi_unpack_t \<times> midi_buffer) c_result" where
  "unpack_pieces u [] port time = Value (u, port)"
| "unpack_pieces u (bs # bss) port time = c_bind (midi_unpack_buf u bs port time) (\<lambda>(u1, port1). unpack_pieces u1 bss port1 time)"

lemma unpack_buf_append:
  "midi_unpack_buf u (xs @ ys) port time = c_bind (midi_unpack_buf u xs port time) (\<lambda>(u1, port1). midi_unpack_buf u1 ys port1 time)"
proof (induction xs arbitrary: u port)
  case (Cons b xs)
  show ?case
  proof (cases "unpack_one u b")
    case (Value r)
    then show ?thesis using Cons by (cases r; cases "write_messages port time (snd r)") simp_all
  qed simp_all
qed simp

lemma unpack_pieces_concat: "unpack_pieces u bss port time = midi_unpack_buf u (concat bss) port time"
proof (induction bss arbitrary: u port)
  case (Cons bs bss)
  then show ?case by (simp add: unpack_buf_append)
qed simp

text \<open>C23: raw MIDI from port to port. A sequence of whole messages goes through the packer, which leaves
  out repeated status bytes. However the stream of bytes is then cut into pieces, in the middle of
  messages too, the unpacker that gets the pieces one after the other writes to the port buffer, if
  that has room for them, the messages in order: each as it was, but a Note On with velocity 0 as a
  Note Off. None is lost. Packer and unpacker stay in step, so this holds again for what comes next.
  For any bytes at all the unpacker keeps to its memory and none of its assertions fails.\<close>

theorem raw_midi_roundtrip:
  assumes "in_step r u" "\<forall>m \<in> set ms. whole_message m" "dst_ok port (map (\<lambda>m. (t, normal_message m)) ms)"
  shows "(\<exists>r' bs. pack_all r ms = Value (r', bs) \<and>
      (\<forall>bss. concat bss = bs \<longrightarrow> (\<exists>u' port'. unpack_pieces u bss port (ucast t) = Value (u', port') \<and> in_step r' u' \<and>
        midi_events port' = midi_events port @ map (\<lambda>m. (t, normal_message m)) ms \<and> events_lost port' = events_lost port))) \<and>
    (\<forall>any. \<exists>u' out. unpack_stream u any = Value (u', out) \<and> unpack_inv u' \<and>
       midi_unpack_buf u any port (ucast t) = c_map (\<lambda>p. (u', p)) (write_messages port (ucast t) out))"
proof (intro conjI allI)
  obtain r' bs u' where s: "pack_all r ms = Value (r', bs)" "unpack_stream u bs = Value (u', map normal_message ms)" "in_step r' u'"
    using stream_roundtrip [OF assms(2,1)] by blast
  have "dst_ok port (map (\<lambda>m. (t, m)) (map normal_message ms))" using assms(3) by (simp add: comp_def)
  then obtain port' where "write_messages port (ucast t) (map normal_message ms) = Value port'"
    "midi_events port' = midi_events port @ map (\<lambda>m. (t, m)) (map normal_message ms)" "events_lost port' = events_lost port"
    using write_messages_Value by blast
  then show "\<exists>r' bs. pack_all r ms = Value (r', bs) \<and>
      (\<forall>bss. concat bss = bs \<longrightarrow> (\<exists>u' port'. unpack_pieces u bss port (ucast t) = Value (u', port') \<and> in_step r' u' \<and>
        midi_events port' = midi_events port @ map (\<lambda>m. (t, normal_message m)) ms \<and> events_lost port' = events_lost port))"
    using s unpack_buf_stream [OF s(2), of port "ucast t"] by (auto simp: comp_def unpack_pieces_concat)
  show "\<exists>u' out. unpack_stream u any = Value (u', out) \<and> unpack_inv u' \<and>
       midi_unpack_buf u any port (ucast t) = c_map (\<lambda>p. (u', p)) (write_messages port (ucast t) out)" for any
    using unpack_stream_Value [of u any] unpack_buf_stream assms(1) by (auto simp: in_step_def)
qed

text \<open>
  A Note On, a Note On of the same channel with velocity 0, which goes out without its status byte, and a clock tick,
  cut in the middle of the first two messages.
\<close>

theorem raw_midi_roundtrip_witness:
  "\<exists>r' u' port'. pack_all 0 [[0x90, 60, 100], [0x90, 60, 0], [0xF8]] = Value (r', [0x90, 60, 100, 60, 0, 0xF8]) \<and>
     unpack_pieces (midi_unpack_init (replicate 1024 0)) [[0x90], [60, 100, 60], [0, 0xF8]] demo_midi 10 = Value (u', port') \<and>
     midi_events port' = [(10, [0x90, 60, 100]), (10, [0x80, 60, 0x40]), (10, [0xF8])]"
proof -
  let ?ms = "[[0x90, 60, 100], [0x90, 60, 0], [0xF8]]"
  have 1: "in_step 0 (midi_unpack_init (replicate 1024 0))"
    by (simp add: in_step_def unpack_inv_def midi_unpack_init_def MIDI_UNPACK_MAX_MSG_def)
  have 2: "\<forall>m \<in> set ?ms. whole_message m"
    by (simp add: voice_len_def midi_voice_len_def data_bytes_def)
  have n: "map normal_message ?ms = [[0x90, 60, 100], [0x80, 60, 0x40], [0xF8]]" by (simp add: normal_message_def)
  have e: "midi_events demo_midi = []" by (simp add: midi_events_def demo_midi_fields)
  have 3: "dst_ok demo_midi (map (\<lambda>m. (10, normal_message m)) ?ms)"
    using demo_midi_inv n by (simp add: dst_ok_def e demo_midi_fields midi_consts msg_room_def)
  obtain r' bs where bs: "pack_all 0 ?ms = Value (r', bs)"
    "\<forall>bss. concat bss = bs \<longrightarrow> (\<exists>u' port'. unpack_pieces (midi_unpack_init (replicate 1024 0)) bss demo_midi (ucast (10 :: u16)) = Value (u', port') \<and>
        midi_events port' = midi_events demo_midi @ map (\<lambda>m. (10, normal_message m)) ?ms)"
    using raw_midi_roundtrip [OF 1 2 3] by blast
  have "bs = concat [[0x90], [60, 100, 60], [0, 0xF8]]" using bs(1) by (simp add: midi_pack_event_def)
  then show ?thesis using bs(1) bs(2) [rule_format, of "[[0x90], [60, 100, 60], [0, 0xF8]]"] n e by auto
qed

text \<open>
  An end of a system exclusive message without its beginning, after a voice message: it is taken for
  data, and the length of the message is lost. The rest of a control change becomes two
  messages of two bytes.
\<close>

lemma stray_end_breaks_status:
  assumes "unpack_inv u"
  shows "\<exists>u'. unpack_stream u [0xB1, 0xF7, 60, 100] = Value (u', [[0xB1, 0xF7], [0xB1, 60], [0xB1, 100]])"
proof -
  have i: "u_size u = 1024" "length (u_data u) = 1024" using assms by (simp_all add: unpack_inv_def MIDI_UNPACK_MAX_MSG_def)
  obtain x xs where x: "u_data u = x # xs" using i(2) by (cases "u_data u") simp_all
  obtain y zs where "xs = y # zs" using i(2) x by (cases xs) simp_all
  then have d: "u_data u = x # y # zs" using x by simp
  show ?thesis
    by (simp add: unpack_one_def take_byte_def store_byte_def midi_voice_len_def next_message_def complete_message_def i d)
qed

text \<open>
  A system exclusive message that is larger than the memory is not dropped: its first 1024 bytes are
  written as a message without an end.
\<close>

lemma long_exclusive_is_cut:
  assumes "unpack_inv u" "data_bytes ds" "length ds = 1023"
  shows "\<exists>u'. unpack_stream u (0xF0 # ds) = Value (u', [0xF0 # ds])"
proof -
  have i: "u_size u = 1024" "length (u_data u) = 1024" using assms(1) by (simp_all add: unpack_inv_def MIDI_UNPACK_MAX_MSG_def)
  let ?u = "u\<lparr>u_pos := 1, u_data := (u_data u)[0 := 0xF0], u_need := 1024\<rparr>"
  have "system_len 0xF0 = 0" by (simp add: system_len_def midi_system_len_def)
  then have "unpack_one u 0xF0 = Value (?u, [])" using take_system [of "0xF0" u] i by (simp add: unpack_one_def)
  moreover have inv: "unpack_inv ?u" using i by (simp add: unpack_inv_def MIDI_UNPACK_MAX_MSG_def)
  moreover have "\<exists>u'. unpack_stream ?u ds = Value (u', [normal_message (0xF0 # ds)])"
    using collect_all [OF assms(2) inv, of "0xF0"] assms(3) i by auto
  ultimately show ?thesis by (auto simp: normal_message_def)
qed

end
