(* ===== verification/Client_Lib.thy ===== *)
theory Client_Lib
  imports Ports
begin

text \<open>
  The client library, \<open>libjack/client.c\<close> and \<open>libjack/port.c\<close>: what a client keeps about its own ports
  and their connections, and what it does when the server sends it an event. The engine record
  stands for the memory that server and client share; the data of the library itself is in the record
  \<open>jack_client_t\<close>. A port structure that \<open>jack_port_new\<close> makes for the other end of a connection has no
  connections of its own (\<open>peer\<close>). Memory can always be allocated. Ties between ports are left out:
  \<open>jack_port_tie\<close> refuses output ports and \<open>jack_port_get_buffer\<close> looks at \<open>tied\<close> for output ports only.
\<close>

section \<open>Data\<close>

datatype callback =
    CbPortRegister | CbPortConnect | CbClientRegister | CbGraphOrder | CbBufferSize | CbSampleRate | CbXRun
  | CbFreewheel | CbSession | CbLatency | CbProcess | CbThread | CbThreadInit | CbSync | CbTimebase

text \<open>What the library does to the outside: calls of functions of the application and bytes it writes.\<close>

datatype lib_call =
    CallPortRegister pidx bool
  | CallPortConnect pidx pidx bool
  | CallClientRegister string bool
  | CallGraphOrder
  | CallBufferSize jack_nframes_t
  | CallSampleRate jack_nframes_t
  | CallXRun
  | CallFreewheel bool
  | CallSession u32 string string
  | CallLatency bool
  | CallThreadInit
  | CallProcess jack_nframes_t
  | WakeNext
  | EatWakeup
  | SendStatus int
  | CallInfoShutdown
  | CallShutdown
  | CloseClient

record peer =
  peer_id :: pidx
  peer_segment :: nat

record port =
  shared :: pidx
  type_info :: nat
  segment :: nat
  mix_buffer :: "int option"
  peers :: "peer list"

record jack_client_t =
  client_id :: u32
  client_uid :: u32
  client_ports :: "port list"
  ports_ext :: "port list"
  attached :: "nat \<Rightarrow> bool"
  cbset :: "callback \<Rightarrow> bool"
  graph_wait_fd :: int
  graph_next_fd :: int
  pollmax :: nat
  upstream_is_jackd :: bool
  on_info_shutdown :: bool
  on_shutdown :: bool
  calls :: "lib_call list"

definition call :: "lib_call \<Rightarrow> jack_client_t \<Rightarrow> jack_client_t" where
  "call x cl = cl\<lparr>calls := calls cl @ [x]\<rparr>"

definition call_if :: "bool \<Rightarrow> lib_call \<Rightarrow> jack_client_t \<Rightarrow> jack_client_t" where
  "call_if b x cl = (if b then call x cl else cl)"

section \<open>Port structures\<close>

text \<open>The built-in types, audio and MIDI, have functions to mix several inputs.\<close>

definition jack_get_port_functions :: "nat \<Rightarrow> bool" where
  "jack_get_port_functions ptid \<longleftrightarrow> ptid = 0 \<or> ptid = 1"

definition jack_port_new :: "jack_engine_t \<Rightarrow> jack_client_t \<Rightarrow> pidx \<Rightarrow> (jack_engine_t \<times> port) c_result" where
  "jack_port_new e cl port_id =
     (if length (ports e) \<le> port_id then Undefined
      else
        (let ptid = ptype_id (ports e ! port_id);
             e1 = (if client_id cl = p_client_id (ports e ! port_id)
                   then upd_port port_id (\<lambda>r. r\<lparr>has_mixdown := jack_get_port_functions ptid\<rparr>) e else e)
         in Value (e1, \<lparr>shared = port_id, type_info = ptid, segment = ptid, mix_buffer = None, peers = []\<rparr>)))"

text \<open>A port of the client's own list, by its position there, or a new structure, or \<open>NULL\<close>.\<close>

datatype found = Own nat | Fresh port | NoPort

fun own_port :: "port list \<Rightarrow> nat \<Rightarrow> pidx \<Rightarrow> nat option" where
  "own_port [] i port_id = None"
| "own_port (p # ps) i port_id = (if shared p = port_id then Some i else own_port ps (Suc i) port_id)"

definition jack_port_by_id_int :: "jack_engine_t \<Rightarrow> jack_client_t \<Rightarrow> pidx \<Rightarrow> (jack_engine_t \<times> found) c_result" where
  "jack_port_by_id_int e cl port_id =
     (case own_port (client_ports cl) 0 port_id of
        Some i \<Rightarrow> Value (e, Own i)
      | None \<Rightarrow>
          if length (ports e) \<le> port_id then Value (e, NoPort)
          else if in_use (ports e ! port_id) then c_map (\<lambda>(e1, p). (e1, Fresh p)) (jack_port_new e cl port_id)
          else Value (e, NoPort))"

definition jack_port_by_id :: "jack_engine_t \<Rightarrow> jack_client_t \<Rightarrow> pidx \<Rightarrow> (jack_engine_t \<times> jack_client_t \<times> port option) c_result" where
  "jack_port_by_id e cl port_id =
     (case find (\<lambda>p. shared p = port_id) (ports_ext cl) of
        Some p \<Rightarrow> Value (e, cl, Some p)
      | None \<Rightarrow>
          c_map (\<lambda>(e1, r). case r of
              Own i \<Rightarrow> (e1, cl, Some (client_ports cl ! i))
            | Fresh p \<Rightarrow> (e1, cl\<lparr>ports_ext := p # ports_ext cl\<rparr>, Some p)
            | NoPort \<Rightarrow> (e1, cl, None))
          (jack_port_by_id_int e cl port_id))"

definition jack_port_by_name_int :: "jack_engine_t \<Rightarrow> jack_client_t \<Rightarrow> string \<Rightarrow> (jack_engine_t \<times> port option) c_result" where
  "jack_port_by_name_int e cl port_name =
     (case port_search (ports e) 0 port_name of
        None \<Rightarrow> Value (e, None)
      | Some i \<Rightarrow> c_map (\<lambda>(e1, p). (e1, Some p)) (jack_port_new e cl i))"

text \<open>The cached structures refer to ports that may have been unregistered since.\<close>

definition jack_port_by_name :: "jack_engine_t \<Rightarrow> jack_client_t \<Rightarrow> string \<Rightarrow> (jack_engine_t \<times> jack_client_t \<times> port option) c_result" where
  "jack_port_by_name e cl port_name =
     (case find (\<lambda>p. jack_port_name_equals (ports e ! shared p) port_name) (ports_ext cl) of
        Some p \<Rightarrow> Value (e, cl, Some p)
      | None \<Rightarrow>
          c_map (\<lambda>(e1, r). case r of
              Some p \<Rightarrow> (e1, cl\<lparr>ports_ext := p # ports_ext cl\<rparr>, Some p)
            | None \<Rightarrow> (e1, cl, None))
          (jack_port_by_name_int e cl port_name))"

definition jack_port_connected :: "port \<Rightarrow> nat" where
  "jack_port_connected p = length (peers p)"

definition jack_port_connected_to :: "jack_engine_t \<Rightarrow> port \<Rightarrow> string \<Rightarrow> bool" where
  "jack_port_connected_to e p portname \<longleftrightarrow> (\<exists>q \<in> set (peers p). jack_port_name_equals (ports e ! peer_id q) portname)"

definition jack_port_get_connections :: "jack_engine_t \<Rightarrow> port \<Rightarrow> string list option" where
  "jack_port_get_connections e p =
     (if peers p = [] then None else Some (map (\<lambda>q. p_name (ports e ! peer_id q)) (peers p)))"

section \<open>Connections\<close>

definition buffer_bytes :: "jack_engine_t \<Rightarrow> nat \<Rightarrow> int" where
  "buffer_bytes e ptid = jack_port_type_buffer_size (port_types (control e) ! ptid) (buffer_size (control e))"

definition upd_own :: "nat \<Rightarrow> (port \<Rightarrow> port) \<Rightarrow> jack_client_t \<Rightarrow> jack_client_t" where
  "upd_own i f cl = cl\<lparr>client_ports := (client_ports cl)[i := f (client_ports cl ! i)]\<rparr>"

definition peer_of :: "port \<Rightarrow> peer" where
  "peer_of p = \<lparr>peer_id = shared p, peer_segment = segment p\<rparr>"

text \<open>The first connection of an input port needs no buffer to mix into, the second one does.\<close>

definition add_peer :: "jack_engine_t \<Rightarrow> peer \<Rightarrow> port \<Rightarrow> port" where
  "add_peer e q p =
     (let p1 = (if flag_set (p_flags (ports e ! shared p)) JackPortIsInput \<and> peers p \<noteq> [] \<and> mix_buffer p = None
                then p\<lparr>mix_buffer := Some (buffer_bytes e (type_info p))\<rparr> else p)
      in p1\<lparr>peers := jack_slist_prepend (peers p1) q\<rparr>)"

fun drop_peer :: "pidx \<Rightarrow> peer list \<Rightarrow> peer list" where
  "drop_peer i [] = []"
| "drop_peer i (q # qs) = (if peer_id q = i then qs else q # drop_peer i qs)"

definition connect_own :: "jack_engine_t \<Rightarrow> jack_client_t \<Rightarrow> pidx \<Rightarrow> pidx \<Rightarrow> (jack_engine_t \<times> jack_client_t) c_result" where
  "connect_own e cl self_id other_id =
     c_bind (jack_port_new e cl other_id) (\<lambda>(e1, other).
     c_bind (jack_port_by_id_int e1 cl self_id) (\<lambda>(e2, r).
       case r of
         Own i \<Rightarrow> Value (e2, upd_own i (add_peer e2 (peer_of other)) cl)
       | Fresh p \<Rightarrow> Value (e2, cl)
       | NoPort \<Rightarrow> Undefined))"

definition disconnect_own :: "jack_engine_t \<Rightarrow> jack_client_t \<Rightarrow> pidx \<Rightarrow> pidx \<Rightarrow> (jack_engine_t \<times> jack_client_t) c_result" where
  "disconnect_own e cl self_id other_id =
     c_bind (jack_port_by_id_int e cl self_id) (\<lambda>(e1, r).
       case r of
         Own i \<Rightarrow> Value (e1, upd_own i (\<lambda>p. p\<lparr>peers := drop_peer other_id (peers p)\<rparr>) cl)
       | Fresh p \<Rightarrow> Value (e1, cl)
       | NoPort \<Rightarrow> Undefined)"

definition jack_client_handle_port_connection ::
  "jack_engine_t \<Rightarrow> jack_client_t \<Rightarrow> bool \<Rightarrow> pidx \<Rightarrow> pidx \<Rightarrow> (jack_engine_t \<times> jack_client_t) c_result" where
  "jack_client_handle_port_connection e cl connected self_id other_id =
     (if length (ports e) \<le> self_id \<or> length (ports e) \<le> other_id then Undefined
      else
        c_map (\<lambda>(e1, cl1). (e1, call_if (cbset cl1 CbPortConnect) (CallPortConnect self_id other_id connected) cl1))
          (if p_client_id (ports e ! self_id) = client_id cl \<or> p_client_id (ports e ! other_id) = client_id cl
           then (if connected then connect_own e cl self_id other_id else disconnect_own e cl self_id other_id)
           else Value (e, cl)))"

text \<open>After a change of the buffer size the buffers for mixing are made again.\<close>

definition fix_buffer :: "jack_engine_t \<Rightarrow> port \<Rightarrow> port" where
  "fix_buffer e p =
     (if flag_set (p_flags (ports e ! shared p)) JackPortIsInput \<and> mix_buffer p \<noteq> None
      then p\<lparr>mix_buffer := (if 1 < length (peers p) then Some (buffer_bytes e (type_info p)) else None)\<rparr>
      else p)"

definition jack_client_fix_port_buffers :: "jack_engine_t \<Rightarrow> jack_client_t \<Rightarrow> jack_client_t" where
  "jack_client_fix_port_buffers e cl = cl\<lparr>client_ports := map (fix_buffer e) (client_ports cl)\<rparr>"

section \<open>Port buffers\<close>

text \<open>
  Where the data of a port lies: an offset in the segment of a port type, or the client's own buffer
  with the mix of several such places, or nowhere.
\<close>

datatype port_data = NoData | InSegment nat int | MixOf "(nat \<times> int) list"

definition jack_output_port_buffer :: "jack_engine_t \<Rightarrow> peer \<Rightarrow> nat \<times> int" where
  "jack_output_port_buffer e q = (peer_segment q, p_offset (ports e ! peer_id q))"

definition silence :: "jack_engine_t \<Rightarrow> jack_client_t \<Rightarrow> nat \<Rightarrow> nat \<Rightarrow> port_data" where
  "silence e cl ptid seg =
     (if attached cl seg then InSegment seg (zero_buffer_offset (port_types (control e) ! ptid)) else NoData)"

definition output_data :: "jack_engine_t \<Rightarrow> jack_client_t \<Rightarrow> peer \<Rightarrow> port_data" where
  "output_data e cl q =
     (if attached cl (peer_segment q) then InSegment (peer_segment q) (p_offset (ports e ! peer_id q)) else NoData)"

definition is_output :: "jack_engine_t \<Rightarrow> pidx \<Rightarrow> bool" where
  "is_output e i \<longleftrightarrow> flag_set (p_flags (ports e ! i)) JackPortIsOutput"

definition jack_port_get_buffer :: "jack_engine_t \<Rightarrow> jack_client_t \<Rightarrow> port \<Rightarrow> port_data" where
  "jack_port_get_buffer e cl p =
     (if is_output e (shared p) then output_data e cl (peer_of p)
      else
        (case peers p of
           [] \<Rightarrow> silence e cl (type_info p) (segment p)
         | [q] \<Rightarrow>
             if is_output e (peer_id q) then output_data e cl q else silence e cl (peer_segment q) (peer_segment q)
         | _ \<Rightarrow>
             if mix_buffer p = None then NoData else MixOf (map (jack_output_port_buffer e) (peers p))))"

end
