(* ===== verification/Client_Events.thy ===== *)
theory Client_Events
  imports Client_Lib Graph_Properties
begin

text \<open>
  What the server tells a client about connections, taken from the trace of events: most operations on
  the graph tell nothing, and a new or broken link gives rise to the notifications of
  \<open>notify_connection\<close>.
\<close>

section \<open>What a client hears\<close>

fun conn_events :: "cptr \<Rightarrow> (cptr \<times> jack_event_t) list \<Rightarrow> (bool \<times> pidx \<times> pidx) list" where
  "conn_events c [] = []"
| "conn_events c ((c', ev) # tr) =
     (case ev of
        PortConnected a b \<Rightarrow> if c' = c then (True, a, b) # conn_events c tr else conn_events c tr
      | PortDisconnected a b \<Rightarrow> if c' = c then (False, a, b) # conn_events c tr else conn_events c tr
      | _ \<Rightarrow> conn_events c tr)"

definition is_conn :: "jack_event_t \<Rightarrow> bool" where
  "is_conn ev \<longleftrightarrow> (case ev of PortConnected a b \<Rightarrow> True | PortDisconnected a b \<Rightarrow> True | _ \<Rightarrow> False)"

lemma conn_events_append: "conn_events c (xs @ ys) = conn_events c xs @ conn_events c ys"
proof (induction xs)
  case (Cons x xs)
  then show ?case by (cases x; cases "snd x") auto
qed simp

lemma conn_events_one:
  "conn_events c [(x, connection_event b p q)] = (if x = c then [(b, p, q)] else [])"
  "\<not> is_conn ev \<Longrightarrow> conn_events c [(x, ev)] = []"
  by (auto simp: connection_event_def is_conn_def split: jack_event_t.splits)

text \<open>A client that hears: it is there and answers every event.\<close>

definition good_io :: "jack_engine_t \<Rightarrow> bool" where
  "good_io e \<longleftrightarrow> (\<forall>i. process_alive (io e i) \<and> event_written (io e i) \<and> poll_result (io e i) = PollReadable \<and>
     (\<exists>v \<ge> 0. status_read (io e i) = Some v))"

definition hears :: "jack_engine_t \<Rightarrow> cptr \<Rightarrow> bool" where
  "hears e c \<longleftrightarrow> good_io e \<and> c \<in> set (clients e) \<and> \<not> dead (cmem e c) \<and> active (cmem e c) \<and> cl_error (cmem e c) = 0"

lemma deliver_hears:
  assumes "good_io e" "\<not> dead (cmem e c)" "active (cmem e c)" "cl_error (cmem e c) = 0"
  shows "fst (jack_deliver_event e c ev) = e\<lparr>io_pos := Suc (io_pos e), trace := trace e @ [(c, ev)]\<rparr>"
proof -
  let ?d = "io e (io_pos e)"
  obtain v where d: "process_alive ?d" "event_written ?d" "poll_result ?d = PollReadable" "status_read ?d = Some v" "0 \<le> v"
    using assms(1) unfolding good_io_def by blast
  show ?thesis using assms(2-4) d by (simp add: jack_deliver_event_def Let_def JACK_ERROR_WITH_SOCKETS_def)
qed

text \<open>Delivery to another client, or of another event.\<close>

lemma deliver_trace: "trace (fst (jack_deliver_event e c ev)) \<in> {trace e, trace e @ [(c, ev)]}"
  by (auto simp: jack_deliver_event_def Let_def client_socket_error_def jack_engine_signal_problems_def upd_client_def)

lemma deliver_error: "x \<noteq> c \<Longrightarrow> cl_error (cmem (fst (jack_deliver_event e x ev)) c) = cl_error (cmem e c)"
  by (auto simp: jack_deliver_event_def Let_def client_socket_error_def jack_engine_signal_problems_def upd_client_def)

section \<open>Operations that tell the client nothing\<close>

definition calm :: "cptr \<Rightarrow> jack_engine_t \<Rightarrow> jack_engine_t \<Rightarrow> bool" where
  "calm c d e \<longleftrightarrow> hears d c \<and> kept d e \<and> cl_error (cmem e c) = 0 \<and> conn_events c (trace e) = conn_events c (trace d)"

named_theorems calm_frame

lemma calm_refl: "hears d c \<Longrightarrow> calm c d d"
  by (simp add: calm_def hears_def)

lemma kept_io: "kept d e \<Longrightarrow> io e = io d"
  by (drule arg_cong [where f = io, OF kept_def [THEN iffD1]]) (simp add: aside_def)

lemma calm_facts:
  assumes "calm c d e"
  shows "good_io e" "\<not> dead (cmem e c)" "active (cmem e c)" "cl_error (cmem e c) = 0"
proof -
  have k: "kept d e" "hears d c" using assms by (simp_all add: calm_def)
  show "good_io e" using k kept_io [OF k(1)] by (simp add: hears_def good_io_def)
  show "\<not> dead (cmem e c)" "active (cmem e c)" using k kept_client [OF k(1)] by (simp_all add: hears_def)
  show "cl_error (cmem e c) = 0" using assms by (simp add: calm_def)
qed

lemma calm_deliver [calm_frame]: "\<not> is_conn ev \<Longrightarrow> calm c d e \<Longrightarrow> calm c d (fst (jack_deliver_event e x ev))"
proof -
  assume a: "\<not> is_conn ev" "calm c d e"
  have "conn_events c (trace (fst (jack_deliver_event e x ev))) = conn_events c (trace e)"
    using deliver_trace [of e x ev] conn_events_one(2) [OF a(1)] by (auto simp: conn_events_append)
  moreover have "cl_error (cmem (fst (jack_deliver_event e x ev)) c) = 0"
  proof (cases "x = c")
    case True
    then show ?thesis using deliver_hears [OF calm_facts [OF a(2)]] calm_facts(4) [OF a(2)] by simp
  qed (use deliver_error a(2) in \<open>simp add: calm_def\<close>)
  ultimately show ?thesis using a(2) kept_deliver by (simp add: calm_def)
qed

lemma calm_deliver_each [calm_frame]: "\<not> is_conn ev \<Longrightarrow> calm c d e \<Longrightarrow> calm c d (deliver_each e cs ev)"
  by (induction e cs ev rule: deliver_each.induct) (auto intro: calm_frame)

lemma calm_same:
  "kept d e' \<Longrightarrow> cl_error (cmem e' c) = cl_error (cmem e c) \<Longrightarrow> trace e' = trace e \<Longrightarrow> calm c d e \<Longrightarrow> calm c d e'"
  by (simp add: calm_def)

lemma calm_kept: "calm c d e \<Longrightarrow> kept d e"
  by (simp add: calm_def)

lemma upd_client_error: "(\<And>r. cl_error (f r) = cl_error r) \<Longrightarrow> cl_error (cmem (upd_client x f e) c) = cl_error (cmem e c)"
  by (simp add: upd_client_def)

lemma upd_trace [simp]:
  "trace (upd_client x f e) = trace e" "trace (upd_port p g e) = trace e" "trace (upd_conn k h e) = trace e"
  "cmem (upd_port p g e) = cmem e" "cmem (upd_conn k h e) = cmem e"
  by (simp_all add: upd_client_def upd_port_def upd_conn_def)

lemma calm_fields [calm_frame]:
  assumes "calm c d e"
  shows "calm c d (e\<lparr>clients := cs\<rparr>)" "calm c d (e\<lparr>timeout_count := n\<rparr>)" "calm c d (e\<lparr>feedbackcount := n\<rparr>)"
    "calm c d (e\<lparr>conns := k, next_kptr := m\<rparr>)" "calm c d (upd_conn j h e)"
  by (rule calm_same [OF _ _ _ assms]; simp add: kept_fields [OF calm_kept [OF assms]])+

lemma calm_client_fields [calm_frame]:
  assumes "calm c d e"
  shows "calm c d (upd_client x (\<lambda>r. r\<lparr>truefeeds := g r\<rparr>) e)" "calm c d (upd_client x (\<lambda>r. r\<lparr>sortfeeds := g r\<rparr>) e)"
    "calm c d (upd_client x (\<lambda>r. r\<lparr>fedcount := h r\<rparr>) e)"
    "calm c d (upd_client x (\<lambda>r. r\<lparr>execution_order := m, next_client := w\<rparr>) e)"
    "calm c d (upd_client x (\<lambda>r. r\<lparr>subgraph_wait_fd := v\<rparr>) e)" "calm c d (upd_client x (\<lambda>r. r\<lparr>subgraph_start_fd := v\<rparr>) e)"
  by (rule calm_same [OF _ _ _ assms]; simp add: kept_client_fields [OF calm_kept [OF assms]] upd_client_error)+

lemma calm_port_fields [calm_frame]:
  assumes "calm c d e"
  shows "calm c d (upd_port p (\<lambda>r. r\<lparr>connections := g r\<rparr>) e)" "calm c d (upd_port p (\<lambda>r. r\<lparr>total_latency := h r\<rparr>) e)"
    "calm c d (upd_port p (\<lambda>r. r\<lparr>monitor_requests := m r\<rparr>) e)"
  by (rule calm_same [OF _ _ _ assms]; simp add: kept_port_fields [OF calm_kept [OF assms]])+

lemma not_conn [simp]: "\<not> is_conn (GraphReordered n b)" "\<not> is_conn (LatencyCallback b)"
  by (simp_all add: is_conn_def)

lemma calm_if [calm_frame]: "calm c d x \<Longrightarrow> calm c d y \<Longrightarrow> calm c d (if b then x else y)"
  by simp

lemma calm_rechain_loop [calm_frame]: "calm c d e \<Longrightarrow> calm c d (fst (rechain_loop e cs n s))"
proof (induction cs arbitrary: e n s rule: length_induct)
  case (1 cs)
  have IH: "calm c d e1 \<Longrightarrow> length ys < length cs \<Longrightarrow> calm c d (fst (rechain_loop e1 ys n1 s1))" for ys e1 n1 s1
    using 1 by blast
  have "length (dropWhile P rest) < Suc (length rest)" for P and rest :: "cptr list"
    by (simp add: length_dropWhile_le less_Suc_eq_le)
  then show ?case
    using 1(2) by (cases cs) (auto simp: Let_def intro!: IH calm_frame split: option.splits)
qed

lemma calm_rechain [calm_frame]: "calm c d e \<Longrightarrow> calm c d (jack_rechain_graph e)"
  unfolding jack_rechain_graph_def
  by (auto simp: case_prod_beta Let_def intro!: calm_frame split: option.splits)

lemma calm_total_latencies [calm_frame]:
  assumes "calm c d e"
  shows "calm c d (jack_compute_all_port_total_latencies e)"
proof -
  have "calm c d e1 \<Longrightarrow> calm c d (fold (\<lambda>i e. jack_compute_port_total_latency e i) is e1)" for "is" e1
    by (induction "is" arbitrary: e1) (simp_all add: jack_compute_port_total_latency_def calm_frame)
  then show ?thesis using assms by (simp add: jack_compute_all_port_total_latencies_def)
qed

lemma calm_sort_graph: "jack_sort_graph e = Value e' \<Longrightarrow> calm c d e \<Longrightarrow> calm c d e'"
  unfolding jack_sort_graph_def jack_compute_new_latency_def
  by (auto simp: c_bind_Value c_map_Value Let_def intro!: calm_frame split: option.splits)

lemma calm_feed_clients: "feed_clients e a b = Value (e', w) \<Longrightarrow> calm c d e \<Longrightarrow> calm c d e'"
  unfolding feed_clients_def feed_true_def feed_sort_def
  by (auto simp: Let_def intro!: calm_frame split: option.splits if_splits)

lemma calm_unfeed: "unfeed_clients e s t w = Value e' \<Longrightarrow> calm c d e \<Longrightarrow> calm c d e'"
  unfolding unfeed_clients_def
  by (auto simp: Let_def intro!: calm_frame split: option.splits if_splits)

lemma calm_check_acyclic:
  assumes "jack_check_acyclic e = Value e'" "calm c d e"
  shows "calm c d e'"
proof -
  have fold: "calm c d e1 \<Longrightarrow> calm c d (fold (\<lambda>k e. reverse_connection e k) ks e1)" for ks e1
    by (induction ks arbitrary: e1) (simp_all add: reverse_connection_def Let_def calm_frame)
  have "calm c d (e\<lparr>cmem := \<lambda>c. if c \<in> set (clients e) then (cmem e c)\<lparr>tfedcount := tf c\<rparr> else cmem e c\<rparr>)" for tf
  proof -
    let ?e = "e\<lparr>cmem := \<lambda>c. if c \<in> set (clients e) then (cmem e c)\<lparr>tfedcount := tf c\<rparr> else cmem e c\<rparr>"
    have "(\<lambda>c. client_aside (if c \<in> set (clients e) then (cmem e c)\<lparr>tfedcount := tf c\<rparr> else cmem e c)) =
      (\<lambda>c. client_aside (cmem e c))" by (auto simp: client_aside_def)
    then have "kept d ?e" using calm_kept [OF assms(2)] by (simp add: kept_def aside_def)
    then show ?thesis by (rule calm_same [OF _ _ _ assms(2)]) simp_all
  qed
  then show ?thesis
    using assms(1) by (auto simp: jack_check_acyclic_def Let_def intro!: calm_frame fold split: option.splits if_splits)
qed

section \<open>Notifications\<close>

lemma hears_calm: "calm c d e \<Longrightarrow> c \<in> set (clients e) \<Longrightarrow> hears e c"
  using calm_facts [of c d e] by (simp add: hears_def)

lemma deliver_clients [simp]: "clients (fst (jack_deliver_event e c ev)) = clients e"
  using same_graph_deliver [OF same_graph_refl, of e c ev] by (simp add: same_graph_def)

lemma deliver_each_clients [simp]: "clients (deliver_each e cs ev) = clients e"
  using same_graph_deliver_each [OF same_graph_refl, of e cs ev] by (simp add: same_graph_def)

lemma hears_deliver:
  assumes "hears e c"
  shows "hears (fst (jack_deliver_event e x ev)) c"
    "conn_events c (trace (fst (jack_deliver_event e x (connection_event b p q)))) =
       conn_events c (trace e) @ (if x = c then [(b, p, q)] else [])"
proof -
  have h: "good_io e" "\<not> dead (cmem e c)" "active (cmem e c)" "cl_error (cmem e c) = 0" "c \<in> set (clients e)"
    using assms by (simp_all add: hears_def)
  have k: "kept e (fst (jack_deliver_event e x ev))" by (rule kept_deliver) simp
  have "cl_error (cmem (fst (jack_deliver_event e x ev)) c) = 0"
    using deliver_hears [OF h(1-4)] deliver_error [of x c e ev] h(4) by (cases "x = c") simp_all
  then show "hears (fst (jack_deliver_event e x ev)) c"
    using h kept_io [OF k] kept_client [OF k] by (simp add: hears_def good_io_def)
  show "conn_events c (trace (fst (jack_deliver_event e x (connection_event b p q)))) =
       conn_events c (trace e) @ (if x = c then [(b, p, q)] else [])"
    using deliver_hears [OF h(1-4)] deliver_trace [of e x "connection_event b p q"]
    by (cases "x = c") (auto simp: conn_events_append connection_event_def)
qed

lemma hears_deliver_each:
  "hears e c \<Longrightarrow> distinct cs \<Longrightarrow> hears (deliver_each e cs (connection_event b p q)) c \<and>
   conn_events c (trace (deliver_each e cs (connection_event b p q))) = conn_events c (trace e) @ (if c \<in> set cs then [(b, p, q)] else [])"
proof (induction cs arbitrary: e)
  case (Cons x cs)
  have h: "hears (fst (jack_deliver_event e x (connection_event b p q))) c" by (rule hears_deliver(1) [OF Cons.prems(1)])
  show ?case using Cons.IH [OF h] hears_deliver(2) [OF Cons.prems(1), of x b p q] Cons.prems(2) by auto
qed simp

lemma by_id_iff:
  assumes "c \<in> set (clients e)" "inj_on (\<lambda>c. cl_id (cmem e c)) (set (clients e))"
  shows "jack_client_internal_by_id e i = Some c \<longleftrightarrow> cl_id (cmem e c) = i"
proof
  assume i: "cl_id (cmem e c) = i"
  then obtain x where x: "jack_client_internal_by_id e i = Some x"
    using assms(1) client_search_None [of "cmem e" "clients e" i] by (cases "jack_client_internal_by_id e i") (auto simp: jack_client_internal_by_id_def)
  then show "jack_client_internal_by_id e i = Some c" using by_id_Some [OF x] i assms by (auto dest: inj_onD)
qed (use by_id_Some in blast)

definition ids_ok :: "jack_engine_t \<Rightarrow> cptr \<Rightarrow> bool" where
  "ids_ok e c \<longleftrightarrow> distinct (clients e) \<and> c \<in> set (clients e) \<and> inj_on (\<lambda>c. cl_id (cmem e c)) (set (clients e))"

lemma ids_ok_kept: "kept d e \<Longrightarrow> clients e = clients d \<Longrightarrow> ids_ok e c = ids_ok d c"
  by (simp add: ids_ok_def kept_client)

lemma hears_notification:
  assumes "hears e c" "ids_ok e c"
  shows "hears (fst (jack_send_connection_notification e i p q b)) c \<and>
    conn_events c (trace (fst (jack_send_connection_notification e i p q b))) =
      conn_events c (trace e) @ (if cl_id (cmem e c) = i then [(b, p, q)] else [])"
proof (cases "jack_client_internal_by_id e i")
  case None
  then have "cl_id (cmem e c) \<noteq> i" using by_id_iff [of c e i] assms(2) by (auto simp: ids_ok_def)
  then show ?thesis using None assms(1) by (simp add: jack_send_connection_notification_def)
next
  case (Some x)
  have xc: "x = c \<longleftrightarrow> cl_id (cmem e c) = i" using by_id_iff [of c e i] assms(2) Some by (auto simp: ids_ok_def)
  have ac: "active (cmem e c)" using assms(1) by (simp add: hears_def)
  show ?thesis
    using Some xc ac assms(1) hears_deliver [OF assms(1), of x]
    by (auto simp: jack_send_connection_notification_def Let_def case_prod_beta)
qed

definition heard :: "jack_engine_t \<Rightarrow> cptr \<Rightarrow> pidx \<Rightarrow> pidx \<Rightarrow> bool \<Rightarrow> (bool \<times> pidx \<times> pidx) list" where
  "heard e c src dst b =
     (let i = cl_id (cmem e c); s = p_client_id (ports e ! src); d = p_client_id (ports e ! dst)
      in (if i = s then [(b, src, dst)] else []) @ (if i = d then [(b, dst, src)] else []) @
         (if i \<noteq> s \<and> i \<noteq> d \<and> port_connect_cbset (cmem e c) then [(b, src, dst)] else []))"

lemma kept_port_connect: "kept e e' \<Longrightarrow> port_connect_cbset (cmem e' c) = port_connect_cbset (cmem e c)"
  by (drule arg_cong [where f = "\<lambda>x. port_connect_cbset (cmem x c)", OF kept_def [THEN iffD1]]) (simp add: aside_def client_aside_def)

lemma heard_kept: "kept e e' \<Longrightarrow> src < length (ports e) \<Longrightarrow> dst < length (ports e) \<Longrightarrow> heard e' c src dst b = heard e c src dst b"
  by (simp add: heard_def kept_client kept_port kept_port_connect)

lemma hears_notify:
  assumes h: "hears e c" and i: "ids_ok e c"
  shows "hears (notify_connection e src dst b) c \<and>
    conn_events c (trace (notify_connection e src dst b)) = conn_events c (trace e) @ heard e c src dst b"
proof -
  let ?s = "p_client_id (ports e ! src)" and ?d = "p_client_id (ports e ! dst)"
  define e1 where "e1 = fst (jack_send_connection_notification e ?s src dst b)"
  define e2 where "e2 = fst (jack_send_connection_notification e1 ?d dst src b)"
  have k1: "kept e e1" "same_graph e e1" unfolding e1_def by (rule kept_notification same_graph_notification; simp)+
  have k2: "kept e e2" "same_graph e e2" unfolding e2_def by (rule kept_notification [OF k1(1)] same_graph_notification [OF k1(2)])+
  have 1: "hears e1 c" "conn_events c (trace e1) = conn_events c (trace e) @ (if cl_id (cmem e c) = ?s then [(b, src, dst)] else [])"
    using hears_notification [OF h i, of ?s src dst b] by (simp_all add: e1_def)
  have i1: "ids_ok e1 c" using i ids_ok_kept [OF k1(1)] k1(2) by (simp add: same_graph_def)
  have 2: "hears e2 c" "conn_events c (trace e2) = conn_events c (trace e1) @ (if cl_id (cmem e c) = ?d then [(b, dst, src)] else [])"
    using hears_notification [OF 1(1) i1, of ?d dst src b] kept_client(1) [OF k1(1)] by (simp_all add: e2_def)
  have i2: "ids_ok e2 c" using i ids_ok_kept [OF k2(1)] k2(2) by (simp add: same_graph_def)
  define cs where "cs = filter (\<lambda>c. jack_client_internal_by_id e2 ?s \<noteq> Some c \<and> jack_client_internal_by_id e2 ?d \<noteq> Some c \<and> port_connect_cbset (cmem e2 c)) (clients e2)"
  have "distinct cs" using i2 by (simp add: ids_ok_def cs_def)
  note 3 = hears_deliver_each [OF 2(1) this, of b src dst]
  have "jack_client_internal_by_id e2 n = Some c \<longleftrightarrow> cl_id (cmem e c) = n" for n
    using i2 by_id_iff [of c e2 n] kept_client(1) [OF k2(1)] by (simp add: ids_ok_def)
  moreover note kept_port_connect [OF k2(1), of c]
  ultimately have "c \<in> set cs \<longleftrightarrow> cl_id (cmem e c) \<noteq> ?s \<and> cl_id (cmem e c) \<noteq> ?d \<and> port_connect_cbset (cmem e c)"
    using i2 by (auto simp: ids_ok_def cs_def)
  moreover have "notify_connection e src dst b = deliver_each e2 cs (connection_event b src dst)"
    by (simp add: notify_connection_def Let_def jack_notify_all_port_interested_clients_def cs_def e1_def e2_def)
  ultimately show ?thesis using 1 2 3 by (simp add: heard_def)
qed

end
