(* ===== verification/Client_Mirror.thy ===== *)
theory Client_Mirror
  imports Client_Events
begin

text \<open>
  Server and client library together: the server tells a client about every connection of its ports, and
  the client keeps lists of its own. These lists are the ones of the server, so that a client's input
  port gets its data from the output ports that the server has connected it to.
\<close>

section \<open>The client's lists\<close>

type_synonym conn_event = "bool \<times> pidx \<times> pidx"

fun handle_all :: "jack_engine_t \<Rightarrow> jack_client_t \<Rightarrow> conn_event list \<Rightarrow> (jack_engine_t \<times> jack_client_t) c_result" where
  "handle_all e cl [] = Value (e, cl)"
| "handle_all e cl ((b, p, q) # evs) =
     c_bind (jack_client_handle_port_connection e cl b p q) (\<lambda>(e1, cl1). handle_all e1 cl1 evs)"

text \<open>The lists as the events say they should be.\<close>

fun apply_event :: "conn_event \<Rightarrow> (pidx \<Rightarrow> pidx list) \<Rightarrow> pidx \<Rightarrow> pidx list" where
  "apply_event (b, p, q) N = N(p := (if b then q # N p else remove1 q (N p)))"

definition own :: "jack_engine_t \<Rightarrow> jack_client_t \<Rightarrow> pidx \<Rightarrow> bool" where
  "own e cl p \<longleftrightarrow> p < length (ports e) \<and> p_client_id (ports e ! p) = client_id cl"

definition port_ok :: "jack_engine_t \<Rightarrow> pidx list \<Rightarrow> pidx \<Rightarrow> port \<Rightarrow> bool" where
  "port_ok e ns p q \<longleftrightarrow> type_info q = ptype_id (ports e ! p) \<and> segment q = ptype_id (ports e ! p) \<and> map peer_id (peers q) = ns \<and>
     (\<forall>x \<in> set (peers q). peer_segment x = ptype_id (ports e ! peer_id x)) \<and>
     (flag_set (p_flags (ports e ! p)) JackPortIsInput \<longrightarrow>
        (\<forall>x \<in> set ns. is_output e x) \<and> (1 < length ns \<longrightarrow> mix_buffer q \<noteq> None) \<and>
        (mix_buffer q \<noteq> None \<longrightarrow> mix_buffer q = Some (buffer_bytes e (type_info q))))"

definition lists_ok :: "jack_engine_t \<Rightarrow> jack_client_t \<Rightarrow> (pidx \<Rightarrow> pidx list) \<Rightarrow> bool" where
  "lists_ok e cl N \<longleftrightarrow> (\<forall>p. own e cl p \<longrightarrow>
     (\<exists>i. own_port (client_ports cl) 0 p = Some i \<and> port_ok e (N p) p (client_ports cl ! i)))"

definition event_fits :: "jack_engine_t \<Rightarrow> jack_client_t \<Rightarrow> conn_event \<Rightarrow> bool" where
  "event_fits e cl ev \<longleftrightarrow> (case ev of (b, p, q) \<Rightarrow> p < length (ports e) \<and> q < length (ports e) \<and>
     (own e cl p \<or> \<not> own e cl q) \<and> (b \<longrightarrow> flag_set (p_flags (ports e ! p)) JackPortIsInput \<longrightarrow> is_output e q))"

definition mixdown_ok :: "jack_engine_t \<Rightarrow> bool" where
  "mixdown_ok e \<longleftrightarrow> (\<forall>p < length (ports e). has_mixdown (ports e ! p) = jack_get_port_functions (ptype_id (ports e ! p)))"

lemma own_port_Some: "own_port ps k p = Some i \<Longrightarrow> k \<le> i \<and> i < k + length ps \<and> shared (ps ! (i - k)) = p"
proof (induction ps arbitrary: k)
  case (Cons x ps)
  show ?case
  proof (cases "shared x = p")
    case False
    then have "own_port ps (Suc k) p = Some i" using Cons.prems by simp
    note r = Cons.IH [OF this]
    then obtain n where "i = Suc k + n" by (metis le_iff_add)
    then show ?thesis using r by simp
  qed (use Cons.prems in auto)
qed simp

lemma own_port_cong: "map shared ps' = map shared ps \<Longrightarrow> own_port ps' k p = own_port ps k p"
proof (induction ps' arbitrary: ps k)
  case (Cons x ps')
  then show ?case by (cases ps) auto
qed simp

lemma port_new_same:
  assumes "mixdown_ok e" "q < length (ports e)"
  shows "jack_port_new e cl q = Value (e, \<lparr>shared = q, type_info = ptype_id (ports e ! q), segment = ptype_id (ports e ! q), mix_buffer = None, peers = []\<rparr>)"
proof -
  have "has_mixdown (ports e ! q) = jack_get_port_functions (ptype_id (ports e ! q))" using assms by (simp add: mixdown_ok_def)
  then have "(ports e ! q)\<lparr>has_mixdown := jack_get_port_functions (ptype_id (ports e ! q))\<rparr> = ports e ! q" by simp
  then have "upd_port q (\<lambda>r. r\<lparr>has_mixdown := jack_get_port_functions (ptype_id (ports e ! q))\<rparr>) e = e"
    by (simp add: upd_port_def)
  then show ?thesis using assms(2) by (simp add: jack_port_new_def Let_def)
qed

lemma drop_peer_ids: "map peer_id (drop_peer q qs) = remove1 q (map peer_id qs)"
  by (induction qs) auto

lemma drop_peer_subset: "set (drop_peer q qs) \<subseteq> set qs"
  by (induction qs) auto

lemma call_if_simps [simp]: "client_ports (call_if b x cl) = client_ports cl" "client_id (call_if b x cl) = client_id cl"
  by (simp_all add: call_if_def call_def)

lemma lists_ok_call [simp]: "lists_ok e (call_if b x cl) N = lists_ok e cl N"
  by (simp add: lists_ok_def own_def)

text \<open>An update of one of the client's ports.\<close>

lemma lists_ok_update:
  assumes ok: "lists_ok e cl N" and p: "own e cl p" and i: "own_port (client_ports cl) 0 p = Some i"
    and sh: "\<And>q. shared (f q) = shared q" and new: "port_ok e ns p (f (client_ports cl ! i))"
  shows "lists_ok e (upd_own i f cl) (N(p := ns))"
  unfolding lists_ok_def
proof (intro allI impI)
  fix p' assume "own e (upd_own i f cl) p'"
  then have o: "own e cl p'" by (simp add: own_def upd_own_def)
  then obtain j where j: "own_port (client_ports cl) 0 p' = Some j" "port_ok e (N p') p' (client_ports cl ! j)"
    using ok by (auto simp: lists_ok_def)
  have "map shared (client_ports (upd_own i f cl)) = map shared (client_ports cl)"
    by (cases "i < length (client_ports cl)") (auto simp: upd_own_def sh list_eq_iff_nth_eq nth_list_update)
  then have op: "own_port (client_ports (upd_own i f cl)) 0 p' = Some j" using j(1) own_port_cong by metis
  have l: "i < length (client_ports cl)" "shared (client_ports cl ! i) = p" using own_port_Some [OF i] by auto
  have "port_ok e ((N(p := ns)) p') p' (client_ports (upd_own i f cl) ! j)"
  proof (cases "p' = p")
    case True
    then show ?thesis using i j(1) l new by (simp add: upd_own_def)
  next
    case False
    then have "j \<noteq> i" using own_port_Some [OF j(1)] l(2) by auto
    then show ?thesis using j(2) False by (simp add: upd_own_def)
  qed
  then show "\<exists>i'. own_port (client_ports (upd_own i f cl)) 0 p' = Some i' \<and> port_ok e ((N(p := ns)) p') p' (client_ports (upd_own i f cl) ! i')"
    using op by blast
qed

lemma handle_event:
  assumes ok: "lists_ok e cl N" and m: "mixdown_ok e" and ev: "event_fits e cl (b, p, q)"
  shows "\<exists>cl'. jack_client_handle_port_connection e cl b p q = Value (e, cl') \<and> lists_ok e cl' (apply_event (b, p, q) N) \<and> client_id cl' = client_id cl"
proof -
  have l: "p < length (ports e)" "q < length (ports e)" "own e cl p \<or> \<not> own e cl q" using ev by (simp_all add: event_fits_def)
  show ?thesis
  proof (cases "own e cl p")
    case True
    then obtain i where i: "own_port (client_ports cl) 0 p = Some i" "port_ok e (N p) p (client_ports cl ! i)" using ok by (auto simp: lists_ok_def)
    have sh: "shared (client_ports cl ! i) = p" using own_port_Some [OF i(1)] by simp
    have pid: "p_client_id (ports e ! p) = client_id cl" using True by (simp add: own_def)
    have by_id: "jack_port_by_id_int e cl p = Value (e, Own i)" using i(1) by (simp add: jack_port_by_id_int_def)
    let ?q = "\<lparr>peer_id = q, peer_segment = ptype_id (ports e ! q)\<rparr>"
    let ?f = "if b then add_peer e ?q else (\<lambda>x. x\<lparr>peers := drop_peer q (peers x)\<rparr>)"
    have "jack_client_handle_port_connection e cl b p q =
        Value (e, call_if (cbset (upd_own i ?f cl) CbPortConnect) (CallPortConnect p q b) (upd_own i ?f cl))"
      using l pid by_id port_new_same [OF m l(2), of cl]
      by (simp add: jack_client_handle_port_connection_def connect_own_def disconnect_own_def peer_of_def)
    moreover have "port_ok e (if b then q # N p else remove1 q (N p)) p (?f (client_ports cl ! i))"
    proof (cases b)
      case True
      then show ?thesis using i(2) ev l sh
        by (auto simp: port_ok_def add_peer_def jack_slist_prepend_def event_fits_def Let_def)
    next
      case False
      have "length (remove1 q (N p)) \<le> length (N p)" by (simp add: length_remove1)
      then show ?thesis using i(2) False set_remove1_subset [of q "N p"] drop_peer_subset [of q "peers (client_ports cl ! i)"]
        by (auto simp: port_ok_def drop_peer_ids)
    qed
    then have "lists_ok e (upd_own i ?f cl) (N(p := (if b then q # N p else remove1 q (N p))))"
      by (intro lists_ok_update [OF ok True i(1)]) (auto simp: add_peer_def Let_def)
    ultimately show ?thesis by (simp add: upd_own_def [of i ?f cl])
  next
    case False
    then have "\<not> own e cl q" using l(3) by blast
    then have "jack_client_handle_port_connection e cl b p q = Value (e, call_if (cbset cl CbPortConnect) (CallPortConnect p q b) cl)"
      using False l by (simp add: jack_client_handle_port_connection_def own_def)
    moreover have "lists_ok e cl (apply_event (b, p, q) N)" using ok False unfolding lists_ok_def by (auto split: if_splits)
    ultimately show ?thesis by simp
  qed
qed

section \<open>The server's lists\<close>

definition far_end :: "jack_engine_t \<Rightarrow> pidx \<Rightarrow> kptr \<Rightarrow> pidx" where
  "far_end e p k = (if source (conns e k) = p then destination (conns e k) else source (conns e k))"

definition neighbours :: "jack_engine_t \<Rightarrow> pidx \<Rightarrow> pidx list" where
  "neighbours e p = map (far_end e p) (connections (ports e ! p))"

fun apply_at :: "pidx \<Rightarrow> conn_event \<Rightarrow> pidx list \<Rightarrow> pidx list" where
  "apply_at p (b, a, x) ns = (if a = p then (if b then x # ns else remove1 x ns) else ns)"

lemma fold_apply: "fold apply_event evs N p = fold (apply_at p) evs (N p)"
proof (induction evs arbitrary: N)
  case (Cons ev evs)
  have "apply_event ev N p = apply_at p ev (N p)" by (cases ev) auto
  then show ?case using Cons by simp
qed simp

text \<open>What client \<open>c\<close> is told in a step of the server accounts for the changes at its ports.\<close>

definition tells :: "cptr \<Rightarrow> jack_engine_t \<Rightarrow> jack_engine_t \<Rightarrow> bool" where
  "tells c e e' \<longleftrightarrow> hears e' c \<and> ids_ok e' c \<and> kept e e' \<and>
     (\<exists>evs. conn_events c (trace e') = conn_events c (trace e) @ evs \<and>
        (\<forall>cl. client_id cl = cl_id (cmem e c) \<longrightarrow> (\<forall>ev \<in> set evs. event_fits e cl ev)) \<and>
        (\<forall>p < length (ports e). p_client_id (ports e ! p) = cl_id (cmem e c) \<longrightarrow>
           neighbours e' p = fold (apply_at p) evs (neighbours e p)))"

lemma kept_own: "kept e e' \<Longrightarrow> own e' cl p = own e cl p"
  by (cases "p < length (ports e)") (simp_all add: own_def kept_engine kept_port)

lemma kept_output: "kept e e' \<Longrightarrow> p < length (ports e) \<Longrightarrow> is_output e' p = is_output e p"
  by (simp add: is_output_def kept_port)

lemma kept_fits: "kept e e' \<Longrightarrow> event_fits e' cl ev = event_fits e cl ev"
  by (cases ev) (auto simp: event_fits_def kept_own kept_output kept_engine kept_port)

lemma tells_trans:
  assumes "tells c a b" "tells c b d"
  shows "tells c a d"
proof -
  obtain evs where 1: "conn_events c (trace b) = conn_events c (trace a) @ evs"
    "\<forall>cl. client_id cl = cl_id (cmem a c) \<longrightarrow> (\<forall>ev \<in> set evs. event_fits a cl ev)"
    "\<forall>p < length (ports a). p_client_id (ports a ! p) = cl_id (cmem a c) \<longrightarrow> neighbours b p = fold (apply_at p) evs (neighbours a p)"
    using assms(1) unfolding tells_def by blast
  obtain evs' where 2: "conn_events c (trace d) = conn_events c (trace b) @ evs'"
    "\<forall>cl. client_id cl = cl_id (cmem b c) \<longrightarrow> (\<forall>ev \<in> set evs'. event_fits b cl ev)"
    "\<forall>p < length (ports b). p_client_id (ports b ! p) = cl_id (cmem b c) \<longrightarrow> neighbours d p = fold (apply_at p) evs' (neighbours b p)"
    using assms(2) unfolding tells_def by blast
  have k: "kept a b" "kept b d" "hears d c" "ids_ok d c" using assms by (auto simp: tells_def)
  have "\<forall>cl. client_id cl = cl_id (cmem a c) \<longrightarrow> (\<forall>ev \<in> set (evs @ evs'). event_fits a cl ev)"
    using 1(2) 2(2) kept_fits [OF k(1)] kept_client(1) [OF k(1)] by auto
  moreover have "\<forall>p < length (ports a). p_client_id (ports a ! p) = cl_id (cmem a c) \<longrightarrow>
      neighbours d p = fold (apply_at p) (evs @ evs') (neighbours a p)"
    using 1(3) 2(3) kept_engine(1) [OF k(1)] kept_client(1) [OF k(1)] by (simp add: kept_port [OF k(1)])
  ultimately show ?thesis using k(3,4) kept_trans [OF k(1,2)] 1(1) 2(1) unfolding tells_def by (metis append.assoc)
qed

lemma neighbours_keeps: "keeps_links e e' \<Longrightarrow> p < length (ports e) \<Longrightarrow> neighbours e' p = neighbours e p"
proof -
  assume a: "keeps_links e e'" "p < length (ports e)"
  have m: "map port_core (ports e') = map port_core (ports e)" using a(1) by (simp add: keeps_links_def)
  then have "length (ports e') = length (ports e)" by (metis length_map)
  then have "port_core (ports e' ! p) = port_core (ports e ! p)" using a(2) arg_cong [OF m, of "\<lambda>l. l ! p"] by simp
  then have "connections (ports e' ! p) = connections (ports e ! p)" by (metis port_core_simps(1))
  then show ?thesis using a(1) by (simp add: neighbours_def far_end_def keeps_links_def)
qed

lemma core_keeps: "core e' = core e \<Longrightarrow> keeps_links e e'"
  by (simp add: keeps_links_def) (metis core_simps(3,4))

lemma tells_quietly:
  assumes "calm c e e'" "ids_ok e c" "mset (clients e') = mset (clients e)" "keeps_links e e'"
  shows "tells c e e'"
proof -
  have k: "kept e e'" by (rule calm_kept [OF assms(1)])
  have s: "set (clients e') = set (clients e)" "distinct (clients e') = distinct (clients e)"
    using assms(3) by (metis set_mset_mset, metis mset_eq_imp_distinct_iff)
  have i: "ids_ok e' c" using assms(2) s by (simp add: ids_ok_def kept_client [OF k])
  then have "hears e' c" using hears_calm [OF assms(1)] by (simp add: ids_ok_def)
  then show ?thesis using i k assms(1,4) neighbours_keeps by (auto simp: tells_def calm_def intro!: exI [of _ "[]"])
qed

lemma tells_sort:
  assumes "graph_inv e" "hears e c" "ids_ok e c" "jack_sort_graph e = Value e'"
  shows "tells c e e'"
  using sort_graph_Value [OF assms(1)] assms(4) calm_sort_graph [OF assms(4) calm_refl [OF assms(2)]]
  by (intro tells_quietly assms(3)) (auto simp: core_keeps)

lemma tells_check:
  assumes "graph_inv e" "hears e c" "ids_ok e c" "jack_check_acyclic e = Value e'"
  shows "tells c e e'"
  using check_acyclic_cases [OF assms(1)] assms(4) calm_check_acyclic [OF assms(4) calm_refl [OF assms(2)]]
  by (intro tells_quietly assms(3)) auto

lemma neighbours_link:
  assumes g: "core e' = g_link con (g_feed con (core e))" "graph_inv e" "link_ok (core e) con" and p: "p < length (ports e)"
  shows "neighbours e' p =
    (if p = source con then destination con # neighbours e p
     else if p = destination con then source con # neighbours e p else neighbours e p)"
proof -
  let ?k = "next_kptr e"
  have sd: "source con \<noteq> destination con" using g(3) by (simp add: link_ok_def Let_def)
  have l: "length (ports e') = length (ports e)" using arg_cong [OF g(1), of "\<lambda>g. length (g_ports g)"] by simp
  have c: "conns e' = (conns e)(?k := con)" using arg_cong [OF g(1), of g_conns] by (simp add: g_link_def Let_def)
  have "port_core (ports e' ! p) = g_ports (g_link con (g_feed con (core e))) ! p"
    using arg_cong [OF g(1), of "\<lambda>g. g_ports g ! p"] p l by simp
  then have "connections (ports e' ! p) = (if p = source con \<or> p = destination con then ?k # connections (ports e ! p) else connections (ports e ! p))"
    using g_link_port [OF sd, of p "g_feed con (core e)"] p by (metis (no_types, lifting) core_simps(3,5) g_feed_frame(3,5) gport.select_convs(1) gport.surjective gport.update_convs(1) length_map nth_map port_core_simps(1))
  moreover have "far_end e' p k = far_end e p k" if "k \<in> set (connections (ports e ! p))" for k
  proof -
    have "k \<in> live (core e)" using that p by (auto simp: live_nth)
    then have "k < ?k" using live_fresh [of "core e" k] g(2) by (simp add: graph_inv_def ginv_def)
    then show ?thesis by (simp add: far_end_def c)
  qed
  moreover have "far_end e' (source con) ?k = destination con" "far_end e' (destination con) ?k = source con"
    using sd by (auto simp: far_end_def c)
  ultimately show ?thesis by (auto simp: neighbours_def)
qed

text \<open>Owner and third parties: the events that a new or broken link gives rise to.\<close>

lemma heard_apply:
  assumes "src \<noteq> dst" "p_client_id (ports e ! p) = cl_id (cmem e c)"
  shows "fold (apply_at p) (heard e c src dst b) ns =
    (if p = src then (if b then dst # ns else remove1 dst ns)
     else if p = dst then (if b then src # ns else remove1 src ns) else ns)"
  using assms by (auto simp: heard_def Let_def)

lemma heard_fits:
  assumes "src < length (ports e)" "dst < length (ports e)" "client_id cl = cl_id (cmem e c)"
    "b \<longrightarrow> is_output e src \<and> \<not> flag_set (p_flags (ports e ! src)) JackPortIsInput" "ev \<in> set (heard e c src dst b)"
  shows "event_fits e cl ev"
  using assms by (auto simp: heard_def event_fits_def own_def Let_def split: if_splits)

lemma tells_connect:
  assumes inv: "graph_inv e" and h: "hears e c" and i: "ids_ok e c" and r: "jack_port_do_connect e s d = Value (e', rc)"
  shows "tells c e e'"
proof (cases "connect_checks e s d")
  case (Inl err)
  then have "e' = e" using r by (simp add: jack_port_do_connect_def)
  then show ?thesis using tells_quietly [OF calm_refl [OF h] i] by (simp add: core_keeps)
next
  case (Inr a)
  obtain src dst sc dc where a: "a = (src, dst, sc, dc)" by (cases a)
  note chk = connect_checks_Inr [OF Inr [unfolded a]]
  have p: "src < length (ports e)" "dst < length (ports e)" "in_use (ports e ! src)" using by_name_Some chk(1,2) by auto
  have cl: "sc \<in> set (clients e)" "dc \<in> set (clients e)" using by_id_Some chk(6,7) by auto
  obtain e1 v where f: "feed_clients e sc dc = Value (e1, v)" "clients e1 = clients e" using feed_clients_core [OF inv cl] by blast
  define con where "con = \<lparr>source = src, destination = dst, srcclient = sc, dstclient = dc, dir = v\<rparr>"
  define e2 where "e2 = link_ports e1 con"
  define e3 where "e3 = notify_connection e2 src dst True"
  have s: "jack_sort_graph e3 = Value e'"
    using r Inr a f(1) by (auto simp: jack_port_do_connect_def c_map_Value con_def e2_def e3_def Let_def)
  have c2: "calm c e e2" unfolding e2_def link_ports_def Let_def using calm_feed_clients [OF f(1) calm_refl [OF h]] by (intro calm_frame)
  have cl2: "clients e2 = clients e" using f(2) by (simp add: e2_def link_ports_def Let_def upd_port_def)
  have h2: "hears e2 c" using hears_calm [OF c2] i cl2 by (simp add: ids_ok_def)
  have i2: "ids_ok e2 c" using i ids_ok_kept [OF calm_kept [OF c2] cl2] by simp
  have h3: "hears e3 c" "conn_events c (trace e3) = conn_events c (trace e) @ heard e c src dst True"
    using hears_notify [OF h2 i2, of src dst True] c2 heard_kept [OF calm_kept [OF c2] p(1,2)] by (auto simp: e3_def calm_def)
  have c4: "calm c e3 e'" using calm_sort_graph [OF s calm_refl [OF h3(1)]] .
  obtain con' where g: "core e' = g_link con' (g_feed con' (core e))" "link_ok (core e) con'" "source con' = src" "destination con' = dst"
    and ms: "mset (clients e') = mset (clients e)"
    using connect_Value [OF inv Inr [unfolded a]] r by auto
  have sd: "src \<noteq> dst" using g(2-) by (auto simp: link_ok_def Let_def)
  have k: "kept e e'" by (rule kept_connect [OF r]) simp
  have sc: "set (clients e') = set (clients e)" "distinct (clients e') = distinct (clients e)"
    using ms by (metis set_mset_mset, metis mset_eq_imp_distinct_iff)
  have i4: "ids_ok e' c" using i sc by (simp add: ids_ok_def kept_client [OF k])
  have "\<not> flag_set (p_flags (ports e ! src)) JackPortIsInput"
    using inv p chk(3) by (auto simp: graph_inv_def ginv_def gbooks_def ports_ok_def)
  then have "\<forall>cl. client_id cl = cl_id (cmem e c) \<longrightarrow> (\<forall>ev \<in> set (heard e c src dst True). event_fits e cl ev)"
    using heard_fits [OF p(1,2)] chk(3) by (auto simp: is_output_def)
  moreover have "\<forall>p < length (ports e). p_client_id (ports e ! p) = cl_id (cmem e c) \<longrightarrow>
      neighbours e' p = fold (apply_at p) (heard e c src dst True) (neighbours e p)"
    using neighbours_link [OF g(1) inv g(2)] g(3,4) heard_apply [OF sd] by simp
  moreover have "hears e' c" using hears_calm [OF c4] i4 by (simp add: ids_ok_def)
  moreover have "conn_events c (trace e') = conn_events c (trace e) @ heard e c src dst True" using c4 h3(2) by (simp add: calm_def)
  ultimately show ?thesis using i4 k unfolding tells_def by blast
qed

section \<open>Breaking connections\<close>

text \<open>Links lead from output ports to input ports.\<close>

definition directed :: "jack_engine_t \<Rightarrow> bool" where
  "directed e \<longleftrightarrow> (\<forall>(a, b) \<in> links e. is_output e a \<and> flag_set (p_flags (ports e ! b)) JackPortIsInput)"

lemma directed_subset:
  assumes "directed e" "kept e e'" "links e' \<subseteq> links e" "graph_inv e"
  shows "directed e'"
  unfolding directed_def
proof clarify
  fix a b assume "(a, b) \<in> links e'"
  then have l: "(a, b) \<in> links e" using assms(3) by blast
  note b = links_bounds(1,2) [OF assms(4) l]
  show "is_output e' a \<and> flag_set (p_flags (ports e' ! b)) JackPortIsInput"
    using assms(1) l kept_output [OF assms(2) b(1)] kept_port(3) [OF assms(2) b(2)] by (auto simp: directed_def)
qed

lemma far_end_inj:
  assumes inv: "graph_inv e" and d: "directed e" and p: "p < length (ports e)"
  shows "inj_on (far_end e p) (set (connections (ports e ! p)))"
proof (rule inj_onI)
  fix k k' assume k: "k \<in> set (connections (ports e ! p))" "k' \<in> set (connections (ports e ! p))" "far_end e p k = far_end e p k'"
  have g: "gbooks (core e)" using inv by (simp add: graph_inv_def ginv_def)
  have at: "source (conns e j) = p \<or> destination (conns e j) = p" "j \<in> live (core e)" "link_ok (core e) (conns e j)"
    "is_output e (source (conns e j))" "flag_set (p_flags (ports e ! destination (conns e j))) JackPortIsInput"
    if "j \<in> set (connections (ports e ! p))" for j
  proof -
    show "source (conns e j) = p \<or> destination (conns e j) = p" using g that p by (auto simp: gbooks_def ports_ok_def)
    show l: "j \<in> live (core e)" using that p by (auto simp: live_nth)
    then show "link_ok (core e) (conns e j)" using g by (auto simp: gbooks_def conn_ok_def)
    have "(source (conns e j), destination (conns e j)) \<in> links e" using l by (auto simp: links_def ends_def)
    then show "is_output e (source (conns e j))" "flag_set (p_flags (ports e ! destination (conns e j))) JackPortIsInput"
      using d by (auto simp: directed_def)
  qed
  have "in_use (ports e ! p)" using at(1,3) [OF k(1)] by (auto simp: link_ok_def Let_def)
  then have one: "\<not> (flag_set (p_flags (ports e ! p)) JackPortIsInput \<and> is_output e p)"
    using g p by (auto simp: gbooks_def ports_ok_def is_output_def)
  have "source (conns e k) = source (conns e k') \<and> destination (conns e k) = destination (conns e k')"
    using at [OF k(1)] at [OF k(2)] k(3) one by (auto simp: far_end_def split: if_splits)
  then show "k = k'" using g at(2) [OF k(1)] at(2) [OF k(2)] by (auto simp: gbooks_def single_connections_def)
qed

lemma map_remove1_inj: "inj_on f (insert k (set ks)) \<Longrightarrow> map f (remove1 k ks) = remove1 (f k) (map f ks)"
  by (induction ks) (auto simp: inj_on_def)

lemma neighbours_unlink:
  assumes g: "core e' = g_unfeed (conns e k) (g_unlink k (core e))" and inv: "graph_inv e" "directed e" and k: "k \<in> live (core e)"
    and p: "p < length (ports e)"
  shows "neighbours e' p =
    (if p = source (conns e k) then remove1 (destination (conns e k)) (neighbours e p)
     else if p = destination (conns e k) then remove1 (source (conns e k)) (neighbours e p) else neighbours e p)"
proof -
  have b: "gbooks (core e)" using inv(1) by (simp add: graph_inv_def ginv_def)
  have ok: "conn_ok (core e) k" using b k by (simp add: gbooks_def)
  have l: "length (ports e') = length (ports e)" using arg_cong [OF g, of "\<lambda>g. length (g_ports g)"] by simp
  have c: "conns e' = conns e" using arg_cong [OF g, of g_conns] by simp
  have "port_core (ports e' ! p) = g_ports (g_unlink k (core e)) ! p" using arg_cong [OF g, of "\<lambda>g. g_ports g ! p"] p l by simp
  then have "port_core (ports e' ! p) = (port_core (ports e ! p))\<lparr>gp_conns := remove1 k (connections (ports e ! p))\<rparr>"
    using g_unlink_port [OF b k, of p] p by simp
  from arg_cong [OF this, of gp_conns] have r: "connections (ports e' ! p) = remove1 k (connections (ports e ! p))" by simp
  have fe: "far_end e' p = far_end e p" by (simp add: far_end_def c fun_eq_iff)
  show ?thesis
  proof (cases "k \<in> set (connections (ports e ! p))")
    case True
    then have "inj_on (far_end e p) (insert k (set (connections (ports e ! p))))"
      using far_end_inj [OF inv p] by (simp add: insert_absorb)
    moreover have "source (conns e k) = p \<or> destination (conns e k) = p" using b True p by (auto simp: gbooks_def ports_ok_def)
    moreover have "neighbours e' p = remove1 (far_end e p k) (neighbours e p)"
      unfolding neighbours_def r fe by (rule map_remove1_inj) fact
    ultimately show ?thesis by (auto simp: far_end_def)
  next
    case False
    then have "p \<noteq> source (conns e k)" "p \<noteq> destination (conns e k)" using ok p by (auto simp: conn_ok_def)
    then show ?thesis using False by (simp add: neighbours_def r fe remove1_idem)
  qed
qed

lemma tells_break:
  assumes inv: "graph_inv e" "directed e" and h: "hears e c" and i: "ids_ok e c" and src: "src < length (ports e)"
    and r: "break_connection e src dst = Value (e', rc)"
  shows "tells c e e'"
proof (cases "find_connection e src dst")
  case None
  then have "e' = e" using r by (simp add: break_connection_def)
  then show ?thesis using tells_quietly [OF calm_refl [OF h] i] by (simp add: core_keeps)
next
  case (Some k)
  note sd = find_connection_Some [OF Some]
  have g: "core e' = g_unfeed (conns e k) (g_unlink k (core e))" "clients e' = clients e" "k \<in> live (core e)"
    using break_Value [OF inv(1) Some src] r by auto
  have lk: "link_ok (core e) (conns e k)" using inv(1) g(3) by (auto simp: graph_inv_def ginv_def gbooks_def conn_ok_def)
  then have dst: "dst < length (ports e)" "src \<noteq> dst" using sd by (auto simp: link_ok_def Let_def)
  define e1 where "e1 = unlink_ports e src dst k"
  define e2 where "e2 = notify_connection e1 src dst False"
  have u: "unfeed_clients e2 src dst (dir (conns e k)) = Value e'"
    using r Some by (auto simp: break_connection_def c_map_Value e1_def e2_def Let_def)
  have c1: "calm c e e1" unfolding e1_def unlink_ports_def Let_def using calm_refl [OF h] by (intro calm_frame)
  have cl1: "clients e1 = clients e" by (simp add: e1_def unlink_ports_def Let_def upd_port_def)
  have h1: "hears e1 c" using hears_calm [OF c1] i cl1 by (simp add: ids_ok_def)
  have i1: "ids_ok e1 c" using i ids_ok_kept [OF calm_kept [OF c1] cl1] by simp
  have h2: "hears e2 c" "conn_events c (trace e2) = conn_events c (trace e) @ heard e c src dst False"
    using hears_notify [OF h1 i1, of src dst False] c1 heard_kept [OF calm_kept [OF c1] src dst(1)] by (auto simp: e2_def calm_def)
  have c3: "calm c e2 e'" by (rule calm_unfeed [OF u calm_refl [OF h2(1)]])
  have k12: "kept e e2" unfolding e2_def by (rule kept_notify_connection [OF calm_kept [OF c1]])
  have k: "kept e e'" using kept_trans [OF k12 calm_kept [OF c3]] .
  have i3: "ids_ok e' c" using i ids_ok_kept [OF k g(2)] by simp
  moreover have "\<forall>cl. client_id cl = cl_id (cmem e c) \<longrightarrow> (\<forall>ev \<in> set (heard e c src dst False). event_fits e cl ev)"
    by (intro allI impI ballI heard_fits [OF src dst(1)]) auto
  moreover have "\<forall>p < length (ports e). p_client_id (ports e ! p) = cl_id (cmem e c) \<longrightarrow>
      neighbours e' p = fold (apply_at p) (heard e c src dst False) (neighbours e p)"
    using neighbours_unlink [OF g(1) inv g(3)] sd heard_apply [OF dst(2)] by simp
  moreover have "hears e' c" using hears_calm [OF c3] i3 by (simp add: ids_ok_def)
  moreover have "conn_events c (trace e') = conn_events c (trace e) @ heard e c src dst False" using c3 h2(2) by (simp add: calm_def)
  ultimately show ?thesis using k unfolding tells_def by blast
qed

text \<open>What a step keeps for the next one.\<close>

definition in_touch :: "jack_engine_t \<Rightarrow> cptr \<Rightarrow> bool" where
  "in_touch e c \<longleftrightarrow> graph_inv e \<and> directed e \<and> hears e c \<and> ids_ok e c"

lemma tells_touch: "tells c e e' \<Longrightarrow> hears e' c \<and> ids_ok e' c \<and> kept e e'"
  by (simp add: tells_def)

lemma tells_disconnect:
  assumes t: "in_touch e c" and src: "src < length (ports e)" and r: "jack_port_disconnect_internal e src dst = Value (e', rc)"
  shows "tells c e e' \<and> in_touch e' c"
proof -
  have inv: "graph_inv e" "directed e" "hears e c" "ids_ok e c" using t by (simp_all add: in_touch_def)
  obtain e1 r1 where e1: "break_connection e src dst = Value (e1, r1)" "graph_inv e1" using break_inv [OF inv(1) src] by blast
  have t1: "tells c e e1" by (rule tells_break [OF inv src e1(1)])
  obtain e2 where e2: "(if feedbackcount e \<noteq> 0 then jack_check_acyclic e1 else Value e1) = Value e2" "jack_sort_graph e2 = Value e'"
    using r e1(1) by (auto simp: jack_port_disconnect_internal_def c_bind_Value c_map_Value)
  have h1: "hears e1 c" "ids_ok e1 c" using tells_touch [OF t1] by simp_all
  have t2: "tells c e1 e2" "graph_inv e2"
    using e2(1) tells_check [OF e1(2) h1] tells_quietly [OF calm_refl [OF h1(1)] h1(2)] check_acyclic_cases [OF e1(2)] e1(2)
    by (auto simp: core_keeps split: if_splits)
  have t3: "tells c e2 e'" using tells_sort [OF t2(2) _ _ e2(2)] tells_touch [OF t2(1)] by simp
  have t: "tells c e e'" using tells_trans [OF tells_trans [OF t1 t2(1)] t3] .
  have "graph_inv e'" "links e' \<subseteq> links e" using disconnect_Value [OF inv(1) src, of dst] r by auto
  then show ?thesis using t tells_touch [OF t] directed_subset [OF inv(2) _ _ inv(1)] by (simp add: in_touch_def)
qed

lemma tells_refl: "in_touch e c \<Longrightarrow> tells c e e"
  using tells_quietly [OF calm_refl] by (simp add: in_touch_def core_keeps)

lemma tells_clear_each:
  "in_touch e c \<Longrightarrow> (\<And>k. k \<in> set ks \<Longrightarrow> source (conns e k) < length (ports e)) \<Longrightarrow> clear_each e ks = Value e' \<Longrightarrow>
   tells c e e' \<and> in_touch e' c"
proof (induction ks arbitrary: e)
  case Nil
  then show ?case using tells_refl by simp
next
  case (Cons k ks)
  obtain e1 r where e1: "jack_port_disconnect_internal e (source (conns e k)) (destination (conns e k)) = Value (e1, r)" "clear_each e1 ks = Value e'"
    using Cons.prems(3) by (auto simp: c_bind_Value)
  have src: "source (conns e k) < length (ports e)" using Cons.prems(2) by simp
  have t: "tells c e e1" "in_touch e1 c" using tells_disconnect [OF Cons.prems(1) src e1(1)] by simp_all
  have en: "ends e1 = ends e" "length (ports e1) = length (ports e)"
    using disconnect_Value [of e, OF _ src, of "destination (conns e k)"] e1(1) Cons.prems(1) by (auto simp: in_touch_def)
  have "source (conns e1 j) = source (conns e j)" for j using fun_cong [OF en(1), of j] by (simp add: ends_def)
  then have "source (conns e1 j) < length (ports e1)" if "j \<in> set ks" for j using Cons.prems(2) that en(2) by simp
  then show ?case using Cons.IH [OF t(2) _ e1(2)] tells_trans [OF t(1)] by blast
qed

lemma clear_is_each:
  assumes inv: "graph_inv e" and p: "p < length (ports e)"
  shows "jack_port_clear_connections e p = clear_each e (connections (ports e ! p))"
    "\<And>k. k \<in> set (connections (ports e ! p)) \<Longrightarrow> source (conns e k) < length (ports e)"
proof -
  show src: "source (conns e k) < length (ports e)" if "k \<in> set (connections (ports e ! p))" for k
  proof -
    have "k \<in> live (core e)" using that p by (auto simp: live_nth)
    then have "conn_ok (core e) k" using inv by (simp add: graph_inv_def ginv_def gbooks_def)
    then show ?thesis by (simp add: conn_ok_def link_ok_def Let_def)
  qed
  from clear_each_Value [OF inv src] obtain e1 where e1: "clear_each e (connections (ports e ! p)) = Value e1" "graph_inv e1"
    "links e1 = links e - ends e ` set (connections (ports e ! p))" "length (ports e1) = length (ports e)" by blast
  have "ends e1 ` set (connections (ports e1 ! p)) = {}" using e1 ends_at_port [OF e1(2), of p] ends_at_port [OF inv p] p by auto
  then have "(ports e1 ! p)\<lparr>connections := []\<rparr> = ports e1 ! p" by simp
  then have "upd_port p (\<lambda>r. r\<lparr>connections := []\<rparr>) e1 = e1" by (simp add: upd_port_def)
  then show "jack_port_clear_connections e p = clear_each e (connections (ports e ! p))"
    using e1(1) by (simp add: jack_port_clear_connections_def)
qed

lemma tells_step:
  assumes "graph_step e e'" "in_touch e c"
  shows "tells c e e' \<and> in_touch e' c"
  using assms(1)
proof cases
  case (connect s d r)
  have inv: "graph_inv e" "directed e" "hears e c" "ids_ok e c" using assms(2) by (simp_all add: in_touch_def)
  have t: "tells c e e'" by (rule tells_connect [OF inv(1,3,4) connect])
  have g: "graph_inv e'" using connect_keeps [OF inv(1), of s d] connect by simp
  have k: "kept e e'" using tells_touch [OF t] by simp
  have "directed e'"
  proof (cases "connect_checks e s d")
    case (Inl err)
    then show ?thesis using connect inv(2) by (simp add: jack_port_do_connect_def)
  next
    case (Inr a)
    obtain src dst sc dc where a: "a = (src, dst, sc, dc)" by (cases a)
    note chk = connect_checks_Inr [OF Inr [unfolded a]]
    have l: "links e' = insert (src, dst) (links e)" using connect_Value [OF inv(1) Inr [unfolded a]] connect by auto
    have b: "a < length (ports e) \<and> b < length (ports e)" if "(a, b) \<in> links e'" for a b
      using links_bounds [OF g that] kept_engine(1) [OF k] by simp
    show ?thesis using l inv(2) chk(3,4) b kept_output [OF k] kept_port(3) [OF k] by (fastforce simp: directed_def is_output_def)
  qed
  then show ?thesis using t g tells_touch [OF t] by (simp add: in_touch_def)
next
  case (disconnect s d r)
  then show ?thesis
    using tells_disconnect [OF assms(2)] tells_refl [OF assms(2)] assms(2) by_name_Some [of e s]
    by (auto simp: jack_port_do_disconnect_def split: option.splits)
next
  case (disconnect_all p r)
  show ?thesis
  proof (cases "p < length (ports e)")
    case True
    have inv: "graph_inv e" using assms(2) by (simp add: in_touch_def)
    obtain e1 where e1: "clear_each e (connections (ports e ! p)) = Value e1" "jack_sort_graph e1 = Value e'"
      using disconnect_all True clear_is_each(1) [OF inv True] by (auto simp: jack_port_do_disconnect_all_def c_bind_Value c_map_Value)
    have t1: "tells c e e1" "in_touch e1 c" using tells_clear_each [OF assms(2) clear_is_each(2) [OF inv True] e1(1)] by simp_all
    then have t1': "graph_inv e1" "directed e1" "hears e1 c" "ids_ok e1 c" by (simp_all add: in_touch_def)
    have t2: "tells c e1 e'" by (rule tells_sort [OF t1'(1,3,4) e1(2)])
    have "graph_inv e'" "core e' = core e1" using sort_graph_inv [OF t1'(1)] e1(2) by simp_all
    then have "graph_inv e'" "links e' = links e1" using links_core by blast+
    then have "in_touch e' c" using t1' tells_touch [OF t2] directed_subset [OF t1'(2) _ _ t1'(1)] by (simp add: in_touch_def)
    then show ?thesis using tells_trans [OF t1(1) t2] by simp
  next
    case False
    then have "e' = e" using disconnect_all by (simp add: jack_port_do_disconnect_all_def)
    then show ?thesis using tells_refl [OF assms(2)] assms(2) by simp
  qed
qed

section \<open>Server and client\<close>

text \<open>
  One request that the server serves, after which the client has handled the events it got. The
  server waits for the answer to each event, so the client is done before the next request.
\<close>

inductive served :: "cptr \<Rightarrow> jack_engine_t \<times> jack_client_t \<Rightarrow> jack_engine_t \<times> jack_client_t \<Rightarrow> bool" for c where
  serve: "graph_step e e1 \<Longrightarrow> conn_events c (trace e1) = conn_events c (trace e) @ evs \<Longrightarrow>
    handle_all e1 cl evs = Value (e', cl') \<Longrightarrow> served c (e, cl) (e', cl')"

inductive_cases served_elim: "served c (e, cl) (e', cl')"

lemma lists_ok_kept:
  assumes k: "kept e e'" and ok: "lists_ok e cl N" and b: "\<And>p x. own e cl p \<Longrightarrow> x \<in> set (N p) \<Longrightarrow> x < length (ports e)"
  shows "lists_ok e' cl N"
  unfolding lists_ok_def
proof (intro allI impI)
  fix p assume "own e' cl p"
  then have o: "own e cl p" by (simp add: kept_own [OF k])
  then obtain i where i: "own_port (client_ports cl) 0 p = Some i" "port_ok e (N p) p (client_ports cl ! i)" using ok by (auto simp: lists_ok_def)
  have p: "p < length (ports e)" using o by (simp add: own_def)
  have "map peer_id (peers (client_ports cl ! i)) = N p" using i(2) by (simp add: port_ok_def)
  then have "peer_id x \<in> set (N p)" if "x \<in> set (peers (client_ports cl ! i))" for x
    using that imageI [of x _ peer_id] by (metis set_map)
  then have "port_ok e' (N p) p (client_ports cl ! i)"
    using i(2) b [OF o] by (auto simp: port_ok_def kept_port [OF k] p kept_output [OF k] buffer_bytes_def kept_engine(2) [OF k])
  then show "\<exists>i. own_port (client_ports cl) 0 p = Some i \<and> port_ok e' (N p) p (client_ports cl ! i)" using i(1) by blast
qed

lemma mixdown_kept:
  assumes k: "kept e e'" and m: "mixdown_ok e"
  shows "mixdown_ok e'"
proof -
  have "has_mixdown (ports e' ! p) = has_mixdown (ports e ! p)" if "p < length (ports e)" for p
    using arg_cong [OF k [unfolded kept_def], of "\<lambda>x. has_mixdown (ports x ! p)"] that kept_engine(1) [OF k] by (simp add: aside_def port_aside_def)
  then show ?thesis using m kept_engine(1) [OF k] by (simp add: mixdown_ok_def kept_port [OF k])
qed

lemma handle_all_ok:
  "lists_ok e cl N \<Longrightarrow> mixdown_ok e \<Longrightarrow> (\<And>ev cl'. ev \<in> set evs \<Longrightarrow> client_id cl' = client_id cl \<Longrightarrow> event_fits e cl' ev) \<Longrightarrow>
   \<exists>cl'. handle_all e cl evs = Value (e, cl') \<and> lists_ok e cl' (fold apply_event evs N) \<and> client_id cl' = client_id cl"
proof (induction evs arbitrary: cl N)
  case (Cons ev evs)
  obtain b p q where ev: "ev = (b, p, q)" by (cases ev)
  have "event_fits e cl (b, p, q)" using Cons.prems(3) [of ev cl] by (simp add: ev)
  then obtain cl1 where 1: "jack_client_handle_port_connection e cl b p q = Value (e, cl1)" "lists_ok e cl1 (apply_event (b, p, q) N)" "client_id cl1 = client_id cl"
    using handle_event [OF Cons.prems(1,2)] by blast
  obtain cl2 where "handle_all e cl1 evs = Value (e, cl2)" "lists_ok e cl2 (fold apply_event evs (apply_event (b, p, q) N))" "client_id cl2 = client_id cl"
    using Cons.IH [OF 1(2) Cons.prems(2)] Cons.prems(3) 1(3) by (metis list.set_intros(2))
  then show ?case using 1(1) by (simp add: ev)
qed simp

lemma lists_ok_cong: "(\<And>p. own e cl p \<Longrightarrow> N p = M p) \<Longrightarrow> lists_ok e cl N = lists_ok e cl M"
  by (auto simp: lists_ok_def)

definition mirrored :: "cptr \<Rightarrow> jack_engine_t \<Rightarrow> jack_client_t \<Rightarrow> bool" where
  "mirrored c e cl \<longleftrightarrow> in_touch e c \<and> mixdown_ok e \<and> client_id cl = cl_id (cmem e c) \<and> lists_ok e cl (neighbours e)"

lemma neighbours_bound:
  assumes "graph_inv e" "p < length (ports e)" "x \<in> set (neighbours e p)"
  shows "x < length (ports e)"
proof -
  obtain k where k: "k \<in> set (connections (ports e ! p))" "x = far_end e p k" using assms(3) by (auto simp: neighbours_def)
  then have "k \<in> live (core e)" using assms(2) by (auto simp: live_nth)
  then have "link_ok (core e) (conns e k)" using assms(1) by (auto simp: graph_inv_def ginv_def gbooks_def conn_ok_def)
  then show ?thesis using k(2) by (auto simp: link_ok_def Let_def far_end_def)
qed

text \<open>A request, whatever it is, can be served, and the client's lists are right again.\<close>

lemma mirrored_step:
  assumes m: "mirrored c e cl" and s: "graph_step e e1"
  shows "\<exists>evs cl'. conn_events c (trace e1) = conn_events c (trace e) @ evs \<and> handle_all e1 cl evs = Value (e1, cl') \<and> mirrored c e1 cl'"
proof -
  have t: "tells c e e1" "in_touch e1 c" using tells_step [OF s] m by (simp_all add: mirrored_def)
  have i: "graph_inv e" "mixdown_ok e" "client_id cl = cl_id (cmem e c)" "lists_ok e cl (neighbours e)" using m by (simp_all add: mirrored_def in_touch_def)
  have k: "kept e e1" using t(1) by (simp add: tells_def)
  obtain evs where evs: "conn_events c (trace e1) = conn_events c (trace e) @ evs"
    "\<forall>cl. client_id cl = cl_id (cmem e c) \<longrightarrow> (\<forall>ev \<in> set evs. event_fits e cl ev)"
    "\<forall>p < length (ports e). p_client_id (ports e ! p) = cl_id (cmem e c) \<longrightarrow> neighbours e1 p = fold (apply_at p) evs (neighbours e p)"
    using t(1) unfolding tells_def by blast
  have l: "lists_ok e1 cl (neighbours e)"
    by (rule lists_ok_kept [OF k i(4)]) (use neighbours_bound [OF i(1)] in \<open>auto simp: own_def\<close>)
  obtain cl' where cl': "handle_all e1 cl evs = Value (e1, cl')" "lists_ok e1 cl' (fold apply_event evs (neighbours e))" "client_id cl' = client_id cl"
    using handle_all_ok [OF l mixdown_kept [OF k i(2)], of evs] evs(2) i(3) kept_fits [OF k] by auto
  have "fold apply_event evs (neighbours e) p = neighbours e1 p" if "own e1 cl' p" for p
    using that evs(3) cl'(3) i(3) by (simp add: fold_apply kept_own [OF k]) (simp add: own_def)
  then have "lists_ok e1 cl' (neighbours e1)" using cl'(2) lists_ok_cong by metis
  then have "mirrored c e1 cl'" using t(2) mixdown_kept [OF k i(2)] cl'(3) i(3) kept_client(1) [OF k] by (simp add: mirrored_def)
  then show ?thesis using evs(1) cl'(1) by blast
qed

lemma mirrored_served: "served c s s' \<Longrightarrow> mirrored c (fst s) (snd s) \<Longrightarrow> mirrored c (fst s') (snd s')"
proof (induction rule: served.induct)
  case (serve e e1 evs cl e' cl')
  then show ?case using mirrored_step [of c e cl e1] by auto
qed

definition connected_data :: "jack_engine_t \<Rightarrow> pidx \<Rightarrow> port_data" where
  "connected_data e p =
     (let place = (\<lambda>q. (ptype_id (ports e ! q), p_offset (ports e ! q)))
      in case neighbours e p of
           [] \<Rightarrow> InSegment (ptype_id (ports e ! p)) (zero_buffer_offset (port_types (control e) ! ptype_id (ports e ! p)))
         | [q] \<Rightarrow> InSegment (fst (place q)) (snd (place q))
         | qs \<Rightarrow> MixOf (map place qs))"

lemma get_buffer_connected:
  assumes q: "port_ok e (neighbours e p) p q" "shared q = p" and a: "\<And>t. attached cl t"
    and i: "flag_set (p_flags (ports e ! p)) JackPortIsInput" "\<not> is_output e p"
  shows "jack_port_get_buffer e cl q = connected_data e p"
proof -
  have n: "neighbours e p = map peer_id (peers q)" using q(1) by (simp add: port_ok_def)
  have s: "peer_segment x = ptype_id (ports e ! peer_id x)" "is_output e (peer_id x)" if "x \<in> set (peers q)" for x
    using q(1) i(1) that n by (auto simp: port_ok_def)
  have t: "type_info q = ptype_id (ports e ! p)" "segment q = ptype_id (ports e ! p)" "1 < length (peers q) \<Longrightarrow> mix_buffer q \<noteq> None"
    using q(1) i(1) n by (auto simp: port_ok_def)
  show ?thesis
  proof (cases "peers q")
    case Nil
    then show ?thesis using n t i(2) q(2) a by (simp add: jack_port_get_buffer_def connected_data_def silence_def Let_def)
  next
    case (Cons x xs)
    show ?thesis
    proof (cases xs)
      case Nil
      then show ?thesis using Cons n s i(2) q(2) a by (simp add: jack_port_get_buffer_def connected_data_def output_data_def Let_def)
    next
      case (Cons y ys)
      then show ?thesis using \<open>peers q = x # xs\<close> n s t(3) i(2) q(2)
        by (auto simp: jack_port_get_buffer_def connected_data_def jack_output_port_buffer_def Let_def)
    qed
  qed
qed

text \<open>C6: server and client library agree. The server serves any sequence of connection requests and a
  client that is active and answers handles the events it is sent. Then the client's own list of
  connections of each of its ports is the server's, in the same order. For every input port
  \<open>jack_port_get_buffer\<close> gives silence when nothing is connected, the buffer of the one output port
  connected to it, or the mix of exactly the connected output ports; the error of a missing buffer for
  the mix cannot occur. And whatever request comes next, handling its events does not fail.\<close>

theorem inputs_follow_graph:
  assumes "mirrored c e cl" "(served c)\<^sup>*\<^sup>* (e, cl) (e', cl')"
  shows "(\<forall>p < length (ports e'). in_use (ports e' ! p) \<and> p_client_id (ports e' ! p) = cl_id (cmem e' c) \<longrightarrow>
      (\<exists>i. own_port (client_ports cl') 0 p = Some i \<and> map peer_id (peers (client_ports cl' ! i)) = neighbours e' p \<and>
        (flag_set (p_flags (ports e' ! p)) JackPortIsInput \<and> (\<forall>t. attached cl' t) \<longrightarrow>
           jack_port_get_buffer e' cl' (client_ports cl' ! i) = connected_data e' p))) \<and>
    (\<forall>e''. graph_step e' e'' \<longrightarrow> (\<exists>cl''. served c (e', cl') (e'', cl'')))"
proof -
  have "mirrored c (fst s) (snd s)" if "(served c)\<^sup>*\<^sup>* (e, cl) s" for s
    using that by (induction rule: rtranclp_induct) (use assms(1) mirrored_served in auto)
  then have m: "mirrored c e' cl'" using assms(2) by fastforce
  have g: "graph_inv e'" "client_id cl' = cl_id (cmem e' c)" "lists_ok e' cl' (neighbours e')" using m by (simp_all add: mirrored_def in_touch_def)
  have "\<exists>i. own_port (client_ports cl') 0 p = Some i \<and> map peer_id (peers (client_ports cl' ! i)) = neighbours e' p \<and>
        (flag_set (p_flags (ports e' ! p)) JackPortIsInput \<and> (\<forall>t. attached cl' t) \<longrightarrow>
           jack_port_get_buffer e' cl' (client_ports cl' ! i) = connected_data e' p)"
    if p: "p < length (ports e')" "in_use (ports e' ! p)" "p_client_id (ports e' ! p) = cl_id (cmem e' c)" for p
  proof -
    obtain i where i: "own_port (client_ports cl') 0 p = Some i" "port_ok e' (neighbours e' p) p (client_ports cl' ! i)"
      using g(2,3) p by (auto simp: lists_ok_def own_def)
    have "\<not> is_output e' p" if "flag_set (p_flags (ports e' ! p)) JackPortIsInput"
      using g(1) p that by (auto simp: graph_inv_def ginv_def gbooks_def ports_ok_def is_output_def)
    then show ?thesis using i own_port_Some [OF i(1)] get_buffer_connected [OF i(2)] by (auto simp: port_ok_def)
  qed
  moreover have "\<exists>cl''. served c (e', cl') (e'', cl'')" if "graph_step e' e''" for e''
    using mirrored_step [OF m that] served.serve [OF that] by blast
  ultimately show ?thesis by blast
qed

definition demo_lib :: jack_client_t where
  "demo_lib = \<lparr>client_id = 3, client_uid = 0,
     client_ports = [\<lparr>shared = 4, type_info = 0, segment = 0, mix_buffer = None, peers = []\<rparr>,
                     \<lparr>shared = 5, type_info = 0, segment = 0, mix_buffer = None, peers = []\<rparr>],
     ports_ext = [], attached = (\<lambda>_. True), cbset = (\<lambda>_. False), graph_wait_fd = -1, graph_next_fd = -1, pollmax = 1,
     upstream_is_jackd = False, on_info_shutdown = False, on_shutdown = True, calls = []\<rparr>"

lemma demo_mirrored: "mirrored 2 demo_engine demo_lib"
proof -
  have "own_port (client_ports demo_lib) 0 p \<noteq> None \<and>
      port_ok demo_engine (neighbours demo_engine p) p (client_ports demo_lib ! the (own_port (client_ports demo_lib) 0 p))"
    if "own demo_engine demo_lib p" for p
  proof -
    have "p < 8" using that by (simp add: own_def demo_engine_def)
    then have "p = 0 \<or> p = 1 \<or> p = 2 \<or> p = 3 \<or> p = 4 \<or> p = 5 \<or> p = 6 \<or> p = 7" by linarith
    then show ?thesis using that by (elim disjE) (simp_all add: own_def demo_defs demo_lib_def port_ok_def neighbours_def)
  qed
  then have "lists_ok demo_engine demo_lib (neighbours demo_engine)" by (fastforce simp: lists_ok_def)
  moreover have "mixdown_ok demo_engine"
  proof -
    have "\<forall>x \<in> set (ports demo_engine). has_mixdown x = jack_get_port_functions (ptype_id x)"
      by (simp add: demo_defs jack_get_port_functions_def)
    then show ?thesis by (simp add: mixdown_ok_def)
  qed
  moreover have "directed demo_engine" by (simp add: directed_def demo_links)
  moreover have "hears demo_engine 2" "ids_ok demo_engine 2"
    by (simp_all add: hears_def good_io_def ids_ok_def demo_defs inj_on_def)
  moreover have "client_id demo_lib = cl_id (cmem demo_engine 2)" by (simp add: demo_defs demo_lib_def)
  ultimately show ?thesis using demo_inv by (simp add: mirrored_def in_touch_def)
qed

theorem inputs_follow_graph_witness:
  "\<exists>e1 cl1 i. jack_port_do_connect demo_engine ''a:out'' ''b:in'' = Value (e1, 0) \<and> served 2 (demo_engine, demo_lib) (e1, cl1) \<and>
     own_port (client_ports cl1) 0 5 = Some i \<and> map peer_id (peers (client_ports cl1 ! i)) = [2]"
proof -
  obtain e1 con where e1: "jack_port_do_connect demo_engine ''a:out'' ''b:in'' = Value (e1, 0)"
    "core e1 = g_link con (g_feed con (core demo_engine))" "link_ok (core demo_engine) con" "source con = 2" "destination con = 5"
    using connect_Value [OF demo_inv demo_checks(1)] by blast
  have s: "graph_step demo_engine e1" by (rule graph_step.connect [OF e1(1)])
  obtain cl1 where cl1: "served 2 (demo_engine, demo_lib) (e1, cl1)"
    using mirrored_step [OF demo_mirrored s] served.serve [OF s] by blast
  have l: "5 < length (ports demo_engine)" by (simp add: demo_engine_def)
  have n: "neighbours e1 5 = [2]" using neighbours_link [OF e1(2) demo_inv e1(3) l] e1(4,5) by (simp add: neighbours_def demo_defs)
  have k: "kept demo_engine e1" by (rule kept_connect [OF e1(1)]) simp
  have "5 < length (ports e1)" "in_use (ports e1 ! 5)" "p_client_id (ports e1 ! 5) = cl_id (cmem e1 2)"
    using l kept_engine(1) [OF k] by (simp_all add: kept_port [OF k l] kept_client [OF k]) (simp_all add: demo_defs)
  then obtain i where "own_port (client_ports cl1) 0 5 = Some i" "map peer_id (peers (client_ports cl1 ! i)) = [2]"
    using inputs_follow_graph [OF demo_mirrored r_into_rtranclp, OF cl1] n by auto
  then show ?thesis using e1(1) cl1 by (intro exI conjI)
qed

end
