(* ===== verification/Client_Latency.thy ===== *)
theory Client_Latency
  imports Client_Mirror
begin

text \<open>
  Latencies in the client library: each port has a range of capture latencies and one of playback
  latencies in shared memory. When the server asks for it, a client computes the ranges of its ports
  from the ranges of the ports they are connected to.
\<close>

section \<open>Ranges\<close>

record jack_latency_range_t =
  lat_min :: u32
  lat_max :: u32

definition UINT32_MAX :: u32 where "UINT32_MAX = 0xFFFFFFFF"

text \<open>The mode of a latency callback: capture or playback. A table has the ranges of all ports.\<close>

datatype latency_mode = JackCaptureLatency | JackPlaybackLatency

type_synonym ranges = "latency_mode \<Rightarrow> pidx \<Rightarrow> jack_latency_range_t"

definition jack_port_get_latency_range :: "ranges \<Rightarrow> latency_mode \<Rightarrow> pidx \<Rightarrow> jack_latency_range_t" where
  "jack_port_get_latency_range rs mode p = rs mode p"

text \<open>The old latency field of a physical port is the middle of the range, computed in 32 bits.\<close>

definition jack_port_set_latency_range ::
  "latency_mode \<Rightarrow> pidx \<Rightarrow> jack_latency_range_t \<Rightarrow> jack_engine_t \<times> ranges \<Rightarrow> jack_engine_t \<times> ranges" where
  "jack_port_set_latency_range mode p r er =
     (case er of (e, rs) \<Rightarrow>
        let fl = p_flags (ports e ! p);
            side = (case mode of JackCaptureLatency \<Rightarrow> JackPortIsOutput | JackPlaybackLatency \<Rightarrow> JackPortIsInput);
            e1 = (if flag_set fl side \<and> flag_set fl JackPortIsPhysical
                  then upd_port p (\<lambda>x. x\<lparr>latency := (lat_min r + lat_max r) div 2\<rparr>) e else e)
        in (e1, rs(mode := (rs mode)(p := r))))"

definition jack_port_set_latency :: "pidx \<Rightarrow> u32 \<Rightarrow> jack_engine_t \<times> ranges \<Rightarrow> jack_engine_t \<times> ranges" where
  "jack_port_set_latency p nframes er =
     (case er of (e, rs) \<Rightarrow>
        let e1 = upd_port p (\<lambda>x. x\<lparr>latency := nframes\<rparr>) e;
            fl = p_flags (ports e ! p); r = \<lparr>lat_min = nframes, lat_max = nframes\<rparr>;
            rs1 = (if flag_set fl JackPortIsOutput then rs(JackCaptureLatency := (rs JackCaptureLatency)(p := r)) else rs);
            rs2 = (if flag_set fl JackPortIsInput then rs1(JackPlaybackLatency := (rs1 JackPlaybackLatency)(p := r)) else rs1)
        in (e1, rs2))"

text \<open>The loops that widen a range to include others, and the correction for an empty list.\<close>

definition widen :: "jack_latency_range_t \<Rightarrow> jack_latency_range_t \<Rightarrow> jack_latency_range_t" where
  "widen other acc =
     (let acc1 = (if lat_max acc < lat_max other then acc\<lparr>lat_max := lat_max other\<rparr> else acc)
      in if lat_min other < lat_min acc1 then acc1\<lparr>lat_min := lat_min other\<rparr> else acc1)"

definition hull :: "jack_latency_range_t list \<Rightarrow> jack_latency_range_t" where
  "hull rs =
     (let r = fold widen rs \<lparr>lat_min = UINT32_MAX, lat_max = 0\<rparr>
      in if lat_min r = UINT32_MAX then r\<lparr>lat_min := 0\<rparr> else r)"

definition jack_port_recalculate_latency :: "latency_mode \<Rightarrow> port \<Rightarrow> jack_engine_t \<times> ranges \<Rightarrow> jack_engine_t \<times> ranges" where
  "jack_port_recalculate_latency mode p er =
     jack_port_set_latency_range mode (shared p)
       (hull (map (\<lambda>q. jack_port_get_latency_range (snd er) mode (peer_id q)) (peers p))) er"

definition has_flag :: "jack_engine_t \<Rightarrow> u32 \<Rightarrow> port \<Rightarrow> bool" where
  "has_flag e fl p \<longleftrightarrow> flag_set (p_flags (ports e ! shared p)) fl"

text \<open>The side whose ranges come from its connections, and the other one, which depends on it.\<close>

definition near_side :: "latency_mode \<Rightarrow> u32" where
  "near_side mode = (case mode of JackPlaybackLatency \<Rightarrow> JackPortIsOutput | JackCaptureLatency \<Rightarrow> JackPortIsInput)"

definition through_side :: "latency_mode \<Rightarrow> u32" where
  "through_side mode = (case mode of JackPlaybackLatency \<Rightarrow> JackPortIsInput | JackCaptureLatency \<Rightarrow> JackPortIsOutput)"

definition jack_client_handle_latency_callback ::
  "jack_client_t \<Rightarrow> latency_mode \<Rightarrow> bool \<Rightarrow> jack_engine_t \<times> ranges \<Rightarrow> (jack_engine_t \<times> ranges) \<times> jack_client_t" where
  "jack_client_handle_latency_callback cl mode for_driver er =
     (let er1 = fold (\<lambda>p er. if has_flag (fst er) (near_side mode) p then jack_port_recalculate_latency mode p er else er)
                  (client_ports cl) er
      in if for_driver then (er1, cl)
         else if \<not> cbset cl CbLatency then
           (let r = hull (map (\<lambda>p. jack_port_get_latency_range (snd er1) mode (shared p))
                            (filter (has_flag (fst er1) (near_side mode)) (client_ports cl)))
            in (fold (\<lambda>p er. if has_flag (fst er) (through_side mode) p
                             then jack_port_set_latency_range mode (shared p) r er else er) (client_ports cl) er1, cl))
         else (er1, call (CallLatency (mode = JackPlaybackLatency)) cl))"

section \<open>What the loops compute\<close>

text \<open>The smallest range that contains all the given ones; without any, and when all begin at the largest number, it begins at 0.\<close>

definition range_of :: "jack_latency_range_t set \<Rightarrow> jack_latency_range_t" where
  "range_of S =
     (let m = Min (insert UINT32_MAX (lat_min ` S))
      in \<lparr>lat_min = (if m = UINT32_MAX then 0 else m), lat_max = Max (insert 0 (lat_max ` S))\<rparr>)"

lemma widen_fields: "lat_min (widen x a) = min (lat_min x) (lat_min a)" "lat_max (widen x a) = max (lat_max x) (lat_max a)"
  by (auto simp: widen_def Let_def min_def max_def)

lemma fold_widen:
  "lat_min (fold widen rs a) = Min (insert (lat_min a) (lat_min ` set rs))"
  "lat_max (fold widen rs a) = Max (insert (lat_max a) (lat_max ` set rs))"
proof (induction rs arbitrary: a)
  case (Cons x rs)
  { case 1 then show ?case using Cons(1) by (simp add: widen_fields insert_commute min.assoc)
      (cases "rs = []"; simp add: min.left_commute min.commute) }
  { case 2 then show ?case using Cons(2) by (simp add: widen_fields)
      (cases "rs = []"; simp add: max.left_commute max.commute) }
qed simp_all

lemma hull_range: "hull rs = range_of (set rs)"
  by (simp add: hull_def range_of_def Let_def fold_widen jack_latency_range_t.splits)

section \<open>The callback\<close>

lemma set_range_flags [simp]: "has_flag (fst (jack_port_set_latency_range mode p r er)) = has_flag (fst er)"
proof -
  have u: "p_flags ((ps[p := (ps ! p)\<lparr>latency := v\<rparr>]) ! i) = p_flags (ps ! i)" for ps :: "jack_port_t list" and v i
    by (cases "p < length ps"; cases "i = p") (simp_all add: not_less list_update_beyond)
  have "p_flags (ports (fst (jack_port_set_latency_range mode p r er)) ! i) = p_flags (ports (fst er) ! i)" for i
    by (cases er) (simp add: jack_port_set_latency_range_def Let_def upd_port_def u split: latency_mode.splits)
  then show ?thesis by (simp add: has_flag_def fun_eq_iff)
qed

lemma set_range_value: "snd (jack_port_set_latency_range mode p r er) = (snd er)(mode := (snd er mode)(p := r))"
  by (cases er) (simp add: jack_port_set_latency_range_def Let_def)

lemma first_loop:
  fixes ps :: "port list" and mode :: latency_mode
  defines "step \<equiv> \<lambda>p er. if has_flag (fst er) (near_side mode) p then jack_port_recalculate_latency mode p er else er"
  assumes "distinct (map shared ps)" "\<forall>p \<in> set ps. has_flag (fst er) (near_side mode) p \<longrightarrow> (\<forall>x \<in> set (peers p). peer_id x \<notin> T)"
    "\<forall>p \<in> set ps. has_flag (fst er) (near_side mode) p \<longrightarrow> shared p \<in> T"
  shows "has_flag (fst (fold step ps er)) = has_flag (fst er) \<and> (\<forall>m. m \<noteq> mode \<longrightarrow> snd (fold step ps er) m = snd er m) \<and>
    (\<forall>p \<in> set ps. has_flag (fst er) (near_side mode) p \<longrightarrow>
       snd (fold step ps er) mode (shared p) = range_of ((\<lambda>x. snd er mode (peer_id x)) ` set (peers p))) \<and>
    (\<forall>i. (\<forall>p \<in> set ps. has_flag (fst er) (near_side mode) p \<longrightarrow> shared p \<noteq> i) \<longrightarrow> snd (fold step ps er) mode i = snd er mode i)"
  using assms(2-)
proof (induction ps arbitrary: er)
  case (Cons p ps)
  let ?F = "has_flag (fst er) (near_side mode)"
  define er1 where "er1 = step p er"
  have f1: "has_flag (fst er1) = has_flag (fst er)" by (simp add: er1_def step_def jack_port_recalculate_latency_def)
  have s1: "snd er1 m = snd er m" if "m \<noteq> mode" for m
    using that by (simp add: er1_def step_def jack_port_recalculate_latency_def set_range_value)
  have v1: "snd er1 mode = (if ?F p then (snd er mode)(shared p := range_of ((\<lambda>x. snd er mode (peer_id x)) ` set (peers p))) else snd er mode)"
    by (simp add: er1_def step_def jack_port_recalculate_latency_def set_range_value hull_range jack_port_get_latency_range_def)
  have out: "snd er1 mode i = snd er mode i" if "i \<notin> T" for i using v1 Cons.prems(3) that by auto
  have IH: "has_flag (fst (fold step ps er1)) = has_flag (fst er1) \<and> (\<forall>m. m \<noteq> mode \<longrightarrow> snd (fold step ps er1) m = snd er1 m) \<and>
    (\<forall>p \<in> set ps. has_flag (fst er1) (near_side mode) p \<longrightarrow>
       snd (fold step ps er1) mode (shared p) = range_of ((\<lambda>x. snd er1 mode (peer_id x)) ` set (peers p))) \<and>
    (\<forall>i. (\<forall>p \<in> set ps. has_flag (fst er1) (near_side mode) p \<longrightarrow> shared p \<noteq> i) \<longrightarrow> snd (fold step ps er1) mode i = snd er1 mode i)"
    by (rule Cons.IH) (use Cons.prems f1 in auto)
  have fo: "fold step (p # ps) er = fold step ps er1" by (simp add: er1_def)
  have dp: "\<forall>q \<in> set ps. shared q \<noteq> shared p" using Cons.prems(1) by (metis distinct.simps(2) image_eqI list.set_map list.simps(9))
  have "snd (fold step ps er1) mode (shared q) = range_of ((\<lambda>x. snd er mode (peer_id x)) ` set (peers q))" if "q \<in> set (p # ps)" "?F q" for q
  proof (cases "q = p")
    case True
    then have "snd (fold step ps er1) mode (shared p) = snd er1 mode (shared p)" using IH dp f1 by auto
    then show ?thesis using v1 that True by simp
  next
    case False
    have "(\<lambda>x. snd er1 mode (peer_id x)) ` set (peers q) = (\<lambda>x. snd er mode (peer_id x)) ` set (peers q)"
      using out Cons.prems(2) that by (intro image_cong) auto
    then show ?thesis using IH that False f1 by auto
  qed
  moreover have "snd (fold step ps er1) mode i = snd er mode i" if "\<forall>q \<in> set (p # ps). ?F q \<longrightarrow> shared q \<noteq> i" for i
    using IH that f1 v1 by auto
  ultimately show ?case unfolding fo using IH f1 s1 by simp
qed (simp add: step_def)

lemma second_loop:
  fixes ps :: "port list" and mode :: latency_mode and r :: jack_latency_range_t
  defines "step \<equiv> \<lambda>p er. if has_flag (fst er) (through_side mode) p then jack_port_set_latency_range mode (shared p) r er else er"
  shows "has_flag (fst (fold step ps er)) = has_flag (fst er) \<and> (\<forall>m. m \<noteq> mode \<longrightarrow> snd (fold step ps er) m = snd er m) \<and>
    (\<forall>i. snd (fold step ps er) mode i = (if \<exists>p \<in> set ps. has_flag (fst er) (through_side mode) p \<and> shared p = i then r else snd er mode i))"
proof (induction ps arbitrary: er)
  case (Cons p ps)
  have "has_flag (fst (step p er)) = has_flag (fst er)" by (simp add: step_def)
  then show ?case using Cons.IH [of "step p er"] by (auto simp: step_def set_range_value)
qed simp

text \<open>The old latency field: only physical ports on the far side have one that follows the range.\<close>

definition physical :: "jack_engine_t \<Rightarrow> pidx \<Rightarrow> bool" where
  "physical e i \<longleftrightarrow> flag_set (p_flags (ports e ! i)) JackPortIsPhysical"

definition middle :: "jack_latency_range_t \<Rightarrow> u32" where
  "middle r = (lat_min r + lat_max r) div 2"

lemma set_range_engine:
  "fst (jack_port_set_latency_range mode (shared p) r er) =
     (if has_flag (fst er) (through_side mode) p \<and> physical (fst er) (shared p)
      then upd_port (shared p) (\<lambda>x. x\<lparr>latency := middle r\<rparr>) (fst er) else fst er)"
  by (cases er; cases mode)
    (simp_all add: jack_port_set_latency_range_def Let_def has_flag_def through_side_def physical_def middle_def)

lemma first_loop_engine:
  assumes "\<forall>p \<in> set ps. \<not> (has_flag (fst er) (near_side mode) p \<and> has_flag (fst er) (through_side mode) p)"
  shows "fst (fold (\<lambda>p er. if has_flag (fst er) (near_side mode) p then jack_port_recalculate_latency mode p er else er) ps er) = fst er"
  using assms
proof (induction ps arbitrary: er)
  case (Cons p ps)
  let ?er = "if has_flag (fst er) (near_side mode) p then jack_port_recalculate_latency mode p er else er"
  have "fst ?er = fst er" using Cons.prems by (simp add: jack_port_recalculate_latency_def set_range_engine)
  then show ?case using Cons.IH [of ?er] Cons.prems by simp
qed simp

lemma second_loop_engine:
  fixes ps :: "port list" and mode :: latency_mode and r :: jack_latency_range_t
  defines "step \<equiv> \<lambda>p er. if has_flag (fst er) (through_side mode) p then jack_port_set_latency_range mode (shared p) r er else er"
  shows "\<exists>qs. fst (fold step ps er) = (fst er)\<lparr>ports := qs\<rparr> \<and> length qs = length (ports (fst er)) \<and>
    (\<forall>i < length qs. qs ! i = (if (\<exists>p \<in> set ps. has_flag (fst er) (through_side mode) p \<and> shared p = i) \<and> physical (fst er) i
       then (ports (fst er) ! i)\<lparr>latency := middle r\<rparr> else ports (fst er) ! i))"
proof (induction ps arbitrary: er)
  case Nil
  then show ?case by (intro exI [of _ "ports (fst er)"]) simp
next
  case (Cons p ps)
  let ?e = "fst er" and ?e1 = "fst (step p er)"
  have e1: "?e1 = (if has_flag ?e (through_side mode) p \<and> physical ?e (shared p)
      then ?e\<lparr>ports := (ports ?e)[shared p := (ports ?e ! shared p)\<lparr>latency := middle r\<rparr>]\<rparr> else ?e)"
    by (simp add: step_def set_range_engine upd_port_def)
  have f1: "has_flag ?e1 = has_flag ?e" by (simp add: step_def)
  have ph: "physical ?e1 i = physical ?e i" if "i < length (ports ?e)" for i
    using that e1 by (cases "i = shared p") (simp_all add: physical_def)
  have l1: "length (ports ?e1) = length (ports ?e)" using e1 by simp
  obtain qs where qs: "fst (fold step ps (step p er)) = ?e1\<lparr>ports := qs\<rparr>" "length qs = length (ports ?e1)"
    "\<forall>i < length qs. qs ! i = (if (\<exists>p \<in> set ps. has_flag ?e1 (through_side mode) p \<and> shared p = i) \<and> physical ?e1 i
       then (ports ?e1 ! i)\<lparr>latency := middle r\<rparr> else ports ?e1 ! i)"
    using Cons.IH [of "step p er"] by blast
  have "qs ! i = (if (\<exists>p \<in> set (p # ps). has_flag ?e (through_side mode) p \<and> shared p = i) \<and> physical ?e i
       then (ports ?e ! i)\<lparr>latency := middle r\<rparr> else ports ?e ! i)" if i: "i < length qs" for i
  proof -
    have il: "i < length (ports ?e)" using i qs(2) l1 by simp
    have "ports ?e1 ! i = (if has_flag ?e (through_side mode) p \<and> shared p = i \<and> physical ?e i
        then (ports ?e ! i)\<lparr>latency := middle r\<rparr> else ports ?e ! i)" using e1 il by (cases "shared p = i") simp_all
    then show ?thesis using qs(3) i ph [OF il] f1 by auto
  qed
  moreover have "?e1\<lparr>ports := qs\<rparr> = ?e\<lparr>ports := qs\<rparr>" using e1 by simp
  ultimately show ?case using qs(1,2) l1 by (intro exI [of _ qs]) simp
qed


text \<open>Client \<open>b\<close> with its input connected to the output of client \<open>a\<close>.\<close>

definition demo_ranges :: ranges where
  "demo_ranges mode i = (if mode = JackCaptureLatency \<and> i = 2 then \<lparr>lat_min = 10, lat_max = 20\<rparr> else \<lparr>lat_min = 0, lat_max = 0\<rparr>)"

definition demo_linked :: jack_client_t where
  "demo_linked = upd_own 1 (\<lambda>p. p\<lparr>peers := [\<lparr>peer_id = 2, peer_segment = 0\<rparr>]\<rparr>) demo_lib"


end
