(* ===== verification/Client_Thread.thy ===== *)
theory Client_Thread
  imports Client_Latency Transport
begin

text \<open>
  The thread of a client that listens to the server and runs the process callback, in
  \<open>libjack/client.c\<close>. It polls two descriptors: the event socket, on which the server sends
  \<open>jack_event_t\<close> and expects one status byte for each, and the FIFO of the client before it in the
  execution chain, where a byte says that it is time to process. What \<open>poll\<close>, \<open>read\<close>, \<open>write\<close>, \<open>open\<close> and the
  callbacks of the application answer is an input, and so is what the server and other clients write
  to shared memory in the meantime. The control block of the client is the one at \<open>c\<close> in the memory of the engine.
\<close>

section \<open>State and inputs\<close>

text \<open>\<open>revents\<close> of a descriptor: readable, and any other bit.\<close>

record revents =
  pollin :: bool
  trouble :: bool

record client_thread =
  shared_mem :: jack_engine_t
  lat_table :: ranges
  lib :: jack_client_t
  event_bits :: revents
  wait_bits :: revents

text \<open>Answers to the handlers of events.\<close>

record event_world =
  open_read :: "nat \<Rightarrow> int"
  open_write :: "nat \<Rightarrow> int"
  attach_ok :: bool
  callback_status :: int
  immediate_reply :: bool

datatype poll_answer = PollAnswered | PollInterrupted | PollBroken

record poll_round =
  others_write :: "jack_engine_t \<Rightarrow> jack_engine_t"
  answer :: poll_answer
  now :: u64
  new_event_bits :: revents
  new_wait_bits :: revents
  event_read :: "jack_event_t option"
  handler_world :: event_world
  status_written :: bool

record cycle_input =
  process_result :: int
  timebase_result :: "jack_transport_state_t \<Rightarrow> jack_nframes_t \<Rightarrow> jack_position_t \<Rightarrow> bool \<Rightarrow> jack_position_t"
  end_time :: u64
  wake_written :: bool
  cleanup_ready :: bool
  cleanup_read :: bool
  engine_ok :: bool
  rounds :: "poll_round list"
  sync_ready :: bool

abbreviation on_lib :: "(jack_client_t \<Rightarrow> jack_client_t) \<Rightarrow> client_thread \<Rightarrow> client_thread" where
  "on_lib f s \<equiv> s\<lparr>lib := f (lib s)\<rparr>"

abbreviation on_block :: "cptr \<Rightarrow> (jack_client_internal_t \<Rightarrow> jack_client_internal_t) \<Rightarrow> client_thread \<Rightarrow> client_thread" where
  "on_block c f s \<equiv> s\<lparr>shared_mem := upd_client c f (shared_mem s)\<rparr>"

section \<open>Handlers of events\<close>

definition jack_handle_reorder :: "event_world \<Rightarrow> nat \<Rightarrow> bool \<Rightarrow> jack_client_t \<Rightarrow> jack_client_t \<times> int" where
  "jack_handle_reorder w n upstream cl =
     (let cl1 = cl\<lparr>graph_next_fd := -1, graph_wait_fd := open_read w n\<rparr>
      in if open_read w n < 0 then (cl1, -1)
         else
           (let cl2 = cl1\<lparr>graph_next_fd := open_write w (n + 1)\<rparr>
            in if open_write w (n + 1) < 0 then (cl2, -1)
               else (call_if (cbset cl2 CbGraphOrder) CallGraphOrder (cl2\<lparr>upstream_is_jackd := upstream, pollmax := 2\<rparr>), 0)))"

text \<open>The identifier of the client as \<open>%d\<close> prints it.\<close>

definition signed_decimal :: "u32 \<Rightarrow> string" where
  "signed_decimal n = (if sint n < 0 then CHR ''-'' # decimal (nat (- sint n)) else decimal (nat (sint n)))"

definition jack_client_handle_session_callback ::
  "event_world \<Rightarrow> u32 \<Rightarrow> u32 \<Rightarrow> string \<Rightarrow> jack_client_t \<Rightarrow> jack_client_t \<times> int" where
  "jack_client_handle_session_callback w uid type path cl =
     (if \<not> cbset cl CbSession then (cl, -1)
      else (call (CallSession type path (signed_decimal uid)) cl, if immediate_reply w then 2 else 1))"

definition jack_attach_port_segment :: "event_world \<Rightarrow> ClientType \<Rightarrow> nat \<Rightarrow> jack_client_t \<Rightarrow> jack_client_t c_result" where
  "jack_attach_port_segment w type ptid cl =
     (if type \<noteq> ClientExternal then AssertFailed
      else Value (cl\<lparr>attached := (attached cl)(ptid := attach_ok w)\<rparr>))"

definition jack_start_freewheel :: "jack_client_t \<Rightarrow> jack_client_t" where
  "jack_start_freewheel cl = call_if (cbset cl CbFreewheel) (CallFreewheel True) cl"

definition jack_stop_freewheel :: "jack_client_t \<Rightarrow> jack_client_t" where
  "jack_stop_freewheel cl = call_if (cbset cl CbFreewheel) (CallFreewheel False) cl"

definition retype :: "jack_engine_t \<Rightarrow> pidx \<Rightarrow> port \<Rightarrow> port" where
  "retype e i p = (if shared p = i then p\<lparr>type_info := ptype_id (ports e ! i)\<rparr> else p)"

text \<open>The switch over the type of the event, with the status.\<close>

definition handle_event :: "cptr \<Rightarrow> event_world \<Rightarrow> jack_event_t \<Rightarrow> client_thread \<Rightarrow> (client_thread \<times> int) c_result" where
  "handle_event c w ev s =
     (case ev of
        PortRegistered i \<Rightarrow>
          Value (on_lib (\<lambda>cl. call_if (cbset cl CbPortRegister) (CallPortRegister i True)
                   (cl\<lparr>ports_ext := map (retype (shared_mem s) i) (ports_ext cl)\<rparr>)) s, 0)
      | PortUnregistered i \<Rightarrow> Value (on_lib (\<lambda>cl. call_if (cbset cl CbPortRegister) (CallPortRegister i False) cl) s, 0)
      | ClientRegistered n \<Rightarrow> Value (on_lib (\<lambda>cl. call_if (cbset cl CbClientRegister) (CallClientRegister n True) cl) s, 0)
      | ClientUnregistered n \<Rightarrow> Value (on_lib (\<lambda>cl. call_if (cbset cl CbClientRegister) (CallClientRegister n False) cl) s, 0)
      | GraphReordered n upstream \<Rightarrow>
          (case jack_handle_reorder w n upstream (lib s) of (cl, st) \<Rightarrow> Value (s\<lparr>lib := cl\<rparr>, st))
      | PortConnected i j \<Rightarrow>
          c_map (\<lambda>(e, cl). (s\<lparr>shared_mem := e, lib := cl\<rparr>, 0)) (jack_client_handle_port_connection (shared_mem s) (lib s) True i j)
      | PortDisconnected i j \<Rightarrow>
          c_map (\<lambda>(e, cl). (s\<lparr>shared_mem := e, lib := cl\<rparr>, 0)) (jack_client_handle_port_connection (shared_mem s) (lib s) False i j)
      | BufferSizeChange \<Rightarrow>
          (let s1 = on_lib (jack_client_fix_port_buffers (shared_mem s)) s
           in if cbset (lib s1) CbBufferSize
              then Value (on_lib (call (CallBufferSize (buffer_size (control (shared_mem s1))))) s1, callback_status w)
              else Value (s1, 0))
      | SampleRateChange \<Rightarrow>
          if cbset (lib s) CbSampleRate
          then Value (on_lib (call (CallSampleRate (frame_rate (current_time (control (shared_mem s)))))) s, callback_status w) else Value (s, 0)
      | XRun \<Rightarrow> if cbset (lib s) CbXRun then Value (on_lib (call CallXRun) s, callback_status w) else Value (s, 0)
      | AttachPortSegment ptid \<Rightarrow>
          c_map (\<lambda>cl. (s\<lparr>lib := cl\<rparr>, 0)) (jack_attach_port_segment w (cl_type (cmem (shared_mem s) c)) ptid (lib s))
      | StartFreewheel \<Rightarrow> Value (on_lib jack_start_freewheel s, 0)
      | StopFreewheel \<Rightarrow> Value (on_lib jack_stop_freewheel s, 0)
      | SaveSession type path \<Rightarrow>
          (case jack_client_handle_session_callback w (cl_uid (cmem (shared_mem s) c)) type path (lib s) of (cl, st) \<Rightarrow> Value (s\<lparr>lib := cl\<rparr>, st))
      | LatencyCallback playback \<Rightarrow>
          (case jack_client_handle_latency_callback (lib s) (if playback then JackPlaybackLatency else JackCaptureLatency) False (shared_mem s, lat_table s)
           of ((e, rs), cl) \<Rightarrow> Value (s\<lparr>shared_mem := e, lat_table := rs, lib := cl\<rparr>, 0)))"

text \<open>The status is a \<open>char\<close>.\<close>

definition status_char :: "int \<Rightarrow> int" where
  "status_char st = sint (word_of_int st :: 8 word)"

definition jack_client_process_events :: "cptr \<Rightarrow> poll_round \<Rightarrow> client_thread \<Rightarrow> (client_thread \<times> int) c_result" where
  "jack_client_process_events c r s =
     (if pollin (event_bits s) then
        (case event_read r of
           None \<Rightarrow> Value (s, -1)
         | Some ev \<Rightarrow>
             c_map (\<lambda>(s1, st). if status_written r then (on_lib (call (SendStatus (status_char st))) s1, 0) else (s1, -1))
               (handle_event c (handler_world r) ev s))
      else Value (s, 0))"

section \<open>Waiting for the next cycle\<close>

text \<open>
  \<open>poll\<close> looks at \<open>pollmax\<close> descriptors; it clears \<open>revents\<close> of a negative one and leaves alone the
  \<open>revents\<close> of those beyond \<open>pollmax\<close>.
\<close>

definition take_bits :: "poll_round \<Rightarrow> client_thread \<Rightarrow> client_thread" where
  "take_bits r s =
     s\<lparr>event_bits := new_event_bits r,
       wait_bits := (if pollmax (lib s) < 2 then wait_bits s
                     else if graph_wait_fd (lib s) < 0 then \<lparr>pollin = False, trouble = False\<rparr>
                     else new_wait_bits r)\<rparr>"

text \<open>The time of a wakeup is noted, and a FIFO whose writer has gone is no longer polled.\<close>

definition note_wakeup :: "cptr \<Rightarrow> poll_round \<Rightarrow> client_thread \<Rightarrow> client_thread" where
  "note_wakeup c r s =
     (if 0 \<le> graph_wait_fd (lib s) \<and> pollin (wait_bits s) then on_block c (\<lambda>b. b\<lparr>awake_at := now r\<rparr>) s else s)"

definition upstream_lost :: "client_thread \<Rightarrow> bool" where
  "upstream_lost s \<longleftrightarrow> 0 \<le> graph_wait_fd (lib s) \<and> trouble (wait_bits s)"

definition punt :: "client_thread \<Rightarrow> client_thread" where
  "punt s = (if upstream_lost s then on_lib (\<lambda>cl. cl\<lparr>graph_wait_fd := -1, pollmax := 1\<rparr>) s else s)"

text \<open>One round of the loop: \<open>None\<close> goes round again.\<close>

definition wait_round :: "cptr \<Rightarrow> poll_round \<Rightarrow> client_thread \<Rightarrow> (client_thread \<times> int option) c_result" where
  "wait_round c r s =
     (let s0 = s\<lparr>shared_mem := others_write r (shared_mem s)\<rparr> in
      case answer r of
        PollInterrupted \<Rightarrow> Value (s0, None)
      | PollBroken \<Rightarrow> Value (s0, Some (-1))
      | PollAnswered \<Rightarrow>
          (let s2 = note_wakeup c r (take_bits r s0)
           in if upstream_lost s2 \<and> upstream_is_jackd (lib s2) then Value (s2, Some 0)
              else
                c_map (\<lambda>(s4, err).
                    if err \<noteq> 0 then (s4, Some 0)
                    else if 0 \<le> graph_wait_fd (lib s4) \<and> pollin (wait_bits s4) then
                      (s4, Some (if dead (cmem (shared_mem s4) c) \<or> trouble (event_bits s4) then -1 else 0))
                    else (s4, None))
                  (jack_client_process_events c r (punt s2))))"

text \<open>The loop; when the list of rounds is used up the client still waits.\<close>

fun jack_client_core_wait :: "cptr \<Rightarrow> poll_round list \<Rightarrow> client_thread \<Rightarrow> (client_thread \<times> int option) c_result" where
  "jack_client_core_wait c [] s = Value (s, None)"
| "jack_client_core_wait c (r # rs) s =
     c_bind (wait_round c r s) (\<lambda>(s1, res). case res of None \<Rightarrow> jack_client_core_wait c rs s1 | Some v \<Rightarrow> Value (s1, Some v))"

definition jack_wake_next_client :: "cycle_input \<Rightarrow> jack_client_t \<Rightarrow> jack_client_t \<times> int" where
  "jack_wake_next_client w cl =
     (if graph_next_fd cl < 0 \<or> \<not> wake_written w then (cl, -1)
      else
        (let cl1 = call WakeNext cl
         in if 0 \<le> graph_wait_fd cl1 \<and> cleanup_ready w
            then (if cleanup_read w then (call EatWakeup cl1, 0) else (cl1, -1))
            else (cl1, 0)))"

text \<open>The two halves of \<open>jack_thread_wait\<close>: the end of a cycle and the beginning of the next one.\<close>

definition start_cycle :: "cptr \<Rightarrow> cycle_input \<Rightarrow> client_thread \<Rightarrow> client_thread" where
  "start_cycle c w s =
     (let s1 = on_block c (\<lambda>b. b\<lparr>cl_state := Running\<rparr>) s
      in if sync_cb_cbset (cmem (shared_mem s1) c)
         then s1\<lparr>shared_mem := jack_call_sync_client (shared_mem s1) c (sync_ready w)\<rparr> else s1)"

definition end_cycle :: "cptr \<Rightarrow> cycle_input \<Rightarrow> int \<Rightarrow> client_thread \<Rightarrow> client_thread" where
  "end_cycle c w status s =
     (let s1 = on_block c (\<lambda>b. b\<lparr>last_status := status\<rparr>) s;
          s2 = (if status = 0 \<and> timebase_cb_cbset (cmem (shared_mem s1) c)
                then s1\<lparr>shared_mem := jack_call_timebase_master (timebase_result w) (shared_mem s1) c\<rparr> else s1)
      in on_block c (\<lambda>b. b\<lparr>finished_at := end_time w\<rparr>) s2)"

text \<open>The number of frames to process; 0 ends the thread, and \<open>None\<close> still waits.\<close>

definition jack_thread_wait :: "cptr \<Rightarrow> cycle_input \<Rightarrow> int \<Rightarrow> client_thread \<Rightarrow> (client_thread \<times> jack_nframes_t option) c_result" where
  "jack_thread_wait c w status s =
     (let s1 = end_cycle c w status s in
      case jack_wake_next_client w (lib s1) of (cl, err) \<Rightarrow>
      let s2 = s1\<lparr>lib := cl\<rparr> in
      if err \<noteq> 0 then Value (s2, Some 0)
      else if status \<noteq> 0 \<or> dead (cmem (shared_mem s2) c) \<or> \<not> engine_ok w then Value (s2, Some 0)
      else
        c_map (\<lambda>(s3, res).
            case res of
              None \<Rightarrow> (s3, None)
            | Some v \<Rightarrow> if v \<noteq> 0 then (s3, Some 0)
                        else (let s4 = start_cycle c w s3 in (s4, Some (buffer_size (control (shared_mem s4))))))
          (jack_client_core_wait c (rounds w) s2))"

definition jack_cycle_wait :: "cptr \<Rightarrow> cycle_input \<Rightarrow> u64 \<Rightarrow> client_thread \<Rightarrow> (client_thread \<times> jack_nframes_t option) c_result" where
  "jack_cycle_wait c w time s =
     c_map (\<lambda>(s3, res).
         case res of
           None \<Rightarrow> (s3, None)
         | Some v \<Rightarrow> if v \<noteq> 0 then (s3, Some 0)
                     else (let s4 = start_cycle c w (on_block c (\<lambda>b. b\<lparr>awake_at := time\<rparr>) s3)
                           in (s4, Some (buffer_size (control (shared_mem s4))))))
       (jack_client_core_wait c (rounds w) s)"

definition jack_client_thread_suicide :: "client_thread \<Rightarrow> client_thread" where
  "jack_client_thread_suicide s =
     on_lib (call (if on_info_shutdown (lib s) then CallInfoShutdown
                   else if on_shutdown (lib s) then CallShutdown else CloseClient)) s"

text \<open>Whether the thread goes on after \<open>jack_cycle_signal\<close>.\<close>

definition jack_cycle_signal :: "cptr \<Rightarrow> cycle_input \<Rightarrow> int \<Rightarrow> client_thread \<Rightarrow> client_thread \<times> bool" where
  "jack_cycle_signal c w status s =
     (let s1 = on_block c (\<lambda>b. b\<lparr>cl_state := Finished\<rparr>) (end_cycle c w status s) in
      case jack_wake_next_client w (lib s1) of (cl, err) \<Rightarrow>
      let s2 = s1\<lparr>lib := cl\<rparr> in
      if err \<noteq> 0 \<or> status \<noteq> 0 \<or> dead (cmem (shared_mem s2) c) \<or> \<not> engine_ok w
      then (jack_client_thread_suicide s2, False) else (s2, True))"

section \<open>The thread\<close>

definition jack_thread_first_wait :: "cptr \<Rightarrow> poll_round list \<Rightarrow> client_thread \<Rightarrow> (client_thread \<times> jack_nframes_t option) c_result" where
  "jack_thread_first_wait c rs s =
     c_map (\<lambda>(s1, res). (s1, map_option (\<lambda>v. if v \<noteq> 0 then 0 else buffer_size (control (shared_mem s1))) res))
       (jack_client_core_wait c rs s)"

text \<open>The callback returns an \<open>int\<close>, which the code compares with the number of frames.\<close>

definition run_process :: "cptr \<Rightarrow> cycle_input \<Rightarrow> client_thread \<Rightarrow> client_thread \<times> int" where
  "run_process c w s =
     (let n = buffer_size (control (shared_mem s))
      in (on_block c (\<lambda>b. b\<lparr>cl_state := Finished\<rparr>) (on_lib (call (CallProcess n)) s),
          if word_of_int (process_result w) = n then 1 else 0))"

text \<open>The loop with a process callback, one input for each cycle; the flag says whether it has ended.\<close>

fun process_cycles :: "cptr \<Rightarrow> cycle_input list \<Rightarrow> client_thread \<Rightarrow> (client_thread \<times> bool) c_result" where
  "process_cycles c [] s = Value (s, False)"
| "process_cycles c (w # ws) s =
     (case run_process c w s of (s1, status) \<Rightarrow>
        c_bind (jack_thread_wait c w status s1) (\<lambda>(s2, res).
          case res of None \<Rightarrow> Value (s2, False) | Some n \<Rightarrow> if n = 0 then Value (s2, True) else process_cycles c ws s2))"

text \<open>The loop of a client that only listens.\<close>

fun listen_cycles :: "cptr \<Rightarrow> cycle_input list \<Rightarrow> client_thread \<Rightarrow> (client_thread \<times> bool) c_result" where
  "listen_cycles c [] s = Value (s, False)"
| "listen_cycles c (w # ws) s =
     c_bind (jack_thread_wait c w 0 s) (\<lambda>(s2, res).
       case res of None \<Rightarrow> Value (s2, False)
       | Some n \<Rightarrow> if n \<noteq> buffer_size (control (shared_mem s2)) then Value (s2, True) else listen_cycles c ws s2)"

definition jack_client_thread_aux :: "cptr \<Rightarrow> poll_round list \<Rightarrow> cycle_input list \<Rightarrow> client_thread \<Rightarrow> (client_thread \<times> bool) c_result" where
  "jack_client_thread_aux c rs ws s =
     (let s1 = on_lib (\<lambda>cl. call_if (cbset cl CbThreadInit) CallThreadInit cl) s in
      c_bind (jack_thread_first_wait c rs s1) (\<lambda>(s2, res).
        case res of
          None \<Rightarrow> Value (s2, False)
        | Some n \<Rightarrow>
            c_map (\<lambda>(s3, ended). if ended then (jack_client_thread_suicide s3, True) else (s3, False))
              (if n \<noteq> buffer_size (control (shared_mem s2)) then Value (s2, True)
               else if process_cbset (cmem (shared_mem s2) c) then process_cycles c ws s2
               else listen_cycles c ws s2)))"

section \<open>Processing and waking the next client take turns\<close>

fun turn :: "lib_call \<Rightarrow> bool option" where
  "turn (CallProcess n) = Some True"
| "turn WakeNext = Some False"
| "turn _ = None"

definition turns :: "client_thread \<Rightarrow> bool list" where
  "turns s = List.map_filter turn (calls (lib s))"

definition statuses :: "client_thread \<Rightarrow> int list" where
  "statuses s = List.map_filter (\<lambda>x. case x of SendStatus st \<Rightarrow> Some st | _ \<Rightarrow> None) (calls (lib s))"

text \<open>True and false in turn, from the given one on.\<close>

fun in_turn :: "bool \<Rightarrow> bool list \<Rightarrow> bool" where
  "in_turn b [] \<longleftrightarrow> True"
| "in_turn b (x # xs) \<longleftrightarrow> x = b \<and> in_turn (\<not> b) xs"

lemma in_turn_append:
  "in_turn b (xs @ ys) \<longleftrightarrow> in_turn b xs \<and> (if even (length xs) then in_turn b ys else in_turn (\<not> b) ys)"
proof (induction xs arbitrary: b)
  case (Cons x xs)
  show ?case by (cases b) (simp_all add: Cons.IH)
qed simp

lemma map_filter_append [simp]: "List.map_filter f (xs @ ys) = List.map_filter f xs @ List.map_filter f ys"
  by (simp add: List.map_filter_def)

lemma map_filter_single [simp]: "List.map_filter f [x] = (case f x of None \<Rightarrow> [] | Some y \<Rightarrow> [y])"
  by (simp add: List.map_filter_def split: option.split)

lemma calls_call [simp]: "calls (call x cl) = calls cl @ [x]"
  by (simp add: call_def)

lemma lib_call [simp]:
  "client_ports (call x cl) = client_ports cl" "graph_wait_fd (call x cl) = graph_wait_fd cl" "graph_next_fd (call x cl) = graph_next_fd cl"
  "pollmax (call x cl) = pollmax cl" "cbset (call x cl) = cbset cl" "upstream_is_jackd (call x cl) = upstream_is_jackd cl"
  by (simp_all add: call_def)

text \<open>What the handler of an event leaves as it was, and the calls it makes.\<close>

definition handled :: "client_thread \<Rightarrow> client_thread \<Rightarrow> bool" where
  "handled s s' \<longleftrightarrow> turns s' = turns s \<and> statuses s' = statuses s \<and>
     control (shared_mem s') = control (shared_mem s) \<and> cmem (shared_mem s') = cmem (shared_mem s) \<and>
     event_bits s' = event_bits s \<and> wait_bits s' = wait_bits s"

lemma connection_handled:
  assumes "jack_client_handle_port_connection e cl b i j = Value (e', cl')"
  shows "control e' = control e \<and> cmem e' = cmem e \<and> graph_wait_fd cl' = graph_wait_fd cl \<and> graph_next_fd cl' = graph_next_fd cl \<and>
    pollmax cl' = pollmax cl \<and> (calls cl' = calls cl \<or> calls cl' = calls cl @ [CallPortConnect i j b])"
  using assms
  by (auto simp: jack_client_handle_port_connection_def connect_own_def disconnect_own_def jack_port_by_id_int_def
      jack_port_new_def upd_own_def upd_port_def call_if_def Let_def c_map_def split: if_splits option.splits found.splits)

lemma set_range_frame:
  "control (fst (jack_port_set_latency_range m p r er)) = control (fst er)" "cmem (fst (jack_port_set_latency_range m p r er)) = cmem (fst er)"
  by (auto simp: jack_port_set_latency_range_def upd_port_def Let_def split: prod.splits)

lemma fold_frame:
  assumes "\<And>x a. g (f x a) = g a"
  shows "g (fold f xs a) = g a"
  by (induction xs arbitrary: a) (simp_all add: assms)

lemma latency_handled:
  assumes "jack_client_handle_latency_callback cl mode b (e, rs) = ((e', rs'), cl')"
  shows "control e' = control e \<and> cmem e' = cmem e \<and> graph_wait_fd cl' = graph_wait_fd cl \<and> graph_next_fd cl' = graph_next_fd cl \<and>
    pollmax cl' = pollmax cl \<and> (calls cl' = calls cl \<or> (\<exists>m. calls cl' = calls cl @ [CallLatency m]))"
proof -
  define g where "g = (\<lambda>p er. if has_flag (fst er) (near_side mode) p then jack_port_recalculate_latency mode p er else er)"
  define er1 where "er1 = fold g (client_ports cl) (e, rs)"
  define h where "h = (\<lambda>r p er. if has_flag (fst er) (through_side mode) p then jack_port_set_latency_range mode (shared p) r er else er)"
  have 1: "control (fst er1) = control e" "cmem (fst er1) = cmem e"
    using fold_frame [of "\<lambda>er. control (fst er)" g "client_ports cl" "(e, rs)"] fold_frame [of "\<lambda>er. cmem (fst er)" g "client_ports cl" "(e, rs)"]
    by (auto simp: er1_def g_def jack_port_recalculate_latency_def set_range_frame)
  have 2: "control (fst (fold (h r) xs a)) = control (fst a)" "cmem (fst (fold (h r) xs a)) = cmem (fst a)" for r xs a
    by (rule fold_frame [of "\<lambda>er. control (fst er)"], simp add: h_def set_range_frame)
      (rule fold_frame [of "\<lambda>er. cmem (fst er)"], simp add: h_def set_range_frame)
  show ?thesis
  proof (cases b)
    case True
    then have "(er1, cl) = ((e', rs'), cl')"
      using assms by (auto simp: jack_client_handle_latency_callback_def Let_def er1_def g_def)
    then show ?thesis using 1 by (cases er1) auto
  next
    case nb: False
    show ?thesis
    proof (cases "cbset cl CbLatency")
      case True
      then have "(er1, call (CallLatency (mode = JackPlaybackLatency)) cl) = ((e', rs'), cl')"
        using assms nb by (auto simp: jack_client_handle_latency_callback_def Let_def er1_def g_def)
      then show ?thesis using 1 by (cases er1) auto
    next
      case False
      then obtain r where "(fold (h r) (client_ports cl) er1, cl) = ((e', rs'), cl')"
        using assms nb by (auto simp: jack_client_handle_latency_callback_def Let_def er1_def g_def h_def)
      then have "e' = fst (fold (h r) (client_ports cl) er1)" "cl' = cl" by (metis fst_conv prod.inject)+
      then show ?thesis using 1 2 by simp
    qed
  qed
qed

lemma handle_event_handled:
  assumes "handle_event c w ev s = Value (s', st)"
  shows "handled s s'"
proof (cases ev)
  case (PortConnected i j)
  then show ?thesis using assms
    by (auto simp: handle_event_def handled_def turns_def statuses_def c_map_def dest: connection_handled elim!: c_bind.elims)
next
  case (PortDisconnected i j)
  then show ?thesis using assms
    by (auto simp: handle_event_def handled_def turns_def statuses_def c_map_def dest: connection_handled elim!: c_bind.elims)
next
  case (LatencyCallback b)
  then show ?thesis using assms
    by (auto simp: handle_event_def handled_def turns_def statuses_def split: prod.splits dest!: latency_handled)
qed (use assms in \<open>auto simp: handle_event_def handled_def turns_def statuses_def call_if_def jack_handle_reorder_def jack_client_fix_port_buffers_def
       jack_attach_port_segment_def jack_start_freewheel_def jack_stop_freewheel_def jack_client_handle_session_callback_def Let_def
       split: if_splits prod.splits\<close>)

lemma handled_refl [simp]: "handled s s"
  by (simp add: handled_def)

lemma process_events_turns:
  assumes "jack_client_process_events c r s = Value (s', err)"
  shows "turns s' = turns s" "control (shared_mem s') = control (shared_mem s)" "cmem (shared_mem s') = cmem (shared_mem s)"
    "event_bits s' = event_bits s" "wait_bits s' = wait_bits s"
    "err = 0 \<Longrightarrow> length (statuses s') = length (statuses s) + (if pollin (event_bits s) then 1 else 0)"
proof -
  consider "s' = s" "err = 0 \<Longrightarrow> \<not> pollin (event_bits s)"
    | s1 st where "handled s s1" "s' = on_lib (call (SendStatus st)) s1" "pollin (event_bits s)" "err = 0"
    | "handled s s'" "err \<noteq> 0"
    using assms
    by (fastforce simp: jack_client_process_events_def c_map_Value split: if_splits option.splits dest: handle_event_handled)
  then have "turns s' = turns s \<and> control (shared_mem s') = control (shared_mem s) \<and> cmem (shared_mem s') = cmem (shared_mem s) \<and>
    event_bits s' = event_bits s \<and> wait_bits s' = wait_bits s \<and>
    (err = 0 \<longrightarrow> length (statuses s') = length (statuses s) + (if pollin (event_bits s) then 1 else 0))"
    by cases (auto simp: handled_def turns_def statuses_def)
  then show "turns s' = turns s" "control (shared_mem s') = control (shared_mem s)" "cmem (shared_mem s') = cmem (shared_mem s)"
    "event_bits s' = event_bits s" "wait_bits s' = wait_bits s"
    "err = 0 \<Longrightarrow> length (statuses s') = length (statuses s) + (if pollin (event_bits s) then 1 else 0)" by simp_all
qed

lemma turns_lib [simp]:
  "turns (s\<lparr>shared_mem := e\<rparr>) = turns s" "turns (take_bits r s) = turns s" "turns (s\<lparr>lib := lib s\<lparr>graph_wait_fd := a, pollmax := b\<rparr>\<rparr>) = turns s"
  "statuses (s\<lparr>shared_mem := e\<rparr>) = statuses s" "statuses (take_bits r s) = statuses s"
  by (simp_all add: turns_def statuses_def take_bits_def)

lemma turns_note [simp]: "turns (note_wakeup c r s) = turns s" "turns (punt s) = turns s"
  by (simp_all add: note_wakeup_def punt_def)

lemma wait_round_answered:
  assumes "wait_round c r s = Value (s', res)" "answer r = PollAnswered"
    "s2 = note_wakeup c r (take_bits r (s\<lparr>shared_mem := others_write r (shared_mem s)\<rparr>))"
  shows "s' = s2 \<or> (\<exists>err. jack_client_process_events c r (punt s2) = Value (s', err))"
proof (cases "upstream_lost s2 \<and> upstream_is_jackd (lib s2)")
  case True
  then show ?thesis using assms by (simp add: wait_round_def Let_def)
next
  case False
  have "\<exists>s4 err. jack_client_process_events c r (punt s2) = Value (s4, err) \<and> s' = s4"
    using assms(1,2) False by (auto simp: wait_round_def assms(3) [symmetric] Let_def c_map_Value split: if_splits)
  then show ?thesis by blast
qed

lemma wait_round_turns:
  assumes "wait_round c r s = Value (s', res)"
  shows "turns s' = turns s"
proof (cases "answer r")
  case PollAnswered
  define s2 where "s2 = note_wakeup c r (take_bits r (s\<lparr>shared_mem := others_write r (shared_mem s)\<rparr>))"
  have "turns s2 = turns s" by (simp add: s2_def)
  then show ?thesis
    using wait_round_answered [OF assms PollAnswered s2_def] process_events_turns(1) [of c r "punt s2" s'] by auto
qed (use assms in \<open>auto simp: wait_round_def\<close>)

lemma core_wait_turns: "jack_client_core_wait c rs s = Value (s', res) \<Longrightarrow> turns s' = turns s"
proof (induction rs arbitrary: s)
  case (Cons r rs)
  then obtain s1 v where w: "wait_round c r s = Value (s1, v)"
    and "(case v of None \<Rightarrow> jack_client_core_wait c rs s1 | Some x \<Rightarrow> Value (s1, Some x)) = Value (s', res)"
    by (auto simp: c_bind_Value)
  then show ?case using Cons.IH wait_round_turns [OF w] by (auto split: option.splits)
qed simp

lemma wake_turns:
  "jack_wake_next_client w (lib s) = (cl, err) \<Longrightarrow>
     turns (s\<lparr>lib := cl\<rparr>) = turns s @ [False] \<or> turns (s\<lparr>lib := cl\<rparr>) = turns s \<and> err \<noteq> 0"
  by (auto simp: jack_wake_next_client_def turns_def Let_def split: if_splits)

lemma lib_end_cycle [simp]: "lib (end_cycle c w st s) = lib s" "lib (start_cycle c w s) = lib s"
  by (simp_all add: end_cycle_def start_cycle_def Let_def)

lemma turns_end_cycle [simp]: "turns (end_cycle c w st s) = turns s" "turns (start_cycle c w s) = turns s"
  by (simp_all add: turns_def)

lemma thread_wait_turns:
  assumes "jack_thread_wait c w st s = Value (s', res)"
  shows "turns s' = turns s @ [False] \<or> turns s' = turns s \<and> res = Some 0"
proof -
  let ?s1 = "end_cycle c w st s"
  obtain cl err where k: "jack_wake_next_client w (lib ?s1) = (cl, err)" by fastforce
  let ?s2 = "?s1\<lparr>lib := cl\<rparr>"
  have 2: "turns ?s2 = turns s @ [False] \<or> turns ?s2 = turns s \<and> err \<noteq> 0" using wake_turns [OF k] by simp
  consider "s' = ?s2" "res = Some 0" | s3 v where "err = 0" "jack_client_core_wait c (rounds w) ?s2 = Value (s3, v)" "s' = s3 \<or> s' = start_cycle c w s3"
    using assms k by (auto simp: jack_thread_wait_def Let_def c_map_Value simp del: turns_lib split: if_splits option.splits)
  then show ?thesis
  proof cases
    case 1
    then show ?thesis using 2 by auto
  next
    case c: 2
    then show ?thesis using 2 core_wait_turns [OF c(2)] by auto
  qed
qed

lemma process_cycles_turns:
  "process_cycles c ws s = Value (s', ended) \<Longrightarrow> \<exists>ts. turns s' = turns s @ ts \<and> in_turn True ts"
proof (induction ws arbitrary: s)
  case (Cons w ws)
  obtain s1 st where p: "run_process c w s = (s1, st)" by fastforce
  then have t1: "turns s1 = turns s @ [True]" by (auto simp: run_process_def turns_def Let_def)
  obtain s2 res where w: "jack_thread_wait c w st s1 = Value (s2, res)"
    and r: "(case res of None \<Rightarrow> Value (s2, False) | Some n \<Rightarrow> if n = 0 then Value (s2, True) else process_cycles c ws s2) = Value (s', ended)"
    using Cons.prems p by (auto simp: c_bind_Value)
  have t2: "turns s2 = turns s1 @ [False] \<or> turns s2 = turns s1 \<and> res = Some 0" by (rule thread_wait_turns [OF w])
  show ?case
  proof (cases "\<exists>n. res = Some n \<and> n \<noteq> 0")
    case True
    then obtain ts where "turns s' = turns s2 @ ts" "in_turn True ts" using r Cons.IH by force
    then have "turns s' = turns s @ (True # False # ts)" "in_turn True (True # False # ts)" using t1 t2 True by auto
    then show ?thesis by blast
  next
    case False
    then have "s' = s2" using r by (auto split: option.splits)
    then have "turns s' = turns s @ [True, False] \<or> turns s' = turns s @ [True]" using t1 t2 by auto
    moreover have "in_turn True [True, False]" "in_turn True [True]" by simp_all
    ultimately show ?thesis by blast
  qed
qed simp

lemma listen_cycles_turns:
  "listen_cycles c ws s = Value (s', ended) \<Longrightarrow> \<exists>k. turns s' = turns s @ replicate k False"
proof (induction ws arbitrary: s)
  case Nil
  then show ?case by (auto intro: exI [of _ 0])
next
  case (Cons w ws)
  obtain s2 res where w: "jack_thread_wait c w 0 s = Value (s2, res)"
    and r: "(case res of None \<Rightarrow> Value (s2, False) | Some n \<Rightarrow> if n \<noteq> buffer_size (control (shared_mem s2)) then Value (s2, True) else listen_cycles c ws s2) = Value (s', ended)"
    using Cons.prems by (auto simp: c_bind_Value)
  obtain k where k: "turns s2 = turns s @ replicate k False"
    using thread_wait_turns [OF w] by (metis append_Nil2 replicate.simps)
  consider "s' = s2" | "listen_cycles c ws s2 = Value (s', ended)" using r by (auto split: option.splits if_splits)
  then show ?case
  proof cases
    case 1
    then show ?thesis using k by blast
  next
    case 2
    then obtain j where "turns s' = turns s2 @ replicate j False" using Cons.IH by blast
    then have "turns s' = turns s @ replicate (k + j) False" using k by (simp add: replicate_add)
    then show ?thesis by blast
  qed
qed

section \<open>A client that is woken up\<close>

text \<open>A round in which nothing goes wrong, and one that brings a wakeup.\<close>

definition event_sound :: "cptr \<Rightarrow> event_world \<Rightarrow> client_thread \<Rightarrow> jack_event_t \<Rightarrow> bool" where
  "event_sound c w s ev \<longleftrightarrow>
     (case ev of
        GraphReordered n upstream \<Rightarrow> 0 \<le> open_read w n \<and> 0 \<le> open_write w (n + 1)
      | PortConnected i j \<Rightarrow> i < length (ports (shared_mem s)) \<and> j < length (ports (shared_mem s)) \<and> in_use (ports (shared_mem s) ! i)
      | PortDisconnected i j \<Rightarrow> i < length (ports (shared_mem s)) \<and> j < length (ports (shared_mem s)) \<and> in_use (ports (shared_mem s) ! i)
      | AttachPortSegment ptid \<Rightarrow> cl_type (cmem (shared_mem s) c) = ClientExternal
      | _ \<Rightarrow> True)"

definition has_event :: "poll_round \<Rightarrow> bool" where
  "has_event r \<longleftrightarrow> answer r = PollAnswered \<and> pollin (new_event_bits r)"

definition wakes :: "poll_round \<Rightarrow> bool" where
  "wakes r \<longleftrightarrow> answer r = PollAnswered \<and> pollin (new_wait_bits r)"

definition smooth :: "cptr \<Rightarrow> poll_round \<Rightarrow> client_thread \<Rightarrow> bool" where
  "smooth c r s \<longleftrightarrow>
     (let s0 = s\<lparr>shared_mem := others_write r (shared_mem s)\<rparr> in
      answer r \<noteq> PollBroken \<and> \<not> trouble (new_event_bits r) \<and> \<not> trouble (new_wait_bits r) \<and>
      \<not> dead (cmem (shared_mem s0) c) \<and> buffer_size (control (shared_mem s0)) \<noteq> 0 \<and>
      (has_event r \<longrightarrow> status_written r \<and>
        (case event_read r of None \<Rightarrow> False | Some ev \<Rightarrow> event_sound c (handler_world r) s0 ev)))"

text \<open>Smooth rounds up to the first one that brings a wakeup, which ends the list.\<close>

fun attended :: "cptr \<Rightarrow> poll_round list \<Rightarrow> client_thread \<Rightarrow> bool" where
  "attended c [] s \<longleftrightarrow> False"
| "attended c (r # rs) s \<longleftrightarrow>
     smooth c r s \<and>
     (if wakes r then rs = [] else (case wait_round c r s of Value (s1, v) \<Rightarrow> attended c rs s1 | _ \<Rightarrow> True))"

definition joined :: "client_thread \<Rightarrow> bool" where
  "joined s \<longleftrightarrow> 0 \<le> graph_wait_fd (lib s) \<and> 0 \<le> graph_next_fd (lib s) \<and> pollmax (lib s) = 2"

lemma connection_defined:
  assumes "i < length (ports e)" "j < length (ports e)" "in_use (ports e ! i)"
  shows "\<exists>e' cl'. jack_client_handle_port_connection e cl b i j = Value (e', cl')"
proof -
  have n: "\<exists>e1 p. jack_port_new e cl k = Value (e1, p) \<and> length (ports e1) = length (ports e) \<and> in_use (ports e1 ! i)" if "k < length (ports e)" for k
    using that assms(1,3) by (auto simp: jack_port_new_def Let_def upd_port_def nth_list_update)
  have f: "\<exists>e2 f. jack_port_by_id_int e1 cl i = Value (e2, f) \<and> f \<noteq> NoPort" if "i < length (ports e1)" "in_use (ports e1 ! i)" for e1
    using that by (auto simp: jack_port_by_id_int_def jack_port_new_def Let_def split: option.splits)
  obtain e1 p where 1: "jack_port_new e cl j = Value (e1, p)" "length (ports e1) = length (ports e)" "in_use (ports e1 ! i)"
    using n [OF assms(2)] by blast
  obtain e2 f2 where 2: "jack_port_by_id_int e1 cl i = Value (e2, f2)" "f2 \<noteq> NoPort" using f [of e1] 1 assms(1) by auto
  obtain e3 f3 where 3: "jack_port_by_id_int e cl i = Value (e3, f3)" "f3 \<noteq> NoPort" using f [of e] assms by auto
  have "\<exists>e' cl'. connect_own e cl i j = Value (e', cl')" using 1 2 by (cases f2) (simp_all add: connect_own_def)
  moreover have "\<exists>e' cl'. disconnect_own e cl i j = Value (e', cl')" using 3 by (cases f3) (simp_all add: disconnect_own_def)
  ultimately show ?thesis using assms(1,2) by (cases b) (auto simp: jack_client_handle_port_connection_def c_map_Value)
qed

lemma handle_event_joined:
  assumes "handle_event c w ev s = Value (s', st)" "event_sound c w s ev" "joined s"
  shows "joined s'"
proof (cases ev)
  case (PortConnected i j)
  then show ?thesis using assms by (auto simp: handle_event_def joined_def c_map_Value dest: connection_handled)
next
  case (PortDisconnected i j)
  then show ?thesis using assms by (auto simp: handle_event_def joined_def c_map_Value dest: connection_handled)
next
  case (LatencyCallback b)
  then show ?thesis using assms by (auto simp: handle_event_def joined_def split: prod.splits dest!: latency_handled)
qed (use assms in \<open>auto simp: handle_event_def joined_def event_sound_def call_if_def jack_handle_reorder_def jack_client_fix_port_buffers_def
       jack_attach_port_segment_def jack_start_freewheel_def jack_stop_freewheel_def jack_client_handle_session_callback_def Let_def
       split: if_splits prod.splits\<close>)

lemma handle_event_defined:
  assumes "event_sound c w s ev"
  shows "\<exists>s' st. handle_event c w ev s = Value (s', st)"
proof (cases ev)
  case (PortConnected i j)
  then show ?thesis using assms connection_defined [of i "shared_mem s" j "lib s" True]
    by (auto simp: handle_event_def event_sound_def c_map_Value)
next
  case (PortDisconnected i j)
  then show ?thesis using assms connection_defined [of i "shared_mem s" j "lib s" False]
    by (auto simp: handle_event_def event_sound_def c_map_Value)
qed (use assms in \<open>auto simp: handle_event_def event_sound_def jack_attach_port_segment_def Let_def split: prod.splits\<close>)

lemma joined_lib: "lib s' = lib s \<Longrightarrow> joined s' = joined s"
  by (simp add: joined_def)

lemma events_smooth:
  assumes "joined s" "pollin (event_bits s) \<longrightarrow> status_written r \<and> (\<exists>ev. event_read r = Some ev \<and> event_sound c (handler_world r) s ev)"
  shows "\<exists>s'. jack_client_process_events c r s = Value (s', 0) \<and> joined s'"
proof (cases "pollin (event_bits s)")
  case True
  then obtain ev where ev: "event_read r = Some ev" "event_sound c (handler_world r) s ev" "status_written r" using assms(2) by blast
  obtain s1 st where h: "handle_event c (handler_world r) ev s = Value (s1, st)" using handle_event_defined [OF ev(2)] by blast
  have "joined s1" using handle_event_joined [OF h ev(2) assms(1)] .
  then show ?thesis using True ev h by (simp add: jack_client_process_events_def joined_def)
qed (use assms(1) in \<open>simp add: jack_client_process_events_def\<close>)

lemma smooth_round:
  assumes "joined s" "smooth c r s"
  shows "\<exists>s'. wait_round c r s = Value (s', if wakes r then Some 0 else None) \<and> joined s' \<and> turns s' = turns s \<and>
    length (statuses s') = length (statuses s) + (if has_event r then 1 else 0) \<and>
    buffer_size (control (shared_mem s')) \<noteq> 0 \<and> \<not> dead (cmem (shared_mem s') c)"
proof (cases "answer r")
  case PollAnswered
  define s0 where "s0 = s\<lparr>shared_mem := others_write r (shared_mem s)\<rparr>"
  define s2 where "s2 = note_wakeup c r (take_bits r s0)"
  have l: "lib s2 = lib s" by (simp add: s2_def note_wakeup_def take_bits_def s0_def)
  have j2: "joined s2" using joined_lib [OF l] assms(1) by simp
  have bits: "event_bits s2 = new_event_bits r" "wait_bits s2 = new_wait_bits r"
    using assms(1) by (simp_all add: s2_def note_wakeup_def take_bits_def s0_def joined_def)
  have mem: "ports (shared_mem s2) = ports (shared_mem s0)" "control (shared_mem s2) = control (shared_mem s0)"
    "cl_type (cmem (shared_mem s2) c) = cl_type (cmem (shared_mem s0) c)" "dead (cmem (shared_mem s2) c) = dead (cmem (shared_mem s0) c)"
    by (simp_all add: s2_def note_wakeup_def take_bits_def upd_client_def)
  have sm: "\<not> trouble (new_event_bits r)" "\<not> trouble (new_wait_bits r)" "\<not> dead (cmem (shared_mem s0) c)" "buffer_size (control (shared_mem s0)) \<noteq> 0"
    "pollin (new_event_bits r) \<longrightarrow> status_written r \<and> (\<exists>ev. event_read r = Some ev \<and> event_sound c (handler_world r) s0 ev)"
    using assms(2) PollAnswered by (auto simp: smooth_def Let_def s0_def has_event_def split: option.splits)
  have "event_sound c w s2 ev = event_sound c w s0 ev" for w ev by (simp only: event_sound_def mem)
  then obtain s4 where s4: "jack_client_process_events c r s2 = Value (s4, 0)" "joined s4"
    using events_smooth [OF j2, of r c] bits sm(5) by auto
  note p = process_events_turns [OF s4(1)]
  have nl: "\<not> upstream_lost s2" "punt s2 = s2" using bits sm(2) by (simp_all add: upstream_lost_def punt_def)
  have "wait_round c r s = Value (s4, if wakes r then Some 0 else None)"
    using PollAnswered nl s4 p bits sm mem by (simp add: wait_round_def s0_def [symmetric] s2_def [symmetric] Let_def wakes_def joined_def)
  moreover have "turns s4 = turns s" using p(1) by (simp add: s2_def s0_def)
  moreover have "length (statuses s4) = length (statuses s) + (if has_event r then 1 else 0)"
  proof -
    have "statuses s2 = statuses s" using l by (simp add: statuses_def)
    then show ?thesis using p(6) bits PollAnswered by (simp add: has_event_def)
  qed
  ultimately show ?thesis using s4(2) p sm mem by simp
qed (use assms in \<open>auto simp: wait_round_def smooth_def Let_def wakes_def has_event_def joined_def\<close>)

lemma core_wait_attended:
  assumes "joined s" "attended c rs s"
  shows "\<exists>s'. jack_client_core_wait c rs s = Value (s', Some 0) \<and> joined s' \<and> turns s' = turns s \<and>
    length (statuses s') = length (statuses s) + length (filter has_event rs) \<and>
    buffer_size (control (shared_mem s')) \<noteq> 0 \<and> \<not> dead (cmem (shared_mem s') c)"
  using assms
proof (induction rs arbitrary: s)
  case (Cons r rs)
  then have sm: "smooth c r s" by simp
  from smooth_round [OF Cons.prems(1) this] obtain s1 where 1: "wait_round c r s = Value (s1, if wakes r then Some 0 else None)" "joined s1" "turns s1 = turns s"
    "length (statuses s1) = length (statuses s) + (if has_event r then 1 else 0)"
    "buffer_size (control (shared_mem s1)) \<noteq> 0" "\<not> dead (cmem (shared_mem s1) c)" by blast
  show ?case
  proof (cases "wakes r")
    case True
    then show ?thesis using 1 Cons.prems(2) by auto
  next
    case False
    then have "attended c rs s1" using 1 Cons.prems(2) by simp
    from Cons.IH [OF 1(2) this] show ?thesis using 1 False by auto
  qed
qed simp

section \<open>Many cycles\<close>

text \<open>
  The state in which a cycle waits: the callback has run, the next client is woken up. A cycle that goes
  well ends in a wakeup, and the server is there all the time.
\<close>

definition before_wait :: "cptr \<Rightarrow> cycle_input \<Rightarrow> client_thread \<Rightarrow> client_thread" where
  "before_wait c w s =
     (let s1 = end_cycle c w 0 (fst (run_process c w s)) in s1\<lparr>lib := fst (jack_wake_next_client w (lib s1))\<rparr>)"

definition cycle_sound :: "cptr \<Rightarrow> cycle_input \<Rightarrow> client_thread \<Rightarrow> bool" where
  "cycle_sound c w s \<longleftrightarrow>
     process_result w = 0 \<and> buffer_size (control (shared_mem s)) \<noteq> 0 \<and>
     wake_written w \<and> cleanup_read w \<and> engine_ok w \<and> attended c (rounds w) (before_wait c w s)"

fun cycles_sound :: "cptr \<Rightarrow> cycle_input list \<Rightarrow> client_thread \<Rightarrow> bool" where
  "cycles_sound c [] s \<longleftrightarrow> True"
| "cycles_sound c (w # ws) s \<longleftrightarrow>
     cycle_sound c w s \<and>
     (case jack_client_core_wait c (rounds w) (before_wait c w s) of
        Value (s1, v) \<Rightarrow> cycles_sound c ws (start_cycle c w s1) | _ \<Rightarrow> True)"

lemma sync_frame:
  "dead (cmem (jack_call_sync_client e c b) c) = dead (cmem e c)" "buffer_size (control (jack_call_sync_client e c b)) = buffer_size (control e)"
  by (simp_all add: jack_call_sync_client_def Let_def upd_client_def upd_control_def)

lemma timebase_frame:
  "dead (cmem (jack_call_timebase_master f e c) c) = dead (cmem e c)" "buffer_size (control (jack_call_timebase_master f e c)) = buffer_size (control e)"
  by (simp_all add: jack_call_timebase_master_def Let_def upd_client_def upd_control_def)

lemma cycle_frame:
  "dead (cmem (shared_mem (start_cycle c w s)) c) = dead (cmem (shared_mem s) c)"
  "buffer_size (control (shared_mem (start_cycle c w s))) = buffer_size (control (shared_mem s))"
  "dead (cmem (shared_mem (end_cycle c w st s)) c) = dead (cmem (shared_mem s) c)"
  "dead (cmem (shared_mem (fst (run_process c w s))) c) = dead (cmem (shared_mem s) c)"
  by (simp_all add: start_cycle_def end_cycle_def run_process_def Let_def sync_frame timebase_frame upd_client_def)

lemma before_wait_frame:
  assumes "joined s" "wake_written w" "cleanup_read w"
  shows "joined (before_wait c w s)" "dead (cmem (shared_mem (before_wait c w s)) c) = dead (cmem (shared_mem s) c)"
    "buffer_size (control (shared_mem (before_wait c w s))) = buffer_size (control (shared_mem s))"
  using assms
  by (simp_all add: before_wait_def joined_def jack_wake_next_client_def run_process_def end_cycle_def Let_def timebase_frame upd_client_def)

lemma one_cycle:
  assumes "joined s" "\<not> dead (cmem (shared_mem s) c)" "cycle_sound c w s"
  shows "\<exists>s1 s2. jack_client_core_wait c (rounds w) (before_wait c w s) = Value (s1, Some 0) \<and> s2 = start_cycle c w s1 \<and>
    process_cycles c (w # ws) s = process_cycles c ws s2 \<and> joined s2 \<and> \<not> dead (cmem (shared_mem s2) c) \<and>
    buffer_size (control (shared_mem s2)) \<noteq> 0 \<and>
    turns s2 = turns s @ [True, False] \<and> length (statuses s2) = length (statuses s) + length (filter has_event (rounds w))"
proof -
  define p where "p = fst (run_process c w s)"
  have st: "run_process c w s = (p, 0)" using assms(3) by (auto simp: p_def cycle_sound_def run_process_def Let_def)
  have lp: "lib p = call (CallProcess (buffer_size (control (shared_mem s)))) (lib s)" by (simp add: p_def run_process_def Let_def)
  let ?e = "end_cycle c w 0 p"
  define cl where "cl = fst (jack_wake_next_client w (lib ?e))"
  have w: "0 \<le> graph_wait_fd (lib s)" "0 \<le> graph_next_fd (lib s)" "wake_written w" "cleanup_read w"
    using assms(1,3) by (simp_all add: joined_def cycle_sound_def)
  have cl: "jack_wake_next_client w (lib ?e) = (cl, 0)"
    and clf: "graph_wait_fd cl = graph_wait_fd (lib s)" "graph_next_fd cl = graph_next_fd (lib s)" "pollmax cl = pollmax (lib s)"
    and tu: "List.map_filter turn (calls cl) = turns s @ [True, False]"
    and stt: "List.map_filter (\<lambda>x. case x of SendStatus st \<Rightarrow> Some st | _ \<Rightarrow> None) (calls cl) = statuses s"
    using w lp by (simp_all add: cl_def jack_wake_next_client_def Let_def turns_def statuses_def)
  let ?b = "before_wait c w s"
  have b: "?b = ?e\<lparr>lib := cl\<rparr>" using cl by (simp add: before_wait_def p_def Let_def)
  have jb: "joined ?b" using assms(1) clf by (simp add: b joined_def)
  have "\<not> dead (cmem (shared_mem ?b) c)" using assms(2) by (simp add: b cycle_frame p_def)
  from core_wait_attended [OF jb, of c "rounds w"] assms(3) obtain s1 where
    1: "jack_client_core_wait c (rounds w) ?b = Value (s1, Some 0)" "joined s1" "turns s1 = turns ?b"
      "length (statuses s1) = length (statuses ?b) + length (filter has_event (rounds w))"
      "buffer_size (control (shared_mem s1)) \<noteq> 0" "\<not> dead (cmem (shared_mem s1) c)"
    by (auto simp: cycle_sound_def)
  let ?s2 = "start_cycle c w s1"
  have "jack_thread_wait c w 0 p = Value (?s2, Some (buffer_size (control (shared_mem ?s2))))"
    using cl 1(1) \<open>\<not> dead (cmem (shared_mem ?b) c)\<close> assms(3) by (simp add: jack_thread_wait_def Let_def b cycle_sound_def)
  then have "process_cycles c (w # ws) s = process_cycles c ws ?s2"
    using 1(5) by (simp only: process_cycles.simps st prod.case) (simp add: cycle_frame)
  moreover have "joined ?s2" using 1(2) joined_lib [of ?s2 s1] by simp
  moreover have "turns ?s2 = turns s @ [True, False]" using 1(3) tu by (simp add: b turns_def)
  moreover have "length (statuses ?s2) = length (statuses s) + length (filter has_event (rounds w))"
    using 1(4) stt by (simp add: b statuses_def)
  ultimately show ?thesis using 1 by (simp add: cycle_frame)
qed

text \<open>
  C8: A client that has joined the execution chain and is woken up for each cycle, with any events in
  between, runs its process callback once per cycle, wakes up the next client once after each, answers every
  event with one status byte and goes on. This is for cycles in which nothing fails (\<open>cycles_sound\<close>): the callback
  returns 0, the period has frames, the bytes in the FIFOs are written and read, the server is there and does not mark
  the client dead, events are read and answered and name ports that exist, and the wait of each cycle
  ends with a wakeup.
\<close>

theorem woken_client_processes:
  assumes "joined s" "\<not> dead (cmem (shared_mem s) c)" "cycles_sound c ws s"
  shows "\<exists>s'. process_cycles c ws s = Value (s', False) \<and> joined s' \<and>
    turns s' = turns s @ concat (replicate (length ws) [True, False]) \<and>
    length (statuses s') = length (statuses s) + (\<Sum>w\<leftarrow>ws. length (filter has_event (rounds w)))"
  using assms
proof (induction ws arbitrary: s)
  case (Cons w ws)
  then have "cycle_sound c w s" by simp
  from one_cycle [OF Cons.prems(1,2) this, of ws] obtain s1 s2 where
    1: "jack_client_core_wait c (rounds w) (before_wait c w s) = Value (s1, Some 0)" "s2 = start_cycle c w s1"
      "process_cycles c (w # ws) s = process_cycles c ws s2" "joined s2" "\<not> dead (cmem (shared_mem s2) c)"
      "turns s2 = turns s @ [True, False]" "length (statuses s2) = length (statuses s) + length (filter has_event (rounds w))" by blast
  have "cycles_sound c ws s2" using Cons.prems(3) 1(1,2) by simp
  from Cons.IH [OF 1(4,5) this] show ?case using 1(3,6,7) by auto
qed simp

text \<open>A callback that reports an error is not noticed: its result is compared with the number of frames.\<close>

lemma process_error_ignored:
  assumes "process_result w \<noteq> 0" "word_of_int (process_result w) \<noteq> buffer_size (control (shared_mem s))"
  shows "snd (run_process c w s) = 0"
  using assms(2) by (simp add: run_process_def Let_def)

text \<open>What the other processes write while the client waits leaves it its process callback.\<close>

definition leaves_callback :: "cptr \<Rightarrow> poll_round \<Rightarrow> bool" where
  "leaves_callback c r \<longleftrightarrow> (\<forall>e. process_cbset (cmem (others_write r e) c) = process_cbset (cmem e c))"

lemma leaves_callbackD: "leaves_callback c r \<Longrightarrow> process_cbset (cmem (others_write r e) c) = process_cbset (cmem e c)"
  by (simp add: leaves_callback_def)

lemma note_take_callback:
  "process_cbset (cmem (shared_mem (note_wakeup c r (take_bits r s))) c) = process_cbset (cmem (shared_mem s) c)"
  by (simp add: note_wakeup_def take_bits_def upd_client_def)

lemma wait_round_callback:
  assumes "wait_round c r s = Value (s', res)" "leaves_callback c r"
  shows "process_cbset (cmem (shared_mem s') c) = process_cbset (cmem (shared_mem s) c)"
proof (cases "answer r")
  case PollAnswered
  define s2 where "s2 = note_wakeup c r (take_bits r (s\<lparr>shared_mem := others_write r (shared_mem s)\<rparr>))"
  have "s' = s2 \<or> (\<exists>err. jack_client_process_events c r (punt s2) = Value (s', err))"
    by (rule wait_round_answered [OF assms(1) PollAnswered s2_def])
  moreover have "cmem (shared_mem (punt s2)) = cmem (shared_mem s2)" by (simp add: punt_def)
  ultimately have "cmem (shared_mem s') = cmem (shared_mem s2)" using process_events_turns(3) [of c r "punt s2" s'] by metis
  moreover have "process_cbset (cmem (shared_mem s2) c) = process_cbset (cmem (shared_mem s) c)"
    unfolding s2_def note_take_callback by (simp add: leaves_callbackD [OF assms(2)])
  ultimately show ?thesis by simp
next
  case PollInterrupted
  then have "shared_mem s' = others_write r (shared_mem s)" using assms(1) by (auto simp: wait_round_def Let_def)
  then show ?thesis by (simp add: leaves_callbackD [OF assms(2)])
next
  case PollBroken
  then have "shared_mem s' = others_write r (shared_mem s)" using assms(1) by (auto simp: wait_round_def Let_def)
  then show ?thesis by (simp add: leaves_callbackD [OF assms(2)])
qed

lemma core_wait_callback:
  "jack_client_core_wait c rs s = Value (s', res) \<Longrightarrow> \<forall>r \<in> set rs. leaves_callback c r \<Longrightarrow>
   process_cbset (cmem (shared_mem s') c) = process_cbset (cmem (shared_mem s) c)"
proof (induction rs arbitrary: s)
  case (Cons r rs)
  then obtain s1 v where w: "wait_round c r s = Value (s1, v)"
    and "(case v of None \<Rightarrow> jack_client_core_wait c rs s1 | Some x \<Rightarrow> Value (s1, Some x)) = Value (s', res)"
    by (auto simp: c_bind_Value)
  then show ?case using Cons.IH Cons.prems(2) wait_round_callback [OF w] by (auto split: option.splits)
qed simp

text \<open>
  C24: Whatever the server, the other clients and the application do, a client thread with a process
  callback calls it and wakes up the next client strictly in turn, beginning with the callback. The
  thread of a client without a process callback never calls one: it only passes the wakeups on. Whether the
  client has a callback is read from its control block after the first wait; the others are taken not to write this field.
\<close>

theorem process_in_turn:
  assumes "jack_client_thread_aux c rs ws s = Value (s', ended)" "calls (lib s) = []" "\<forall>r \<in> set rs. leaves_callback c r"
  shows "if process_cbset (cmem (shared_mem s) c) then in_turn True (turns s') else \<exists>k. turns s' = replicate k False"
proof -
  define s1 where "s1 = on_lib (\<lambda>cl. call_if (cbset cl CbThreadInit) CallThreadInit cl) s"
  have t1: "turns s1 = []" using assms(2) by (simp add: s1_def turns_def call_if_def)
  obtain s2 res where f: "jack_thread_first_wait c rs s1 = Value (s2, res)"
    and r: "(case res of None \<Rightarrow> Value (s2, False)
        | Some n \<Rightarrow> c_map (\<lambda>(s3, ended). if ended then (jack_client_thread_suicide s3, True) else (s3, False))
              (if n \<noteq> buffer_size (control (shared_mem s2)) then Value (s2, True)
               else if process_cbset (cmem (shared_mem s2) c) then process_cycles c ws s2
               else listen_cycles c ws s2)) = Value (s', ended)"
    using assms(1) by (auto simp: jack_client_thread_aux_def s1_def [symmetric] Let_def c_bind_Value)
  obtain v where v: "jack_client_core_wait c rs s1 = Value (s2, v)" using f by (auto simp: jack_thread_first_wait_def c_map_Value)
  have t2: "turns s2 = []" using core_wait_turns [OF v] t1 by simp
  have p2: "process_cbset (cmem (shared_mem s2) c) = process_cbset (cmem (shared_mem s) c)"
    using core_wait_callback [OF v assms(3)] by (simp add: s1_def)
  have su: "turns (jack_client_thread_suicide x) = turns x" for x by (simp add: jack_client_thread_suicide_def turns_def)
  obtain s3 where s3: "turns s' = turns s3"
    "s3 = s2 \<or> (\<exists>b. if process_cbset (cmem (shared_mem s) c) then process_cycles c ws s2 = Value (s3, b) else listen_cycles c ws s2 = Value (s3, b))"
    using r su p2 by (auto simp: c_map_Value split: option.splits if_splits)
  show ?thesis
  proof (cases "process_cbset (cmem (shared_mem s) c)")
    case True
    then show ?thesis using s3 t2 process_cycles_turns [of c ws s2 s3] by auto
  next
    case False
    then have "\<exists>k. turns s3 = replicate k False"
      using s3(2) t2 listen_cycles_turns [of c ws s2 s3] by (auto intro: exI [of _ 0])
    then show ?thesis using False s3(1) by simp
  qed
qed

section \<open>A run\<close>

text \<open>
  Client \<open>b\<close> is told of a new order of the graph, then woken up, processes, and is told of an overrun and
  woken up again.
\<close>

definition no_bits :: revents where "no_bits = \<lparr>pollin = False, trouble = False\<rparr>"
definition in_bits :: revents where "in_bits = \<lparr>pollin = True, trouble = False\<rparr>"

definition demo_world :: event_world where
  "demo_world = \<lparr>open_read = (\<lambda>n. int n + 20), open_write = (\<lambda>n. int n + 40), attach_ok = True, callback_status = 0, immediate_reply = False\<rparr>"

definition event_round :: "jack_event_t \<Rightarrow> poll_round" where
  "event_round ev = \<lparr>others_write = (\<lambda>e. e), answer = PollAnswered, now = 0, new_event_bits = in_bits, new_wait_bits = no_bits,
     event_read = Some ev, handler_world = demo_world, status_written = True\<rparr>"

definition wake_round :: poll_round where
  "wake_round = \<lparr>others_write = (\<lambda>e. e), answer = PollAnswered, now = 7, new_event_bits = no_bits, new_wait_bits = in_bits,
     event_read = None, handler_world = demo_world, status_written = True\<rparr>"

definition demo_cycle :: "poll_round list \<Rightarrow> cycle_input" where
  "demo_cycle rs = \<lparr>process_result = 0, timebase_result = (\<lambda>st n pos new. pos), end_time = 9, wake_written = True,
     cleanup_ready = True, cleanup_read = True, engine_ok = True, rounds = rs, sync_ready = True\<rparr>"

definition demo_thread :: client_thread where
  "demo_thread = \<lparr>shared_mem = demo_engine, lat_table = demo_ranges,
     lib = demo_lib\<lparr>graph_wait_fd := 20, graph_next_fd := 41, pollmax := 2\<rparr>, event_bits = no_bits, wait_bits = no_bits\<rparr>"

lemmas demo_run = no_bits_def in_bits_def demo_world_def event_round_def wake_round_def demo_cycle_def demo_thread_def demo_lib_def

lemma demo_block: "\<not> dead (cmem demo_engine 2)" "\<not> timebase_cb_cbset (cmem demo_engine 2)" "\<not> sync_cb_cbset (cmem demo_engine 2)"
  "buffer_size (control demo_engine) = 64" "process_cbset (cmem demo_engine 2)"
  by (simp_all add: demo_defs demo_control_def)

lemma demo_attended:
  assumes "joined s" "\<not> dead (cmem (shared_mem s) 2)" "buffer_size (control (shared_mem s)) \<noteq> 0" "ev = XRun \<or> (\<exists>n b. ev = GraphReordered n b)"
  shows "attended 2 [event_round ev, wake_round] s"
proof -
  have "smooth 2 (event_round ev) s" using assms by (auto simp: smooth_def event_round_def in_bits_def no_bits_def event_sound_def demo_world_def)
  moreover have nw: "\<not> wakes (event_round ev)" by (simp add: wakes_def event_round_def no_bits_def)
  moreover have "smooth 2 wake_round s1 \<and> wakes wake_round" if "\<not> dead (cmem (shared_mem s1) 2)" "buffer_size (control (shared_mem s1)) \<noteq> 0" for s1
    using that by (simp add: smooth_def wakes_def wake_round_def in_bits_def no_bits_def has_event_def)
  ultimately show ?thesis using smooth_round [OF assms(1), of 2 "event_round ev"] by auto
qed

lemma demo_cycle_sound:
  assumes "joined s" "\<not> dead (cmem (shared_mem s) 2)" "buffer_size (control (shared_mem s)) \<noteq> 0" "ev = XRun \<or> (\<exists>n b. ev = GraphReordered n b)"
  shows "cycle_sound 2 (demo_cycle [event_round ev, wake_round]) s"
proof -
  let ?b = "before_wait 2 (demo_cycle [event_round ev, wake_round]) s"
  have "attended 2 [event_round ev, wake_round] ?b"
    by (rule demo_attended) (use assms before_wait_frame [of s "demo_cycle [event_round ev, wake_round]" 2] in \<open>simp_all add: demo_cycle_def\<close>)
  then show ?thesis using assms(3) by (simp add: cycle_sound_def demo_cycle_def)
qed

lemma demo_state:
  "joined demo_thread" "\<not> dead (cmem (shared_mem demo_thread) 2)" "buffer_size (control (shared_mem demo_thread)) \<noteq> 0"
  "turns demo_thread = []" "statuses demo_thread = []"
  using demo_block by (simp_all add: joined_def turns_def statuses_def demo_run List.map_filter_def)

lemma demo_sound:
  "cycles_sound 2 [demo_cycle [event_round (GraphReordered 3 False), wake_round], demo_cycle [event_round XRun, wake_round]] demo_thread"
proof -
  let ?w = "demo_cycle [event_round (GraphReordered 3 False), wake_round]"
  have 1: "cycle_sound 2 ?w demo_thread" by (rule demo_cycle_sound) (use demo_state in auto)
  from one_cycle [OF demo_state(1,2) this, of "[]"] obtain s1 where
    s1: "jack_client_core_wait 2 (rounds ?w) (before_wait 2 ?w demo_thread) = Value (s1, Some 0)" and
    s2: "joined (start_cycle 2 ?w s1)" "\<not> dead (cmem (shared_mem (start_cycle 2 ?w s1)) 2)" "buffer_size (control (shared_mem (start_cycle 2 ?w s1))) \<noteq> 0"
    by blast
  have "cycle_sound 2 (demo_cycle [event_round XRun, wake_round]) (start_cycle 2 ?w s1)" by (rule demo_cycle_sound [OF s2]) simp
  then show ?thesis using 1 s1 by (simp del: jack_client_core_wait.simps split: c_result.split)
qed

theorem woken_client_processes_witness:
  "\<exists>s'. process_cycles 2 [demo_cycle [event_round (GraphReordered 3 False), wake_round], demo_cycle [event_round XRun, wake_round]] demo_thread = Value (s', False) \<and>
     turns s' = [True, False, True, False] \<and> length (statuses s') = 2"
  using woken_client_processes [OF demo_state(1,2) demo_sound] demo_state(4,5)
  by (auto simp: has_event_def event_round_def wake_round_def demo_cycle_def in_bits_def no_bits_def)

lemmas run_defs = run_process_def jack_wake_next_client_def wait_round_def note_wakeup_def take_bits_def upstream_lost_def punt_def
  jack_client_process_events_def start_cycle_def end_cycle_def upd_client_def call_if_def call_def c_map_def

text \<open>The first wait of a thread that was not in the chain before: it is told where it stands and woken up.\<close>

theorem process_in_turn_witness:
  "\<exists>s'. jack_client_thread_aux 2 [wake_round] [demo_cycle [wake_round], demo_cycle []] demo_thread = Value (s', False) \<and>
     turns s' = [True, False, True, False] \<and> in_turn True (turns s')"
proof -
  have "\<exists>s'. jack_client_thread_aux 2 [wake_round] [demo_cycle [wake_round], demo_cycle []] demo_thread = Value (s', False) \<and>
     turns s' = [True, False, True, False]"
    by (simp add: jack_client_thread_aux_def jack_thread_first_wait_def jack_thread_wait_def run_defs demo_run demo_block
        turns_def List.map_filter_simps)
  moreover have "calls (lib demo_thread) = []" by (simp add: demo_run)
  moreover have "\<forall>r \<in> set [wake_round]. leaves_callback 2 r" by (simp add: wake_round_def leaves_callback_def)
  moreover have "process_cbset (cmem (shared_mem demo_thread) 2)" using demo_block(5) by (simp add: demo_thread_def)
  ultimately show ?thesis using process_in_turn [of 2 "[wake_round]"] by (metis (no_types, lifting))
qed

section \<open>A wakeup that is not one\<close>

text \<open>
  When the client upstream wrote its byte and died, the FIFO is readable and has lost its writer. The
  thread gives up the FIFO but keeps its \<open>revents\<close>; after a new order arrives in the same round it takes
  them for a wakeup on the new FIFO, which it has never polled.
\<close>

lemma stale_wakeup:
  assumes "answer r = PollAnswered" "pollin (new_wait_bits r)" "trouble (new_wait_bits r)" "joined s" "\<not> upstream_is_jackd (lib s)"
    and "new_event_bits r = \<lparr>pollin = True, trouble = False\<rparr>" "event_read r = Some (GraphReordered n upstream)" "status_written r"
    and "0 \<le> open_read (handler_world r) n" "0 \<le> open_write (handler_world r) (n + 1)" "\<not> dead (cmem (others_write r (shared_mem s)) c)"
  shows "\<exists>s'. wait_round c r s = Value (s', Some 0) \<and> graph_wait_fd (lib s') = open_read (handler_world r) n"
  using assms
  by (simp add: wait_round_def take_bits_def note_wakeup_def upstream_lost_def punt_def joined_def jack_client_process_events_def
      handle_event_def jack_handle_reorder_def call_if_def call_def upd_client_def Let_def)

text \<open>The functions for applications that have a loop of their own keep the turns as well.\<close>

lemma cycle_wait_turns: "jack_cycle_wait c w time s = Value (s', res) \<Longrightarrow> turns s' = turns s"
proof -
  assume "jack_cycle_wait c w time s = Value (s', res)"
  then obtain s3 v where "jack_client_core_wait c (rounds w) s = Value (s3, v)"
    "s' = s3 \<or> s' = start_cycle c w (on_block c (\<lambda>b. b\<lparr>awake_at := time\<rparr>) s3)"
    by (cases "jack_client_core_wait c (rounds w) s") (auto simp: jack_cycle_wait_def Let_def split: option.splits if_splits)
  then show ?thesis using core_wait_turns by auto
qed

lemma cycle_signal_turns:
  assumes "jack_cycle_signal c w status s = (s', goes_on)"
  shows "turns s' = turns s @ [False] \<or> turns s' = turns s \<and> \<not> goes_on"
proof -
  define s1 where "s1 = on_block c (\<lambda>b. b\<lparr>cl_state := Finished\<rparr>) (end_cycle c w status s)"
  obtain cl err where k: "jack_wake_next_client w (lib s1) = (cl, err)" by fastforce
  have "turns s1 = turns s" by (simp add: s1_def)
  moreover have "turns s' = turns (s1\<lparr>lib := cl\<rparr>) \<and> (err \<noteq> 0 \<longrightarrow> \<not> goes_on)"
    using assms k by (auto simp: jack_cycle_signal_def s1_def [symmetric] Let_def jack_client_thread_suicide_def turns_def split: if_splits)
  ultimately show ?thesis using wake_turns [OF k] by auto
qed

end
