(* ===== verification/Client_Chain.thy ===== *)
theory Client_Chain
  imports Client_Thread
begin

text \<open>
  The execution chain as server and clients set it up together: \<open>jack_rechain_graph\<close> numbers the FIFOs, and
  every client opens the two it is told of. Consecutive external clients form a subgraph, which
  the server starts by writing to one FIFO and waits for on another one.
\<close>

definition in_chain :: "jack_client_internal_t \<Rightarrow> bool" where
  "in_chain r \<longleftrightarrow> active r \<and> (process_cbset r \<or> thread_cb_cbset r)"

definition answering :: "jack_engine_t \<Rightarrow> cptr list \<Rightarrow> bool" where
  "answering e cs \<longleftrightarrow> good_io e \<and> (\<forall>c \<in> set cs. \<not> dead (cmem e c) \<and> cl_error (cmem e c) = 0)"

section \<open>Steps of the loop\<close>

abbreviation chain_next :: "cptr list \<Rightarrow> cptr option" where
  "chain_next rest \<equiv> (case rest of [] \<Rightarrow> None | x # _ \<Rightarrow> Some x)"

definition told :: "cptr \<Rightarrow> jack_event_t \<Rightarrow> jack_engine_t \<Rightarrow> jack_engine_t" where
  "told c ev e = e\<lparr>io_pos := Suc (io_pos e), trace := trace e @ [(c, ev)]\<rparr>"

definition external_step :: "jack_engine_t \<Rightarrow> cptr \<Rightarrow> cptr option \<Rightarrow> nat \<Rightarrow> cptr option \<Rightarrow> jack_engine_t" where
  "external_step e c nxt n sg =
     told c (GraphReordered n (sg = None))
       ((case sg of None \<Rightarrow> upd_client c (\<lambda>r. r\<lparr>subgraph_start_fd := fifo_fd e n\<rparr>) | Some s \<Rightarrow> upd_client s (\<lambda>r. r\<lparr>subgraph_wait_fd := -1\<rparr>))
         (upd_client c (\<lambda>r. r\<lparr>execution_order := n, next_client := nxt\<rparr>) e))"

definition internal_step :: "jack_engine_t \<Rightarrow> cptr \<Rightarrow> cptr option \<Rightarrow> nat \<Rightarrow> cptr option \<Rightarrow> jack_engine_t" where
  "internal_step e c nxt n sg =
     told c (GraphReordered n False)
       ((case sg of None \<Rightarrow> id | Some s \<Rightarrow> upd_client s (\<lambda>r. r\<lparr>subgraph_wait_fd := fifo_fd e n\<rparr>))
         (upd_client c (\<lambda>r. r\<lparr>execution_order := n, next_client := nxt\<rparr>) e))"

lemma deliver_told:
  assumes "good_io e" "\<not> dead (cmem e c)" "active (cmem e c)" "cl_error (cmem e c) = 0"
  shows "fst (jack_deliver_event e c ev) = told c ev e"
  using deliver_hears [OF assms] by (simp add: told_def)

lemma dropWhile_none: "dropWhile (\<lambda>_. False) xs = xs"
  by (cases xs) auto

lemma good_io_upd [simp]: "good_io (upd_client c f e) = good_io e" "good_io (told c ev e) = good_io e"
  by (simp_all add: good_io_def upd_client_def told_def)

lemma rechain_external:
  assumes "answering e (c # rest)" "in_chain (cmem e c)" "\<not> jack_client_is_internal (cmem e c)"
  shows "rechain_loop e (c # rest) n sg =
    rechain_loop (external_step e c (chain_next rest) n sg) rest (Suc n) (Some (case sg of None \<Rightarrow> c | Some s \<Rightarrow> s))"
proof -
  let ?e1 = "upd_client c (\<lambda>r. r\<lparr>execution_order := n, next_client := chain_next rest\<rparr>) e"
  have a: "active (cmem e c)" "process_cbset (cmem e c) \<or> thread_cb_cbset (cmem e c)" using assms(2) by (auto simp: in_chain_def)
  have g: "good_io e" "\<not> dead (cmem e c)" "cl_error (cmem e c) = 0" using assms(1) by (auto simp: answering_def)
  have d: "fst (jack_deliver_event (upd_client s f ?e1) c ev) = told c ev (upd_client s f ?e1)"
    if "\<And>r. dead (f r) = dead r" "\<And>r. active (f r) = active r" "\<And>r. cl_error (f r) = cl_error r" for s f ev
    by (rule deliver_told) (use g a that in \<open>auto simp: upd_client_def good_io_def\<close>)
  show ?thesis using a assms(3)
    by (cases sg) (auto simp: external_step_def Let_def dropWhile_none d)
qed

lemma rechain_internal:
  assumes "answering e (c # rest)" "in_chain (cmem e c)" "jack_client_is_internal (cmem e c)"
  shows "rechain_loop e (c # rest) n sg =
    rechain_loop (internal_step e c (chain_next rest) n sg) rest (case sg of None \<Rightarrow> n | Some s \<Rightarrow> Suc n) None"
proof -
  let ?e1 = "upd_client c (\<lambda>r. r\<lparr>execution_order := n, next_client := chain_next rest\<rparr>) e"
  have a: "active (cmem e c)" "process_cbset (cmem e c) \<or> thread_cb_cbset (cmem e c)" using assms(2) by (auto simp: in_chain_def)
  have g: "good_io e" "\<not> dead (cmem e c)" "cl_error (cmem e c) = 0" using assms(1) by (auto simp: answering_def)
  have d1: "fst (jack_deliver_event ?e1 c ev) = told c ev ?e1" for ev
    by (rule deliver_told) (use g a in \<open>auto simp: upd_client_def good_io_def\<close>)
  have d2: "fst (jack_deliver_event (upd_client s f ?e1) c ev) = told c ev (upd_client s f ?e1)"
    if "\<And>r. dead (f r) = dead r" "\<And>r. active (f r) = active r" "\<And>r. cl_error (f r) = cl_error r" for s f ev
    by (rule deliver_told) (use g a that in \<open>auto simp: upd_client_def good_io_def\<close>)
  show ?thesis using a assms(3)
    by (cases sg) (auto simp: internal_step_def Let_def dropWhile_none d1 d2)
qed

lemma rechain_skip: "\<not> in_chain (cmem e c) \<Longrightarrow> rechain_loop e (c # rest) n sg = rechain_loop e rest n sg"
  by (auto simp: in_chain_def Let_def)

section \<open>What the loop keeps\<close>

text \<open>The part of a client that decides its place in the chain, and what else the loop leaves alone.\<close>

definition role :: "jack_client_internal_t \<Rightarrow> bool \<times> bool \<times> bool \<times> int" where
  "role r = (in_chain r, jack_client_is_internal r, dead r, cl_error r)"

definition chained :: "cptr list \<Rightarrow> cptr option \<Rightarrow> jack_engine_t \<Rightarrow> jack_engine_t \<Rightarrow> bool" where
  "chained cs sg e e' \<longleftrightarrow> (\<forall>c. role (cmem e' c) = role (cmem e c)) \<and> good_io e' = good_io e \<and> fifo_fd e' = fifo_fd e \<and>
     (\<forall>c. c \<notin> set cs \<longrightarrow> execution_order (cmem e' c) = execution_order (cmem e c) \<and> subgraph_start_fd (cmem e' c) = subgraph_start_fd (cmem e c) \<and>
        (sg \<noteq> Some c \<longrightarrow> subgraph_wait_fd (cmem e' c) = subgraph_wait_fd (cmem e c))) \<and>
     (\<exists>tr. trace e' = trace e @ tr \<and> fst ` set tr \<subseteq> set cs)"

lemma chained_refl [simp]: "chained cs sg e e"
  by (simp add: chained_def)

lemma chained_trans:
  assumes "chained as sg e e1" "chained bs sg' e1 e2" "sg' = sg \<or> sg' = None \<or> (\<exists>s \<in> set as. sg' = Some s)"
  shows "chained (as @ bs) sg e e2"
proof -
  obtain t1 where t1: "trace e1 = trace e @ t1" "fst ` set t1 \<subseteq> set as" using assms(1) by (auto simp: chained_def)
  obtain t2 where t2: "trace e2 = trace e1 @ t2" "fst ` set t2 \<subseteq> set bs" using assms(2) by (auto simp: chained_def)
  have "trace e2 = trace e @ (t1 @ t2)" "fst ` set (t1 @ t2) \<subseteq> set (as @ bs)" using t1 t2 by auto
  then have "\<exists>tr. trace e2 = trace e @ tr \<and> fst ` set tr \<subseteq> set (as @ bs)" by blast
  moreover have "execution_order (cmem e2 c) = execution_order (cmem e c) \<and> subgraph_start_fd (cmem e2 c) = subgraph_start_fd (cmem e c) \<and>
        (sg \<noteq> Some c \<longrightarrow> subgraph_wait_fd (cmem e2 c) = subgraph_wait_fd (cmem e c))" if "c \<notin> set (as @ bs)" for c
    using that assms by (auto simp: chained_def)
  ultimately show ?thesis using assms(1,2) by (simp add: chained_def)
qed

lemma chained_steps:
  "chained [c] sg e (external_step e c nxt n sg)" "chained [c] sg e (internal_step e c nxt n sg)"
  by (cases sg; simp add: chained_def external_step_def internal_step_def told_def upd_client_def role_def in_chain_def
      jack_client_is_internal_def good_io_def)+

lemma answering_chained: "chained as sg e e' \<Longrightarrow> answering e cs \<Longrightarrow> answering e' cs"
  by (auto simp: chained_def answering_def role_def)

lemma role_in_chain: "role a = role b \<Longrightarrow> in_chain a = in_chain b \<and> jack_client_is_internal a = jack_client_is_internal b"
  by (simp add: role_def)

abbreviation chain_of :: "jack_engine_t \<Rightarrow> cptr list \<Rightarrow> cptr list" where
  "chain_of e cs \<equiv> filter (\<lambda>c. in_chain (cmem e c)) cs"

lemma chain_of_chained: "chained as sg e e' \<Longrightarrow> chain_of e' cs = chain_of e cs"
  by (rule filter_cong) (simp_all add: chained_def role_def)

section \<open>Prefix, subgraph and rest\<close>

text \<open>The loop over a prefix of the list; when its last client in the chain is internal, no subgraph is open after it.\<close>

lemma loop_prefix:
  assumes "answering e (xs @ ys)"
  shows "\<exists>e1 n1 s1. rechain_loop e (xs @ ys) n sg = rechain_loop e1 ys n1 s1 \<and> chained xs sg e e1 \<and>
    (s1 = sg \<or> s1 = None \<or> (\<exists>s \<in> set xs. s1 = Some s)) \<and>
    (chain_of e xs = [] \<longrightarrow> s1 = sg \<and> e1 = e \<and> n1 = n) \<and>
    (chain_of e xs \<noteq> [] \<and> jack_client_is_internal (cmem e (last (chain_of e xs))) \<longrightarrow> s1 = None)"
  using assms
proof (induction xs arbitrary: e n sg)
  case Nil
  then show ?case by (intro exI [of _ e] exI [of _ n] exI [of _ sg]) simp
next
  case (Cons c xs)
  show ?case
  proof (cases "in_chain (cmem e c)")
    case False
    have "answering e (xs @ ys)" using Cons.prems by (simp add: answering_def)
    from Cons.IH [OF this, of n sg] obtain e1 n1 s1 where 1: "rechain_loop e (xs @ ys) n sg = rechain_loop e1 ys n1 s1" "chained xs sg e e1"
      "s1 = sg \<or> s1 = None \<or> (\<exists>s \<in> set xs. s1 = Some s)" "chain_of e xs = [] \<longrightarrow> s1 = sg \<and> e1 = e \<and> n1 = n"
      "chain_of e xs \<noteq> [] \<and> jack_client_is_internal (cmem e (last (chain_of e xs))) \<longrightarrow> s1 = None" by blast
    have "chained (c # xs) sg e e1" using chained_trans [OF chained_refl [of "[c]" sg e] 1(2)] by simp
    then show ?thesis using 1 False rechain_skip [OF False]
      by (intro exI [of _ e1] exI [of _ n1] exI [of _ s1]) auto
  next
    case True
    define i where "i = jack_client_is_internal (cmem e c)"
    define nx where "nx = chain_next (xs @ ys)"
    define e0 where "e0 = (if i then internal_step e c nx n sg else external_step e c nx n sg)"
    define n0 where "n0 = (if i then (case sg of None \<Rightarrow> n | Some s \<Rightarrow> Suc n) else Suc n)"
    define s0 where "s0 = (if i then None else Some (case sg of None \<Rightarrow> c | Some s \<Rightarrow> s))"
    have st: "rechain_loop e (c # xs @ ys) n sg = rechain_loop e0 (xs @ ys) n0 s0"
      using rechain_internal [OF _ True, of "xs @ ys" n sg] rechain_external [OF _ True, of "xs @ ys" n sg] Cons.prems
      by (simp add: i_def nx_def e0_def n0_def s0_def)
    have c0: "chained [c] sg e e0" using chained_steps [of c sg e nx n] by (simp add: e0_def)
    have so: "s0 = sg \<or> s0 = None \<or> s0 = Some c" by (cases sg) (auto simp: s0_def)
    have "answering e0 (xs @ ys)" using answering_chained [OF c0 Cons.prems] by (simp add: answering_def)
    from Cons.IH [OF this, of n0 s0] obtain e1 n1 s1 where 1: "rechain_loop e0 (xs @ ys) n0 s0 = rechain_loop e1 ys n1 s1" "chained xs s0 e0 e1"
      "s1 = s0 \<or> s1 = None \<or> (\<exists>s \<in> set xs. s1 = Some s)" "chain_of e0 xs = [] \<longrightarrow> s1 = s0 \<and> e1 = e0 \<and> n1 = n0"
      "chain_of e0 xs \<noteq> [] \<and> jack_client_is_internal (cmem e0 (last (chain_of e0 xs))) \<longrightarrow> s1 = None" by blast
    have "chained (c # xs) sg e e1" using chained_trans [OF c0 1(2)] so by auto
    moreover have "jack_client_is_internal (cmem e0 x) = jack_client_is_internal (cmem e x)" for x
      using c0 by (auto simp: chained_def role_def)
    then have "jack_client_is_internal (cmem e (last (chain_of e (c # xs)))) \<longrightarrow> s1 = None"
      using 1(4,5) True chain_of_chained [OF c0] by (auto simp: s0_def i_def)
    ultimately show ?thesis using 1(1,3) st True so by (intro exI [of _ e1] exI [of _ n1] exI [of _ s1]) auto
  qed
qed

text \<open>The loop over clients of a subgraph that is open already.\<close>

lemma loop_members:
  assumes "answering e (seg @ ys)" "\<forall>c \<in> set (chain_of e seg). \<not> jack_client_is_internal (cmem e c)" "distinct seg" "s \<notin> set seg"
  shows "\<exists>e1. rechain_loop e (seg @ ys) n (Some s) = rechain_loop e1 ys (n + length (chain_of e seg)) (Some s) \<and> chained seg (Some s) e e1 \<and>
    (\<forall>i < length (chain_of e seg). execution_order (cmem e1 (chain_of e seg ! i)) = n + i) \<and>
    trace e1 = trace e @ map (\<lambda>i. (chain_of e seg ! i, GraphReordered (n + i) False)) [0..<length (chain_of e seg)]"
  using assms
proof (induction seg arbitrary: e n)
  case Nil
  then show ?case by (intro exI [of _ e]) simp
next
  case (Cons c seg)
  show ?case
  proof (cases "in_chain (cmem e c)")
    case False
    have "answering e (seg @ ys)" using Cons.prems(1) by (simp add: answering_def)
    from Cons.IH [OF this, of n] Cons.prems False obtain e1 where
      1: "rechain_loop e (seg @ ys) n (Some s) = rechain_loop e1 ys (n + length (chain_of e seg)) (Some s)" "chained seg (Some s) e e1"
        "\<forall>i < length (chain_of e seg). execution_order (cmem e1 (chain_of e seg ! i)) = n + i"
        "trace e1 = trace e @ map (\<lambda>i. (chain_of e seg ! i, GraphReordered (n + i) False)) [0..<length (chain_of e seg)]" by auto
    have "chained (c # seg) (Some s) e e1" using chained_trans [OF chained_refl [of "[c]" "Some s" e] 1(2)] by simp
    then show ?thesis using 1 False rechain_skip [OF False] by (intro exI [of _ e1]) simp
  next
    case True
    define e0 where "e0 = external_step e c (chain_next (seg @ ys)) n (Some s)"
    have nint: "\<not> jack_client_is_internal (cmem e c)" using Cons.prems(2) True by simp
    have st: "rechain_loop e (c # seg @ ys) n (Some s) = rechain_loop e0 (seg @ ys) (Suc n) (Some s)"
      using rechain_external [OF _ True nint, of "seg @ ys" n "Some s"] Cons.prems(1) by (simp add: e0_def)
    have c0: "chained [c] (Some s) e e0" unfolding e0_def by (rule chained_steps)
    have ch: "chain_of e0 seg = chain_of e seg" by (rule chain_of_chained [OF c0])
    have ans: "answering e0 (seg @ ys)" using answering_chained [OF c0 Cons.prems(1)] by (simp add: answering_def)
    have "\<forall>c \<in> set (chain_of e0 seg). \<not> jack_client_is_internal (cmem e0 c)"
      using Cons.prems(2) c0 ch by (auto simp: chained_def role_def)
    from Cons.IH [OF ans this, of "Suc n"] Cons.prems(3,4) obtain e1 where
      1: "rechain_loop e0 (seg @ ys) (Suc n) (Some s) = rechain_loop e1 ys (Suc n + length (chain_of e seg)) (Some s)" "chained seg (Some s) e0 e1"
        "\<forall>i < length (chain_of e seg). execution_order (cmem e1 (chain_of e seg ! i)) = Suc n + i"
        "trace e1 = trace e0 @ map (\<lambda>i. (chain_of e seg ! i, GraphReordered (Suc n + i) False)) [0..<length (chain_of e seg)]"
      using ch by auto
    have "chained (c # seg) (Some s) e e1" using chained_trans [OF c0 1(2)] by simp
    moreover have "execution_order (cmem e1 c) = n"
    proof -
      have "execution_order (cmem e1 c) = execution_order (cmem e0 c)" using 1(2) Cons.prems(3) by (simp add: chained_def)
      then show ?thesis using Cons.prems(4) by (auto simp: e0_def external_step_def told_def upd_client_def)
    qed
    then have "\<forall>i < length (chain_of e (c # seg)). execution_order (cmem e1 (chain_of e (c # seg) ! i)) = n + i"
      using 1(3) True by (auto simp: nth_Cons' less_Suc_eq_0_disj)
    moreover have "trace e1 = trace e @ map (\<lambda>i. (chain_of e (c # seg) ! i, GraphReordered (n + i) False)) [0..<length (chain_of e (c # seg))]"
      using 1(4) True by (simp add: e0_def external_step_def told_def upt_conv_Cons map_Suc_upt [symmetric] del: upt_Suc)
    ultimately show ?thesis using st 1(1) True by (intro exI [of _ e1]) simp
  qed
qed

text \<open>A subgraph from its first client on.\<close>

lemma loop_subgraph:
  assumes "answering e (seg @ ys)" "chain_of e seg = s # ms" "\<forall>c \<in> set (s # ms). \<not> jack_client_is_internal (cmem e c)" "distinct seg"
  shows "\<exists>e1. rechain_loop e (seg @ ys) n None = rechain_loop e1 ys (n + length (s # ms)) (Some s) \<and> chained seg None e e1 \<and>
    subgraph_start_fd (cmem e1 s) = fifo_fd e n \<and>
    (\<forall>i < length (s # ms). execution_order (cmem e1 ((s # ms) ! i)) = n + i) \<and>
    trace e1 = trace e @ map (\<lambda>i. ((s # ms) ! i, GraphReordered (n + i) (i = 0))) [0..<length (s # ms)]"
proof -
  obtain as bs where seg: "seg = as @ s # bs" "chain_of e as = []" "in_chain (cmem e s)" "chain_of e bs = ms"
    using assms(2) by (auto simp: filter_eq_Cons_iff filter_empty_conv)
  obtain e' n' s' where "rechain_loop e (as @ s # bs @ ys) n None = rechain_loop e' (s # bs @ ys) n' s'" "s' = None \<and> e' = e \<and> n' = n"
    using loop_prefix [of e as "s # bs @ ys" n None] assms(1) seg by auto
  then have 0: "rechain_loop e (seg @ ys) n None = rechain_loop e (s # bs @ ys) n None" using seg(1) by simp
  define e0 where "e0 = external_step e s (chain_next (bs @ ys)) n None"
  have a: "answering e (s # bs @ ys)" using assms(1) seg(1) by (auto simp: answering_def)
  have 1: "rechain_loop e (s # bs @ ys) n None = rechain_loop e0 (bs @ ys) (Suc n) (Some s)"
    using rechain_external [OF a seg(3), of n None] assms(3) by (simp add: e0_def)
  have c0: "chained [s] None e e0" unfolding e0_def by (rule chained_steps)
  have ch: "chain_of e0 bs = ms" using chain_of_chained [OF c0] seg(4) by simp
  have "answering e0 (bs @ ys)" using answering_chained [OF c0 a] by (simp add: answering_def)
  moreover have "\<forall>c \<in> set (chain_of e0 bs). \<not> jack_client_is_internal (cmem e0 c)"
    using assms(3) c0 unfolding ch by (auto simp: chained_def role_def)
  moreover have "distinct bs" "s \<notin> set bs" using assms(4) seg(1) by auto
  ultimately obtain e1 where
    2: "rechain_loop e0 (bs @ ys) (Suc n) (Some s) = rechain_loop e1 ys (Suc n + length ms) (Some s)" "chained bs (Some s) e0 e1"
      "\<forall>i < length ms. execution_order (cmem e1 (ms ! i)) = Suc n + i"
      "trace e1 = trace e0 @ map (\<lambda>i. (ms ! i, GraphReordered (Suc n + i) False)) [0..<length ms]"
    using loop_members [of e0 bs ys s "Suc n"] ch by auto
  have "chained (s # bs) None e e1" using chained_trans [OF c0 2(2)] by simp
  then have c1: "chained seg None e e1" using chained_trans [OF chained_refl [of as None e]] seg(1) by simp
  have s: "execution_order (cmem e1 s) = n" "subgraph_start_fd (cmem e1 s) = fifo_fd e n"
    using 2(2) \<open>s \<notin> set bs\<close> by (simp_all add: chained_def e0_def external_step_def told_def upd_client_def)
  have "\<forall>i < length (s # ms). execution_order (cmem e1 ((s # ms) ! i)) = n + i"
    using 2(3) s(1) by (auto simp: nth_Cons' less_Suc_eq_0_disj)
  moreover have "trace e1 = trace e @ map (\<lambda>i. ((s # ms) ! i, GraphReordered (n + i) (i = 0))) [0..<length (s # ms)]"
    using 2(4) by (simp add: e0_def external_step_def told_def upt_conv_Cons map_Suc_upt [symmetric] del: upt_Suc)
  ultimately show ?thesis using 0 1 2(1) c1 s(2) by (intro exI [of _ e1]) simp
qed

text \<open>The end of \<open>jack_rechain_graph\<close>: the last subgraph is closed.\<close>

definition close_chain :: "jack_engine_t \<times> nat \<times> cptr option \<Rightarrow> jack_engine_t" where
  "close_chain r =
     (case r of (e, n, sg) \<Rightarrow>
        case sg of None \<Rightarrow> e | Some s \<Rightarrow> upd_client s (\<lambda>r. r\<lparr>subgraph_wait_fd := fifo_fd e n\<rparr>) e)"

lemma rechain_close: "jack_rechain_graph e = close_chain (rechain_loop e (clients e) 0 None)"
  by (simp add: jack_rechain_graph_def close_chain_def split: prod.splits)

lemma close_frame:
  "execution_order (cmem (close_chain (e, n, sg)) c) = execution_order (cmem e c)"
  "subgraph_start_fd (cmem (close_chain (e, n, sg)) c) = subgraph_start_fd (cmem e c)"
  "sg \<noteq> Some c \<Longrightarrow> subgraph_wait_fd (cmem (close_chain (e, n, sg)) c) = subgraph_wait_fd (cmem e c)"
  "trace (close_chain (e, n, sg)) = trace e"
  by (auto simp: close_chain_def upd_client_def split: option.splits)

lemma loop_rest:
  assumes "answering e ys" "s \<notin> set ys" "chain_of e ys = [] \<or> jack_client_is_internal (cmem e (hd (chain_of e ys)))"
  shows "subgraph_wait_fd (cmem (close_chain (rechain_loop e ys n (Some s))) s) = fifo_fd e n"
proof (cases "chain_of e ys")
  case Nil
  then show ?thesis using loop_prefix [of e ys "[]" n "Some s"] assms(1) by (auto simp: close_chain_def upd_client_def)
next
  case (Cons y zs)
  then obtain as bs where ys: "ys = as @ y # bs" "chain_of e as = []" "in_chain (cmem e y)"
    by (auto simp: filter_eq_Cons_iff filter_empty_conv)
  obtain e' n' s' where "rechain_loop e (as @ y # bs) n (Some s) = rechain_loop e' (y # bs) n' s'" "s' = Some s \<and> e' = e \<and> n' = n"
    using loop_prefix [of e as "y # bs" n "Some s"] assms(1) ys by auto
  then have 0: "rechain_loop e ys n (Some s) = rechain_loop e (y # bs) n (Some s)" using ys(1) by simp
  define e0 where "e0 = internal_step e y (chain_next bs) n (Some s)"
  have a: "answering e (y # bs)" using assms(1) ys(1) by (auto simp: answering_def)
  have 1: "rechain_loop e (y # bs) n (Some s) = rechain_loop e0 bs (Suc n) None"
    using rechain_internal [OF a ys(3), of n "Some s"] assms(3) Cons by (simp add: e0_def)
  have c0: "chained [y] (Some s) e e0" unfolding e0_def by (rule chained_steps)
  have "answering e0 (bs @ [])" using answering_chained [OF c0 a] by (simp add: answering_def)
  from loop_prefix [OF this, of "Suc n" None] obtain e1 n1 s1 where
    2: "rechain_loop e0 bs (Suc n) None = (e1, n1, s1)" "chained bs None e0 e1" "s1 = None \<or> (\<exists>s \<in> set bs. s1 = Some s)" by auto
  have "s \<notin> set bs" "s \<noteq> y" using assms(2) ys(1) by auto
  then have "subgraph_wait_fd (cmem (close_chain (e1, n1, s1)) s) = subgraph_wait_fd (cmem e1 s)"
    using 2(3) by (intro close_frame(3)) auto
  moreover have "subgraph_wait_fd (cmem e1 s) = subgraph_wait_fd (cmem e0 s)" using 2(2) \<open>s \<notin> set bs\<close> by (simp add: chained_def)
  moreover have "subgraph_wait_fd (cmem e0 s) = fifo_fd e n" using \<open>s \<noteq> y\<close> by (simp add: e0_def internal_step_def told_def upd_client_def)
  ultimately show ?thesis using 0 1 2(1) by simp
qed

section \<open>The chain\<close>

lemma filter_eq_append:
  "filter P zs = xs @ ys \<Longrightarrow> \<exists>as bs. zs = as @ bs \<and> filter P as = xs \<and> filter P bs = ys"
proof (induction zs arbitrary: xs)
  case (Cons z zs)
  show ?case
  proof (cases "P z \<and> xs \<noteq> []")
    case True
    then obtain xs' where "xs = z # xs'" "filter P zs = xs' @ ys" using Cons.prems by (cases xs) auto
    then show ?thesis using Cons.IH [of xs'] True by (metis append_Cons filter.simps(2))
  next
    case False
    show ?thesis
    proof (cases "xs = []")
      case True
      then show ?thesis using Cons.prems by (intro exI [of _ "[]"] exI [of _ "z # zs"]) simp
    next
      case nx: False
      then have "\<not> P z" using False by blast
      then show ?thesis using Cons.IH [of xs] Cons.prems by (metis append_Cons filter.simps(2))
    qed
  qed
qed simp

definition orders_for :: "cptr \<Rightarrow> (cptr \<times> jack_event_t) list \<Rightarrow> jack_event_t list" where
  "orders_for c tr = map snd (filter (\<lambda>x. fst x = c) tr)"

definition take_order :: "event_world \<Rightarrow> jack_event_t \<Rightarrow> jack_client_t \<Rightarrow> jack_client_t" where
  "take_order w ev cl = (case ev of GraphReordered n upstream \<Rightarrow> fst (jack_handle_reorder w n upstream cl) | _ \<Rightarrow> cl)"

lemma take_order_fds:
  assumes "0 \<le> open_read w n" "0 \<le> open_write w (n + 1)"
  shows "graph_wait_fd (take_order w (GraphReordered n b) cl) = open_read w n \<and>
    graph_next_fd (take_order w (GraphReordered n b) cl) = open_write w (n + 1) \<and> upstream_is_jackd (take_order w (GraphReordered n b) cl) = b"
  using assms by (simp add: take_order_def jack_handle_reorder_def call_if_def call_def Let_def)

lemma orders_for_append: "orders_for c (xs @ ys) = orders_for c xs @ orders_for c ys"
  by (simp add: orders_for_def)

lemma orders_for_other: "c \<notin> fst ` set tr \<Longrightarrow> orders_for c tr = []"
  by (auto simp: orders_for_def filter_empty_conv)

lemma orders_for_one:
  assumes "distinct ms" "i < length ms"
  shows "orders_for (ms ! i) (map (\<lambda>i. (ms ! i, f i)) [0..<length ms]) = [f i]"
proof -
  have "filter (\<lambda>j. ms ! j = ms ! i) [0..<length ms] = filter (\<lambda>j. j = i) [0..<length ms]"
    using assms by (intro filter_cong) (auto simp: nth_eq_iff_index_eq)
  also have "\<dots> = [i]"
  proof -
    have u: "[0..<length ms] = [0..<i] @ i # [Suc i..<length ms]"
      using assms(2) upt_add_eq_append [of 0 i "length ms - i"] by (simp add: upt_conv_Cons)
    have "filter (\<lambda>j. j = i) [0..<i] = []" "filter (\<lambda>j. j = i) [Suc i..<length ms] = []" by (auto simp: filter_empty_conv)
    then show ?thesis unfolding u by simp
  qed
  finally show ?thesis by (simp add: orders_for_def filter_map comp_def)
qed

text \<open>
  C9: After the server has put the clients in a new order and every client has handled the
  event it got, the FIFOs join each run of external clients: the server starts it on the FIFO that the
  first one waits on, each client wakes up the one after it, and the server waits for the last one; only the
  first one takes the server for its upstream.
\<close>

theorem chain_is_joined:
  assumes "answering e (clients e)" "distinct (clients e)" "chain_of e (clients e) = xs @ seg @ ys" "seg \<noteq> []"
    and "\<forall>c \<in> set seg. \<not> jack_client_is_internal (cmem e c)"
    and "xs = [] \<or> jack_client_is_internal (cmem e (last xs))" "ys = [] \<or> jack_client_is_internal (cmem e (hd ys))"
    and "\<forall>k. 0 \<le> open_read w k \<and> 0 \<le> open_write w k"
  shows "\<exists>n tr. trace (jack_rechain_graph e) = trace e @ tr \<and>
    subgraph_start_fd (cmem (jack_rechain_graph e) (hd seg)) = fifo_fd e n \<and>
    subgraph_wait_fd (cmem (jack_rechain_graph e) (hd seg)) = fifo_fd e (n + length seg) \<and>
    (\<forall>i < length seg. \<forall>cl.
       let cl' = fold (take_order w) (orders_for (seg ! i) tr) cl in
       graph_wait_fd cl' = open_read w (n + i) \<and> graph_next_fd cl' = open_write w (n + i + 1) \<and> upstream_is_jackd cl' = (i = 0))"
proof -
  obtain as rs where 1: "clients e = as @ rs" "chain_of e as = xs" "chain_of e rs = seg @ ys"
    using filter_eq_append [OF assms(3)] by blast
  obtain bs ds where 2: "rs = bs @ ds" "chain_of e bs = seg" "chain_of e ds = ys"
    using filter_eq_append [OF 1(3)] by blast
  obtain s ms where seg: "seg = s # ms" using assms(4) by (cases seg) auto
  have dist: "distinct bs" "set as \<inter> set bs = {}" "set bs \<inter> set ds = {}" using assms(2) 1(1) 2(1) by auto
  have mem: "set seg \<subseteq> set bs" "distinct seg" using 2(2) dist(1) by auto
  obtain e1 n s1 where p: "rechain_loop e (as @ bs @ ds) 0 None = rechain_loop e1 (bs @ ds) n s1" "chained as None e e1"
    "chain_of e as = [] \<longrightarrow> s1 = None" "chain_of e as \<noteq> [] \<and> jack_client_is_internal (cmem e (last (chain_of e as))) \<longrightarrow> s1 = None"
    using loop_prefix [of e as "bs @ ds" 0 None] assms(1) 1(1) 2(1) by auto
  have "s1 = None" using p(3,4) 1(2) assms(6) by auto
  have ch: "chain_of e1 cs = chain_of e cs" for cs by (rule chain_of_chained [OF p(2)])
  have same: "jack_client_is_internal (cmem e1 c) = jack_client_is_internal (cmem e c)" for c using p(2) by (auto simp: chained_def role_def)
  have a1: "answering e1 (bs @ ds)" using answering_chained [OF p(2) assms(1)] 1(1) 2(1) by (auto simp: answering_def)
  obtain e2 where q: "rechain_loop e1 (bs @ ds) n None = rechain_loop e2 ds (n + length seg) (Some s)" "chained bs None e1 e2"
    "subgraph_start_fd (cmem e2 s) = fifo_fd e1 n"
    "trace e2 = trace e1 @ map (\<lambda>i. (seg ! i, GraphReordered (n + i) (i = 0))) [0..<length seg]"
    using loop_subgraph [OF a1, of s ms n] ch 2(2) seg same assms(5) dist(1) by auto
  have ch2: "chain_of e2 cs = chain_of e cs" for cs using chain_of_chained [OF q(2)] ch by simp
  have same2: "jack_client_is_internal (cmem e2 c) = jack_client_is_internal (cmem e c)" for c using q(2) same by (auto simp: chained_def role_def)
  have a2: "answering e2 (ds @ [])" using answering_chained [OF q(2) a1] by (auto simp: answering_def)
  obtain e3 n3 s3 where r: "rechain_loop e2 ds (n + length seg) (Some s) = (e3, n3, s3)" "chained ds (Some s) e2 e3"
    using loop_prefix [OF a2, of "n + length seg" "Some s"] by auto
  have whole: "jack_rechain_graph e = close_chain (e3, n3, s3)" using p(1) q(1) r(1) \<open>s1 = None\<close> 1(1) 2(1) by (simp add: rechain_close)
  have sd: "s \<notin> set ds" using mem(1) dist(3) seg by auto
  have "chain_of e2 ds = [] \<or> jack_client_is_internal (cmem e2 (hd (chain_of e2 ds)))" using ch2 2(3) same2 assms(7) by simp
  then have wait: "subgraph_wait_fd (cmem (jack_rechain_graph e) s) = fifo_fd e (n + length seg)"
    using loop_rest [of e2 ds s "n + length seg"] a2 sd r(1) whole q(2) p(2) by (simp add: chained_def)
  have start: "subgraph_start_fd (cmem (jack_rechain_graph e) s) = fifo_fd e n"
    using whole close_frame(2) r(2) sd q(3) p(2) by (simp add: chained_def)
  obtain t1 where t1: "trace e1 = trace e @ t1" "fst ` set t1 \<subseteq> set as" using p(2) by (auto simp: chained_def)
  obtain t3 where t3: "trace e3 = trace e2 @ t3" "fst ` set t3 \<subseteq> set ds" using r(2) by (auto simp: chained_def)
  define tr where "tr = t1 @ map (\<lambda>i. (seg ! i, GraphReordered (n + i) (i = 0))) [0..<length seg] @ t3"
  have "trace (jack_rechain_graph e) = trace e @ tr" using whole close_frame(4) t1(1) t3(1) q(4) by (simp add: tr_def)
  moreover have "orders_for (seg ! i) tr = [GraphReordered (n + i) (i = 0)]" if i: "i < length seg" for i
  proof -
    have "seg ! i \<in> set bs" using mem(1) i nth_mem by blast
    then have "seg ! i \<notin> fst ` set t1" "seg ! i \<notin> fst ` set t3" using t1(2) t3(2) dist by auto
    then show ?thesis using orders_for_one [OF mem(2) i] by (simp add: tr_def orders_for_append orders_for_other)
  qed
  ultimately show ?thesis using start wait seg take_order_fds assms(8)
    by (intro exI [of _ n] exI [of _ tr]) simp
qed

text \<open>The five clients of the example, which come after the driver, are one subgraph.\<close>

theorem chain_is_joined_witness:
  "\<exists>n tr. trace (jack_rechain_graph demo_engine) = tr \<and>
     subgraph_start_fd (cmem (jack_rechain_graph demo_engine) 1) = int n + 10 \<and>
     subgraph_wait_fd (cmem (jack_rechain_graph demo_engine) 1) = int n + 15 \<and>
     graph_next_fd (fold (take_order demo_world) (orders_for 1 tr) demo_lib) = int n + 41 \<and>
     graph_wait_fd (fold (take_order demo_world) (orders_for 2 tr) demo_lib) = int n + 21"
proof -
  have h: "answering demo_engine (clients demo_engine)" "distinct (clients demo_engine)"
    "chain_of demo_engine (clients demo_engine) = [0] @ [1, 2, 3, 4, 5] @ []"
    "\<forall>c \<in> set [1, 2, 3, 4, 5]. \<not> jack_client_is_internal (cmem demo_engine c)"
    "[0] = [] \<or> jack_client_is_internal (cmem demo_engine (last [0]))"
    "\<forall>k. 0 \<le> open_read demo_world k \<and> 0 \<le> open_write demo_world k" "trace demo_engine = []"
    by (simp_all add: answering_def good_io_def demo_defs in_chain_def jack_client_is_internal_def demo_world_def)
  have f: "fifo_fd demo_engine = (\<lambda>n. int n + 10)" by (simp add: demo_engine_def)
  obtain n tr where r: "trace (jack_rechain_graph demo_engine) = tr"
    "subgraph_start_fd (cmem (jack_rechain_graph demo_engine) 1) = fifo_fd demo_engine n"
    "subgraph_wait_fd (cmem (jack_rechain_graph demo_engine) 1) = fifo_fd demo_engine (n + length [1, 2, 3, 4, 5 :: cptr])"
    and i: "\<forall>i < length [1, 2, 3, 4, 5 :: cptr]. \<forall>cl. let cl' = fold (take_order demo_world) (orders_for ([1, 2, 3, 4, 5] ! i) tr) cl in
       graph_wait_fd cl' = open_read demo_world (n + i) \<and> graph_next_fd cl' = open_write demo_world (n + i + 1) \<and> upstream_is_jackd cl' = (i = 0)"
    using chain_is_joined [OF h(1,2,3) _ h(4,5) _ h(6)] unfolding h(7) append_Nil list.sel by blast
  have "graph_next_fd (fold (take_order demo_world) (orders_for 1 tr) demo_lib) = int n + 41"
    using i [rule_format, of 0 demo_lib] by (simp add: demo_world_def Let_def)
  moreover have "graph_wait_fd (fold (take_order demo_world) (orders_for 2 tr) demo_lib) = int n + 21"
    using i [rule_format, of 1 demo_lib] by (simp add: demo_world_def Let_def)
  ultimately show ?thesis using r f by (intro exI [of _ n] exI [of _ tr]) simp
qed

end
