(* ===== verification/Client_Ports.thy ===== *)
theory Client_Ports
  imports Client_Mirror Requests
begin

text \<open>
  Ports as an application sees them, \<open>libjack/port.c\<close> and \<open>libjack/client.c\<close>: registration, connection requests,
  questions about connections and ports, aliases and monitoring. A request goes to the functions of the server that answer
  it; \<open>wok\<close> and \<open>rok\<close> say whether the request could be written and its answer read. What the client reads from its socket after
  the answer is the list of messages the server wrote there. Regular expressions are those of the C library (\<open>regexec\<close>).
\<close>

section \<open>Requests\<close>

definition deliver_request :: "bool \<Rightarrow> bool \<Rightarrow> jack_engine_t \<Rightarrow> (jack_engine_t \<times> int) c_result \<Rightarrow> (jack_engine_t \<times> int) c_result" where
  "deliver_request wok rok e outcome = (if \<not> wok then Value (e, -1) else c_map (\<lambda>(e1, status). (e1, if rok then status else -1)) outcome)"

definition jack_connect :: "bool \<Rightarrow> bool \<Rightarrow> jack_engine_t \<Rightarrow> string \<Rightarrow> string \<Rightarrow> (jack_engine_t \<times> int) c_result" where
  "jack_connect wok rok e source_port destination_port =
     deliver_request wok rok e
       (jack_port_do_connect e (take (JACK_PORT_NAME_SIZE - 1) source_port) (take (JACK_PORT_NAME_SIZE - 1) destination_port))"

definition jack_disconnect :: "bool \<Rightarrow> bool \<Rightarrow> jack_engine_t \<Rightarrow> string \<Rightarrow> string \<Rightarrow> (jack_engine_t \<times> int) c_result" where
  "jack_disconnect wok rok e source_port destination_port =
     deliver_request wok rok e
       (jack_port_do_disconnect e (take (JACK_PORT_NAME_SIZE - 1) source_port) (take (JACK_PORT_NAME_SIZE - 1) destination_port))"

definition jack_port_disconnect :: "bool \<Rightarrow> bool \<Rightarrow> jack_engine_t \<Rightarrow> port \<Rightarrow> (jack_engine_t \<times> int) c_result" where
  "jack_port_disconnect wok rok e p =
     (if peers p = [] then Value (e, 0) else deliver_request wok rok e (jack_port_do_disconnect_all e (shared p)))"

definition JACK_PORT_TYPE_SIZE :: nat where "JACK_PORT_TYPE_SIZE = 32"

text \<open>\<open>name\<close> is the name of the client.\<close>

definition jack_port_register ::
  "bool \<Rightarrow> bool \<Rightarrow> jack_engine_t \<Rightarrow> jack_client_t \<Rightarrow> bool \<Rightarrow> string \<Rightarrow> string \<Rightarrow> string \<Rightarrow> u32 \<Rightarrow> (jack_engine_t \<times> jack_client_t \<times> port option) c_result" where
  "jack_port_register wok rok e cl internal name port_name port_type flags =
     (if JACK_PORT_NAME_SIZE \<le> length name + 1 + length port_name then Value (e, cl, None)
      else if \<not> wok then Value (e, cl, None)
      else
        (case jack_port_do_register e \<lparr>rq_name = name @ '':'' @ port_name, rq_type = take (JACK_PORT_TYPE_SIZE - 1) port_type,
                rq_flags = flags, rq_client_id = client_id cl\<rparr> internal of
           (e1, status, r) \<Rightarrow>
             if \<not> rok \<or> status \<noteq> 0 then Value (e1, cl, None)
             else
               (case r of
                  None \<Rightarrow> Undefined
                | Some port_id \<Rightarrow>
                    c_map (\<lambda>(e2, p). (e2, cl\<lparr>client_ports := jack_slist_prepend (client_ports cl) p\<rparr>, Some p)) (jack_port_new e1 cl port_id))))"

definition jack_port_unregister :: "bool \<Rightarrow> bool \<Rightarrow> jack_engine_t \<Rightarrow> jack_client_t \<Rightarrow> port \<Rightarrow> (jack_engine_t \<times> int) c_result" where
  "jack_port_unregister wok rok e cl p = deliver_request wok rok e (jack_port_do_unregister e (client_id cl) (shared p))"

section \<open>Questions\<close>

text \<open>One port number after the other; a number that is not in use gives no structure to take the name from.\<close>

fun read_names :: "jack_engine_t \<Rightarrow> jack_client_t \<Rightarrow> nat \<Rightarrow> reply list \<Rightarrow> (jack_engine_t \<times> string list option) c_result" where
  "read_names e cl 0 ms = Value (e, Some [])"
| "read_names e cl (Suc n) (ReplyPort q # ms) =
     c_bind (jack_port_by_id_int e cl q) (\<lambda>(e1, r).
       case r of
         NoPort \<Rightarrow> Undefined
       | Own i \<Rightarrow> c_map (\<lambda>(e2, ns). (e2, map_option (Cons (p_name (ports e1 ! shared (client_ports cl ! i)))) ns)) (read_names e1 cl n ms)
       | Fresh p \<Rightarrow> c_map (\<lambda>(e2, ns). (e2, map_option (Cons (p_name (ports e1 ! shared p))) ns)) (read_names e1 cl n ms))"
| "read_names e cl (Suc n) ms = Value (e, None)"

text \<open>For an internal client the server is a function that is called, for an external one a process that writes to
  the socket.\<close>

datatype connections_answer = InProcess int "string list" | Messages "reply list"

fun jack_port_get_all_connections :: "jack_engine_t \<Rightarrow> jack_client_t \<Rightarrow> connections_answer \<Rightarrow> (jack_engine_t \<times> string list option) c_result" where
  "jack_port_get_all_connections e cl (InProcess status names) = Value (e, if status \<noteq> 0 \<or> names = [] then None else Some names)"
| "jack_port_get_all_connections e cl (Messages (ReplyCount n # ms)) = (if n = 0 then Value (e, None) else read_names e cl n ms)"
| "jack_port_get_all_connections e cl (Messages ms) = Value (e, None)"

text \<open>A pattern that is \<open>NULL\<close> or empty matches everything. The result \<open>None\<close> is \<open>NULL\<close>.\<close>

definition matches :: "(string \<Rightarrow> string \<Rightarrow> bool) \<Rightarrow> string option \<Rightarrow> string \<Rightarrow> bool" where
  "matches regexec pattern text = (case pattern of None \<Rightarrow> True | Some pat \<Rightarrow> pat = [] \<or> regexec pat text)"

fun matching_ports :: "(string \<Rightarrow> string \<Rightarrow> bool) \<Rightarrow> jack_port_type_info_t list \<Rightarrow> string option \<Rightarrow> string option \<Rightarrow> u32 \<Rightarrow> jack_port_t list \<Rightarrow> string list" where
  "matching_ports regexec types port_pat type_pat flags [] = []"
| "matching_ports regexec types port_pat type_pat flags (p # ps) =
     (if in_use p \<and> (flags = 0 \<or> p_flags p AND flags = flags) \<and> matches regexec port_pat (p_name p) \<and>
         matches regexec type_pat (type_name (types ! ptype_id p))
      then [p_name p] else []) @ matching_ports regexec types port_pat type_pat flags ps"

definition jack_get_ports :: "(string \<Rightarrow> string \<Rightarrow> bool) \<Rightarrow> jack_engine_t \<Rightarrow> string option \<Rightarrow> string option \<Rightarrow> u32 \<Rightarrow> string list option" where
  "jack_get_ports regexec e port_pat type_pat flags =
     (case matching_ports regexec (port_types (control e)) port_pat type_pat flags (ports e) of [] \<Rightarrow> None | ns \<Rightarrow> Some ns)"

definition jack_port_type_get_buffer_size :: "jack_engine_t \<Rightarrow> string \<Rightarrow> int" where
  "jack_port_type_get_buffer_size e port_type =
     (case type_search (port_types (control e)) 0 port_type of None \<Rightarrow> 0 | Some i \<Rightarrow> buffer_bytes e i)"

definition jack_port_is_mine :: "jack_engine_t \<Rightarrow> jack_client_t \<Rightarrow> port \<Rightarrow> bool" where
  "jack_port_is_mine e cl p \<longleftrightarrow> p_client_id (ports e ! shared p) = client_id cl"

section \<open>Names\<close>

definition FULL_NAME_SIZE :: nat where "FULL_NAME_SIZE = JACK_CLIENT_NAME_SIZE + JACK_PORT_NAME_SIZE"

definition jack_port_set_alias :: "jack_engine_t \<Rightarrow> port \<Rightarrow> string \<Rightarrow> jack_engine_t \<times> int" where
  "jack_port_set_alias e p alias =
     (if alias1 (ports e ! shared p) = [] then (upd_port (shared p) (\<lambda>r. r\<lparr>alias1 := take (FULL_NAME_SIZE - 1) alias\<rparr>) e, 0)
      else if alias2 (ports e ! shared p) = [] then (upd_port (shared p) (\<lambda>r. r\<lparr>alias2 := take (FULL_NAME_SIZE - 1) alias\<rparr>) e, 0)
      else (e, -1))"

definition jack_port_unset_alias :: "jack_engine_t \<Rightarrow> port \<Rightarrow> string \<Rightarrow> jack_engine_t \<times> int" where
  "jack_port_unset_alias e p alias =
     (if alias1 (ports e ! shared p) = alias then (upd_port (shared p) (\<lambda>r. r\<lparr>alias1 := []\<rparr>) e, 0)
      else if alias2 (ports e ! shared p) = alias then (upd_port (shared p) (\<lambda>r. r\<lparr>alias2 := []\<rparr>) e, 0)
      else (e, -1))"

text \<open>The arrays of the caller, which keep what they have where a port has no alias.\<close>

definition jack_port_get_aliases :: "jack_engine_t \<Rightarrow> port \<Rightarrow> string \<times> string \<Rightarrow> (string \<times> string) \<times> nat" where
  "jack_port_get_aliases e p aliases =
     (let a = alias1 (ports e ! shared p); b = alias2 (ports e ! shared p)
      in ((if a \<noteq> [] then a else fst aliases, if b \<noteq> [] then b else snd aliases),
          (if a \<noteq> [] then 1 else 0) + (if b \<noteq> [] then 1 else 0)))"

text \<open>A name without a colon has no place to write the new name to.\<close>

definition jack_port_set_name :: "jack_engine_t \<Rightarrow> port \<Rightarrow> string \<Rightarrow> jack_engine_t c_result" where
  "jack_port_set_name e p new_name =
     (let name = p_name (ports e ! shared p); client = takeWhile (\<lambda>ch. ch \<noteq> CHR '':'') name
      in if CHR '':'' \<notin> set name then Undefined
         else Value (upd_port (shared p) (\<lambda>r. r\<lparr>p_name := client @ '':'' @ take (FULL_NAME_SIZE - length client - 3) new_name\<rparr>) e))"

definition jack_port_short_name :: "jack_engine_t \<Rightarrow> port \<Rightarrow> string c_result" where
  "jack_port_short_name e p =
     (case dropWhile (\<lambda>ch. ch \<noteq> CHR '':'') (p_name (ports e ! shared p)) of [] \<Rightarrow> Undefined | _ # short \<Rightarrow> Value short)"

section \<open>Monitoring\<close>

text \<open>The count of requests is one byte. The structures at the other ends have no connections of their own.\<close>

definition count_monitor :: "bool \<Rightarrow> pidx \<Rightarrow> jack_engine_t \<Rightarrow> jack_engine_t" where
  "count_monitor onoff i e =
     upd_port i (\<lambda>r. r\<lparr>monitor_requests := if onoff then (monitor_requests r + 1) mod 256 else monitor_requests r - 1\<rparr>) e"

definition jack_port_request_monitor :: "jack_engine_t \<Rightarrow> port \<Rightarrow> bool \<Rightarrow> jack_engine_t \<times> int" where
  "jack_port_request_monitor e p onoff =
     (let e1 = count_monitor onoff (shared p) e
      in (if flag_set (p_flags (ports e1 ! shared p)) JackPortIsOutput then e1
          else fold (\<lambda>q. count_monitor onoff (peer_id q)) (peers p) e1, 0))"

definition jack_port_request_monitor_by_name :: "jack_engine_t \<Rightarrow> jack_client_t \<Rightarrow> string \<Rightarrow> bool \<Rightarrow> (jack_engine_t \<times> int) c_result" where
  "jack_port_request_monitor_by_name e cl port_name onoff =
     (case find (\<lambda>i. in_use (ports e ! i) \<and> p_name (ports e ! i) = port_name) [0..<length (ports e)] of
        None \<Rightarrow> Value (e, -1)
      | Some i \<Rightarrow> c_map (\<lambda>(e1, p). jack_port_request_monitor e1 p onoff) (jack_port_new e cl i))"

definition jack_port_ensure_monitor :: "jack_engine_t \<Rightarrow> port \<Rightarrow> bool \<Rightarrow> jack_engine_t \<times> int" where
  "jack_port_ensure_monitor e p yn =
     (upd_port (shared p) (\<lambda>r. r\<lparr>monitor_requests := if yn then (if monitor_requests r = 0 then 1 else monitor_requests r) else 0\<rparr>) e, 0)"

definition jack_port_monitoring_input :: "jack_engine_t \<Rightarrow> port \<Rightarrow> bool" where
  "jack_port_monitoring_input e p \<longleftrightarrow> 0 < monitor_requests (ports e ! shared p)"

section \<open>All connections of a port\<close>

text \<open>What the server has written to one socket since an earlier state.\<close>

definition messages :: "int \<Rightarrow> jack_engine_t \<Rightarrow> jack_engine_t \<Rightarrow> reply list" where
  "messages fd e e' = map snd (filter (\<lambda>m. fst m = fd) (drop (length (sent e)) (sent e')))"

lemma write_all_Value:
  assumes "\<And>n. event_written (io e n)"
  shows "\<exists>e'. write_all e fd ms = (e', True) \<and> sent e' = sent e @ map (Pair fd) ms \<and> ports e' = ports e \<and> io e' = io e"
  using assms
proof (induction ms arbitrary: e)
  case (Cons m ms)
  define e1 where "e1 = e\<lparr>io_pos := Suc (io_pos e), sent := sent e @ [(fd, m)]\<rparr>"
  have w: "write_fd e fd m = (e1, True)" using Cons.prems by (simp add: write_fd_def Let_def e1_def)
  have "\<And>n. event_written (io e1 n)" using Cons.prems by (simp add: e1_def)
  then obtain e' where "write_all e1 fd ms = (e', True)" "sent e' = sent e1 @ map (Pair fd) ms" "ports e' = ports e1" "io e' = io e1"
    using Cons.IH by blast
  then show ?case using w by (simp add: e1_def)
qed simp

definition same_names :: "jack_engine_t \<Rightarrow> jack_engine_t \<Rightarrow> bool" where
  "same_names e e' \<longleftrightarrow> length (ports e') = length (ports e) \<and>
     (\<forall>q < length (ports e). p_name (ports e' ! q) = p_name (ports e ! q) \<and> in_use (ports e' ! q) = in_use (ports e ! q))"

lemma same_names_mixdown: "same_names e (upd_port i (\<lambda>r. r\<lparr>has_mixdown := b\<rparr>) e)"
  by (cases "i < length (ports e)") (auto simp: same_names_def upd_port_def nth_list_update)

lemma read_names_Value:
  assumes "\<And>q. q \<in> set qs \<Longrightarrow> q < length (ports e) \<and> in_use (ports e ! q)"
  shows "\<exists>e'. read_names e cl (length qs) (map ReplyPort qs) = Value (e', Some (map (\<lambda>q. p_name (ports e ! q)) qs)) \<and> same_names e e'"
  using assms
proof (induction qs arbitrary: e)
  case (Cons q qs)
  have q: "q < length (ports e)" "in_use (ports e ! q)" using Cons.prems by auto
  have "\<exists>e1 r. jack_port_by_id_int e cl q = Value (e1, r) \<and> same_names e e1 \<and>
      ((\<exists>i. r = Own i \<and> shared (client_ports cl ! i) = q) \<or> (\<exists>p. r = Fresh p \<and> shared p = q))"
  proof (cases "own_port (client_ports cl) 0 q")
    case (Some i)
    then show ?thesis using own_port_Some [OF Some] by (auto simp: jack_port_by_id_int_def same_names_def)
  next
    case None
    then show ?thesis using q same_names_mixdown
      by (auto simp: jack_port_by_id_int_def jack_port_new_def Let_def same_names_def)
  qed
  then obtain e1 r where r: "jack_port_by_id_int e cl q = Value (e1, r)" "same_names e e1"
    "(\<exists>i. r = Own i \<and> shared (client_ports cl ! i) = q) \<or> (\<exists>p. r = Fresh p \<and> shared p = q)" by blast
  have "q' < length (ports e1) \<and> in_use (ports e1 ! q')" if "q' \<in> set qs" for q'
    using Cons.prems [of q'] r(2) that by (simp add: same_names_def)
  then obtain e2 where e2: "read_names e1 cl (length qs) (map ReplyPort qs) = Value (e2, Some (map (\<lambda>q. p_name (ports e1 ! q)) qs))" "same_names e1 e2"
    using Cons.IH by blast
  have "map (\<lambda>q. p_name (ports e1 ! q)) (q # qs) = map (\<lambda>q. p_name (ports e ! q)) (q # qs)"
    by (rule map_cong) (use r(2) Cons.prems in \<open>auto simp: same_names_def\<close>)
  moreover have "same_names e e2" using r(2) e2(2) by (simp add: same_names_def)
  ultimately show ?case using r e2(1) by auto
qed (simp add: same_names_def)

lemma neighbours_links:
  assumes "graph_inv e" "p < length (ports e)"
  shows "set (neighbours e p) = {q. (p, q) \<in> links e \<or> (q, p) \<in> links e}"
    and "q \<in> set (neighbours e p) \<Longrightarrow> q < length (ports e) \<and> in_use (ports e ! q)"
proof -
  have g: "gbooks (core e)" using assms(1) by (simp add: graph_inv_def ginv_def)
  have live: "(a, b) \<in> links e \<Longrightarrow> a \<noteq> b \<and> a < length (ports e) \<and> b < length (ports e) \<and> in_use (ports e ! a) \<and> in_use (ports e ! b)" for a b
    using g by (auto simp: links_def ends_def gbooks_def conn_ok_def link_ok_def Let_def)
  have at: "ends e ` set (connections (ports e ! p)) = links e \<inter> at_port p" by (rule ends_at_port [OF assms])
  have far: "far_end e p k = (if fst (ends e k) = p then snd (ends e k) else fst (ends e k))" for k by (simp add: far_end_def ends_def)
  have n: "set (neighbours e p) = (\<lambda>x. if fst x = p then snd x else fst x) ` (links e \<inter> at_port p)"
    unfolding at [symmetric] by (auto simp: neighbours_def far image_image)
  also have "\<dots> = {q. (p, q) \<in> links e \<or> (q, p) \<in> links e}"
  proof (intro equalityI subsetI)
    fix q assume "q \<in> (\<lambda>x. if fst x = p then snd x else fst x) ` (links e \<inter> at_port p)"
    then show "q \<in> {q. (p, q) \<in> links e \<or> (q, p) \<in> links e}" by (auto simp: at_port_def split: if_splits)
  next
    fix q assume "q \<in> {q. (p, q) \<in> links e \<or> (q, p) \<in> links e}"
    then consider "(p, q) \<in> links e" | "(q, p) \<in> links e" "q \<noteq> p" using live by blast
    then show "q \<in> (\<lambda>x. if fst x = p then snd x else fst x) ` (links e \<inter> at_port p)"
    proof cases
      case 1
      then show ?thesis by (intro image_eqI [of _ _ "(p, q)"]) (simp_all add: at_port_def)
    next
      case 2
      then show ?thesis by (intro image_eqI [of _ _ "(q, p)"]) (simp_all add: at_port_def)
    qed
  qed
  finally show s: "set (neighbours e p) = {q. (p, q) \<in> links e \<or> (q, p) \<in> links e}" .
  show "q < length (ports e) \<and> in_use (ports e ! q)" if "q \<in> set (neighbours e p)"
    using that live unfolding s by blast
qed

text \<open>C26: A client that asks for all connections of a port gets them: the server answers without undefined
  behaviour, and from what it writes to the socket of the client the library makes the names of exactly the ports that are
  connected with the port in the graph of the server, each once, and \<open>NULL\<close> when there are none.\<close>

theorem all_connections_answered:
  assumes "graph_inv e" "p < length (ports e)" "\<And>n. event_written (io e n)" "\<not> asks_internally e fd" "directed e"
  shows "\<exists>e' e'' qs. jack_do_get_port_connections e True p fd = Value (e', 0, []) \<and>
    jack_port_get_all_connections e' cl (Messages (messages fd e e')) =
      Value (e'', if qs = [] then None else Some (map (\<lambda>q. p_name (ports e ! q)) qs)) \<and>
    distinct qs \<and> set qs = {q. (p, q) \<in> links e \<or> (q, p) \<in> links e}"
proof -
  let ?qs = "neighbours e p"
  have len: "length (connections (ports e ! p)) = length ?qs" "map (other_end e p) (connections (ports e ! p)) = ?qs"
    by (simp_all add: neighbours_def other_end_def far_end_def)
  define e1 where "e1 = e\<lparr>io_pos := Suc (io_pos e), sent := sent e @ [(fd, ReplyCount (length ?qs))]\<rparr>"
  have w: "write_fd e fd (ReplyCount (length ?qs)) = (e1, True)" using assms(3) by (simp add: write_fd_def Let_def e1_def)
  have "\<And>n. event_written (io e1 n)" using assms(3) by (simp add: e1_def)
  then obtain e' where e': "write_all e1 fd (map ReplyPort ?qs) = (e', True)" "sent e' = sent e1 @ map (Pair fd) (map ReplyPort ?qs)" "ports e' = ports e1"
    using write_all_Value by blast
  have s: "jack_do_get_port_connections e True p fd = Value (e', 0, [])"
    using assms(2,4) w e'(1) by (simp add: jack_do_get_port_connections_def Let_def len)
  have m: "messages fd e e' = ReplyCount (length ?qs) # map ReplyPort ?qs"
    using e'(2) by (simp add: messages_def e1_def filter_map comp_def)
  have p: "ports e' = ports e" using e'(3) by (simp add: e1_def)
  obtain e'' where r: "read_names e' cl (length ?qs) (map ReplyPort ?qs) = Value (e'', Some (map (\<lambda>q. p_name (ports e ! q)) ?qs))"
    using read_names_Value [of ?qs e' cl] neighbours_links(2) [OF assms(1,2)] unfolding p by blast
  have "jack_port_get_all_connections e' cl (Messages (messages fd e e')) =
      Value (if ?qs = [] then e' else e'', if ?qs = [] then None else Some (map (\<lambda>q. p_name (ports e ! q)) ?qs))"
    using r unfolding m by auto
  moreover have "distinct ?qs"
    using assms(1,2) far_end_inj [OF assms(1,5,2)] by (simp add: neighbours_def distinct_map graph_inv_def ginv_def gbooks_def ports_ok_def)
  ultimately show ?thesis using s neighbours_links(1) [OF assms(1,2)] by blast
qed

theorem all_connections_answered_witness:
  "\<exists>e1 e' e''. jack_port_do_connect demo_engine ''a:out'' ''b:in'' = Value (e1, 0) \<and>
     jack_do_get_port_connections e1 True 5 100 = Value (e', 0, []) \<and>
     jack_port_get_all_connections e' demo_lib (Messages (messages 100 e1 e')) = Value (e'', Some [''a:out''])"
proof -
  obtain e1 con where e1: "jack_port_do_connect demo_engine ''a:out'' ''b:in'' = Value (e1, 0)"
    "core e1 = g_link con (g_feed con (core demo_engine))" "link_ok (core demo_engine) con" "source con = 2" "destination con = 5"
    using connect_Value [OF demo_inv demo_checks(1)] by blast
  have e2: "graph_inv e1" "links e1 = {(2, 5)}"
    using connect_Value [OF demo_inv demo_checks(1)] e1(1) by (auto simp: demo_links)
  have k: "kept demo_engine e1" by (rule kept_connect [OF e1(1)]) simp
  have io: "event_written (io e1 n)" for n using kept_io [OF k] by (simp add: demo_defs)
  have l: "5 < length (ports demo_engine)" "2 < length (ports demo_engine)" by (simp_all add: demo_engine_def)
  have p: "5 < length (ports e1)" "p_name (ports e1 ! 2) = ''a:out''"
    using l(1) kept_engine(1) [OF k] by (simp_all add: kept_port [OF k l(2)]) (simp_all add: demo_defs)
  have d: "directed e1" unfolding directed_def e2(2)
    by (simp add: is_output_def kept_port [OF k l(1)] kept_port [OF k l(2)]) (simp add: demo_defs flag_set_def JackPortIsOutput_def JackPortIsInput_def)
  have fd: "\<not> asks_internally e1 100"
  proof -
    have "request_fd (cmem e1 c) \<noteq> 100" for c by (simp add: kept_client [OF k]) (simp add: demo_defs)
    then have "find (\<lambda>c. request_fd (cmem e1 c) = 100) (clients e1) = None" by (simp add: find_None_iff)
    then show ?thesis by (simp add: asks_internally_def)
  qed
  obtain e' e'' qs where a: "jack_do_get_port_connections e1 True 5 100 = Value (e', 0, [])"
    "jack_port_get_all_connections e' demo_lib (Messages (messages 100 e1 e')) =
      Value (e'', if qs = [] then None else Some (map (\<lambda>q. p_name (ports e1 ! q)) qs))" "distinct qs" "set qs = {2}"
    using all_connections_answered [OF e2(1) p(1) io fd d, of demo_lib] by (auto simp: e2(2))
  have "qs = [2]" using a(3,4) by (cases qs rule: remdups_adj.cases) auto
  then show ?thesis using e1(1) a(1,2) p(2) by auto
qed

section \<open>Names and counts\<close>

lemma upd_port_nth: "q < length (ports e) \<Longrightarrow> ports (upd_port q f e) ! q = f (ports e ! q)"
  by (simp add: upd_port_def)

text \<open>A port can be found under an alias that was set, as long as no other port has it, and setting and unsetting an
  alias leaves the port as it was.\<close>

lemma set_alias_found:
  assumes "shared p < length (ports e)" "in_use (ports e ! shared p)" "jack_port_set_alias e p alias = (e', 0)"
    and "length alias < FULL_NAME_SIZE" "take 12 alias \<noteq> ''ALSA:capture''" "take 13 alias \<noteq> ''ALSA:playback''"
    and "jack_get_port_by_name e alias = None"
  shows "jack_get_port_by_name e' alias = Some (shared p)"
proof -
  let ?i = "shared p"
  obtain f where f: "e' = upd_port ?i f e" "in_use (f (ports e ! ?i)) = in_use (ports e ! ?i)" "alias1 (f (ports e ! ?i)) = alias \<or> alias2 (f (ports e ! ?i)) = alias"
    using assms(3,4) by (auto simp: jack_port_set_alias_def split: if_splits)
  have "port_search ps j alias = None \<Longrightarrow> k < length ps \<Longrightarrow> in_use r \<Longrightarrow> alias1 r = alias \<or> alias2 r = alias \<Longrightarrow>
      port_search (ps[k := r]) j alias = Some (j + k)" for ps j k r
  proof (induction ps arbitrary: j k)
    case (Cons x ps)
    then show ?case using assms(5,6) by (cases k) (auto simp: jack_port_name_equals_def Let_def split: if_splits)
  qed simp
  then show ?thesis using assms(1,2,7) f by (auto simp: jack_get_port_by_name_def upd_port_def)
qed

lemma unset_alias_undoes:
  assumes "shared p < length (ports e)" "jack_port_set_alias e p alias = (e', 0)" "length alias < FULL_NAME_SIZE" "alias1 (ports e ! shared p) \<noteq> alias"
  shows "jack_port_unset_alias e' p alias = (e, 0)"
proof -
  have "upd_port i f (upd_port i g e) = e" if "f (g (ports e ! i)) = ports e ! i" "i < length (ports e)" for i f g
    using that by (simp add: upd_port_def list_update_same_conv)
  moreover have "(ports e ! shared p)\<lparr>alias1 := []\<rparr> = ports e ! shared p" if "alias1 (ports e ! shared p) = []" using that by simp
  moreover have "(ports e ! shared p)\<lparr>alias2 := []\<rparr> = ports e ! shared p" if "alias2 (ports e ! shared p) = []" using that by simp
  ultimately show ?thesis using assms by (auto simp: jack_port_set_alias_def jack_port_unset_alias_def upd_port_nth split: if_splits)
qed

text \<open>The names that a client registers are short enough to come through a connection request as they are.\<close>

lemma registered_names_connect:
  assumes "length n + 1 + length m < JACK_PORT_NAME_SIZE" "length n' + 1 + length m' < JACK_PORT_NAME_SIZE"
  shows "jack_connect True True e (n @ '':'' @ m) (n' @ '':'' @ m') = jack_port_do_connect e (n @ '':'' @ m) (n' @ '':'' @ m')"
proof -
  have id: "c_map id r = r" for r :: "(jack_engine_t \<times> int) c_result" by (cases r) auto
  show ?thesis using assms by (simp add: jack_connect_def deliver_request_def id)
qed

text \<open>After 256 requests the count of one byte is back at 0 and the port is not monitored any more.\<close>

lemma monitor_count_wraps:
  assumes "shared p < length (ports e)" "flag_set (p_flags (ports e ! shared p)) JackPortIsOutput" "monitor_requests (ports e ! shared p) = 0"
  shows "\<not> jack_port_monitoring_input (((\<lambda>e. fst (jack_port_request_monitor e p True)) ^^ 256) e) p"
proof -
  have "monitor_requests (ports (((\<lambda>e. fst (jack_port_request_monitor e p True)) ^^ n) e) ! shared p) = n mod 256 \<and>
      p_flags (ports (((\<lambda>e. fst (jack_port_request_monitor e p True)) ^^ n) e) ! shared p) = p_flags (ports e ! shared p) \<and>
      length (ports (((\<lambda>e. fst (jack_port_request_monitor e p True)) ^^ n) e)) = length (ports e)" for n
  proof (induction n)
    case (Suc n)
    then show ?case using assms(1,2) by (simp add: jack_port_request_monitor_def count_monitor_def Let_def upd_port_def mod_Suc_eq)
  qed (use assms(3) in simp)
  then show ?thesis by (simp add: jack_port_monitoring_input_def)
qed

end
