(* ===== verification/Patchbay.thy ===== *)
theory Patchbay
  imports Ports
begin

text \<open>
  The graph that the D-Bus service shows, \<open>server/jackcontroller_iface_patchbay.c\<close>, and the part of the
  control library that feeds it, \<open>server/jackctl.c\<close>. The control library hears of ports and connections from
  the engine by number, looks up their names in shared memory, and keeps lists of clients, ports and connections under
  identifiers that it never uses twice. The patchbay keeps a copy of them under a version number,
  sends a signal for every change and answers requests for the whole graph.

  A structure that C code reaches by a pointer has an address (\<open>ref\<close>). Ports are kept inside their
  client, so that the back pointer of a port is the client that contains it; reaching for an
  address that is not there is undefined. Memory can always be allocated, and the callbacks of the
  control library are those of the patchbay.
\<close>

type_synonym ref = nat

section \<open>The patchbay\<close>

record jack_graph_port =
  gp_ref :: ref
  gp_id :: u64
  gp_name :: string
  gp_flags :: u32
  gp_type :: nat

record jack_graph_client =
  gc_ref :: ref
  gc_id :: u64
  gc_name :: string
  gc_pid :: int
  gc_ports :: "jack_graph_port list"

record jack_graph_connection =
  gx_ref :: ref
  gx_id :: u64
  gx_port1 :: ref
  gx_port2 :: ref

datatype signal =
    GraphChanged u64
  | ClientAppeared u64 u64 string
  | ClientDisappeared u64 u64 string
  | PortAppeared u64 u64 string u64 string u32 nat
  | PortDisappeared u64 u64 string u64 string
  | PortsConnected u64 u64 string u64 string u64 string u64 string u64
  | PortsDisconnected u64 u64 string u64 string u64 string u64 string u64

record jack_graph =
  version :: u64
  g_clients :: "jack_graph_client list"
  g_connections :: "jack_graph_connection list"
  g_next :: ref
  signals :: "signal list"

definition jack_controller_patchbay_init :: jack_graph where
  "jack_controller_patchbay_init = \<lparr>version = 1, g_clients = [], g_connections = [], g_next = 0, signals = []\<rparr>"

text \<open>Pointers to clients and ports.\<close>

definition client_at :: "jack_graph \<Rightarrow> ref \<Rightarrow> jack_graph_client c_result" where
  "client_at g r = (case find (\<lambda>c. gc_ref c = r) (g_clients g) of None \<Rightarrow> Undefined | Some c \<Rightarrow> Value c)"

fun port_in :: "jack_graph_client list \<Rightarrow> ref \<Rightarrow> (jack_graph_client \<times> jack_graph_port) option" where
  "port_in [] r = None"
| "port_in (c # cs) r =
     (case find (\<lambda>p. gp_ref p = r) (gc_ports c) of Some p \<Rightarrow> Some (c, p) | None \<Rightarrow> port_in cs r)"

definition port_at :: "jack_graph \<Rightarrow> ref \<Rightarrow> (jack_graph_client \<times> jack_graph_port) c_result" where
  "port_at g r = (case port_in (g_clients g) r of None \<Rightarrow> Undefined | Some cp \<Rightarrow> Value cp)"

text \<open>A pointer that a callback gave, which is \<open>NULL\<close> when it failed.\<close>

definition deref :: "ref option \<Rightarrow> (ref \<Rightarrow> 'a c_result) \<Rightarrow> 'a c_result" where
  "deref p f = (case p of None \<Rightarrow> Undefined | Some r \<Rightarrow> f r)"

text \<open>Every change gets a new version and two signals.\<close>

definition changed :: "(u64 \<Rightarrow> signal) \<Rightarrow> jack_graph \<Rightarrow> jack_graph" where
  "changed sig g = (let v = version g + 1 in g\<lparr>version := v, signals := signals g @ [sig v, GraphChanged v]\<rparr>)"

definition jack_controller_patchbay_client_appeared_callback :: "u64 \<Rightarrow> string \<Rightarrow> int \<Rightarrow> jack_graph \<Rightarrow> jack_graph \<times> ref option" where
  "jack_controller_patchbay_client_appeared_callback client_id client_name pid g =
     (let r = g_next g;
          c = \<lparr>gc_ref = r, gc_id = client_id, gc_name = client_name, gc_pid = pid, gc_ports = []\<rparr>
      in (changed (\<lambda>v. ClientAppeared v client_id client_name) (g\<lparr>g_clients := g_clients g @ [c], g_next := Suc r\<rparr>), Some r))"

definition jack_controller_patchbay_client_disappeared_callback :: "u64 \<Rightarrow> ref option \<Rightarrow> jack_graph \<Rightarrow> jack_graph c_result" where
  "jack_controller_patchbay_client_disappeared_callback client_id client_context g =
     (case client_context of
        None \<Rightarrow> Value g
      | Some r \<Rightarrow>
          c_map (\<lambda>c. changed (\<lambda>v. ClientDisappeared v client_id (gc_name c)) (g\<lparr>g_clients := filter (\<lambda>c. gc_ref c \<noteq> r) (g_clients g)\<rparr>))
            (client_at g r))"

definition jack_controller_patchbay_port_appeared_callback ::
  "u64 \<Rightarrow> ref option \<Rightarrow> u64 \<Rightarrow> string \<Rightarrow> u32 \<Rightarrow> nat \<Rightarrow> jack_graph \<Rightarrow> (jack_graph \<times> ref option) c_result" where
  "jack_controller_patchbay_port_appeared_callback client_id client_context port_id port_name port_flags port_type g =
     deref client_context (\<lambda>cr.
       c_map (\<lambda>c.
           let r = g_next g;
               p = \<lparr>gp_ref = r, gp_id = port_id, gp_name = port_name, gp_flags = port_flags, gp_type = port_type\<rparr>;
               add = (\<lambda>c. if gc_ref c = cr then c\<lparr>gc_ports := gc_ports c @ [p]\<rparr> else c)
           in (changed (\<lambda>v. PortAppeared v client_id (gc_name c) port_id port_name port_flags port_type)
                 (g\<lparr>g_clients := map add (g_clients g), g_next := Suc r\<rparr>), Some r))
         (client_at g cr))"

definition drop_port :: "ref \<Rightarrow> jack_graph_client \<Rightarrow> jack_graph_client" where
  "drop_port r c = c\<lparr>gc_ports := filter (\<lambda>p. gp_ref p \<noteq> r) (gc_ports c)\<rparr>"

definition jack_controller_patchbay_port_disappeared_callback ::
  "u64 \<Rightarrow> ref option \<Rightarrow> u64 \<Rightarrow> ref option \<Rightarrow> jack_graph \<Rightarrow> jack_graph c_result" where
  "jack_controller_patchbay_port_disappeared_callback client_id client_context port_id port_context g =
     (case port_context of
        None \<Rightarrow> Value g
      | Some r \<Rightarrow>
          c_bind (port_at g r) (\<lambda>(_, p).
          deref client_context (\<lambda>cr.
            c_map (\<lambda>c. changed (\<lambda>v. PortDisappeared v client_id (gc_name c) port_id (gp_name p))
                (g\<lparr>g_clients := map (drop_port r) (g_clients g)\<rparr>))
              (client_at g cr))))"

definition jack_controller_patchbay_ports_connected_callback ::
  "u64 \<Rightarrow> u64 \<Rightarrow> ref option \<Rightarrow> u64 \<Rightarrow> u64 \<Rightarrow> ref option \<Rightarrow> u64 \<Rightarrow> jack_graph \<Rightarrow> (jack_graph \<times> ref option) c_result" where
  "jack_controller_patchbay_ports_connected_callback client1_id port1_id port1_context client2_id port2_id port2_context connection_id g =
     deref port1_context (\<lambda>r1. deref port2_context (\<lambda>r2.
       c_bind (port_at g r1) (\<lambda>(c1, p1).
       c_map (\<lambda>(c2, p2).
           let r = g_next g; x = \<lparr>gx_ref = r, gx_id = connection_id, gx_port1 = r1, gx_port2 = r2\<rparr>
           in (changed (\<lambda>v. PortsConnected v client1_id (gc_name c1) port1_id (gp_name p1) client2_id (gc_name c2) port2_id (gp_name p2) connection_id)
                 (g\<lparr>g_connections := g_connections g @ [x], g_next := Suc r\<rparr>), Some r))
         (port_at g r2))))"

definition jack_controller_patchbay_ports_disconnected_callback ::
  "u64 \<Rightarrow> u64 \<Rightarrow> ref option \<Rightarrow> u64 \<Rightarrow> u64 \<Rightarrow> ref option \<Rightarrow> u64 \<Rightarrow> ref option \<Rightarrow> jack_graph \<Rightarrow> jack_graph c_result" where
  "jack_controller_patchbay_ports_disconnected_callback client1_id port1_id port1_context client2_id port2_id port2_context connection_id connection_context g =
     (case connection_context of
        None \<Rightarrow> Value g
      | Some r \<Rightarrow>
          if \<forall>x \<in> set (g_connections g). gx_ref x \<noteq> r then Undefined
          else
            deref port1_context (\<lambda>r1. deref port2_context (\<lambda>r2.
              c_bind (port_at g r1) (\<lambda>(c1, p1).
              c_map (\<lambda>(c2, p2).
                  changed (\<lambda>v. PortsDisconnected v client1_id (gc_name c1) port1_id (gp_name p1) client2_id (gc_name c2) port2_id (gp_name p2) connection_id)
                    (g\<lparr>g_connections := filter (\<lambda>x. gx_ref x \<noteq> r) (g_connections g)\<rparr>))
                (port_at g r2)))))"

section \<open>Answers of the D-Bus service\<close>

definition jack_controller_patchbay_find_client_by_id :: "jack_graph \<Rightarrow> u64 \<Rightarrow> jack_graph_client option" where
  "jack_controller_patchbay_find_client_by_id g i = find (\<lambda>c. gc_id c = i) (g_clients g)"

definition jack_controller_dbus_get_client_pid :: "jack_graph \<Rightarrow> u64 \<Rightarrow> int option" where
  "jack_controller_dbus_get_client_pid g i = map_option gc_pid (jack_controller_patchbay_find_client_by_id g i)"

definition jack_controller_dbus_get_all_ports :: "jack_graph \<Rightarrow> string list" where
  "jack_controller_dbus_get_all_ports g =
     concat (map (\<lambda>c. map (\<lambda>p. gc_name c @ '':'' @ gp_name p) (gc_ports c)) (g_clients g))"

type_synonym port_row = "u64 \<times> string \<times> u32 \<times> nat"
type_synonym client_row = "u64 \<times> string \<times> port_row list"
type_synonym connection_row = "(u64 \<times> string \<times> u64 \<times> string) \<times> (u64 \<times> string \<times> u64 \<times> string) \<times> u64"

datatype graph_reply = InvalidArgs | Graph u64 "client_row list" "connection_row list"

definition client_entry :: "jack_graph_client \<Rightarrow> client_row" where
  "client_entry c = (gc_id c, gc_name c, map (\<lambda>p. (gp_id p, gp_name p, gp_flags p, gp_type p)) (gc_ports c))"

definition connection_entry :: "jack_graph \<Rightarrow> jack_graph_connection \<Rightarrow> connection_row c_result" where
  "connection_entry g x =
     c_bind (port_at g (gx_port1 x)) (\<lambda>(c1, p1).
     c_map (\<lambda>(c2, p2). ((gc_id c1, gc_name c1, gp_id p1, gp_name p1), (gc_id c2, gc_name c2, gp_id p2, gp_name p2), gx_id x))
       (port_at g (gx_port2 x)))"

fun c_list :: "('a \<Rightarrow> 'b c_result) \<Rightarrow> 'a list \<Rightarrow> 'b list c_result" where
  "c_list f [] = Value []"
| "c_list f (x # xs) = c_bind (f x) (\<lambda>y. c_map (\<lambda>ys. y # ys) (c_list f xs))"

definition jack_controller_dbus_get_graph :: "jack_graph \<Rightarrow> u64 \<Rightarrow> graph_reply c_result" where
  "jack_controller_dbus_get_graph g known =
     (if version g < known then Value InvalidArgs
      else if known < version g then
        c_map (\<lambda>xs. Graph (version g) (map client_entry (g_clients g)) xs) (c_list (connection_entry g) (g_connections g))
      else Value (Graph (version g) [] []))"

end
