(* ===== verification/Jackctl.thy ===== *)
theory Jackctl
  imports Patchbay
begin

text \<open>
  The lists of clients, ports and connections of the control library, \<open>server/jackctl.c\<close>, with the
  patchbay they feed. The numbers of ports and the names in shared memory are those of the engine.
\<close>

record jackctl_port =
  jp_ref :: ref
  jp_id :: u64
  jp_name :: string
  jp_flags :: u32
  jp_type :: nat
  jp_context :: "ref option"

record jackctl_client =
  jc_ref :: ref
  jc_id :: u64
  jc_name :: string
  jc_pid :: int
  jc_ports :: "jackctl_port list"
  jc_context :: "ref option"

record jackctl_connection =
  jx_id :: u64
  jx_port1 :: ref
  jx_port2 :: ref
  jx_context :: "ref option"

record jackctl_server =
  ctl_next_client_id :: u64
  ctl_next_port_id :: u64
  ctl_next_connection_id :: u64
  ctl_clients :: "jackctl_client list"
  ctl_connections :: "jackctl_connection list"
  ctl_next :: ref
  graph :: jack_graph

text \<open>A new server, with the patchbay of the controller that made it. Starting the engine empties the lists.\<close>

definition jackctl_server_create :: jackctl_server where
  "jackctl_server_create =
     \<lparr>ctl_next_client_id = 1, ctl_next_port_id = 1, ctl_next_connection_id = 1, ctl_clients = [], ctl_connections = [], ctl_next = 0,
       graph = jack_controller_patchbay_init\<rparr>"

definition empty_lists :: "jackctl_server \<Rightarrow> jackctl_server" where
  "empty_lists s = s\<lparr>ctl_clients := [], ctl_connections := []\<rparr>"

section \<open>Finding clients and ports\<close>

definition jackctl_find_client :: "jackctl_server \<Rightarrow> string \<Rightarrow> jackctl_client option" where
  "jackctl_find_client s client_name = find (\<lambda>c. jc_name c = client_name) (ctl_clients s)"

definition jackctl_get_client_pid :: "jackctl_server \<Rightarrow> string \<Rightarrow> int" where
  "jackctl_get_client_pid s name = (case jackctl_find_client s name of None \<Rightarrow> 0 | Some c \<Rightarrow> jc_pid c)"

definition jackctl_find_client_port_by_name :: "jackctl_client \<Rightarrow> string \<Rightarrow> jackctl_port option" where
  "jackctl_find_client_port_by_name c port_name = find (\<lambda>p. jp_name p = port_name) (jc_ports c)"

definition fits_fullname :: "string \<Rightarrow> string \<Rightarrow> bool" where
  "fits_fullname c p \<longleftrightarrow> length c + length p + 2 \<le> JACK_CLIENT_NAME_SIZE + JACK_PORT_NAME_SIZE"

definition jackctl_compose_port_fullname :: "jackctl_client \<Rightarrow> jackctl_port \<Rightarrow> string option" where
  "jackctl_compose_port_fullname c p = (if fits_fullname (jc_name c) (jp_name p) then Some (jc_name c @ '':'' @ jp_name p) else None)"

text \<open>The search for two ports, with the names found so far and their number.\<close>

fun scan_ports :: "u64 \<Rightarrow> u64 \<Rightarrow> jackctl_client \<Rightarrow> jackctl_port list \<Rightarrow> string option \<times> string option \<times> nat \<Rightarrow>
    (string option \<times> string option \<times> nat) option" where
  "scan_ports id1 id2 c [] st = Some st"
| "scan_ports id1 id2 c (p # ps) (n1, n2, k) =
     (if k = 2 then Some (n1, n2, k)
      else
        (let full = jackctl_compose_port_fullname c p in
         if (jp_id p = id1 \<or> jp_id p = id2) \<and> full = None then None
         else
           (let (n1', k1) = (if jp_id p = id1 then (full, k + 1) else (n1, k));
                (n2', k2) = (if jp_id p = id2 then (full, k1 + 1) else (n2, k1))
            in scan_ports id1 id2 c ps (n1', n2', k2))))"

fun scan_clients :: "u64 \<Rightarrow> u64 \<Rightarrow> jackctl_client list \<Rightarrow> string option \<times> string option \<times> nat \<Rightarrow>
    (string option \<times> string option \<times> nat) option" where
  "scan_clients id1 id2 [] st = Some st"
| "scan_clients id1 id2 (c # cs) st =
     (case scan_ports id1 id2 c (jc_ports c) st of None \<Rightarrow> None
      | Some (n1, n2, k) \<Rightarrow> if k = 2 then Some (n1, n2, k) else scan_clients id1 id2 cs (n1, n2, k))"

definition jackctl_find_client_ports_by_id :: "jackctl_server \<Rightarrow> u64 \<Rightarrow> u64 \<Rightarrow> (string \<times> string) option" where
  "jackctl_find_client_ports_by_id s id1 id2 =
     (case scan_clients id1 id2 (ctl_clients s) (None, None, 0) of
        Some (Some n1, Some n2, k) \<Rightarrow> if k = 2 then Some (n1, n2) else None
      | _ \<Rightarrow> None)"

section \<open>Requests\<close>

definition request_result :: "(jack_engine_t \<times> int) c_result \<Rightarrow> (jack_engine_t \<times> bool) c_result" where
  "request_result r = c_map (\<lambda>(e, ret). (e, ret = 0)) r"

definition jackctl_connect_ports_by_name :: "jack_engine_t \<Rightarrow> string \<Rightarrow> string \<Rightarrow> string \<Rightarrow> string \<Rightarrow> (jack_engine_t \<times> bool) c_result" where
  "jackctl_connect_ports_by_name e client1 port1 client2 port2 =
     (if \<not> fits_fullname client1 port1 \<or> \<not> fits_fullname client2 port2 then Value (e, False)
      else request_result (jack_port_do_connect e (client1 @ '':'' @ port1) (client2 @ '':'' @ port2)))"

definition jackctl_disconnect_ports_by_name :: "jack_engine_t \<Rightarrow> string \<Rightarrow> string \<Rightarrow> string \<Rightarrow> string \<Rightarrow> (jack_engine_t \<times> bool) c_result" where
  "jackctl_disconnect_ports_by_name e client1 port1 client2 port2 =
     (if \<not> fits_fullname client1 port1 \<or> \<not> fits_fullname client2 port2 then Value (e, False)
      else request_result (jack_port_do_disconnect e (client1 @ '':'' @ port1) (client2 @ '':'' @ port2)))"

definition jackctl_connect_ports_by_id :: "jackctl_server \<Rightarrow> jack_engine_t \<Rightarrow> u64 \<Rightarrow> u64 \<Rightarrow> (jack_engine_t \<times> bool) c_result" where
  "jackctl_connect_ports_by_id s e id1 id2 =
     (case jackctl_find_client_ports_by_id s id1 id2 of
        None \<Rightarrow> Value (e, False)
      | Some (n1, n2) \<Rightarrow> request_result (jack_port_do_connect e n1 n2))"

definition jackctl_disconnect_ports_by_id :: "jackctl_server \<Rightarrow> jack_engine_t \<Rightarrow> u64 \<Rightarrow> u64 \<Rightarrow> (jack_engine_t \<times> bool) c_result" where
  "jackctl_disconnect_ports_by_id s e id1 id2 =
     (case jackctl_find_client_ports_by_id s id1 id2 of
        None \<Rightarrow> Value (e, False)
      | Some (n1, n2) \<Rightarrow> request_result (jack_port_do_disconnect e n1 n2))"

section \<open>Notifications\<close>

definition upd_ctl_client :: "ref \<Rightarrow> (jackctl_client \<Rightarrow> jackctl_client) \<Rightarrow> jackctl_server \<Rightarrow> jackctl_server" where
  "upd_ctl_client r f s = s\<lparr>ctl_clients := map (\<lambda>c. if jc_ref c = r then f c else c) (ctl_clients s)\<rparr>"

text \<open>The patchbay asks for the process of the new client, which is on the list already.\<close>

definition jackctl_find_or_create_client :: "jackctl_server \<Rightarrow> string \<Rightarrow> int \<Rightarrow> jackctl_server \<times> jackctl_client" where
  "jackctl_find_or_create_client s client_name pid =
     (case jackctl_find_client s client_name of
        Some c \<Rightarrow> (s, c)
      | None \<Rightarrow>
          (let r = ctl_next s;
               c = \<lparr>jc_ref = r, jc_id = ctl_next_client_id s, jc_name = client_name, jc_pid = pid, jc_ports = [], jc_context = None\<rparr>;
               s1 = s\<lparr>ctl_next_client_id := ctl_next_client_id s + 1, ctl_clients := ctl_clients s @ [c], ctl_next := Suc r\<rparr>;
               (g, ctx) = jack_controller_patchbay_client_appeared_callback (jc_id c) client_name (jackctl_get_client_pid s1 client_name) (graph s1)
           in (upd_ctl_client r (\<lambda>c. c\<lparr>jc_context := ctx\<rparr>) (s1\<lparr>graph := g\<rparr>), c\<lparr>jc_context := ctx\<rparr>)))"

definition jackctl_remove_port :: "jackctl_server \<Rightarrow> jackctl_client \<Rightarrow> string \<Rightarrow> (jackctl_server \<times> bool) c_result" where
  "jackctl_remove_port s c port_name =
     (case jackctl_find_client_port_by_name c port_name of
        None \<Rightarrow> Value (s, False)
      | Some p \<Rightarrow>
          (let rest = filter (\<lambda>q. jp_ref q \<noteq> jp_ref p) (jc_ports c);
               s1 = upd_ctl_client (jc_ref c) (\<lambda>c. c\<lparr>jc_ports := rest\<rparr>) s
           in c_bind (jack_controller_patchbay_port_disappeared_callback (jc_id c) (jc_context c) (jp_id p) (jp_context p) (graph s1)) (\<lambda>g.
                let s2 = s1\<lparr>graph := g\<rparr> in
                if rest \<noteq> [] then Value (s2, True)
                else
                  c_map (\<lambda>g'. (s2\<lparr>ctl_clients := filter (\<lambda>d. jc_ref d \<noteq> jc_ref c) (ctl_clients s2), graph := g'\<rparr>, True))
                    (jack_controller_patchbay_client_disappeared_callback (jc_id c) (jc_context c) (graph s2)))))"

text \<open>A full name up to its first colon, and the rest.\<close>

definition split_name :: "string \<Rightarrow> (string \<times> string) option" where
  "split_name s = (case dropWhile (\<lambda>ch. ch \<noteq> CHR '':'') s of [] \<Rightarrow> None | _ # short \<Rightarrow> Some (takeWhile (\<lambda>ch. ch \<noteq> CHR '':'') s, short))"

text \<open>\<open>pid_of\<close>: the process of an external client.\<close>

definition jackctl_port_registration_notify ::
  "(cptr \<Rightarrow> int) \<Rightarrow> jack_engine_t \<Rightarrow> pidx \<Rightarrow> bool \<Rightarrow> jackctl_server \<Rightarrow> jackctl_server c_result" where
  "jackctl_port_registration_notify pid_of e port_id yn s =
     (let sh = ports e ! port_id;
          pid = (case jack_client_internal_by_id e (p_client_id sh) of
                   Some c \<Rightarrow> if cl_type (cmem e c) = ClientExternal then pid_of c else 0
                 | None \<Rightarrow> 0)
      in case split_name (p_name sh) of
           None \<Rightarrow> Value s
         | Some (client_name, short) \<Rightarrow>
             if yn then
               (case jackctl_find_or_create_client s client_name pid of (s1, c) \<Rightarrow>
                  let r = ctl_next s1;
                      p = \<lparr>jp_ref = r, jp_id = ctl_next_port_id s1, jp_name = short, jp_flags = p_flags sh, jp_type = ptype_id sh, jp_context = None\<rparr>
                  in c_map (\<lambda>(g, ctx).
                         upd_ctl_client (jc_ref c) (\<lambda>c. c\<lparr>jc_ports := jc_ports c @ [p\<lparr>jp_context := ctx\<rparr>]\<rparr>)
                           (s1\<lparr>ctl_next_port_id := ctl_next_port_id s1 + 1, ctl_next := Suc r, graph := g\<rparr>))
                       (jack_controller_patchbay_port_appeared_callback (jc_id c) (jc_context c) (jp_id p) (jp_name p) (jp_flags p) (jp_type p) (graph s1)))
             else
               (case jackctl_find_client s client_name of
                  None \<Rightarrow> Value s
                | Some c \<Rightarrow> c_map fst (jackctl_remove_port s c short)))"

definition find_port :: "jackctl_server \<Rightarrow> string \<Rightarrow> (jackctl_client \<times> jackctl_port) option" where
  "find_port s full =
     (case split_name full of
        None \<Rightarrow> None
      | Some (client_name, short) \<Rightarrow>
          (case jackctl_find_client s client_name of
             None \<Rightarrow> None
           | Some c \<Rightarrow> map_option (Pair c) (jackctl_find_client_port_by_name c short)))"

definition joins :: "ref \<Rightarrow> ref \<Rightarrow> jackctl_connection \<Rightarrow> bool" where
  "joins r1 r2 x \<longleftrightarrow> jx_port1 x = r1 \<and> jx_port2 x = r2 \<or> jx_port1 x = r2 \<and> jx_port2 x = r1"

fun remove_first :: "('a \<Rightarrow> bool) \<Rightarrow> 'a list \<Rightarrow> 'a list" where
  "remove_first P [] = []"
| "remove_first P (x # xs) = (if P x then xs else x # remove_first P xs)"

definition jackctl_connection_notify :: "jack_engine_t \<Rightarrow> pidx \<Rightarrow> pidx \<Rightarrow> bool \<Rightarrow> jackctl_server \<Rightarrow> jackctl_server c_result" where
  "jackctl_connection_notify e port1 port2 connected s =
     (case find_port s (p_name (ports e ! port1)) of
        None \<Rightarrow> Value s
      | Some (c1, p1) \<Rightarrow>
          (case find_port s (p_name (ports e ! port2)) of
             None \<Rightarrow> Value s
           | Some (c2, p2) \<Rightarrow>
               if connected then
                 c_map (\<lambda>(g, ctx).
                     s\<lparr>ctl_next_connection_id := ctl_next_connection_id s + 1,
                       ctl_connections := ctl_connections s @
                         [\<lparr>jx_id = ctl_next_connection_id s, jx_port1 = jp_ref p1, jx_port2 = jp_ref p2, jx_context = ctx\<rparr>],
                       graph := g\<rparr>)
                   (jack_controller_patchbay_ports_connected_callback (jc_id c1) (jp_id p1) (jp_context p1)
                      (jc_id c2) (jp_id p2) (jp_context p2) (ctl_next_connection_id s) (graph s))
               else
                 (case find (joins (jp_ref p1) (jp_ref p2)) (ctl_connections s) of
                    None \<Rightarrow> Value s
                  | Some x \<Rightarrow>
                      c_map (\<lambda>g. s\<lparr>ctl_connections := remove_first (joins (jp_ref p1) (jp_ref p2)) (ctl_connections s), graph := g\<rparr>)
                        (jack_controller_patchbay_ports_disconnected_callback (jc_id c1) (jp_id p1) (jp_context p1)
                           (jc_id c2) (jp_id p2) (jp_context p2) (jx_id x) (jx_context x) (graph s)))))"

section \<open>Stop\<close>

fun ports_gone :: "jackctl_client \<Rightarrow> jackctl_port list \<Rightarrow> jack_graph \<Rightarrow> jack_graph c_result" where
  "ports_gone c [] g = Value g"
| "ports_gone c (p # ps) g =
     c_bind (jack_controller_patchbay_port_disappeared_callback (jc_id c) (jc_context c) (jp_id p) (jp_context p) g) (ports_gone c ps)"

fun clients_gone :: "jackctl_client list \<Rightarrow> jack_graph \<Rightarrow> jack_graph c_result" where
  "clients_gone [] g = Value g"
| "clients_gone (c # cs) g =
     c_bind (ports_gone c (jc_ports c) g) (\<lambda>g1.
     c_bind (jack_controller_patchbay_client_disappeared_callback (jc_id c) (jc_context c) g1) (clients_gone cs))"

text \<open>The lists of \<open>jackctl_server_stop\<close> after the engine is gone.\<close>

definition jackctl_server_stop :: "jackctl_server \<Rightarrow> jackctl_server c_result" where
  "jackctl_server_stop s = c_map (\<lambda>g. s\<lparr>ctl_clients := [], graph := g\<rparr>) (clients_gone (ctl_clients s) (graph s))"

end
