(* ===== verification/Patchbay_Inv.thy ===== *)
theory Patchbay_Inv
  imports Jackctl
begin

text \<open>
  The patchbay: its identifiers stay unique, its connections end at ports that are there, and a listener
  that applies the signals one after the other has the graph that the service would send.
\<close>

section \<open>Searching\<close>

lemma find_inj: "inj_on f (set xs) \<Longrightarrow> x \<in> set xs \<Longrightarrow> find (\<lambda>y. f y = f x) xs = Some x"
proof -
  assume "inj_on f (set xs)" "x \<in> set xs"
  moreover obtain y where y: "find (\<lambda>y. f y = f x) xs = Some y" using \<open>x \<in> set xs\<close> by (cases "find (\<lambda>y. f y = f x) xs") (auto simp: find_None_iff)
  then have "y \<in> set xs" "f y = f x" by (auto simp: find_Some_iff)
  ultimately show ?thesis using y by (auto dest: inj_onD)
qed

definition unique_ports :: "jack_graph_client list \<Rightarrow> bool" where
  "unique_ports gs \<longleftrightarrow> (\<forall>c \<in> set gs. \<forall>d \<in> set gs. \<forall>p \<in> set (gc_ports c). \<forall>q \<in> set (gc_ports d).
     gp_ref p = gp_ref q \<or> gp_id p = gp_id q \<longrightarrow> c = d \<and> p = q)"

lemma port_in_found:
  assumes "unique_ports gs" "c \<in> set gs" "p \<in> set (gc_ports c)"
  shows "port_in gs (gp_ref p) = Some (c, p)"
  using assms
proof (induction gs)
  case (Cons d gs)
  show ?case
  proof (cases "find (\<lambda>q. gp_ref q = gp_ref p) (gc_ports d)")
    case None
    then have "c \<noteq> d" using Cons.prems(3) by (auto simp: find_None_iff)
    then have c: "c \<in> set gs" using Cons.prems(2) by simp
    have "unique_ports gs" using Cons.prems(1) unfolding unique_ports_def by (meson list.set_intros(2))
    then show ?thesis using Cons.IH [OF _ c Cons.prems(3)] None by simp
  next
    case (Some q)
    then have "q \<in> set (gc_ports d)" "gp_ref q = gp_ref p" by (auto simp: find_Some_iff)
    then have "d = c \<and> q = p" using Cons.prems unfolding unique_ports_def by (meson list.set_intros(1))
    then show ?thesis using Some by simp
  qed
qed simp

lemma port_in_Some: "port_in gs r = Some (c, p) \<Longrightarrow> c \<in> set gs \<and> p \<in> set (gc_ports c) \<and> gp_ref p = r"
  by (induction gs) (auto simp: find_Some_iff split: option.splits)

text \<open>What the signals and the replies say of a port.\<close>

definition port_facts :: "jack_graph_client list \<Rightarrow> ref \<Rightarrow> (u64 \<times> string \<times> u64 \<times> string) option" where
  "port_facts gs r = map_option (\<lambda>(c, p). (gc_id c, gc_name c, gp_id p, gp_name p)) (port_in gs r)"

lemma port_info_found:
  "unique_ports gs \<Longrightarrow> c \<in> set gs \<Longrightarrow> p \<in> set (gc_ports c) \<Longrightarrow> port_facts gs (gp_ref p) = Some (gc_id c, gc_name c, gp_id p, gp_name p)"
  by (simp add: port_facts_def port_in_found)

lemma connection_entry_info:
  "connection_entry g x =
     (case port_facts (g_clients g) (gx_port1 x) of
        None \<Rightarrow> Undefined
      | Some a \<Rightarrow> (case port_facts (g_clients g) (gx_port2 x) of None \<Rightarrow> Undefined | Some b \<Rightarrow> Value (a, b, gx_id x)))"
  by (auto simp: connection_entry_def port_at_def port_facts_def split: option.splits)

lemma c_list_append: "c_list f (xs @ ys) = c_bind (c_list f xs) (\<lambda>a. c_map (\<lambda>b. a @ b) (c_list f ys))"
proof (induction xs)
  case Nil
  then show ?case by (cases "c_list f ys") simp_all
next
  case (Cons x xs)
  then show ?case by (cases "f x"; cases "c_list f xs"; cases "c_list f ys") simp_all
qed

lemma c_list_Value: "c_list f xs = Value ys \<longleftrightarrow> list_all2 (\<lambda>x y. f x = Value y) xs ys"
proof (induction xs arbitrary: ys)
  case (Cons x xs)
  show ?case
  proof (cases "c_list f xs")
    case (Value zs)
    then have "list_all2 (\<lambda>x y. f x = Value y) xs zs' \<longleftrightarrow> zs' = zs" for zs' using Cons [of zs'] by auto
    then show ?thesis using Value by (cases "f x") (auto simp: list_all2_Cons1)
  qed (use Cons in \<open>cases "f x"; auto simp: list_all2_Cons1\<close>)+
qed auto

section \<open>A listener\<close>

type_synonym heard_graph = "client_row list \<times> connection_row list"

definition on_entry :: "u64 \<Rightarrow> (port_row list \<Rightarrow> port_row list) \<Rightarrow> client_row \<Rightarrow> client_row" where
  "on_entry i f ce = (case ce of (j, n, ps) \<Rightarrow> if j = i then (j, n, f ps) else ce)"

fun hear :: "signal \<Rightarrow> heard_graph \<Rightarrow> heard_graph" where
  "hear (GraphChanged v) h = h"
| "hear (ClientAppeared v i n) (cs, xs) = (cs @ [(i, n, [])], xs)"
| "hear (ClientDisappeared v i n) (cs, xs) = (filter (\<lambda>c. fst c \<noteq> i) cs, xs)"
| "hear (PortAppeared v ci cn i n fl ty) (cs, xs) = (map (on_entry ci (\<lambda>ps. ps @ [(i, n, fl, ty)])) cs, xs)"
| "hear (PortDisappeared v ci cn i n) (cs, xs) = (map (on_entry ci (filter (\<lambda>p. fst p \<noteq> i))) cs, xs)"
| "hear (PortsConnected v c1 cn1 p1 pn1 c2 cn2 p2 pn2 i) (cs, xs) = (cs, xs @ [((c1, cn1, p1, pn1), (c2, cn2, p2, pn2), i)])"
| "hear (PortsDisconnected v c1 cn1 p1 pn1 c2 cn2 p2 pn2 i) (cs, xs) = (cs, filter (\<lambda>x. snd (snd x) \<noteq> i) xs)"

definition heard :: "jack_graph \<Rightarrow> heard_graph" where
  "heard g = fold hear (signals g) ([], [])"

lemma heard_changed:
  "heard (changed sig g) = hear (sig (version g + 1)) (heard g)" "version (changed sig g) = version g + 1"
  "g_clients (changed sig g) = g_clients g" "g_connections (changed sig g) = g_connections g" "g_next (changed sig g) = g_next g"
  "length (signals (changed sig g)) = length (signals g) + 2"
  by (simp_all add: changed_def heard_def Let_def)

section \<open>Invariant\<close>

definition shape_ok :: "jack_graph \<Rightarrow> bool" where
  "shape_ok g \<longleftrightarrow>
     inj_on gc_ref (set (g_clients g)) \<and> inj_on gc_id (set (g_clients g)) \<and> unique_ports (g_clients g) \<and>
     (\<forall>c \<in> set (g_clients g). gc_ref c < g_next g \<and> (\<forall>p \<in> set (gc_ports c). gp_ref p < g_next g)) \<and>
     (\<forall>x \<in> set (g_connections g). gx_ref x < g_next g \<and> port_facts (g_clients g) (gx_port1 x) \<noteq> None \<and> port_facts (g_clients g) (gx_port2 x) \<noteq> None) \<and>
     inj_on gx_ref (set (g_connections g)) \<and> inj_on gx_id (set (g_connections g))"

definition heard_ok :: "jack_graph \<Rightarrow> bool" where
  "heard_ok g \<longleftrightarrow>
     fst (heard g) = map client_entry (g_clients g) \<and> c_list (connection_entry g) (g_connections g) = Value (snd (heard g)) \<and>
     version g = 1 + of_nat (length (signals g) div 2)"

definition graph_ok :: "jack_graph \<Rightarrow> bool" where
  "graph_ok g \<longleftrightarrow> shape_ok g \<and> heard_ok g"

lemma init_ok: "graph_ok jack_controller_patchbay_init"
  by (simp add: graph_ok_def shape_ok_def heard_ok_def jack_controller_patchbay_init_def unique_ports_def heard_def)

lemma connection_entry_cong: "g_clients g' = g_clients g \<Longrightarrow> connection_entry g' = connection_entry g"
  by (rule ext) (simp only: connection_entry_info)

lemma shape_changed [simp]: "shape_ok (changed sig g) = shape_ok g"
  by (simp add: shape_ok_def heard_changed)

lemma heard_step:
  assumes "heard_ok g" "signals g0 = signals g" "version g0 = version g"
    and "c_list (connection_entry g) (g_connections g) = Value xs"
    and "\<And>v. hear (sig v) (map client_entry (g_clients g), xs) = (map client_entry (g_clients g0), ys)"
    and "c_list (connection_entry g0) (g_connections g0) = Value ys"
  shows "heard_ok (changed sig g0)"
proof -
  have h: "heard g0 = (map client_entry (g_clients g), xs)"
    using assms(1,2,4) by (cases "heard g") (simp add: heard_ok_def heard_def)
  then show ?thesis using assms
    by (simp add: heard_ok_def heard_changed connection_entry_cong [of "changed sig g0" g0])
qed

text \<open>New clients and ports, with the same connections.\<close>

lemma shape_keep:
  assumes "shape_ok g" "inj_on gc_ref (set gs)" "inj_on gc_id (set gs)" "unique_ports gs" "g_next g \<le> n"
    and "\<And>c. c \<in> set gs \<Longrightarrow> gc_ref c < n" "\<And>c p. c \<in> set gs \<Longrightarrow> p \<in> set (gc_ports c) \<Longrightarrow> gp_ref p < n"
    and "\<And>x. x \<in> set (g_connections g) \<Longrightarrow> port_facts gs (gx_port1 x) = port_facts (g_clients g) (gx_port1 x)"
    and "\<And>x. x \<in> set (g_connections g) \<Longrightarrow> port_facts gs (gx_port2 x) = port_facts (g_clients g) (gx_port2 x)"
  shows "shape_ok (g\<lparr>g_clients := gs, g_next := n\<rparr>)"
proof -
  have x: "gx_ref x < n \<and> port_facts gs (gx_port1 x) \<noteq> None \<and> port_facts gs (gx_port2 x) \<noteq> None" if "x \<in> set (g_connections g)" for x
  proof -
    have "gx_ref x < g_next g \<and> port_facts (g_clients g) (gx_port1 x) \<noteq> None \<and> port_facts (g_clients g) (gx_port2 x) \<noteq> None"
      using assms(1) that unfolding shape_ok_def by blast
    then show ?thesis using assms(5) unfolding assms(8) [OF that] assms(9) [OF that] by linarith
  qed
  have "inj_on gx_ref (set (g_connections g))" "inj_on gx_id (set (g_connections g))" using assms(1) by (simp_all add: shape_ok_def)
  then show ?thesis using assms(2-4,6,7) x by (simp add: shape_ok_def)
qed

text \<open>Entries of connections stay as they are when the ports they end at do.\<close>

lemma entries_stable:
  assumes "\<And>x. x \<in> set ys \<Longrightarrow> port_facts (g_clients g') (gx_port1 x) = port_facts (g_clients g) (gx_port1 x)"
    and "\<And>x. x \<in> set ys \<Longrightarrow> port_facts (g_clients g') (gx_port2 x) = port_facts (g_clients g) (gx_port2 x)"
  shows "c_list (connection_entry g') ys = c_list (connection_entry g) ys"
proof -
  have "connection_entry g' x = connection_entry g x" if "x \<in> set ys" for x
    unfolding connection_entry_info assms(1) [OF that] assms(2) [OF that] ..
  then show ?thesis by (induction ys) simp_all
qed

lemma client_entry_id [simp]: "fst (client_entry c) = gc_id c"
  by (simp add: client_entry_def)

lemma entries_defined: "heard_ok g \<Longrightarrow> \<exists>xs. c_list (connection_entry g) (g_connections g) = Value xs"
  by (auto simp: heard_ok_def)

lemma port_info_append_new: "gc_ports d = [] \<Longrightarrow> port_facts (gs @ [d]) r = port_facts gs r"
proof -
  assume "gc_ports d = []"
  then have "port_in (gs @ [d]) r = port_in gs r" by (induction gs) (simp_all split: option.split)
  then show ?thesis by (simp add: port_facts_def)
qed

lemma appeared_ok:
  assumes "graph_ok g" "\<forall>c \<in> set (g_clients g). gc_id c \<noteq> i"
    and "jack_controller_patchbay_client_appeared_callback i n pid g = (g', ctx)"
  shows "graph_ok g' \<and> g_connections g' = g_connections g \<and> ctx = Some (g_next g) \<and> g_next g' = Suc (g_next g) \<and>
    g_clients g' = g_clients g @ [\<lparr>gc_ref = g_next g, gc_id = i, gc_name = n, gc_pid = pid, gc_ports = []\<rparr>]"
proof -
  define d where "d = \<lparr>gc_ref = g_next g, gc_id = i, gc_name = n, gc_pid = pid, gc_ports = []\<rparr>"
  define g0 where "g0 = g\<lparr>g_clients := g_clients g @ [d], g_next := Suc (g_next g)\<rparr>"
  have g': "g' = changed (\<lambda>v. ClientAppeared v i n) g0" "ctx = Some (g_next g)"
    using assms(3) by (simp_all add: jack_controller_patchbay_client_appeared_callback_def d_def g0_def Let_def)
  have cs: "g_clients g0 = g_clients g @ [d]" "g_connections g0 = g_connections g" "g_next g0 = Suc (g_next g)" by (simp_all add: g0_def)
  have ok: "shape_ok g" "heard_ok g" using assms(1) by (simp_all add: graph_ok_def)
  have "unique_ports (g_clients g0)" using ok(1) unfolding cs shape_ok_def unique_ports_def by (auto simp: d_def)
  moreover have "port_facts (g_clients g0) r = port_facts (g_clients g) r" for r by (simp add: cs port_info_append_new d_def)
  ultimately have "shape_ok g0" using ok(1) assms(2) by (auto simp: shape_ok_def cs d_def less_SucI)
  moreover have "heard_ok g'"
  proof -
    obtain xs where xs: "c_list (connection_entry g) (g_connections g) = Value xs" using entries_defined [OF ok(2)] by blast
    have "c_list (connection_entry g0) (g_connections g) = c_list (connection_entry g) (g_connections g)"
      by (rule entries_stable) (simp_all add: cs port_info_append_new d_def)
    then show ?thesis unfolding g'
      by (intro heard_step [OF ok(2) _ _ xs]) (simp_all add: cs xs, simp_all add: g0_def d_def client_entry_def)
  qed
  ultimately show ?thesis using g' cs by (simp add: graph_ok_def heard_changed d_def)
qed

lemma client_at_found: "inj_on gc_ref (set (g_clients g)) \<Longrightarrow> c \<in> set (g_clients g) \<Longrightarrow> client_at g (gc_ref c) = Value c"
  by (simp add: client_at_def find_inj)

lemma port_at_found: "unique_ports (g_clients g) \<Longrightarrow> c \<in> set (g_clients g) \<Longrightarrow> p \<in> set (gc_ports c) \<Longrightarrow> port_at g (gp_ref p) = Value (c, p)"
  by (simp add: port_at_def port_in_found)

lemma port_info_unique_cong:
  assumes "unique_ports gs" "unique_ports gs'"
    and "\<And>c p. c \<in> set gs \<Longrightarrow> p \<in> set (gc_ports c) \<Longrightarrow> gp_ref p = r \<Longrightarrow>
      \<exists>c' \<in> set gs'. gc_id c' = gc_id c \<and> gc_name c' = gc_name c \<and> p \<in> set (gc_ports c')"
    and "port_facts gs r \<noteq> None"
  shows "port_facts gs' r = port_facts gs r"
proof -
  obtain c p where cp: "port_in gs r = Some (c, p)" using assms(4) by (auto simp: port_facts_def)
  then have m: "c \<in> set gs" "p \<in> set (gc_ports c)" "gp_ref p = r" using port_in_Some by blast+
  then obtain c' where c': "c' \<in> set gs'" "gc_id c' = gc_id c" "gc_name c' = gc_name c" "p \<in> set (gc_ports c')" using assms(3) by blast
  have "port_facts gs' (gp_ref p) = Some (gc_id c', gc_name c', gp_id p, gp_name p)" by (rule port_info_found [OF assms(2) c'(1,4)])
  moreover have "port_facts gs (gp_ref p) = Some (gc_id c, gc_name c, gp_id p, gp_name p)" by (rule port_info_found [OF assms(1) m(1,2)])
  ultimately show ?thesis using c'(2,3) m(3) by simp
qed

lemma disappeared_ok:
  assumes "graph_ok g" "c \<in> set (g_clients g)" "gc_ports c = []"
  shows "\<exists>g'. jack_controller_patchbay_client_disappeared_callback (gc_id c) (Some (gc_ref c)) g = Value g' \<and> graph_ok g' \<and>
    g_connections g' = g_connections g \<and> g_next g' = g_next g \<and> g_clients g' = filter (\<lambda>d. gc_ref d \<noteq> gc_ref c) (g_clients g)"
proof -
  define g0 where "g0 = g\<lparr>g_clients := filter (\<lambda>d. gc_ref d \<noteq> gc_ref c) (g_clients g)\<rparr>"
  have ok: "shape_ok g" "heard_ok g" using assms(1) by (simp_all add: graph_ok_def)
  have inj: "inj_on gc_ref (set (g_clients g))" "inj_on gc_id (set (g_clients g))" "unique_ports (g_clients g)" using ok(1) by (simp_all add: shape_ok_def)
  let ?g' = "changed (\<lambda>v. ClientDisappeared v (gc_id c) (gc_name c)) g0"
  have r: "jack_controller_patchbay_client_disappeared_callback (gc_id c) (Some (gc_ref c)) g = Value ?g'"
    using client_at_found [OF inj(1) assms(2)] by (simp add: jack_controller_patchbay_client_disappeared_callback_def g0_def)
  have u: "unique_ports (g_clients g0)" using inj(3) by (auto simp: unique_ports_def g0_def)
  have pi: "port_facts (g_clients g0) r = port_facts (g_clients g) r" if "port_facts (g_clients g) r \<noteq> None" for r
  proof (rule port_info_unique_cong [OF inj(3) u _ that])
    fix d p assume "d \<in> set (g_clients g)" "p \<in> set (gc_ports d)"
    then have "d \<noteq> c" using assms(3) by auto
    then have "d \<in> set (g_clients g0)" using \<open>d \<in> set (g_clients g)\<close> assms(2) inj_on_eq_iff [OF inj(1)] by (simp add: g0_def)
    then show "\<exists>c' \<in> set (g_clients g0). gc_id c' = gc_id d \<and> gc_name c' = gc_name d \<and> p \<in> set (gc_ports c')" using \<open>p \<in> set (gc_ports d)\<close> by blast
  qed
  have sub: "set (g_clients g0) \<subseteq> set (g_clients g)" "g_connections g0 = g_connections g" "g_next g0 = g_next g" by (auto simp: g0_def)
  have "g0 = g\<lparr>g_clients := g_clients g0, g_next := g_next g\<rparr>" by (simp add: g0_def)
  moreover have "shape_ok \<dots>"
    by (rule shape_keep [OF ok(1) inj_on_subset [OF inj(1) sub(1)] inj_on_subset [OF inj(2) sub(1)] u])
      (use ok(1) sub(1) pi in \<open>auto simp: shape_ok_def\<close>)
  ultimately have "shape_ok g0" by metis
  moreover have "heard_ok ?g'"
  proof -
    obtain xs where xs: "c_list (connection_entry g) (g_connections g) = Value xs" using entries_defined [OF ok(2)] by blast
    have "c_list (connection_entry g0) (g_connections g) = c_list (connection_entry g) (g_connections g)"
      by (rule entries_stable) (use ok(1) pi in \<open>simp_all add: shape_ok_def\<close>)
    moreover have "filter (\<lambda>e. fst e \<noteq> gc_id c) (map client_entry (g_clients g)) = map client_entry (g_clients g0)"
    proof -
      have "filter (\<lambda>d. gc_id d \<noteq> gc_id c) (g_clients g) = filter (\<lambda>d. gc_ref d \<noteq> gc_ref c) (g_clients g)"
        by (rule filter_cong) (use inj assms(2) inj_on_eq_iff in \<open>metis+\<close>)
      then show ?thesis by (simp add: filter_map comp_def g0_def)
    qed
    ultimately show ?thesis
      by (intro heard_step [OF ok(2) _ _ xs]) (simp_all add: xs, simp_all add: g0_def xs)
  qed
  ultimately show ?thesis using r by (simp add: graph_ok_def heard_changed g0_def)
qed

lemma port_appeared_ok:
  assumes "graph_ok g" "c \<in> set (g_clients g)" "\<forall>d \<in> set (g_clients g). \<forall>q \<in> set (gc_ports d). gp_id q \<noteq> i"
  shows "\<exists>g'. jack_controller_patchbay_port_appeared_callback (gc_id c) (Some (gc_ref c)) i n fl ty g = Value (g', Some (g_next g)) \<and> graph_ok g' \<and>
    g_connections g' = g_connections g \<and> g_next g' = Suc (g_next g) \<and>
    g_clients g' = map (\<lambda>d. if gc_ref d = gc_ref c
      then d\<lparr>gc_ports := gc_ports d @ [\<lparr>gp_ref = g_next g, gp_id = i, gp_name = n, gp_flags = fl, gp_type = ty\<rparr>]\<rparr> else d) (g_clients g)"
proof -
  define p where "p = \<lparr>gp_ref = g_next g, gp_id = i, gp_name = n, gp_flags = fl, gp_type = ty\<rparr>"
  define add where "add = (\<lambda>d :: jack_graph_client. if gc_ref d = gc_ref c then d\<lparr>gc_ports := gc_ports d @ [p]\<rparr> else d)"
  define g0 where "g0 = g\<lparr>g_clients := map add (g_clients g), g_next := Suc (g_next g)\<rparr>"
  have ok: "shape_ok g" "heard_ok g" using assms(1) by (simp_all add: graph_ok_def)
  have inj: "inj_on gc_ref (set (g_clients g))" "inj_on gc_id (set (g_clients g))" "unique_ports (g_clients g)" using ok(1) by (simp_all add: shape_ok_def)
  have lt: "gc_ref d < g_next g" "q \<in> set (gc_ports d) \<Longrightarrow> gp_ref q < g_next g" if "d \<in> set (g_clients g)" for d q
    using ok(1) that by (auto simp: shape_ok_def)
  let ?g' = "changed (\<lambda>v. PortAppeared v (gc_id c) (gc_name c) i n fl ty) g0"
  have r: "jack_controller_patchbay_port_appeared_callback (gc_id c) (Some (gc_ref c)) i n fl ty g = Value (?g', Some (g_next g))"
    unfolding jack_controller_patchbay_port_appeared_callback_def deref_def g0_def add_def p_def Let_def
    by (simp add: client_at_found [OF inj(1) assms(2)])
  have ad: "gc_ref (add d) = gc_ref d" "gc_id (add d) = gc_id d" "gc_name (add d) = gc_name d" "set (gc_ports d) \<subseteq> set (gc_ports (add d))"
    "set (gc_ports (add d)) \<subseteq> insert p (set (gc_ports d))" for d by (auto simp: add_def)
  have new: "p \<in> set (gc_ports (add d)) \<Longrightarrow> d = c" if "d \<in> set (g_clients g)" for d
  proof (rule ccontr)
    assume a: "p \<in> set (gc_ports (add d))" "d \<noteq> c"
    then have "p \<in> set (gc_ports d)" using that assms(2) inj_on_eq_iff [OF inj(1)] by (simp add: add_def)
    then show False using lt(2) [OF that, of p] by (simp add: p_def)
  qed
  have u: "unique_ports (map add (g_clients g))"
    unfolding unique_ports_def
  proof (intro ballI impI)
    fix c1 c2 p1 p2
    assume a: "c1 \<in> set (map add (g_clients g))" "c2 \<in> set (map add (g_clients g))" "p1 \<in> set (gc_ports c1)" "p2 \<in> set (gc_ports c2)"
      "gp_ref p1 = gp_ref p2 \<or> gp_id p1 = gp_id p2"
    obtain d1 d2 where d: "d1 \<in> set (g_clients g)" "c1 = add d1" "d2 \<in> set (g_clients g)" "c2 = add d2" using a(1,2) by auto
    have o: "p1 = p \<and> d1 = c \<or> p1 \<in> set (gc_ports d1)" "p2 = p \<and> d2 = c \<or> p2 \<in> set (gc_ports d2)"
      using a(3,4) d new [OF d(1)] new [OF d(3)] ad(5) by blast+
    have old: "gp_ref q \<noteq> gp_ref p \<and> gp_id q \<noteq> gp_id p" if "q \<in> set (gc_ports d)" "d \<in> set (g_clients g)" for q d
      using that lt(2) [OF that(2,1)] assms(3) by (auto simp: p_def)
    show "c1 = c2 \<and> p1 = p2"
    proof (cases "p1 = p \<or> p2 = p")
      case True
      then show ?thesis using o old d a(5) by metis
    next
      case False
      then have "p1 \<in> set (gc_ports d1)" "p2 \<in> set (gc_ports d2)" using o by auto
      then have "d1 = d2 \<and> p1 = p2" using inj(3) d(1,3) a(5) unfolding unique_ports_def by meson
      then show ?thesis using d by simp
    qed
  qed
  have pi: "port_facts (map add (g_clients g)) r = port_facts (g_clients g) r" if "port_facts (g_clients g) r \<noteq> None" for r
  proof (rule port_info_unique_cong [OF inj(3) u _ that])
    fix d q assume "d \<in> set (g_clients g)" "q \<in> set (gc_ports d)"
    then show "\<exists>c' \<in> set (map add (g_clients g)). gc_id c' = gc_id d \<and> gc_name c' = gc_name d \<and> q \<in> set (gc_ports c')"
      by (intro bexI [of _ "add d"]) (use ad(2,3) ad(4) [of d] in auto)
  qed
  have "shape_ok g0" unfolding g0_def
  proof (rule shape_keep [OF ok(1) _ _ u])
    show "inj_on gc_ref (set (map add (g_clients g)))" "inj_on gc_id (set (map add (g_clients g)))"
      using inj(1,2) by (auto simp: inj_on_def ad)
  next
    fix d assume "d \<in> set (map add (g_clients g))"
    then obtain x where "x \<in> set (g_clients g)" "d = add x" by auto
    then show "gc_ref d < Suc (g_next g)" using lt(1) [of x] ad(1) by simp
  next
    fix d q assume "d \<in> set (map add (g_clients g))" "q \<in> set (gc_ports d)"
    then obtain d' where "d' \<in> set (g_clients g)" "q = p \<or> q \<in> set (gc_ports d')" using ad(5) by auto
    then show "gp_ref q < Suc (g_next g)" using lt(2) [of d' q] by (auto simp: p_def)
  qed (use ok(1) pi in \<open>auto simp: shape_ok_def\<close>)
  moreover have "heard_ok ?g'"
  proof -
    obtain xs where xs: "c_list (connection_entry g) (g_connections g) = Value xs" using entries_defined [OF ok(2)] by blast
    have e: "c_list (connection_entry g0) (g_connections g) = c_list (connection_entry g) (g_connections g)"
      by (rule entries_stable) (use ok(1) pi in \<open>simp_all add: shape_ok_def g0_def\<close>)
    have m: "map (on_entry (gc_id c) (\<lambda>ps. ps @ [(i, n, fl, ty)])) (map client_entry (g_clients g)) = map client_entry (map add (g_clients g))"
    proof -
      have "on_entry (gc_id c) (\<lambda>ps. ps @ [(i, n, fl, ty)]) (client_entry d) = client_entry (add d)" if "d \<in> set (g_clients g)" for d
        using that assms(2) inj_on_eq_iff [OF inj(1)] inj_on_eq_iff [OF inj(2)] by (auto simp: on_entry_def client_entry_def add_def p_def)
      then show ?thesis by simp
    qed
    show ?thesis
      by (intro heard_step [OF ok(2) _ _ xs, of _ _ xs]) (use e xs m in \<open>simp_all add: g0_def\<close>)
  qed
  moreover have "g_clients ?g' = map add (g_clients g)" "g_connections ?g' = g_connections g" "g_next ?g' = Suc (g_next g)"
    by (simp_all add: heard_changed g0_def)
  ultimately show ?thesis using r unfolding add_def p_def graph_ok_def by (intro exI [of _ ?g']) simp
qed

lemma port_disappeared_ok:
  assumes "graph_ok g" "c \<in> set (g_clients g)" "p \<in> set (gc_ports c)"
    and "\<forall>x \<in> set (g_connections g). gx_port1 x \<noteq> gp_ref p \<and> gx_port2 x \<noteq> gp_ref p"
  shows "\<exists>g'. jack_controller_patchbay_port_disappeared_callback (gc_id c) (Some (gc_ref c)) (gp_id p) (Some (gp_ref p)) g = Value g' \<and> graph_ok g' \<and>
    g_connections g' = g_connections g \<and> g_next g' = g_next g \<and> g_clients g' = map (drop_port (gp_ref p)) (g_clients g)"
proof -
  let ?gs = "map (drop_port (gp_ref p)) (g_clients g)"
  define g0 where "g0 = g\<lparr>g_clients := ?gs\<rparr>"
  have ok: "shape_ok g" "heard_ok g" using assms(1) by (simp_all add: graph_ok_def)
  have inj: "inj_on gc_ref (set (g_clients g))" "inj_on gc_id (set (g_clients g))" "unique_ports (g_clients g)" using ok(1) by (simp_all add: shape_ok_def)
  let ?g' = "changed (\<lambda>v. PortDisappeared v (gc_id c) (gc_name c) (gp_id p) (gp_name p)) g0"
  have r: "jack_controller_patchbay_port_disappeared_callback (gc_id c) (Some (gc_ref c)) (gp_id p) (Some (gp_ref p)) g = Value ?g'"
    by (simp add: jack_controller_patchbay_port_disappeared_callback_def deref_def g0_def port_at_found [OF inj(3) assms(2,3)] client_at_found [OF inj(1) assms(2)])
  have dr: "gc_ref (drop_port r d) = gc_ref d" "gc_id (drop_port r d) = gc_id d" "gc_name (drop_port r d) = gc_name d"
    "set (gc_ports (drop_port r d)) = {q \<in> set (gc_ports d). gp_ref q \<noteq> r}" for r d by (auto simp: drop_port_def)
  have u: "unique_ports ?gs"
    unfolding unique_ports_def
  proof (intro ballI impI)
    fix c1 c2 p1 p2
    assume a: "c1 \<in> set ?gs" "c2 \<in> set ?gs" "p1 \<in> set (gc_ports c1)" "p2 \<in> set (gc_ports c2)" "gp_ref p1 = gp_ref p2 \<or> gp_id p1 = gp_id p2"
    obtain d1 d2 where d: "d1 \<in> set (g_clients g)" "c1 = drop_port (gp_ref p) d1" "d2 \<in> set (g_clients g)" "c2 = drop_port (gp_ref p) d2" using a(1,2) by auto
    have "p1 \<in> set (gc_ports d1)" "p2 \<in> set (gc_ports d2)" using a(3,4) d dr(4) by auto
    then have "d1 = d2 \<and> p1 = p2" using inj(3) d(1,3) a(5) unfolding unique_ports_def by meson
    then show "c1 = c2 \<and> p1 = p2" using d by simp
  qed
  have pi: "port_facts ?gs r = port_facts (g_clients g) r" if "port_facts (g_clients g) r \<noteq> None" "r \<noteq> gp_ref p" for r
  proof (rule port_info_unique_cong [OF inj(3) u _ that(1)])
    fix d q assume "d \<in> set (g_clients g)" "q \<in> set (gc_ports d)" "gp_ref q = r"
    then show "\<exists>c' \<in> set ?gs. gc_id c' = gc_id d \<and> gc_name c' = gc_name d \<and> q \<in> set (gc_ports c')"
      by (intro bexI [of _ "drop_port (gp_ref p) d"]) (use that(2) in \<open>auto simp: dr\<close>)
  qed
  have pc: "port_facts ?gs (gx_port1 x) = port_facts (g_clients g) (gx_port1 x)" "port_facts ?gs (gx_port2 x) = port_facts (g_clients g) (gx_port2 x)"
    if "x \<in> set (g_connections g)" for x
    using ok(1) that assms(4) unfolding shape_ok_def by (blast intro: pi)+
  have "shape_ok (g\<lparr>g_clients := ?gs, g_next := g_next g\<rparr>)"
  proof (rule shape_keep [OF ok(1) _ _ u _ _ _ pc])
    show "inj_on gc_ref (set ?gs)" "inj_on gc_id (set ?gs)" using inj(1,2) by (auto simp: inj_on_def dr)
  next
    fix d assume "d \<in> set ?gs"
    then obtain x where "x \<in> set (g_clients g)" "d = drop_port (gp_ref p) x" by auto
    then show "gc_ref d < g_next g" using ok(1) by (auto simp: shape_ok_def dr)
  next
    fix d q assume "d \<in> set ?gs" "q \<in> set (gc_ports d)"
    then obtain x where "x \<in> set (g_clients g)" "q \<in> set (gc_ports x)" by (auto simp: dr)
    then show "gp_ref q < g_next g" using ok(1) unfolding shape_ok_def by blast
  qed simp_all
  then have "shape_ok g0" by (simp add: g0_def)
  moreover have "heard_ok ?g'"
  proof -
    obtain xs where xs: "c_list (connection_entry g) (g_connections g) = Value xs" using entries_defined [OF ok(2)] by blast
    have e: "c_list (connection_entry g0) (g_connections g) = c_list (connection_entry g) (g_connections g)"
      by (rule entries_stable) (use pc in \<open>simp_all add: g0_def\<close>)
    have m: "map (on_entry (gc_id c) (filter (\<lambda>q. fst q \<noteq> gp_id p))) (map client_entry (g_clients g)) = map client_entry ?gs"
    proof -
      have "on_entry (gc_id c) (filter (\<lambda>q. fst q \<noteq> gp_id p)) (client_entry d) = client_entry (drop_port (gp_ref p) d)"
        if d: "d \<in> set (g_clients g)" for d
      proof -
        have q: "gp_id q \<noteq> gp_id p \<longleftrightarrow> gp_ref q \<noteq> gp_ref p" if "q \<in> set (gc_ports d)" for q
          using inj(3) d that assms(2,3) unfolding unique_ports_def by metis
        have "filter (\<lambda>q. gp_id q \<noteq> gp_id p) (gc_ports d) = filter (\<lambda>q. gp_ref q \<noteq> gp_ref p) (gc_ports d)" by (rule filter_cong) (use q in auto)
        moreover have "filter (\<lambda>q. gp_ref q \<noteq> gp_ref p) (gc_ports d) = gc_ports d" if "d \<noteq> c"
          using inj(3) d that assms(2,3) unfolding unique_ports_def by (intro filter_True) metis
        ultimately show ?thesis using d assms(2) inj_on_eq_iff [OF inj(2)]
          by (auto simp: on_entry_def client_entry_def drop_port_def filter_map comp_def)
      qed
      then show ?thesis by simp
    qed
    show ?thesis
      by (intro heard_step [OF ok(2) _ _ xs, of _ _ xs]) (use e xs m in \<open>simp_all add: g0_def\<close>)
  qed
  ultimately show ?thesis using r by (simp add: graph_ok_def heard_changed g0_def)
qed

lemma connected_ok:
  assumes "graph_ok g" "c1 \<in> set (g_clients g)" "p1 \<in> set (gc_ports c1)" "c2 \<in> set (g_clients g)" "p2 \<in> set (gc_ports c2)"
    and "\<forall>x \<in> set (g_connections g). gx_id x \<noteq> i"
  shows "\<exists>g'. jack_controller_patchbay_ports_connected_callback (gc_id c1) (gp_id p1) (Some (gp_ref p1)) (gc_id c2) (gp_id p2) (Some (gp_ref p2)) i g =
      Value (g', Some (g_next g)) \<and> graph_ok g' \<and> g_clients g' = g_clients g \<and> g_next g' = Suc (g_next g) \<and>
    g_connections g' = g_connections g @ [\<lparr>gx_ref = g_next g, gx_id = i, gx_port1 = gp_ref p1, gx_port2 = gp_ref p2\<rparr>]"
proof -
  define x where "x = \<lparr>gx_ref = g_next g, gx_id = i, gx_port1 = gp_ref p1, gx_port2 = gp_ref p2\<rparr>"
  define g0 where "g0 = g\<lparr>g_connections := g_connections g @ [x], g_next := Suc (g_next g)\<rparr>"
  have ok: "shape_ok g" "heard_ok g" using assms(1) by (simp_all add: graph_ok_def)
  have u: "unique_ports (g_clients g)" using ok(1) by (simp add: shape_ok_def)
  note at = port_at_found [OF u assms(2,3)] port_at_found [OF u assms(4,5)]
  note info = port_info_found [OF u assms(2,3)] port_info_found [OF u assms(4,5)]
  let ?g' = "changed (\<lambda>v. PortsConnected v (gc_id c1) (gc_name c1) (gp_id p1) (gp_name p1) (gc_id c2) (gc_name c2) (gp_id p2) (gp_name p2) i) g0"
  have r: "jack_controller_patchbay_ports_connected_callback (gc_id c1) (gp_id p1) (Some (gp_ref p1)) (gc_id c2) (gp_id p2) (Some (gp_ref p2)) i g =
      Value (?g', Some (g_next g))"
    by (simp add: jack_controller_patchbay_ports_connected_callback_def deref_def at g0_def x_def Let_def)
  have "shape_ok g0"
  proof -
    have "inj_on gx_ref (set (g_connections g @ [x]))" "inj_on gx_id (set (g_connections g @ [x]))"
      using ok(1) assms(6) by (auto simp: shape_ok_def x_def)
    moreover have "gx_ref y < Suc (g_next g) \<and> port_facts (g_clients g) (gx_port1 y) \<noteq> None \<and> port_facts (g_clients g) (gx_port2 y) \<noteq> None"
      if "y \<in> set (g_connections g @ [x])" for y
    proof (cases "y = x")
      case False
      then have "y \<in> set (g_connections g)" using that by simp
      then have "gx_ref y < g_next g \<and> port_facts (g_clients g) (gx_port1 y) \<noteq> None \<and> port_facts (g_clients g) (gx_port2 y) \<noteq> None"
        using ok(1) unfolding shape_ok_def by blast
      then show ?thesis by simp
    qed (simp add: x_def info)
    moreover have "gc_ref c < Suc (g_next g) \<and> (\<forall>p \<in> set (gc_ports c). gp_ref p < Suc (g_next g))" if "c \<in> set (g_clients g)" for c
      using ok(1) that unfolding shape_ok_def by (meson less_SucI)
    ultimately show ?thesis using ok(1) by (simp add: shape_ok_def g0_def)
  qed
  moreover have "heard_ok ?g'"
  proof -
    obtain xs where xs: "c_list (connection_entry g) (g_connections g) = Value xs" using entries_defined [OF ok(2)] by blast
    have "connection_entry g0 = connection_entry g" by (rule connection_entry_cong) (simp add: g0_def)
    then have "c_list (connection_entry g0) (g_connections g0) =
        Value (xs @ [((gc_id c1, gc_name c1, gp_id p1, gp_name p1), (gc_id c2, gc_name c2, gp_id p2, gp_name p2), i)])"
      using xs by (simp add: g0_def c_list_append connection_entry_info info x_def)
    then show ?thesis by (intro heard_step [OF ok(2) _ _ xs]) (simp_all add: g0_def)
  qed
  ultimately show ?thesis using r by (simp add: graph_ok_def heard_changed g0_def x_def)
qed

lemma disconnected_ok:
  assumes "graph_ok g" "c1 \<in> set (g_clients g)" "p1 \<in> set (gc_ports c1)" "c2 \<in> set (g_clients g)" "p2 \<in> set (gc_ports c2)"
    and "x \<in> set (g_connections g)"
  shows "\<exists>g'. jack_controller_patchbay_ports_disconnected_callback (gc_id c1) (gp_id p1) (Some (gp_ref p1)) (gc_id c2) (gp_id p2) (Some (gp_ref p2))
      (gx_id x) (Some (gx_ref x)) g = Value g' \<and> graph_ok g' \<and> g_clients g' = g_clients g \<and> g_next g' = g_next g \<and>
    g_connections g' = filter (\<lambda>y. gx_ref y \<noteq> gx_ref x) (g_connections g)"
proof -
  define g0 where "g0 = g\<lparr>g_connections := filter (\<lambda>y. gx_ref y \<noteq> gx_ref x) (g_connections g)\<rparr>"
  have ok: "shape_ok g" "heard_ok g" using assms(1) by (simp_all add: graph_ok_def)
  have u: "unique_ports (g_clients g)" "inj_on gx_ref (set (g_connections g))" "inj_on gx_id (set (g_connections g))" using ok(1) by (simp_all add: shape_ok_def)
  note at = port_at_found [OF u(1) assms(2,3)] port_at_found [OF u(1) assms(4,5)]
  let ?g' = "changed (\<lambda>v. PortsDisconnected v (gc_id c1) (gc_name c1) (gp_id p1) (gp_name p1) (gc_id c2) (gc_name c2) (gp_id p2) (gp_name p2) (gx_id x)) g0"
  have r: "jack_controller_patchbay_ports_disconnected_callback (gc_id c1) (gp_id p1) (Some (gp_ref p1)) (gc_id c2) (gp_id p2) (Some (gp_ref p2))
      (gx_id x) (Some (gx_ref x)) g = Value ?g'"
    using assms(6) by (auto simp: jack_controller_patchbay_ports_disconnected_callback_def deref_def at g0_def)
  have sub: "set (g_connections g0) \<subseteq> set (g_connections g)" by (auto simp: g0_def)
  have "shape_ok g0"
    using ok(1) inj_on_subset [OF u(2) sub] inj_on_subset [OF u(3) sub] by (simp add: shape_ok_def g0_def)
  moreover have "heard_ok ?g'"
  proof -
    obtain xs where xs: "c_list (connection_entry g) (g_connections g) = Value xs" using entries_defined [OF ok(2)] by blast
    have ce: "connection_entry g0 = connection_entry g" by (rule connection_entry_cong) (simp add: g0_def)
    have f: "list_all2 (\<lambda>y e. connection_entry g y = Value e) (filter (\<lambda>y. gx_ref y \<noteq> gx_ref x) ys) (filter (\<lambda>e. snd (snd e) \<noteq> gx_id x) es)"
      if "list_all2 (\<lambda>y e. connection_entry g y = Value e) ys es" "set ys \<subseteq> set (g_connections g)" for ys es
      using that
    proof (induction rule: list_all2_induct)
      case (Cons y ys e es)
      have "snd (snd e) = gx_id y" using Cons(1) by (auto simp: connection_entry_info split: option.splits)
      moreover have "gx_id y = gx_id x \<longleftrightarrow> gx_ref y = gx_ref x"
        using Cons.prems assms(6) inj_on_eq_iff [OF u(2)] inj_on_eq_iff [OF u(3)] by simp
      ultimately show ?case using Cons by simp
    qed simp
    have "c_list (connection_entry g0) (g_connections g0) = Value (filter (\<lambda>e. snd (snd e) \<noteq> gx_id x) xs)"
      unfolding ce c_list_Value using f [of "g_connections g" xs] xs [unfolded c_list_Value] by (simp add: g0_def)
    then show ?thesis by (intro heard_step [OF ok(2) _ _ xs]) (simp_all add: g0_def)
  qed
  ultimately show ?thesis using r by (simp add: graph_ok_def heard_changed g0_def)
qed

end
