(* ===== verification/Jackctl_Inv.thy ===== *)
theory Jackctl_Inv
  imports Patchbay_Inv
begin

text \<open>
  The control library and the patchbay agree: position by position their lists hold the same clients, ports and
  connections, and both follow the ports and connections of the server by name.
\<close>

section \<open>Agreement\<close>

definition port_match :: "jackctl_port \<Rightarrow> jack_graph_port \<Rightarrow> bool" where
  "port_match p q \<longleftrightarrow> jp_context p = Some (gp_ref q) \<and> jp_id p = gp_id q \<and> jp_name p = gp_name q"

definition client_match :: "jackctl_client \<Rightarrow> jack_graph_client \<Rightarrow> bool" where
  "client_match c d \<longleftrightarrow> jc_context c = Some (gc_ref d) \<and> jc_id c = gc_id d \<and> jc_name c = gc_name d \<and>
     list_all2 port_match (jc_ports c) (gc_ports d)"

definition ctl_ports :: "jackctl_client list \<Rightarrow> (string \<times> jackctl_port) set" where
  "ctl_ports cs = {(jc_name c, p) | c p. c \<in> set cs \<and> p \<in> set (jc_ports c)}"

definition connection_match :: "(string \<times> jackctl_port) set \<Rightarrow> jackctl_connection \<Rightarrow> jack_graph_connection \<Rightarrow> bool" where
  "connection_match P x y \<longleftrightarrow> jx_context x = Some (gx_ref y) \<and> jx_id x = gx_id y \<and>
     (\<exists>(n, p) \<in> P. jp_ref p = jx_port1 x \<and> jp_context p = Some (gx_port1 y)) \<and>
     (\<exists>(n, p) \<in> P. jp_ref p = jx_port2 x \<and> jp_context p = Some (gx_port2 y))"

definition full_name :: "string \<Rightarrow> jackctl_port \<Rightarrow> string" where
  "full_name n p = n @ '':'' @ jp_name p"

text \<open>The names of all ports, and the pairs of names that are connected.\<close>

definition port_names :: "jackctl_server \<Rightarrow> string set" where
  "port_names s = (\<lambda>(n, p). full_name n p) ` ctl_ports (ctl_clients s)"

definition linked_names :: "jackctl_server \<Rightarrow> (string \<times> string) set" where
  "linked_names s =
     {(full_name n p, full_name m q) | n p m q x. x \<in> set (ctl_connections s) \<and> (n, p) \<in> ctl_ports (ctl_clients s) \<and>
        (m, q) \<in> ctl_ports (ctl_clients s) \<and> jp_ref p = jx_port1 x \<and> jp_ref q = jx_port2 x}"

definition ctl_clients_ok :: "jackctl_server \<Rightarrow> bool" where
  "ctl_clients_ok s \<longleftrightarrow>
     inj_on jc_ref (set (ctl_clients s)) \<and> inj_on jc_name (set (ctl_clients s)) \<and> inj_on jc_context (set (ctl_clients s)) \<and>
     (\<forall>c \<in> set (ctl_clients s). jc_ref c < ctl_next s \<and> jc_id c < ctl_next_client_id s \<and> CHR '':'' \<notin> set (jc_name c))"

definition ctl_ports_ok :: "jackctl_server \<Rightarrow> bool" where
  "ctl_ports_ok s \<longleftrightarrow>
     inj_on (\<lambda>x. jp_ref (snd x)) (ctl_ports (ctl_clients s)) \<and> inj_on (\<lambda>x. jp_context (snd x)) (ctl_ports (ctl_clients s)) \<and>
     inj_on (\<lambda>x. (fst x, jp_name (snd x))) (ctl_ports (ctl_clients s)) \<and>
     (\<forall>(n, p) \<in> ctl_ports (ctl_clients s). jp_ref p < ctl_next s \<and> jp_id p < ctl_next_port_id s)"

definition connections_ok :: "jackctl_server \<Rightarrow> bool" where
  "connections_ok s \<longleftrightarrow>
     distinct (ctl_connections s) \<and> inj_on jx_context (set (ctl_connections s)) \<and>
     (\<forall>x \<in> set (ctl_connections s). jx_id x < ctl_next_connection_id s) \<and>
     (\<forall>x \<in> set (ctl_connections s). \<forall>y \<in> set (ctl_connections s). joins (jx_port1 x) (jx_port2 x) y \<longrightarrow> x = y)"

definition ctl_ok :: "jackctl_server \<Rightarrow> bool" where
  "ctl_ok s \<longleftrightarrow> graph_ok (graph s) \<and> ctl_clients_ok s \<and> ctl_ports_ok s \<and> connections_ok s \<and>
     list_all2 client_match (ctl_clients s) (jack_graph.g_clients (graph s)) \<and>
     list_all2 (connection_match (ctl_ports (ctl_clients s))) (ctl_connections s) (g_connections (graph s))"

section \<open>Names\<close>

lemma split_full: "CHR '':'' \<notin> set n \<Longrightarrow> split_name (n @ '':'' @ m) = Some (n, m)"
proof -
  assume a: "CHR '':'' \<notin> set n"
  have "dropWhile (\<lambda>ch. ch \<noteq> CHR '':'') (n @ CHR '':'' # m) = CHR '':'' # m" using a by (induction n) auto
  moreover have "takeWhile (\<lambda>ch. ch \<noteq> CHR '':'') (n @ CHR '':'' # m) = n" using a by (induction n) auto
  ultimately show ?thesis by (simp add: split_name_def)
qed

lemma split_name_Some: "split_name s = Some (n, m) \<Longrightarrow> s = n @ '':'' @ m \<and> CHR '':'' \<notin> set n"
proof -
  assume a: "split_name s = Some (n, m)"
  then obtain ch where d: "dropWhile (\<lambda>ch. ch \<noteq> CHR '':'') s = ch # m" "n = takeWhile (\<lambda>ch. ch \<noteq> CHR '':'') s"
    by (auto simp: split_name_def split: list.splits)
  have "ch = CHR '':''" using hd_dropWhile [of "\<lambda>ch. ch \<noteq> CHR '':''" s] d(1) by auto
  moreover have "s = n @ dropWhile (\<lambda>ch. ch \<noteq> CHR '':'') s" using d(2) by simp
  moreover have "CHR '':'' \<notin> set n" using d(2) set_takeWhileD by fastforce
  ultimately show ?thesis using d(1) by simp
qed

section \<open>Looking up\<close>

lemma list_all2_left: "list_all2 R xs ys \<Longrightarrow> x \<in> set xs \<Longrightarrow> \<exists>y \<in> set ys. R x y"
  by (metis in_set_conv_nth list_all2_lengthD list_all2_nthD)

lemma list_all2_right: "list_all2 R xs ys \<Longrightarrow> y \<in> set ys \<Longrightarrow> \<exists>x \<in> set xs. R x y"
  by (metis in_set_conv_nth list_all2_lengthD list_all2_nthD2)

lemma matched_client: "ctl_ok s \<Longrightarrow> c \<in> set (ctl_clients s) \<Longrightarrow> \<exists>d \<in> set (jack_graph.g_clients (graph s)). client_match c d"
  unfolding ctl_ok_def by (blast dest: list_all2_left)

lemma matched_graph_client: "ctl_ok s \<Longrightarrow> d \<in> set (jack_graph.g_clients (graph s)) \<Longrightarrow> \<exists>c \<in> set (ctl_clients s). client_match c d"
  by (auto simp: ctl_ok_def intro: list_all2_right)

lemma matched_connection:
  "ctl_ok s \<Longrightarrow> x \<in> set (ctl_connections s) \<Longrightarrow> \<exists>y \<in> set (g_connections (graph s)). connection_match (ctl_ports (ctl_clients s)) x y"
  by (auto simp: ctl_ok_def intro: list_all2_left)

lemma matched_port: "client_match c d \<Longrightarrow> p \<in> set (jc_ports c) \<Longrightarrow> \<exists>q \<in> set (gc_ports d). port_match p q"
  unfolding client_match_def by (blast dest: list_all2_left)

lemma matched_graph_port: "client_match c d \<Longrightarrow> q \<in> set (gc_ports d) \<Longrightarrow> \<exists>p \<in> set (jc_ports c). port_match p q"
  by (auto simp: client_match_def intro: list_all2_right)

lemma find_port_Some:
  assumes "ctl_ok s" "find_port s full = Some (c, p)"
  shows "c \<in> set (ctl_clients s)" "p \<in> set (jc_ports c)" "full = full_name (jc_name c) p" "(jc_name c, p) \<in> ctl_ports (ctl_clients s)"
proof -
  obtain n m where 1: "split_name full = Some (n, m)" "jackctl_find_client s n = Some c" "jackctl_find_client_port_by_name c m = Some p"
    using assms(2) by (auto simp: find_port_def split: option.splits)
  show "c \<in> set (ctl_clients s)" "p \<in> set (jc_ports c)"
    using 1(2,3) by (auto simp: jackctl_find_client_def jackctl_find_client_port_by_name_def find_Some_iff)
  moreover have "jc_name c = n" "jp_name p = m" using 1(2,3) by (auto simp: jackctl_find_client_def jackctl_find_client_port_by_name_def find_Some_iff)
  ultimately show "full = full_name (jc_name c) p" "(jc_name c, p) \<in> ctl_ports (ctl_clients s)"
    using split_name_Some [OF 1(1)] by (auto simp: full_name_def ctl_ports_def)
qed

lemma find_port_found:
  assumes "ctl_ok s" "full \<in> port_names s"
  shows "\<exists>c p. find_port s full = Some (c, p)"
proof -
  obtain c p where cp: "c \<in> set (ctl_clients s)" "p \<in> set (jc_ports c)" "full = full_name (jc_name c) p"
    using assms(2) by (auto simp: port_names_def ctl_ports_def)
  have co: "inj_on jc_name (set (ctl_clients s))" "CHR '':'' \<notin> set (jc_name c)" using assms(1) cp(1) by (auto simp: ctl_ok_def ctl_clients_ok_def)
  have "split_name full = Some (jc_name c, jp_name p)" using split_full [OF co(2)] cp(3) by (simp add: full_name_def)
  moreover have "jackctl_find_client s (jc_name c) = Some c" using find_inj [OF co(1) cp(1)] by (simp add: jackctl_find_client_def)
  moreover have "jackctl_find_client_port_by_name c (jp_name p) \<noteq> None" using cp(2) by (auto simp: jackctl_find_client_port_by_name_def find_None_iff)
  ultimately show ?thesis by (auto simp: find_port_def)
qed

section \<open>A new client\<close>

definition room :: "jackctl_server \<Rightarrow> bool" where
  "room s \<longleftrightarrow> ctl_next_client_id s < ctl_next_client_id s + 1 \<and> ctl_next_port_id s < ctl_next_port_id s + 1 \<and>
     ctl_next_connection_id s < ctl_next_connection_id s + 1"

lemma context_bounds:
  assumes "ctl_ok s"
  shows "c \<in> set (ctl_clients s) \<Longrightarrow> \<exists>r. jc_context c = Some r \<and> r < g_next (graph s)"
    "(n, p) \<in> ctl_ports (ctl_clients s) \<Longrightarrow> \<exists>r. jp_context p = Some r \<and> r < g_next (graph s)"
    "x \<in> set (ctl_connections s) \<Longrightarrow> \<exists>r. jx_context x = Some r \<and> r < g_next (graph s)"
proof -
  have sh: "shape_ok (graph s)" using assms by (simp add: ctl_ok_def graph_ok_def)
  show "\<exists>r. jc_context c = Some r \<and> r < g_next (graph s)" if "c \<in> set (ctl_clients s)"
    using matched_client [OF assms that] sh by (auto simp: client_match_def shape_ok_def)
  show "\<exists>r. jp_context p = Some r \<and> r < g_next (graph s)" if np: "(n, p) \<in> ctl_ports (ctl_clients s)"
  proof -
    obtain c where c: "c \<in> set (ctl_clients s)" "p \<in> set (jc_ports c)" using np by (auto simp: ctl_ports_def)
    obtain d where d: "d \<in> set (jack_graph.g_clients (graph s))" "client_match c d" using matched_client [OF assms c(1)] by blast
    obtain q where "q \<in> set (gc_ports d)" "port_match p q" using matched_port [OF d(2) c(2)] by blast
    then show ?thesis using sh d(1) unfolding shape_ok_def port_match_def by blast
  qed
  show "\<exists>r. jx_context x = Some r \<and> r < g_next (graph s)" if xs: "x \<in> set (ctl_connections s)"
  proof -
    obtain y where "y \<in> set (g_connections (graph s))" "connection_match (ctl_ports (ctl_clients s)) x y"
      using matched_connection [OF assms xs] by blast
    then show ?thesis using sh unfolding shape_ok_def connection_match_def by blast
  qed
qed

lemma ctl_create_ok:
  assumes "ctl_ok s" "room s" "CHR '':'' \<notin> set n" "jackctl_find_or_create_client s n pid = (s1, c)"
  shows "ctl_ok s1 \<and> c \<in> set (ctl_clients s1) \<and> jc_name c = n \<and> ctl_ports (ctl_clients s1) = ctl_ports (ctl_clients s) \<and>
    ctl_connections s1 = ctl_connections s \<and> ctl_next_port_id s1 = ctl_next_port_id s"
proof (cases "jackctl_find_client s n")
  case (Some d)
  then have "s1 = s" "c = d" using assms(4) by (simp_all add: jackctl_find_or_create_client_def)
  moreover have "d \<in> set (ctl_clients s)" "jc_name d = n" using Some by (auto simp: jackctl_find_client_def find_Some_iff)
  ultimately show ?thesis using assms(1) by simp
next
  case None
  then have new: "\<forall>d \<in> set (ctl_clients s). jc_name d \<noteq> n" by (auto simp: jackctl_find_client_def find_None_iff)
  let ?r = "ctl_next s" and ?i = "ctl_next_client_id s" and ?g = "graph s"
  have co: "ctl_clients_ok s" "ctl_ports_ok s" "connections_ok s" "graph_ok ?g" using assms(1) by (simp_all add: ctl_ok_def)
  have old: "jc_ref d \<noteq> ?r" if "d \<in> set (ctl_clients s)" for d using co(1) that by (auto simp: ctl_clients_ok_def)
  define c0 where "c0 = \<lparr>jc_ref = ?r, jc_id = ?i, jc_name = n, jc_pid = pid, jc_ports = [], jc_context = None\<rparr>"
  obtain pid' g ctx where a: "jack_controller_patchbay_client_appeared_callback ?i n pid' ?g = (g, ctx)"
    and s1: "s1 = upd_ctl_client ?r (\<lambda>c. c\<lparr>jc_context := ctx\<rparr>) (s\<lparr>ctl_next_client_id := ?i + 1, ctl_clients := ctl_clients s @ [c0], ctl_next := Suc ?r, graph := g\<rparr>)"
    and c: "c = c0\<lparr>jc_context := ctx\<rparr>"
    using assms(4) None by (auto simp: jackctl_find_or_create_client_def c0_def Let_def split: prod.splits)
  have fresh: "gc_id d \<noteq> ?i" if dg: "d \<in> set (jack_graph.g_clients ?g)" for d
  proof -
    obtain c' where "c' \<in> set (ctl_clients s)" "client_match c' d" using matched_graph_client [OF assms(1) dg] by blast
    then show ?thesis using co(1) by (auto simp: ctl_clients_ok_def client_match_def)
  qed
  define d0 where "d0 = \<lparr>gc_ref = g_next ?g, gc_id = ?i, gc_name = n, gc_pid = pid', gc_ports = []\<rparr>"
  have g: "graph_ok g" "g_connections g = g_connections ?g" "ctx = Some (g_next ?g)" "jack_graph.g_clients g = jack_graph.g_clients ?g @ [d0]"
    using appeared_ok [OF co(4) _ a] fresh by (auto simp: d0_def)
  have "map (\<lambda>d. if jc_ref d = ?r then d\<lparr>jc_context := ctx\<rparr> else d) (ctl_clients s) = ctl_clients s"
    by (rule map_idI) (use old in auto)
  then have cs: "ctl_clients s1 = ctl_clients s @ [c]" by (simp add: s1 upd_ctl_client_def c c0_def)
  have rest: "ctl_connections s1 = ctl_connections s" "graph s1 = g" "ctl_next s1 = Suc ?r" "ctl_next_client_id s1 = ?i + 1"
    "ctl_next_port_id s1 = ctl_next_port_id s" "ctl_next_connection_id s1 = ctl_next_connection_id s" by (simp_all add: s1 upd_ctl_client_def)
  have P: "ctl_ports (ctl_clients s1) = ctl_ports (ctl_clients s)" unfolding cs by (auto simp: ctl_ports_def c c0_def)
  have "inj_on jc_context (set (ctl_clients s1))"
    using co(1) context_bounds(1) [OF assms(1)] by (fastforce simp: cs c g(3) ctl_clients_ok_def)
  moreover have "inj_on jc_ref (set (ctl_clients s1))" "inj_on jc_name (set (ctl_clients s1))"
    using co(1) old new by (auto simp: cs c c0_def ctl_clients_ok_def)
  moreover have "jc_ref d < Suc ?r \<and> jc_id d < ?i + 1 \<and> CHR '':'' \<notin> set (jc_name d)" if "d \<in> set (ctl_clients s1)" for d
  proof (cases "d = c")
    case False
    then have "d \<in> set (ctl_clients s)" using that cs by simp
    then have "jc_ref d < ?r" "jc_id d < ?i" "CHR '':'' \<notin> set (jc_name d)" using co(1) by (auto simp: ctl_clients_ok_def)
    then show ?thesis using assms(2) by (auto simp: room_def)
  qed (use assms(2,3) in \<open>simp add: c c0_def room_def\<close>)
  ultimately have "ctl_clients_ok s1" by (simp add: ctl_clients_ok_def rest)
  moreover have "ctl_ports_ok s1" using co(2) by (auto simp: ctl_ports_ok_def P rest less_SucI)
  moreover have "connections_ok s1" using co(3) by (simp add: connections_ok_def rest)
  moreover have "client_match c d0" by (simp add: client_match_def c c0_def d0_def g(3))
  ultimately have "ctl_ok s1" using assms(1) g by (simp add: ctl_ok_def rest P [unfolded cs] cs list_all2_appendI)
  then show ?thesis using cs P rest c by (simp add: c0_def)
qed

section \<open>A new port\<close>

lemma linked_refs:
  assumes "ctl_ok s" "x \<in> set (ctl_connections s)"
  shows "\<exists>n p. (n, p) \<in> ctl_ports (ctl_clients s) \<and> jp_ref p = jx_port1 x" "\<exists>n p. (n, p) \<in> ctl_ports (ctl_clients s) \<and> jp_ref p = jx_port2 x"
  using matched_connection [OF assms] by (auto simp: connection_match_def)

lemma connection_match_mono:
  "P \<subseteq> Q \<Longrightarrow> list_all2 (connection_match P) xs ys \<Longrightarrow> list_all2 (connection_match Q) xs ys"
  by (erule list_all2_mono) (auto simp: connection_match_def)

definition append_port :: "ref \<Rightarrow> jackctl_port \<Rightarrow> jackctl_client \<Rightarrow> jackctl_client" where
  "append_port r p c = (if jc_ref c = r then c\<lparr>jc_ports := jc_ports c @ [p]\<rparr> else c)"

lemma append_port_fields [simp]:
  "jc_ref (append_port r p c) = jc_ref c" "jc_id (append_port r p c) = jc_id c" "jc_name (append_port r p c) = jc_name c"
  "jc_context (append_port r p c) = jc_context c"
  by (simp_all add: append_port_def)

lemma append_ports:
  assumes "c \<in> set cs" "inj_on jc_ref (set cs)"
  shows "ctl_ports (map (append_port (jc_ref c) p) cs) = insert (jc_name c, p) (ctl_ports cs)"
proof (intro equalityI subsetI)
  fix x assume "x \<in> ctl_ports (map (append_port (jc_ref c) p) cs)"
  then obtain d q where d: "d \<in> set cs" "x = (jc_name d, q)" "q \<in> set (jc_ports (append_port (jc_ref c) p d))" by (auto simp: ctl_ports_def)
  then show "x \<in> insert (jc_name c, p) (ctl_ports cs)"
    using assms inj_on_eq_iff [OF assms(2)] by (auto simp: append_port_def ctl_ports_def split: if_splits)
next
  fix x assume "x \<in> insert (jc_name c, p) (ctl_ports cs)"
  then consider "x = (jc_name c, p)" | d q where "d \<in> set cs" "x = (jc_name d, q)" "q \<in> set (jc_ports d)" by (auto simp: ctl_ports_def)
  then show "x \<in> ctl_ports (map (append_port (jc_ref c) p) cs)"
  proof cases
    case 1
    have "p \<in> set (jc_ports (append_port (jc_ref c) p c))" by (simp add: append_port_def)
    then show ?thesis using 1 assms(1) unfolding ctl_ports_def by (auto intro!: exI [of _ "append_port (jc_ref c) p c"])
  next
    case 2
    have "q \<in> set (jc_ports (append_port (jc_ref c) p d))" using 2(3) by (simp add: append_port_def)
    then show ?thesis using 2 unfolding ctl_ports_def by (auto intro!: exI [of _ "append_port (jc_ref c) p d"])
  qed
qed

lemma list_all2_conj_members: "list_all2 R xs ys \<Longrightarrow> list_all2 (\<lambda>x y. x \<in> set xs \<and> y \<in> set ys \<and> R x y) xs ys"
  by (simp add: list_all2_conv_all_nth)

lemma same_client:
  assumes "ctl_ok s" "c \<in> set (ctl_clients s)" "d \<in> set (jack_graph.g_clients (graph s))" "client_match c d"
    and "c1 \<in> set (ctl_clients s) \<and> d1 \<in> set (jack_graph.g_clients (graph s)) \<and> client_match c1 d1"
  shows "jc_ref c1 = jc_ref c \<longleftrightarrow> gc_ref d1 = gc_ref d"
proof -
  have "inj_on jc_ref (set (ctl_clients s))" "inj_on jc_context (set (ctl_clients s))" using assms(1) by (simp_all add: ctl_ok_def ctl_clients_ok_def)
  then have "jc_ref c1 = jc_ref c \<longleftrightarrow> c1 = c" "jc_context c1 = jc_context c \<longleftrightarrow> c1 = c" using assms(2,5) inj_on_eq_iff by metis+
  then show ?thesis using assms(4,5) by (auto simp: client_match_def)
qed

lemma add_port_ok:
  assumes "ctl_ok s" "ctl_next_port_id s < ctl_next_port_id s + 1" "c \<in> set (ctl_clients s)" "full_name (jc_name c) p \<notin> port_names s"
    and "jp_ref p = ctl_next s" "jp_id p = ctl_next_port_id s"
  shows "\<exists>g ctx. jack_controller_patchbay_port_appeared_callback (jc_id c) (jc_context c) (jp_id p) (jp_name p) (jp_flags p) (jp_type p) (graph s) = Value (g, ctx) \<and>
    (let s' = upd_ctl_client (jc_ref c) (\<lambda>c. c\<lparr>jc_ports := jc_ports c @ [p\<lparr>jp_context := ctx\<rparr>]\<rparr>)
                (s\<lparr>ctl_next_port_id := ctl_next_port_id s + 1, ctl_next := Suc (ctl_next s), graph := g\<rparr>)
     in ctl_ok s' \<and> ctl_ports (ctl_clients s') = insert (jc_name c, p\<lparr>jp_context := ctx\<rparr>) (ctl_ports (ctl_clients s)) \<and> ctl_connections s' = ctl_connections s)"
proof -
  let ?cs = "ctl_clients s" and ?gs = "jack_graph.g_clients (graph s)"
  have co: "ctl_clients_ok s" "ctl_ports_ok s" "connections_ok s" "graph_ok (graph s)" "list_all2 client_match ?cs ?gs"
    "list_all2 (connection_match (ctl_ports ?cs)) (ctl_connections s) (g_connections (graph s))"
    using assms(1) by (simp_all add: ctl_ok_def)
  obtain d where d: "d \<in> set ?gs" "client_match c d" using matched_client [OF assms(1,3)] by blast
  then have cd: "jc_context c = Some (gc_ref d)" "jc_id c = gc_id d" by (simp_all add: client_match_def)
  have injr: "inj_on jc_ref (set ?cs)" using co(1) by (simp add: ctl_clients_ok_def)
  have fresh: "gp_id q \<noteq> jp_id p" if dq: "d' \<in> set ?gs" "q \<in> set (gc_ports d')" for d' q
  proof -
    obtain c' where c': "c' \<in> set ?cs" "client_match c' d'" using matched_graph_client [OF assms(1) dq(1)] by blast
    then obtain p' where p': "p' \<in> set (jc_ports c')" "port_match p' q" using matched_graph_port [OF c'(2) dq(2)] by blast
    then have "(jc_name c', p') \<in> ctl_ports ?cs" using c'(1) by (auto simp: ctl_ports_def)
    then have "jp_id p' < ctl_next_port_id s" using co(2) by (auto simp: ctl_ports_ok_def)
    then show ?thesis using p'(2) assms(6) by (auto simp: port_match_def)
  qed
  define q where "q = \<lparr>gp_ref = g_next (graph s), gp_id = jp_id p, gp_name = jp_name p, gp_flags = jp_flags p, gp_type = jp_type p\<rparr>"
  obtain g where g: "jack_controller_patchbay_port_appeared_callback (jc_id c) (jc_context c) (jp_id p) (jp_name p) (jp_flags p) (jp_type p) (graph s) = Value (g, Some (g_next (graph s)))"
    "graph_ok g" "g_connections g = g_connections (graph s)"
    "jack_graph.g_clients g = map (\<lambda>e. if gc_ref e = gc_ref d then e\<lparr>gc_ports := gc_ports e @ [q]\<rparr> else e) ?gs"
    using port_appeared_ok [OF co(4) d(1), of "jp_id p" "jp_name p" "jp_flags p" "jp_type p"] fresh unfolding cd q_def by auto
  define p' where "p' = p\<lparr>jp_context := Some (g_next (graph s))\<rparr>"
  define s' where "s' = upd_ctl_client (jc_ref c) (\<lambda>c. c\<lparr>jc_ports := jc_ports c @ [p']\<rparr>)
                (s\<lparr>ctl_next_port_id := ctl_next_port_id s + 1, ctl_next := Suc (ctl_next s), graph := g\<rparr>)"
  have cs': "ctl_clients s' = map (append_port (jc_ref c) p') ?cs" by (simp add: s'_def upd_ctl_client_def append_port_def)
  have rest: "ctl_connections s' = ctl_connections s" "graph s' = g" "ctl_next s' = Suc (ctl_next s)" "ctl_next_client_id s' = ctl_next_client_id s"
    "ctl_next_port_id s' = ctl_next_port_id s + 1" "ctl_next_connection_id s' = ctl_next_connection_id s" by (simp_all add: s'_def upd_ctl_client_def)
  have P: "ctl_ports (ctl_clients s') = insert (jc_name c, p') (ctl_ports ?cs)" unfolding cs' by (rule append_ports [OF assms(3) injr])
  have "ctl_clients_ok s'"
    using co(1) by (auto simp: ctl_clients_ok_def cs' rest inj_on_def less_SucI)
  moreover have "ctl_ports_ok s'"
  proof -
    have 1: "jp_ref r \<noteq> jp_ref p' \<and> jp_context r \<noteq> jp_context p' \<and> (m, jp_name r) \<noteq> (jc_name c, jp_name p') \<and> jp_ref r < Suc (ctl_next s) \<and> jp_id r < ctl_next_port_id s + 1"
      if mr: "(m, r) \<in> ctl_ports ?cs" for m r
    proof -
      have "jp_ref r < ctl_next s" "jp_id r < ctl_next_port_id s" using co(2) mr by (auto simp: ctl_ports_ok_def)
      moreover have "full_name m r \<noteq> full_name (jc_name c) p" using assms(4) mr unfolding port_names_def by force
      moreover have "jp_context r \<noteq> Some (g_next (graph s))" using context_bounds(2) [OF assms(1) mr] by auto
      ultimately show ?thesis using assms(2,5) by (auto simp: p'_def full_name_def)
    qed
    have "inj_on (\<lambda>x. jp_ref (snd x)) (ctl_ports (ctl_clients s'))" "inj_on (\<lambda>x. jp_context (snd x)) (ctl_ports (ctl_clients s'))"
      "inj_on (\<lambda>x. (fst x, jp_name (snd x))) (ctl_ports (ctl_clients s'))"
      using co(2) 1 unfolding P ctl_ports_ok_def by (fastforce simp: inj_on_insert)+
    moreover have "jp_ref p' < Suc (ctl_next s) \<and> jp_id p' < ctl_next_port_id s + 1" using assms(2,5,6) by (simp add: p'_def)
    ultimately show ?thesis using 1 unfolding ctl_ports_ok_def P rest by blast
  qed
  moreover have "connections_ok s'" using co(3) by (simp add: connections_ok_def rest)
  moreover have "list_all2 client_match (ctl_clients s') (jack_graph.g_clients g)"
    unfolding cs' g(4) list_all2_map1 list_all2_map2
  proof (rule list_all2_mono [OF co(5) [THEN list_all2_conj_members]])
    fix c1 d1 assume m: "c1 \<in> set ?cs \<and> d1 \<in> set ?gs \<and> client_match c1 d1"
    then have eq: "jc_ref c1 = jc_ref c \<longleftrightarrow> gc_ref d1 = gc_ref d"
      using same_client [OF assms(1) assms(3) d] by blast
    have "port_match p' q" by (simp add: port_match_def p'_def q_def)
    then show "client_match (append_port (jc_ref c) p' c1) (if gc_ref d1 = gc_ref d then d1\<lparr>gc_ports := gc_ports d1 @ [q]\<rparr> else d1)"
      using m eq by (auto simp: client_match_def append_port_def intro: list_all2_appendI)
  qed
  moreover have "list_all2 (connection_match (ctl_ports (ctl_clients s'))) (ctl_connections s') (g_connections g)"
    unfolding rest g(3) by (rule connection_match_mono [OF _ co(6)]) (auto simp: P)
  ultimately have "ctl_ok s'" using g(2) by (simp add: ctl_ok_def rest(2))
  then show ?thesis using g(1) P rest(1) unfolding s'_def p'_def Let_def by blast
qed

lemma linked_names_cong:
  assumes "ctl_ok s" "ctl_connections s' = ctl_connections s"
    and "\<And>n p. (n, p) \<in> ctl_ports (ctl_clients s') \<Longrightarrow> \<exists>x \<in> set (ctl_connections s). jp_ref p = jx_port1 x \<or> jp_ref p = jx_port2 x \<Longrightarrow> (n, p) \<in> ctl_ports (ctl_clients s)"
    and "\<And>n p. (n, p) \<in> ctl_ports (ctl_clients s) \<Longrightarrow> \<exists>x \<in> set (ctl_connections s). jp_ref p = jx_port1 x \<or> jp_ref p = jx_port2 x \<Longrightarrow> (n, p) \<in> ctl_ports (ctl_clients s')"
  shows "linked_names s' = linked_names s"
proof -
  have "x \<in> set (ctl_connections s) \<and> (n, p) \<in> ctl_ports (ctl_clients s') \<and> (m, q) \<in> ctl_ports (ctl_clients s') \<and> jp_ref p = jx_port1 x \<and> jp_ref q = jx_port2 x \<longleftrightarrow>
      x \<in> set (ctl_connections s) \<and> (n, p) \<in> ctl_ports (ctl_clients s) \<and> (m, q) \<in> ctl_ports (ctl_clients s) \<and> jp_ref p = jx_port1 x \<and> jp_ref q = jx_port2 x"
    for x n p m q using assms(3) [of n p] assms(3) [of m q] assms(4) [of n p] assms(4) [of m q] by blast
  then show ?thesis unfolding linked_names_def assms(2) by presburger
qed

lemma ctl_register_ok:
  assumes "ctl_ok s" "room s" "split_name (p_name (ports e ! i)) = Some (n, m)" "p_name (ports e ! i) \<notin> port_names s"
  shows "\<exists>s'. jackctl_port_registration_notify pid_of e i True s = Value s' \<and> ctl_ok s' \<and>
    port_names s' = insert (p_name (ports e ! i)) (port_names s) \<and> linked_names s' = linked_names s"
proof -
  have nm: "p_name (ports e ! i) = n @ '':'' @ m" "CHR '':'' \<notin> set n" using split_name_Some [OF assms(3)] by blast+
  define pid where "pid = (case jack_client_internal_by_id e (p_client_id (ports e ! i)) of
                   Some c \<Rightarrow> if cl_type (cmem e c) = ClientExternal then pid_of c else 0 | None \<Rightarrow> 0)"
  obtain s1 c where fc: "jackctl_find_or_create_client s n pid = (s1, c)" by fastforce
  have 1: "ctl_ok s1" "c \<in> set (ctl_clients s1)" "jc_name c = n" "ctl_ports (ctl_clients s1) = ctl_ports (ctl_clients s)"
    "ctl_connections s1 = ctl_connections s" "ctl_next_port_id s1 = ctl_next_port_id s"
    using ctl_create_ok [OF assms(1,2) nm(2) fc] by blast+
  define p where "p = \<lparr>jp_ref = ctl_next s1, jp_id = ctl_next_port_id s1, jp_name = m, jp_flags = p_flags (ports e ! i), jp_type = ptype_id (ports e ! i), jp_context = None\<rparr>"
  have fn: "full_name (jc_name c) p = p_name (ports e ! i)" using nm(1) 1(3) by (simp add: full_name_def p_def)
  have "full_name (jc_name c) p \<notin> port_names s1" using assms(4) fn 1(4) by (simp add: port_names_def)
  moreover have "ctl_next_port_id s1 < ctl_next_port_id s1 + 1" using assms(2) 1(6) by (simp add: room_def)
  ultimately have "\<exists>g ctx. jack_controller_patchbay_port_appeared_callback (jc_id c) (jc_context c) (jp_id p) (jp_name p) (jp_flags p) (jp_type p) (graph s1) = Value (g, ctx) \<and>
      (let s' = upd_ctl_client (jc_ref c) (\<lambda>c. c\<lparr>jc_ports := jc_ports c @ [p\<lparr>jp_context := ctx\<rparr>]\<rparr>)
                (s1\<lparr>ctl_next_port_id := ctl_next_port_id s1 + 1, ctl_next := Suc (ctl_next s1), graph := g\<rparr>)
     in ctl_ok s' \<and> ctl_ports (ctl_clients s') = insert (jc_name c, p\<lparr>jp_context := ctx\<rparr>) (ctl_ports (ctl_clients s1)) \<and> ctl_connections s' = ctl_connections s1)"
    by (intro add_port_ok [OF 1(1) _ 1(2)]) (simp_all add: p_def)
  then obtain g ctx where g:
    "jack_controller_patchbay_port_appeared_callback (jc_id c) (jc_context c) (jp_id p) (jp_name p) (jp_flags p) (jp_type p) (graph s1) = Value (g, ctx)"
    and s': "let s' = upd_ctl_client (jc_ref c) (\<lambda>c. c\<lparr>jc_ports := jc_ports c @ [p\<lparr>jp_context := ctx\<rparr>]\<rparr>)
                (s1\<lparr>ctl_next_port_id := ctl_next_port_id s1 + 1, ctl_next := Suc (ctl_next s1), graph := g\<rparr>)
     in ctl_ok s' \<and> ctl_ports (ctl_clients s') = insert (jc_name c, p\<lparr>jp_context := ctx\<rparr>) (ctl_ports (ctl_clients s1)) \<and> ctl_connections s' = ctl_connections s1"
    by blast
  define s' where "s' = upd_ctl_client (jc_ref c) (\<lambda>c. c\<lparr>jc_ports := jc_ports c @ [p\<lparr>jp_context := ctx\<rparr>]\<rparr>)
                (s1\<lparr>ctl_next_port_id := ctl_next_port_id s1 + 1, ctl_next := Suc (ctl_next s1), graph := g\<rparr>)"
  have r: "jackctl_port_registration_notify pid_of e i True s = Value s'"
    using g assms(3) fc unfolding jackctl_port_registration_notify_def Let_def pid_def [symmetric] s'_def p_def by simp
  have 2: "ctl_ok s'" "ctl_ports (ctl_clients s') = insert (jc_name c, p\<lparr>jp_context := ctx\<rparr>) (ctl_ports (ctl_clients s))" "ctl_connections s' = ctl_connections s"
    using s' 1(4,5) unfolding s'_def Let_def by simp_all
  have "port_names s' = insert (p_name (ports e ! i)) (port_names s)"
    using 2(2) fn by (simp add: port_names_def full_name_def)
  moreover have "linked_names s' = linked_names s"
  proof (rule linked_names_cong [OF assms(1) 2(3)])
    fix k q assume k: "(k, q) \<in> ctl_ports (ctl_clients s')" "\<exists>x \<in> set (ctl_connections s). jp_ref q = jx_port1 x \<or> jp_ref q = jx_port2 x"
    have lt: "jp_ref r < ctl_next s1" if "(j, r) \<in> ctl_ports (ctl_clients s)" for j r
      using 1(1) that unfolding ctl_ok_def ctl_ports_ok_def 1(4) by blast
    have "jp_ref q < ctl_next s1" using k(2) linked_refs [OF assms(1)] lt by metis
    then show "(k, q) \<in> ctl_ports (ctl_clients s)" using k(1) by (auto simp: 2(2) p_def)
  qed (simp add: 2(2))
  ultimately show ?thesis using r 2(1) by blast
qed

section \<open>Connections\<close>

lemma graph_port_of:
  assumes "ctl_ok s" "c \<in> set (ctl_clients s)" "p \<in> set (jc_ports c)"
  shows "\<exists>d q. d \<in> set (jack_graph.g_clients (graph s)) \<and> client_match c d \<and> q \<in> set (gc_ports d) \<and> port_match p q"
  using matched_client [OF assms(1,2)] matched_port [OF _ assms(3)] by blast

lemma full_name_inj:
  assumes "ctl_ok s" "(k, r) \<in> ctl_ports (ctl_clients s)" "(k', r') \<in> ctl_ports (ctl_clients s)" "full_name k r = full_name k' r'"
  shows "k = k' \<and> r = r'"
proof -
  have nc: "CHR '':'' \<notin> set j" if "(j, q) \<in> ctl_ports (ctl_clients s)" for j q
    using assms(1) that by (auto simp: ctl_ok_def ctl_clients_ok_def ctl_ports_def)
  have "k = k' \<and> jp_name r = jp_name r'"
    using assms(4) split_full [OF nc [OF assms(2)], of "jp_name r"] split_full [OF nc [OF assms(3)], of "jp_name r'"] by (simp add: full_name_def)
  moreover have "inj_on (\<lambda>x. (fst x, jp_name (snd x))) (ctl_ports (ctl_clients s))" using assms(1) by (simp add: ctl_ok_def ctl_ports_ok_def)
  ultimately show ?thesis using assms(2,3) inj_onD by fastforce
qed

lemma port_ref_inj:
  assumes "ctl_ok s" "(k, r) \<in> ctl_ports (ctl_clients s)" "(k', r') \<in> ctl_ports (ctl_clients s)" "jp_ref r = jp_ref r'"
  shows "k = k' \<and> r = r'"
proof -
  have i: "inj_on (\<lambda>x. jp_ref (snd x)) (ctl_ports (ctl_clients s))" using assms(1) by (simp add: ctl_ok_def ctl_ports_ok_def)
  show ?thesis using inj_onD [OF i, of "(k, r)" "(k', r')"] assms(2-4) by simp
qed

lemma linked_iff:
  assumes "ctl_ok s" "(n, p) \<in> ctl_ports (ctl_clients s)" "(m, q) \<in> ctl_ports (ctl_clients s)"
  shows "(full_name n p, full_name m q) \<in> linked_names s \<longleftrightarrow> (\<exists>x \<in> set (ctl_connections s). jx_port1 x = jp_ref p \<and> jx_port2 x = jp_ref q)"
proof
  assume "(full_name n p, full_name m q) \<in> linked_names s"
  then obtain n' p' m' q' x where l: "x \<in> set (ctl_connections s)" "(n', p') \<in> ctl_ports (ctl_clients s)" "(m', q') \<in> ctl_ports (ctl_clients s)"
    "jp_ref p' = jx_port1 x" "jp_ref q' = jx_port2 x" "full_name n p = full_name n' p'" "full_name m q = full_name m' q'"
    unfolding linked_names_def by blast
  show "\<exists>x \<in> set (ctl_connections s). jx_port1 x = jp_ref p \<and> jx_port2 x = jp_ref q"
    using l full_name_inj [OF assms(1,2) l(2)] full_name_inj [OF assms(1,3) l(3)] by auto
qed (use assms(2,3) in \<open>force simp: linked_names_def\<close>)

lemma linked_names_refs:
  assumes "ctl_ok s" "ctl_clients s' = ctl_clients s" "(n, p) \<in> ctl_ports (ctl_clients s)" "(m, q) \<in> ctl_ports (ctl_clients s)"
    and "(\<lambda>x. (jx_port1 x, jx_port2 x)) ` set (ctl_connections s') = insert (jp_ref p, jp_ref q) ((\<lambda>x. (jx_port1 x, jx_port2 x)) ` set (ctl_connections s))"
  shows "linked_names s' = insert (full_name n p, full_name m q) (linked_names s)"
proof -
  have ln: "linked_names t = {(full_name k a, full_name l b) | k a l b. (k, a) \<in> ctl_ports (ctl_clients t) \<and> (l, b) \<in> ctl_ports (ctl_clients t) \<and>
      (jp_ref a, jp_ref b) \<in> (\<lambda>x. (jx_port1 x, jx_port2 x)) ` set (ctl_connections t)}" for t
    unfolding linked_names_def by fast
  show ?thesis unfolding ln assms(2,5) using assms(3,4) port_ref_inj [OF assms(1)] by blast
qed

lemma ctl_connect_ok:
  assumes "ctl_ok s" "room s" "p_name (ports e ! i) \<in> port_names s" "p_name (ports e ! j) \<in> port_names s"
    and "(p_name (ports e ! i), p_name (ports e ! j)) \<notin> linked_names s" "(p_name (ports e ! j), p_name (ports e ! i)) \<notin> linked_names s"
  shows "\<exists>s'. jackctl_connection_notify e i j True s = Value s' \<and> ctl_ok s' \<and> port_names s' = port_names s \<and>
    linked_names s' = insert (p_name (ports e ! i), p_name (ports e ! j)) (linked_names s)"
proof -
  let ?cs = "ctl_clients s" and ?k = "ctl_next_connection_id s"
  obtain c1 p1 c2 p2 where f: "find_port s (p_name (ports e ! i)) = Some (c1, p1)" "find_port s (p_name (ports e ! j)) = Some (c2, p2)"
    using find_port_found [OF assms(1,3)] find_port_found [OF assms(1,4)] by blast
  note f1 = find_port_Some [OF assms(1) f(1)] and f2 = find_port_Some [OF assms(1) f(2)]
  obtain d1 q1 where q1: "d1 \<in> set (jack_graph.g_clients (graph s))" "client_match c1 d1" "q1 \<in> set (gc_ports d1)" "port_match p1 q1"
    using graph_port_of [OF assms(1) f1(1,2)] by blast
  obtain d2 q2 where q2: "d2 \<in> set (jack_graph.g_clients (graph s))" "client_match c2 d2" "q2 \<in> set (gc_ports d2)" "port_match p2 q2"
    using graph_port_of [OF assms(1) f2(1,2)] by blast
  have eq: "jc_id c1 = gc_id d1" "jp_id p1 = gp_id q1" "jp_context p1 = Some (gp_ref q1)" "jc_id c2 = gc_id d2" "jp_id p2 = gp_id q2" "jp_context p2 = Some (gp_ref q2)"
    using q1(2,4) q2(2,4) by (simp_all add: client_match_def port_match_def)
  have co: "ctl_clients_ok s" "ctl_ports_ok s" "connections_ok s" "graph_ok (graph s)" "list_all2 client_match ?cs (jack_graph.g_clients (graph s))"
    "list_all2 (connection_match (ctl_ports ?cs)) (ctl_connections s) (g_connections (graph s))"
    using assms(1) by (simp_all add: ctl_ok_def)
  have fresh: "\<forall>y \<in> set (g_connections (graph s)). gx_id y \<noteq> ?k"
  proof
    fix y assume "y \<in> set (g_connections (graph s))"
    then obtain x where "x \<in> set (ctl_connections s)" "connection_match (ctl_ports ?cs) x y" using list_all2_right [OF co(6)] by blast
    then show "gx_id y \<noteq> ?k" using co(3) by (auto simp: connections_ok_def connection_match_def)
  qed
  define y where "y = \<lparr>gx_ref = g_next (graph s), gx_id = ?k, gx_port1 = gp_ref q1, gx_port2 = gp_ref q2\<rparr>"
  obtain g where g: "jack_controller_patchbay_ports_connected_callback (gc_id d1) (gp_id q1) (Some (gp_ref q1)) (gc_id d2) (gp_id q2) (Some (gp_ref q2)) ?k (graph s) =
      Value (g, Some (g_next (graph s)))" "graph_ok g" "jack_graph.g_clients g = jack_graph.g_clients (graph s)" "g_connections g = g_connections (graph s) @ [y]"
    using connected_ok [OF co(4) q1(1,3) q2(1,3) fresh] by (auto simp: y_def)
  define x where "x = \<lparr>jx_id = ?k, jx_port1 = jp_ref p1, jx_port2 = jp_ref p2, jx_context = Some (g_next (graph s))\<rparr>"
  define s' where "s' = s\<lparr>ctl_next_connection_id := ?k + 1, ctl_connections := ctl_connections s @ [x], graph := g\<rparr>"
  have r: "jackctl_connection_notify e i j True s = Value s'"
    using g(1) unfolding jackctl_connection_notify_def by (simp add: f eq s'_def x_def)
  have no: "\<not> joins (jp_ref p1) (jp_ref p2) z" if "z \<in> set (ctl_connections s)" for z
    using assms(5,6) that linked_iff [OF assms(1) f1(4) f2(4)] linked_iff [OF assms(1) f2(4) f1(4)] f1(3) f2(3) by (auto simp: joins_def)
  have no': "\<not> joins (jx_port1 z) (jx_port2 z) x" if "z \<in> set (ctl_connections s)" for z
    using no [OF that] by (auto simp: joins_def x_def)
  have old: "jx_context z \<noteq> jx_context x \<and> jx_id z < ?k + 1" if z: "z \<in> set (ctl_connections s)" for z
  proof -
    have "jx_id z < ?k" using co(3) z by (auto simp: connections_ok_def)
    then show ?thesis using context_bounds(3) [OF assms(1) z] assms(2) by (auto simp: x_def room_def)
  qed
  have "connections_ok s'"
  proof -
    have "distinct (ctl_connections s @ [x])" "inj_on jx_context (set (ctl_connections s @ [x]))"
      using co(3) old unfolding connections_ok_def by (auto, metis)
    moreover have "jx_id z < ?k + 1" if "z \<in> set (ctl_connections s @ [x])" for z using that old assms(2) by (auto simp: x_def room_def)
    moreover have "z = w" if zw: "z \<in> set (ctl_connections s @ [x])" "w \<in> set (ctl_connections s @ [x])" "joins (jx_port1 z) (jx_port2 z) w" for z w
    proof (cases "z = x \<or> w = x")
      case True
      then show ?thesis using zw no no' by (auto simp: x_def)
    next
      case False
      then show ?thesis using zw co(3) unfolding connections_ok_def by auto
    qed
    ultimately show ?thesis by (simp add: connections_ok_def s'_def)
  qed
  moreover have "connection_match (ctl_ports ?cs) x y"
    using f1(4) f2(4) eq(3,6) unfolding connection_match_def x_def y_def by auto
  ultimately have "ctl_ok s'"
    using co g(2-4) by (simp add: ctl_ok_def s'_def ctl_clients_ok_def ctl_ports_ok_def list_all2_appendI)
  moreover have "linked_names s' = insert (full_name (jc_name c1) p1, full_name (jc_name c2) p2) (linked_names s)"
    by (rule linked_names_refs [OF assms(1) _ f1(4) f2(4)]) (simp_all add: s'_def x_def)
  ultimately show ?thesis using r f1(3) f2(3) by (simp add: port_names_def s'_def)
qed

lemma remove_first_unique:
  assumes "distinct xs" "x \<in> set xs" "\<And>y. y \<in> set xs \<Longrightarrow> P y \<longleftrightarrow> y = x"
  shows "remove_first P xs = filter (\<lambda>y. y \<noteq> x) xs \<and> find P xs = Some x"
  using assms
proof (induction xs)
  case (Cons y ys)
  show ?case
  proof (cases "y = x")
    case True
    then have "filter (\<lambda>y. y \<noteq> x) ys = ys" using Cons.prems(1) by (auto intro: filter_True)
    then show ?thesis using True Cons.prems(3) by simp
  next
    case False
    then show ?thesis using Cons by simp
  qed
qed simp

lemma list_all2_filters:
  "list_all2 R xs ys \<Longrightarrow> (\<And>x y. x \<in> set xs \<Longrightarrow> y \<in> set ys \<Longrightarrow> R x y \<Longrightarrow> P x \<longleftrightarrow> Q y) \<Longrightarrow> list_all2 R (filter P xs) (filter Q ys)"
  by (induction rule: list_all2_induct) auto

lemma linked_names_less:
  assumes "ctl_ok s" "ctl_clients s' = ctl_clients s" "(n, p) \<in> ctl_ports (ctl_clients s)" "(m, q) \<in> ctl_ports (ctl_clients s)"
    and "(\<lambda>x. (jx_port1 x, jx_port2 x)) ` set (ctl_connections s') = (\<lambda>x. (jx_port1 x, jx_port2 x)) ` set (ctl_connections s) - {(jp_ref p, jp_ref q)}"
  shows "linked_names s' = linked_names s - {(full_name n p, full_name m q)}"
proof (intro equalityI subrelI)
  have im: "(\<exists>x \<in> set (ctl_connections s'). jx_port1 x = a \<and> jx_port2 x = b) \<longleftrightarrow>
      (\<exists>x \<in> set (ctl_connections s). jx_port1 x = a \<and> jx_port2 x = b) \<and> (a, b) \<noteq> (jp_ref p, jp_ref q)" for a b
  proof -
    have 1: "(\<exists>x \<in> set xs. jx_port1 x = a \<and> jx_port2 x = b) \<longleftrightarrow> (a, b) \<in> (\<lambda>x. (jx_port1 x, jx_port2 x)) ` set xs" for xs by auto
    show ?thesis unfolding 1 assms(5) by blast
  qed
  fix a b
  {
    assume "(a, b) \<in> linked_names s'"
    then obtain k u l v where l: "a = full_name k u" "b = full_name l v" "(k, u) \<in> ctl_ports (ctl_clients s)" "(l, v) \<in> ctl_ports (ctl_clients s)"
      "\<exists>x \<in> set (ctl_connections s'). jx_port1 x = jp_ref u \<and> jx_port2 x = jp_ref v"
      unfolding linked_names_def assms(2) by force
    then have "(a, b) \<in> linked_names s" using im linked_iff [OF assms(1) l(3,4)] by simp
    moreover have "(a, b) \<noteq> (full_name n p, full_name m q)"
    proof
      assume "(a, b) = (full_name n p, full_name m q)"
      then have "u = p" "v = q" using l full_name_inj [OF assms(1)] assms(3,4) by auto
      then show False using l(5) im by simp
    qed
    ultimately show "(a, b) \<in> linked_names s - {(full_name n p, full_name m q)}" by simp
  next
    assume ab: "(a, b) \<in> linked_names s - {(full_name n p, full_name m q)}"
    then obtain k u l v where l: "a = full_name k u" "b = full_name l v" "(k, u) \<in> ctl_ports (ctl_clients s)" "(l, v) \<in> ctl_ports (ctl_clients s)"
      "\<exists>x \<in> set (ctl_connections s). jx_port1 x = jp_ref u \<and> jx_port2 x = jp_ref v"
      unfolding linked_names_def by force
    moreover have "(jp_ref u, jp_ref v) \<noteq> (jp_ref p, jp_ref q)"
    proof
      assume "(jp_ref u, jp_ref v) = (jp_ref p, jp_ref q)"
      then have "(k, u) = (n, p)" "(l, v) = (m, q)" using l(3,4) assms(3,4) port_ref_inj [OF assms(1)] by auto
      then show False using ab l(1,2) by simp
    qed
    ultimately have "\<exists>x \<in> set (ctl_connections s'). jx_port1 x = jp_ref u \<and> jx_port2 x = jp_ref v" using im by blast
    then show "(a, b) \<in> linked_names s'" using l(1-4) unfolding linked_names_def assms(2) by force
  }
qed

lemma ctl_disconnect_ok:
  assumes "ctl_ok s" "p_name (ports e ! i) \<in> port_names s" "p_name (ports e ! j) \<in> port_names s"
    and "(p_name (ports e ! i), p_name (ports e ! j)) \<in> linked_names s"
  shows "\<exists>s'. jackctl_connection_notify e i j False s = Value s' \<and> ctl_ok s' \<and> port_names s' = port_names s \<and>
    linked_names s' = linked_names s - {(p_name (ports e ! i), p_name (ports e ! j))}"
proof -
  let ?cs = "ctl_clients s"
  obtain c1 p1 c2 p2 where f: "find_port s (p_name (ports e ! i)) = Some (c1, p1)" "find_port s (p_name (ports e ! j)) = Some (c2, p2)"
    using find_port_found [OF assms(1,2)] find_port_found [OF assms(1,3)] by blast
  note f1 = find_port_Some [OF assms(1) f(1)] and f2 = find_port_Some [OF assms(1) f(2)]
  obtain d1 q1 where q1: "d1 \<in> set (jack_graph.g_clients (graph s))" "client_match c1 d1" "q1 \<in> set (gc_ports d1)" "port_match p1 q1"
    using graph_port_of [OF assms(1) f1(1,2)] by blast
  obtain d2 q2 where q2: "d2 \<in> set (jack_graph.g_clients (graph s))" "client_match c2 d2" "q2 \<in> set (gc_ports d2)" "port_match p2 q2"
    using graph_port_of [OF assms(1) f2(1,2)] by blast
  have eq: "jc_id c1 = gc_id d1" "jp_id p1 = gp_id q1" "jp_context p1 = Some (gp_ref q1)" "jc_id c2 = gc_id d2" "jp_id p2 = gp_id q2" "jp_context p2 = Some (gp_ref q2)"
    using q1(2,4) q2(2,4) by (simp_all add: client_match_def port_match_def)
  have co: "ctl_clients_ok s" "ctl_ports_ok s" "connections_ok s" "graph_ok (graph s)" "list_all2 client_match ?cs (jack_graph.g_clients (graph s))"
    "list_all2 (connection_match (ctl_ports ?cs)) (ctl_connections s) (g_connections (graph s))"
    using assms(1) by (simp_all add: ctl_ok_def)
  obtain x where x: "x \<in> set (ctl_connections s)" "jx_port1 x = jp_ref p1" "jx_port2 x = jp_ref p2"
    using assms(4) linked_iff [OF assms(1) f1(4) f2(4)] f1(3) f2(3) by auto
  obtain y where y: "y \<in> set (g_connections (graph s))" "connection_match (ctl_ports ?cs) x y" using matched_connection [OF assms(1) x(1)] by blast
  then have xy: "jx_id x = gx_id y" "jx_context x = Some (gx_ref y)" by (simp_all add: connection_match_def)
  have un: "joins (jp_ref p1) (jp_ref p2) z \<longleftrightarrow> z = x" if "z \<in> set (ctl_connections s)" for z
    using co(3) x that unfolding connections_ok_def by (metis joins_def)
  have rf: "remove_first (joins (jp_ref p1) (jp_ref p2)) (ctl_connections s) = filter (\<lambda>z. z \<noteq> x) (ctl_connections s)"
    "find (joins (jp_ref p1) (jp_ref p2)) (ctl_connections s) = Some x"
    using remove_first_unique [OF _ x(1) un] co(3) by (simp_all add: connections_ok_def)
  obtain g where g: "jack_controller_patchbay_ports_disconnected_callback (gc_id d1) (gp_id q1) (Some (gp_ref q1)) (gc_id d2) (gp_id q2) (Some (gp_ref q2))
      (gx_id y) (Some (gx_ref y)) (graph s) = Value g" "graph_ok g" "jack_graph.g_clients g = jack_graph.g_clients (graph s)"
    "g_connections g = filter (\<lambda>w. gx_ref w \<noteq> gx_ref y) (g_connections (graph s))"
    using disconnected_ok [OF co(4) q1(1,3) q2(1,3) y(1)] by blast
  define s' where "s' = s\<lparr>ctl_connections := filter (\<lambda>z. z \<noteq> x) (ctl_connections s), graph := g\<rparr>"
  have r: "jackctl_connection_notify e i j False s = Value s'"
    using g(1) unfolding jackctl_connection_notify_def by (simp add: f eq rf xy s'_def)
  have "connections_ok s'" using co(3) unfolding connections_ok_def s'_def by (auto intro: inj_on_subset)
  moreover have "list_all2 (connection_match (ctl_ports ?cs)) (filter (\<lambda>z. z \<noteq> x) (ctl_connections s)) (filter (\<lambda>w. gx_ref w \<noteq> gx_ref y) (g_connections (graph s)))"
  proof (rule list_all2_filters [OF co(6)])
    fix z w assume z: "z \<in> set (ctl_connections s)" "connection_match (ctl_ports ?cs) z w"
    have "z = x \<longleftrightarrow> jx_context z = jx_context x" using co(3) z(1) x(1) inj_on_eq_iff unfolding connections_ok_def by metis
    then show "z \<noteq> x \<longleftrightarrow> gx_ref w \<noteq> gx_ref y" using z(2) xy(2) by (auto simp: connection_match_def)
  qed
  ultimately have "ctl_ok s'" using co g(2-4) by (simp add: ctl_ok_def s'_def ctl_clients_ok_def ctl_ports_ok_def)
  moreover have "linked_names s' = linked_names s - {(full_name (jc_name c1) p1, full_name (jc_name c2) p2)}"
  proof (rule linked_names_less [OF assms(1) _ f1(4) f2(4)])
    have "z = x \<longleftrightarrow> (jx_port1 z, jx_port2 z) = (jp_ref p1, jp_ref p2)" if "z \<in> set (ctl_connections s)" for z
      using un [OF that] x by (auto simp: joins_def)
    then show "(\<lambda>x. (jx_port1 x, jx_port2 x)) ` set (ctl_connections s') = (\<lambda>x. (jx_port1 x, jx_port2 x)) ` set (ctl_connections s) - {(jp_ref p1, jp_ref p2)}"
      by (auto simp: s'_def)
  qed (simp add: s'_def)
  ultimately show ?thesis using r f1(3) f2(3) by (simp add: port_names_def s'_def)
qed

section \<open>Ports and clients that go\<close>

definition less_port :: "ref \<Rightarrow> jackctl_client \<Rightarrow> jackctl_client" where
  "less_port r c = c\<lparr>jc_ports := filter (\<lambda>p. jp_ref p \<noteq> r) (jc_ports c)\<rparr>"

lemma less_port_fields [simp]:
  "jc_ref (less_port r c) = jc_ref c" "jc_id (less_port r c) = jc_id c" "jc_name (less_port r c) = jc_name c" "jc_context (less_port r c) = jc_context c"
  "set (jc_ports (less_port r c)) = {p \<in> set (jc_ports c). jp_ref p \<noteq> r}"
  by (auto simp: less_port_def)

lemma less_ports: "ctl_ports (map (less_port r) cs) = {x \<in> ctl_ports cs. jp_ref (snd x) \<noteq> r}"
  apply (auto simp: ctl_ports_def)
  subgoal for c p by (intro exI [of _ "less_port r c"]) auto
  done

lemma drop_client_ok:
  assumes "ctl_ok s" "c \<in> set (ctl_clients s)" "jc_ports c = []"
  shows "\<exists>g. jack_controller_patchbay_client_disappeared_callback (jc_id c) (jc_context c) (graph s) = Value g \<and>
    (let s' = s\<lparr>ctl_clients := filter (\<lambda>d. jc_ref d \<noteq> jc_ref c) (ctl_clients s), graph := g\<rparr>
     in ctl_ok s' \<and> ctl_ports (ctl_clients s') = ctl_ports (ctl_clients s))"
proof -
  let ?cs = "ctl_clients s" and ?gs = "jack_graph.g_clients (graph s)"
  have co: "ctl_clients_ok s" "ctl_ports_ok s" "connections_ok s" "graph_ok (graph s)" "list_all2 client_match ?cs ?gs"
    "list_all2 (connection_match (ctl_ports ?cs)) (ctl_connections s) (g_connections (graph s))"
    using assms(1) by (simp_all add: ctl_ok_def)
  obtain d where d: "d \<in> set ?gs" "client_match c d" using matched_client [OF assms(1,2)] by blast
  then have cd: "jc_context c = Some (gc_ref d)" "jc_id c = gc_id d" "gc_ports d = []" using assms(3) by (simp_all add: client_match_def)
  obtain g where g: "jack_controller_patchbay_client_disappeared_callback (gc_id d) (Some (gc_ref d)) (graph s) = Value g" "graph_ok g"
    "g_connections g = g_connections (graph s)" "jack_graph.g_clients g = filter (\<lambda>e. gc_ref e \<noteq> gc_ref d) ?gs"
    using disappeared_ok [OF co(4) d(1) cd(3)] by blast
  define s' where "s' = s\<lparr>ctl_clients := filter (\<lambda>d. jc_ref d \<noteq> jc_ref c) ?cs, graph := g\<rparr>"
  have inj: "inj_on jc_ref (set ?cs)" using co(1) by (simp add: ctl_clients_ok_def)
  have P: "ctl_ports (ctl_clients s') = ctl_ports ?cs"
    using inj_on_eq_iff [OF inj] assms(2,3) by (fastforce simp: ctl_ports_def s'_def)
  have sub: "set (ctl_clients s') \<subseteq> set ?cs" by (auto simp: s'_def)
  have "ctl_clients_ok s'" using co(1) sub by (auto simp: ctl_clients_ok_def s'_def intro: inj_on_subset)
  moreover have "list_all2 client_match (ctl_clients s') (jack_graph.g_clients g)"
    unfolding g(4) s'_def by (simp, rule list_all2_filters [OF co(5)]) (use same_client [OF assms(1,2) d] in blast)
  moreover have "ctl_ports_ok s'" "connections_ok s'" using co(2,3) unfolding ctl_ports_ok_def connections_ok_def P by (simp_all add: s'_def)
  ultimately have "ctl_ok s'" using g(2,3) co(6) unfolding ctl_ok_def P by (simp add: s'_def)
  then show ?thesis using g(1) P unfolding cd Let_def s'_def by blast
qed

lemma drop_port_ok:
  assumes "ctl_ok s" "c \<in> set (ctl_clients s)" "p \<in> set (jc_ports c)"
    and "\<And>x. x \<in> set (ctl_connections s) \<Longrightarrow> jx_port1 x \<noteq> jp_ref p \<and> jx_port2 x \<noteq> jp_ref p"
  shows "\<exists>g. jack_controller_patchbay_port_disappeared_callback (jc_id c) (jc_context c) (jp_id p) (jp_context p) (graph s) = Value g \<and>
    ctl_ok (s\<lparr>ctl_clients := map (less_port (jp_ref p)) (ctl_clients s), graph := g\<rparr>)"
proof -
  let ?cs = "ctl_clients s" and ?gs = "jack_graph.g_clients (graph s)"
  have co: "ctl_clients_ok s" "ctl_ports_ok s" "connections_ok s" "graph_ok (graph s)" "list_all2 client_match ?cs ?gs"
    "list_all2 (connection_match (ctl_ports ?cs)) (ctl_connections s) (g_connections (graph s))"
    using assms(1) by (simp_all add: ctl_ok_def)
  obtain d q where d: "d \<in> set ?gs" "client_match c d" "q \<in> set (gc_ports d)" "port_match p q" using graph_port_of [OF assms(1-3)] by blast
  then have cd: "jc_context c = Some (gc_ref d)" "jc_id c = gc_id d" "jp_id p = gp_id q" "jp_context p = Some (gp_ref q)"
    by (simp_all add: client_match_def port_match_def)
  have mem: "(jc_name c, p) \<in> ctl_ports ?cs" using assms(2,3) by (auto simp: ctl_ports_def)
  have inj: "inj_on (\<lambda>x. jp_context (snd x)) (ctl_ports ?cs)" using co(2) by (simp add: ctl_ports_ok_def)
  have same: "jp_ref r = jp_ref p \<longleftrightarrow> jp_context r = jp_context p" if kr: "(k, r) \<in> ctl_ports ?cs" for k r
    using port_ref_inj [OF assms(1) kr mem] inj_on_eq_iff [OF inj kr mem] by auto
  have ends: "gx_port1 y \<noteq> gp_ref q \<and> gx_port2 y \<noteq> gp_ref q" if yg: "y \<in> set (g_connections (graph s))" for y
  proof -
    obtain x where x: "x \<in> set (ctl_connections s)" "connection_match (ctl_ports ?cs) x y" using list_all2_right [OF co(6) yg] by blast
    obtain k r l t where kr: "(k, r) \<in> ctl_ports ?cs" "jp_ref r = jx_port1 x" "jp_context r = Some (gx_port1 y)"
      "(l, t) \<in> ctl_ports ?cs" "jp_ref t = jx_port2 x" "jp_context t = Some (gx_port2 y)"
      using x(2) unfolding connection_match_def by blast
    show ?thesis using same [OF kr(1)] same [OF kr(4)] kr assms(4) [OF x(1)] cd(4) by auto
  qed
  obtain g where g: "jack_controller_patchbay_port_disappeared_callback (gc_id d) (Some (gc_ref d)) (gp_id q) (Some (gp_ref q)) (graph s) = Value g" "graph_ok g"
    "g_connections g = g_connections (graph s)" "jack_graph.g_clients g = map (drop_port (gp_ref q)) ?gs"
    using port_disappeared_ok [OF co(4) d(1,3)] ends by blast
  define s' where "s' = s\<lparr>ctl_clients := map (less_port (jp_ref p)) ?cs, graph := g\<rparr>"
  have P: "ctl_ports (ctl_clients s') = {x \<in> ctl_ports ?cs. jp_ref (snd x) \<noteq> jp_ref p}" by (simp add: s'_def less_ports)
  have sub: "ctl_ports (ctl_clients s') \<subseteq> ctl_ports ?cs" using P by auto
  have "ctl_clients_ok s'" using co(1) by (auto simp: ctl_clients_ok_def s'_def inj_on_def)
  moreover have "ctl_ports_ok s'"
    using co(2) sub unfolding ctl_ports_ok_def by (auto simp: s'_def intro: inj_on_subset)
  moreover have "connections_ok s'" using co(3) by (simp add: connections_ok_def s'_def)
  moreover have "list_all2 client_match (ctl_clients s') (jack_graph.g_clients g)"
    unfolding g(4) s'_def
  proof (simp add: list_all2_map1 list_all2_map2, rule list_all2_mono [OF list_all2_conj_members [OF co(5)]])
    fix c1 d1 assume m: "c1 \<in> set ?cs \<and> d1 \<in> set ?gs \<and> client_match c1 d1"
    have "list_all2 port_match (filter (\<lambda>r. jp_ref r \<noteq> jp_ref p) (jc_ports c1)) (filter (\<lambda>t. gp_ref t \<noteq> gp_ref q) (gc_ports d1))"
    proof (rule list_all2_filters)
      fix r t assume "r \<in> set (jc_ports c1)" "port_match r t"
      then have "(jc_name c1, r) \<in> ctl_ports ?cs" "jp_context r = Some (gp_ref t)" using m by (auto simp: ctl_ports_def port_match_def)
      then show "jp_ref r \<noteq> jp_ref p \<longleftrightarrow> gp_ref t \<noteq> gp_ref q" using same cd(4) by auto
    qed (use m in \<open>simp add: client_match_def\<close>)
    then show "client_match (less_port (jp_ref p) c1) (drop_port (gp_ref q) d1)"
      using m by (simp add: client_match_def less_port_def drop_port_def)
  qed
  moreover have "list_all2 (connection_match (ctl_ports (ctl_clients s'))) (ctl_connections s) (g_connections (graph s))"
  proof (rule list_all2_mono [OF list_all2_conj_members [OF co(6)]])
    fix x y assume m: "x \<in> set (ctl_connections s) \<and> y \<in> set (g_connections (graph s)) \<and> connection_match (ctl_ports ?cs) x y"
    then show "connection_match (ctl_ports (ctl_clients s')) x y"
      using assms(4) [of x] unfolding connection_match_def P by fastforce
  qed
  ultimately have "ctl_ok s'" using g(2,3) unfolding ctl_ok_def by (simp add: s'_def)
  then show ?thesis using g(1) unfolding cd s'_def by blast
qed

lemma remove_client_ports:
  assumes "ctl_ok s" "c \<in> set (ctl_clients s)" "p \<in> set (jc_ports c)"
  shows "map (\<lambda>d. if jc_ref d = jc_ref c then d\<lparr>jc_ports := filter (\<lambda>q. jp_ref q \<noteq> jp_ref p) (jc_ports c)\<rparr> else d) (ctl_clients s) =
    map (less_port (jp_ref p)) (ctl_clients s)"
proof (rule map_cong [OF refl])
  fix d assume d: "d \<in> set (ctl_clients s)"
  have inj: "inj_on jc_ref (set (ctl_clients s))" "inj_on jc_name (set (ctl_clients s))" using assms(1) by (simp_all add: ctl_ok_def ctl_clients_ok_def)
  show "(if jc_ref d = jc_ref c then d\<lparr>jc_ports := filter (\<lambda>q. jp_ref q \<noteq> jp_ref p) (jc_ports c)\<rparr> else d) = less_port (jp_ref p) d"
  proof (cases "d = c")
    case False
    have "jp_ref r \<noteq> jp_ref p" if r: "r \<in> set (jc_ports d)" for r
    proof
      assume "jp_ref r = jp_ref p"
      moreover have "(jc_name d, r) \<in> ctl_ports (ctl_clients s)" "(jc_name c, p) \<in> ctl_ports (ctl_clients s)"
        using d r assms(2,3) by (auto simp: ctl_ports_def)
      ultimately have "jc_name d = jc_name c" using port_ref_inj [OF assms(1)] by blast
      then show False using False d assms(2) inj_onD [OF inj(2)] by blast
    qed
    then show ?thesis using False d assms(2) inj_onD [OF inj(1)] by (auto simp: less_port_def)
  qed (simp add: less_port_def)
qed

lemma remove_port_ok:
  assumes "ctl_ok s" "c \<in> set (ctl_clients s)" "p \<in> set (jc_ports c)" "jackctl_find_client_port_by_name c m = Some p"
    and "\<And>x. x \<in> set (ctl_connections s) \<Longrightarrow> jx_port1 x \<noteq> jp_ref p \<and> jx_port2 x \<noteq> jp_ref p"
  shows "\<exists>s'. jackctl_remove_port s c m = Value (s', True) \<and> ctl_ok s' \<and> ctl_connections s' = ctl_connections s \<and>
    ctl_ports (ctl_clients s') = {x \<in> ctl_ports (ctl_clients s). jp_ref (snd x) \<noteq> jp_ref p}"
proof -
  define rest where "rest = filter (\<lambda>q. jp_ref q \<noteq> jp_ref p) (jc_ports c)"
  obtain g where g: "jack_controller_patchbay_port_disappeared_callback (jc_id c) (jc_context c) (jp_id p) (jp_context p) (graph s) = Value g"
    "ctl_ok (s\<lparr>ctl_clients := map (less_port (jp_ref p)) (ctl_clients s), graph := g\<rparr>)"
    using drop_port_ok [OF assms(1-3,5)] by blast
  define s2 where "s2 = s\<lparr>ctl_clients := map (less_port (jp_ref p)) (ctl_clients s), graph := g\<rparr>"
  have s1: "upd_ctl_client (jc_ref c) (\<lambda>c. c\<lparr>jc_ports := rest\<rparr>) s = s\<lparr>ctl_clients := map (less_port (jp_ref p)) (ctl_clients s)\<rparr>"
    using remove_client_ports [OF assms(1-3)] by (simp add: upd_ctl_client_def rest_def)
  have P: "ctl_ports (ctl_clients s2) = {x \<in> ctl_ports (ctl_clients s). jp_ref (snd x) \<noteq> jp_ref p}" by (simp add: s2_def less_ports)
  have r: "jackctl_remove_port s c m =
      (if rest \<noteq> [] then Value (s2, True)
       else c_map (\<lambda>g'. (s2\<lparr>ctl_clients := filter (\<lambda>d. jc_ref d \<noteq> jc_ref c) (ctl_clients s2), graph := g'\<rparr>, True))
              (jack_controller_patchbay_client_disappeared_callback (jc_id c) (jc_context c) (graph s2)))"
    unfolding jackctl_remove_port_def assms(4) Let_def option.case rest_def [symmetric] s1 using g(1) by (simp add: s2_def)
  show ?thesis
  proof (cases "rest = []")
    case False
    then show ?thesis using r g(2) P by (simp add: s2_def)
  next
    case True
    define c' where "c' = less_port (jp_ref p) c"
    have "jc_ports c' = []" using True by (simp add: c'_def less_port_def rest_def)
    moreover have "c' \<in> set (ctl_clients s2)" using assms(2) by (simp add: s2_def c'_def)
    moreover have "jc_id c' = jc_id c" "jc_context c' = jc_context c" "jc_ref c' = jc_ref c" by (simp_all add: c'_def)
    ultimately have c': "c' \<in> set (ctl_clients s2)" "jc_ports c' = []" "jc_id c' = jc_id c" "jc_context c' = jc_context c" "jc_ref c' = jc_ref c" by blast+
    have ok2: "ctl_ok s2" using g(2) by (simp add: s2_def)
    obtain g' where g': "jack_controller_patchbay_client_disappeared_callback (jc_id c) (jc_context c) (graph s2) = Value g'"
      "let s' = s2\<lparr>ctl_clients := filter (\<lambda>d. jc_ref d \<noteq> jc_ref c) (ctl_clients s2), graph := g'\<rparr>
       in ctl_ok s' \<and> ctl_ports (ctl_clients s') = ctl_ports (ctl_clients s2)"
      using drop_client_ok [OF ok2 c'(1,2)] unfolding c'(3-5) by blast
    then show ?thesis using r True P unfolding Let_def by (simp add: s2_def)
  qed
qed

lemma ctl_unregister_ok:
  assumes "ctl_ok s" "p_name (ports e ! i) \<in> port_names s"
    and "\<forall>(a, b) \<in> linked_names s. a \<noteq> p_name (ports e ! i) \<and> b \<noteq> p_name (ports e ! i)"
  shows "\<exists>s'. jackctl_port_registration_notify pid_of e i False s = Value s' \<and> ctl_ok s' \<and>
    port_names s' = port_names s - {p_name (ports e ! i)} \<and> linked_names s' = linked_names s"
proof -
  obtain c p where f: "find_port s (p_name (ports e ! i)) = Some (c, p)" using find_port_found [OF assms(1,2)] by blast
  note f1 = find_port_Some [OF assms(1) f]
  obtain n m where nm: "split_name (p_name (ports e ! i)) = Some (n, m)" "jackctl_find_client s n = Some c" "jackctl_find_client_port_by_name c m = Some p"
    using f by (auto simp: find_port_def split: option.splits)
  have no: "jx_port1 x \<noteq> jp_ref p \<and> jx_port2 x \<noteq> jp_ref p" if x: "x \<in> set (ctl_connections s)" for x
  proof -
    obtain k u l v where k: "(k, u) \<in> ctl_ports (ctl_clients s)" "jp_ref u = jx_port1 x" "(l, v) \<in> ctl_ports (ctl_clients s)" "jp_ref v = jx_port2 x"
      using linked_refs [OF assms(1) x] by blast
    then have "(full_name k u, full_name l v) \<in> linked_names s" using x linked_iff [OF assms(1) k(1,3)] by auto
    then have "full_name k u \<noteq> p_name (ports e ! i)" "full_name l v \<noteq> p_name (ports e ! i)" using assms(3) by auto
    then show ?thesis using k port_ref_inj [OF assms(1) k(1) f1(4)] port_ref_inj [OF assms(1) k(3) f1(4)] f1(3) by auto
  qed
  obtain s' where s': "jackctl_remove_port s c m = Value (s', True)" "ctl_ok s'" "ctl_connections s' = ctl_connections s"
    "ctl_ports (ctl_clients s') = {x \<in> ctl_ports (ctl_clients s). jp_ref (snd x) \<noteq> jp_ref p}"
    using remove_port_ok [OF assms(1) f1(1,2) nm(3) no] by blast
  have r: "jackctl_port_registration_notify pid_of e i False s = Value s'"
    using s'(1) by (simp add: jackctl_port_registration_notify_def Let_def nm(1,2))
  have iff: "full_name k u = p_name (ports e ! i) \<longleftrightarrow> jp_ref u = jp_ref p" if k: "(k, u) \<in> ctl_ports (ctl_clients s)" for k u
    using full_name_inj [OF assms(1) k f1(4)] port_ref_inj [OF assms(1) k f1(4)] f1(3) by auto
  have "port_names s' = port_names s - {p_name (ports e ! i)}"
    unfolding port_names_def s'(4) using iff by force
  moreover have "linked_names s' = linked_names s"
    by (rule linked_names_cong [OF assms(1) s'(3)]) (use s'(4) no in auto)
  ultimately show ?thesis using r s'(2) by blast
qed

end
