(* ===== verification/Jackctl_Properties.thy ===== *)
theory Jackctl_Properties
  imports Jackctl_Inv Graph_Properties
begin

text \<open>
  What the D-Bus service shows of the engine, over sequences of notifications: a port is announced when it
  is not known yet, dropped when it has no connections left, and two ports are connected once. Notifications about ports that
  are not known, as those of the ports of a client that was never active, and about names without a colon may come at any time.

  Not in these sequences is a second announcement of a port that is known: the engine sends one for every port of a
  client that is deactivated and activated again, and the port is then listed twice (\<open>reactivation_lists_twice\<close>).
\<close>

inductive notified :: "(cptr \<Rightarrow> int) \<Rightarrow> jackctl_server \<Rightarrow> string set \<Rightarrow> (string \<times> string) set \<Rightarrow> bool" for pid_of where
  created: "notified pid_of jackctl_server_create {} {}"
| registered: "notified pid_of s N L \<Longrightarrow> room s \<Longrightarrow> split_name (p_name (ports e ! i)) \<noteq> None \<Longrightarrow> p_name (ports e ! i) \<notin> N \<Longrightarrow>
    jackctl_port_registration_notify pid_of e i True s = Value s' \<Longrightarrow> notified pid_of s' (insert (p_name (ports e ! i)) N) L"
| unregistered: "notified pid_of s N L \<Longrightarrow> p_name (ports e ! i) \<in> N \<Longrightarrow> \<forall>(a, b) \<in> L. a \<noteq> p_name (ports e ! i) \<and> b \<noteq> p_name (ports e ! i) \<Longrightarrow>
    jackctl_port_registration_notify pid_of e i False s = Value s' \<Longrightarrow> notified pid_of s' (N - {p_name (ports e ! i)}) L"
| unknown: "notified pid_of s N L \<Longrightarrow> p_name (ports e ! i) \<notin> N \<Longrightarrow>
    jackctl_port_registration_notify pid_of e i False s = Value s' \<Longrightarrow> notified pid_of s' N L"
| nameless: "notified pid_of s N L \<Longrightarrow> split_name (p_name (ports e ! i)) = None \<Longrightarrow>
    jackctl_port_registration_notify pid_of e i yn s = Value s' \<Longrightarrow> notified pid_of s' N L"
| connected: "notified pid_of s N L \<Longrightarrow> room s \<Longrightarrow> p_name (ports e ! i) \<in> N \<Longrightarrow> p_name (ports e ! j) \<in> N \<Longrightarrow>
    (p_name (ports e ! i), p_name (ports e ! j)) \<notin> L \<Longrightarrow> (p_name (ports e ! j), p_name (ports e ! i)) \<notin> L \<Longrightarrow>
    jackctl_connection_notify e i j True s = Value s' \<Longrightarrow> notified pid_of s' N (insert (p_name (ports e ! i), p_name (ports e ! j)) L)"
| disconnected: "notified pid_of s N L \<Longrightarrow> p_name (ports e ! i) \<in> N \<Longrightarrow> p_name (ports e ! j) \<in> N \<Longrightarrow> (p_name (ports e ! i), p_name (ports e ! j)) \<in> L \<Longrightarrow>
    jackctl_connection_notify e i j False s = Value s' \<Longrightarrow> notified pid_of s' N (L - {(p_name (ports e ! i), p_name (ports e ! j))})"
| unknown_end: "notified pid_of s N L \<Longrightarrow> p_name (ports e ! i) \<notin> N \<or> p_name (ports e ! j) \<notin> N \<Longrightarrow>
    jackctl_connection_notify e i j yn s = Value s' \<Longrightarrow> notified pid_of s' N L"

text \<open>Notifications that change nothing.\<close>

lemma find_port_unknown: "ctl_ok s \<Longrightarrow> full \<notin> port_names s \<Longrightarrow> find_port s full = None"
  using find_port_Some(3,4) [of s full] by (cases "find_port s full") (force simp: port_names_def)+

lemma unknown_ignored:
  assumes "ctl_ok s"
  shows "p_name (ports e ! i) \<notin> port_names s \<Longrightarrow> jackctl_port_registration_notify pid_of e i False s = Value s"
    "split_name (p_name (ports e ! i)) = None \<Longrightarrow> jackctl_port_registration_notify pid_of e i yn s = Value s"
    "p_name (ports e ! i) \<notin> port_names s \<or> p_name (ports e ! j) \<notin> port_names s \<Longrightarrow> jackctl_connection_notify e i j yn s = Value s"
proof -
  show "jackctl_port_registration_notify pid_of e i False s = Value s" if "p_name (ports e ! i) \<notin> port_names s"
    using find_port_unknown [OF assms that]
    by (auto simp: jackctl_port_registration_notify_def find_port_def jackctl_remove_port_def Let_def split: option.splits)
  show "jackctl_connection_notify e i j yn s = Value s" if "p_name (ports e ! i) \<notin> port_names s \<or> p_name (ports e ! j) \<notin> port_names s"
    using that find_port_unknown [OF assms] by (auto simp: jackctl_connection_notify_def split: option.splits)
qed (simp add: jackctl_port_registration_notify_def Let_def)

lemma create_server_ok: "ctl_ok jackctl_server_create" "port_names jackctl_server_create = {}" "linked_names jackctl_server_create = {}"
proof -
  have "jack_graph.g_clients jack_controller_patchbay_init = []" "g_connections jack_controller_patchbay_init = []"
    by (simp_all add: jack_controller_patchbay_init_def)
  then show "ctl_ok jackctl_server_create"
    using init_ok by (simp add: ctl_ok_def jackctl_server_create_def ctl_clients_ok_def ctl_ports_ok_def connections_ok_def ctl_ports_def)
qed (simp_all add: port_names_def linked_names_def jackctl_server_create_def ctl_ports_def)

lemma notified_ok: "notified pid_of s N L \<Longrightarrow> ctl_ok s \<and> port_names s = N \<and> linked_names s = L"
proof (induction rule: notified.induct)
  case created
  show ?case using create_server_ok by blast
next
  case (registered s N L e i s')
  obtain n m where "split_name (p_name (ports e ! i)) = Some (n, m)" using registered(3) by auto
  then show ?case using ctl_register_ok [of s e i n m pid_of] registered by auto
next
  case (unregistered s N L e i s')
  then show ?case using ctl_unregister_ok [of s e i pid_of] by auto
next
  case (unknown s N L e i s')
  then show ?case using unknown_ignored(1) [of s e i pid_of] by auto
next
  case (nameless s N L e i yn s')
  then show ?case using unknown_ignored(2) [of s e i pid_of yn] by auto
next
  case (unknown_end s N L e i j yn s')
  then show ?case using unknown_ignored(3) [of s e i j yn] by auto
next
  case (connected s N L e i j s')
  then show ?case using ctl_connect_ok [of s e i j] by auto
next
  case (disconnected s N L e i j s')
  then show ?case using ctl_disconnect_ok [of s e i j] by auto
qed

section \<open>The reply\<close>

text \<open>Names of the ports and the connections in a reply.\<close>

definition entry_ports :: "client_row list \<Rightarrow> string set" where
  "entry_ports cs = {n @ '':'' @ m | i n ps j m fl ty. (i, n, ps) \<in> set cs \<and> (j, m, fl, ty) \<in> set ps}"

definition entry_links :: "connection_row list \<Rightarrow> (string \<times> string) set" where
  "entry_links xs = (\<lambda>((i, n, j, m), (i', n', j', m'), k). (n @ '':'' @ m, n' @ '':'' @ m')) ` set xs"

definition graph_ports :: "jack_graph_client list \<Rightarrow> string set" where
  "graph_ports gs = {gc_name d @ '':'' @ gp_name q | d q. d \<in> set gs \<and> q \<in> set (gc_ports d)}"

lemma entry_ports_graph: "entry_ports (map client_entry gs) = graph_ports gs"
proof (intro equalityI subsetI)
  fix a assume "a \<in> graph_ports gs"
  then obtain d q where d: "d \<in> set gs" "q \<in> set (gc_ports d)" "a = gc_name d @ '':'' @ gp_name q" by (auto simp: graph_ports_def)
  then have "(gc_id d, gc_name d, map (\<lambda>p. (gp_id p, gp_name p, gp_flags p, gp_type p)) (gc_ports d)) \<in> set (map client_entry gs)"
    by (auto simp: client_entry_def)
  moreover have "(gp_id q, gp_name q, gp_flags q, gp_type q) \<in> set (map (\<lambda>p. (gp_id p, gp_name p, gp_flags p, gp_type p)) (gc_ports d))" using d(2) by auto
  ultimately show "a \<in> entry_ports (map client_entry gs)" using d(3) unfolding entry_ports_def by blast
qed (auto simp: graph_ports_def entry_ports_def client_entry_def, blast)

lemma graph_ports_ok:
  assumes "ctl_ok s"
  shows "graph_ports (jack_graph.g_clients (graph s)) = port_names s"
proof (intro equalityI subsetI)
  fix a assume "a \<in> graph_ports (jack_graph.g_clients (graph s))"
  then obtain d q where d: "d \<in> set (jack_graph.g_clients (graph s))" "q \<in> set (gc_ports d)" "a = gc_name d @ '':'' @ gp_name q"
    by (auto simp: graph_ports_def)
  obtain c where c: "c \<in> set (ctl_clients s)" "client_match c d" using matched_graph_client [OF assms d(1)] by blast
  obtain p where p: "p \<in> set (jc_ports c)" "port_match p q" using matched_graph_port [OF c(2) d(2)] by blast
  have "(jc_name c, p) \<in> ctl_ports (ctl_clients s)" using c(1) p(1) by (auto simp: ctl_ports_def)
  moreover have "a = full_name (jc_name c) p" using d(3) c(2) p(2) by (simp add: client_match_def port_match_def full_name_def)
  ultimately show "a \<in> port_names s" by (force simp: port_names_def)
next
  fix a assume "a \<in> port_names s"
  then obtain c p where c: "c \<in> set (ctl_clients s)" "p \<in> set (jc_ports c)" "a = full_name (jc_name c) p"
    by (auto simp: port_names_def ctl_ports_def)
  obtain d q where d: "d \<in> set (jack_graph.g_clients (graph s))" "client_match c d" "q \<in> set (gc_ports d)" "port_match p q"
    using graph_port_of [OF assms c(1,2)] by blast
  have "a = gc_name d @ '':'' @ gp_name q" using c(3) d(2,4) by (simp add: client_match_def port_match_def full_name_def)
  then show "a \<in> graph_ports (jack_graph.g_clients (graph s))" using d(1,3) unfolding graph_ports_def by blast
qed

lemma all_ports_graph: "set (jack_controller_dbus_get_all_ports g) = graph_ports (jack_graph.g_clients g)"
  by (auto simp: jack_controller_dbus_get_all_ports_def graph_ports_def)

lemma port_info_of:
  assumes "ctl_ok s" "(n, p) \<in> ctl_ports (ctl_clients s)" "jp_context p = Some r"
  shows "\<exists>i j. port_facts (jack_graph.g_clients (graph s)) r = Some (i, n, j, jp_name p)"
proof -
  obtain c where c: "c \<in> set (ctl_clients s)" "p \<in> set (jc_ports c)" "n = jc_name c" using assms(2) by (auto simp: ctl_ports_def)
  obtain d q where d: "d \<in> set (jack_graph.g_clients (graph s))" "client_match c d" "q \<in> set (gc_ports d)" "port_match p q"
    using graph_port_of [OF assms(1) c(1,2)] by blast
  have "unique_ports (jack_graph.g_clients (graph s))" using assms(1) by (simp add: ctl_ok_def graph_ok_def shape_ok_def)
  then show ?thesis using port_info_found [OF _ d(1,3)] d(2,4) c(3) assms(3) by (simp add: client_match_def port_match_def)
qed

lemma link_entry:
  assumes "ctl_ok s" "connection_match (ctl_ports (ctl_clients s)) x y" "connection_entry (graph s) y = Value e"
  shows "\<exists>n p m q i j i' j' k. (n, p) \<in> ctl_ports (ctl_clients s) \<and> (m, q) \<in> ctl_ports (ctl_clients s) \<and>
    jp_ref p = jx_port1 x \<and> jp_ref q = jx_port2 x \<and> e = ((i, n, j, jp_name p), (i', m, j', jp_name q), k)"
proof -
  obtain n p m q where p: "(n, p) \<in> ctl_ports (ctl_clients s)" "jp_ref p = jx_port1 x" "jp_context p = Some (gx_port1 y)"
    "(m, q) \<in> ctl_ports (ctl_clients s)" "jp_ref q = jx_port2 x" "jp_context q = Some (gx_port2 y)"
    using assms(2) unfolding connection_match_def by blast
  obtain i j i' j' where "port_facts (jack_graph.g_clients (graph s)) (gx_port1 y) = Some (i, n, j, jp_name p)"
    "port_facts (jack_graph.g_clients (graph s)) (gx_port2 y) = Some (i', m, j', jp_name q)"
    using port_info_of [OF assms(1) p(1,3)] port_info_of [OF assms(1) p(4,6)] by blast
  then have "e = ((i, n, j, jp_name p), (i', m, j', jp_name q), gx_id y)" using assms(3) by (simp add: connection_entry_info)
  then show ?thesis using p by blast
qed

lemma entry_links_ok:
  assumes "ctl_ok s" "c_list (connection_entry (graph s)) (g_connections (graph s)) = Value xs"
  shows "entry_links xs = linked_names s"
proof (intro equalityI subrelI)
  have entries: "list_all2 (\<lambda>y e. connection_entry (graph s) y = Value e) (g_connections (graph s)) xs" using assms(2) by (simp add: c_list_Value)
  have m: "list_all2 (connection_match (ctl_ports (ctl_clients s))) (ctl_connections s) (g_connections (graph s))" using assms(1) by (simp add: ctl_ok_def)
  fix a b
  {
    assume "(a, b) \<in> entry_links xs"
    then obtain e where e: "e \<in> set xs" "(a, b) = (\<lambda>((i, n, j, m), (i', n', j', m'), k). (n @ '':'' @ m, n' @ '':'' @ m')) e" by (auto simp: entry_links_def)
    obtain y where y: "y \<in> set (g_connections (graph s))" "connection_entry (graph s) y = Value e" using list_all2_right [OF entries e(1)] by blast
    obtain x where x: "x \<in> set (ctl_connections s)" "connection_match (ctl_ports (ctl_clients s)) x y" using list_all2_right [OF m y(1)] by blast
    obtain n p m' q i j i' j' k where r: "(n, p) \<in> ctl_ports (ctl_clients s)" "(m', q) \<in> ctl_ports (ctl_clients s)"
      "jp_ref p = jx_port1 x" "jp_ref q = jx_port2 x" "e = ((i, n, j, jp_name p), (i', m', j', jp_name q), k)"
      using link_entry [OF assms(1) x(2) y(2)] by blast
    have "a = full_name n p" "b = full_name m' q" using e(2) r(5) by (simp_all add: full_name_def)
    then show "(a, b) \<in> linked_names s" using linked_iff [OF assms(1) r(1,2)] r(3,4) x(1) by auto
  next
    assume "(a, b) \<in> linked_names s"
    then obtain n p m' q x where l: "a = full_name n p" "b = full_name m' q" "x \<in> set (ctl_connections s)" "(n, p) \<in> ctl_ports (ctl_clients s)"
      "(m', q) \<in> ctl_ports (ctl_clients s)" "jp_ref p = jx_port1 x" "jp_ref q = jx_port2 x" unfolding linked_names_def by blast
    obtain y where y: "y \<in> set (g_connections (graph s))" "connection_match (ctl_ports (ctl_clients s)) x y" using matched_connection [OF assms(1) l(3)] by blast
    obtain e where e: "e \<in> set xs" "connection_entry (graph s) y = Value e" using list_all2_left [OF entries y(1)] by blast
    obtain n1 p1 m1 q1 i j i' j' k where r: "(n1, p1) \<in> ctl_ports (ctl_clients s)" "(m1, q1) \<in> ctl_ports (ctl_clients s)"
      "jp_ref p1 = jx_port1 x" "jp_ref q1 = jx_port2 x" "e = ((i, n1, j, jp_name p1), (i', m1, j', jp_name q1), k)"
      using link_entry [OF assms(1) y(2) e(2)] by blast
    have "n1 = n \<and> p1 = p" "m1 = m' \<and> q1 = q" using port_ref_inj [OF assms(1)] l r by auto
    then show "(a, b) \<in> entry_links xs" using e(1) r(5) l(1,2) unfolding entry_links_def full_name_def by force
  }
qed

section \<open>Properties\<close>

text \<open>C17: After any sequence of notifications in which no port is announced again while it is known, no port goes while it has connections and no
  pair is connected twice, the D-Bus service answers a request for the graph, of a caller
  that knows an older version, without reaching for freed memory: the clients and ports in the reply are exactly the announced ones
  and its connections are exactly the ones that were made and not broken. A listener that has applied
  all signals since the start has the same clients and connections, in the same order, and the version has
  grown by one for every change.\<close>

theorem graph_reply_exact:
  assumes "notified pid_of s N L" "known < version (graph s)"
  shows "\<exists>cs xs. jack_controller_dbus_get_graph (graph s) known = Value (Graph (version (graph s)) cs xs) \<and> heard (graph s) = (cs, xs) \<and>
    entry_ports cs = N \<and> entry_links xs = L \<and> set (jack_controller_dbus_get_all_ports (graph s)) = N \<and>
    version (graph s) = 1 + of_nat (length (signals (graph s)) div 2)"
proof -
  have ok: "ctl_ok s" "port_names s = N" "linked_names s = L" using notified_ok [OF assms(1)] by blast+
  let ?cs = "map client_entry (jack_graph.g_clients (graph s))"
  have h: "heard_ok (graph s)" using ok(1) by (simp add: ctl_ok_def graph_ok_def)
  then obtain xs where xs: "c_list (connection_entry (graph s)) (g_connections (graph s)) = Value xs" "heard (graph s) = (?cs, xs)"
    by (cases "heard (graph s)") (auto simp: heard_ok_def)
  have "jack_controller_dbus_get_graph (graph s) known = Value (Graph (version (graph s)) ?cs xs)"
    using assms(2) xs(1) by (simp add: jack_controller_dbus_get_graph_def)
  then show ?thesis
    using h xs(2) graph_ports_ok [OF ok(1)] entry_links_ok [OF ok(1) xs(1)] ok(2,3) by (simp add: heard_ok_def entry_ports_graph all_ports_graph)
qed

text \<open>C18: As long as the identifiers last, the control library takes the next notification, of whatever engine: it never
  follows a pointer to a client, port or connection that is gone, and the lists follow. This covers a registration of a port that is not
  known, an unregistration of a port that has no connections or that is not known, a connection of two ports that are not connected, the end of a connection,
  and any notification about an unknown port or a name without a colon; what it does not cover is
  a port that is announced again while it is known, a port that goes while it has connections, and a pair that is connected again.\<close>

theorem notifications_followed:
  assumes "notified pid_of s N L" "room s"
  shows "(p_name (ports e ! i) \<notin> N \<longrightarrow>
      (\<exists>s'. jackctl_port_registration_notify pid_of e i True s = Value s' \<and>
         notified pid_of s' (if split_name (p_name (ports e ! i)) = None then N else insert (p_name (ports e ! i)) N) L)) \<and>
    ((\<forall>(a, b) \<in> L. a \<noteq> p_name (ports e ! i) \<and> b \<noteq> p_name (ports e ! i)) \<longrightarrow>
      (\<exists>s'. jackctl_port_registration_notify pid_of e i False s = Value s' \<and> notified pid_of s' (N - {p_name (ports e ! i)}) L)) \<and>
    ((p_name (ports e ! i), p_name (ports e ! j)) \<notin> L \<and> (p_name (ports e ! j), p_name (ports e ! i)) \<notin> L \<longrightarrow>
      (\<exists>s'. jackctl_connection_notify e i j True s = Value s' \<and>
         notified pid_of s' N (if {p_name (ports e ! i), p_name (ports e ! j)} \<subseteq> N then insert (p_name (ports e ! i), p_name (ports e ! j)) L else L))) \<and>
    ((p_name (ports e ! i), p_name (ports e ! j)) \<in> L \<or> \<not> {p_name (ports e ! i), p_name (ports e ! j)} \<subseteq> N \<longrightarrow>
      (\<exists>s'. jackctl_connection_notify e i j False s = Value s' \<and> notified pid_of s' N (L - {(p_name (ports e ! i), p_name (ports e ! j))})))"
proof (intro conjI impI)
  have ok: "ctl_ok s" "port_names s = N" "linked_names s = L" using notified_ok [OF assms(1)] by blast+
  note same = unknown_ignored [OF ok(1), unfolded ok(2)]
  have ends: "a \<in> N \<and> b \<in> N" if "(a, b) \<in> L" for a b
    using that ok(2,3) by (force simp: linked_names_def port_names_def)
  show "\<exists>s'. jackctl_port_registration_notify pid_of e i True s = Value s' \<and>
      notified pid_of s' (if split_name (p_name (ports e ! i)) = None then N else insert (p_name (ports e ! i)) N) L" if new: "p_name (ports e ! i) \<notin> N"
  proof (cases "split_name (p_name (ports e ! i))")
    case None
    then show ?thesis using same(2) assms(1) by simp
  next
    case (Some nm)
    then obtain n m where "split_name (p_name (ports e ! i)) = Some (n, m)" by (cases nm) simp
    then show ?thesis using ctl_register_ok [OF ok(1) assms(2), of e i n m pid_of] ok(2) new notified.registered [OF assms, of e i] by auto
  qed
  show "\<exists>s'. jackctl_port_registration_notify pid_of e i False s = Value s' \<and> notified pid_of s' (N - {p_name (ports e ! i)}) L"
    if free: "\<forall>(a, b) \<in> L. a \<noteq> p_name (ports e ! i) \<and> b \<noteq> p_name (ports e ! i)"
  proof (cases "p_name (ports e ! i) \<in> N")
    case True
    then show ?thesis using ctl_unregister_ok [OF ok(1), of e i pid_of] ok(2,3) free notified.unregistered [OF assms(1) True free] by blast
  next
    case False
    then show ?thesis using same(1) assms(1) by (simp add: Diff_insert0)
  qed
  show "\<exists>s'. jackctl_connection_notify e i j True s = Value s' \<and>
      notified pid_of s' N (if {p_name (ports e ! i), p_name (ports e ! j)} \<subseteq> N then insert (p_name (ports e ! i), p_name (ports e ! j)) L else L)"
    if new: "(p_name (ports e ! i), p_name (ports e ! j)) \<notin> L \<and> (p_name (ports e ! j), p_name (ports e ! i)) \<notin> L"
  proof (cases "{p_name (ports e ! i), p_name (ports e ! j)} \<subseteq> N")
    case True
    then have m: "p_name (ports e ! i) \<in> N" "p_name (ports e ! j) \<in> N" by auto
    then show ?thesis using ctl_connect_ok [OF ok(1) assms(2), of e i j] ok(2,3) new notified.connected [OF assms m] True by auto
  next
    case False
    then show ?thesis using same(3) [of e i j True] assms(1) by auto
  qed
  show "\<exists>s'. jackctl_connection_notify e i j False s = Value s' \<and> notified pid_of s' N (L - {(p_name (ports e ! i), p_name (ports e ! j))})"
    if old: "(p_name (ports e ! i), p_name (ports e ! j)) \<in> L \<or> \<not> {p_name (ports e ! i), p_name (ports e ! j)} \<subseteq> N"
  proof (cases "(p_name (ports e ! i), p_name (ports e ! j)) \<in> L")
    case True
    then show ?thesis using ctl_disconnect_ok [OF ok(1), of e i j] ends [OF True] ok(2,3) notified.disconnected [OF assms(1) _ _ True] by blast
  next
    case False
    then show ?thesis using same(3) [of e i j False] old assms(1) by auto
  qed
qed

section \<open>Two connected ports\<close>

definition demo_jport :: "nat \<Rightarrow> u64 \<Rightarrow> string \<Rightarrow> u32 \<Rightarrow> jackctl_port" where
  "demo_jport r i n fl = \<lparr>jp_ref = r, jp_id = i, jp_name = n, jp_flags = fl, jp_type = 0, jp_context = Some r\<rparr>"

definition demo_jclient :: "nat \<Rightarrow> u64 \<Rightarrow> string \<Rightarrow> jackctl_port \<Rightarrow> jackctl_client" where
  "demo_jclient r i n p = \<lparr>jc_ref = r, jc_id = i, jc_name = n, jc_pid = 42, jc_ports = [p], jc_context = Some r\<rparr>"

definition demo_gclient :: "jackctl_client \<Rightarrow> jack_graph_client" where
  "demo_gclient c = \<lparr>gc_ref = jc_ref c, gc_id = jc_id c, gc_name = jc_name c, gc_pid = jc_pid c,
     gc_ports = map (\<lambda>p. \<lparr>gp_ref = jp_ref p, gp_id = jp_id p, gp_name = jp_name p, gp_flags = jp_flags p, gp_type = jp_type p\<rparr>) (jc_ports c)\<rparr>"

definition demo_one :: jackctl_server where
  "demo_one = (let cs = [demo_jclient 0 1 ''a'' (demo_jport 1 1 ''out'' JackPortIsOutput)] in
     \<lparr>ctl_next_client_id = 2, ctl_next_port_id = 2, ctl_next_connection_id = 1, ctl_clients = cs, ctl_connections = [], ctl_next = 2,
      graph = \<lparr>version = 3, g_clients = map demo_gclient cs, g_connections = [], g_next = 2,
        signals = [ClientAppeared 2 1 ''a'', GraphChanged 2, PortAppeared 3 1 ''a'' 1 ''out'' JackPortIsOutput 0, GraphChanged 3]\<rparr>\<rparr>)"

definition demo_two :: jackctl_server where
  "demo_two = (let cs = [demo_jclient 0 1 ''a'' (demo_jport 1 1 ''out'' JackPortIsOutput), demo_jclient 2 2 ''b'' (demo_jport 3 2 ''in'' JackPortIsInput)] in
     \<lparr>ctl_next_client_id = 3, ctl_next_port_id = 3, ctl_next_connection_id = 1, ctl_clients = cs, ctl_connections = [], ctl_next = 4,
      graph = \<lparr>version = 5, g_clients = map demo_gclient cs, g_connections = [], g_next = 4,
        signals = signals (graph demo_one) @ [ClientAppeared 4 2 ''b'', GraphChanged 4, PortAppeared 5 2 ''b'' 2 ''in'' JackPortIsInput 0, GraphChanged 5]\<rparr>\<rparr>)"

definition demo_ctl :: jackctl_server where
  "demo_ctl = demo_two\<lparr>ctl_next_connection_id := 2, ctl_connections := [\<lparr>jx_id = 1, jx_port1 = 1, jx_port2 = 3, jx_context = Some 4\<rparr>],
     graph := (graph demo_two)\<lparr>version := 6, g_connections := [\<lparr>gx_ref = 4, gx_id = 1, gx_port1 = 1, gx_port2 = 3\<rparr>], g_next := 5,
       signals := signals (graph demo_two) @ [PortsConnected 6 1 ''a'' 1 ''out'' 2 ''b'' 2 ''in'' 1, GraphChanged 6]\<rparr>\<rparr>"

lemma demo_steps:
  "jackctl_port_registration_notify (\<lambda>_. 42) demo_engine 2 True jackctl_server_create = Value demo_one"
  "jackctl_port_registration_notify (\<lambda>_. 42) demo_engine 5 True demo_one = Value demo_two"
  "jackctl_connection_notify demo_engine 2 5 True demo_two = Value demo_ctl"
  by code_simp+

lemma demo_room: "room jackctl_server_create" "room demo_one" "room demo_two" "room demo_ctl"
  by (simp_all add: room_def jackctl_server_create_def demo_one_def demo_two_def demo_ctl_def Let_def)

lemma demo_names: "p_name (ports demo_engine ! 2) = ''a:out''" "p_name (ports demo_engine ! 5) = ''b:in''"
  by (simp_all add: demo_engine_def demo_port_def)

lemma demo_notified: "notified (\<lambda>_. 42) demo_ctl {''b:in'', ''a:out''} {(''a:out'', ''b:in'')}"
proof -
  have "notified (\<lambda>_. 42) demo_one {''a:out''} {}"
    using notified.registered [OF notified.created demo_room(1) _ _ demo_steps(1)] by (simp add: demo_names split_name_def)
  then have "notified (\<lambda>_. 42) demo_two {''b:in'', ''a:out''} {}"
    using notified.registered [OF _ demo_room(2) _ _ demo_steps(2), of "{''a:out''}" "{}"] by (simp add: demo_names split_name_def)
  then show ?thesis
    using notified.connected [OF _ demo_room(3) _ _ _ _ demo_steps(3), of "\<lambda>_. 42" "{''b:in'', ''a:out''}" "{}"] by (simp add: demo_names)
qed

theorem graph_reply_exact_witness:
  "\<exists>cs xs. jack_controller_dbus_get_graph (graph demo_ctl) 1 = Value (Graph 6 cs xs) \<and> heard (graph demo_ctl) = (cs, xs) \<and>
    entry_ports cs = {''b:in'', ''a:out''} \<and> entry_links xs = {(''a:out'', ''b:in'')}"
proof -
  have "version (graph demo_ctl) = 6" by (simp add: demo_ctl_def)
  then show ?thesis using graph_reply_exact [OF demo_notified, of 1] by auto
qed

theorem notifications_followed_witness:
  "\<exists>s'. jackctl_connection_notify demo_engine 2 5 False demo_ctl = Value s' \<and> notified (\<lambda>_. 42) s' {''b:in'', ''a:out''} {}"
  using notifications_followed [OF demo_notified demo_room(4), of demo_engine 2 5] by (simp add: demo_names)

text \<open>A client that is deactivated and activated again: the engine announces its port once more, and the
  reply lists it twice. Withdrawing the port afterwards leaves one of the two.\<close>

lemma reactivation_lists_twice:
  "\<exists>s s'. jackctl_port_registration_notify (\<lambda>_. 42) demo_engine 2 True demo_one = Value s \<and>
    jack_controller_dbus_get_all_ports (graph s) = [''a:out'', ''a:out''] \<and>
    jackctl_port_registration_notify (\<lambda>_. 42) demo_engine 2 False s = Value s' \<and>
    jack_controller_dbus_get_all_ports (graph s') = [''a:out'']"
proof -
  have "(case jackctl_port_registration_notify (\<lambda>_. 42) demo_engine 2 True demo_one of
      Value s \<Rightarrow> jack_controller_dbus_get_all_ports (graph s) = [''a:out'', ''a:out''] \<and>
        (case jackctl_port_registration_notify (\<lambda>_. 42) demo_engine 2 False s of
           Value s' \<Rightarrow> jack_controller_dbus_get_all_ports (graph s') = [''a:out''] | _ \<Rightarrow> False)
    | _ \<Rightarrow> False)" by code_simp
  then show ?thesis by (auto split: c_result.splits)
qed

text \<open>When the engine stops, the control library announces the end of all ports and clients but not of their connections: the
  patchbay keeps a connection between ports it has freed, and the next request for the graph follows its pointers.\<close>

lemma stop_leaves_connections:
  "\<exists>s. jackctl_server_stop demo_ctl = Value s \<and> jack_graph.g_clients (graph s) = [] \<and> g_connections (graph s) \<noteq> [] \<and>
    jack_controller_dbus_get_graph (graph (empty_lists s)) 6 = Undefined"
proof -
  have "(case jackctl_server_stop demo_ctl of
      Value s \<Rightarrow> jack_graph.g_clients (graph s) = [] \<and> g_connections (graph s) \<noteq> [] \<and> jack_controller_dbus_get_graph (graph (empty_lists s)) 6 = Undefined
    | _ \<Rightarrow> False)" by code_simp
  then show ?thesis by (auto split: c_result.splits)
qed

end
