(* ===== verification/Control_Params.thy ===== *)
theory Control_Params
  imports Engine_Graph
begin

text \<open>
  Parameters of drivers in the control interface that applications use, \<open>server/controlapi.c\<close> with
  \<open>jack/control.h\<close> and \<open>jack/driver_interface.h\<close> (\<open>server/jackctl.c\<close> has a copy of this code). A union is the member that was
  written last; reading another one is undefined. A string has to fit into the array it is copied to. The structures that a driver
  gets have addresses, since parameters go on to write to them. Memory can always be allocated.
\<close>

type_synonym address = nat

section \<open>Data\<close>

datatype jackctl_param_type_t = JackParamInt | JackParamUInt | JackParamChar | JackParamString | JackParamBool

datatype jackctl_parameter_value = ValueInt int | ValueUInt u32 | ValueChar char | ValueStr string | ValueBool bool

datatype jack_driver_param_type_t = JackDriverParamInt | JackDriverParamUInt | JackDriverParamChar | JackDriverParamString | JackDriverParamBool

datatype jack_driver_param_value_t = DriverInt int | DriverUInt u32 | DriverChar char | DriverStr string

definition JACK_DRIVER_PARAM_STRING_MAX :: nat where "JACK_DRIVER_PARAM_STRING_MAX = 63"
definition JACK_PARAM_STRING_MAX :: nat where "JACK_PARAM_STRING_MAX = 127"

datatype constraint_body =
    ConstraintRange jack_driver_param_value_t jack_driver_param_value_t
  | ConstraintEnum "(jack_driver_param_value_t \<times> string) list"

record jack_driver_param_constraint_desc_t =
  constraint_flags :: u32
  constraint :: constraint_body

record jack_driver_param_desc_t =
  desc_name :: string
  desc_character :: char
  desc_type :: jack_driver_param_type_t
  desc_value :: jack_driver_param_value_t
  desc_constraint :: "jack_driver_param_constraint_desc_t option"

record jackctl_parameter =
  par_name :: string
  par_type :: jackctl_param_type_t
  par_is_set :: bool
  par_value :: jackctl_parameter_value
  par_default :: jackctl_parameter_value
  par_of_driver :: bool
  par_id :: char
  driver_parameter :: "address option"
  par_constraint :: "jack_driver_param_constraint_desc_t option"

record jackctl_driver =
  parameters :: "jackctl_parameter list"
  set_parameters :: "address list"
  param_mem :: "address \<Rightarrow> char \<times> jack_driver_param_value_t"
  next_param :: address

section \<open>Parameters of a driver\<close>

fun value_of_driver :: "jack_driver_param_type_t \<Rightarrow> jack_driver_param_value_t \<Rightarrow> (jackctl_param_type_t \<times> jackctl_parameter_value) c_result" where
  "value_of_driver JackDriverParamInt (DriverInt i) = Value (JackParamInt, ValueInt i)"
| "value_of_driver JackDriverParamUInt (DriverUInt i) = Value (JackParamUInt, ValueUInt i)"
| "value_of_driver JackDriverParamChar (DriverChar c) = Value (JackParamChar, ValueChar c)"
| "value_of_driver JackDriverParamString (DriverStr s) = (if length s \<le> JACK_PARAM_STRING_MAX then Value (JackParamString, ValueStr s) else Undefined)"
| "value_of_driver JackDriverParamBool (DriverInt i) = Value (JackParamBool, ValueBool (i \<noteq> 0))"
| "value_of_driver t v = Undefined"

definition jackctl_add_parameter ::
  "jackctl_parameter list \<Rightarrow> char \<Rightarrow> string \<Rightarrow> jackctl_param_type_t \<Rightarrow> jackctl_parameter_value \<Rightarrow> jack_driver_param_constraint_desc_t option \<Rightarrow> bool \<Rightarrow> jackctl_parameter list" where
  "jackctl_add_parameter ps i name type value con of_driver =
     jack_slist_append ps \<lparr>par_name = name, par_type = type, par_is_set = False, par_value = value, par_default = value,
       par_of_driver = of_driver, par_id = i, driver_parameter = None, par_constraint = con\<rparr>"

fun add_params :: "jack_driver_param_desc_t list \<Rightarrow> jackctl_parameter list \<Rightarrow> jackctl_parameter list c_result" where
  "add_params [] ps = Value ps"
| "add_params (x # xs) ps =
     c_bind (value_of_driver (desc_type x) (desc_value x)) (\<lambda>(t, v).
       add_params xs (jackctl_add_parameter ps (desc_character x) (desc_name x) t v (desc_constraint x) True))"

definition jackctl_add_driver_parameters :: "jack_driver_param_desc_t list \<Rightarrow> jackctl_driver \<Rightarrow> jackctl_driver c_result" where
  "jackctl_add_driver_parameters descs d = c_map (\<lambda>ps. d\<lparr>parameters := ps\<rparr>) (add_params descs (parameters d))"

text \<open>A driver as \<open>jackctl_drivers_load\<close> makes it, before its parameters are added.\<close>

definition new_driver :: jackctl_driver where
  "new_driver = \<lparr>parameters = [], set_parameters = [], param_mem = (\<lambda>_. (CHR ''?'', DriverInt 0)), next_param = 0\<rparr>"

section \<open>Values\<close>

fun driver_value :: "jackctl_param_type_t \<Rightarrow> jackctl_parameter_value \<Rightarrow> jack_driver_param_value_t c_result" where
  "driver_value JackParamInt (ValueInt i) = Value (DriverInt i)"
| "driver_value JackParamUInt (ValueUInt i) = Value (DriverUInt i)"
| "driver_value JackParamChar (ValueChar c) = Value (DriverChar c)"
| "driver_value JackParamString (ValueStr s) = (if length s \<le> JACK_DRIVER_PARAM_STRING_MAX then Value (DriverStr s) else Undefined)"
| "driver_value JackParamBool (ValueBool b) = Value (DriverInt (if b then 1 else 0))"
| "driver_value t v = Undefined"

definition upd_parameter :: "nat \<Rightarrow> (jackctl_parameter \<Rightarrow> jackctl_parameter) \<Rightarrow> jackctl_driver \<Rightarrow> jackctl_driver" where
  "upd_parameter k f d = d\<lparr>parameters := (parameters d)[k := f (parameters d ! k)]\<rparr>"

text \<open>The structure for the driver: the one the parameter has, or a new one at the end of the list.\<close>

definition driver_slot :: "nat \<Rightarrow> jackctl_driver \<Rightarrow> jackctl_driver \<times> address" where
  "driver_slot k d =
     (case driver_parameter (parameters d ! k) of
        Some r \<Rightarrow> (d, r)
      | None \<Rightarrow>
          (let r = next_param d in
           (upd_parameter k (\<lambda>p. p\<lparr>driver_parameter := Some r\<rparr>)
              (d\<lparr>set_parameters := jack_slist_append (set_parameters d) r, next_param := Suc r,
                 param_mem := (param_mem d)(r := (par_id (parameters d ! k), snd (param_mem d r)))\<rparr>), r)))"

definition jackctl_parameter_set_value :: "nat \<Rightarrow> jackctl_parameter_value \<Rightarrow> jackctl_driver \<Rightarrow> jackctl_driver c_result" where
  "jackctl_parameter_set_value k v d =
     c_map (\<lambda>d1. upd_parameter k (\<lambda>p. p\<lparr>par_is_set := True, par_value := v\<rparr>) d1)
       (if par_of_driver (parameters d ! k) then
          (case driver_slot k d of (d1, r) \<Rightarrow>
             c_map (\<lambda>x. d1\<lparr>param_mem := (param_mem d1)(r := (fst (param_mem d1 r), x))\<rparr>) (driver_value (par_type (parameters d ! k)) v))
        else Value d)"

definition jackctl_parameter_reset :: "nat \<Rightarrow> jackctl_driver \<Rightarrow> jackctl_driver" where
  "jackctl_parameter_reset k d =
     (if par_is_set (parameters d ! k) then upd_parameter k (\<lambda>p. p\<lparr>par_is_set := False, par_value := par_default p\<rparr>) d else d)"

definition jackctl_free_driver_parameters :: "jackctl_driver \<Rightarrow> jackctl_driver" where
  "jackctl_free_driver_parameters d = d\<lparr>parameters := [], set_parameters := []\<rparr>"

text \<open>What \<open>jackctl_server_start\<close> hands to the driver.\<close>

definition driver_options :: "jackctl_driver \<Rightarrow> (char \<times> jack_driver_param_value_t) list" where
  "driver_options d = map (param_mem d) (set_parameters d)"

section \<open>Constraints\<close>

definition JACK_CONSTRAINT_FLAG_RANGE :: u32 where "JACK_CONSTRAINT_FLAG_RANGE = 1"
definition JACK_CONSTRAINT_FLAG_STRICT :: u32 where "JACK_CONSTRAINT_FLAG_STRICT = 2"
definition JACK_CONSTRAINT_FLAG_FAKE_VALUE :: u32 where "JACK_CONSTRAINT_FLAG_FAKE_VALUE = 4"

definition constrained :: "(jack_driver_param_constraint_desc_t \<Rightarrow> bool) \<Rightarrow> jackctl_parameter \<Rightarrow> bool" where
  "constrained P p = (case par_constraint p of None \<Rightarrow> False | Some c \<Rightarrow> P c)"

definition jackctl_parameter_has_range_constraint :: "jackctl_parameter \<Rightarrow> bool" where
  "jackctl_parameter_has_range_constraint p = constrained (\<lambda>c. constraint_flags c AND JACK_CONSTRAINT_FLAG_RANGE \<noteq> 0) p"

definition jackctl_parameter_has_enum_constraint :: "jackctl_parameter \<Rightarrow> bool" where
  "jackctl_parameter_has_enum_constraint p = constrained (\<lambda>c. constraint_flags c AND JACK_CONSTRAINT_FLAG_RANGE = 0) p"

definition jackctl_parameter_constraint_is_strict :: "jackctl_parameter \<Rightarrow> bool" where
  "jackctl_parameter_constraint_is_strict p = constrained (\<lambda>c. constraint_flags c AND JACK_CONSTRAINT_FLAG_STRICT \<noteq> 0) p"

definition jackctl_parameter_constraint_is_fake_value :: "jackctl_parameter \<Rightarrow> bool" where
  "jackctl_parameter_constraint_is_fake_value p = constrained (\<lambda>c. constraint_flags c AND JACK_CONSTRAINT_FLAG_FAKE_VALUE \<noteq> 0) p"

definition jackctl_parameter_get_enum_constraints_count :: "jackctl_parameter \<Rightarrow> nat c_result" where
  "jackctl_parameter_get_enum_constraints_count p =
     (if \<not> jackctl_parameter_has_enum_constraint p then Value 0
      else case par_constraint p of
        Some c \<Rightarrow> (case constraint c of ConstraintEnum vs \<Rightarrow> Value (length vs) | _ \<Rightarrow> Undefined)
      | None \<Rightarrow> Undefined)"

fun enum_value :: "jackctl_param_type_t \<Rightarrow> jack_driver_param_value_t \<Rightarrow> jackctl_parameter_value c_result" where
  "enum_value JackParamInt (DriverInt i) = Value (ValueInt i)"
| "enum_value JackParamUInt (DriverUInt i) = Value (ValueUInt i)"
| "enum_value JackParamChar (DriverChar c) = Value (ValueChar c)"
| "enum_value JackParamString (DriverStr s) = (if length s \<le> JACK_PARAM_STRING_MAX then Value (ValueStr s) else Undefined)"
| "enum_value JackParamBool v = AssertFailed"
| "enum_value t v = Undefined"

definition jackctl_parameter_get_enum_constraint_value :: "jackctl_parameter \<Rightarrow> nat \<Rightarrow> jackctl_parameter_value c_result" where
  "jackctl_parameter_get_enum_constraint_value p i =
     (case par_constraint p of
        Some c \<Rightarrow>
          (case constraint c of
             ConstraintEnum vs \<Rightarrow> if i < length vs then enum_value (par_type p) (fst (vs ! i)) else Undefined
           | _ \<Rightarrow> Undefined)
      | None \<Rightarrow> Undefined)"

definition jackctl_parameter_get_range_constraint :: "jackctl_parameter \<Rightarrow> (jackctl_parameter_value \<times> jackctl_parameter_value) c_result" where
  "jackctl_parameter_get_range_constraint p =
     (if par_type p \<noteq> JackParamInt \<and> par_type p \<noteq> JackParamUInt then AssertFailed
      else case par_constraint p of
        Some c \<Rightarrow>
          (case constraint c of
             ConstraintRange a b \<Rightarrow> c_bind (enum_value (par_type p) a) (\<lambda>x. c_map (Pair x) (enum_value (par_type p) b))
           | _ \<Rightarrow> Undefined)
      | None \<Rightarrow> Undefined)"

section \<open>Setting and resetting\<close>

datatype param_op = SetValue nat jackctl_parameter_value | ResetValue nat

fun param_step :: "param_op \<Rightarrow> jackctl_driver \<Rightarrow> jackctl_driver c_result" where
  "param_step (SetValue k v) d = jackctl_parameter_set_value k v d"
| "param_step (ResetValue k) d = Value (jackctl_parameter_reset k d)"

fun param_run :: "param_op list \<Rightarrow> jackctl_driver \<Rightarrow> jackctl_driver c_result" where
  "param_run [] d = Value d"
| "param_run (x # xs) d = c_bind (param_step x d) (param_run xs)"

text \<open>The value an application has chosen, and the last one it ever set. The history has the newest operation first.\<close>

fun chosen :: "param_op list \<Rightarrow> nat \<Rightarrow> jackctl_parameter_value option" where
  "chosen [] k = None"
| "chosen (SetValue j v # h) k = (if j = k then Some v else chosen h k)"
| "chosen (ResetValue j # h) k = (if j = k then None else chosen h k)"

fun ever_set :: "param_op list \<Rightarrow> nat \<Rightarrow> jackctl_parameter_value option" where
  "ever_set [] k = None"
| "ever_set (SetValue j v # h) k = (if j = k then Some v else ever_set h k)"
| "ever_set (ResetValue j # h) k = ever_set h k"

definition fits :: "jackctl_driver \<Rightarrow> param_op \<Rightarrow> bool" where
  "fits d x = (case x of
       SetValue k v \<Rightarrow> k < length (parameters d) \<and> (\<exists>y. driver_value (par_type (parameters d ! k)) v = Value y)
     | ResetValue k \<Rightarrow> k < length (parameters d))"

definition same_parameters :: "jackctl_driver \<Rightarrow> jackctl_driver \<Rightarrow> bool" where
  "same_parameters d0 d \<longleftrightarrow> length (parameters d) = length (parameters d0) \<and>
     (\<forall>k < length (parameters d0). par_type (parameters d ! k) = par_type (parameters d0 ! k) \<and> par_id (parameters d ! k) = par_id (parameters d0 ! k) \<and>
        par_default (parameters d ! k) = par_default (parameters d0 ! k) \<and> par_of_driver (parameters d ! k))"

text \<open>Each structure on the list belongs to one parameter, and carries its identifier and the value that was set last.\<close>

definition slots_ok :: "jackctl_driver \<Rightarrow> (nat \<Rightarrow> jackctl_parameter_value option) \<Rightarrow> bool" where
  "slots_ok d f \<longleftrightarrow> (\<exists>ks. distinct ks \<and> set ks = {k. k < length (parameters d) \<and> f k \<noteq> None} \<and>
     (\<forall>k < length (parameters d). driver_parameter (parameters d ! k) = None \<longleftrightarrow> f k = None) \<and>
     set_parameters d = map (\<lambda>k. the (driver_parameter (parameters d ! k))) ks \<and>
     distinct (set_parameters d) \<and> (\<forall>r \<in> set (set_parameters d). r < next_param d) \<and>
     (\<forall>k \<in> set ks. \<exists>y. driver_value (par_type (parameters d ! k)) (the (f k)) = Value y \<and>
        param_mem d (the (driver_parameter (parameters d ! k))) = (par_id (parameters d ! k), y)))"

definition values_ok :: "jackctl_driver \<Rightarrow> (nat \<Rightarrow> jackctl_parameter_value option) \<Rightarrow> bool" where
  "values_ok d f \<longleftrightarrow> (\<forall>k < length (parameters d). par_is_set (parameters d ! k) = (f k \<noteq> None) \<and>
     par_value (parameters d ! k) = (case f k of None \<Rightarrow> par_default (parameters d ! k) | Some v \<Rightarrow> v))"

lemma upd_parameter_nth:
  "k < length (parameters d) \<Longrightarrow> parameters (upd_parameter k f d) ! j = (if j = k then f (parameters d ! k) else parameters d ! j)"
  "length (parameters (upd_parameter k f d)) = length (parameters d)"
  "set_parameters (upd_parameter k f d) = set_parameters d" "param_mem (upd_parameter k f d) = param_mem d" "next_param (upd_parameter k f d) = next_param d"
  by (simp_all add: upd_parameter_def nth_list_update)

lemma reset_step:
  assumes "same_parameters d0 d" "slots_ok d f" "values_ok d g" "k < length (parameters d)"
  shows "same_parameters d0 (jackctl_parameter_reset k d) \<and> slots_ok (jackctl_parameter_reset k d) f \<and>
    values_ok (jackctl_parameter_reset k d) (g(k := None))"
proof (cases "par_is_set (parameters d ! k)")
  case True
  let ?d = "upd_parameter k (\<lambda>p. p\<lparr>par_is_set := False, par_value := par_default p\<rparr>) d"
  have r: "jackctl_parameter_reset k d = ?d" using True by (simp add: jackctl_parameter_reset_def)
  have "same_parameters d0 ?d" using assms(1,4) by (auto simp: same_parameters_def upd_parameter_nth)
  moreover have "driver_parameter (parameters ?d ! j) = driver_parameter (parameters d ! j)" "par_type (parameters ?d ! j) = par_type (parameters d ! j)"
    "par_id (parameters ?d ! j) = par_id (parameters d ! j)" for j using assms(4) by (simp_all add: upd_parameter_nth)
  then have "slots_ok ?d f" using assms(2) by (simp add: slots_ok_def upd_parameter_nth)
  moreover have "values_ok ?d (g(k := None))" using assms(3,4) by (auto simp: values_ok_def upd_parameter_nth)
  ultimately show ?thesis by (simp add: r)
next
  case False
  then have "g k = None" using assms(3,4) by (auto simp: values_ok_def)
  then have "g(k := None) = g" by auto
  then show ?thesis using False assms by (simp add: jackctl_parameter_reset_def)
qed

lemma set_step:
  assumes "same_parameters d0 d" "slots_ok d f" "values_ok d g" "k < length (parameters d)" "driver_value (par_type (parameters d ! k)) v = Value y"
  shows "\<exists>d'. jackctl_parameter_set_value k v d = Value d' \<and> same_parameters d0 d' \<and> slots_ok d' (f(k := Some v)) \<and> values_ok d' (g(k := Some v))"
proof -
  obtain ks where ks: "distinct ks" "set ks = {k. k < length (parameters d) \<and> f k \<noteq> None}"
    "\<forall>k < length (parameters d). driver_parameter (parameters d ! k) = None \<longleftrightarrow> f k = None"
    "set_parameters d = map (\<lambda>k. the (driver_parameter (parameters d ! k))) ks" "distinct (set_parameters d)" "\<forall>r \<in> set (set_parameters d). r < next_param d"
    "\<forall>k \<in> set ks. \<exists>y. driver_value (par_type (parameters d ! k)) (the (f k)) = Value y \<and>
        param_mem d (the (driver_parameter (parameters d ! k))) = (par_id (parameters d ! k), y)"
    using assms(2) unfolding slots_ok_def by blast
  obtain d1 r where dr: "driver_slot k d = (d1, r)" by fastforce
  define d2 where "d2 = d1\<lparr>param_mem := (param_mem d1)(r := (fst (param_mem d1 r), y))\<rparr>"
  define d' where "d' = upd_parameter k (\<lambda>p. p\<lparr>par_is_set := True, par_value := v\<rparr>) d2"
  have od: "par_of_driver (parameters d ! k)" using assms(1,4) by (auto simp: same_parameters_def)
  have run: "jackctl_parameter_set_value k v d = Value d'" using od dr assms(5) by (simp add: jackctl_parameter_set_value_def d2_def d'_def)
  have "parameters d' = (parameters d)[k := (parameters d ! k)\<lparr>driver_parameter := Some r, par_is_set := True, par_value := v\<rparr>]"
  proof (cases "driver_parameter (parameters d ! k)")
    case (Some r0)
    then have "(parameters d ! k)\<lparr>driver_parameter := Some r\<rparr> = parameters d ! k" "d1 = d" using dr by (auto simp: driver_slot_def)
    then show ?thesis by (simp add: d'_def d2_def upd_parameter_def)
  next
    case None
    then show ?thesis using dr assms(4) by (auto simp: d'_def d2_def driver_slot_def Let_def upd_parameter_def)
  qed
  then have nth: "parameters d' ! j = (if j = k then (parameters d ! k)\<lparr>driver_parameter := Some r, par_is_set := True, par_value := v\<rparr> else parameters d ! j)"
    and len: "length (parameters d') = length (parameters d)" for j using assms(4) by (simp_all add: nth_list_update)
  have stat: "\<And>j. par_type (parameters d' ! j) = par_type (parameters d ! j) \<and> par_id (parameters d' ! j) = par_id (parameters d ! j) \<and>
      par_default (parameters d' ! j) = par_default (parameters d ! j) \<and> par_of_driver (parameters d' ! j) = par_of_driver (parameters d ! j)" and
    val: "\<And>j. par_is_set (parameters d' ! j) = (j = k \<or> par_is_set (parameters d ! j)) \<and>
      par_value (parameters d' ! j) = (if j = k then v else par_value (parameters d ! j))" and
    slot: "\<And>j. driver_parameter (parameters d' ! j) = (if j = k then Some r else driver_parameter (parameters d ! j))"
    by (simp_all add: nth)
  have "same_parameters d0 d'" using assms(1) len stat by (simp add: same_parameters_def)
  moreover have "values_ok d' (g(k := Some v))" using assms(3) len stat val by (auto simp: values_ok_def split: option.splits)
  moreover have "slots_ok d' (f(k := Some v))"
  proof (cases "driver_parameter (parameters d ! k)")
    case (Some r0)
    then have r: "r0 = r" "d1 = d" using dr by (simp_all add: driver_slot_def)
    have k: "k \<in> set ks" using ks(2,3) assms(4) Some by auto
    have other: "the (driver_parameter (parameters d ! j)) \<noteq> r" if "j \<in> set ks" "j \<noteq> k" for j
    proof -
      have inj: "inj_on (\<lambda>k. the (driver_parameter (parameters d ! k))) (set ks)" using ks(4,5) by (simp add: distinct_map)
      show ?thesis using inj_onD [OF inj, of j k] that k Some r(1) by auto
    qed
    have id: "fst (param_mem d r) = par_id (parameters d ! k)" using ks(7) k Some r(1) by fastforce
    have mem: "param_mem d' = (param_mem d)(r := (par_id (parameters d ! k), y))" "set_parameters d' = set_parameters d" "next_param d' = next_param d"
      using id by (simp_all add: d'_def d2_def r(2) upd_parameter_nth)
    have refs: "driver_parameter (parameters d' ! j) = driver_parameter (parameters d ! j)" for j using slot Some r(1) by simp
    have "\<exists>y. driver_value (par_type (parameters d' ! j)) (the ((f(k := Some v)) j)) = Value y \<and>
        param_mem d' (the (driver_parameter (parameters d' ! j))) = (par_id (parameters d' ! j), y)" if j: "j \<in> set ks" for j
      using ks(7) j other [OF j] stat refs assms(5) Some r(1) by (cases "j = k") (simp_all add: mem(1))
    moreover have "set ks = {j. j < length (parameters d') \<and> (f(k := Some v)) j \<noteq> None}" using ks(2) k len by auto
    moreover have "driver_parameter (parameters d' ! j) = None \<longleftrightarrow> (f(k := Some v)) j = None" if "j < length (parameters d')" for j
      using ks(3) that len refs Some by auto
    ultimately show ?thesis using ks(1,4-6) refs mem unfolding slots_ok_def by (intro exI [of _ ks]) simp
  next
    case None
    have r: "r = next_param d" using dr None by (auto simp: driver_slot_def Let_def)
    have k: "k \<notin> set ks" using ks(2,3) assms(4) None by auto
    have new: "r \<notin> set (set_parameters d)" using ks(6) r by auto
    have mem: "param_mem d' = (param_mem d)(r := (par_id (parameters d ! k), y))" "set_parameters d' = set_parameters d @ [r]" "next_param d' = Suc r"
      using dr None r by (auto simp: d'_def d2_def driver_slot_def Let_def upd_parameter_nth jack_slist_append_snoc)
    have refs: "driver_parameter (parameters d' ! j) = driver_parameter (parameters d ! j)" if "j \<in> set ks" for j using slot that k by auto
    have other: "the (driver_parameter (parameters d ! j)) \<noteq> r" if "j \<in> set ks" for j using new ks(4) that by auto
    have "\<exists>y. driver_value (par_type (parameters d' ! j)) (the ((f(k := Some v)) j)) = Value y \<and>
        param_mem d' (the (driver_parameter (parameters d' ! j))) = (par_id (parameters d' ! j), y)" if j: "j \<in> set (ks @ [k])" for j
    proof (cases "j = k")
      case False
      then have "j \<in> set ks" using j by simp
      then show ?thesis using ks(7) other refs stat False by (simp add: mem(1))
    qed (use slot stat assms(5) in \<open>simp add: mem(1)\<close>)
    moreover have "set (ks @ [k]) = {j. j < length (parameters d') \<and> (f(k := Some v)) j \<noteq> None}" using ks(2) k len assms(4) by auto
    moreover have "driver_parameter (parameters d' ! j) = None \<longleftrightarrow> (f(k := Some v)) j = None" if "j < length (parameters d')" for j
      using ks(3) that len slot by auto
    moreover have "set_parameters d' = map (\<lambda>k. the (driver_parameter (parameters d' ! k))) (ks @ [k])"
      using mem(2) ks(4) refs slot by simp
    moreover have "distinct (set_parameters d')" "\<forall>r \<in> set (set_parameters d'). r < next_param d'" using mem ks(5,6) new r by auto
    moreover have "distinct (ks @ [k])" using ks(1) k by simp
    ultimately show ?thesis unfolding slots_ok_def by blast
  qed
  ultimately show ?thesis using run by blast
qed

lemma run_steps:
  assumes "same_parameters d0 d" "slots_ok d (ever_set h)" "values_ok d (chosen h)" "\<forall>x \<in> set ops. fits d0 x"
  shows "\<exists>d'. param_run ops d = Value d' \<and> same_parameters d0 d' \<and> slots_ok d' (ever_set (rev ops @ h)) \<and> values_ok d' (chosen (rev ops @ h))"
  using assms
proof (induction ops arbitrary: d h)
  case (Cons x ops)
  have "\<exists>d1. param_step x d = Value d1 \<and> same_parameters d0 d1 \<and> slots_ok d1 (ever_set (x # h)) \<and> values_ok d1 (chosen (x # h))"
  proof (cases x)
    case (SetValue k v)
    have "k < length (parameters d)" "\<exists>y. driver_value (par_type (parameters d ! k)) v = Value y"
      using Cons.prems(1,4) SetValue by (auto simp: fits_def same_parameters_def)
    then obtain d1 where "jackctl_parameter_set_value k v d = Value d1" "same_parameters d0 d1" "slots_ok d1 ((ever_set h)(k := Some v))"
      "values_ok d1 ((chosen h)(k := Some v))" using set_step [OF Cons.prems(1-3)] by blast
    moreover have "ever_set (x # h) = (ever_set h)(k := Some v)" "chosen (x # h) = (chosen h)(k := Some v)" using SetValue by auto
    ultimately show ?thesis using SetValue by simp
  next
    case (ResetValue k)
    have "k < length (parameters d)" using Cons.prems(1,4) ResetValue by (auto simp: fits_def same_parameters_def)
    moreover have "ever_set (x # h) = ever_set h" "chosen (x # h) = (chosen h)(k := None)" using ResetValue by auto
    ultimately show ?thesis using reset_step [OF Cons.prems(1-3)] ResetValue by simp
  qed
  then obtain d1 where d1: "param_step x d = Value d1" "same_parameters d0 d1" "slots_ok d1 (ever_set (x # h))" "values_ok d1 (chosen (x # h))" by blast
  show ?case using Cons.IH [OF d1(2-4)] Cons.prems(4) d1(1) by simp
qed simp

definition untouched :: "jackctl_parameter \<Rightarrow> bool" where
  "untouched p \<longleftrightarrow> par_of_driver p \<and> driver_parameter p = None \<and> \<not> par_is_set p \<and> par_value p = par_default p"

lemma add_params_untouched:
  "add_params xs ps = Value qs \<Longrightarrow> list_all untouched ps \<Longrightarrow> length qs = length ps + length xs \<and> list_all untouched qs"
proof (induction xs arbitrary: ps)
  case (Cons x xs)
  obtain t v where v: "value_of_driver (desc_type x) (desc_value x) = Value (t, v)"
    using Cons.prems(1) by (cases "value_of_driver (desc_type x) (desc_value x)") auto
  define ps' where "ps' = jackctl_add_parameter ps (desc_character x) (desc_name x) t v (desc_constraint x) True"
  have "add_params xs ps' = Value qs" using Cons.prems(1) v by (simp add: ps'_def)
  moreover have "list_all untouched ps'" "length ps' = Suc (length ps)"
    using Cons.prems(2) by (simp_all add: ps'_def jackctl_add_parameter_def jack_slist_append_snoc untouched_def [abs_def])
  ultimately show ?case using Cons.IH by simp
qed simp

lemma added_parameters:
  assumes "jackctl_add_driver_parameters descs new_driver = Value d"
  shows "same_parameters d d" "slots_ok d (ever_set [])" "values_ok d (chosen [])" "length (parameters d) = length descs"
proof -
  obtain ps where ps: "add_params descs [] = Value ps" "d = new_driver\<lparr>parameters := ps\<rparr>"
    using assms by (cases "add_params descs []") (auto simp: jackctl_add_driver_parameters_def new_driver_def)
  have l: "length ps = length descs" "list_all untouched ps" using add_params_untouched [OF ps(1)] by simp_all
  have u: "untouched (ps ! k)" if "k < length ps" for k using l(2) that by (simp add: list_all_length)
  have f: "parameters d = ps" "set_parameters d = []" using ps(2) by (simp_all add: new_driver_def)
  show "length (parameters d) = length descs" using l(1) f by simp
  show "same_parameters d d" "values_ok d (chosen [])" using u by (simp_all add: same_parameters_def values_ok_def f untouched_def)
  show "slots_ok d (ever_set [])" unfolding slots_ok_def f using u by (intro exI [of _ "[]"]) (simp add: untouched_def)
qed

lemma list_all2_map_same: "(\<And>k. k \<in> set ks \<Longrightarrow> P (f k) k) \<Longrightarrow> list_all2 P (map f ks) ks"
  by (induction ks) auto

text \<open>An application that sets and resets parameters of a driver in any order, to values that fit, reads back the values it chose, and
  defaults for the others. The driver is started with one option for every parameter that was ever set, which has the
  last value it was set to.\<close>

lemma parameters_follow:
  assumes "jackctl_add_driver_parameters descs new_driver = Value d0" "\<forall>x \<in> set ops. fits d0 x"
  shows "\<exists>d ks. param_run ops d0 = Value d \<and>
    (\<forall>k < length descs. par_is_set (parameters d ! k) = (chosen (rev ops) k \<noteq> None) \<and>
       par_value (parameters d ! k) = (case chosen (rev ops) k of None \<Rightarrow> par_default (parameters d0 ! k) | Some v \<Rightarrow> v)) \<and>
    distinct ks \<and> set ks = {k. k < length descs \<and> ever_set (rev ops) k \<noteq> None} \<and>
    list_all2 (\<lambda>(c, y) k. c = par_id (parameters d0 ! k) \<and> driver_value (par_type (parameters d0 ! k)) (the (ever_set (rev ops) k)) = Value y)
      (driver_options d) ks"
proof -
  note a = added_parameters [OF assms(1)]
  obtain d where d: "param_run ops d0 = Value d" "same_parameters d0 d" "slots_ok d (ever_set (rev ops))" "values_ok d (chosen (rev ops))"
    using run_steps [OF a(1-3) assms(2)] by auto
  have len: "length (parameters d) = length descs" "length (parameters d0) = length descs" using d(2) a(4) by (simp_all add: same_parameters_def)
  obtain ks where ks: "distinct ks" "set ks = {k. k < length (parameters d) \<and> ever_set (rev ops) k \<noteq> None}"
    "set_parameters d = map (\<lambda>k. the (driver_parameter (parameters d ! k))) ks"
    "\<forall>k \<in> set ks. \<exists>y. driver_value (par_type (parameters d ! k)) (the (ever_set (rev ops) k)) = Value y \<and>
        param_mem d (the (driver_parameter (parameters d ! k))) = (par_id (parameters d ! k), y)"
    using d(3) unfolding slots_ok_def by blast
  have "list_all2 (\<lambda>(c, y) k. c = par_id (parameters d0 ! k) \<and> driver_value (par_type (parameters d0 ! k)) (the (ever_set (rev ops) k)) = Value y)
      (driver_options d) ks"
    unfolding driver_options_def ks(3) map_map
  proof (rule list_all2_map_same)
    fix k assume k: "k \<in> set ks"
    then have "k < length (parameters d0)" using ks(2) len by simp
    then show "(\<lambda>(c, y) k. c = par_id (parameters d0 ! k) \<and> driver_value (par_type (parameters d0 ! k)) (the (ever_set (rev ops) k)) = Value y)
      ((param_mem d \<circ> (\<lambda>k. the (driver_parameter (parameters d ! k)))) k) k"
      using ks(4) k d(2) by (auto simp: same_parameters_def)
  qed
  moreover have "par_is_set (parameters d ! k) = (chosen (rev ops) k \<noteq> None) \<and>
       par_value (parameters d ! k) = (case chosen (rev ops) k of None \<Rightarrow> par_default (parameters d0 ! k) | Some v \<Rightarrow> v)" if "k < length descs" for k
    using d(2,4) that len by (auto simp: values_ok_def same_parameters_def split: option.splits)
  ultimately show ?thesis using d(1) ks(1,2) len(1) by auto
qed

section \<open>A driver with a rate and a device\<close>

definition demo_descs :: "jack_driver_param_desc_t list" where
  "demo_descs =
     [\<lparr>desc_name = ''rate'', desc_character = CHR ''r'', desc_type = JackDriverParamInt, desc_value = DriverInt 48000, desc_constraint = None\<rparr>,
      \<lparr>desc_name = ''device'', desc_character = CHR ''d'', desc_type = JackDriverParamString, desc_value = DriverStr ''hw:0'', desc_constraint = None\<rparr>]"

text \<open>A parameter that was reset reads as its default and as not set, but the driver still gets the value from before.\<close>

lemma reset_not_seen_by_driver:
  "c_map (\<lambda>d. (par_is_set (parameters d ! 0), par_value (parameters d ! 0), driver_options d))
     (c_bind (jackctl_add_driver_parameters demo_descs new_driver) (param_run [SetValue 0 (ValueInt 96000), ResetValue 0])) =
   Value (False, ValueInt 48000, [(CHR ''r'', DriverInt 96000)])"
  by code_simp

text \<open>The interface admits strings of 127 characters, the structure of the driver has room for 63.\<close>

lemma long_string_overflows:
  "length (replicate 64 CHR ''x'') \<le> JACK_PARAM_STRING_MAX \<and>
   c_map driver_options (c_bind (jackctl_add_driver_parameters demo_descs new_driver) (param_run [SetValue 1 (ValueStr (replicate 64 CHR ''x''))])) = Undefined"
  by code_simp

lemma parameters_follow_witness:
  "\<exists>d ks. param_run [SetValue 1 (ValueStr ''hw:1''), SetValue 0 (ValueInt 96000), SetValue 1 (ValueStr ''hw:2'')]
      (new_driver\<lparr>parameters := case add_params demo_descs [] of Value ps \<Rightarrow> ps | _ \<Rightarrow> []\<rparr>) = Value d \<and>
    par_value (parameters d ! 1) = ValueStr ''hw:2'' \<and> distinct ks \<and> set ks = {0, 1 :: nat} \<and> length (driver_options d) = length ks"
proof -
  define d0 where "d0 = new_driver\<lparr>parameters := case add_params demo_descs [] of Value ps \<Rightarrow> ps | _ \<Rightarrow> []\<rparr>"
  have d0: "jackctl_add_driver_parameters demo_descs new_driver = Value d0"
    by (simp add: jackctl_add_driver_parameters_def d0_def demo_descs_def new_driver_def JACK_PARAM_STRING_MAX_def)
  let ?ops = "[SetValue 1 (ValueStr ''hw:1''), SetValue 0 (ValueInt 96000), SetValue 1 (ValueStr ''hw:2'')]"
  have f: "\<forall>x \<in> set ?ops. fits d0 x"
    by (simp add: fits_def d0_def demo_descs_def new_driver_def JACK_PARAM_STRING_MAX_def JACK_DRIVER_PARAM_STRING_MAX_def
        jackctl_add_parameter_def jack_slist_append_snoc)
  obtain d ks where d: "param_run ?ops d0 = Value d"
    "\<forall>k < length demo_descs. par_is_set (parameters d ! k) = (chosen (rev ?ops) k \<noteq> None) \<and>
       par_value (parameters d ! k) = (case chosen (rev ?ops) k of None \<Rightarrow> par_default (parameters d0 ! k) | Some v \<Rightarrow> v)" "distinct ks"
    "set ks = {k. k < length demo_descs \<and> ever_set (rev ?ops) k \<noteq> None}"
    "list_all2 (\<lambda>(c, y) k. c = par_id (parameters d0 ! k) \<and> driver_value (par_type (parameters d0 ! k)) (the (ever_set (rev ?ops) k)) = Value y)
      (driver_options d) ks"
    using parameters_follow [OF d0 f] by blast
  have v: "par_value (parameters d ! 1) = ValueStr ''hw:2''" using d(2) [rule_format, of 1] by (simp add: demo_descs_def)
  have l: "length (driver_options d) = length ks" by (rule list_all2_lengthD [OF d(5)])
  have "set ks = {0, 1}" unfolding d(4) by (auto simp: demo_descs_def split: if_splits)
  then show ?thesis using d(1,3) v l unfolding d0_def by blast
qed

end
