(* ===== verification/Spec2Isabelle.thy ===== *)
theory Spec2Isabelle
  imports Ringbuffer Port_Properties Transport_Properties MidiMix MidiPort_Properties Client_Properties
    Shm_Properties NetPacket_Properties NetMidi MidiPack Client_Chain Client_Ports Jackctl_Properties Control_Params
begin

text \<open>
  A verification of the server of the JACK audio connection kit (version 1), of the parts of its
  client library that share data with it, of the packets of its network driver and of the graph that its D-Bus service shows.

  \<^bold>\<open>The program.\<close> \<open>jackd\<close> holds a graph of clients. A client owns ports, ports are connected, and in
  every period of the sound card the server runs the clients in an order in which, as far as
  possible, every client comes after the ones that feed it. One thread of the server polls the
  sockets of the clients and answers their requests; another one is driven by the sound card and
  runs the process cycle. Both work on the same engine state, under the graph lock. Transport state and
  port buffers live in shared memory and are written by clients as well. Audio and MIDI go
  from client to client in port buffers; ring buffers join a client's own threads. A client has a thread that
  waits for events of the server and for its turn in the chain of FIFOs that the server lays through the sorted
  clients. All servers and clients of a machine find their memory through one registry. A control library
  follows ports and connections by name for a D-Bus service.

  \<^bold>\<open>Model.\<close> The state of the server is one record, \<open>jack_engine_t\<close>; clients, ports, connections and port
  types live in stores inside it, addressed by pointers of type \<open>nat\<close>, so that shared structures stay shared.
  Every C function is a function from state to state; undefined behaviour and failed assertions are
  values of the type \<open>c_result\<close> (\<open>Value\<close>, \<open>Undefined\<close>, \<open>AssertFailed\<close>), errors are the numbers the C code
  returns. Machine integers that can wrap are words of their width. Locks are not modelled: every
  operation that holds the graph lock is one step. What other programs, the kernel, the dynamic
  linker, the file system or a driver answer is an argument of the definition that asks, and so is
  memory that the code reads without having written it.

  \<^bold>\<open>Theories, in the order of their dependence.\<close>
  \<^item> \<open>Jack_Prelude\<close>: word types, \<open>c_result\<close>, block copies, lemmas on lists and words.
  \<^item> \<open>Ringbuffer\<close>: \<open>libjack/ringbuffer.c\<close>, every function. It implements a bounded queue
    (locale \<open>bounded_fifo\<close>): what is read is what was written, in order, under any sequence of calls.
  \<^item> \<open>JSList\<close>: \<open>jack/jslist.h\<close>; the merge sort permutes its list and sorts it after any comparison that
    the locale \<open>slist_compare\<close> admits, without requiring a total order.
  \<^item> \<open>Engine_Types\<close>: \<open>jack/internal.h\<close>, \<open>jack/engine.h\<close>, \<open>jack/port.h\<close>, \<open>jack/transport.h\<close> and the delivery of
    events to clients.
  \<^item> \<open>Engine_Graph\<close>: the graph functions of \<open>server/engine.c\<close> (feeds, sorting, cycle detection, latencies,
    connect and disconnect). \<open>Graph_Invariant\<close>, \<open>Graph_Core\<close>, \<open>Graph_Ops\<close>, \<open>Graph_Acyclic\<close>,
    \<open>Graph_Connect\<close>, \<open>Graph_Frame\<close> prove that connection lists, feeds lists and counters agree and
    that the constraints the sort works on are acyclic (locale \<open>feeds_graph\<close>); \<open>Graph_Properties\<close>
    states the requests against an abstract graph of port pairs, for all sequences of requests.
  \<^item> \<open>Transport\<close>: \<open>server/transengine.c\<close> and the transport functions of \<open>libjack/transclient.c\<close>.
    \<open>Transport_Inv\<close> shows the counters that the assertions in the code test to be right;
    \<open>Transport_Properties\<close> has the documented state machine, the timebase master, positions and time-outs.
  \<^item> \<open>Ports\<close>: registration of ports and port types and placement of buffers, \<open>server/engine.c\<close>.
    \<open>Ports_Inv\<close>, \<open>Port_Buffers\<close> and \<open>Port_Properties\<close>: no two ports share a byte of audio memory.
  \<^item> \<open>MidiPort\<close>: \<open>libjack/midiport.c\<close>, byte by byte. \<open>MidiPort_Inv\<close>, \<open>MidiPort_Properties\<close>,
    \<open>MidiMix\<close>: messages come back as written, and mixing ports merges them in the order of time.
  \<^item> \<open>Client_Engine\<close>: \<open>server/clientengine.c\<close>. \<open>Client_Graph\<close>, \<open>Client_Inv\<close>, \<open>Client_Ops\<close> and
    \<open>Client_Create\<close> carry the invariant of the whole server through creation, activation, failure
    and removal of clients.
  \<^item> \<open>Requests\<close>: \<open>do_request\<close> of \<open>server/engine.c\<close> with sessions, freewheeling and driver start and stop;
    \<open>Server_Ops\<close> shows that each operation keeps the invariant. \<open>Server_Calls\<close>: the calls of drivers and
    internal clients into the engine (\<open>engine_call\<close>); they take no client off the list.
  \<^item> \<open>Cycle\<close>: the process cycle of \<open>server/engine.c\<close>; \<open>Cycle_Inv\<close> shows that it keeps the invariant and
    which clients it runs.
  \<^item> \<open>Server_Thread\<close>: the sockets the server polls and the requests it serves.
  \<^item> \<open>Server_Properties\<close>, \<open>Client_Properties\<close>: the server as a transition system (\<open>server_step\<close>)
    and the theorems about all its states, about names, creation, activation, sessions and cycles.
  \<^item> \<open>Shm\<close>: \<open>libjack/shm.c\<close>, the registry of shared memory, on a machine of processes that start, fork and
    die at any moment. \<open>Shm_Inv\<close> and \<open>Shm_Properties\<close>: a server name has one owner while the owner lives, the
    sweep frees what dead processes left, new segments are disjoint.
  \<^item> \<open>NetPacket\<close>: \<open>drivers/netjack/netjack_packet.c\<close>, splitting frames into packets and the cache that joins
    them; \<open>NetPacket_Inv\<close>, \<open>NetPacket_Properties\<close>: fragments in any order give the frame back. \<open>NetMidi\<close>: MIDI inside of packets.
    \<open>MidiPack\<close>: \<open>drivers/alsa-midi/midi_pack.h\<close> and \<open>midi_unpack.h\<close>, raw MIDI streams with running status.
  \<^item> \<open>Client_Lib\<close>: the ports that \<open>libjack/client.c\<close> and \<open>libjack/port.c\<close> keep in a client.
    \<open>Client_Events\<close> and \<open>Client_Mirror\<close>: after the events of the server the connections a client reads from are those of the engine's
    graph. \<open>Client_Latency\<close>: latency ranges and the latency callback. \<open>Client_Ports\<close>: registration, connection
    requests, questions about ports and connections, aliases and monitoring, joined with the server's functions that answer.
  \<^item> \<open>Client_Thread\<close>: the thread of a client, its events, its turn in the chain and the wake-up of the next
    client. \<open>Client_Chain\<close>: the server's numbering of the chain and the clients' opening of FIFOs together
    give a chain in which every client writes to the FIFO the next one reads.
  \<^item> \<open>Patchbay\<close>: \<open>server/jackcontroller_iface_patchbay.c\<close>, the graph of the D-Bus service and its signals.
    \<open>Jackctl\<close>: the lists of \<open>server/jackctl.c\<close> that feed it. \<open>Patchbay_Inv\<close>, \<open>Jackctl_Inv\<close>: identifiers are unique, no
    pointer is left to something freed, and a listener that applies the signals has the graph.
    \<open>Jackctl_Properties\<close>: the reply shows exactly the ports and connections of the notifications.
  \<^item> \<open>Control_Params\<close>: the parameters of drivers in \<open>server/controlapi.c\<close>, what applications read back and
    what the driver is started with.

  \<^bold>\<open>Bounds and fuel.\<close> Loops that end are total functions or get fuel that is proved to be enough:
  the path search of the feeds relation (the number of clients, enough when the constraints are
  acyclic), the loop of \<open>jack_check_acyclic\<close> (the sum of all counters), the walk
  of \<open>jack_remove_clients\<close> along a list that it changes (\<open>(3 * n + 1) * (n + 1)\<close> rounds for \<open>n\<close> clients).
  The search for a free client name tries 99 numbers, as in the code. The wait for a chain of
  clients consumes a list of wake-ups; when that is used up the result is \<open>None\<close>, the loop that still waits. The
  loops of the client thread consume a list of poll rounds and one of cycles in the same way.

  \<^bold>\<open>Hypotheses.\<close> \<open>server_inv\<close> and \<open>server_ok\<close> are the invariants; they hold for the state the server
  starts in and are proved to be kept. \<open>driver_here\<close> says that the driver's client is on the list: the engine uses its
  record on every change of the graph, and has no means of going on without it. \<open>sound_request\<close> says that a client follows the protocol: it
  names ports within the array, ports and clients that belong to it, asks through a socket where the answer
  goes to one, and does not unload the driver's client. \<open>sound_client\<close> says that loaded code changes the engine
  through engine calls, and that new memory has 0 in the one field the code reads without having set it;
  \<open>sound_drivers\<close> says that slave drivers detach through engine calls and that freewheeling runs process cycles. None of
  these mentions the invariant as something that is kept. That an internal client can be loaded is a condition on the request where a result
  is claimed, since the code frees an unset pointer otherwise; \<open>sound_connection\<close> says that the answer to the creation of an internal client gets
  through, since the code otherwise leaves ports without an owner. Both are findings about the code.
  \<open>notified\<close> are the sequences of notifications in which a port is not announced while it is known, is dropped without
  connections and connected once to another; the engine's second announcement on reactivation is
  outside of it, and a lemma shows what it does. \<open>room\<close> says that a 64-bit identifier is left.
  \<open>readable\<close> says of a process that it can map the registry it finds, \<open>tidy\<close> of a machine that no \<open>ftruncate\<close> has failed.
  Each hypothesis is met by the concrete state of a witness.

  \<^bold>\<open>Not modelled.\<close> Floating point: audio mixing, encoding of audio in packets, load statistics, the frame timer,
  the fill level of the packet cache.
  Drivers (\<open>drivers/\<close>), which talk to hardware, apart from the packets and the raw MIDI above. The start and end of the engine with its threads,
  the rest of the control interfaces (signals, loading and starting in \<open>server/controlapi.c\<close> and \<open>server/jackctl.c\<close>, the other
  \<open>server/jackcontroller*.c\<close> and \<open>server/jackdbus.c\<close>), which are tables of options and calls into the operating system and other
  libraries. Of the client library the opening and closing of a client, requests that only forward
  their arguments, port ties, and the wrappers of threads and clocks. Of the registry the System V half, the creation of its
  semaphore and unmapping. Memory that cannot be allocated, except where the code answers with an error that
  other parts see. Memory ordering of the ring buffer: its operations are single steps.
\<close>

end
